(* ===== verification/Prelude.thy ===== *)
theory Prelude
  imports Complex_Main "HOL-Library.AList" "HOL-Library.Multiset" "HOL-Library.Product_Lexorder"
begin

text \<open>
  Shared vocabulary of the development: Python dictionaries as association lists in insertion
  order, fallible results as sums, Python's descending sort, and the generic lemmas the component
  theories use.  The collections declared here gather the facts that carry the component proofs:
  \<open>dict_simps\<close> for dictionary reasoning and \<open>sort_simps\<close> for the descending sort.
\<close>

named_theorems dict_simps "equations for Python dictionaries in insertion order"
named_theorems sort_simps "permutation facts of the sorts"

section \<open>Results\<close>

text \<open>A raised exception is \<open>Inl\<close>, a returned value \<open>Inr\<close>.\<close>

type_synonym ('e, 'a) result = "'e + 'a"

definition is_ok :: "('e, 'a) result \<Rightarrow> bool" where
  "is_ok r = (case r of Inl _ \<Rightarrow> False | Inr _ \<Rightarrow> True)"

lemma is_ok_simps [simp]: "is_ok (Inl e) = False" "is_ok (Inr x) = True"
  by (simp_all add: is_ok_def)

lemma is_ok_iff: "is_ok r \<longleftrightarrow> (\<exists>x. r = Inr x)"
  by (cases r) simp_all

section \<open>Dictionaries\<close>

text \<open>
  A Python \<open>dict\<close> keeps its keys in the order of first insertion: \<open>d[k] = v\<close> overwrites in
  place when the key is present and appends otherwise, which is what \<open>AList.update\<close> does;
  \<open>d.pop(k, None)\<close> is \<open>AList.delete\<close>, \<open>d.get(k)\<close> is \<open>map_of\<close>.
\<close>

type_synonym ('k, 'v) dict = "('k \<times> 'v) list"

abbreviation dict_get :: "('k, 'v) dict \<Rightarrow> 'k \<Rightarrow> 'v option" where
  "dict_get \<equiv> map_of"

abbreviation dict_put :: "'k \<Rightarrow> 'v \<Rightarrow> ('k, 'v) dict \<Rightarrow> ('k, 'v) dict" where
  "dict_put \<equiv> AList.update"

abbreviation dict_del :: "'k \<Rightarrow> ('k, 'v) dict \<Rightarrow> ('k, 'v) dict" where
  "dict_del \<equiv> AList.delete"

definition dict_keys :: "('k, 'v) dict \<Rightarrow> 'k list" where
  "dict_keys d = map fst d"

definition dict_has :: "('k, 'v) dict \<Rightarrow> 'k \<Rightarrow> bool" where
  "dict_has d k = (map_of d k \<noteq> None)"

definition dict_wf :: "('k, 'v) dict \<Rightarrow> bool" where
  "dict_wf d = distinct (map fst d)"

text \<open>\<open>d.update(e)\<close>, and a dict comprehension or \<open>dict(pairs)\<close> as updates of the empty dict.\<close>

definition dict_update :: "('k, 'v) dict \<Rightarrow> ('k, 'v) dict \<Rightarrow> ('k, 'v) dict" where
  "dict_update d e = fold (\<lambda>(k, v) acc. dict_put k v acc) e d"

definition dict_of_pairs :: "('k \<times> 'v) list \<Rightarrow> ('k, 'v) dict" where
  "dict_of_pairs ps = dict_update [] ps"

lemma dict_get_put [dict_simps]: "dict_get (dict_put k v d) k' = (if k' = k then Some v else dict_get d k')"
  by (simp add: update_conv')

lemma dict_get_del [dict_simps]: "dict_get (dict_del k d) k' = (if k' = k then None else dict_get d k')"
  by (simp add: delete_conv')

lemma dict_keys_put_present [dict_simps]:
  "k \<in> fst ` set d \<Longrightarrow> map fst (dict_put k v d) = map fst d"
  by (simp add: update_keys)

lemma dict_wf_Nil [simp]: "dict_wf []"
  by (simp add: dict_wf_def)

lemma dict_wf_put [simp, intro]: "dict_wf d \<Longrightarrow> dict_wf (dict_put k v d)"
  by (simp add: dict_wf_def distinct_update)

lemma dict_wf_del [simp, intro]: "dict_wf d \<Longrightarrow> dict_wf (dict_del k d)"
  by (simp add: dict_wf_def distinct_delete)

lemma dict_wf_update [simp, intro]: "dict_wf d \<Longrightarrow> dict_wf (dict_update d e)"
  unfolding dict_update_def by (induction e arbitrary: d) auto

lemma dict_wf_of_pairs [simp, intro]: "dict_wf (dict_of_pairs ps)"
  by (simp add: dict_of_pairs_def)

lemma dict_get_in: "dict_wf d \<Longrightarrow> (k, v) \<in> set d \<Longrightarrow> dict_get d k = Some v"
  by (simp add: dict_wf_def)

lemma dict_get_iff: "dict_wf d \<Longrightarrow> dict_get d k = Some v \<longleftrightarrow> (k, v) \<in> set d"
  by (simp add: dict_wf_def)

lemma dict_has_iff: "dict_has d k \<longleftrightarrow> k \<in> fst ` set d"
  by (metis dict_has_def domIff dom_map_of_conv_image_fst)

lemma dict_put_fresh: "k \<notin> fst ` set d \<Longrightarrow> dict_put k v d = d @ [(k, v)]"
  by (induction d) auto

lemma dict_update_distinct:
  assumes "distinct (map fst (d @ e))"
  shows "dict_update d e = d @ e"
  using assms
proof (induction e arbitrary: d)
  case Nil
  then show ?case by (simp add: dict_update_def)
next
  case (Cons x e)
  obtain k v where x: "x = (k, v)" by force
  from Cons.prems have fresh: "k \<notin> fst ` set d" by (auto simp: x)
  from Cons.prems have "distinct (map fst ((d @ [(k, v)]) @ e))" by (auto simp: x)
  from Cons.IH [OF this] show ?case
    by (simp add: dict_update_def x dict_put_fresh [OF fresh])
qed

lemma dict_of_pairs_distinct [dict_simps]: "distinct (map fst ps) \<Longrightarrow> dict_of_pairs ps = ps"
  by (simp add: dict_of_pairs_def dict_update_distinct)

lemma dict_get_update [dict_simps]:
  "dict_get (dict_update d e) k = (case dict_get (rev e) k of Some v \<Rightarrow> Some v | None \<Rightarrow> dict_get d k)"
proof (induction e arbitrary: d)
  case Nil
  then show ?case by (simp add: dict_update_def)
next
  case (Cons x e)
  obtain a b where x: "x = (a, b)" by force
  from Cons [of "dict_put a b d"] show ?case
    by (auto simp: dict_update_def x dict_simps map_add_def split: option.splits)
qed

text \<open>\<open>defaultdict(list)\<close> filled from a list of pairs.\<close>

definition group_values :: "('k \<times> 'v) list \<Rightarrow> ('k, 'v list) dict" where
  "group_values ps =
     fold (\<lambda>(k, v) d. dict_put k ((case dict_get d k of None \<Rightarrow> [] | Some vs \<Rightarrow> vs) @ [v]) d) ps []"

definition values_of :: "'k \<Rightarrow> ('k \<times> 'v) list \<Rightarrow> 'v list" where
  "values_of k ps = map snd (filter (\<lambda>p. fst p = k) ps)"

lemma group_values_get:
  "dict_get (group_values ps) k = (if k \<in> fst ` set ps then Some (values_of k ps) else None)"
proof (induction ps rule: rev_induct)
  case Nil
  show ?case by (simp add: group_values_def)
next
  case (snoc p ps)
  obtain a v where p: "p = (a, v)" by force
  have step: "group_values (ps @ [p])
      = dict_put a ((case dict_get (group_values ps) a of None \<Rightarrow> [] | Some vs \<Rightarrow> vs) @ [v]) (group_values ps)"
    by (simp add: group_values_def p)
  have none: "a \<notin> fst ` set ps \<Longrightarrow> values_of a ps = []"
    by (auto simp: values_of_def filter_empty_conv)
  show ?case
    unfolding step using snoc.IH none by (auto simp: dict_simps p values_of_def)
qed

lemma group_values_wf: "dict_wf (group_values ps)"
proof -
  have "dict_wf d \<Longrightarrow> dict_wf (fold (\<lambda>(k, v) d. dict_put k ((case dict_get d k of None \<Rightarrow> [] | Some vs \<Rightarrow> vs) @ [v]) d) ps d)" for d
    by (induction ps arbitrary: d) auto
  then show ?thesis by (simp add: group_values_def)
qed

lemma group_values_keys: "fst ` set (group_values ps) = fst ` set ps"
  using group_values_get [of ps] by (metis (no_types, lifting) dict_has_def dict_has_iff option.distinct(1) subsetI subset_antisym)

lemma group_values_in: "(k, vs) \<in> set (group_values ps) \<longleftrightarrow> k \<in> fst ` set ps \<and> vs = values_of k ps"
  using dict_get_iff [OF group_values_wf, of ps k vs] group_values_get [of ps k] by (auto split: if_splits)

section \<open>Sorting\<close>

text \<open>
  Python's sorts are stable, also with \<open>reverse=True\<close>, which keeps equal elements in their
  original order: sort the reversed list ascending and reverse the result.
\<close>

definition sort_desc_key :: "('a \<Rightarrow> 'b::linorder) \<Rightarrow> 'a list \<Rightarrow> 'a list" where
  "sort_desc_key f xs = rev (sort_key f (rev xs))"

lemma mset_sort_desc_key [simp, sort_simps]: "mset (sort_desc_key f xs) = mset xs"
  by (simp add: sort_desc_key_def)

lemma set_sort_desc_key [simp, sort_simps]: "set (sort_desc_key f xs) = set xs"
  by (simp add: sort_desc_key_def)

lemma length_sort_desc_key [simp, sort_simps]: "length (sort_desc_key f xs) = length xs"
  by (simp add: sort_desc_key_def)

lemma sort_desc_key_sorted: "sorted (map f (rev (sort_desc_key f xs)))"
  by (simp add: sort_desc_key_def)

section \<open>Lists\<close>

text \<open>\<open>enumerate(xs)\<close> as pairs of a value and its index.\<close>

definition indexed :: "'a list \<Rightarrow> ('a \<times> nat) list" where
  "indexed xs = zip xs [0..<length xs]"

lemma map_snd_indexed [simp]: "map snd (indexed xs) = [0..<length xs]"
  by (simp add: indexed_def)

lemma set_indexed: "set (indexed xs) = {(xs ! i, i) | i. i < length xs}"
  by (auto simp: indexed_def set_zip)

lemma mset_concat_update:
  assumes "i < length bs"
  shows "mset (concat (bs[i := ys])) + mset (bs ! i) = mset (concat bs) + mset ys"
  using assms
proof (induction bs arbitrary: i)
  case Nil
  then show ?case by simp
next
  case (Cons b bs)
  show ?case
  proof (cases i)
    case 0
    then show ?thesis by (simp add: ac_simps)
  next
    case (Suc j)
    with Cons show ?thesis by (simp add: union_assoc)
  qed
qed

lemma mset_concat_update_append:
  assumes "i < length bs"
  shows "mset (concat (bs[i := bs ! i @ ys])) = mset (concat bs) + mset ys"
  using mset_concat_update [OF assms, of "bs ! i @ ys"] by (simp add: ac_simps)

text \<open>A fold keeps an invariant that relates the elements consumed so far to the accumulator.\<close>

lemma fold_prefix_induct:
  assumes "P [] s"
    and "\<And>ys x t. x \<in> set xs \<Longrightarrow> P ys t \<Longrightarrow> P (ys @ [x]) (f x t)"
  shows "P xs (fold f xs s)"
  using assms(2)
proof (induction xs rule: rev_induct)
  case Nil
  show ?case by (simp add: assms(1))
next
  case (snoc x xs)
  have "P xs (fold f xs s)" by (rule snoc.IH) (rule snoc.prems, auto)
  then show ?case using snoc.prems by simp
qed

lemma sum_list_update_int:
  fixes xs :: "int list"
  assumes "i < length xs"
  shows "sum_list (xs[i := v]) = sum_list xs + v - xs ! i"
  using assms
proof (induction xs arbitrary: i)
  case Nil
  then show ?case by simp
next
  case (Cons x xs)
  then show ?case by (cases i) auto
qed

section \<open>Strings\<close>

text \<open>\<open>str(n)\<close> of an integer.\<close>

function str_of_nat :: "nat \<Rightarrow> string" where
  "str_of_nat n =
     (if n < 10 then [char_of (48 + n)] else str_of_nat (n div 10) @ [char_of (48 + n mod 10)])"
  by pat_completeness auto
termination by (relation "measure id") auto

declare str_of_nat.simps [simp del]

lemma str_of_nat_digits: "c \<in> set (str_of_nat n) \<Longrightarrow> \<exists>d<10. c = char_of (48 + d :: nat)"
proof (induction n rule: str_of_nat.induct)
  case (1 n)
  show ?case
  proof (cases "n < 10")
    case True
    with "1.prems" have "c = char_of (48 + n)" by (simp add: str_of_nat.simps [of n])
    with True show ?thesis by blast
  next
    case False
    with "1.prems" have "c \<in> set (str_of_nat (n div 10)) \<or> c = char_of (48 + n mod 10)"
      by (subst (asm) str_of_nat.simps) auto
    moreover have "n mod 10 < 10" by simp
    ultimately show ?thesis using "1.IH" [OF False] by blast
  qed
qed

text \<open>Reading digits back, leading zeros included.\<close>

definition digits_value :: "string \<Rightarrow> nat" where
  "digits_value s = foldl (\<lambda>v c. 10 * v + (of_char c - 48)) 0 s"

lemma digits_value_str: "digits_value (str_of_nat n) = n"
proof (induction n rule: str_of_nat.induct)
  case (1 n)
  show ?case
  proof (cases "n < 10")
    case True
    then show ?thesis by (simp add: str_of_nat.simps [of n] digits_value_def)
  next
    case False
    then have "digits_value (str_of_nat n) = 10 * digits_value (str_of_nat (n div 10)) + n mod 10"
      by (simp add: str_of_nat.simps [of n] digits_value_def)
    with "1.IH" [OF False] show ?thesis by simp
  qed
qed

lemma str_of_nat_inj: "str_of_nat m = str_of_nat n \<Longrightarrow> m = n"
  using digits_value_str by metis

definition str_of_int :: "int \<Rightarrow> string" where
  "str_of_int i = (if i < 0 then CHR ''-'' # str_of_nat (nat (- i)) else str_of_nat (nat i))"

lemma str_of_int_chars: "c \<in> set (str_of_int i) \<Longrightarrow> c = CHR ''-'' \<or> (\<exists>d<10. c = char_of (48 + d :: nat))"
  using str_of_nat_digits by (auto simp: str_of_int_def split: if_splits)

lemma digit_no_dash:
  assumes "d < 10"
  shows "(char_of (48 + d :: nat) :: char) \<noteq> CHR ''-''"
proof
  assume "char_of (48 + d :: nat) = CHR ''-''"
  then have "(of_char (char_of (48 + d :: nat) :: char) :: nat) = of_char CHR ''-''" by simp
  with assms show False by simp
qed

lemma str_of_int_inj: "str_of_int i = str_of_int j \<Longrightarrow> i = j"
proof -
  assume eq: "str_of_int i = str_of_int j"
  have nonempty: "str_of_nat n \<noteq> []" for n by (simp add: str_of_nat.simps [of n])
  have no_dash: "CHR ''-'' \<notin> set (str_of_nat n)" for n
    using str_of_nat_digits [of "CHR ''-''" n] digit_no_dash by metis
  have "i < 0 \<longleftrightarrow> hd (str_of_int i) = CHR ''-''" for i
    using no_dash nonempty by (metis list.sel(1) list.set_sel(1) str_of_int_def)
  with eq have "i < 0 \<longleftrightarrow> j < 0" by metis
  with eq have "str_of_nat (nat \<bar>i\<bar>) = str_of_nat (nat \<bar>j\<bar>)"
    by (cases "i < 0") (simp_all add: str_of_int_def)
  then have "nat \<bar>i\<bar> = nat \<bar>j\<bar>" by (rule str_of_nat_inj)
  with \<open>i < 0 \<longleftrightarrow> j < 0\<close> show "i = j" by linarith
qed

end
