(* ===== verification/Bin_Packing.thy ===== *)
theory Bin_Packing
  imports Prelude
begin

text \<open>
  Sequence packing for supervised fine-tuning, \<^verbatim>\<open>skyrl/train/dataset/bin_packing.py\<close>: the abstract
  packer with its post-pack adjustment (\<open>SeqPacker\<close>), the two strategies
  (\<open>FirstFitDecreasing\<close>, \<open>Balanced\<close>) and the factory.  A bin is a list of indices into the
  list of sequence lengths.  The locale \<open>seq_packer\<close> is the contract of the abstract method
  \<open>_pack_implementation\<close>; what \<open>pack\<close> promises on top of it is proved once there and
  interpreted for both strategies.
\<close>

section \<open>Data\<close>

datatype packing_strategy = FIRST_FIT_DECREASING | BALANCED

record packer =
  bin_capacity :: int
  min_bin_count :: "int option"
  bin_count_multiple :: "int option"

datatype pack_error =
    NegativeMinBinCount
  | NonPositiveMultiple
  | ExceedsCapacity int int
  | TooFewSequences int int
  | InsufficientToRedistribute
  | UnknownAlgorithm string

type_synonym bins = "nat list list"

text \<open>Entries of the heap of \<open>Balanced\<close>: Python tuples, compared token total first.\<close>

datatype heap_entry = HeapEntry (tokens: int) (bin_idx: nat)

instantiation heap_entry :: linorder
begin

definition less_eq_heap_entry :: "heap_entry \<Rightarrow> heap_entry \<Rightarrow> bool" where
  "less_eq_heap_entry a b \<longleftrightarrow> tokens a < tokens b \<or> tokens a = tokens b \<and> bin_idx a \<le> bin_idx b"

definition less_heap_entry :: "heap_entry \<Rightarrow> heap_entry \<Rightarrow> bool" where
  "less_heap_entry a b \<longleftrightarrow> tokens a < tokens b \<or> tokens a = tokens b \<and> bin_idx a < bin_idx b"

instance
  by intro_classes (auto simp: less_eq_heap_entry_def less_heap_entry_def intro: heap_entry.expand)

end

section \<open>The abstract packer\<close>

definition SeqPacker_init :: "int \<Rightarrow> int option \<Rightarrow> int option \<Rightarrow> (pack_error, packer) result" where
  "SeqPacker_init cap mbc bcm =
     (if (case mbc of Some m \<Rightarrow> m < 0 | None \<Rightarrow> False) then Inl NegativeMinBinCount
      else if (case bcm of Some m \<Rightarrow> m < 1 | None \<Rightarrow> False) then Inl NonPositiveMultiple
      else Inr \<lparr>bin_capacity = cap, min_bin_count = mbc, bin_count_multiple = bcm\<rparr>)"

fun validate_sequence_lengths :: "int \<Rightarrow> int list \<Rightarrow> (pack_error, unit) result" where
  "validate_sequence_lengths cap [] = Inr ()"
| "validate_sequence_lengths cap (l # ls) =
     (if l > cap then Inl (ExceedsCapacity l cap) else validate_sequence_lengths cap ls)"

text \<open>The bin count aimed at: at least the minimum, rounded up to the multiple.\<close>

definition target_bin_count :: "packer \<Rightarrow> int \<Rightarrow> int" where
  "target_bin_count p current =
     (let t = (case min_bin_count p of Some m \<Rightarrow> max current m | None \<Rightarrow> current)
      in case bin_count_multiple p of
           None \<Rightarrow> t
         | Some m \<Rightarrow> (let r = t mod m in if r \<noteq> 0 then t + (m - r) else t))"

text \<open>
  The redistribution loop.  \<open>srcs\<close> are the original bins not yet exhausted, largest first (the
  slice of \<open>bin_sizes\<close> from \<open>source_bin_idx\<close>); each new bin takes the last sequence of the first
  source that still has more than one.
\<close>

function redistribute :: "nat list \<Rightarrow> nat \<Rightarrow> nat \<Rightarrow> bins \<Rightarrow> (pack_error, bins) result" where
  "redistribute srcs new target bs =
     (if new \<ge> target then Inr bs
      else case srcs of
             [] \<Rightarrow> Inl InsufficientToRedistribute
           | s # ss \<Rightarrow>
               if length (bs ! s) > 1
               then redistribute (s # ss) (Suc new) target
                      (let b = bs ! s; moved = last b
                       in (bs[s := butlast b])[new := (bs[s := butlast b]) ! new @ [moved]])
               else redistribute ss new target bs)"
  by pat_completeness auto
termination
  by (relation "measure (\<lambda>(srcs, new, target, bs). length srcs + (target - new))") auto

declare redistribute.simps [simp del]

definition adjust_bin_count :: "packer \<Rightarrow> bins \<Rightarrow> (pack_error, bins) result" where
  "adjust_bin_count p bs =
     (let current = length bs; target = target_bin_count p (int current);
          total = sum_list (map length bs)
      in if target = int current then Inr bs
         else if int total < target then Inl (TooFewSequences target (int total))
         else let adjusted = bs @ replicate (nat (target - int current)) [];
                  bin_sizes = rev (sort (map (\<lambda>(b, i). (length b, i)) (indexed bs)))
              in redistribute (map snd bin_sizes) current (nat target) adjusted)"

section \<open>First fit decreasing\<close>

fun first_fit_index :: "int list \<Rightarrow> int \<Rightarrow> nat option" where
  "first_fit_index [] l = None"
| "first_fit_index (r # rs) l = (if r \<ge> l then Some 0 else map_option Suc (first_fit_index rs l))"

definition ffd_place :: "int \<Rightarrow> int \<times> nat \<Rightarrow> bins \<times> int list \<Rightarrow> bins \<times> int list" where
  "ffd_place cap x st =
     (case x of (l, idx) \<Rightarrow> case st of (bs, rem) \<Rightarrow>
        (case first_fit_index rem l of
           Some i \<Rightarrow> (bs[i := bs ! i @ [idx]], rem[i := rem ! i - l])
         | None \<Rightarrow> (bs @ [[idx]], rem @ [cap - l])))"

definition ffd_pack :: "int \<Rightarrow> int list \<Rightarrow> (pack_error, bins) result" where
  "ffd_pack cap ls =
     (case validate_sequence_lengths cap ls of
        Inl e \<Rightarrow> Inl e
      | Inr _ \<Rightarrow> Inr (fst (fold (ffd_place cap) (rev (sort (indexed ls))) ([], []))))"

section \<open>Balanced\<close>

text \<open>
  The heap is only ever read at its root, so it is kept as the ascending list of its entries:
  \<open>heap[0]\<close> is the head, \<open>heapreplace\<close> drops the head and inserts, \<open>heappush\<close> inserts.
\<close>

definition balanced_place :: "int \<Rightarrow> int \<times> nat \<Rightarrow> bins \<times> heap_entry list \<Rightarrow> bins \<times> heap_entry list" where
  "balanced_place cap x st =
     (case x of (l, idx) \<Rightarrow> case st of (bs, heap) \<Rightarrow>
        (let opened = (bs @ [[idx]], insort (HeapEntry l (length bs)) heap)
         in case heap of
              [] \<Rightarrow> opened
            | HeapEntry t i # rest \<Rightarrow>
                if t + l \<le> cap then (bs[i := bs ! i @ [idx]], insort (HeapEntry (t + l) i) rest)
                else opened))"

definition balanced_pack :: "int \<Rightarrow> int list \<Rightarrow> (pack_error, bins) result" where
  "balanced_pack cap ls =
     Inr (fst (fold (balanced_place cap) (sort_desc_key fst (indexed ls)) ([], [])))"

section \<open>Packing and the factory\<close>

definition pack_implementation :: "packing_strategy \<Rightarrow> int \<Rightarrow> int list \<Rightarrow> (pack_error, bins) result" where
  "pack_implementation alg = (case alg of FIRST_FIT_DECREASING \<Rightarrow> ffd_pack | BALANCED \<Rightarrow> balanced_pack)"

definition pack :: "packing_strategy \<Rightarrow> packer \<Rightarrow> int list \<Rightarrow> (pack_error, bins) result" where
  "pack alg p ls =
     (case pack_implementation alg (bin_capacity p) ls of
        Inl e \<Rightarrow> Inl e
      | Inr bs \<Rightarrow> adjust_bin_count p bs)"

text \<open>The name lookup \<open>PackingStrategy[algorithm.upper()]\<close> on ASCII names.\<close>

definition upper_char :: "char \<Rightarrow> char" where
  "upper_char c = (let n = (of_char c :: nat) in if 97 \<le> n \<and> n \<le> 122 then char_of (n - 32) else c)"

definition strategy_of_name :: "string \<Rightarrow> packing_strategy option" where
  "strategy_of_name s =
     (let u = map upper_char s
      in if u = ''FIRST_FIT_DECREASING'' then Some FIRST_FIT_DECREASING
         else if u = ''BALANCED'' then Some BALANCED else None)"

definition make_seq_packer ::
  "string \<Rightarrow> int \<Rightarrow> int option \<Rightarrow> int option \<Rightarrow> (pack_error, packing_strategy \<times> packer) result" where
  "make_seq_packer name cap mbc bcm =
     (case strategy_of_name name of
        None \<Rightarrow> Inl (UnknownAlgorithm name)
      | Some alg \<Rightarrow>
          (case SeqPacker_init cap mbc bcm of Inl e \<Rightarrow> Inl e | Inr p \<Rightarrow> Inr (alg, p)))"

section \<open>Adjustment\<close>

lemma mset_split_last: "xs \<noteq> [] \<Longrightarrow> mset xs = mset (butlast xs) + {#last xs#}"
  by (induction xs rule: rev_induct) auto

definition redist_inv :: "nat list \<Rightarrow> nat \<Rightarrow> nat \<Rightarrow> bins \<Rightarrow> bool" where
  "redist_inv srcs new target bs \<longleftrightarrow>
     length bs = target \<and> new \<le> target \<and> (\<forall>s\<in>set srcs. s < new) \<and>
     (\<forall>i<new. bs ! i \<noteq> []) \<and> (\<forall>i. new \<le> i \<and> i < target \<longrightarrow> bs ! i = [])"

definition move_last :: "nat \<Rightarrow> nat \<Rightarrow> bins \<Rightarrow> bins" where
  "move_last s new bs = (bs[s := butlast (bs ! s)])[new := bs ! new @ [last (bs ! s)]]"

lemma redistribute_move:
  assumes "redist_inv (s # ss) new target bs" "new < target"
  shows "redistribute (s # ss) new target bs =
     (if length (bs ! s) > 1 then redistribute (s # ss) (Suc new) target (move_last s new bs)
      else redistribute ss new target bs)"
proof -
  from assms have "s \<noteq> new" by (auto simp: redist_inv_def)
  with assms(2) show ?thesis
    by (subst redistribute.simps) (simp add: move_last_def Let_def)
qed

lemma redist_inv_move:
  assumes "redist_inv (s # ss) new target bs" "new < target" "length (bs ! s) > 1"
  shows "redist_inv (s # ss) (Suc new) target (move_last s new bs)"
proof -
  have "butlast (bs ! s) \<noteq> []" using assms(3) by (cases "bs ! s" rule: rev_cases) auto
  with assms show ?thesis
    by (auto simp: redist_inv_def move_last_def nth_list_update less_Suc_eq)
qed

lemma redist_inv_skip: "redist_inv (s # ss) new target bs \<Longrightarrow> redist_inv ss new target bs"
  by (simp add: redist_inv_def)

lemma mset_concat_move:
  assumes "redist_inv (s # ss) new target bs" "new < target" "length (bs ! s) > 1"
  shows "mset (concat (move_last s new bs)) = mset (concat bs)"
proof -
  from assms have s: "s < length bs" "new < length bs" "s \<noteq> new" "bs ! new = []" "bs ! s \<noteq> []"
    by (auto simp: redist_inv_def)
  let ?b1 = "bs[s := butlast (bs ! s)]"
  have 1: "mset (concat ?b1) + mset (bs ! s) = mset (concat bs) + mset (butlast (bs ! s))"
    by (rule mset_concat_update [OF s(1)])
  have 2: "mset (concat (?b1[new := [last (bs ! s)]])) = mset (concat ?b1) + {#last (bs ! s)#}"
    using mset_concat_update [of new ?b1 "[last (bs ! s)]"] s by simp
  have 3: "mset (bs ! s) = mset (butlast (bs ! s)) + {#last (bs ! s)#}"
    by (rule mset_split_last [OF s(5)])
  from 1 [unfolded 3] have "mset (concat ?b1) + {#last (bs ! s)#} = mset (concat bs)"
    by (simp add: ac_simps)
  with 2 show ?thesis using s by (simp add: move_last_def)
qed

definition part_of :: "bins \<Rightarrow> nat list \<Rightarrow> bool" where
  "part_of bs b' \<longleftrightarrow> (\<exists>b\<in>set bs. mset b' \<subseteq># mset b)"

lemma part_of_move:
  assumes inv: "redist_inv (s # ss) new target bs" "new < target" "length (bs ! s) > 1"
    and "part_of (move_last s new bs) b"
  shows "part_of bs b"
proof -
  from inv have s: "s < length bs" "new < length bs" "s \<noteq> new" "bs ! new = []" "bs ! s \<noteq> []"
    by (auto simp: redist_inv_def)
  from assms(4) obtain c where c: "c \<in> set (move_last s new bs)" "mset b \<subseteq># mset c"
    by (auto simp: part_of_def)
  from c(1) obtain i where i: "i < length bs" "c = move_last s new bs ! i"
    by (auto simp: in_set_conv_nth move_last_def)
  have "mset c \<subseteq># mset (bs ! s) \<or> c = bs ! i"
  proof (cases "i = s \<or> i = new")
    case True
    then show ?thesis using i s mset_split_last [OF s(5)] by (auto simp: move_last_def)
  next
    case False
    then show ?thesis using i by (simp add: move_last_def)
  qed
  then obtain j where "j < length bs" "mset c \<subseteq># mset (bs ! j)" using s i by auto
  with c(2) show ?thesis
    unfolding part_of_def by (meson nth_mem subset_mset.order_trans)
qed

lemma redistribute_inv:
  assumes "redistribute srcs new target bs = Inr bs'" "redist_inv srcs new target bs"
  shows "redist_inv [] target target bs' \<and> mset (concat bs') = mset (concat bs)
    \<and> (\<forall>b. part_of bs' b \<longrightarrow> part_of bs b)"
  using assms
proof (induction srcs new target bs rule: redistribute.induct)
  case (1 srcs new target bs)
  show ?case
  proof (cases "new \<ge> target")
    case True
    with "1.prems" show ?thesis
      by (subst (asm) redistribute.simps) (auto simp: redist_inv_def)
  next
    case False
    with "1.prems"(1) obtain s ss where srcs: "srcs = s # ss"
      by (subst (asm) redistribute.simps) (auto split: list.splits)
    note inv = "1.prems"(2) [unfolded srcs]
    from False have lt: "new < target" by simp
    note step = redistribute_move [OF inv lt]
    have sn: "s \<noteq> new" using inv by (auto simp: redist_inv_def)
    show ?thesis
    proof (cases "length (bs ! s) > 1")
      case True
      have eq: "(let b = bs ! s; moved = last b
         in (bs[s := butlast b])[new := (bs[s := butlast b]) ! new @ [moved]]) = move_last s new bs"
        using sn by (simp add: move_last_def Let_def)
      from "1.IH"(1) [OF False srcs True, unfolded eq] "1.prems"(1) step True
        redist_inv_move [OF inv lt True] mset_concat_move [OF inv lt True] part_of_move [OF inv lt True]
      show ?thesis by (simp add: srcs)
    next
      case nomore: False
      from "1.IH"(2) [OF False srcs nomore] "1.prems"(1) step nomore redist_inv_skip [OF inv]
      show ?thesis by (simp add: srcs)
    qed
  qed
qed

text \<open>Sequences that can still leave the sources: all but one of each.\<close>

definition spare :: "nat list \<Rightarrow> bins \<Rightarrow> nat" where
  "spare srcs bs = (\<Sum>s\<leftarrow>srcs. length (bs ! s) - 1)"

lemma spare_move:
  assumes "redist_inv (s # ss) new target bs" "new < target" "length (bs ! s) > 1" "distinct (s # ss)"
  shows "Suc (spare (s # ss) (move_last s new bs)) = spare (s # ss) bs"
proof -
  from assms have s: "s < length bs" "new < length bs" "s \<noteq> new" "new \<notin> set ss" "s \<notin> set ss"
    by (auto simp: redist_inv_def)
  have "spare ss (move_last s new bs) = spare ss bs"
    unfolding spare_def
    using s by (intro arg_cong [of _ _ sum_list] map_cong refl) (auto simp: move_last_def nth_list_update)
  moreover have "length (move_last s new bs ! s) = length (bs ! s) - 1"
    using s by (simp add: move_last_def)
  ultimately have "spare (s # ss) (move_last s new bs) = length (bs ! s) - 2 + spare ss bs"
    by (simp add: spare_def)
  then show ?thesis using assms(3) by (simp add: spare_def)
qed

lemma redistribute_total:
  assumes "redist_inv srcs new target bs" "distinct srcs" "target - new \<le> spare srcs bs"
  shows "is_ok (redistribute srcs new target bs)"
  using assms
proof (induction srcs new target bs rule: redistribute.induct)
  case (1 srcs new target bs)
  show ?case
  proof (cases "new \<ge> target")
    case True
    then show ?thesis by (subst redistribute.simps) simp
  next
    case False
    with "1.prems" obtain s ss where srcs: "srcs = s # ss"
      by (cases srcs) (auto simp: spare_def)
    note inv = "1.prems"(1) [unfolded srcs]
    from False have lt: "new < target" by simp
    note step = redistribute_move [OF inv lt]
    have sn: "s \<noteq> new" using inv by (auto simp: redist_inv_def)
    show ?thesis
    proof (cases "length (bs ! s) > 1")
      case True
      have eq: "(let b = bs ! s; moved = last b
         in (bs[s := butlast b])[new := (bs[s := butlast b]) ! new @ [moved]]) = move_last s new bs"
        using sn by (simp add: move_last_def Let_def)
      have "target - Suc new \<le> spare (s # ss) (move_last s new bs)"
        using spare_move [OF inv lt True] "1.prems"(2,3) srcs lt by simp
      with "1.IH"(1) [OF False srcs True, unfolded eq] step True redist_inv_move [OF inv lt True]
        "1.prems"(2) srcs show ?thesis by simp
    next
      case nomore: False
      then have "spare ss bs = spare (s # ss) bs" by (simp add: spare_def)
      with "1.IH"(2) [OF False srcs nomore] "1.prems"(2,3) step nomore redist_inv_skip [OF inv] srcs
      show ?thesis by simp
    qed
  qed
qed

definition packer_wf :: "packer \<Rightarrow> bool" where
  "packer_wf p \<longleftrightarrow> (\<forall>m. min_bin_count p = Some m \<longrightarrow> 0 \<le> m) \<and> (\<forall>m. bin_count_multiple p = Some m \<longrightarrow> 1 \<le> m)"

lemma SeqPacker_init_wf: "SeqPacker_init cap mbc bcm = Inr p \<Longrightarrow> packer_wf p"
  by (auto simp: SeqPacker_init_def packer_wf_def split: if_splits option.splits)

lemma target_bounds:
  assumes "packer_wf p"
  shows "n \<le> target_bin_count p n"
    and "min_bin_count p = Some m \<Longrightarrow> m \<le> target_bin_count p n"
    and "bin_count_multiple p = Some k \<Longrightarrow> k dvd target_bin_count p n"
proof -
  define t where "t = (case min_bin_count p of Some m \<Rightarrow> max n m | None \<Rightarrow> n)"
  have t: "n \<le> t" "min_bin_count p = Some m \<Longrightarrow> m \<le> t" by (auto simp: t_def split: option.splits)
  have ge: "t \<le> target_bin_count p n"
  proof (cases "bin_count_multiple p")
    case (Some k)
    with assms have "1 \<le> k" by (auto simp: packer_wf_def)
    then show ?thesis using pos_mod_bound [of k t] less_imp_le [of "t mod k" k]
      by (simp add: target_bin_count_def t_def [symmetric] Some Let_def)
  qed (simp add: target_bin_count_def t_def [symmetric])
  show "n \<le> target_bin_count p n" using ge t by simp
  show "min_bin_count p = Some m \<Longrightarrow> m \<le> target_bin_count p n" using ge t by simp
  assume k: "bin_count_multiple p = Some k"
  have "t + (k - t mod k) = k * (t div k + 1)"
    using mult_div_mod_eq [of k t] by (simp add: algebra_simps)
  then have "k dvd t + (k - t mod k)" by (metis dvd_triv_left)
  with k show "k dvd target_bin_count p n"
    by (auto simp: target_bin_count_def t_def [symmetric] Let_def mod_eq_0_iff_dvd)
qed

lemma sum_list_minus_one:
  "\<forall>x\<in>set xs. 1 \<le> f x \<Longrightarrow> (\<Sum>x\<leftarrow>xs. f x - (1::nat)) + length xs = (\<Sum>x\<leftarrow>xs. f x)"
  by (induction xs) auto

lemma spare_start:
  assumes "mset srcs = mset [0..<length bs]" "[] \<notin> set bs"
  shows "spare srcs (bs @ rest) + length bs = length (concat bs)"
proof -
  have "spare srcs (bs @ rest) = spare [0..<length bs] (bs @ rest)"
    using arg_cong [OF assms(1), of "\<lambda>m. \<Sum>s\<in>#m. length ((bs @ rest) ! s) - 1"]
    by (simp only: spare_def mset_map [symmetric] sum_mset_sum_list)
  also have "\<dots> = (\<Sum>b\<leftarrow>bs. length b - 1)"
  proof -
    have "map (\<lambda>s. length ((bs @ rest) ! s) - 1) [0..<length bs] = map (\<lambda>b. length b - 1) bs"
      by (rule nth_equalityI) (auto simp: nth_append)
    then show ?thesis by (simp add: spare_def)
  qed
  finally have 1: "spare srcs (bs @ rest) = (\<Sum>b\<leftarrow>bs. length b - 1)" .
  from assms(2) have "\<forall>b\<in>set bs. 1 \<le> length b" by (auto simp: Suc_le_eq)
  from sum_list_minus_one [OF this] 1 show ?thesis by (simp add: length_concat)
qed

lemma adjust_sources:
  "mset (map snd (rev (sort (map (\<lambda>(b, i). (length b, i)) (indexed bs))))) = mset [0..<length bs]"
proof -
  have "mset (map snd (rev (sort xs))) = mset (map snd xs)" for xs :: "(nat \<times> nat) list"
    by (simp only: mset_map mset_rev mset_sort)
  moreover have "map snd (map (\<lambda>(b, i). (length b, i)) (indexed bs)) = map snd (indexed bs)"
    by (intro nth_equalityI) (auto simp: split_def indexed_def)
  ultimately show ?thesis by (simp only: map_snd_indexed)
qed

lemma adjust_ok:
  assumes wf: "packer_wf p" and ne: "[] \<notin> set bs"
    and room: "target_bin_count p (int (length bs)) \<le> int (length (concat bs))"
  obtains bs' where "adjust_bin_count p bs = Inr bs'"
    "int (length bs') = target_bin_count p (int (length bs))" "[] \<notin> set bs'"
    "mset (concat bs') = mset (concat bs)" "\<And>b. b \<in> set bs' \<Longrightarrow> part_of bs b"
proof -
  define tgt where "tgt = target_bin_count p (int (length bs))"
  define srcs where "srcs = map snd (rev (sort (map (\<lambda>(b, i). (length b, i)) (indexed bs))))"
  define adj where "adj = bs @ replicate (nat (tgt - int (length bs))) []"
  have ge: "int (length bs) \<le> tgt" using target_bounds(1) [OF wf] by (simp add: tgt_def)
  have perm: "mset srcs = mset [0..<length bs]" unfolding srcs_def by (rule adjust_sources)
  show thesis
  proof (cases "tgt = int (length bs)")
    case True
    show ?thesis
      by (rule that [of bs]) (use True ne in \<open>auto simp: adjust_bin_count_def tgt_def part_of_def\<close>)
  next
    case False
    have "set srcs = {0..<length bs}" using mset_eq_setD [OF perm] by simp
    then have inv: "redist_inv srcs (length bs) (nat tgt) adj"
      using ge ne unfolding redist_inv_def adj_def
      by (auto simp: nth_append in_set_conv_nth)
    have dist: "distinct srcs" using perm by (metis distinct_upt mset_eq_imp_distinct_iff)
    have "nat tgt - length bs \<le> spare srcs adj"
      using spare_start [OF perm ne, of "replicate (nat (tgt - int (length bs))) []"] room
      by (simp add: adj_def tgt_def)
    from redistribute_total [OF inv dist this] obtain bs' where
      bs': "redistribute srcs (length bs) (nat tgt) adj = Inr bs'" by (auto simp: is_ok_iff)
    note out = redistribute_inv [OF bs' inv]
    have "adjust_bin_count p bs = Inr bs'"
      using False room bs' unfolding adjust_bin_count_def Let_def tgt_def [symmetric] adj_def srcs_def
      by (simp add: length_concat)
    moreover have "int (length bs') = tgt" using out ge by (auto simp: redist_inv_def)
    moreover have ne': "[] \<notin> set bs'"
      using out by (auto simp: redist_inv_def in_set_conv_nth)
    moreover have "mset (concat bs') = mset (concat bs)"
      using out by (simp add: adj_def)
    moreover have "part_of bs b" if "b \<in> set bs'" for b
    proof -
      from that have "part_of bs' b" by (auto simp: part_of_def)
      with out obtain c where c: "c \<in> set adj" "mset b \<subseteq># mset c" by (auto simp: part_of_def)
      moreover have "b \<noteq> []" using that ne' by auto
      ultimately have "c \<in> set bs" by (auto simp: adj_def)
      with c show ?thesis by (auto simp: part_of_def)
    qed
    ultimately show ?thesis using that [of bs'] by (simp add: tgt_def)
  qed
qed

section \<open>The contract of a packing strategy\<close>

definition load :: "int list \<Rightarrow> nat list \<Rightarrow> int" where
  "load ls b = (\<Sum>i\<leftarrow>b. ls ! i)"

lemma load_simps [simp]: "load ls [] = 0" "load ls (i # b) = ls ! i + load ls b"
    "load ls (b @ c) = load ls b + load ls c"
  by (simp_all add: load_def)

lemma load_mono:
  assumes "mset b' \<subseteq># mset b" "\<forall>i\<in>set b. 0 \<le> ls ! i"
  shows "load ls b' \<le> load ls b"
proof -
  obtain m where m: "mset b = mset b' + m" using assms(1) by (auto simp: subset_mset.le_iff_add)
  have pos: "\<forall>i\<in>#n. 0 \<le> ls ! i \<Longrightarrow> (\<Sum>i\<in>#n. ls ! i) \<ge> 0" for n by (induction n) auto
  have "\<forall>i\<in>#m. 0 \<le> ls ! i" using assms(2) arg_cong [OF m, of set_mset] by auto
  note pos [OF this]
  moreover have "load ls b = load ls b' + (\<Sum>i\<in>#m. ls ! i)"
    using arg_cong [OF m, of "\<lambda>x. \<Sum>i\<in>#x. ls ! i"]
    by (simp add: load_def sum_mset_sum_list [symmetric])
  ultimately show ?thesis by simp
qed

definition overflow_pairwise :: "int \<Rightarrow> int list \<Rightarrow> bins \<Rightarrow> bool" where
  "overflow_pairwise cap ls bs \<longleftrightarrow> (\<forall>j<length bs. \<forall>i<j. cap < load ls (bs ! i) + load ls (bs ! j))"

locale seq_packer =
  fixes impl :: "int \<Rightarrow> int list \<Rightarrow> (pack_error, bins) result"
    and fits :: "int \<Rightarrow> int list \<Rightarrow> nat list \<Rightarrow> bool"
  assumes partition: "impl cap ls = Inr bs \<Longrightarrow> mset (concat bs) = mset [0..<length ls]"
    and nonempty: "impl cap ls = Inr bs \<Longrightarrow> [] \<notin> set bs"
    and within: "impl cap ls = Inr bs \<Longrightarrow> b \<in> set bs \<Longrightarrow> fits cap ls b"
    and fits_part: "\<forall>l\<in>set ls. 0 \<le> l \<Longrightarrow> fits cap ls b \<Longrightarrow> set b \<subseteq> {..<length ls} \<Longrightarrow>
      mset b' \<subseteq># mset b \<Longrightarrow> b' \<noteq> [] \<Longrightarrow> fits cap ls b'"
begin

definition packed :: "packer \<Rightarrow> int list \<Rightarrow> (pack_error, bins) result" where
  "packed p ls = (case impl (bin_capacity p) ls of Inl e \<Rightarrow> Inl e | Inr bs \<Rightarrow> adjust_bin_count p bs)"

lemma total: "impl cap ls = Inr bs \<Longrightarrow> length (concat bs) = length ls"
  by (metis diff_zero length_upt partition size_mset)

lemma packed_result:
  assumes wf: "packer_wf p" and i: "impl (bin_capacity p) ls = Inr bs"
  shows "if target_bin_count p (int (length bs)) \<le> int (length ls)
    then \<exists>bs'. packed p ls = Inr bs' \<and> mset (concat bs') = mset [0..<length ls] \<and> [] \<notin> set bs' \<and>
           int (length bs') = target_bin_count p (int (length bs)) \<and>
           ((\<forall>l\<in>set ls. 0 \<le> l) \<longrightarrow> (\<forall>b\<in>set bs'. fits (bin_capacity p) ls b))
    else packed p ls = Inl (TooFewSequences (target_bin_count p (int (length bs))) (int (length ls)))"
proof (cases "target_bin_count p (int (length bs)) \<le> int (length ls)")
  case True
  with total [OF i] have room: "target_bin_count p (int (length bs)) \<le> int (length (concat bs))" by simp
  obtain bs' where bs': "adjust_bin_count p bs = Inr bs'"
    "int (length bs') = target_bin_count p (int (length bs))" "[] \<notin> set bs'"
    "mset (concat bs') = mset (concat bs)" "\<And>b. b \<in> set bs' \<Longrightarrow> part_of bs b"
    by (rule adjust_ok [OF wf nonempty [OF i] room]) blast
  have "fits (bin_capacity p) ls b" if nn: "\<forall>l\<in>set ls. 0 \<le> l" and b: "b \<in> set bs'" for b
  proof -
    from bs'(5) [OF b] obtain c where c: "c \<in> set bs" "mset b \<subseteq># mset c" by (auto simp: part_of_def)
    have "set c \<subseteq> set (concat bs)" using c(1) by auto
    also have "\<dots> = set [0..<length ls]" using partition [OF i] by (rule mset_eq_setD)
    finally have sub: "set c \<subseteq> {..<length ls}" by (simp add: atLeast0LessThan)
    have "b \<noteq> []" using b bs'(3) by auto
    then show ?thesis by (rule fits_part [OF nn within [OF i c(1)] sub c(2)])
  qed
  with True bs' partition [OF i] show ?thesis by (simp add: packed_def i)
next
  case False
  have "\<forall>b\<in>set bs. 1 \<le> length b" using nonempty [OF i] by (auto simp: Suc_le_eq)
  from sum_list_minus_one [OF this] have "length bs \<le> length ls"
    using total [OF i] by (simp add: length_concat)
  with False total [OF i] show ?thesis
    by (auto simp: packed_def i adjust_bin_count_def Let_def length_concat)
qed

end

section \<open>The invariants of the two strategies\<close>

definition entries_ok :: "int \<Rightarrow> int list \<Rightarrow> (int \<times> nat) list \<Rightarrow> bool" where
  "entries_ok cap ls xs \<longleftrightarrow> (\<forall>(l, i)\<in>set xs. ls ! i = l)"

definition bins_inv :: "int list \<Rightarrow> (int \<times> nat) list \<Rightarrow> bins \<Rightarrow> bool" where
  "bins_inv ls ys bs \<longleftrightarrow> mset (concat bs) = mset (map snd ys) \<and> [] \<notin> set bs"

lemma bins_inv_add: "bins_inv ls ys bs \<Longrightarrow> i < length bs \<Longrightarrow> bins_inv ls (ys @ [(l, idx)]) (bs[i := bs ! i @ [idx]])"
  by (auto simp: bins_inv_def mset_concat_update_append dest!: set_update_subset_insert [THEN subsetD])

lemma bins_inv_open: "bins_inv ls ys bs \<Longrightarrow> bins_inv ls (ys @ [(l, idx)]) (bs @ [[idx]])"
  by (auto simp: bins_inv_def)

lemma overflow_add:
  assumes "overflow_pairwise cap ls bs" "i < length bs" "0 \<le> ls ! idx"
  shows "overflow_pairwise cap ls (bs[i := bs ! i @ [idx]])"
  using assms by (fastforce simp: overflow_pairwise_def nth_list_update)

lemma overflow_open:
  assumes "overflow_pairwise cap ls bs" "\<forall>b\<in>set bs. cap < load ls b + ls ! idx"
  shows "overflow_pairwise cap ls (bs @ [[idx]])"
  using assms by (auto simp: overflow_pairwise_def nth_append less_Suc_eq)

lemma first_fit_index_Some: "first_fit_index rs l = Some i \<Longrightarrow> i < length rs \<and> l \<le> rs ! i"
  by (induction rs arbitrary: i) (auto split: if_splits)

lemma first_fit_index_None: "first_fit_index rs l = None \<longleftrightarrow> (\<forall>r\<in>set rs. r < l)"
  by (induction rs) auto

text \<open>First fit: the remaining capacities are those of the bins and never negative.\<close>

definition ffd_inv :: "int \<Rightarrow> int list \<Rightarrow> (int \<times> nat) list \<Rightarrow> bins \<times> int list \<Rightarrow> bool" where
  "ffd_inv cap ls ys st \<longleftrightarrow> bins_inv ls ys (fst st) \<and>
     snd st = map (\<lambda>b. cap - load ls b) (fst st) \<and> (\<forall>b\<in>set (fst st). load ls b \<le> cap)"

lemma ffd_inv_place:
  assumes "ffd_inv cap ls ys st" "ls ! idx \<le> cap"
  shows "ffd_inv cap ls (ys @ [(ls ! idx, idx)]) (ffd_place cap (ls ! idx, idx) st)"
proof -
  obtain bs rem where st: "st = (bs, rem)" by force
  show ?thesis
  proof (cases "first_fit_index rem (ls ! idx)")
    case None
    then show ?thesis using assms
      by (simp add: ffd_inv_def st ffd_place_def bins_inv_open)
  next
    case (Some i)
    have place: "ffd_place cap (ls ! idx, idx) st = (bs[i := bs ! i @ [idx]], rem[i := rem ! i - ls ! idx])"
      by (simp add: ffd_place_def st Some)
    from assms(1) have i: "i < length bs" "ls ! idx \<le> cap - load ls (bs ! i)"
      using first_fit_index_Some [OF Some] by (auto simp: ffd_inv_def st)
    with assms show ?thesis unfolding place
      by (auto simp: ffd_inv_def st map_update bins_inv_add algebra_simps
          dest!: set_update_subset_insert [THEN subsetD])
  qed
qed

lemma ffd_overflow_place:
  assumes "ffd_inv cap ls ys st" "overflow_pairwise cap ls (fst st)" "0 \<le> ls ! idx"
  shows "overflow_pairwise cap ls (fst (ffd_place cap (ls ! idx, idx) st))"
proof -
  obtain bs rem where st: "st = (bs, rem)" by force
  show ?thesis
  proof (cases "first_fit_index rem (ls ! idx)")
    case None
    then have "\<forall>b\<in>set bs. cap < load ls b + ls ! idx"
      using assms(1) by (auto simp: ffd_inv_def st first_fit_index_None)
    with None assms show ?thesis by (simp add: ffd_place_def st overflow_open)
  next
    case (Some i)
    with assms(1) have "i < length bs"
      using first_fit_index_Some [OF Some] by (auto simp: ffd_inv_def st)
    with Some assms show ?thesis by (simp add: ffd_place_def st overflow_add)
  qed
qed

lemma validate_ok: "validate_sequence_lengths cap ls = Inr u \<longleftrightarrow> (\<forall>l\<in>set ls. l \<le> cap)"
  by (induction ls) auto

lemma validate_error:
  "validate_sequence_lengths cap ls = Inl e \<Longrightarrow> \<exists>l\<in>set ls. l > cap \<and> e = ExceedsCapacity l cap"
  by (induction ls) (auto split: if_splits)

lemma indexed_mem: "x \<in> set (indexed ls) \<Longrightarrow> \<exists>i. x = (ls ! i, i) \<and> i < length ls"
  by (auto simp: set_indexed)

lemma ffd_fold:
  assumes "\<forall>l\<in>set ls. l \<le> cap"
  shows "ffd_inv cap ls (rev (sort (indexed ls))) (fold (ffd_place cap) (rev (sort (indexed ls))) ([], []))
    \<and> ((\<forall>l\<in>set ls. 0 \<le> l) \<longrightarrow> overflow_pairwise cap ls (fst (fold (ffd_place cap) (rev (sort (indexed ls))) ([], []))))"
proof (rule fold_prefix_induct [where P = "\<lambda>ys st. ffd_inv cap ls ys st \<and>
    ((\<forall>l\<in>set ls. 0 \<le> l) \<longrightarrow> overflow_pairwise cap ls (fst st))"])
  show "ffd_inv cap ls [] ([], []) \<and> ((\<forall>l\<in>set ls. 0 \<le> l) \<longrightarrow> overflow_pairwise cap ls (fst ([], [])))"
    by (simp add: ffd_inv_def bins_inv_def overflow_pairwise_def)
next
  fix ys x st
  assume "x \<in> set (rev (sort (indexed ls)))"
  then obtain idx where x: "x = (ls ! idx, idx)" "idx < length ls"
    by (auto dest: indexed_mem)
  assume "ffd_inv cap ls ys st \<and> ((\<forall>l\<in>set ls. 0 \<le> l) \<longrightarrow> overflow_pairwise cap ls (fst st))"
  with x assms show "ffd_inv cap ls (ys @ [x]) (ffd_place cap x st) \<and>
    ((\<forall>l\<in>set ls. 0 \<le> l) \<longrightarrow> overflow_pairwise cap ls (fst (ffd_place cap x st)))"
    using ffd_inv_place [of cap ls ys st idx] ffd_overflow_place [of cap ls ys st idx] by simp
qed

lemma mset_snd_sorted_indexed:
  "mset (map snd (rev (sort (indexed (ls :: int list))))) = mset [0..<length ls]"
  "mset (map snd (sort_desc_key fst (indexed (ls :: int list)))) = mset [0..<length ls]"
  by (simp_all only: mset_map mset_rev mset_sort mset_sort_desc_key) (simp_all only: mset_map [symmetric] map_snd_indexed)

lemma ffd_pack_result:
  assumes "ffd_pack cap ls = Inr bs"
  shows "mset (concat bs) = mset [0..<length ls]" "[] \<notin> set bs" "\<forall>b\<in>set bs. load ls b \<le> cap"
    "\<forall>l\<in>set ls. 0 \<le> l \<Longrightarrow> overflow_pairwise cap ls bs"
proof -
  from assms obtain u where v: "validate_sequence_lengths cap ls = Inr u"
    and bs: "bs = fst (fold (ffd_place cap) (rev (sort (indexed ls))) ([], []))"
    by (auto simp: ffd_pack_def split: sum.splits)
  note f = ffd_fold [OF v [unfolded validate_ok], folded bs]
  from f show "mset (concat bs) = mset [0..<length ls]" "[] \<notin> set bs" "\<forall>b\<in>set bs. load ls b \<le> cap"
    "\<forall>l\<in>set ls. 0 \<le> l \<Longrightarrow> overflow_pairwise cap ls bs"
    using mset_snd_sorted_indexed(1) [of ls] by (simp_all add: ffd_inv_def bins_inv_def bs)
qed


text \<open>Balanced: the heap holds exactly one entry per bin, with the bin's load, in order.\<close>

definition heap_of :: "int list \<Rightarrow> bins \<Rightarrow> heap_entry list" where
  "heap_of ls bs = map (\<lambda>i. HeapEntry (load ls (bs ! i)) i) [0..<length bs]"

definition balanced_fits :: "int \<Rightarrow> int list \<Rightarrow> nat list \<Rightarrow> bool" where
  "balanced_fits cap ls b \<longleftrightarrow> length b = 1 \<or> load ls b \<le> cap"

definition balanced_inv :: "int \<Rightarrow> int list \<Rightarrow> (int \<times> nat) list \<Rightarrow> bins \<times> heap_entry list \<Rightarrow> bool" where
  "balanced_inv cap ls ys st \<longleftrightarrow> bins_inv ls ys (fst st) \<and> sorted (snd st) \<and>
     mset (snd st) = mset (heap_of ls (fst st)) \<and> (\<forall>b\<in>set (fst st). balanced_fits cap ls b)"

lemma heap_of_open: "heap_of ls (bs @ [b]) = heap_of ls bs @ [HeapEntry (load ls b) (length bs)]"
  by (simp add: heap_of_def nth_append)

lemma heap_of_update:
  "i < length bs \<Longrightarrow> heap_of ls (bs[i := b]) = (heap_of ls bs)[i := HeapEntry (load ls b) i]"
  by (rule nth_equalityI) (auto simp: heap_of_def nth_list_update)

lemma heap_root:
  assumes "balanced_inv cap ls ys (bs, HeapEntry t i # rest)"
  shows "i < length bs" "t = load ls (bs ! i)" "\<forall>b\<in>set bs. t \<le> load ls b"
    "mset rest + {#HeapEntry t i#} = mset (heap_of ls bs)"
proof -
  from assms have m: "mset (HeapEntry t i # rest) = mset (heap_of ls bs)"
    and srt: "sorted (HeapEntry t i # rest)"
    by (auto simp: balanced_inv_def)
  from m show "mset rest + {#HeapEntry t i#} = mset (heap_of ls bs)" by simp
  have mem: "HeapEntry t i \<in> set (heap_of ls bs)" using mset_eq_setD [OF m] by auto
  then show "i < length bs" "t = load ls (bs ! i)" by (auto simp: heap_of_def)
  show "\<forall>b\<in>set bs. t \<le> load ls b"
  proof
    fix b assume "b \<in> set bs"
    then obtain j where "j < length bs" "b = bs ! j" by (auto simp: in_set_conv_nth)
    then have "HeapEntry (load ls b) j \<in> set (HeapEntry t i # rest)"
      using mset_eq_setD [OF m] by (auto simp: heap_of_def)
    with srt show "t \<le> load ls b" by (auto simp: less_eq_heap_entry_def)
  qed
qed

lemma mset_heap_of_update:
  assumes "i < length bs" "mset rest + {#HeapEntry (load ls (bs ! i)) i#} = mset (heap_of ls bs)"
  shows "mset (heap_of ls (bs[i := b])) = add_mset (HeapEntry (load ls b) i) (mset rest)"
proof -
  have i: "i < length (heap_of ls bs)" "heap_of ls bs ! i = HeapEntry (load ls (bs ! i)) i"
    using assms(1) by (auto simp: heap_of_def)
  show ?thesis
    using assms(2) mset_update [OF i(1), of "HeapEntry (load ls b) i"] i(2)
    by (simp add: heap_of_update assms(1)) (metis add_mset_remove_trivial)
qed

lemma balanced_inv_place:
  assumes "balanced_inv cap ls ys st"
  shows "balanced_inv cap ls (ys @ [(ls ! idx, idx)]) (balanced_place cap (ls ! idx, idx) st)"
proof -
  obtain bs heap where st: "st = (bs, heap)" by force
  let ?open = "(bs @ [[idx]], insort (HeapEntry (ls ! idx) (length bs)) heap)"
  have opened: "balanced_inv cap ls (ys @ [(ls ! idx, idx)]) ?open"
    using assms
    by (auto simp: balanced_inv_def st bins_inv_open sorted_insort heap_of_open balanced_fits_def)
  show ?thesis
  proof (cases heap)
    case Nil
    with opened show ?thesis by (simp add: balanced_place_def st)
  next
    case (Cons e rest)
    obtain t i where e: "e = HeapEntry t i" by (cases e)
    note root = heap_root [OF assms [unfolded st Cons e]]
    show ?thesis
    proof (cases "t + ls ! idx \<le> cap")
      case False
      with opened show ?thesis by (simp add: balanced_place_def st Cons e)
    next
      case True
      let ?b = "bs ! i @ [idx]"
      have place: "balanced_place cap (ls ! idx, idx) st =
          (bs[i := ?b], insort (HeapEntry (load ls ?b) i) rest)"
        using True root(2) by (simp add: balanced_place_def st Cons e)
      have "mset (insort (HeapEntry (load ls ?b) i) rest) = mset (heap_of ls (bs[i := ?b]))"
        using mset_heap_of_update [of i bs rest ls ?b] root by simp
      moreover have "sorted (insort (HeapEntry (load ls ?b) i) rest)"
        using assms by (simp add: balanced_inv_def st Cons sorted_insort)
      ultimately show ?thesis using assms root True unfolding place
        by (auto simp: balanced_inv_def st bins_inv_add balanced_fits_def
            dest!: set_update_subset_insert [THEN subsetD])
    qed
  qed
qed

lemma balanced_overflow_place:
  assumes "balanced_inv cap ls ys st" "overflow_pairwise cap ls (fst st)" "0 \<le> ls ! idx"
  shows "overflow_pairwise cap ls (fst (balanced_place cap (ls ! idx, idx) st))"
proof -
  obtain bs heap where st: "st = (bs, heap)" by force
  show ?thesis
  proof (cases heap)
    case Nil
    with assms(1) have "length (heap_of ls bs) = 0" by (simp add: balanced_inv_def st Nil)
    then have "bs = []" by (simp add: heap_of_def)
    then show ?thesis by (simp add: balanced_place_def st Nil overflow_pairwise_def)
  next
    case (Cons e rest)
    obtain t i where e: "e = HeapEntry t i" by (cases e)
    note root = heap_root [OF assms(1) [unfolded st Cons e]]
    show ?thesis
    proof (cases "t + ls ! idx \<le> cap")
      case True
      with assms root(1) show ?thesis by (simp add: balanced_place_def st Cons e overflow_add)
    next
      case False
      with root(3) have "\<forall>b\<in>set bs. cap < load ls b + ls ! idx" by fastforce
      with False assms show ?thesis by (simp add: balanced_place_def st Cons e overflow_open)
    qed
  qed
qed

lemma balanced_pack_result:
  assumes "balanced_pack cap ls = Inr bs"
  shows "mset (concat bs) = mset [0..<length ls]" "[] \<notin> set bs" "\<forall>b\<in>set bs. balanced_fits cap ls b"
    "\<forall>l\<in>set ls. 0 \<le> l \<Longrightarrow> overflow_pairwise cap ls bs"
proof -
  let ?xs = "sort_desc_key fst (indexed ls)"
  from assms have bs: "bs = fst (fold (balanced_place cap) ?xs ([], []))"
    by (simp add: balanced_pack_def)
  have f: "balanced_inv cap ls ?xs (fold (balanced_place cap) ?xs ([], [])) \<and>
      ((\<forall>l\<in>set ls. 0 \<le> l) \<longrightarrow> overflow_pairwise cap ls (fst (fold (balanced_place cap) ?xs ([], []))))"
  proof (rule fold_prefix_induct [where P = "\<lambda>ys st. balanced_inv cap ls ys st \<and>
      ((\<forall>l\<in>set ls. 0 \<le> l) \<longrightarrow> overflow_pairwise cap ls (fst st))"])
    show "balanced_inv cap ls [] ([], []) \<and> ((\<forall>l\<in>set ls. 0 \<le> l) \<longrightarrow> overflow_pairwise cap ls (fst ([], [])))"
      by (simp add: balanced_inv_def bins_inv_def overflow_pairwise_def heap_of_def)
  next
    fix ys x st
    assume "x \<in> set ?xs"
    then obtain idx where x: "x = (ls ! idx, idx)" "idx < length ls"
      by (auto dest: indexed_mem)
    assume "balanced_inv cap ls ys st \<and> ((\<forall>l\<in>set ls. 0 \<le> l) \<longrightarrow> overflow_pairwise cap ls (fst st))"
    with x show "balanced_inv cap ls (ys @ [x]) (balanced_place cap x st) \<and>
      ((\<forall>l\<in>set ls. 0 \<le> l) \<longrightarrow> overflow_pairwise cap ls (fst (balanced_place cap x st)))"
      using balanced_inv_place [of cap ls ys st idx] balanced_overflow_place [of cap ls ys st idx]
      by simp
  qed
  from f show "mset (concat bs) = mset [0..<length ls]" "[] \<notin> set bs" "\<forall>b\<in>set bs. balanced_fits cap ls b"
    "\<forall>l\<in>set ls. 0 \<le> l \<Longrightarrow> overflow_pairwise cap ls bs"
    using mset_snd_sorted_indexed(2) [of ls] by (simp_all add: balanced_inv_def bins_inv_def bs)
qed

section \<open>Both strategies keep the contract\<close>

lemma part_nonneg:
  assumes "\<forall>l\<in>set ls. 0 \<le> (l::int)" "set b \<subseteq> {..<length ls}"
  shows "\<forall>i\<in>set b. 0 \<le> ls ! i"
  using assms by (auto simp: lessThan_def)

interpretation ffd: seq_packer ffd_pack "\<lambda>cap ls b. load ls b \<le> cap"
proof
  fix cap ls bs b b'
  show "ffd_pack cap ls = Inr bs \<Longrightarrow> mset (concat bs) = mset [0..<length ls]"
    by (rule ffd_pack_result)
  show "ffd_pack cap ls = Inr bs \<Longrightarrow> [] \<notin> set bs" by (rule ffd_pack_result)
  show "ffd_pack cap ls = Inr bs \<Longrightarrow> b \<in> set bs \<Longrightarrow> load ls b \<le> cap"
    using ffd_pack_result(3) by blast
  show "\<forall>l\<in>set ls. 0 \<le> l \<Longrightarrow> load ls b \<le> cap \<Longrightarrow> set b \<subseteq> {..<length ls} \<Longrightarrow>
      mset b' \<subseteq># mset b \<Longrightarrow> b' \<noteq> [] \<Longrightarrow> load ls b' \<le> cap"
    using load_mono [OF _ part_nonneg] by fastforce
qed

interpretation balanced: seq_packer balanced_pack balanced_fits
proof
  fix cap ls bs b b'
  show "balanced_pack cap ls = Inr bs \<Longrightarrow> mset (concat bs) = mset [0..<length ls]"
    by (rule balanced_pack_result)
  show "balanced_pack cap ls = Inr bs \<Longrightarrow> [] \<notin> set bs" by (rule balanced_pack_result)
  show "balanced_pack cap ls = Inr bs \<Longrightarrow> b \<in> set bs \<Longrightarrow> balanced_fits cap ls b"
    using balanced_pack_result(3) by blast
  assume nn: "\<forall>l\<in>set ls. 0 \<le> l" and fits: "balanced_fits cap ls b"
    and sub: "set b \<subseteq> {..<length ls}" and part: "mset b' \<subseteq># mset b" and ne: "b' \<noteq> []"
  from fits show "balanced_fits cap ls b'"
  proof (unfold balanced_fits_def, elim disjE)
    assume "length b = 1"
    with part ne have "length b' = 1"
      using size_mset_mono [OF part] by (cases b') auto
    then show "length b' = 1 \<or> load ls b' \<le> cap" ..
  next
    assume "load ls b \<le> cap"
    with load_mono [OF part part_nonneg [OF nn sub]] show "length b' = 1 \<or> load ls b' \<le> cap" by simp
  qed
qed

lemma pack_ffd: "pack FIRST_FIT_DECREASING p ls = ffd.packed p ls"
  by (simp add: pack_def pack_implementation_def ffd.packed_def)

lemma pack_balanced: "pack BALANCED p ls = balanced.packed p ls"
  by (simp add: pack_def pack_implementation_def balanced.packed_def)

text \<open>Two bins that overflow together are at least half full on average.\<close>

lemma pairs_sum:
  fixes cap :: int
  assumes "\<forall>j<length xs. \<forall>i<j. cap < xs ! i + xs ! j" "2 \<le> length xs" "\<forall>x\<in>set xs. 0 \<le> x"
  shows "cap * int (length xs div 2) < sum_list xs"
  using assms
proof (induction xs rule: induct_list012)
  case (3 x y zs)
  have xy: "cap < x + y" using "3.prems"(1) by force
  have nn: "\<forall>z\<in>set zs. 0 \<le> z" using "3.prems" by simp
  show ?case
  proof (cases "2 \<le> length zs")
    case True
    have "\<forall>j<length zs. \<forall>i<j. cap < zs ! i + zs ! j"
    proof (intro allI impI)
      fix j i assume "j < length zs" "i < j"
      then show "cap < zs ! i + zs ! j"
        using "3.prems"(1) [rule_format, of "Suc (Suc j)" "Suc (Suc i)"] by simp
    qed
    from "3.IH"(1) [OF this True nn] xy show ?thesis by (simp add: algebra_simps)
  next
    case False
    then have "length zs div 2 = 0" by simp
    with xy nn sum_list_nonneg [of zs] show ?thesis by simp
  qed
qed simp_all

section \<open>Properties\<close>

lemma pack_result:
  assumes wf: "packer_wf p" and i: "pack_implementation alg (bin_capacity p) ls = Inr bs"
  shows "if target_bin_count p (int (length bs)) \<le> int (length ls)
    then \<exists>bs'. pack alg p ls = Inr bs' \<and> mset (concat bs') = mset [0..<length ls] \<and> [] \<notin> set bs' \<and>
           int (length bs') = target_bin_count p (int (length bs)) \<and>
           ((\<forall>l\<in>set ls. 0 \<le> l) \<longrightarrow>
            (\<forall>b\<in>set bs'. load ls b \<le> bin_capacity p \<or> alg = BALANCED \<and> length b = 1))
    else pack alg p ls = Inl (TooFewSequences (target_bin_count p (int (length bs))) (int (length ls)))"
proof (cases alg)
  case FIRST_FIT_DECREASING
  with i have "ffd_pack (bin_capacity p) ls = Inr bs" by (simp add: pack_implementation_def)
  from ffd.packed_result [OF wf this] FIRST_FIT_DECREASING show ?thesis
    by (auto simp: pack_ffd split: if_splits)
next
  case BALANCED
  with i have "balanced_pack (bin_capacity p) ls = Inr bs" by (simp add: pack_implementation_def)
  from balanced.packed_result [OF wf this] BALANCED show ?thesis
    by (auto simp: pack_balanced balanced_fits_def split: if_splits)
qed

lemma pack_InrE:
  assumes "pack alg p ls = Inr bs"
  obtains bs0 where "pack_implementation alg (bin_capacity p) ls = Inr bs0"
  using assms by (auto simp: pack_def split: sum.splits)

lemma packed_bins:
  assumes "make_seq_packer name cap mbc bcm = Inr (alg, p)" and "pack alg p ls = Inr bs"
  shows "mset (concat bs) = mset [0..<length ls] \<and> [] \<notin> set bs \<and>
    (case mbc of Some m \<Rightarrow> m \<le> int (length bs) | None \<Rightarrow> True) \<and>
    (case bcm of Some k \<Rightarrow> k dvd int (length bs) | None \<Rightarrow> True)"
proof -
  from assms(1) have init: "SeqPacker_init cap mbc bcm = Inr p"
    by (auto simp: make_seq_packer_def split: option.splits sum.splits)
  then have mb: "min_bin_count p = mbc" "bin_count_multiple p = bcm"
    by (auto simp: SeqPacker_init_def split: if_splits)
  note wf = SeqPacker_init_wf [OF init]
  from assms(2) obtain bs0 where i: "pack_implementation alg (bin_capacity p) ls = Inr bs0"
    by (rule pack_InrE)
  from pack_result [OF wf i] assms(2)
  have "mset (concat bs) = mset [0..<length ls]" "[] \<notin> set bs"
    "int (length bs) = target_bin_count p (int (length bs0))"
    by (auto split: if_splits)
  then show ?thesis using target_bounds(2,3) [OF wf] mb by (auto split: option.splits)
qed

text \<open>C39: Whatever packer the factory builds, a packing it returns assigns every sequence to exactly
  one bin, has no empty bin, has at least the minimum number of bins and a multiple of the
  configured one.\<close>

theorem pack_partition:
  assumes "make_seq_packer name cap mbc bcm = Inr (alg, p)" and "pack alg p ls = Inr bs"
  shows "mset (concat bs) = mset [0..<length ls] \<and> [] \<notin> set bs \<and>
    (case mbc of Some m \<Rightarrow> m \<le> int (length bs) | None \<Rightarrow> True) \<and>
    (case bcm of Some k \<Rightarrow> k dvd int (length bs) | None \<Rightarrow> True)"
  by (rule packed_bins [OF assms])

definition ex_packer :: packer where
  "ex_packer = \<lparr>bin_capacity = 10, min_bin_count = Some 2, bin_count_multiple = Some 3\<rparr>"

lemma ex_make: "make_seq_packer ''balanced'' 10 (Some 2) (Some 3) = Inr (BALANCED, ex_packer)"
  by code_simp

lemma ex_packer_wf: "packer_wf ex_packer"
  by (simp add: packer_wf_def ex_packer_def)

lemma ex_pack: "pack BALANCED ex_packer [7, 2, 11, 1] = Inr [[2], [0, 1], [3]]"
  by code_simp

theorem pack_partition_witness:
  "mset (concat [[2], [0, 1], [3]]) = mset [0..<length [7, 2, 11, 1::int]] \<and>
   [] \<notin> set [[2], [0, 1], [3::nat]] \<and> 2 \<le> int (length [[2], [0, 1], [3::nat]]) \<and>
   3 dvd int (length [[2], [0, 1], [3::nat]])"
  using pack_partition [OF ex_make ex_pack] unfolding option.case .

text \<open>With non-negative lengths no bin of a packing exceeds the capacity, also after the
  redistribution to reach the bin count; the one exception is a single sequence that alone is too
  long, which \<open>Balanced\<close> accepts and \<open>FirstFitDecreasing\<close> refuses.\<close>

theorem pack_within_capacity:
  assumes "packer_wf p" "pack alg p ls = Inr bs" "\<forall>l\<in>set ls. 0 \<le> l" "b \<in> set bs"
  shows "load ls b \<le> bin_capacity p \<or> alg = BALANCED \<and> length b = 1"
proof -
  from assms(2) obtain bs0 where "pack_implementation alg (bin_capacity p) ls = Inr bs0"
    by (rule pack_InrE)
  from pack_result [OF assms(1) this] assms(2-4) show ?thesis by (auto split: if_splits)
qed

theorem pack_within_capacity_witness:
  "load [7, 2, 11, 1] [0, 1] \<le> bin_capacity ex_packer \<or> BALANCED = BALANCED \<and> length [0, 1::nat] = 1"
  by (rule pack_within_capacity [OF ex_packer_wf ex_pack]) simp_all

text \<open>C40: Packing fails in exactly two ways, an overlong sequence (first fit only) or fewer
  sequences than bins required; the redistribution never runs out of sources.\<close>

theorem pack_outcome:
  assumes "packer_wf p"
  shows "case pack alg p ls of
      Inr bs \<Rightarrow> length bs \<le> length ls \<and> (alg = FIRST_FIT_DECREASING \<longrightarrow> (\<forall>l\<in>set ls. l \<le> bin_capacity p))
    | Inl (ExceedsCapacity l c) \<Rightarrow> alg = FIRST_FIT_DECREASING \<and> l \<in> set ls \<and> c = bin_capacity p \<and> c < l
    | Inl (TooFewSequences t n) \<Rightarrow> n = int (length ls) \<and> n < t
    | Inl _ \<Rightarrow> False"
proof (cases "pack_implementation alg (bin_capacity p) ls")
  case (Inl e)
  then have "alg = FIRST_FIT_DECREASING" "validate_sequence_lengths (bin_capacity p) ls = Inl e"
    by (auto simp: pack_implementation_def balanced_pack_def ffd_pack_def
        split: packing_strategy.splits sum.splits)
  with validate_error [of "bin_capacity p" ls e] Inl show ?thesis by (auto simp: pack_def)
next
  case (Inr bs)
  have "alg = FIRST_FIT_DECREASING \<longrightarrow> (\<forall>l\<in>set ls. l \<le> bin_capacity p)"
    using Inr validate_ok [of "bin_capacity p" ls]
    by (auto simp: pack_implementation_def ffd_pack_def split: sum.splits)
  with pack_result [OF assms Inr] show ?thesis by (auto split: if_splits)
qed

theorem pack_outcome_witness:
  "pack FIRST_FIT_DECREASING ex_packer [7, 2, 11, 1] = Inl (ExceedsCapacity 11 10) \<and>
   11 \<in> set [7, 2, 11, 1::int] \<and> bin_capacity ex_packer < 11"
proof -
  have "pack FIRST_FIT_DECREASING ex_packer [7, 2, 11, 1] = Inl (ExceedsCapacity 11 10)" by code_simp
  with pack_outcome [OF ex_packer_wf, of FIRST_FIT_DECREASING "[7, 2, 11, 1]"] show ?thesis by simp
qed

lemma overflow_sum:
  assumes "overflow_pairwise cap ls bs" "2 \<le> length bs" "\<forall>b\<in>set bs. 0 \<le> load ls b"
  shows "cap * int (length bs div 2) < (\<Sum>b\<leftarrow>bs. load ls b)"
  using pairs_sum [of "map (load ls) bs" cap] assms by (auto simp: overflow_pairwise_def)

lemma load_concat: "load ls (concat bs) = (\<Sum>b\<leftarrow>bs. load ls b)"
  by (induction bs) simp_all

lemma load_perm: "mset b = mset c \<Longrightarrow> load ls b = load ls c"
  by (metis load_def mset_map sum_mset_sum_list)

lemma load_nonneg: "\<forall>i\<in>set b. 0 \<le> ls ! i \<Longrightarrow> 0 \<le> load ls b"
  by (induction b) auto

lemma sum_list_upper: "\<forall>x\<in>set xs. f x \<le> (c::int) \<Longrightarrow> (\<Sum>x\<leftarrow>xs. f x) \<le> c * int (length xs)"
  by (induction xs) (auto simp: algebra_simps)

text \<open>Neither strategy opens more than twice as many bins as any packing of the same sequences
  within the capacity needs.\<close>

theorem pack_near_optimal:
  assumes "pack_implementation alg cap ls = Inr bs" "\<forall>l\<in>set ls. 0 \<le> l" "0 \<le> cap"
    and opt: "mset (concat opt) = mset [0..<length ls]" "\<forall>b\<in>set opt. load ls b \<le> cap"
  shows "length bs \<le> 2 * length opt"
proof -
  have base: "mset (concat bs) = mset [0..<length ls]" "[] \<notin> set bs" "overflow_pairwise cap ls bs"
    using assms(1,2) ffd_pack_result [of cap ls bs] balanced_pack_result [of cap ls bs]
    by (auto simp: pack_implementation_def split: packing_strategy.splits)
  show ?thesis
  proof (cases "2 \<le> length bs")
    case True
    have "\<forall>b\<in>set bs. 0 \<le> load ls b"
    proof
      fix b assume "b \<in> set bs"
      then have "set b \<subseteq> set (concat bs)" by auto
      then have "set b \<subseteq> {..<length ls}" using mset_eq_setD [OF base(1)] by (simp add: atLeast0LessThan)
      from load_nonneg [OF part_nonneg [OF assms(2) this]] show "0 \<le> load ls b" .
    qed
    from overflow_sum [OF base(3) True this] have "cap * int (length bs div 2) < load ls (concat bs)"
      by (simp add: load_concat)
    also have "\<dots> = load ls (concat opt)" using base(1) opt(1) by (simp add: load_perm)
    also have "\<dots> \<le> cap * int (length opt)" using sum_list_upper [OF opt(2)] by (simp add: load_concat)
    finally have "length bs div 2 < length opt" using assms(3) by (simp add: mult_less_cancel_left)
    then show ?thesis by simp
  next
    case False
    have "length bs = 0" if "opt = []"
    proof -
      from that opt(1) have "concat bs = []" using base(1) by simp
      with base(2) show ?thesis by (cases bs) auto
    qed
    with False show ?thesis by (cases opt) auto
  qed
qed

theorem pack_near_optimal_witness: "length [[0], [2, 1], [4, 3::nat]] \<le> 2 * length [[0, 1], [2, 3], [4::nat]]"
proof (rule pack_near_optimal [of BALANCED 10 "[7, 3, 6, 4, 5]"])
  show "pack_implementation BALANCED 10 [7, 3, 6, 4, 5] = Inr [[0], [2, 1], [4, 3]]" by code_simp
qed (simp_all add: upt_rec numeral_eq_Suc)

end
