(* ===== verification/Tinker_Path.thy ===== *)
theory Tinker_Path
  imports Prelude
begin

text \<open>
  \<^verbatim>\<open>TinkerPath.parse\<close> of \<^verbatim>\<open>skyrl/tinker/types.py\<close> with the part of \<^verbatim>\<open>urllib.parse.urlparse\<close> it
  relies on, for ASCII strings, and the identifiers accepted by \<^verbatim>\<open>skyrl/tinker/api.py\<close>.
  \<open>urlparse\<close> raises on an unbalanced bracket in the authority; whether a bracketed authority is a
  valid IP literal is decided by the library, the parameter \<open>ip_ok\<close>.
\<close>

section \<open>The URL splitter\<close>

record parsed_url =
  url_scheme :: string
  url_netloc :: string
  url_path :: string

definition lower_char :: "char \<Rightarrow> char" where
  "lower_char c = (let n = (of_char c :: nat) in if 65 \<le> n \<and> n \<le> 90 then char_of (n + 32) else c)"

definition is_alpha :: "char \<Rightarrow> bool" where
  "is_alpha c = (let n = (of_char c :: nat) in 65 \<le> n \<and> n \<le> 90 \<or> 97 \<le> n \<and> n \<le> 122)"

definition is_digit :: "char \<Rightarrow> bool" where
  "is_digit c = (let n = (of_char c :: nat) in 48 \<le> n \<and> n \<le> 57)"

definition scheme_char :: "char \<Rightarrow> bool" where
  "scheme_char c = (is_alpha c \<or> is_digit c \<or> c \<in> set ''+-.'')"

text \<open>Leading control characters and blanks are stripped; tabs and newlines removed everywhere.\<close>

definition url_clean :: "string \<Rightarrow> string" where
  "url_clean u =
     filter (\<lambda>c. (of_char c :: nat) \<notin> {9, 10, 13}) (dropWhile (\<lambda>c. (of_char c :: nat) \<le> 32) u)"

definition split_scheme :: "string \<Rightarrow> string \<times> string" where
  "split_scheme u =
     (let pre = takeWhile (\<lambda>c. c \<noteq> CHR '':'') u; rest = dropWhile (\<lambda>c. c \<noteq> CHR '':'') u
      in if rest \<noteq> [] \<and> pre \<noteq> [] \<and> is_alpha (hd u) \<and> list_all scheme_char pre
         then (map lower_char pre, tl rest) else ([], u))"

definition split_netloc :: "string \<Rightarrow> string \<times> string" where
  "split_netloc u =
     (if take 2 u = ''//''
      then (takeWhile (\<lambda>c. c \<notin> set ''/?#'') (drop 2 u), dropWhile (\<lambda>c. c \<notin> set ''/?#'') (drop 2 u))
      else ([], u))"

definition netloc_ok :: "(string \<Rightarrow> bool) \<Rightarrow> string \<Rightarrow> bool" where
  "netloc_ok ip_ok n =
     (let l = CHR ''['' \<in> set n; r = CHR '']'' \<in> set n
      in if l \<noteq> r then False else if l \<and> r then ip_ok n else True)"

definition urlparse :: "(string \<Rightarrow> bool) \<Rightarrow> string \<Rightarrow> parsed_url option" where
  "urlparse ip_ok u =
     (case split_scheme (url_clean u) of (scheme, rest) \<Rightarrow>
        (case split_netloc rest of (netloc, rest2) \<Rightarrow>
           if netloc_ok ip_ok netloc
           then Some \<lparr>url_scheme = scheme, url_netloc = netloc,
                  url_path = takeWhile (\<lambda>c. c \<noteq> CHR ''?'') (takeWhile (\<lambda>c. c \<noteq> CHR ''#'') rest2)\<rparr>
           else None))"

text \<open>\<open>s.split(sep)\<close> for a one-character separator.\<close>

fun split_on :: "char \<Rightarrow> string \<Rightarrow> string list" where
  "split_on sep [] = [[]]"
| "split_on sep (c # cs) =
     (if c = sep then [] # split_on sep cs
      else case split_on sep cs of [] \<Rightarrow> [[c]] | w # ws \<Rightarrow> (c # w) # ws)"

section \<open>Tinker paths\<close>

record tinker_path =
  primary_id :: string
  path_kind :: string
  secondary_id :: string

text \<open>\<open>Inl ()\<close> is the \<open>ValueError\<close> of \<open>urlparse\<close>.\<close>

definition TinkerPath_parse :: "(string \<Rightarrow> bool) \<Rightarrow> string \<Rightarrow> (unit, tinker_path option) result" where
  "TinkerPath_parse ip_ok u =
     (case urlparse ip_ok u of
        None \<Rightarrow> Inl ()
      | Some p \<Rightarrow> Inr
          (if url_scheme p \<noteq> ''tinker'' then None
           else case split_on (CHR ''/'') (url_path p) of
                  [e, s] \<Rightarrow>
                    if e = [] then Some \<lparr>primary_id = url_netloc p, path_kind = [], secondary_id = s\<rparr> else None
                | [e, k, s] \<Rightarrow>
                    if e = [] then Some \<lparr>primary_id = url_netloc p, path_kind = k, secondary_id = s\<rparr> else None
                | _ \<Rightarrow> None))"

text \<open>\<open>ID_PATTERN\<close> and \<open>ID_MAX_LENGTH\<close> of the request bodies.\<close>

definition id_char :: "char \<Rightarrow> bool" where
  "id_char c = (is_alpha c \<or> is_digit c \<or> c \<in> set ''_-'')"

definition id_ok :: "string \<Rightarrow> bool" where
  "id_ok s = (s \<noteq> [] \<and> length s \<le> 255 \<and> list_all id_char s)"

text \<open>The paths the engine and the API hand out.\<close>

definition weights_path :: "string \<Rightarrow> string \<Rightarrow> string" where
  "weights_path m c = ''tinker://'' @ m @ ''/weights/'' @ c"

definition sampler_path :: "string \<Rightarrow> string \<Rightarrow> string" where
  "sampler_path m c = ''tinker://'' @ m @ ''/'' @ c"

section \<open>Lemmas\<close>

lemma split_on_nonempty [simp]: "split_on sep s \<noteq> []"
  by (cases s) (auto split: list.splits)

lemma split_on_none: "sep \<notin> set s \<Longrightarrow> split_on sep s = [s]"
  by (induction s) auto

lemma split_on_append: "sep \<notin> set s \<Longrightarrow> split_on sep (s @ sep # t) = s # split_on sep t"
  by (induction s) auto

lemma split_on_Cons_sep: "split_on sep (sep # t) = [] # split_on sep t"
  by simp

definition plain_char :: "char \<Rightarrow> bool" where
  "plain_char c = ((of_char c :: nat) > 32 \<and> c \<notin> set ''/?#[]'')"

lemma id_char_plain: "id_char c \<Longrightarrow> plain_char c"
proof -
  assume id: "id_char c"
  have "c \<notin> set ''/?#[]''"
  proof
    assume "c \<in> set ''/?#[]''"
    then have "c \<in> {CHR ''/'', CHR ''?'', CHR ''#'', CHR ''['', CHR '']''}" by simp
    moreover have "\<not> id_char (CHR ''/'')" "\<not> id_char (CHR ''?'')" "\<not> id_char (CHR ''#'')"
      "\<not> id_char (CHR ''['')" "\<not> id_char (CHR '']'')" by code_simp+
    ultimately show False using id by blast
  qed
  moreover have "(of_char c :: nat) > 32"
  proof (cases "c = CHR ''_'' \<or> c = CHR ''-''")
    case True
    then show ?thesis by auto
  next
    case False
    with id have "is_alpha c \<or> is_digit c" by (simp add: id_char_def)
    then show ?thesis by (auto simp: is_alpha_def is_digit_def Let_def)
  qed
  ultimately show "plain_char c" by (simp add: plain_char_def)
qed

lemma url_clean_plain:
  "list_all (\<lambda>c. (of_char c :: nat) > 32) u \<Longrightarrow> url_clean u = u"
  by (cases u) (auto simp: url_clean_def list_all_iff intro!: filter_True)

text \<open>A URL of the service with a plain authority splits into the authority and the rest.\<close>

lemma urlparse_tinker:
  assumes m: "list_all plain_char m" and p: "list_all (\<lambda>c. plain_char c \<or> c = CHR ''/'') p"
  shows "urlparse ip_ok (''tinker://'' @ m @ ''/'' @ p) =
    Some \<lparr>url_scheme = ''tinker'', url_netloc = m, url_path = ''/'' @ p\<rparr>"
proof -
  have lit: "list_all (\<lambda>c. (of_char c :: nat) > 32) ''tinker://''"
    "list_all (\<lambda>c. (of_char c :: nat) > 32) ''/''" by code_simp+
  have "plain_char c \<or> c = CHR ''/'' \<Longrightarrow> (of_char c :: nat) > 32" for c
    by (auto simp: plain_char_def)
  with m p have "list_all (\<lambda>c. (of_char c :: nat) > 32) m" "list_all (\<lambda>c. (of_char c :: nat) > 32) p"
    by (auto simp: list_all_iff)
  with lit have "list_all (\<lambda>c. (of_char c :: nat) > 32) (''tinker://'' @ m @ ''/'' @ p)"
    by (simp only: list_all_append)
  note clean = url_clean_plain [OF this]
  have scheme: "split_scheme (''tinker://'' @ m @ ''/'' @ p) = (''tinker'', ''//'' @ m @ ''/'' @ p)"
  proof -
    have "list_all scheme_char ''tinker''" "is_alpha (CHR ''t'')" "map lower_char ''tinker'' = ''tinker''"
      by code_simp+
    then show ?thesis by (simp add: split_scheme_def)
  qed
  have tw: "takeWhile (\<lambda>c. c \<notin> set ''/?#'') (m @ ''/'' @ p) = m"
    "dropWhile (\<lambda>c. c \<notin> set ''/?#'') (m @ ''/'' @ p) = ''/'' @ p"
    using m by (auto simp: list_all_iff plain_char_def takeWhile_tail takeWhile_append dropWhile_append)
  have netloc: "split_netloc (''//'' @ m @ ''/'' @ p) = (m, ''/'' @ p)"
    using tw by (simp add: split_netloc_def)
  have nb: "netloc_ok ip_ok m"
    using m by (auto simp: netloc_ok_def list_all_iff plain_char_def Let_def)
  have "takeWhile (\<lambda>c. c \<noteq> CHR ''#'') p = p" "takeWhile (\<lambda>c. c \<noteq> CHR ''?'') p = p"
    using p by (intro iffD2 [OF takeWhile_eq_all_conv], auto simp: list_all_iff plain_char_def)+
  then have "takeWhile (\<lambda>c. c \<noteq> CHR ''?'') (takeWhile (\<lambda>c. c \<noteq> CHR ''#'') p) = p" by (simp only:)
  with clean scheme netloc nb show ?thesis by (simp add: urlparse_def)
qed

lemma plain_no_slash: "list_all plain_char s \<Longrightarrow> CHR ''/'' \<notin> set s"
  by (auto simp: list_all_iff plain_char_def)

lemma parse_weights_path:
  assumes "list_all plain_char m" "list_all plain_char c"
  shows "TinkerPath_parse ip_ok (weights_path m c) =
    Inr (Some \<lparr>primary_id = m, path_kind = ''weights'', secondary_id = c\<rparr>)"
proof -
  have "list_all (\<lambda>c. plain_char c \<or> c = CHR ''/'') (''weights/'' @ c)"
    using assms(2) by (auto simp: list_all_iff plain_char_def)
  from urlparse_tinker [OF assms(1) this] show ?thesis
    using split_on_append [of "CHR ''/''" "''weights''" c] split_on_none [OF plain_no_slash [OF assms(2)]]
    by (simp add: TinkerPath_parse_def weights_path_def)
qed

lemma parse_sampler_path:
  assumes "list_all plain_char m" "list_all plain_char c"
  shows "TinkerPath_parse ip_ok (sampler_path m c) =
    Inr (Some \<lparr>primary_id = m, path_kind = [], secondary_id = c\<rparr>)"
proof -
  have "list_all (\<lambda>c. plain_char c \<or> c = CHR ''/'') c"
    using assms(2) by (auto simp: list_all_iff)
  from urlparse_tinker [OF assms(1) this] show ?thesis
    using split_on_none [OF plain_no_slash [OF assms(2)]]
    by (simp add: TinkerPath_parse_def sampler_path_def)
qed

lemma split_scheme_slash_free: "CHR ''/'' \<notin> set (fst (split_netloc u))"
  by (auto simp: split_netloc_def dest: set_takeWhileD)

lemma split_on_slash_free: "w \<in> set (split_on sep s) \<Longrightarrow> sep \<notin> set w"
  by (induction s arbitrary: w) (auto split: list.splits if_splits)

section \<open>Properties\<close>

text \<open>The paths the service hands out for training and sampler checkpoints parse back to the
  model and the checkpoint they were made of, for every identifier the API accepts.\<close>

theorem TinkerPath_roundtrip:
  assumes "id_ok m" "id_ok c"
  shows "TinkerPath_parse ip_ok (weights_path m c) =
      Inr (Some \<lparr>primary_id = m, path_kind = ''weights'', secondary_id = c\<rparr>)
    \<and> TinkerPath_parse ip_ok (sampler_path m c) =
      Inr (Some \<lparr>primary_id = m, path_kind = [], secondary_id = c\<rparr>)"
proof -
  have "list_all plain_char m" "list_all plain_char c"
    using assms by (auto simp: id_ok_def list_all_iff intro: id_char_plain)
  then show ?thesis using parse_weights_path parse_sampler_path by blast
qed

theorem TinkerPath_roundtrip_witness:
  "TinkerPath_parse (\<lambda>_. False) ''tinker://model_1a/weights/step-7'' =
      Inr (Some \<lparr>primary_id = ''model_1a'', path_kind = ''weights'', secondary_id = ''step-7''\<rparr>)
    \<and> TinkerPath_parse (\<lambda>_. False) ''tinker://model_1a/step-7'' =
      Inr (Some \<lparr>primary_id = ''model_1a'', path_kind = [], secondary_id = ''step-7''\<rparr>)"
proof -
  have "id_ok ''model_1a''" "id_ok ''step-7''" by code_simp+
  from TinkerPath_roundtrip [OF this, of "\<lambda>_. False"] show ?thesis
    by (simp add: weights_path_def sampler_path_def)
qed

text \<open>No component of a parsed path contains a slash, so a checkpoint path built from them stays
  one directory per component.\<close>

lemma TinkerPath_components:
  assumes "TinkerPath_parse ip_ok u = Inr (Some t)"
  shows "CHR ''/'' \<notin> set (primary_id t) \<and> CHR ''/'' \<notin> set (path_kind t) \<and> CHR ''/'' \<notin> set (secondary_id t)"
proof -
  from assms obtain p where p: "urlparse ip_ok u = Some p"
    by (auto simp: TinkerPath_parse_def split: option.splits)
  have net: "CHR ''/'' \<notin> set (url_netloc p)"
    using p split_scheme_slash_free [of "snd (split_scheme (url_clean u))"]
    by (auto simp: urlparse_def split: prod.splits if_splits)
  from assms p have parts: "primary_id t = url_netloc p"
    "path_kind t = [] \<or> path_kind t \<in> set (split_on (CHR ''/'') (url_path p))"
    "secondary_id t \<in> set (split_on (CHR ''/'') (url_path p))"
    by (auto simp: TinkerPath_parse_def split: list.splits if_splits)
  with net show ?thesis by (auto dest: split_on_slash_free)
qed

end
