(* ===== verification/Tinker_Types.thy ===== *)
theory Tinker_Types
  imports Prelude
begin

text \<open>
  The data of the Tinker service: the request, result and batch types of
  \<^verbatim>\<open>skyrl/tinker/types.py\<close> and the rows of \<^verbatim>\<open>skyrl/tinker/db_models.py\<close>.  Python integers are
  \<open>int\<close>, floats are \<open>real\<close>, instants are microseconds since the epoch.  The key
  \<open>str(request_id)\<close> under which the engine files a request is represented by the integer itself
  (\<open>int(str(n)) = n\<close>).  A field of \<open>request_data\<close> of a row is kept in its typed form, one
  constructor per input class, so that \<open>model_validate\<close> is the partial projection on it.
\<close>

section \<open>Enumerations\<close>

datatype request_type =
    CREATE_MODEL | FORWARD_BACKWARD | FORWARD | OPTIM_STEP | SAVE_WEIGHTS_FOR_SAMPLER
  | SAVE_WEIGHTS | LOAD_WEIGHTS | SAMPLE | UNLOAD_MODEL | EXTERNAL

datatype checkpoint_type = TRAINING | SAMPLER

datatype request_status = PENDING | COMPLETED | FAILED

datatype checkpoint_status = CK_PENDING | CK_COMPLETED | CK_FAILED

type_synonym datetime = int

section \<open>Inputs\<close>

record adam_params =
  learning_rate :: real
  beta1 :: real
  beta2 :: real
  adam_eps :: real
  weight_decay :: real

record lora_config =
  lora_rank :: int
  lora_alpha :: real
  lora_seed :: int
  train_attn :: bool
  train_mlp :: bool
  train_unembed :: bool

record create_model_input =
  cm_lora_config :: lora_config
  cm_model_role :: string

datatype image_format = PNG | JPEG

datatype model_input_chunk =
    EncodedTextChunk "int list"
  | ImageChunk (image_data: "nat list") (image_format: image_format) (image_expected: "int option")
  | ImageAssetPointerChunk (asset_format: image_format) (asset_location: string) (asset_expected: "int option")

type_synonym model_input = "model_input_chunk list"

record loss_fn_inputs =
  target_tokens :: "int list"
  li_weights :: "real list"
  li_advantages :: "real list"
  li_logprobs :: "real list"
  li_values :: "real list"
  li_returns :: "real list"

record datum =
  d_loss_fn_inputs :: loss_fn_inputs
  d_model_input :: model_input

record forward_backward_input =
  fb_data :: "datum list"
  fb_loss_fn :: string
  fb_loss_fn_config :: "(string, real) dict option"

record save_weights_for_sampler_input =
  sws_path :: "string option"
  sws_sampling_session_seq_id :: "int option"
  sws_seq_id :: "int option"
  sws_sampling_session_id :: "string option"

record load_weights_input =
  lw_source_model_id :: string
  lw_checkpoint_id :: string

record sampling_params =
  thinking_token_budget :: "int option"
  temperature :: real
  max_tokens :: int
  sp_seed :: int
  stop_tokens :: "int list option"
  stop_strings :: "string list option"
  top_k :: int
  top_p :: real

record sample_input =
  s_base_model :: "string option"
  s_prompt :: model_input
  s_sampling_params :: sampling_params
  s_num_samples :: int
  s_checkpoint_id :: string
  s_prompt_logprobs :: bool
  s_seq_id :: "int option"
  s_sampling_session_id :: "string option"

datatype request_data =
    CreateModelInput create_model_input
  | UnloadModelInput
  | ForwardBackwardInput forward_backward_input
  | OptimStepInput adam_params
  | SaveWeightsForSamplerInput save_weights_for_sampler_input
  | SaveWeightsInput string
  | LoadWeightsInput load_weights_input
  | SampleInput sample_input

fun as_forward_backward :: "request_data \<Rightarrow> forward_backward_input option" where
  "as_forward_backward (ForwardBackwardInput i) = Some i"
| "as_forward_backward _ = None"

fun as_sample :: "request_data \<Rightarrow> sample_input option" where
  "as_sample (SampleInput i) = Some i"
| "as_sample _ = None"

section \<open>Outputs\<close>

text \<open>A tensor in an output dictionary is its list of numbers; its \<open>dtype\<close> is always \<open>float32\<close> and its
  shape the length.  The constant \<open>type\<close> fields are left out.\<close>

datatype stop_reason = STOP_LENGTH | STOP_STOP

record generated_sequence =
  gs_loss_mask :: "real list option"
  gs_thinking_budget :: "(string, int) dict option"
  gs_served_by :: "(string, string) dict option"
  gs_stop_reason :: stop_reason
  gs_tokens :: "int list"
  gs_logprobs :: "real list"

datatype result_data =
    ErrorResponse (err_error: string) (err_status: string)
  | CreateModelOutput string string lora_config
  | UnloadModelOutput string string
  | ForwardBackwardOutput string "(string, real list) dict list" "(string, real) dict"
  | OptimStepOutput "(string, real) dict option"
  | SaveWeightsForSamplerOutput "string option" "string option"
  | SaveWeightsOutput string
  | LoadWeightsOutput
  | SampleOutput "generated_sequence list" "real list option"

definition is_error_response :: "result_data \<Rightarrow> bool" where
  "is_error_response r = (case r of ErrorResponse _ _ \<Rightarrow> True | _ \<Rightarrow> False)"

section \<open>Prepared batches\<close>

record prepared_model_pass_batch =
  mp_model_inputs :: "model_input list"
  mp_targets :: "int list list"
  mp_token_weights :: "real list list"
  mp_sampling_logprobs :: "real list list"
  mp_advantages :: "real list list"
  mp_values :: "real list list"
  mp_returns :: "real list list"
  mp_model_ids :: "string option list"
  mp_loss_fns :: "string list"
  mp_loss_fn_configs :: "(string, real) dict option list"
  mp_slices :: "(nat \<times> string option \<times> nat \<times> nat) list"

record prepared_sample_batch =
  ps_model_inputs :: "model_input list"
  ps_sampling_params :: "sampling_params list"
  ps_model_ids :: "string option list"
  ps_checkpoint_ids :: "string list"
  ps_checkpoint_paths :: "string list"
  ps_session_ids :: "string option list"
  ps_needs_prompt_logprobs :: bool
  ps_slices :: "(nat \<times> string option \<times> nat \<times> nat \<times> bool) list"

definition SUPPORTED_LOSS_FNS :: "string list" where
  "SUPPORTED_LOSS_FNS =
     [''cross_entropy'', ''importance_sampling'', ''ppo'', ''cispo'', ''ppo_critic'']"

text \<open>The routing key of a sample: \<open>sampling_session_id\<close>, a colon and \<open>seq_id\<close>.\<close>

definition make_routing_session_id :: "string option \<Rightarrow> int option \<Rightarrow> string option" where
  "make_routing_session_id sid seq =
     (case sid of None \<Rightarrow> None | Some s \<Rightarrow> (case seq of None \<Rightarrow> None | Some n \<Rightarrow> Some (s @ '':'' @ str_of_int n)))"

section \<open>Rows\<close>

record model_db =
  m_model_id :: string
  m_base_model :: string
  m_lora_config :: lora_config
  m_status :: string
  m_request_id :: nat
  m_session_id :: string
  m_created_at :: datetime

record future_db =
  f_request_id :: nat
  f_request_type :: request_type
  f_model_id :: "string option"
  f_request_data :: request_data
  f_result_data :: "result_data option"
  f_status :: request_status
  f_created_at :: datetime
  f_completed_at :: "datetime option"

record checkpoint_db =
  c_model_id :: string
  c_checkpoint_id :: string
  c_checkpoint_type :: checkpoint_type
  c_status :: checkpoint_status
  c_created_at :: datetime
  c_completed_at :: "datetime option"
  c_error_message :: "string option"

record session_db =
  se_session_id :: string
  se_tags :: "string list"
  se_user_metadata :: "(string, string) dict"
  se_sdk_version :: string
  se_status :: string
  se_created_at :: datetime
  se_last_heartbeat_at :: "datetime option"
  se_heartbeat_count :: nat

record sampling_session_db =
  ss_sampling_session_id :: string
  ss_session_id :: string
  ss_sampling_session_seq_id :: int
  ss_base_model :: "string option"
  ss_model_path :: "string option"
  ss_created_at :: datetime

record engine_state_db =
  es_inference_proxy_url :: "string option"
  es_updated_at :: datetime

text \<open>The database: one list of rows per table, in primary-key order for \<open>futures\<close>.\<close>

record tinker_db =
  db_models :: "model_db list"
  db_futures :: "future_db list"
  db_checkpoints :: "checkpoint_db list"
  db_sessions :: "session_db list"
  db_sampling_sessions :: "sampling_session_db list"
  db_engine_state :: "engine_state_db option"

definition empty_db :: tinker_db where
  "empty_db = \<lparr>db_models = [], db_futures = [], db_checkpoints = [], db_sessions = [],
     db_sampling_sessions = [], db_engine_state = None\<rparr>"

end
