(* ===== verification/Tinker_Batch.thy ===== *)
theory Tinker_Batch
  imports Tinker_Types
begin

text \<open>
  Batch preparation of \<^verbatim>\<open>skyrl/tinker/engine.py\<close>: \<open>prepare_sample_batch\<close> and
  \<open>prepare_model_pass_batch\<close> flatten a dict of requests into parallel lists and remember, per
  request, the slice of the batch that belongs to it.  The lemmas show that the slices cut the
  batch back into exactly the data of each request.  Joining path components is the operator of
  the path library, the parameter \<open>pjoin\<close>.
\<close>

section \<open>Operations\<close>

text \<open>Python truth of an optional string.\<close>

definition truthy :: "string option \<Rightarrow> bool" where
  "truthy s = (case s of None \<Rightarrow> False | Some x \<Rightarrow> x \<noteq> [])"

type_synonym 'i requests = "(nat, string option \<times> 'i) dict"

definition sample_checkpoint_path ::
  "(string \<Rightarrow> string \<Rightarrow> string) \<Rightarrow> string option \<Rightarrow> string option \<Rightarrow> string \<Rightarrow> string" where
  "sample_checkpoint_path pjoin base mid ckpt =
     (if truthy mid \<and> ckpt \<noteq> [] \<and> base \<noteq> None
      then pjoin (pjoin (pjoin (the base) (the mid)) ''sampler_weights'') (ckpt @ ''.tar.gz'')
      else [])"

definition sample_batch_step ::
  "(string \<Rightarrow> string \<Rightarrow> string) \<Rightarrow> string option \<Rightarrow> nat \<times> string option \<times> sample_input
   \<Rightarrow> prepared_sample_batch \<Rightarrow> prepared_sample_batch" where
  "sample_batch_step pjoin base req b =
     (case req of (rid, mid, r) \<Rightarrow>
        let start = length (ps_model_inputs b);
            path = sample_checkpoint_path pjoin base mid (s_checkpoint_id r);
            session = make_routing_session_id (s_sampling_session_id r) (s_seq_id r);
            n = nat (s_num_samples r);
            params = s_sampling_params r
        in b\<lparr>ps_model_inputs := ps_model_inputs b @ replicate n (s_prompt r),
             ps_sampling_params := ps_sampling_params b @
               map (\<lambda>i. params\<lparr>sp_seed := sp_seed params + int i\<rparr>) [0..<n],
             ps_model_ids := ps_model_ids b @ replicate n mid,
             ps_checkpoint_ids := ps_checkpoint_ids b @ replicate n (s_checkpoint_id r),
             ps_checkpoint_paths := ps_checkpoint_paths b @ replicate n path,
             ps_session_ids := ps_session_ids b @ replicate n session,
             ps_slices := ps_slices b @ [(rid, mid, start, start + n, s_prompt_logprobs r)]\<rparr>)"

definition prepare_sample_batch ::
  "(string \<Rightarrow> string \<Rightarrow> string) \<Rightarrow> sample_input requests \<Rightarrow> string option \<Rightarrow> prepared_sample_batch" where
  "prepare_sample_batch pjoin requests base =
     fold (sample_batch_step pjoin base) requests
       \<lparr>ps_model_inputs = [], ps_sampling_params = [], ps_model_ids = [], ps_checkpoint_ids = [],
        ps_checkpoint_paths = [], ps_session_ids = [],
        ps_needs_prompt_logprobs = list_ex (\<lambda>(rid, mid, r). s_prompt_logprobs r) requests,
        ps_slices = []\<rparr>"

definition model_pass_step ::
  "nat \<times> string option \<times> forward_backward_input \<Rightarrow> prepared_model_pass_batch \<Rightarrow> prepared_model_pass_batch" where
  "model_pass_step req b =
     (case req of (rid, mid, r) \<Rightarrow>
        let start = length (mp_model_inputs b); items = fb_data r; n = length items
        in b\<lparr>mp_model_inputs := mp_model_inputs b @ map d_model_input items,
             mp_targets := mp_targets b @ map (target_tokens \<circ> d_loss_fn_inputs) items,
             mp_token_weights := mp_token_weights b @ map (li_weights \<circ> d_loss_fn_inputs) items,
             mp_sampling_logprobs := mp_sampling_logprobs b @ map (li_logprobs \<circ> d_loss_fn_inputs) items,
             mp_advantages := mp_advantages b @ map (li_advantages \<circ> d_loss_fn_inputs) items,
             mp_values := mp_values b @ map (li_values \<circ> d_loss_fn_inputs) items,
             mp_returns := mp_returns b @ map (li_returns \<circ> d_loss_fn_inputs) items,
             mp_model_ids := mp_model_ids b @ replicate n mid,
             mp_loss_fns := mp_loss_fns b @ replicate n (fb_loss_fn r),
             mp_loss_fn_configs := mp_loss_fn_configs b @ replicate n (fb_loss_fn_config r),
             mp_slices := mp_slices b @ [(rid, mid, start, start + n)]\<rparr>)"

definition quoted :: "string \<Rightarrow> string" where
  "quoted s = [CHR 0x27] @ s @ [CHR 0x27]"

definition unknown_loss_message :: "string \<Rightarrow> string" where
  "unknown_loss_message l = ''Unknown loss function '' @ quoted l @ ''. Must be one of: ['' @
     quoted ''cispo'' @ '', '' @ quoted ''cross_entropy'' @ '', '' @ quoted ''importance_sampling'' @
     '', '' @ quoted ''ppo'' @ '', '' @ quoted ''ppo_critic'' @ '']''"

fun model_pass_loop ::
  "forward_backward_input requests \<Rightarrow> prepared_model_pass_batch \<Rightarrow> (string, prepared_model_pass_batch) result" where
  "model_pass_loop [] b = Inr b"
| "model_pass_loop ((rid, mid, r) # rest) b =
     (if fb_loss_fn r \<notin> set SUPPORTED_LOSS_FNS then Inl (unknown_loss_message (fb_loss_fn r))
      else model_pass_loop rest (model_pass_step (rid, mid, r) b))"

definition prepare_model_pass_batch ::
  "forward_backward_input requests \<Rightarrow> (string, prepared_model_pass_batch) result" where
  "prepare_model_pass_batch requests =
     model_pass_loop requests
       \<lparr>mp_model_inputs = [], mp_targets = [], mp_token_weights = [], mp_sampling_logprobs = [],
        mp_advantages = [], mp_values = [], mp_returns = [], mp_model_ids = [], mp_loss_fns = [],
        mp_loss_fn_configs = [], mp_slices = []\<rparr>"

section \<open>Slices of a concatenation\<close>

fun bounds_from :: "nat \<Rightarrow> nat list \<Rightarrow> (nat \<times> nat) list" where
  "bounds_from s [] = []"
| "bounds_from s (n # ns) = (s, s + n) # bounds_from (s + n) ns"

definition cut :: "nat \<times> nat \<Rightarrow> 'a list \<Rightarrow> 'a list" where
  "cut se xs = take (snd se - fst se) (drop (fst se) xs)"

lemma cut_concat:
  "map (\<lambda>se. cut se (pre @ concat xss)) (bounds_from (length pre) (map length xss)) = xss"
proof (induction xss arbitrary: pre)
  case Nil
  then show ?case by simp
next
  case (Cons xs xss)
  have "cut (length pre, length pre + length xs) (pre @ concat (xs # xss)) = xs"
    by (simp add: cut_def)
  moreover have "map (\<lambda>se. cut se (pre @ concat (xs # xss)))
      (bounds_from (length pre + length xs) (map length xss)) = xss"
    using Cons.IH [of "pre @ xs"] by simp
  ultimately show ?case by simp
qed

lemma cut_concat0: "map (\<lambda>se. cut se (concat xss)) (bounds_from 0 (map length xss)) = xss"
  using cut_concat [of "[]" xss] by simp

lemma bounds_from_snoc: "bounds_from s (ns @ [n]) = bounds_from s ns @ [(s + sum_list ns, s + sum_list ns + n)]"
  by (induction ns arbitrary: s) (simp_all add: ac_simps)

lemma length_bounds_from [simp]: "length (bounds_from s ns) = length ns"
  by (induction ns arbitrary: s) simp_all

lemma zip_snoc: "length xs = length ys \<Longrightarrow> zip (xs @ [x]) (ys @ [y]) = zip xs ys @ [(x, y)]"
  by simp

section \<open>The closed form of a model-pass batch\<close>

definition req_items :: "nat \<times> string option \<times> forward_backward_input \<Rightarrow> datum list" where
  "req_items q = fb_data (snd (snd q))"

definition model_pass_spec :: "forward_backward_input requests \<Rightarrow> prepared_model_pass_batch" where
  "model_pass_spec reqs =
     \<lparr>mp_model_inputs = concat (map (\<lambda>q. map d_model_input (req_items q)) reqs),
      mp_targets = concat (map (\<lambda>q. map (target_tokens \<circ> d_loss_fn_inputs) (req_items q)) reqs),
      mp_token_weights = concat (map (\<lambda>q. map (li_weights \<circ> d_loss_fn_inputs) (req_items q)) reqs),
      mp_sampling_logprobs = concat (map (\<lambda>q. map (li_logprobs \<circ> d_loss_fn_inputs) (req_items q)) reqs),
      mp_advantages = concat (map (\<lambda>q. map (li_advantages \<circ> d_loss_fn_inputs) (req_items q)) reqs),
      mp_values = concat (map (\<lambda>q. map (li_values \<circ> d_loss_fn_inputs) (req_items q)) reqs),
      mp_returns = concat (map (\<lambda>q. map (li_returns \<circ> d_loss_fn_inputs) (req_items q)) reqs),
      mp_model_ids = concat (map (\<lambda>q. replicate (length (req_items q)) (fst (snd q))) reqs),
      mp_loss_fns = concat (map (\<lambda>q. replicate (length (req_items q)) (fb_loss_fn (snd (snd q)))) reqs),
      mp_loss_fn_configs =
        concat (map (\<lambda>q. replicate (length (req_items q)) (fb_loss_fn_config (snd (snd q)))) reqs),
      mp_slices = map (\<lambda>(q, s, e). (fst q, fst (snd q), s, e))
        (zip reqs (bounds_from 0 (map (\<lambda>q. length (req_items q)) reqs)))\<rparr>"

lemma model_pass_spec_step: "model_pass_step q (model_pass_spec reqs) = model_pass_spec (reqs @ [q])"
  by (cases q)
    (simp add: model_pass_step_def model_pass_spec_def Let_def req_items_def bounds_from_snoc
      length_concat comp_def)

lemma model_pass_loop_spec:
  "model_pass_loop reqs (model_pass_spec acc) =
     (case filter (\<lambda>q. fb_loss_fn (snd (snd q)) \<notin> set SUPPORTED_LOSS_FNS) reqs of
        [] \<Rightarrow> Inr (model_pass_spec (acc @ reqs))
      | q # _ \<Rightarrow> Inl (unknown_loss_message (fb_loss_fn (snd (snd q)))))"
proof (induction reqs arbitrary: acc)
  case Nil
  then show ?case by simp
next
  case (Cons q reqs)
  obtain rid mid r where q: "q = (rid, mid, r)" by (cases q) auto
  show ?case using Cons.IH [of "acc @ [q]"]
    by (cases "fb_loss_fn r \<in> set SUPPORTED_LOSS_FNS") (simp_all add: q model_pass_spec_step split: list.split)
qed

lemma prepare_model_pass_batch_spec:
  "prepare_model_pass_batch reqs =
     (case filter (\<lambda>q. fb_loss_fn (snd (snd q)) \<notin> set SUPPORTED_LOSS_FNS) reqs of
        [] \<Rightarrow> Inr (model_pass_spec reqs)
      | q # _ \<Rightarrow> Inl (unknown_loss_message (fb_loss_fn (snd (snd q)))))"
proof -
  have "model_pass_spec [] = \<lparr>mp_model_inputs = [], mp_targets = [], mp_token_weights = [],
      mp_sampling_logprobs = [], mp_advantages = [], mp_values = [], mp_returns = [], mp_model_ids = [],
      mp_loss_fns = [], mp_loss_fn_configs = [], mp_slices = []\<rparr>"
    by (simp add: model_pass_spec_def)
  with model_pass_loop_spec [of reqs "[]"] show ?thesis
    by (simp add: prepare_model_pass_batch_def split: list.split)
qed

lemma cut_map_concat:
  "map length (map f reqs) = map g reqs \<Longrightarrow>
   map (\<lambda>se. cut se (concat (map f reqs))) (bounds_from 0 (map g reqs)) = map f reqs"
  using cut_concat0 [of "map f reqs"] by (simp del: map_map)

section \<open>The closed form of a sample batch\<close>

definition req_samples :: "nat \<times> string option \<times> sample_input \<Rightarrow> nat" where
  "req_samples q = nat (s_num_samples (snd (snd q)))"

definition req_params :: "nat \<times> string option \<times> sample_input \<Rightarrow> sampling_params list" where
  "req_params q = map (\<lambda>i. (s_sampling_params (snd (snd q)))\<lparr>sp_seed :=
     sp_seed (s_sampling_params (snd (snd q))) + int i\<rparr>) [0..<req_samples q]"

definition sample_spec ::
  "(string \<Rightarrow> string \<Rightarrow> string) \<Rightarrow> string option \<Rightarrow> bool \<Rightarrow> sample_input requests \<Rightarrow> prepared_sample_batch" where
  "sample_spec pjoin base needs reqs =
     \<lparr>ps_model_inputs = concat (map (\<lambda>q. replicate (req_samples q) (s_prompt (snd (snd q)))) reqs),
      ps_sampling_params = concat (map req_params reqs),
      ps_model_ids = concat (map (\<lambda>q. replicate (req_samples q) (fst (snd q))) reqs),
      ps_checkpoint_ids = concat (map (\<lambda>q. replicate (req_samples q) (s_checkpoint_id (snd (snd q)))) reqs),
      ps_checkpoint_paths = concat (map (\<lambda>q. replicate (req_samples q)
        (sample_checkpoint_path pjoin base (fst (snd q)) (s_checkpoint_id (snd (snd q))))) reqs),
      ps_session_ids = concat (map (\<lambda>q. replicate (req_samples q)
        (make_routing_session_id (s_sampling_session_id (snd (snd q))) (s_seq_id (snd (snd q))))) reqs),
      ps_needs_prompt_logprobs = needs,
      ps_slices = map (\<lambda>(q, s, e). (fst q, fst (snd q), s, e, s_prompt_logprobs (snd (snd q))))
        (zip reqs (bounds_from 0 (map req_samples reqs)))\<rparr>"

lemma sample_spec_step:
  "sample_batch_step pjoin base q (sample_spec pjoin base needs reqs) = sample_spec pjoin base needs (reqs @ [q])"
proof -
  obtain rid mid r where q: "q = (rid, mid, r)" by (cases q) auto
  have "nat (s_num_samples r) = req_samples q" by (simp add: q req_samples_def)
  then show ?thesis
    by (simp add: sample_batch_step_def sample_spec_def Let_def q req_params_def
        bounds_from_snoc length_concat comp_def)
qed

lemma prepare_sample_batch_spec:
  "prepare_sample_batch pjoin reqs base =
     sample_spec pjoin base (list_ex (\<lambda>(rid, mid, r). s_prompt_logprobs r) reqs) reqs"
proof -
  let ?n = "list_ex (\<lambda>(rid, mid, r). s_prompt_logprobs r) reqs"
  have "fold (sample_batch_step pjoin base) reqs (sample_spec pjoin base n acc) =
      sample_spec pjoin base n (acc @ reqs)" for n acc
    by (induction reqs arbitrary: acc) (simp_all add: sample_spec_step)
  from this [of ?n "[]"] show ?thesis
    by (simp add: prepare_sample_batch_def sample_spec_def)
qed

section \<open>Properties\<close>

text \<open>A model-pass batch holds the examples of its requests back to back, and the slice
  recorded for a request cuts its inputs, its targets, its weights, its model and its loss function
  out of the parallel lists; an unsupported loss function is refused before anything runs.\<close>

theorem prepare_model_pass_batch_slices:
  "case prepare_model_pass_batch reqs of
     Inl e \<Rightarrow> (\<exists>q\<in>set reqs. fb_loss_fn (snd (snd q)) \<notin> set SUPPORTED_LOSS_FNS \<and>
        e = unknown_loss_message (fb_loss_fn (snd (snd q))))
   | Inr b \<Rightarrow> list_all (\<lambda>q. fb_loss_fn (snd (snd q)) \<in> set SUPPORTED_LOSS_FNS) reqs \<and>
       map (\<lambda>(rid, mid, se). (rid, mid)) (mp_slices b) = map (\<lambda>(rid, mid, r). (rid, mid)) reqs \<and>
       map (\<lambda>(rid, mid, se). cut se (mp_model_inputs b)) (mp_slices b) =
         map (\<lambda>(rid, mid, r). map d_model_input (fb_data r)) reqs \<and>
       map (\<lambda>(rid, mid, se). cut se (mp_targets b)) (mp_slices b) =
         map (\<lambda>(rid, mid, r). map (target_tokens \<circ> d_loss_fn_inputs) (fb_data r)) reqs \<and>
       map (\<lambda>(rid, mid, se). cut se (mp_token_weights b)) (mp_slices b) =
         map (\<lambda>(rid, mid, r). map (li_weights \<circ> d_loss_fn_inputs) (fb_data r)) reqs \<and>
       map (\<lambda>(rid, mid, se). cut se (mp_model_ids b)) (mp_slices b) =
         map (\<lambda>(rid, mid, r). replicate (length (fb_data r)) mid) reqs \<and>
       map (\<lambda>(rid, mid, se). cut se (mp_loss_fns b)) (mp_slices b) =
         map (\<lambda>(rid, mid, r). replicate (length (fb_data r)) (fb_loss_fn r)) reqs"
proof (cases "filter (\<lambda>q. fb_loss_fn (snd (snd q)) \<notin> set SUPPORTED_LOSS_FNS) reqs")
  case Nil
  let ?g = "\<lambda>q. length (req_items q)"
  have sl: "map (\<lambda>(rid, mid, se). h se) (mp_slices (model_pass_spec reqs)) = map h (bounds_from 0 (map ?g reqs))"
    for h :: "nat \<times> nat \<Rightarrow> 'b"
    by (rule nth_equalityI) (auto simp: model_pass_spec_def case_prod_beta)
  have keys: "map (\<lambda>(rid, mid, se). (rid, mid)) (mp_slices (model_pass_spec reqs)) =
      map (\<lambda>(rid, mid, r). (rid, mid)) reqs"
    by (rule nth_equalityI) (auto simp: model_pass_spec_def case_prod_beta)
  from Nil have ok: "list_all (\<lambda>q. fb_loss_fn (snd (snd q)) \<in> set SUPPORTED_LOSS_FNS) reqs"
    by (simp add: filter_empty_conv list_all_iff)
  have flds: "map (\<lambda>se. cut se (concat (map f reqs))) (bounds_from 0 (map ?g reqs)) = map f reqs"
    if "\<And>q. length (f q) = ?g q" for f :: "nat \<times> string option \<times> forward_backward_input \<Rightarrow> 'b list"
    by (rule cut_map_concat) (simp add: that)
  show ?thesis
    unfolding prepare_model_pass_batch_spec Nil list.case sum.case sl keys
    using ok by (simp add: model_pass_spec_def flds) (auto simp: req_items_def)
next
  case (Cons q qs)
  then have "q \<in> set (filter (\<lambda>q. fb_loss_fn (snd (snd q)) \<notin> set SUPPORTED_LOSS_FNS) reqs)" by simp
  then have "q \<in> set reqs" "fb_loss_fn (snd (snd q)) \<notin> set SUPPORTED_LOSS_FNS" by simp_all
  then show ?thesis unfolding prepare_model_pass_batch_spec Cons list.case sum.case by blast
qed

text \<open>A sample batch repeats each prompt once per requested sample, with pairwise different
  seeds counted up from the request's seed, and the recorded slice cuts the samples of a request,
  their model, checkpoint and routing key back out.\<close>

theorem prepare_sample_batch_slices:
  "let b = prepare_sample_batch pjoin reqs base in
     map (\<lambda>(rid, mid, s, e, pl). (rid, mid, pl)) (ps_slices b) =
       map (\<lambda>(rid, mid, r). (rid, mid, s_prompt_logprobs r)) reqs \<and>
     map (\<lambda>(rid, mid, s, e, pl). cut (s, e) (ps_model_inputs b)) (ps_slices b) =
       map (\<lambda>(rid, mid, r). replicate (nat (s_num_samples r)) (s_prompt r)) reqs \<and>
     map (\<lambda>(rid, mid, s, e, pl). map sp_seed (cut (s, e) (ps_sampling_params b))) (ps_slices b) =
       map (\<lambda>(rid, mid, r). map (\<lambda>i. sp_seed (s_sampling_params r) + int i) [0..<nat (s_num_samples r)]) reqs \<and>
     map (\<lambda>(rid, mid, s, e, pl). cut (s, e) (ps_model_ids b)) (ps_slices b) =
       map (\<lambda>(rid, mid, r). replicate (nat (s_num_samples r)) mid) reqs \<and>
     map (\<lambda>(rid, mid, s, e, pl). cut (s, e) (ps_checkpoint_ids b)) (ps_slices b) =
       map (\<lambda>(rid, mid, r). replicate (nat (s_num_samples r)) (s_checkpoint_id r)) reqs \<and>
     map (\<lambda>(rid, mid, s, e, pl). cut (s, e) (ps_session_ids b)) (ps_slices b) =
       map (\<lambda>(rid, mid, r). replicate (nat (s_num_samples r))
         (make_routing_session_id (s_sampling_session_id r) (s_seq_id r))) reqs"
proof -
  let ?n = "list_ex (\<lambda>(rid, mid, r). s_prompt_logprobs r) reqs"
  let ?b = "sample_spec pjoin base ?n reqs"
  have sl: "map (\<lambda>(rid, mid, s, e, pl). h (s, e)) (ps_slices ?b) = map h (bounds_from 0 (map req_samples reqs))"
    for h :: "nat \<times> nat \<Rightarrow> 'b"
    by (rule nth_equalityI) (auto simp: sample_spec_def case_prod_beta)
  have keys: "map (\<lambda>(rid, mid, s, e, pl). (rid, mid, pl)) (ps_slices ?b) =
      map (\<lambda>(rid, mid, r). (rid, mid, s_prompt_logprobs r)) reqs"
    by (rule nth_equalityI) (auto simp: sample_spec_def case_prod_beta)
  have flds: "map (\<lambda>se. cut se (concat (map f reqs))) (bounds_from 0 (map req_samples reqs)) = map f reqs"
    if "\<And>q. length (f q) = req_samples q" for f :: "nat \<times> string option \<times> sample_input \<Rightarrow> 'b list"
    by (rule cut_map_concat) (simp add: that)
  have seeds: "map (\<lambda>se. map sp_seed (cut se (concat (map req_params reqs)))) (bounds_from 0 (map req_samples reqs))
      = map (\<lambda>q. map sp_seed (req_params q)) reqs"
    using arg_cong [OF flds [of req_params], of "map (map sp_seed)"]
    unfolding map_map comp_def by (simp add: req_params_def)
  note cuts = sl [of "\<lambda>se. cut se xs" for xs] sl [of "\<lambda>se. map sp_seed (cut se xs)" for xs]
  show ?thesis
    unfolding prepare_sample_batch_spec Let_def keys cuts
    by (simp add: sample_spec_def flds seeds) (auto simp: req_samples_def req_params_def)
qed

end
