(* ===== verification/Tinker_Scheduler.thy ===== *)
theory Tinker_Scheduler
  imports Tinker_Types
begin

text \<open>
  Request finding of \<^verbatim>\<open>TinkerEngine\<close> (\<^verbatim>\<open>skyrl/tinker/engine.py\<close>): the barriers, the
  batchable passes, the batchable samples and the single requests of one poll, as functions of the
  \<open>futures\<close> table.  The queries return rows in the order of \<open>request_id\<close>.  \<open>None\<close> is the
  exception of \<open>model_validate\<close> or of the \<open>checkpoint_id\<close> lookup on a row whose data is of another
  class.  The relation \<open>sched_step\<close> lets clients append rows and the engine run a poll; its log is
  the order in which requests are executed.
\<close>

section \<open>Queries\<close>

definition destructive :: "request_type \<Rightarrow> bool" where
  "destructive t = (t = OPTIM_STEP \<or> t = LOAD_WEIGHTS)"

definition is_pass :: "request_type \<Rightarrow> bool" where
  "is_pass t = (t = FORWARD_BACKWARD \<or> t = FORWARD)"

definition is_single :: "request_type \<Rightarrow> bool" where
  "is_single t = (t \<noteq> FORWARD_BACKWARD \<and> t \<noteq> FORWARD \<and> t \<noteq> SAMPLE \<and> t \<noteq> EXTERNAL)"

definition pending_ordered :: "(request_type \<Rightarrow> bool) \<Rightarrow> future_db list \<Rightarrow> future_db list" where
  "pending_ordered P futs =
     sort_key f_request_id (filter (\<lambda>f. P (f_request_type f) \<and> f_status f = PENDING) futs)"

text \<open>\<open>SELECT model_id, min(request_id) ... GROUP BY model_id\<close>.\<close>

definition find_destructive_barriers :: "future_db list \<Rightarrow> (string option, nat) dict" where
  "find_destructive_barriers futs =
     (let rows = filter (\<lambda>f. destructive (f_request_type f) \<and> f_status f = PENDING) futs
      in map (\<lambda>m. (m, min_list (map f_request_id (filter (\<lambda>f. f_model_id f = m) rows))))
           (remdups (map f_model_id rows)))"

definition before_barrier :: "(string option, nat) dict \<Rightarrow> future_db \<Rightarrow> bool" where
  "before_barrier barriers f =
     (case dict_get barriers (f_model_id f) of None \<Rightarrow> True | Some b \<Rightarrow> f_request_id f < b)"

definition batchable_passes :: "future_db list \<Rightarrow> request_type \<Rightarrow> future_db list" where
  "batchable_passes futs rt =
     filter (before_barrier (find_destructive_barriers futs)) (pending_ordered (\<lambda>t. t = rt) futs)"

definition find_batchable_model_passes ::
  "future_db list \<Rightarrow> request_type \<Rightarrow> (nat, string option \<times> forward_backward_input) dict option" where
  "find_batchable_model_passes futs rt =
     those (map (\<lambda>f. map_option (\<lambda>i. (f_request_id f, (f_model_id f, i))) (as_forward_backward (f_request_data f)))
       (batchable_passes futs rt))"

text \<open>One row of the loop over pending samples: the first checkpoint of a model wins.\<close>

fun batchable_samples ::
  "(string option, string) dict \<Rightarrow> future_db list \<Rightarrow> future_db list option" where
  "batchable_samples ckpts [] = Some []"
| "batchable_samples ckpts (f # fs) =
     (case as_sample (f_request_data f) of
        None \<Rightarrow> None
      | Some r \<Rightarrow>
          (let c = s_checkpoint_id r in
           if c = [] then map_option ((#) f) (batchable_samples ckpts fs)
           else case dict_get ckpts (f_model_id f) of
                  None \<Rightarrow> map_option ((#) f) (batchable_samples (dict_put (f_model_id f) c ckpts) fs)
                | Some c0 \<Rightarrow>
                    if c0 = c then map_option ((#) f) (batchable_samples ckpts fs)
                    else batchable_samples ckpts fs))"

definition limit_samples :: "string \<Rightarrow> int \<Rightarrow> 'a list \<Rightarrow> 'a list" where
  "limit_samples backend max_seqs xs = (if backend = ''jax'' \<and> max_seqs > 0 then take (nat max_seqs) xs else xs)"

definition find_batchable_sample ::
  "string \<Rightarrow> int \<Rightarrow> future_db list \<Rightarrow> (nat, string option \<times> sample_input) dict option" where
  "find_batchable_sample backend max_seqs futs =
     (case batchable_samples [] (pending_ordered (\<lambda>t. t = SAMPLE) futs) of
        None \<Rightarrow> None
      | Some fs \<Rightarrow>
          those (map (\<lambda>f. map_option (\<lambda>i. (f_request_id f, (f_model_id f, i))) (as_sample (f_request_data f)))
            (limit_samples backend max_seqs fs)))"

text \<open>The first blocked pass per model; \<open>NULL IN (...)\<close> selects nothing in SQL.\<close>

definition blocked_pass_barriers :: "future_db list \<Rightarrow> (string option, nat) dict" where
  "blocked_pass_barriers futs =
     (let barriers = find_destructive_barriers futs;
          passes = filter (\<lambda>f. f_model_id f \<noteq> None \<and> dict_has barriers (f_model_id f))
            (pending_ordered is_pass futs)
      in fold (\<lambda>f acc.
           if the (dict_get barriers (f_model_id f)) \<le> f_request_id f \<and> \<not> dict_has acc (f_model_id f)
           then dict_put (f_model_id f) (f_request_id f) acc else acc) passes [])"

definition single_rows :: "future_db list \<Rightarrow> future_db list" where
  "single_rows futs =
     filter (before_barrier (blocked_pass_barriers futs)) (pending_ordered is_single futs)"

definition find_single_requests ::
  "future_db list \<Rightarrow> (nat, string option \<times> request_type \<times> request_data) dict" where
  "find_single_requests futs =
     map (\<lambda>f. (f_request_id f, (f_model_id f, f_request_type f, f_request_data f))) (single_rows futs)"

section \<open>Facts about the queries\<close>

lemma set_pending_ordered:
  "f \<in> set (pending_ordered P futs) \<longleftrightarrow> f \<in> set futs \<and> P (f_request_type f) \<and> f_status f = PENDING"
  by (auto simp: pending_ordered_def)

lemma sorted_pending_ordered: "sorted (map f_request_id (pending_ordered P futs))"
  by (simp add: pending_ordered_def)

lemma barrier_get:
  "dict_get (find_destructive_barriers futs) m =
     (let ids = map f_request_id (filter (\<lambda>f. f_model_id f = m)
        (filter (\<lambda>f. destructive (f_request_type f) \<and> f_status f = PENDING) futs))
      in if ids = [] then None else Some (min_list ids))"
proof -
  let ?rows = "filter (\<lambda>f. destructive (f_request_type f) \<and> f_status f = PENDING) futs"
  have "map_of (map (\<lambda>m. (m, h m)) ms) m = (if m \<in> set ms then Some (h m) else None)"
    for h :: "string option \<Rightarrow> nat" and ms
    by (induction ms) auto
  then show ?thesis
    by (auto simp: find_destructive_barriers_def Let_def filter_empty_conv)
qed

lemma barrier_le:
  assumes "d \<in> set futs" "destructive (f_request_type d)" "f_status d = PENDING"
  shows "\<exists>b. dict_get (find_destructive_barriers futs) (f_model_id d) = Some b \<and> b \<le> f_request_id d"
proof -
  let ?ids = "map f_request_id (filter (\<lambda>f. f_model_id f = f_model_id d)
        (filter (\<lambda>f. destructive (f_request_type f) \<and> f_status f = PENDING) futs))"
  have "f_request_id d \<in> set ?ids" using assms by auto
  then have "?ids \<noteq> []" by (metis empty_iff list.set(1))
  then have "min_list ?ids = Min (set ?ids)" by (rule min_list_Min)
  with \<open>f_request_id d \<in> set ?ids\<close> have "min_list ?ids \<le> f_request_id d" by simp
  note this \<open>?ids \<noteq> []\<close>
  then show ?thesis by (auto simp: barrier_get Let_def)
qed

lemma min_list_in: "xs \<noteq> [] \<Longrightarrow> min_list (xs :: nat list) \<in> set xs"
proof -
  assume "xs \<noteq> []"
  then have "min_list xs = Min (set xs)" "Min (set xs) \<in> set xs"
    by (auto intro: min_list_Min Min_in)
  then show ?thesis by (simp only:)
qed

lemma barrier_witness:
  assumes "dict_get (find_destructive_barriers futs) m = Some b"
  shows "\<exists>d\<in>set futs. destructive (f_request_type d) \<and> f_status d = PENDING \<and> f_model_id d = m \<and> f_request_id d = b"
proof -
  let ?ids = "map f_request_id (filter (\<lambda>f. f_model_id f = m)
        (filter (\<lambda>f. destructive (f_request_type f) \<and> f_status f = PENDING) futs))"
  from assms have "?ids \<noteq> []" "b = min_list ?ids"
    by (auto simp: barrier_get Let_def split: if_splits)
  with min_list_in [OF this(1)] have "b \<in> set ?ids" by simp
  then show ?thesis by auto
qed

lemma fold_first_get:
  assumes "sorted (map f_request_id ps)"
  shows "dict_get (fold (\<lambda>f acc. if P f \<and> \<not> dict_has acc (f_model_id f)
      then dict_put (f_model_id f) (f_request_id f) acc else acc) ps acc0) m =
    (case dict_get acc0 m of Some v \<Rightarrow> Some v
     | None \<Rightarrow> map_option f_request_id (find (\<lambda>f. P f \<and> f_model_id f = m) ps))"
  by (induction ps arbitrary: acc0) (auto simp: dict_simps dict_has_def split: option.splits)

lemma find_Some_mem: "find Q ps = Some g \<Longrightarrow> g \<in> set ps \<and> Q g"
  by (induction ps) (auto split: if_splits)

lemma find_sorted_le:
  assumes "sorted (map f_request_id ps)" "f \<in> set ps" "Q f"
  obtains g where "find Q ps = Some g" "f_request_id g \<le> f_request_id f" "Q g" "g \<in> set ps"
  using assms
proof (induction ps arbitrary: thesis)
  case Nil
  then show ?case by simp
next
  case (Cons p ps)
  show ?case
  proof (cases "Q p")
    case True
    with Cons.prems show ?thesis by auto
  next
    case False
    with Cons.prems have "f \<in> set ps" "sorted (map f_request_id ps)" by auto
    from Cons.IH [OF _ this(2,1) Cons.prems(4)] False Cons.prems(1) show ?thesis
      by (metis find.simps(2) list.set_intros(2))
  qed
qed

lemma blocked_le:
  assumes "p \<in> set futs" "is_pass (f_request_type p)" "f_status p = PENDING" "f_model_id p \<noteq> None"
    and "\<not> before_barrier (find_destructive_barriers futs) p"
  shows "\<exists>b. dict_get (blocked_pass_barriers futs) (f_model_id p) = Some b \<and> b \<le> f_request_id p"
proof -
  let ?B = "find_destructive_barriers futs"
  let ?ps = "filter (\<lambda>f. f_model_id f \<noteq> None \<and> dict_has ?B (f_model_id f)) (pending_ordered is_pass futs)"
  let ?Q = "\<lambda>f. the (dict_get ?B (f_model_id f)) \<le> f_request_id f \<and> f_model_id f = f_model_id p"
  from assms(5) obtain b where b: "dict_get ?B (f_model_id p) = Some b" "b \<le> f_request_id p"
    by (auto simp: before_barrier_def split: option.splits)
  have srt: "sorted (map f_request_id ?ps)"
    by (rule sorted_filter) (rule sorted_pending_ordered)
  have "p \<in> set ?ps" "?Q p" using assms b by (auto simp: set_pending_ordered dict_has_def)
  then obtain g where "find ?Q ?ps = Some g" "f_request_id g \<le> f_request_id p"
    by (rule find_sorted_le [OF srt])
  then show ?thesis
    unfolding blocked_pass_barriers_def Let_def fold_first_get [OF srt]
    by (simp del: not_None_eq)
qed

lemma blocked_witness:
  assumes "dict_get (blocked_pass_barriers futs) m = Some b"
  shows "\<exists>p\<in>set futs. is_pass (f_request_type p) \<and> f_status p = PENDING \<and> f_model_id p = m \<and>
    f_request_id p = b \<and> \<not> before_barrier (find_destructive_barriers futs) p"
proof -
  let ?B = "find_destructive_barriers futs"
  let ?ps = "filter (\<lambda>f. f_model_id f \<noteq> None \<and> dict_has ?B (f_model_id f)) (pending_ordered is_pass futs)"
  let ?Q = "\<lambda>f. the (dict_get ?B (f_model_id f)) \<le> f_request_id f \<and> f_model_id f = m"
  have srt: "sorted (map f_request_id ?ps)"
    by (rule sorted_filter) (rule sorted_pending_ordered)
  from assms obtain g where g: "find ?Q ?ps = Some g" "f_request_id g = b"
    unfolding blocked_pass_barriers_def Let_def fold_first_get [OF srt] by auto
  from find_Some_mem [OF g(1)] have "g \<in> set ?ps" "?Q g" by blast+
  with g(2) show ?thesis
    by (auto simp: set_pending_ordered before_barrier_def dict_has_def intro!: bexI [of _ g])
qed

section \<open>Polls as a step relation\<close>

text \<open>A poll executes the passes (backward first), then the samples, then the single requests, and
  completes every row it picked.\<close>

definition complete_rows :: "future_db list \<Rightarrow> future_db list \<Rightarrow> future_db list" where
  "complete_rows picked futs =
     map (\<lambda>f. if f_request_id f \<in> f_request_id ` set picked then f\<lparr>f_status := COMPLETED\<rparr> else f) futs"

definition poll_rows :: "string \<Rightarrow> int \<Rightarrow> future_db list \<Rightarrow> future_db list option" where
  "poll_rows backend max_seqs futs =
     (case batchable_samples [] (pending_ordered (\<lambda>t. t = SAMPLE) futs) of
        None \<Rightarrow> None
      | Some fs \<Rightarrow> Some (batchable_passes futs FORWARD_BACKWARD @ batchable_passes futs FORWARD @
          limit_samples backend max_seqs fs @ single_rows futs))"

inductive sched_step ::
  "string \<Rightarrow> int \<Rightarrow> future_db list \<times> future_db list \<Rightarrow> future_db list \<times> future_db list \<Rightarrow> bool"
  for backend :: string and max_seqs :: int where
  append: "\<forall>g\<in>set futs. f_request_id g < f_request_id f \<Longrightarrow> f_status f = PENDING \<Longrightarrow>
    (is_pass (f_request_type f) \<longrightarrow> f_model_id f \<noteq> None) \<Longrightarrow>
    sched_step backend max_seqs (futs, lg) (futs @ [f], lg)"
| poll: "poll_rows backend max_seqs futs = Some rows \<Longrightarrow>
    sched_step backend max_seqs (futs, lg) (complete_rows rows futs, lg @ rows)"

inductive_cases sched_stepE: "sched_step backend max_seqs s t"

definition same_model :: "future_db \<Rightarrow> future_db \<Rightarrow> bool" where
  "same_model f g = (f_model_id f = f_model_id g)"

definition must_precede :: "future_db \<Rightarrow> future_db \<Rightarrow> bool" where
  "must_precede f g = (same_model f g \<and>
     (is_single (f_request_type f) \<and> is_single (f_request_type g) \<or>
      is_single (f_request_type f) \<and> is_pass (f_request_type g) \<or>
      is_pass (f_request_type f) \<and> destructive (f_request_type g)))"

text \<open>Executed requests are in order, and everything still pending comes after what it conflicts with.\<close>

definition sched_inv :: "future_db list \<times> future_db list \<Rightarrow> bool" where
  "sched_inv s = (case s of (futs, lg) \<Rightarrow>
     distinct (map f_request_id futs) \<and>
     (\<forall>f\<in>set futs. is_pass (f_request_type f) \<longrightarrow> f_model_id f \<noteq> None) \<and>
     (\<forall>g\<in>set lg. \<exists>f\<in>set futs. f_request_id f = f_request_id g \<and> f_status f = COMPLETED) \<and>
     sorted_wrt (\<lambda>f g. must_precede f g \<longrightarrow> f_request_id f < f_request_id g) lg \<and>
     (\<forall>g\<in>set lg. \<forall>f\<in>set futs. f_status f = PENDING \<longrightarrow> must_precede g f \<longrightarrow> f_request_id g < f_request_id f))"

lemma types_disjoint [simp]:
  "is_pass t \<Longrightarrow> \<not> is_single t" "destructive t \<Longrightarrow> is_single t" "destructive t \<Longrightarrow> \<not> is_pass t"
  "\<not> is_pass SAMPLE" "\<not> is_single SAMPLE" "\<not> destructive SAMPLE"
  by (auto simp: is_pass_def is_single_def destructive_def)

lemma batchable_samples_sub:
  "batchable_samples ck fs = Some gs \<Longrightarrow> set gs \<subseteq> set fs"
proof (induction fs arbitrary: ck gs)
  case (Cons f fs)
  from Cons.prems show ?case
    by (auto simp: Let_def split: option.splits if_splits dest: Cons.IH [THEN subsetD])
qed simp

lemma set_limit_samples: "set (limit_samples b n xs) \<subseteq> set xs"
  by (auto simp: limit_samples_def dest: in_set_takeD)

lemma poll_rows_kinds:
  assumes "poll_rows backend max_seqs futs = Some rows" "f \<in> set rows"
  shows "f \<in> set futs \<and> f_status f = PENDING \<and>
    (is_pass (f_request_type f) \<and> before_barrier (find_destructive_barriers futs) f \<or>
     f_request_type f = SAMPLE \<or>
     is_single (f_request_type f) \<and> before_barrier (blocked_pass_barriers futs) f)"
proof -
  from assms(1) obtain fs where fs: "batchable_samples [] (pending_ordered (\<lambda>t. t = SAMPLE) futs) = Some fs"
    and rows: "rows = batchable_passes futs FORWARD_BACKWARD @ batchable_passes futs FORWARD @
          limit_samples backend max_seqs fs @ single_rows futs"
    by (auto simp: poll_rows_def split: option.splits)
  have sub: "set (limit_samples backend max_seqs fs) \<subseteq> set (pending_ordered (\<lambda>t. t = SAMPLE) futs)"
    by (rule subset_trans [OF set_limit_samples batchable_samples_sub [OF fs]])
  from assms(2) consider "f \<in> set (batchable_passes futs FORWARD_BACKWARD)"
    | "f \<in> set (batchable_passes futs FORWARD)"
    | "f \<in> set (pending_ordered (\<lambda>t. t = SAMPLE) futs)" | "f \<in> set (single_rows futs)"
    unfolding rows using sub by auto
  then show ?thesis
    by cases (simp_all add: batchable_passes_def single_rows_def set_pending_ordered is_pass_def)
qed

text \<open>Within one poll a single request precedes every pass still blocked, and every pass executed
  precedes every pending destructive request of its model.\<close>

lemma single_before_blocked:
  assumes "before_barrier (blocked_pass_barriers futs) s" "same_model s p"
    and "p \<in> set futs" "is_pass (f_request_type p)" "f_status p = PENDING" "f_model_id p \<noteq> None"
    and "\<not> before_barrier (find_destructive_barriers futs) p"
  shows "f_request_id s < f_request_id p"
  using blocked_le [OF assms(3-7)] assms(1,2)
  by (auto simp: before_barrier_def same_model_def split: option.splits)

lemma pass_before_destructive:
  assumes "before_barrier (find_destructive_barriers futs) p" "same_model p d"
    and "d \<in> set futs" "destructive (f_request_type d)" "f_status d = PENDING"
  shows "f_request_id p < f_request_id d"
  using barrier_le [OF assms(3-5)] assms(1,2)
  by (auto simp: before_barrier_def same_model_def split: option.splits)

lemma single_before_held:
  assumes "before_barrier (blocked_pass_barriers futs) s" "\<not> before_barrier (blocked_pass_barriers futs) t"
    and "same_model s t"
  shows "f_request_id s < f_request_id t"
  using assms by (auto simp: before_barrier_def same_model_def split: option.splits)

lemma before_or_blocked:
  assumes rows: "poll_rows backend max_seqs futs = Some rows" and "f \<in> set futs" "f_status f = PENDING"
    and "f_request_id f \<notin> f_request_id ` set rows"
  shows "is_pass (f_request_type f) \<Longrightarrow> \<not> before_barrier (find_destructive_barriers futs) f"
    and "is_single (f_request_type f) \<Longrightarrow> \<not> before_barrier (blocked_pass_barriers futs) f"
proof -
  from rows obtain fs where r: "rows = batchable_passes futs FORWARD_BACKWARD @ batchable_passes futs FORWARD @
          limit_samples backend max_seqs fs @ single_rows futs"
    by (auto simp: poll_rows_def split: option.splits)
  have "f \<notin> set rows" using assms(4) by auto
  then show "is_pass (f_request_type f) \<Longrightarrow> \<not> before_barrier (find_destructive_barriers futs) f"
    "is_single (f_request_type f) \<Longrightarrow> \<not> before_barrier (blocked_pass_barriers futs) f"
    using assms(2,3) by (auto simp: r batchable_passes_def single_rows_def set_pending_ordered is_pass_def)
qed

lemma sorted_wrt_no_pairs: "(\<And>f g. f \<in> set xs \<Longrightarrow> g \<in> set xs \<Longrightarrow> R f g) \<Longrightarrow> sorted_wrt R xs"
  by (induction xs) auto

lemma poll_rows_sorted:
  assumes rows: "poll_rows backend max_seqs futs = Some rows" and inv: "sched_inv (futs, lg)"
  shows "sorted_wrt (\<lambda>f g. must_precede f g \<longrightarrow> f_request_id f < f_request_id g) rows"
proof -
  let ?R = "\<lambda>f g. must_precede f g \<longrightarrow> f_request_id f < f_request_id g"
  from rows obtain fs where fs: "batchable_samples [] (pending_ordered (\<lambda>t. t = SAMPLE) futs) = Some fs"
    and r: "rows = (batchable_passes futs FORWARD_BACKWARD @ batchable_passes futs FORWARD @
          limit_samples backend max_seqs fs) @ single_rows futs"
    by (auto simp: poll_rows_def split: option.splits)
  let ?head = "batchable_passes futs FORWARD_BACKWARD @ batchable_passes futs FORWARD @
          limit_samples backend max_seqs fs"
  have sub: "set (limit_samples backend max_seqs fs) \<subseteq> set (pending_ordered (\<lambda>t. t = SAMPLE) futs)"
    by (rule subset_trans [OF set_limit_samples batchable_samples_sub [OF fs]])
  have head: "\<not> is_single (f_request_type f)
      \<and> (is_pass (f_request_type f) \<longrightarrow> before_barrier (find_destructive_barriers futs) f)"
    if "f \<in> set ?head" for f
  proof -
    from that consider "f \<in> set (batchable_passes futs FORWARD_BACKWARD)"
      | "f \<in> set (batchable_passes futs FORWARD)" | "f \<in> set (pending_ordered (\<lambda>t. t = SAMPLE) futs)"
      using sub by auto
    then show ?thesis
      by cases (simp_all add: batchable_passes_def set_pending_ordered is_pass_def is_single_def)
  qed
  have dist: "distinct (map f_request_id futs)" using inv by (simp add: sched_inv_def)
  have "sorted (map f_request_id (single_rows futs))"
    unfolding single_rows_def by (rule sorted_filter) (rule sorted_pending_ordered)
  moreover have "distinct (map f_request_id (single_rows futs))"
    unfolding single_rows_def pending_ordered_def using dist
    by (intro distinct_map_filter) (simp add: distinct_map distinct_sort, auto intro: inj_on_subset)
  ultimately have "sorted_wrt (<) (map f_request_id (single_rows futs))"
    by (simp add: strict_sorted_iff)
  then have singles: "sorted_wrt ?R (single_rows futs)"
    unfolding sorted_wrt_map by (rule sorted_wrt_mono_rel [rotated]) simp
  have "?R f g" if "f \<in> set ?head" "g \<in> set ?head" for f g
    using head [OF that(1)] head [OF that(2)] types_disjoint(2) unfolding must_precede_def by blast
  then have "sorted_wrt ?R ?head" by (rule sorted_wrt_no_pairs)
  moreover have "?R f g" if "f \<in> set ?head" "g \<in> set (single_rows futs)" for f g
  proof
    assume "must_precede f g"
    with head [OF that(1)] that(2) have "same_model f g" "is_pass (f_request_type f)" "destructive (f_request_type g)"
      "g \<in> set futs" "f_status g = PENDING"
      by (auto simp: must_precede_def single_rows_def set_pending_ordered)
    with head [OF that(1)] show "f_request_id f < f_request_id g" by (intro pass_before_destructive) auto
  qed
  ultimately show ?thesis using singles unfolding r sorted_wrt_append by blast
qed

lemma sched_inv_poll:
  assumes rows: "poll_rows backend max_seqs futs = Some rows" and inv: "sched_inv (futs, lg)"
  shows "sched_inv (complete_rows rows futs, lg @ rows)"
proof -
  let ?R = "\<lambda>f g. must_precede f g \<longrightarrow> f_request_id f < f_request_id g"
  note I = inv [unfolded sched_inv_def prod.case]
  note kinds = poll_rows_kinds [OF rows]
  have ids: "map f_request_id (complete_rows rows futs) = map f_request_id futs"
    by (simp add: complete_rows_def)
  have old: "\<exists>f\<in>set (complete_rows rows futs). f_request_id f = f_request_id g \<and> f_status f = COMPLETED"
    if "g \<in> set (lg @ rows)" for g
  proof -
    from that I kinds obtain f where f: "f \<in> set futs" "f_request_id f = f_request_id g"
      "f_status f = COMPLETED \<or> f_request_id f \<in> f_request_id ` set rows" by fastforce
    let ?f = "if f_request_id f \<in> f_request_id ` set rows then f\<lparr>f_status := COMPLETED\<rparr> else f"
    have "?f \<in> set (complete_rows rows futs)" using f(1) unfolding complete_rows_def by simp
    then show ?thesis using f(2,3) by (intro bexI [of _ ?f]) auto
  qed
  have lr: "?R f g" if "f \<in> set lg" "g \<in> set rows" for f g
    using that I kinds [of g] by blast
  have sorted: "sorted_wrt ?R (lg @ rows)"
    using I poll_rows_sorted [OF rows inv] lr by (simp add: sorted_wrt_append)
  have pend: "f_request_id g < f_request_id f"
    if g: "g \<in> set (lg @ rows)" and f: "f \<in> set (complete_rows rows futs)" "f_status f = PENDING"
      and mp: "must_precede g f" for f g
  proof -
    from f have F: "f \<in> set futs" "f_request_id f \<notin> f_request_id ` set rows"
      by (auto simp: complete_rows_def split: if_splits)
    note bb = before_or_blocked [OF rows F(1) f(2) F(2)]
    show ?thesis
    proof (cases "g \<in> set lg")
      case True
      with I F(1) f(2) mp show ?thesis by blast
    next
      case False
      with g have "g \<in> set rows" by simp
      note K = kinds [OF this]
      from mp consider
          "same_model g f" "is_single (f_request_type g)" "is_single (f_request_type f)"
        | "same_model g f" "is_single (f_request_type g)" "is_pass (f_request_type f)"
        | "same_model g f" "is_pass (f_request_type g)" "destructive (f_request_type f)"
        by (auto simp: must_precede_def)
      then show ?thesis
      proof cases
        case 1
        with K bb show ?thesis by (auto intro: single_before_held)
      next
        case 2
        with K bb I F(1) f(2) show ?thesis by (auto intro: single_before_blocked)
      next
        case 3
        with K F(1) f(2) show ?thesis by (auto intro: pass_before_destructive)
      qed
    qed
  qed
  have types: "\<forall>f\<in>set (complete_rows rows futs). is_pass (f_request_type f) \<longrightarrow> f_model_id f \<noteq> None"
    using I by (auto simp: complete_rows_def simp del: not_None_eq)
  show ?thesis
    unfolding sched_inv_def prod.case using ids I old sorted pend types by auto
qed

lemma sched_inv_append:
  assumes "\<forall>g\<in>set futs. f_request_id g < f_request_id f" "f_status f = PENDING"
    "is_pass (f_request_type f) \<longrightarrow> f_model_id f \<noteq> None" and inv: "sched_inv (futs, lg)"
  shows "sched_inv (futs @ [f], lg)"
proof -
  have lt: "f_request_id g < f_request_id f" if "g \<in> set lg" for g
  proof -
    from that inv obtain h where "h \<in> set futs" "f_request_id h = f_request_id g"
      by (auto simp: sched_inv_def)
    with assms(1) show ?thesis by auto
  qed
  have "distinct (map f_request_id (futs @ [f]))" using inv assms(1) by (auto simp: sched_inv_def)
  with assms inv lt show ?thesis unfolding sched_inv_def prod.case by auto
qed

lemma sched_inv_reachable:
  assumes "(sched_step backend max_seqs)\<^sup>*\<^sup>* ([], []) s"
  shows "sched_inv s"
  using assms
proof (induction rule: rtranclp_induct)
  case base
  show ?case by (simp add: sched_inv_def)
next
  case (step s t)
  from step.hyps(2) step.IH show ?case
    by (cases rule: sched_step.cases) (auto intro: sched_inv_poll sched_inv_append)
qed

section \<open>Properties\<close>


text \<open>A small queue: two passes and two optimizer steps of one model.\<close>

definition ex_future :: "nat \<Rightarrow> request_type \<Rightarrow> request_data \<Rightarrow> future_db" where
  "ex_future n t d = \<lparr>f_request_id = n, f_request_type = t, f_model_id = Some ''m'', f_request_data = d,
     f_result_data = None, f_status = PENDING, f_created_at = 0, f_completed_at = None\<rparr>"

definition ex_pass :: request_data where
  "ex_pass = ForwardBackwardInput \<lparr>fb_data = [], fb_loss_fn = ''ppo'', fb_loss_fn_config = None\<rparr>"

definition ex_optim :: request_data where
  "ex_optim = OptimStepInput \<lparr>learning_rate = 1, beta1 = 0, beta2 = 0, adam_eps = 1, weight_decay = 0\<rparr>"

definition ex_queue :: "future_db list" where
  "ex_queue = [ex_future 1 FORWARD_BACKWARD ex_pass, ex_future 2 OPTIM_STEP ex_optim,
     ex_future 3 FORWARD ex_pass, ex_future 4 OPTIM_STEP ex_optim]"

lemma ex_poll: "poll_rows ''jax'' 0 ex_queue = Some (take 2 ex_queue)"
  by (simp add: poll_rows_def ex_queue_def ex_future_def pending_ordered_def batchable_passes_def
      find_destructive_barriers_def blocked_pass_barriers_def single_rows_def before_barrier_def
      destructive_def is_pass_def is_single_def limit_samples_def dict_has_def)

lemma ex_reachable:
  "(sched_step ''jax'' 0)\<^sup>*\<^sup>* ([], []) (complete_rows (take 2 ex_queue) ex_queue, take 2 ex_queue)"
proof -
  have ext: "(sched_step ''jax'' 0)\<^sup>*\<^sup>* ([], []) (take n ex_queue, [])" if "n \<le> 4" for n
    using that
  proof (induction n)
    case (Suc n)
    then have "n = 0 \<or> n = 1 \<or> n = 2 \<or> n = 3" by auto
    then have "sched_step ''jax'' 0 (take n ex_queue, []) (take n ex_queue @ [ex_queue ! n], [])"
      by (intro sched_step.append) (auto simp: ex_queue_def ex_future_def)
    moreover have "take n ex_queue @ [ex_queue ! n] = take (Suc n) ex_queue"
      by (rule take_Suc_conv_app_nth [symmetric]) (use Suc.prems in \<open>simp add: ex_queue_def\<close>)
    ultimately show ?case using Suc by (auto intro: rtranclp.rtrancl_into_rtrancl)
  qed simp
  have "sched_step ''jax'' 0 (take 4 ex_queue, []) (complete_rows (take 2 ex_queue) ex_queue, take 2 ex_queue)"
    using sched_step.poll [OF ex_poll, of "[]"] by (simp add: ex_queue_def)
  with ext [of 4] show ?thesis by (auto intro: rtranclp.rtrancl_into_rtrancl)
qed


lemma batchable_samples_first:
  assumes "batchable_samples [] (f # fs) = Some gs"
  shows "\<exists>hs. gs = f # hs"
  using assms by (auto simp: Let_def split: option.splits if_splits)

lemma first_sample_picked:
  assumes "batchable_samples [] xs = Some gs" "f \<in> set xs" "\<forall>g\<in>set xs. f_request_id f \<le> f_request_id g"
    "sorted (map f_request_id xs)" "distinct (map f_request_id xs)"
  shows "f \<in> set (limit_samples backend max_seqs gs)"
proof -
  from assms(2) obtain y ys where xs: "xs = y # ys" by (cases xs) auto
  have "f = y"
  proof (rule ccontr)
    assume "f \<noteq> y"
    then have "f \<in> set ys" using assms(2) xs by simp
    with assms(3-5) xs have "f_request_id f = f_request_id y" by force
    moreover have "f_request_id f \<in> f_request_id ` set ys" using \<open>f \<in> set ys\<close> by (rule imageI)
    ultimately show False using assms(5) xs by simp
  qed
  moreover obtain hs where "gs = y # hs" using batchable_samples_first assms(1) xs by blast
  ultimately show ?thesis by (cases "nat max_seqs") (auto simp: limit_samples_def)
qed



definition row_checkpoint :: "future_db \<Rightarrow> string" where
  "row_checkpoint f = (case as_sample (f_request_data f) of None \<Rightarrow> [] | Some r \<Rightarrow> s_checkpoint_id r)"

definition ckpts_agree :: "(string option, string) dict \<Rightarrow> future_db list \<Rightarrow> bool" where
  "ckpts_agree ck gs = (\<forall>f\<in>set gs. row_checkpoint f \<noteq> [] \<longrightarrow>
     (\<forall>c. dict_get ck (f_model_id f) = Some c \<longrightarrow> row_checkpoint f = c))"

lemma batchable_samples_agree:
  "batchable_samples ck fs = Some gs \<Longrightarrow> ckpts_agree ck gs \<and>
    (\<forall>f\<in>set gs. \<forall>g\<in>set gs. f_model_id f = f_model_id g \<longrightarrow> row_checkpoint f \<noteq> [] \<longrightarrow> row_checkpoint g \<noteq> [] \<longrightarrow>
      row_checkpoint f = row_checkpoint g)"
proof (induction fs arbitrary: ck gs)
  case Nil
  then show ?case by (simp add: ckpts_agree_def)
next
  case (Cons f fs)
  from Cons.prems obtain r where r: "as_sample (f_request_data f) = Some r"
    by (auto split: option.splits)
  let ?c = "s_checkpoint_id r"
  have rc: "row_checkpoint f = ?c" by (simp add: row_checkpoint_def r)
  consider (base) hs where "?c = []" "batchable_samples ck fs = Some hs" "gs = f # hs"
    | (first) hs where "?c \<noteq> []" "dict_get ck (f_model_id f) = None"
        "batchable_samples (dict_put (f_model_id f) ?c ck) fs = Some hs" "gs = f # hs"
    | (same) hs where "?c \<noteq> []" "dict_get ck (f_model_id f) = Some ?c" "batchable_samples ck fs = Some hs" "gs = f # hs"
    | (other) "batchable_samples ck fs = Some gs"
    using Cons.prems r by (auto simp: Let_def split: option.splits if_splits)
  then show ?case
  proof cases
    case base
    with Cons.IH [OF base(2)] rc show ?thesis by (auto simp: ckpts_agree_def)
  next
    case first
    note ih = Cons.IH [OF first(3)]
    have A: "row_checkpoint h = row_checkpoint f"
      if "h \<in> set hs" "row_checkpoint h \<noteq> []" "f_model_id h = f_model_id f" for h
      using ih that rc by (simp add: ckpts_agree_def dict_simps)
    have B: "row_checkpoint h = c"
      if "h \<in> set hs" "row_checkpoint h \<noteq> []" "dict_get ck (f_model_id h) = Some c" for h c
    proof -
      have "f_model_id h \<noteq> f_model_id f" using that(3) first(2) by auto
      with ih that show ?thesis by (simp add: ckpts_agree_def dict_simps)
    qed
    have "ckpts_agree ck gs" using B first(2) unfolding ckpts_agree_def first(4) by (metis option.distinct(1) set_ConsD)
    moreover have "row_checkpoint a = row_checkpoint b"
      if "a \<in> set gs" "b \<in> set gs" "f_model_id a = f_model_id b" "row_checkpoint a \<noteq> []" "row_checkpoint b \<noteq> []" for a b
      using that A ih unfolding first(4) by (metis set_ConsD)
    ultimately show ?thesis by blast
  next
    case same
    note ih = Cons.IH [OF same(3)]
    have A: "row_checkpoint h = row_checkpoint f"
      if "h \<in> set hs" "row_checkpoint h \<noteq> []" "f_model_id h = f_model_id f" for h
      using ih that rc same(2) by (simp add: ckpts_agree_def)
    have "ckpts_agree ck gs" using ih same(2) rc by (simp add: ckpts_agree_def same(4))
    moreover have "row_checkpoint a = row_checkpoint b"
      if "a \<in> set gs" "b \<in> set gs" "f_model_id a = f_model_id b" "row_checkpoint a \<noteq> []" "row_checkpoint b \<noteq> []" for a b
      using that A ih unfolding same(4) by (metis set_ConsD)
    ultimately show ?thesis by blast
  next
    case other
    then show ?thesis by (rule Cons.IH)
  qed
qed

text \<open>The samples of one batch never ask for two different checkpoints of the same model.\<close>

theorem sample_batch_one_checkpoint:
  assumes "find_batchable_sample backend max_seqs futs = Some reqs"
    and "(i, (m, r)) \<in> set reqs" "(j, (m, q)) \<in> set reqs" "s_checkpoint_id r \<noteq> []" "s_checkpoint_id q \<noteq> []"
  shows "s_checkpoint_id r = s_checkpoint_id q"
proof -
  from assms(1) obtain fs where fs: "batchable_samples [] (pending_ordered (\<lambda>t. t = SAMPLE) futs) = Some fs"
    and reqs: "those (map (\<lambda>f. map_option (\<lambda>i. (f_request_id f, (f_model_id f, i))) (as_sample (f_request_data f)))
            (limit_samples backend max_seqs fs)) = Some reqs"
    by (auto simp: find_batchable_sample_def split: option.splits)
  have those: "those (map h xs) = Some ys \<Longrightarrow> y \<in> set ys \<Longrightarrow> \<exists>x\<in>set xs. h x = Some y"
    for h :: "future_db \<Rightarrow> 'b option" and xs ys y
    by (induction xs arbitrary: ys) (auto split: option.splits)
  have row: "\<exists>f\<in>set fs. f_model_id f = m \<and> row_checkpoint f = s_checkpoint_id x"
    if "(n, (m, x)) \<in> set reqs" for n x
  proof -
    from those [OF reqs that] obtain f where "f \<in> set (limit_samples backend max_seqs fs)"
      "as_sample (f_request_data f) = Some x" "f_model_id f = m" by auto
    moreover from this(1) have "f \<in> set fs" by (rule subsetD [OF set_limit_samples])
    ultimately show ?thesis by (intro bexI [of _ f]) (simp_all add: row_checkpoint_def)
  qed
  show ?thesis
    using row [OF assms(2)] row [OF assms(3)] batchable_samples_agree [OF fs] assms(4,5) by metis
qed

definition ex_sample :: "nat \<Rightarrow> string \<Rightarrow> future_db" where
  "ex_sample n c = ex_future n SAMPLE (SampleInput \<lparr>s_base_model = None, s_prompt = [],
     s_sampling_params = \<lparr>thinking_token_budget = None, temperature = 1, max_tokens = 4, sp_seed = 0,
       stop_tokens = None, stop_strings = None, top_k = - 1, top_p = 1\<rparr>,
     s_num_samples = 1, s_checkpoint_id = c, s_prompt_logprobs = False, s_seq_id = None,
     s_sampling_session_id = None\<rparr>)"

definition sample_of :: "future_db \<Rightarrow> sample_input" where
  "sample_of f = the (as_sample (f_request_data f))"

lemma ex_sample_batch: "find_batchable_sample ''tunix'' 0 [ex_sample 1 ''a'', ex_sample 2 ''b'', ex_sample 3 ''a''] =
    Some [(1, (Some ''m'', sample_of (ex_sample 1 ''a''))), (3, (Some ''m'', sample_of (ex_sample 3 ''a'')))]"
  by (simp add: find_batchable_sample_def pending_ordered_def ex_sample_def ex_future_def limit_samples_def
      sample_of_def Let_def dict_simps)

theorem sample_batch_one_checkpoint_witness:
  "s_checkpoint_id (sample_of (ex_sample 1 ''a'')) = s_checkpoint_id (sample_of (ex_sample 3 ''a''))"
  by (rule sample_batch_one_checkpoint [OF ex_sample_batch, of 1 "Some ''m''" _ 3])
    (simp_all add: ex_sample_def ex_future_def sample_of_def)

end
