(* ===== verification/Tinker_Engine.thy ===== *)
theory Tinker_Engine
  imports Tinker_Path Tinker_Batch Tinker_Scheduler
begin

text \<open>
  The engine process of \<^verbatim>\<open>skyrl/tinker/engine.py\<close>: request validation, the handlers of the
  single requests, checkpoint status rows, stale-session cleanup, the completion of futures and one
  pass of the polling loop.  The backend is the record of operations of
  \<^verbatim>\<open>skyrl/backends/backend.py\<close>; an operation returns its result or the text of the exception it
  raised, with the backend's new state.  The path library's slash operator is \<open>ec_join\<close>.  A poll
  reads the clock once; the source reads it per statement.
\<close>

section \<open>State\<close>

record 'b backend_ops =
  op_has_model :: "'b \<Rightarrow> string \<Rightarrow> bool"
  op_create_model :: "string \<Rightarrow> lora_config \<Rightarrow> string \<Rightarrow> 'b \<Rightarrow> (string, unit) result \<times> 'b"
  op_delete_model :: "string \<Rightarrow> 'b \<Rightarrow> (string, unit) result \<times> 'b"
  op_optim_step :: "string \<Rightarrow> adam_params \<Rightarrow> 'b \<Rightarrow> (string, result_data) result \<times> 'b"
  op_forward_backward :: "prepared_model_pass_batch \<Rightarrow> 'b \<Rightarrow> (string, (nat, result_data) dict) result \<times> 'b"
  op_forward :: "prepared_model_pass_batch \<Rightarrow> 'b \<Rightarrow> (string, (nat, result_data) dict) result \<times> 'b"
  op_sample :: "prepared_sample_batch \<Rightarrow> 'b \<Rightarrow> (string, (nat, result_data) dict) result \<times> 'b"
  op_load_checkpoint :: "string \<Rightarrow> string \<Rightarrow> 'b \<Rightarrow> (string, unit) result \<times> 'b"
  op_save_checkpoint :: "string \<Rightarrow> string \<Rightarrow> 'b \<Rightarrow> (string, unit) result \<times> 'b"
  op_save_sampler_checkpoint :: "string \<Rightarrow> string \<Rightarrow> bool \<Rightarrow> 'b \<Rightarrow> (string, unit) result \<times> 'b"

record engine_config =
  ec_base_model :: string
  ec_backend :: string
  ec_sample_max_num_sequences :: int
  ec_checkpoint_mirror_gcs :: "string option"
  ec_checkpoints_base :: string
  ec_session_cleanup_interval_sec :: int
  ec_session_timeout_sec :: int
  ec_join :: "string \<Rightarrow> string \<Rightarrow> string"

record 'b engine =
  en_db :: tinker_db
  en_backend :: 'b
  en_last_cleanup_time :: datetime

type_synonym 'b handler = "'b engine \<Rightarrow> (string, result_data) result \<times> 'b engine"

datatype backend_class = JaxBackend | RayJaxBackend | FsdpSkyRLTrainBackend | MegatronSkyRLTrainBackend
  | DistributedTunixBackend

definition get_backend_classes :: "string \<Rightarrow> bool \<Rightarrow> backend_class option" where
  "get_backend_classes name use_ray =
     (if name = ''jax'' then Some (if use_ray then RayJaxBackend else JaxBackend)
      else if name = ''fsdp'' then Some FsdpSkyRLTrainBackend
      else if name = ''megatron'' then Some MegatronSkyRLTrainBackend
      else if name = ''tunix'' then Some DistributedTunixBackend
      else None)"

text \<open>Run a backend operation inside the engine.\<close>

definition on_backend :: "('b \<Rightarrow> ('e, 'a) result \<times> 'b) \<Rightarrow> 'b engine \<Rightarrow> ('e, 'a) result \<times> 'b engine" where
  "on_backend f st = (case f (en_backend st) of (r, b) \<Rightarrow> (r, st\<lparr>en_backend := b\<rparr>))"

text \<open>\<open>None\<close> in a format string.\<close>

definition opt_text :: "string option \<Rightarrow> string" where
  "opt_text s = (case s of None \<Rightarrow> ''None'' | Some x \<Rightarrow> x)"

definition error_response :: "string \<Rightarrow> result_data" where
  "error_response e = ErrorResponse e ''failed''"

section \<open>Validation\<close>

definition model_not_found_error :: "string \<Rightarrow> result_data" where
  "model_not_found_error m =
     error_response (''Model '' @ m @ '' not loaded (likely stale request from previous server)'')"

text \<open>The error of one request, \<open>view\<close> telling whether its data is a \<open>SampleInput\<close>.\<close>

definition request_error ::
  "'b backend_ops \<Rightarrow> engine_config \<Rightarrow> ('i \<Rightarrow> sample_input option) \<Rightarrow> 'b \<Rightarrow> string option \<Rightarrow> 'i \<Rightarrow> string option" where
  "request_error ops cfg view b mid i =
     (if truthy mid \<and> \<not> op_has_model ops b (the mid) then Some (''Model '' @ the mid @ '' not loaded'')
      else if \<not> truthy mid then
        (case view i of
           None \<Rightarrow> None
         | Some r \<Rightarrow>
             if s_base_model r \<noteq> Some (ec_base_model cfg)
             then Some (''Engine is configured for '' @ quoted (ec_base_model cfg)
               @ '' but request specified '' @ quoted (opt_text (s_base_model r)))
             else if s_checkpoint_id r \<noteq> [] then Some ''checkpoint_id must be empty for base model sampling''
             else None)
      else None)"

definition filter_valid_requests ::
  "'b backend_ops \<Rightarrow> engine_config \<Rightarrow> ('i \<Rightarrow> sample_input option) \<Rightarrow> 'b \<Rightarrow> 'i requests
   \<Rightarrow> (nat, result_data) dict \<times> 'i requests" where
  "filter_valid_requests ops cfg view b reqs =
     (map (\<lambda>(rid, mid, i). (rid, error_response (the (request_error ops cfg view b mid i))))
        (filter (\<lambda>(rid, mid, i). request_error ops cfg view b mid i \<noteq> None) reqs),
      filter (\<lambda>(rid, mid, i). request_error ops cfg view b mid i = None) reqs)"

section \<open>Database writes\<close>

definition write_inference_state :: "datetime \<Rightarrow> string option \<Rightarrow> tinker_db \<Rightarrow> tinker_db" where
  "write_inference_state now url db =
     db\<lparr>db_engine_state := Some \<lparr>es_inference_proxy_url = url, es_updated_at = now\<rparr>\<rparr>"

definition checkpoint_key :: "checkpoint_db \<Rightarrow> string \<times> string \<times> checkpoint_type" where
  "checkpoint_key c = (c_model_id c, c_checkpoint_id c, c_checkpoint_type c)"

definition has_checkpoint_row :: "tinker_db \<Rightarrow> string \<times> string \<times> checkpoint_type \<Rightarrow> bool" where
  "has_checkpoint_row db key = (key \<in> checkpoint_key ` set (db_checkpoints db))"

definition set_checkpoint_status ::
  "datetime \<Rightarrow> string \<times> string \<times> checkpoint_type \<Rightarrow> checkpoint_status \<Rightarrow> string option \<Rightarrow> tinker_db \<Rightarrow> tinker_db" where
  "set_checkpoint_status now key status err db =
     db\<lparr>db_checkpoints := map (\<lambda>c. if checkpoint_key c = key
        then c\<lparr>c_status := status, c_error_message := err, c_completed_at := Some now\<rparr> else c)
       (db_checkpoints db)\<rparr>"

definition checkpoint_type_text :: "checkpoint_type \<Rightarrow> string" where
  "checkpoint_type_text t = (case t of TRAINING \<Rightarrow> ''CheckpointType.TRAINING'' | SAMPLER \<Rightarrow> ''CheckpointType.SAMPLER'')"

text \<open>The context manager around a checkpoint operation: no row, no operation; afterwards the row
  says whether it succeeded.\<close>

definition checkpoint_status_context ::
  "datetime \<Rightarrow> string \<times> string \<times> checkpoint_type \<Rightarrow> ('b engine \<Rightarrow> (string, 'a) result \<times> 'b engine)
   \<Rightarrow> 'b engine \<Rightarrow> (string, 'a) result \<times> 'b engine" where
  "checkpoint_status_context now key body st =
     (if \<not> has_checkpoint_row (en_db st) key
      then (case key of (m, c, t) \<Rightarrow>
             (Inl (''Checkpoint entry not found for model '' @ quoted m @ '', checkpoint '' @ quoted c
                @ '', type '' @ quoted (checkpoint_type_text t)), st))
      else case body st of
             (Inr x, st') \<Rightarrow> (Inr x, st'\<lparr>en_db := set_checkpoint_status now key CK_COMPLETED None (en_db st')\<rparr>)
           | (Inl e, st') \<Rightarrow> (Inl e, st'\<lparr>en_db := set_checkpoint_status now key CK_FAILED (Some e) (en_db st')\<rparr>))"

definition complete_futures :: "datetime \<Rightarrow> (nat, result_data) dict \<Rightarrow> 'b engine \<Rightarrow> 'b engine" where
  "complete_futures now results st =
     st\<lparr>en_db := (en_db st)\<lparr>db_futures := map (\<lambda>f.
        (case dict_get results (f_request_id f) of
           None \<Rightarrow> f
         | Some r \<Rightarrow> f\<lparr>f_result_data := Some r,
                       f_status := (if is_error_response r then FAILED else COMPLETED),
                       f_completed_at := Some now\<rparr>)) (db_futures (en_db st))\<rparr>\<rparr>"

section \<open>Single requests\<close>

definition process_create_model ::
  "'b backend_ops \<Rightarrow> engine_config \<Rightarrow> string \<Rightarrow> create_model_input \<Rightarrow> 'b handler" where
  "process_create_model ops cfg m i st =
     (case on_backend (op_create_model ops m (cm_lora_config i) (cm_model_role i)) st of
        (Inl e, st') \<Rightarrow> (Inl e, st')
      | (Inr _, st') \<Rightarrow> (Inr (CreateModelOutput m (ec_base_model cfg) (cm_lora_config i)), st'))"

definition set_models_status :: "string set \<Rightarrow> string \<Rightarrow> tinker_db \<Rightarrow> tinker_db" where
  "set_models_status ms s db =
     db\<lparr>db_models := map (\<lambda>r. if m_model_id r \<in> ms then r\<lparr>m_status := s\<rparr> else r) (db_models db)\<rparr>"

definition process_unload_model :: "'b backend_ops \<Rightarrow> string \<Rightarrow> 'b handler" where
  "process_unload_model ops m st =
     (if \<not> op_has_model ops (en_backend st) m then (Inr (UnloadModelOutput m ''unloaded''), st)
      else case on_backend (op_delete_model ops m) st of
             (Inl e, st') \<Rightarrow> (Inl e, st')
           | (Inr _, st') \<Rightarrow>
               (Inr (UnloadModelOutput m ''unloaded''),
                st'\<lparr>en_db := set_models_status {m} ''unloaded'' (en_db st')\<rparr>))"

definition process_optim_step :: "'b backend_ops \<Rightarrow> string \<Rightarrow> adam_params \<Rightarrow> 'b handler" where
  "process_optim_step ops m i st =
     (if \<not> op_has_model ops (en_backend st) m then (Inr (model_not_found_error m), st)
      else on_backend (op_optim_step ops m i) st)"

definition process_load_weights ::
  "'b backend_ops \<Rightarrow> engine_config \<Rightarrow> string \<Rightarrow> load_weights_input \<Rightarrow> 'b handler" where
  "process_load_weights ops cfg m i st =
     (if \<not> op_has_model ops (en_backend st) m then (Inr (model_not_found_error m), st)
      else let path = ec_join cfg (ec_join cfg (ec_checkpoints_base cfg) (lw_source_model_id i))
                        (lw_checkpoint_id i @ ''.tar.gz'')
           in case on_backend (op_load_checkpoint ops path m) st of
                (Inl e, st') \<Rightarrow> (Inl e, st') | (Inr _, st') \<Rightarrow> (Inr LoadWeightsOutput, st'))"

definition process_save_weights ::
  "'b backend_ops \<Rightarrow> engine_config \<Rightarrow> datetime \<Rightarrow> string \<Rightarrow> string \<Rightarrow> 'b handler" where
  "process_save_weights ops cfg now m ckpt st =
     (if \<not> op_has_model ops (en_backend st) m then (Inr (model_not_found_error m), st)
      else let path = ec_join cfg (ec_join cfg (ec_checkpoints_base cfg) m) (ckpt @ ''.tar.gz'')
           in case checkpoint_status_context now (m, ckpt, TRAINING)
                     (on_backend (op_save_checkpoint ops path m)) st of
                (Inl e, st') \<Rightarrow> (Inl e, st')
              | (Inr _, st') \<Rightarrow> (Inr (SaveWeightsOutput (weights_path m ckpt)), st'))"

text \<open>\<open>Path(p).name\<close>: the last component, ignoring empty ones and single dots.\<close>

definition path_name :: "string \<Rightarrow> string" where
  "path_name p = (case rev (filter (\<lambda>c. c \<noteq> [] \<and> c \<noteq> ''.'') (split_on (CHR ''/'') p)) of
     [] \<Rightarrow> [] | c # _ \<Rightarrow> c)"

definition process_save_weights_for_sampler ::
  "'b backend_ops \<Rightarrow> engine_config \<Rightarrow> datetime \<Rightarrow> string \<Rightarrow> save_weights_for_sampler_input \<Rightarrow> 'b handler" where
  "process_save_weights_for_sampler ops cfg now m i st =
     (if \<not> op_has_model ops (en_backend st) m then (Inr (model_not_found_error m), st)
      else case sws_path i of
             None \<Rightarrow> (Inl ''argument should be a str or an os.PathLike object, not NoneType'', st)
           | Some p \<Rightarrow>
               (let ckpt = path_name p;
                    path = ec_join cfg (ec_join cfg (ec_join cfg (ec_checkpoints_base cfg) m) ''sampler_weights'')
                             (ckpt @ ''.tar.gz'');
                    persist = (sws_sampling_session_seq_id i = None \<or> truthy (ec_checkpoint_mirror_gcs cfg));
                    out = (if sws_sampling_session_seq_id i \<noteq> None \<and> sws_seq_id i \<noteq> None then None
                           else Some (sampler_path m ckpt))
                in case checkpoint_status_context now (m, ckpt, SAMPLER)
                          (on_backend (op_save_sampler_checkpoint ops path m persist)) st of
                     (Inl e, st') \<Rightarrow> (Inl e, st')
                   | (Inr _, st') \<Rightarrow> (Inr (SaveWeightsForSamplerOutput out (sws_sampling_session_id i)), st')))"

definition request_type_text :: "request_type \<Rightarrow> string" where
  "request_type_text t = (case t of
      CREATE_MODEL \<Rightarrow> ''CREATE_MODEL'' | FORWARD_BACKWARD \<Rightarrow> ''FORWARD_BACKWARD'' | FORWARD \<Rightarrow> ''FORWARD''
    | OPTIM_STEP \<Rightarrow> ''OPTIM_STEP'' | SAVE_WEIGHTS_FOR_SAMPLER \<Rightarrow> ''SAVE_WEIGHTS_FOR_SAMPLER''
    | SAVE_WEIGHTS \<Rightarrow> ''SAVE_WEIGHTS'' | LOAD_WEIGHTS \<Rightarrow> ''LOAD_WEIGHTS'' | SAMPLE \<Rightarrow> ''SAMPLE''
    | UNLOAD_MODEL \<Rightarrow> ''UNLOAD_MODEL'' | EXTERNAL \<Rightarrow> ''EXTERNAL'')"

text \<open>The dispatch on the request type; data of another class fails its validation.  Rows of these
  types always carry a model id.\<close>

definition process_single_request ::
  "'b backend_ops \<Rightarrow> engine_config \<Rightarrow> datetime \<Rightarrow> request_type \<Rightarrow> string \<Rightarrow> request_data \<Rightarrow> 'b handler" where
  "process_single_request ops cfg now t m d st =
     (case (t, d) of
        (CREATE_MODEL, CreateModelInput i) \<Rightarrow> process_create_model ops cfg m i st
      | (OPTIM_STEP, OptimStepInput i) \<Rightarrow> process_optim_step ops m i st
      | (SAVE_WEIGHTS_FOR_SAMPLER, SaveWeightsForSamplerInput i) \<Rightarrow>
          process_save_weights_for_sampler ops cfg now m i st
      | (SAVE_WEIGHTS, SaveWeightsInput p) \<Rightarrow> process_save_weights ops cfg now m p st
      | (LOAD_WEIGHTS, LoadWeightsInput i) \<Rightarrow> process_load_weights ops cfg m i st
      | (UNLOAD_MODEL, _) \<Rightarrow> process_unload_model ops m st
      | _ \<Rightarrow> (if is_single t then (Inl ''validation error'', st)
             else (Inl (''Unknown request type: RequestType.'' @ request_type_text t), st)))"

fun single_loop ::
  "'b backend_ops \<Rightarrow> engine_config \<Rightarrow> datetime \<Rightarrow> (nat, string option \<times> request_type \<times> request_data) dict
   \<Rightarrow> 'b engine \<Rightarrow> (nat, result_data) dict \<times> 'b engine" where
  "single_loop ops cfg now [] st = ([], st)"
| "single_loop ops cfg now ((rid, mid, t, d) # rest) st =
     (case process_single_request ops cfg now t (the mid) d st of
        (r, st1) \<Rightarrow>
          (case single_loop ops cfg now rest st1 of
             (rs, st2) \<Rightarrow> ((rid, case r of Inl e \<Rightarrow> error_response e | Inr x \<Rightarrow> x) # rs, st2)))"

definition process_single_requests ::
  "'b backend_ops \<Rightarrow> engine_config \<Rightarrow> datetime \<Rightarrow> (nat, string option \<times> request_type \<times> request_data) dict
   \<Rightarrow> 'b engine \<Rightarrow> 'b engine" where
  "process_single_requests ops cfg now reqs st =
     (if reqs = [] then st
      else case single_loop ops cfg now reqs st of (rs, st') \<Rightarrow> complete_futures now rs st')"

section \<open>Batches\<close>

type_synonym ('i, 'b) processor =
  "'i requests \<Rightarrow> 'b engine \<Rightarrow> (string, (nat, result_data) dict) result \<times> 'b engine"

definition process_forward_backward :: "'b backend_ops \<Rightarrow> (forward_backward_input, 'b) processor" where
  "process_forward_backward ops reqs st =
     (case prepare_model_pass_batch reqs of
        Inl e \<Rightarrow> (Inl e, st) | Inr b \<Rightarrow> on_backend (op_forward_backward ops b) st)"

definition process_forward :: "'b backend_ops \<Rightarrow> (forward_backward_input, 'b) processor" where
  "process_forward ops reqs st =
     (case prepare_model_pass_batch reqs of
        Inl e \<Rightarrow> (Inl e, st) | Inr b \<Rightarrow> on_backend (op_forward ops b) st)"

definition process_sample :: "'b backend_ops \<Rightarrow> engine_config \<Rightarrow> (sample_input, 'b) processor" where
  "process_sample ops cfg reqs st =
     on_backend (op_sample ops (prepare_sample_batch (ec_join cfg) reqs (Some (ec_checkpoints_base cfg)))) st"

definition process_batch_requests ::
  "'b backend_ops \<Rightarrow> engine_config \<Rightarrow> datetime \<Rightarrow> ('i \<Rightarrow> sample_input option) \<Rightarrow> ('i, 'b) processor
   \<Rightarrow> 'i requests \<Rightarrow> 'b engine \<Rightarrow> 'b engine" where
  "process_batch_requests ops cfg now view processor reqs st =
     (if reqs = [] then st
      else case filter_valid_requests ops cfg view (en_backend st) reqs of
             (errs, valid) \<Rightarrow>
               (if valid = [] then complete_futures now errs st
                else case processor valid st of
                       (Inr results, st') \<Rightarrow> complete_futures now (dict_update results errs) st'
                     | (Inl e, st') \<Rightarrow>
                         complete_futures now (map (\<lambda>(rid, q). (rid, error_response e)) reqs) st'))"

section \<open>Stale sessions\<close>

definition session_stale :: "datetime \<Rightarrow> session_db \<Rightarrow> bool" where
  "session_stale cutoff s =
     (se_status s = ''active'' \<and>
      (case se_last_heartbeat_at s of Some t \<Rightarrow> t | None \<Rightarrow> se_created_at s) < cutoff)"

record 'b cleanup =
  cl_backend :: 'b
  cl_failed_sessions :: "string list"
  cl_unloaded :: "string list"
  cl_count :: nat

definition cleanup_model :: "'b backend_ops \<Rightarrow> model_db \<Rightarrow> 'b cleanup \<Rightarrow> 'b cleanup" where
  "cleanup_model ops r c =
     (if op_has_model ops (cl_backend c) (m_model_id r)
      then (case op_delete_model ops (m_model_id r) (cl_backend c) of
              (Inr _, b) \<Rightarrow> c\<lparr>cl_backend := b, cl_unloaded := cl_unloaded c @ [m_model_id r],
                             cl_count := Suc (cl_count c)\<rparr>
            | (Inl _, b) \<Rightarrow> c\<lparr>cl_backend := b, cl_failed_sessions := cl_failed_sessions c @ [m_session_id r]\<rparr>)
      else c\<lparr>cl_unloaded := cl_unloaded c @ [m_model_id r]\<rparr>)"

definition set_sessions_status :: "string set \<Rightarrow> string \<Rightarrow> tinker_db \<Rightarrow> tinker_db" where
  "set_sessions_status ids s db =
     db\<lparr>db_sessions := map (\<lambda>r. if se_session_id r \<in> ids then r\<lparr>se_status := s\<rparr> else r) (db_sessions db)\<rparr>"

definition cleanup_stale_sessions ::
  "'b backend_ops \<Rightarrow> engine_config \<Rightarrow> datetime \<Rightarrow> 'b engine \<Rightarrow> nat \<times> 'b engine" where
  "cleanup_stale_sessions ops cfg now st =
     (let cutoff = now - ec_session_timeout_sec cfg * 1000000;
          stale = filter (session_stale cutoff) (db_sessions (en_db st))
      in if stale = [] then (0, st)
         else let models = filter (\<lambda>r. m_session_id r \<in> se_session_id ` set stale \<and> m_status r \<noteq> ''unloaded'')
                    (db_models (en_db st));
                  c = fold (cleanup_model ops) models
                    \<lparr>cl_backend = en_backend st, cl_failed_sessions = [], cl_unloaded = [], cl_count = 0\<rparr>;
                  expire = filter (\<lambda>s. s \<notin> set (cl_failed_sessions c)) (map se_session_id stale);
                  db1 = set_models_status (set (cl_unloaded c)) ''unloaded'' (en_db st);
                  db2 = set_sessions_status (set expire) ''expired'' db1
              in (cl_count c, st\<lparr>en_backend := cl_backend c, en_db := db2\<rparr>))"

section \<open>One pass of the polling loop\<close>

definition maybe_cleanup :: "'b backend_ops \<Rightarrow> engine_config \<Rightarrow> datetime \<Rightarrow> 'b engine \<Rightarrow> 'b engine" where
  "maybe_cleanup ops cfg now st =
     (if ec_session_cleanup_interval_sec cfg \<ge> 0 \<and> ec_session_timeout_sec cfg \<ge> 0 \<and>
         now - en_last_cleanup_time st > ec_session_cleanup_interval_sec cfg * 1000000
      then (snd (cleanup_stale_sessions ops cfg now st))\<lparr>en_last_cleanup_time := now\<rparr> else st)"

definition process_pending_requests ::
  "'b backend_ops \<Rightarrow> engine_config \<Rightarrow> datetime \<Rightarrow> 'b engine \<Rightarrow> 'b engine option" where
  "process_pending_requests ops cfg now st =
     (let futs = db_futures (en_db st)
      in case (find_batchable_model_passes futs FORWARD_BACKWARD, find_batchable_model_passes futs FORWARD,
               find_batchable_sample (ec_backend cfg) (ec_sample_max_num_sequences cfg) futs) of
           (Some fb, Some fw, Some smp) \<Rightarrow>
             (let others = find_single_requests futs;
                  st1 = process_batch_requests ops cfg now (\<lambda>_. None) (process_forward_backward ops) fb st;
                  st2 = process_batch_requests ops cfg now (\<lambda>_. None) (process_forward ops) fw st1;
                  st3 = process_batch_requests ops cfg now Some (process_sample ops cfg) smp st2;
                  st4 = process_single_requests ops cfg now others st3
              in Some (maybe_cleanup ops cfg now st4))
         | _ \<Rightarrow> None)"

section \<open>Completion of the futures\<close>

definition apply_results :: "datetime \<Rightarrow> (nat, result_data) dict \<Rightarrow> future_db \<Rightarrow> future_db" where
  "apply_results now results f =
     (case dict_get results (f_request_id f) of
        None \<Rightarrow> f
      | Some r \<Rightarrow> f\<lparr>f_result_data := Some r,
                    f_status := (if is_error_response r then FAILED else COMPLETED),
                    f_completed_at := Some now\<rparr>)"

lemma futures_complete [simp]:
  "db_futures (en_db (complete_futures now rs st)) = map (apply_results now rs) (db_futures (en_db st))"
  by (simp add: complete_futures_def apply_results_def)

text \<open>A finished request, whatever its result.\<close>

definition forget_result :: "future_db \<Rightarrow> future_db" where
  "forget_result f = f\<lparr>f_status := (if f_status f = PENDING then PENDING else COMPLETED),
     f_result_data := None, f_completed_at := None\<rparr>"

definition finish_ids :: "nat set \<Rightarrow> future_db list \<Rightarrow> future_db list" where
  "finish_ids ids fs = map (\<lambda>f. if f_request_id f \<in> ids then f\<lparr>f_status := COMPLETED\<rparr> else f) fs"

lemma finish_ids_compose: "finish_ids a (finish_ids b fs) = finish_ids (b \<union> a) fs"
  by (simp add: finish_ids_def)

lemma finish_ids_empty [simp]: "finish_ids {} fs = fs"
  by (simp add: finish_ids_def)

lemma complete_rows_finish: "complete_rows rows fs = finish_ids (f_request_id ` set rows) fs"
  by (simp add: complete_rows_def finish_ids_def)

lemma forget_apply:
  "map forget_result (map (apply_results now rs) fs) = finish_ids (fst ` set rs) (map forget_result fs)"
proof -
  have "forget_result (apply_results now rs f) =
    (if f_request_id f \<in> fst ` set rs then (forget_result f)\<lparr>f_status := COMPLETED\<rparr> else forget_result f)" for f
  proof (cases "dict_get rs (f_request_id f)")
    case None
    then have "f_request_id f \<notin> fst ` set rs" by (simp add: map_of_eq_None_iff)
    with None show ?thesis by (simp add: apply_results_def)
  next
    case (Some r)
    then have "f_request_id f \<in> fst ` set rs" by (metis map_of_eq_None_iff option.distinct(1))
    with Some show ?thesis by (simp add: apply_results_def forget_result_def)
  qed
  then show ?thesis by (simp add: finish_ids_def forget_result_def)
qed

lemma futures_on_backend [simp]: "db_futures (en_db (snd (on_backend f st))) = db_futures (en_db st)"
  by (simp add: on_backend_def case_prod_beta)

lemma on_backend_futures: "on_backend f st = (r, st') \<Longrightarrow> db_futures (en_db st') = db_futures (en_db st)"
  using futures_on_backend [of f st] by simp

lemma futures_writes [simp]:
  "db_futures (set_models_status ms s db) = db_futures db"
  "db_futures (set_sessions_status ids s db) = db_futures db"
  "db_futures (set_checkpoint_status now key status err db) = db_futures db"
  by (simp_all add: set_models_status_def set_sessions_status_def set_checkpoint_status_def)

lemma futures_checkpoint_context:
  assumes "\<And>s. db_futures (en_db (snd (body s))) = db_futures (en_db s)"
  shows "db_futures (en_db (snd (checkpoint_status_context now key body st))) = db_futures (en_db st)"
  using assms [of st]
  by (auto simp: checkpoint_status_context_def split: prod.splits sum.splits)

lemma futures_single:
  "db_futures (en_db (snd (process_single_request ops cfg now t m d st))) = db_futures (en_db st)"
proof -
  have "db_futures (en_db (snd (process_create_model ops cfg m i st))) = db_futures (en_db st)" for i
    by (auto simp: process_create_model_def dest!: on_backend_futures split: prod.splits sum.splits)
  moreover have "db_futures (en_db (snd (process_unload_model ops m st))) = db_futures (en_db st)"
    by (auto simp: process_unload_model_def dest!: on_backend_futures split: prod.splits sum.splits)
  moreover have "db_futures (en_db (snd (process_optim_step ops m i st))) = db_futures (en_db st)" for i
    by (auto simp: process_optim_step_def)
  moreover have "db_futures (en_db (snd (process_load_weights ops cfg m i st))) = db_futures (en_db st)" for i
    by (auto simp: process_load_weights_def Let_def dest!: on_backend_futures split: prod.splits sum.splits)
  moreover have "db_futures (en_db (snd (process_save_weights ops cfg now m p st))) = db_futures (en_db st)" for p
    using futures_checkpoint_context [of "on_backend (op_save_checkpoint ops q m)" now k st for q k]
    by (auto simp: process_save_weights_def Let_def split: prod.splits sum.splits) (metis snd_conv)+
  moreover have "db_futures (en_db (snd (process_save_weights_for_sampler ops cfg now m i st))) = db_futures (en_db st)" for i
    using futures_checkpoint_context [of "on_backend (op_save_sampler_checkpoint ops q m p)" now k st for q p k]
    by (auto simp: process_save_weights_for_sampler_def Let_def split: prod.splits sum.splits option.splits) (metis snd_conv)+
  ultimately show ?thesis
    unfolding process_single_request_def
    by (cases t; cases d) (simp_all add: is_single_def)
qed

lemma single_loop_futures:
  "single_loop ops cfg now reqs st = (rs, st') \<Longrightarrow>
     map fst rs = map fst reqs \<and> db_futures (en_db st') = db_futures (en_db st)"
proof (induction reqs arbitrary: st rs st')
  case Nil
  then show ?case by simp
next
  case (Cons q reqs)
  obtain rid mid t d where q: "q = (rid, mid, t, d)" by (cases q) auto
  obtain r st1 where one: "process_single_request ops cfg now t (the mid) d st = (r, st1)" by force
  obtain rs2 st2 where rest: "single_loop ops cfg now reqs st1 = (rs2, st2)" by force
  have "db_futures (en_db st1) = db_futures (en_db st)"
    using futures_single [of ops cfg now t "the mid" d st] one by simp
  with Cons.IH [OF rest] Cons.prems one rest show ?case by (auto simp: q)
qed

lemma process_single_futures:
  "map forget_result (db_futures (en_db (process_single_requests ops cfg now reqs st))) =
     finish_ids (fst ` set reqs) (map forget_result (db_futures (en_db st)))"
proof (cases "reqs = []")
  case False
  obtain rs st' where loop: "single_loop ops cfg now reqs st = (rs, st')" by force
  from single_loop_futures [OF loop] have "fst ` set rs = fst ` set reqs"
    "db_futures (en_db st') = db_futures (en_db st)" by (metis list.set_map, blast)
  with False loop show ?thesis by (simp add: process_single_requests_def forget_apply del: map_map)
qed (simp add: process_single_requests_def)

text \<open>A processor answers when a successful run returns a result for exactly the requests given.\<close>

definition answers :: "('i, 'b) processor \<Rightarrow> 'i requests \<Rightarrow> 'b engine \<Rightarrow> bool" where
  "answers p reqs st = (case p reqs st of
     (Inr rs, st') \<Rightarrow> fst ` set rs = fst ` set reqs \<and> db_futures (en_db st') = db_futures (en_db st)
   | (Inl e, st') \<Rightarrow> db_futures (en_db st') = db_futures (en_db st))"

lemma filter_valid_ids:
  assumes "filter_valid_requests ops cfg view b reqs = (errs, valid)"
  shows "fst ` set errs \<union> fst ` set valid = fst ` set reqs" "set valid \<subseteq> set reqs"
  using assms by (auto simp: filter_valid_requests_def image_iff split: prod.splits) force+

lemma set_fst_dict_update: "fst ` set (dict_update d e) = fst ` set d \<union> fst ` set e"
proof (induction e arbitrary: d)
  case (Cons x e)
  obtain k v where x: "x = (k, v)" by force
  have "fst ` set (dict_put k v d) = insert k (fst ` set d)"
    using arg_cong [OF update_keys [of k v d], of set] by (auto split: if_splits)
  with Cons.IH [of "dict_put k v d"] show ?case
    by (simp add: x dict_update_def)
qed (simp add: dict_update_def)

lemma process_batch_futures:
  assumes "\<And>valid. valid \<noteq> [] \<Longrightarrow> set valid \<subseteq> set reqs \<Longrightarrow> answers p valid st"
  shows "map forget_result (db_futures (en_db (process_batch_requests ops cfg now view p reqs st))) =
     finish_ids (fst ` set reqs) (map forget_result (db_futures (en_db st)))"
proof (cases "reqs = []")
  case False
  obtain errs valid where f: "filter_valid_requests ops cfg view (en_backend st) reqs = (errs, valid)" by force
  note ids = filter_valid_ids [OF f]
  show ?thesis
  proof (cases "valid = []")
    case True
    with False f ids show ?thesis by (simp add: process_batch_requests_def forget_apply del: map_map)
  next
    case nonempty: False
    note ans = assms [OF nonempty ids(2)]
    obtain r st' where p: "p valid st = (r, st')" by force
    show ?thesis
    proof (cases r)
      case (Inl e)
      have "fst ` set (map (\<lambda>(rid, q). (rid, error_response e)) reqs) = fst ` set reqs" by force
      with False f nonempty p Inl ans show ?thesis
        by (simp add: process_batch_requests_def forget_apply answers_def del: map_map set_map)
    next
      case (Inr rs)
      have "fst ` set (dict_update rs errs) = fst ` set reqs"
        using ans p Inr ids(1) by (auto simp: answers_def set_fst_dict_update)
      with False f nonempty p Inr ans show ?thesis
        by (simp add: process_batch_requests_def forget_apply answers_def del: map_map)
    qed
  qed
qed (simp add: process_batch_requests_def)

section \<open>What the engine relies on in a backend\<close>

text \<open>The laws of a backend: creating and deleting change which models are loaded in the expected
  way, nothing else does, every operation keeps the backend's invariant, and a batch that is not
  empty is answered for every request in it.\<close>

lemma pass_slice_ids: "fst ` set (mp_slices (model_pass_spec reqs)) = fst ` set reqs"
proof -
  have "map fst (mp_slices (model_pass_spec reqs)) = map fst reqs"
    by (rule nth_equalityI) (auto simp: model_pass_spec_def case_prod_beta)
  then show ?thesis by (metis list.set_map)
qed

lemma sample_slice_ids: "fst ` set (ps_slices (sample_spec pjoin base n reqs)) = fst ` set reqs"
proof -
  have "map fst (ps_slices (sample_spec pjoin base n reqs)) = map fst reqs"
    by (rule nth_equalityI) (auto simp: sample_spec_def case_prod_beta)
  then show ?thesis by (metis list.set_map)
qed

lemma those_map_iff: "those (map h xs) = Some ys \<longleftrightarrow> (\<forall>x\<in>set xs. h x \<noteq> None) \<and> ys = map (the \<circ> h) xs"
  by (induction xs arbitrary: ys) (auto split: option.splits)

lemma find_passes_ids:
  assumes "find_batchable_model_passes futs rt = Some reqs"
  shows "f_request_id ` set (batchable_passes futs rt) = fst ` set reqs"
  using assms by (force simp: find_batchable_model_passes_def those_map_iff image_iff)

lemma find_passes_rows:
  assumes "find_batchable_model_passes futs rt = Some reqs" "q \<in> set reqs"
  shows "\<exists>f\<in>set futs. as_forward_backward (f_request_data f) = Some (snd (snd q))"
  using assms by (force simp: find_batchable_model_passes_def those_map_iff batchable_passes_def set_pending_ordered)

lemma find_sample_ids:
  assumes "find_batchable_sample backend n futs = Some reqs"
    "batchable_samples [] (pending_ordered (\<lambda>t. t = SAMPLE) futs) = Some fs"
  shows "f_request_id ` set (limit_samples backend n fs) = fst ` set reqs"
  using assms by (force simp: find_batchable_sample_def those_map_iff image_iff)

lemma find_sample_rows:
  assumes "find_batchable_sample backend n futs = Some reqs" "q \<in> set reqs"
  shows "\<exists>f\<in>set futs. as_sample (f_request_data f) = Some (snd (snd q))"
proof -
  from assms obtain fs where fs: "batchable_samples [] (pending_ordered (\<lambda>t. t = SAMPLE) futs) = Some fs"
    and those: "those (map (\<lambda>f. map_option (\<lambda>i. (f_request_id f, (f_model_id f, i))) (as_sample (f_request_data f)))
            (limit_samples backend n fs)) = Some reqs"
    by (auto simp: find_batchable_sample_def split: option.splits)
  from those [unfolded those_map_iff] assms(2) obtain f where "f \<in> set (limit_samples backend n fs)"
    "as_sample (f_request_data f) = Some (snd (snd q))" by force
  moreover have "f \<in> set futs"
    using subsetD [OF set_limit_samples calculation(1)] subsetD [OF batchable_samples_sub [OF fs], of f]
    by (simp add: set_pending_ordered)
  ultimately show ?thesis by blast
qed

lemma find_single_ids: "f_request_id ` set (single_rows futs) = fst ` set (find_single_requests futs)"
  by (simp add: find_single_requests_def image_image)

lemma cleanup_futures [simp]:
  "db_futures (en_db (snd (cleanup_stale_sessions ops cfg now st))) = db_futures (en_db st)"
  by (simp add: cleanup_stale_sessions_def Let_def)

locale backend_contract =
  fixes ops :: "'b backend_ops" and inv :: "'b \<Rightarrow> bool"
  assumes create: "inv b \<Longrightarrow> op_create_model ops m lc role b = (r, b') \<Longrightarrow>
      inv b' \<and> (\<forall>x. op_has_model ops b' x = (op_has_model ops b x \<or> is_ok r \<and> x = m))"
    and delete: "inv b \<Longrightarrow> op_has_model ops b m \<Longrightarrow> op_delete_model ops m b = (r, b') \<Longrightarrow>
      is_ok r \<and> inv b' \<and> (\<forall>x. op_has_model ops b' x = (op_has_model ops b x \<and> x \<noteq> m))"
    and optim: "inv b \<Longrightarrow> op_optim_step ops m a b = (r1, b') \<Longrightarrow> inv b' \<and> op_has_model ops b' = op_has_model ops b"
    and load: "inv b \<Longrightarrow> op_load_checkpoint ops p m b = (r2, b') \<Longrightarrow> inv b' \<and> op_has_model ops b' = op_has_model ops b"
    and save: "inv b \<Longrightarrow> op_save_checkpoint ops p m b = (r2, b') \<Longrightarrow> inv b' \<and> op_has_model ops b' = op_has_model ops b"
    and save_sampler: "inv b \<Longrightarrow> op_save_sampler_checkpoint ops p m k b = (r2, b') \<Longrightarrow>
      inv b' \<and> op_has_model ops b' = op_has_model ops b"
    and pass: "inv b \<Longrightarrow> op_forward_backward ops q b = (r3, b') \<Longrightarrow>
      inv b' \<and> op_has_model ops b' = op_has_model ops b \<and>
      (\<forall>rs. r3 = Inr rs \<longrightarrow> mp_model_inputs q \<noteq> [] \<longrightarrow> fst ` set rs = fst ` set (mp_slices q))"
    and fwd: "inv b \<Longrightarrow> op_forward ops q b = (r3, b') \<Longrightarrow>
      inv b' \<and> op_has_model ops b' = op_has_model ops b \<and>
      (\<forall>rs. r3 = Inr rs \<longrightarrow> mp_model_inputs q \<noteq> [] \<longrightarrow> fst ` set rs = fst ` set (mp_slices q))"
    and sample: "inv b \<Longrightarrow> op_sample ops s b = (r3, b') \<Longrightarrow>
      inv b' \<and> op_has_model ops b' = op_has_model ops b \<and>
      (\<forall>rs. r3 = Inr rs \<longrightarrow> ps_model_inputs s \<noteq> [] \<longrightarrow> fst ` set rs = fst ` set (ps_slices s))"
begin

lemma answers_pass:
  assumes "inv (en_backend st)" "\<exists>q\<in>set reqs. fb_data (snd (snd q)) \<noteq> []"
  shows "answers (process_forward_backward ops) reqs st"
proof (cases "prepare_model_pass_batch reqs")
  case (Inr b)
  then have b: "b = model_pass_spec reqs" by (auto simp: prepare_model_pass_batch_spec split: list.splits)
  have ids: "fst ` set (mp_slices b) = fst ` set reqs" unfolding b by (rule pass_slice_ids)
  have "mp_model_inputs b \<noteq> []" using assms(2) unfolding b by (simp add: model_pass_spec_def req_items_def)
  with pass [OF assms(1)] ids Inr show ?thesis
    by (auto simp: answers_def process_forward_backward_def on_backend_def split: prod.splits sum.splits)
qed (simp add: answers_def process_forward_backward_def)

lemma answers_forward:
  assumes "inv (en_backend st)" "\<exists>q\<in>set reqs. fb_data (snd (snd q)) \<noteq> []"
  shows "answers (process_forward ops) reqs st"
proof (cases "prepare_model_pass_batch reqs")
  case (Inr b)
  then have b: "b = model_pass_spec reqs" by (auto simp: prepare_model_pass_batch_spec split: list.splits)
  have ids: "fst ` set (mp_slices b) = fst ` set reqs" unfolding b by (rule pass_slice_ids)
  have "mp_model_inputs b \<noteq> []" using assms(2) unfolding b by (simp add: model_pass_spec_def req_items_def)
  with fwd [OF assms(1)] ids Inr show ?thesis
    by (auto simp: answers_def process_forward_def on_backend_def split: prod.splits sum.splits)
qed (simp add: answers_def process_forward_def)

lemma answers_sample:
  assumes "inv (en_backend st)" "\<exists>q\<in>set reqs. 0 < s_num_samples (snd (snd q))"
  shows "answers (process_sample ops cfg) reqs st"
proof -
  define b where "b = prepare_sample_batch (ec_join cfg) reqs (Some (ec_checkpoints_base cfg))"
  have ids: "fst ` set (ps_slices b) = fst ` set reqs"
    unfolding b_def prepare_sample_batch_spec by (rule sample_slice_ids)
  have "ps_model_inputs b \<noteq> []"
    using assms(2) unfolding b_def prepare_sample_batch_spec by (simp add: sample_spec_def req_samples_def not_le)
  with sample [OF assms(1)] ids show ?thesis
    by (auto simp: answers_def process_sample_def on_backend_def b_def [symmetric] split: prod.splits sum.splits)
qed

lemma inv_single:
  assumes "inv (en_backend st)"
  shows "inv (en_backend (snd (process_single_request ops cfg now t m d st)))"
proof -
  have "inv (en_backend (snd (process_create_model ops cfg m i st)))" for i
    using create [OF assms] by (auto simp: process_create_model_def on_backend_def split: prod.splits sum.splits)
  moreover have "inv (en_backend (snd (process_unload_model ops m st)))"
    using delete [OF assms] assms by (auto simp: process_unload_model_def on_backend_def split: prod.splits sum.splits)
  moreover have "inv (en_backend (snd (process_optim_step ops m i st)))" for i
    using optim [OF assms] assms by (auto simp: process_optim_step_def on_backend_def split: prod.splits)
  moreover have "inv (en_backend (snd (process_load_weights ops cfg m i st)))" for i
    using load [OF assms] assms
    by (auto simp: process_load_weights_def on_backend_def Let_def split: prod.splits sum.splits)
  moreover have "inv (en_backend (snd (process_save_weights ops cfg now m p st)))" for p
    using save [OF assms] assms
    by (auto simp: process_save_weights_def checkpoint_status_context_def on_backend_def Let_def
        split: prod.splits sum.splits if_splits)
  moreover have "inv (en_backend (snd (process_save_weights_for_sampler ops cfg now m i st)))" for i
    using save_sampler [OF assms] assms
    by (auto simp: process_save_weights_for_sampler_def checkpoint_status_context_def on_backend_def Let_def
        split: prod.splits sum.splits if_splits option.splits)
  ultimately show ?thesis
    unfolding process_single_request_def using assms by (cases t; cases d) (simp_all add: is_single_def)
qed

lemma inv_single_loop: "single_loop ops cfg now reqs st = (rs, st') \<Longrightarrow> inv (en_backend st) \<Longrightarrow> inv (en_backend st')"
proof (induction reqs arbitrary: st rs st')
  case (Cons q reqs)
  obtain rid mid t d where q: "q = (rid, mid, t, d)" by (cases q) auto
  obtain r st1 where one: "process_single_request ops cfg now t (the mid) d st = (r, st1)" by force
  obtain rs2 st2 where rest: "single_loop ops cfg now reqs st1 = (rs2, st2)" by force
  have "inv (en_backend st1)" using inv_single [OF Cons.prems(2), of cfg now t "the mid" d] one by simp
  from Cons.IH [OF rest this] Cons.prems(1) one rest show ?case by (simp add: q)
qed simp

lemma backend_complete [simp]: "en_backend (complete_futures now rs st) = en_backend st"
  by (simp add: complete_futures_def)

lemma inv_singles: "inv (en_backend st) \<Longrightarrow> inv (en_backend (process_single_requests ops cfg now reqs st))"
  by (auto simp: process_single_requests_def intro: inv_single_loop split: prod.splits)

lemma inv_batch:
  assumes "inv (en_backend st)" "\<And>v r s. p v st = (r, s) \<Longrightarrow> inv (en_backend s)"
  shows "inv (en_backend (process_batch_requests ops cfg now view p reqs st))"
  using assms by (auto simp: process_batch_requests_def split: prod.splits sum.splits)

lemma inv_processors:
  assumes "inv (en_backend st)"
  shows "process_forward_backward ops v st = (r, s) \<Longrightarrow> inv (en_backend s)"
    and "process_forward ops v st = (r, s) \<Longrightarrow> inv (en_backend s)"
    and "process_sample ops cfg w st = (r, s) \<Longrightarrow> inv (en_backend s)"
  using assms pass [OF assms] fwd [OF assms] sample [OF assms]
  by (auto simp: process_forward_backward_def process_forward_def process_sample_def on_backend_def
      split: prod.splits sum.splits)

text \<open>Stale sessions: what the fold over their models leaves behind.\<close>

lemma cleanup_fold:
  assumes "inv (cl_backend c)" and d_def: "d = fold (cleanup_model ops) rows c"
  shows "inv (cl_backend d) \<and> cl_failed_sessions d = cl_failed_sessions c \<and>
    set (cl_unloaded d) = set (cl_unloaded c) \<union> m_model_id ` set rows \<and>
    (\<forall>x. op_has_model ops (cl_backend d) x = (op_has_model ops (cl_backend c) x \<and> x \<notin> m_model_id ` set rows))"
  using assms(1) unfolding d_def
proof (induction rows arbitrary: c)
  case (Cons r rows)
  let ?c = "cleanup_model ops r c"
  have step: "inv (cl_backend ?c) \<and> cl_failed_sessions ?c = cl_failed_sessions c \<and>
      cl_unloaded ?c = cl_unloaded c @ [m_model_id r] \<and>
      (\<forall>x. op_has_model ops (cl_backend ?c) x = (op_has_model ops (cl_backend c) x \<and> x \<noteq> m_model_id r))"
  proof (cases "op_has_model ops (cl_backend c) (m_model_id r)")
    case True
    obtain x b' where del: "op_delete_model ops (m_model_id r) (cl_backend c) = (x, b')" by force
    from delete [OF Cons.prems True del] obtain u where "x = Inr u" by (auto simp: is_ok_iff)
    with delete [OF Cons.prems True del] True del show ?thesis by (simp add: cleanup_model_def)
  next
    case False
    with Cons.prems show ?thesis by (auto simp: cleanup_model_def)
  qed
  then have "inv (cl_backend ?c)" by blast
  from Cons.IH [OF this] step show ?case by auto
qed simp

lemma inv_cleanup:
  assumes "inv (en_backend st)"
  shows "inv (en_backend (snd (cleanup_stale_sessions ops cfg now st)))"
  using assms cleanup_fold [of "\<lparr>cl_backend = en_backend st, cl_failed_sessions = [], cl_unloaded = [], cl_count = 0\<rparr>", OF _ refl]
  by (auto simp: cleanup_stale_sessions_def Let_def)

lemma cleanup_effect:
  assumes inv: "inv (en_backend st)" and run: "cleanup_stale_sessions ops cfg now st = (n, st')"
  defines "stale \<equiv> se_session_id ` {s \<in> set (db_sessions (en_db st)).
      session_stale (now - ec_session_timeout_sec cfg * 1000000) s}"
    and "gone \<equiv> {m_model_id r | r. r \<in> set (db_models (en_db st)) \<and> m_status r \<noteq> ''unloaded'' \<and>
      m_session_id r \<in> se_session_id ` {s \<in> set (db_sessions (en_db st)).
        session_stale (now - ec_session_timeout_sec cfg * 1000000) s}}"
  shows "db_sessions (en_db st') = map (\<lambda>s. if se_session_id s \<in> stale then s\<lparr>se_status := ''expired''\<rparr> else s)
           (db_sessions (en_db st))
    \<and> db_models (en_db st') = map (\<lambda>r. if m_model_id r \<in> gone then r\<lparr>m_status := ''unloaded''\<rparr> else r)
           (db_models (en_db st))
    \<and> (\<forall>x. op_has_model ops (en_backend st') x = (op_has_model ops (en_backend st) x \<and> x \<notin> gone))
    \<and> db_futures (en_db st') = db_futures (en_db st)"
proof -
  let ?cut = "now - ec_session_timeout_sec cfg * 1000000"
  let ?st = "filter (session_stale ?cut) (db_sessions (en_db st))"
  let ?ms = "filter (\<lambda>r. m_session_id r \<in> se_session_id ` set ?st \<and> m_status r \<noteq> ''unloaded'') (db_models (en_db st))"
  let ?c0 = "\<lparr>cl_backend = en_backend st, cl_failed_sessions = [], cl_unloaded = [], cl_count = 0\<rparr>"
  have st: "stale = se_session_id ` set ?st" by (simp add: stale_def)
  have go: "gone = m_model_id ` set ?ms" by (auto simp: gone_def)
  note f = cleanup_fold [of ?c0 _ ?ms, OF _ refl, simplified, OF inv]
  show ?thesis
  proof (cases "?st = []")
    case True
    then have "stale = {}" "gone = {}" by (simp_all add: st go)
    with True run show ?thesis by (simp add: cleanup_stale_sessions_def)
  next
    case False
    with run have st': "st' = st\<lparr>en_backend := cl_backend (fold (cleanup_model ops) ?ms ?c0),
        en_db := set_sessions_status (set (map se_session_id ?st))
          ''expired'' (set_models_status (set (cl_unloaded (fold (cleanup_model ops) ?ms ?c0))) ''unloaded'' (en_db st))\<rparr>"
      using f by (simp add: cleanup_stale_sessions_def Let_def)
    show ?thesis using f unfolding st' st go
      by (simp add: set_sessions_status_def set_models_status_def)
  qed
qed

text \<open>A whole poll, in terms of the futures table.\<close>

lemma poll_futures:
  assumes inv: "inv (en_backend st)" and run: "process_pending_requests ops cfg now st = Some st'"
    and work: "\<forall>f\<in>set (db_futures (en_db st)). \<forall>i. as_forward_backward (f_request_data f) = Some i \<longrightarrow> fb_data i \<noteq> []"
      "\<forall>f\<in>set (db_futures (en_db st)). \<forall>i. as_sample (f_request_data f) = Some i \<longrightarrow> 0 < s_num_samples i"
  shows "inv (en_backend st') \<and> (\<exists>rows. poll_rows (ec_backend cfg) (ec_sample_max_num_sequences cfg) (db_futures (en_db st)) = Some rows \<and>
    map forget_result (db_futures (en_db st')) = complete_rows rows (map forget_result (db_futures (en_db st))))"
proof -
  let ?futs = "db_futures (en_db st)"
  from run obtain fb fw smp where finds: "find_batchable_model_passes ?futs FORWARD_BACKWARD = Some fb"
      "find_batchable_model_passes ?futs FORWARD = Some fw"
      "find_batchable_sample (ec_backend cfg) (ec_sample_max_num_sequences cfg) ?futs = Some smp"
    by (auto simp: process_pending_requests_def Let_def split: option.splits)
  define st1 where "st1 = process_batch_requests ops cfg now (\<lambda>_. None) (process_forward_backward ops) fb st"
  define st2 where "st2 = process_batch_requests ops cfg now (\<lambda>_. None) (process_forward ops) fw st1"
  define st3 where "st3 = process_batch_requests ops cfg now Some (process_sample ops cfg) smp st2"
  define st4 where "st4 = process_single_requests ops cfg now (find_single_requests ?futs) st3"
  have st': "st' = maybe_cleanup ops cfg now st4"
    using run finds by (simp add: process_pending_requests_def st1_def st2_def st3_def st4_def)
  have i1: "inv (en_backend st1)" unfolding st1_def by (rule inv_batch [OF inv]) (rule inv_processors(1) [OF inv])
  have i2: "inv (en_backend st2)" unfolding st2_def by (rule inv_batch [OF i1]) (rule inv_processors(2) [OF i1])
  have i3: "inv (en_backend st3)" unfolding st3_def by (rule inv_batch [OF i2]) (rule inv_processors(3) [OF i2])
  have i4: "inv (en_backend st4)" unfolding st4_def by (rule inv_singles [OF i3])
  have fbd: "fb_data (snd (snd q)) \<noteq> []" if "q \<in> set fb \<or> q \<in> set fw" for q
    using that work(1) find_passes_rows [OF finds(1)] find_passes_rows [OF finds(2)] by blast
  have smd: "0 < s_num_samples (snd (snd q))" if "q \<in> set smp" for q
    using that work(2) find_sample_rows [OF finds(3)] by blast
  have f1: "map forget_result (db_futures (en_db st1)) = finish_ids (fst ` set fb) (map forget_result ?futs)"
    unfolding st1_def
    by (rule process_batch_futures, rule answers_pass [OF inv]) (metis fbd list.set_sel(1) subsetD)
  have f2: "map forget_result (db_futures (en_db st2)) = finish_ids (fst ` set fw) (map forget_result (db_futures (en_db st1)))"
    unfolding st2_def
    by (rule process_batch_futures, rule answers_forward [OF i1]) (metis fbd list.set_sel(1) subsetD)
  have f3: "map forget_result (db_futures (en_db st3)) = finish_ids (fst ` set smp) (map forget_result (db_futures (en_db st2)))"
    unfolding st3_def
    by (rule process_batch_futures, rule answers_sample [OF i2]) (metis smd list.set_sel(1) subsetD)
  have f4: "map forget_result (db_futures (en_db st4)) =
      finish_ids (fst ` set (find_single_requests ?futs)) (map forget_result (db_futures (en_db st3)))"
    unfolding st4_def by (rule process_single_futures)
  have same: "db_futures (en_db st') = db_futures (en_db st4)"
    unfolding st' by (auto simp: maybe_cleanup_def cleanup_futures)
  obtain fs where fs: "batchable_samples [] (pending_ordered (\<lambda>t. t = SAMPLE) ?futs) = Some fs"
    using finds(3) by (auto simp: find_batchable_sample_def split: option.splits)
  let ?rows = "batchable_passes ?futs FORWARD_BACKWARD @ batchable_passes ?futs FORWARD @
          limit_samples (ec_backend cfg) (ec_sample_max_num_sequences cfg) fs @ single_rows ?futs"
  have "f_request_id ` set ?rows = fst ` set fb \<union> (fst ` set fw \<union> (fst ` set smp \<union> fst ` set (find_single_requests ?futs)))"
    unfolding set_append image_Un find_passes_ids [OF finds(1)] find_passes_ids [OF finds(2)]
      find_sample_ids [OF finds(3) fs] find_single_ids by blast
  then have "map forget_result (db_futures (en_db st')) = complete_rows ?rows (map forget_result ?futs)"
    unfolding same f4 f3 f2 f1 finish_ids_compose complete_rows_finish by (simp add: Un_assoc)
  moreover have "inv (en_backend st')" unfolding st' maybe_cleanup_def using i4 inv_cleanup [OF i4] by simp
  ultimately show ?thesis using fs by (auto simp: poll_rows_def)
qed

end

end
