(* ===== verification/Tinker_Api.thy ===== *)
theory Tinker_Api
  imports Tinker_Engine
begin

text \<open>
  The endpoints of \<^verbatim>\<open>skyrl/tinker/api.py\<close> as functions of the database.  A raised
  \<open>HTTPException\<close> is its status and detail, an exception no handler catches is \<open>Unhandled\<close> (the
  framework answers 500).  Fresh identifiers (\<open>uuid4\<close>), random seeds and the clock are
  arguments.  Whether the database enforces foreign keys is the argument \<open>fk\<close>: PostgreSQL does,
  SQLite does only after a pragma this program never issues.  Request bodies are those that passed
  pydantic's validation; the validators written in the program are part of the model.
\<close>

section \<open>Requests\<close>

datatype api_error = HTTPException nat string | Unhandled string

type_synonym 'a endpoint = "tinker_db \<Rightarrow> (api_error, 'a) result \<times> tinker_db"

record api_datum =
  ad_target_tokens :: "int list option"
  ad_weights :: "real list option"
  ad_advantages :: "real list option"
  ad_logprobs :: "real list option"
  ad_values :: "real list option"
  ad_returns :: "real list option"
  ad_model_input :: model_input

record api_forward_backward =
  afb_data :: "api_datum list"
  afb_loss_fn :: string
  afb_loss_fn_config :: "(string, real) dict option"

record api_sampling_params =
  asp_thinking_token_budget :: "int option"
  asp_max_tokens :: "int option"
  asp_seed :: "int option"
  asp_stop :: "(int list + string list) option"
  asp_temperature :: real
  asp_top_k :: int
  asp_top_p :: real

record sample_request =
  sr_num_samples :: int
  sr_prompt :: model_input
  sr_sampling_params :: api_sampling_params
  sr_base_model :: "string option"
  sr_model_path :: "string option"
  sr_sampling_session_id :: "string option"
  sr_seq_id :: "int option"
  sr_prompt_logprobs :: "bool option"

record save_for_sampler_request =
  ssr_model_id :: string
  ssr_path :: "string option"
  ssr_sampling_session_seq_id :: "int option"
  ssr_seq_id :: "int option"

section \<open>Validation and conversion\<close>

text \<open>Absent per-token arrays are filled to the target length with neutral values.\<close>

definition datum_to_types :: "api_datum \<Rightarrow> (api_error, datum) result" where
  "datum_to_types d =
     (case ad_target_tokens d of
        None \<Rightarrow> Inl (Unhandled (quoted ''target_tokens''))
      | Some tt \<Rightarrow>
          (let n = length tt;
               fill = (\<lambda>x v. case x of Some xs \<Rightarrow> xs | None \<Rightarrow> replicate n v)
           in Inr \<lparr>d_loss_fn_inputs = \<lparr>target_tokens = tt, li_weights = fill (ad_weights d) 1,
                     li_advantages = fill (ad_advantages d) 0, li_logprobs = fill (ad_logprobs d) 0,
                     li_values = (case ad_values d of Some v \<Rightarrow> v | None \<Rightarrow> []),
                     li_returns = (case ad_returns d of Some v \<Rightarrow> v | None \<Rightarrow> [])\<rparr>,
                   d_model_input = ad_model_input d\<rparr>))"

fun map_result :: "('a \<Rightarrow> ('e, 'b) result) \<Rightarrow> 'a list \<Rightarrow> ('e, 'b list) result" where
  "map_result f [] = Inr []"
| "map_result f (x # xs) =
     (case f x of Inl e \<Rightarrow> Inl e
      | Inr y \<Rightarrow> (case map_result f xs of Inl e \<Rightarrow> Inl e | Inr ys \<Rightarrow> Inr (y # ys)))"

definition allowed_loss_keys :: "string \<Rightarrow> string list" where
  "allowed_loss_keys l =
     (if l = ''ppo'' then [''clip_low_threshold'', ''clip_high_threshold'', ''value_clip'']
      else if l = ''cispo'' then [''clip_low_threshold'', ''clip_high_threshold'']
      else if l = ''ppo_critic'' then [''value_clip''] else [])"

text \<open>\<open>validate_loss_fn_config_keys\<close>; the type of \<open>loss_fn\<close> admits only the supported names.\<close>

definition loss_config_valid :: "api_forward_backward \<Rightarrow> bool" where
  "loss_config_valid r =
     (afb_loss_fn r \<in> set SUPPORTED_LOSS_FNS \<and>
      (case afb_loss_fn_config r of None \<Rightarrow> True
       | Some c \<Rightarrow> list_all (\<lambda>(k, v). k \<in> set (allowed_loss_keys (afb_loss_fn r))) c))"

definition forward_backward_to_types :: "api_forward_backward \<Rightarrow> (api_error, forward_backward_input) result" where
  "forward_backward_to_types r =
     (if \<not> loss_config_valid r then Inl (HTTPException 422 ''invalid loss_fn_config'')
      else case map_result datum_to_types (afb_data r) of
             Inl e \<Rightarrow> Inl e
           | Inr ds \<Rightarrow> Inr \<lparr>fb_data = ds, fb_loss_fn = afb_loss_fn r, fb_loss_fn_config = afb_loss_fn_config r\<rparr>)"

definition sampling_params_to_types :: "int \<Rightarrow> api_sampling_params \<Rightarrow> (api_error, sampling_params) result" where
  "sampling_params_to_types rnd p =
     (case asp_max_tokens p of
        None \<Rightarrow> Inl (HTTPException 400 ''max_tokens is currently required'')
      | Some m \<Rightarrow>
          if m \<le> 0 then Inl (HTTPException 400 ''max_tokens must be a positive number'')
          else Inr \<lparr>thinking_token_budget = asp_thinking_token_budget p, temperature = asp_temperature p,
                 max_tokens = m, sp_seed = (case asp_seed p of Some s \<Rightarrow> s | None \<Rightarrow> rnd),
                 stop_tokens = (case asp_stop p of Some (Inl (t # ts)) \<Rightarrow> Some (t # ts) | _ \<Rightarrow> None),
                 stop_strings = (case asp_stop p of Some (Inr (s # ss)) \<Rightarrow> Some (s # ss) | _ \<Rightarrow> None),
                 top_k = asp_top_k p, top_p = asp_top_p p\<rparr>)"

definition sample_request_valid :: "sample_request \<Rightarrow> bool" where
  "sample_request_valid r =
     (if sr_sampling_session_id r \<noteq> None then sr_seq_id r \<noteq> None
      else (sr_base_model r = None) \<noteq> (sr_model_path r = None))"

definition check_path_or_ids :: "save_for_sampler_request \<Rightarrow> bool" where
  "check_path_or_ids r =
     (truthy (ssr_path r) \<or> ssr_sampling_session_seq_id r \<noteq> None \<and> ssr_seq_id r \<noteq> None)"

section \<open>Rows\<close>

definition get_model :: "string \<Rightarrow> tinker_db \<Rightarrow> (api_error, model_db) result" where
  "get_model m db =
     (case find (\<lambda>r. m_model_id r = m) (db_models db) of
        None \<Rightarrow> Inl (HTTPException 404 ''Model not found'') | Some r \<Rightarrow> Inr r)"

definition next_request_id :: "tinker_db \<Rightarrow> nat" where
  "next_request_id db = Suc (fold max (map f_request_id (db_futures db)) 0)"

definition create_future ::
  "datetime \<Rightarrow> request_type \<Rightarrow> string option \<Rightarrow> request_data \<Rightarrow> tinker_db \<Rightarrow> nat \<times> tinker_db" where
  "create_future now t m d db =
     (let rid = next_request_id db
      in (rid, db\<lparr>db_futures := db_futures db @
            [\<lparr>f_request_id = rid, f_request_type = t, f_model_id = m, f_request_data = d, f_result_data = None,
              f_status = PENDING, f_created_at = now, f_completed_at = None\<rparr>]\<rparr>))"

definition create_checkpoint ::
  "bool \<Rightarrow> datetime \<Rightarrow> string \<Rightarrow> string \<Rightarrow> checkpoint_type \<Rightarrow> tinker_db \<Rightarrow> (api_error, tinker_db) result" where
  "create_checkpoint fk now m c t db =
     (let known = list_ex (\<lambda>r. m_model_id r = m) (db_models db)
      in if has_checkpoint_row db (m, c, t) \<or> fk \<and> \<not> known
         then (if \<not> known then Inl (HTTPException 404 (''Model '' @ quoted m @ '' not found''))
               else Inl (HTTPException 409 (''Checkpoint '' @ quoted c @ '' already exists for model '' @ quoted m)))
         else Inr (db\<lparr>db_checkpoints := db_checkpoints db @
                [\<lparr>c_model_id = m, c_checkpoint_id = c, c_checkpoint_type = t, c_status = CK_PENDING,
                  c_created_at = now, c_completed_at = None, c_error_message = None\<rparr>]\<rparr>))"

definition validate_checkpoint ::
  "string \<Rightarrow> string \<Rightarrow> checkpoint_type \<Rightarrow> tinker_db \<Rightarrow> (api_error, checkpoint_db) result" where
  "validate_checkpoint m c t db =
     (case find (\<lambda>r. checkpoint_key r = (m, c, t)) (db_checkpoints db) of
        None \<Rightarrow> Inl (HTTPException 404 (''Checkpoint not found: '' @ m @ ''/'' @ c))
      | Some r \<Rightarrow>
          (case c_status r of
             CK_PENDING \<Rightarrow> Inl (HTTPException 425 ''Checkpoint is still being created'')
           | CK_FAILED \<Rightarrow> Inl (HTTPException 500 (''Checkpoint creation failed: '' @ opt_text (c_error_message r)))
           | CK_COMPLETED \<Rightarrow> Inr r))"

definition find_session :: "string \<Rightarrow> tinker_db \<Rightarrow> session_db option" where
  "find_session s db = find (\<lambda>r. se_session_id r = s) (db_sessions db)"

section \<open>Sessions and models\<close>

definition create_session ::
  "datetime \<Rightarrow> string \<Rightarrow> string list \<Rightarrow> (string, string) dict option \<Rightarrow> string \<Rightarrow> string endpoint" where
  "create_session now uid tags meta sdk db =
     (let sid = ''session_'' @ uid
      in (Inr sid, db\<lparr>db_sessions := db_sessions db @
            [\<lparr>se_session_id = sid, se_tags = tags,
              se_user_metadata = (case meta of Some m \<Rightarrow> m | None \<Rightarrow> []), se_sdk_version = sdk,
              se_status = ''active'', se_created_at = now, se_last_heartbeat_at = Some now,
              se_heartbeat_count = 0\<rparr>]\<rparr>))"

definition session_heartbeat :: "datetime \<Rightarrow> string \<Rightarrow> unit endpoint" where
  "session_heartbeat now sid db =
     (if find_session sid db = None then (Inl (HTTPException 404 ''Session not found''), db)
      else (Inr (), db\<lparr>db_sessions := map (\<lambda>r. if se_session_id r = sid
              then r\<lparr>se_last_heartbeat_at := Some now, se_heartbeat_count := Suc (se_heartbeat_count r)\<rparr> else r)
            (db_sessions db)\<rparr>))"

definition create_sampling_session ::
  "datetime \<Rightarrow> string \<Rightarrow> string \<Rightarrow> int \<Rightarrow> string option \<Rightarrow> string option \<Rightarrow> string endpoint" where
  "create_sampling_session now uid sid seq base path db =
     (if find_session sid db = None then (Inl (HTTPException 404 ''Session not found''), db)
      else if (base = None) = (path = None)
      then (Inl (HTTPException 400 ''Exactly one of base_model or model_path must be provided''), db)
      else let ssid = ''sampling_'' @ uid
           in (Inr ssid, db\<lparr>db_sampling_sessions := db_sampling_sessions db @
                [\<lparr>ss_sampling_session_id = ssid, ss_session_id = sid, ss_sampling_session_seq_id = seq,
                  ss_base_model = base, ss_model_path = path, ss_created_at = now\<rparr>]\<rparr>))"

definition parse_path :: "(string \<Rightarrow> bool) \<Rightarrow> string \<Rightarrow> (api_error, tinker_path option) result" where
  "parse_path ip_ok p = (case TinkerPath_parse ip_ok p of Inl _ \<Rightarrow> Inl (Unhandled ''Invalid IPv6 URL'') | Inr t \<Rightarrow> Inr t)"

definition get_sampler :: "(string \<Rightarrow> bool) \<Rightarrow> string \<Rightarrow> (string \<times> string \<times> string option) endpoint" where
  "get_sampler ip_ok sid db =
     (case find (\<lambda>r. ss_sampling_session_id r = sid) (db_sampling_sessions db) of
        None \<Rightarrow> (Inl (HTTPException 404 ''Sampler not found''), db)
      | Some r \<Rightarrow>
          (case ss_base_model r of
             Some b \<Rightarrow> (Inr (sid, b, ss_model_path r), db)
           | None \<Rightarrow>
               (case ss_model_path r of
                  None \<Rightarrow> (Inl (Unhandled ''AttributeError''), db)
                | Some p \<Rightarrow>
                    (case parse_path ip_ok p of
                       Inl e \<Rightarrow> (Inl e, db)
                     | Inr None \<Rightarrow> (Inl (Unhandled ''AttributeError''), db)
                     | Inr (Some t) \<Rightarrow>
                         (case get_model (primary_id t) db of
                            Inl e \<Rightarrow> (Inl e, db)
                          | Inr m \<Rightarrow> (Inr (sid, m_base_model m, ss_model_path r), db))))))"

definition create_model ::
  "datetime \<Rightarrow> string \<Rightarrow> int \<Rightarrow> string \<Rightarrow> string \<Rightarrow> int \<Rightarrow> int option \<Rightarrow> string \<Rightarrow> (string \<times> nat) endpoint" where
  "create_model now uid rnd sid base rank seed role db =
     (if find_session sid db = None then (Inl (HTTPException 404 ''Session not found''), db)
      else let mid = ''model_'' @ uid;
               lc = \<lparr>lora_rank = rank, lora_alpha = 32, lora_seed = (case seed of Some s \<Rightarrow> s | None \<Rightarrow> rnd),
                     train_attn = True, train_mlp = True, train_unembed = False\<rparr>
           in case create_future now CREATE_MODEL (Some mid)
                     (CreateModelInput \<lparr>cm_lora_config = lc, cm_model_role = role\<rparr>) db of
                (rid, db1) \<Rightarrow>
                  (Inr (mid, rid), db1\<lparr>db_models := db_models db1 @
                     [\<lparr>m_model_id = mid, m_base_model = base, m_lora_config = lc, m_status = ''created'',
                       m_request_id = rid, m_session_id = sid, m_created_at = now\<rparr>]\<rparr>))"

definition unload_model :: "datetime \<Rightarrow> string \<Rightarrow> nat endpoint" where
  "unload_model now m db =
     (if \<not> list_ex (\<lambda>r. m_model_id r = m) (db_models db) then (Inl (HTTPException 404 ''Model not found''), db)
      else case create_future now UNLOAD_MODEL (Some m) UnloadModelInput (set_models_status {m} ''unloading'' db) of
             (rid, db1) \<Rightarrow> (Inr rid, db1))"

section \<open>Training requests\<close>

text \<open>The common shape: look the model up, queue the request.\<close>

definition queue_for_model ::
  "datetime \<Rightarrow> request_type \<Rightarrow> string \<Rightarrow> (api_error, request_data) result \<Rightarrow> nat endpoint" where
  "queue_for_model now t m d db =
     (case get_model m db of
        Inl e \<Rightarrow> (Inl e, db)
      | Inr _ \<Rightarrow>
          (case d of
             Inl e \<Rightarrow> (Inl e, db)
           | Inr x \<Rightarrow> (case create_future now t (Some m) x db of (rid, db1) \<Rightarrow> (Inr rid, db1))))"

definition wrap_422 :: "(api_error, 'a) result \<Rightarrow> (api_error, 'a) result" where
  "wrap_422 r = (case r of Inl (Unhandled e) \<Rightarrow> Inl (HTTPException 422 (''invalid forward/backward request: '' @ e))
     | _ \<Rightarrow> r)"

definition forward_backward :: "datetime \<Rightarrow> string \<Rightarrow> api_forward_backward \<Rightarrow> bool \<Rightarrow> nat endpoint" where
  "forward_backward now m r forward_only db =
     (case wrap_422 (forward_backward_to_types r) of
        Inl e \<Rightarrow> (Inl e, db)
      | Inr i \<Rightarrow> queue_for_model now (if forward_only then FORWARD else FORWARD_BACKWARD) m
                  (Inr (ForwardBackwardInput i)) db)"

definition forward :: "datetime \<Rightarrow> string \<Rightarrow> api_forward_backward \<Rightarrow> nat endpoint" where
  "forward now m r db =
     (if \<not> loss_config_valid r then (Inl (HTTPException 422 ''invalid loss_fn_config''), db)
      else queue_for_model now FORWARD m
             (case forward_backward_to_types r of Inl e \<Rightarrow> Inl e | Inr i \<Rightarrow> Inr (ForwardBackwardInput i)) db)"

definition adam_valid :: "adam_params \<Rightarrow> bool" where
  "adam_valid a = (0 \<le> learning_rate a \<and> 0 \<le> beta1 a \<and> beta1 a < 1 \<and> 0 \<le> beta2 a \<and> beta2 a < 1 \<and>
     0 < adam_eps a \<and> 0 \<le> weight_decay a)"

definition optim_step :: "datetime \<Rightarrow> string \<Rightarrow> adam_params \<Rightarrow> nat endpoint" where
  "optim_step now m a db =
     (if \<not> adam_valid a then (Inl (HTTPException 422 ''invalid adam_params''), db)
      else queue_for_model now OPTIM_STEP m (Inr (OptimStepInput a)) db)"

definition load_weights :: "(string \<Rightarrow> bool) \<Rightarrow> datetime \<Rightarrow> string \<Rightarrow> string \<Rightarrow> nat endpoint" where
  "load_weights ip_ok now m path db =
     (case get_model m db of
        Inl e \<Rightarrow> (Inl e, db)
      | Inr _ \<Rightarrow>
          (case parse_path ip_ok path of
             Inl e \<Rightarrow> (Inl e, db)
           | Inr None \<Rightarrow> (Inl (HTTPException 400 ''request.path must be in format tinker://source_model_id/weights/checkpoint_id''), db)
           | Inr (Some t) \<Rightarrow>
               if path_kind t \<noteq> ''weights'' \<or> primary_id t = [] \<or> secondary_id t = []
               then (Inl (HTTPException 400 ''request.path must be in format tinker://source_model_id/weights/checkpoint_id''), db)
               else case validate_checkpoint (primary_id t) (secondary_id t) TRAINING db of
                      Inl e \<Rightarrow> (Inl e, db)
                    | Inr _ \<Rightarrow>
                        (case create_future now LOAD_WEIGHTS (Some m)
                               (LoadWeightsInput \<lparr>lw_source_model_id = primary_id t, lw_checkpoint_id = secondary_id t\<rparr>) db of
                           (rid, db1) \<Rightarrow> (Inr rid, db1))))"

definition save_weights :: "bool \<Rightarrow> datetime \<Rightarrow> string \<Rightarrow> string \<Rightarrow> nat endpoint" where
  "save_weights fk now m path db =
     (if \<not> id_ok path then (Inl (HTTPException 422 ''path''), db)
      else case create_checkpoint fk now m path TRAINING db of
             Inl e \<Rightarrow> (Inl e, db)
           | Inr db1 \<Rightarrow>
               (case create_future now SAVE_WEIGHTS (Some m) (SaveWeightsInput path) db1 of
                  (rid, db2) \<Rightarrow> (Inr rid, db2)))"

definition sampler_checkpoint_name :: "save_for_sampler_request \<Rightarrow> string" where
  "sampler_checkpoint_name r =
     (if truthy (ssr_path r) then the (ssr_path r)
      else ''ss'' @ str_of_int (the (ssr_sampling_session_seq_id r)) @ ''_seq'' @ str_of_int (the (ssr_seq_id r)))"

definition has_seq_ids :: "save_for_sampler_request \<Rightarrow> bool" where
  "has_seq_ids r = (ssr_sampling_session_seq_id r \<noteq> None \<and> ssr_seq_id r \<noteq> None)"

definition add_sampler_session ::
  "datetime \<Rightarrow> string \<Rightarrow> save_for_sampler_request \<Rightarrow> model_db \<Rightarrow> tinker_db \<Rightarrow> tinker_db" where
  "add_sampler_session now uid r m db =
     (if has_seq_ids r
      then db\<lparr>db_sampling_sessions := db_sampling_sessions db @
             [\<lparr>ss_sampling_session_id = ''sampling_'' @ uid, ss_session_id = m_session_id m,
               ss_sampling_session_seq_id = the (ssr_sampling_session_seq_id r), ss_base_model = None,
               ss_model_path = Some (''tinker://'' @ ssr_model_id r @ ''/sampler_weights/'' @ sampler_checkpoint_name r),
               ss_created_at = now\<rparr>]\<rparr>
      else db)"

definition save_for_sampler_valid :: "save_for_sampler_request \<Rightarrow> bool" where
  "save_for_sampler_valid r =
     (check_path_or_ids r \<and> (case ssr_path r of None \<Rightarrow> True | Some p \<Rightarrow> id_ok p))"

definition save_weights_for_sampler ::
  "bool \<Rightarrow> datetime \<Rightarrow> string \<Rightarrow> save_for_sampler_request \<Rightarrow> nat endpoint" where
  "save_weights_for_sampler fk now uid r db =
     (if \<not> save_for_sampler_valid r then (Inl (HTTPException 422 ''save_weights_for_sampler''), db)
      else case get_model (ssr_model_id r) db of
             Inl e \<Rightarrow> (Inl e, db)
           | Inr m \<Rightarrow>
               (case create_checkpoint fk now (ssr_model_id r) (sampler_checkpoint_name r) SAMPLER
                       (add_sampler_session now uid r m db) of
                  Inl e \<Rightarrow> (Inl e, db)
                | Inr db2 \<Rightarrow>
                    (case create_future now SAVE_WEIGHTS_FOR_SAMPLER (Some (ssr_model_id r))
                           (SaveWeightsForSamplerInput \<lparr>sws_path = Some (sampler_checkpoint_name r),
                              sws_sampling_session_seq_id = ssr_sampling_session_seq_id r, sws_seq_id = ssr_seq_id r,
                              sws_sampling_session_id = (if has_seq_ids r then Some (''sampling_'' @ uid) else None)\<rparr>) db2 of
                       (rid, db3) \<Rightarrow> (Inr rid, db3))))"

section \<open>Sampling\<close>

definition get_sampling_model ::
  "sample_request \<Rightarrow> tinker_db \<Rightarrow> (api_error, string option \<times> string option) result" where
  "get_sampling_model r db =
     (case sr_sampling_session_id r of
        None \<Rightarrow> Inr (sr_base_model r, sr_model_path r)
      | Some sid \<Rightarrow>
          (case find (\<lambda>s. ss_sampling_session_id s = sid) (db_sampling_sessions db) of
             None \<Rightarrow> Inl (HTTPException 404 ''Sampling session not found'')
           | Some s \<Rightarrow> Inr (ss_base_model s, ss_model_path s)))"

definition sampler_path_message :: string where
  "sampler_path_message = ''model_path must be tinker://model_id/checkpoint_id or tinker://model_id/sampler_weights/checkpoint_id''"

text \<open>The model and the checkpoint a sample is drawn from; both empty for the base model.\<close>

definition sampling_source ::
  "(string \<Rightarrow> bool) \<Rightarrow> string option \<Rightarrow> string option \<Rightarrow> tinker_db \<Rightarrow> (api_error, string \<times> string) result" where
  "sampling_source ip_ok base path db =
     (if truthy base then Inr ([], [])
      else case path of
             None \<Rightarrow> Inl (Unhandled ''AssertionError'')
           | Some p \<Rightarrow>
               (case parse_path ip_ok p of
                  Inl e \<Rightarrow> Inl e
                | Inr None \<Rightarrow> Inl (HTTPException 400 sampler_path_message)
                | Inr (Some t) \<Rightarrow>
                    if path_kind t \<notin> {[], ''sampler_weights''} \<or> primary_id t = [] \<or> secondary_id t = []
                    then Inl (HTTPException 400 sampler_path_message)
                    else case get_model (primary_id t) db of
                           Inl e \<Rightarrow> Inl e
                         | Inr _ \<Rightarrow>
                             (case validate_checkpoint (primary_id t) (secondary_id t) SAMPLER db of
                                Inl e \<Rightarrow> Inl e | Inr _ \<Rightarrow> Inr (primary_id t, secondary_id t))))"

text \<open>The request id and, for a request routed to the external engine, the dispatch to make.\<close>

definition asample ::
  "(string \<Rightarrow> bool) \<Rightarrow> bool \<Rightarrow> int \<Rightarrow> datetime \<Rightarrow> sample_request \<Rightarrow> (nat \<times> bool) endpoint" where
  "asample ip_ok has_client rnd now r db =
     (if \<not> sample_request_valid r then (Inl (HTTPException 422 ''sample request''), db)
      else if sr_sampling_session_id r \<noteq> None \<and> CHR '':'' \<in> set (the (sr_sampling_session_id r))
      then (Inl (HTTPException 400 (''sampling_session_id must not contain '' @ quoted '':'' @ '' (the routing-key delimiter)'')), db)
      else case get_sampling_model r db of
             Inl e \<Rightarrow> (Inl e, db)
           | Inr (base, path) \<Rightarrow>
               (case sampling_source ip_ok base path db of
                  Inl e \<Rightarrow> (Inl e, db)
                | Inr (m, c) \<Rightarrow>
                    (case sampling_params_to_types rnd (sr_sampling_params r) of
                       Inl e \<Rightarrow> (Inl e, db)
                     | Inr sp \<Rightarrow>
                         (let external = (has_client \<and> sr_prompt_logprobs r \<noteq> Some True) in
                          case create_future now (if external then EXTERNAL else SAMPLE) (Some m)
                                 (SampleInput \<lparr>s_base_model = base, s_prompt = sr_prompt r, s_sampling_params = sp,
                                    s_num_samples = sr_num_samples r, s_checkpoint_id = c,
                                    s_prompt_logprobs = (sr_prompt_logprobs r = Some True), s_seq_id = sr_seq_id r,
                                    s_sampling_session_id = sr_sampling_session_id r\<rparr>) db of
                            (rid, db1) \<Rightarrow> (Inr (rid, external), db1)))))"

section \<open>Reading\<close>

datatype future_reply = StillPending | Reply result_data | Refused api_error

text \<open>One look of \<open>retrieve_future\<close> at the row; \<open>StillPending\<close> means it sleeps and looks again until
  its deadline, then answers 408.\<close>

definition retrieve_look :: "nat \<Rightarrow> tinker_db \<Rightarrow> future_reply" where
  "retrieve_look rid db =
     (case find (\<lambda>f. f_request_id f = rid) (db_futures db) of
        None \<Rightarrow> Refused (HTTPException 404 ''Future not found'')
      | Some f \<Rightarrow>
          (case f_status f of
             PENDING \<Rightarrow> StillPending
           | COMPLETED \<Rightarrow> (case f_result_data f of Some r \<Rightarrow> Reply r | None \<Rightarrow> Refused (Unhandled ''AttributeError''))
           | FAILED \<Rightarrow>
               (case f_result_data f of
                  Some (ErrorResponse e s) \<Rightarrow> Refused (HTTPException 400 e)
                | _ \<Rightarrow> Refused (HTTPException 500 ''Unknown error''))))"

text \<open>The long poll: half a second between looks, growing by half up to three seconds, until the
  result is there or the deadline is past.  Look number \<open>k\<close> sees the database \<open>dbs k\<close>.\<close>

fun retrieve_loop :: "nat \<Rightarrow> nat \<Rightarrow> real \<Rightarrow> real \<Rightarrow> nat \<Rightarrow> (nat \<Rightarrow> tinker_db) \<Rightarrow> future_reply" where
  "retrieve_loop 0 k poll left rid dbs = StillPending"
| "retrieve_loop (Suc fuel) k poll left rid dbs =
     (if left \<le> 0 then Refused (HTTPException 408 ''Timeout waiting for result'')
      else case retrieve_look rid (dbs k) of
             StillPending \<Rightarrow> retrieve_loop fuel (Suc k) (min (poll * 3 / 2) 3) (left - poll) rid dbs
           | r \<Rightarrow> r)"

definition retrieve_future :: "nat \<Rightarrow> (nat \<Rightarrow> tinker_db) \<Rightarrow> future_reply" where
  "retrieve_future rid dbs = retrieve_loop 602 0 (1/2) 300 rid dbs"

definition list_checkpoints :: "string \<Rightarrow> tinker_db \<Rightarrow> (string \<times> checkpoint_type \<times> datetime option \<times> string) list" where
  "list_checkpoints m db =
     map (\<lambda>c. (c_checkpoint_id c, c_checkpoint_type c, c_completed_at c,
          ''tinker://'' @ m @ ''/'' @ (if c_checkpoint_type c = TRAINING then ''weights'' else ''sampler_weights'')
            @ ''/'' @ c_checkpoint_id c))
       (filter (\<lambda>c. c_model_id c = m \<and> c_status c = CK_COMPLETED) (db_checkpoints db))"

definition list_training_runs :: "nat \<Rightarrow> nat \<Rightarrow> tinker_db \<Rightarrow> (string \<times> string \<times> int) list \<times> nat" where
  "list_training_runs limit offset db =
     (let rows = take limit (drop offset (db_models db))
      in (map (\<lambda>m. (m_model_id m, m_base_model m, lora_rank (m_lora_config m))) rows,
          if rows = [] then 0 else length (db_models db)))"

definition get_weights_info :: "(string \<Rightarrow> bool) \<Rightarrow> string \<Rightarrow> tinker_db \<Rightarrow> (api_error, string \<times> bool \<times> int) result" where
  "get_weights_info ip_ok p db =
     (case parse_path ip_ok p of
        Inl e \<Rightarrow> Inl e
      | Inr None \<Rightarrow> Inl (HTTPException 400 ''Invalid tinker path format. Expected: tinker://model_id/weights/checkpoint_id'')
      | Inr (Some t) \<Rightarrow>
          if path_kind t \<noteq> ''weights''
          then Inl (HTTPException 400 ''Invalid tinker path format. Expected: tinker://model_id/weights/checkpoint_id'')
          else case get_model (primary_id t) db of
                 Inl e \<Rightarrow> Inl e
               | Inr m \<Rightarrow>
                   (case validate_checkpoint (primary_id t) (secondary_id t) TRAINING db of
                      Inl e \<Rightarrow> Inl e
                    | Inr _ \<Rightarrow> Inr (m_base_model m, lora_rank (m_lora_config m) > 0, lora_rank (m_lora_config m))))"

section \<open>What the API guarantees to the engine\<close>

definition typed :: "request_type \<Rightarrow> request_data \<Rightarrow> bool" where
  "typed t d =
     (case t of
        CREATE_MODEL \<Rightarrow> (case d of CreateModelInput _ \<Rightarrow> True | _ \<Rightarrow> False)
      | FORWARD_BACKWARD \<Rightarrow> (case d of ForwardBackwardInput _ \<Rightarrow> True | _ \<Rightarrow> False)
      | FORWARD \<Rightarrow> (case d of ForwardBackwardInput _ \<Rightarrow> True | _ \<Rightarrow> False)
      | OPTIM_STEP \<Rightarrow> (case d of OptimStepInput _ \<Rightarrow> True | _ \<Rightarrow> False)
      | SAVE_WEIGHTS_FOR_SAMPLER \<Rightarrow> (case d of SaveWeightsForSamplerInput _ \<Rightarrow> True | _ \<Rightarrow> False)
      | SAVE_WEIGHTS \<Rightarrow> (case d of SaveWeightsInput _ \<Rightarrow> True | _ \<Rightarrow> False)
      | LOAD_WEIGHTS \<Rightarrow> (case d of LoadWeightsInput _ \<Rightarrow> True | _ \<Rightarrow> False)
      | SAMPLE \<Rightarrow> (case d of SampleInput _ \<Rightarrow> True | _ \<Rightarrow> False)
      | EXTERNAL \<Rightarrow> (case d of SampleInput _ \<Rightarrow> True | _ \<Rightarrow> False)
      | UNLOAD_MODEL \<Rightarrow> (case d of UnloadModelInput \<Rightarrow> True | _ \<Rightarrow> False))"

definition typed_row :: "future_db \<Rightarrow> bool" where
  "typed_row f = typed (f_request_type f) (f_request_data f)"

lemma typed_simps [simp]:
  "typed CREATE_MODEL (CreateModelInput a)" "typed FORWARD_BACKWARD (ForwardBackwardInput b)"
  "typed FORWARD (ForwardBackwardInput b)" "typed OPTIM_STEP (OptimStepInput c)"
  "typed SAVE_WEIGHTS_FOR_SAMPLER (SaveWeightsForSamplerInput e)" "typed SAVE_WEIGHTS (SaveWeightsInput g)"
  "typed LOAD_WEIGHTS (LoadWeightsInput h)" "typed SAMPLE (SampleInput i)" "typed EXTERNAL (SampleInput i)"
  "typed UNLOAD_MODEL UnloadModelInput"
  by (simp_all add: typed_def)

definition queue_wf :: "future_db list \<Rightarrow> bool" where
  "queue_wf futs \<longleftrightarrow> distinct (map f_request_id futs) \<and> (\<forall>f\<in>set futs. typed_row f \<and> f_model_id f \<noteq> None)"

text \<open>A call queues at most one request: a fresh id, a pending row with data of its own type.\<close>

definition new_row :: "tinker_db \<Rightarrow> future_db \<Rightarrow> bool" where
  "new_row db f \<longleftrightarrow> f_request_id f = next_request_id db \<and> f_status f = PENDING \<and> f_result_data f = None \<and>
     typed_row f \<and> f_model_id f \<noteq> None"

definition queues_one :: "tinker_db \<Rightarrow> tinker_db \<Rightarrow> bool" where
  "queues_one db db' \<longleftrightarrow> db_futures db' = db_futures db \<or>
     (\<exists>f. db_futures db' = db_futures db @ [f] \<and> new_row db f)"

lemma fold_max_upper: "x \<in> set xs \<or> x \<le> a \<Longrightarrow> x \<le> fold max xs a" for x a :: nat
proof (induction xs arbitrary: a)
  case (Cons y ys)
  have "x \<in> set ys \<or> x \<le> max y a" using Cons.prems by auto
  from Cons.IH [OF this] show ?case by simp
qed simp

lemma next_request_id_gt:
  assumes "f \<in> set (db_futures db)"
  shows "f_request_id f < next_request_id db"
  using assms fold_max_upper [of "f_request_id f" "map f_request_id (db_futures db)" 0]
  by (simp add: next_request_id_def le_imp_less_Suc)

lemma queues_one_wf:
  assumes "queues_one db db'" "queue_wf (db_futures db)"
  shows "queue_wf (db_futures db')"
proof -
  have "next_request_id db \<notin> f_request_id ` set (db_futures db)" using next_request_id_gt by force
  with assms show ?thesis by (auto simp: queues_one_def queue_wf_def new_row_def)
qed

lemma queues_one_refl: "db_futures db' = db_futures db \<Longrightarrow> queues_one db db'"
  by (simp add: queues_one_def)

lemma create_future_queues:
  assumes "db_futures db1 = db_futures db"
    and "typed t d"
    and "db_futures db' = db_futures (snd (create_future now t (Some m) d db1))"
  shows "queues_one db db'"
  using assms by (simp add: queues_one_def create_future_def Let_def new_row_def next_request_id_def typed_row_def)

text \<open>The state-changing endpoints.\<close>

inductive api_call :: "tinker_db \<Rightarrow> tinker_db \<Rightarrow> bool" where
  "api_call db (snd (create_session now uid tags meta sdk db))"
| "api_call db (snd (session_heartbeat now sid db))"
| "api_call db (snd (create_sampling_session now uid sid seq base path db))"
| "api_call db (snd (create_model now uid rnd sid mbase rank seed role db))"
| "api_call db (snd (unload_model now m db))"
| "api_call db (snd (forward_backward now m fbr forward_only db))"
| "api_call db (snd (forward now m fbr db))"
| "api_call db (snd (optim_step now m adam db))"
| "api_call db (snd (load_weights ip_ok now m wpath db))"
| "api_call db (snd (save_weights fk now m wpath db))"
| "api_call db (snd (save_weights_for_sampler fk now uid ssr db))"
| "api_call db (snd (asample ip_ok has_client rnd now sr db))"

inductive_cases api_callE: "api_call db db'"

lemma create_checkpoint_futures: "create_checkpoint fk now m c t db = Inr db' \<Longrightarrow> db_futures db' = db_futures db"
  by (auto simp: create_checkpoint_def Let_def split: if_splits)

lemma queue_for_model_queues:
  assumes "\<And>x. d = Inr x \<Longrightarrow> typed t x"
  shows "queues_one db (snd (queue_for_model now t m d db))"
proof (cases "\<exists>r x. get_model m db = Inr r \<and> d = Inr x")
  case True
  then obtain r x where "get_model m db = Inr r" "d = Inr x" by blast
  then show ?thesis
    using assms by (intro create_future_queues [of db db t x _ now m]) (auto simp: queue_for_model_def split: prod.splits)
next
  case False
  then have "snd (queue_for_model now t m d db) = db" by (auto simp: queue_for_model_def split: sum.splits)
  then show ?thesis by (simp add: queues_one_refl)
qed

lemma load_weights_outcome:
  "snd (load_weights ip_ok now m path db) = db \<or>
   (\<exists>i. snd (load_weights ip_ok now m path db) = snd (create_future now LOAD_WEIGHTS (Some m) (LoadWeightsInput i) db))"
  unfolding load_weights_def
  by (cases "get_model m db"; simp; cases "parse_path ip_ok path"; simp split: option.splits sum.splits prod.splits)
    (metis snd_conv)

lemma asample_outcome:
  "snd (asample ip_ok has_client rnd now r db) = db \<or>
   (\<exists>t m i. t \<in> {EXTERNAL, SAMPLE} \<and>
      snd (asample ip_ok has_client rnd now r db) = snd (create_future now t (Some m) (SampleInput i) db))"
proof -
  define bad where
    "bad \<longleftrightarrow> sr_sampling_session_id r \<noteq> None \<and> CHR '':'' \<in> set (the (sr_sampling_session_id r))"
  consider "\<not> sample_request_valid r" | "sample_request_valid r" "bad"
    | e where "sample_request_valid r" "\<not> bad" "get_sampling_model r db = Inl e"
    | base path e where "sample_request_valid r" "\<not> bad" "get_sampling_model r db = Inr (base, path)"
        "sampling_source ip_ok base path db = Inl e"
    | base path m c e where "sample_request_valid r" "\<not> bad" "get_sampling_model r db = Inr (base, path)"
        "sampling_source ip_ok base path db = Inr (m, c)" "sampling_params_to_types rnd (sr_sampling_params r) = Inl e"
    | base path m c sp where "sample_request_valid r" "\<not> bad" "get_sampling_model r db = Inr (base, path)"
        "sampling_source ip_ok base path db = Inr (m, c)" "sampling_params_to_types rnd (sr_sampling_params r) = Inr sp"
    by (metis sum.exhaust surj_pair)
  then show ?thesis
  proof cases
    case (6 base path m c sp)
    then show ?thesis unfolding bad_def
      by (simp add: asample_def Let_def case_prod_beta) blast
  qed (simp_all add: asample_def bad_def)
qed

lemma save_weights_for_sampler_outcome:
  "snd (save_weights_for_sampler fk now uid r db) = db \<or>
   (\<exists>db1 i. db_futures db1 = db_futures db \<and> snd (save_weights_for_sampler fk now uid r db)
      = snd (create_future now SAVE_WEIGHTS_FOR_SAMPLER (Some (ssr_model_id r)) (SaveWeightsForSamplerInput i) db1))"
proof -
  consider "\<not> save_for_sampler_valid r" | e where "save_for_sampler_valid r" "get_model (ssr_model_id r) db = Inl e"
    | m e where "save_for_sampler_valid r" "get_model (ssr_model_id r) db = Inr m"
        "create_checkpoint fk now (ssr_model_id r) (sampler_checkpoint_name r) SAMPLER
           (add_sampler_session now uid r m db) = Inl e"
    | m db2 where "save_for_sampler_valid r" "get_model (ssr_model_id r) db = Inr m"
        "create_checkpoint fk now (ssr_model_id r) (sampler_checkpoint_name r) SAMPLER
           (add_sampler_session now uid r m db) = Inr db2"
    by (metis sum.exhaust)
  then show ?thesis
  proof cases
    case (4 m db2)
    from create_checkpoint_futures [OF 4(3)] have "db_futures db2 = db_futures db"
      by (simp add: add_sampler_session_def)
    moreover have "\<exists>i. snd (save_weights_for_sampler fk now uid r db) =
      snd (create_future now SAVE_WEIGHTS_FOR_SAMPLER (Some (ssr_model_id r)) (SaveWeightsForSamplerInput i) db2)"
      using 4 by (simp add: save_weights_for_sampler_def case_prod_beta) blast
    ultimately show ?thesis by blast
  qed (simp_all add: save_weights_for_sampler_def)
qed

lemma api_call_queues_one:
  assumes "api_call db db'"
  shows "queues_one db db'"
  using assms
proof cases
  case (4 now uid rnd sid mbase rank seed role)
  then show ?thesis
    by (auto simp: create_model_def Let_def create_future_def queues_one_def new_row_def typed_row_def)
next
  case (5 now m)
  then show ?thesis
    by (auto simp: unload_model_def create_future_def Let_def queues_one_def new_row_def typed_row_def
        set_models_status_def next_request_id_def)
next
  case (6 now m fbr forward_only)
  then show ?thesis
    by (cases "wrap_422 (forward_backward_to_types fbr)")
      (auto simp: forward_backward_def queues_one_refl typed_row_def intro!: queue_for_model_queues)
next
  case (7 now m fbr)
  then show ?thesis
    by (auto simp: forward_def queues_one_refl typed_row_def split: sum.splits intro!: queue_for_model_queues)
next
  case (8 now m adam)
  then show ?thesis
    by (auto simp: optim_step_def queues_one_refl typed_row_def intro!: queue_for_model_queues)
next
  case (9 ip_ok now m wpath)
  then show ?thesis using load_weights_outcome [of ip_ok now m wpath db]
    by (auto simp: queues_one_refl typed_row_def intro!: create_future_queues [OF refl _ refl])
next
  case (10 fk now m wpath)
  show ?thesis
  proof (cases "id_ok wpath \<and> (\<exists>db1. create_checkpoint fk now m wpath TRAINING db = Inr db1)")
    case True
    then obtain db1 where db1: "create_checkpoint fk now m wpath TRAINING db = Inr db1" by blast
    from 10 True db1 show ?thesis
      by (intro create_future_queues [of db1 db SAVE_WEIGHTS "SaveWeightsInput wpath" _ now m]
            create_checkpoint_futures [OF db1])
        (auto simp: save_weights_def split: prod.splits)
  next
    case False
    with 10 have "db' = db" by (auto simp: save_weights_def split: sum.splits)
    then show ?thesis by (simp add: queues_one_refl)
  qed
next
  case (11 fk now uid ssr)
  then show ?thesis using save_weights_for_sampler_outcome [of fk now uid ssr db]
    by (auto simp: queues_one_refl typed_row_def intro!: create_future_queues [OF _ _ refl])
next
  case (12 ip_ok has_client rnd now sr)
  then show ?thesis using asample_outcome [of ip_ok has_client rnd now sr db]
    by (auto simp: queues_one_refl typed_row_def intro!: create_future_queues [OF refl _ refl])
qed (auto simp: create_session_def session_heartbeat_def create_sampling_session_def Let_def queues_one_def)

lemma api_call_wf: "api_call db db' \<Longrightarrow> queue_wf (db_futures db) \<Longrightarrow> queue_wf (db_futures db')"
  by (rule queues_one_wf [OF api_call_queues_one])

section \<open>Polls never crash on what the API queued\<close>

definition row_skeleton :: "future_db \<Rightarrow> nat \<times> request_type \<times> string option \<times> request_data" where
  "row_skeleton f = (f_request_id f, f_request_type f, f_model_id f, f_request_data f)"

definition skeleton :: "tinker_db \<Rightarrow> (nat \<times> request_type \<times> string option \<times> request_data) list" where
  "skeleton db = map row_skeleton (db_futures db)"

lemma queue_wf_skeleton:
  assumes "skeleton db' = skeleton db" "queue_wf (db_futures db)"
  shows "queue_wf (db_futures db')"
proof -
  have wf: "queue_wf fs \<longleftrightarrow> distinct (map fst (map row_skeleton fs)) \<and>
      (\<forall>q\<in>set (map row_skeleton fs). typed (fst (snd q)) (snd (snd (snd q))) \<and> fst (snd (snd q)) \<noteq> None)" for fs
    by (simp add: queue_wf_def row_skeleton_def typed_row_def o_def)
  show ?thesis using assms unfolding wf skeleton_def by simp
qed

lemma skeleton_complete [simp]: "skeleton (en_db (complete_futures now rs st)) = skeleton (en_db st)"
  by (simp add: skeleton_def apply_results_def row_skeleton_def split: option.split)

lemma skeleton_batch:
  assumes "\<And>v s. db_futures (en_db (snd (p v s))) = db_futures (en_db s)"
  shows "skeleton (en_db (process_batch_requests ops cfg now view p reqs st)) = skeleton (en_db st)"
proof -
  obtain errs valid where f: "filter_valid_requests ops cfg view (en_backend st) reqs = (errs, valid)" by force
  obtain r s where p: "p valid st = (r, s)" by force
  then have "skeleton (en_db s) = skeleton (en_db st)" using assms [of valid st] by (simp add: skeleton_def)
  with f p show ?thesis by (simp add: process_batch_requests_def split: sum.split)
qed

lemma skeleton_single: "skeleton (en_db (process_single_requests ops cfg now reqs st)) = skeleton (en_db st)"
proof -
  obtain rs s where loop: "single_loop ops cfg now reqs st = (rs, s)" by force
  from single_loop_futures [OF loop] have "skeleton (en_db s) = skeleton (en_db st)" by (simp add: skeleton_def)
  with loop show ?thesis by (simp add: process_single_requests_def)
qed

lemma skeleton_poll:
  assumes "process_pending_requests ops cfg now st = Some st'"
  shows "skeleton (en_db st') = skeleton (en_db st)"
proof -
  have b: "skeleton (en_db (process_batch_requests ops cfg now (\<lambda>_. None) (process_forward_backward ops) r s)) = skeleton (en_db s)"
    "skeleton (en_db (process_batch_requests ops cfg now (\<lambda>_. None) (process_forward ops) r s)) = skeleton (en_db s)"
    "skeleton (en_db (process_batch_requests ops cfg now Some (process_sample ops cfg) q s)) = skeleton (en_db s)" for r q s
    by (auto intro!: skeleton_batch simp: process_forward_backward_def process_forward_def process_sample_def split: sum.split)
  have c: "skeleton (en_db (maybe_cleanup ops cfg now s)) = skeleton (en_db s)" for s
    by (simp add: maybe_cleanup_def skeleton_def)
  from assms show ?thesis
    by (auto simp: process_pending_requests_def Let_def b c skeleton_single split: option.splits)
qed

lemma batchable_samples_ok:
  "\<forall>f\<in>set fs. as_sample (f_request_data f) \<noteq> None \<Longrightarrow> batchable_samples ck fs \<noteq> None"
proof (induction fs arbitrary: ck)
  case (Cons f fs)
  then show ?case by (cases "as_sample (f_request_data f)") (auto simp: Let_def split: option.split)
qed simp

lemma typed_as:
  "typed_row f \<Longrightarrow> f_request_type f \<in> {FORWARD, FORWARD_BACKWARD} \<Longrightarrow> as_forward_backward (f_request_data f) \<noteq> None"
  "typed_row f \<Longrightarrow> f_request_type f = SAMPLE \<Longrightarrow> as_sample (f_request_data f) \<noteq> None"
  by (auto simp: typed_row_def typed_def split: request_data.splits)

lemma those_ok: "\<forall>x\<in>set xs. h x \<noteq> None \<Longrightarrow> those (map h xs) \<noteq> None"
  by (induction xs) (auto split: option.split)

lemma poll_possible:
  assumes "queue_wf (db_futures (en_db st))"
  shows "process_pending_requests ops cfg now st \<noteq> None"
proof -
  let ?futs = "db_futures (en_db st)"
  have typed: "typed_row f" if "f \<in> set ?futs" for f using assms that by (simp add: queue_wf_def)
  have pass: "find_batchable_model_passes ?futs rt \<noteq> None" if "rt \<in> {FORWARD, FORWARD_BACKWARD}" for rt
    unfolding find_batchable_model_passes_def
    by (rule those_ok) (use that typed typed_as(1) in \<open>auto simp: batchable_passes_def set_pending_ordered\<close>)
  have smp: "\<forall>f\<in>set (pending_ordered (\<lambda>t. t = SAMPLE) ?futs). as_sample (f_request_data f) \<noteq> None"
    using typed typed_as(2) by (simp add: set_pending_ordered)
  obtain fs where fs: "batchable_samples [] (pending_ordered (\<lambda>t. t = SAMPLE) ?futs) = Some fs"
    using batchable_samples_ok [OF smp] by blast
  have "set (limit_samples b n fs) \<subseteq> set (pending_ordered (\<lambda>t. t = SAMPLE) ?futs)" for b n
    using set_limit_samples batchable_samples_sub [OF fs] by (rule subset_trans)
  then have "find_batchable_sample (ec_backend cfg) (ec_sample_max_num_sequences cfg) ?futs \<noteq> None"
    unfolding find_batchable_sample_def fs option.case
    by (intro those_ok) (use smp in blast)
  with pass [of FORWARD] pass [of FORWARD_BACKWARD] show ?thesis
    by (auto simp: process_pending_requests_def Let_def split: option.split)
qed

text \<open>The running service: API calls and polls in any order, and other processes completing rows
  (the external inference client) without touching what identifies a request.\<close>

inductive service_step ::
  "'b backend_ops \<Rightarrow> engine_config \<Rightarrow> 'b engine \<Rightarrow> 'b engine \<Rightarrow> bool" for ops cfg where
  call: "api_call (en_db st) db \<Longrightarrow> service_step ops cfg st (st\<lparr>en_db := db\<rparr>)"
| poll: "process_pending_requests ops cfg now st = Some st' \<Longrightarrow> service_step ops cfg st st'"
| settle: "skeleton db = skeleton (en_db st) \<Longrightarrow> service_step ops cfg st (st\<lparr>en_db := db\<rparr>)"

inductive_cases service_stepE: "service_step ops cfg st st'"

lemma service_step_wf:
  "service_step ops cfg st st' \<Longrightarrow> queue_wf (db_futures (en_db st)) \<Longrightarrow> queue_wf (db_futures (en_db st'))"
  by (elim service_stepE) (auto intro: api_call_wf queue_wf_skeleton [OF skeleton_poll] queue_wf_skeleton)

lemma service_wf:
  "(service_step ops cfg)\<^sup>*\<^sup>* st st' \<Longrightarrow> queue_wf (db_futures (en_db st)) \<Longrightarrow> queue_wf (db_futures (en_db st'))"
  by (induction rule: rtranclp_induct) (auto intro: service_step_wf)

end
