(* ===== verification/Tinker_Jax.thy ===== *)
theory Tinker_Jax
  imports Tinker_Engine
begin

text \<open>
  The JAX backend of \<^verbatim>\<open>skyrl/backends/jax.py\<close> on one process with local sampling: the table of
  models and adapter slots, gradient accumulation per slot, the padded and micro-batched model
  pass, local sampling, the checkpoint operations, and the padding helpers of
  \<^verbatim>\<open>skyrl/backends/utils.py\<close> and \<^verbatim>\<open>skyrl/tx/utils/models.py\<close>.  The tensor computations are the
  record \<open>numerics\<close>: what one row of a batch contributes, how an optimizer step changes a slot.
  A slot's weights, an optimizer's state and a gradient are opaque (\<open>'w\<close>, \<open>'o\<close>, \<open>'g\<close>).
\<close>

section \<open>State\<close>

record model_metadata =
  mm_adapter_index :: nat
  mm_lora_config :: lora_config
  mm_loaded_checkpoint_id :: "string option"

record jax_config =
  jc_max_lora_adapters :: nat
  jc_max_lora_rank :: int
  jc_train_micro_batch_size :: int
  jc_sample_max_num_sequences :: int
  jc_fsdp_size :: nat

text \<open>One row of a padded batch.\<close>

record pass_row =
  pr_input_ids :: "int list"
  pr_attention_mask :: "int list"
  pr_target_ids :: "int list"
  pr_loss_mask :: "real list"
  pr_sampling_logprobs :: "real list"
  pr_advantages :: "real list"
  pr_adapter_index :: nat
  pr_loss_fn_type :: nat
  pr_clip_low :: real
  pr_clip_high :: real

record ('w, 'o, 'g) numerics =
  nm_row_losses :: "'w \<Rightarrow> pass_row \<Rightarrow> real list"
  nm_row_logprobs :: "'w \<Rightarrow> pass_row \<Rightarrow> real list"
  nm_row_grad :: "'w \<Rightarrow> pass_row \<Rightarrow> 'g"
  nm_mean :: "'g \<Rightarrow> nat \<Rightarrow> 'g"
  nm_init_optimizer :: "'o"
  nm_init_adapter :: "lora_config \<Rightarrow> 'w"
  nm_clear_adapter :: "'w"
  nm_update :: "adam_params \<Rightarrow> 'o \<Rightarrow> 'w \<Rightarrow> 'g \<Rightarrow> 'o \<times> 'w"
  nm_grad_norm :: "'g \<Rightarrow> real"
  nm_generate :: "'w \<Rightarrow> int list \<Rightarrow> sampling_params \<Rightarrow> generated_sequence"
  nm_prompt_logprobs :: "'w \<Rightarrow> int list \<Rightarrow> real list"

record ('w, 'o, 'g) jax =
  jx_models :: "(string, model_metadata) dict"
  jx_optimizers :: "(string, 'o) dict"
  jx_weights :: "nat \<Rightarrow> 'w"
  jx_grad_sum :: "nat \<Rightarrow> 'g"
  jx_counts :: "nat \<Rightarrow> nat"
  jx_sampler_files :: "(string, 'w) dict"
  jx_training_files :: "(string, 'w \<times> 'o \<times> lora_config) dict"

section \<open>Padding\<close>

definition pad :: "'a list \<Rightarrow> nat \<Rightarrow> 'a \<Rightarrow> 'a list" where
  "pad xs n fill = xs @ replicate (n - length xs) fill"

fun pad_batch :: "'a \<Rightarrow> nat \<Rightarrow> 'a list list \<Rightarrow> (string, 'a list list) result" where
  "pad_batch z n [] = Inr []"
| "pad_batch z n (s # ss) =
     (if length s > n
      then Inl (''Sequence length '' @ str_of_nat (length s) @ '' exceeds max_length '' @ str_of_nat n)
      else case pad_batch z n ss of Inl e \<Rightarrow> Inl e | Inr r \<Rightarrow> Inr (pad s n z # r))"

definition pad_to_fsdp :: "'a \<Rightarrow> 'a list \<Rightarrow> nat \<Rightarrow> 'a list" where
  "pad_to_fsdp z xs fsdp = xs @ replicate ((fsdp - length xs mod fsdp) mod fsdp) z"

fun bit_length :: "nat \<Rightarrow> nat" where
  "bit_length n = (if n = 0 then 0 else Suc (bit_length (n div 2)))"

declare bit_length.simps [simp del]

text \<open>The mask keeps the two most significant bits: the rest is the remainder modulo the half of the
  leading power.\<close>

definition round_up_seq_len :: "nat \<Rightarrow> nat" where
  "round_up_seq_len n =
     (if n \<le> 32 then 32
      else let msb = bit_length n - 1;
               half = 2 ^ (msb - 1);
               result = n - n mod half
           in if result < n then result + half else result)"

section \<open>Models and slots\<close>

definition jax_has_model :: "('w, 'o, 'g) jax \<Rightarrow> string \<Rightarrow> bool" where
  "jax_has_model b m = dict_has (jx_models b) m"

definition used_indices :: "('w, 'o, 'g) jax \<Rightarrow> nat list" where
  "used_indices b = map (\<lambda>(m, md). mm_adapter_index md) (jx_models b)"

definition available_indices :: "jax_config \<Rightarrow> ('w, 'o, 'g) jax \<Rightarrow> nat list" where
  "available_indices cfg b = filter (\<lambda>i. i \<notin> set (used_indices b)) [1..<jc_max_lora_adapters cfg]"

definition jax_create_model ::
  "('w, 'o, 'g) numerics \<Rightarrow> jax_config \<Rightarrow> string \<Rightarrow> lora_config \<Rightarrow> string \<Rightarrow> ('w, 'o, 'g) jax
   \<Rightarrow> (string, unit) result \<times> ('w, 'o, 'g) jax" where
  "jax_create_model nm cfg m lc role b =
     (if role \<noteq> ''policy'' then (Inl (''JaxBackend only supports model_role='' @ quoted ''policy'' @ '', got '' @ quoted role), b)
      else case available_indices cfg b of
             [] \<Rightarrow> (Inl (''Maximum number of LoRA adapters ('' @ str_of_nat (jc_max_lora_adapters cfg) @ '') reached''), b)
           | idx # _ \<Rightarrow>
               if \<not> (0 < lora_rank lc \<and> lora_rank lc \<le> jc_max_lora_rank cfg)
               then (Inl (''LoRA rank '' @ str_of_int (lora_rank lc) @ '' must be between 1 and ''
                       @ str_of_int (jc_max_lora_rank cfg)), b)
               else (Inr (), b\<lparr>jx_models := dict_put m \<lparr>mm_adapter_index = idx, mm_lora_config = lc,
                                mm_loaded_checkpoint_id = None\<rparr> (jx_models b),
                              jx_optimizers := dict_put m (nm_init_optimizer nm) (jx_optimizers b),
                              jx_weights := (jx_weights b)(idx := nm_init_adapter nm lc)\<rparr>))"

definition jax_delete_model ::
  "('w, 'o, 'g) numerics \<Rightarrow> string \<Rightarrow> ('w, 'o, 'g) jax \<Rightarrow> (string, unit) result \<times> ('w, 'o, 'g) jax" where
  "jax_delete_model nm m b =
     (case dict_get (jx_models b) m of
        None \<Rightarrow> (Inl (''Model '' @ m @ '' not found''), b)
      | Some md \<Rightarrow> (Inr (), b\<lparr>jx_weights := (jx_weights b)(mm_adapter_index md := nm_clear_adapter nm),
                             jx_optimizers := dict_del m (jx_optimizers b),
                             jx_models := dict_del m (jx_models b)\<rparr>))"

section \<open>Gradient accumulation\<close>

definition accumulate_rows ::
  "('w, 'o, 'g::comm_monoid_add) numerics \<Rightarrow> pass_row list \<Rightarrow> ('w, 'o, 'g) jax \<Rightarrow> ('w, 'o, 'g) jax" where
  "accumulate_rows nm rows b =
     b\<lparr>jx_grad_sum := (\<lambda>a. jx_grad_sum b a +
          sum_list (map (nm_row_grad nm (jx_weights b a)) (filter (\<lambda>r. pr_adapter_index r = a) rows))),
       jx_counts := (\<lambda>a. jx_counts b a + length (filter (\<lambda>r. pr_adapter_index r = a) rows))\<rparr>"

definition jax_optim_step ::
  "('w, 'o, 'g::comm_monoid_add) numerics \<Rightarrow> string \<Rightarrow> adam_params \<Rightarrow> ('w, 'o, 'g) jax
   \<Rightarrow> (string, result_data) result \<times> ('w, 'o, 'g) jax" where
  "jax_optim_step nm m adam b =
     (case (dict_get (jx_models b) m, dict_get (jx_optimizers b) m) of
        (Some md, Some opt) \<Rightarrow>
          (let idx = mm_adapter_index md;
               mean = nm_mean nm (jx_grad_sum b idx) (max (jx_counts b idx) 1)
           in case nm_update nm adam opt (jx_weights b idx) mean of
                (opt', w') \<Rightarrow>
                  (Inr (OptimStepOutput (Some [(''skyrl.ai/grad_norm'', nm_grad_norm nm mean),
                                               (''skyrl.ai/learning_rate'', learning_rate adam)])),
                   b\<lparr>jx_optimizers := dict_put m opt' (jx_optimizers b),
                     jx_weights := (jx_weights b)(idx := w'),
                     jx_grad_sum := (jx_grad_sum b)(idx := 0),
                     jx_counts := (jx_counts b)(idx := 0)\<rparr>))
      | _ \<Rightarrow> (Inl (quoted m), b))"

section \<open>The model pass\<close>

definition prompt_ids :: "model_input \<Rightarrow> int list" where
  "prompt_ids mi = concat (map (\<lambda>c. case c of EncodedTextChunk toks \<Rightarrow> toks | _ \<Rightarrow> []) mi)"

definition loss_type :: "string \<Rightarrow> nat option" where
  "loss_type s = map_of [(''cross_entropy'', 0), (''importance_sampling'', 1), (''ppo'', 2), (''cispo'', 3)] s"

definition micro_batch_size :: "jax_config \<Rightarrow> nat \<Rightarrow> nat" where
  "micro_batch_size cfg n =
     (let mb = jc_train_micro_batch_size cfg
      in if mb \<le> 0 then n else max 1 (min (nat mb) n))"

definition clip_threshold :: "string \<Rightarrow> real \<Rightarrow> (string, real) dict option \<Rightarrow> real" where
  "clip_threshold key dflt c =
     (case c of None \<Rightarrow> dflt | Some d \<Rightarrow> (case dict_get d key of None \<Rightarrow> dflt | Some v \<Rightarrow> v))"

text \<open>\<open>range(0, total, step)\<close> with the slice taken at each start.\<close>

function chunks :: "nat \<Rightarrow> 'a list \<Rightarrow> 'a list list" where
  "chunks n xs = (if xs = [] then [] else if n = 0 then [xs] else take n xs # chunks n (drop n xs))"
  by pat_completeness auto
termination by (relation "measure (\<lambda>(n, xs). length xs)") auto

declare chunks.simps [simp del]

definition pad_row :: "nat \<Rightarrow> pass_row" where
  "pad_row n = \<lparr>pr_input_ids = replicate n 0, pr_attention_mask = replicate n 0, pr_target_ids = replicate n 0,
     pr_loss_mask = replicate n 0, pr_sampling_logprobs = replicate n 0, pr_advantages = replicate n 0,
     pr_adapter_index = 0, pr_loss_fn_type = 0, pr_clip_low = 0, pr_clip_high = 0\<rparr>"

definition pass_rows ::
  "int list list \<Rightarrow> int list list \<Rightarrow> int list list \<Rightarrow> real list list \<Rightarrow> real list list \<Rightarrow> real list list
   \<Rightarrow> nat list \<Rightarrow> nat list \<Rightarrow> (string, real) dict option list \<Rightarrow> pass_row list" where
  "pass_rows inputs masks targets weights samps advs adapters types cfgs =
     map (\<lambda>(i, m, t, w, s, a, ad, ty, c). \<lparr>pr_input_ids = i, pr_attention_mask = m, pr_target_ids = t,
         pr_loss_mask = w, pr_sampling_logprobs = s, pr_advantages = a, pr_adapter_index = ad,
         pr_loss_fn_type = ty, pr_clip_low = clip_threshold ''clip_low_threshold'' (8/10) c,
         pr_clip_high = clip_threshold ''clip_high_threshold'' (12/10) c\<rparr>)
       (zip inputs (zip masks (zip targets (zip weights (zip samps (zip advs (zip adapters (zip types cfgs))))))))"

text \<open>One micro-batch: pad to the mesh, run, drop the outputs of the padding.\<close>

definition run_micro_batch ::
  "('w, 'o, 'g::comm_monoid_add) numerics \<Rightarrow> bool \<Rightarrow> nat \<Rightarrow> nat \<Rightarrow> pass_row list
   \<Rightarrow> (real list \<times> real list) list \<times> ('w, 'o, 'g) jax \<Rightarrow> (real list \<times> real list) list \<times> ('w, 'o, 'g) jax" where
  "run_micro_batch nm backward fsdp seq_len mb st =
     (case st of (outs, b) \<Rightarrow>
        let rows = pad_to_fsdp (pad_row seq_len) mb fsdp;
            res = map (\<lambda>r. (nm_row_losses nm (jx_weights b (pr_adapter_index r)) r,
                            nm_row_logprobs nm (jx_weights b (pr_adapter_index r)) r)) rows
        in (outs @ take (length mb) res, if backward then accumulate_rows nm rows b else b))"

definition model_pass_outputs :: "nat list \<Rightarrow> (real list \<times> real list) list \<Rightarrow> (real list \<times> real list) list" where
  "model_pass_outputs lens outs = map (\<lambda>(n, ls, ps). (take n ls, take n ps)) (zip lens outs)"

definition pass_result :: "(real list \<times> real list) list \<Rightarrow> result_data" where
  "pass_result outs = ForwardBackwardOutput ''scalar''
     (map (\<lambda>(ls, ps). [(''elementwise_loss'', ls), (''logprobs'', ps)]) outs) []"

definition adapters_of :: "('w, 'o, 'g) jax \<Rightarrow> string option list \<Rightarrow> nat list option" where
  "adapters_of b ms = those (map (\<lambda>m. case m of None \<Rightarrow> None
     | Some x \<Rightarrow> map_option mm_adapter_index (dict_get (jx_models b) x)) ms)"

definition jax_model_pass ::
  "('w, 'o, 'g::comm_monoid_add) numerics \<Rightarrow> jax_config \<Rightarrow> bool \<Rightarrow> prepared_model_pass_batch \<Rightarrow> ('w, 'o, 'g) jax
   \<Rightarrow> (string, (nat, result_data) dict) result \<times> ('w, 'o, 'g) jax" where
  "jax_model_pass nm cfg backward p b =
     (if mp_model_inputs p = [] then (Inr [], b)
      else if ''ppo_critic'' \<in> set (mp_loss_fns p)
      then (Inl ''ppo_critic is only supported by the SkyRL-Train backend'', b)
      else
        let ids = map prompt_ids (mp_model_inputs p);
            seq_len = round_up_seq_len (Max (set (map length ids)))
        in case (those (map loss_type (mp_loss_fns p)), adapters_of b (mp_model_ids p)) of
             (Some types, Some adapters) \<Rightarrow>
               (case (pad_batch 0 seq_len ids, pad_batch 0 seq_len (mp_targets p),
                      pad_batch 0 seq_len (map (\<lambda>s. replicate (length s) 1) ids),
                      pad_batch 0 seq_len (mp_token_weights p), pad_batch 0 seq_len (mp_sampling_logprobs p),
                      pad_batch 0 seq_len (mp_advantages p)) of
                  (Inr inputs, Inr targets, Inr masks, Inr weights, Inr samps, Inr advs) \<Rightarrow>
                    (let rows = pass_rows inputs masks targets weights samps advs adapters types (mp_loss_fn_configs p);
                         run = fold (run_micro_batch nm backward (jc_fsdp_size cfg) seq_len)
                                 (chunks (micro_batch_size cfg (length inputs)) rows) ([], b);
                         outs = model_pass_outputs (map length ids) (fst run)
                     in (Inr (dict_of_pairs (map (\<lambda>(rid, mid, s, e). (rid, pass_result (cut (s, e) outs))) (mp_slices p))),
                         snd run))
                | (Inl e, _, _, _, _, _) \<Rightarrow> (Inl e, b)
                | (_, Inl e, _, _, _, _) \<Rightarrow> (Inl e, b)
                | (_, _, Inl e, _, _, _) \<Rightarrow> (Inl e, b)
                | (_, _, _, Inl e, _, _) \<Rightarrow> (Inl e, b)
                | (_, _, _, _, Inl e, _) \<Rightarrow> (Inl e, b)
                | (_, _, _, _, _, Inl e) \<Rightarrow> (Inl e, b))
           | _ \<Rightarrow> (Inl ''KeyError'', b))"

section \<open>Sampler weights and local sampling\<close>

definition load_sampler_checkpoint ::
  "string \<Rightarrow> string \<Rightarrow> string \<Rightarrow> ('w, 'o, 'g) jax \<Rightarrow> (string, unit) result \<times> ('w, 'o, 'g) jax" where
  "load_sampler_checkpoint m ckpt path b =
     (case (dict_get (jx_models b) m, dict_get (jx_sampler_files b) path) of
        (Some md, Some w) \<Rightarrow>
          (Inr (), b\<lparr>jx_weights := (jx_weights b)(mm_adapter_index md := w),
                     jx_models := dict_put m (md\<lparr>mm_loaded_checkpoint_id := Some ckpt\<rparr>) (jx_models b)\<rparr>)
      | (Some md, None) \<Rightarrow> (Inl path, b)
      | (None, _) \<Rightarrow> (Inl (quoted m), b))"

fun load_sampler_loop ::
  "(string option \<times> string \<times> string) list \<Rightarrow> nat list \<Rightarrow> ('w, 'o, 'g) jax
   \<Rightarrow> (string, nat list) result \<times> ('w, 'o, 'g) jax" where
  "load_sampler_loop [] loaded b = (Inr [], b)"
| "load_sampler_loop ((mid, ckpt, path) # rest) loaded b =
     (let prepend = (\<lambda>i r. case r of (Inr is, b') \<Rightarrow> (Inr (i # is), b') | (Inl e, b') \<Rightarrow> (Inl e, b')) in
      if truthy mid then
        if ckpt = [] then (Inl ''checkpoint_id must be not empty'', b)
        else case dict_get (jx_models b) (the mid) of
               None \<Rightarrow> (Inl (quoted (the mid)), b)
             | Some md \<Rightarrow>
                 let idx = mm_adapter_index md in
                 if mm_loaded_checkpoint_id md = Some ckpt
                 then prepend idx (load_sampler_loop rest (idx # loaded) b)
                 else if idx \<in> set loaded then (Inl ''Cannot override already used adapter'', b)
                 else case load_sampler_checkpoint (the mid) ckpt path b of
                        (Inl e, b') \<Rightarrow> (Inl e, b')
                      | (Inr _, b') \<Rightarrow> prepend idx (load_sampler_loop rest (idx # loaded) b')
      else prepend 0 (load_sampler_loop rest loaded b))"

definition load_sampler_weights ::
  "prepared_sample_batch \<Rightarrow> ('w, 'o, 'g) jax \<Rightarrow> (string, nat list) result \<times> ('w, 'o, 'g) jax" where
  "load_sampler_weights p b =
     load_sampler_loop (zip (ps_model_ids p) (zip (ps_checkpoint_ids p) (ps_checkpoint_paths p))) [] b"

text \<open>One batch of local sampling: inputs, adapters and parameters padded to the batch size.\<close>

definition run_sample_batch ::
  "('w, 'o, 'g) numerics \<Rightarrow> bool \<Rightarrow> nat \<Rightarrow> ('w, 'o, 'g) jax \<Rightarrow> (int list \<times> nat \<times> sampling_params) list
   \<Rightarrow> (generated_sequence \<times> real list option) list" where
  "run_sample_batch nm needs max_batch b batch =
     (let inputs = pad (map fst batch) max_batch [];
          adapters = pad (map (fst \<circ> snd) batch) max_batch 0;
          params = pad (map (snd \<circ> snd) batch) max_batch (snd (snd (hd batch)))
      in take (length batch)
           (map (\<lambda>(i, a, sp). (nm_generate nm (jx_weights b a) i sp,
                if needs then Some (nm_prompt_logprobs nm (jx_weights b a) i) else None))
              (zip inputs (zip adapters params))))"

definition jax_sample ::
  "('w, 'o, 'g) numerics \<Rightarrow> jax_config \<Rightarrow> prepared_sample_batch \<Rightarrow> ('w, 'o, 'g) jax
   \<Rightarrow> (string, (nat, result_data) dict) result \<times> ('w, 'o, 'g) jax" where
  "jax_sample nm cfg p b =
     (if ps_model_inputs p = [] then (Inr [], b)
      else case load_sampler_weights p b of
             (Inl e, b') \<Rightarrow> (Inl e, b')
           | (Inr adapters, b') \<Rightarrow>
               (let ids = map prompt_ids (ps_model_inputs p);
                    max_batch = (if jc_sample_max_num_sequences cfg > 0 then nat (jc_sample_max_num_sequences cfg)
                                 else length ids);
                    outs = concat (map (run_sample_batch nm (ps_needs_prompt_logprobs p) max_batch b')
                             (chunks max_batch (zip ids (zip adapters (ps_sampling_params p)))));
                    all_lps = concat (map (\<lambda>(g, lp). case lp of None \<Rightarrow> [] | Some l \<Rightarrow> [l]) outs)
                in (Inr (dict_of_pairs (map (\<lambda>(rid, mid, s, e, want).
                        (rid, SampleOutput (map fst (cut (s, e) outs))
                           (if want \<and> all_lps \<noteq> [] then Some (all_lps ! s) else None))) (ps_slices p))), b')))"

section \<open>Checkpoints\<close>

definition jax_save_checkpoint ::
  "string \<Rightarrow> string \<Rightarrow> ('w, 'o, 'g) jax \<Rightarrow> (string, unit) result \<times> ('w, 'o, 'g) jax" where
  "jax_save_checkpoint path m b =
     (case (dict_get (jx_models b) m, dict_get (jx_optimizers b) m) of
        (Some md, Some opt) \<Rightarrow>
          (Inr (), b\<lparr>jx_training_files :=
             dict_put path (jx_weights b (mm_adapter_index md), opt, mm_lora_config md) (jx_training_files b)\<rparr>)
      | _ \<Rightarrow> (Inl (quoted m), b))"

definition jax_load_checkpoint ::
  "string \<Rightarrow> string \<Rightarrow> ('w, 'o, 'g) jax \<Rightarrow> (string, unit) result \<times> ('w, 'o, 'g) jax" where
  "jax_load_checkpoint path m b =
     (case (dict_get (jx_models b) m, dict_get (jx_optimizers b) m) of
        (Some md, Some opt) \<Rightarrow>
          (case dict_get (jx_training_files b) path of
             None \<Rightarrow> (Inl (''Training checkpoint not found in '' @ path), b)
           | Some (w, opt', lc) \<Rightarrow>
               if lora_rank (mm_lora_config md) \<noteq> lora_rank lc
               then (Inl (''Rank mismatch: checkpoint has rank '' @ str_of_int (lora_rank lc)
                      @ '', model configured with rank '' @ str_of_int (lora_rank (mm_lora_config md))), b)
               else (Inr (), b\<lparr>jx_weights := (jx_weights b)(mm_adapter_index md := w),
                              jx_optimizers := dict_put m opt' (jx_optimizers b)\<rparr>))
      | _ \<Rightarrow> (Inl (quoted m), b))"

definition jax_save_sampler_checkpoint ::
  "string \<Rightarrow> string \<Rightarrow> bool \<Rightarrow> ('w, 'o, 'g) jax \<Rightarrow> (string, unit) result \<times> ('w, 'o, 'g) jax" where
  "jax_save_sampler_checkpoint path m persist b =
     (case dict_get (jx_models b) m of
        None \<Rightarrow> (Inl (quoted m), b)
      | Some md \<Rightarrow>
          (Inr (), b\<lparr>jx_sampler_files := dict_put path (jx_weights b (mm_adapter_index md)) (jx_sampler_files b)\<rparr>))"

definition jax_ops ::
  "('w, 'o, 'g::comm_monoid_add) numerics \<Rightarrow> jax_config \<Rightarrow> ('w, 'o, 'g) jax backend_ops" where
  "jax_ops nm cfg =
     \<lparr>op_has_model = jax_has_model,
      op_create_model = jax_create_model nm cfg,
      op_delete_model = jax_delete_model nm,
      op_optim_step = jax_optim_step nm,
      op_forward_backward = jax_model_pass nm cfg True,
      op_forward = jax_model_pass nm cfg False,
      op_sample = jax_sample nm cfg,
      op_load_checkpoint = jax_load_checkpoint,
      op_save_checkpoint = jax_save_checkpoint,
      op_save_sampler_checkpoint = jax_save_sampler_checkpoint\<rparr>"

section \<open>Padding lemmas\<close>

lemma length_pad: "length (pad xs n f) = max n (length xs)"
  by (simp add: pad_def)

lemma pad_batch_ok:
  "(\<forall>s\<in>set ss. length s \<le> n) \<Longrightarrow> pad_batch z n ss = Inr (map (\<lambda>s. pad s n z) ss)"
  by (induction ss) auto

lemma pad_batch_length: "pad_batch z n ss = Inr r \<Longrightarrow> length r = length ss"
  by (induction ss arbitrary: r) (auto split: if_splits sum.splits)

lemma bit_length_bounds:
  assumes "0 < n"
  shows "2 ^ (bit_length n - 1) \<le> n \<and> n < 2 ^ bit_length n \<and> 0 < bit_length n"
  using assms
proof (induction n rule: bit_length.induct)
  case (1 n)
  show ?case
  proof (cases "n div 2 = 0")
    case True
    then have "n = 1" using "1.prems" by auto
    then show ?thesis by (simp add: bit_length.simps [of "Suc 0"] bit_length.simps [of 0])
  next
    case False
    with "1.IH" "1.prems" have ih: "2 ^ (bit_length (n div 2) - 1) \<le> n div 2"
      "n div 2 < 2 ^ bit_length (n div 2)" "0 < bit_length (n div 2)" by auto
    have e: "bit_length n = Suc (bit_length (n div 2))"
      using "1.prems" by (subst bit_length.simps) simp
    from ih(3) obtain k where k: "bit_length (n div 2) = Suc k" by (cases "bit_length (n div 2)") auto
    from ih k have "2 ^ Suc k \<le> n" "n < 2 ^ Suc (Suc k)" by auto
    then show ?thesis by (simp add: e k)
  qed
qed

lemma round_up_bounds:
  assumes "32 < n"
  defines "half \<equiv> 2 ^ (bit_length n - 2)"
  shows "n \<le> round_up_seq_len n \<and> round_up_seq_len n < n + half \<and> half dvd round_up_seq_len n \<and> 2 * half \<le> n"
proof -
  from bit_length_bounds [of n] assms(1) have b: "2 ^ (bit_length n - 1) \<le> n" "n < 2 ^ bit_length n" by auto
  have "6 \<le> bit_length n"
  proof (rule ccontr)
    assume "\<not> 6 \<le> bit_length n"
    then have "(2::nat) ^ bit_length n \<le> 2 ^ 5" by (intro power_increasing) auto
    with b(2) assms(1) show False by simp
  qed
  then have "bit_length n - 1 = Suc (bit_length n - 2)" by simp
  with b(1) have h2: "2 * half \<le> n" by (simp add: half_def)
  have half0: "0 < half" by (simp add: half_def)
  have r: "round_up_seq_len n = (if n mod half \<noteq> 0 then n - n mod half + half else n)"
    using assms(1) half0 by (simp add: round_up_seq_len_def Let_def half_def numeral_2_eq_2)
  have d: "half dvd n - n mod half" by (simp add: minus_mod_eq_mult_div)
  show ?thesis
  proof (cases "n mod half = 0")
    case True
    then show ?thesis using r half0 h2 by (auto simp: mod_eq_0_iff_dvd)
  next
    case False
    moreover have "n mod half < half" using half0 by simp
    moreover have "n mod half \<le> n" by simp
    moreover have e: "round_up_seq_len n = n - n mod half + half" using r False by simp
    moreover have "half dvd round_up_seq_len n" unfolding e by (intro dvd_add d dvd_refl)
    ultimately show ?thesis using h2 by linarith
  qed
qed

section \<open>Chunks\<close>

lemma concat_chunks [simp]: "concat (chunks n xs) = xs"
proof (induction n xs rule: chunks.induct)
  case (1 n xs)
  show ?case
  proof (cases "xs = [] \<or> n = 0")
    case True
    then show ?thesis by (subst chunks.simps) auto
  next
    case False
    with 1 show ?thesis by (subst chunks.simps) simp
  qed
qed

lemma accumulate_append:
  "accumulate_rows nm ys (accumulate_rows nm xs b) = accumulate_rows nm (xs @ ys) b"
  by (simp add: accumulate_rows_def add.assoc)

lemma accumulate_nil [simp]: "accumulate_rows nm [] b = b"
  by (simp add: accumulate_rows_def)

lemma accumulate_weights [simp]:
  "jx_weights (accumulate_rows nm xs b) = jx_weights b"
  "jx_models (accumulate_rows nm xs b) = jx_models b"
  "jx_optimizers (accumulate_rows nm xs b) = jx_optimizers b"
  by (simp_all add: accumulate_rows_def)

text \<open>Outside the base slot the padding contributes nothing.\<close>

lemma filter_padding:
  "a \<noteq> 0 \<Longrightarrow> filter (\<lambda>r. pr_adapter_index r = a) (pad_to_fsdp (pad_row n) mb k) =
     filter (\<lambda>r. pr_adapter_index r = a) mb"
  by (simp add: pad_to_fsdp_def pad_row_def)

definition row_output :: "('w, 'o, 'g) numerics \<Rightarrow> (nat \<Rightarrow> 'w) \<Rightarrow> pass_row \<Rightarrow> real list \<times> real list" where
  "row_output nm w r = (nm_row_losses nm (w (pr_adapter_index r)) r, nm_row_logprobs nm (w (pr_adapter_index r)) r)"

lemma run_micro_batch_fold:
  fixes b :: "('w, 'o, 'g::comm_monoid_add) jax"
  assumes res_def: "res = fold (run_micro_batch nm backward k n) mbs (outs, b)"
  shows "fst res = outs @ map (row_output nm (jx_weights b)) (concat mbs)"
    and "jx_weights (snd res) = jx_weights b" "jx_models (snd res) = jx_models b"
    and "jx_optimizers (snd res) = jx_optimizers b"
    and "a \<noteq> 0 \<Longrightarrow> jx_counts (snd res) a =
      (if backward then jx_counts (accumulate_rows nm (concat mbs) b) a else jx_counts b a)"
    and "a \<noteq> 0 \<Longrightarrow> jx_grad_sum (snd res) a =
      (if backward then jx_grad_sum (accumulate_rows nm (concat mbs) b) a else jx_grad_sum b a)"
    and "\<not> backward \<Longrightarrow> snd res = b"
proof -
  have step: "run_micro_batch nm bw k n mb (os, c) =
      (os @ map (row_output nm (jx_weights c)) mb,
       if bw then accumulate_rows nm (pad_to_fsdp (pad_row n) mb k) c else c)" for bw mb os and c :: "('w, 'o, 'g) jax"
    by (simp add: run_micro_batch_def Let_def row_output_def pad_to_fsdp_def)
  have all: "fst (fold (run_micro_batch nm backward k n) mbs (os, c)) = os @ map (row_output nm (jx_weights c)) (concat mbs) \<and>
      jx_weights (snd (fold (run_micro_batch nm backward k n) mbs (os, c))) = jx_weights c \<and>
      jx_models (snd (fold (run_micro_batch nm backward k n) mbs (os, c))) = jx_models c \<and>
      jx_optimizers (snd (fold (run_micro_batch nm backward k n) mbs (os, c))) = jx_optimizers c \<and>
      (\<not> backward \<longrightarrow> snd (fold (run_micro_batch nm backward k n) mbs (os, c)) = c)" for os and c :: "('w, 'o, 'g) jax"
    by (induction mbs arbitrary: os c) (simp_all add: step)
  have acc: "jx_counts (snd (fold (run_micro_batch nm True k n) mbs (os, c))) a = jx_counts (accumulate_rows nm (concat mbs) c) a \<and>
      jx_grad_sum (snd (fold (run_micro_batch nm True k n) mbs (os, c))) a = jx_grad_sum (accumulate_rows nm (concat mbs) c) a"
    if "a \<noteq> 0" for a os and c :: "('w, 'o, 'g) jax"
  proof (induction mbs arbitrary: os c)
    case (Cons mb mbs)
    have st: "run_micro_batch nm True k n mb (os, c) =
      (os @ map (row_output nm (jx_weights c)) mb, accumulate_rows nm (pad_to_fsdp (pad_row n) mb k) c)"
      by (simp add: run_micro_batch_def Let_def row_output_def pad_to_fsdp_def)
    from Cons.IH [of "os @ map (row_output nm (jx_weights c)) mb" "accumulate_rows nm (pad_to_fsdp (pad_row n) mb k) c"]
    show ?case by (simp add: st accumulate_rows_def add.assoc filter_padding [OF that])
  qed simp
  show "fst res = outs @ map (row_output nm (jx_weights b)) (concat mbs)"
    "jx_weights (snd res) = jx_weights b" "jx_models (snd res) = jx_models b"
    "jx_optimizers (snd res) = jx_optimizers b" "\<not> backward \<Longrightarrow> snd res = b"
    using all [of outs b] by (auto simp: res_def)
  show "a \<noteq> 0 \<Longrightarrow> jx_counts (snd res) a =
      (if backward then jx_counts (accumulate_rows nm (concat mbs) b) a else jx_counts b a)"
    "a \<noteq> 0 \<Longrightarrow> jx_grad_sum (snd res) a =
      (if backward then jx_grad_sum (accumulate_rows nm (concat mbs) b) a else jx_grad_sum b a)"
    using acc [of a outs b] all [of outs b] by (cases backward; auto simp: res_def)+
qed

section \<open>Slots\<close>

definition slot_of :: "('w, 'o, 'g) jax \<Rightarrow> string \<Rightarrow> nat option" where
  "slot_of b m = map_option mm_adapter_index (dict_get (jx_models b) m)"

definition jax_inv :: "jax_config \<Rightarrow> ('w, 'o, 'g) jax \<Rightarrow> bool" where
  "jax_inv cfg b \<longleftrightarrow>
     dict_wf (jx_models b) \<and> dict_wf (jx_optimizers b) \<and>
     fst ` set (jx_models b) = fst ` set (jx_optimizers b) \<and>
     (\<forall>m i. slot_of b m = Some i \<longrightarrow> 1 \<le> i \<and> i < jc_max_lora_adapters cfg) \<and>
     (\<forall>m1 m2 i. slot_of b m1 = Some i \<longrightarrow> slot_of b m2 = Some i \<longrightarrow> m1 = m2)"

lemma used_indices_slot: "slot_of b m = Some i \<Longrightarrow> i \<in> set (used_indices b)"
  unfolding used_indices_def slot_of_def by (force dest: map_of_SomeD)

lemma fst_set_dict_put: "fst ` set (dict_put k v d) = insert k (fst ` set d)"
  using arg_cong [OF update_keys [of k v d], of set] by (auto split: if_splits)

lemma fst_set_dict_del: "fst ` set (dict_del k d) = fst ` set d - {k}"
  by (simp add: dom_map_of_conv_image_fst [symmetric] delete_conv')

lemma jax_inv_create:
  assumes "jax_inv cfg b" "jax_create_model nm cfg m lc role b = (r, b')"
  shows "jax_inv cfg b'"
proof (cases "b' = b")
  case False
  with assms(2) obtain idx rest where idx: "available_indices cfg b = idx # rest"
    and b': "b' = b\<lparr>jx_models := dict_put m \<lparr>mm_adapter_index = idx, mm_lora_config = lc,
                                mm_loaded_checkpoint_id = None\<rparr> (jx_models b),
                              jx_optimizers := dict_put m (nm_init_optimizer nm) (jx_optimizers b),
                              jx_weights := (jx_weights b)(idx := nm_init_adapter nm lc)\<rparr>"
    by (auto simp: jax_create_model_def split: if_splits list.splits)
  from idx have "idx \<in> set (available_indices cfg b)" by simp
  then have free: "idx \<notin> set (used_indices b)" "1 \<le> idx" "idx < jc_max_lora_adapters cfg"
    by (auto simp: available_indices_def)
  have slots: "slot_of b' x = (if x = m then Some idx else slot_of b x)" for x
    by (simp add: slot_of_def b' dict_simps)
  have fresh: "slot_of b x \<noteq> Some idx" for x using free(1) used_indices_slot by blast
  have keys: "fst ` set (jx_models b') = fst ` set (jx_optimizers b')"
    using assms(1) unfolding b' by (simp add: fst_set_dict_put jax_inv_def)
  have "dict_wf (jx_models b')" "dict_wf (jx_optimizers b')" using assms(1) by (simp_all add: b' jax_inv_def)
  then show ?thesis using assms(1) free fresh keys unfolding jax_inv_def slots by (metis option.inject)
qed (use assms in simp)

lemma jax_inv_delete:
  assumes "jax_inv cfg b" "jax_delete_model nm m b = (r, b')"
  shows "jax_inv cfg b'"
proof (cases "dict_get (jx_models b) m")
  case (Some md)
  with assms(2) have "b' = b\<lparr>jx_weights := (jx_weights b)(mm_adapter_index md := nm_clear_adapter nm),
      jx_optimizers := dict_del m (jx_optimizers b), jx_models := dict_del m (jx_models b)\<rparr>"
    by (simp add: jax_delete_model_def)
  moreover from this have "slot_of b' x = (if x = m then None else slot_of b x)" for x
    by (simp add: slot_of_def dict_simps)
  moreover have "fst ` set (dict_del m (jx_models b)) = fst ` set (dict_del m (jx_optimizers b))"
    using assms(1) by (simp only: fst_set_dict_del jax_inv_def)
  ultimately show ?thesis using assms(1) unfolding jax_inv_def by (simp add: jax_inv_def)
qed (use assms in \<open>simp add: jax_delete_model_def\<close>)

lemma jax_inv_models:
  assumes "jax_inv cfg b" "jx_models b' = jx_models b" "fst ` set (jx_optimizers b') = fst ` set (jx_optimizers b)"
    "dict_wf (jx_optimizers b')"
  shows "jax_inv cfg b'"
  using assms by (simp add: jax_inv_def slot_of_def)

section \<open>The contract holds\<close>

lemma jax_has_iff: "jax_has_model b m \<longleftrightarrow> m \<in> fst ` set (jx_models b)"
  by (simp add: jax_has_model_def dict_has_iff)

lemma create_has:
  assumes "jax_create_model nm cfg m lc role b = (r, b')"
  shows "jax_has_model b' x = (jax_has_model b x \<or> is_ok r \<and> x = m)"
  using assms
  by (auto simp: jax_create_model_def jax_has_model_def dict_has_def dict_simps split: if_splits list.splits)

lemma delete_has:
  assumes "jax_has_model b m" "jax_delete_model nm m b = (r, b')"
  shows "is_ok r \<and> jax_has_model b' x = (jax_has_model b x \<and> x \<noteq> m)"
  using assms
  by (auto simp: jax_delete_model_def jax_has_model_def dict_has_def dict_simps split: option.splits if_splits)

lemma has_models_eq: "fst ` set (jx_models b') = fst ` set (jx_models b) \<Longrightarrow> jax_has_model b' = jax_has_model b"
  by (rule ext) (simp add: jax_has_iff)

lemma optim_step_keeps:
  assumes "jax_inv cfg b" "jax_optim_step nm m adam b = (r, b')"
  shows "jax_inv cfg b' \<and> jax_has_model b' = jax_has_model b"
proof (cases "b' = b")
  case False
  with assms(2) obtain md opt opt' where g: "dict_get (jx_models b) m = Some md" "dict_get (jx_optimizers b) m = Some opt"
    and b': "jx_models b' = jx_models b" "jx_optimizers b' = dict_put m opt' (jx_optimizers b)"
    by (auto simp: jax_optim_step_def Let_def split: option.splits prod.splits)
  have "m \<in> fst ` set (jx_optimizers b)" using g(2) by (metis map_of_eq_None_iff option.distinct(1))
  then have "fst ` set (jx_optimizers b') = fst ` set (jx_optimizers b)" by (auto simp: b' fst_set_dict_put)
  moreover have "dict_wf (jx_optimizers b')" using assms(1) by (simp add: b' jax_inv_def)
  ultimately show ?thesis using jax_inv_models [OF assms(1) b'(1)] has_models_eq [of b' b] b'(1) by simp
qed (use assms in simp)

lemma load_checkpoint_keeps:
  assumes "jax_inv cfg b" "jax_load_checkpoint p m b = (r, b')"
  shows "jax_inv cfg b' \<and> jax_has_model b' = jax_has_model b"
proof (cases "b' = b")
  case False
  with assms(2) obtain opt opt' where g: "dict_get (jx_optimizers b) m = Some opt"
    and b': "jx_models b' = jx_models b" "jx_optimizers b' = dict_put m opt' (jx_optimizers b)"
    by (auto simp: jax_load_checkpoint_def split: option.splits prod.splits if_splits)
  have "m \<in> fst ` set (jx_optimizers b)" using g by (metis map_of_eq_None_iff option.distinct(1))
  then have "fst ` set (jx_optimizers b') = fst ` set (jx_optimizers b)" by (auto simp: b' fst_set_dict_put)
  moreover have "dict_wf (jx_optimizers b')" using assms(1) by (simp add: b' jax_inv_def)
  ultimately show ?thesis using jax_inv_models [OF assms(1) b'(1)] has_models_eq [of b' b] b'(1) by simp
qed (use assms in simp)

lemma same_models_keeps:
  "jax_inv cfg b \<Longrightarrow> jx_models b' = jx_models b \<Longrightarrow> jx_optimizers b' = jx_optimizers b \<Longrightarrow>
   jax_inv cfg b' \<and> jax_has_model b' = jax_has_model b"
  by (simp add: jax_inv_def has_models_eq slot_of_def)

lemma save_keeps:
  assumes "jax_inv cfg b" "jax_save_checkpoint p m b = (r, b')"
  shows "jax_inv cfg b' \<and> jax_has_model b' = jax_has_model b"
proof -
  from assms(2) have "jx_models b' = jx_models b" "jx_optimizers b' = jx_optimizers b"
    by (auto simp: jax_save_checkpoint_def split: option.splits)
  with assms(1) show ?thesis by (rule same_models_keeps)
qed

lemma save_sampler_keeps:
  assumes "jax_inv cfg b" "jax_save_sampler_checkpoint p m k b = (r, b')"
  shows "jax_inv cfg b' \<and> jax_has_model b' = jax_has_model b"
proof -
  from assms(2) have "jx_models b' = jx_models b" "jx_optimizers b' = jx_optimizers b"
    by (auto simp: jax_save_sampler_checkpoint_def split: option.splits)
  with assms(1) show ?thesis by (rule same_models_keeps)
qed

lemma load_sampler_keeps:
  assumes "jax_inv cfg b" "load_sampler_checkpoint m ckpt p b = (r, b')"
  shows "jax_inv cfg b' \<and> jax_has_model b' = jax_has_model b \<and> slot_of b' = slot_of b"
proof (cases "b' = b")
  case False
  with assms(2) obtain md w where g: "dict_get (jx_models b) m = Some md"
    and b': "b' = b\<lparr>jx_weights := (jx_weights b)(mm_adapter_index md := w),
                     jx_models := dict_put m (md\<lparr>mm_loaded_checkpoint_id := Some ckpt\<rparr>) (jx_models b)\<rparr>"
    by (auto simp: load_sampler_checkpoint_def split: option.splits)
  have "m \<in> fst ` set (jx_models b)" using g by (metis map_of_eq_None_iff option.distinct(1))
  then have keys: "fst ` set (jx_models b') = fst ` set (jx_models b)"
    unfolding b' by (simp add: fst_set_dict_put insert_absorb)
  have slots: "slot_of b' = slot_of b"
    using g by (intro ext) (simp add: slot_of_def b' dict_simps)
  have "dict_wf (jx_models b')" "jx_optimizers b' = jx_optimizers b"
    using assms(1) by (simp_all add: b' jax_inv_def)
  then have "jax_inv cfg b'" using assms(1) keys slots unfolding jax_inv_def by simp
  with has_models_eq [OF keys] slots show ?thesis by simp
qed (use assms in simp)

text \<open>The outcome of one entry of a sample batch: stop with an error, or a slot, the loaded slots
  and the backend to go on with.\<close>

definition load_sampler_one ::
  "string option \<times> string \<times> string \<Rightarrow> nat list \<Rightarrow> ('w, 'o, 'g) jax
   \<Rightarrow> (string, nat \<times> nat list) result \<times> ('w, 'o, 'g) jax" where
  "load_sampler_one q loaded b =
     (case q of (mid, ckpt, path) \<Rightarrow>
      if \<not> truthy mid then (Inr (0, loaded), b)
      else if ckpt = [] then (Inl ''checkpoint_id must be not empty'', b)
      else case dict_get (jx_models b) (the mid) of
             None \<Rightarrow> (Inl (quoted (the mid)), b)
           | Some md \<Rightarrow>
               if mm_loaded_checkpoint_id md = Some ckpt then (Inr (mm_adapter_index md, mm_adapter_index md # loaded), b)
               else if mm_adapter_index md \<in> set loaded then (Inl ''Cannot override already used adapter'', b)
               else case load_sampler_checkpoint (the mid) ckpt path b of
                      (Inl e, b') \<Rightarrow> (Inl e, b')
                    | (Inr _, b') \<Rightarrow> (Inr (mm_adapter_index md, mm_adapter_index md # loaded), b'))"

lemma load_sampler_loop_Cons:
  "load_sampler_loop (q # rest) loaded b =
     (case load_sampler_one q loaded b of
        (Inl e, b') \<Rightarrow> (Inl e, b')
      | (Inr (i, loaded'), b') \<Rightarrow>
          (case load_sampler_loop rest loaded' b' of
             (Inr is, b2) \<Rightarrow> (Inr (i # is), b2) | (Inl e, b2) \<Rightarrow> (Inl e, b2)))"
  by (cases q) (simp add: load_sampler_one_def Let_def split: option.split prod.split sum.split)

lemma load_sampler_one_keeps:
  assumes "jax_inv cfg b" "load_sampler_one q loaded b = (r, b')"
  shows "jax_inv cfg b' \<and> jax_has_model b' = jax_has_model b \<and> slot_of b' = slot_of b"
proof -
  from assms(2) have "b' = b \<or> (\<exists>m ckpt p r1. load_sampler_checkpoint m ckpt p b = (r1, b'))"
    by (auto simp: load_sampler_one_def split: prod.splits if_splits option.splits sum.splits)
  with load_sampler_keeps [OF assms(1)] assms(1) show ?thesis by blast
qed

lemma load_sampler_loop_keeps:
  "jax_inv cfg b \<Longrightarrow> load_sampler_loop qs loaded b = (r, b') \<Longrightarrow>
   jax_inv cfg b' \<and> jax_has_model b' = jax_has_model b \<and> (\<forall>is. r = Inr is \<longrightarrow> length is = length qs)"
proof (induction qs arbitrary: loaded b r)
  case (Cons q qs)
  obtain r1 b1 where one: "load_sampler_one q loaded b = (r1, b1)" by force
  note k = load_sampler_one_keeps [OF Cons.prems(1) one]
  show ?case
  proof (cases r1)
    case (Inl e)
    with Cons.prems(2) one k show ?thesis by (auto simp: load_sampler_loop_Cons simp del: load_sampler_loop.simps)
  next
    case (Inr il)
    obtain i loaded' where il: "il = (i, loaded')" by force
    obtain r2 b2 where rest: "load_sampler_loop qs loaded' b1 = (r2, b2)" by force
    have "b2 = b'" "r = (case r2 of Inr is \<Rightarrow> Inr (i # is) | Inl e \<Rightarrow> Inl e)"
      using Cons.prems(2) one rest
      by (auto simp: load_sampler_loop_Cons Inr il simp del: load_sampler_loop.simps split: sum.splits)
    with Cons.IH [of b1 loaded' r2] k rest show ?thesis by (cases r2) auto
  qed
qed simp

lemma set_fst_of_pairs: "fst ` set (dict_of_pairs ps) = fst ` set ps"
  by (simp add: dict_of_pairs_def set_fst_dict_update)

lemma model_pass_keeps:
  assumes "jax_inv cfg b" "jax_model_pass nm jc bw q b = (r, b')"
  shows "jax_inv cfg b' \<and> jax_has_model b' = jax_has_model b \<and>
    (\<forall>rs. r = Inr rs \<longrightarrow> mp_model_inputs q \<noteq> [] \<longrightarrow> fst ` set rs = fst ` set (mp_slices q))"
proof (cases "b' = b \<and> (\<forall>rs. r = Inr rs \<longrightarrow> mp_model_inputs q = [])")
  case False
  with assms(2) obtain rows n k mbs outs where b': "b' = snd (fold (run_micro_batch nm bw k n) mbs ([], b))"
    and r: "r = Inr (dict_of_pairs (map (\<lambda>(rid, mid, s, e). (rid, pass_result (cut (s, e) outs))) (mp_slices q)))"
    by (auto simp: jax_model_pass_def Let_def split: if_splits option.splits sum.splits)
  note f = run_micro_batch_fold(3,4) [OF refl, of nm bw k n mbs "[]" b, folded b']
  have "fst ` set (map (\<lambda>(rid, mid, s, e). (rid, pass_result (cut (s, e) outs))) (mp_slices q)) = fst ` set (mp_slices q)"
    by force
  with same_models_keeps [OF assms(1) f] show ?thesis
    by (simp add: r set_fst_of_pairs del: set_map)
qed (use assms in auto)

lemma sample_keeps:
  assumes "jax_inv cfg b" "jax_sample nm jc q b = (r, b')"
  shows "jax_inv cfg b' \<and> jax_has_model b' = jax_has_model b \<and>
    (\<forall>rs. r = Inr rs \<longrightarrow> ps_model_inputs q \<noteq> [] \<longrightarrow> fst ` set rs = fst ` set (ps_slices q))"
proof (cases "ps_model_inputs q = []")
  case False
  obtain r1 b1 where ld: "load_sampler_weights q b = (r1, b1)" by force
  note k = load_sampler_loop_keeps [OF assms(1) ld [unfolded load_sampler_weights_def]]
  show ?thesis
  proof (cases r1)
    case (Inl e)
    with assms(2) False ld k show ?thesis by (auto simp: jax_sample_def)
  next
    case (Inr ads)
    with assms(2) False ld obtain h where "b' = b1"
      and r: "r = Inr (dict_of_pairs (map (\<lambda>(rid, mid, s, e, want). (rid, h s e want)) (ps_slices q)))"
      by (auto simp: jax_sample_def Let_def)
    have "fst ` set (map (\<lambda>(rid, mid, s, e, want). (rid, h s e want)) (ps_slices q)) = fst ` set (ps_slices q)"
      by force
    with k \<open>b' = b1\<close> show ?thesis by (simp add: r set_fst_of_pairs del: set_map)
  qed
qed (use assms in \<open>simp add: jax_sample_def\<close>)

interpretation jax: backend_contract "jax_ops nm cfg" "jax_inv cfg" for nm :: "('w, 'o, 'g::comm_monoid_add) numerics" and cfg
proof (unfold_locales, unfold jax_ops_def backend_ops.simps)
  fix b b' :: "('w, 'o, 'g) jax" and m lc role r r1 r2 r3 a p k q s
  assume i: "jax_inv cfg b"
  show "jax_create_model nm cfg m lc role b = (r, b') \<Longrightarrow>
      jax_inv cfg b' \<and> (\<forall>x. jax_has_model b' x = (jax_has_model b x \<or> is_ok r \<and> x = m))"
    using jax_inv_create [OF i] create_has by blast
  show "jax_has_model b m \<Longrightarrow> jax_delete_model nm m b = (r, b') \<Longrightarrow>
      is_ok r \<and> jax_inv cfg b' \<and> (\<forall>x. jax_has_model b' x = (jax_has_model b x \<and> x \<noteq> m))"
    using jax_inv_delete [OF i] delete_has by blast
  show "jax_optim_step nm m a b = (r1, b') \<Longrightarrow> jax_inv cfg b' \<and> jax_has_model b' = jax_has_model b"
    by (rule optim_step_keeps [OF i])
  show "jax_load_checkpoint p m b = (r2, b') \<Longrightarrow> jax_inv cfg b' \<and> jax_has_model b' = jax_has_model b"
    by (rule load_checkpoint_keeps [OF i])
  show "jax_save_checkpoint p m b = (r2, b') \<Longrightarrow> jax_inv cfg b' \<and> jax_has_model b' = jax_has_model b"
    by (rule save_keeps [OF i])
  show "jax_save_sampler_checkpoint p m k b = (r2, b') \<Longrightarrow> jax_inv cfg b' \<and> jax_has_model b' = jax_has_model b"
    by (rule save_sampler_keeps [OF i])
  show "jax_model_pass nm cfg True q b = (r3, b') \<Longrightarrow> jax_inv cfg b' \<and> jax_has_model b' = jax_has_model b \<and>
      (\<forall>rs. r3 = Inr rs \<longrightarrow> mp_model_inputs q \<noteq> [] \<longrightarrow> fst ` set rs = fst ` set (mp_slices q))"
    by (rule model_pass_keeps [OF i])
  show "jax_model_pass nm cfg False q b = (r3, b') \<Longrightarrow> jax_inv cfg b' \<and> jax_has_model b' = jax_has_model b \<and>
      (\<forall>rs. r3 = Inr rs \<longrightarrow> mp_model_inputs q \<noteq> [] \<longrightarrow> fst ` set rs = fst ` set (mp_slices q))"
    by (rule model_pass_keeps [OF i])
  show "jax_sample nm cfg s b = (r3, b') \<Longrightarrow> jax_inv cfg b' \<and> jax_has_model b' = jax_has_model b \<and>
      (\<forall>rs. r3 = Inr rs \<longrightarrow> ps_model_inputs s \<noteq> [] \<longrightarrow> fst ` set rs = fst ` set (ps_slices s))"
    by (rule sample_keeps [OF i])
qed

section \<open>Polls and the database between them\<close>

text \<open>Between polls other processes change the database; the backend changes only in a poll.\<close>

inductive engine_step ::
  "'b backend_ops \<Rightarrow> engine_config \<Rightarrow> 'b engine \<Rightarrow> 'b engine \<Rightarrow> bool" for ops cfg where
  poll: "process_pending_requests ops cfg now st = Some st' \<Longrightarrow> engine_step ops cfg st st'"
| outside: "en_backend st' = en_backend st \<Longrightarrow> engine_step ops cfg st st'"

inductive_cases engine_stepE: "engine_step ops cfg st st'"

lemma find_those_None: "those xs = None \<longleftrightarrow> None \<in> set xs"
  by (induction xs) (auto split: option.splits)

text \<open>A poll keeps the backend's invariant whatever the queue holds.\<close>

context backend_contract
begin

lemma poll_inv:
  assumes inv: "inv (en_backend st)" and run: "process_pending_requests ops cfg now st = Some st'"
  shows "inv (en_backend st')"
proof -
  from run obtain fb fw smp where st': "st' = maybe_cleanup ops cfg now (process_single_requests ops cfg now
        (find_single_requests (db_futures (en_db st)))
        (process_batch_requests ops cfg now Some (process_sample ops cfg) smp
          (process_batch_requests ops cfg now (\<lambda>_. None) (process_forward ops) fw
            (process_batch_requests ops cfg now (\<lambda>_. None) (process_forward_backward ops) fb st))))"
    by (auto simp: process_pending_requests_def Let_def split: option.splits)
  have fbi: "inv (en_backend (process_batch_requests ops cfg now (\<lambda>_. None) (process_forward_backward ops) fb st))"
    by (rule inv_batch [OF inv]) (rule inv_processors(1) [OF inv])
  have fwi: "inv (en_backend (process_batch_requests ops cfg now (\<lambda>_. None) (process_forward ops) r s))"
    if "inv (en_backend s)" for r s
    by (rule inv_batch [OF that]) (rule inv_processors(2) [OF that])
  have smi: "inv (en_backend (process_batch_requests ops cfg now Some (process_sample ops cfg) r s))"
    if "inv (en_backend s)" for r s
    by (rule inv_batch [OF that]) (rule inv_processors(3) [OF that])
  note i4 = inv_singles [OF smi [OF fwi [OF fbi]]]
  show ?thesis unfolding st' maybe_cleanup_def using inv_cleanup [OF i4] i4 by simp
qed

lemma reachable_inv: "(engine_step ops cfg)\<^sup>*\<^sup>* st st' \<Longrightarrow> inv (en_backend st) \<Longrightarrow> inv (en_backend st')"
  by (induction rule: rtranclp_induct) (auto elim!: engine_stepE intro: poll_inv)

end

definition jax_empty :: "('w, 'o, 'g::zero) numerics \<Rightarrow> ('w, 'o, 'g) jax" where
  "jax_empty nm = \<lparr>jx_models = [], jx_optimizers = [], jx_weights = (\<lambda>_. nm_clear_adapter nm),
     jx_grad_sum = (\<lambda>_. 0), jx_counts = (\<lambda>_. 0), jx_sampler_files = [], jx_training_files = []\<rparr>"

lemma jax_inv_empty: "jax_inv cfg (jax_empty nm)"
  by (simp add: jax_inv_def jax_empty_def slot_of_def)

text \<open>A concrete numerics for the examples: weights and gradients are numbers.\<close>

definition ex_nm :: "(int, unit, int) numerics" where
  "ex_nm = \<lparr>nm_row_losses = (\<lambda>w r. pr_loss_mask r), nm_row_logprobs = (\<lambda>w r. pr_sampling_logprobs r),
     nm_row_grad = (\<lambda>w r. int (length (pr_input_ids r))), nm_mean = (\<lambda>g n. g div int n),
     nm_init_optimizer = (), nm_init_adapter = (\<lambda>lc. 1), nm_clear_adapter = 0,
     nm_update = (\<lambda>a opt w g. (opt, w + 1)), nm_grad_norm = (\<lambda>g. 0),
     nm_generate = (\<lambda>w i sp. \<lparr>gs_loss_mask = None, gs_thinking_budget = None, gs_served_by = None, gs_stop_reason = STOP_STOP, gs_tokens = [w], gs_logprobs = []\<rparr>),
     nm_prompt_logprobs = (\<lambda>w i. [])\<rparr>"

definition ex_jc :: jax_config where
  "ex_jc = \<lparr>jc_max_lora_adapters = 4, jc_max_lora_rank = 32, jc_train_micro_batch_size = 2,
     jc_sample_max_num_sequences = 0, jc_fsdp_size = 4\<rparr>"

definition ex_cfg :: engine_config where
  "ex_cfg = \<lparr>ec_base_model = ''base'', ec_backend = ''jax'', ec_sample_max_num_sequences = 0,
     ec_checkpoint_mirror_gcs = None, ec_checkpoints_base = ''/ckpt'', ec_session_cleanup_interval_sec = 60,
     ec_session_timeout_sec = 300, ec_join = (\<lambda>a b. a @ ''/'' @ b)\<rparr>"

definition ex_lora :: lora_config where
  "ex_lora = \<lparr>lora_rank = 8, lora_alpha = 1, lora_seed = 0, train_attn = True, train_mlp = True, train_unembed = False\<rparr>"

definition ex_engine :: "future_db list \<Rightarrow> (int, unit, int) jax engine" where
  "ex_engine futs = \<lparr>en_db = empty_db\<lparr>db_futures := futs\<rparr>, en_backend = jax_empty ex_nm, en_last_cleanup_time = 0\<rparr>"

section \<open>Properties\<close>


lemma ex_optim_poll:
  "process_pending_requests (jax_ops ex_nm ex_jc) ex_cfg 5 (ex_engine [ex_future 2 OPTIM_STEP ex_optim]) =
     Some (complete_futures 5 [(2, model_not_found_error ''m'')] (ex_engine [ex_future 2 OPTIM_STEP ex_optim]))"
  by (simp add: process_pending_requests_def ex_engine_def empty_db_def ex_future_def ex_optim_def
      find_batchable_model_passes_def batchable_passes_def pending_ordered_def find_batchable_sample_def
      limit_samples_def find_single_requests_def single_rows_def blocked_pass_barriers_def
      find_destructive_barriers_def before_barrier_def is_single_def is_pass_def destructive_def
      process_batch_requests_def process_single_requests_def process_single_request_def process_optim_step_def
      jax_ops_def jax_has_model_def dict_has_def jax_empty_def maybe_cleanup_def ex_cfg_def complete_futures_def)



definition ex_create :: "nat \<Rightarrow> string \<Rightarrow> future_db" where
  "ex_create n m = (ex_future n CREATE_MODEL (CreateModelInput \<lparr>cm_lora_config = ex_lora, cm_model_role = ''policy''\<rparr>))
     \<lparr>f_model_id := Some m\<rparr>"

definition ex_meta :: "nat \<Rightarrow> model_metadata" where
  "ex_meta i = \<lparr>mm_adapter_index = i, mm_lora_config = ex_lora, mm_loaded_checkpoint_id = None\<rparr>"

definition ex_one_model :: "(int, unit, int) jax" where
  "ex_one_model = (jax_empty ex_nm)\<lparr>jx_models := [(''a'', ex_meta 1)], jx_optimizers := [(''a'', ())],
     jx_weights := (\<lambda>_. 0)(1 := 1)\<rparr>"

definition ex_two_models :: "(int, unit, int) jax" where
  "ex_two_models = ex_one_model\<lparr>jx_models := [(''a'', ex_meta 1), (''b'', ex_meta 2)],
     jx_optimizers := [(''a'', ()), (''b'', ())], jx_weights := (\<lambda>_. 0)(1 := 1, 2 := 1)\<rparr>"

lemma ex_creates:
  "jax_create_model ex_nm ex_jc ''a'' ex_lora ''policy'' (jax_empty ex_nm) = (Inr (), ex_one_model)"
  "jax_create_model ex_nm ex_jc ''b'' ex_lora ''policy'' ex_one_model = (Inr (), ex_two_models)"
  by (simp_all add: jax_create_model_def jax_empty_def ex_one_model_def ex_two_models_def available_indices_def
      used_indices_def ex_jc_def ex_lora_def ex_nm_def ex_meta_def upt_rec numeral_2_eq_2)

lemma ex_two_polls:
  "\<exists>st. process_pending_requests (jax_ops ex_nm ex_jc) ex_cfg 5 (ex_engine [ex_create 1 ''a'', ex_create 2 ''b'']) = Some st
     \<and> en_backend st = ex_two_models"
  by (simp add: process_pending_requests_def ex_engine_def empty_db_def ex_create_def ex_future_def
      find_batchable_model_passes_def batchable_passes_def pending_ordered_def find_batchable_sample_def
      limit_samples_def find_single_requests_def single_rows_def blocked_pass_barriers_def
      find_destructive_barriers_def before_barrier_def is_single_def is_pass_def destructive_def
      process_batch_requests_def process_single_requests_def process_single_request_def process_create_model_def
      on_backend_def jax_ops_def maybe_cleanup_def ex_cfg_def complete_futures_def ex_creates)

lemma ex_two_models_get:
  "dict_get (jx_models ex_two_models) ''a'' = Some (ex_meta 1)"
  "dict_get (jx_models ex_two_models) ''b'' = Some (ex_meta 2)"
  by (simp_all add: ex_two_models_def)


text \<open>C24: the clean-up expires exactly the active sessions whose last heartbeat, or creation when
  none ever arrived, is older than the timeout; it unloads every model of those sessions that is not
  already unloaded, in the backend and in its row, and touches no other session, model or request.\<close>

theorem cleanup_frees_stale_sessions:
  fixes st :: "('w, 'o, 'g::comm_monoid_add) jax engine"
  assumes "jax_inv jc (en_backend st)" "cleanup_stale_sessions (jax_ops nm jc) cfg now st = (n, st')"
  shows "db_sessions (en_db st') = map (\<lambda>s. if se_session_id s \<in> se_session_id ` {s \<in> set (db_sessions (en_db st)).
        session_stale (now - ec_session_timeout_sec cfg * 1000000) s}
      then s\<lparr>se_status := ''expired''\<rparr> else s) (db_sessions (en_db st))
    \<and> db_models (en_db st') = map (\<lambda>r. if m_model_id r \<in> {m_model_id r | r. r \<in> set (db_models (en_db st)) \<and>
        m_status r \<noteq> ''unloaded'' \<and> m_session_id r \<in> se_session_id ` {s \<in> set (db_sessions (en_db st)).
          session_stale (now - ec_session_timeout_sec cfg * 1000000) s}}
      then r\<lparr>m_status := ''unloaded''\<rparr> else r) (db_models (en_db st))
    \<and> (\<forall>x. jax_has_model (en_backend st') x = (jax_has_model (en_backend st) x \<and>
        x \<notin> {m_model_id r | r. r \<in> set (db_models (en_db st)) \<and>
        m_status r \<noteq> ''unloaded'' \<and> m_session_id r \<in> se_session_id ` {s \<in> set (db_sessions (en_db st)).
          session_stale (now - ec_session_timeout_sec cfg * 1000000) s}}))
    \<and> db_futures (en_db st') = db_futures (en_db st)"
  using jax.cleanup_effect [OF assms] unfolding jax_ops_def backend_ops.simps .

definition ex_session :: "datetime option \<Rightarrow> session_db" where
  "ex_session hb = \<lparr>se_session_id = ''s'', se_tags = [], se_user_metadata = [], se_sdk_version = ''1'',
     se_status = ''active'', se_created_at = 0, se_last_heartbeat_at = hb, se_heartbeat_count = 0\<rparr>"

definition ex_stale :: "(int, unit, int) jax engine" where
  "ex_stale = \<lparr>en_db = empty_db\<lparr>db_sessions := [ex_session None]\<rparr>, en_backend = ex_one_model,
     en_last_cleanup_time = 0\<rparr>"

theorem cleanup_frees_stale_sessions_witness:
  "map se_status (db_sessions (en_db (snd (cleanup_stale_sessions (jax_ops ex_nm ex_jc) ex_cfg 300000001 ex_stale)))) = [''expired'']"
proof -
  have "jax_inv ex_jc (en_backend ex_stale)"
    by (auto simp: ex_stale_def jax_inv_def slot_of_def ex_one_model_def ex_meta_def ex_jc_def dict_wf_def split: if_splits)
  note c = cleanup_frees_stale_sessions [OF this, of ex_nm ex_cfg 300000001]
  have s: "db_sessions (en_db ex_stale) = [ex_session None]" by (simp add: ex_stale_def empty_db_def)
  have t: "session_stale (300000001 - ec_session_timeout_sec ex_cfg * 1000000) (ex_session None)"
    by (simp add: session_stale_def ex_session_def ex_cfg_def)
  obtain n st where r: "cleanup_stale_sessions (jax_ops ex_nm ex_jc) ex_cfg 300000001 ex_stale = (n, st)" by force
  from c [OF r] have "db_sessions (en_db st) = [(ex_session None)\<lparr>se_status := ''expired''\<rparr>]"
    using t by (simp add: s image_iff)
  with r show ?thesis by simp
qed

text \<open>C32: splitting a model pass into micro-batches and padding them to the mesh changes nothing
  that is visible: for any two settings the results agree and so do the gradient and the count
  accumulated in every adapter slot.\<close>

theorem micro_batching_invisible:
  fixes b :: "('w, 'o, 'g::comm_monoid_add) jax"
  assumes "a \<noteq> 0"
  shows "fst (jax_model_pass nm c1 bw p b) = fst (jax_model_pass nm c2 bw p b)
    \<and> jx_grad_sum (snd (jax_model_pass nm c1 bw p b)) a = jx_grad_sum (snd (jax_model_pass nm c2 bw p b)) a
    \<and> jx_counts (snd (jax_model_pass nm c1 bw p b)) a = jx_counts (snd (jax_model_pass nm c2 bw p b)) a"
proof -
  have outs: "fst (fold (run_micro_batch nm bw k n) (chunks m rows) ([], b)) =
      map (row_output nm (jx_weights b)) rows" for k m n rows
    using run_micro_batch_fold(1) [OF refl, of nm bw k n "chunks m rows" "[]" b] by simp
  have grads: "jx_grad_sum (snd (fold (run_micro_batch nm bw k n) (chunks m rows) ([], b))) a =
      (if bw then jx_grad_sum (accumulate_rows nm rows b) a else jx_grad_sum b a)" for k m n rows
    using run_micro_batch_fold(6) [OF refl assms, of nm bw k n "chunks m rows" "[]" b] by simp
  have counts: "jx_counts (snd (fold (run_micro_batch nm bw k n) (chunks m rows) ([], b))) a =
      (if bw then jx_counts (accumulate_rows nm rows b) a else jx_counts b a)" for k m n rows
    using run_micro_batch_fold(5) [OF refl assms, of nm bw k n "chunks m rows" "[]" b] by simp
  show ?thesis
    unfolding jax_model_pass_def Let_def
    by (auto simp: outs grads counts split: option.split sum.split)
qed

definition ex_datum :: datum where
  "ex_datum = \<lparr>d_loss_fn_inputs = \<lparr>target_tokens = [4, 5], li_weights = [1, 1], li_advantages = [1, 0],
     li_logprobs = [0, 0], li_values = [], li_returns = []\<rparr>, d_model_input = [EncodedTextChunk [3, 4]]\<rparr>"

definition ex_pass_batch :: prepared_model_pass_batch where
  "ex_pass_batch = model_pass_spec [(1, (Some ''a'', \<lparr>fb_data = [ex_datum, ex_datum, ex_datum],
     fb_loss_fn = ''ppo'', fb_loss_fn_config = None\<rparr>))]"

theorem micro_batching_invisible_witness:
  "jx_counts (snd (jax_model_pass ex_nm ex_jc True ex_pass_batch ex_one_model)) 1 =
   jx_counts (snd (jax_model_pass ex_nm (ex_jc\<lparr>jc_train_micro_batch_size := 7\<rparr>) True ex_pass_batch ex_one_model)) 1"
  using micro_batching_invisible [of 1 ex_nm ex_jc True ex_pass_batch ex_one_model
      "ex_jc\<lparr>jc_train_micro_batch_size := 7\<rparr>"] by simp

text \<open>The padded length is at least the sequence length, exceeds it by less than half of its
  leading power of two (so by less than a half), and is a multiple of that half, which leaves two
  compiled lengths per power of two.\<close>

theorem round_up_seq_len_tight:
  "n \<le> round_up_seq_len n \<and> 32 \<le> round_up_seq_len n \<and>
   (if n \<le> 32 then round_up_seq_len n = 32
    else 2 * (round_up_seq_len n - n) < n \<and> 2 ^ (bit_length n - 2) dvd round_up_seq_len n)"
proof (cases "32 < n")
  case True
  with round_up_bounds [OF True] show ?thesis by auto
qed (simp add: round_up_seq_len_def)

text \<open>A batch that asks for one checkpoint per model, of models that are loaded and checkpoints that
  exist.\<close>

definition loaded_checkpoint :: "('w, 'o, 'g) jax \<Rightarrow> string \<Rightarrow> string option" where
  "loaded_checkpoint b m = (case dict_get (jx_models b) m of None \<Rightarrow> None | Some md \<Rightarrow> mm_loaded_checkpoint_id md)"

definition sampler_ready :: "('w, 'o, 'g) jax \<Rightarrow> (string option \<times> string \<times> string) list \<Rightarrow> bool" where
  "sampler_ready b qs \<longleftrightarrow>
     (\<forall>(mid, c, p)\<in>set qs. truthy mid \<longrightarrow> c \<noteq> [] \<and> jax_has_model b (the mid) \<and> dict_has (jx_sampler_files b) p) \<and>
     (\<forall>(m1, c1, p1)\<in>set qs. \<forall>(m2, c2, p2)\<in>set qs. truthy m1 \<longrightarrow> m1 = m2 \<longrightarrow> c1 = c2)"

definition slots_served :: "('w, 'o, 'g) jax \<Rightarrow> (string option \<times> string \<times> string) list \<Rightarrow> nat list" where
  "slots_served b qs = map (\<lambda>(mid, c, p). if truthy mid then the (slot_of b (the mid)) else 0) qs"

definition used_agree :: "('w, 'o, 'g) jax \<Rightarrow> nat list \<Rightarrow> (string option \<times> string \<times> string) list \<Rightarrow> bool" where
  "used_agree b loaded qs \<longleftrightarrow>
     (\<forall>(mid, c, p)\<in>set qs. truthy mid \<longrightarrow> the (slot_of b (the mid)) \<in> set loaded \<longrightarrow>
        loaded_checkpoint b (the mid) = Some c)"

lemma truthy_Some: "truthy mid \<Longrightarrow> \<exists>m. mid = Some m"
  by (cases mid) (simp_all add: truthy_def)

lemma load_sampler_one_ok:
  assumes inv: "jax_inv jc b" and ready: "sampler_ready b (q # qs)" and used: "used_agree b loaded (q # qs)"
  shows "\<exists>loaded' b'. load_sampler_one q loaded b = (Inr (hd (slots_served b (q # qs)), loaded'), b') \<and>
    slot_of b' = slot_of b \<and> sampler_ready b' qs \<and> used_agree b' loaded' qs"
proof -
  obtain mid c p where q: "q = (mid, c, p)" by (cases q) auto
  show ?thesis
  proof (cases "truthy mid")
    case False
    then show ?thesis using ready used
      by (auto simp: q load_sampler_one_def slots_served_def sampler_ready_def used_agree_def)
  next
    case True
    then obtain m where m: "mid = Some m" using truthy_Some by blast
    from ready True have c: "c \<noteq> []" "jax_has_model b m" "dict_has (jx_sampler_files b) p"
      by (auto simp: sampler_ready_def q m)
    from c(2) obtain md where md: "dict_get (jx_models b) m = Some md" by (auto simp: jax_has_model_def dict_has_def)
    from c(3) obtain w where w: "dict_get (jx_sampler_files b) p = Some w" by (auto simp: dict_has_def)
    have slot: "slot_of b m = Some (mm_adapter_index md)" by (simp add: slot_of_def md)
    have same: "c' = c" if "(Some m, c', p') \<in> set qs" for c' p'
      using ready that True by (fastforce simp: sampler_ready_def q m)
    have others: "x = m" if "the (slot_of b x) = mm_adapter_index md" "jax_has_model b x" for x
    proof -
      from that(2) obtain d where "slot_of b x = Some d" by (auto simp: jax_has_model_def dict_has_def slot_of_def)
      with that(1) slot inv show ?thesis unfolding jax_inv_def by auto
    qed
    have ready': "sampler_ready b qs" using ready by (auto simp: sampler_ready_def)
    show ?thesis
    proof (cases "mm_loaded_checkpoint_id md = Some c")
      case cached: True
      have "used_agree b (mm_adapter_index md # loaded) qs"
        unfolding used_agree_def
      proof (clarify)
        fix mid' c' p' assume e: "(mid', c', p') \<in> set qs" "truthy mid'"
          "the (slot_of b (the mid')) \<in> set (mm_adapter_index md # loaded)"
        then obtain x where x: "mid' = Some x" using truthy_Some by blast
        show "loaded_checkpoint b (the mid') = Some c'"
        proof (cases "x = m")
          case True
          with e(1) x same cached md show ?thesis by (auto simp: loaded_checkpoint_def)
        next
          case False
          have "jax_has_model b x" using e(1,2) ready' x by (auto simp: sampler_ready_def)
          with False others x e(3) have "the (slot_of b x) \<in> set loaded" by auto
          with used e(1,2) x show ?thesis by (auto simp: used_agree_def)
        qed
      qed
      then show ?thesis using True c md cached ready' slot
        by (simp add: q m load_sampler_one_def slots_served_def)
    next
      case load: False
      have fresh: "mm_adapter_index md \<notin> set loaded"
      proof
        assume "mm_adapter_index md \<in> set loaded"
        with used True slot have "loaded_checkpoint b m = Some c" by (auto simp: used_agree_def q m)
        with load md show False by (simp add: loaded_checkpoint_def)
      qed
      define b1 where "b1 = b\<lparr>jx_weights := (jx_weights b)(mm_adapter_index md := w),
                     jx_models := dict_put m (md\<lparr>mm_loaded_checkpoint_id := Some c\<rparr>) (jx_models b)\<rparr>"
      have ld: "load_sampler_checkpoint m c p b = (Inr (), b1)"
        by (simp add: load_sampler_checkpoint_def md w b1_def)
      note keep = load_sampler_keeps [OF inv ld]
      have lc: "loaded_checkpoint b1 x = (if x = m then Some c else loaded_checkpoint b x)" for x
        by (simp add: loaded_checkpoint_def dict_simps b1_def)
      have files: "jx_sampler_files b1 = jx_sampler_files b" by (simp add: b1_def)
      have rdy: "sampler_ready b1 qs" using ready' keep files by (simp add: sampler_ready_def)
      have "used_agree b1 (mm_adapter_index md # loaded) qs"
        unfolding used_agree_def
      proof (clarify)
        fix mid' c' p' assume e: "(mid', c', p') \<in> set qs" "truthy mid'"
          "the (slot_of b1 (the mid')) \<in> set (mm_adapter_index md # loaded)"
        then obtain x where x: "mid' = Some x" using truthy_Some by blast
        show "loaded_checkpoint b1 (the mid') = Some c'"
        proof (cases "x = m")
          case True
          with e(1) x same show ?thesis by (auto simp: lc)
        next
          case False
          have "jax_has_model b x" using e(1,2) ready' x by (auto simp: sampler_ready_def)
          with False others x e(3) keep have "the (slot_of b x) \<in> set loaded" by auto
          with used e(1,2) x False show ?thesis by (auto simp: used_agree_def lc)
        qed
      qed
      then show ?thesis using True c md load fresh rdy slot ld keep
        by (simp add: q m load_sampler_one_def slots_served_def)
    qed
  qed
qed

lemma load_sampler_loop_ok:
  assumes "jax_inv jc b" "sampler_ready b qs" "used_agree b loaded qs"
  shows "\<exists>b'. load_sampler_loop qs loaded b = (Inr (slots_served b qs), b')"
  using assms
proof (induction qs arbitrary: b loaded)
  case Nil
  then show ?case by (simp add: slots_served_def)
next
  case (Cons q qs)
  from load_sampler_one_ok [OF Cons.prems] obtain loaded' b1 where
    one: "load_sampler_one q loaded b = (Inr (hd (slots_served b (q # qs)), loaded'), b1)"
    and r: "slot_of b1 = slot_of b" "sampler_ready b1 qs" "used_agree b1 loaded' qs" by blast
  have "jax_inv jc b1" using load_sampler_one_keeps [OF Cons.prems(1) one] by blast
  from Cons.IH [OF this r(2,3)] obtain b2 where
    "load_sampler_loop qs loaded' b1 = (Inr (slots_served b1 qs), b2)" by blast
  moreover have "slots_served b1 qs = slots_served b qs" by (simp only: slots_served_def r(1))
  moreover have "slots_served b (q # qs) = hd (slots_served b (q # qs)) # slots_served b qs"
    by (simp add: slots_served_def)
  ultimately show ?case
    by (simp add: load_sampler_loop_Cons one del: load_sampler_loop.simps)
qed

text \<open>A sample batch with one checkpoint per model never runs into the refusal to override an
  adapter already used in the batch: every sample is answered from its own model's slot, the base
  model from slot zero.\<close>

theorem sampler_never_overrides:
  assumes "jax_inv jc b" "sampler_ready b (zip (ps_model_ids p) (zip (ps_checkpoint_ids p) (ps_checkpoint_paths p)))"
  shows "fst (load_sampler_weights p b) =
    Inr (slots_served b (zip (ps_model_ids p) (zip (ps_checkpoint_ids p) (ps_checkpoint_paths p))))"
proof -
  have "used_agree b [] (zip (ps_model_ids p) (zip (ps_checkpoint_ids p) (ps_checkpoint_paths p)))"
    by (simp add: used_agree_def split_def)
  from load_sampler_loop_ok [OF assms this] show ?thesis by (auto simp: load_sampler_weights_def)
qed

definition ex_sampler_batch :: prepared_sample_batch where
  "ex_sampler_batch = \<lparr>ps_model_inputs = [[], []], ps_sampling_params = [], ps_model_ids = [Some ''a'', None],
     ps_checkpoint_ids = [''c'', []], ps_checkpoint_paths = [''f'', []], ps_session_ids = [None, None],
     ps_needs_prompt_logprobs = False, ps_slices = []\<rparr>"

lemma ex_one_model_inv: "jax_inv ex_jc (ex_one_model\<lparr>jx_sampler_files := fs\<rparr>)"
  by (auto simp: jax_inv_def slot_of_def ex_one_model_def ex_meta_def ex_jc_def dict_wf_def split: if_splits)

theorem sampler_never_overrides_witness:
  "fst (load_sampler_weights ex_sampler_batch (ex_one_model\<lparr>jx_sampler_files := [(''f'', 9)]\<rparr>)) = Inr [1, 0]"
proof -
  have "sampler_ready (ex_one_model\<lparr>jx_sampler_files := [(''f'', 9)]\<rparr>)
    (zip (ps_model_ids ex_sampler_batch) (zip (ps_checkpoint_ids ex_sampler_batch) (ps_checkpoint_paths ex_sampler_batch)))"
    by (simp add: sampler_ready_def ex_sampler_batch_def truthy_def jax_has_model_def dict_has_def ex_one_model_def)
  from sampler_never_overrides [OF ex_one_model_inv this] show ?thesis
    by (simp add: slots_served_def ex_sampler_batch_def truthy_def slot_of_def ex_one_model_def ex_meta_def)
qed

text \<open>An optimizer step does not forget which sampler checkpoint a slot holds: after it, a
  sample from that checkpoint is served from the updated weights and the checkpoint's file is not
  read again.\<close>

theorem stale_checkpoint_served:
  assumes "dict_get (jx_models b) m = Some md" "dict_get (jx_optimizers b) m = Some opt" "m \<noteq> []" "c \<noteq> []"
    and "dict_get (jx_sampler_files b) p = Some w" "mm_loaded_checkpoint_id md \<noteq> Some c"
    and "load_sampler_loop [(Some m, c, p)] [] b = (r1, b1)" "jax_optim_step nm m adam b1 = (r2, b2)"
    and "load_sampler_loop [(Some m, c, p)] [] b2 = (r3, b3)"
  shows "jx_weights b1 (mm_adapter_index md) = w \<and> r3 = Inr [mm_adapter_index md] \<and>
    jx_weights b3 (mm_adapter_index md) =
      snd (nm_update nm adam opt w (nm_mean nm (jx_grad_sum b (mm_adapter_index md)) (max (jx_counts b (mm_adapter_index md)) 1)))"
proof -
  have b1: "b1 = b\<lparr>jx_weights := (jx_weights b)(mm_adapter_index md := w),
                     jx_models := dict_put m (md\<lparr>mm_loaded_checkpoint_id := Some c\<rparr>) (jx_models b)\<rparr>"
    using assms(1,3-7) by (simp add: truthy_def Let_def load_sampler_checkpoint_def)
  let ?mean = "nm_mean nm (jx_grad_sum b (mm_adapter_index md)) (max (jx_counts b (mm_adapter_index md)) 1)"
  obtain opt' w' where u: "nm_update nm adam opt w ?mean = (opt', w')" by force
  have b2: "jx_models b2 = jx_models b1" "jx_weights b2 (mm_adapter_index md) = w'"
    using assms(2,8) u by (auto simp: jax_optim_step_def b1 dict_simps Let_def)
  have "load_sampler_loop [(Some m, c, p)] [] b2 = (Inr [mm_adapter_index md], b2)"
    using assms(3,4) by (simp add: truthy_def Let_def b2(1) b1 dict_simps)
  with assms(9) b2(2) u show ?thesis by (simp add: b1)
qed

theorem stale_checkpoint_served_witness:
  "jx_weights (snd (load_sampler_loop [(Some ''a'', ''c'', ''f'')] []
     (snd (jax_optim_step ex_nm ''a'' \<lparr>learning_rate = 1, beta1 = 0, beta2 = 0, adam_eps = 1, weight_decay = 0\<rparr>
       (snd (load_sampler_loop [(Some ''a'', ''c'', ''f'')] [] (ex_one_model\<lparr>jx_sampler_files := [(''f'', 9)]\<rparr>))))))) 1 = 10"
proof -
  let ?b = "ex_one_model\<lparr>jx_sampler_files := [(''f'', 9)]\<rparr>"
  let ?a = "\<lparr>learning_rate = 1, beta1 = 0, beta2 = 0, adam_eps = 1, weight_decay = 0\<rparr>"
  have 1: "dict_get (jx_models ?b) ''a'' = Some (ex_meta 1)" "dict_get (jx_optimizers ?b) ''a'' = Some ()"
    "dict_get (jx_sampler_files ?b) ''f'' = Some 9" "mm_loaded_checkpoint_id (ex_meta 1) \<noteq> Some ''c''"
    by (simp_all add: ex_one_model_def ex_meta_def)
  show ?thesis
    using stale_checkpoint_served [OF 1(1,2) _ _ 1(3,4) prod.collapse [symmetric] prod.collapse [symmetric]
        prod.collapse [symmetric], of ex_nm ?a]
    by (simp add: ex_meta_def ex_nm_def)
qed

text \<open>A pass without examples is never finished: as long as it is the only pending request, a
  poll picks it, gets no result for it and leaves the whole table, this request included, as it
  was.\<close>

theorem empty_pass_never_finishes:
  fixes st :: "('w, 'o, 'g::comm_monoid_add) jax engine"
  assumes "db_futures (en_db st) = [f]" "f_request_type f = FORWARD_BACKWARD" "f_status f = PENDING"
    and "f_request_data f = ForwardBackwardInput i" "fb_data i = []" "fb_loss_fn i \<in> set SUPPORTED_LOSS_FNS"
    and "f_model_id f = Some m" "m \<noteq> []" "jax_has_model (en_backend st) m"
    and "process_pending_requests (jax_ops nm jc) cfg now st = Some st'"
  shows "db_futures (en_db st') = db_futures (en_db st)"
proof -
  have fb: "find_batchable_model_passes [f] FORWARD_BACKWARD = Some [(f_request_id f, (Some m, i))]"
    and fw: "find_batchable_model_passes [f] FORWARD = Some []"
    and smp: "find_batchable_sample (ec_backend cfg) (ec_sample_max_num_sequences cfg) [f] = Some []"
    and sg: "find_single_requests [f] = []"
    using assms(2-4,7)
    by (simp_all add: find_batchable_model_passes_def batchable_passes_def pending_ordered_def
        find_destructive_barriers_def before_barrier_def destructive_def find_batchable_sample_def
        find_single_requests_def single_rows_def is_single_def limit_samples_def)
  have "filter_valid_requests (jax_ops nm jc) cfg (\<lambda>_. None) (en_backend st) [(f_request_id f, (Some m, i))] =
      ([], [(f_request_id f, (Some m, i))])"
    using assms(8,9) by (simp add: filter_valid_requests_def request_error_def truthy_def jax_ops_def)
  moreover have "process_forward_backward (jax_ops nm jc) [(f_request_id f, (Some m, i))] st = (Inr [], st)"
    using assms(5,6)
    by (simp add: process_forward_backward_def prepare_model_pass_batch_spec model_pass_spec_def req_items_def
        on_backend_def jax_ops_def jax_model_pass_def)
  ultimately have b: "process_batch_requests (jax_ops nm jc) cfg now (\<lambda>_. None) (process_forward_backward (jax_ops nm jc))
      [(f_request_id f, (Some m, i))] st = st"
    by (simp add: process_batch_requests_def dict_update_def complete_futures_def)
  have nil: "process_batch_requests ops cfg now v p [] s = s" for ops v and p :: "('i, 'c) processor" and s
    by (simp add: process_batch_requests_def)
  from assms(10) have "st' = maybe_cleanup (jax_ops nm jc) cfg now st"
    by (simp add: process_pending_requests_def assms(1) fb fw smp sg b nil process_single_requests_def)
  then show ?thesis by (simp add: maybe_cleanup_def)
qed

definition ex_empty_pass :: future_db where
  "ex_empty_pass = (ex_future 1 FORWARD_BACKWARD ex_pass)\<lparr>f_model_id := Some ''a''\<rparr>"

definition ex_loaded :: "(int, unit, int) jax engine" where
  "ex_loaded = (ex_engine [ex_empty_pass])\<lparr>en_backend := ex_one_model\<rparr>"

theorem empty_pass_never_finishes_witness:
  "\<exists>st'. process_pending_requests (jax_ops ex_nm ex_jc) ex_cfg 5 ex_loaded = Some st' \<and>
     map f_status (db_futures (en_db st')) = [PENDING]"
proof -
  have futs: "db_futures (en_db ex_loaded) = [ex_empty_pass]" by (simp add: ex_loaded_def ex_engine_def)
  have "\<exists>st'. process_pending_requests (jax_ops ex_nm ex_jc) ex_cfg 5 ex_loaded = Some st'"
    by (simp add: process_pending_requests_def futs find_batchable_model_passes_def batchable_passes_def
        pending_ordered_def find_destructive_barriers_def before_barrier_def destructive_def
        find_batchable_sample_def limit_samples_def ex_empty_pass_def ex_future_def ex_pass_def)
  then obtain st' where st': "process_pending_requests (jax_ops ex_nm ex_jc) ex_cfg 5 ex_loaded = Some st'" by blast
  have "db_futures (en_db st') = db_futures (en_db ex_loaded)"
    by (rule empty_pass_never_finishes [OF futs _ _ _ _ _ _ _ _ st', where m = "''a''"
          and i = "\<lparr>fb_data = [], fb_loss_fn = ''ppo'', fb_loss_fn_config = None\<rparr>"])
      (simp_all add: ex_empty_pass_def ex_future_def ex_pass_def SUPPORTED_LOSS_FNS_def ex_loaded_def
        jax_has_model_def dict_has_def ex_one_model_def)
  with st' show ?thesis by (simp add: futs) (simp add: ex_empty_pass_def ex_future_def)
qed


end
