(* ===== verification/Tinker_Service.thy ===== *)
theory Tinker_Service
  imports Tinker_Api Tinker_Jax
begin

text \<open>
  The properties of the service as a whole: what the endpoints of \<^verbatim>\<open>skyrl/tinker/api.py\<close>
  guarantee to the engine and to the client, and where they do not.
\<close>

section \<open>The polling loop survives every request\<close>


definition ex_session_db :: tinker_db where
  "ex_session_db = snd (create_session 5 ''a'' [] None ''1'' (en_db (ex_engine [])))"

definition ex_model_db :: tinker_db where
  "ex_model_db = snd (create_model 6 ''b'' 7 ''session_a'' ''base'' 8 None ''policy'' ex_session_db)"


section \<open>Checkpoints\<close>

lemma accepted_row: "create_future now t m d db = (rid, db') \<Longrightarrow>
    \<exists>f. db_futures db' = db_futures db @ [f] \<and> f_request_id f = rid \<and> f_request_type f = t \<and>
        f_model_id f = m \<and> f_request_data f = d \<and> f_status f = PENDING"
  by (auto simp: create_future_def Let_def)

lemma validated: "validate_checkpoint m c t db = Inr r \<Longrightarrow>
    r \<in> set (db_checkpoints db) \<and> checkpoint_key r = (m, c, t) \<and> c_status r = CK_COMPLETED"
  by (auto simp: validate_checkpoint_def find_Some_iff split: option.splits checkpoint_status.splits)

text \<open>A load request enters the queue only for a known model and for a training checkpoint that
  the engine has finished writing, and it names exactly that checkpoint.\<close>

theorem load_needs_finished_checkpoint:
  assumes "load_weights ip_ok now m path db = (Inr rid, db')"
  shows "\<exists>t r f. TinkerPath_parse ip_ok path = Inr (Some t) \<and>
    r \<in> set (db_checkpoints db) \<and> checkpoint_key r = (primary_id t, secondary_id t, TRAINING) \<and> c_status r = CK_COMPLETED \<and>
    (\<exists>x\<in>set (db_models db). m_model_id x = m) \<and>
    db_futures db' = db_futures db @ [f] \<and> f_request_id f = rid \<and> f_model_id f = Some m \<and>
    f_request_data f = LoadWeightsInput \<lparr>lw_source_model_id = primary_id t, lw_checkpoint_id = secondary_id t\<rparr>"
proof -
  from assms obtain x t r where x: "get_model m db = Inr x" and t: "parse_path ip_ok path = Inr (Some t)"
    and r: "validate_checkpoint (primary_id t) (secondary_id t) TRAINING db = Inr r"
    and c: "create_future now LOAD_WEIGHTS (Some m)
      (LoadWeightsInput \<lparr>lw_source_model_id = primary_id t, lw_checkpoint_id = secondary_id t\<rparr>) db = (rid, db')"
    by (auto simp: load_weights_def split: sum.splits option.splits if_splits prod.splits)
  have "\<exists>y\<in>set (db_models db). m_model_id y = m"
    using x by (auto simp: get_model_def find_Some_iff split: option.splits)
  moreover have "TinkerPath_parse ip_ok path = Inr (Some t)"
    using t by (simp add: parse_path_def split: sum.splits)
  ultimately show ?thesis using validated [OF r] accepted_row [OF c] by blast
qed

definition ex_saved_db :: tinker_db where
  "ex_saved_db = snd (save_weights True 7 ''model_b'' ''w1'' ex_model_db)"

definition ex_ckpt_db :: tinker_db where
  "ex_ckpt_db = set_checkpoint_status 8 (''model_b'', ''w1'', TRAINING) CK_COMPLETED None ex_saved_db"

theorem load_needs_finished_checkpoint_witness:
  "\<exists>t r. TinkerPath_parse (\<lambda>_. False) ''tinker://model_b/weights/w1'' = Inr (Some t) \<and>
    r \<in> set (db_checkpoints ex_ckpt_db) \<and> c_status r = CK_COMPLETED"
proof -
  have "fst (load_weights (\<lambda>_. False) 9 ''model_b'' ''tinker://model_b/weights/w1'' ex_ckpt_db) = Inr 3" by code_simp
  then obtain db' where
    "load_weights (\<lambda>_. False) 9 ''model_b'' ''tinker://model_b/weights/w1'' ex_ckpt_db = (Inr 3, db')"
    by (metis surjective_pairing)
  from load_needs_finished_checkpoint [OF this] show ?thesis by blast
qed

text \<open>A sample request that the API accepts is queued for a model that exists and a sampler
  checkpoint that is complete, or for the base model with both names empty; its generation length is
  positive.  A request routed to the external engine is marked so that the polling loop skips it.\<close>

theorem sample_needs_finished_checkpoint:
  assumes "asample ip_ok has_client rnd now r db = (Inr (rid, ext), db')"
  shows "\<exists>f i m. db_futures db' = db_futures db @ [f] \<and> f_request_id f = rid \<and> f_model_id f = Some m \<and>
      f_request_type f = (if ext then EXTERNAL else SAMPLE) \<and> f_request_data f = SampleInput i \<and>
      0 < max_tokens (s_sampling_params i) \<and>
      (if truthy (s_base_model i) then m = [] \<and> s_checkpoint_id i = []
       else (\<exists>x\<in>set (db_models db). m_model_id x = m) \<and>
         (\<exists>c\<in>set (db_checkpoints db). checkpoint_key c = (m, s_checkpoint_id i, SAMPLER) \<and> c_status c = CK_COMPLETED))"
proof -
  from assms obtain base path where gm: "get_sampling_model r db = Inr (base, path)" and ok: "sample_request_valid r"
    "\<not> (sr_sampling_session_id r \<noteq> None \<and> CHR '':'' \<in> set (the (sr_sampling_session_id r)))"
    by (auto simp: asample_def simp del: not_None_eq split: if_splits sum.splits)
  note asample_def [of ip_ok has_client rnd now r db, unfolded gm, simp]
  obtain m c where src: "sampling_source ip_ok base path db = Inr (m, c)"
    using assms ok by (cases "sampling_source ip_ok base path db") (auto split: if_splits)
  obtain sp where sp: "sampling_params_to_types rnd (sr_sampling_params r) = Inr sp"
    using assms ok src by (cases "sampling_params_to_types rnd (sr_sampling_params r)") (auto split: if_splits)
  have c: "create_future now (if ext then EXTERNAL else SAMPLE) (Some m)
          (SampleInput \<lparr>s_base_model = base, s_prompt = sr_prompt r, s_sampling_params = sp,
             s_num_samples = sr_num_samples r, s_checkpoint_id = c,
             s_prompt_logprobs = (sr_prompt_logprobs r = Some True), s_seq_id = sr_seq_id r,
             s_sampling_session_id = sr_sampling_session_id r\<rparr>) db = (rid, db')"
    using assms ok src sp by (simp add: Let_def case_prod_beta split: if_split_asm) (metis surjective_pairing)+
  have pos: "0 < max_tokens sp"
    using sp by (auto simp: sampling_params_to_types_def split: option.splits if_splits)
  have "if truthy base then m = [] \<and> c = []
       else (\<exists>x\<in>set (db_models db). m_model_id x = m) \<and>
         (\<exists>k\<in>set (db_checkpoints db). checkpoint_key k = (m, c, SAMPLER) \<and> c_status k = CK_COMPLETED)"
  proof (cases "truthy base")
    case False
    with src obtain t x k where "get_model m db = Inr x" "validate_checkpoint m c SAMPLER db = Inr k"
      by (auto simp: sampling_source_def split: option.splits sum.splits if_splits)
    then show ?thesis using False validated
      by (fastforce simp: get_model_def find_Some_iff split: option.splits)
  qed (use src in \<open>simp add: sampling_source_def\<close>)
  with accepted_row [OF c] pos show ?thesis by force
qed


definition ex_sampling :: api_sampling_params where
  "ex_sampling = \<lparr>asp_thinking_token_budget = None, asp_max_tokens = Some 16, asp_seed = None, asp_stop = None,
     asp_temperature = 1, asp_top_k = -1, asp_top_p = 1\<rparr>"

definition ex_sample_request :: sample_request where
  "ex_sample_request = \<lparr>sr_num_samples = 2, sr_prompt = [EncodedTextChunk [1, 2]], sr_sampling_params = ex_sampling,
     sr_base_model = Some ''base'', sr_model_path = None, sr_sampling_session_id = None, sr_seq_id = None,
     sr_prompt_logprobs = None\<rparr>"

theorem sample_needs_finished_checkpoint_witness:
  "\<exists>f i. db_futures (snd (asample (\<lambda>_. False) True 3 9 ex_sample_request ex_model_db)) = db_futures ex_model_db @ [f] \<and>
     f_request_type f = EXTERNAL \<and> f_request_data f = SampleInput i \<and> 0 < max_tokens (s_sampling_params i)"
proof -
  have "fst (asample (\<lambda>_. False) True 3 9 ex_sample_request ex_model_db) = Inr (2, True)" by code_simp
  then have "asample (\<lambda>_. False) True 3 9 ex_sample_request ex_model_db =
      (Inr (2, True), snd (asample (\<lambda>_. False) True 3 9 ex_sample_request ex_model_db))"
    by (metis surjective_pairing)
  from sample_needs_finished_checkpoint [OF this] show ?thesis by auto
qed

text \<open>The life of a checkpoint.\<close>

lemma find_key_append:
  "checkpoint_key x = k \<Longrightarrow> k \<notin> checkpoint_key ` set xs \<Longrightarrow> find (\<lambda>r. checkpoint_key r = k) (xs @ [x]) = Some x"
  by (induction xs) auto

lemma find_key_map:
  assumes "\<And>r. checkpoint_key (g r) = checkpoint_key r"
  shows "find (\<lambda>r. checkpoint_key r = k) (map g xs) = map_option g (find (\<lambda>r. checkpoint_key r = k) xs)"
  by (induction xs) (auto simp: assms)

text \<open>Once a save is accepted, its name is taken (a second save is a conflict), the checkpoint
  cannot be loaded while it is being written, and it can be loaded as soon as the engine marks it
  complete; if the engine marks it failed, the load is refused with the failure.\<close>

theorem checkpoint_life_cycle:
  assumes save: "save_weights fk now m c db = (Inr rid, db1)" and model: "\<exists>x\<in>set (db_models db). m_model_id x = m"
    and m: "id_ok m"
  shows "fst (save_weights fk now2 m c db1) =
      Inl (HTTPException 409 (''Checkpoint '' @ quoted c @ '' already exists for model '' @ quoted m))
    \<and> fst (load_weights ip_ok now3 m (weights_path m c) db1) =
      Inl (HTTPException 425 ''Checkpoint is still being created'')
    \<and> is_ok (fst (load_weights ip_ok now3 m (weights_path m c)
        (set_checkpoint_status now2 (m, c, TRAINING) CK_COMPLETED None db1)))
    \<and> fst (load_weights ip_ok now3 m (weights_path m c)
        (set_checkpoint_status now2 (m, c, TRAINING) CK_FAILED (Some e) db1)) =
      Inl (HTTPException 500 (''Checkpoint creation failed: '' @ e))"
proof -
  from save have c: "id_ok c" by (auto simp: save_weights_def simp del: id_ok_def split: if_splits)
  define row where "row = \<lparr>c_model_id = m, c_checkpoint_id = c, c_checkpoint_type = TRAINING, c_status = CK_PENDING,
                  c_created_at = now, c_completed_at = None, c_error_message = None\<rparr>"
  from save c have fresh: "(m, c, TRAINING) \<notin> checkpoint_key ` set (db_checkpoints db)"
    and rows: "db_checkpoints db1 = db_checkpoints db @ [row]" and models: "db_models db1 = db_models db"
    by (auto simp: save_weights_def create_checkpoint_def create_future_def has_checkpoint_row_def row_def Let_def
        split: sum.splits if_splits)
  have key: "checkpoint_key row = (m, c, TRAINING)" by (simp add: row_def checkpoint_key_def)
  have found: "find (\<lambda>r. checkpoint_key r = (m, c, TRAINING)) (db_checkpoints db1) = Some row"
    unfolding rows by (rule find_key_append [OF key fresh])
  have found': "find (\<lambda>r. checkpoint_key r = (m, c, TRAINING))
      (db_checkpoints (set_checkpoint_status now2 (m, c, TRAINING) st err db1)) =
      Some (row\<lparr>c_status := st, c_error_message := err, c_completed_at := Some now2\<rparr>)" for st err
    unfolding set_checkpoint_status_def
    by (simp, subst find_key_map) (simp_all add: found key, simp add: checkpoint_key_def)
  obtain x where known: "find (\<lambda>r. m_model_id r = m) (db_models db1) = Some x"
    using model unfolding models by (cases "find (\<lambda>r. m_model_id r = m) (db_models db)") (auto simp: find_None_iff)
  have plain: "list_all plain_char m" "list_all plain_char c"
    using m c by (auto simp: id_ok_def list_all_iff intro: id_char_plain)
  have path: "parse_path ip_ok (weights_path m c) = Inr (Some \<lparr>primary_id = m, path_kind = ''weights'', secondary_id = c\<rparr>)"
    using parse_weights_path plain by (simp add: parse_path_def)
  have ne: "m \<noteq> []" "c \<noteq> []" using m c by (auto simp: id_ok_def)
  have load: "load_weights ip_ok now3 m (weights_path m c) d =
      (case validate_checkpoint m c TRAINING d of
                      Inl e \<Rightarrow> (Inl e, d)
                    | Inr _ \<Rightarrow>
                        (case create_future now3 LOAD_WEIGHTS (Some m)
                               (LoadWeightsInput \<lparr>lw_source_model_id = m, lw_checkpoint_id = c\<rparr>) d of
                           (rid, db1) \<Rightarrow> (Inr rid, db1)))" if "db_models d = db_models db1" for d
    using known that by (simp add: load_weights_def get_model_def path ne split: sum.split)
  have has: "list_ex (\<lambda>r. m_model_id r = m) (db_models db1)" using model models by (simp add: list_ex_iff)
  have "has_checkpoint_row db1 (m, c, TRAINING)" unfolding has_checkpoint_row_def rows by (simp add: key)
  then have again: "fst (save_weights fk now2 m c db1) =
      Inl (HTTPException 409 (''Checkpoint '' @ quoted c @ '' already exists for model '' @ quoted m))"
    using c has by (simp add: save_weights_def create_checkpoint_def)
  have sm: "db_models (set_checkpoint_status now2 k st err db1) = db_models db1" for k st err
    by (simp add: set_checkpoint_status_def)
  show ?thesis
    using again by (simp add: load sm validate_checkpoint_def found found' row_def opt_text_def is_ok_iff split: prod.split)
qed

theorem checkpoint_life_cycle_witness:
  "fst (save_weights True 8 ''model_b'' ''w1'' ex_saved_db) =
      Inl (HTTPException 409 (''Checkpoint '' @ quoted ''w1'' @ '' already exists for model '' @ quoted ''model_b''))"
proof -
  have "fst (save_weights True 7 ''model_b'' ''w1'' ex_model_db) = Inr 2" by code_simp
  then have "save_weights True 7 ''model_b'' ''w1'' ex_model_db = (Inr 2, ex_saved_db)"
    unfolding ex_saved_db_def by (metis surjective_pairing)
  moreover have "\<exists>x\<in>set (db_models ex_model_db). m_model_id x = ''model_b''" by code_simp
  moreover have "id_ok ''model_b''" by code_simp
  ultimately show ?thesis using checkpoint_life_cycle by blast
qed

section \<open>Unknown models, transient saves, expired sessions\<close>

text \<open>\<open>save_weights\<close> has no model check of its own; it leaves it to the foreign key of the
  checkpoint row.  A database that enforces it answers 404.  One that does not (SQLite as this program
  opens it) accepts the request for a model that was never created.\<close>

theorem save_weights_unknown_model:
  assumes "id_ok c" "\<forall>x\<in>set (db_models db). m_model_id x \<noteq> m" "\<not> has_checkpoint_row db (m, c, TRAINING)"
  shows "fst (save_weights True now m c db) = Inl (HTTPException 404 (''Model '' @ quoted m @ '' not found''))
    \<and> fst (save_weights False now m c db) = Inr (next_request_id db)"
proof -
  have "\<not> list_ex (\<lambda>r. m_model_id r = m) (db_models db)" using assms(2) by (auto simp: list_ex_iff)
  with assms(1,3) show ?thesis
    by (simp add: save_weights_def create_checkpoint_def create_future_def Let_def next_request_id_def)
qed

theorem save_weights_unknown_model_witness:
  "fst (save_weights False 3 ''model_z'' ''w1'' ex_model_db) = Inr 2"
proof -
  have "id_ok ''w1''" "\<forall>x\<in>set (db_models ex_model_db). m_model_id x \<noteq> ''model_z''"
    "\<not> has_checkpoint_row ex_model_db (''model_z'', ''w1'', TRAINING)" by code_simp+
  from save_weights_unknown_model [OF this, of 3] have
    "fst (save_weights False 3 ''model_z'' ''w1'' ex_model_db) = Inr (next_request_id ex_model_db)" by blast
  moreover have "next_request_id ex_model_db = 2" by code_simp
  ultimately show ?thesis by simp
qed

text \<open>A sampler save that names a path and a session sequence number but no sequence number of its
  own is accepted; the engine then skips the write to disk and still marks the checkpoint complete and
  returns a path to it, a path the API goes on to accept for sampling.\<close>

theorem transient_save_advertised:
  assumes ids: "sws_sampling_session_seq_id i = Some n" "sws_seq_id i = None" "sws_path i = Some p" "path_name p = p"
    and no_mirror: "\<not> truthy (ec_checkpoint_mirror_gcs cfg)"
    and loaded: "op_has_model ops (en_backend st) m" and row: "has_checkpoint_row (en_db st) (m, p, SAMPLER)"
    and ok: "op_save_sampler_checkpoint ops
        (ec_join cfg (ec_join cfg (ec_join cfg (ec_checkpoints_base cfg) m) ''sampler_weights'') (p @ ''.tar.gz''))
        m False (en_backend st) = (Inr (), b)"
  shows "fst (process_save_weights_for_sampler ops cfg now m i st) =
      Inr (SaveWeightsForSamplerOutput (Some (sampler_path m p)) (sws_sampling_session_id i))
    \<and> (\<forall>c\<in>set (db_checkpoints (en_db (snd (process_save_weights_for_sampler ops cfg now m i st)))).
        checkpoint_key c = (m, p, SAMPLER) \<longrightarrow> c_status c = CK_COMPLETED)"
proof -
  have "process_save_weights_for_sampler ops cfg now m i st =
    (Inr (SaveWeightsForSamplerOutput (Some (sampler_path m p)) (sws_sampling_session_id i)),
     st\<lparr>en_backend := b, en_db := set_checkpoint_status now (m, p, SAMPLER) CK_COMPLETED None (en_db st)\<rparr>)"
    using assms by (simp add: process_save_weights_for_sampler_def checkpoint_status_context_def on_backend_def Let_def)
  then show ?thesis by (auto simp: set_checkpoint_status_def)
qed

definition ex_transient :: save_weights_for_sampler_input where
  "ex_transient = \<lparr>sws_path = Some ''s1'', sws_sampling_session_seq_id = Some 0, sws_seq_id = None,
     sws_sampling_session_id = None\<rparr>"

definition ex_transient_engine :: "(int, unit, int) jax engine" where
  "ex_transient_engine = (ex_engine [])\<lparr>en_backend := ex_one_model,
     en_db := ex_model_db\<lparr>db_checkpoints := [\<lparr>c_model_id = ''a'', c_checkpoint_id = ''s1'', c_checkpoint_type = SAMPLER,
       c_status = CK_PENDING, c_created_at = 1, c_completed_at = None, c_error_message = None\<rparr>]\<rparr>\<rparr>"

theorem transient_save_advertised_witness:
  "fst (process_save_weights_for_sampler (jax_ops ex_nm ex_jc) ex_cfg 5 ''a'' ex_transient ex_transient_engine) =
     Inr (SaveWeightsForSamplerOutput (Some ''tinker://a/s1'') None)"
proof -
  define res where "res = op_save_sampler_checkpoint (jax_ops ex_nm ex_jc)
        (ec_join ex_cfg (ec_join ex_cfg (ec_join ex_cfg (ec_checkpoints_base ex_cfg) ''a'') ''sampler_weights'')
          (''s1'' @ ''.tar.gz''))
        ''a'' False (en_backend ex_transient_engine)"
  have "fst res = Inr ()" unfolding res_def by code_simp
  then obtain b where res: "res = (Inr (), b)" by (metis surjective_pairing)
  have facts: "sws_sampling_session_seq_id ex_transient = Some 0" "sws_seq_id ex_transient = None"
    "sws_path ex_transient = Some ''s1''" "path_name ''s1'' = ''s1''"
    "\<not> truthy (ec_checkpoint_mirror_gcs ex_cfg)" "sampler_path ''a'' ''s1'' = ''tinker://a/s1''"
    "op_has_model (jax_ops ex_nm ex_jc) (en_backend ex_transient_engine) ''a''"
    "has_checkpoint_row (en_db ex_transient_engine) (''a'', ''s1'', SAMPLER)"
    "sws_sampling_session_id ex_transient = None" by code_simp+
  from transient_save_advertised [OF facts(1-5,7,8) res [unfolded res_def]] facts show ?thesis by simp
qed

lemma heartbeat_rows:
  "s \<in> set (db_sessions (snd (session_heartbeat now sid db))) \<Longrightarrow>
     \<exists>t\<in>set (db_sessions db). se_session_id t = se_session_id s \<and> se_status t = se_status s"
  by (fastforce simp: session_heartbeat_def split: if_splits)

lemma heartbeat_models: "db_models (snd (session_heartbeat now sid db)) = db_models db"
  by (simp add: session_heartbeat_def)

lemma heartbeat_found:
  "\<exists>s\<in>set (db_sessions db). se_session_id s = sid \<Longrightarrow> find_session sid (snd (session_heartbeat now sid db)) \<noteq> None"
  by (auto simp: session_heartbeat_def find_session_def find_None_iff)

text \<open>A session the engine has expired still answers heartbeats and still takes new models, but
  cleanup looks only at active sessions: a model created there is never unloaded by it, however long the
  client stays silent, so its adapter slot stays taken.\<close>

theorem expired_session_leaks_models:
  fixes st :: "('w, 'o, 'g::comm_monoid_add) jax engine"
  assumes expired: "\<exists>s\<in>set (db_sessions db). se_session_id s = sid"
      "\<forall>s\<in>set (db_sessions db). se_session_id s = sid \<longrightarrow> se_status s = ''expired''"
    and fresh: "\<forall>x\<in>set (db_models db). m_model_id x \<noteq> ''model_'' @ uid"
    and backend: "jax_inv jc (en_backend st)"
    and st: "en_db st = snd (create_model now uid rnd sid base rank seed role (snd (session_heartbeat now0 sid db)))"
  shows "(\<exists>rid. fst (create_model now uid rnd sid base rank seed role (snd (session_heartbeat now0 sid db)))
        = Inr (''model_'' @ uid, rid))
    \<and> (\<exists>x\<in>set (db_models (en_db (snd (cleanup_stale_sessions (jax_ops nm jc) cfg later st)))).
        m_model_id x = ''model_'' @ uid \<and> m_status x = ''created'')
    \<and> jax_has_model (en_backend (snd (cleanup_stale_sessions (jax_ops nm jc) cfg later st))) (''model_'' @ uid) =
      jax_has_model (en_backend st) (''model_'' @ uid)"
proof -
  let ?db1 = "snd (session_heartbeat now0 sid db)" and ?mid = "''model_'' @ uid"
  have ex: "find_session sid ?db1 \<noteq> None" by (rule heartbeat_found [OF expired(1)])
  have stat: "se_status s = ''expired''" if "s \<in> set (db_sessions ?db1)" "se_session_id s = sid" for s
    using heartbeat_rows [OF that(1)] that(2) expired(2) by auto
  define x where "x = \<lparr>m_model_id = ?mid, m_base_model = base,
     m_lora_config = \<lparr>lora_rank = rank, lora_alpha = 32, lora_seed = (case seed of Some s \<Rightarrow> s | None \<Rightarrow> rnd),
               train_attn = True, train_mlp = True, train_unembed = False\<rparr>, m_status = ''created'',
     m_request_id = next_request_id ?db1, m_session_id = sid, m_created_at = now\<rparr>"
  have models: "db_models (en_db st) = db_models db @ [x]" and sess: "db_sessions (en_db st) = db_sessions ?db1"
    using ex unfolding st x_def
    by (auto simp: create_model_def create_future_def Let_def heartbeat_models)
  have answer: "\<exists>rid. fst (create_model now uid rnd sid base rank seed role ?db1) = Inr (?mid, rid)"
    using ex by (simp add: create_model_def create_future_def Let_def)
  let ?gone = "{m_model_id r | r. r \<in> set (db_models (en_db st)) \<and> m_status r \<noteq> ''unloaded'' \<and>
      m_session_id r \<in> se_session_id ` {s \<in> set (db_sessions (en_db st)).
        session_stale (later - ec_session_timeout_sec cfg * 1000000) s}}"
  have "\<not> session_stale cut s" if "s \<in> set (db_sessions (en_db st))" "se_session_id s = m_session_id x" for s cut
    using stat [OF that(1) [unfolded sess]] that(2) by (simp add: x_def session_stale_def)
  then have "m_session_id r \<notin> se_session_id ` {s \<in> set (db_sessions (en_db st)).
        session_stale (later - ec_session_timeout_sec cfg * 1000000) s}" if "r = x" for r using that by force
  moreover have "r = x" if "r \<in> set (db_models (en_db st))" "m_model_id r = ?mid" for r
    using that fresh unfolding models by auto
  ultimately have "?mid \<notin> ?gone" by force
  moreover obtain n st' where run: "cleanup_stale_sessions (jax_ops nm jc) cfg later st = (n, st')" by force
  note eff = jax.cleanup_effect [OF backend run]
  have e2: "db_models (en_db st') = map (\<lambda>r. if m_model_id r \<in> ?gone then r\<lparr>m_status := ''unloaded''\<rparr> else r) (db_models (en_db st))"
    and e3: "\<forall>x. jax_has_model (en_backend st') x = (jax_has_model (en_backend st) x \<and> x \<notin> ?gone)"
    using eff unfolding jax_ops_def backend_ops.simps by blast+
  ultimately have has: "jax_has_model (en_backend st') ?mid = jax_has_model (en_backend st) ?mid" by blast
  have "x \<in> set (db_models (en_db st'))"
    unfolding e2 set_map using \<open>?mid \<notin> ?gone\<close> by (intro image_eqI [of _ _ x]) (simp_all only: models x_def model_db.simps, auto)
  then show ?thesis using answer run has by (auto simp: x_def intro!: bexI [of _ x])
qed

definition ex_expired_db :: tinker_db where
  "ex_expired_db = empty_db\<lparr>db_sessions := [(ex_session (Some 5))\<lparr>se_status := ''expired''\<rparr>]\<rparr>"

theorem expired_session_leaks_models_witness:
  "\<exists>x\<in>set (db_models (en_db (snd (cleanup_stale_sessions (jax_ops ex_nm ex_jc) ex_cfg 99999999999
      (ex_stale\<lparr>en_db := snd (create_model 9 ''c'' 1 ''s'' ''base'' 8 None ''policy'' (snd (session_heartbeat 8 ''s'' ex_expired_db)))\<rparr>))))).
     m_model_id x = ''model_c'' \<and> m_status x = ''created''"
proof -
  have e: "\<exists>s\<in>set (db_sessions ex_expired_db). se_session_id s = ''s''"
    "\<forall>s\<in>set (db_sessions ex_expired_db). se_session_id s = ''s'' \<longrightarrow> se_status s = ''expired''"
    "\<forall>x\<in>set (db_models ex_expired_db). m_model_id x \<noteq> ''model_'' @ ''c''"
    by (simp_all add: ex_expired_db_def ex_session_def empty_db_def)
  have i: "jax_inv ex_jc (en_backend (ex_stale\<lparr>en_db := d\<rparr>))" for d
    by (auto simp: ex_stale_def jax_inv_def slot_of_def ex_one_model_def ex_meta_def ex_jc_def dict_wf_def split: if_splits)
  from expired_session_leaks_models [OF e i] show ?thesis by simp
qed

section \<open>The long poll\<close>

lemma retrieve_slow_miss:
  assumes "left \<le> 3 * real n" "n < fuel" "\<forall>j<n. retrieve_look rid (dbs (k + j)) = StillPending"
  shows "retrieve_loop fuel k 3 left rid dbs = Refused (HTTPException 408 ''Timeout waiting for result'')"
  using assms
proof (induction n arbitrary: fuel k left)
  case 0
  then show ?case by (cases fuel) auto
next
  case (Suc n)
  then obtain fuel' where f: "fuel = Suc fuel'" "n < fuel'" by (cases fuel) auto
  have "left - 3 \<le> 3 * real n" using Suc.prems(1) by simp
  moreover have "\<forall>j<n. retrieve_look rid (dbs (Suc k + j)) = StillPending" using Suc.prems(3) by force
  moreover have "retrieve_look rid (dbs k) = StillPending" using Suc.prems(3) by force
  ultimately show ?case using Suc.IH f(2) by (simp add: f(1))
qed

lemma retrieve_slow_hit:
  assumes "3 * real n < left" "n < fuel" "\<forall>j<n. retrieve_look rid (dbs (k + j)) = StillPending"
    "retrieve_look rid (dbs (k + n)) \<noteq> StillPending"
  shows "retrieve_loop fuel k 3 left rid dbs = retrieve_look rid (dbs (k + n))"
  using assms
proof (induction n arbitrary: fuel k left)
  case 0
  then obtain fuel' where f: "fuel = Suc fuel'" by (cases fuel) auto
  show ?case using 0 by (simp add: f split: future_reply.split)
next
  case (Suc n)
  then obtain fuel' where f: "fuel = Suc fuel'" "n < fuel'" by (cases fuel) auto
  have "3 * real n < left - 3" using Suc.prems(1) by simp
  moreover have "\<forall>j<n. retrieve_look rid (dbs (Suc k + j)) = StillPending" using Suc.prems(3) by force
  moreover have "retrieve_look rid (dbs (Suc k + n)) \<noteq> StillPending" using Suc.prems(4) by simp
  ultimately have "retrieve_loop fuel' (Suc k) 3 (left - 3) rid dbs = retrieve_look rid (dbs (Suc k + n))"
    using Suc.IH f(2) by blast
  moreover have "retrieve_look rid (dbs k) = StillPending" using Suc.prems(3) by force
  moreover have "\<not> left \<le> 0" using Suc.prems(1) by simp
  ultimately show ?case by (simp add: f(1))
qed

text \<open>The first five waits.\<close>

lemma retrieve_start:
  assumes "\<forall>j<n. retrieve_look rid (dbs j) = StillPending" "n \<le> 5"
  shows "retrieve_future rid dbs = retrieve_loop (602 - n) n ([1/2, 3/4, 9/8, 27/16, 81/32, 3] ! n)
    (300 - [0, 1/2, 5/4, 19/8, 65/16, 211/32] ! n) rid dbs"
proof -
  have look: "i < n \<Longrightarrow> retrieve_look rid (dbs i) = StillPending" for i using assms(1) by blast
  have s: "retrieve_loop (Suc f) k p l rid dbs = retrieve_loop f (Suc k) (min (p * 3 / 2) 3) (l - p) rid dbs"
    if "k < n" "0 < l" for f k p l using look [OF that(1)] that(2) by simp
  have two: "Suc (Suc 0) = 2" by simp
  have e: "(602::nat) = Suc 601" "(601::nat) = Suc 600" "(600::nat) = Suc 599" "(599::nat) = Suc 598" "(598::nat) = Suc 597"
    by simp_all
  consider "n = 0" | "n = 1" | "n = 2" | "n = 3" | "n = 4" | "n = 5" using assms(2) by linarith
  then show ?thesis
  proof cases
    case 1 then show ?thesis by (simp add: retrieve_future_def)
  next
    case 2 then show ?thesis unfolding retrieve_future_def e(1) by (subst s) simp_all
  next
    case 3 then show ?thesis unfolding retrieve_future_def e(1,2) by (subst s, simp, simp)+ (simp add: two)
  next
    case 4 then show ?thesis unfolding retrieve_future_def e(1,2,3) by (subst s, simp, simp)+ (simp add: two)
  next
    case 5 then show ?thesis unfolding retrieve_future_def e(1-4) by (subst s, simp, simp)+ (simp add: two)
  next
    case 6 then show ?thesis unfolding retrieve_future_def e(1-5) by (subst s, simp, simp)+ (simp add: two)
  qed
qed

text \<open>The long poll always answers.  It looks at the row at most 103 times in its five minutes; if
  one of those looks finds it finished, the answer is that look's (the result, the engine's error as
  400, or 404 for an id that does not exist), otherwise the answer is the timeout 408.\<close>

theorem long_poll_answers:
  "retrieve_future rid dbs =
     (case find (\<lambda>k. retrieve_look rid (dbs k) \<noteq> StillPending) [0..<103] of
        Some k \<Rightarrow> retrieve_look rid (dbs k)
      | None \<Rightarrow> Refused (HTTPException 408 ''Timeout waiting for result''))"
proof (cases "find (\<lambda>k. retrieve_look rid (dbs k) \<noteq> StillPending) [0..<103]")
  case (Some k)
  then have k: "k < 103" "retrieve_look rid (dbs k) \<noteq> StillPending" "\<forall>j<k. retrieve_look rid (dbs j) = StillPending"
    by (auto simp: find_Some_iff)
  have "retrieve_future rid dbs = retrieve_look rid (dbs k)"
  proof (cases "k \<le> 5")
    case True
    have "retrieve_loop (602 - k) k p l rid dbs = retrieve_look rid (dbs k)" if "0 < l" for p l
    proof -
      have "602 - k = Suc (601 - k)" using True by simp
      with k(2) that show ?thesis by (simp split: future_reply.split)
    qed
    moreover have "0 < (300::real) - [0, 1/2, 5/4, 19/8, 65/16, 211/32] ! k"
    proof -
      consider "k = 0" | "k = 1" | "k = 2" | "k = 3" | "k = 4" | "k = 5" using True by linarith
      then show ?thesis by cases simp_all
    qed
    ultimately show ?thesis using retrieve_start [OF k(3) True] by simp
  next
    case False
    have "\<forall>j<5. retrieve_look rid (dbs j) = StillPending" using k(3) False by simp
    from retrieve_start [OF this] have "retrieve_future rid dbs = retrieve_loop 597 5 3 (300 - 211/32) rid dbs"
      by simp
    also have "\<dots> = retrieve_look rid (dbs (5 + (k - 5)))"
    proof (rule retrieve_slow_hit)
      show "3 * real (k - 5) < 300 - 211 / 32" using k(1) False by (simp add: of_nat_diff)
    qed (use k False in auto)
    finally show ?thesis using False by simp
  qed
  with Some show ?thesis by simp
next
  case None
  then have all: "retrieve_look rid (dbs k) = StillPending" if "k < 103" for k using that by (simp add: find_None_iff)
  have "retrieve_future rid dbs = retrieve_loop 597 5 3 (300 - 211/32) rid dbs"
    using retrieve_start [of 5 rid dbs] all by simp
  also have "\<dots> = Refused (HTTPException 408 ''Timeout waiting for result'')"
    by (rule retrieve_slow_miss [of _ 98]) (use all in simp_all)
  finally show ?thesis using None by simp
qed

end
