(* ===== verification/Tinker_Dispatch.thy ===== *)
theory Tinker_Dispatch
  imports Tinker_Api
begin

text \<open>
  The dispatcher and watchdog of \<^verbatim>\<open>skyrl/tinker/dispatch.py\<close> for externally served
  sampling requests: the conditional terminal write, the table of tasks in flight, one watchdog sweep,
  re-dispatch with its bound, shutdown.  A task is a record in a list, its position its identity; what
  the inference client computes is the result it finally writes.  Times are microseconds; a threshold of
  the configuration that is not positive switches its rule off.  The outcome of every database attempt
  is an argument.
\<close>

section \<open>State\<close>

record dispatch_config =
  dc_enabled :: bool
  dc_stale_after :: int
  dc_inflight_timeout :: int
  dc_max_redispatch :: int
  dc_abandon_after :: int

record ext_task =
  et_request :: nat
  et_done :: bool
  et_cancelled :: bool

record dispatcher =
  dp_futures :: "future_db list"
  dp_tasks :: "ext_task list"
  dp_inflight :: "(nat, nat) dict"
  dp_started :: "(nat, int) dict"
  dp_attempts :: "(nat, nat) dict"

record sweep_report =
  rp_pending :: nat
  rp_inflight :: nat
  rp_redispatched :: "nat list"
  rp_cancelled :: "nat list"
  rp_failed :: "nat list"

definition acted :: "sweep_report \<Rightarrow> bool" where
  "acted r = (rp_redispatched r \<noteq> [] \<or> rp_cancelled r \<noteq> [] \<or> rp_failed r \<noteq> [])"

definition format_exception :: "string \<Rightarrow> string \<Rightarrow> string" where
  "format_exception name message = (if message \<noteq> [] then name @ '': '' @ message else name)"

section \<open>The terminal write\<close>

definition COMPLETE_WRITE_ATTEMPTS :: nat where
  "COMPLETE_WRITE_ATTEMPTS = 3"

definition write_if_pending ::
  "nat \<Rightarrow> result_data \<Rightarrow> request_status \<Rightarrow> datetime \<Rightarrow> future_db list \<Rightarrow> future_db list" where
  "write_if_pending rid res status now futs =
     map (\<lambda>f. if f_request_id f = rid \<and> f_status f = PENDING
       then f\<lparr>f_result_data := Some res, f_status := status, f_completed_at := Some now\<rparr> else f) futs"

text \<open>\<open>outcomes\<close> says for each attempt whether the database took the statement.\<close>

definition complete_external_future ::
  "bool list \<Rightarrow> nat \<Rightarrow> result_data \<Rightarrow> request_status \<Rightarrow> datetime \<Rightarrow> future_db list \<Rightarrow> bool \<times> future_db list" where
  "complete_external_future outcomes rid res status now futs =
     (if True \<in> set (take COMPLETE_WRITE_ATTEMPTS outcomes)
      then (list_ex (\<lambda>f. f_request_id f = rid \<and> f_status f = PENDING) futs,
            write_if_pending rid res status now futs)
      else (False, futs))"

section \<open>Replaying a stored request\<close>

definition replay_sampling_params :: "sampling_params \<Rightarrow> api_sampling_params" where
  "replay_sampling_params sp =
     \<lparr>asp_thinking_token_budget = thinking_token_budget sp, asp_max_tokens = Some (max_tokens sp),
      asp_seed = Some (sp_seed sp),
      asp_stop = (case stop_tokens sp of Some (t # ts) \<Rightarrow> Some (Inl (t # ts))
         | _ \<Rightarrow> (case stop_strings sp of Some (s # ss) \<Rightarrow> Some (Inr (s # ss)) | _ \<Rightarrow> None)),
      asp_temperature = temperature sp, asp_top_k = top_k sp, asp_top_p = top_p sp\<rparr>"

definition replay_request_from_sample_input :: "sample_input \<Rightarrow> sample_request" where
  "replay_request_from_sample_input i =
     \<lparr>sr_num_samples = s_num_samples i, sr_prompt = s_prompt i,
      sr_sampling_params = replay_sampling_params (s_sampling_params i),
      sr_base_model = None, sr_model_path = None, sr_sampling_session_id = s_sampling_session_id i,
      sr_seq_id = s_seq_id i, sr_prompt_logprobs = Some (s_prompt_logprobs i)\<rparr>"

section \<open>Tasks\<close>

definition dispatch :: "int \<Rightarrow> nat \<Rightarrow> dispatcher \<Rightarrow> dispatcher" where
  "dispatch tick rid d =
     d\<lparr>dp_tasks := dp_tasks d @ [\<lparr>et_request = rid, et_done = False, et_cancelled = False\<rparr>],
       dp_inflight := dict_put rid (length (dp_tasks d)) (dp_inflight d),
       dp_started := dict_put rid tick (dp_started d)\<rparr>"

definition on_task_done :: "nat \<Rightarrow> nat \<Rightarrow> dispatcher \<Rightarrow> dispatcher" where
  "on_task_done rid t d =
     (if dict_get (dp_inflight d) rid = Some t
      then d\<lparr>dp_inflight := dict_del rid (dp_inflight d), dp_started := dict_del rid (dp_started d)\<rparr> else d)"

definition cancel_task :: "nat \<Rightarrow> dispatcher \<Rightarrow> dispatcher" where
  "cancel_task t d =
     (if t < length (dp_tasks d) \<and> \<not> et_done (dp_tasks d ! t)
      then d\<lparr>dp_tasks := (dp_tasks d)[t := (dp_tasks d ! t)\<lparr>et_cancelled := True\<rparr>]\<rparr> else d)"

definition task_running :: "dispatcher \<Rightarrow> nat \<Rightarrow> bool" where
  "task_running d t = (t < length (dp_tasks d) \<and> \<not> et_done (dp_tasks d ! t))"

section \<open>The watchdog\<close>

definition pending_rows :: "future_db list \<Rightarrow> (nat \<times> datetime) list" where
  "pending_rows futs =
     map (\<lambda>f. (f_request_id f, f_created_at f))
       (sort_key f_request_id (filter (\<lambda>f. f_request_type f = EXTERNAL \<and> f_status f = PENDING) futs))"

text \<open>Rows of this type always carry a \<open>SampleInput\<close> (see the API's row invariant).\<close>

definition load_request :: "nat \<Rightarrow> future_db list \<Rightarrow> (string \<times> sample_input) option" where
  "load_request rid futs =
     (case find (\<lambda>f. f_request_id f = rid) futs of
        None \<Rightarrow> None
      | Some f \<Rightarrow>
          if f_status f \<noteq> PENDING then None
          else map_option (\<lambda>i. (case f_model_id f of None \<Rightarrow> [] | Some m \<Rightarrow> m, i)) (as_sample (f_request_data f)))"

text \<open>Seconds without decimals, halves to even.\<close>

definition seconds_text :: "int \<Rightarrow> string" where
  "seconds_text us =
     (let q = us div 1000000; r = us mod 1000000
      in str_of_int (if 2 * r < 1000000 \<or> 2 * r = 1000000 \<and> even q then q else q + 1))"

definition fail_request ::
  "bool list \<Rightarrow> datetime \<Rightarrow> nat \<Rightarrow> string \<Rightarrow> sweep_report \<times> dispatcher \<Rightarrow> sweep_report \<times> dispatcher" where
  "fail_request outcomes now rid reason s =
     (case s of (rp, d) \<Rightarrow>
        (rp\<lparr>rp_failed := rp_failed rp @ [rid]\<rparr>,
         d\<lparr>dp_futures := snd (complete_external_future outcomes rid (error_response reason) FAILED now (dp_futures d)),
           dp_attempts := dict_del rid (dp_attempts d)\<rparr>))"

definition redispatch ::
  "dispatch_config \<Rightarrow> bool list \<Rightarrow> datetime \<Rightarrow> int \<Rightarrow> nat \<Rightarrow> int \<Rightarrow> sweep_report \<times> dispatcher
   \<Rightarrow> bool \<times> sweep_report \<times> dispatcher" where
  "redispatch cfg outcomes now tick rid age s =
     (if dc_abandon_after cfg > 0 \<and> age > dc_abandon_after cfg
      then (False, fail_request outcomes now rid
             (''external sampling request '' @ str_of_int (int rid) @ '' was abandoned after '' @ seconds_text age
               @ ''s (abandon threshold '' @ seconds_text (dc_abandon_after cfg) @ ''s); it was never served'') s)
      else case s of (rp, d) \<Rightarrow>
        (let attempts = (case dict_get (dp_attempts d) rid of Some n \<Rightarrow> n | None \<Rightarrow> 0)
         in if dc_max_redispatch cfg > 0 \<and> int attempts \<ge> dc_max_redispatch cfg
            then (False, fail_request outcomes now rid
               (''external sampling request '' @ str_of_int (int rid) @ '' was dropped and could not be recovered after ''
                 @ str_of_int (int attempts) @ '' re-dispatch attempts (age '' @ seconds_text age @ ''s)'') s)
            else case load_request rid (dp_futures d) of
              None \<Rightarrow> (False, rp, d\<lparr>dp_attempts := dict_del rid (dp_attempts d)\<rparr>)
            | Some _ \<Rightarrow>
                (True, rp\<lparr>rp_redispatched := rp_redispatched rp @ [rid]\<rparr>,
                 dispatch tick rid (d\<lparr>dp_attempts := dict_put rid (Suc attempts) (dp_attempts d)\<rparr>))))"

definition give_up_task :: "nat \<Rightarrow> nat \<Rightarrow> dispatcher \<Rightarrow> dispatcher" where
  "give_up_task rid t d =
     (cancel_task t d)\<lparr>dp_inflight := dict_del rid (dp_inflight d), dp_started := dict_del rid (dp_started d)\<rparr>"

text \<open>One row of the sweep.\<close>

definition sweep_row ::
  "dispatch_config \<Rightarrow> (nat \<Rightarrow> bool list) \<Rightarrow> datetime \<Rightarrow> int \<Rightarrow> nat \<times> datetime \<Rightarrow> sweep_report \<times> dispatcher
   \<Rightarrow> sweep_report \<times> dispatcher" where
  "sweep_row cfg outcomes now tick row s =
     (case (row, s) of ((rid, created), (rp, d)) \<Rightarrow>
        (let age = now - created
         in case dict_get (dp_inflight d) rid of
              Some t \<Rightarrow>
                if task_running d t
                then (let rp1 = rp\<lparr>rp_inflight := Suc (rp_inflight rp)\<rparr>;
                          inflight_age = tick - (case dict_get (dp_started d) rid of Some m \<Rightarrow> m | None \<Rightarrow> tick)
                      in if dc_inflight_timeout cfg > 0 \<and> inflight_age > dc_inflight_timeout cfg
                         then snd (redispatch cfg (outcomes rid) now tick rid age
                                (rp1\<lparr>rp_cancelled := rp_cancelled rp1 @ [rid]\<rparr>, give_up_task rid t d))
                         else (rp1, d))
                else if age < dc_stale_after cfg then (rp, d)
                else snd (redispatch cfg (outcomes rid) now tick rid age (rp, d))
            | None \<Rightarrow>
                if age < dc_stale_after cfg then (rp, d)
                else snd (redispatch cfg (outcomes rid) now tick rid age (rp, d))))"

definition empty_report :: sweep_report where
  "empty_report = \<lparr>rp_pending = 0, rp_inflight = 0, rp_redispatched = [], rp_cancelled = [], rp_failed = []\<rparr>"

definition sweep_once ::
  "dispatch_config \<Rightarrow> (nat \<Rightarrow> bool list) \<Rightarrow> datetime \<Rightarrow> int \<Rightarrow> dispatcher \<Rightarrow> sweep_report \<times> dispatcher" where
  "sweep_once cfg outcomes now tick d =
     (let rows = pending_rows (dp_futures d)
      in fold (sweep_row cfg outcomes now tick) rows (empty_report\<lparr>rp_pending := length rows\<rparr>, d))"

definition aclose :: "dispatcher \<Rightarrow> dispatcher" where
  "aclose d = (fold cancel_task (map snd (dp_inflight d)) d)\<lparr>dp_inflight := [], dp_started := [], dp_attempts := []\<rparr>"

section \<open>What one row of a sweep can do\<close>

definition has_runner :: "dispatcher \<Rightarrow> nat \<Rightarrow> bool" where
  "has_runner d rid = (case dict_get (dp_inflight d) rid of Some t \<Rightarrow> task_running d t | None \<Rightarrow> False)"

lemma redispatch_cases:
  assumes "redispatch cfg oc now tick rid age (rp, d) = (b, rp', d')"
  obtains (fail) res where "d' = d\<lparr>dp_futures := snd (complete_external_future oc rid res FAILED now (dp_futures d)),
        dp_attempts := dict_del rid (dp_attempts d)\<rparr>" "rp_redispatched rp' = rp_redispatched rp"
  | (forget) "load_request rid (dp_futures d) = None" "d' = d\<lparr>dp_attempts := dict_del rid (dp_attempts d)\<rparr>"
        "rp_redispatched rp' = rp_redispatched rp"
  | (again) n x where "load_request rid (dp_futures d) = Some x"
        "n = (case dict_get (dp_attempts d) rid of Some n \<Rightarrow> n | None \<Rightarrow> 0)"
        "dc_max_redispatch cfg > 0 \<longrightarrow> int n < dc_max_redispatch cfg"
        "d' = dispatch tick rid (d\<lparr>dp_attempts := dict_put rid (Suc n) (dp_attempts d)\<rparr>)"
        "rp_redispatched rp' = rp_redispatched rp @ [rid]"
proof -
  note red = assms [unfolded redispatch_def fail_request_def]
  show ?thesis
  proof (cases "dc_abandon_after cfg > 0 \<and> age > dc_abandon_after cfg")
    case True
    with red show ?thesis by (intro fail) auto
  next
    case live: False
    define n where "n = (case dict_get (dp_attempts d) rid of Some n \<Rightarrow> n | None \<Rightarrow> 0)"
    show ?thesis
    proof (cases "dc_max_redispatch cfg > 0 \<and> int n \<ge> dc_max_redispatch cfg")
      case True
      with red live n_def show ?thesis by (intro fail) auto
    next
      case False
      with red live n_def show ?thesis
        by (cases "load_request rid (dp_futures d)") (use forget again [OF _ n_def] in \<open>auto simp: Let_def\<close>)
    qed
  qed
qed

lemma sweep_row_cases:
  assumes "sweep_row cfg oc now tick (rid, created) (rp, d) = (rp', d')"
  obtains (leave) "d' = d" "rp_redispatched rp' = rp_redispatched rp" "now - created < dc_stale_after cfg \<or> has_runner d rid"
  | (act) b rp1 d1 where "rp_redispatched rp1 = rp_redispatched rp"
      "d1 = d \<and> \<not> has_runner d rid \<or> (\<exists>t. dict_get (dp_inflight d) rid = Some t \<and> task_running d t \<and> d1 = give_up_task rid t d)"
      "redispatch cfg (oc rid) now tick rid (now - created) (rp1, d1) = (b, rp', d')"
proof (cases "has_runner d rid")
  case True
  then obtain t where t: "dict_get (dp_inflight d) rid = Some t" "task_running d t"
    by (auto simp: has_runner_def split: option.splits)
  define rp1 where "rp1 = rp\<lparr>rp_inflight := Suc (rp_inflight rp), rp_cancelled := rp_cancelled rp @ [rid]\<rparr>"
  consider "d' = d" "rp_redispatched rp' = rp_redispatched rp"
    | "(rp', d') = snd (redispatch cfg (oc rid) now tick rid (now - created) (rp1, give_up_task rid t d))"
    using assms t by (auto simp: sweep_row_def Let_def rp1_def split: if_splits)
  then show ?thesis
  proof cases
    case 1 with leave True show ?thesis by blast
  next
    case 2
    obtain b where "redispatch cfg (oc rid) now tick rid (now - created) (rp1, give_up_task rid t d) = (b, rp', d')"
      using 2 by (metis prod.exhaust_sel)
    with act t show ?thesis by (metis rp1_def sweep_report.ext_inject sweep_report.select_convs(3) sweep_report.surjective sweep_report.update_convs(2,4))
  qed
next
  case False
  have s: "sweep_row cfg oc now tick (rid, created) (rp, d) =
    (if now - created < dc_stale_after cfg then (rp, d) else snd (redispatch cfg (oc rid) now tick rid (now - created) (rp, d)))"
    using False by (auto simp: sweep_row_def has_runner_def Let_def split: option.splits)
  show ?thesis
  proof (cases "now - created < dc_stale_after cfg")
    case True
    with leave s assms show ?thesis by simp
  next
    case old: False
    obtain b where "redispatch cfg (oc rid) now tick rid (now - created) (rp, d) = (b, rp', d')"
      using assms old s by (metis prod.exhaust_sel)
    with act [of rp d] False show ?thesis by blast
  qed
qed

section \<open>The task table\<close>

definition live :: "dispatcher \<Rightarrow> nat \<Rightarrow> bool" where
  "live d t \<longleftrightarrow> t < length (dp_tasks d) \<and> \<not> et_done (dp_tasks d ! t) \<and> \<not> et_cancelled (dp_tasks d ! t)"

definition tasks_ok :: "dispatcher \<Rightarrow> bool" where
  "tasks_ok d \<longleftrightarrow>
     (\<forall>t. live d t \<longrightarrow> dict_get (dp_inflight d) (et_request (dp_tasks d ! t)) = Some t) \<and>
     (\<forall>rid t. dict_get (dp_inflight d) rid = Some t \<longrightarrow>
        t < length (dp_tasks d) \<and> et_request (dp_tasks d ! t) = rid \<and> (et_done (dp_tasks d ! t) \<or> live d t))"

lemma tasks_ok_cong:
  "dp_tasks d' = dp_tasks d \<Longrightarrow> dp_inflight d' = dp_inflight d \<Longrightarrow> tasks_ok d' = tasks_ok d"
  by (simp add: tasks_ok_def live_def)

lemma runner_live: "tasks_ok d \<Longrightarrow> has_runner d rid \<longleftrightarrow> (\<exists>t. live d t \<and> et_request (dp_tasks d ! t) = rid)"
  unfolding tasks_ok_def has_runner_def task_running_def live_def by (fastforce split: option.splits)

lemma live_dispatch: "live (dispatch tick rid d) t \<longleftrightarrow> live d t \<or> t = length (dp_tasks d)"
  by (auto simp: live_def dispatch_def nth_append)

lemma tasks_ok_dispatch:
  assumes "tasks_ok d" "\<not> has_runner d rid"
  shows "tasks_ok (dispatch tick rid d)"
proof -
  have new: "et_request (dp_tasks (dispatch tick rid d) ! t) = (if t < length (dp_tasks d) then et_request (dp_tasks d ! t)
      else rid)" if "t \<le> length (dp_tasks d)" for t
    using that by (simp add: dispatch_def nth_append)
  have old: "et_request (dp_tasks d ! t) \<noteq> rid" if "live d t" for t using assms that runner_live by blast
  have done_old: "et_done (dp_tasks (dispatch tick rid d) ! t) = et_done (dp_tasks d ! t)" if "t < length (dp_tasks d)" for t
    using that by (simp add: dispatch_def nth_append)
  have inf: "dict_get (dp_inflight (dispatch tick rid d)) r =
      (if r = rid then Some (length (dp_tasks d)) else dict_get (dp_inflight d) r)" for r
    by (simp add: dispatch_def dict_get_put)
  have len: "length (dp_tasks (dispatch tick rid d)) = Suc (length (dp_tasks d))" by (simp add: dispatch_def)
  show ?thesis
    unfolding tasks_ok_def live_dispatch inf len
  proof (intro conjI allI impI)
    fix t assume "live d t \<or> t = length (dp_tasks d)"
    then show "(if et_request (dp_tasks (dispatch tick rid d) ! t) = rid then Some (length (dp_tasks d))
        else dict_get (dp_inflight d) (et_request (dp_tasks (dispatch tick rid d) ! t))) = Some t"
      using new [of t] old [of t] assms(1) by (auto simp: tasks_ok_def live_def)
  next
    fix r t assume r: "(if r = rid then Some (length (dp_tasks d)) else dict_get (dp_inflight d) r) = Some t"
    then consider "r = rid" "t = length (dp_tasks d)"
      | "t < length (dp_tasks d)" "et_request (dp_tasks d ! t) = r" "et_done (dp_tasks d ! t) \<or> live d t"
      using assms(1) unfolding tasks_ok_def by (metis option.inject)
    then show "t < Suc (length (dp_tasks d))" "et_request (dp_tasks (dispatch tick rid d) ! t) = r"
      "et_done (dp_tasks (dispatch tick rid d) ! t) \<or> live d t \<or> t = length (dp_tasks d)"
      by (cases; simp add: new done_old)+
  qed
qed

lemma live_cancel: "live (cancel_task t d) u \<longleftrightarrow> live d u \<and> u \<noteq> t"
  by (auto simp: live_def cancel_task_def nth_list_update)

lemma cancel_keeps [simp]:
  "length (dp_tasks (cancel_task t d)) = length (dp_tasks d)" "dp_inflight (cancel_task t d) = dp_inflight d"
  "dp_attempts (cancel_task t d) = dp_attempts d" "dp_futures (cancel_task t d) = dp_futures d"
  "et_request (dp_tasks (cancel_task t d) ! u) = et_request (dp_tasks d ! u)"
  "et_done (dp_tasks (cancel_task t d) ! u) = et_done (dp_tasks d ! u)"
  by (auto simp: cancel_task_def nth_list_update)

lemma give_up_keeps [simp]:
  "length (dp_tasks (give_up_task rid t d)) = length (dp_tasks d)"
  "dp_attempts (give_up_task rid t d) = dp_attempts d" "dp_futures (give_up_task rid t d) = dp_futures d"
  "et_request (dp_tasks (give_up_task rid t d) ! u) = et_request (dp_tasks d ! u)"
  "et_done (dp_tasks (give_up_task rid t d) ! u) = et_done (dp_tasks d ! u)"
  by (simp_all add: give_up_task_def)

lemma live_give_up: "live (give_up_task rid t d) u \<longleftrightarrow> live d u \<and> u \<noteq> t"
  using live_cancel [of t d u] by (simp add: live_def give_up_task_def)

lemma inflight_give_up:
  "dict_get (dp_inflight (give_up_task rid t d)) r = (if r = rid then None else dict_get (dp_inflight d) r)"
  by (simp add: give_up_task_def dict_get_del)

lemma tasks_ok_give_up:
  assumes "tasks_ok d" "dict_get (dp_inflight d) rid = Some t"
  shows "tasks_ok (give_up_task rid t d) \<and> \<not> has_runner (give_up_task rid t d) rid"
proof -
  have r: "et_request (dp_tasks d ! t) = rid" using assms by (simp add: tasks_ok_def)
  have "tasks_ok (give_up_task rid t d)"
    unfolding tasks_ok_def live_give_up inflight_give_up give_up_keeps
  proof (intro conjI allI impI)
    fix u assume u: "live d u \<and> u \<noteq> t"
    then have "dict_get (dp_inflight d) (et_request (dp_tasks d ! u)) = Some u" using assms(1) by (simp add: tasks_ok_def)
    with u assms(2) show "(if et_request (dp_tasks d ! u) = rid then None
        else dict_get (dp_inflight d) (et_request (dp_tasks d ! u))) = Some u" by auto
  next
    fix q u assume q: "(if q = rid then None else dict_get (dp_inflight d) q) = Some u"
    then have "q \<noteq> rid" "dict_get (dp_inflight d) q = Some u" by (auto split: if_splits)
    with assms(1) show "u < length (dp_tasks d)" "et_request (dp_tasks d ! u) = q"
      "et_done (dp_tasks d ! u) \<or> live d u \<and> u \<noteq> t"
      using r by (auto simp: tasks_ok_def)
  qed
  moreover have "\<not> has_runner (give_up_task rid t d) rid" by (simp add: has_runner_def inflight_give_up)
  ultimately show ?thesis ..
qed

lemma has_runner_cong:
  "dp_tasks d' = dp_tasks d \<Longrightarrow> dp_inflight d' = dp_inflight d \<Longrightarrow> has_runner d' rid = has_runner d rid"
  by (simp add: has_runner_def task_running_def split: option.split)

lemma tasks_ok_redispatch:
  assumes "tasks_ok d" "\<not> has_runner d rid" "redispatch cfg oc now tick rid age (rp, d) = (b, rp', d')"
  shows "tasks_ok d'"
  using assms(3)
proof (cases rule: redispatch_cases)
  case (fail res)
  then show ?thesis using assms(1) tasks_ok_cong [of d' d] by simp
next
  case forget
  then show ?thesis using assms(1) tasks_ok_cong [of d' d] by simp
next
  case (again n x)
  let ?d = "d\<lparr>dp_attempts := dict_put rid (Suc n) (dp_attempts d)\<rparr>"
  have "tasks_ok ?d" using assms(1) tasks_ok_cong [of ?d d] by simp
  moreover have "\<not> has_runner ?d rid" using assms(2) has_runner_cong [of ?d d] by simp
  ultimately show ?thesis unfolding again(4) by (rule tasks_ok_dispatch)
qed

lemma act_ready:
  assumes "tasks_ok d"
    "d1 = d \<and> \<not> has_runner d rid \<or> (\<exists>t. dict_get (dp_inflight d) rid = Some t \<and> task_running d t \<and> d1 = give_up_task rid t d)"
  shows "tasks_ok d1 \<and> \<not> has_runner d1 rid \<and> dp_futures d1 = dp_futures d \<and> dp_attempts d1 = dp_attempts d"
  using assms(2) tasks_ok_give_up [OF assms(1)] assms(1) by fastforce

lemma tasks_ok_row:
  assumes "tasks_ok d" "sweep_row cfg oc now tick (rid, created) (rp, d) = (rp', d')"
  shows "tasks_ok d'"
  using assms(2)
proof (cases rule: sweep_row_cases)
  case (act b rp1 d1)
  from act_ready [OF assms(1) act(2)] tasks_ok_redispatch [OF _ _ act(3)] show ?thesis by blast
qed (use assms in simp)

lemma tasks_ok_done:
  assumes "tasks_ok d" "et_done (dp_tasks d ! t)"
  shows "tasks_ok (on_task_done (et_request (dp_tasks d ! t)) t d)"
proof -
  let ?d = "on_task_done (et_request (dp_tasks d ! t)) t d"
  have tasks: "dp_tasks ?d = dp_tasks d" by (simp add: on_task_done_def)
  then have lv: "live ?d u = live d u" for u by (simp add: live_def)
  have keep: "dict_get (dp_inflight ?d) r = Some u \<Longrightarrow> dict_get (dp_inflight d) r = Some u" for r u
    by (auto simp: on_task_done_def dict_get_del split: if_splits)
  have lose: "dict_get (dp_inflight d) r = Some u \<Longrightarrow> u \<noteq> t \<Longrightarrow> dict_get (dp_inflight ?d) r = Some u" for r u
    by (auto simp: on_task_done_def dict_get_del)
  have "u \<noteq> t" if "live d u" for u using that assms(2) by (auto simp: live_def)
  with assms(1) keep lose show ?thesis unfolding tasks_ok_def tasks lv by metis
qed

lemma live_cancel_all: "live (fold cancel_task ts d) u \<longleftrightarrow> live d u \<and> u \<notin> set ts"
  by (induction ts arbitrary: d) (auto simp: live_cancel)

lemma tasks_ok_close:
  assumes "tasks_ok d" shows "tasks_ok (aclose d) \<and> (\<forall>t. \<not> live (aclose d) t)"
proof -
  have "\<not> live (aclose d) t" for t
  proof
    assume "live (aclose d) t"
    then have l: "live (fold cancel_task (map snd (dp_inflight d)) d) t" by (simp add: aclose_def live_def)
    then have "live d t" "t \<notin> snd ` set (dp_inflight d)" by (simp_all add: live_cancel_all)
    with assms have "dict_get (dp_inflight d) (et_request (dp_tasks d ! t)) = Some t" by (simp add: tasks_ok_def)
    then have "t \<in> snd ` set (dp_inflight d)" by (force dest: map_of_SomeD)
    with \<open>t \<notin> snd ` set (dp_inflight d)\<close> show False ..
  qed
  then show ?thesis by (simp add: tasks_ok_def aclose_def)
qed

section \<open>The running dispatcher\<close>

text \<open>What happens in one API process: requests arrive and are dispatched, a task writes a result or
  ends, its callback runs, the watchdog treats a row of its scan.  \<open>reliable\<close> runs are those in which
  the watchdog's own writes succeed.  The log collects the re-dispatched requests.  A row is treated
  with the creation time and the clocks of its sweep; its database accesses and the dispatch happen at
  once, the pauses between them commute with the other events.\<close>

inductive process_step ::
  "bool \<Rightarrow> dispatch_config \<Rightarrow> dispatcher \<times> nat list \<Rightarrow> dispatcher \<times> nat list \<Rightarrow> bool" for reliable cfg where
  submit: "f_request_id f \<notin> f_request_id ` set (dp_futures d) \<Longrightarrow> f_status f = PENDING \<Longrightarrow>
    typed_row f \<Longrightarrow>
    process_step reliable cfg (d, lg) (dispatch tick (f_request_id f) (d\<lparr>dp_futures := dp_futures d @ [f]\<rparr>), lg)"
| result: "task_running d t \<Longrightarrow> status \<noteq> PENDING \<Longrightarrow>
    process_step reliable cfg (d, lg)
      (d\<lparr>dp_futures := snd (complete_external_future oc (et_request (dp_tasks d ! t)) res status now (dp_futures d))\<rparr>, lg)"
| ending: "task_running d t \<Longrightarrow>
    process_step reliable cfg (d, lg) (d\<lparr>dp_tasks := (dp_tasks d)[t := (dp_tasks d ! t)\<lparr>et_done := True\<rparr>]\<rparr>, lg)"
| callback: "t < length (dp_tasks d) \<Longrightarrow> et_done (dp_tasks d ! t) \<Longrightarrow>
    process_step reliable cfg (d, lg) (on_task_done (et_request (dp_tasks d ! t)) t d, lg)"
| watchdog: "rid \<in> f_request_id ` {f \<in> set (dp_futures d). f_request_type f = EXTERNAL} \<Longrightarrow>
    (reliable \<longrightarrow> True \<in> set (take COMPLETE_WRITE_ATTEMPTS (oc rid))) \<Longrightarrow>
    sweep_row cfg oc now tick (rid, created) (empty_report, d) = (rp, d') \<Longrightarrow>
    process_step reliable cfg (d, lg) (d', lg @ rp_redispatched rp)"

inductive_cases process_stepE: "process_step reliable cfg s s'"

text \<open>The service over several API processes: shutdown closes the dispatcher, a new process starts
  with empty tables.\<close>

inductive life_step :: "dispatch_config \<Rightarrow> dispatcher \<Rightarrow> dispatcher \<Rightarrow> bool" for cfg where
  process: "process_step False cfg (d, lg) (d', lg') \<Longrightarrow> life_step cfg d d'"
| shutdown: "life_step cfg d (aclose d)"
| restart: "life_step cfg d \<lparr>dp_futures = dp_futures d, dp_tasks = [], dp_inflight = [], dp_started = [], dp_attempts = []\<rparr>"

inductive_cases life_stepE: "life_step cfg d d'"

definition fresh_dispatcher :: "future_db list \<Rightarrow> dispatcher" where
  "fresh_dispatcher futs = \<lparr>dp_futures = futs, dp_tasks = [], dp_inflight = [], dp_started = [], dp_attempts = []\<rparr>"

definition ids_distinct :: "dispatcher \<Rightarrow> bool" where
  "ids_distinct d \<longleftrightarrow> distinct (map f_request_id (dp_futures d)) \<and>
     (\<forall>t<length (dp_tasks d). et_request (dp_tasks d ! t) \<in> f_request_id ` set (dp_futures d))"

lemma write_ids [simp]:
  "map f_request_id (snd (complete_external_future oc rid res status now futs)) = map f_request_id futs"
  by (simp add: complete_external_future_def write_if_pending_def)

lemma write_id_set [simp]:
  "f_request_id ` set (snd (complete_external_future oc rid res status now futs)) = f_request_id ` set futs"
  by (metis list.set_map write_ids)

definition terminal_kept :: "future_db list \<Rightarrow> future_db list \<Rightarrow> bool" where
  "terminal_kept fs gs \<longleftrightarrow> length fs \<le> length gs \<and> (\<forall>i<length fs. f_request_id (gs ! i) = f_request_id (fs ! i) \<and>
     (f_status (fs ! i) \<noteq> PENDING \<longrightarrow> gs ! i = fs ! i))"

lemma terminal_kept_refl [simp]: "terminal_kept fs fs" by (simp add: terminal_kept_def)

lemma terminal_kept_trans: "terminal_kept fs gs \<Longrightarrow> terminal_kept gs hs \<Longrightarrow> terminal_kept fs hs"
  unfolding terminal_kept_def by (metis order_trans order_less_le_trans)

lemma terminal_kept_write [simp]: "terminal_kept fs (snd (complete_external_future oc rid res status now fs))"
  by (simp add: terminal_kept_def complete_external_future_def write_if_pending_def)

lemma terminal_kept_append [simp]: "terminal_kept fs (fs @ gs)"
  by (simp add: terminal_kept_def nth_append)

lemma redispatch_rows:
  assumes "redispatch cfg oc now tick rid age (rp, d) = (b, rp', d')"
  shows "terminal_kept (dp_futures d) (dp_futures d') \<and> map f_request_id (dp_futures d') = map f_request_id (dp_futures d) \<and>
    (\<forall>t<length (dp_tasks d'). t < length (dp_tasks d) \<and> dp_tasks d' ! t = dp_tasks d ! t \<or> et_request (dp_tasks d' ! t) = rid)"
  using assms by (cases rule: redispatch_cases) (auto simp: dispatch_def nth_append)

lemma sweep_row_rows:
  assumes "tasks_ok d" "sweep_row cfg oc now tick (rid, created) (rp, d) = (rp', d')"
  shows "terminal_kept (dp_futures d) (dp_futures d') \<and> map f_request_id (dp_futures d') = map f_request_id (dp_futures d) \<and>
    (\<forall>t<length (dp_tasks d'). t < length (dp_tasks d) \<and> et_request (dp_tasks d' ! t) = et_request (dp_tasks d ! t)
       \<or> et_request (dp_tasks d' ! t) = rid)"
  using assms(2)
proof (cases rule: sweep_row_cases)
  case (act b rp1 d1)
  have fut: "dp_futures d1 = dp_futures d" using act_ready [OF assms(1) act(2)] by simp
  have "length (dp_tasks d1) = length (dp_tasks d)" "et_request (dp_tasks d1 ! t) = et_request (dp_tasks d ! t)" for t
    using act(2) by auto
  with redispatch_rows [OF act(3)] fut show ?thesis by metis
qed auto

lemma process_inv:
  assumes "process_step reliable cfg (d, lg) (d', lg')" "tasks_ok d" "ids_distinct d"
  shows "tasks_ok d' \<and> ids_distinct d' \<and> terminal_kept (dp_futures d) (dp_futures d')"
  using assms(1)
proof cases
  case (submit f tick)
  let ?d = "d\<lparr>dp_futures := dp_futures d @ [f]\<rparr>"
  have "\<not> has_runner d (f_request_id f)"
  proof
    assume "has_runner d (f_request_id f)"
    then obtain t where "live d t" "et_request (dp_tasks d ! t) = f_request_id f" using runner_live [OF assms(2)] by blast
    have "et_request (dp_tasks d ! t) \<in> f_request_id ` set (dp_futures d)"
      using assms(3) \<open>live d t\<close> by (simp add: ids_distinct_def live_def)
    with \<open>et_request (dp_tasks d ! t) = f_request_id f\<close> submit(3) show False by simp
  qed
  then have "\<not> has_runner ?d (f_request_id f)" using has_runner_cong [of ?d d] by simp
  moreover have "tasks_ok ?d" using assms(2) tasks_ok_cong [of ?d d] by simp
  ultimately have "tasks_ok d'" unfolding submit(1) by (rule tasks_ok_dispatch [rotated])
  moreover have "ids_distinct d'"
    using assms(3) submit(3) by (auto simp: submit(1) ids_distinct_def dispatch_def nth_append)
  ultimately show ?thesis by (simp add: submit(1) dispatch_def)
next
  case (result t status oc res now)
  have "tasks_ok d'" using assms(2) tasks_ok_cong [of d' d] by (simp add: result(1))
  then show ?thesis using assms(3) by (simp add: result(1) ids_distinct_def)
next
  case (ending t)
  have lv: "live d' u \<longleftrightarrow> live d u \<and> u \<noteq> t" for u by (cases "u = t") (auto simp: ending(1) live_def)
  have rq: "et_request (dp_tasks d' ! u) = et_request (dp_tasks d ! u)" for u
    by (cases "u = t") (use ending in \<open>simp_all add: task_running_def\<close>)
  have dn: "et_done (dp_tasks d' ! u) \<longleftrightarrow> et_done (dp_tasks d ! u) \<or> u = t" if "u < length (dp_tasks d)" for u
    using that by (cases "u = t") (simp_all add: ending(1))
  have len: "length (dp_tasks d') = length (dp_tasks d)" "dp_inflight d' = dp_inflight d" by (simp_all add: ending(1))
  have "tasks_ok d'" using assms(2) dn unfolding tasks_ok_def lv rq len by metis
  moreover have "ids_distinct d'" using assms(3) unfolding ids_distinct_def len rq by (simp add: ending(1))
  ultimately show ?thesis by (simp add: ending(1))
next
  case (callback t)
  have "ids_distinct d'" "dp_futures d' = dp_futures d"
    using assms(3) by (simp_all add: callback(1) on_task_done_def ids_distinct_def)
  with tasks_ok_done [OF assms(2) callback(4)] show ?thesis by (simp add: callback(1))
next
  case (watchdog rid oc now tick created rp)
  note r = sweep_row_rows [OF assms(2) watchdog(4)]
  have "f_request_id ` set (dp_futures d') = f_request_id ` set (dp_futures d)" using r by (metis list.set_map)
  moreover have "rid \<in> f_request_id ` set (dp_futures d)" using watchdog(2) by auto
  ultimately have "ids_distinct d'" using r assms(3) unfolding ids_distinct_def by metis
  with r tasks_ok_row [OF assms(2) watchdog(4)] show ?thesis by blast
qed

lemma process_run_inv:
  assumes "(process_step reliable cfg)\<^sup>*\<^sup>* (d0, lg0) (d, lg)" "tasks_ok d0" "ids_distinct d0"
  shows "tasks_ok d \<and> ids_distinct d"
  using assms(1)
proof (induction "(d, lg)" arbitrary: d lg rule: rtranclp_induct)
  case base
  then show ?case using assms by simp
next
  case (step y)
  then show ?case using process_inv by (cases y) blast
qed

lemma fresh_ok: "distinct (map f_request_id futs) \<Longrightarrow> tasks_ok (fresh_dispatcher futs) \<and> ids_distinct (fresh_dispatcher futs)"
  by (simp add: fresh_dispatcher_def tasks_ok_def live_def ids_distinct_def)

lemma life_inv:
  assumes "life_step cfg d d'" "tasks_ok d" "ids_distinct d"
  shows "tasks_ok d' \<and> ids_distinct d' \<and> terminal_kept (dp_futures d) (dp_futures d')"
  using assms(1)
proof cases
  case (process lg lg')
  from process_inv [OF process assms(2,3)] show ?thesis .
next
  case shutdown
  have f: "dp_futures (fold cancel_task ts e) = dp_futures e \<and> length (dp_tasks (fold cancel_task ts e)) = length (dp_tasks e) \<and>
      (\<forall>t. et_request (dp_tasks (fold cancel_task ts e) ! t) = et_request (dp_tasks e ! t))" for ts e
    by (induction ts arbitrary: e) auto
  then have "ids_distinct (aclose d)" "dp_futures (aclose d) = dp_futures d"
    using assms(3) by (simp_all add: ids_distinct_def aclose_def)
  with tasks_ok_close [OF assms(2)] show ?thesis by (simp add: shutdown)
next
  case restart
  then show ?thesis using assms(3) by (simp add: tasks_ok_def live_def ids_distinct_def)
qed

lemma life_run_inv:
  "(life_step cfg)\<^sup>*\<^sup>* d d' \<Longrightarrow> tasks_ok d \<Longrightarrow> ids_distinct d \<Longrightarrow>
     tasks_ok d' \<and> ids_distinct d' \<and> terminal_kept (dp_futures d) (dp_futures d')"
proof (induction rule: rtranclp_induct)
  case (step y z)
  then show ?case using life_inv [OF step(2)] terminal_kept_trans by blast
qed simp

section \<open>Properties\<close>

text \<open>C12: a result, once written, never changes: through re-dispatches, late results of cancelled
  tasks, failing database writes, shutdowns and restarts, no row ever disappears and a row that was
  finished stays exactly as it was.\<close>

theorem result_never_flips:
  assumes "distinct (map f_request_id futs)" "(life_step cfg)\<^sup>*\<^sup>* (fresh_dispatcher futs) d" "(life_step cfg)\<^sup>*\<^sup>* d d'"
    and "i < length (dp_futures d)" "f_status (dp_futures d ! i) \<noteq> PENDING"
  shows "i < length (dp_futures d') \<and> dp_futures d' ! i = dp_futures d ! i"
proof -
  have "tasks_ok d" "ids_distinct d" using life_run_inv [OF assms(2)] fresh_ok [OF assms(1)] by blast+
  with life_run_inv [OF assms(3)] assms(4,5) show ?thesis by (auto simp: terminal_kept_def)
qed

definition ex_external :: "nat \<Rightarrow> request_status \<Rightarrow> future_db" where
  "ex_external rid st = \<lparr>f_request_id = rid, f_request_type = EXTERNAL, f_model_id = Some ''m'',
     f_request_data = SampleInput \<lparr>s_base_model = None, s_prompt = [], s_sampling_params =
       \<lparr>thinking_token_budget = None, temperature = 1, max_tokens = 4, sp_seed = 0, stop_tokens = None,
        stop_strings = None, top_k = -1, top_p = 1\<rparr>, s_num_samples = 1, s_checkpoint_id = ''c'',
       s_prompt_logprobs = False, s_seq_id = None, s_sampling_session_id = None\<rparr>,
     f_result_data = None, f_status = st, f_created_at = 0, f_completed_at = None\<rparr>"

theorem result_never_flips_witness:
  "dp_futures (aclose (fresh_dispatcher [ex_external 1 COMPLETED])) ! 0 = ex_external 1 COMPLETED"
proof -
  let ?d = "fresh_dispatcher [ex_external 1 COMPLETED]"
  have "(life_step cfg)\<^sup>*\<^sup>* ?d (aclose ?d)" for cfg by (blast intro: life_step.shutdown)
  from result_never_flips [OF _ rtranclp.rtrancl_refl this, of 0] show ?thesis
    by (simp add: fresh_dispatcher_def ex_external_def)
qed



text \<open>The retry budget.\<close>

lemma load_pending: "load_request rid futs = Some x \<Longrightarrow> \<exists>f\<in>set futs. f_request_id f = rid \<and> f_status f = PENDING"
  by (fastforce simp: load_request_def find_Some_iff split: option.splits if_splits)

definition attempts_of :: "dispatcher \<Rightarrow> nat \<Rightarrow> nat" where
  "attempts_of d rid = (case dict_get (dp_attempts d) rid of Some n \<Rightarrow> n | None \<Rightarrow> 0)"

definition row_pending :: "dispatcher \<Rightarrow> nat \<Rightarrow> bool" where
  "row_pending d rid \<longleftrightarrow> (\<exists>f\<in>set (dp_futures d). f_request_id f = rid \<and> f_status f = PENDING)"

definition budget_ok :: "dispatch_config \<Rightarrow> dispatcher \<times> nat list \<Rightarrow> bool" where
  "budget_ok cfg s \<longleftrightarrow> (case s of (d, lg) \<Rightarrow>
     (\<forall>rid. int (count_list lg rid) \<le> dc_max_redispatch cfg) \<and>
     (\<forall>rid. row_pending d rid \<longrightarrow> count_list lg rid \<le> attempts_of d rid) \<and>
     (\<forall>rid. rid \<notin> f_request_id ` set (dp_futures d) \<longrightarrow> count_list lg rid = 0))"

definition rows_typed :: "dispatcher \<Rightarrow> bool" where
  "rows_typed d \<longleftrightarrow> (\<forall>f\<in>set (dp_futures d). f_request_type f = EXTERNAL \<longrightarrow> typed_row f)"

lemma pending_write: "row_pending (d\<lparr>dp_futures := snd (complete_external_future oc r res st now (dp_futures d))\<rparr>) rid \<Longrightarrow>
    st \<noteq> PENDING \<Longrightarrow> row_pending d rid \<and> (True \<in> set (take COMPLETE_WRITE_ATTEMPTS oc) \<longrightarrow> rid \<noteq> r)"
  by (auto simp: row_pending_def complete_external_future_def write_if_pending_def split: if_splits)

lemma typed_external: "typed EXTERNAL x \<Longrightarrow> as_sample x \<noteq> None"
  by (cases x) (simp_all add: typed_def)

lemma load_none_done:
  assumes "ids_distinct d" "rows_typed d" "load_request rid (dp_futures d) = None"
    "rid \<in> f_request_id ` {f \<in> set (dp_futures d). f_request_type f = EXTERNAL}"
  shows "\<not> row_pending d rid"
proof
  assume "row_pending d rid"
  then obtain f where f: "f \<in> set (dp_futures d)" "f_request_id f = rid" "f_status f = PENDING"
    by (auto simp: row_pending_def)
  have uniq: "g = f" if "g \<in> set (dp_futures d)" "f_request_id g = rid" for g
    using assms(1) f that by (auto simp: ids_distinct_def distinct_map inj_on_def)
  from assms(4) uniq have "f_request_type f = EXTERNAL" by auto
  then have "as_sample (f_request_data f) \<noteq> None"
    using assms(2) f(1) typed_external unfolding rows_typed_def typed_row_def by metis
  moreover obtain g where g: "find (\<lambda>f. f_request_id f = rid) (dp_futures d) = Some g"
    using f by (cases "find (\<lambda>f. f_request_id f = rid) (dp_futures d)") (auto simp: find_None_iff)
  then have "g \<in> set (dp_futures d)" "f_request_id g = rid" by (auto simp: find_Some_iff)
  then have "g = f" by (rule uniq)
  ultimately show False using g f(3) assms(3) by (auto simp: load_request_def)
qed

lemma rows_typed_step:
  assumes "process_step reliable cfg (d, lg) (d', lg')" "rows_typed d"
  shows "rows_typed d'"
proof -
  have wr: "rows_typed (e\<lparr>dp_futures := snd (complete_external_future oc r res st now (dp_futures e))\<rparr>)"
    if "rows_typed e" for e oc r res st now
    using that by (auto simp: rows_typed_def complete_external_future_def write_if_pending_def typed_row_def)
  have cong: "dp_futures e' = dp_futures e \<Longrightarrow> rows_typed e' = rows_typed e" for e e' by (simp add: rows_typed_def)
  from assms(1) show ?thesis
  proof cases
    case (submit f tick)
    then show ?thesis using assms(2) by (auto simp: rows_typed_def dispatch_def)
  next
    case (result t status oc res now)
    with wr [OF assms(2)] show ?thesis by simp
  next
    case (watchdog rid oc now tick created rp)
    from watchdog(4) show ?thesis
    proof (cases rule: sweep_row_cases)
      case (act b rp1 d1)
      have "rows_typed d1" using act(2) assms(2) cong [of d1 d] by auto
      from act(3) show ?thesis
      proof (cases rule: redispatch_cases)
        case (fail res)
        with wr [OF \<open>rows_typed d1\<close>] show ?thesis by (simp add: rows_typed_def)
      qed (use \<open>rows_typed d1\<close> in \<open>simp_all add: rows_typed_def dispatch_def\<close>)
    qed (use assms in simp)
  qed (use assms cong in \<open>auto simp: on_task_done_def rows_typed_def\<close>)
qed

lemma redispatch_budget:
  assumes "budget_ok cfg (d, lg)" "0 < dc_max_redispatch cfg" "redispatch cfg oc now tick rid age (rp, d) = (b, rp', d')"
    "rp_redispatched rp = []" "ids_distinct d" "rows_typed d"
    "rid \<in> f_request_id ` {f \<in> set (dp_futures d). f_request_type f = EXTERNAL}"
    "True \<in> set (take COMPLETE_WRITE_ATTEMPTS oc)"
  shows "budget_ok cfg (d', lg @ rp_redispatched rp')"
proof -
  have b: "int (count_list lg r) \<le> dc_max_redispatch cfg" "row_pending d r \<Longrightarrow> count_list lg r \<le> attempts_of d r"
    "r \<notin> f_request_id ` set (dp_futures d) \<Longrightarrow> count_list lg r = 0" for r
    using assms(1) by (simp_all add: budget_ok_def)
  from assms(3) show ?thesis
  proof (cases rule: redispatch_cases)
    case (fail res)
    have "row_pending d' r \<Longrightarrow> row_pending d r \<and> r \<noteq> rid" for r
      using pending_write [where d = d and oc = oc and r = rid and res = res and st = FAILED and now = now and rid = r] assms(8) by (simp add: fail(1) row_pending_def)
    moreover have "r \<noteq> rid \<Longrightarrow> attempts_of d' r = attempts_of d r" for r
      by (simp add: fail(1) attempts_of_def dict_get_del)
    moreover have "f_request_id ` set (dp_futures d') = f_request_id ` set (dp_futures d)" by (simp add: fail(1))
    ultimately show ?thesis using b fail(2) assms(4) by (auto simp: budget_ok_def)
  next
    case forget
    have "\<not> row_pending d rid" by (rule load_none_done) (use assms forget in auto)
    moreover have "row_pending d' r = row_pending d r" for r by (simp add: forget(2) row_pending_def)
    moreover have "r \<noteq> rid \<Longrightarrow> attempts_of d' r = attempts_of d r" for r
      by (simp add: forget(2) attempts_of_def dict_get_del)
    moreover have "dp_futures d' = dp_futures d" by (simp add: forget(2))
    ultimately have "count_list lg r \<le> attempts_of d' r" if "row_pending d' r" for r
      using b(2) that by metis
    with b \<open>dp_futures d' = dp_futures d\<close> show ?thesis by (simp add: budget_ok_def forget(3) assms(4))
  next
    case (again n x)
    have n: "n = attempts_of d rid" by (simp add: again(2) attempts_of_def)
    have "row_pending d rid" using load_pending [OF again(1)] by (auto simp: row_pending_def)
    then have "count_list lg rid \<le> n" using b(2) n by simp
    then have "int (count_list (lg @ [rid]) r) \<le> dc_max_redispatch cfg" for r
      using b(1) [of r] again(3) assms(2) by (cases "rid = r") simp_all
    moreover have "row_pending d' r = row_pending d r" for r by (simp add: again(4) row_pending_def dispatch_def)
    moreover have "attempts_of d' r = (if r = rid then Suc n else attempts_of d r)" for r
      by (simp add: again(4) attempts_of_def dispatch_def dict_get_put)
    moreover have "dp_futures d' = dp_futures d" by (simp add: again(4) dispatch_def)
    moreover have "rid \<in> f_request_id ` set (dp_futures d)" using assms(7) by auto
    ultimately show ?thesis using b again(5) assms(4) n by (auto simp: budget_ok_def)
  qed
qed

lemma budget_step:
  assumes "process_step True cfg (d, lg) (d', lg')" "budget_ok cfg (d, lg)" "0 < dc_max_redispatch cfg"
    "tasks_ok d" "ids_distinct d" "rows_typed d"
  shows "budget_ok cfg (d', lg')"
  using assms(1)
proof cases
  case (submit f tick)
  have b: "int (count_list lg r) \<le> dc_max_redispatch cfg" "row_pending d r \<Longrightarrow> count_list lg r \<le> attempts_of d r"
    "r \<notin> f_request_id ` set (dp_futures d) \<Longrightarrow> count_list lg r = 0" for r
    using assms(2) by (simp_all add: budget_ok_def)
  have "row_pending d' r \<Longrightarrow> row_pending d r \<or> r = f_request_id f" for r
    by (auto simp: submit(1) row_pending_def dispatch_def)
  moreover have "attempts_of d' r = attempts_of d r" for r by (simp add: submit(1) attempts_of_def dispatch_def)
  ultimately have "count_list lg r \<le> attempts_of d' r" if "row_pending d' r" for r
    using b(2) b(3) [OF submit(3)] that by fastforce
  with b show ?thesis by (simp add: budget_ok_def submit dispatch_def)
next
  case (result t status oc res now)
  have "row_pending d' r \<Longrightarrow> row_pending d r" for r
    using pending_write [where d = d and oc = oc and r = "et_request (dp_tasks d ! t)" and res = res and st = status
        and now = now and rid = r] result(4) by (simp add: result(1))
  moreover have "attempts_of d' r = attempts_of d r" for r by (simp add: result(1) attempts_of_def)
  ultimately show ?thesis using assms(2) by (simp add: budget_ok_def result(1,2))
next
  case (ending t)
  then show ?thesis using assms(2) by (simp add: budget_ok_def row_pending_def attempts_of_def)
next
  case (callback t)
  then show ?thesis using assms(2) by (simp add: budget_ok_def row_pending_def attempts_of_def on_task_done_def)
next
  case (watchdog rid oc now tick created rp)
  from watchdog(4) show ?thesis
  proof (cases rule: sweep_row_cases)
    case leave
    then show ?thesis using assms(2) by (simp add: watchdog(1) empty_report_def)
  next
    case (act b rp1 d1)
    note r = act_ready [OF assms(4) act(2)]
    have eq: "dp_futures d1 = dp_futures d" "dp_attempts d1 = dp_attempts d" using r by blast+
    have "ids_distinct d1"
      using assms(5) act(2) unfolding ids_distinct_def eq by (auto simp: give_up_task_def)
    moreover have "budget_ok cfg (d1, lg)" "rows_typed d1"
      using assms(2,6) by (simp_all add: budget_ok_def row_pending_def attempts_of_def rows_typed_def eq)
    ultimately show ?thesis unfolding watchdog(1)
      using redispatch_budget [OF _ assms(3) act(3)] act(1) watchdog(2,3) by (simp add: eq empty_report_def)
  qed
qed


definition ex_dc :: dispatch_config where
  "ex_dc = \<lparr>dc_enabled = True, dc_stale_after = 300000000, dc_inflight_timeout = 3600000000, dc_max_redispatch = 2,
     dc_abandon_after = 7200000000\<rparr>"


text \<open>But the bound depends on those writes: \<open>_fail\<close> forgets the attempts and reports the
  request as failed even when none of its database attempts succeeded.  The row is then still pending,
  and the next sweep starts a new round of re-dispatches.\<close>

theorem failed_write_resets_budget:
  assumes "True \<notin> set (take COMPLETE_WRITE_ATTEMPTS (oc rid))" "f \<in> set (dp_futures d)" "f_request_id f = rid" "f_status f = PENDING"
    and "dc_abandon_after cfg \<le> 0" "0 < dc_max_redispatch cfg" "dc_max_redispatch cfg \<le> int (attempts_of d rid)"
    and "dict_get (dp_inflight d) rid = None" "dc_stale_after cfg \<le> now - created"
    and "sweep_row cfg oc now tick (rid, created) (rp, d) = (rp', d')"
  shows "rid \<in> set (rp_failed rp') \<and> f \<in> set (dp_futures d') \<and> attempts_of d' rid = 0 \<and>
    dp_inflight d' = dp_inflight d"
proof -
  have "sweep_row cfg oc now tick (rid, created) (rp, d) =
      snd (redispatch cfg (oc rid) now tick rid (now - created) (rp, d))"
    using assms(8,9) by (simp add: sweep_row_def Let_def)
  then show ?thesis using assms
    by (auto simp: redispatch_def fail_request_def complete_external_future_def attempts_of_def dict_get_del Let_def)
qed

theorem failed_write_resets_budget_witness:
  "1 \<in> set (rp_failed (fst (sweep_row (ex_dc\<lparr>dc_abandon_after := 0\<rparr>) (\<lambda>_. [False, False, False]) 400000000 0 (1, 0)
      (empty_report, (fresh_dispatcher [ex_external 1 PENDING])\<lparr>dp_attempts := [(1, 2)]\<rparr>))))"
proof -
  let ?d = "(fresh_dispatcher [ex_external 1 PENDING])\<lparr>dp_attempts := [(1, 2)]\<rparr>"
  obtain rp d' where s: "sweep_row (ex_dc\<lparr>dc_abandon_after := 0\<rparr>) (\<lambda>_. [False, False, False]) 400000000 0 (1, 0) (empty_report, ?d) = (rp, d')"
    by force
  have "1 \<in> set (rp_failed rp)"
    using failed_write_resets_budget [OF _ _ _ _ _ _ _ _ _ s, of "ex_external 1 PENDING"]
    by (simp add: COMPLETE_WRITE_ATTEMPTS_def fresh_dispatcher_def ex_external_def ex_dc_def attempts_of_def)
  with s show ?thesis by simp
qed

section \<open>A sweep leaves no orphan\<close>

definition row_key :: "future_db \<Rightarrow> nat \<times> request_type \<times> request_data \<times> datetime" where
  "row_key f = (f_request_id f, f_request_type f, f_request_data f, f_created_at f)"

definition sweep_ok :: "(nat \<times> request_type \<times> request_data \<times> datetime) list \<Rightarrow> dispatcher \<Rightarrow> bool" where
  "sweep_ok keys d \<longleftrightarrow> tasks_ok d \<and> map row_key (dp_futures d) = keys \<and>
     distinct (map fst keys) \<and> (\<forall>(rid, t, x, c)\<in>set keys. t = EXTERNAL \<longrightarrow> typed t x)"

lemma write_keys [simp]: "map row_key (snd (complete_external_future oc r res st now futs)) = map row_key futs"
  by (simp add: complete_external_future_def write_if_pending_def row_key_def)

lemma redispatch_keys:
  "redispatch cfg oc now tick rid age (rp, d) = (b, rp', d') \<Longrightarrow> map row_key (dp_futures d') = map row_key (dp_futures d)"
  by (erule redispatch_cases) (simp_all add: dispatch_def)

lemma sweep_ok_row:
  assumes "sweep_ok keys d" "sweep_row cfg oc now tick (rid, created) (rp, d) = (rp', d')"
  shows "sweep_ok keys d'"
proof -
  have t: "tasks_ok d" using assms(1) by (simp add: sweep_ok_def)
  have "map row_key (dp_futures d') = map row_key (dp_futures d)"
    using assms(2)
  proof (cases rule: sweep_row_cases)
    case (act b rp1 d1)
    from redispatch_keys [OF act(3)] act_ready [OF t act(2)] show ?thesis by simp
  qed simp
  with assms(1) tasks_ok_row [OF t assms(2)] show ?thesis by (simp add: sweep_ok_def)
qed

lemma sweep_ok_ids: "sweep_ok keys d \<Longrightarrow> rid \<in> f_request_id ` {f \<in> set (dp_futures d). f_request_type f = EXTERNAL} \<Longrightarrow>
    load_request rid (dp_futures d) = None \<Longrightarrow> \<not> row_pending d rid"
proof -
  assume a: "sweep_ok keys d" "rid \<in> f_request_id ` {f \<in> set (dp_futures d). f_request_type f = EXTERNAL}"
    "load_request rid (dp_futures d) = None"
  let ?e = "d\<lparr>dp_tasks := []\<rparr>"
  have "map f_request_id (dp_futures d) = map fst keys" using a(1) by (auto simp: sweep_ok_def row_key_def)
  then have "ids_distinct ?e" using a(1) by (simp add: ids_distinct_def sweep_ok_def)
  moreover have "rows_typed ?e" using a(1) by (auto simp: rows_typed_def sweep_ok_def row_key_def typed_row_def)
  ultimately have "\<not> row_pending ?e rid" by (rule load_none_done) (use a in simp_all)
  then show ?thesis by (simp add: row_pending_def)
qed

definition settled :: "dispatch_config \<Rightarrow> datetime \<Rightarrow> dispatcher \<Rightarrow> nat \<times> datetime \<Rightarrow> bool" where
  "settled cfg now d row \<longleftrightarrow> (case row of (rid, created) \<Rightarrow>
     \<not> row_pending d rid \<or> has_runner d rid \<or> now - created < dc_stale_after cfg)"

lemma write_finishes:
  assumes "f \<in> set (write_if_pending rid res FAILED now fs)" "f_request_id f = rid"
  shows "f_status f \<noteq> PENDING"
proof -
  from assms(1) obtain g where "f = (if f_request_id g = rid \<and> f_status g = PENDING
      then g\<lparr>f_result_data := Some res, f_status := FAILED, f_completed_at := Some now\<rparr> else g)"
    unfolding write_if_pending_def set_map by blast
  with assms(2) show ?thesis by (cases "f_request_id g = rid \<and> f_status g = PENDING") simp_all
qed

lemma settled_row:
  assumes ok: "sweep_ok keys d" and row: "sweep_row cfg oc now tick (rid, created) (rp, d) = (rp', d')"
    and ext: "rid \<in> f_request_id ` {f \<in> set (dp_futures d). f_request_type f = EXTERNAL}"
    and wr: "True \<in> set (take COMPLETE_WRITE_ATTEMPTS (oc rid))"
  shows "settled cfg now d' (rid, created)"
  using row
proof (cases rule: sweep_row_cases)
  case (act b rp1 d1)
  have t: "tasks_ok d" using ok by (simp add: sweep_ok_def)
  note r = act_ready [OF t act(2)]
  from act(3) show ?thesis
  proof (cases rule: redispatch_cases)
    case (fail res)
    have "dp_futures d' = write_if_pending rid res FAILED now (dp_futures d1)"
      using wr by (simp add: fail(1) complete_external_future_def)
    then have "\<not> row_pending d' rid" using write_finishes by (metis row_pending_def)
    then show ?thesis by (simp add: settled_def)
  next
    case forget
    have "load_request rid (dp_futures d) = None" using forget(1) r by simp
    from sweep_ok_ids [OF ok ext this] have "\<not> row_pending d' rid" using r by (simp add: forget(2) row_pending_def)
    then show ?thesis by (simp add: settled_def)
  next
    case (again n x)
    have "has_runner d' rid"
      by (simp add: again(4) has_runner_def dispatch_def dict_get_put task_running_def)
    then show ?thesis by (simp add: settled_def)
  qed
qed (auto simp: settled_def)

lemma settled_other:
  assumes ok: "sweep_ok keys d" and row: "sweep_row cfg oc now tick (rid, created) (rp, d) = (rp', d')"
    and other: "r \<noteq> rid" and s: "settled cfg now d (r, c)"
  shows "settled cfg now d' (r, c)"
  using row
proof (cases rule: sweep_row_cases)
  case (act b rp1 d1)
  have t: "tasks_ok d" using ok by (simp add: sweep_ok_def)
  note d1 = act_ready [OF t act(2)]
  have run1: "has_runner d1 r = has_runner d r"
    using act(2) other by (auto simp: has_runner_def inflight_give_up task_running_def split: option.splits)
  have ok1: "t < length (dp_tasks d1)" if "dict_get (dp_inflight d1) r = Some t" for t
    using d1 that by (simp add: tasks_ok_def)
  have "has_runner d' r = has_runner d1 r \<and> (row_pending d' r \<longrightarrow> row_pending d1 r)"
    using act(3)
  proof (cases rule: redispatch_cases)
    case (fail res)
    have "row_pending d' r \<Longrightarrow> row_pending d1 r"
      by (auto simp: fail(1) row_pending_def complete_external_future_def write_if_pending_def split: if_splits)
    then show ?thesis by (simp add: fail(1) has_runner_def task_running_def split: option.split)
  next
    case forget
    then show ?thesis by (simp add: has_runner_def task_running_def row_pending_def split: option.split)
  next
    case (again n x)
    have inf: "dict_get (dp_inflight d') r = dict_get (dp_inflight d1) r"
      using other by (simp add: again(4) dispatch_def dict_get_put)
    have "task_running d' t = task_running d1 t" if "t < length (dp_tasks d1)" for t
      using that by (simp add: again(4) task_running_def dispatch_def nth_append)
    with inf ok1 have "has_runner d' r = has_runner d1 r" by (simp add: has_runner_def split: option.split)
    then show ?thesis by (simp add: again(4) row_pending_def dispatch_def)
  qed
  moreover have "row_pending d1 r = row_pending d r" using d1 by (simp add: row_pending_def)
  ultimately show ?thesis using s run1 by (auto simp: settled_def)
qed (use s in simp)

lemma settled_sweep:
  assumes "sweep_ok keys d" "distinct (map fst rows)" "\<forall>r. True \<in> set (take COMPLETE_WRITE_ATTEMPTS (oc r))"
    "fst ` set rows \<subseteq> {rid. \<exists>x c. (rid, EXTERNAL, x, c) \<in> set keys}"
    "fold (sweep_row cfg oc now tick) rows (rp, d) = (rp', d')"
  shows "sweep_ok keys d' \<and> (\<forall>row\<in>set rows. settled cfg now d' row) \<and>
    (\<forall>r c. r \<notin> fst ` set rows \<longrightarrow> settled cfg now d (r, c) \<longrightarrow> settled cfg now d' (r, c))"
  using assms
proof (induction rows arbitrary: rp d)
  case (Cons row rows)
  obtain rid c where row: "row = (rid, c)" by force
  obtain rp1 d1 where one: "sweep_row cfg oc now tick (rid, c) (rp, d) = (rp1, d1)" by force
  have ok1: "sweep_ok keys d1" by (rule sweep_ok_row [OF Cons.prems(1) one])
  have "\<exists>x c'. (rid, EXTERNAL, x, c') \<in> set (map row_key (dp_futures d))"
    using Cons.prems(1,4) by (auto simp: row sweep_ok_def)
  then have ext: "rid \<in> f_request_id ` {f \<in> set (dp_futures d). f_request_type f = EXTERNAL}"
    by (auto simp: row_key_def image_iff)
  have s1: "settled cfg now d1 (rid, c)" using settled_row [OF Cons.prems(1) one ext] Cons.prems(3) by blast
  have rest: "fold (sweep_row cfg oc now tick) rows (rp1, d1) = (rp', d')" using Cons.prems(5) one row by simp
  have "distinct (map fst rows)" "fst ` set rows \<subseteq> {rid. \<exists>x c. (rid, EXTERNAL, x, c) \<in> set keys}" "rid \<notin> fst ` set rows"
    using Cons.prems(2,4) row by auto
  note ih = Cons.IH [OF ok1 this(1) Cons.prems(3) this(2) rest]
  have "settled cfg now d' (rid, c)" using ih s1 \<open>rid \<notin> fst ` set rows\<close> by blast
  moreover have "settled cfg now d' (r, c')" if "r \<notin> fst ` set (row # rows)" "settled cfg now d (r, c')" for r c'
    using settled_other [OF Cons.prems(1) one _ that(2)] that(1) ih row by simp
  ultimately show ?case using ih row by auto
qed simp



text \<open>A re-dispatched request asks the engine for exactly what the client asked for: converting the
  replayed parameters gives back the stored ones, with the stored seed, whatever the random source.\<close>

theorem replay_faithful:
  assumes "sampling_params_to_types rnd p = Inr sp"
  shows "sampling_params_to_types rnd' (replay_sampling_params sp) = Inr sp"
proof -
  from assms obtain m where m: "asp_max_tokens p = Some m" "0 < m" and sp:
    "sp = \<lparr>thinking_token_budget = asp_thinking_token_budget p, temperature = asp_temperature p,
                 max_tokens = m, sp_seed = (case asp_seed p of Some s \<Rightarrow> s | None \<Rightarrow> rnd),
                 stop_tokens = (case asp_stop p of Some (Inl (t # ts)) \<Rightarrow> Some (t # ts) | _ \<Rightarrow> None),
                 stop_strings = (case asp_stop p of Some (Inr (s # ss)) \<Rightarrow> Some (s # ss) | _ \<Rightarrow> None),
                 top_k = asp_top_k p, top_p = asp_top_p p\<rparr>"
    by (auto simp: sampling_params_to_types_def split: option.splits if_splits)
  show ?thesis using m(2)
    by (auto simp: sp sampling_params_to_types_def replay_sampling_params_def
        split: option.split sum.split list.split)
qed

theorem replay_faithful_witness:
  "\<exists>sp. sampling_params_to_types 5 \<lparr>asp_thinking_token_budget = None, asp_max_tokens = Some 3, asp_seed = None,
       asp_stop = Some (Inr [''x'']), asp_temperature = 1, asp_top_k = 0, asp_top_p = 1\<rparr> = Inr sp \<and>
     sampling_params_to_types 9 (replay_sampling_params sp) = Inr sp \<and> sp_seed sp = 5"
proof -
  let ?p = "\<lparr>asp_thinking_token_budget = None, asp_max_tokens = Some 3, asp_seed = None, asp_stop = Some (Inr [''x'']),
       asp_temperature = 1, asp_top_k = 0, asp_top_p = 1\<rparr>"
  obtain sp where sp: "sampling_params_to_types 5 ?p = Inr sp" "sp_seed sp = 5"
    by (simp add: sampling_params_to_types_def)
  from replay_faithful [OF sp(1), of 9] sp show ?thesis by blast
qed

end
