(* ===== verification/Async_Trainer.thy ===== *)
theory Async_Trainer
  imports Prelude
begin

text \<open>
  The fully asynchronous trainer of \<^verbatim>\<open>skyrl/train/fully_async_trainer.py\<close>: the
  staleness manager that grants generation slots, the data loader that hands out prompts once, the
  generation workers, and the training loop that consumes their groups.  One epoch is a step relation:
  every step is the code between two suspension points of one task.  What a rollout produces is
  arbitrary.
\<close>

section \<open>Staleness manager\<close>

record rollout_stat =
  st_submitted :: int
  st_accepted :: int
  st_running :: int
  st_filtered :: int

record manager =
  mg_max_groups :: int
  mg_batch :: int
  mg_staleness :: int
  mg_stat :: rollout_stat
  mg_step :: int

definition new_manager :: "int \<Rightarrow> int \<Rightarrow> int \<Rightarrow> manager" where
  "new_manager groups batch staleness =
     \<lparr>mg_max_groups = groups, mg_batch = batch, mg_staleness = staleness,
      mg_stat = \<lparr>st_submitted = 0, st_accepted = 0, st_running = 0, st_filtered = 0\<rparr>, mg_step = 1\<rparr>"

definition manager_load :: "int \<Rightarrow> manager \<Rightarrow> manager" where
  "manager_load step mg =
     (let acc = (step - 1) * mg_batch mg
      in mg\<lparr>mg_step := step, mg_stat := (mg_stat mg)\<lparr>st_accepted := acc, st_submitted := acc\<rparr>\<rparr>)"

definition validate_state_at_epoch_end :: "int \<Rightarrow> manager \<Rightarrow> bool" where
  "validate_state_at_epoch_end step mg =
     (let s = mg_stat mg
      in st_running s = 0 \<and> st_accepted s = (step - 1) * mg_batch mg \<and> mg_step mg = step \<and>
         st_submitted s = st_accepted s + st_filtered s)"

definition compute_capacity :: "manager \<Rightarrow> int" where
  "compute_capacity mg =
     (let s = mg_stat mg;
          consumer = (mg_staleness mg + mg_step mg) * mg_batch mg;
          staleness = consumer - (st_accepted s + st_running s);
          concurrency = mg_max_groups mg - st_running s
      in min concurrency staleness)"

text \<open>\<open>None\<close> while the caller has to wait.\<close>

definition acquire_submission_slot :: "manager \<Rightarrow> manager option" where
  "acquire_submission_slot mg =
     (if compute_capacity mg \<le> 0 then None
      else let s = mg_stat mg
           in Some (mg\<lparr>mg_stat := s\<lparr>st_submitted := st_submitted s + 1, st_running := st_running s + 1\<rparr>\<rparr>))"

definition on_rollout_accepted :: "manager \<Rightarrow> manager" where
  "on_rollout_accepted mg =
     (let s = mg_stat mg in mg\<lparr>mg_stat := s\<lparr>st_accepted := st_accepted s + 1, st_running := st_running s - 1\<rparr>\<rparr>)"

definition on_rollout_filtered :: "manager \<Rightarrow> manager" where
  "on_rollout_filtered mg =
     (let s = mg_stat mg in mg\<lparr>mg_stat := s\<lparr>st_accepted := st_accepted s - 1, st_filtered := st_filtered s + 1\<rparr>\<rparr>)"

definition on_rollout_rejected :: "manager \<Rightarrow> manager" where
  "on_rollout_rejected mg = (let s = mg_stat mg in mg\<lparr>mg_stat := s\<lparr>st_running := st_running s - 1\<rparr>\<rparr>)"

definition notify_capacity_change :: "int \<Rightarrow> manager \<Rightarrow> manager" where
  "notify_capacity_change step mg = mg\<lparr>mg_step := step\<rparr>"

section \<open>Data loader\<close>

text \<open>The prompts of the wrapped loader by their uid; \<open>dl_iter\<close> is what its iterator still yields.
  The two Python sets are lists without duplicates.\<close>

record dataloader =
  dl_items :: "string list"
  dl_effective :: nat
  dl_iter :: "(nat \<times> string) list"
  dl_consumed :: "string list"
  dl_filtered :: "string list"
  dl_exhausted :: bool

definition enumerate_items :: "string list \<Rightarrow> (nat \<times> string) list" where
  "enumerate_items xs = zip [0..<length xs] xs"

definition new_dataloader :: "string list \<Rightarrow> nat \<Rightarrow> dataloader" where
  "new_dataloader items batch =
     \<lparr>dl_items = items, dl_effective = length items div batch * batch, dl_iter = enumerate_items items,
      dl_consumed = [], dl_filtered = [], dl_exhausted = False\<rparr>"

definition dataloader_load :: "string list \<Rightarrow> string list \<Rightarrow> dataloader \<Rightarrow> dataloader" where
  "dataloader_load consumed filtered dl =
     dl\<lparr>dl_consumed := consumed, dl_filtered := filtered, dl_iter := enumerate_items (dl_items dl)\<rparr>"

definition reset_at_epoch_end :: "dataloader \<Rightarrow> dataloader" where
  "reset_at_epoch_end dl =
     dl\<lparr>dl_iter := enumerate_items (dl_items dl), dl_consumed := [], dl_filtered := [], dl_exhausted := False\<rparr>"

fun next_non_consumed :: "nat \<Rightarrow> string list \<Rightarrow> (nat \<times> string) list \<Rightarrow> string option \<times> (nat \<times> string) list" where
  "next_non_consumed n seen [] = (None, [])"
| "next_non_consumed n seen ((i, uid) # rest) =
     (if n \<le> i then (None, rest)
      else if uid \<notin> set seen then (Some uid, rest) else next_non_consumed n seen rest)"

definition get_next_non_consumed_data :: "dataloader \<Rightarrow> string option \<times> dataloader" where
  "get_next_non_consumed_data dl =
     (case next_non_consumed (dl_effective dl) (dl_consumed dl) (dl_iter dl) of
        (None, rest) \<Rightarrow> (None, dl\<lparr>dl_iter := rest, dl_exhausted := True\<rparr>)
      | (Some uid, rest) \<Rightarrow> (Some uid, dl\<lparr>dl_iter := rest\<rparr>))"

text \<open>\<open>None\<close> when the assertion against duplicates fails.\<close>

fun mark_consumed_uids :: "string list \<Rightarrow> dataloader \<Rightarrow> dataloader option" where
  "mark_consumed_uids [] dl = Some dl"
| "mark_consumed_uids (uid # uids) dl =
     (if uid \<in> set (dl_consumed dl) then None
      else mark_consumed_uids uids (dl\<lparr>dl_consumed := dl_consumed dl @ [uid]\<rparr>))"

fun mark_filtered_uids :: "string list \<Rightarrow> dataloader \<Rightarrow> dataloader option" where
  "mark_filtered_uids [] dl = Some dl"
| "mark_filtered_uids (uid # uids) dl =
     (if uid \<in> set (dl_consumed dl) then None
      else mark_filtered_uids uids (dl\<lparr>dl_consumed := dl_consumed dl @ [uid], dl_filtered := dl_filtered dl @ [uid]\<rparr>))"

definition num_trained :: "dataloader \<Rightarrow> int" where
  "num_trained dl = int (length (dl_consumed dl)) - int (length (dl_filtered dl))"

section \<open>Groups\<close>

record group =
  gg_uid :: string
  gg_step :: int
  gg_rewards :: "real list + real list list"
  gg_loss_masks :: "int list list"

definition list_max :: "real list \<Rightarrow> real" where
  "list_max xs = fold max xs (hd xs)"

definition list_min :: "real list \<Rightarrow> real" where
  "list_min xs = fold min xs (hd xs)"

definition zero_variance_filter ::
  "real list \<Rightarrow> string list \<Rightarrow> int list list option \<Rightarrow> real \<Rightarrow> nat list" where
  "zero_variance_filter rewards uids masks tol =
     (let is_live = (case masks of None \<Rightarrow> replicate (length rewards) True
                     | Some ms \<Rightarrow> map (\<lambda>m. sum_list m > 0) ms);
          live_rewards = (\<lambda>uid. map (\<lambda>(u, r, l). r) (filter (\<lambda>(u, r, l). u = uid \<and> l) (zip uids (zip rewards is_live))));
          zero_variance = (\<lambda>uid. let vals = live_rewards uid
             in length vals > 1 \<and> list_max vals - list_min vals \<le> tol)
      in filter (\<lambda>i. \<not> zero_variance (uids ! i)) [0..<length uids])"

definition should_keep_group :: "real \<Rightarrow> group \<Rightarrow> bool" where
  "should_keep_group tol g =
     (let seq = (case gg_rewards g of Inr (r # rs) \<Rightarrow> map sum_list (r # rs) | Inr [] \<Rightarrow> [] | Inl rs \<Rightarrow> rs)
      in zero_variance_filter seq (replicate (length seq) (gg_uid g)) (Some (gg_loss_masks g)) tol \<noteq> [])"

section \<open>Trainer\<close>

record async_config =
  ac_workers :: nat
  ac_batch :: nat
  ac_staleness :: nat
  ac_sample_full_batch :: bool
  ac_tol :: real
  ac_epochs :: nat
  ac_max_training_steps :: "int option"

definition async_config_valid :: "async_config \<Rightarrow> bool" where
  "async_config_valid cfg = (ac_batch cfg \<le> ac_workers cfg \<and> ac_workers cfg \<le> ac_batch cfg * (ac_staleness cfg + 1))"

definition buffer_maxsize :: "async_config \<Rightarrow> nat" where
  "buffer_maxsize cfg = ac_batch cfg * (ac_staleness cfg + 1)"

datatype worker = Idle | Holding string | Generating string int | Enqueued string | Stopped

record trainer =
  tr_manager :: manager
  tr_loader :: dataloader
  tr_workers :: "worker list"
  tr_buffer :: "group list"
  tr_kept :: "group list"
  tr_global_step :: int
  tr_trained_steps :: nat
  tr_notified :: bool

definition num_steps_per_epoch :: "async_config \<Rightarrow> dataloader \<Rightarrow> nat" where
  "num_steps_per_epoch cfg dl = length (dl_items dl) div ac_batch cfg"

text \<open>The state when an epoch begins.\<close>

definition start_epoch :: "async_config \<Rightarrow> manager \<Rightarrow> dataloader \<Rightarrow> int \<Rightarrow> trainer" where
  "start_epoch cfg mg dl step =
     \<lparr>tr_manager = mg, tr_loader = dl, tr_workers = replicate (ac_workers cfg) Idle, tr_buffer = [], tr_kept = [],
      tr_global_step = step, tr_trained_steps = nat (num_trained dl div int (ac_batch cfg)), tr_notified = True\<rparr>"

definition fresh_trainer :: "async_config \<Rightarrow> string list \<Rightarrow> trainer" where
  "fresh_trainer cfg items =
     start_epoch cfg (new_manager (int (ac_workers cfg)) (int (ac_batch cfg)) (int (ac_staleness cfg)))
       (new_dataloader items (ac_batch cfg)) 1"

definition resumed_trainer :: "async_config \<Rightarrow> string list \<Rightarrow> int \<Rightarrow> string list \<Rightarrow> string list \<Rightarrow> trainer" where
  "resumed_trainer cfg items saved_step consumed filtered =
     start_epoch cfg
       (manager_load (saved_step + 1) (new_manager (int (ac_workers cfg)) (int (ac_batch cfg)) (int (ac_staleness cfg))))
       (dataloader_load consumed filtered (new_dataloader items (ac_batch cfg))) (saved_step + 1)"

text \<open>The number of iterations of the step loop of an epoch.\<close>

definition epoch_iterations :: "async_config \<Rightarrow> dataloader \<Rightarrow> nat \<Rightarrow> int \<Rightarrow> nat" where
  "epoch_iterations cfg dl epoch step = nat ((1 + int epoch) * int (num_steps_per_epoch cfg dl) + 1 - step)"

section \<open>Steps\<close>

definition set_worker :: "nat \<Rightarrow> worker \<Rightarrow> trainer \<Rightarrow> trainer" where
  "set_worker i w st = st\<lparr>tr_workers := (tr_workers st)[i := w]\<rparr>"

definition worker_pull :: "nat \<Rightarrow> trainer \<Rightarrow> trainer" where
  "worker_pull i st =
     (case get_next_non_consumed_data (tr_loader st) of
        (None, dl) \<Rightarrow> set_worker i Stopped (st\<lparr>tr_loader := dl\<rparr>)
      | (Some uid, dl) \<Rightarrow> set_worker i (Holding uid) (st\<lparr>tr_loader := dl\<rparr>))"

definition worker_acquire :: "nat \<Rightarrow> string \<Rightarrow> trainer \<Rightarrow> trainer option" where
  "worker_acquire i uid st =
     (case acquire_submission_slot (tr_manager st) of
        None \<Rightarrow> None
      | Some mg \<Rightarrow> Some (set_worker i (Generating uid (tr_global_step st)) (st\<lparr>tr_manager := mg\<rparr>)))"

text \<open>\<open>None\<close>: the buffer is full, which the code treats as a broken invariant.\<close>

definition worker_enqueue ::
  "async_config \<Rightarrow> nat \<Rightarrow> string \<Rightarrow> int \<Rightarrow> real list + real list list \<Rightarrow> int list list \<Rightarrow> trainer \<Rightarrow> trainer option" where
  "worker_enqueue cfg i uid step rewards masks st =
     (if length (tr_buffer st) < buffer_maxsize cfg
      then Some (set_worker i (Enqueued uid) (st\<lparr>tr_buffer := tr_buffer st @
             [\<lparr>gg_uid = uid, gg_step = step, gg_rewards = rewards, gg_loss_masks = masks\<rparr>]\<rparr>))
      else None)"

definition worker_accept :: "nat \<Rightarrow> trainer \<Rightarrow> trainer" where
  "worker_accept i st = set_worker i Idle (st\<lparr>tr_manager := on_rollout_accepted (tr_manager st)\<rparr>)"

text \<open>The consumer takes the next group: into the mini-batch, or dropped as filtered.\<close>

definition collect_group :: "async_config \<Rightarrow> trainer \<Rightarrow> trainer option" where
  "collect_group cfg st =
     (case tr_buffer st of
        [] \<Rightarrow> None
      | g # rest \<Rightarrow>
          if \<not> ac_sample_full_batch cfg \<or> should_keep_group (ac_tol cfg) g
          then Some (st\<lparr>tr_buffer := rest, tr_kept := tr_kept st @ [g]\<rparr>)
          else map_option (\<lambda>dl. st\<lparr>tr_buffer := rest, tr_loader := dl, tr_manager := on_rollout_filtered (tr_manager st)\<rparr>)
                 (mark_filtered_uids [gg_uid g] (tr_loader st)))"

definition train_mini_batch :: "trainer \<Rightarrow> trainer option" where
  "train_mini_batch st =
     map_option (\<lambda>dl. st\<lparr>tr_loader := dl, tr_kept := [], tr_trained_steps := Suc (tr_trained_steps st), tr_notified := False\<rparr>)
       (mark_consumed_uids (map gg_uid (tr_kept st)) (tr_loader st))"

text \<open>The end of a training step: the step counter, then the workers.\<close>

definition finish_step :: "trainer \<Rightarrow> trainer" where
  "finish_step st =
     st\<lparr>tr_global_step := tr_global_step st + 1,
       tr_manager := notify_capacity_change (tr_global_step st + 1) (tr_manager st), tr_notified := True\<rparr>"

definition discard_partial_batch :: "trainer \<Rightarrow> trainer option" where
  "discard_partial_batch st =
     map_option (\<lambda>dl. st\<lparr>tr_loader := dl, tr_kept := [],
         tr_manager := (on_rollout_filtered ^^ length (tr_kept st)) (tr_manager st)\<rparr>)
       (mark_filtered_uids (map gg_uid (tr_kept st)) (tr_loader st))"

inductive epoch_step :: "async_config \<Rightarrow> trainer \<Rightarrow> trainer \<Rightarrow> bool" for cfg where
  pull: "i < length (tr_workers st) \<Longrightarrow> tr_workers st ! i = Idle \<Longrightarrow> epoch_step cfg st (worker_pull i st)"
| acquire: "i < length (tr_workers st) \<Longrightarrow> tr_workers st ! i = Holding uid \<Longrightarrow>
    worker_acquire i uid st = Some st' \<Longrightarrow> epoch_step cfg st st'"
| enqueue: "i < length (tr_workers st) \<Longrightarrow> tr_workers st ! i = Generating uid step \<Longrightarrow>
    worker_enqueue cfg i uid step rewards masks st = Some st' \<Longrightarrow> epoch_step cfg st st'"
| accept: "i < length (tr_workers st) \<Longrightarrow> tr_workers st ! i = Enqueued uid \<Longrightarrow> epoch_step cfg st (worker_accept i st)"
| collect: "tr_notified st \<Longrightarrow> length (tr_kept st) < ac_batch cfg \<Longrightarrow> collect_group cfg st = Some st' \<Longrightarrow>
    epoch_step cfg st st'"
| train: "tr_notified st \<Longrightarrow> length (tr_kept st) = ac_batch cfg \<Longrightarrow> train_mini_batch st = Some st' \<Longrightarrow>
    epoch_step cfg st st'"
| finish: "\<not> tr_notified st \<Longrightarrow> epoch_step cfg st (finish_step st)"
| discard: "tr_notified st \<Longrightarrow> ac_sample_full_batch cfg \<Longrightarrow> tr_buffer st = [] \<Longrightarrow> set (tr_workers st) \<subseteq> {Stopped} \<Longrightarrow>
    length (tr_kept st) < ac_batch cfg \<Longrightarrow> discard_partial_batch st = Some st' \<Longrightarrow> epoch_step cfg st st'"

inductive_cases epoch_stepE: "epoch_step cfg st st'"

section \<open>Counting\<close>

fun worker_uids :: "worker \<Rightarrow> string list" where
  "worker_uids (Holding u) = [u]"
| "worker_uids (Generating u s) = [u]"
| "worker_uids _ = []"

fun generating :: "worker \<Rightarrow> int" where
  "generating (Generating u s) = 1"
| "generating _ = 0"

fun enqueued :: "worker \<Rightarrow> int" where
  "enqueued (Enqueued u) = 1"
| "enqueued _ = 0"

definition count_workers :: "(worker \<Rightarrow> int) \<Rightarrow> trainer \<Rightarrow> int" where
  "count_workers f st = sum_list (map f (tr_workers st))"

text \<open>The prompts the loader can still hand out.\<close>

definition yieldable :: "dataloader \<Rightarrow> string list" where
  "yieldable dl = map snd (filter (\<lambda>(i, u). i < dl_effective dl \<and> u \<notin> set (dl_consumed dl)) (dl_iter dl))"

definition in_flight :: "trainer \<Rightarrow> string multiset" where
  "in_flight st = mset (concat (map worker_uids (tr_workers st))) + mset (map gg_uid (tr_buffer st)) +
     mset (map gg_uid (tr_kept st))"

definition everything :: "trainer \<Rightarrow> string multiset" where
  "everything st = in_flight st + mset (dl_consumed (tr_loader st)) + mset (yieldable (tr_loader st))"

definition effective_items :: "dataloader \<Rightarrow> string list" where
  "effective_items dl = take (dl_effective dl) (dl_items dl)"

lemma count_set_worker:
  "i < length (tr_workers st) \<Longrightarrow>
     count_workers f (set_worker i w st) = count_workers f st - f (tr_workers st ! i) + f w"
  using sum_list_update_int [of i "map f (tr_workers st)" "f w"]
  by (simp add: count_workers_def set_worker_def map_update)

lemma flight_set_worker:
  assumes "i < length (tr_workers st)"
  shows "in_flight (set_worker i w st) + mset (worker_uids (tr_workers st ! i)) = in_flight st + mset (worker_uids w)"
proof -
  have "mset (concat (map worker_uids ((tr_workers st)[i := w]))) + mset (worker_uids (tr_workers st ! i)) =
      mset (concat (map worker_uids (tr_workers st))) + mset (worker_uids w)"
    using mset_concat_update [of i "map worker_uids (tr_workers st)" "worker_uids w"] assms
    by (simp add: map_update)
  then show ?thesis by (simp add: in_flight_def set_worker_def ac_simps)
qed

text \<open>The loader.\<close>

lemma next_some:
  "next_non_consumed n seen it = (Some u, rest) \<Longrightarrow>
     map snd (filter (\<lambda>(i, v). i < n \<and> v \<notin> set seen) it) = u # map snd (filter (\<lambda>(i, v). i < n \<and> v \<notin> set seen) rest)
     \<and> (\<exists>k. rest = drop k it)"
proof (induction n seen it rule: next_non_consumed.induct)
  case (2 n seen i uid it)
  show ?case
  proof (cases "\<not> n \<le> i \<and> uid \<in> set seen")
    case True
    with 2 show ?thesis by simp (metis drop_Suc_Cons)
  next
    case False
    with 2(2) show ?thesis by (auto split: if_splits intro!: exI [of _ "Suc 0"])
  qed
qed simp

lemma next_none:
  "next_non_consumed n seen it = (None, rest) \<Longrightarrow> sorted (map fst it) \<Longrightarrow>
     filter (\<lambda>(i, v). i < n \<and> v \<notin> set seen) it = [] \<and> (\<exists>k. rest = drop k it)"
proof (induction n seen it rule: next_non_consumed.induct)
  case (2 n seen i uid it)
  show ?case
  proof (cases "n \<le> i")
    case True
    with 2(3) have "\<forall>x\<in>set it. n \<le> fst x" by auto
    then have "filter (\<lambda>(i, v). i < n \<and> v \<notin> set seen) it = []" by (auto simp: filter_empty_conv)
    with 2(2) True show ?thesis by (auto intro!: exI [of _ "Suc 0"])
  next
    case False
    with 2(2) have "uid \<in> set seen" by (auto split: if_splits)
    with 2 False show ?thesis by simp (metis drop_Suc_Cons)
  qed
qed simp

lemma mark_consumed_some:
  "mset us + mset (dl_consumed dl) = M \<Longrightarrow> (\<forall>x. count M x \<le> 1) \<Longrightarrow>
     mark_consumed_uids us dl = Some (dl\<lparr>dl_consumed := dl_consumed dl @ us\<rparr>)"
proof (induction us arbitrary: dl)
  case (Cons u us)
  have "count M u \<le> 1" using Cons.prems(2) by blast
  then have "u \<notin> set (dl_consumed dl)" unfolding Cons.prems(1) [symmetric] by (auto simp: count_eq_zero_iff [symmetric] simp del: count_eq_zero_iff)
  moreover have "mset us + mset (dl_consumed (dl\<lparr>dl_consumed := dl_consumed dl @ [u]\<rparr>)) = M"
    using Cons.prems(1) by (simp add: ac_simps)
  ultimately show ?case using Cons.IH [OF _ Cons.prems(2)] by simp
qed simp

lemma mark_filtered_some:
  "mset us + mset (dl_consumed dl) = M \<Longrightarrow> (\<forall>x. count M x \<le> 1) \<Longrightarrow>
     mark_filtered_uids us dl = Some (dl\<lparr>dl_consumed := dl_consumed dl @ us, dl_filtered := dl_filtered dl @ us\<rparr>)"
proof (induction us arbitrary: dl)
  case (Cons u us)
  have "count M u \<le> 1" using Cons.prems(2) by blast
  then have "u \<notin> set (dl_consumed dl)" unfolding Cons.prems(1) [symmetric] by (auto simp: count_eq_zero_iff [symmetric] simp del: count_eq_zero_iff)
  moreover have "mset us + mset (dl_consumed (dl\<lparr>dl_consumed := dl_consumed dl @ [u], dl_filtered := dl_filtered dl @ [u]\<rparr>)) = M"
    using Cons.prems(1) by (simp add: ac_simps)
  ultimately show ?case using Cons.IH [OF _ Cons.prems(2)] by simp
qed simp

text \<open>Marking prompts that the loader no longer yields keeps what it yields.\<close>

lemma yieldable_mark:
  assumes "set us \<inter> set (yieldable dl) = {}"
  shows "yieldable (dl\<lparr>dl_consumed := dl_consumed dl @ us\<rparr>) = yieldable dl"
proof -
  have "filter (\<lambda>(i, u). i < dl_effective dl \<and> u \<notin> set (dl_consumed dl @ us)) (dl_iter dl) =
      filter (\<lambda>(i, u). i < dl_effective dl \<and> u \<notin> set (dl_consumed dl)) (dl_iter dl)"
    by (rule filter_cong [OF refl]) (use assms in \<open>force simp: yieldable_def\<close>)
  then show ?thesis by (simp add: yieldable_def)
qed

section \<open>The invariant of an epoch\<close>

definition pending_batch :: "async_config \<Rightarrow> trainer \<Rightarrow> int" where
  "pending_batch cfg st = (if tr_notified st then 0 else int (ac_batch cfg))"

definition acct_inv :: "async_config \<Rightarrow> int \<Rightarrow> trainer \<Rightarrow> bool" where
  "acct_inv cfg base st \<longleftrightarrow>
     (let mg = tr_manager st; s = mg_stat mg; B = int (ac_batch cfg)
      in mg_max_groups mg = int (ac_workers cfg) \<and> mg_batch mg = B \<and> mg_staleness mg = int (ac_staleness cfg) \<and>
         mg_step mg = tr_global_step st \<and>
         st_running s = count_workers generating st + count_workers enqueued st \<and>
         st_accepted s + count_workers enqueued st = B * (tr_global_step st - 1) + int (length (tr_buffer st))
           + int (length (tr_kept st)) + pending_batch cfg st \<and>
         st_accepted s + (count_workers generating st + count_workers enqueued st)
           \<le> (int (ac_staleness cfg) + tr_global_step st) * B \<and>
         st_submitted s = st_accepted s + st_filtered s + st_running s \<and>
         length (tr_kept st) \<le> ac_batch cfg \<and> (\<not> tr_notified st \<longrightarrow> tr_kept st = []) \<and>
         num_trained (tr_loader st) = B * int (tr_trained_steps st) \<and>
         base + int (tr_trained_steps st) = tr_global_step st + (if tr_notified st then 0 else 1))"

definition data_inv :: "string list \<Rightarrow> trainer \<Rightarrow> bool" where
  "data_inv items st \<longleftrightarrow>
     (let dl = tr_loader st
      in dl_items dl = items \<and> distinct items \<and> everything st = mset (effective_items dl) \<and>
         (\<exists>k. dl_iter dl = drop k (enumerate_items items)) \<and>
         (Stopped \<in> set (tr_workers st) \<longrightarrow> yieldable dl = []))"

lemma count_generating: "0 \<le> count_workers generating st" "0 \<le> count_workers enqueued st"
proof -
  have "0 \<le> generating w" "0 \<le> enqueued w" for w by (cases w; simp)+
  then have "\<forall>x\<in>set (map generating ws). 0 \<le> x" "\<forall>x\<in>set (map enqueued ws). 0 \<le> x" for ws by auto
  then show "0 \<le> count_workers generating st" "0 \<le> count_workers enqueued st"
    unfolding count_workers_def by (metis sum_list_nonneg)+
qed

lemma count_pos: "w \<in> set (tr_workers st) \<Longrightarrow> f w = 1 \<Longrightarrow> (\<And>x. 0 \<le> f x) \<Longrightarrow> 1 \<le> count_workers f st"
proof -
  assume "w \<in> set (tr_workers st)" "f w = 1" "\<And>x. 0 \<le> f x"
  then have "f w \<le> sum_list (map f (tr_workers st))"
    by (intro member_le_sum_list) auto
  with \<open>f w = 1\<close> show ?thesis by (simp add: count_workers_def)
qed

lemma sorted_iter: "sorted (map fst (drop k (enumerate_items items)))"
  by (simp add: enumerate_items_def drop_map [symmetric] sorted_wrt_drop flip: drop_map)

lemma everything_unique: "data_inv items st \<Longrightarrow> count (everything st) u \<le> 1"
proof -
  assume "data_inv items st"
  then have "distinct (effective_items (tr_loader st))" "everything st = mset (effective_items (tr_loader st))"
    by (simp_all add: data_inv_def Let_def effective_items_def)
  then show ?thesis using distinct_count_atmost_1 [of "effective_items (tr_loader st)"] by simp
qed

lemma set_worker_simps [simp]:
  "tr_manager (set_worker i w st) = tr_manager st" "tr_loader (set_worker i w st) = tr_loader st"
  "tr_buffer (set_worker i w st) = tr_buffer st" "tr_kept (set_worker i w st) = tr_kept st"
  "tr_global_step (set_worker i w st) = tr_global_step st" "tr_trained_steps (set_worker i w st) = tr_trained_steps st"
  "tr_notified (set_worker i w st) = tr_notified st" "tr_workers (set_worker i w st) = (tr_workers st)[i := w]"
  by (simp_all add: set_worker_def)

lemma count_cong: "tr_workers st' = tr_workers st \<Longrightarrow> count_workers f st' = count_workers f st"
  by (simp add: count_workers_def)

lemma stopped_update: "Stopped \<in> set (ws[i := w]) \<Longrightarrow> w \<noteq> Stopped \<Longrightarrow> Stopped \<in> set ws"
  using set_update_subset_insert [of ws i w] by auto

lemma get_next_some:
  assumes "get_next_non_consumed_data dl = (Some u, dl')"
  shows "\<exists>k. dl' = dl\<lparr>dl_iter := drop k (dl_iter dl)\<rparr> \<and> yieldable dl = u # yieldable dl'"
proof -
  from assms obtain rest where r: "next_non_consumed (dl_effective dl) (dl_consumed dl) (dl_iter dl) = (Some u, rest)"
    "dl' = dl\<lparr>dl_iter := rest\<rparr>"
    by (auto simp: get_next_non_consumed_data_def split: prod.splits option.splits)
  from next_some [OF r(1)] r(2) show ?thesis by (auto simp: yieldable_def)
qed

text \<open>The accounting depends only on the counts.\<close>

lemma acct_inv_cong:
  assumes "tr_manager st' = tr_manager st" "count_workers generating st' = count_workers generating st"
    "count_workers enqueued st' = count_workers enqueued st" "length (tr_buffer st') = length (tr_buffer st)"
    "tr_kept st' = tr_kept st" "tr_notified st' = tr_notified st" "num_trained (tr_loader st') = num_trained (tr_loader st)"
    "tr_global_step st' = tr_global_step st" "tr_trained_steps st' = tr_trained_steps st"
  shows "acct_inv cfg base st' = acct_inv cfg base st"
  unfolding acct_inv_def pending_batch_def Let_def assms ..

lemma get_next_none:
  "get_next_non_consumed_data dl = (None, dl') \<Longrightarrow> sorted (map fst (dl_iter dl)) \<Longrightarrow>
     \<exists>k. dl' = dl\<lparr>dl_iter := drop k (dl_iter dl), dl_exhausted := True\<rparr> \<and> yieldable dl = [] \<and> yieldable dl' = []"
proof -
  assume a: "get_next_non_consumed_data dl = (None, dl')" "sorted (map fst (dl_iter dl))"
  then obtain rest where r: "next_non_consumed (dl_effective dl) (dl_consumed dl) (dl_iter dl) = (None, rest)"
    "dl' = dl\<lparr>dl_iter := rest, dl_exhausted := True\<rparr>"
    by (auto simp: get_next_non_consumed_data_def split: prod.splits option.splits)
  from next_none [OF r(1) a(2)] obtain k where
    k: "filter (\<lambda>(i, v). i < dl_effective dl \<and> v \<notin> set (dl_consumed dl)) (dl_iter dl) = []" "rest = drop k (dl_iter dl)"
    by blast
  have "filter P (drop k xs) = []" if "filter P xs = []" for P and xs :: "(nat \<times> string) list"
    using that by (auto simp: filter_empty_conv dest: in_set_dropD)
  with k r(2) show ?thesis by (auto simp: yieldable_def)
qed

lemma pull_inv:
  assumes i: "i < length (tr_workers st)" "tr_workers st ! i = Idle" and inv: "acct_inv cfg base st" "data_inv items st"
  shows "acct_inv cfg base (worker_pull i st) \<and> data_inv items (worker_pull i st)"
proof -
  let ?dl = "tr_loader st"
  obtain k where iter: "dl_iter ?dl = drop k (enumerate_items items)" using inv(2) by (auto simp: data_inv_def Let_def)
  obtain r dl where get: "get_next_non_consumed_data ?dl = (r, dl)" by force
  show ?thesis
  proof (cases r)
    case None
    from get_next_none [of ?dl dl] get None iter sorted_iter obtain j where
      dl: "dl = ?dl\<lparr>dl_iter := drop j (dl_iter ?dl), dl_exhausted := True\<rparr>" "yieldable ?dl = []" "yieldable dl = []" by auto
    let ?st = "st\<lparr>tr_loader := dl\<rparr>"
    have p: "worker_pull i st = set_worker i Stopped ?st" using get None by (simp add: worker_pull_def)
    have c: "count_workers f (worker_pull i st) = count_workers f st" if "f Idle = 0" "f Stopped = 0" for f
      unfolding p using count_set_worker [of i ?st f Stopped] i that by (simp add: count_cong [of ?st st])
    have f: "in_flight (worker_pull i st) = in_flight st"
      unfolding p using flight_set_worker [of i ?st Stopped] i by (simp add: in_flight_def)
    have "acct_inv cfg base (worker_pull i st)"
      by (subst acct_inv_cong [of _ st]) (use inv(1) c in \<open>simp_all add: p dl(1) num_trained_def\<close>)
    have "dl_consumed dl = dl_consumed ?dl" by (simp add: dl(1))
    then have "everything (worker_pull i st) = everything st"
      by (simp add: everything_def f) (simp add: p dl(2,3))
    moreover have "\<exists>k. dl_iter dl = drop k (enumerate_items items)" using iter by (auto simp: dl(1))
    ultimately have "data_inv items (worker_pull i st)" using inv(2) dl(3)
      unfolding data_inv_def Let_def by (simp add: p) (simp add: dl(1) effective_items_def)
    with \<open>acct_inv cfg base (worker_pull i st)\<close> show ?thesis ..
  next
    case (Some u)
    from get_next_some [of ?dl u dl] get Some obtain j where
      dl: "dl = ?dl\<lparr>dl_iter := drop j (dl_iter ?dl)\<rparr>" "yieldable ?dl = u # yieldable dl" by auto
    let ?st = "st\<lparr>tr_loader := dl\<rparr>"
    have p: "worker_pull i st = set_worker i (Holding u) ?st" using get Some by (simp add: worker_pull_def)
    have c: "count_workers f (worker_pull i st) = count_workers f st" if "f Idle = 0" "f (Holding u) = 0" for f
      unfolding p using count_set_worker [of i ?st f "Holding u"] i that by (simp add: count_cong [of ?st st])
    have f: "in_flight (worker_pull i st) = in_flight st + {#u#}"
      unfolding p using flight_set_worker [of i ?st "Holding u"] i by (simp add: in_flight_def)
    have "acct_inv cfg base (worker_pull i st)"
      by (subst acct_inv_cong [of _ st]) (use inv(1) c in \<open>simp_all add: p dl(1) num_trained_def\<close>)
    moreover have "dl_consumed dl = dl_consumed ?dl" by (simp add: dl(1))
    then have "everything (worker_pull i st) = everything st"
      by (simp add: everything_def f) (simp add: p dl(2))
    moreover have "Stopped \<notin> set (tr_workers (worker_pull i st))"
      using inv(2) dl(2) stopped_update [of "tr_workers st" i "Holding u"] by (auto simp: p data_inv_def Let_def)
    moreover have "\<exists>k. dl_iter dl = drop k (enumerate_items items)" using iter by (auto simp: dl(1))
    ultimately show ?thesis using inv(2)
      unfolding data_inv_def Let_def by (simp add: p) (simp add: dl(1) effective_items_def)
  qed
qed

lemma acquire_inv:
  assumes i: "i < length (tr_workers st)" "tr_workers st ! i = Holding u" and acq: "worker_acquire i u st = Some st'"
    and inv: "acct_inv cfg base st" "data_inv items st"
  shows "acct_inv cfg base st' \<and> data_inv items st'"
proof -
  let ?s = "mg_stat (tr_manager st)"
  from acq obtain mg where mg: "acquire_submission_slot (tr_manager st) = Some mg"
    and st': "st' = set_worker i (Generating u (tr_global_step st)) (st\<lparr>tr_manager := mg\<rparr>)"
    by (auto simp: worker_acquire_def split: option.splits)
  let ?st = "st\<lparr>tr_manager := mg\<rparr>"
  have cap: "0 < compute_capacity (tr_manager st)" and
    mg': "mg = (tr_manager st)\<lparr>mg_stat := ?s\<lparr>st_submitted := st_submitted ?s + 1, st_running := st_running ?s + 1\<rparr>\<rparr>"
    using mg by (auto simp: acquire_submission_slot_def Let_def split: if_splits)
  have c: "count_workers generating st' = count_workers generating st + 1" "count_workers enqueued st' = count_workers enqueued st"
    unfolding st' using count_set_worker [of i ?st _ "Generating u (tr_global_step st)"] i
    by (simp_all add: count_cong [of ?st st])
  have f: "in_flight st' = in_flight st"
    unfolding st' using flight_set_worker [of i ?st "Generating u (tr_global_step st)"] i by (simp add: in_flight_def)
  have "acct_inv cfg base st'"
    using inv(1) cap unfolding acct_inv_def Let_def c
    by (simp add: st' mg' pending_batch_def compute_capacity_def Let_def)
  moreover have "data_inv items st'"
    using inv(2) stopped_update [of "tr_workers st" i "Generating u (tr_global_step st)"]
    unfolding data_inv_def Let_def everything_def f by (auto simp: st')
  ultimately show ?thesis ..
qed

lemma enqueue_inv:
  assumes i: "i < length (tr_workers st)" "tr_workers st ! i = Generating u s" and enq: "worker_enqueue cfg i u s r m st = Some st'"
    and inv: "acct_inv cfg base st" "data_inv items st"
  shows "acct_inv cfg base st' \<and> data_inv items st'"
proof -
  define g where "g = \<lparr>gg_uid = u, gg_step = s, gg_rewards = r, gg_loss_masks = m\<rparr>"
  let ?st = "st\<lparr>tr_buffer := tr_buffer st @ [g]\<rparr>"
  have st': "st' = set_worker i (Enqueued u) ?st" using enq by (auto simp: worker_enqueue_def g_def split: if_splits)
  have c: "count_workers generating st' = count_workers generating st - 1" "count_workers enqueued st' = count_workers enqueued st + 1"
    unfolding st' using count_set_worker [of i ?st _ "Enqueued u"] i by (simp_all add: count_cong [of ?st st])
  have f: "in_flight st' = in_flight st"
    unfolding st' using flight_set_worker [of i ?st "Enqueued u"] i by (simp add: in_flight_def g_def)
  have "acct_inv cfg base st'"
    using inv(1) unfolding acct_inv_def Let_def c by (simp add: st' pending_batch_def)
  moreover have "data_inv items st'"
    using inv(2) stopped_update [of "tr_workers st" i "Enqueued u"]
    unfolding data_inv_def Let_def everything_def f by (auto simp: st')
  ultimately show ?thesis ..
qed

lemma accept_inv:
  assumes i: "i < length (tr_workers st)" "tr_workers st ! i = Enqueued u" and inv: "acct_inv cfg base st" "data_inv items st"
  shows "acct_inv cfg base (worker_accept i st) \<and> data_inv items (worker_accept i st)"
proof -
  let ?st = "st\<lparr>tr_manager := on_rollout_accepted (tr_manager st)\<rparr>"
  have st': "worker_accept i st = set_worker i Idle ?st" by (simp add: worker_accept_def)
  have c: "count_workers generating (worker_accept i st) = count_workers generating st"
    "count_workers enqueued (worker_accept i st) = count_workers enqueued st - 1"
    unfolding st' using count_set_worker [of i ?st _ Idle] i by (simp_all add: count_cong [of ?st st])
  have f: "in_flight (worker_accept i st) = in_flight st"
    unfolding st' using flight_set_worker [of i ?st Idle] i by (simp add: in_flight_def)
  have "acct_inv cfg base (worker_accept i st)"
    using inv(1) unfolding acct_inv_def Let_def c by (simp add: st' pending_batch_def on_rollout_accepted_def Let_def)
  moreover have "data_inv items (worker_accept i st)"
    using inv(2) stopped_update [of "tr_workers st" i Idle]
    unfolding data_inv_def Let_def everything_def f by (auto simp: st')
  ultimately show ?thesis ..
qed

lemma filtered_many:
  "(on_rollout_filtered ^^ n) mg = mg\<lparr>mg_stat := (mg_stat mg)\<lparr>st_accepted := st_accepted (mg_stat mg) - int n,
     st_filtered := st_filtered (mg_stat mg) + int n\<rparr>\<rparr>"
  by (induction n) (simp_all add: on_rollout_filtered_def Let_def)

text \<open>Prompts in flight can always be marked, and marking them keeps what the loader yields.\<close>

lemma flight_disjoint:
  assumes "data_inv items st" "mset us \<subseteq># in_flight st"
  shows "\<forall>x. count (mset us + mset (dl_consumed (tr_loader st))) x \<le> 1" "set us \<inter> set (yieldable (tr_loader st)) = {}"
proof -
  have le: "count (mset us) x + count (mset (dl_consumed (tr_loader st))) x + count (mset (yieldable (tr_loader st))) x \<le> 1" for x
    using everything_unique [OF assms(1), of x] mset_subset_eq_count [OF assms(2), of x] by (simp add: everything_def)
  then show "\<forall>x. count (mset us + mset (dl_consumed (tr_loader st))) x \<le> 1" by (metis add_leD1 count_union)
  show "set us \<inter> set (yieldable (tr_loader st)) = {}"
  proof (rule ccontr)
    assume "set us \<inter> set (yieldable (tr_loader st)) \<noteq> {}"
    then obtain x where "x \<in># mset us" "x \<in># mset (yieldable (tr_loader st))" by auto
    then have "1 \<le> count (mset us) x" "1 \<le> count (mset (yieldable (tr_loader st))) x"
      by (simp_all add: Suc_le_eq count_greater_zero_iff del: set_mset_mset)
    with le [of x] show False by linarith
  qed
qed

lemma data_inv_mark:
  assumes inv: "data_inv items st" and sub: "in_flight st = in_flight st' + mset us"
    and ld: "tr_loader st' = (tr_loader st)\<lparr>dl_consumed := dl_consumed (tr_loader st) @ us, dl_filtered := fs\<rparr>"
    and w: "tr_workers st' = tr_workers st"
  shows "data_inv items st'"
proof -
  let ?dl = "tr_loader st"
  have y: "yieldable (tr_loader st') = yieldable ?dl"
    using yieldable_mark [OF flight_disjoint(2) [OF inv, of us]] sub by (simp add: ld yieldable_def)
  have "everything st' = everything st" unfolding everything_def y using sub by (simp add: ld ac_simps)
  with inv show ?thesis unfolding data_inv_def Let_def y w by (simp add: ld effective_items_def)
qed

lemma collect_inv:
  assumes n: "tr_notified st" "length (tr_kept st) < ac_batch cfg" and col: "collect_group cfg st = Some st'"
    and inv: "acct_inv cfg base st" "data_inv items st"
  shows "acct_inv cfg base st' \<and> data_inv items st'"
proof -
  from col obtain g rest where b: "tr_buffer st = g # rest" by (auto simp: collect_group_def split: list.splits)
  show ?thesis
  proof (cases "\<not> ac_sample_full_batch cfg \<or> should_keep_group (ac_tol cfg) g")
    case True
    with col b have st': "st' = st\<lparr>tr_buffer := rest, tr_kept := tr_kept st @ [g]\<rparr>" by (simp add: collect_group_def)
    have "in_flight st' = in_flight st" by (simp add: st' in_flight_def b ac_simps)
    then have "data_inv items st'" using inv(2) by (simp add: data_inv_def everything_def st')
    moreover have "count_workers f st' = count_workers f st" for f by (simp add: st' count_workers_def)
    then have "acct_inv cfg base st'"
      using inv(1) n unfolding acct_inv_def Let_def by (simp add: st' b pending_batch_def)
    ultimately show ?thesis by blast
  next
    case False
    have sub: "mset [gg_uid g] \<subseteq># in_flight st" by (simp add: in_flight_def b)
    define dl where "dl = (tr_loader st)\<lparr>dl_consumed := dl_consumed (tr_loader st) @ [gg_uid g],
        dl_filtered := dl_filtered (tr_loader st) @ [gg_uid g]\<rparr>"
    have "mark_filtered_uids [gg_uid g] (tr_loader st) = Some dl"
      unfolding dl_def by (rule mark_filtered_some [OF refl flight_disjoint(1) [OF inv(2) sub]])
    with col b False have st': "st' = st\<lparr>tr_buffer := rest, tr_loader := dl, tr_manager := on_rollout_filtered (tr_manager st)\<rparr>"
      by (simp add: collect_group_def del: mark_filtered_uids.simps)
    have "data_inv items st'"
      by (rule data_inv_mark [OF inv(2), of _ "[gg_uid g]"]) (simp_all add: st' dl_def in_flight_def b)
    moreover have "count_workers f st' = count_workers f st" for f by (simp add: st' count_workers_def)
    then have "acct_inv cfg base st'"
      using inv(1) unfolding acct_inv_def Let_def
      by (simp add: st' dl_def b pending_batch_def on_rollout_filtered_def Let_def num_trained_def)
    ultimately show ?thesis by blast
  qed
qed

lemma train_inv:
  assumes n: "tr_notified st" "length (tr_kept st) = ac_batch cfg" and tr: "train_mini_batch st = Some st'"
    and inv: "acct_inv cfg base st" "data_inv items st"
  shows "acct_inv cfg base st' \<and> data_inv items st'"
proof -
  let ?us = "map gg_uid (tr_kept st)"
  have sub: "mset ?us \<subseteq># in_flight st" by (simp add: in_flight_def)
  have "mark_consumed_uids ?us (tr_loader st) = Some ((tr_loader st)\<lparr>dl_consumed := dl_consumed (tr_loader st) @ ?us\<rparr>)"
    by (rule mark_consumed_some [OF refl flight_disjoint(1) [OF inv(2) sub]])
  with tr have st': "st' = st\<lparr>tr_loader := (tr_loader st)\<lparr>dl_consumed := dl_consumed (tr_loader st) @ ?us\<rparr>, tr_kept := [],
      tr_trained_steps := Suc (tr_trained_steps st), tr_notified := False\<rparr>" by (simp add: train_mini_batch_def)
  have "data_inv items st'"
    by (rule data_inv_mark [OF inv(2), of _ ?us "dl_filtered (tr_loader st)"]) (simp_all add: st' in_flight_def)
  moreover have "count_workers f st' = count_workers f st" for f by (simp add: st' count_workers_def)
  then have "acct_inv cfg base st'"
    using inv(1) n unfolding acct_inv_def Let_def by (simp add: st' pending_batch_def num_trained_def algebra_simps)
  ultimately show ?thesis by blast
qed

lemma finish_inv:
  assumes "\<not> tr_notified st" and inv: "acct_inv cfg base st" "data_inv items st"
  shows "acct_inv cfg base (finish_step st) \<and> data_inv items (finish_step st)"
proof -
  have "count_workers f (finish_step st) = count_workers f st" for f by (simp add: finish_step_def count_workers_def)
  then have "acct_inv cfg base (finish_step st)"
    using inv(1) assms(1) unfolding acct_inv_def Let_def
    by (simp add: finish_step_def pending_batch_def notify_capacity_change_def algebra_simps)
  moreover have "in_flight (finish_step st) = in_flight st" by (simp add: finish_step_def in_flight_def)
  then have "data_inv items (finish_step st)"
    using inv(2) by (simp add: data_inv_def everything_def) (simp add: finish_step_def)
  ultimately show ?thesis by blast
qed

lemma discard_inv:
  assumes n: "tr_notified st" and dis: "discard_partial_batch st = Some st'" and inv: "acct_inv cfg base st" "data_inv items st"
  shows "acct_inv cfg base st' \<and> data_inv items st'"
proof -
  let ?us = "map gg_uid (tr_kept st)"
  have sub: "mset ?us \<subseteq># in_flight st" by (simp add: in_flight_def)
  define dl where "dl = (tr_loader st)\<lparr>dl_consumed := dl_consumed (tr_loader st) @ ?us,
      dl_filtered := dl_filtered (tr_loader st) @ ?us\<rparr>"
  have "mark_filtered_uids ?us (tr_loader st) = Some dl"
    unfolding dl_def by (rule mark_filtered_some [OF refl flight_disjoint(1) [OF inv(2) sub]])
  with dis have st': "st' = st\<lparr>tr_loader := dl, tr_kept := [],
      tr_manager := (on_rollout_filtered ^^ length (tr_kept st)) (tr_manager st)\<rparr>" by (simp add: discard_partial_batch_def)
  have "data_inv items st'"
    by (rule data_inv_mark [OF inv(2), of _ ?us]) (simp_all add: st' dl_def in_flight_def)
  moreover have "count_workers f st' = count_workers f st" for f by (simp add: st' count_workers_def)
  then have "acct_inv cfg base st'"
    using inv(1) n unfolding acct_inv_def Let_def
    by (simp add: st' dl_def pending_batch_def filtered_many num_trained_def)
  ultimately show ?thesis by blast
qed

lemma epoch_step_inv:
  assumes "epoch_step cfg st st'" "acct_inv cfg base st" "data_inv items st"
  shows "acct_inv cfg base st' \<and> data_inv items st'"
  using assms(1)
proof cases
  case (pull i) then show ?thesis using pull_inv assms(2,3) by blast
next
  case (acquire i uid) then show ?thesis using acquire_inv assms(2,3) by blast
next
  case (enqueue i uid step rewards masks) then show ?thesis using enqueue_inv assms(2,3) by blast
next
  case (accept i uid) then show ?thesis using accept_inv assms(2,3) by blast
next
  case collect then show ?thesis using collect_inv assms(2,3) by blast
next
  case train then show ?thesis using train_inv assms(2,3) by blast
next
  case finish then show ?thesis using finish_inv assms(2,3) by blast
next
  case discard then show ?thesis using discard_inv assms(2,3) by blast
qed

lemma epoch_run_inv:
  "(epoch_step cfg)\<^sup>*\<^sup>* st st' \<Longrightarrow> acct_inv cfg base st \<Longrightarrow> data_inv items st \<Longrightarrow> acct_inv cfg base st' \<and> data_inv items st'"
proof (induction rule: rtranclp_induct)
  case (step y z)
  then show ?case using epoch_step_inv [OF step(2)] by blast
qed simp

section \<open>Starting an epoch\<close>

lemma yield_all:
  "map snd (filter (\<lambda>(i, u). i < n \<and> P u) (enumerate_items xs)) = filter P (take n xs)"
proof (induction xs rule: rev_induct)
  case (snoc x xs)
  have "enumerate_items (xs @ [x]) = enumerate_items xs @ [(length xs, x)]" by (simp add: enumerate_items_def)
  moreover have "take (n - length xs) [x] = (if length xs < n then [x] else [])" by (simp add: take_Cons')
  ultimately show ?case using snoc by simp
qed (simp add: enumerate_items_def)

lemma distinct_if_count: "(\<And>a. count (mset xs) a \<le> 1) \<Longrightarrow> distinct xs"
proof (induction xs)
  case (Cons x xs)
  have "count (mset xs) a \<le> 1" for a
    by (rule order_trans [OF _ Cons.prems [of a]]) simp
  moreover have "count (mset xs) x = 0" using Cons.prems [of x] by simp
  ultimately show ?case using Cons.IH by (simp add: count_eq_zero_iff)
qed simp

lemma split_consumed:
  assumes "distinct xs" "distinct cs" "set cs \<subseteq> set xs"
  shows "mset cs + mset (filter (\<lambda>u. u \<notin> set cs) xs) = mset xs"
proof -
  have "mset cs = mset (filter (\<lambda>u. u \<in> set cs) xs)"
    using assms by (subst set_eq_iff_mset_eq_distinct [symmetric]) auto
  then show ?thesis by simp
qed

definition loader_ready :: "async_config \<Rightarrow> string list \<Rightarrow> dataloader \<Rightarrow> bool" where
  "loader_ready cfg items dl \<longleftrightarrow> dl_items dl = items \<and> distinct items \<and> dl_iter dl = enumerate_items items \<and>
     dl_effective dl = length items div ac_batch cfg * ac_batch cfg \<and>
     distinct (dl_consumed dl) \<and> set (dl_consumed dl) \<subseteq> set (effective_items dl) \<and>
     0 \<le> num_trained dl \<and> int (ac_batch cfg) dvd num_trained dl"

definition manager_ready :: "async_config \<Rightarrow> int \<Rightarrow> manager \<Rightarrow> bool" where
  "manager_ready cfg step mg \<longleftrightarrow> mg_max_groups mg = int (ac_workers cfg) \<and> mg_batch mg = int (ac_batch cfg) \<and>
     mg_staleness mg = int (ac_staleness cfg) \<and> validate_state_at_epoch_end step mg"

lemma start_inv:
  assumes "loader_ready cfg items dl" "manager_ready cfg step mg"
  shows "acct_inv cfg (step - int (tr_trained_steps (start_epoch cfg mg dl step))) (start_epoch cfg mg dl step)
    \<and> data_inv items (start_epoch cfg mg dl step)"
proof -
  let ?st = "start_epoch cfg mg dl step"
  have c: "count_workers generating ?st = 0" "count_workers enqueued ?st = 0"
    by (simp_all add: count_workers_def start_epoch_def sum_list_replicate)
  have n: "num_trained dl = int (ac_batch cfg) * int (nat (num_trained dl div int (ac_batch cfg)))"
    using assms(1) by (simp add: loader_ready_def pos_imp_zdiv_nonneg_iff div_int_pos_iff)
  have cap: "(step - 1) * int (ac_batch cfg) \<le> (int (ac_staleness cfg) + step) * int (ac_batch cfg)"
    by (rule mult_right_mono) simp_all
  have m: "mg_max_groups mg = int (ac_workers cfg)" "mg_batch mg = int (ac_batch cfg)"
     "mg_staleness mg = int (ac_staleness cfg)" "st_running (mg_stat mg) = 0"
     "st_accepted (mg_stat mg) = (step - 1) * int (ac_batch cfg)" "mg_step mg = step"
     "st_submitted (mg_stat mg) = st_accepted (mg_stat mg) + st_filtered (mg_stat mg)"
    using assms(2) by (simp_all add: manager_ready_def validate_state_at_epoch_end_def Let_def)
  have "acct_inv cfg (step - int (tr_trained_steps ?st)) ?st"
    unfolding acct_inv_def Let_def c using m n cap by (simp add: start_epoch_def pending_batch_def mult.commute)
  moreover have "everything ?st = mset (effective_items dl)"
  proof -
    have "in_flight ?st = {#}" by (induction "ac_workers cfg") (simp_all add: in_flight_def start_epoch_def)
    moreover have "yieldable dl = filter (\<lambda>u. u \<notin> set (dl_consumed dl)) (effective_items dl)"
      using assms(1) by (simp add: loader_ready_def yieldable_def yield_all effective_items_def)
    moreover have "mset (dl_consumed dl) + mset (filter (\<lambda>u. u \<notin> set (dl_consumed dl)) (effective_items dl)) =
        mset (effective_items dl)"
      by (rule split_consumed) (use assms(1) in \<open>auto simp: loader_ready_def effective_items_def\<close>)
    moreover have "tr_loader ?st = dl" by (simp add: start_epoch_def)
    ultimately show ?thesis by (simp add: everything_def)
  qed
  then have "data_inv items ?st"
    using assms(1) unfolding data_inv_def Let_def by (simp add: start_epoch_def loader_ready_def) (metis drop0)
  ultimately show ?thesis by blast
qed

definition misc_inv :: "async_config \<Rightarrow> string list \<Rightarrow> trainer \<Rightarrow> bool" where
  "misc_inv cfg items st \<longleftrightarrow> length (tr_workers st) = ac_workers cfg \<and>
     dl_effective (tr_loader st) = length items div ac_batch cfg * ac_batch cfg \<and>
     (\<not> ac_sample_full_batch cfg \<longrightarrow> dl_filtered (tr_loader st) = [])"

lemma mark_consumed_frame:
  "mark_consumed_uids us dl = Some dl' \<Longrightarrow> dl_filtered dl' = dl_filtered dl \<and> dl_effective dl' = dl_effective dl \<and> dl_items dl' = dl_items dl"
  by (induction us arbitrary: dl) (auto split: if_splits)

lemma mark_filtered_frame:
  "mark_filtered_uids us dl = Some dl' \<Longrightarrow> dl_effective dl' = dl_effective dl \<and> dl_items dl' = dl_items dl"
  by (induction us arbitrary: dl) (auto split: if_splits)

lemma get_next_frame:
  "get_next_non_consumed_data dl = (r, dl') \<Longrightarrow>
     dl_filtered dl' = dl_filtered dl \<and> dl_effective dl' = dl_effective dl \<and> dl_items dl' = dl_items dl"
  by (auto simp: get_next_non_consumed_data_def split: prod.splits option.splits)

lemma misc_step:
  assumes "epoch_step cfg st st'" "misc_inv cfg items st"
  shows "misc_inv cfg items st'"
  using assms(1)
proof cases
  case (pull i)
  then show ?thesis using assms(2)
    by (auto simp: misc_inv_def worker_pull_def dest!: get_next_frame split: prod.splits option.splits)
next
  case (collect)
  then show ?thesis using assms(2)
    by (auto simp: misc_inv_def collect_group_def dest!: mark_filtered_frame simp del: mark_filtered_uids.simps
        split: list.splits if_splits)
next
  case train
  then show ?thesis using assms(2) by (auto simp: misc_inv_def train_mini_batch_def dest!: mark_consumed_frame)
next
  case discard
  then show ?thesis using assms(2) by (auto simp: misc_inv_def discard_partial_batch_def dest!: mark_filtered_frame)
qed (use assms(2) in \<open>auto simp: misc_inv_def worker_acquire_def worker_enqueue_def worker_accept_def finish_step_def
      split: option.splits if_splits\<close>)

text \<open>A run over several epochs: the epilogue starts the next epoch when its checks pass.\<close>

inductive training_step :: "async_config \<Rightarrow> trainer \<Rightarrow> trainer \<Rightarrow> bool" for cfg where
  within: "epoch_step cfg st st' \<Longrightarrow> training_step cfg st st'"
| next_epoch: "tr_notified st \<Longrightarrow> tr_buffer st = [] \<Longrightarrow> tr_kept st = [] \<Longrightarrow> set (tr_workers st) \<subseteq> {Idle, Stopped} \<Longrightarrow>
    validate_state_at_epoch_end (tr_global_step st) (tr_manager st) \<Longrightarrow>
    training_step cfg st (start_epoch cfg (tr_manager st) (reset_at_epoch_end (tr_loader st)) (tr_global_step st))"

inductive_cases training_stepE: "training_step cfg st st'"

definition trainer_inv :: "async_config \<Rightarrow> string list \<Rightarrow> trainer \<Rightarrow> bool" where
  "trainer_inv cfg items st \<longleftrightarrow> (\<exists>base. acct_inv cfg base st) \<and> data_inv items st \<and> misc_inv cfg items st"

lemma start_trainer_inv:
  assumes "loader_ready cfg items dl" "manager_ready cfg step mg" "ac_sample_full_batch cfg \<or> dl_filtered dl = []"
  shows "trainer_inv cfg items (start_epoch cfg mg dl step)"
  using start_inv [OF assms(1,2)] assms(1,3) unfolding trainer_inv_def misc_inv_def
  by (auto simp: start_epoch_def loader_ready_def)

lemma training_step_inv:
  assumes "training_step cfg st st'" "trainer_inv cfg items st"
  shows "trainer_inv cfg items st'"
  using assms(1)
proof cases
  case within
  then show ?thesis using assms(2) epoch_step_inv misc_step unfolding trainer_inv_def by blast
next
  case next_epoch
  have "loader_ready cfg items (reset_at_epoch_end (tr_loader st))"
    using assms(2) by (simp add: trainer_inv_def data_inv_def Let_def misc_inv_def loader_ready_def
        reset_at_epoch_end_def num_trained_def)
  moreover have "manager_ready cfg (tr_global_step st) (tr_manager st)"
    using assms(2) next_epoch(6) by (auto simp: trainer_inv_def acct_inv_def Let_def manager_ready_def)
  moreover have "dl_filtered (reset_at_epoch_end (tr_loader st)) = []" by (simp add: reset_at_epoch_end_def)
  ultimately show ?thesis unfolding next_epoch(1) using start_trainer_inv by blast
qed

lemma fresh_inv: "distinct items \<Longrightarrow> trainer_inv cfg items (fresh_trainer cfg items)"
  unfolding fresh_trainer_def
  by (rule start_trainer_inv) (simp_all add: loader_ready_def manager_ready_def new_manager_def new_dataloader_def
      validate_state_at_epoch_end_def num_trained_def effective_items_def)

lemma training_run_inv:
  assumes "(training_step cfg)\<^sup>*\<^sup>* (fresh_trainer cfg items) st" "distinct items"
  shows "trainer_inv cfg items st"
  using assms(1)
proof (induction rule: rtranclp_induct)
  case base then show ?case by (rule fresh_inv [OF assms(2)])
next
  case (step y z) then show ?case using training_step_inv by blast
qed

end
