(* ===== verification/Async_Properties.thy ===== *)
theory Async_Properties
  imports Async_Trainer
begin

text \<open>
  What the invariant of \<^verbatim>\<open>Async_Trainer\<close> gives: the bound on the work ahead of training, the
  absence of deadlocks and failed assertions, the state at the end of an epoch, and what the two kinds of
  checkpoint resume to.
\<close>

section \<open>What the invariant says\<close>

lemma ahead_bound:
  assumes "acct_inv cfg base st"
  shows "count_workers generating st + int (length (tr_buffer st)) + int (length (tr_kept st)) + pending_batch cfg st
    \<le> int (buffer_maxsize cfg)"
  using assms unfolding acct_inv_def Let_def buffer_maxsize_def by (simp add: algebra_simps)

lemma generating_count: "w \<in> set (tr_workers st) \<Longrightarrow> generating w = 1 \<Longrightarrow> 1 \<le> count_workers generating st"
proof -
  have "0 \<le> generating x" for x by (cases x) simp_all
  then show "w \<in> set (tr_workers st) \<Longrightarrow> generating w = 1 \<Longrightarrow> 1 \<le> count_workers generating st"
    using count_pos [of w st generating] by blast
qed

lemma no_worker_counts:
  assumes "set (tr_workers st) \<subseteq> {w. generating w = 0 \<and> enqueued w = 0}"
  shows "count_workers generating st = 0" "count_workers enqueued st = 0"
proof -
  have "sum_list (map generating ws) = 0 \<and> sum_list (map enqueued ws) = 0"
    if "set ws \<subseteq> {w. generating w = 0 \<and> enqueued w = 0}" for ws
    using that by (induction ws) auto
  with assms show "count_workers generating st = 0" "count_workers enqueued st = 0"
    by (simp_all add: count_workers_def)
qed

text \<open>Lengths: prompts in flight, consumed and still to come are the whole epoch.\<close>

lemma flight_length:
  assumes "data_inv items st" "misc_inv cfg items st"
  shows "size (in_flight st) + length (dl_consumed (tr_loader st)) + length (yieldable (tr_loader st)) =
    length items div ac_batch cfg * ac_batch cfg"
proof -
  have "size (everything st) = length (effective_items (tr_loader st))"
    using assms(1) by (simp add: data_inv_def Let_def)
  moreover have "length items div ac_batch cfg * ac_batch cfg \<le> length items" by (rule div_times_less_eq_dividend)
  ultimately show ?thesis using assms by (simp add: everything_def effective_items_def misc_inv_def data_inv_def Let_def)
qed

lemma kept_in_flight: "length (tr_kept st) \<le> size (in_flight st)" "length (tr_buffer st) \<le> size (in_flight st)"
  by (simp_all add: in_flight_def)

lemma idle_when_empty:
  assumes "in_flight st = {#}"
  shows "tr_buffer st = []" "tr_kept st = []" "w \<in> set (tr_workers st) \<Longrightarrow> worker_uids w = []"
  using assms by (auto simp: in_flight_def)

lemma concat_stopped: "set ws \<subseteq> {Stopped} \<Longrightarrow> concat (map worker_uids ws) = []"
  by (induction ws) auto

lemma mark_kept:
  assumes "data_inv items st"
  shows "mark_consumed_uids (map gg_uid (tr_kept st)) (tr_loader st) \<noteq> None"
    "mark_filtered_uids (map gg_uid (tr_kept st)) (tr_loader st) \<noteq> None"
proof -
  have "mset (map gg_uid (tr_kept st)) \<subseteq># in_flight st" by (simp add: in_flight_def)
  note d = flight_disjoint(1) [OF assms this]
  show "mark_consumed_uids (map gg_uid (tr_kept st)) (tr_loader st) \<noteq> None"
    using mark_consumed_some [OF refl d] by simp
  show "mark_filtered_uids (map gg_uid (tr_kept st)) (tr_loader st) \<noteq> None"
    using mark_filtered_some [OF refl d] by simp
qed

lemma collect_possible:
  assumes "data_inv items st" "tr_buffer st \<noteq> []"
  shows "collect_group cfg st \<noteq> None"
proof -
  obtain g rest where b: "tr_buffer st = g # rest" using assms(2) by (cases "tr_buffer st") auto
  then have "mset [gg_uid g] \<subseteq># in_flight st" by (simp add: in_flight_def)
  from mark_filtered_some [OF refl flight_disjoint(1) [OF assms(1) this]] show ?thesis
    by (simp add: collect_group_def b del: mark_filtered_uids.simps)
qed

section \<open>Properties\<close>

text \<open>C18: staleness control bounds the work ahead of training: the groups being generated, buffered, in
  the mini-batch and trained but not yet counted are never more than \<open>mini_batch_size * (max_staleness_steps + 1)\<close>;
  so a worker that finishes a rollout always finds room in the buffer, whatever the rollouts produce and
  in whatever order the tasks run.\<close>

theorem work_ahead_bounded:
  assumes "distinct items" "(training_step cfg)\<^sup>*\<^sup>* (fresh_trainer cfg items) st"
  shows "count_workers generating st + int (length (tr_buffer st)) + int (length (tr_kept st)) + pending_batch cfg st
      \<le> int (ac_batch cfg * (ac_staleness cfg + 1)) \<and>
    (\<forall>i<length (tr_workers st). \<forall>u s r m. tr_workers st ! i = Generating u s \<longrightarrow> worker_enqueue cfg i u s r m st \<noteq> None)"
proof -
  obtain base where inv: "acct_inv cfg base st" using training_run_inv [OF assms(2,1)] by (auto simp: trainer_inv_def)
  note bound = ahead_bound [OF inv]
  have "worker_enqueue cfg i u s r m st \<noteq> None" if "i < length (tr_workers st)" "tr_workers st ! i = Generating u s" for i u s r m
  proof -
    have "Generating u s \<in> set (tr_workers st)" using that by (metis nth_mem)
    then have "1 \<le> count_workers generating st" by (rule generating_count) simp
    moreover have "0 \<le> pending_batch cfg st" by (simp add: pending_batch_def)
    ultimately have "length (tr_buffer st) < buffer_maxsize cfg" using bound by linarith
    then show ?thesis by (simp add: worker_enqueue_def)
  qed
  with bound show ?thesis by (simp add: buffer_maxsize_def)
qed

definition ex_async :: async_config where
  "ex_async = \<lparr>ac_workers = 2, ac_batch = 2, ac_staleness = 0, ac_sample_full_batch = False, ac_tol = 0, ac_epochs = 1,
     ac_max_training_steps = None\<rparr>"

theorem work_ahead_bounded_witness:
  "count_workers generating (worker_pull 0 (fresh_trainer ex_async [''a'', ''b''])) \<le> 2"
proof -
  let ?st = "fresh_trainer ex_async [''a'', ''b'']"
  have "epoch_step ex_async ?st (worker_pull 0 ?st)"
    by (rule epoch_step.pull) (simp_all add: fresh_trainer_def start_epoch_def ex_async_def)
  then have "(training_step ex_async)\<^sup>*\<^sup>* ?st (worker_pull 0 ?st)" by (blast intro: training_step.within)
  from work_ahead_bounded [OF _ this] have
    "count_workers generating (worker_pull 0 ?st) + int (length (tr_buffer (worker_pull 0 ?st))) +
       int (length (tr_kept (worker_pull 0 ?st))) + pending_batch ex_async (worker_pull 0 ?st) \<le> 2"
    by (simp add: ex_async_def)
  moreover have "0 \<le> pending_batch ex_async (worker_pull 0 ?st)" by (simp add: pending_batch_def)
  ultimately show ?thesis by linarith
qed

text \<open>C19: the asynchronous epoch never deadlocks and none of its assertions fires: in every reachable
  state some task can go on, or all prompts are trained or filtered, nothing is buffered and the workers
  have stopped.\<close>

theorem async_never_stuck:
  assumes "distinct items" "(training_step cfg)\<^sup>*\<^sup>* (fresh_trainer cfg items) st"
    and "async_config_valid cfg" "0 < ac_batch cfg"
  shows "(\<exists>st'. epoch_step cfg st st') \<or>
    (tr_notified st \<and> tr_buffer st = [] \<and> tr_kept st = [] \<and> set (tr_workers st) \<subseteq> {Stopped})"
proof -
  obtain base where inv: "acct_inv cfg base st" and data: "data_inv items st" and misc: "misc_inv cfg items st"
    using training_run_inv [OF assms(2,1)] by (auto simp: trainer_inv_def)
  consider "\<not> tr_notified st" | "tr_notified st" "length (tr_kept st) = ac_batch cfg"
    | "tr_notified st" "length (tr_kept st) < ac_batch cfg" "tr_buffer st \<noteq> []"
    | "tr_notified st" "length (tr_kept st) < ac_batch cfg" "tr_buffer st = []"
    using inv by (fastforce simp: acct_inv_def Let_def)
  then show ?thesis
  proof cases
    case 1 then show ?thesis by (blast intro: epoch_step.finish)
  next
    case 2
    then obtain st' where "train_mini_batch st = Some st'" using mark_kept(1) [OF data] by (auto simp: train_mini_batch_def)
    with 2 show ?thesis by (blast intro: epoch_step.train)
  next
    case 3
    then obtain st' where "collect_group cfg st = Some st'" using collect_possible [OF data] by blast
    with 3 show ?thesis by (blast intro: epoch_step.collect)
  next
    case 4
    show ?thesis
    proof (cases "set (tr_workers st) \<subseteq> {Stopped}")
      case stopped: True
      have "tr_workers st \<noteq> []" using misc assms(3,4) by (auto simp: misc_inv_def async_config_valid_def)
      with stopped have "Stopped \<in> set (tr_workers st)" by (cases "tr_workers st") auto
      then have y: "yieldable (tr_loader st) = []" using data by (simp add: data_inv_def Let_def)
      show ?thesis
      proof (cases "ac_sample_full_batch cfg")
        case True
        then obtain st' where "discard_partial_batch st = Some st'"
          using mark_kept(2) [OF data] by (auto simp: discard_partial_batch_def)
        with 4 stopped True show ?thesis by (blast intro: epoch_step.discard)
      next
        case False
        have fl: "in_flight st = mset (map gg_uid (tr_kept st))"
          using concat_stopped [OF stopped] 4(3) by (simp only: in_flight_def) simp
        have "length (tr_kept st) + length (dl_consumed (tr_loader st)) = length items div ac_batch cfg * ac_batch cfg"
          using flight_length [OF data misc] y fl by simp
        moreover have "length (dl_consumed (tr_loader st)) = ac_batch cfg * tr_trained_steps st"
          using inv misc False by (simp add: acct_inv_def Let_def num_trained_def misc_inv_def flip: of_nat_mult)
        ultimately have "ac_batch cfg dvd length (tr_kept st)"
          by (metis dvd_add_left_iff dvd_triv_left dvd_triv_right)
        with 4(2) have "tr_kept st = []" by (auto dest: dvd_imp_le)
        with 4 stopped show ?thesis by blast
      qed
    next
      case False
      then obtain w where "w \<in> set (tr_workers st)" "w \<noteq> Stopped" by blast
      then obtain i where i: "i < length (tr_workers st)" "tr_workers st ! i \<noteq> Stopped"
        by (metis in_set_conv_nth)
      consider "tr_workers st ! i = Idle" | u where "tr_workers st ! i = Enqueued u"
        | u s where "tr_workers st ! i = Generating u s" | u where "tr_workers st ! i = Holding u"
        using i(2) by (cases "tr_workers st ! i") auto
      then show ?thesis
      proof cases
        case 1 with i(1) show ?thesis by (blast intro: epoch_step.pull)
      next
        case 2 with i(1) show ?thesis by (blast intro: epoch_step.accept)
      next
        case (3 u s)
        have "0 < buffer_maxsize cfg" using assms(4) by (simp add: buffer_maxsize_def)
        with 4(3) obtain st' where "worker_enqueue cfg i u s (Inl []) [] st = Some st'" by (auto simp: worker_enqueue_def)
        with 3 i(1) show ?thesis by (blast intro: epoch_step.enqueue)
      next
        case (4 u)
        show ?thesis
        proof (cases "\<exists>j<length (tr_workers st). \<exists>v s. tr_workers st ! j = Generating v s \<or> tr_workers st ! j = Enqueued v")
          case True
          then obtain j v s where j: "j < length (tr_workers st)" "tr_workers st ! j = Generating v s \<or> tr_workers st ! j = Enqueued v"
            by blast
          have "0 < buffer_maxsize cfg" using assms(4) by (simp add: buffer_maxsize_def)
          with \<open>tr_buffer st = []\<close> obtain st' where "worker_enqueue cfg j v s (Inl []) [] st = Some st'"
            by (auto simp: worker_enqueue_def)
          with j show ?thesis by (blast intro: epoch_step.enqueue epoch_step.accept)
        next
          case False
          have z: "generating w = 0 \<and> enqueued w = 0" if "w \<in> set (tr_workers st)" for w
          proof -
            from that obtain j where "j < length (tr_workers st)" "tr_workers st ! j = w" by (metis in_set_conv_nth)
            with False show ?thesis by (cases w) auto
          qed
          have c: "count_workers generating st = 0" "count_workers enqueued st = 0"
            by (rule no_worker_counts; use z in blast)+
          have "ac_batch cfg \<le> ac_workers cfg" using assms(3) by (simp add: async_config_valid_def)
          have acc: "st_accepted (mg_stat (tr_manager st)) =
              int (ac_batch cfg) * tr_global_step st - int (ac_batch cfg) + int (length (tr_kept st))"
            using inv c \<open>tr_buffer st = []\<close> \<open>tr_notified st\<close>
            by (simp add: acct_inv_def Let_def pending_batch_def algebra_simps)
          then have "st_accepted (mg_stat (tr_manager st)) < (int (ac_staleness cfg) + tr_global_step st) * int (ac_batch cfg)"
          proof -
            have "0 \<le> int (ac_staleness cfg) * int (ac_batch cfg)" by (rule mult_nonneg_nonneg) simp_all
            then show ?thesis using acc \<open>length (tr_kept st) < ac_batch cfg\<close>
              unfolding distrib_right by (simp only: mult.commute)
          qed
          moreover have "mg_max_groups (tr_manager st) = int (ac_workers cfg)" "mg_batch (tr_manager st) = int (ac_batch cfg)"
            "mg_staleness (tr_manager st) = int (ac_staleness cfg)" "mg_step (tr_manager st) = tr_global_step st"
            "st_running (mg_stat (tr_manager st)) = 0"
            using inv c by (simp_all add: acct_inv_def Let_def)
          ultimately have "0 < compute_capacity (tr_manager st)"
            using \<open>ac_batch cfg \<le> ac_workers cfg\<close> assms(4) by (simp add: compute_capacity_def Let_def)
          then obtain st' where "worker_acquire i u st = Some st'"
            by (auto simp: worker_acquire_def acquire_submission_slot_def Let_def)
          with 4 i(1) show ?thesis by (blast intro: epoch_step.acquire)
        qed
      qed
    qed
  qed
qed

theorem async_never_stuck_witness:
  "\<exists>st'. epoch_step ex_async (fresh_trainer ex_async [''a'', ''b'']) st'"
proof -
  have "async_config_valid ex_async" "0 < ac_batch ex_async" by (simp_all add: async_config_valid_def ex_async_def)
  from async_never_stuck [OF _ rtranclp.rtrancl_refl this, of "[''a'', ''b'']"] show ?thesis
    by (auto simp: fresh_trainer_def start_epoch_def ex_async_def)
qed



text \<open>A checkpoint written inside the loop resumes with exactly the iterations that the prompts not
  yet consumed allow.  The final checkpoint, written after the counter was advanced past the last trained
  step, resumes one iteration short: a mini-batch of prompts of that epoch is never trained on.\<close>

theorem final_checkpoint_skips_a_step:
  assumes "distinct items" "0 < ac_batch cfg" "\<not> ac_sample_full_batch cfg"
    and "(epoch_step cfg)\<^sup>*\<^sup>* (fresh_trainer cfg items) st" "\<not> tr_notified st"
    and "tr_trained_steps st < num_steps_per_epoch cfg (tr_loader st)"
  defines "resume saved \<equiv> resumed_trainer cfg items saved (dl_consumed (tr_loader st)) (dl_filtered (tr_loader st))"
    and "left \<equiv> length (filter (\<lambda>u. u \<notin> set (dl_consumed (tr_loader st))) (effective_items (tr_loader st)))"
  shows "left = ac_batch cfg * epoch_iterations cfg (tr_loader st) 0 (tr_global_step (resume (tr_global_step st))) \<and>
    left = ac_batch cfg * (epoch_iterations cfg (tr_loader st) 0 (tr_global_step (resume (tr_global_step st + 1))) + 1)"
proof -
  have start: "acct_inv cfg 1 (fresh_trainer cfg items) \<and> data_inv items (fresh_trainer cfg items)"
    using start_inv [of cfg items "new_dataloader items (ac_batch cfg)" 1] assms(1)
    by (auto simp: fresh_trainer_def loader_ready_def manager_ready_def new_manager_def new_dataloader_def
      validate_state_at_epoch_end_def num_trained_def effective_items_def start_epoch_def)
  have inv: "acct_inv cfg 1 st" "data_inv items st" using epoch_run_inv [OF assms(4)] start by blast+
  have misc: "misc_inv cfg items st"
    using assms(4)
  proof (induction rule: rtranclp_induct)
    case base then show ?case using fresh_inv [OF assms(1)] by (simp add: trainer_inv_def)
  next
    case (step y z) then show ?case using misc_step by blast
  qed
  let ?q = "num_steps_per_epoch cfg (tr_loader st)" and ?cs = "dl_consumed (tr_loader st)"
  have q: "?q = length items div ac_batch cfg" using inv(2) by (simp add: num_steps_per_epoch_def data_inv_def Let_def)
  have step: "tr_global_step st = int (tr_trained_steps st)" using inv(1) assms(5) by (simp add: acct_inv_def Let_def)
  have cs: "length ?cs = ac_batch cfg * tr_trained_steps st"
    using inv(1) misc assms(3) by (simp add: acct_inv_def Let_def num_trained_def misc_inv_def flip: of_nat_mult)
  have "mset ?cs \<subseteq># mset (effective_items (tr_loader st))"
    using inv(2) by (simp add: data_inv_def Let_def everything_def) (metis mset_subset_eq_add_left union_commute union_assoc)
  moreover have d: "distinct (effective_items (tr_loader st))" using inv(2) by (simp add: data_inv_def Let_def effective_items_def)
  ultimately have sub: "set ?cs \<subseteq> set (effective_items (tr_loader st))"
    by (metis set_mset_mono set_mset_mset)
  have "count (mset ?cs) a \<le> 1" for a using everything_unique [OF inv(2), of a] by (simp add: everything_def)
  then have "distinct ?cs" by (rule distinct_if_count)
  from arg_cong [OF split_consumed [OF d \<open>distinct ?cs\<close> sub], of size]
  have "length ?cs + left = length (effective_items (tr_loader st))"
    by (simp only: size_union size_mset left_def)
  moreover have "length (effective_items (tr_loader st)) = ?q * ac_batch cfg"
    using inv(2) misc q by (simp add: effective_items_def misc_inv_def data_inv_def Let_def)
  ultimately have "left = ac_batch cfg * (?q - tr_trained_steps st)"
    using cs by (simp add: algebra_simps diff_mult_distrib2)
  moreover have "tr_global_step (resume saved) = saved + 1" for saved
    by (simp add: resume_def resumed_trainer_def start_epoch_def)
  then have "epoch_iterations cfg (tr_loader st) 0 (tr_global_step (resume (tr_global_step st))) = ?q - tr_trained_steps st"
    "epoch_iterations cfg (tr_loader st) 0 (tr_global_step (resume (tr_global_step st + 1))) + 1 = ?q - tr_trained_steps st"
    using step assms(6) by (simp_all add: epoch_iterations_def)
  ultimately show ?thesis by simp
qed

definition ex_one :: async_config where
  "ex_one = ex_async\<lparr>ac_workers := 1, ac_batch := 1\<rparr>"

definition ex_run :: "nat \<Rightarrow> trainer" where
  "ex_run n = ([fresh_trainer ex_one [''a'', ''b''],
     worker_pull 0 (fresh_trainer ex_one [''a'', ''b'']),
     the (worker_acquire 0 ''a'' (worker_pull 0 (fresh_trainer ex_one [''a'', ''b''])))] ! n)"

definition ex_enqueued :: trainer where
  "ex_enqueued = the (worker_enqueue ex_one 0 ''a'' 1 (Inl []) [] (ex_run 2))"

definition ex_trained :: trainer where
  "ex_trained = the (train_mini_batch (the (collect_group ex_one (worker_accept 0 ex_enqueued))))"

lemma ex_trained_reachable: "(epoch_step ex_one)\<^sup>*\<^sup>* (fresh_trainer ex_one [''a'', ''b'']) ex_trained"
proof -
  have "epoch_step ex_one (ex_run 0) (ex_run 1)"
    using epoch_step.pull [of 0 "ex_run 0" ex_one] by (simp add: ex_run_def fresh_trainer_def start_epoch_def ex_one_def)
  moreover have "epoch_step ex_one (ex_run 1) (ex_run 2)"
  proof (rule epoch_step.acquire)
    show "0 < length (tr_workers (ex_run 1))" "tr_workers (ex_run 1) ! 0 = Holding ''a''" by code_simp+
    have "worker_acquire 0 ''a'' (ex_run 1) \<noteq> None" by code_simp
    then show "worker_acquire 0 ''a'' (ex_run 1) = Some (ex_run 2)" by (auto simp: ex_run_def)
  qed
  moreover have "epoch_step ex_one (ex_run 2) ex_enqueued"
  proof (rule epoch_step.enqueue)
    show "0 < length (tr_workers (ex_run 2))" "tr_workers (ex_run 2) ! 0 = Generating ''a'' 1" by code_simp+
    have "worker_enqueue ex_one 0 ''a'' 1 (Inl []) [] (ex_run 2) \<noteq> None" by code_simp
    then show "worker_enqueue ex_one 0 ''a'' 1 (Inl []) [] (ex_run 2) = Some ex_enqueued" by (auto simp: ex_enqueued_def)
  qed
  moreover have "epoch_step ex_one ex_enqueued (worker_accept 0 ex_enqueued)"
    by (rule epoch_step.accept [where uid = "''a''"]) code_simp+
  moreover have "epoch_step ex_one (worker_accept 0 ex_enqueued) (the (collect_group ex_one (worker_accept 0 ex_enqueued)))"
  proof (rule epoch_step.collect)
    show "tr_notified (worker_accept 0 ex_enqueued)" "length (tr_kept (worker_accept 0 ex_enqueued)) < ac_batch ex_one" by code_simp+
    have "collect_group ex_one (worker_accept 0 ex_enqueued) \<noteq> None" by code_simp
    then show "collect_group ex_one (worker_accept 0 ex_enqueued) = Some (the (collect_group ex_one (worker_accept 0 ex_enqueued)))"
      by auto
  qed
  moreover have "epoch_step ex_one (the (collect_group ex_one (worker_accept 0 ex_enqueued))) ex_trained"
  proof (rule epoch_step.train)
    let ?s = "the (collect_group ex_one (worker_accept 0 ex_enqueued))"
    show "tr_notified ?s" "length (tr_kept ?s) = ac_batch ex_one" by code_simp+
    have "train_mini_batch ?s \<noteq> None" by code_simp
    then show "train_mini_batch ?s = Some ex_trained" by (auto simp: ex_trained_def)
  qed
  moreover have "ex_run 0 = fresh_trainer ex_one [''a'', ''b'']" by (simp add: ex_run_def)
  ultimately show ?thesis by (metis converse_rtranclp_into_rtranclp rtranclp.rtrancl_refl)
qed

theorem final_checkpoint_skips_a_step_witness:
  "length (filter (\<lambda>u. u \<notin> set (dl_consumed (tr_loader ex_trained))) (effective_items (tr_loader ex_trained))) =
     epoch_iterations ex_one (tr_loader ex_trained) 0 3 + 1"
proof -
  have "distinct [''a'', ''b'']" "0 < ac_batch ex_one" "\<not> ac_sample_full_batch ex_one" "\<not> tr_notified ex_trained"
    "tr_trained_steps ex_trained < num_steps_per_epoch ex_one (tr_loader ex_trained)"
    "ac_batch ex_one = 1" "tr_global_step ex_trained = 1" by code_simp+
  from final_checkpoint_skips_a_step [OF this(1-3) ex_trained_reachable this(4,5)] this(6,7) show ?thesis
    by (simp add: resumed_trainer_def start_epoch_def)
qed

text \<open>The documented identity \<open>submitted = accepted + filtered + running\<close> holds in every reachable
  state of an epoch, but a rejected rollout (a worker cancelled while it holds a slot) breaks it for good:
  the slot is given back, the submission stays counted.\<close>

theorem rejection_breaks_identity:
  assumes "distinct items" "(training_step cfg)\<^sup>*\<^sup>* (fresh_trainer cfg items) st"
  shows "st_submitted (mg_stat (tr_manager st)) = st_accepted (mg_stat (tr_manager st)) +
      st_filtered (mg_stat (tr_manager st)) + st_running (mg_stat (tr_manager st)) \<and>
    st_submitted (mg_stat (on_rollout_rejected (tr_manager st))) \<noteq>
      st_accepted (mg_stat (on_rollout_rejected (tr_manager st))) +
      st_filtered (mg_stat (on_rollout_rejected (tr_manager st))) + st_running (mg_stat (on_rollout_rejected (tr_manager st)))"
proof -
  obtain base where "acct_inv cfg base st" using training_run_inv [OF assms(2,1)] by (auto simp: trainer_inv_def)
  then show ?thesis by (simp add: acct_inv_def Let_def on_rollout_rejected_def)
qed

theorem rejection_breaks_identity_witness:
  "st_submitted (mg_stat (on_rollout_rejected (tr_manager (fresh_trainer ex_async [])))) \<noteq>
     st_accepted (mg_stat (on_rollout_rejected (tr_manager (fresh_trainer ex_async [])))) +
     st_filtered (mg_stat (on_rollout_rejected (tr_manager (fresh_trainer ex_async [])))) +
     st_running (mg_stat (on_rollout_rejected (tr_manager (fresh_trainer ex_async []))))"
  using rejection_breaks_identity [OF _ rtranclp.rtrancl_refl, of "[]" ex_async] by simp

end
