(* ===== verification/Judge_Client.thy ===== *)
theory Judge_Client
  imports Prelude
begin

text \<open>
  The client of the arena's pull queue, \<^verbatim>\<open>tpu/pallas_arena/judge/client.py\<close>: submission, the
  waiting loop with its resubmission through queue restarts, and bulk polling, over the messages the
  queue answers with.  The locale \<open>work_source\<close> is what the client needs of a queue; the lemmas in
  it say what a result the client returns is worth.  A result is opaque apart from the truth value of
  its key \<open>terminal\<close>.
\<close>

section \<open>Messages\<close>

record submit_request =
  sr_problem :: string
  sr_code :: string
  sr_mode :: string
  sr_smoke :: bool
  sr_cases :: "string list option"
  sr_enforce_pallas :: "bool option"
  sr_tag :: "string option"

datatype item_state = Queued | Leased | Done

record 'r judge_result =
  jr_terminal :: bool
  jr_body :: 'r

datatype 'r result_reply =
    NotDone item_state int
  | IsDone "'r judge_result option" int bool "string option"

datatype 'r bulk_entry =
    Missing
  | DoneEntry "'r judge_result option" int bool "string option" "int option"

section \<open>Client\<close>

record 'r client =
  cl_payloads :: "(string, submit_request) dict"
  cl_alias :: "(string, string) dict"
  cl_results :: "(string, 'r judge_result option) dict"

text \<open>The outcome of a request: an answer, an HTTP error, or any other exception.\<close>

datatype 'a answer = Answer 'a | HttpError nat | Unreachable

text \<open>\<open>submit\<close>: the identifier is the queue's answer.\<close>

definition client_submit :: "submit_request \<Rightarrow> string \<Rightarrow> 'r client \<Rightarrow> 'r client" where
  "client_submit payload wid c = c\<lparr>cl_payloads := dict_put wid payload (cl_payloads c)\<rparr>"

text \<open>The body of the inner loop of \<open>wait\<close> for one identifier: \<open>get\<close> answers \<open>/result/{cur}\<close>, \<open>post\<close> answers
  the resubmission, whose exceptions leave \<open>wait\<close>.\<close>

definition wait_visit ::
  "(string \<Rightarrow> 'r result_reply answer) \<Rightarrow> (submit_request \<Rightarrow> string answer) \<Rightarrow> string \<Rightarrow> 'r client
     \<Rightarrow> (string answer, 'r client) result" where
  "wait_visit get post orig c =
     (if dict_has (cl_results c) orig then Inr c
      else
        let cur = the (dict_get (cl_alias c) orig)
        in case get cur of
             HttpError code \<Rightarrow>
               (case dict_get (cl_payloads c) cur of
                  Some payload \<Rightarrow>
                    if code = 404
                    then case post payload of
                           Answer new \<Rightarrow> Inr (c\<lparr>cl_payloads := dict_put new payload (cl_payloads c),
                                              cl_alias := dict_put orig new (cl_alias c)\<rparr>)
                         | failure \<Rightarrow> Inl failure
                    else Inr c
                | None \<Rightarrow> Inr c)
           | Unreachable \<Rightarrow> Inr c
           | Answer (NotDone st attempts) \<Rightarrow> Inr c
           | Answer (IsDone res attempts terminal worker) \<Rightarrow>
               Inr (c\<lparr>cl_results := dict_put orig res (cl_results c)\<rparr>))"

text \<open>One pass over the identifiers; the network answers each of its visits anew.\<close>

record 'r round =
  rd_get :: "nat \<Rightarrow> string \<Rightarrow> 'r result_reply answer"
  rd_post :: "nat \<Rightarrow> submit_request \<Rightarrow> string answer"
  rd_time :: int

fun wait_round :: "'r round \<Rightarrow> nat \<Rightarrow> string list \<Rightarrow> 'r client \<Rightarrow> (string answer, 'r client) result" where
  "wait_round rd i [] c = Inr c"
| "wait_round rd i (orig # origs) c =
     (case wait_visit (rd_get rd i) (rd_post rd i) orig c of
        Inl e \<Rightarrow> Inl e
      | Inr c' \<Rightarrow> wait_round rd (Suc i) origs c')"

text \<open>The outer loop: the first argument is fuel, \<open>k\<close> counts the passes.\<close>

fun wait_loop ::
  "nat \<Rightarrow> (nat \<Rightarrow> 'r round) \<Rightarrow> int \<Rightarrow> int \<Rightarrow> string list \<Rightarrow> nat \<Rightarrow> int \<Rightarrow> 'r client
     \<Rightarrow> (string answer, 'r client) result option" where
  "wait_loop 0 env poll deadline wids k now c = None"
| "wait_loop (Suc fuel) env poll deadline wids k now c =
     (if now < deadline \<and> length (cl_results c) < length wids
      then case wait_round (env k) 0 wids c of
             Inl e \<Rightarrow> Some (Inl e)
           | Inr c' \<Rightarrow>
               wait_loop fuel env poll deadline wids (Suc k)
                 (now + rd_time (env k) + (if length (cl_results c') < length wids then poll else 0)) c'
      else Some (Inr c))"

definition client_wait ::
  "nat \<Rightarrow> (nat \<Rightarrow> 'r round) \<Rightarrow> int \<Rightarrow> int \<Rightarrow> string list \<Rightarrow> int \<Rightarrow> 'r client
     \<Rightarrow> (string answer, 'r client) result option" where
  "client_wait fuel env timeout poll wids now c =
     wait_loop fuel env poll (now + timeout) wids 0 now
       (c\<lparr>cl_alias := dict_of_pairs (map (\<lambda>w. (w, w)) wids), cl_results := []\<rparr>)"

text \<open>\<open>poll_bulk\<close>: at most \<open>batch\<close> identifiers per request, a failed request is skipped.\<close>

function id_chunks :: "nat \<Rightarrow> 'a list \<Rightarrow> 'a list list" where
  "id_chunks batch xs = (if batch = 0 \<or> xs = [] then [] else take batch xs # id_chunks batch (drop batch xs))"
  by pat_completeness auto
termination by (relation "measure (length \<circ> snd)") auto

declare id_chunks.simps [simp del]

definition keep_done :: "string \<times> 'r bulk_entry \<Rightarrow> (string, 'r bulk_entry) dict \<Rightarrow> (string, 'r bulk_entry) dict" where
  "keep_done e out = (case e of (wid, Missing) \<Rightarrow> out | (wid, rec) \<Rightarrow> dict_put wid rec out)"

definition poll_bulk ::
  "(string list \<Rightarrow> (string, 'r bulk_entry) dict answer) \<Rightarrow> string list \<Rightarrow> int
     \<Rightarrow> (unit, (string, 'r bulk_entry) dict) result" where
  "poll_bulk post wids batch =
     (if batch = 0 then Inl ()
      else Inr (fold (\<lambda>chunk out. case post chunk of Answer got \<Rightarrow> fold keep_done got out | _ \<Rightarrow> out)
                  (id_chunks (nat batch) wids) []))"

lemma set_id_chunks: "0 < batch \<Longrightarrow> \<Union> (set ` set (id_chunks batch xs)) = set xs"
proof (induction batch xs rule: id_chunks.induct)
  case (1 batch xs)
  show ?case
  proof (cases "xs = []")
    case True
    then show ?thesis by (simp add: id_chunks.simps)
  next
    case False
    with 1 have "\<Union> (set ` set (id_chunks batch xs)) = set (take batch xs) \<union> set (drop batch xs)"
      by (simp add: id_chunks.simps [of batch xs])
    also have "\<dots> = set xs" by (metis append_take_drop_id set_append)
    finally show ?thesis .
  qed
qed

lemma chunk_length: "c \<in> set (id_chunks batch xs) \<Longrightarrow> c \<noteq> [] \<and> length c \<le> batch"
proof (induction batch xs rule: id_chunks.induct)
  case (1 batch xs)
  then show ?case by (cases "batch = 0 \<or> xs = []") (auto simp: id_chunks.simps [of batch xs])
qed

section \<open>Waiting ends\<close>




section \<open>Waiting returns the grades of what was submitted\<close>

text \<open>What the client sees of a queue: an identifier stands for a payload and, once graded, a result.  A queue
  is used through submission and lookup, changes by steps of its own, and keeps what it was given.\<close>

locale work_source =
  fixes good :: "'q \<Rightarrow> bool"
    and held :: "'q \<Rightarrow> string \<Rightarrow> (submit_request \<times> 'r judge_result option) option"
    and enter :: "int \<Rightarrow> string \<Rightarrow> submit_request \<Rightarrow> 'q \<Rightarrow> string \<times> 'q"
    and look_up :: "string \<Rightarrow> 'q \<Rightarrow> (nat, 'r result_reply) result"
    and moves :: "'q \<Rightarrow> 'q \<Rightarrow> bool"
  assumes enter_good: "good q \<Longrightarrow> good (snd (enter now sfx p q))"
    and enter_held: "good q \<Longrightarrow> held (snd (enter now sfx p q)) = (held q)(fst (enter now sfx p q) \<mapsto> (p, None))"
    and moves_good: "good q \<Longrightarrow> moves q q' \<Longrightarrow> good q'"
    and moves_held: "good q \<Longrightarrow> moves q q' \<Longrightarrow> held q w = Some (p, r) \<Longrightarrow> \<exists>r'. held q' w = Some (p, r')"
    and look_up_held: "look_up w q = Inr (IsDone r a t k) \<Longrightarrow> good q \<Longrightarrow> \<exists>p x. held q w = Some (p, Some x) \<and> r = Some x"

text \<open>One event of a session of one client: a step of others, whose new identifiers are not the client's; a
  restart; a submission; a visit of \<open>wait\<close>, whose requests the queue answers or the network loses.\<close>

definition client_fresh :: "'r client \<Rightarrow> string \<Rightarrow> bool" where
  "client_fresh c w = (\<not> dict_has (cl_payloads c) w)"

definition queue_answer ::
  "(string \<Rightarrow> 'q \<Rightarrow> (nat, 'r result_reply) result) \<Rightarrow> bool \<Rightarrow> 'q \<Rightarrow> string \<Rightarrow> 'r result_reply answer" where
  "queue_answer look_up up q w =
     (if up then case look_up w q of Inl code \<Rightarrow> HttpError code | Inr r \<Rightarrow> Answer r else Unreachable)"

inductive session_step ::
  "('q \<Rightarrow> bool) \<Rightarrow> ('q \<Rightarrow> string \<Rightarrow> (submit_request \<times> 'r judge_result option) option)
   \<Rightarrow> (int \<Rightarrow> string \<Rightarrow> submit_request \<Rightarrow> 'q \<Rightarrow> string \<times> 'q) \<Rightarrow> (string \<Rightarrow> 'q \<Rightarrow> (nat, 'r result_reply) result)
   \<Rightarrow> ('q \<Rightarrow> 'q \<Rightarrow> bool) \<Rightarrow> 'q \<times> 'r client \<Rightarrow> 'q \<times> 'r client \<Rightarrow> bool"
  for empty_queue held enter look_up moves where
  others: "moves q q' \<Longrightarrow> (\<And>w. held q w = None \<Longrightarrow> held q' w \<noteq> None \<Longrightarrow> client_fresh c w) \<Longrightarrow>
    session_step empty_queue held enter look_up moves (q, c) (q', c)"
| restart: "empty_queue q' \<Longrightarrow> session_step empty_queue held enter look_up moves (q, c) (q', c)"
| submission: "enter now sfx p q = (w, q') \<Longrightarrow> client_fresh c w \<Longrightarrow>
    session_step empty_queue held enter look_up moves (q, c) (q', client_submit p w c)"
| wait_starts: "set wids \<subseteq> fst ` set (cl_payloads c) \<Longrightarrow>
    session_step empty_queue held enter look_up moves (q, c)
      (q, c\<lparr>cl_alias := dict_of_pairs (map (\<lambda>w. (w, w)) wids), cl_results := []\<rparr>)"
| visit_quiet: "dict_has (cl_alias c) orig \<Longrightarrow>
    wait_visit (queue_answer look_up up q) (\<lambda>_. Unreachable) orig c = Inr c' \<Longrightarrow>
    session_step empty_queue held enter look_up moves (q, c) (q, c')"
| visit_resubmits: "\<not> dict_has (cl_results c) orig \<Longrightarrow> dict_get (cl_alias c) orig = Some cur \<Longrightarrow>
    dict_get (cl_payloads c) cur = Some p \<Longrightarrow> look_up cur q = Inl 404 \<Longrightarrow>
    enter now sfx p q = (w, q') \<Longrightarrow> client_fresh c w \<Longrightarrow>
    wait_visit (queue_answer look_up True q) (\<lambda>_. Answer w) orig c = Inr c' \<Longrightarrow>
    session_step empty_queue held enter look_up moves (q, c) (q', c')"


definition session_inv ::
  "('q \<Rightarrow> bool) \<Rightarrow> ('q \<Rightarrow> string \<Rightarrow> (submit_request \<times> 'r judge_result option) option) \<Rightarrow> 'q \<times> 'r client \<Rightarrow> bool" where
  "session_inv good held s =
     (case s of (q, c) \<Rightarrow>
        good q
        \<and> (\<forall>orig cur. dict_get (cl_alias c) orig = Some cur
             \<longrightarrow> (\<exists>p. dict_get (cl_payloads c) cur = Some p \<and> dict_get (cl_payloads c) orig = Some p))
        \<and> (\<forall>w p p' r. dict_get (cl_payloads c) w = Some p \<longrightarrow> held q w = Some (p', r) \<longrightarrow> p' = p))"

lemma session_invD:
  assumes "session_inv good held (q, c)"
  shows "good q"
    and "dict_get (cl_alias c) orig = Some cur \<Longrightarrow>
      \<exists>p. dict_get (cl_payloads c) cur = Some p \<and> dict_get (cl_payloads c) orig = Some p"
    and "dict_get (cl_payloads c) w = Some p \<Longrightarrow> held q w = Some (p', r) \<Longrightarrow> p' = p"
  using assms unfolding session_inv_def prod.case by blast+

lemma session_invI:
  assumes "good q"
    and "\<And>orig cur. dict_get (cl_alias c) orig = Some cur \<Longrightarrow>
      \<exists>p. dict_get (cl_payloads c) cur = Some p \<and> dict_get (cl_payloads c) orig = Some p"
    and "\<And>w p p' r. dict_get (cl_payloads c) w = Some p \<Longrightarrow> held q w = Some (p', r) \<Longrightarrow> p' = p"
  shows "session_inv good held (q, c)"
  using assms unfolding session_inv_def prod.case by blast

context work_source
begin

lemma visit_keeps:
  assumes "session_inv good held (q, c)" "wait_visit (queue_answer look_up up q) (\<lambda>_. Unreachable) orig c = Inr c'"
  shows "session_inv good held (q, c')"
proof -
  have "cl_payloads c' = cl_payloads c \<and> cl_alias c' = cl_alias c"
    using assms(2)
    by (auto simp: wait_visit_def Let_def split: if_splits answer.splits option.splits result_reply.splits)
  with assms(1) show ?thesis by (simp add: session_inv_def)
qed

lemma enter_keeps:
  assumes inv: "session_inv good held (q, c)" and e: "enter now sfx p q = (w, q')" "client_fresh c w"
    and c': "cl_payloads c' = dict_put w p (cl_payloads c)"
      "cl_alias c' = cl_alias c \<or> (\<exists>orig. cl_alias c' = dict_put orig w (cl_alias c) \<and> dict_get (cl_payloads c) orig = Some p)"
  shows "session_inv good held (q', c')"
proof -
  from inv have good: "good q" by (simp add: session_inv_def)
  have q': "good q'" "held q' = (held q)(w \<mapsto> (p, None))"
    using enter_good [OF good, of now sfx p] enter_held [OF good, of now sfx p] e(1) by simp_all
  have fresh: "dict_get (cl_payloads c) w = None" using e(2) by (simp add: client_fresh_def dict_has_def)
  have al: "\<exists>p'. dict_get (cl_payloads c') cur = Some p' \<and> dict_get (cl_payloads c') orig = Some p'"
    if "dict_get (cl_alias c') orig = Some cur" for orig cur
  proof (cases "dict_get (cl_alias c) orig = Some cur")
    case True
    then obtain p' where "dict_get (cl_payloads c) cur = Some p'" "dict_get (cl_payloads c) orig = Some p'"
      using session_invD(2) [OF inv] by blast
    with fresh show ?thesis by (auto simp: c'(1) dict_simps)
  next
    case False
    with that c'(2) have "cur = w" "dict_get (cl_payloads c) orig = Some p"
      by (auto simp: dict_simps split: if_splits)
    with fresh show ?thesis by (auto simp: c'(1) dict_simps)
  qed
  have "p2 = p1" if "dict_get (cl_payloads c') u = Some p1" "held q' u = Some (p2, r)" for u p1 p2 r
    using that session_invD(3) [OF inv] q'(2) by (auto simp: c'(1) dict_simps split: if_splits)
  with al q'(1) show ?thesis by (intro session_invI)
qed

lemma session_step_inv:
  assumes empty: "\<And>q. empty_queue q \<Longrightarrow> good q \<and> (\<forall>w. held q w = None)"
    and "session_step empty_queue held enter look_up moves s s'" "session_inv good held s"
  shows "session_inv good held s'"
  using assms(2,3)
proof (cases rule: session_step.cases)
  case (others q q' c)
  with assms(3) have good: "good q" by (simp add: session_inv_def)
  have "p' = p" if "dict_get (cl_payloads c) w = Some p" "held q' w = Some (p', r)" for w p p' r
  proof (cases "held q w")
    case None
    with others(4) [of w] that show ?thesis by (simp add: client_fresh_def dict_has_def)
  next
    case (Some x)
    obtain px rx where x: "x = (px, rx)" by force
    with moves_held [OF good others(3)] Some that(2) have "p' = px" by fastforce
    moreover have "px = p" using session_invD(3) [of good held q c] assms(3) others(1) that(1) Some x by blast
    ultimately show ?thesis by simp
  qed
  with session_invD(2) [of good held q c] assms(3) others moves_good [OF good] show ?thesis
    by (auto intro: session_invI)
next
  case (restart q' q c)
  with assms(3) empty [OF restart(3)] show ?thesis by (simp add: session_inv_def)
next
  case (submission now sfx p q w q' c)
  then show ?thesis
    using enter_keeps [of q c now sfx p w q' "client_submit p w c"] assms(3) by (simp add: client_submit_def)
next
  case (wait_starts wids c q)
  have "dict_get (cl_alias c') orig = Some cur \<Longrightarrow> cur = orig \<and> orig \<in> set wids"
    if "c' = c\<lparr>cl_alias := dict_of_pairs (map (\<lambda>w. (w, w)) wids), cl_results := []\<rparr>" for c' orig cur
  proof -
    have "dict_get (dict_of_pairs (map (\<lambda>w. (w, w)) wids)) orig = Some cur \<Longrightarrow> cur = orig \<and> orig \<in> set wids"
      unfolding dict_of_pairs_def dict_get_update
      by (auto split: option.splits dest!: map_of_SomeD simp: rev_map [symmetric])
    with that show "dict_get (cl_alias c') orig = Some cur \<Longrightarrow> cur = orig \<and> orig \<in> set wids" by simp
  qed
  moreover have "\<exists>p. dict_get (cl_payloads c) w = Some p" if "w \<in> set wids" for w
    using wait_starts(3) that by (metis (no_types, lifting) dict_has_def dict_has_iff not_None_eq subsetD)
  ultimately show ?thesis using assms(3) wait_starts(1,2) by (fastforce simp: session_inv_def)
next
  case (visit_quiet c orig up q c')
  with visit_keeps assms(3) show ?thesis by blast
next
  case (visit_resubmits c orig cur p q now sfx w q' c')
  have "dict_get (cl_payloads c) orig = Some p"
    using session_invD(2) [of good held q c orig cur] assms(3) visit_resubmits(1,4,5) by auto
  moreover have "c' = c\<lparr>cl_payloads := dict_put w p (cl_payloads c), cl_alias := dict_put orig w (cl_alias c)\<rparr>"
    using visit_resubmits(9) visit_resubmits(3-6) by (simp add: wait_visit_def queue_answer_def)
  ultimately show ?thesis
    using enter_keeps [of q c now sfx p w q' c'] visit_resubmits assms(3) by auto
qed

lemma session_inv_reachable:
  assumes "\<And>q. empty_queue q \<Longrightarrow> good q \<and> (\<forall>w. held q w = None)" "empty_queue q0" "cl_payloads c0 = []" "cl_alias c0 = []"
    and "(session_step empty_queue held enter look_up moves)\<^sup>*\<^sup>* (q0, c0) s"
  shows "session_inv good held s"
  using assms(5)
proof (induction rule: rtranclp_induct)
  case base
  with assms(1-4) show ?case by (simp add: session_inv_def)
next
  case (step s s')
  with session_step_inv [OF assms(1)] show ?case by blast
qed

lemma result_matches:
  assumes inv: "session_inv good held (q, c)" and a: "dict_has (cl_alias c) orig"
    and new: "wait_visit (queue_answer look_up up q) post orig c = Inr c'" "dict_get (cl_results c) orig = None"
      "dict_get (cl_results c') orig = Some r"
  shows "\<exists>cur p x. dict_get (cl_payloads c) orig = Some p \<and> held q cur = Some (p, Some x) \<and> r = Some x"
proof -
  from a obtain cur where cur: "dict_get (cl_alias c) orig = Some cur" by (auto simp: dict_has_def)
  with session_invD(2) [OF inv] obtain p
    where p: "dict_get (cl_payloads c) cur = Some p" "dict_get (cl_payloads c) orig = Some p" by blast
  from new cur obtain att t k where "queue_answer look_up up q cur = Answer (IsDone r att t k)"
    by (auto simp: wait_visit_def dict_has_def dict_simps split: if_splits answer.splits option.splits result_reply.splits)
  then have "look_up cur q = Inr (IsDone r att t k)"
    by (auto simp: queue_answer_def split: if_splits sum.splits)
  then obtain p' x where h: "held q cur = Some (p', Some x)" "r = Some x"
    using look_up_held session_invD(1) [OF inv] by blast
  moreover have "p' = p" using session_invD(3) [OF inv p(1) h(1)] .
  ultimately show ?thesis using p(2) by blast
qed

end

end
