(* ===== verification/Judge_Queue.thy ===== *)
theory Judge_Queue
  imports Judge_Client
begin

text \<open>
  The pull queue of the arena judges, \<^verbatim>\<open>tpu/pallas_arena/judge/queue.py\<close>: clients submit
  work, judges lease it, extend the lease by heartbeats and post results; expired leases are swept
  lazily.  Every endpoint holds one lock for its whole body, so an endpoint is a function of the state.
  Times are microseconds, the clock and the \<open>uuid4\<close> strings are arguments.
\<close>

section \<open>State\<close>

record 'r item =
  it_work_id :: string
  it_payload :: submit_request
  it_state :: item_state
  it_lease_id :: "string option"
  it_lease_expiry :: int
  it_worker_id :: "string option"
  it_attempts :: int
  it_result :: "'r judge_result option"
  it_terminal :: bool
  it_enqueued_at :: int
  it_completed_at :: "int option"

record queue_stats =
  qs_submitted :: int
  qs_completed :: int
  qs_requeues :: int
  qs_duplicates :: int
  qs_expired_leases :: int
  qs_terminal_rejections :: int

record 'r queue =
  q_lease_timeout :: int
  q_items :: "(string, 'r item) dict"
  q_fifo :: "string list"
  q_seq :: nat
  q_stats :: queue_stats
  q_last_poll :: "(string, int) dict"

definition create_queue :: "int \<Rightarrow> 'r queue" where
  "create_queue lease_timeout =
     \<lparr>q_lease_timeout = lease_timeout, q_items = [], q_fifo = [], q_seq = 0,
      q_stats = \<lparr>qs_submitted = 0, qs_completed = 0, qs_requeues = 0, qs_duplicates = 0,
                 qs_expired_leases = 0, qs_terminal_rejections = 0\<rparr>,
      q_last_poll = []\<rparr>"

definition new_item :: "string \<Rightarrow> submit_request \<Rightarrow> int \<Rightarrow> 'r item" where
  "new_item wid payload now =
     \<lparr>it_work_id = wid, it_payload = payload, it_state = Queued, it_lease_id = None,
      it_lease_expiry = 0, it_worker_id = None, it_attempts = 0, it_result = None,
      it_terminal = False, it_enqueued_at = now, it_completed_at = None\<rparr>"

text \<open>\<open>f"w{n:06d}-{suffix}"\<close>.\<close>

definition work_id_of :: "nat \<Rightarrow> string \<Rightarrow> string" where
  "work_id_of n suffix =
     (let s = str_of_nat n
      in ''w'' @ replicate (6 - length s) (CHR ''0'') @ s @ ''-'' @ suffix)"

definition set_item :: "string \<Rightarrow> 'r item \<Rightarrow> 'r queue \<Rightarrow> 'r queue" where
  "set_item wid it q = q\<lparr>q_items := dict_put wid it (q_items q)\<rparr>"

section \<open>Sweep\<close>

definition expired_lease :: "int \<Rightarrow> 'r item \<Rightarrow> bool" where
  "expired_lease now it = (it_state it = Leased \<and> it_lease_expiry it \<le> now \<and> \<not> it_terminal it)"

definition requeue :: "'r item \<Rightarrow> 'r queue \<Rightarrow> 'r queue" where
  "requeue it q =
     (set_item (it_work_id it) (it\<lparr>it_state := Queued, it_lease_id := None, it_worker_id := None\<rparr>) q)
       \<lparr>q_stats := (q_stats q)\<lparr>qs_expired_leases := qs_expired_leases (q_stats q) + 1,
                              qs_requeues := qs_requeues (q_stats q) + 1\<rparr>,
        q_fifo := it_work_id it # q_fifo q\<rparr>"

definition sweep_expired :: "int \<Rightarrow> 'r queue \<Rightarrow> 'r queue" where
  "sweep_expired now q =
     fold requeue (sort_key it_enqueued_at (filter (expired_lease now) (map snd (q_items q)))) q"

section \<open>Endpoints\<close>

definition submit :: "int \<Rightarrow> string \<Rightarrow> submit_request \<Rightarrow> 'r queue \<Rightarrow> string \<times> 'r queue" where
  "submit now suffix payload q =
     (let wid = work_id_of (q_seq q) suffix
      in (wid, (set_item wid (new_item wid payload now) q)
                 \<lparr>q_fifo := q_fifo q @ [wid], q_seq := q_seq q + 1,
                  q_stats := (q_stats q)\<lparr>qs_submitted := qs_submitted (q_stats q) + 1\<rparr>\<rparr>))"

text \<open>The loop of \<open>/work\<close>: pop pointers until one names a queued item.\<close>

fun pop_queued :: "(string, 'r item) dict \<Rightarrow> string list \<Rightarrow> 'r item option \<times> string list" where
  "pop_queued items [] = (None, [])"
| "pop_queued items (wid # fifo) =
     (case dict_get items wid of
        None \<Rightarrow> pop_queued items fifo
      | Some it \<Rightarrow> if it_state it \<noteq> Queued then pop_queued items fifo else (Some it, fifo))"

record work_reply =
  wr_work_id :: string
  wr_lease_id :: string
  wr_lease_timeout :: int
  wr_attempt :: int
  wr_payload :: submit_request

definition get_work :: "int \<Rightarrow> string \<Rightarrow> string \<Rightarrow> 'r queue \<Rightarrow> work_reply option \<times> 'r queue" where
  "get_work now lease worker q =
     (let q1 = sweep_expired now (q\<lparr>q_last_poll := dict_put worker now (q_last_poll q)\<rparr>);
          (found, fifo) = pop_queued (q_items q1) (q_fifo q1);
          q2 = q1\<lparr>q_fifo := fifo\<rparr>
      in case found of
           None \<Rightarrow> (None, q2)
         | Some it \<Rightarrow>
             let it' = it\<lparr>it_state := Leased, it_lease_id := Some lease,
                          it_lease_expiry := now + q_lease_timeout q, it_worker_id := Some worker,
                          it_attempts := it_attempts it + 1\<rparr>
             in (Some \<lparr>wr_work_id = it_work_id it', wr_lease_id = lease,
                       wr_lease_timeout = q_lease_timeout q, wr_attempt = it_attempts it',
                       wr_payload = it_payload it'\<rparr>,
                 set_item (it_work_id it) it' q2))"

definition heartbeat :: "int \<Rightarrow> string \<Rightarrow> 'r queue \<Rightarrow> (nat, int) result \<times> 'r queue" where
  "heartbeat now lease q =
     (case List.find (\<lambda>it. it_lease_id it = Some lease \<and> it_state it = Leased) (map snd (q_items q)) of
        None \<Rightarrow> (Inl 404, q)
      | Some it \<Rightarrow>
          if it_lease_expiry it \<le> now then (Inl 404, q)
          else (Inr (now + q_lease_timeout q),
                set_item (it_work_id it) (it\<lparr>it_lease_expiry := now + q_lease_timeout q\<rparr>) q))"

text \<open>The flag of \<open>/result\<close> in the answer is \<open>duplicate\<close>.\<close>

definition post_result ::
  "int \<Rightarrow> string \<Rightarrow> 'r judge_result \<Rightarrow> bool \<Rightarrow> 'r queue \<Rightarrow> (nat, bool) result \<times> 'r queue" where
  "post_result now wid res terminal q =
     (case dict_get (q_items q) wid of
        None \<Rightarrow> (Inl 404, q)
      | Some it \<Rightarrow>
          if it_state it = Done
          then (Inr True, q\<lparr>q_stats := (q_stats q)\<lparr>qs_duplicates := qs_duplicates (q_stats q) + 1\<rparr>\<rparr>)
          else
            let term = (terminal \<or> jr_terminal res);
                stats = (if term
                         then (q_stats q)\<lparr>qs_terminal_rejections := qs_terminal_rejections (q_stats q) + 1\<rparr>
                         else q_stats q)
            in (Inr False,
                (set_item wid (it\<lparr>it_terminal := it_terminal it \<or> term, it_result := Some res,
                                  it_state := Done, it_completed_at := Some now, it_lease_id := None\<rparr>) q)
                  \<lparr>q_stats := stats\<lparr>qs_completed := qs_completed stats + 1\<rparr>\<rparr>))"

definition get_result :: "string \<Rightarrow> 'r queue \<Rightarrow> (nat, 'r result_reply) result" where
  "get_result wid q =
     (case dict_get (q_items q) wid of
        None \<Rightarrow> Inl 404
      | Some it \<Rightarrow>
          if it_state it \<noteq> Done then Inr (NotDone (it_state it) (it_attempts it))
          else Inr (IsDone (it_result it) (it_attempts it) (it_terminal it) (it_worker_id it)))"

definition bulk_visit ::
  "'r queue \<Rightarrow> string \<Rightarrow> (string, 'r bulk_entry) dict \<Rightarrow> (string, 'r bulk_entry) dict" where
  "bulk_visit q wid out =
     (case dict_get (q_items q) wid of
        None \<Rightarrow> dict_put wid Missing out
      | Some it \<Rightarrow>
          if it_state it = Done
          then dict_put wid (DoneEntry (it_result it) (it_attempts it) (it_terminal it)
                               (it_worker_id it) (it_completed_at it)) out
          else out)"

definition get_results :: "string list \<Rightarrow> 'r queue \<Rightarrow> (string, 'r bulk_entry) dict" where
  "get_results wids q = fold (bulk_visit q) wids []"

record lease_info =
  li_work_id :: string
  li_worker_id :: "string option"
  li_attempts :: int
  li_tag :: "string option"
  li_expiry :: int

definition leases :: "'r queue \<Rightarrow> lease_info list" where
  "leases q =
     map (\<lambda>it. \<lparr>li_work_id = it_work_id it, li_worker_id = it_worker_id it,
                li_attempts = it_attempts it,
                li_tag = sr_tag (it_payload it), li_expiry = it_lease_expiry it\<rparr>)
         (filter (\<lambda>it. it_state it = Leased) (map snd (q_items q)))"

definition count_items :: "('v \<Rightarrow> bool) \<Rightarrow> ('k, 'v) dict \<Rightarrow> int" where
  "count_items P d = int (length (filter (\<lambda>(k, v). P v) d))"

definition count_state :: "item_state \<Rightarrow> 'r queue \<Rightarrow> int" where
  "count_state s q = count_items (\<lambda>it. it_state it = s) (q_items q)"

record queue_status =
  st_queue_depth :: int
  st_leased :: int
  st_lease_timeout :: int
  st_workers_seen :: "(string, int) dict"
  st_stats :: queue_stats

definition status :: "int \<Rightarrow> 'r queue \<Rightarrow> queue_status \<times> 'r queue" where
  "status now q =
     (let q1 = sweep_expired now q
      in (\<lparr>st_queue_depth = count_state Queued q1, st_leased = count_state Leased q1,
           st_lease_timeout = q_lease_timeout q1,
           st_workers_seen = map (\<lambda>(w, t). (w, now - t)) (q_last_poll q1), st_stats = q_stats q1\<rparr>, q1))"


section \<open>Steps\<close>

text \<open>What can happen to the queue: any endpoint, called at any time with any argument.  The lease
  identifiers \<open>uuid4\<close> draws are not in use.\<close>

definition lease_in_use :: "string \<Rightarrow> 'r queue \<Rightarrow> bool" where
  "lease_in_use lease q = list_ex (\<lambda>it. it_lease_id it = Some lease) (map snd (q_items q))"

inductive queue_step :: "'r queue \<Rightarrow> 'r queue \<Rightarrow> bool" where
  step_submit: "queue_step q (snd (submit now suffix payload q))"
| step_work: "\<not> lease_in_use lease q \<Longrightarrow> queue_step q (snd (get_work now lease worker q))"
| step_heartbeat: "queue_step q (snd (heartbeat now lease q))"
| step_result: "queue_step q (snd (post_result now wid res terminal q))"
| step_status: "queue_step q (snd (status now q))"

section \<open>Work identifiers\<close>

lemma dash_no_digit: "CHR ''-'' \<notin> set (str_of_nat n)"
proof
  assume "CHR ''-'' \<in> set (str_of_nat n)"
  then obtain d where d: "d < 10" "CHR ''-'' = (char_of (48 + d :: nat) :: char)" using str_of_nat_digits by blast
  then have "(of_char CHR ''-'' :: nat) = (48 + d) mod 256" by simp
  with d(1) show False by simp
qed

lemma digits_value_pad: "digits_value (replicate k (CHR ''0'') @ s) = digits_value s"
  by (induction k) (simp_all add: digits_value_def)

lemma takeWhile_no_dash: "CHR ''-'' \<notin> set xs \<Longrightarrow> takeWhile (\<lambda>c. c \<noteq> CHR ''-'') (xs @ CHR ''-'' # ys) = xs"
  by (induction xs) auto

lemma work_id_number: "digits_value (takeWhile (\<lambda>c. c \<noteq> CHR ''-'') (tl (work_id_of n s))) = n"
proof -
  let ?xs = "replicate (6 - length (str_of_nat n)) (CHR ''0'') @ str_of_nat n"
  have "CHR ''-'' \<notin> set ?xs" using dash_no_digit by (auto simp: set_replicate_conv_if)
  then have "takeWhile (\<lambda>c. c \<noteq> CHR ''-'') (?xs @ CHR ''-'' # s) = ?xs" by (rule takeWhile_no_dash)
  then show ?thesis by (simp add: work_id_of_def Let_def digits_value_pad digits_value_str)
qed

lemma work_id_inj: "work_id_of m s = work_id_of n t \<Longrightarrow> m = n"
  using work_id_number by metis


section \<open>Invariant\<close>

text \<open>The fields of an item fit its state.\<close>

definition item_ok :: "'r item \<Rightarrow> bool" where
  "item_ok it =
     (0 \<le> it_attempts it \<and> (case it_state it of
        Queued \<Rightarrow> it_lease_id it = None \<and> it_worker_id it = None \<and> it_result it = None \<and> \<not> it_terminal it
          \<and> it_completed_at it = None
      | Leased \<Rightarrow> it_lease_id it \<noteq> None \<and> it_worker_id it \<noteq> None \<and> it_result it = None \<and> \<not> it_terminal it
          \<and> it_completed_at it = None \<and> 1 \<le> it_attempts it
      | Done \<Rightarrow> it_lease_id it = None \<and> it_result it \<noteq> None \<and> it_completed_at it \<noteq> None))"

text \<open>The fields and the pointer of the item stored under a key.\<close>

definition entry_ok :: "'r queue \<Rightarrow> string \<Rightarrow> 'r item \<Rightarrow> bool" where
  "entry_ok q wid it =
     (it_work_id it = wid \<and> item_ok it \<and> (it_state it = Queued \<longrightarrow> wid \<in> set (q_fifo q))
      \<and> (it_state it = Leased \<longrightarrow> wid \<notin> set (q_fifo q)))"

definition queue_inv :: "'r queue \<Rightarrow> bool" where
  "queue_inv q =
     (dict_wf (q_items q) \<and> distinct (q_fifo q)
      \<and> (\<forall>wid it. dict_get (q_items q) wid = Some it \<longrightarrow> entry_ok q wid it)
      \<and> (\<forall>wid it. dict_get (q_items q) wid = Some it \<longrightarrow> (\<exists>n<q_seq q. \<exists>s. wid = work_id_of n s))
      \<and> (\<forall>wid\<in>set (q_fifo q). \<exists>n<q_seq q. \<exists>s. wid = work_id_of n s))"

text \<open>The leases held are distinct.\<close>

definition leases_distinct :: "'r queue \<Rightarrow> bool" where
  "leases_distinct q =
     (\<forall>u v it it' l. dict_get (q_items q) u = Some it \<longrightarrow> dict_get (q_items q) v = Some it'
        \<longrightarrow> it_lease_id it = Some l \<longrightarrow> it_lease_id it' = Some l \<longrightarrow> u = v)"

text \<open>The counters account for every item.\<close>

definition stats_ok :: "'r queue \<Rightarrow> bool" where
  "stats_ok q =
     (qs_submitted (q_stats q) = int (length (q_items q)) \<and> qs_completed (q_stats q) = count_state Done q
      \<and> qs_requeues (q_stats q) = qs_expired_leases (q_stats q))"

lemma set_item_simps [simp]:
  "q_items (set_item wid it q) = dict_put wid it (q_items q)" "q_fifo (set_item wid it q) = q_fifo q"
  "q_seq (set_item wid it q) = q_seq q" "q_stats (set_item wid it q) = q_stats q"
  "q_lease_timeout (set_item wid it q) = q_lease_timeout q"
  by (simp_all add: set_item_def)

lemma queue_invD:
  assumes "queue_inv q"
  shows "dict_wf (q_items q)" "distinct (q_fifo q)"
    and "dict_get (q_items q) wid = Some it \<Longrightarrow> entry_ok q wid it"
    and "dict_get (q_items q) wid = Some it \<Longrightarrow> \<exists>n<q_seq q. \<exists>s. wid = work_id_of n s"
    and "wid \<in> set (q_fifo q) \<Longrightarrow> \<exists>n<q_seq q. \<exists>s. wid = work_id_of n s"
  using assms unfolding queue_inv_def by blast+

lemma items_of_queue: "queue_inv q \<Longrightarrow> it \<in> set (map snd (q_items q)) \<longleftrightarrow> dict_get (q_items q) (it_work_id it) = Some it"
proof
  assume inv: "queue_inv q" and "it \<in> set (map snd (q_items q))"
  then obtain wid where "(wid, it) \<in> set (q_items q)" by auto
  then have "dict_get (q_items q) wid = Some it" using dict_get_in [OF queue_invD(1) [OF inv]] by blast
  with queue_invD(3) [OF inv this] show "dict_get (q_items q) (it_work_id it) = Some it"
    by (simp add: entry_ok_def)
next
  assume "dict_get (q_items q) (it_work_id it) = Some it"
  then show "it \<in> set (map snd (q_items q))" by (metis map_of_SomeD image_eqI list.set_map snd_conv)
qed

text \<open>Counting over a dict under an update.\<close>

lemma count_put_present:
  assumes "dict_get d k = Some old"
  shows "count_items P (dict_put k v d) = count_items P d - of_bool (P old) + of_bool (P v)"
  using assms
proof (induction d)
  case Nil
  then show ?case by simp
next
  case (Cons x d)
  obtain a b where x: "x = (a, b)" by force
  show ?case
  proof (cases "a = k")
    case True
    with Cons.prems show ?thesis by (simp add: x count_items_def)
  next
    case False
    with Cons.prems Cons.IH show ?thesis by (simp add: x count_items_def)
  qed
qed

lemma count_put_fresh:
  assumes "dict_get d k = None"
  shows "dict_put k v d = d @ [(k, v)]"
  using assms by (simp add: dict_put_fresh map_of_eq_None_iff)

lemma length_put_present: "dict_get d k = Some old \<Longrightarrow> length (dict_put k v d) = length d"
  by (metis dict_keys_put_present domI dom_map_of_conv_image_fst length_map)

subsection \<open>Sweep\<close>

definition requeued :: "'r item \<Rightarrow> 'r item" where
  "requeued it = it\<lparr>it_state := Queued, it_lease_id := None, it_worker_id := None\<rparr>"

lemma requeue_simps [simp]:
  "q_items (requeue it q) = dict_put (it_work_id it) (requeued it) (q_items q)"
  "q_fifo (requeue it q) = it_work_id it # q_fifo q" "q_seq (requeue it q) = q_seq q"
  "q_lease_timeout (requeue it q) = q_lease_timeout q"
  by (simp_all add: requeue_def requeued_def)

lemma requeue_inv:
  assumes "queue_inv q" "leases_distinct q" "stats_ok q"
    and it: "dict_get (q_items q) (it_work_id it) = Some it" "it_state it = Leased"
  shows "queue_inv (requeue it q)" "leases_distinct (requeue it q)" "stats_ok (requeue it q)"
proof -
  from queue_invD(3) [OF assms(1) it(1)] have e: "entry_ok q (it_work_id it) it" .
  then have ok: "item_ok (requeued it)" and notin: "it_work_id it \<notin> set (q_fifo q)"
    using it(2) by (simp_all add: entry_ok_def item_ok_def requeued_def)
  have entries: "entry_ok (requeue it q) wid x" if "dict_get (q_items (requeue it q)) wid = Some x" for wid x
  proof (cases "wid = it_work_id it")
    case True
    with that ok show ?thesis by (auto simp: entry_ok_def dict_simps requeued_def)
  next
    case False
    with that have "entry_ok q wid x" using queue_invD(3) [OF assms(1)] by (simp add: dict_simps)
    with False show ?thesis by (simp add: entry_ok_def)
  qed
  show "queue_inv (requeue it q)"
    unfolding queue_inv_def
  proof (intro conjI allI impI ballI)
    show "dict_wf (q_items (requeue it q))" using queue_invD(1) [OF assms(1)] by simp
    show "distinct (q_fifo (requeue it q))" using queue_invD(2) [OF assms(1)] notin by simp
    show "entry_ok (requeue it q) wid x" if "dict_get (q_items (requeue it q)) wid = Some x" for wid x
      using entries [OF that] .
    show "\<exists>n<q_seq (requeue it q). \<exists>s. wid = work_id_of n s"
      if "dict_get (q_items (requeue it q)) wid = Some x" for wid x
      using that queue_invD(4) [OF assms(1)] it(1) by (auto simp: dict_simps split: if_splits)
    show "\<exists>n<q_seq (requeue it q). \<exists>s. wid = work_id_of n s" if "wid \<in> set (q_fifo (requeue it q))" for wid
      using that queue_invD(4) [OF assms(1) it(1)] queue_invD(5) [OF assms(1)] by auto
  qed
  show "leases_distinct (requeue it q)"
    using assms(2) unfolding leases_distinct_def by (auto simp: dict_simps requeued_def)
  show "stats_ok (requeue it q)"
    using assms(3) it unfolding stats_ok_def count_state_def
    by (simp add: count_put_present [OF it(1)] length_put_present [OF it(1)])
       (simp add: requeue_def requeued_def count_put_present [OF it(1)])
qed


text \<open>The sweep goes through distinct leased items of the queue.\<close>

definition sweep_list :: "int \<Rightarrow> 'r queue \<Rightarrow> 'r item list" where
  "sweep_list now q = sort_key it_enqueued_at (filter (expired_lease now) (map snd (q_items q)))"

lemma sweep_fold: "sweep_expired now q = fold requeue (sweep_list now q) q"
  by (simp add: sweep_expired_def sweep_list_def)

lemma set_sweep_list: "queue_inv q \<Longrightarrow>
  it \<in> set (sweep_list now q) \<longleftrightarrow> dict_get (q_items q) (it_work_id it) = Some it \<and> expired_lease now it"
  using items_of_queue [of q it] by (auto simp: sweep_list_def)

lemma distinct_sweep_list:
  assumes "queue_inv q"
  shows "distinct (map it_work_id (sweep_list now q))"
proof -
  have "\<forall>x\<in>set (q_items q). it_work_id (snd x) = fst x"
    using queue_invD(3) [OF assms] dict_get_in [OF queue_invD(1) [OF assms]]
    by (fastforce simp: entry_ok_def)
  then have "map it_work_id (map snd (q_items q)) = map fst (q_items q)" by simp
  then have "distinct (map it_work_id (map snd (q_items q)))"
    using queue_invD(1) [OF assms] by (simp only: dict_wf_def)
  then have "distinct (map it_work_id (filter (expired_lease now) (map snd (q_items q))))"
    by (rule distinct_map_filter)
  then show ?thesis unfolding sweep_list_def distinct_map by simp
qed

text \<open>What the sweep leaves: invariants, the new pointers, the items.\<close>

lemma fold_requeue:
  assumes "queue_inv q" "leases_distinct q" "stats_ok q" "distinct (map it_work_id xs)"
    and "\<forall>it\<in>set xs. dict_get (q_items q) (it_work_id it) = Some it \<and> it_state it = Leased"
  shows "queue_inv (fold requeue xs q) \<and> leases_distinct (fold requeue xs q) \<and> stats_ok (fold requeue xs q)
    \<and> q_fifo (fold requeue xs q) = map it_work_id (rev xs) @ q_fifo q
    \<and> q_lease_timeout (fold requeue xs q) = q_lease_timeout q \<and> q_seq (fold requeue xs q) = q_seq q
    \<and> (\<forall>wid. dict_get (q_items (fold requeue xs q)) wid
          = (if wid \<in> it_work_id ` set xs then map_option requeued (dict_get (q_items q) wid)
             else dict_get (q_items q) wid))"
  using assms
proof (induction xs arbitrary: q)
  case Nil
  then show ?case by simp
next
  case (Cons x xs)
  from Cons.prems have x: "dict_get (q_items q) (it_work_id x) = Some x" "it_state x = Leased" by simp_all
  note inv = requeue_inv [OF Cons.prems(1-3) x]
  have "\<forall>it\<in>set xs. it_work_id it \<noteq> it_work_id x" using Cons.prems(4) by (metis distinct.simps(2) image_eqI list.simps(9) list.set_map)
  with Cons.prems(5) have "\<forall>it\<in>set xs. dict_get (q_items (requeue x q)) (it_work_id it) = Some it \<and> it_state it = Leased"
    by (simp add: dict_simps)
  moreover have "distinct (map it_work_id xs)" using Cons.prems(4) by simp
  ultimately have ih: "queue_inv (fold requeue xs (requeue x q)) \<and> leases_distinct (fold requeue xs (requeue x q))
    \<and> stats_ok (fold requeue xs (requeue x q))
    \<and> q_fifo (fold requeue xs (requeue x q)) = map it_work_id (rev xs) @ q_fifo (requeue x q)
    \<and> q_lease_timeout (fold requeue xs (requeue x q)) = q_lease_timeout (requeue x q)
    \<and> q_seq (fold requeue xs (requeue x q)) = q_seq (requeue x q)
    \<and> (\<forall>wid. dict_get (q_items (fold requeue xs (requeue x q))) wid
          = (if wid \<in> it_work_id ` set xs then map_option requeued (dict_get (q_items (requeue x q)) wid)
             else dict_get (q_items (requeue x q)) wid))"
    by (intro Cons.IH [OF inv]) simp_all
  have notin: "it_work_id x \<notin> it_work_id ` set xs" using Cons.prems(4) by simp
  show ?case
  proof (intro conjI allI)
    show "dict_get (q_items (fold requeue (x # xs) q)) wid
          = (if wid \<in> it_work_id ` set (x # xs) then map_option requeued (dict_get (q_items q) wid)
             else dict_get (q_items q) wid)" for wid
      using ih notin x by (simp add: dict_simps)
  qed (use ih in simp_all)
qed

lemma sweep_effect:
  assumes "queue_inv q" "leases_distinct q" "stats_ok q"
  shows "queue_inv (sweep_expired now q)" "leases_distinct (sweep_expired now q)" "stats_ok (sweep_expired now q)"
    and "q_fifo (sweep_expired now q) = map it_work_id (rev (sweep_list now q)) @ q_fifo q"
    and "q_lease_timeout (sweep_expired now q) = q_lease_timeout q"
    and "q_seq (sweep_expired now q) = q_seq q"
    and "dict_get (q_items (sweep_expired now q)) wid
      = map_option (\<lambda>it. if expired_lease now it then requeued it else it) (dict_get (q_items q) wid)"
proof -
  have l: "\<forall>it\<in>set (sweep_list now q). dict_get (q_items q) (it_work_id it) = Some it \<and> it_state it = Leased"
    using set_sweep_list [OF assms(1)] by (simp add: expired_lease_def)
  note f = fold_requeue [OF assms distinct_sweep_list [OF assms(1)] l, folded sweep_fold]
  show "queue_inv (sweep_expired now q)" "leases_distinct (sweep_expired now q)" "stats_ok (sweep_expired now q)"
    "q_fifo (sweep_expired now q) = map it_work_id (rev (sweep_list now q)) @ q_fifo q"
    "q_lease_timeout (sweep_expired now q) = q_lease_timeout q" "q_seq (sweep_expired now q) = q_seq q"
    using f by blast+
  show "dict_get (q_items (sweep_expired now q)) wid
      = map_option (\<lambda>it. if expired_lease now it then requeued it else it) (dict_get (q_items q) wid)"
  proof (cases "dict_get (q_items q) wid")
    case None
    with f show ?thesis by simp
  next
    case (Some it)
    then have w: "it_work_id it = wid" using queue_invD(3) [OF assms(1)] by (simp add: entry_ok_def)
    have "wid \<in> it_work_id ` set (sweep_list now q) \<longleftrightarrow> expired_lease now it"
    proof
      assume "wid \<in> it_work_id ` set (sweep_list now q)"
      then obtain x where x: "x \<in> set (sweep_list now q)" "wid = it_work_id x" by blast
      with Some set_sweep_list [OF assms(1)] show "expired_lease now it" by auto
    next
      assume "expired_lease now it"
      with Some w have "it \<in> set (sweep_list now q)" using set_sweep_list [OF assms(1)] by simp
      with w show "wid \<in> it_work_id ` set (sweep_list now q)" by blast
    qed
    with f Some show ?thesis by simp
  qed
qed


subsection \<open>Steps\<close>

lemma pop_queued_Some:
  assumes "pop_queued items fifo = (Some it, rest)"
  shows "\<exists>skipped wid. fifo = skipped @ wid # rest \<and> dict_get items wid = Some it \<and> it_state it = Queued
    \<and> (\<forall>u\<in>set skipped. \<forall>x. dict_get items u = Some x \<longrightarrow> it_state x \<noteq> Queued)"
  using assms
proof (induction fifo)
  case Nil
  then show ?case by simp
next
  case (Cons wid fifo)
  show ?case
  proof (cases "\<exists>x. dict_get items wid = Some x \<and> it_state x = Queued")
    case True
    with Cons.prems have "fifo = rest" "dict_get items wid = Some it" "it_state it = Queued" by auto
    then show ?thesis by (intro exI [of _ "[]"] exI [of _ wid]) simp
  next
    case False
    with Cons.prems have "pop_queued items fifo = (Some it, rest)" by (auto split: option.splits if_splits)
    from Cons.IH [OF this] obtain skipped u where "fifo = skipped @ u # rest" "dict_get items u = Some it"
      "it_state it = Queued" "\<forall>v\<in>set skipped. \<forall>x. dict_get items v = Some x \<longrightarrow> it_state x \<noteq> Queued"
      by blast
    with False show ?thesis by (intro exI [of _ "wid # skipped"] exI [of _ u]) simp
  qed
qed

lemma pop_queued_None:
  assumes "pop_queued items fifo = (None, rest)"
  shows "rest = [] \<and> (\<forall>u\<in>set fifo. \<forall>x. dict_get items u = Some x \<longrightarrow> it_state x \<noteq> Queued)"
  using assms by (induction fifo) (auto split: option.splits if_splits)

text \<open>Overwriting one entry, with pointers that fit.\<close>

lemma queue_inv_put:
  assumes inv: "queue_inv q" and old: "dict_get (q_items q) wid = Some old"
    and q': "q_items q' = dict_put wid it (q_items q)" "q_seq q' = q_seq q" "entry_ok q' wid it"
    and fifo: "distinct (q_fifo q')" "set (q_fifo q') \<subseteq> set (q_fifo q)"
      "\<And>u x. u \<noteq> wid \<Longrightarrow> dict_get (q_items q) u = Some x \<Longrightarrow> it_state x = Queued \<Longrightarrow> u \<in> set (q_fifo q')"
  shows "queue_inv q'"
proof -
  have entries: "entry_ok q' u x" if "dict_get (q_items q') u = Some x" for u x
  proof (cases "u = wid")
    case True
    with that q' show ?thesis by (simp add: dict_simps)
  next
    case False
    with that have x: "dict_get (q_items q) u = Some x" by (simp add: q' dict_simps)
    with queue_invD(3) [OF inv] fifo(2) fifo(3) [OF False x] show ?thesis by (auto simp: entry_ok_def)
  qed
  show ?thesis
    unfolding queue_inv_def
  proof (intro conjI allI impI ballI)
    show "dict_wf (q_items q')" using queue_invD(1) [OF inv] by (simp add: q')
    show "distinct (q_fifo q')" by (rule fifo(1))
    show "entry_ok q' u x" if "dict_get (q_items q') u = Some x" for u x using entries [OF that] .
    show "\<exists>n<q_seq q'. \<exists>s. u = work_id_of n s" if "dict_get (q_items q') u = Some x" for u x
      using that queue_invD(4) [OF inv] old by (simp add: q' dict_simps split: if_splits)
    show "\<exists>n<q_seq q'. \<exists>s. u = work_id_of n s" if "u \<in> set (q_fifo q')" for u
      using that queue_invD(5) [OF inv] fifo(2) by (auto simp: q')
  qed
qed

lemma stats_ok_put:
  assumes "stats_ok q" "dict_get (q_items q) wid = Some old" "q_items q' = dict_put wid it (q_items q)"
    and "qs_submitted (q_stats q') = qs_submitted (q_stats q)"
    and "qs_completed (q_stats q')
      = qs_completed (q_stats q) - of_bool (it_state old = Done) + of_bool (it_state it = Done)"
    and "qs_requeues (q_stats q') = qs_requeues (q_stats q)"
    and "qs_expired_leases (q_stats q') = qs_expired_leases (q_stats q)"
  shows "stats_ok q'"
  using assms by (simp add: stats_ok_def count_state_def count_put_present length_put_present)

definition queue_sound :: "'r queue \<Rightarrow> bool" where
  "queue_sound q = (queue_inv q \<and> leases_distinct q \<and> stats_ok q)"

lemma queue_sound_cong:
  assumes "q_items q' = q_items q" "q_fifo q' = q_fifo q" "q_seq q' = q_seq q"
    and "qs_submitted (q_stats q') = qs_submitted (q_stats q)" "qs_completed (q_stats q') = qs_completed (q_stats q)"
    and "qs_requeues (q_stats q') = qs_requeues (q_stats q)"
    and "qs_expired_leases (q_stats q') = qs_expired_leases (q_stats q)"
  shows "queue_sound q' = queue_sound q"
  using assms by (simp add: queue_sound_def queue_inv_def entry_ok_def leases_distinct_def stats_ok_def count_state_def)

lemma create_queue_sound: "queue_sound (create_queue t)"
  by (simp add: queue_sound_def create_queue_def queue_inv_def leases_distinct_def stats_ok_def count_state_def
    count_items_def)

lemma sweep_sound: "queue_sound q \<Longrightarrow> queue_sound (sweep_expired now q)"
  using sweep_effect(1-3) unfolding queue_sound_def by blast

lemma submit_sound:
  assumes "queue_sound q"
  shows "queue_sound (snd (submit now suffix payload q))"
    and "dict_get (q_items q) (fst (submit now suffix payload q)) = None"
proof -
  define wid where "wid = work_id_of (q_seq q) suffix"
  define q' where "q' = snd (submit now suffix payload q)"
  from assms have inv: "queue_inv q" "leases_distinct q" "stats_ok q" by (simp_all add: queue_sound_def)
  have fresh: "wid \<noteq> work_id_of n s" if "n < q_seq q" for n s
    using that work_id_inj unfolding wid_def by blast
  have get: "dict_get (q_items q) wid = None"
    using queue_invD(4) [OF inv(1), of wid] fresh by (cases "dict_get (q_items q) wid") blast+
  have notin: "wid \<notin> set (q_fifo q)" using queue_invD(5) [OF inv(1), of wid] fresh by blast
  show "dict_get (q_items q) (fst (submit now suffix payload q)) = None"
    using get by (simp add: submit_def wid_def Let_def)
  have q': "q_items q' = dict_put wid (new_item wid payload now) (q_items q)" "q_fifo q' = q_fifo q @ [wid]"
    "q_seq q' = q_seq q + 1" "q_stats q' = (q_stats q)\<lparr>qs_submitted := qs_submitted (q_stats q) + 1\<rparr>"
    by (simp_all add: q'_def submit_def wid_def Let_def)
  have old: "\<exists>n<q_seq q + 1. \<exists>s. u = work_id_of n s" if "\<exists>n<q_seq q. \<exists>s. u = work_id_of n s" for u
    using that by (metis less_add_one less_trans)
  have entries: "entry_ok q' u x" if "dict_get (q_items q') u = Some x" for u x
  proof (cases "u = wid")
    case True
    with that show ?thesis by (auto simp: q' dict_simps entry_ok_def item_ok_def new_item_def)
  next
    case False
    with that have "dict_get (q_items q) u = Some x" by (simp add: q' dict_simps)
    with queue_invD(3) [OF inv(1) this] False show ?thesis by (auto simp: entry_ok_def q')
  qed
  have "queue_inv q'"
    unfolding queue_inv_def
  proof (intro conjI allI impI ballI)
    show "dict_wf (q_items q')" using queue_invD(1) [OF inv(1)] by (simp add: q')
    show "distinct (q_fifo q')" using queue_invD(2) [OF inv(1)] notin by (simp add: q')
    show "entry_ok q' u x" if "dict_get (q_items q') u = Some x" for u x using entries [OF that] .
    show "\<exists>n<q_seq q'. \<exists>s. u = work_id_of n s" if "dict_get (q_items q') u = Some x" for u x
      using that queue_invD(4) [OF inv(1)] old by (auto simp: q' dict_simps wid_def split: if_splits)
    show "\<exists>n<q_seq q'. \<exists>s. u = work_id_of n s" if "u \<in> set (q_fifo q')" for u
      using that queue_invD(5) [OF inv(1)] old by (auto simp: q' wid_def)
  qed
  moreover have "leases_distinct q'"
    using inv(2) unfolding leases_distinct_def by (auto simp: q' dict_simps new_item_def)
  moreover have "stats_ok q'"
    using inv(3) unfolding stats_ok_def count_state_def
    by (simp add: q' count_put_fresh [OF get] count_items_def new_item_def)
  ultimately show "queue_sound (snd (submit now suffix payload q))" by (simp add: queue_sound_def q'_def)
qed


text \<open>The state \<open>/work\<close> looks at: poll recorded, expired leases swept.\<close>

definition swept :: "int \<Rightarrow> string \<Rightarrow> 'r queue \<Rightarrow> 'r queue" where
  "swept now worker q = sweep_expired now (q\<lparr>q_last_poll := dict_put worker now (q_last_poll q)\<rparr>)"

lemma swept_sound:
  assumes "queue_sound q"
  shows "queue_sound (swept now worker q)"
    and "q_fifo (swept now worker q) = map it_work_id (rev (sweep_list now q)) @ q_fifo q"
    and "q_lease_timeout (swept now worker q) = q_lease_timeout q"
    and "dict_get (q_items (swept now worker q)) wid
      = map_option (\<lambda>it. if expired_lease now it then requeued it else it) (dict_get (q_items q) wid)"
proof -
  let ?q = "q\<lparr>q_last_poll := dict_put worker now (q_last_poll q)\<rparr>"
  have s: "queue_sound ?q" using queue_sound_cong [of ?q q] assms by simp
  then have i: "queue_inv ?q" "leases_distinct ?q" "stats_ok ?q" by (simp_all add: queue_sound_def)
  show "queue_sound (swept now worker q)" unfolding swept_def by (rule sweep_sound [OF s])
  have "sweep_list now ?q = sweep_list now q" by (simp add: sweep_list_def)
  with sweep_effect(4) [OF i, of now]
  show "q_fifo (swept now worker q) = map it_work_id (rev (sweep_list now q)) @ q_fifo q"
    by (simp add: swept_def)
  show "q_lease_timeout (swept now worker q) = q_lease_timeout q"
    using sweep_effect(5) [OF i, of now] by (simp add: swept_def)
  show "dict_get (q_items (swept now worker q)) wid
      = map_option (\<lambda>it. if expired_lease now it then requeued it else it) (dict_get (q_items q) wid)"
    using sweep_effect(7) [OF i, of now wid] by (simp add: swept_def)
qed

definition leased_to :: "int \<Rightarrow> string \<Rightarrow> string \<Rightarrow> 'r queue \<Rightarrow> 'r item \<Rightarrow> 'r item" where
  "leased_to now lease worker q it =
     it\<lparr>it_state := Leased, it_lease_id := Some lease, it_lease_expiry := now + q_lease_timeout q,
        it_worker_id := Some worker, it_attempts := it_attempts it + 1\<rparr>"

text \<open>The two outcomes of a poll.\<close>

lemma get_work_cases [consumes 1, case_names idle work]:
  assumes "queue_sound q"
  obtains (idle) "fst (get_work now lease worker q) = None"
      "snd (get_work now lease worker q) = (swept now worker q)\<lparr>q_fifo := []\<rparr>"
      "\<And>wid it. dict_get (q_items (swept now worker q)) wid = Some it \<Longrightarrow> it_state it \<noteq> Queued"
  | (work) skipped wid rest it where "q_fifo (swept now worker q) = skipped @ wid # rest"
      "dict_get (q_items (swept now worker q)) wid = Some it" "it_state it = Queued"
      "\<And>u x. u \<in> set skipped \<Longrightarrow> dict_get (q_items (swept now worker q)) u = Some x \<Longrightarrow> it_state x \<noteq> Queued"
      "fst (get_work now lease worker q)
        = Some \<lparr>wr_work_id = wid, wr_lease_id = lease, wr_lease_timeout = q_lease_timeout q,
                wr_attempt = it_attempts it + 1, wr_payload = it_payload it\<rparr>"
      "snd (get_work now lease worker q)
        = set_item wid (leased_to now lease worker q it) ((swept now worker q)\<lparr>q_fifo := rest\<rparr>)"
proof -
  define q1 where "q1 = swept now worker q"
  have q1: "queue_inv q1" using swept_sound(1) [OF assms] by (simp add: queue_sound_def q1_def)
  obtain found rest where p: "pop_queued (q_items q1) (q_fifo q1) = (found, rest)" by force
  note unf = get_work_def Let_def swept_def [symmetric] q1_def [symmetric] p prod.case
  show ?thesis
  proof (cases found)
    case None
    with p have "rest = []" "\<And>u x. u \<in> set (q_fifo q1) \<Longrightarrow> dict_get (q_items q1) u = Some x \<Longrightarrow> it_state x \<noteq> Queued"
      using pop_queued_None by blast+
    moreover have "it_state x = Queued \<Longrightarrow> u \<in> set (q_fifo q1)" if "dict_get (q_items q1) u = Some x" for u x
      using queue_invD(3) [OF q1 that] by (simp add: entry_ok_def)
    ultimately show ?thesis
      by (intro idle) (auto simp: unf None)
  next
    case (Some it)
    with p obtain skipped wid where s: "q_fifo q1 = skipped @ wid # rest" "dict_get (q_items q1) wid = Some it"
      "it_state it = Queued" "\<forall>u\<in>set skipped. \<forall>x. dict_get (q_items q1) u = Some x \<longrightarrow> it_state x \<noteq> Queued"
      using pop_queued_Some by blast
    from queue_invD(3) [OF q1 s(2)] have w: "it_work_id it = wid" by (simp add: entry_ok_def)
    show ?thesis
    proof (rule work [of skipped wid rest it])
      show "fst (get_work now lease worker q)
        = Some \<lparr>wr_work_id = wid, wr_lease_id = lease, wr_lease_timeout = q_lease_timeout q,
                wr_attempt = it_attempts it + 1, wr_payload = it_payload it\<rparr>"
        by (simp add: unf Some w)
      show "snd (get_work now lease worker q)
        = set_item wid (leased_to now lease worker q it) ((swept now worker q)\<lparr>q_fifo := rest\<rparr>)"
        by (simp add: unf Some w leased_to_def)
    qed (use s in \<open>simp_all add: q1_def\<close>)
  qed
qed

lemma lease_in_use_iff:
  assumes "queue_inv q"
  shows "lease_in_use l q \<longleftrightarrow> (\<exists>wid it. dict_get (q_items q) wid = Some it \<and> it_lease_id it = Some l)"
proof -
  have "lease_in_use l q \<longleftrightarrow> (\<exists>it. it \<in> set (map snd (q_items q)) \<and> it_lease_id it = Some l)"
    unfolding lease_in_use_def list_ex_iff by blast
  also have "\<dots> \<longleftrightarrow> (\<exists>it. dict_get (q_items q) (it_work_id it) = Some it \<and> it_lease_id it = Some l)"
    by (simp only: items_of_queue [OF assms])
  also have "\<dots> \<longleftrightarrow> (\<exists>wid it. dict_get (q_items q) wid = Some it \<and> it_lease_id it = Some l)"
    using queue_invD(3) [OF assms] by (metis entry_ok_def)
  finally show ?thesis .
qed

lemma get_work_sound:
  assumes "queue_sound q" "\<not> lease_in_use lease q"
  shows "queue_sound (snd (get_work now lease worker q))"
proof -
  let ?q1 = "swept now worker q"
  note s = swept_sound [OF assms(1), of now worker]
  from s(1) have q1: "queue_inv ?q1" "leases_distinct ?q1" "stats_ok ?q1" by (simp_all add: queue_sound_def)
  have unused: "it_lease_id x \<noteq> Some lease" if x: "dict_get (q_items ?q1) u = Some x" for u x
  proof -
    from x s(4) [of u] obtain y where y: "dict_get (q_items q) u = Some y"
      "x = (if expired_lease now y then requeued y else y)" by (cases "dict_get (q_items q) u") auto
    with assms have "it_lease_id y \<noteq> Some lease"
      by (auto simp: queue_sound_def lease_in_use_iff)
    with y(2) show ?thesis by (simp add: requeued_def)
  qed
  from assms(1) show ?thesis
  proof (cases rule: get_work_cases [where now = now and lease = lease and worker = worker])
    case idle
    have "queue_inv (?q1\<lparr>q_fifo := []\<rparr>)"
      using q1(1) idle(3) unfolding queue_inv_def entry_ok_def by simp
    with q1 idle(2) show ?thesis
      by (simp add: queue_sound_def leases_distinct_def stats_ok_def count_state_def)
  next
    case (work skipped wid rest it)
    let ?q2 = "snd (get_work now lease worker q)" and ?it = "leased_to now lease worker q it"
    from queue_invD(2) [OF q1(1)] work(1) have d: "distinct (skipped @ wid # rest)" by simp
    from queue_invD(3) [OF q1(1) work(2)] work(3)
    have "item_ok ?it" "it_work_id ?it = wid"
      by (simp_all add: entry_ok_def item_ok_def leased_to_def)
    with d work(6) have e: "entry_ok ?q2 wid ?it" by (simp add: entry_ok_def leased_to_def)
    have in_rest: "u \<in> set rest" if "u \<noteq> wid" "dict_get (q_items ?q1) u = Some x" "it_state x = Queued" for u x
    proof -
      have "u \<in> set (skipped @ wid # rest)"
        using queue_invD(3) [OF q1(1) that(2)] that(3) work(1) by (simp add: entry_ok_def)
      with that work(4) show ?thesis by auto
    qed
    have "queue_inv ?q2"
      using queue_inv_put [OF q1(1) work(2), of ?q2 ?it] e d in_rest work(1,6) by auto
    moreover have "leases_distinct ?q2"
      using q1(2) unused work(2,6) unfolding leases_distinct_def
      by (simp add: dict_simps leased_to_def) (metis option.inject)
    moreover have "stats_ok ?q2"
      by (rule stats_ok_put [OF q1(3) work(2), of _ ?it]) (simp_all add: work leased_to_def)
    ultimately show ?thesis by (simp add: queue_sound_def)
  qed
qed


lemma lease_heartbeat_found:
  assumes "queue_sound q"
    and "List.find (\<lambda>it. it_lease_id it = Some lease \<and> it_state it = Leased) (map snd (q_items q)) = Some it"
  shows "dict_get (q_items q) (it_work_id it) = Some it" "it_lease_id it = Some lease" "it_state it = Leased"
proof -
  from assms(2) have it: "it \<in> set (map snd (q_items q))" "it_lease_id it = Some lease \<and> it_state it = Leased"
    unfolding find_Some_iff using nth_mem by metis+
  from it(1) show "dict_get (q_items q) (it_work_id it) = Some it"
    using items_of_queue assms(1) unfolding queue_sound_def by blast
  from it(2) show "it_lease_id it = Some lease" "it_state it = Leased" by simp_all
qed

lemma heartbeat_sound:
  assumes "queue_sound q"
  shows "queue_sound (snd (heartbeat now lease q))"
proof (cases "List.find (\<lambda>it. it_lease_id it = Some lease \<and> it_state it = Leased) (map snd (q_items q))")
  case None
  then show ?thesis using assms unfolding heartbeat_def None by simp
next
  case (Some it)
  note f = lease_heartbeat_found [OF assms Some]
  from assms have inv: "queue_inv q" "leases_distinct q" "stats_ok q" by (simp_all add: queue_sound_def)
  show ?thesis
  proof (cases "it_lease_expiry it \<le> now")
    case True
    then show ?thesis using assms unfolding heartbeat_def Some by simp
  next
    case False
    define it' where "it' = it\<lparr>it_lease_expiry := now + q_lease_timeout q\<rparr>"
    define q' where "q' = set_item (it_work_id it) it' q"
    have eq: "snd (heartbeat now lease q) = q'"
      unfolding heartbeat_def Some q'_def it'_def using False by simp
    have e: "entry_ok q' (it_work_id it) it'"
      using queue_invD(3) [OF inv(1) f(1)] f(3) by (simp add: entry_ok_def item_ok_def it'_def q'_def)
    have "queue_inv q'"
      by (rule queue_inv_put [OF inv(1) f(1), of _ it'])
         (use e queue_invD(2,3) [OF inv(1)] in \<open>auto simp: q'_def entry_ok_def\<close>)
    moreover have "leases_distinct q'"
      using inv(2) f(1,2) unfolding leases_distinct_def
      by (simp add: q'_def it'_def dict_simps) (metis option.inject)
    moreover have "stats_ok q'"
      by (rule stats_ok_put [OF inv(3) f(1), of _ it']) (simp_all add: q'_def it'_def)
    ultimately show ?thesis by (simp add: eq queue_sound_def)
  qed
qed

definition completed :: "int \<Rightarrow> 'r judge_result \<Rightarrow> bool \<Rightarrow> 'r item \<Rightarrow> 'r item" where
  "completed now res terminal it =
     it\<lparr>it_terminal := it_terminal it \<or> terminal \<or> jr_terminal res, it_result := Some res,
        it_state := Done, it_completed_at := Some now, it_lease_id := None\<rparr>"

lemma post_result_cases [consumes 0, case_names unknown duplicate accepted]:
  obtains (unknown) "dict_get (q_items q) wid = None" "post_result now wid res terminal q = (Inl 404, q)"
  | (duplicate) it where "dict_get (q_items q) wid = Some it" "it_state it = Done"
      "fst (post_result now wid res terminal q) = Inr True"
      "snd (post_result now wid res terminal q)
        = q\<lparr>q_stats := (q_stats q)\<lparr>qs_duplicates := qs_duplicates (q_stats q) + 1\<rparr>\<rparr>"
  | (accepted) it st where "dict_get (q_items q) wid = Some it" "it_state it \<noteq> Done"
      "fst (post_result now wid res terminal q) = Inr False"
      "snd (post_result now wid res terminal q)
        = (set_item wid (completed now res terminal it) q)\<lparr>q_stats := st\<rparr>"
      "qs_submitted st = qs_submitted (q_stats q)" "qs_completed st = qs_completed (q_stats q) + 1"
      "qs_requeues st = qs_requeues (q_stats q)" "qs_expired_leases st = qs_expired_leases (q_stats q)"
proof (cases "dict_get (q_items q) wid")
  case None
  then show thesis by (intro unknown) (simp_all add: post_result_def)
next
  case (Some it)
  show thesis
  proof (cases "it_state it = Done")
    case True
    with Some show thesis by (intro duplicate) (simp_all add: post_result_def)
  next
    case False
    define st0 where "st0 = (if terminal \<or> jr_terminal res
      then (q_stats q)\<lparr>qs_terminal_rejections := qs_terminal_rejections (q_stats q) + 1\<rparr> else q_stats q)"
    have st0: "qs_submitted st0 = qs_submitted (q_stats q)" "qs_completed st0 = qs_completed (q_stats q)"
      "qs_requeues st0 = qs_requeues (q_stats q)" "qs_expired_leases st0 = qs_expired_leases (q_stats q)"
      by (simp_all add: st0_def)
    have "post_result now wid res terminal q
      = (Inr False, (set_item wid (completed now res terminal it) q)\<lparr>q_stats := st0\<lparr>qs_completed := qs_completed st0 + 1\<rparr>\<rparr>)"
      using False by (simp add: post_result_def Some Let_def completed_def st0_def)
    then show thesis
      by (intro accepted [OF Some False, of "st0\<lparr>qs_completed := qs_completed st0 + 1\<rparr>"]) (simp_all add: st0)
  qed
qed

lemma post_result_sound:
  assumes "queue_sound q"
  shows "queue_sound (snd (post_result now wid res terminal q))"
proof (cases rule: post_result_cases [where q = q and wid = wid and now = now and res = res and terminal = terminal])
  case unknown
  with assms show ?thesis by simp
next
  case (duplicate it)
  show ?thesis unfolding duplicate(4) by (rule queue_sound_cong [THEN iffD2, OF _ _ _ _ _ _ _ assms]) simp_all
next
  case (accepted it st)
  let ?it = "completed now res terminal it" and ?q' = "snd (post_result now wid res terminal q)"
  from assms have inv: "queue_inv q" "leases_distinct q" "stats_ok q" by (simp_all add: queue_sound_def)
  have e: "entry_ok ?q' wid ?it"
    using queue_invD(3) [OF inv(1) accepted(1)]
    by (auto simp: entry_ok_def item_ok_def completed_def accepted(4) split: item_state.splits)
  have "queue_inv ?q'"
    by (rule queue_inv_put [OF inv(1) accepted(1), of _ ?it])
       (use e queue_invD(2,3) [OF inv(1)] in \<open>auto simp: accepted(4) entry_ok_def\<close>)
  moreover have "leases_distinct ?q'"
    using inv(2) unfolding leases_distinct_def by (auto simp: accepted(4) completed_def dict_simps)
  moreover have "stats_ok ?q'"
    by (rule stats_ok_put [OF inv(3) accepted(1), of _ ?it]) (use accepted in \<open>simp_all add: completed_def\<close>)
  ultimately show ?thesis by (simp add: queue_sound_def)
qed

lemma queue_step_sound: "queue_step q q' \<Longrightarrow> queue_sound q \<Longrightarrow> queue_sound q'"
proof (induction rule: queue_step.induct)
  case (step_submit now suffix payload q)
  then show ?case by (rule submit_sound(1))
next
  case (step_work lease q now worker)
  then show ?case by (intro get_work_sound)
next
  case (step_heartbeat now lease q)
  then show ?case by (rule heartbeat_sound)
next
  case (step_result now wid res terminal q)
  then show ?case by (rule post_result_sound)
next
  case (step_status now q)
  then show ?case using sweep_sound by (simp add: status_def Let_def)
qed

lemma queue_steps_sound: "queue_step\<^sup>*\<^sup>* q q' \<Longrightarrow> queue_sound q \<Longrightarrow> queue_sound q'"
  by (induction rule: rtranclp_induct) (auto intro: queue_step_sound)


section \<open>What the client relies on\<close>

definition queue_held :: "'r queue \<Rightarrow> string \<Rightarrow> (submit_request \<times> 'r judge_result option) option" where
  "queue_held q wid = map_option (\<lambda>it. (it_payload it, it_result it)) (dict_get (q_items q) wid)"

text \<open>No step changes a payload, forgets an item or touches a finished one.\<close>

definition keeps_items :: "'r queue \<Rightarrow> 'r queue \<Rightarrow> bool" where
  "keeps_items q q' =
     (\<forall>wid it. dict_get (q_items q) wid = Some it \<longrightarrow>
        (\<exists>it'. dict_get (q_items q') wid = Some it' \<and> it_payload it' = it_payload it
           \<and> (it_state it = Done \<longrightarrow> it' = it)))"

lemma keeps_items_refl: "keeps_items q q"
  by (simp add: keeps_items_def)

lemma keeps_items_trans: "keeps_items q r \<Longrightarrow> keeps_items r s \<Longrightarrow> keeps_items q s"
  unfolding keeps_items_def by (metis (no_types, lifting))

lemma keeps_items_put:
  assumes "q_items q' = dict_put wid it' (q_items q)"
    and "\<And>it. dict_get (q_items q) wid = Some it \<Longrightarrow> it_payload it' = it_payload it \<and> it_state it \<noteq> Done"
  shows "keeps_items q q'"
  using assms unfolding keeps_items_def by (auto simp: dict_simps)

lemma swept_keeps: "queue_sound q \<Longrightarrow> keeps_items q (swept now worker q)"
  unfolding keeps_items_def using swept_sound(4) [of q now worker]
  by (auto simp: requeued_def expired_lease_def)

lemma queue_step_keeps:
  assumes "queue_step q q'" "queue_sound q"
  shows "keeps_items q q'"
  using assms
proof (cases rule: queue_step.cases)
  case (step_submit now suffix payload)
  with submit_sound(2) [OF assms(2), of now suffix payload] show ?thesis
    by (intro keeps_items_put [of _ "fst (submit now suffix payload q)" "new_item (fst (submit now suffix payload q)) payload now"])
       (simp_all add: submit_def Let_def)
next
  case (step_work lease now worker)
  note kept = swept_keeps [OF assms(2), of now worker]
  from assms(2) show ?thesis
  proof (cases rule: get_work_cases [where now = now and lease = lease and worker = worker])
    case idle
    with kept step_work(1) show ?thesis by (simp add: keeps_items_def)
  next
    case (work skipped wid rest it)
    have "keeps_items (swept now worker q) q'"
      using work(2,3) unfolding step_work(1) work(6)
      by (intro keeps_items_put [of _ wid "leased_to now lease worker q it"]) (simp_all add: leased_to_def)
    with kept show ?thesis by (rule keeps_items_trans)
  qed
next
  case (step_heartbeat now lease)
  show ?thesis
  proof (cases "List.find (\<lambda>it. it_lease_id it = Some lease \<and> it_state it = Leased) (map snd (q_items q))")
    case None
    then show ?thesis using keeps_items_refl unfolding step_heartbeat heartbeat_def None by simp
  next
    case (Some it)
    note f = lease_heartbeat_found [OF assms(2) Some]
    show ?thesis
    proof (cases "it_lease_expiry it \<le> now")
      case True
      then show ?thesis using keeps_items_refl unfolding step_heartbeat heartbeat_def Some by simp
    next
      case False
      then show ?thesis
        unfolding step_heartbeat heartbeat_def Some using f
        by (intro keeps_items_put [of _ "it_work_id it" "it\<lparr>it_lease_expiry := now + q_lease_timeout q\<rparr>"]) simp_all
    qed
  qed
next
  case (step_result now wid res terminal)
  show ?thesis
  proof (cases rule: post_result_cases [where q = q and wid = wid and now = now and res = res and terminal = terminal])
    case unknown
    then show ?thesis using keeps_items_refl by (simp add: step_result)
  next
    case (duplicate it)
    show ?thesis unfolding step_result duplicate(4) by (simp add: keeps_items_def)
  next
    case (accepted it st)
    show ?thesis unfolding step_result accepted(4) using accepted(1,2)
      by (intro keeps_items_put [of _ wid "completed now res terminal it"]) (simp_all add: completed_def)
  qed
next
  case (step_status now)
  have s: "queue_inv q" "leases_distinct q" "stats_ok q" using assms(2) by (simp_all add: queue_sound_def)
  show ?thesis
    unfolding keeps_items_def using sweep_effect(7) [OF s, of now]
    by (auto simp: step_status status_def Let_def requeued_def expired_lease_def)
qed

lemma queue_steps_keep: "queue_step\<^sup>*\<^sup>* q q' \<Longrightarrow> queue_sound q \<Longrightarrow> keeps_items q q'"
proof (induction rule: rtranclp_induct)
  case base
  show ?case by (rule keeps_items_refl)
next
  case (step q1 q2)
  from queue_steps_sound [OF step(1) step.prems] queue_step_keeps [OF step(2)] step.IH [OF step.prems]
  show ?case using keeps_items_trans by blast
qed

interpretation jq: work_source queue_sound queue_held submit get_result queue_step
proof
  fix q q' :: "'r queue" and now sfx p w r a t k
  show "queue_sound q \<Longrightarrow> queue_sound (snd (submit now sfx p q))" by (rule submit_sound(1))
  show "queue_held (snd (submit now sfx p q)) = (queue_held q)(fst (submit now sfx p q) \<mapsto> (p, None))"
    by (rule ext) (simp add: queue_held_def submit_def Let_def dict_simps new_item_def)
  show "queue_sound q \<Longrightarrow> queue_step q q' \<Longrightarrow> queue_sound q'" by (rule queue_step_sound)
  show "queue_sound q \<Longrightarrow> queue_step q q' \<Longrightarrow> queue_held q w = Some (p, r) \<Longrightarrow> \<exists>r'. queue_held q' w = Some (p, r')"
    using queue_step_keeps [of q q'] by (fastforce simp: queue_held_def keeps_items_def)
  show "get_result w q = Inr (IsDone r a t k) \<Longrightarrow> queue_sound q \<Longrightarrow> \<exists>p x. queue_held q w = Some (p, Some x) \<and> r = Some x"
  proof -
    assume g: "get_result w q = Inr (IsDone r a t k)" and "queue_sound q"
    from g obtain it where it: "dict_get (q_items q) w = Some it" "it_state it = Done" "r = it_result it"
      by (auto simp: get_result_def split: option.splits if_splits)
    with \<open>queue_sound q\<close> have "it_result it \<noteq> None"
      using queue_invD(3) [of q w it] by (auto simp: queue_sound_def entry_ok_def item_ok_def)
    with it show ?thesis by (auto simp: queue_held_def)
  qed
qed

end
