(* ===== verification/Judge_Service.thy ===== *)
theory Judge_Service
  imports Judge_Queue
begin

text \<open>
  What the arena's pull queue promises to judges and clients: well-formed items and an exact account,
  final results, dispatch whenever there is work, the order in which lost leases come back, bulk
  polling, and the worth of what the client's \<open>wait\<close> returns.
\<close>

section \<open>Examples\<close>

definition ex_request :: "string \<Rightarrow> submit_request" where
  "ex_request code = \<lparr>sr_problem = ''rg_lru'', sr_code = code, sr_mode = ''full'', sr_smoke = False,
     sr_cases = None, sr_enforce_pallas = None, sr_tag = None\<rparr>"

text \<open>Two items, both leased, the leases expire at 110 and 111.\<close>

definition ex_two :: "nat queue" where
  "ex_two = snd (get_work 11 ''l2'' ''judge2'' (snd (get_work 10 ''l1'' ''judge1''
     (snd (submit 2 ''bb'' (ex_request ''y'') (snd (submit 1 ''aa'' (ex_request ''x'') (create_queue 100))))))))"

lemma ex_two_reachable: "queue_step\<^sup>*\<^sup>* (create_queue 100) ex_two"
proof -
  let ?a = "snd (submit 1 ''aa'' (ex_request ''x'') (create_queue 100 :: nat queue))"
  let ?b = "snd (submit 2 ''bb'' (ex_request ''y'') ?a)"
  let ?c = "snd (get_work 10 ''l1'' ''judge1'' ?b)"
  have "queue_step (create_queue 100) ?a" "queue_step ?a ?b" by (rule step_submit)+
  moreover have "queue_step ?b ?c" "queue_step ?c ex_two"
    unfolding ex_two_def by (rule step_work, code_simp)+
  ultimately show ?thesis by (meson rtranclp.rtrancl_into_rtrancl rtranclp.rtrancl_refl)
qed

definition ex_done :: "nat queue" where
  "ex_done = snd (post_result 50 (work_id_of 0 ''aa'') \<lparr>jr_terminal = False, jr_body = 7\<rparr> False ex_two)"

lemma ex_done_reachable: "queue_step\<^sup>*\<^sup>* (create_queue 100) ex_done"
  using ex_two_reachable step_result unfolding ex_done_def by (rule rtranclp.rtrancl_into_rtrancl)

text \<open>Stating a lookup so that it evaluates.\<close>

lemma some_caseD: "(case x of None \<Rightarrow> False | Some y \<Rightarrow> P y) \<Longrightarrow> \<exists>y. x = Some y \<and> P y"
  by (cases x) simp_all

section \<open>Items and account\<close>

lemma reachable_sound: "queue_step\<^sup>*\<^sup>* (create_queue t) q \<Longrightarrow> queue_sound q"
  by (rule queue_steps_sound [OF _ create_queue_sound])

text \<open>C36: In every reachable queue the fields of an item fit its state: a lease and a judge exactly while it is
  leased, a result and a completion time exactly when it is done, no terminal mark before.\<close>

theorem queue_items_typed:
  assumes "queue_step\<^sup>*\<^sup>* (create_queue t) q" "dict_get (q_items q) wid = Some it"
  shows "it_work_id it = wid \<and> 0 \<le> it_attempts it
    \<and> (it_lease_id it \<noteq> None \<longleftrightarrow> it_state it = Leased) \<and> (it_result it \<noteq> None \<longleftrightarrow> it_state it = Done)
    \<and> (it_completed_at it \<noteq> None \<longleftrightarrow> it_state it = Done) \<and> (it_terminal it \<longrightarrow> it_state it = Done)
    \<and> (it_state it = Leased \<longrightarrow> it_worker_id it \<noteq> None \<and> 1 \<le> it_attempts it)"
proof -
  from reachable_sound [OF assms(1)] have "entry_ok q wid it"
    using queue_invD(3) [OF _ assms(2)] by (simp add: queue_sound_def)
  then show ?thesis by (cases "it_state it") (auto simp: entry_ok_def item_ok_def)
qed

theorem queue_items_typed_witness:
  "\<exists>it. dict_get (q_items ex_done) (work_id_of 0 ''aa'') = Some it \<and> it_result it \<noteq> None \<and> it_lease_id it = None"
proof -
  have "case dict_get (q_items ex_done) (work_id_of 0 ''aa'') of None \<Rightarrow> False | Some it \<Rightarrow> it_state it = Done"
    by code_simp
  from some_caseD [OF this] obtain it
    where it: "dict_get (q_items ex_done) (work_id_of 0 ''aa'') = Some it" "it_state it = Done" by blast
  from queue_items_typed [OF ex_done_reachable it(1)] it show ?thesis by (auto)
qed

lemma states_partition:
  "count_items (\<lambda>it. it_state it = Queued) d + count_items (\<lambda>it. it_state it = Leased) d
    + count_items (\<lambda>it. it_state it = Done) d = int (length d)"
proof (induction d)
  case Nil
  then show ?case by (simp add: count_items_def)
next
  case (Cons x d)
  obtain k it where "x = (k, it)" by force
  with Cons show ?case by (cases "it_state it") (simp_all add: count_items_def)
qed

text \<open>C33: no work is lost and none is handed out twice at a time: every submission is queued, leased or completed;
  each queued item has exactly one pointer in the FIFO, a leased one none; two judges never hold the same
  lease.\<close>

theorem queue_account:
  assumes "queue_step\<^sup>*\<^sup>* (create_queue t) q"
  shows "qs_submitted (q_stats q) = count_state Queued q + count_state Leased q + qs_completed (q_stats q)
    \<and> (\<forall>wid it. dict_get (q_items q) wid = Some it \<longrightarrow>
         (it_state it = Queued \<longrightarrow> count_list (q_fifo q) wid = 1)
         \<and> (it_state it = Leased \<longrightarrow> count_list (q_fifo q) wid = 0))
    \<and> leases_distinct q"
proof -
  from reachable_sound [OF assms] have inv: "queue_inv q" "leases_distinct q" "stats_ok q"
    by (simp_all add: queue_sound_def)
  have one: "distinct xs \<Longrightarrow> x \<in> set xs \<Longrightarrow> count_list xs x = 1" for x and xs :: "string list"
    by (induction xs) auto
  have "(it_state it = Queued \<longrightarrow> count_list (q_fifo q) wid = 1)
      \<and> (it_state it = Leased \<longrightarrow> count_list (q_fifo q) wid = 0)"
    if "dict_get (q_items q) wid = Some it" for wid it
    using queue_invD(3) [OF inv(1) that] one [OF queue_invD(2) [OF inv(1)]]
    by (simp add: entry_ok_def count_list_0_iff)
  with inv states_partition [of "q_items q"] show ?thesis by (simp add: stats_ok_def count_state_def)
qed

theorem queue_account_witness:
  "qs_submitted (q_stats ex_two) = count_state Queued ex_two + count_state Leased ex_two + qs_completed (q_stats ex_two)
    \<and> count_state Leased ex_two = 2"
proof -
  have "count_state Leased ex_two = 2" by code_simp
  with queue_account [OF ex_two_reachable] show ?thesis by blast
qed

section \<open>Finished items\<close>

text \<open>C30: a finished item is final: whatever is polled, posted again, swept or submitted afterwards, it keeps its
  result and is never handed out again.\<close>

theorem done_is_final:
  assumes "queue_step\<^sup>*\<^sup>* (create_queue t) q" "dict_get (q_items q) wid = Some it" "it_state it = Done"
    and "queue_step\<^sup>*\<^sup>* q q'"
  shows "dict_get (q_items q') wid = Some it
    \<and> (\<forall>now lease worker r. fst (get_work now lease worker q') = Some r \<longrightarrow> wr_work_id r \<noteq> wid)"
proof -
  have q: "queue_sound q" by (rule reachable_sound [OF assms(1)])
  then have q': "queue_sound q'" by (rule queue_steps_sound [OF assms(4)])
  have kept: "dict_get (q_items q') wid = Some it"
    using queue_steps_keep [OF assms(4) q] assms(2,3) by (auto simp: keeps_items_def)
  have "wr_work_id r \<noteq> wid" if r: "fst (get_work now lease worker q') = Some r" for now lease worker r
    using q'
  proof (cases rule: get_work_cases [where now = now and lease = lease and worker = worker])
    case idle
    with r show ?thesis by simp
  next
    case (work skipped u rest x)
    have "dict_get (q_items (swept now worker q')) wid = Some it"
      using swept_sound(4) [OF q', of now worker wid] kept assms(3) by (simp add: expired_lease_def)
    with work(2,3) assms(3) have "u \<noteq> wid" by auto
    with work(5) r show ?thesis by auto
  qed
  with kept show ?thesis by blast
qed

theorem done_is_final_witness:
  "\<exists>it. it_result it = Some \<lparr>jr_terminal = False, jr_body = 7\<rparr>
    \<and> dict_get (q_items (snd (post_result 60 (work_id_of 0 ''aa'') \<lparr>jr_terminal = True, jr_body = 8\<rparr> True ex_done)))
        (work_id_of 0 ''aa'') = Some it"
proof -
  have "case dict_get (q_items ex_done) (work_id_of 0 ''aa'') of None \<Rightarrow> False
    | Some it \<Rightarrow> it_state it = Done \<and> it_result it = Some \<lparr>jr_terminal = False, jr_body = 7\<rparr>" by code_simp
  from some_caseD [OF this] obtain it where "dict_get (q_items ex_done) (work_id_of 0 ''aa'') = Some it" "it_state it = Done"
    "it_result it = Some \<lparr>jr_terminal = False, jr_body = 7\<rparr>" by blast
  moreover have "queue_step\<^sup>*\<^sup>* ex_done (snd (post_result 60 (work_id_of 0 ''aa'') \<lparr>jr_terminal = True, jr_body = 8\<rparr> True ex_done))"
    by (rule r_into_rtranclp, rule step_result)
  ultimately show ?thesis using done_is_final [OF ex_done_reachable] by blast
qed

section \<open>Dispatch\<close>

definition available :: "int \<Rightarrow> 'r queue \<Rightarrow> string \<Rightarrow> 'r item \<Rightarrow> bool" where
  "available now q wid it =
     (dict_get (q_items q) wid = Some it \<and> (it_state it = Queued \<or> expired_lease now it))"

text \<open>C31: a poll hands out work whenever there is any: exactly when some item is queued or its lease has expired; what
  it hands out is such an item, its payload, and one more attempt.  So an unexpired lease protects its
  holder.\<close>

theorem poll_hands_out_available:
  assumes "queue_step\<^sup>*\<^sup>* (create_queue t) q"
  shows "(fst (get_work now lease worker q) \<noteq> None \<longleftrightarrow> (\<exists>wid it. available now q wid it))
    \<and> (\<forall>r. fst (get_work now lease worker q) = Some r \<longrightarrow>
         (\<exists>it. available now q (wr_work_id r) it \<and> wr_payload r = it_payload it \<and> wr_attempt r = it_attempts it + 1
            \<and> wr_lease_id r = lease))"
proof -
  have q: "queue_sound q" by (rule reachable_sound [OF assms(1)])
  note s = swept_sound(4) [OF q, of now worker]
  have iff: "available now q wid it \<longleftrightarrow> it_state (if expired_lease now it then requeued it else it) = Queued"
    if "dict_get (q_items q) wid = Some it" for wid it
    using that by (auto simp: available_def requeued_def expired_lease_def)
  from q show ?thesis
  proof (cases rule: get_work_cases [where now = now and lease = lease and worker = worker])
    case idle
    have "\<not> available now q wid it" for wid it
    proof
      assume av: "available now q wid it"
      then have get: "dict_get (q_items q) wid = Some it" by (simp add: available_def)
      with idle(3) [of wid] s [of wid] iff [OF get] av show False by simp
    qed
    with idle(1) show ?thesis by simp
  next
    case (work skipped wid rest x)
    from work(2) s [of wid] obtain it where it: "dict_get (q_items q) wid = Some it"
      "x = (if expired_lease now it then requeued it else it)"
      by (cases "dict_get (q_items q) wid") auto
    with work(3) have "available now q wid it" by (simp add: iff)
    moreover have "it_payload x = it_payload it" "it_attempts x = it_attempts it"
      using it(2) by (simp_all add: requeued_def)
    moreover have "fst (get_work now lease worker q) \<noteq> None" using work(5) by simp
    ultimately show ?thesis using work(5) by (metis option.inject work_reply.select_convs(1,2,4,5))
  qed
qed

theorem poll_hands_out_available_witness:
  "\<exists>r. fst (get_work 110 ''l3'' ''judge3'' ex_two) = Some r \<and> wr_work_id r = work_id_of 0 ''aa''"
proof -
  have "case dict_get (q_items ex_two) (work_id_of 0 ''aa'') of None \<Rightarrow> False | Some it \<Rightarrow> expired_lease 110 it"
    by code_simp
  note e = some_caseD [OF this]
  have only: "\<forall>it \<in> set (map snd (q_items ex_two)). it_state it = Queued \<or> expired_lease 110 it \<longrightarrow> it_work_id it = work_id_of 0 ''aa''"
    by code_simp
  note p = poll_hands_out_available [OF ex_two_reachable, of 110 "''l3''" "''judge3''"]
  from e have "\<exists>wid it. available 110 ex_two wid it" unfolding available_def by blast
  with p obtain r where r: "fst (get_work 110 ''l3'' ''judge3'' ex_two) = Some r" by blast
  from p r obtain it where it: "dict_get (q_items ex_two) (wr_work_id r) = Some it"
    "it_state it = Queued \<or> expired_lease 110 it" unfolding available_def by blast
  have inv: "queue_inv ex_two" using reachable_sound [OF ex_two_reachable] by (simp add: queue_sound_def)
  from queue_invD(3) [OF inv it(1)] have "it_work_id it = wr_work_id r" by (simp add: entry_ok_def)
  moreover from this it(1) have "it \<in> set (map snd (q_items ex_two))" using items_of_queue [OF inv] by simp
  ultimately have "wr_work_id r = work_id_of 0 ''aa''" using it(2) only by metis
  with r show ?thesis by blast
qed

text \<open>The requeued items go to the head of the FIFO in reverse order of age: of two leases found expired by one
  sweep, the item submitted later is dispatched first.  The comment in the source promises the order of age.\<close>

theorem requeue_reverses_age:
  assumes "queue_step\<^sup>*\<^sup>* (create_queue t) q"
    and "dict_get (q_items q) older = Some a" "expired_lease now a"
    and "dict_get (q_items q) younger = Some b" "expired_lease now b"
    and "it_enqueued_at a < it_enqueued_at b"
  shows "\<exists>xs ys zs. q_fifo (snd (status now q)) = xs @ younger # ys @ older # zs"
proof -
  have inv: "queue_inv q" "leases_distinct q" "stats_ok q"
    using reachable_sound [OF assms(1)] by (simp_all add: queue_sound_def)
  let ?l = "sweep_list now q"
  have w: "it_work_id a = older" "it_work_id b = younger"
    using queue_invD(3) [OF inv(1)] assms(2,4) by (simp_all add: entry_ok_def)
  with assms have "a \<in> set ?l" "b \<in> set ?l" using set_sweep_list [OF inv(1)] by simp_all
  then obtain us vs where l: "?l = us @ b # vs" by (meson split_list)
  have "sorted (map it_enqueued_at ?l)" by (simp add: sweep_list_def)
  then have "\<forall>x\<in>set vs. it_enqueued_at b \<le> it_enqueued_at x" by (simp add: l sorted_append)
  with \<open>a \<in> set ?l\<close> assms(6) have "a \<in> set us" by (fastforce simp: l)
  then obtain us1 us2 where "us = us1 @ a # us2" by (meson split_list)
  with l have "?l = us1 @ a # us2 @ b # vs" by simp
  then have "q_fifo (sweep_expired now q)
      = map it_work_id (rev vs) @ younger # map it_work_id (rev us2) @ older # map it_work_id (rev us1) @ q_fifo q"
    using sweep_effect(4) [OF inv, of now] w by simp
  then show ?thesis by (auto simp: status_def Let_def)
qed

theorem requeue_reverses_age_witness:
  "\<exists>xs ys zs. q_fifo (snd (status 200 ex_two)) = xs @ work_id_of 1 ''bb'' # ys @ work_id_of 0 ''aa'' # zs"
proof -
  have "case dict_get (q_items ex_two) (work_id_of 0 ''aa'') of None \<Rightarrow> False
      | Some a \<Rightarrow> expired_lease 200 a \<and> it_enqueued_at a = 1"
    "case dict_get (q_items ex_two) (work_id_of 1 ''bb'') of None \<Rightarrow> False
      | Some b \<Rightarrow> expired_lease 200 b \<and> it_enqueued_at b = 2"
    by code_simp+
  from this [THEN some_caseD] obtain a b where "dict_get (q_items ex_two) (work_id_of 0 ''aa'') = Some a" "expired_lease 200 a"
    "dict_get (q_items ex_two) (work_id_of 1 ''bb'') = Some b" "expired_lease 200 b"
    "it_enqueued_at a < it_enqueued_at b" by auto
  then show ?thesis by (rule requeue_reverses_age [OF ex_two_reachable])
qed

section \<open>Bulk polling\<close>

definition done_entry :: "'r queue \<Rightarrow> string \<Rightarrow> 'r bulk_entry option" where
  "done_entry q wid =
     (case dict_get (q_items q) wid of
        None \<Rightarrow> None
      | Some it \<Rightarrow>
          if it_state it = Done
          then Some (DoneEntry (it_result it) (it_attempts it) (it_terminal it) (it_worker_id it) (it_completed_at it))
          else None)"

lemma bulk_visit_get: "dict_get (bulk_visit q u out) w
  = (if w = u then (if dict_get (q_items q) w = None then Some Missing
                    else case done_entry q w of Some e \<Rightarrow> Some e | None \<Rightarrow> dict_get out w)
     else dict_get out w)"
  by (auto simp: bulk_visit_def done_entry_def dict_simps split: option.splits)

lemma get_results_get: "dict_get (fold (bulk_visit q) wids out) w
  = (if w \<in> set wids then (if dict_get (q_items q) w = None then Some Missing
                    else case done_entry q w of Some e \<Rightarrow> Some e | None \<Rightarrow> dict_get out w)
     else dict_get out w)"
  by (induction wids arbitrary: out) (auto simp: bulk_visit_get split: option.splits)

lemma get_results_wf: "dict_wf (get_results wids q)"
proof -
  have "dict_wf out \<Longrightarrow> dict_wf (fold (bulk_visit q) wids out)" for out
    by (induction wids arbitrary: out) (simp_all add: bulk_visit_def split: option.splits)
  then show ?thesis by (simp add: get_results_def)
qed

lemma keep_done_get:
  assumes "dict_wf got"
  shows "dict_get (fold keep_done got out) w
    = (case dict_get got w of Some (DoneEntry r a t k c) \<Rightarrow> Some (DoneEntry r a t k c) | _ \<Rightarrow> dict_get out w)"
  using assms
proof (induction got arbitrary: out)
  case Nil
  then show ?case by simp
next
  case (Cons x got)
  obtain k e where x: "x = (k, e)" by force
  from Cons.prems have "dict_wf got" "dict_get got k = None"
    by (auto simp: x dict_wf_def map_of_eq_None_iff)
  with Cons.IH [of "keep_done x out"] show ?case
    by (auto simp: x keep_done_def dict_simps split: bulk_entry.splits option.splits)
qed

lemma chunk_get: "dict_get (fold keep_done (get_results wids q) out) w
  = (case (if w \<in> set wids then done_entry q w else None) of Some e \<Rightarrow> Some e | None \<Rightarrow> dict_get out w)"
  unfolding keep_done_get [OF get_results_wf]
  by (simp add: get_results_def get_results_get)
     (auto simp: done_entry_def split: option.splits bulk_entry.splits)

text \<open>Whatever the batch size, bulk polling a queue yields exactly the finished items asked for, in requests of
  at most \<open>batch\<close> identifiers.\<close>

theorem bulk_poll_complete:
  assumes "0 < batch"
  shows "(\<exists>out. poll_bulk (\<lambda>chunk. Answer (get_results chunk q)) wids batch = Inr out
      \<and> (\<forall>w. dict_get out w = (if w \<in> set wids then done_entry q w else None)))
    \<and> (\<forall>c\<in>set (id_chunks (nat batch) wids). int (length c) \<le> batch)"
proof (intro conjI)
  have "dict_get (fold (\<lambda>chunk out. fold keep_done (get_results chunk q) out) cs out) w
      = (case (if w \<in> \<Union> (set ` set cs) then done_entry q w else None) of Some e \<Rightarrow> Some e | None \<Rightarrow> dict_get out w)"
    for cs out w
    by (induction cs arbitrary: out) (auto simp: chunk_get split: option.splits)
  note this [of "id_chunks (nat batch) wids" "[]", unfolded set_id_chunks [of "nat batch" wids, simplified, OF assms]]
  then have "\<forall>w. dict_get (fold (\<lambda>chunk out. fold keep_done (get_results chunk q) out) (id_chunks (nat batch) wids) []) w
      = (if w \<in> set wids then done_entry q w else None)"
    by (simp split: option.splits)
  with assms show "\<exists>out. poll_bulk (\<lambda>chunk. Answer (get_results chunk q)) wids batch = Inr out
    \<and> (\<forall>w. dict_get out w = (if w \<in> set wids then done_entry q w else None))"
    by (simp add: poll_bulk_def)
  show "\<forall>c\<in>set (id_chunks (nat batch) wids). int (length c) \<le> batch"
    using chunk_length [of _ "nat batch" wids] assms by fastforce
qed


theorem bulk_poll_complete_witness:
  "\<exists>out. poll_bulk (\<lambda>chunk. Answer (get_results chunk ex_done)) [work_id_of 0 ''aa'', work_id_of 1 ''bb''] 1 = Inr out
    \<and> dict_get out (work_id_of 0 ''aa'') \<noteq> None \<and> dict_get out (work_id_of 1 ''bb'') = None"
proof -
  have "done_entry ex_done (work_id_of 0 ''aa'') \<noteq> None" "done_entry ex_done (work_id_of 1 ''bb'') = None"
    by code_simp+
  with bulk_poll_complete [of 1 ex_done "[work_id_of 0 ''aa'', work_id_of 1 ''bb'']"] show ?thesis by auto
qed

section \<open>Waiting through restarts\<close>

abbreviation judge_session :: "'r queue \<times> 'r client \<Rightarrow> 'r queue \<times> 'r client \<Rightarrow> bool" where
  "judge_session \<equiv> session_step (\<lambda>q. \<exists>t. q = create_queue t) queue_held submit get_result queue_step"

definition new_client :: "'r client" where
  "new_client = \<lparr>cl_payloads = [], cl_alias = [], cl_results = []\<rparr>"

text \<open>A result that \<open>wait\<close> records for an identifier is the result a judge posted for an item with exactly the
  payload the client submitted under that identifier, through any number of queue restarts and
  resubmissions.\<close>

theorem wait_returns_own_grades:
  assumes "judge_session\<^sup>*\<^sup>* (create_queue t, new_client) (q, c)" "dict_has (cl_alias c) orig"
    and "wait_visit (queue_answer get_result up q) post orig c = Inr c'"
    and "dict_get (cl_results c) orig = None" "dict_get (cl_results c') orig = Some r"
  shows "\<exists>wid it. dict_get (q_items q) wid = Some it \<and> it_result it = r \<and> r \<noteq> None
    \<and> dict_get (cl_payloads c) orig = Some (it_payload it)"
proof -
  have e: "queue_sound q \<and> (\<forall>w. queue_held q w = None)" if "\<exists>t. q = create_queue t" for q :: "'a queue"
    using that create_queue_sound by (auto simp: queue_held_def create_queue_def)
  have "session_inv queue_sound queue_held (q, c)"
    by (rule jq.session_inv_reachable [OF e _ _ _ assms(1)]) (auto simp: new_client_def)
  from jq.result_matches [OF this assms(2-5)] show ?thesis by (auto simp: queue_held_def)
qed

text \<open>The client submits, the queue restarts, \<open>wait\<close> resubmits, a judge grades.\<close>

definition ex_c1 :: "nat client" where
  "ex_c1 = (client_submit (ex_request ''x'') (work_id_of 0 ''aa'') new_client)
     \<lparr>cl_alias := [(work_id_of 0 ''aa'', work_id_of 0 ''aa'')], cl_results := []\<rparr>"

definition ex_c2 :: "nat client" where
  "ex_c2 = ex_c1\<lparr>cl_payloads := dict_put (work_id_of 0 ''cc'') (ex_request ''x'') (cl_payloads ex_c1),
     cl_alias := dict_put (work_id_of 0 ''aa'') (work_id_of 0 ''cc'') (cl_alias ex_c1)\<rparr>"

definition ex_resubmitted :: "nat queue" where
  "ex_resubmitted = snd (submit 20 ''cc'' (ex_request ''x'') (create_queue 100))"

definition ex_leased :: "nat queue" where
  "ex_leased = snd (get_work 21 ''l1'' ''judge1'' ex_resubmitted)"

definition ex_graded :: "nat queue" where
  "ex_graded = snd (post_result 30 (work_id_of 0 ''cc'') \<lparr>jr_terminal = False, jr_body = 7\<rparr> False ex_leased)"

lemma held_same_keys:
  assumes "dict_keys (q_items q) = dict_keys (q_items q')"
  shows "queue_held q w = None \<Longrightarrow> queue_held q' w = None"
proof -
  have "fst ` set (q_items q) = fst ` set (q_items q')" using assms by (metis dict_keys_def list.set_map)
  then show "queue_held q w = None \<Longrightarrow> queue_held q' w = None" by (simp add: queue_held_def map_of_eq_None_iff)
qed

lemma ex_session: "judge_session\<^sup>*\<^sup>* (create_queue 100, new_client) (ex_graded, ex_c2)"
proof -
  let ?q1 = "snd (submit 1 ''aa'' (ex_request ''x'') (create_queue 100)) :: nat queue"
  let ?c0 = "client_submit (ex_request ''x'') (work_id_of 0 ''aa'') new_client :: nat client"
  have "judge_session (create_queue 100, new_client) (?q1, ?c0)"
    by (rule submission [of _ 1 "''aa''" "ex_request ''x''" "create_queue 100"])
       (simp_all add: submit_def Let_def create_queue_def client_fresh_def new_client_def dict_has_def)
  moreover have "judge_session (?q1, ?c0) (?q1, ex_c1)"
  proof -
    have e: "ex_c1 = ?c0\<lparr>cl_alias := dict_of_pairs (map (\<lambda>w. (w, w)) [work_id_of 0 ''aa'']), cl_results := []\<rparr>"
      by code_simp
    show ?thesis
      unfolding e by (rule wait_starts) (simp add: client_submit_def new_client_def)
  qed
  moreover have "judge_session (?q1, ex_c1) (create_queue 100, ex_c1)" by (rule restart) blast
  moreover have "judge_session (create_queue 100, ex_c1) (ex_resubmitted, ex_c2)"
  proof (rule visit_resubmits)
    show "\<not> dict_has (cl_results ex_c1) (work_id_of 0 ''aa'')" by code_simp
    show "dict_get (cl_alias ex_c1) (work_id_of 0 ''aa'') = Some (work_id_of 0 ''aa'')" by code_simp
    show "dict_get (cl_payloads ex_c1) (work_id_of 0 ''aa'') = Some (ex_request ''x'')" by code_simp
    show "get_result (work_id_of 0 ''aa'') (create_queue 100 :: nat queue) = Inl 404" by code_simp
    show "submit 20 ''cc'' (ex_request ''x'') (create_queue 100) = (work_id_of 0 ''cc'', ex_resubmitted)"
      by (simp add: ex_resubmitted_def submit_def Let_def create_queue_def)
    show "client_fresh ex_c1 (work_id_of 0 ''cc'')" by code_simp
    show "wait_visit (queue_answer get_result True (create_queue 100)) (\<lambda>_. Answer (work_id_of 0 ''cc''))
      (work_id_of 0 ''aa'') ex_c1 = Inr ex_c2" by code_simp
  qed
  moreover have "judge_session (ex_resubmitted, ex_c2) (ex_leased, ex_c2)"
  proof (rule others)
    show "queue_step ex_resubmitted ex_leased" unfolding ex_leased_def by (rule step_work) code_simp
    have k: "dict_keys (q_items ex_resubmitted) = dict_keys (q_items ex_leased)" by code_simp
    show "client_fresh ex_c2 w" if "queue_held ex_resubmitted w = None" "queue_held ex_leased w \<noteq> None" for w
      using held_same_keys [OF k that(1)] that(2) by simp
  qed
  moreover have "judge_session (ex_leased, ex_c2) (ex_graded, ex_c2)"
  proof (rule others)
    show "queue_step ex_leased ex_graded" unfolding ex_graded_def by (rule step_result)
    have k: "dict_keys (q_items ex_leased) = dict_keys (q_items ex_graded)" by code_simp
    show "client_fresh ex_c2 w" if "queue_held ex_leased w = None" "queue_held ex_graded w \<noteq> None" for w
      using held_same_keys [OF k that(1)] that(2) by simp
  qed
  ultimately show ?thesis by (meson rtranclp.rtrancl_into_rtrancl rtranclp.rtrancl_refl)
qed

theorem wait_returns_own_grades_witness:
  "\<exists>wid it. dict_get (q_items ex_graded) wid = Some it \<and> it_result it = Some \<lparr>jr_terminal = False, jr_body = 7\<rparr>
    \<and> dict_get (cl_payloads ex_c2) (work_id_of 0 ''aa'') = Some (it_payload it)"
proof -
  let ?orig = "work_id_of 0 ''aa''" and ?post = "(\<lambda>_. Unreachable) :: submit_request \<Rightarrow> string answer"
  have "case wait_visit (queue_answer get_result True ex_graded) ?post ?orig ex_c2 of Inl e \<Rightarrow> False
    | Inr c' \<Rightarrow> dict_get (cl_results c') ?orig = Some (Some \<lparr>jr_terminal = False, jr_body = 7\<rparr>)" by code_simp
  then obtain c' where "wait_visit (queue_answer get_result True ex_graded) ?post ?orig ex_c2 = Inr c'"
    "dict_get (cl_results c') ?orig = Some (Some \<lparr>jr_terminal = False, jr_body = 7\<rparr>)" by (auto split: sum.splits)
  moreover have "dict_has (cl_alias ex_c2) ?orig" "dict_get (cl_results ex_c2) ?orig = None" by code_simp+
  ultimately show ?thesis using wait_returns_own_grades [OF ex_session] by blast
qed

end
