(* ===== verification/Rollout_Output.thy ===== *)
theory Rollout_Output
  imports Prelude
begin

text \<open>
  The outputs of the generators, \<^verbatim>\<open>skyrl/train/generators/base.py\<close>: validation
  (\<^verbatim>\<open>skyrl/train/utils/trainer_utils.py\<close>), concatenation, slicing and the prefix-aware merging of
  the turns of a trajectory (\<^verbatim>\<open>skyrl/train/generators/utils.py\<close>).  An output is a dict of parallel
  lists; the lemmas view it as a list of turns.  Rollout metrics are not part of the output, apart from
  the exception their computation raises on an empty batch.  Log-probabilities and rewards are
  \<open>real\<close>; expert indices, images and environment metrics are opaque.
\<close>

section \<open>Data\<close>

record trajectory_id =
  ti_instance :: string
  ti_repetition :: int

definition tid_to_string :: "trajectory_id \<Rightarrow> string" where
  "tid_to_string t = ti_instance t @ ''_'' @ str_of_int (ti_repetition t)"

text \<open>An element of \<open>rewards\<close> is a float or a list of floats.\<close>

datatype reward = SeqReward real | TokenRewards "real list"

record 'e gen_output =
  go_prompts :: "int list list"
  go_responses :: "int list list"
  go_rewards :: "reward list"
  go_masks :: "int list list"
  go_stop_reasons :: "string list option"
  go_logprobs :: "real list list option"
  go_times :: "real list option"
  go_traj_ids :: "trajectory_id list option"
  go_last :: "bool list option"
  go_experts :: "'e list option"
  go_pixels :: "'e list option"
  go_grids :: "'e list option"
  go_env_metrics :: "'e list option"

datatype gen_error =
    AssertionError string
  | ValueError string
  | RuntimeError string
  | TypeError string

type_synonym 'a gen_result = "(gen_error, 'a) result"

definition and_then :: "'a gen_result \<Rightarrow> ('a \<Rightarrow> 'b gen_result) \<Rightarrow> 'b gen_result" where
  "and_then r f = (case r of Inl e \<Rightarrow> Inl e | Inr x \<Rightarrow> f x)"

lemma and_then_simps [simp]: "and_then (Inl e) f = Inl e" "and_then (Inr x) f = f x"
  by (simp_all add: and_then_def)

lemma and_then_Inr: "and_then r f = Inr y \<longleftrightarrow> (\<exists>x. r = Inr x \<and> f x = Inr y)"
  by (cases r) simp_all

text \<open>A sequence of assertions: the first that fails raises.\<close>

fun check_all :: "(bool \<times> gen_error) list \<Rightarrow> unit gen_result" where
  "check_all [] = Inr ()"
| "check_all ((ok, e) # cs) = (if ok then check_all cs else Inl e)"

lemma check_all_ok: "check_all cs = Inr () \<longleftrightarrow> (\<forall>c\<in>set cs. fst c)"
  by (induction cs) (auto split: if_splits)

section \<open>Validation\<close>

definition is_tok :: "reward \<Rightarrow> bool" where
  "is_tok r = (case r of SeqReward _ \<Rightarrow> False | TokenRewards _ \<Rightarrow> True)"

text \<open>A list-valued field has the length of \<open>response_ids\<close>; absent and null fields are skipped.\<close>

definition opt_length_ok :: "nat \<Rightarrow> 'a list option \<Rightarrow> bool" where
  "opt_length_ok n xs = (case xs of None \<Rightarrow> True | Some l \<Rightarrow> length l = n)"

definition sample_ok :: "'e gen_output \<Rightarrow> nat \<Rightarrow> (bool \<times> gen_error) list" where
  "sample_ok g i =
     [(length (go_responses g ! i) = length (go_masks g ! i), AssertionError ''loss masks''),
      (case go_rewards g ! i of SeqReward _ \<Rightarrow> True | TokenRewards rs \<Rightarrow> length rs = length (go_responses g ! i),
       AssertionError ''token rewards''),
      (case go_logprobs g of None \<Rightarrow> True
         | Some ls \<Rightarrow> ls = [] \<or> length (go_responses g ! i) = length (ls ! i),
       AssertionError ''rollout logprobs'')]"

text \<open>All steps of a trajectory are adjacent.\<close>

fun contiguous :: "string option \<Rightarrow> string list \<Rightarrow> string list \<Rightarrow> bool" where
  "contiguous prev seen [] = True"
| "contiguous prev seen (tid # tids) =
     (if Some tid = prev then contiguous prev seen tids
      else tid \<notin> set seen \<and> contiguous (Some tid) (case prev of None \<Rightarrow> seen | Some p \<Rightarrow> p # seen) tids)"

text \<open>\<open>is_last_step\<close> is set exactly at the boundaries between trajectories.\<close>

fun boundaries_marked :: "string list \<Rightarrow> bool list \<Rightarrow> bool" where
  "boundaries_marked (a # b # tids) (l # ls) = ((if a \<noteq> b then l else \<not> l) \<and> boundaries_marked (b # tids) ls)"
| "boundaries_marked _ _ = True"

definition step_wise_checks :: "'e gen_output \<Rightarrow> nat \<Rightarrow> (bool \<times> gen_error) list" where
  "step_wise_checks g n =
     (case (go_last g, go_traj_ids g) of
        (Some ls, Some ts) \<Rightarrow>
          [(length ls = n, AssertionError ''is_last_step length''),
           (length ts = n, AssertionError ''trajectory_ids length''),
           (last ls, AssertionError ''last step''),
           (\<exists>l\<in>set ls. l, AssertionError ''no last step''),
           (contiguous None [] (map tid_to_string ts), AssertionError ''non-contiguous trajectory''),
           (boundaries_marked (map tid_to_string ts) ls, AssertionError ''trajectory boundary'')]
      | (None, _) \<Rightarrow> [(False, AssertionError ''is_last_step is missing'')]
      | (_, None) \<Rightarrow> [(False, AssertionError ''trajectory_ids is missing'')])"

definition batch_checks :: "nat \<Rightarrow> 'e gen_output \<Rightarrow> bool \<Rightarrow> nat \<Rightarrow> (bool \<times> gen_error) list" where
  "batch_checks num_prompts g step_wise n =
     [(0 < n, RuntimeError ''No outputs generated''),
      (step_wise \<or> num_prompts = n, AssertionError ''prompts and responses''),
      (n = length (go_prompts g), AssertionError ''prompt_token_ids''),
      (length (go_masks g) = n, AssertionError ''loss_masks''),
      (length (go_rewards g) = n, AssertionError ''rewards''),
      (opt_length_ok n (go_logprobs g), AssertionError ''rollout_logprobs''),
      (opt_length_ok n (go_stop_reasons g), AssertionError ''stop_reasons''),
      (opt_length_ok n (go_traj_ids g), AssertionError ''trajectory_ids''),
      (opt_length_ok n (go_experts g), AssertionError ''rollout_expert_indices''),
      (opt_length_ok n (go_last g), AssertionError ''is_last_step''),
      (opt_length_ok n (go_pixels g), AssertionError ''pixel_values''),
      (opt_length_ok n (go_grids g), AssertionError ''image_grid_thw'')]"

definition same_kind :: "reward list \<Rightarrow> bool" where
  "same_kind rs = (\<forall>r\<in>set rs. is_tok r = is_tok (hd rs))"

definition validate_generator_output :: "nat \<Rightarrow> 'e gen_output \<Rightarrow> bool \<Rightarrow> unit gen_result" where
  "validate_generator_output num_prompts g step_wise =
     (let n = length (go_responses g)
      in check_all
           (batch_checks num_prompts g step_wise n @ concat (map (sample_ok g) [0..<n])
            @ [(same_kind (go_rewards g), AssertionError ''mixed rewards'')]
            @ (if step_wise then step_wise_checks g n else [])))"

section \<open>Concatenation\<close>

definition flatten_field :: "('g \<Rightarrow> 'v list option) \<Rightarrow> 'g list \<Rightarrow> 'v list gen_result" where
  "flatten_field field gos =
     (if \<exists>g\<in>set gos. field g = None then Inl (TypeError ''missing field'')
      else Inr (concat (map (\<lambda>g. the (field g)) gos)))"

text \<open>A field present in the first output is flattened, otherwise it is null.\<close>

definition optional_field :: "('g \<Rightarrow> 'v list option) \<Rightarrow> 'g list \<Rightarrow> 'v list option gen_result" where
  "optional_field field gos =
     (case field (hd gos) of
        None \<Rightarrow> Inr None
      | Some _ \<Rightarrow> and_then (flatten_field field gos) (\<lambda>xs. Inr (Some xs)))"

text \<open>\<open>get_rollout_metrics\<close> takes the minimum of the response lengths.\<close>

definition rollout_metrics_raise :: "'e gen_output \<Rightarrow> unit gen_result" where
  "rollout_metrics_raise g =
     (if go_responses g = [] then Inl (ValueError ''zero-size array'') else Inr ())"

definition concatenate_generator_outputs :: "'e gen_output list \<Rightarrow> bool \<Rightarrow> 'e gen_output gen_result" where
  "concatenate_generator_outputs gos step_wise =
     (if gos = [] then Inl (AssertionError ''no outputs'')
      else if (\<exists>g\<in>set gos. go_logprobs g \<noteq> None) \<and> \<not> (\<forall>g\<in>set gos. go_logprobs g \<noteq> None)
      then Inl (ValueError ''mixed rollout_logprobs'')
      else
        and_then (optional_field go_stop_reasons gos) (\<lambda>stops.
        and_then (optional_field go_logprobs gos) (\<lambda>logprobs.
        and_then (optional_field go_times gos) (\<lambda>times.
        and_then (optional_field go_traj_ids gos) (\<lambda>tids.
        and_then (optional_field go_last gos) (\<lambda>lasts.
        and_then (optional_field go_experts gos) (\<lambda>experts.
        and_then (optional_field go_pixels gos) (\<lambda>pixels.
        and_then (optional_field go_grids gos) (\<lambda>grids.
        and_then (optional_field go_env_metrics gos) (\<lambda>env_metrics.
          let g = \<lparr>go_prompts = concat (map go_prompts gos), go_responses = concat (map go_responses gos),
                   go_rewards = concat (map go_rewards gos), go_masks = concat (map go_masks gos),
                   go_stop_reasons = stops, go_logprobs = logprobs, go_times = times, go_traj_ids = tids,
                   go_last = lasts, go_experts = experts, go_pixels = pixels, go_grids = grids,
                   go_env_metrics = env_metrics\<rparr>
          in and_then (rollout_metrics_raise g) (\<lambda>_.
             and_then (validate_generator_output (length (go_prompts g)) g step_wise) (\<lambda>_. Inr g))))))))))))"

section \<open>Merging\<close>

definition is_prefix :: "int list \<Rightarrow> int list \<Rightarrow> bool" where
  "is_prefix maybe candidate =
     (if length maybe > length candidate then False else maybe = take (length maybe) candidate)"

definition slice_field :: "nat list \<Rightarrow> 'a list \<Rightarrow> 'a list" where
  "slice_field indices xs = map (\<lambda>i. xs ! i) indices"

definition slice_generator_output :: "'e gen_output \<Rightarrow> nat list \<Rightarrow> 'e gen_output" where
  "slice_generator_output g idx =
     \<lparr>go_prompts = slice_field idx (go_prompts g), go_responses = slice_field idx (go_responses g),
      go_rewards = slice_field idx (go_rewards g), go_masks = slice_field idx (go_masks g),
      go_stop_reasons = map_option (slice_field idx) (go_stop_reasons g),
      go_logprobs = map_option (slice_field idx) (go_logprobs g),
      go_times = map_option (slice_field idx) (go_times g),
      go_traj_ids = map_option (slice_field idx) (go_traj_ids g),
      go_last = map_option (slice_field idx) (go_last g),
      go_experts = map_option (slice_field idx) (go_experts g),
      go_pixels = map_option (slice_field idx) (go_pixels g),
      go_grids = map_option (slice_field idx) (go_grids g),
      go_env_metrics = map_option (slice_field idx) (go_env_metrics g)\<rparr>"

text \<open>One row of the parallel lists.\<close>

record turn =
  tn_prompt :: "int list"
  tn_response :: "int list"
  tn_reward :: reward
  tn_mask :: "int list"
  tn_logprobs :: "real list option"
  tn_stop :: "string option"
  tn_tid :: trajectory_id
  tn_last :: bool

text \<open>The accumulator of the current merge group; the rows flushed so far are the output.\<close>

record merge_acc =
  ma_prompt :: "int list"
  ma_response :: "int list"
  ma_mask :: "int list"
  ma_logprobs :: "real list option"
  ma_rewards :: "real list option"
  ma_last :: nat

definition tok_rewards :: "reward \<Rightarrow> real list" where
  "tok_rewards r = (case r of SeqReward _ \<Rightarrow> [] | TokenRewards rs \<Rightarrow> rs)"

definition start_group :: "'e gen_output \<Rightarrow> bool \<Rightarrow> nat \<Rightarrow> merge_acc" where
  "start_group g token_level i =
     \<lparr>ma_prompt = go_prompts g ! i, ma_response = go_responses g ! i, ma_mask = go_masks g ! i,
      ma_logprobs = map_option (\<lambda>ls. ls ! i) (go_logprobs g),
      ma_rewards = (if token_level then Some (tok_rewards (go_rewards g ! i)) else None), ma_last = i\<rparr>"

definition flush_group :: "'e gen_output \<Rightarrow> merge_acc \<Rightarrow> turn" where
  "flush_group g acc =
     \<lparr>tn_prompt = ma_prompt acc, tn_response = ma_response acc,
      tn_reward = (case ma_rewards acc of Some rs \<Rightarrow> TokenRewards rs | None \<Rightarrow> go_rewards g ! ma_last acc),
      tn_mask = ma_mask acc, tn_logprobs = ma_logprobs acc,
      tn_stop = map_option (\<lambda>ss. ss ! ma_last acc) (go_stop_reasons g),
      tn_tid = the (go_traj_ids g) ! ma_last acc, tn_last = the (go_last g) ! ma_last acc\<rparr>"

definition extend_group :: "'e gen_output \<Rightarrow> merge_acc \<Rightarrow> nat \<Rightarrow> merge_acc" where
  "extend_group g acc i =
     (let full = ma_prompt acc @ ma_response acc;
          obs = drop (length full) (go_prompts g ! i)
      in acc\<lparr>ma_response := ma_response acc @ obs @ go_responses g ! i,
             ma_mask := ma_mask acc @ replicate (length obs) 0 @ go_masks g ! i,
             ma_logprobs := map_option (\<lambda>l. l @ replicate (length obs) 0 @ the (go_logprobs g) ! i) (ma_logprobs acc),
             ma_rewards := map_option (\<lambda>r. r @ replicate (length obs) 0 @ tok_rewards (go_rewards g ! i)) (ma_rewards acc),
             ma_last := i\<rparr>)"

definition merge_step :: "'e gen_output \<Rightarrow> bool \<Rightarrow> nat \<Rightarrow> merge_acc \<times> turn list \<Rightarrow> merge_acc \<times> turn list" where
  "merge_step g token_level i st =
     (case st of (acc, out) \<Rightarrow>
        if is_prefix (ma_prompt acc @ ma_response acc) (go_prompts g ! i)
        then (extend_group g acc i, out)
        else (start_group g token_level i, out @ [flush_group g acc]))"

definition output_of_turns :: "bool \<Rightarrow> bool \<Rightarrow> turn list \<Rightarrow> 'e gen_output" where
  "output_of_turns has_logprobs has_stops ts =
     \<lparr>go_prompts = map tn_prompt ts, go_responses = map tn_response ts, go_rewards = map tn_reward ts,
      go_masks = map tn_mask ts,
      go_stop_reasons = (if has_stops then Some (map (\<lambda>t. the (tn_stop t)) ts) else None),
      go_logprobs = (if has_logprobs then Some (map (\<lambda>t. the (tn_logprobs t)) ts) else None),
      go_times = None, go_traj_ids = Some (map tn_tid ts), go_last = Some (map tn_last ts),
      go_experts = None, go_pixels = None, go_grids = None, go_env_metrics = None\<rparr>"

definition merge_single_trajectory :: "'e gen_output \<Rightarrow> 'e gen_output gen_result" where
  "merge_single_trajectory g =
     (case go_traj_ids g of
        None \<Rightarrow> Inl (AssertionError ''trajectory_ids is required'')
      | Some tids \<Rightarrow>
          if \<exists>t\<in>set tids. t \<noteq> hd tids then Inl (AssertionError ''several trajectories'')
          else if go_responses g = [] then Inl (AssertionError ''empty output'')
          else if is_tok (hd (go_rewards g)) \<and> \<not> (\<forall>r\<in>set (go_rewards g). is_tok r)
          then Inl (TypeError ''float in token-level rewards'')
          else
            let token_level = is_tok (hd (go_rewards g));
                (acc, out) = fold (merge_step g token_level) [1..<length (go_responses g)]
                               (start_group g token_level 0, [])
            in Inr (output_of_turns (go_logprobs g \<noteq> None) (go_stop_reasons g \<noteq> None)
                      (out @ [flush_group g acc])))"

text \<open>The index ranges that end at a last step; \<open>i\<close> is the current index, \<open>start\<close> the first of the range.\<close>

fun split_steps :: "bool list \<Rightarrow> nat \<Rightarrow> nat \<Rightarrow> nat list list" where
  "split_steps [] i start = []"
| "split_steps (l # ls) i start =
     (if l then [start..<Suc i] # split_steps ls (Suc i) (Suc i) else split_steps ls (Suc i) start)"

fun traverse :: "('a \<Rightarrow> 'b gen_result) \<Rightarrow> 'a list \<Rightarrow> 'b list gen_result" where
  "traverse f [] = Inr []"
| "traverse f (x # xs) = and_then (f x) (\<lambda>y. and_then (traverse f xs) (\<lambda>ys. Inr (y # ys)))"

definition merge_stepwise_output :: "'e gen_output \<Rightarrow> 'e gen_output gen_result" where
  "merge_stepwise_output g =
     (if go_experts g \<noteq> None then Inl (AssertionError ''rollout_expert_indices not supported'')
      else if go_pixels g \<noteq> None \<or> go_grids g \<noteq> None then Inl (AssertionError ''images not supported'')
      else
        case go_last g of
          None \<Rightarrow> Inl (TypeError ''is_last_step'')
        | Some ls \<Rightarrow>
            and_then
              (traverse (\<lambda>idx. merge_single_trajectory (slice_generator_output g idx))
                 (split_steps (take (length (go_responses g)) ls) 0 0))
              (\<lambda>merged. concatenate_generator_outputs merged True))"


section \<open>Further operations on outputs\<close>

text \<open>DAPO's overlong filtering.\<close>

definition apply_overlong_filtering :: "int list list \<Rightarrow> string list \<Rightarrow> int list list gen_result" where
  "apply_overlong_filtering masks stops =
     (if length masks \<noteq> length stops then Inl (AssertionError ''same length'')
      else Inr (map (\<lambda>(msk, stop). if stop \<noteq> ''stop'' then replicate (length msk) 0 else msk) (zip masks stops)))"

text \<open>The lengths of the runs of non-zero entries of the masks, by first differences.\<close>

definition run_diffs :: "int list \<Rightarrow> int list" where
  "run_diffs msk =
     (let nz = map (\<lambda>m. of_bool (m \<noteq> 0)) msk in map2 (\<lambda>a b. b - a) (0 # nz) (nz @ [0]))"

definition mask_runs :: "int list \<Rightarrow> nat list" where
  "mask_runs msk =
     (let diffs = run_diffs msk;
          starts = filter (\<lambda>i. diffs ! i = 1) [0..<length diffs];
          ends = filter (\<lambda>i. diffs ! i = -1) [0..<length diffs]
      in map2 (\<lambda>e s. e - s) ends starts)"

definition compute_turn_token_counts :: "int list list \<Rightarrow> nat list" where
  "compute_turn_token_counts masks =
     concat (map mask_runs (filter (\<lambda>msk. msk \<noteq> [] \<and> (\<exists>m\<in>set msk. m \<noteq> 0)) masks))"

definition np_mean :: "real list \<Rightarrow> real" where
  "np_mean xs = sum_list xs / real (length xs)"

record metrics_output =
  mo_avg_score :: real
  mo_pass_at_n :: real
  mo_mean_positive :: real

text \<open>The number of prompts of which some trajectory has a positive reward, over all prompts.\<close>

definition pass_at_n :: "(string, real list) dict \<Rightarrow> real" where
  "pass_at_n d = real (length (filter (\<lambda>(u, vs). \<exists>r\<in>set vs. 0 < r) d)) / real (length d)"

definition get_metrics :: "reward list \<Rightarrow> string list \<Rightarrow> metrics_output gen_result" where
  "get_metrics rewards uids =
     (if rewards = [] then Inl (ValueError ''rewards must be non-empty'')
      else if is_tok (hd rewards) then
        if \<exists>r\<in>set rewards. tok_rewards r = [] then Inl (ValueError ''token-level rewards must be non-empty'')
        else Inr \<lparr>mo_avg_score = np_mean (map (sum_list \<circ> tok_rewards) rewards),
                  mo_pass_at_n = pass_at_n (group_values (zip uids (map (last \<circ> tok_rewards) rewards))),
                  mo_mean_positive = np_mean (map (\<lambda>r. sum_list (map (\<lambda>x. max x 0) (tok_rewards r))) rewards)\<rparr>
      else
        let rs = map (\<lambda>r. case r of SeqReward x \<Rightarrow> x | TokenRewards _ \<Rightarrow> 0) rewards
        in Inr \<lparr>mo_avg_score = np_mean rs, mo_pass_at_n = pass_at_n (group_values (zip uids rs)),
                mo_mean_positive = np_mean (map (\<lambda>x. max x 0) rs)\<rparr>)"

end
