(* ===== verification/Rollout_Merge.thy ===== *)
theory Rollout_Merge
  imports Rollout_Output
begin

text \<open>
  Prefix-aware merging is invisible to training: the lemmas view an output as a list of turns, the
  index-based loop of the source as a recursion over turns, and show that merging validated step-wise
  output succeeds, validates again and keeps every training sample.
\<close>

section \<open>Outputs as lists of turns\<close>

definition turn_at :: "'e gen_output \<Rightarrow> nat \<Rightarrow> turn" where
  "turn_at g i =
     \<lparr>tn_prompt = go_prompts g ! i, tn_response = go_responses g ! i, tn_reward = go_rewards g ! i,
      tn_mask = go_masks g ! i, tn_logprobs = map_option (\<lambda>ls. ls ! i) (go_logprobs g),
      tn_stop = map_option (\<lambda>ss. ss ! i) (go_stop_reasons g),
      tn_tid = the (go_traj_ids g) ! i, tn_last = the (go_last g) ! i\<rparr>"

definition turns :: "'e gen_output \<Rightarrow> turn list" where
  "turns g = map (turn_at g) [0..<length (go_responses g)]"

lemma turns_output_of_turns:
  assumes "\<forall>t\<in>set ts. (tn_logprobs t \<noteq> None) = lp \<and> (tn_stop t \<noteq> None) = st"
  shows "turns (output_of_turns lp st ts) = ts"
proof (rule nth_equalityI)
  show "length (turns (output_of_turns lp st ts)) = length ts" by (simp add: turns_def output_of_turns_def)
  fix i assume "i < length (turns (output_of_turns lp st ts))"
  then have i: "i < length ts" by (simp add: turns_def output_of_turns_def)
  then have "(tn_logprobs (ts ! i) \<noteq> None) = lp" "(tn_stop (ts ! i) \<noteq> None) = st" using assms by auto
  with i show "turns (output_of_turns lp st ts) ! i = ts ! i"
    by (cases lp; cases st) (auto simp: turns_def turn_at_def output_of_turns_def intro!: turn.equality)
qed

subsection \<open>Merging turns\<close>

definition joins :: "turn \<Rightarrow> turn \<Rightarrow> bool" where
  "joins a t = is_prefix (tn_prompt a @ tn_response a) (tn_prompt t)"

definition join :: "turn \<Rightarrow> turn \<Rightarrow> turn" where
  "join a t =
     (let obs = drop (length (tn_prompt a @ tn_response a)) (tn_prompt t)
      in t\<lparr>tn_prompt := tn_prompt a, tn_response := tn_response a @ obs @ tn_response t,
           tn_mask := tn_mask a @ replicate (length obs) 0 @ tn_mask t,
           tn_logprobs := (case (tn_logprobs a, tn_logprobs t) of
                             (Some x, Some y) \<Rightarrow> Some (x @ replicate (length obs) 0 @ y) | _ \<Rightarrow> None),
           tn_reward := (case (tn_reward a, tn_reward t) of
                           (TokenRewards x, TokenRewards y) \<Rightarrow> TokenRewards (x @ replicate (length obs) 0 @ y)
                         | _ \<Rightarrow> tn_reward t)\<rparr>)"

fun merge_turns :: "turn \<Rightarrow> turn list \<Rightarrow> turn list" where
  "merge_turns a [] = [a]"
| "merge_turns a (t # ts) = (if joins a t then merge_turns (join a t) ts else a # merge_turns t ts)"

definition acc_ok :: "'e gen_output \<Rightarrow> bool \<Rightarrow> merge_acc \<Rightarrow> bool" where
  "acc_ok g tk acc =
     ((ma_logprobs acc \<noteq> None) = (go_logprobs g \<noteq> None) \<and> (ma_rewards acc \<noteq> None) = tk
      \<and> is_tok (go_rewards g ! ma_last acc) = tk)"

lemma start_group_turn:
  assumes "is_tok (go_rewards g ! i) = tk"
  shows "flush_group g (start_group g tk i) = turn_at g i" "acc_ok g tk (start_group g tk i)"
  using assms
  by (cases "go_rewards g ! i"; auto simp: flush_group_def start_group_def turn_at_def tok_rewards_def is_tok_def acc_ok_def)+

lemma extend_group_turn:
  assumes "acc_ok g tk acc" "is_tok (go_rewards g ! i) = tk"
  shows "flush_group g (extend_group g acc i) = join (flush_group g acc) (turn_at g i)"
    and "acc_ok g tk (extend_group g acc i)"
proof -
  show "flush_group g (extend_group g acc i) = join (flush_group g acc) (turn_at g i)"
  proof (rule turn.equality)
    show "tn_logprobs (flush_group g (extend_group g acc i)) = tn_logprobs (join (flush_group g acc) (turn_at g i))"
      using assms by (cases "ma_logprobs acc"; cases "go_logprobs g")
        (auto simp: flush_group_def extend_group_def join_def turn_at_def acc_ok_def Let_def)
    show "tn_reward (flush_group g (extend_group g acc i)) = tn_reward (join (flush_group g acc) (turn_at g i))"
      using assms by (cases "ma_rewards acc"; cases "go_rewards g ! i"; cases "go_rewards g ! ma_last acc")
        (auto simp: flush_group_def extend_group_def join_def turn_at_def acc_ok_def Let_def tok_rewards_def is_tok_def)
  qed (simp_all add: flush_group_def extend_group_def join_def turn_at_def Let_def)
  show "acc_ok g tk (extend_group g acc i)"
    using assms by (auto simp: acc_ok_def extend_group_def Let_def)
qed

lemma merge_fold:
  assumes "\<forall>i\<in>set is. is_tok (go_rewards g ! i) = tk" "acc_ok g tk acc"
  shows "(case fold (merge_step g tk) is (acc, out) of (acc', out') \<Rightarrow> out' @ [flush_group g acc'])
    = out @ merge_turns (flush_group g acc) (map (turn_at g) is)"
  using assms
proof (induction "is" arbitrary: acc out)
  case Nil
  then show ?case by simp
next
  case (Cons i "is")
  have j: "joins (flush_group g acc) (turn_at g i)
      \<longleftrightarrow> is_prefix (ma_prompt acc @ ma_response acc) (go_prompts g ! i)"
    by (simp add: joins_def flush_group_def turn_at_def)
  show ?case
  proof (cases "joins (flush_group g acc) (turn_at g i)")
    case True
    with Cons.prems Cons.IH [of "extend_group g acc i" out] extend_group_turn [of g tk acc i] j show ?thesis
      by (simp add: merge_step_def)
  next
    case False
    with Cons.prems Cons.IH [of "start_group g tk i" "out @ [flush_group g acc]"] start_group_turn [of g i tk] j
    show ?thesis by (simp add: merge_step_def)
  qed
qed

text \<open>What turns must look like.\<close>

definition turn_ok :: "bool \<Rightarrow> bool \<Rightarrow> bool \<Rightarrow> turn \<Rightarrow> bool" where
  "turn_ok tk lp st t =
     (length (tn_response t) = length (tn_mask t)
      \<and> (case tn_reward t of SeqReward _ \<Rightarrow> \<not> tk | TokenRewards rs \<Rightarrow> tk \<and> length rs = length (tn_response t))
      \<and> (case tn_logprobs t of None \<Rightarrow> \<not> lp | Some l \<Rightarrow> lp \<and> length l = length (tn_response t))
      \<and> (tn_stop t \<noteq> None) = st)"

lemma join_ok: "turn_ok tk lp st a \<Longrightarrow> turn_ok tk lp st t \<Longrightarrow> turn_ok tk lp st (join a t)"
  by (auto simp: turn_ok_def join_def Let_def split: reward.splits option.splits)

lemma merge_turns_ok:
  "turn_ok tk lp st a \<Longrightarrow> \<forall>t\<in>set ts. turn_ok tk lp st t \<Longrightarrow> \<forall>t\<in>set (merge_turns a ts). turn_ok tk lp st t"
  by (induction a ts rule: merge_turns.induct) (auto intro: join_ok)

lemma merge_turns_nonempty: "merge_turns a ts \<noteq> []"
  by (induction a ts rule: merge_turns.induct) auto

lemma merge_turns_length: "length (merge_turns a ts) \<le> Suc (length ts)"
  by (induction a ts rule: merge_turns.induct) auto

lemma join_simps [simp]: "tn_tid (join a t) = tn_tid t" "tn_last (join a t) = tn_last t" "tn_prompt (join a t) = tn_prompt a"
  by (simp_all add: join_def Let_def)

lemma merge_turns_tids: "tn_tid ` set (merge_turns a ts) \<subseteq> tn_tid ` set (a # ts)"
  by (induction a ts rule: merge_turns.induct) (auto split: if_splits)

lemma merge_turns_lasts:
  assumes "\<forall>t\<in>set (butlast (a # ts)). \<not> tn_last t"
  shows "\<forall>t\<in>set (butlast (merge_turns a ts)). \<not> tn_last t"
    and "tn_last (last (merge_turns a ts)) = tn_last (last (a # ts))"
  using assms
proof (induction a ts rule: merge_turns.induct)
  case (1 a)
  case 1 show ?case by simp
  case 2 show ?case by simp
next
  case (2 a t ts)
  {
    assume h: "\<forall>x\<in>set (butlast (a # t # ts)). \<not> tn_last x"
    then have h1: "\<not> tn_last a" and h2: "\<forall>x\<in>set (butlast (t # ts)). \<not> tn_last x" by simp_all
    then have h3: "\<forall>x\<in>set (butlast (join a t # ts)). \<not> tn_last x" by (cases ts) simp_all
    have l: "tn_last (last (join a t # ts)) = tn_last (last (t # ts))" by (cases ts) simp_all
    have "(\<forall>x\<in>set (butlast (merge_turns a (t # ts))). \<not> tn_last x)
      \<and> tn_last (last (merge_turns a (t # ts))) = tn_last (last (a # t # ts))"
    proof (cases "joins a t")
      case True
      with "2.IH"(1,2) [OF True h3] l show ?thesis by simp
    next
      case False
      with "2.IH"(3,4) [OF False h2] h1 merge_turns_nonempty [of t ts] show ?thesis by simp
    qed
  }
  note both = this
  case 1 then show ?case using both by blast
  case 2 then show ?case using both by blast
qed

text \<open>The samples training sees: for every unmasked response token its context, the token, its mask, log-probability
  and token reward.\<close>

record train_sample =
  ts_context :: "int list"
  ts_token :: int
  ts_mask :: int
  ts_logprob :: "real option"
  ts_reward :: "real option"

definition sample_at :: "turn \<Rightarrow> nat \<Rightarrow> train_sample" where
  "sample_at t j =
     \<lparr>ts_context = tn_prompt t @ take j (tn_response t), ts_token = tn_response t ! j, ts_mask = tn_mask t ! j,
      ts_logprob = map_option (\<lambda>l. l ! j) (tn_logprobs t),
      ts_reward = (case tn_reward t of SeqReward _ \<Rightarrow> None | TokenRewards rs \<Rightarrow> Some (rs ! j))\<rparr>"

definition train_samples :: "turn \<Rightarrow> train_sample list" where
  "train_samples t = map (sample_at t) (filter (\<lambda>j. tn_mask t ! j \<noteq> 0) [0..<length (tn_response t)])"

lemma upt_split3: "[0..<a + b + c] = [0..<a] @ map (\<lambda>j. a + j) [0..<b] @ map (\<lambda>j. a + b + j) [0..<c]"
proof -
  have shift: "map (\<lambda>j. k + j) [0..<n] = [k..<k + n]" for k n :: nat by (induction n) simp_all
  show ?thesis
    unfolding shift by (simp only: upt_add_eq_append [of 0 "a + b" c, OF le0] upt_add_eq_append [of 0 a b, OF le0] append_assoc)
qed

lemma train_samples_join:
  assumes ok: "turn_ok tk lp st a" "turn_ok tk lp st t" and j: "joins a t"
  shows "train_samples (join a t) = train_samples a @ train_samples t"
proof -
  define obs where "obs = drop (length (tn_prompt a @ tn_response a)) (tn_prompt t)"
  let ?n = "length (tn_response a)" and ?o = "length obs" and ?m = "length (tn_response t)" and ?u = "join a t"
  have pre: "tn_prompt t = tn_prompt a @ tn_response a @ obs"
    using j unfolding joins_def is_prefix_def obs_def
    by (metis (no_types, lifting) append.assoc append_take_drop_id)
  have lens: "length (tn_mask a) = ?n" "length (tn_mask t) = ?m" using ok by (simp_all add: turn_ok_def)
  have u: "tn_response ?u = tn_response a @ obs @ tn_response t"
    "tn_mask ?u = tn_mask a @ replicate ?o 0 @ tn_mask t"
    by (simp_all add: join_def Let_def obs_def)
  have first: "sample_at ?u i = sample_at a i" if "i < ?n" for i
    using that ok lens by (auto simp: sample_at_def u join_def Let_def nth_append obs_def [symmetric] turn_ok_def
        split: reward.splits option.splits)
  have third: "sample_at ?u (?n + ?o + i) = sample_at t i" if "i < ?m" for i
    using that ok lens by (auto simp: sample_at_def u join_def Let_def nth_append obs_def [symmetric] turn_ok_def pre
        split: reward.splits option.splits)
  have m1: "tn_mask ?u ! i = tn_mask a ! i" if "i < ?n" for i using that lens by (simp add: u nth_append)
  have m2: "tn_mask ?u ! (?n + i) = 0" if "i < ?o" for i using that lens by (simp add: u nth_append)
  have m3: "tn_mask ?u ! (?n + ?o + i) = tn_mask t ! i" if "i < ?m" for i using that lens by (simp add: u nth_append)
  have "filter (\<lambda>i. tn_mask ?u ! i \<noteq> 0) [0..<?n + ?o + ?m]
      = filter (\<lambda>i. tn_mask a ! i \<noteq> 0) [0..<?n]
        @ map (\<lambda>i. ?n + ?o + i) (filter (\<lambda>i. tn_mask t ! i \<noteq> 0) [0..<?m])"
  proof -
    have "filter (\<lambda>i. tn_mask ?u ! i \<noteq> 0) [0..<?n] = filter (\<lambda>i. tn_mask a ! i \<noteq> 0) [0..<?n]"
      by (rule filter_cong) (use m1 in simp_all)
    moreover have "filter (\<lambda>i. tn_mask ?u ! (?n + i) \<noteq> 0) [0..<?o] = []" using m2 by (simp add: filter_empty_conv)
    moreover have "filter (\<lambda>i. tn_mask ?u ! (?n + ?o + i) \<noteq> 0) [0..<?m] = filter (\<lambda>i. tn_mask t ! i \<noteq> 0) [0..<?m]"
      by (rule filter_cong) (use m3 in simp_all)
    ultimately show ?thesis unfolding upt_split3 filter_append filter_map comp_def by (simp only: list.map append_Nil)
  qed
  then show ?thesis
    unfolding train_samples_def u(1) using first third by (simp add: add.assoc)
qed

lemma train_samples_merge:
  "turn_ok tk lp st a \<Longrightarrow> \<forall>t\<in>set ts. turn_ok tk lp st t \<Longrightarrow>
    concat (map train_samples (merge_turns a ts)) = concat (map train_samples (a # ts))"
proof (induction a ts rule: merge_turns.induct)
  case (1 a)
  then show ?case by simp
next
  case (2 a t ts)
  show ?case
  proof (cases "joins a t")
    case True
    with 2 have "concat (map train_samples (merge_turns (join a t) ts)) = concat (map train_samples (join a t # ts))"
      by (simp add: join_ok)
    with True 2 show ?thesis by (simp add: train_samples_join)
  next
    case False
    with 2 show ?thesis by simp
  qed
qed


subsection \<open>Groups of one trajectory\<close>

definition turn_key :: "turn \<Rightarrow> string" where
  "turn_key t = tid_to_string (tn_tid t)"

lemma digit_no_underscore:
  assumes "d < 10"
  shows "(char_of (48 + d :: nat) :: char) \<noteq> CHR ''_''"
proof
  assume "char_of (48 + d :: nat) = CHR ''_''"
  then have "(of_char (char_of (48 + d :: nat) :: char) :: nat) = of_char CHR ''_''" by simp
  with assms show False by simp
qed

lemma append_split_unique:
  assumes "xs @ c # ys = us @ c # vs" "c \<notin> set ys" "c \<notin> set vs"
  shows "xs = us \<and> ys = vs"
proof -
  have t: "takeWhile (\<lambda>x. x \<noteq> c) (rev zs @ c # rev as) = rev zs" if "c \<notin> set zs" for zs as
  proof -
    have "\<forall>x\<in>set (rev zs). x \<noteq> c" using that by auto
    then show ?thesis by (simp add: takeWhile_tail takeWhile_eq_all_conv del: set_rev)
  qed
  have "rev ys @ c # rev xs = rev vs @ c # rev us" using arg_cong [OF assms(1), of rev] by simp
  with t [OF assms(2), of xs] t [OF assms(3), of us] have "rev ys = rev vs" by simp
  with assms(1) show ?thesis by simp
qed

lemma turn_key_inj: "tid_to_string a = tid_to_string b \<Longrightarrow> a = b"
proof -
  assume eq: "tid_to_string a = tid_to_string b"
  have n: "CHR ''_'' \<notin> set (str_of_int i)" for i
  proof
    assume "CHR ''_'' \<in> set (str_of_int i)"
    then have "CHR ''_'' = CHR ''-'' \<or> (\<exists>d<10. CHR ''_'' = (char_of (48 + d :: nat) :: char))"
      by (rule str_of_int_chars)
    then obtain d :: nat where "d < 10" "CHR ''_'' = (char_of (48 + d) :: char)" by auto
    with digit_no_underscore show False by metis
  qed
  from eq have "ti_instance a @ CHR ''_'' # str_of_int (ti_repetition a)
      = ti_instance b @ CHR ''_'' # str_of_int (ti_repetition b)"
    by (simp add: tid_to_string_def)
  from append_split_unique [OF this n n] have "ti_instance a = ti_instance b" "ti_repetition a = ti_repetition b"
    using str_of_int_inj by blast+
  then show "a = b" by simp
qed

lemma contiguous_remdups:
  "p \<notin> set seen \<Longrightarrow> contiguous (Some p) seen tids \<longleftrightarrow>
    distinct (remdups_adj (p # tids)) \<and> set (tl (remdups_adj (p # tids))) \<inter> set seen = {}"
proof (induction tids arbitrary: p seen)
  case Nil
  then show ?case by simp
next
  case (Cons k tids)
  show ?case
  proof (cases "k = p")
    case True
    with Cons show ?thesis by simp
  next
    case False
    have "remdups_adj (k # tids) = k # tl (remdups_adj (k # tids))"
      by (metis list.sel(1,3) neq_Nil_conv remdups_adj_Cons_alt)
    then obtain r where r: "remdups_adj (k # tids) = k # r" by blast
    show ?thesis
    proof (cases "k \<in> set seen")
      case True
      with False r show ?thesis by auto
    next
      case notin: False
      with False have "k \<notin> set (p # seen)" by simp
      from Cons.IH [OF this] False notin r show ?thesis by auto
    qed
  qed
qed

lemma contiguous_iff: "contiguous None [] tids \<longleftrightarrow> distinct (remdups_adj tids)"
  using contiguous_remdups [of _ "[]"] by (cases tids) simp_all

text \<open>A group: the turns of one trajectory, the last one marked.\<close>

definition is_group :: "turn list \<Rightarrow> bool" where
  "is_group ts = (ts \<noteq> [] \<and> (\<forall>t\<in>set ts. tn_tid t = tn_tid (hd ts)) \<and> (\<forall>t\<in>set (butlast ts). \<not> tn_last t)
     \<and> tn_last (last ts))"

lemma is_groupD:
  assumes "is_group ts"
  shows "ts \<noteq> []" "t \<in> set ts \<Longrightarrow> tn_tid t = tn_tid (hd ts)" "tn_last (last ts)"
    "t \<in> set (butlast ts) \<Longrightarrow> \<not> tn_last t"
  using assms unfolding is_group_def by blast+

definition group_key :: "turn list \<Rightarrow> string" where
  "group_key ts = turn_key (hd ts)"

lemma group_keys: "is_group ts \<Longrightarrow> map turn_key ts = replicate (length ts) (group_key ts)"
proof -
  assume "is_group ts"
  then have "\<forall>t\<in>set ts. turn_key t = group_key ts" unfolding is_group_def turn_key_def group_key_def by metis
  then have "map turn_key ts = map (\<lambda>_. group_key ts) ts" by (simp only: map_eq_conv)
  then show "map turn_key ts = replicate (length ts) (group_key ts)" by (simp only: map_replicate_const)
qed

definition bounds_ok :: "turn list \<Rightarrow> bool" where
  "bounds_ok ts = boundaries_marked (map turn_key ts) (map tn_last ts)"

lemma bounds_ok_Cons2: "bounds_ok (a # b # ts) = ((turn_key a \<noteq> turn_key b) = tn_last a \<and> bounds_ok (b # ts))"
  by (auto simp: bounds_ok_def)

lemma bounds_ok_small [simp]: "bounds_ok []" "bounds_ok [t]"
  by (simp_all add: bounds_ok_def)

lemma bounds_ok_append:
  "xs \<noteq> [] \<Longrightarrow> ys \<noteq> [] \<Longrightarrow>
    bounds_ok (xs @ ys) = (bounds_ok xs \<and> (turn_key (last xs) \<noteq> turn_key (hd ys)) = tn_last (last xs) \<and> bounds_ok ys)"
proof (induction xs)
  case Nil
  then show ?case by simp
next
  case (Cons x xs)
  show ?case
  proof (cases xs)
    case Nil
    with Cons.prems show ?thesis by (cases ys) (simp_all add: bounds_ok_Cons2)
  next
    case (Cons z zs)
    with Cons.IH Cons.prems show ?thesis by (auto simp: bounds_ok_Cons2)
  qed
qed

lemma group_bounds: "is_group ts \<Longrightarrow> bounds_ok ts"
proof (induction ts)
  case Nil
  then show ?case by simp
next
  case (Cons t ts)
  show ?case
  proof (cases ts)
    case Nil
    then show ?thesis by simp
  next
    case (Cons u us)
    from Cons.prems Cons have "is_group ts" "\<not> tn_last t" "turn_key t = turn_key u"
      by (auto simp: is_group_def turn_key_def)
    with Cons.IH Cons show ?thesis by (simp add: bounds_ok_Cons2)
  qed
qed

lemma group_heads:
  assumes "\<forall>g\<in>set gs. is_group g" "gs \<noteq> []"
  shows "concat gs \<noteq> []" "turn_key (hd (concat gs)) = group_key (hd gs)"
  using assms is_groupD(1) by (cases gs; simp add: group_key_def)+

lemma group_last_key: "is_group ts \<Longrightarrow> turn_key (last ts) = group_key ts"
  unfolding is_group_def turn_key_def group_key_def by (metis last_in_set)

lemma group_last: "\<forall>g\<in>set gs. is_group g \<Longrightarrow> gs \<noteq> [] \<Longrightarrow> tn_last (last (concat gs))"
proof (induction gs)
  case Nil
  then show ?case by simp
next
  case (Cons g gs)
  show ?case
  proof (cases "gs = []")
    case True
    with Cons.prems is_groupD(3) [of g] show ?thesis by simp
  next
    case False
    with Cons group_heads(1) [of gs] show ?thesis by simp
  qed
qed

text \<open>Groups with distinct keys are validly ordered, and the keys of groups whose boundaries are marked are the keys
  of the whole list without repetitions.\<close>

lemma concat_groups_bounds:
  assumes "\<forall>g\<in>set gs. is_group g" "distinct (map group_key gs)"
  shows "bounds_ok (concat gs)"
  using assms
proof (induction gs)
  case Nil
  show ?case by simp
next
  case (Cons g gs)
  have g: "is_group g" "g \<noteq> []" using Cons.prems(1) is_groupD(1) [of g] by simp_all
  show ?case
  proof (cases "gs = []")
    case True
    with g(1) show ?thesis by (simp add: group_bounds)
  next
    case False
    have gs: "\<forall>g\<in>set gs. is_group g" using Cons.prems(1) by simp
    have "group_key (hd gs) \<in> set (map group_key gs)" using False by simp
    with Cons.prems(2) have neq: "group_key g \<noteq> group_key (hd gs)" by (metis distinct.simps(2) list.simps(9))
    have "bounds_ok (concat gs)" using Cons.IH gs Cons.prems(2) by simp
    then have "bounds_ok (g @ concat gs)"
      unfolding bounds_ok_append [OF g(2) group_heads(1) [OF gs False]]
      using group_bounds [OF g(1)] group_heads(2) [OF gs False] group_last_key [OF g(1)] neq is_groupD(3) [OF g(1)]
      by metis
    then show ?thesis by simp
  qed
qed

lemma concat_groups_remdups:
  assumes "\<forall>g\<in>set gs. is_group g" "bounds_ok (concat gs)"
  shows "remdups_adj (map turn_key (concat gs)) = map group_key gs"
  using assms
proof (induction gs)
  case Nil
  show ?case by simp
next
  case (Cons g gs)
  have g: "is_group g" "g \<noteq> []" using Cons.prems(1) is_groupD(1) [of g] by simp_all
  have gs: "\<forall>g\<in>set gs. is_group g" using Cons.prems(1) by simp
  have k: "map turn_key (concat (g # gs)) = replicate (length g) (group_key g) @ map turn_key (concat gs)"
    using group_keys [OF g(1)] by simp
  have drop: "remdups_adj (replicate (length g) (group_key g) @ ys) = group_key g # remdups_adj ys"
    if "ys = [] \<or> hd ys \<noteq> group_key g" for ys
  proof -
    have "remdups_adj (replicate (length g) (group_key g) @ ys)
        = remdups_adj (replicate (length g) (group_key g))
          @ remdups_adj (dropWhile (\<lambda>y. y = last (replicate (length g) (group_key g))) ys)"
      using g(2) by (intro remdups_adj_append'') simp
    moreover have "dropWhile (\<lambda>y. y = group_key g) ys = ys" using that by (cases ys) auto
    ultimately show ?thesis using g(2) by (simp add: remdups_adj_replicate)
  qed
  show ?case
  proof (cases "gs = []")
    case True
    with k drop [of "[]"] show ?thesis by simp
  next
    case False
    have "bounds_ok (g @ concat gs)" using Cons.prems(2) by simp
    then have b: "bounds_ok (concat gs)" "turn_key (last g) \<noteq> turn_key (hd (concat gs))"
      unfolding bounds_ok_append [OF g(2) group_heads(1) [OF gs False]] using is_groupD(3) [OF g(1)] by blast+
    then have "hd (map turn_key (concat gs)) \<noteq> group_key g"
      using group_last_key [OF g(1)] group_heads(1) [OF gs False] by (metis hd_map)
    with k drop Cons.IH [OF gs b(1)] show ?thesis by simp
  qed
qed

subsection \<open>Splitting into trajectories\<close>

fun split_turns :: "turn list \<Rightarrow> turn list \<Rightarrow> turn list list" where
  "split_turns cur [] = []"
| "split_turns cur (t # ts) =
     (if tn_last t then (cur @ [t]) # split_turns [] ts else split_turns (cur @ [t]) ts)"

lemma split_steps_turns:
  assumes "start \<le> i" "\<forall>k<length ls. tn_last (f (i + k)) = ls ! k"
  shows "map (map f) (split_steps ls i start) = split_turns (map f [start..<i]) (map f [i..<i + length ls])"
  using assms
proof (induction ls arbitrary: i start)
  case Nil
  then show ?case by simp
next
  case (Cons l ls)
  have l: "tn_last (f i) = l" using Cons.prems(2) by (metis add.right_neutral length_greater_0_conv list.distinct(1) nth_Cons_0)
  have rest: "\<forall>k<length ls. tn_last (f (Suc i + k)) = ls ! k"
    using Cons.prems(2) by (metis add_Suc_right add_Suc Suc_less_eq length_Cons nth_Cons_Suc)
  have u: "[i..<i + length (l # ls)] = i # [Suc i..<Suc i + length ls]" by (simp add: upt_rec)
  have s: "map f [start..<Suc i] = map f [start..<i] @ [f i]" using Cons.prems(1) by simp
  show ?case
  proof (cases l)
    case True
    with Cons.IH [of "Suc i" "Suc i", OF _ rest] Cons.prems(1) l show ?thesis unfolding u by (simp add: s)
  next
    case False
    with Cons.IH [of start "Suc i", OF _ rest] Cons.prems(1) l show ?thesis unfolding u by (simp add: s)
  qed
qed

lemma split_steps_range:
  "i + length ls \<le> n \<Longrightarrow> idx \<in> set (split_steps ls i start) \<Longrightarrow> start \<le> i \<Longrightarrow> idx \<noteq> [] \<and> set idx \<subseteq> {..<n}"
proof (induction ls arbitrary: i start)
  case Nil
  then show ?case by simp
next
  case (Cons l ls)
  have step: "idx \<in> set (split_steps ls (Suc i) s) \<Longrightarrow> s \<le> Suc i \<Longrightarrow> idx \<noteq> [] \<and> set idx \<subseteq> {..<n}" for s
    using Cons.IH [of "Suc i" s] Cons.prems(1) by simp
  show ?case
  proof (cases "l \<and> idx = [start..<Suc i]")
    case True
    with Cons.prems show ?thesis by auto
  next
    case False
    with Cons.prems(2) have "idx \<in> set (split_steps ls (Suc i) (if l then Suc i else start))"
      by (simp split: if_splits)
    with step Cons.prems(3) show ?thesis by (simp split: if_splits)
  qed
qed

lemma bounds_unmarked: "bounds_ok ts \<Longrightarrow> \<forall>t\<in>set (butlast ts). \<not> tn_last t \<Longrightarrow> \<forall>t\<in>set ts. turn_key t = turn_key (hd ts)"
proof (induction ts)
  case Nil
  then show ?case by simp
next
  case (Cons a ts)
  show ?case
  proof (cases ts)
    case Nil
    then show ?thesis by simp
  next
    case (Cons b us)
    with Cons.prems have "turn_key a = turn_key b" "bounds_ok ts" "\<forall>t\<in>set (butlast ts). \<not> tn_last t"
      by (auto simp: bounds_ok_Cons2)
    with Cons.IH have "\<forall>t\<in>set ts. turn_key t = turn_key a" using Cons by simp
    then show ?thesis by simp
  qed
qed

lemma split_turns_groups:
  assumes "bounds_ok (cur @ ts)" "\<forall>c\<in>set cur. \<not> tn_last c" "ts \<noteq> []" "tn_last (last ts)"
  shows "concat (split_turns cur ts) = cur @ ts \<and> (\<forall>g\<in>set (split_turns cur ts). is_group g)"
  using assms
proof (induction ts arbitrary: cur)
  case Nil
  then show ?case by simp
next
  case (Cons t ts)
  show ?case
  proof (cases "tn_last t")
    case False
    with Cons.prems(4) have "ts \<noteq> []" by auto
    with Cons.IH [of "cur @ [t]"] Cons.prems False show ?thesis by simp
  next
    case True
    have "bounds_ok (cur @ [t])"
    proof (cases "ts = []")
      case False
      then show ?thesis using Cons.prems(1) bounds_ok_append [of "cur @ [t]" ts] by simp
    qed (use Cons.prems(1) in simp)
    moreover have "\<forall>x\<in>set (butlast (cur @ [t])). \<not> tn_last x" using Cons.prems(2) by simp
    ultimately have "\<forall>x\<in>set (cur @ [t]). turn_key x = turn_key (hd (cur @ [t]))" by (rule bounds_unmarked)
    then have "\<forall>x\<in>set (cur @ [t]). tn_tid x = tn_tid (hd (cur @ [t]))"
      unfolding turn_key_def using turn_key_inj by blast
    then have g: "is_group (cur @ [t])"
      unfolding is_group_def using Cons.prems(2) True by (metis append_is_Nil_conv butlast_snoc last_snoc list.distinct(1))
    show ?thesis
    proof (cases "ts = []")
      case True
      with g \<open>tn_last t\<close> show ?thesis by simp
    next
      case False
      with Cons.prems have "bounds_ok ([] @ ts)" using bounds_ok_append [of "cur @ [t]" ts] by simp
      with Cons.IH [of "[]"] False Cons.prems(4) g \<open>tn_last t\<close> show ?thesis by simp
    qed
  qed
qed


subsection \<open>Validation and concatenation on turns\<close>

definition turns_valid :: "bool \<Rightarrow> bool \<Rightarrow> bool \<Rightarrow> turn list \<Rightarrow> bool" where
  "turns_valid tk lp st ts =
     (ts \<noteq> [] \<and> (\<forall>t\<in>set ts. turn_ok tk lp st t) \<and> bounds_ok ts \<and> contiguous None [] (map turn_key ts)
      \<and> tn_last (last ts))"

lemma validate_iff:
  "validate_generator_output k g True = Inr () \<longleftrightarrow>
    (let n = length (go_responses g)
     in 0 < n \<and> length (go_prompts g) = n \<and> length (go_masks g) = n \<and> length (go_rewards g) = n
        \<and> opt_length_ok n (go_logprobs g) \<and> opt_length_ok n (go_stop_reasons g) \<and> opt_length_ok n (go_traj_ids g)
        \<and> opt_length_ok n (go_experts g) \<and> opt_length_ok n (go_last g) \<and> opt_length_ok n (go_pixels g)
        \<and> opt_length_ok n (go_grids g) \<and> (\<forall>i<n. \<forall>c\<in>set (sample_ok g i). fst c) \<and> same_kind (go_rewards g)
        \<and> (\<forall>c\<in>set (step_wise_checks g n). fst c))"
proof -
  have samples: "(\<forall>c\<in>set (concat (map (sample_ok g) [0..<n])). fst c) = (\<forall>i<n. \<forall>c\<in>set (sample_ok g i). fst c)"
    for n
  proof -
    have "set (concat (map (sample_ok g) [0..<n])) = (\<Union>i\<in>{..<n}. set (sample_ok g i))" by auto
    then show ?thesis by blast
  qed
  show ?thesis
    unfolding validate_generator_output_def check_all_ok Let_def set_append ball_Un samples
    by (auto simp: batch_checks_def)
qed

lemma sample_ok_turn:
  assumes "0 < length (go_responses g)"
    and "opt_length_ok (length (go_responses g)) (go_logprobs g)" "i < length (go_responses g)"
    and "is_tok (go_rewards g ! i) = tk"
  shows "(\<forall>c\<in>set (sample_ok g i). fst c) \<longleftrightarrow> turn_ok tk (go_logprobs g \<noteq> None) (go_stop_reasons g \<noteq> None) (turn_at g i)"
  using assms
  by (auto simp: sample_ok_def turn_ok_def turn_at_def opt_length_ok_def is_tok_def split: reward.splits option.splits)

text \<open>What validation says of the turns.\<close>

lemma valid_turns:
  assumes v: "validate_generator_output k g True = Inr ()"
  defines "ts \<equiv> turns g"
  shows "turns_valid (is_tok (hd (go_rewards g))) (go_logprobs g \<noteq> None) (go_stop_reasons g \<noteq> None) ts"
    and "\<exists>ls tids. go_last g = Some ls \<and> go_traj_ids g = Some tids \<and> map tn_last ts = ls \<and> map tn_tid ts = tids"
    and "same_kind (go_rewards g)" "length (go_rewards g) = length (go_responses g)"
proof -
  let ?n = "length (go_responses g)"
  note c = v [unfolded validate_iff Let_def]
  show k: "same_kind (go_rewards g)" and l: "length (go_rewards g) = ?n" using c by blast+
  obtain ls tids where f: "go_last g = Some ls" "go_traj_ids g = Some tids"
  proof -
    have "\<forall>c\<in>set (step_wise_checks g ?n). fst c" using c by blast
    then show thesis using that by (cases "go_last g"; cases "go_traj_ids g") (auto simp: step_wise_checks_def)
  qed
  have sw: "length ls = ?n" "length tids = ?n" "last ls" "contiguous None [] (map tid_to_string tids)"
    "boundaries_marked (map tid_to_string tids) ls"
  proof -
    have "\<forall>c\<in>set (step_wise_checks g ?n). fst c" using c by blast
    then show "length ls = ?n" "length tids = ?n" "last ls" "contiguous None [] (map tid_to_string tids)"
      "boundaries_marked (map tid_to_string tids) ls" by (simp_all add: step_wise_checks_def f)
  qed
  have lasts: "map tn_last ts = ls" unfolding ts_def turns_def
    by (rule nth_equalityI) (simp_all add: sw turn_at_def f)
  have tids: "map tn_tid ts = tids" unfolding ts_def turns_def
    by (rule nth_equalityI) (simp_all add: sw turn_at_def f)
  then have keys: "map turn_key ts = map tid_to_string tids" unfolding turn_key_def by auto
  show "\<exists>ls tids. go_last g = Some ls \<and> go_traj_ids g = Some tids \<and> map tn_last ts = ls \<and> map tn_tid ts = tids"
    using f lasts tids by blast
  have n: "0 < ?n" using c by blast
  then have ne: "ts \<noteq> []" by (simp add: ts_def turns_def)
  have "turn_ok (is_tok (hd (go_rewards g))) (go_logprobs g \<noteq> None) (go_stop_reasons g \<noteq> None) (turn_at g i)"
    if i: "i < ?n" for i
  proof -
    have lp: "opt_length_ok ?n (go_logprobs g)" and s: "\<forall>c\<in>set (sample_ok g i). fst c" using c i by blast+
    have tk: "is_tok (go_rewards g ! i) = is_tok (hd (go_rewards g))" using k i l unfolding same_kind_def by simp
    show ?thesis using sample_ok_turn [OF n lp i tk] s by blast
  qed
  then have "\<forall>t\<in>set ts. turn_ok (is_tok (hd (go_rewards g))) (go_logprobs g \<noteq> None) (go_stop_reasons g \<noteq> None) t"
    unfolding ts_def turns_def by simp
  moreover have "bounds_ok ts" unfolding bounds_ok_def lasts keys by (rule sw(5))
  moreover have "contiguous None [] (map turn_key ts)" unfolding keys by (rule sw(4))
  moreover have "tn_last (last ts)" using sw(3) lasts ne by (metis last_map)
  ultimately show "turns_valid (is_tok (hd (go_rewards g))) (go_logprobs g \<noteq> None) (go_stop_reasons g \<noteq> None) ts"
    using ne unfolding turns_valid_def by blast
qed

text \<open>Outputs built from valid turns validate.\<close>

lemma output_of_turns_simps:
  "go_responses (output_of_turns lp st ts) = map tn_response ts" "go_rewards (output_of_turns lp st ts) = map tn_reward ts"
  "(go_logprobs (output_of_turns lp st ts) \<noteq> None) = lp" "(go_stop_reasons (output_of_turns lp st ts) \<noteq> None) = st"
  "opt_length_ok (length ts) (go_logprobs (output_of_turns lp st ts))"
  by (simp_all add: output_of_turns_def opt_length_ok_def)

lemma turns_uniform:
  "\<forall>t\<in>set ts. turn_ok tk lp st t \<Longrightarrow> \<forall>t\<in>set ts. (tn_logprobs t \<noteq> None) = lp \<and> (tn_stop t \<noteq> None) = st"
  by (auto simp: turn_ok_def split: option.splits)

lemma valid_output:
  assumes "turns_valid tk lp st ts"
  shows "validate_generator_output k (output_of_turns lp st ts) True = Inr ()"
proof -
  let ?g = "output_of_turns lp st ts"
  have ok: "ts \<noteq> []" "\<forall>t\<in>set ts. turn_ok tk lp st t" "bounds_ok ts" "contiguous None [] (map turn_key ts)"
    "tn_last (last ts)"
    using assms unfolding turns_valid_def by blast+
  have len: "length (go_responses ?g) = length ts" by (simp add: output_of_turns_def)
  have t: "turn_at ?g i = ts ! i" if "i < length ts" for i
    using turns_output_of_turns [OF turns_uniform [OF ok(2)]] that len unfolding turns_def
    by (metis add.left_neutral diff_zero nth_map_upt)
  have tk: "is_tok (tn_reward t) = tk" if "t \<in> set ts" for t
    using ok(2) that by (auto simp: turn_ok_def is_tok_def split: reward.splits)
  have samples: "\<forall>c\<in>set (sample_ok ?g i). fst c" if i: "i < length ts" for i
  proof -
    have "is_tok (go_rewards ?g ! i) = tk" using i tk by (simp add: output_of_turns_def)
    moreover have "turn_ok tk (go_logprobs ?g \<noteq> None) (go_stop_reasons ?g \<noteq> None) (turn_at ?g i)"
      unfolding t [OF i] output_of_turns_simps using ok(2) i by simp
    moreover have "0 < length (go_responses ?g)" "i < length (go_responses ?g)"
      "opt_length_ok (length (go_responses ?g)) (go_logprobs ?g)"
      using i ok(1) by (simp_all add: output_of_turns_simps)
    ultimately show ?thesis using sample_ok_turn [of ?g i tk] by blast
  qed
  have "same_kind (go_rewards ?g)"
    using tk ok(1) by (auto simp: same_kind_def output_of_turns_def hd_map)
  moreover have "\<forall>c\<in>set (step_wise_checks ?g (length ts)). fst c"
  proof -
    have "tid_to_string \<circ> tn_tid = turn_key" by (rule ext) (simp add: turn_key_def)
    moreover have "last (map tn_last ts)" using ok(1,5) by (simp add: last_map)
    moreover have "\<exists>t\<in>set ts. tn_last t" using ok(1,5) last_in_set by blast
    ultimately show ?thesis
      using ok(3,4) by (simp add: step_wise_checks_def output_of_turns_def bounds_ok_def)
  qed
  moreover have "length (go_prompts ?g) = length ts" "length (go_masks ?g) = length ts" "length (go_rewards ?g) = length ts"
    "opt_length_ok (length ts) (go_logprobs ?g)" "opt_length_ok (length ts) (go_stop_reasons ?g)"
    "opt_length_ok (length ts) (go_traj_ids ?g)" "opt_length_ok (length ts) (go_experts ?g)"
    "opt_length_ok (length ts) (go_last ?g)" "opt_length_ok (length ts) (go_pixels ?g)"
    "opt_length_ok (length ts) (go_grids ?g)" "0 < length ts"
    using ok(1) by (simp_all add: output_of_turns_def opt_length_ok_def)
  ultimately show ?thesis
    unfolding validate_iff Let_def len using samples by blast
qed

lemma concatenate_outputs:
  assumes "tss \<noteq> []" "turns_valid tk lp st (concat tss)"
  shows "concatenate_generator_outputs (map (output_of_turns lp st) tss) True = Inr (output_of_turns lp st (concat tss))"
proof -
  let ?gs = "map (output_of_turns lp st) tss :: 'a gen_output list"
  have hd: "hd ?gs = output_of_turns lp st (hd tss)" using assms(1) by (simp add: hd_map)
  have conc: "concat (map (\<lambda>ts. map f ts) tss) = map f (concat tss)" for f :: "turn \<Rightarrow> 'b" by (simp add: map_concat)
  have fields: "optional_field go_stop_reasons ?gs = Inr (go_stop_reasons (output_of_turns lp st (concat tss) :: 'a gen_output))"
    "optional_field go_logprobs ?gs = Inr (go_logprobs (output_of_turns lp st (concat tss) :: 'a gen_output))"
    "optional_field go_times ?gs = Inr None" "optional_field go_experts ?gs = Inr None"
    "optional_field go_pixels ?gs = Inr None" "optional_field go_grids ?gs = Inr None"
    "optional_field go_env_metrics ?gs = Inr None"
    "optional_field go_traj_ids ?gs = Inr (Some (map tn_tid (concat tss)))"
    "optional_field go_last ?gs = Inr (Some (map tn_last (concat tss)))"
    unfolding optional_field_def hd flatten_field_def
    by (auto simp: output_of_turns_def comp_def map_concat)
  have plain: "concat (map go_prompts ?gs) = map tn_prompt (concat tss)"
    "concat (map go_responses ?gs) = map tn_response (concat tss)"
    "concat (map go_rewards ?gs) = map tn_reward (concat tss)" "concat (map go_masks ?gs) = map tn_mask (concat tss)"
    by (simp_all add: output_of_turns_def comp_def map_concat)
  let ?out = "output_of_turns lp st (concat tss) :: 'a gen_output"
  have out: "\<lparr>go_prompts = map tn_prompt (concat tss), go_responses = map tn_response (concat tss),
              go_rewards = map tn_reward (concat tss), go_masks = map tn_mask (concat tss),
              go_stop_reasons = go_stop_reasons ?out, go_logprobs = go_logprobs ?out, go_times = None,
              go_traj_ids = Some (map tn_tid (concat tss)), go_last = Some (map tn_last (concat tss)),
              go_experts = None, go_pixels = None, go_grids = None, go_env_metrics = None\<rparr> = ?out"
    by (simp add: output_of_turns_def)
  have mix: "\<not> ((\<exists>g\<in>set ?gs. go_logprobs g \<noteq> None) \<and> \<not> (\<forall>g\<in>set ?gs. go_logprobs g \<noteq> None))"
    by (auto simp: output_of_turns_def)
  have ne: "?gs \<noteq> []" using assms(1) by simp
  have "rollout_metrics_raise ?out = Inr ()"
    using assms(2) by (simp add: rollout_metrics_raise_def output_of_turns_def turns_valid_def)
  moreover have "validate_generator_output k ?out True = Inr ()" for k by (rule valid_output [OF assms(2)])
  ultimately show ?thesis
    unfolding concatenate_generator_outputs_def if_not_P [OF ne] if_not_P [OF mix] fields and_then_simps plain Let_def out
    by simp
qed


subsection \<open>Merging a trajectory and an output\<close>

definition merge_group :: "turn list \<Rightarrow> turn list" where
  "merge_group ts = merge_turns (hd ts) (tl ts)"

lemma merge_single_turns:
  assumes n: "idx \<noteq> []" "set idx \<subseteq> {..<length (go_responses g)}"
    and rewards: "same_kind (go_rewards g)" "length (go_rewards g) = length (go_responses g)"
    and tids: "go_traj_ids g = Some tids" "\<forall>i\<in>set idx. tids ! i = tids ! hd idx" and lasts: "go_last g = Some ls"
  shows "merge_single_trajectory (slice_generator_output g idx)
    = Inr (output_of_turns (go_logprobs g \<noteq> None) (go_stop_reasons g \<noteq> None) (merge_group (map (turn_at g) idx)))"
proof -
  let ?s = "slice_generator_output g idx"
  define tk where "tk = is_tok (go_rewards g ! hd idx)"
  have len: "length (go_responses ?s) = length idx" and rs: "go_rewards ?s = map (\<lambda>i. go_rewards g ! i) idx"
    and ts: "go_traj_ids ?s = Some (map (\<lambda>i. tids ! i) idx)"
    and opts: "(go_logprobs ?s \<noteq> None) = (go_logprobs g \<noteq> None)" "(go_stop_reasons ?s \<noteq> None) = (go_stop_reasons g \<noteq> None)"
    by (simp_all add: slice_generator_output_def slice_field_def tids)
  have turn: "turn_at ?s k = turn_at g (idx ! k)" if "k < length idx" for k
    using that unfolding turn_at_def
    by (cases "go_logprobs g"; cases "go_stop_reasons g")
       (simp_all add: slice_generator_output_def slice_field_def tids lasts)
  have kind: "is_tok (go_rewards g ! i) = tk" if "i \<in> set idx" for i
  proof -
    have "hd idx \<in> {..<length (go_responses g)}" using n(2) hd_in_set [OF n(1)] by blast
    then have "i < length (go_rewards g)" "hd idx < length (go_rewards g)" using that n(2) rewards(2) by auto
    then show ?thesis using rewards(1) nth_mem unfolding same_kind_def tk_def by metis
  qed
  have r0: "is_tok (hd (go_rewards ?s)) = tk" using n(1) by (simp add: rs hd_map tk_def)
  have kinds: "\<forall>r\<in>set (go_rewards ?s). is_tok r = tk" using kind by (auto simp: rs)
  have at: "is_tok (go_rewards ?s ! k) = tk" if "k < length idx" for k using kinds that by (simp add: rs)
  obtain acc out where f: "fold (merge_step ?s tk) [1..<length idx] (start_group ?s tk 0, []) = (acc, out)" by force
  have pos: "0 < length idx" using n(1) by simp
  have "out @ [flush_group ?s acc] = merge_turns (flush_group ?s (start_group ?s tk 0)) (map (turn_at ?s) [1..<length idx])"
    using merge_fold [of "[1..<length idx]" ?s tk "start_group ?s tk 0" "[]"] f at start_group_turn(2) [OF at [OF pos]]
    by simp
  also have "flush_group ?s (start_group ?s tk 0) = turn_at ?s 0" by (rule start_group_turn(1) [OF at [OF pos]])
  also have "turn_at ?s 0 = hd (map (turn_at g) idx)" using turn [OF pos] n(1) by (simp add: hd_map hd_conv_nth)
  also have "map (turn_at ?s) [1..<length idx] = tl (map (turn_at g) idx)"
    by (rule nth_equalityI) (simp_all add: turn nth_tl map_tl [symmetric])
  finally have rows: "out @ [flush_group ?s acc] = merge_group (map (turn_at g) idx)" unfolding merge_group_def .
  have same: "\<not> (\<exists>t\<in>set (map (\<lambda>i. tids ! i) idx). t \<noteq> hd (map (\<lambda>i. tids ! i) idx))"
    using tids(2) n(1) unfolding hd_map [OF n(1)] set_map by blast
  have ne: "go_responses ?s \<noteq> []" using n(1) len by (metis length_0_conv)
  show ?thesis
    unfolding merge_single_trajectory_def ts option.case if_not_P [OF same] if_not_P [OF ne]
      r0 len Let_def f prod.case rows opts using kinds by auto
qed


lemma merge_group_facts:
  assumes "is_group ts" "\<forall>t\<in>set ts. turn_ok tk lp st t"
  shows "is_group (merge_group ts)" "\<forall>t\<in>set (merge_group ts). turn_ok tk lp st t"
    "group_key (merge_group ts) = group_key ts" "length (merge_group ts) \<le> length ts"
    "concat (map train_samples (merge_group ts)) = concat (map train_samples ts)"
proof -
  have ts: "ts = hd ts # tl ts" using is_groupD(1) [OF assms(1)] by simp
  have tid: "tn_tid t = tn_tid (hd ts)" if "t \<in> set (merge_group ts)" for t
  proof -
    have "tn_tid t \<in> tn_tid ` set (merge_turns (hd ts) (tl ts))" using that by (simp add: merge_group_def)
    also have "\<dots> \<subseteq> tn_tid ` set (hd ts # tl ts)" by (rule merge_turns_tids)
    finally have "tn_tid t \<in> tn_tid ` set ts" using ts by simp
    then show ?thesis using is_groupD(2) [OF assms(1)] by auto
  qed
  have ne: "merge_group ts \<noteq> []" by (simp add: merge_group_def merge_turns_nonempty)
  have bl: "\<forall>t\<in>set (butlast (hd ts # tl ts)). \<not> tn_last t" using is_groupD(4) [OF assms(1)] ts by simp
  have "\<forall>t\<in>set (merge_group ts). tn_tid t = tn_tid (hd (merge_group ts))" using tid ne by simp
  moreover have "\<forall>t\<in>set (butlast (merge_group ts)). \<not> tn_last t"
    using merge_turns_lasts(1) [OF bl] by (simp add: merge_group_def)
  moreover have "tn_last (last (merge_group ts))"
    using merge_turns_lasts(2) [OF bl] is_groupD(3) [OF assms(1)] ts by (simp add: merge_group_def)
  ultimately show "is_group (merge_group ts)" unfolding is_group_def using ne by blast
  have ok: "turn_ok tk lp st (hd ts)" "\<forall>t\<in>set (tl ts). turn_ok tk lp st t"
    using assms(2) is_groupD(1) [OF assms(1)] by (simp_all add: list.set_sel(2))
  show "\<forall>t\<in>set (merge_group ts). turn_ok tk lp st t" unfolding merge_group_def by (rule merge_turns_ok [OF ok])
  show "group_key (merge_group ts) = group_key ts"
    using tid ne unfolding group_key_def turn_key_def by (metis hd_in_set)
  show "length (merge_group ts) \<le> length ts"
    using merge_turns_length [of "hd ts" "tl ts"] ts by (metis length_Cons merge_group_def)
  show "concat (map train_samples (merge_group ts)) = concat (map train_samples ts)"
    using train_samples_merge [OF ok] ts unfolding merge_group_def by metis
qed

lemma traverse_Inr: "(\<And>x. x \<in> set xs \<Longrightarrow> f x = Inr (h x)) \<Longrightarrow> traverse f xs = Inr (map h xs)"
  by (induction xs) simp_all

text \<open>The marked turns of a group: exactly its last.\<close>

lemma group_filter_last: "is_group ts \<Longrightarrow> filter tn_last ts = [last ts]"
proof -
  assume g: "is_group ts"
  then have "filter tn_last (butlast ts) = []" using is_groupD(4) by (auto simp: filter_empty_conv)
  moreover have "ts = butlast ts @ [last ts]" using is_groupD(1) [OF g] by simp
  ultimately show ?thesis using is_groupD(3) [OF g] by (metis append_Nil filter.simps filter_append)
qed

lemma join_seq_reward: "turn_ok False lp st a \<Longrightarrow> turn_ok False lp st t \<Longrightarrow> tn_reward (join a t) = tn_reward t"
  by (auto simp: join_def Let_def turn_ok_def split: reward.splits)

lemma merge_turns_last_reward:
  "turn_ok False lp st a \<Longrightarrow> \<forall>t\<in>set ts. turn_ok False lp st t \<Longrightarrow>
    tn_tid (last (merge_turns a ts)) = tn_tid (last (a # ts)) \<and> tn_reward (last (merge_turns a ts)) = tn_reward (last (a # ts))"
proof (induction a ts rule: merge_turns.induct)
  case (1 a)
  then show ?case by simp
next
  case (2 a t ts)
  show ?case
  proof (cases "joins a t")
    case True
    with 2 join_ok [of False lp st a t] join_seq_reward [of lp st a t] show ?thesis by (cases ts) simp_all
  next
    case False
    with 2 merge_turns_nonempty [of t ts] show ?thesis by simp
  qed
qed

text \<open>The groups of a validated output, and how \<open>merge_stepwise_output\<close> goes through them.\<close>

lemma valid_groups:
  assumes "turns_valid tk lp st ts"
  shows "concat (split_turns [] ts) = ts" "\<forall>g\<in>set (split_turns [] ts). is_group g"
    "\<forall>g\<in>set (split_turns [] ts). \<forall>t\<in>set g. turn_ok tk lp st t" "split_turns [] ts \<noteq> []"
    "distinct (map group_key (split_turns [] ts))"
proof -
  have tv: "ts \<noteq> []" "\<forall>t\<in>set ts. turn_ok tk lp st t" "bounds_ok ts" "contiguous None [] (map turn_key ts)"
    "tn_last (last ts)"
    using assms unfolding turns_valid_def by blast+
  show c: "concat (split_turns [] ts) = ts" and g: "\<forall>g\<in>set (split_turns [] ts). is_group g"
    using split_turns_groups [of "[]" ts] tv by simp_all
  show "\<forall>g\<in>set (split_turns [] ts). \<forall>t\<in>set g. turn_ok tk lp st t" using tv(2) c by (metis UN_I set_concat)
  show "split_turns [] ts \<noteq> []" using c tv(1) by auto
  show "distinct (map group_key (split_turns [] ts))"
    using tv(3,4) concat_groups_remdups [OF g] c by (simp add: contiguous_iff)
qed

lemma merged_groups_valid:
  assumes "\<forall>g\<in>set gs. is_group g" "\<forall>g\<in>set gs. \<forall>t\<in>set g. turn_ok tk lp st t" "gs \<noteq> []" "distinct (map group_key gs)"
  shows "turns_valid tk lp st (concat (map merge_group gs))"
  unfolding turns_valid_def
proof (intro conjI)
  let ?ms = "map merge_group gs"
  have mf: "is_group (merge_group ts)" "\<forall>t\<in>set (merge_group ts). turn_ok tk lp st t"
    "group_key (merge_group ts) = group_key ts" if "ts \<in> set gs" for ts
    using merge_group_facts(1-3) [of ts tk lp st] assms(1,2) that by blast+
  have mg: "\<forall>g\<in>set ?ms. is_group g" using mf(1) by simp
  have keys: "map group_key ?ms = map group_key gs" using mf(3) by simp
  have mne: "?ms \<noteq> []" using assms(3) by simp
  show mb: "bounds_ok (concat ?ms)" by (rule concat_groups_bounds [OF mg]) (simp only: keys assms(4))
  show "concat ?ms \<noteq> []" by (rule group_heads(1) [OF mg mne])
  show "\<forall>t\<in>set (concat ?ms). turn_ok tk lp st t" using mf(2) by auto
  show "contiguous None [] (map turn_key (concat ?ms))"
    unfolding contiguous_iff concat_groups_remdups [OF mg mb] keys by (rule assms(4))
  show "tn_last (last (concat ?ms))" by (rule group_last [OF mg mne])
qed

lemma merge_stepwise_groups:
  assumes v: "validate_generator_output k g True = Inr ()"
    and "go_experts g = None" "go_pixels g = None" "go_grids g = None"
  shows "merge_stepwise_output g
    = concatenate_generator_outputs
        (map (output_of_turns (go_logprobs g \<noteq> None) (go_stop_reasons g \<noteq> None) \<circ> merge_group) (split_turns [] (turns g))) True"
proof -
  define n where "n = length (go_responses g)"
  note vt = valid_turns [OF v]
  from vt(2) obtain ls tids where f: "go_last g = Some ls" "go_traj_ids g = Some tids" "map tn_last (turns g) = ls" by blast
  have tg: "turns g = map (turn_at g) [0..<n]" by (simp add: turns_def n_def)
  have lls: "length ls = n" using f(3) tg by auto
  define steps where "steps = split_steps ls 0 0"
  have "\<forall>j<length ls. tn_last (turn_at g (0 + j)) = ls ! j" using f(3) tg lls by auto
  then have gs: "split_turns [] (turns g) = map (map (turn_at g)) steps"
    using split_steps_turns [of 0 0 ls "turn_at g"] lls by (simp add: steps_def tg)
  have "merge_single_trajectory (slice_generator_output g idx)
      = Inr (output_of_turns (go_logprobs g \<noteq> None) (go_stop_reasons g \<noteq> None) (merge_group (map (turn_at g) idx)))"
    if idx: "idx \<in> set steps" for idx
  proof -
    have r: "idx \<noteq> []" "set idx \<subseteq> {..<n}"
      using split_steps_range [of 0 ls n idx 0] idx lls by (simp_all add: steps_def)
    have "is_group (map (turn_at g) idx)" using valid_groups(2) [OF vt(1)] idx by (simp add: gs)
    then have "tn_tid (turn_at g i) = tn_tid (turn_at g (hd idx))" if "i \<in> set idx" for i
      using is_groupD(2) [of "map (turn_at g) idx" "turn_at g i"] that r(1) by (simp add: hd_map)
    then have "\<forall>i\<in>set idx. tids ! i = tids ! hd idx" by (simp add: turn_at_def f(2))
    then show ?thesis using merge_single_turns [OF r(1) _ vt(3,4) f(2) _ f(1)] r(2) by (simp add: n_def)
  qed
  then have "traverse (\<lambda>idx. merge_single_trajectory (slice_generator_output g idx)) steps
      = Inr (map (output_of_turns (go_logprobs g \<noteq> None) (go_stop_reasons g \<noteq> None) \<circ> merge_group) (split_turns [] (turns g)))"
    using traverse_Inr [of steps "\<lambda>idx. merge_single_trajectory (slice_generator_output g idx)"] by (simp add: gs comp_def)
  then show ?thesis
    unfolding merge_stepwise_output_def using assms(2-4) lls by (simp add: f(1) steps_def n_def)
qed

lemma merged_last_rewards:
  assumes "\<forall>g\<in>set gs. is_group g" "\<forall>g\<in>set gs. \<forall>t\<in>set g. turn_ok False lp st t"
  shows "map (\<lambda>t. (tn_tid t, tn_reward t)) (filter tn_last (concat (map merge_group gs)))
    = map (\<lambda>t. (tn_tid t, tn_reward t)) (filter tn_last (concat gs))"
proof -
  have "(tn_tid (last (merge_group ts)), tn_reward (last (merge_group ts))) = (tn_tid (last ts), tn_reward (last ts))"
    if ts: "ts \<in> set gs" for ts
  proof -
    have ne: "ts \<noteq> []" using assms(1) ts is_groupD(1) by blast
    then have "ts = hd ts # tl ts" by simp
    moreover have "turn_ok False lp st (hd ts)" "\<forall>t\<in>set (tl ts). turn_ok False lp st t"
      using assms(2) ts ne by (simp_all add: list.set_sel(2))
    ultimately show ?thesis using merge_turns_last_reward [of lp st "hd ts" "tl ts"] unfolding merge_group_def by metis
  qed
  moreover have "is_group (merge_group ts)" if "ts \<in> set gs" for ts
    using merge_group_facts(1) [of ts False lp st] assms that by blast
  ultimately show ?thesis using assms(1) by (induction gs) (simp_all add: group_filter_last)
qed


text \<open>Two turns of one trajectory, the second prompt extends the first turn, then a turn of another trajectory.\<close>

definition ex_output :: "unit gen_output" where
  "ex_output =
     \<lparr>go_prompts = [[1, 2], [1, 2, 3, 9], [4]], go_responses = [[3], [5, 6], [7]],
      go_rewards = [SeqReward 0, SeqReward 1, SeqReward 0], go_masks = [[1], [1, 1], [1]],
      go_stop_reasons = Some [''stop'', ''stop'', ''stop''], go_logprobs = None, go_times = None,
      go_traj_ids = Some [\<lparr>ti_instance = ''a'', ti_repetition = 0\<rparr>, \<lparr>ti_instance = ''a'', ti_repetition = 0\<rparr>,
                          \<lparr>ti_instance = ''a'', ti_repetition = 1\<rparr>],
      go_last = Some [False, True, True], go_experts = None, go_pixels = None, go_grids = None,
      go_env_metrics = None\<rparr>"


end
