(* ===== verification/Dynamic_Sampling.thy ===== *)
theory Dynamic_Sampling
  imports Rollout_Output
begin

text \<open>
  Dynamic sampling: the strategies of \<^verbatim>\<open>skyrl/train/utils/trainer_utils.py\<close> (filter as in DAPO,
  replace as in POLARIS), the trainer's loop around them and the per-token rewards it trains on
  (\<^verbatim>\<open>skyrl/train/trainer.py\<close>).  The order in which Python iterates over a set and the random choices
  of numpy are arguments.
\<close>

section \<open>Groups\<close>

definition np_var :: "real list \<Rightarrow> real" where
  "np_var xs = np_mean (map (\<lambda>x. (x - np_mean xs)\<^sup>2) xs)"

definition np_std :: "real list \<Rightarrow> real" where
  "np_std xs = sqrt (np_var xs)"

definition seq_reward :: "reward \<Rightarrow> real" where
  "seq_reward r = (case r of SeqReward x \<Rightarrow> x | TokenRewards xs \<Rightarrow> sum_list xs)"

record sampling_config =
  sc_type :: "string option"
  sc_max_sample_batches :: int
  sc_min_replace_ratio :: real
  sc_train_batch_size :: nat
  sc_n_samples :: nat

text \<open>The uids in the order of their first trajectory, with whether the group gives a signal.\<close>

definition uid_std :: "string list \<Rightarrow> reward list \<Rightarrow> (string \<times> real) list" where
  "uid_std uids rewards = map (\<lambda>(u, vs). (u, np_std vs)) (group_values (zip uids (map seq_reward rewards)))"

definition good_uids :: "nat \<Rightarrow> string list \<Rightarrow> reward list \<Rightarrow> string list" where
  "good_uids n uids rewards = map fst (filter (\<lambda>(u, sd). sd > 0 \<or> n = 1) (uid_std uids rewards))"

definition bad_uids :: "nat \<Rightarrow> string list \<Rightarrow> reward list \<Rightarrow> string list" where
  "bad_uids n uids rewards = map fst (filter (\<lambda>(u, sd). sd = 0 \<and> n > 1) (uid_std uids rewards))"

section \<open>Filtering\<close>

definition truthy_list :: "'a list option \<Rightarrow> bool" where
  "truthy_list xs = (case xs of None \<Rightarrow> False | Some l \<Rightarrow> l \<noteq> [])"

definition filter_generator_output :: "'e gen_output \<Rightarrow> nat list \<Rightarrow> 'e gen_output" where
  "filter_generator_output g kept =
     \<lparr>go_prompts = slice_field kept (go_prompts g), go_responses = slice_field kept (go_responses g),
      go_rewards = slice_field kept (go_rewards g), go_masks = slice_field kept (go_masks g),
      go_stop_reasons = (if truthy_list (go_stop_reasons g)
                         then Some (slice_field kept (the (go_stop_reasons g))) else None),
      go_logprobs = (if truthy_list (go_logprobs g) then Some (slice_field kept (the (go_logprobs g))) else None),
      go_times = None, go_traj_ids = None, go_last = None, go_experts = None, go_pixels = None,
      go_grids = None, go_env_metrics = None\<rparr>"

record 'e sampling_state =
  ss_count :: int
  ss_collected :: "('e gen_output \<times> string list \<times> nat) option"

type_synonym 'e sampling_answer = "'e gen_output \<times> string list \<times> bool \<times> 'e sampling_state option"

definition kept_indices :: "string list \<Rightarrow> string list \<Rightarrow> nat list" where
  "kept_indices kept uids = filter (\<lambda>i. uids ! i \<in> set kept) [0..<length uids]"

definition collect_filtered ::
  "'e gen_output \<Rightarrow> string list \<Rightarrow> nat \<Rightarrow> ('e gen_output \<times> string list \<times> nat) option
     \<Rightarrow> ('e gen_output \<times> string list \<times> nat) gen_result" where
  "collect_filtered g uids num collected =
     (case collected of
        None \<Rightarrow> Inr (g, uids, num)
      | Some (g0, uids0, num0) \<Rightarrow>
          and_then (concatenate_generator_outputs [g0, g] False) (\<lambda>g1. Inr (g1, uids0 @ uids, num0 + num)))"

definition handle_filter_sampling ::
  "'e gen_output \<Rightarrow> string list \<Rightarrow> sampling_config \<Rightarrow> 'e sampling_state \<Rightarrow> 'e sampling_answer gen_result" where
  "handle_filter_sampling g uids cfg st =
     (let kept = good_uids (sc_n_samples cfg) uids (go_rewards g);
          idx = kept_indices kept uids;
          max_trajectories = sc_train_batch_size cfg * sc_n_samples cfg
      in and_then (collect_filtered (filter_generator_output g idx) (slice_field idx uids) (length kept) (ss_collected st))
           (\<lambda>(final, final_uids, num).
              if num < sc_train_batch_size cfg
              then Inr (g, uids, True, Some (st\<lparr>ss_collected := Some (final, final_uids, num)\<rparr>))
              else if max_trajectories < length final_uids
              then Inr (filter_generator_output final [0..<max_trajectories], take max_trajectories final_uids, False, None)
              else Inr (final, final_uids, False, None)))"

section \<open>Replacing\<close>

text \<open>The random numbers: a permutation of the candidates, or indices drawn with repetition.\<close>

definition get_bad_sample_replacements :: "nat list \<Rightarrow> nat list \<Rightarrow> string list \<Rightarrow> nat \<Rightarrow> string list" where
  "get_bad_sample_replacements perm draws good num_bad =
     (if length good \<ge> num_bad then map (\<lambda>i. good ! i) (take num_bad perm)
      else map (\<lambda>i. good ! i) draws)"

definition indices_of :: "string list \<Rightarrow> string \<Rightarrow> nat list" where
  "indices_of uids u = filter (\<lambda>i. uids ! i = u) [0..<length uids]"

definition replace_at :: "nat \<times> nat \<Rightarrow> 'e gen_output \<Rightarrow> 'e gen_output" where
  "replace_at p g =
     (case p of (bad, src) \<Rightarrow>
        g\<lparr>go_prompts := (go_prompts g)[bad := go_prompts g ! src],
          go_responses := (go_responses g)[bad := go_responses g ! src],
          go_rewards := (go_rewards g)[bad := go_rewards g ! src],
          go_masks := (go_masks g)[bad := go_masks g ! src],
          go_stop_reasons := (if truthy_list (go_stop_reasons g)
                              then map_option (\<lambda>l. l[bad := l ! src]) (go_stop_reasons g) else go_stop_reasons g),
          go_logprobs := (if truthy_list (go_logprobs g)
                          then map_option (\<lambda>l. l[bad := l ! src]) (go_logprobs g) else go_logprobs g)\<rparr>)"

text \<open>\<open>good\<close> and \<open>bad\<close> are the two sets in the order Python iterates over them.\<close>

definition handle_replace_sampling ::
  "nat list \<Rightarrow> nat list \<Rightarrow> string list \<Rightarrow> string list \<Rightarrow> 'e gen_output \<Rightarrow> string list \<Rightarrow> sampling_config
     \<Rightarrow> 'e gen_output \<times> string list \<times> bool" where
  "handle_replace_sampling perm draws good bad g uids cfg =
     (if real (length good) > real (length (uid_std uids (go_rewards g))) * sc_min_replace_ratio cfg
      then
        let replacement = get_bad_sample_replacements perm draws good (length bad);
            replacement_indices = concat (map (indices_of uids) replacement);
            bad_indices = concat (map (indices_of uids) bad);
            pairs = zip bad_indices replacement_indices
        in (fold replace_at pairs g, fold (\<lambda>(b, s) us. us[b := uids ! s]) pairs uids, False)
      else (g, uids, True))"

section \<open>The trainer's loop\<close>

text \<open>The random and iteration-order choices of one call.\<close>

record sampling_choice =
  ch_perm :: "nat list"
  ch_draws :: "nat list"
  ch_good :: "string list"
  ch_bad :: "string list"

definition handle_dynamic_sampling ::
  "sampling_choice \<Rightarrow> 'e gen_output \<Rightarrow> string list \<Rightarrow> sampling_config \<Rightarrow> 'e sampling_state
     \<Rightarrow> 'e sampling_answer gen_result" where
  "handle_dynamic_sampling ch g uids cfg st =
     (case sc_type cfg of
        None \<Rightarrow> Inr (g, uids, False, None)
      | Some ty \<Rightarrow>
          if ty = ''replace''
          then case handle_replace_sampling (ch_perm ch) (ch_draws ch) (ch_good ch) (ch_bad ch) g uids cfg of
                 (g', uids', keep) \<Rightarrow> Inr (g', uids', keep, Some st)
          else if ty = ''filter'' then handle_filter_sampling g uids cfg st
          else Inl (ValueError ''Invalid dynamic sampling type''))"

definition trainer_dynamic_sampling ::
  "sampling_choice \<Rightarrow> 'e gen_output \<Rightarrow> string list \<Rightarrow> sampling_config \<Rightarrow> 'e sampling_state option
     \<Rightarrow> ('e gen_output \<times> string list \<times> bool \<times> 'e sampling_state option) gen_result" where
  "trainer_dynamic_sampling ch g uids cfg state =
     (let st = (case state of None \<Rightarrow> \<lparr>ss_count = 1, ss_collected = None\<rparr> | Some s \<Rightarrow> s\<lparr>ss_count := ss_count s + 1\<rparr>)
      in and_then (handle_dynamic_sampling ch g uids cfg st)
           (\<lambda>(g', uids', keep, st').
              if keep \<and> sc_max_sample_batches cfg > 0 \<and> ss_count st \<ge> sc_max_sample_batches cfg
              then Inl (RuntimeError ''dynamic sampling limit'')
              else Inr (g', uids', keep, if keep then st' else None)))"

text \<open>The sampling part of a training step: batches are generated until one call does not ask for more.  The result
  \<open>None\<close> means that the batches given do not suffice.\<close>

fun sample_batches ::
  "sampling_config \<Rightarrow> 'e sampling_state option \<Rightarrow> (sampling_choice \<times> 'e gen_output \<times> string list) list
     \<Rightarrow> ('e gen_output \<times> string list) option gen_result" where
  "sample_batches cfg state [] = Inr None"
| "sample_batches cfg state ((ch, g, uids) # batches) =
     and_then (trainer_dynamic_sampling ch g uids cfg state)
       (\<lambda>(g', uids', keep, state'). if keep then sample_batches cfg state' batches else Inr (Some (g', uids')))"

section \<open>Rewards per token\<close>

definition per_token_reward :: "real \<Rightarrow> int list \<Rightarrow> real list gen_result" where
  "per_token_reward r response =
     (if response = [] then Inl (RuntimeError ''list assignment index out of range'')
      else Inr ((replicate (length response) 0)[length response - 1 := r]))"

fun per_token_rewards :: "real list \<Rightarrow> int list list \<Rightarrow> real list list gen_result" where
  "per_token_rewards (r # rs) (response # responses) =
     and_then (per_token_reward r response) (\<lambda>x. and_then (per_token_rewards rs responses) (\<lambda>xs. Inr (x # xs)))"
| "per_token_rewards _ _ = Inr []"


section \<open>Groups and their signal\<close>

lemma sum_list_squares_nonneg: "0 \<le> sum_list (map (\<lambda>x. (f x :: real)\<^sup>2) xs)"
  by (induction xs) simp_all

lemma sum_list_squares_zero: "sum_list (map (\<lambda>x. (f x)\<^sup>2) xs) = (0::real) \<longleftrightarrow> (\<forall>x\<in>set xs. f x = 0)"
  using sum_list_squares_nonneg [of f] by (induction xs) (auto simp: add_nonneg_eq_0_iff)

lemma np_mean_const:
  assumes "xs \<noteq> []" "\<forall>x\<in>set xs. x = c"
  shows "np_mean xs = c"
proof -
  have "xs = replicate (length xs) c" using assms(2) by (metis replicate_eqI)
  then have "sum_list xs = real (length xs) * c" by (metis sum_list_replicate)
  with assms(1) show ?thesis by (simp add: np_mean_def)
qed

text \<open>The standard deviation is positive exactly when two values differ.\<close>

lemma np_std_pos:
  assumes "xs \<noteq> []"
  shows "0 < np_std xs \<longleftrightarrow> (\<exists>x\<in>set xs. \<exists>y\<in>set xs. x \<noteq> y)" "np_std xs = 0 \<longleftrightarrow> \<not> 0 < np_std xs"
proof -
  let ?s = "sum_list (map (\<lambda>x. (x - np_mean xs)\<^sup>2) xs)"
  have nonneg: "0 \<le> ?s" by (rule sum_list_squares_nonneg)
  have var: "np_var xs = ?s / real (length xs)" by (simp add: np_var_def np_mean_def [of "map _ xs"])
  then have v: "0 \<le> np_var xs" "np_var xs = 0 \<longleftrightarrow> ?s = 0" using nonneg assms by simp_all
  then show "np_std xs = 0 \<longleftrightarrow> \<not> 0 < np_std xs" by (auto simp: np_std_def)
  have "?s = 0 \<longleftrightarrow> (\<forall>x\<in>set xs. x = np_mean xs)" by (simp add: sum_list_squares_zero)
  also have "\<dots> \<longleftrightarrow> \<not> (\<exists>x\<in>set xs. \<exists>y\<in>set xs. x \<noteq> y)"
    using np_mean_const [OF assms] assms by (metis list.set_sel(1))
  finally show "0 < np_std xs \<longleftrightarrow> (\<exists>x\<in>set xs. \<exists>y\<in>set xs. x \<noteq> y)"
    using v by (auto simp: np_std_def)
qed

definition group_rewards :: "string list \<Rightarrow> reward list \<Rightarrow> string \<Rightarrow> real list" where
  "group_rewards uids rewards u = values_of u (zip uids (map seq_reward rewards))"

lemma uid_std_in:
  assumes "length uids = length rewards"
  shows "(u, sd) \<in> set (uid_std uids rewards) \<longleftrightarrow> u \<in> set uids \<and> sd = np_std (group_rewards uids rewards u)"
proof -
  have keys: "fst ` set (zip uids (map seq_reward rewards)) = set uids"
    using assms by (metis length_map list.set_map map_fst_zip)
  have "(u, sd) \<in> set (uid_std uids rewards)
      \<longleftrightarrow> (\<exists>vs. (u, vs) \<in> set (group_values (zip uids (map seq_reward rewards))) \<and> sd = np_std vs)"
    by (force simp: uid_std_def)
  then show ?thesis unfolding group_values_in keys group_rewards_def by blast
qed

lemma group_rewards_nonempty:
  assumes "length uids = length rewards" "u \<in> set uids"
  shows "group_rewards uids rewards u \<noteq> []"
proof -
  have "fst ` set (zip uids (map seq_reward rewards)) = set uids"
    using assms by (metis length_map list.set_map map_fst_zip)
  with assms(2) show ?thesis by (force simp: group_rewards_def values_of_def filter_empty_conv)
qed

lemma in_map_fst_filter: "u \<in> set (map fst (filter P xs)) \<longleftrightarrow> (\<exists>v. (u, v) \<in> set xs \<and> P (u, v))"
  by force

lemma good_uids_std:
  "length uids = length rewards \<Longrightarrow> u \<in> set (good_uids n uids rewards) \<longleftrightarrow>
    u \<in> set uids \<and> (0 < np_std (group_rewards uids rewards u) \<or> n = 1)"
  unfolding good_uids_def in_map_fst_filter using uid_std_in [of uids rewards u] by auto

lemma good_uids_iff:
  assumes "length uids = length rewards"
  shows "u \<in> set (good_uids n uids rewards) \<longleftrightarrow>
    u \<in> set uids \<and> (n = 1 \<or> (\<exists>x\<in>set (group_rewards uids rewards u). \<exists>y\<in>set (group_rewards uids rewards u). x \<noteq> y))"
proof (cases "u \<in> set uids")
  case True
  from np_std_pos(1) [OF group_rewards_nonempty [OF assms True]] True show ?thesis
    unfolding good_uids_std [OF assms] by blast
qed (simp add: good_uids_std [OF assms])

lemma bad_uids_iff:
  assumes "length uids = length rewards" "1 < n"
  shows "u \<in> set (bad_uids n uids rewards) \<longleftrightarrow> u \<in> set uids \<and> u \<notin> set (good_uids n uids rewards)"
proof -
  have "u \<in> set (bad_uids n uids rewards) \<longleftrightarrow> u \<in> set uids \<and> np_std (group_rewards uids rewards u) = 0"
    unfolding bad_uids_def in_map_fst_filter using uid_std_in [OF assms(1), of u] assms(2) by auto
  moreover have "n \<noteq> 1" using assms(2) by simp
  moreover have "u \<in> set uids \<Longrightarrow> np_std (group_rewards uids rewards u) = 0 \<longleftrightarrow> \<not> 0 < np_std (group_rewards uids rewards u)"
    by (rule np_std_pos(2) [OF group_rewards_nonempty [OF assms(1)]])
  ultimately show ?thesis unfolding good_uids_std [OF assms(1)] by blast
qed

section \<open>The loop is bounded\<close>

text \<open>With a positive \<open>max_sample_batches\<close> a training step generates at most that many batches: after them it has
  a batch to train on or has raised.\<close>

theorem dynamic_sampling_bounded:
  assumes "0 < sc_max_sample_batches cfg" "nat (sc_max_sample_batches cfg) \<le> length batches"
  shows "sample_batches cfg None batches \<noteq> Inr None"
proof -
  have "sample_batches cfg state batches \<noteq> Inr None"
    if "(case state of None \<Rightarrow> 0 | Some s \<Rightarrow> ss_count s) + int (length batches) \<ge> sc_max_sample_batches cfg" "batches \<noteq> []"
    for state and batches :: "(sampling_choice \<times> 'a gen_output \<times> string list) list"
    using that
  proof (induction batches arbitrary: state)
    case Nil
    then show ?case by simp
  next
    case (Cons b batches)
    obtain ch g uids where b: "b = (ch, g, uids)" by (cases b) auto
    define st where "st = (case state of None \<Rightarrow> \<lparr>ss_count = 1, ss_collected = None\<rparr> | Some s \<Rightarrow> s\<lparr>ss_count := ss_count s + 1\<rparr>)"
    have c: "ss_count st = (case state of None \<Rightarrow> 0 | Some s \<Rightarrow> ss_count s) + 1"
      by (simp add: st_def split: option.splits)
    show ?case
    proof (cases "trainer_dynamic_sampling ch g uids cfg state")
      case (Inl e)
      then show ?thesis by (simp add: b)
    next
      case (Inr r)
      obtain g' uids' keep state' where r: "r = (g', uids', keep, state')" by (cases r) auto
      show ?thesis
      proof (cases keep)
        case False
        with Inr r show ?thesis by (simp add: b)
      next
        case True
        from Inr r True obtain st' where h: "handle_dynamic_sampling ch g uids cfg st = Inr (g', uids', True, st')"
          and lim: "ss_count st < sc_max_sample_batches cfg" and s': "state' = st'"
          using assms(1) unfolding trainer_dynamic_sampling_def st_def [symmetric] Let_def and_then_Inr
          by (auto split: if_splits)
        have cnt: "\<exists>s. st' = Some s \<and> ss_count s = ss_count st"
          using h
          by (auto simp: handle_dynamic_sampling_def handle_filter_sampling_def Let_def and_then_Inr
              split: option.splits if_splits prod.splits)
        with Cons.prems(1) c lim have "batches \<noteq> []" by (cases batches) auto
        moreover have "(case state' of None \<Rightarrow> 0 | Some s \<Rightarrow> ss_count s) + int (length batches) \<ge> sc_max_sample_batches cfg"
          using cnt Cons.prems(1) c s' by auto
        ultimately have "sample_batches cfg state' batches \<noteq> Inr None" by (intro Cons.IH)
        with Inr r True show ?thesis by (simp add: b)
      qed
    qed
  qed
  moreover have "batches \<noteq> []" using assms by auto
  ultimately show ?thesis using assms by (simp add: nat_le_iff)
qed


section \<open>Two batches without signal\<close>

lemma kept_none: "kept_indices [] uids = []"
  by (simp add: kept_indices_def)

lemma slice_nil [simp]: "slice_field [] xs = []"
  by (simp add: slice_field_def)

lemma concatenate_empty:
  assumes "go_responses g = []" "go_responses h = []"
  shows "\<exists>e. concatenate_generator_outputs [g, h] b = Inl e"
proof (cases "concatenate_generator_outputs [g, h] b")
  case (Inr r)
  then show ?thesis
    using assms unfolding concatenate_generator_outputs_def
    by (auto simp: and_then_Inr rollout_metrics_raise_def Let_def split: if_splits)
qed blast

text \<open>If the first two batches of a step contain no group with reward variance, the filter strategy does not ask
  for a third batch: joining the two empty outputs raises (the minimum of no response lengths), and training
  ends.\<close>

theorem filter_crashes_without_signal:
  assumes "sc_type cfg = Some ''filter''" "0 < sc_train_batch_size cfg"
    and "sc_max_sample_batches cfg \<le> 0 \<or> 1 < sc_max_sample_batches cfg"
    and "good_uids (sc_n_samples cfg) uids1 (go_rewards g1) = []" "good_uids (sc_n_samples cfg) uids2 (go_rewards g2) = []"
  shows "\<exists>e. sample_batches cfg None ((ch1, g1, uids1) # (ch2, g2, uids2) # batches) = Inl e"
proof -
  let ?f1 = "filter_generator_output g1 []" and ?f2 = "filter_generator_output g2 []"
  let ?st = "\<lparr>ss_count = 1, ss_collected = Some (?f1, [], 0)\<rparr>"
  have one: "trainer_dynamic_sampling ch1 g1 uids1 cfg None = Inr (g1, uids1, True, Some ?st)"
    using assms(1-4)
    by (auto simp: trainer_dynamic_sampling_def handle_dynamic_sampling_def handle_filter_sampling_def kept_none
        collect_filtered_def Let_def)
  obtain e where "concatenate_generator_outputs [?f1, ?f2] False = Inl e"
    using concatenate_empty [of ?f1 ?f2 False] by (auto simp: filter_generator_output_def)
  then have "trainer_dynamic_sampling ch2 g2 uids2 cfg (Some ?st) = Inl e"
    using assms(1,5)
    by (simp add: trainer_dynamic_sampling_def handle_dynamic_sampling_def handle_filter_sampling_def kept_none
        collect_filtered_def Let_def)
  with one show ?thesis by simp
qed

section \<open>What the filter strategy returns\<close>

text \<open>The data of a trajectory.\<close>

type_synonym row = "int list \<times> int list \<times> reward \<times> int list"

definition row_at :: "'e gen_output \<Rightarrow> nat \<Rightarrow> row" where
  "row_at g i = (go_prompts g ! i, go_responses g ! i, go_rewards g ! i, go_masks g ! i)"

definition rows :: "'e gen_output \<Rightarrow> row list" where
  "rows g = map (row_at g) [0..<length (go_responses g)]"

definition aligned :: "'e gen_output \<Rightarrow> bool" where
  "aligned g = (length (go_prompts g) = length (go_responses g) \<and> length (go_rewards g) = length (go_responses g)
     \<and> length (go_masks g) = length (go_responses g))"

lemma rows_zip: "aligned g \<Longrightarrow> rows g = zip (go_prompts g) (zip (go_responses g) (zip (go_rewards g) (go_masks g)))"
  by (rule nth_equalityI) (simp_all add: rows_def row_at_def aligned_def)

lemma rows_filter:
  "rows (filter_generator_output g idx) = map (row_at g) idx" "aligned (filter_generator_output g idx)"
  by (auto simp: rows_def row_at_def filter_generator_output_def slice_field_def aligned_def intro: nth_equalityI)

lemma rows_concatenate:
  assumes "concatenate_generator_outputs [g, h] b = Inr r" "aligned g" "aligned h"
  shows "rows r = rows g @ rows h" "aligned r"
proof -
  from assms(1) have r: "go_prompts r = go_prompts g @ go_prompts h" "go_responses r = go_responses g @ go_responses h"
    "go_rewards r = go_rewards g @ go_rewards h" "go_masks r = go_masks g @ go_masks h"
    unfolding concatenate_generator_outputs_def
    by (auto simp: and_then_Inr Let_def split: if_splits)
  then show al: "aligned r" using assms(2,3) by (simp add: aligned_def)
  show "rows r = rows g @ rows h"
    using assms(2,3) by (simp add: rows_zip [OF al] rows_zip r aligned_def)
qed

text \<open>The trajectories of a batch whose group gives a signal, with their uids.\<close>

definition kept_rows :: "nat \<Rightarrow> 'e gen_output \<times> string list \<Rightarrow> (string \<times> row) list" where
  "kept_rows n b =
     (case b of (g, uids) \<Rightarrow>
        map (\<lambda>i. (uids ! i, row_at g i)) (kept_indices (good_uids n uids (go_rewards g)) uids))"

lemma filter_zip_kept:
  "zip (slice_field (kept_indices k uids) uids) (rows (filter_generator_output g (kept_indices k uids)))
    = map (\<lambda>i. (uids ! i, row_at g i)) (kept_indices k uids)"
  unfolding rows_filter(1) by (simp add: slice_field_def zip_map_map zip_same_conv_map)

definition state_rows :: "'e sampling_state option \<Rightarrow> (string \<times> row) list" where
  "state_rows state =
     (case state of None \<Rightarrow> []
      | Some s \<Rightarrow> (case ss_collected s of None \<Rightarrow> [] | Some (g, uids, n) \<Rightarrow> zip uids (rows g)))"

definition state_aligned :: "'e sampling_state option \<Rightarrow> bool" where
  "state_aligned state =
     (case state of None \<Rightarrow> True
      | Some s \<Rightarrow> (case ss_collected s of None \<Rightarrow> True
                   | Some (g, uids, n) \<Rightarrow> aligned g \<and> length uids = length (go_responses g)))"

lemma collect_rows:
  assumes "collect_filtered (filter_generator_output g idx) (slice_field idx uids) k c = Inr (g', us', k')"
    and "state_aligned (Some \<lparr>ss_count = 0, ss_collected = c\<rparr>)"
  shows "zip us' (rows g') = state_rows (Some \<lparr>ss_count = 0, ss_collected = c\<rparr>) @ map (\<lambda>i. (uids ! i, row_at g i)) idx"
    and "aligned g' \<and> length us' = length (go_responses g')"
proof -
  have z: "zip (slice_field idx uids) (rows (filter_generator_output g idx)) = map (\<lambda>i. (uids ! i, row_at g i)) idx"
    unfolding rows_filter(1) by (simp add: slice_field_def zip_map_map zip_same_conv_map)
  have l: "length (slice_field idx uids) = length (go_responses (filter_generator_output g idx))"
    by (simp add: slice_field_def filter_generator_output_def)
  show "zip us' (rows g') = state_rows (Some \<lparr>ss_count = 0, ss_collected = c\<rparr>) @ map (\<lambda>i. (uids ! i, row_at g i)) idx"
    "aligned g' \<and> length us' = length (go_responses g')"
  proof (atomize (full), cases c)
    case None
    with assms(1) z l rows_filter(2) [of g idx]
    show "zip us' (rows g') = state_rows (Some \<lparr>ss_count = 0, ss_collected = c\<rparr>) @ map (\<lambda>i. (uids ! i, row_at g i)) idx
      \<and> aligned g' \<and> length us' = length (go_responses g')"
      by (auto simp: collect_filtered_def state_rows_def)
  next
    case (Some x)
    obtain g0 us0 k0 where x: "x = (g0, us0, k0)" by (cases x) auto
    from assms(2) have a0: "aligned g0" "length us0 = length (go_responses g0)"
      by (simp_all add: state_aligned_def Some x)
    from assms(1) have c: "concatenate_generator_outputs [g0, filter_generator_output g idx] False = Inr g'"
      and us: "us' = us0 @ slice_field idx uids"
      by (auto simp: collect_filtered_def Some x and_then_Inr)
    note rc = rows_concatenate [OF c a0(1) rows_filter(2)]
    have lr: "length us0 = length (rows g0)" using a0(2) by (simp add: rows_def)
    have "length (rows g') = length (rows g0) + length (rows (filter_generator_output g idx))"
      unfolding rc(1) by (rule length_append)
    then have len: "length us' = length (go_responses g')" using a0(2) l by (simp add: us rows_def)
    have "zip us' (rows g') = zip us0 (rows g0) @ zip (slice_field idx uids) (rows (filter_generator_output g idx))"
      unfolding us rc(1) by (rule zip_append [OF lr])
    also have "\<dots> = state_rows (Some \<lparr>ss_count = 0, ss_collected = c\<rparr>) @ map (\<lambda>i. (uids ! i, row_at g i)) idx"
      unfolding z by (simp add: state_rows_def Some x)
    finally show "zip us' (rows g') = state_rows (Some \<lparr>ss_count = 0, ss_collected = c\<rparr>) @ map (\<lambda>i. (uids ! i, row_at g i)) idx
      \<and> aligned g' \<and> length us' = length (go_responses g')"
      using rc(2) len by blast
  qed
qed


lemma state_count_irrelevant:
  "state_rows (Some s) = state_rows (Some \<lparr>ss_count = 0, ss_collected = ss_collected s\<rparr>)"
  "state_aligned (Some s) = state_aligned (Some \<lparr>ss_count = 0, ss_collected = ss_collected s\<rparr>)"
  by (simp_all add: state_rows_def state_aligned_def)

text \<open>One batch: collected, or cut to the batch size.\<close>

lemma filter_step:
  assumes "handle_filter_sampling g uids cfg st = Inr (g', us', keep, st')" "state_aligned (Some st)"
  defines "new \<equiv> state_rows (Some st) @ kept_rows (sc_n_samples cfg) (g, uids)"
  shows "keep \<Longrightarrow> state_rows st' = new \<and> state_aligned st'"
    and "\<not> keep \<Longrightarrow> zip us' (rows g') = take (sc_train_batch_size cfg * sc_n_samples cfg) new"
proof -
  let ?idx = "kept_indices (good_uids (sc_n_samples cfg) uids (go_rewards g)) uids"
    and ?m = "sc_train_batch_size cfg * sc_n_samples cfg"
  from assms(1) obtain f fu k where c: "collect_filtered (filter_generator_output g ?idx) (slice_field ?idx uids)
      (length (good_uids (sc_n_samples cfg) uids (go_rewards g))) (ss_collected st) = Inr (f, fu, k)"
    and r: "(if k < sc_train_batch_size cfg then Inr (g, uids, True, Some (st\<lparr>ss_collected := Some (f, fu, k)\<rparr>))
             else if ?m < length fu then Inr (filter_generator_output f [0..<?m], take ?m fu, False, None)
             else Inr (f, fu, False, None)) = (Inr (g', us', keep, st') :: 'a sampling_answer gen_result)"
    unfolding handle_filter_sampling_def Let_def and_then_Inr by auto
  note cr = collect_rows [OF c assms(2) [unfolded state_count_irrelevant(2) [of st]]]
  have new: "zip fu (rows f) = new"
    unfolding cr(1) new_def state_count_irrelevant(1) [of st] by (simp add: kept_rows_def)
  have lf: "length fu = length (rows f)" using cr(2) by (simp add: rows_def)
  show "keep \<Longrightarrow> state_rows st' = new \<and> state_aligned st'"
    using r new cr(2) by (auto simp: state_rows_def state_aligned_def split: if_splits)
  show "zip us' (rows g') = take ?m new" if "\<not> keep"
  proof (cases "?m < length fu")
    case True
    with that r have "g' = filter_generator_output f [0..<?m]" "us' = take ?m fu" by (auto split: if_splits)
    moreover have "map (row_at f) [0..<?m] = take ?m (rows f)"
      using True lf by (simp add: rows_def take_map min_def)
    ultimately show ?thesis unfolding new [symmetric] by (simp add: rows_filter(1) take_zip)
  next
    case False
    with that r have "g' = f" "us' = fu" by (auto split: if_splits)
    with False lf show ?thesis unfolding new [symmetric] by simp
  qed
qed

text \<open>What a training step under the filter strategy trains on: the first \<open>train_batch_size * n_samples\<close>
  trajectories, with their uids, of those in the batches it generated whose group has two different rewards (all
  of them when a prompt has one sample), in the order of generation.\<close>

theorem filter_returns_signal:
  assumes "sc_type cfg = Some ''filter''" "sample_batches cfg None batches = Inr (Some (g, us))"
  shows "\<exists>k \<le> length batches. zip us (rows g) = take (sc_train_batch_size cfg * sc_n_samples cfg)
    (concat (map (\<lambda>b. kept_rows (sc_n_samples cfg) (snd b)) (take k batches)))"
proof -
  let ?m = "sc_train_batch_size cfg * sc_n_samples cfg" and ?kept = "\<lambda>b. kept_rows (sc_n_samples cfg) (snd b)"
  have "\<exists>k \<le> length batches. zip us (rows g) = take ?m (state_rows state @ concat (map ?kept (take k batches)))"
    if "sample_batches cfg state batches = Inr (Some (g, us))" "state_aligned state" for state
    using that
  proof (induction batches arbitrary: state)
    case Nil
    then show ?case by simp
  next
    case (Cons b batches)
    obtain ch g1 u1 where b: "b = (ch, g1, u1)" by (cases b) auto
    define st where "st = (case state of None \<Rightarrow> \<lparr>ss_count = 1, ss_collected = None\<rparr> | Some s \<Rightarrow> s\<lparr>ss_count := ss_count s + 1\<rparr>)"
    have st: "state_rows (Some st) = state_rows state" "state_aligned (Some st) = state_aligned state"
      by (auto simp: st_def state_rows_def state_aligned_def split: option.splits)
    from Cons.prems(1) obtain g' us' keep state' where
      t: "trainer_dynamic_sampling ch g1 u1 cfg state = Inr (g', us', keep, state')"
      and rest: "(if keep then sample_batches cfg state' batches else Inr (Some (g', us'))) = Inr (Some (g, us))"
      unfolding b sample_batches.simps and_then_Inr by auto
    from t obtain st' where h: "handle_filter_sampling g1 u1 cfg st = Inr (g', us', keep, st')"
      and s': "keep \<Longrightarrow> state' = st'"
      unfolding trainer_dynamic_sampling_def st_def [symmetric] Let_def and_then_Inr handle_dynamic_sampling_def
      using assms(1) by (auto split: if_splits)
    have al: "state_aligned (Some st)" using Cons.prems(2) st(2) by simp
    show ?case
    proof (cases keep)
      case True
      with filter_step(1) [OF h al] s' have "state_rows state' = state_rows state @ ?kept b" "state_aligned state'"
        by (simp_all add: st b)
      with Cons.IH [of state'] rest True obtain k where "k \<le> length batches"
        "zip us (rows g) = take ?m (state_rows state @ ?kept b @ concat (map ?kept (take k batches)))" by auto
      then show ?thesis by (intro exI [of _ "Suc k"]) simp
    next
      case False
      with rest have "g = g'" "us = us'" by simp_all
      with False filter_step(2) [OF h al] st show ?thesis by (intro exI [of _ 1]) (simp add: b)
    qed
  qed
  from this [OF assms(2)] show ?thesis by (simp add: state_aligned_def state_rows_def)
qed

lemma kept_rows_signal:
  assumes "length uids = length (go_rewards g)" "(u, r) \<in> set (kept_rows n (g, uids))" "n \<noteq> 1"
  shows "\<exists>x\<in>set (group_rewards uids (go_rewards g) u). \<exists>y\<in>set (group_rewards uids (go_rewards g) u). x \<noteq> y"
proof -
  from assms(2) have "u \<in> set (good_uids n uids (go_rewards g))"
    by (auto simp: kept_rows_def kept_indices_def)
  with good_uids_iff [OF assms(1), of u n] assms(3) show ?thesis by blast
qed


section \<open>What the replace strategy returns\<close>

lemma fold_copy:
  assumes "distinct (map fst ps)" "set (map fst ps) \<inter> set (map snd ps) = {}" "\<forall>p\<in>set ps. fst p < length xs"
  shows "fold (\<lambda>(b, s) xs. xs[b := xs ! s]) ps xs ! i = (case map_of ps i of None \<Rightarrow> xs ! i | Some s \<Rightarrow> xs ! s)"
  using assms
proof (induction ps arbitrary: xs)
  case Nil
  then show ?case by simp
next
  case (Cons p ps)
  obtain b s where p: "p = (b, s)" by force
  from Cons.prems have b: "b < length xs" "b \<notin> fst ` set ps" "b \<notin> snd ` set ps" "s \<notin> fst ` set ps" "b \<noteq> s"
    by (auto simp: p)
  have "fold (\<lambda>(b, s) xs. xs[b := xs ! s]) ps (xs[b := xs ! s]) ! i
      = (case map_of ps i of None \<Rightarrow> xs[b := xs ! s] ! i | Some s' \<Rightarrow> xs[b := xs ! s] ! s')"
    by (rule Cons.IH) (use Cons.prems in \<open>auto simp: p\<close>)
  moreover have "map_of ps i = Some s' \<Longrightarrow> s' \<noteq> b" for s'
    using b(3) by (metis image_eqI map_of_SomeD snd_conv)
  moreover have "map_of ps b = None" using b(2) by (simp add: map_of_eq_None_iff)
  ultimately show ?case using b(1) by (auto simp: p nth_list_update split: option.splits)
qed

lemma fold_assign:
  assumes "distinct (map fst ps)" "\<forall>p\<in>set ps. fst p < length xs"
  shows "fold (\<lambda>(b, s) xs. xs[b := f s]) ps xs ! i = (case map_of ps i of None \<Rightarrow> xs ! i | Some s \<Rightarrow> f s)"
  using assms
proof (induction ps arbitrary: xs)
  case Nil
  then show ?case by simp
next
  case (Cons p ps)
  obtain b s where p: "p = (b, s)" by force
  have "fold (\<lambda>(b, s) xs. xs[b := f s]) ps (xs[b := f s]) ! i
      = (case map_of ps i of None \<Rightarrow> xs[b := f s] ! i | Some s' \<Rightarrow> f s')"
    by (rule Cons.IH) (use Cons.prems in \<open>auto simp: p\<close>)
  moreover have "map_of ps b = None" using Cons.prems(1) by (simp add: map_of_eq_None_iff p)
  ultimately show ?case using Cons.prems(2) by (auto simp: p nth_list_update split: option.splits)
qed

lemma fold_replace_fields:
  "go_prompts (fold replace_at ps g) = fold (\<lambda>(b, s) xs. xs[b := xs ! s]) ps (go_prompts g)"
  "go_responses (fold replace_at ps g) = fold (\<lambda>(b, s) xs. xs[b := xs ! s]) ps (go_responses g)"
  "go_rewards (fold replace_at ps g) = fold (\<lambda>(b, s) xs. xs[b := xs ! s]) ps (go_rewards g)"
  "go_masks (fold replace_at ps g) = fold (\<lambda>(b, s) xs. xs[b := xs ! s]) ps (go_masks g)"
  by (induction ps arbitrary: g) (auto simp: replace_at_def)

lemma fold_replace_row:
  assumes "distinct (map fst ps)" "set (map fst ps) \<inter> set (map snd ps) = {}" "aligned g"
    and "\<forall>p\<in>set ps. fst p < length (go_responses g)"
  shows "row_at (fold replace_at ps g) i = row_at g (case map_of ps i of None \<Rightarrow> i | Some s \<Rightarrow> s)"
  unfolding row_at_def fold_replace_fields
  using assms(4) assms(3)
  by (simp add: fold_copy [OF assms(1,2)] aligned_def split: option.splits)

lemma set_indices_of: "set (indices_of uids u) = {i. i < length uids \<and> uids ! i = u}"
  by (auto simp: indices_of_def)

lemma distinct_indices: "distinct us \<Longrightarrow> distinct (concat (map (indices_of uids) us))"
  by (induction us) (auto simp: indices_of_def)

lemma length_concat_const: "\<forall>u\<in>set us. length (f u) = n \<Longrightarrow> length (concat (map f us)) = length us * n"
  by (induction us) simp_all

text \<open>After a successful replacement every trajectory of the batch is one of a group with reward variance, under
  that group's uid; the groups that had variance are untouched.  (Every prompt has the same number of samples,
  the random numbers are a permutation and indices in range.)\<close>

theorem replace_leaves_only_signal:
  assumes "aligned g" "length uids = length (go_responses g)" "1 < sc_n_samples cfg"
    and "\<forall>u\<in>set uids. length (indices_of uids u) = sc_n_samples cfg"
    and "set good = set (good_uids (sc_n_samples cfg) uids (go_rewards g))"
    and "set bad = set (bad_uids (sc_n_samples cfg) uids (go_rewards g))" "distinct bad"
    and "set perm = {..<length good}" "distinct perm" "length draws = length bad" "set draws \<subseteq> {..<length good}"
    and "handle_replace_sampling perm draws good bad g uids cfg = (g', us', False)"
  shows "\<forall>i<length uids. us' ! i \<in> set good
    \<and> (\<exists>j<length uids. uids ! j = us' ! i \<and> row_at g' i = row_at g j)
    \<and> (uids ! i \<in> set good \<longrightarrow> us' ! i = uids ! i \<and> row_at g' i = row_at g i)"
proof -
  let ?n = "sc_n_samples cfg"
  define rep where "rep = get_bad_sample_replacements perm draws good (length bad)"
  define ps where "ps = zip (concat (map (indices_of uids) bad)) (concat (map (indices_of uids) rep))"
  have out: "g' = fold replace_at ps g" "us' = fold (\<lambda>(b, s) us. us[b := uids ! s]) ps uids"
    using assms(12) by (auto simp: handle_replace_sampling_def Let_def rep_def ps_def split: if_splits)
  have lr: "length uids = length (go_rewards g)" using assms(1,2) by (simp add: aligned_def)
  have good_sub: "set good \<subseteq> set uids" using good_uids_iff [OF lr] assms(5) by blast
  have bad: "u \<in> set bad \<longleftrightarrow> u \<in> set uids \<and> u \<notin> set good" for u
    using bad_uids_iff [OF lr assms(3), of u] assms(5,6) by simp
  have lp: "length perm = length good" using assms(8,9) by (metis card_lessThan distinct_card)
  have len_rep: "length rep = length bad" using lp assms(10) by (auto simp: rep_def get_bad_sample_replacements_def)
  have rep_good: "set rep \<subseteq> set good"
    using assms(8,11) set_take_subset [of "length bad" perm]
    by (auto simp: rep_def get_bad_sample_replacements_def intro!: nth_mem)
  have "length (concat (map (indices_of uids) bad)) = length (concat (map (indices_of uids) rep))"
  proof -
    have "\<forall>u\<in>set bad. length (indices_of uids u) = ?n" "\<forall>u\<in>set rep. length (indices_of uids u) = ?n"
      using assms(4) bad rep_good good_sub by blast+
    then show ?thesis using len_rep by (simp only: length_concat_const)
  qed
  then have f: "map fst ps = concat (map (indices_of uids) bad)" "map snd ps = concat (map (indices_of uids) rep)"
    by (simp_all add: ps_def)
  have fst_ps: "i \<in> set (map fst ps) \<longleftrightarrow> i < length uids \<and> uids ! i \<in> set bad" for i
    by (auto simp: f set_indices_of)
  have snd_ps: "i < length uids \<and> uids ! i \<in> set good" if "i \<in> set (map snd ps)" for i
    using that rep_good by (auto simp: f set_indices_of)
  have d: "distinct (map fst ps)" unfolding f by (rule distinct_indices [OF assms(7)])
  have dis: "set (map fst ps) \<inter> set (map snd ps) = {}" using fst_ps snd_ps bad by blast
  have range: "\<forall>p\<in>set ps. fst p < length uids" using fst_ps by (metis image_eqI list.set_map)
  have row: "row_at g' i = row_at g (case map_of ps i of None \<Rightarrow> i | Some s \<Rightarrow> s)" for i
    unfolding out(1) by (rule fold_replace_row [OF d dis assms(1)]) (use range assms(2) in simp)
  have uid: "us' ! i = (case map_of ps i of None \<Rightarrow> uids ! i | Some s \<Rightarrow> uids ! s)" for i
    unfolding out(2) by (rule fold_assign [OF d range])
  show ?thesis
  proof (intro allI impI)
    fix i assume i: "i < length uids"
    show "us' ! i \<in> set good \<and> (\<exists>j<length uids. uids ! j = us' ! i \<and> row_at g' i = row_at g j)
      \<and> (uids ! i \<in> set good \<longrightarrow> us' ! i = uids ! i \<and> row_at g' i = row_at g i)"
    proof (cases "map_of ps i")
      case None
      then have "i \<notin> set (map fst ps)" by (simp add: map_of_eq_None_iff)
      with fst_ps i bad have "uids ! i \<in> set good" by (metis nth_mem)
      with i show ?thesis by (auto simp: row uid None)
    next
      case (Some s)
      then have "(i, s) \<in> set ps" by (rule map_of_SomeD)
      then have "i \<in> set (map fst ps)" "s \<in> set (map snd ps)" by force+
      with fst_ps snd_ps bad have "uids ! i \<notin> set good" "s < length uids" "uids ! s \<in> set good" by blast+
      then show ?thesis by (auto simp: row uid Some)
    qed
  qed
qed

section \<open>Rewards per token\<close>

lemma per_token_reward_sum:
  assumes "per_token_reward r response = Inr xs"
  shows "length xs = length response" "sum_list xs = r"
proof -
  from assms have ne: "response \<noteq> []" and xs: "xs = (replicate (length response) 0)[length response - 1 := r]"
    by (auto simp: per_token_reward_def split: if_splits)
  show "length xs = length response" by (simp add: xs)
  obtain k where k: "length response = Suc k" using ne by (cases response) auto
  have "(replicate (Suc k) 0)[k := r] = replicate k 0 @ [r]"
    by (simp only: replicate_append_same [symmetric] replicate_Suc) (simp add: list_update_append)
  then show "sum_list xs = r" by (simp add: xs k sum_list_replicate)
qed


section \<open>Examples\<close>

text \<open>Two prompts with two samples each; only the first has different rewards.\<close>

definition ex_batch :: "real list \<Rightarrow> unit gen_output" where
  "ex_batch rs =
     \<lparr>go_prompts = [[1], [1], [2], [2]], go_responses = [[3], [4], [5], [6]], go_rewards = map SeqReward rs,
      go_masks = [[1], [1], [1], [1]], go_stop_reasons = None, go_logprobs = None, go_times = None,
      go_traj_ids = None, go_last = None, go_experts = None, go_pixels = None, go_grids = None,
      go_env_metrics = None\<rparr>"

definition ex_uids :: "string list" where
  "ex_uids = [''a'', ''a'', ''b'', ''b'']"

definition ex_config :: "string \<Rightarrow> sampling_config" where
  "ex_config ty = \<lparr>sc_type = Some ty, sc_max_sample_batches = 3, sc_min_replace_ratio = 0, sc_train_batch_size = 1,
     sc_n_samples = 2\<rparr>"

definition ex_choice :: sampling_choice where
  "ex_choice = \<lparr>ch_perm = [0], ch_draws = [0], ch_good = [''a''], ch_bad = [''b'']\<rparr>"

lemma ex_groups: "group_values (zip ex_uids (map seq_reward (map SeqReward [p, q, r, s]))) = [(''a'', [p, q]), (''b'', [r, s])]"
  by (simp add: group_values_def ex_uids_def seq_reward_def)

lemma np_std_pair: "0 < np_std [p, q] \<longleftrightarrow> p \<noteq> q" "np_std [p, q] = 0 \<longleftrightarrow> p = q"
  using np_std_pos [of "[p, q]"] by auto

lemma ex_good: "good_uids 2 ex_uids (go_rewards (ex_batch [p, q, r, s]))
    = (if p \<noteq> q then [''a''] else []) @ (if r \<noteq> s then [''b''] else [])"
  by (simp add: good_uids_def uid_std_def ex_batch_def ex_groups [simplified] np_std_pair)

theorem dynamic_sampling_bounded_witness:
  "sample_batches (ex_config ''filter'') None (replicate 3 (ex_choice, ex_batch [0, 0, 0, 0], ex_uids)) \<noteq> Inr None"
  by (rule dynamic_sampling_bounded) (simp_all add: ex_config_def)

theorem filter_crashes_without_signal_witness:
  "\<exists>e. sample_batches (ex_config ''filter'') None
    [(ex_choice, ex_batch [0, 0, 1, 1], ex_uids), (ex_choice, ex_batch [0, 0, 0, 0], ex_uids)] = Inl e"
  by (rule filter_crashes_without_signal) (simp_all add: ex_config_def ex_good)

theorem filter_returns_signal_witness:
  "\<exists>g us. sample_batches (ex_config ''filter'') None [(ex_choice, ex_batch [0, 1, 0, 0], ex_uids)] = Inr (Some (g, us))
    \<and> zip us (rows g) = [(''a'', [1], [3], SeqReward 0, [1]), (''a'', [1], [4], SeqReward 1, [1])]"
proof -
  have idx: "kept_indices [''a''] ex_uids = [0, 1]" by (simp add: kept_indices_def ex_uids_def upt_rec)
  have good: "good_uids 2 ex_uids (go_rewards (ex_batch [0, 1, 0, 0])) = [''a'']" by (simp add: ex_good)
  have run: "\<exists>g us. sample_batches (ex_config ''filter'') None [(ex_choice, ex_batch [0, 1, 0, 0], ex_uids)] = Inr (Some (g, us))"
    by (simp add: trainer_dynamic_sampling_def handle_dynamic_sampling_def handle_filter_sampling_def ex_config_def
        good idx collect_filtered_def Let_def slice_field_def)
  then obtain g us where gu: "sample_batches (ex_config ''filter'') None [(ex_choice, ex_batch [0, 1, 0, 0], ex_uids)] = Inr (Some (g, us))"
    by blast
  have "kept_rows 2 (ex_batch [0, 1, 0, 0], ex_uids) = [(''a'', [1], [3], SeqReward 0, [1]), (''a'', [1], [4], SeqReward 1, [1])]"
    unfolding kept_rows_def prod.case good idx by (simp add: row_at_def ex_batch_def ex_uids_def)
  moreover have "\<not> zip us (rows g) = []"
    using gu by (auto simp: trainer_dynamic_sampling_def handle_dynamic_sampling_def handle_filter_sampling_def ex_config_def
        good idx collect_filtered_def Let_def slice_field_def rows_filter(1) [of "ex_batch _", unfolded slice_field_def])
  moreover obtain k where "k \<le> 1" "zip us (rows g) = take (1 * 2)
      (concat (map (\<lambda>b. kept_rows 2 (snd b)) (take k [(ex_choice, ex_batch [0, 1, 0, 0], ex_uids)])))"
    using filter_returns_signal [OF _ gu] by (auto simp: ex_config_def)
  ultimately have "zip us (rows g) = [(''a'', [1], [3], SeqReward 0, [1]), (''a'', [1], [4], SeqReward 1, [1])]"
    by (cases k) auto
  with gu show ?thesis by blast
qed

theorem replace_leaves_only_signal_witness:
  "\<exists>g us. handle_replace_sampling [0] [0] [''a''] [''b''] (ex_batch [0, 1, 0, 0]) ex_uids (ex_config ''replace'') = (g, us, False)
    \<and> (\<forall>i<4. us ! i = ''a'')"
proof -
  let ?b = "ex_batch [0, 1, 0, 0]"
  have good: "good_uids 2 ex_uids (go_rewards ?b) = [''a'']" by (simp add: ex_good)
  have bad: "bad_uids 2 ex_uids (go_rewards ?b) = [''b'']"
    by (simp add: bad_uids_def uid_std_def ex_batch_def ex_groups [simplified] np_std_pair)
  have idx: "\<forall>u\<in>set ex_uids. length (indices_of ex_uids u) = 2"
    by (simp add: indices_of_def ex_uids_def upt_rec)
  obtain g us where r: "handle_replace_sampling [0] [0] [''a''] [''b''] ?b ex_uids (ex_config ''replace'') = (g, us, False)"
    by (simp add: handle_replace_sampling_def ex_config_def uid_std_def ex_batch_def ex_groups [simplified] Let_def)
  have n: "sc_n_samples (ex_config ''replace'') = 2" by (simp add: ex_config_def)
  have "\<forall>i<length ex_uids. us ! i \<in> set [''a'']
      \<and> (\<exists>j<length ex_uids. ex_uids ! j = us ! i \<and> row_at g i = row_at ?b j)
      \<and> (ex_uids ! i \<in> set [''a''] \<longrightarrow> us ! i = ex_uids ! i \<and> row_at g i = row_at ?b i)"
    by (rule replace_leaves_only_signal [OF _ _ _ _ _ _ _ _ _ _ _ r])
       (simp_all add: n good bad idx, simp_all add: aligned_def ex_batch_def ex_uids_def lessThan_Suc)
  then have "\<forall>i<4. us ! i = ''a''" by (simp add: ex_uids_def)
  with r show ?thesis by blast
qed

end
