(* ===== verification/Hybrid_Scheduler.thy ===== *)
theory Hybrid_Scheduler
  imports Prelude
begin

text \<open>
  The scheduler of whole generation groups over local engines and borrowed farms,
  \<^verbatim>\<open>tpu/swarm/ray_train/hybrid_scheduler.py\<close>.  The coroutine \<open>run\<close> is cut at its awaits: entering the
  queue, one look at the queue under the condition's lock, the end of the call, the release of the slot
  under the lock.  Tickets and jobs are compared by identity in Python, so they are numbers handed out
  in order; the list of slots a coroutine holds on to is named by \<open>pool_ref\<close>.  The calls themselves,
  \<open>ready()\<close> and \<open>farms()\<close> are answers of the environment; telemetry is left out.
\<close>

section \<open>State\<close>

record job =
  jb_id :: nat
  jb_start :: real
  jb_work :: real

type_synonym slots = "job option list"

record scheduler =
  hs_local :: slots
  hs_remote :: slots
  hs_multi :: bool
  hs_alert_seconds :: real
  hs_pools :: "(string, slots) dict"
  hs_rates :: "(string, real option) dict"
  hs_completed :: "(string, nat) dict"
  hs_waiters :: "nat list"
  hs_last_alert :: real
  hs_retries :: nat
  hs_jobs :: nat

definition new_scheduler :: "nat \<Rightarrow> nat \<Rightarrow> bool \<Rightarrow> real \<Rightarrow> scheduler" where
  "new_scheduler local_engines remote_limit multi alert_seconds =
     \<lparr>hs_local = replicate local_engines None, hs_remote = replicate remote_limit None, hs_multi = multi,
      hs_alert_seconds = alert_seconds, hs_pools = [], hs_rates = [(''local'', None), (''remote'', None)],
      hs_completed = [(''local'', 0), (''remote'', 0)], hs_waiters = [], hs_last_alert = 0, hs_retries = 0,
      hs_jobs = 0\<rparr>"

text \<open>What \<open>ready()\<close> and \<open>farms()\<close> answer.\<close>

record environment =
  ev_now :: real
  ev_ready :: bool
  ev_farms :: "(string \<times> int) list"

section \<open>Estimates and pools\<close>

text \<open>Python truth of a rate; a missing key is \<open>None\<close>.\<close>

definition rate_of :: "string \<Rightarrow> scheduler \<Rightarrow> real option" where
  "rate_of k s = (case dict_get (hs_rates s) k of Some (Some r) \<Rightarrow> if r = 0 then None else Some r | _ \<Rightarrow> None)"

definition or_else :: "'a option \<Rightarrow> 'a option \<Rightarrow> 'a option" where
  "or_else a b = (case a of None \<Rightarrow> b | Some x \<Rightarrow> Some x)"

definition any_rate :: "scheduler \<Rightarrow> real option" where
  "any_rate s =
     (case find (\<lambda>(k, r). k \<noteq> ''local'' \<and> r \<noteq> None \<and> r \<noteq> Some 0) (hs_rates s) of
        None \<Rightarrow> None | Some (_, r) \<Rightarrow> r)"

definition seconds :: "scheduler \<Rightarrow> string \<Rightarrow> real \<Rightarrow> real" where
  "seconds s rt work =
     work / (case or_else (rate_of rt s) (or_else (rate_of ''local'' s) (any_rate s)) of None \<Rightarrow> 1 | Some r \<Rightarrow> r)"

definition busy_slots :: "slots \<Rightarrow> slots" where
  "busy_slots sl = filter (\<lambda>x. x \<noteq> None) sl"

definition free_slots :: "slots \<Rightarrow> nat list" where
  "free_slots sl = filter (\<lambda>i. sl ! i = None) [0..<length sl]"

text \<open>Assigned slots are kept; only the free tail grows or shrinks.\<close>

definition resize :: "int \<Rightarrow> slots \<Rightarrow> slots" where
  "resize capacity sl =
     (let busy = busy_slots sl
      in if int (length sl) \<noteq> max capacity (int (length busy))
         then busy @ replicate (nat (capacity - int (length busy))) None else sl)"

definition sync_farm ::
  "string \<times> int \<Rightarrow> (string, slots) dict \<times> (string, slots) dict \<Rightarrow> (string, slots) dict \<times> (string, slots) dict" where
  "sync_farm f acc =
     (case (f, acc) of ((key, capacity), (eligible, pools)) \<Rightarrow>
        let sl = resize capacity (case dict_get pools key of None \<Rightarrow> [] | Some x \<Rightarrow> x)
        in (dict_put key sl eligible, dict_put key sl pools))"

text \<open>\<open>_remote_pools\<close>: the eligible pools; in the multi-farm mode the pools follow the farms.\<close>

definition remote_pools :: "environment \<Rightarrow> scheduler \<Rightarrow> (string \<times> slots) list \<times> scheduler" where
  "remote_pools ev s =
     (if \<not> hs_multi s then (if ev_ready ev then [(''remote'', hs_remote s)] else [], s)
      else case fold sync_farm (ev_farms ev) ([], hs_pools s) of (eligible, pools) \<Rightarrow>
        (eligible, s\<lparr>hs_pools := filter (\<lambda>(k, sl). dict_has eligible k \<or> busy_slots sl \<noteq> []) pools\<rparr>))"

section \<open>Choosing a slot\<close>

record choice =
  cc_local :: bool
  cc_key :: string
  cc_slot :: nat
  cc_seconds :: real

text \<open>The predicted end of this work on a busy engine.\<close>

definition busy_finish :: "real \<Rightarrow> scheduler \<Rightarrow> real \<Rightarrow> job \<Rightarrow> real" where
  "busy_finish now s work j = max 0 (jb_start j + seconds s ''local'' (jb_work j) - now) + seconds s ''local'' work"

definition local_finishes :: "real \<Rightarrow> scheduler \<Rightarrow> real \<Rightarrow> real list" where
  "local_finishes now s work = concat (map (\<lambda>x. case x of None \<Rightarrow> [] | Some j \<Rightarrow> [busy_finish now s work j]) (hs_local s))"

definition local_candidates :: "scheduler \<Rightarrow> real \<Rightarrow> choice list" where
  "local_candidates s work =
     map (\<lambda>i. \<lparr>cc_local = True, cc_key = ''local'', cc_slot = i, cc_seconds = seconds s ''local'' work\<rparr>) (free_slots (hs_local s))"

text \<open>\<open>min(..., default=inf)\<close> over all local engines, as the list whose lower bound it is.\<close>

definition no_later :: "real \<Rightarrow> real list \<Rightarrow> bool" where
  "no_later x bounds = (\<forall>b\<in>set bounds. x \<le> b)"

definition remote_candidates :: "real list \<Rightarrow> (string \<times> slots) list \<Rightarrow> scheduler \<Rightarrow> real \<Rightarrow> choice list" where
  "remote_candidates bounds pools s work =
     concat (map (\<lambda>(k, sl).
       if no_later (seconds s k work) bounds
       then map (\<lambda>i. \<lparr>cc_local = False, cc_key = k, cc_slot = i, cc_seconds = seconds s k work\<rparr>) (free_slots sl)
       else []) pools)"

fun first_min :: "choice list \<Rightarrow> choice option" where
  "first_min [] = None"
| "first_min (c # cs) =
     (case first_min cs of None \<Rightarrow> Some c | Some d \<Rightarrow> Some (if cc_seconds c \<le> cc_seconds d then c else d))"

definition choose_slot :: "environment \<Rightarrow> scheduler \<Rightarrow> real \<Rightarrow> bool \<Rightarrow> choice option \<times> scheduler" where
  "choose_slot ev s work local_only =
     (let idle = local_candidates s work
      in if local_only then (first_min idle, s)
         else (case remote_pools ev s of (pools, s') \<Rightarrow>
           (first_min (idle @ remote_candidates (local_finishes (ev_now ev) s work @ map cc_seconds idle) pools s' work), s')))"

definition alert :: "environment \<Rightarrow> scheduler \<Rightarrow> scheduler" where
  "alert ev s =
     (if ev_now ev - hs_last_alert s < hs_alert_seconds s then s
      else snd (remote_pools ev (s\<lparr>hs_last_alert := ev_now ev\<rparr>)))"

section \<open>The coroutine \<open>run\<close>\<close>

text \<open>The list a coroutine keeps as \<open>pool\<close>, and what a call ends with: the token counts of the choices
  of a result, no result, an exception.\<close>

datatype pool_ref = LocalPool | RemotePool | FarmPool string

datatype outcome = Returned "nat list" | NoResult | Raised

datatype stage =
    Waiting
  | Calling pool_ref string job real
  | Releasing pool_ref string job outcome
  | Finished outcome

record group_run =
  gr_prompt :: nat
  gr_n :: int
  gr_work :: real
  gr_force_local :: bool
  gr_retries :: nat
  gr_stage :: stage

record system =
  sy_sched :: scheduler
  sy_runs :: "(nat, group_run) dict"

definition pool_ref_of :: "choice \<Rightarrow> scheduler \<Rightarrow> pool_ref" where
  "pool_ref_of c s = (if cc_local c then LocalPool else if hs_multi s then FarmPool (cc_key c) else RemotePool)"

definition slots_of :: "pool_ref \<Rightarrow> scheduler \<Rightarrow> slots" where
  "slots_of p s =
     (case p of LocalPool \<Rightarrow> hs_local s | RemotePool \<Rightarrow> hs_remote s
        | FarmPool k \<Rightarrow> (case dict_get (hs_pools s) k of None \<Rightarrow> [] | Some sl \<Rightarrow> sl))"

definition set_slots :: "pool_ref \<Rightarrow> slots \<Rightarrow> scheduler \<Rightarrow> scheduler" where
  "set_slots p sl s =
     (case p of LocalPool \<Rightarrow> s\<lparr>hs_local := sl\<rparr> | RemotePool \<Rightarrow> s\<lparr>hs_remote := sl\<rparr>
        | FarmPool k \<Rightarrow> if dict_has (hs_pools s) k then s\<lparr>hs_pools := dict_put k sl (hs_pools s)\<rparr> else s)"

definition work_of :: "nat \<Rightarrow> int \<Rightarrow> int \<Rightarrow> real" where
  "work_of prompt n max_tokens = real_of_int (max 1 (n * (int prompt + max_tokens)))"

text \<open>Up to the first await: the ticket enters the queue.\<close>

definition start_run :: "nat \<Rightarrow> nat \<Rightarrow> int \<Rightarrow> int \<Rightarrow> bool \<Rightarrow> system \<Rightarrow> system" where
  "start_run t prompt n max_tokens local_only st =
     st\<lparr>sy_sched := (sy_sched st)\<lparr>hs_waiters := hs_waiters (sy_sched st) @ [t]\<rparr>,
        sy_runs := dict_put t \<lparr>gr_prompt = prompt, gr_n = n, gr_work = work_of prompt n max_tokens,
          gr_force_local = local_only, gr_retries = 0, gr_stage = Waiting\<rparr> (sy_runs st)\<rparr>"

text \<open>One look under the lock.  \<open>None\<close> is the \<open>IndexError\<close> of an empty queue.\<close>

definition dispatch_group :: "environment \<Rightarrow> nat \<Rightarrow> group_run \<Rightarrow> choice \<Rightarrow> scheduler \<Rightarrow> system \<Rightarrow> system" where
  "dispatch_group ev t r c s st =
     (let p = pool_ref_of c s;
          j = \<lparr>jb_id = hs_jobs s, jb_start = ev_now ev, jb_work = gr_work r\<rparr>;
          s' = set_slots p ((slots_of p s)[cc_slot c := Some j]) s
      in st\<lparr>sy_sched := s'\<lparr>hs_jobs := hs_jobs s + 1, hs_waiters := tl (hs_waiters s)\<rparr>,
            sy_runs := dict_put t (r\<lparr>gr_stage := Calling p (cc_key c) j (ev_now ev)\<rparr>) (sy_runs st)\<rparr>)"

definition look :: "environment \<Rightarrow> nat \<Rightarrow> group_run \<Rightarrow> system \<Rightarrow> system option" where
  "look ev t r st =
     (let s = sy_sched st
      in case hs_waiters s of
           [] \<Rightarrow> None
         | w # ws \<Rightarrow>
             if w \<noteq> t then Some st
             else (case choose_slot ev s (gr_work r) (gr_force_local r) of
                     (Some c, s') \<Rightarrow> Some (dispatch_group ev t r c s' st)
                   | (None, s') \<Rightarrow>
                       Some (st\<lparr>sy_sched := if hs_multi s' \<and> hs_local s' = [] then alert ev s' else s'\<rparr>)))"

text \<open>The end of the call: counters and the rate of the pool, an exponential moving average.\<close>

definition new_rate :: "group_run \<Rightarrow> nat list \<Rightarrow> real \<Rightarrow> real \<Rightarrow> real option \<Rightarrow> real option" where
  "new_rate r outs now started old =
     (let elapsed = max (now - started) (1 / 1000000);
          completed_work = gr_n r * int (gr_prompt r) + int (sum_list outs)
      in if completed_work > 0
         then let rate = real_of_int completed_work / elapsed
              in Some (case old of None \<Rightarrow> rate | Some x \<Rightarrow> 3 / 4 * x + 1 / 4 * rate)
         else None)"

definition record_result :: "real \<Rightarrow> group_run \<Rightarrow> string \<Rightarrow> real \<Rightarrow> nat list \<Rightarrow> scheduler \<Rightarrow> scheduler" where
  "record_result now r key started outs s =
     (let old = (case dict_get (hs_rates s) key of None \<Rightarrow> None | Some x \<Rightarrow> x);
          done_before = (case dict_get (hs_completed s) key of None \<Rightarrow> 0 | Some c \<Rightarrow> c)
      in s\<lparr>hs_completed := dict_put key (done_before + 1) (hs_completed s),
           hs_rates := (case new_rate r outs now started old of
                          None \<Rightarrow> hs_rates s
                        | Some rate \<Rightarrow> dict_put key (Some rate) (hs_rates s))\<rparr>)"

definition finish_call :: "real \<Rightarrow> nat \<Rightarrow> outcome \<Rightarrow> system \<Rightarrow> system" where
  "finish_call now t out st =
     (case dict_get (sy_runs st) t of
        Some r \<Rightarrow>
          (case gr_stage r of
             Calling p key j started \<Rightarrow>
               st\<lparr>sy_sched := (case out of Returned outs \<Rightarrow> record_result now r key started outs (sy_sched st)
                                 | _ \<Rightarrow> sy_sched st),
                  sy_runs := dict_put t (r\<lparr>gr_stage := Releasing p key j out\<rparr>) (sy_runs st)\<rparr>
           | _ \<Rightarrow> st)
      | None \<Rightarrow> st)"

text \<open>The slot is released by the identity of the job; a group without a result goes back to the head.\<close>

fun free_job :: "nat \<Rightarrow> slots \<Rightarrow> slots" where
  "free_job i [] = []"
| "free_job i (None # sl) = None # free_job i sl"
| "free_job i (Some j # sl) = (if jb_id j = i then None # sl else Some j # free_job i sl)"

definition retry :: "nat \<Rightarrow> group_run \<Rightarrow> system \<Rightarrow> system" where
  "retry t r st =
     (let s = sy_sched st; stay = hs_local s \<noteq> [] \<or> \<not> hs_multi s
      in st\<lparr>sy_sched := s\<lparr>hs_waiters := t # hs_waiters s, hs_retries := (if stay then hs_retries s else hs_retries s + 1)\<rparr>,
            sy_runs := dict_put t
              (if stay then r\<lparr>gr_force_local := True, gr_stage := Waiting\<rparr>
               else r\<lparr>gr_retries := gr_retries r + 1, gr_stage := Waiting\<rparr>) (sy_runs st)\<rparr>)"

definition release :: "nat \<Rightarrow> system \<Rightarrow> system" where
  "release t st =
     (case dict_get (sy_runs st) t of
        Some r \<Rightarrow>
          (case gr_stage r of
             Releasing p key j out \<Rightarrow>
               (let s = sy_sched st;
                    st' = st\<lparr>sy_sched := set_slots p (free_job (jb_id j) (slots_of p s)) s\<rparr>
                in case out of
                     NoResult \<Rightarrow> retry t r st'
                   | _ \<Rightarrow> st'\<lparr>sy_runs := dict_put t (r\<lparr>gr_stage := Finished out\<rparr>) (sy_runs st')\<rparr>)
           | _ \<Rightarrow> st)
      | None \<Rightarrow> st)"

text \<open>A cancellation while waiting leaves through the outer \<open>finally\<close>.\<close>

definition cancel_wait :: "nat \<Rightarrow> system \<Rightarrow> system" where
  "cancel_wait t st =
     (case dict_get (sy_runs st) t of
        Some r \<Rightarrow>
          (if gr_stage r = Waiting
           then st\<lparr>sy_sched := (sy_sched st)\<lparr>hs_waiters := remove1 t (hs_waiters (sy_sched st))\<rparr>,
                   sy_runs := dict_put t (r\<lparr>gr_stage := Finished Raised\<rparr>) (sy_runs st)\<rparr>
           else st)
      | None \<Rightarrow> st)"

section \<open>Steps\<close>

text \<open>\<open>None\<close> is a scheduler that raised an \<open>IndexError\<close>.\<close>

inductive step :: "system option \<Rightarrow> system option \<Rightarrow> bool" where
  step_start: "\<not> dict_has (sy_runs st) t \<Longrightarrow> step (Some st) (Some (start_run t prompt n mt lo st))"
| step_look: "dict_get (sy_runs st) t = Some r \<Longrightarrow> gr_stage r = Waiting \<Longrightarrow> step (Some st) (look ev t r st)"
| step_finish: "step (Some st) (Some (finish_call now t out st))"
| step_release: "step (Some st) (Some (release t st))"
| step_cancel: "step (Some st) (Some (cancel_wait t st))"

inductive_cases stepE: "step (Some st) st'"

definition fresh_system :: "nat \<Rightarrow> nat \<Rightarrow> bool \<Rightarrow> real \<Rightarrow> system" where
  "fresh_system local_engines remote_limit multi alert_seconds =
     \<lparr>sy_sched = new_scheduler local_engines remote_limit multi alert_seconds, sy_runs = []\<rparr>"


section \<open>Slots\<close>

definition jobs :: "slots \<Rightarrow> job list" where
  "jobs sl = map the (busy_slots sl)"

lemma jobs_simps [simp]:
  "jobs [] = []" "jobs (None # sl) = jobs sl" "jobs (Some j # sl) = j # jobs sl" "jobs (a @ b) = jobs a @ jobs b"
  "jobs (replicate n None) = []"
  by (simp_all add: jobs_def busy_slots_def)

lemma jobs_resize [simp]: "jobs (resize c sl) = jobs sl"
  by (simp add: resize_def jobs_def busy_slots_def Let_def)

lemma jobs_assign: "i < length sl \<Longrightarrow> sl ! i = None \<Longrightarrow> mset (jobs (sl[i := Some j])) = add_mset j (mset (jobs sl))"
proof (induction sl arbitrary: i)
  case (Cons x sl)
  then show ?case by (cases i; cases x) auto
qed simp

lemma jobs_free: "j \<in> set (jobs sl) \<Longrightarrow> distinct (map jb_id (jobs sl)) \<Longrightarrow>
    add_mset j (mset (jobs (free_job (jb_id j) sl))) = mset (jobs sl)"
  by (induction "jb_id j" sl rule: free_job.induct) (auto split: if_splits)

lemma free_slots_iff: "i \<in> set (free_slots sl) \<longleftrightarrow> i < length sl \<and> sl ! i = None"
  by (auto simp: free_slots_def)

lemma busy_nil_jobs: "busy_slots sl = [] \<longleftrightarrow> jobs sl = []"
  by (simp add: jobs_def)

text \<open>Everything in a slot, and everything a coroutine believes to hold.\<close>

definition farm_jobs :: "string \<times> slots \<Rightarrow> (pool_ref \<times> job) list" where
  "farm_jobs f = map (Pair (FarmPool (fst f))) (jobs (snd f))"

definition in_slots :: "scheduler \<Rightarrow> (pool_ref \<times> job) list" where
  "in_slots s = map (Pair LocalPool) (jobs (hs_local s)) @ map (Pair RemotePool) (jobs (hs_remote s))
     @ concat (map farm_jobs (hs_pools s))"

definition held_by :: "nat \<times> group_run \<Rightarrow> (pool_ref \<times> job) list" where
  "held_by tr = (case gr_stage (snd tr) of Calling p k j t \<Rightarrow> [(p, j)] | Releasing p k j out \<Rightarrow> [(p, j)] | _ \<Rightarrow> [])"

definition held :: "(nat, group_run) dict \<Rightarrow> (pool_ref \<times> job) list" where
  "held runs = concat (map held_by runs)"

lemma dict_put_mset:
  "mset (concat (map f (dict_put k v d))) + (case dict_get d k of None \<Rightarrow> {#} | Some w \<Rightarrow> mset (f (k, w))) =
   mset (concat (map f d)) + mset (f (k, v))"
  by (induction d) (auto simp: ac_simps)

lemma sync_farm_slots:
  "mset (concat (map farm_jobs (snd (sync_farm f acc)))) = mset (concat (map farm_jobs (snd acc)))"
proof -
  obtain k c el pools where e: "f = (k, c)" "acc = (el, pools)" by (metis surj_pair)
  show ?thesis
    using dict_put_mset [of farm_jobs k "resize c (case dict_get pools k of None \<Rightarrow> [] | Some x \<Rightarrow> x)" pools]
    by (auto simp: e sync_farm_def Let_def farm_jobs_def split: option.splits)
qed

lemma fold_sync_slots:
  "mset (concat (map farm_jobs (snd (fold sync_farm fs acc)))) = mset (concat (map farm_jobs (snd acc)))"
  by (induction fs arbitrary: acc) (simp_all add: sync_farm_slots)

lemma drop_idle: "(\<And>x. x \<in> set d \<Longrightarrow> \<not> P x \<Longrightarrow> f x = []) \<Longrightarrow> concat (map f (filter P d)) = concat (map f d)"
  by (induction d) auto

lemma drop_idle_farms:
  "concat (map farm_jobs (filter (\<lambda>(k, sl). dict_has el k \<or> busy_slots sl \<noteq> []) d)) = concat (map farm_jobs d)"
  by (rule drop_idle) (auto simp: farm_jobs_def busy_nil_jobs)

lemma remote_pools_slots: "mset (in_slots (snd (remote_pools ev s))) = mset (in_slots s)"
  using fold_sync_slots [of "ev_farms ev" "([], hs_pools s)"]
  by (auto simp: remote_pools_def in_slots_def drop_idle_farms split: prod.splits)

text \<open>Changing one list of slots.\<close>

lemma set_slots_mset:
  assumes "slots_of p s \<noteq> []"
  shows "mset (in_slots (set_slots p sl s)) + mset (map (Pair p) (jobs (slots_of p s)))
       = mset (in_slots s) + mset (map (Pair p) (jobs sl))"
proof (cases p)
  case (FarmPool k)
  with assms have "dict_has (hs_pools s) k" by (auto simp: slots_of_def dict_has_def split: option.splits)
  with FarmPool show ?thesis
    using dict_put_mset [of farm_jobs k sl "hs_pools s"]
    by (auto simp: in_slots_def set_slots_def slots_of_def farm_jobs_def dict_has_def)
qed (simp_all add: in_slots_def set_slots_def slots_of_def)

lemma assign_mset:
  assumes "i \<in> set (free_slots (slots_of p s))"
  shows "mset (in_slots (set_slots p ((slots_of p s)[i := Some j]) s)) = add_mset (p, j) (mset (in_slots s))"
proof -
  have i: "i < length (slots_of p s)" "slots_of p s ! i = None" using assms by (simp_all add: free_slots_iff)
  then have "slots_of p s \<noteq> []" by auto
  from set_slots_mset [OF this, of "(slots_of p s)[i := Some j]"] show ?thesis
    by (simp add: mset_map jobs_assign [OF i])
qed

lemma in_slots_slots: "(p, j) \<in> set (in_slots s) \<Longrightarrow> dict_wf (hs_pools s) \<Longrightarrow> j \<in> set (jobs (slots_of p s))"
  by (auto simp: in_slots_def farm_jobs_def slots_of_def dict_get_in)

lemma distinct_slots:
  assumes "distinct (map (jb_id \<circ> snd) (in_slots s))"
  shows "distinct (map jb_id (jobs (slots_of p s)))"
proof -
  have d: "distinct (map jb_id (jobs sl))" if "distinct (map (jb_id \<circ> snd) (map (Pair q) (jobs sl)))" for q :: pool_ref and sl
    using that by (simp add: comp_def)
  show ?thesis
  proof (cases p)
    case (FarmPool k)
    show ?thesis
    proof (cases "dict_get (hs_pools s) k")
      case (Some sl)
      then obtain a b where ab: "hs_pools s = a @ (k, sl) # b" by (metis map_of_SomeD split_list)
      with assms have "distinct (map (jb_id \<circ> snd) (farm_jobs (k, sl)))" by (simp add: in_slots_def)
      with d FarmPool Some show ?thesis by (simp add: slots_of_def farm_jobs_def comp_def)
    qed (simp add: slots_of_def FarmPool)
  qed (use assms in \<open>simp_all add: slots_of_def in_slots_def comp_def\<close>)
qed

lemma free_mset:
  assumes "(p, j) \<in> set (in_slots s)" "dict_wf (hs_pools s)" "distinct (map (jb_id \<circ> snd) (in_slots s))"
  shows "add_mset (p, j) (mset (in_slots (set_slots p (free_job (jb_id j) (slots_of p s)) s))) = mset (in_slots s)"
proof -
  have j: "j \<in> set (jobs (slots_of p s))" by (rule in_slots_slots [OF assms(1,2)])
  then have ne: "slots_of p s \<noteq> []" by auto
  note f = jobs_free [OF j distinct_slots [OF assms(3)]]
  have "mset (in_slots (set_slots p (free_job (jb_id j) (slots_of p s)) s)) + image_mset (Pair p) (mset (jobs (slots_of p s)))
      = mset (in_slots s) + image_mset (Pair p) (mset (jobs (free_job (jb_id j) (slots_of p s))))"
    using set_slots_mset [OF ne, of "free_job (jb_id j) (slots_of p s)"] by (simp add: mset_map)
  then show ?thesis unfolding f [symmetric] by simp
qed

section \<open>What a look finds\<close>

lemma first_min_none: "first_min cs = None \<longleftrightarrow> cs = []"
  by (cases cs) (simp_all split: option.splits)

lemma first_min_ex: "cs \<noteq> [] \<Longrightarrow> \<exists>c. first_min cs = Some c"
  using first_min_none by blast

lemma first_min_some:
  assumes "first_min cs = Some c"
  shows "c \<in> set cs" "\<forall>d\<in>set cs. cc_seconds c \<le> cc_seconds d"
proof -
  have "first_min cs = Some c \<Longrightarrow> c \<in> set cs \<and> (\<forall>d\<in>set cs. cc_seconds c \<le> cc_seconds d)"
  proof (induction cs arbitrary: c)
    case (Cons x cs)
    show ?case
    proof (cases "first_min cs")
      case None
      then show ?thesis using Cons.prems by (simp add: first_min_none)
    next
      case (Some d)
      have "d \<in> set cs" "\<forall>e\<in>set cs. cc_seconds d \<le> cc_seconds e" using Cons.IH [OF Some] by simp_all
      then show ?thesis using Cons.prems Some by (fastforce split: if_splits)
    qed
  qed simp
  with assms show "c \<in> set cs" "\<forall>d\<in>set cs. cc_seconds c \<le> cc_seconds d" by simp_all
qed

lemma length_resize: "int (length (resize c sl)) = max c (int (length (jobs sl)))"
proof -
  have "length (busy_slots sl) \<le> length sl" by (simp add: busy_slots_def)
  then show ?thesis by (simp add: resize_def jobs_def Let_def max_def)
qed

lemma jobs_length: "length sl = length (jobs sl) + length (free_slots sl)"
proof (induction sl rule: rev_induct)
  case (snoc x sl)
  have "filter (\<lambda>i. (sl @ [x]) ! i = None) [0..<length sl] = free_slots sl"
    unfolding free_slots_def by (rule filter_cong) (auto simp: nth_append)
  with snoc show ?case by (cases x) (simp_all add: free_slots_def)
qed (simp add: free_slots_def)

text \<open>Eligible pools are those of the farms, resized to the advertised capacity.\<close>

definition eligible_ok :: "(string \<times> int) list \<Rightarrow> (string, slots) dict \<times> (string, slots) dict \<Rightarrow> bool" where
  "eligible_ok fs acc =
     (dict_wf (fst acc) \<and> dict_wf (snd acc)
      \<and> (\<forall>k sl. dict_get (fst acc) k = Some sl \<longrightarrow>
           dict_get (snd acc) k = Some sl \<and> (\<exists>c. (k, c) \<in> set fs \<and> int (length sl) = max c (int (length (jobs sl))))))"

lemma sync_farm_ok: "eligible_ok fs acc \<Longrightarrow> f \<in> set fs \<Longrightarrow> eligible_ok fs (sync_farm f acc)"
  by (cases f; cases acc) (auto simp: eligible_ok_def sync_farm_def Let_def dict_simps length_resize split: if_splits)

lemma fold_sync_ok: "eligible_ok fs acc \<Longrightarrow> set gs \<subseteq> set fs \<Longrightarrow> eligible_ok fs (fold sync_farm gs acc)"
  by (induction gs arbitrary: acc) (simp_all add: sync_farm_ok)

lemma fold_sync_keys: "fst ` set (fst (fold sync_farm fs acc)) = fst ` set (fst acc) \<union> fst ` set fs"
proof (induction fs arbitrary: acc)
  case (Cons f fs)
  have "fst ` set (fst (sync_farm f acc)) = insert (fst f) (fst ` set (fst acc))"
    by (cases f; cases acc) (auto simp: sync_farm_def Let_def update_conv' simp flip: dom_map_of_conv_image_fst split: if_splits)
  then show ?case by (simp add: Cons)
qed simp

definition same_but_pools :: "scheduler \<Rightarrow> scheduler \<Rightarrow> bool" where
  "same_but_pools s s' = (s' = s\<lparr>hs_pools := hs_pools s'\<rparr>)"

lemma same_but_poolsD:
  assumes "same_but_pools s s'"
  shows "hs_local s' = hs_local s" "hs_remote s' = hs_remote s" "hs_multi s' = hs_multi s" "hs_jobs s' = hs_jobs s"
    "hs_waiters s' = hs_waiters s" "hs_rates s' = hs_rates s" "hs_retries s' = hs_retries s"
    "hs_completed s' = hs_completed s"
  using assms by (cases s; cases s'; simp add: same_but_pools_def)+

lemma remote_pools_same: "same_but_pools s (snd (remote_pools ev s))"
  by (simp add: remote_pools_def same_but_pools_def split: prod.split)

lemma remote_pools_multi:
  assumes "hs_multi s" "dict_wf (hs_pools s)" "remote_pools ev s = (pools, s')"
  shows "dict_wf (hs_pools s')" "fst ` set pools = fst ` set (ev_farms ev)"
    "\<And>k sl. (k, sl) \<in> set pools \<Longrightarrow> dict_get (hs_pools s') k = Some sl \<and>
       (\<exists>c. (k, c) \<in> set (ev_farms ev) \<and> int (length sl) = max c (int (length (jobs sl))))"
proof -
  let ?r = "fold sync_farm (ev_farms ev) ([], hs_pools s)"
  have ok: "eligible_ok (ev_farms ev) ?r" using assms(2) by (intro fold_sync_ok) (simp_all add: eligible_ok_def)
  have e: "pools = fst ?r" "hs_pools s' = filter (\<lambda>(k, sl). dict_has pools k \<or> busy_slots sl \<noteq> []) (snd ?r)"
    using assms(1,3) by (auto simp: remote_pools_def split: prod.splits)
  show wf: "dict_wf (hs_pools s')" using ok by (simp add: e(2) eligible_ok_def dict_wf_def distinct_map_filter)
  show "fst ` set pools = fst ` set (ev_farms ev)" by (simp add: e(1) fold_sync_keys)
  show "dict_get (hs_pools s') k = Some sl \<and>
       (\<exists>c. (k, c) \<in> set (ev_farms ev) \<and> int (length sl) = max c (int (length (jobs sl))))" if "(k, sl) \<in> set pools" for k sl
  proof -
    have g: "dict_get (fst ?r) k = Some sl" using ok that by (simp add: eligible_ok_def e(1) dict_get_in)
    then have s: "(k, sl) \<in> set (snd ?r)" using ok by (auto simp: eligible_ok_def dest: map_of_SomeD)
    have "dict_has pools k" using g by (simp add: dict_has_def e(1))
    with s have "(k, sl) \<in> set (hs_pools s')" by (simp add: e(2))
    then have "dict_get (hs_pools s') k = Some sl" by (rule dict_get_in [OF wf])
    with ok g show ?thesis by (simp add: eligible_ok_def)
  qed
qed

lemma remote_pools_wf: "dict_wf (hs_pools s) \<Longrightarrow> dict_wf (hs_pools (snd (remote_pools ev s)))"
  using remote_pools_multi(1) [of s ev] by (cases "hs_multi s") (auto simp: remote_pools_def split: prod.splits)

lemma local_candidates_iff:
  "c \<in> set (local_candidates s w) \<longleftrightarrow>
     (\<exists>i\<in>set (free_slots (hs_local s)). c = \<lparr>cc_local = True, cc_key = ''local'', cc_slot = i, cc_seconds = seconds s ''local'' w\<rparr>)"
  by (auto simp: local_candidates_def)

lemma remote_candidates_iff:
  "c \<in> set (remote_candidates bounds pools s w) \<longleftrightarrow>
     (\<exists>(k, sl)\<in>set pools. no_later (seconds s k w) bounds \<and>
        (\<exists>i\<in>set (free_slots sl). c = \<lparr>cc_local = False, cc_key = k, cc_slot = i, cc_seconds = seconds s k w\<rparr>))"
  by (auto simp: remote_candidates_def split: if_splits)

lemma choose_slot_frame:
  assumes "choose_slot ev s w lo = (r, s')"
  shows "same_but_pools s s'" "mset (in_slots s') = mset (in_slots s)"
    "dict_wf (hs_pools s) \<Longrightarrow> dict_wf (hs_pools s')"
  using assms remote_pools_same [of s ev] remote_pools_slots [of ev s] remote_pools_wf [of s ev]
  by (auto simp: choose_slot_def Let_def same_but_pools_def split: if_splits prod.splits)

text \<open>A remote pool in the list a look considers.\<close>

lemma pool_slots:
  assumes "dict_wf (hs_pools s)" "remote_pools ev s = (pools, s')" "(k, sl) \<in> set pools"
    "\<not> cc_local c" "cc_key c = k"
  shows "slots_of (pool_ref_of c s') s' = sl"
proof (cases "hs_multi s")
  case True
  moreover have "hs_multi s' = hs_multi s" using same_but_poolsD(3) [OF remote_pools_same [of s ev]] assms(2) by simp
  ultimately show ?thesis
    using remote_pools_multi(3) [OF True assms(1,2,3)] assms(4,5) by (simp add: pool_ref_of_def slots_of_def)
next
  case False
  then show ?thesis using assms by (auto simp: remote_pools_def pool_ref_of_def slots_of_def split: if_splits)
qed

lemma choose_slot_free:
  assumes "choose_slot ev s w lo = (Some c, s')" "dict_wf (hs_pools s)"
  shows "cc_slot c \<in> set (free_slots (slots_of (pool_ref_of c s') s'))"
proof (cases lo)
  case True
  then have "c \<in> set (local_candidates s w)" "s' = s"
    using assms(1) by (auto simp: choose_slot_def Let_def dest: first_min_some(1))
  then show ?thesis by (auto simp: local_candidates_iff pool_ref_of_def slots_of_def)
next
  case False
  obtain pools where p: "remote_pools ev s = (pools, s')"
    using assms(1) False by (auto simp: choose_slot_def Let_def split: prod.splits)
  have l: "hs_local s' = hs_local s" using same_but_poolsD(1) [OF remote_pools_same [of s ev]] p by simp
  have "c \<in> set (local_candidates s w) \<or>
      c \<in> set (remote_candidates (local_finishes (ev_now ev) s w @ map cc_seconds (local_candidates s w)) pools s' w)"
    using assms(1) False p by (auto simp: choose_slot_def Let_def dest: first_min_some(1))
  then show ?thesis
  proof
    assume "c \<in> set (local_candidates s w)"
    then show ?thesis using l by (auto simp: local_candidates_iff pool_ref_of_def slots_of_def)
  next
    assume "c \<in> set (remote_candidates (local_finishes (ev_now ev) s w @ map cc_seconds (local_candidates s w)) pools s' w)"
    then obtain k sl where "(k, sl) \<in> set pools" "cc_slot c \<in> set (free_slots sl)" "\<not> cc_local c" "cc_key c = k"
      by (auto simp: remote_candidates_iff)
    with pool_slots [OF assms(2) p] show ?thesis by simp
  qed
qed

section \<open>The invariant\<close>

definition waiting :: "(nat, group_run) dict \<Rightarrow> nat set" where
  "waiting runs = {t. \<exists>r. dict_get runs t = Some r \<and> gr_stage r = Waiting}"

definition slots_ok :: "nat \<Rightarrow> nat \<Rightarrow> bool \<Rightarrow> scheduler \<Rightarrow> bool" where
  "slots_ok engines limit multi s =
     (length (hs_local s) = engines \<and> length (hs_remote s) = limit \<and> hs_multi s = multi \<and> dict_wf (hs_pools s)
      \<and> distinct (map (jb_id \<circ> snd) (in_slots s)) \<and> (\<forall>(p, j)\<in>set (in_slots s). jb_id j < hs_jobs s))"

definition system_ok :: "nat \<Rightarrow> nat \<Rightarrow> bool \<Rightarrow> system \<Rightarrow> bool" where
  "system_ok engines limit multi st =
     (slots_ok engines limit multi (sy_sched st) \<and> dict_wf (sy_runs st)
      \<and> mset (in_slots (sy_sched st)) = mset (held (sy_runs st))
      \<and> distinct (hs_waiters (sy_sched st)) \<and> set (hs_waiters (sy_sched st)) = waiting (sy_runs st))"

lemma slots_ok_mset:
  assumes "slots_ok e l m s" "mset (in_slots s') = mset (in_slots s)" "hs_jobs s \<le> hs_jobs s'" "dict_wf (hs_pools s')"
    "length (hs_local s') = length (hs_local s)" "length (hs_remote s') = length (hs_remote s)" "hs_multi s' = hs_multi s"
  shows "slots_ok e l m s'"
proof -
  have "mset (map (jb_id \<circ> snd) (in_slots s')) = mset (map (jb_id \<circ> snd) (in_slots s))" using assms(2) by simp
  then have "distinct (map (jb_id \<circ> snd) (in_slots s')) = distinct (map (jb_id \<circ> snd) (in_slots s))" by (rule mset_eq_imp_distinct_iff)
  moreover have "set (in_slots s') = set (in_slots s)" using assms(2) by (rule mset_eq_setD)
  ultimately show ?thesis using assms by (fastforce simp: slots_ok_def)
qed

lemma held_put:
  "mset (held (dict_put t r runs)) + (case dict_get runs t of None \<Rightarrow> {#} | Some q \<Rightarrow> mset (held_by (t, q))) =
   mset (held runs) + mset (held_by (t, r))"
  unfolding held_def by (rule dict_put_mset)

lemma waiting_put:
  "waiting (dict_put t r runs) = (if gr_stage r = Waiting then insert t (waiting runs) else waiting runs - {t})"
  by (auto simp: waiting_def dict_simps)

lemma alert_frame:
  "same_but_pools (s\<lparr>hs_last_alert := hs_last_alert (alert ev s)\<rparr>) (alert ev s)" "mset (in_slots (alert ev s)) = mset (in_slots s)"
  "dict_wf (hs_pools s) \<Longrightarrow> dict_wf (hs_pools (alert ev s))"
proof -
  have i: "in_slots (s\<lparr>hs_last_alert := x\<rparr>) = in_slots s" for x by (simp add: in_slots_def)
  show "mset (in_slots (alert ev s)) = mset (in_slots s)" by (simp add: alert_def remote_pools_slots i)
  show "dict_wf (hs_pools s) \<Longrightarrow> dict_wf (hs_pools (alert ev s))" by (simp add: alert_def remote_pools_wf)
  have "same_but_pools (s\<lparr>hs_last_alert := ev_now ev\<rparr>) (snd (remote_pools ev (s\<lparr>hs_last_alert := ev_now ev\<rparr>)))"
    by (rule remote_pools_same)
  then show "same_but_pools (s\<lparr>hs_last_alert := hs_last_alert (alert ev s)\<rparr>) (alert ev s)"
    by (cases s) (simp add: alert_def same_but_pools_def remote_pools_def split: prod.splits)
qed

lemma in_slots_frame [simp]:
  "in_slots (s\<lparr>hs_jobs := n\<rparr>) = in_slots s" "in_slots (s\<lparr>hs_waiters := ws\<rparr>) = in_slots s"
  "in_slots (s\<lparr>hs_retries := m\<rparr>) = in_slots s" "in_slots (s\<lparr>hs_completed := c\<rparr>) = in_slots s"
  "in_slots (s\<lparr>hs_rates := rt\<rparr>) = in_slots s"
  by (simp_all add: in_slots_def)

lemma slots_ok_frame [simp]:
  "slots_ok e l m (s\<lparr>hs_waiters := ws\<rparr>) = slots_ok e l m s" "slots_ok e l m (s\<lparr>hs_retries := n\<rparr>) = slots_ok e l m s"
  "slots_ok e l m (s\<lparr>hs_completed := c\<rparr>) = slots_ok e l m s" "slots_ok e l m (s\<lparr>hs_rates := rt\<rparr>) = slots_ok e l m s"
  by (simp_all add: slots_ok_def)

lemma start_run_ok:
  assumes "system_ok e l m st" "\<not> dict_has (sy_runs st) t"
  shows "system_ok e l m (start_run t prompt n mt lo st)"
proof -
  have none: "dict_get (sy_runs st) t = None" using assms(2) by (simp add: dict_has_def)
  then have "t \<notin> waiting (sy_runs st)" by (simp add: waiting_def)
  moreover have "mset (held (sy_runs (start_run t prompt n mt lo st))) = mset (held (sy_runs st))"
    using held_put [of t _ "sy_runs st"] none by (simp add: start_run_def held_by_def)
  ultimately show ?thesis using assms(1)
    by (auto simp: system_ok_def start_run_def waiting_put)
qed

lemma set_slots_frame [simp]:
  "hs_multi (set_slots p sl s) = hs_multi s" "hs_jobs (set_slots p sl s) = hs_jobs s"
  "hs_waiters (set_slots p sl s) = hs_waiters s" "hs_retries (set_slots p sl s) = hs_retries s"
  "dict_wf (hs_pools s) \<Longrightarrow> dict_wf (hs_pools (set_slots p sl s))"
  by (auto simp: set_slots_def split: pool_ref.split)

lemma set_slots_length:
  assumes "length sl = length (slots_of p s)"
  shows "length (hs_local (set_slots p sl s)) = length (hs_local s)" "length (hs_remote (set_slots p sl s)) = length (hs_remote s)"
  using assms by (auto simp: set_slots_def slots_of_def split: pool_ref.split)

lemma length_free_job [simp]: "length (free_job i sl) = length sl"
  by (induction i sl rule: free_job.induct) auto

lemma dispatch_group_ok:
  assumes ok: "slots_ok e l m s" "mset (in_slots s) = mset (held (sy_runs st))" "dict_wf (sy_runs st)"
    and w: "hs_waiters s = t # ws" "distinct (hs_waiters s)" "set (hs_waiters s) = waiting (sy_runs st)"
    and r: "dict_get (sy_runs st) t = Some r" "gr_stage r = Waiting"
    and c: "cc_slot c \<in> set (free_slots (slots_of (pool_ref_of c s) s))"
  shows "system_ok e l m (dispatch_group ev t r c s st)"
proof -
  define p where "p = pool_ref_of c s"
  define j where "j = \<lparr>jb_id = hs_jobs s, jb_start = ev_now ev, jb_work = gr_work r\<rparr>"
  define s' where "s' = set_slots p ((slots_of p s)[cc_slot c := Some j]) s"
  have d: "dispatch_group ev t r c s st = st\<lparr>sy_sched := s'\<lparr>hs_jobs := hs_jobs s + 1, hs_waiters := ws\<rparr>,
      sy_runs := dict_put t (r\<lparr>gr_stage := Calling p (cc_key c) j (ev_now ev)\<rparr>) (sy_runs st)\<rparr>"
    by (simp add: dispatch_group_def Let_def w(1) p_def j_def s'_def)
  have ms: "mset (in_slots s') = add_mset (p, j) (mset (in_slots s))"
    unfolding s'_def using c by (intro assign_mset) (simp add: p_def)
  have held: "mset (held (dict_put t (r\<lparr>gr_stage := Calling p (cc_key c) j (ev_now ev)\<rparr>) (sy_runs st))) = mset (in_slots s')"
    using held_put [of t "r\<lparr>gr_stage := Calling p (cc_key c) j (ev_now ev)\<rparr>" "sy_runs st"] r ok(2)
    by (simp add: held_by_def ms)
  have "mset (map (jb_id \<circ> snd) (in_slots s')) = mset (hs_jobs s # map (jb_id \<circ> snd) (in_slots s))"
    by (simp add: ms j_def)
  then have "distinct (map (jb_id \<circ> snd) (in_slots s')) = distinct (hs_jobs s # map (jb_id \<circ> snd) (in_slots s))"
    by (rule mset_eq_imp_distinct_iff)
  moreover have "set (in_slots s') = insert (p, j) (set (in_slots s))" using ms by (metis set_mset_add_mset_insert set_mset_mset)
  ultimately have "slots_ok e l m (s'\<lparr>hs_jobs := hs_jobs s + 1, hs_waiters := ws\<rparr>)"
    using ok(1) by (fastforce simp: slots_ok_def s'_def set_slots_length j_def)
  with held ok w show ?thesis
    by (auto simp: d system_ok_def waiting_put)
qed

lemma look_ok:
  assumes "system_ok e l m st" "dict_get (sy_runs st) t = Some r" "gr_stage r = Waiting"
  shows "\<exists>st'. look ev t r st = Some st' \<and> system_ok e l m st'"
proof -
  let ?s = "sy_sched st"
  have "t \<in> set (hs_waiters ?s)" using assms by (auto simp: system_ok_def waiting_def)
  then obtain w ws where ws: "hs_waiters ?s = w # ws" by (cases "hs_waiters ?s") auto
  show ?thesis
  proof (cases "w = t")
    case False
    then show ?thesis using assms(1) by (simp add: look_def ws)
  next
    case True
    obtain ch s' where ch: "choose_slot ev ?s (gr_work r) (gr_force_local r) = (ch, s')" by force
    note fr = choose_slot_frame [OF ch]
    note sb = same_but_poolsD [OF fr(1)]
    have wf: "dict_wf (hs_pools ?s)" using assms(1) by (simp add: system_ok_def slots_ok_def)
    have ok': "slots_ok e l m s'"
    proof (rule slots_ok_mset [OF _ fr(2) _ fr(3) [OF wf]])
      show "slots_ok e l m ?s" using assms(1) by (simp add: system_ok_def)
    qed (simp_all only: sb order_refl)
    show ?thesis
    proof (cases ch)
      case (Some c)
      have "system_ok e l m (dispatch_group ev t r c s' st)"
        using assms ok' fr(2) ws True sb choose_slot_free [of ev ?s "gr_work r" "gr_force_local r" c s'] ch Some wf
        by (intro dispatch_group_ok) (simp_all add: system_ok_def)
      then show ?thesis using ch Some ws True by (simp add: look_def)
    next
      case None
      define u where "u = (if hs_multi s' \<and> hs_local s' = [] then alert ev s' else s')"
      have frame: "same_but_pools (s'\<lparr>hs_last_alert := hs_last_alert u\<rparr>) u"
        using alert_frame(1) [where s = s' and ev = ev] by (simp add: u_def same_but_pools_def)
      have ms: "mset (in_slots u) = mset (in_slots s')" using alert_frame(2) [where s = s' and ev = ev] by (simp add: u_def)
      have wf': "dict_wf (hs_pools u)" using alert_frame(3) [where s = s' and ev = ev] fr(3) wf by (simp add: u_def)
      note tb = same_but_poolsD [OF frame, simplified]
      have so: "slots_ok e l m u" by (rule slots_ok_mset [OF ok' ms _ wf']) (simp_all only: tb order_refl)
      have "mset (in_slots u) = mset (held (sy_runs st))" "hs_waiters u = hs_waiters ?s"
        using ms fr(2) assms(1) tb(5) sb(5) by (simp_all add: system_ok_def)
      with assms(1) so have "system_ok e l m (st\<lparr>sy_sched := u\<rparr>)" by (simp add: system_ok_def)
      then show ?thesis using ch None ws True by (simp add: look_def u_def)
    qed
  qed
qed

lemma finish_call_ok: "system_ok e l m st \<Longrightarrow> system_ok e l m (finish_call now t out st)"
proof -
  assume ok: "system_ok e l m st"
  show ?thesis
  proof (cases "\<exists>r p k j u. dict_get (sy_runs st) t = Some r \<and> gr_stage r = Calling p k j u")
    case False
    then have "finish_call now t out st = st" by (auto simp: finish_call_def split: option.split stage.split)
    with ok show ?thesis by simp
  next
    case True
    then obtain r p k j u where r: "dict_get (sy_runs st) t = Some r" "gr_stage r = Calling p k j u" by blast
    have "mset (held (dict_put t (r\<lparr>gr_stage := Releasing p k j out\<rparr>) (sy_runs st))) = mset (held (sy_runs st))"
      using held_put [of t "r\<lparr>gr_stage := Releasing p k j out\<rparr>" "sy_runs st"] r by (simp add: held_by_def)
    moreover have "t \<notin> waiting (sy_runs st)" using r by (simp add: waiting_def)
    ultimately show ?thesis using ok r
      by (auto simp: finish_call_def system_ok_def waiting_put record_result_def Let_def split: outcome.split)
  qed
qed

lemma cancel_wait_ok: "system_ok e l m st \<Longrightarrow> system_ok e l m (cancel_wait t st)"
proof -
  assume ok: "system_ok e l m st"
  show ?thesis
  proof (cases "\<exists>r. dict_get (sy_runs st) t = Some r \<and> gr_stage r = Waiting")
    case False
    then have "cancel_wait t st = st" by (auto simp: cancel_wait_def split: option.split)
    with ok show ?thesis by simp
  next
    case True
    then obtain r where r: "dict_get (sy_runs st) t = Some r" "gr_stage r = Waiting" by blast
    have "mset (held (dict_put t (r\<lparr>gr_stage := Finished Raised\<rparr>) (sy_runs st))) = mset (held (sy_runs st))"
      using held_put [of t "r\<lparr>gr_stage := Finished Raised\<rparr>" "sy_runs st"] r by (simp add: held_by_def)
    with ok r show ?thesis by (auto simp: cancel_wait_def system_ok_def waiting_put)
  qed
qed

lemma release_ok: "system_ok e l m st \<Longrightarrow> system_ok e l m (release t st)"
proof -
  assume ok: "system_ok e l m st"
  show ?thesis
  proof (cases "\<exists>r p k j out. dict_get (sy_runs st) t = Some r \<and> gr_stage r = Releasing p k j out")
    case False
    then have "release t st = st" by (auto simp: release_def split: option.split stage.split)
    with ok show ?thesis by simp
  next
    case True
    then obtain r p k j out where r: "dict_get (sy_runs st) t = Some r" "gr_stage r = Releasing p k j out" by blast
    let ?s = "sy_sched st" and ?s' = "set_slots p (free_job (jb_id j) (slots_of p (sy_sched st))) (sy_sched st)"
    have so: "slots_ok e l m ?s" and ms: "mset (in_slots ?s) = mset (held (sy_runs st))" using ok by (simp_all add: system_ok_def)
    have "(t, r) \<in> set (sy_runs st)" using r(1) by (rule map_of_SomeD)
    then have "(p, j) \<in> set (held (sy_runs st))" using r(2) by (force simp: held_def held_by_def)
    then have pj: "(p, j) \<in> set (in_slots ?s)" using mset_eq_setD [OF ms] by simp
    have wf: "dict_wf (hs_pools ?s)" "distinct (map (jb_id \<circ> snd) (in_slots ?s))" using so by (simp_all add: slots_ok_def)
    note fm = free_mset [OF pj wf]
    have "mset (map (jb_id \<circ> snd) (in_slots ?s)) = mset (jb_id j # map (jb_id \<circ> snd) (in_slots ?s'))"
      unfolding mset_map fm [symmetric] by (simp flip: mset_map)
    then have "distinct (jb_id j # map (jb_id \<circ> snd) (in_slots ?s'))"
      using wf(2) mset_eq_imp_distinct_iff by blast
    moreover have "set (in_slots ?s') \<subseteq> set (in_slots ?s)"
      using fm by (metis set_mset_add_mset_insert set_mset_mset subset_insertI)
    ultimately have so': "slots_ok e l m ?s'"
      using so by (fastforce simp: slots_ok_def set_slots_length)
    have put: "mset (in_slots ?s') = mset (held (dict_put t q (sy_runs st)))" if "held_by (t, q) = []" for q
    proof -
      have "add_mset (p, j) (mset (held (dict_put t q (sy_runs st)))) = mset (held (sy_runs st))"
        using held_put [of t q "sy_runs st"] r that by (simp add: held_by_def)
      then have "add_mset (p, j) (mset (in_slots ?s')) = add_mset (p, j) (mset (held (dict_put t q (sy_runs st))))"
        by (simp only: fm ms)
      then show ?thesis by simp
    qed
    have "t \<notin> waiting (sy_runs st)" using r by (simp add: waiting_def)
    then show ?thesis using ok r so' put
      by (cases out) (auto simp: release_def retry_def Let_def system_ok_def waiting_put held_by_def)
  qed
qed

lemma fresh_system_ok: "system_ok e l m (fresh_system e l m a)"
  by (simp add: system_ok_def fresh_system_def new_scheduler_def slots_ok_def in_slots_def held_def waiting_def)

lemma system_ok_step: "step (Some st) st' \<Longrightarrow> system_ok e l m st \<Longrightarrow> \<exists>st''. st' = Some st'' \<and> system_ok e l m st''"
  by (erule stepE) (auto intro: start_run_ok look_ok finish_call_ok release_ok cancel_wait_ok)

lemma system_ok_reachable:
  assumes "step\<^sup>*\<^sup>* (Some st) st'" "system_ok e l m st"
  shows "\<exists>st''. st' = Some st'' \<and> system_ok e l m st''"
  using assms by (induction rule: rtranclp_induct) (auto dest: system_ok_step)

section \<open>Properties\<close>

text \<open>C37: however groups arrive, wait, are called, fail, succeed or are cancelled, and however the set of
  farms changes meanwhile, the scheduler never raises, the waiting groups are exactly the queue, and
  what occupies the slots is exactly what the running groups hold, each job in one slot of the pool its
  group remembers: no engine is given two groups and no slot leaks.\<close>

theorem groups_hold_one_slot:
  assumes "step\<^sup>*\<^sup>* (Some (fresh_system engines limit multi alert_seconds)) st'"
  shows "case st' of
      None \<Rightarrow> False
    | Some st \<Rightarrow>
        mset (in_slots (sy_sched st)) = mset (held (sy_runs st))
        \<and> distinct (map (jb_id \<circ> snd) (in_slots (sy_sched st)))
        \<and> length (hs_local (sy_sched st)) = engines
        \<and> distinct (hs_waiters (sy_sched st))
        \<and> set (hs_waiters (sy_sched st)) = waiting (sy_runs st)"
  using system_ok_reachable [OF assms fresh_system_ok] by (auto simp: system_ok_def slots_ok_def)

text \<open>The choice of a look.\<close>

lemma seconds_same: "same_but_pools s s' \<Longrightarrow> seconds s' k w = seconds s k w"
  using same_but_poolsD(6) [of s s'] by (simp add: seconds_def rate_of_def any_rate_def)

lemma local_bounds:
  assumes "no_later x (local_finishes now s w @ map cc_seconds (local_candidates s w))" "y \<in> set (hs_local s)"
  shows "x \<le> (case y of None \<Rightarrow> seconds s ''local'' w | Some j \<Rightarrow> busy_finish now s w j)"
proof (cases y)
  case None
  with assms(2) obtain i where "i < length (hs_local s)" "hs_local s ! i = None" by (metis in_set_conv_nth)
  then have "seconds s ''local'' w \<in> set (map cc_seconds (local_candidates s w))"
    by (force simp: local_candidates_def free_slots_iff)
  with assms(1) None show ?thesis by (simp add: no_later_def)
next
  case (Some j)
  with assms(2) have "busy_finish now s w j \<in> set (local_finishes now s w)" by (force simp: local_finishes_def)
  with assms(1) Some show ?thesis by (simp add: no_later_def)
qed

lemma remote_choice:
  assumes "choose_slot ev s w lo = (Some c, s')" "\<not> cc_local c" "dict_wf (hs_pools s)"
  shows "\<not> lo" "cc_seconds c = seconds s (cc_key c) w"
    "y \<in> set (hs_local s) \<Longrightarrow>
      seconds s (cc_key c) w \<le> (case y of None \<Rightarrow> seconds s ''local'' w | Some j \<Rightarrow> busy_finish (ev_now ev) s w j)"
    "hs_multi s \<Longrightarrow> \<exists>cap. (cc_key c, cap) \<in> set (ev_farms ev) \<and> int (length (jobs (slots_of (FarmPool (cc_key c)) s'))) < cap"
    "\<not> hs_multi s \<Longrightarrow> ev_ready ev"
proof -
  show lo: "\<not> lo"
    using assms(1,2) by (auto simp: choose_slot_def Let_def local_candidates_iff dest!: first_min_some(1))
  obtain pools where p: "remote_pools ev s = (pools, s')"
    using assms(1) lo by (auto simp: choose_slot_def Let_def split: prod.splits)
  let ?bounds = "local_finishes (ev_now ev) s w @ map cc_seconds (local_candidates s w)"
  have "c \<in> set (remote_candidates ?bounds pools s' w)"
    using assms(1,2) lo p by (auto simp: choose_slot_def Let_def local_candidates_iff dest!: first_min_some(1))
  then obtain k sl i where c: "(k, sl) \<in> set pools" "no_later (seconds s' k w) ?bounds" "i \<in> set (free_slots sl)"
      "c = \<lparr>cc_local = False, cc_key = k, cc_slot = i, cc_seconds = seconds s' k w\<rparr>"
    by (auto simp: remote_candidates_iff)
  have same: "same_but_pools s s'" using remote_pools_same [of s ev] p by simp
  note sec = seconds_same [OF same]
  show "cc_seconds c = seconds s (cc_key c) w" by (simp add: c(4) sec)
  show "seconds s (cc_key c) w \<le> (case y of None \<Rightarrow> seconds s ''local'' w | Some j \<Rightarrow> busy_finish (ev_now ev) s w j)"
    if "y \<in> set (hs_local s)"
    using local_bounds [OF c(2) that] by (simp add: c(4) sec)
  show "\<exists>cap. (cc_key c, cap) \<in> set (ev_farms ev) \<and> int (length (jobs (slots_of (FarmPool (cc_key c)) s'))) < cap" if multi: "hs_multi s"
  proof -
    obtain cap where g: "dict_get (hs_pools s') k = Some sl" "(k, cap) \<in> set (ev_farms ev)"
        "int (length sl) = max cap (int (length (jobs sl)))"
      using remote_pools_multi(3) [OF multi assms(3) p c(1)] by blast
    have "free_slots sl \<noteq> []" using c(3) by auto
    then have "length (jobs sl) < length sl" using jobs_length [of sl] by simp
    with g show ?thesis by (auto simp: c(4) slots_of_def)
  qed
  show "ev_ready ev" if "\<not> hs_multi s" using that c(1) p by (auto simp: remote_pools_def split: if_splits)
qed

text \<open>A group is sent to a remote pool only if it may go there, if the pool is up (one of the current
  farms, with fewer groups on it than it accepts), and if the predicted time there is at most that of
  waiting for and running on any of the local engines, idle or busy.\<close>

theorem remote_only_when_no_slower:
  assumes "step\<^sup>*\<^sup>* (Some (fresh_system engines limit multi alert_seconds)) (Some st)"
    and "dict_get (sy_runs st) t = Some r" "gr_stage r = Waiting"
    and "look ev t r st = Some st'" "dict_get (sy_runs st') t = Some r'" "gr_stage r' = Calling p k j u" "p \<noteq> LocalPool"
  shows "\<not> gr_force_local r
    \<and> (\<forall>y\<in>set (hs_local (sy_sched st)).
         seconds (sy_sched st) k (gr_work r) \<le>
           (case y of None \<Rightarrow> seconds (sy_sched st) ''local'' (gr_work r)
              | Some j \<Rightarrow> busy_finish (ev_now ev) (sy_sched st) (gr_work r) j))
    \<and> (if multi then p = FarmPool k \<and> (\<exists>cap. (k, cap) \<in> set (ev_farms ev) \<and>
              int (length (jobs (slots_of p (sy_sched st')))) \<le> cap)
       else p = RemotePool \<and> ev_ready ev)"
proof -
  let ?s = "sy_sched st"
  have ok: "system_ok engines limit multi st" using system_ok_reachable [OF assms(1) fresh_system_ok] by simp
  then have wf: "dict_wf (hs_pools ?s)" "hs_multi ?s = multi" by (simp_all add: system_ok_def slots_ok_def)
  obtain ws c s' where l: "hs_waiters ?s = t # ws" "choose_slot ev ?s (gr_work r) (gr_force_local r) = (Some c, s')"
      "st' = dispatch_group ev t r c s' st"
    using assms(2-6) by (auto simp: look_def Let_def split: list.splits if_splits option.splits prod.splits)
  have rr: "p = pool_ref_of c s'" "k = cc_key c" "\<not> cc_local c"
    using assms(5-7) by (auto simp: l(3) dispatch_group_def Let_def dict_simps pool_ref_of_def)
  note fr = choose_slot_frame [OF l(2)]
  have m: "hs_multi s' = multi" using same_but_poolsD(3) [OF fr(1)] wf(2) by simp
  note rc = remote_choice [OF l(2) rr(3) wf(1)]
  have "int (length (jobs (slots_of p (sy_sched st')))) \<le> cap"
    if "multi" "int (length (jobs (slots_of (FarmPool k) s'))) < cap" for cap
  proof -
    have p: "p = FarmPool k" using rr m that(1) by (simp add: pool_ref_of_def)
    have free: "cc_slot c < length (slots_of p s')" "slots_of p s' ! cc_slot c = None"
      using choose_slot_free [OF l(2) wf(1)] by (simp_all add: rr(1) free_slots_iff)
    then have "dict_has (hs_pools s') k" by (auto simp: p slots_of_def dict_has_def split: option.splits)
    then have "slots_of p (sy_sched st') = (slots_of p s')[cc_slot c := Some \<lparr>jb_id = hs_jobs s', jb_start = ev_now ev, jb_work = gr_work r\<rparr>]"
      by (simp add: l(3) dispatch_group_def Let_def flip: rr(1)) (simp add: p slots_of_def set_slots_def dict_simps)
    then have "mset (jobs (slots_of p (sy_sched st'))) = add_mset \<lparr>jb_id = hs_jobs s', jb_start = ev_now ev, jb_work = gr_work r\<rparr> (mset (jobs (slots_of p s')))"
      using jobs_assign [OF free] by simp
    then have "length (jobs (slots_of p (sy_sched st'))) = Suc (length (jobs (slots_of p s')))" by (metis size_add_mset size_mset)
    with that(2) p show ?thesis by simp
  qed
  with rc rr m wf(2) show ?thesis by (auto simp: pool_ref_of_def split: if_splits)
qed

lemma pool_share:
  assumes "dict_wf (hs_pools s)"
  shows "size (filter_mset (\<lambda>x. fst x = FarmPool k) (mset (in_slots s))) = length (jobs (slots_of (FarmPool k) s))"
proof -
  have "length (filter (\<lambda>x. fst x = FarmPool k) (concat (map farm_jobs d)))
      = length (jobs (case dict_get d k of None \<Rightarrow> [] | Some sl \<Rightarrow> sl))" if "dict_wf d" for d
    using that
  proof (induction d)
    case (Cons f d)
    show ?case
    proof (cases "fst f = k")
      case True
      then have "dict_get d k = None" using Cons.prems by (simp add: dict_wf_def map_of_eq_None_iff)
      with True Cons show ?thesis by (cases f) (simp add: farm_jobs_def dict_wf_def comp_def filter_True)
    qed (use Cons in \<open>auto simp: farm_jobs_def dict_wf_def comp_def split: prod.splits\<close>)
  qed simp
  from this [OF assms] have "length (filter (\<lambda>x. fst x = FarmPool k) (in_slots s)) = length (jobs (slots_of (FarmPool k) s))"
    by (simp add: in_slots_def slots_of_def comp_def)
  then show ?thesis by (metis mset_filter size_mset)
qed

lemma room_in_farm:
  assumes "hs_multi s" "dict_wf (hs_pools s)" "remote_pools ev s = (pools, s')" "distinct (map fst (ev_farms ev))"
    and "(k, cap) \<in> set (ev_farms ev)" "int (length (jobs (slots_of (FarmPool k) s))) < cap" "(k, sl) \<in> set pools"
  shows "free_slots sl \<noteq> []"
proof -
  obtain c where c: "dict_get (hs_pools s') k = Some sl" "(k, c) \<in> set (ev_farms ev)" "int (length sl) = max c (int (length (jobs sl)))"
    using remote_pools_multi(3) [OF assms(1-3,7)] by blast
  have "c = cap" using c(2) assms(4,5) by (metis eq_key_imp_eq_value)
  have "length (jobs (slots_of (FarmPool k) s')) = length (jobs (slots_of (FarmPool k) s))"
    using pool_share [OF assms(2), of k] pool_share [OF remote_pools_multi(1) [OF assms(1-3)], of k]
      remote_pools_slots [of ev s] assms(3) by simp
  then have "length (jobs sl) < length sl" using c(1,3) assms(6) \<open>c = cap\<close> by (simp add: slots_of_def)
  then show ?thesis using jobs_length [of sl] by auto
qed

text \<open>The head of the queue is served at the first look that finds an idle local engine; without local
  engines, at the first look that finds a farm with room (unless the group must stay local).\<close>

theorem head_of_queue_served:
  assumes "step\<^sup>*\<^sup>* (Some (fresh_system engines limit multi alert_seconds)) (Some st)"
    and "dict_get (sy_runs st) t = Some r" "hs_waiters (sy_sched st) = t # ws"
    and "(\<exists>i<engines. hs_local (sy_sched st) ! i = None) \<or>
      engines = 0 \<and> multi \<and> \<not> gr_force_local r \<and> distinct (map fst (ev_farms ev)) \<and>
      (\<exists>(k, cap)\<in>set (ev_farms ev). int (length (jobs (slots_of (FarmPool k) (sy_sched st)))) < cap)"
  shows "case look ev t r st of
      None \<Rightarrow> False
    | Some st' \<Rightarrow> hs_waiters (sy_sched st') = ws \<and>
        (case dict_get (sy_runs st') t of Some r' \<Rightarrow> (case gr_stage r' of Calling p k j u \<Rightarrow> True | _ \<Rightarrow> False) | None \<Rightarrow> False)"
proof -
  let ?s = "sy_sched st"
  have ok: "system_ok engines limit multi st" using system_ok_reachable [OF assms(1) fresh_system_ok] by simp
  then have wf: "dict_wf (hs_pools ?s)" "hs_multi ?s = multi" "length (hs_local ?s) = engines"
    by (simp_all add: system_ok_def slots_ok_def)
  obtain ch s' where ch: "choose_slot ev ?s (gr_work r) (gr_force_local r) = (ch, s')" by force
  have "ch \<noteq> None"
    using assms(4)
  proof
    assume "\<exists>i<engines. hs_local ?s ! i = None"
    then obtain i where "i \<in> set (free_slots (hs_local ?s))" using wf(3) by (auto simp: free_slots_iff)
    then have "local_candidates ?s (gr_work r) \<noteq> []" by (auto simp: local_candidates_def)
    then show ?thesis using ch by (auto simp: choose_slot_def Let_def split: if_splits prod.splits intro!: first_min_ex)
  next
    assume a: "engines = 0 \<and> multi \<and> \<not> gr_force_local r \<and> distinct (map fst (ev_farms ev)) \<and>
      (\<exists>(k, cap)\<in>set (ev_farms ev). int (length (jobs (slots_of (FarmPool k) ?s))) < cap)"
    then obtain k cap where k: "(k, cap) \<in> set (ev_farms ev)" "int (length (jobs (slots_of (FarmPool k) ?s))) < cap" by blast
    obtain pools where p: "remote_pools ev ?s = (pools, s')" "ch = first_min (local_candidates ?s (gr_work r) @
        remote_candidates (local_finishes (ev_now ev) ?s (gr_work r) @ map cc_seconds (local_candidates ?s (gr_work r))) pools s' (gr_work r))"
      using ch a by (auto simp: choose_slot_def Let_def split: prod.splits)
    have l: "hs_local ?s = []" using a wf(3) by simp
    have "k \<in> fst ` set pools" using remote_pools_multi(2) [OF _ wf(1) p(1)] a wf(2) k(1) by force
    then obtain sl where sl: "(k, sl) \<in> set pools" by force
    have "free_slots sl \<noteq> []" by (rule room_in_farm [OF _ wf(1) p(1) _ k sl]) (use a wf(2) in simp_all)
    then have "remote_candidates (local_finishes (ev_now ev) ?s (gr_work r) @ map cc_seconds (local_candidates ?s (gr_work r))) pools s' (gr_work r) \<noteq> []"
      using sl l by (force simp: remote_candidates_def no_later_def local_finishes_def local_candidates_def free_slots_def [of "[]"])
    then show ?thesis by (simp add: p(2) first_min_none)
  qed
  then obtain c where c: "ch = Some c" by blast
  have "hs_waiters s' = t # ws" using same_but_poolsD(5) [OF choose_slot_frame(1) [OF ch]] assms(3) by simp
  then show ?thesis using assms(3) ch c by (simp add: look_def dispatch_group_def Let_def dict_simps)
qed

text \<open>A group that must stay local stays local.\<close>

definition stays_local :: "nat \<Rightarrow> system \<Rightarrow> bool" where
  "stays_local t st =
     (case dict_get (sy_runs st) t of
        None \<Rightarrow> False
      | Some r \<Rightarrow> gr_force_local r \<and> (case gr_stage r of Calling p k j u \<Rightarrow> p = LocalPool \<and> k = ''local'' | _ \<Rightarrow> True))"

lemma stays_local_put:
  assumes "sy_runs st' = dict_put t' r (sy_runs st)"
  shows "stays_local t st' =
   (if t = t' then gr_force_local r \<and> (case gr_stage r of Calling p k j u \<Rightarrow> p = LocalPool \<and> k = ''local'' | _ \<Rightarrow> True)
    else stays_local t st)"
  by (simp add: stays_local_def dict_simps assms)

lemma stays_local_cong: "sy_runs st' = sy_runs st \<Longrightarrow> stays_local t st' = stays_local t st"
  by (simp add: stays_local_def)

lemma stays_local_forced: "stays_local t st \<Longrightarrow> dict_get (sy_runs st) t = Some r \<Longrightarrow> gr_force_local r"
  by (simp add: stays_local_def)

lemma look_cases:
  assumes "look ev t r st = Some st'"
  obtains "sy_runs st' = sy_runs st"
    | c s' where "choose_slot ev (sy_sched st) (gr_work r) (gr_force_local r) = (Some c, s')" "st' = dispatch_group ev t r c s' st"
proof (cases "hs_waiters (sy_sched st)")
  case Nil
  with assms show ?thesis by (simp add: look_def)
next
  case (Cons w ws)
  show ?thesis
  proof (cases "w = t")
    case False
    with assms Cons that(1) show ?thesis by (simp add: look_def)
  next
    case True
    obtain ch s' where ch: "choose_slot ev (sy_sched st) (gr_work r) (gr_force_local r) = (ch, s')" by force
    show ?thesis
    proof (cases ch)
      case None
      then have "sy_runs st' = sy_runs st" using assms Cons True ch by (auto simp: look_def split: if_splits)
      then show ?thesis by (rule that(1))
    next
      case (Some c)
      then have "st' = dispatch_group ev t r c s' st" using assms Cons True ch by (simp add: look_def)
      with ch Some show ?thesis by (intro that(2)) simp_all
    qed
  qed
qed

lemma stays_local_look:
  assumes "stays_local t st" "dict_get (sy_runs st) t' = Some r" "look ev t' r st = Some st'"
  shows "stays_local t st'"
  using assms(3)
proof (cases rule: look_cases)
  case 1
  show ?thesis using assms(1) stays_local_cong [OF 1] by simp
next
  case c: (2 c s')
  have runs: "sy_runs st' = dict_put t' (r\<lparr>gr_stage := Calling (pool_ref_of c s') (cc_key c)
      \<lparr>jb_id = hs_jobs s', jb_start = ev_now ev, jb_work = gr_work r\<rparr> (ev_now ev)\<rparr>) (sy_runs st)"
    by (simp add: c(2) dispatch_group_def Let_def)
  have "cc_local c \<and> cc_key c = ''local''" if "gr_force_local r"
    using c(1) that by (auto simp: choose_slot_def Let_def local_candidates_iff dest!: first_min_some(1))
  with assms(1,2) stays_local_forced [of t st r] show ?thesis
    by (simp add: stays_local_put [OF runs] pool_ref_of_def)
qed

lemma stays_local_release:
  assumes "stays_local t st"
  shows "stays_local t (release t' st)"
proof (cases "\<exists>r p k j out. dict_get (sy_runs st) t' = Some r \<and> gr_stage r = Releasing p k j out")
  case False
  then have "release t' st = st" by (auto simp: release_def split: option.split stage.split)
  with assms show ?thesis by simp
next
  case True
  then obtain r p k j out where r: "dict_get (sy_runs st) t' = Some r" "gr_stage r = Releasing p k j out" by blast
  then obtain q where q: "sy_runs (release t' st) = dict_put t' q (sy_runs st)" "gr_force_local r \<longrightarrow> gr_force_local q"
      "gr_stage q = Waiting \<or> gr_stage q = Finished out"
    by (cases out) (force simp: release_def retry_def Let_def)+
  then show ?thesis
    using assms stays_local_forced [of t st r] r(1) by (auto simp: stays_local_put [OF q(1)])
qed

lemma stays_local_finish:
  assumes "stays_local t st"
  shows "stays_local t (finish_call now t' out st)"
proof (cases "\<exists>r p k j u. dict_get (sy_runs st) t' = Some r \<and> gr_stage r = Calling p k j u")
  case False
  then have "finish_call now t' out st = st" by (auto simp: finish_call_def split: option.split stage.split)
  with assms show ?thesis by simp
next
  case True
  then obtain r p k j u where r: "dict_get (sy_runs st) t' = Some r" "gr_stage r = Calling p k j u" by blast
  then have q: "sy_runs (finish_call now t' out st) = dict_put t' (r\<lparr>gr_stage := Releasing p k j out\<rparr>) (sy_runs st)"
    by (simp add: finish_call_def)
  show ?thesis using assms stays_local_forced [of t st r] r(1) by (simp add: stays_local_put [OF q])
qed

lemma stays_local_cancel:
  assumes "stays_local t st"
  shows "stays_local t (cancel_wait t' st)"
proof (cases "\<exists>r. dict_get (sy_runs st) t' = Some r \<and> gr_stage r = Waiting")
  case False
  then have "cancel_wait t' st = st" by (auto simp: cancel_wait_def split: option.split)
  with assms show ?thesis by simp
next
  case True
  then obtain r where r: "dict_get (sy_runs st) t' = Some r" "gr_stage r = Waiting" by blast
  then have q: "sy_runs (cancel_wait t' st) = dict_put t' (r\<lparr>gr_stage := Finished Raised\<rparr>) (sy_runs st)"
    by (simp add: cancel_wait_def)
  show ?thesis using assms stays_local_forced [of t st r] r(1) by (simp add: stays_local_put [OF q])
qed

lemma stays_local_start: "stays_local t st \<Longrightarrow> \<not> dict_has (sy_runs st) t' \<Longrightarrow> stays_local t (start_run t' prompt n mt lo st)"
  by (auto simp: start_run_def stays_local_def dict_simps dict_has_def)

lemma stays_local_step: "step (Some st) (Some st') \<Longrightarrow> stays_local t st \<Longrightarrow> stays_local t st'"
  by (erule stepE)
    (auto intro: stays_local_start stays_local_finish stays_local_release stays_local_cancel dest: stays_local_look [OF _ _ sym])

lemma step_alive: "step a b \<Longrightarrow> a \<noteq> None"
  by (erule step.cases) simp_all

lemma stays_local_steps:
  assumes "step\<^sup>*\<^sup>* (Some st) (Some st')" "stays_local t st"
  shows "stays_local t st'"
proof -
  have "step\<^sup>*\<^sup>* (Some st) x \<Longrightarrow> (\<forall>y. x = Some y \<longrightarrow> stays_local t y)" for x
  proof (induction rule: rtranclp_induct)
    case (step y z)
    then obtain y' where y': "y = Some y'" using step_alive by fastforce
    with step show ?case using stays_local_step by blast
  qed (use assms(2) in simp)
  with assms(1) show ?thesis by blast
qed

text \<open>A group whose call brought no result goes back to the head of the queue, and where there are
  local engines (or in the mode with a single remote pool) it never runs remotely again.\<close>

theorem failed_group_stays_local:
  assumes "step\<^sup>*\<^sup>* (Some (fresh_system engines limit multi alert_seconds)) (Some st)" "0 < engines \<or> \<not> multi"
    and "dict_get (sy_runs st) t = Some r" "gr_stage r = Releasing p k j NoResult"
    and "step\<^sup>*\<^sup>* (Some (release t st)) (Some st')" "dict_get (sy_runs st') t = Some r'" "gr_stage r' = Calling p' k' j' u"
  shows "p' = LocalPool \<and> k' = ''local''"
proof -
  have ok: "system_ok engines limit multi st" using system_ok_reachable [OF assms(1) fresh_system_ok] by simp
  then have "hs_local (sy_sched st) \<noteq> [] \<or> \<not> hs_multi (sy_sched st)" using assms(2) by (auto simp: system_ok_def slots_ok_def)
  moreover have "hs_local (set_slots p (free_job (jb_id j) (slots_of p (sy_sched st))) (sy_sched st)) \<noteq> []"
    if "hs_local (sy_sched st) \<noteq> []"
    using that set_slots_length(1) [of "free_job (jb_id j) (slots_of p (sy_sched st))" p "sy_sched st"] by force
  ultimately have runs: "sy_runs (release t st) = dict_put t (r\<lparr>gr_force_local := True, gr_stage := Waiting\<rparr>) (sy_runs st)"
    using assms(3,4) by (auto simp: release_def retry_def Let_def)
  have "stays_local t (release t st)" by (simp add: stays_local_put [OF runs])
  from stays_local_steps [OF assms(5) this] assms(6,7) show ?thesis by (simp add: stays_local_def)
qed

section \<open>Examples\<close>

text \<open>One engine and one borrowed pool: the first group runs locally, the second remotely and fails, returns
  to the queue and runs on the engine once that is free.\<close>

definition ex_env :: "real \<Rightarrow> environment" where
  "ex_env now = \<lparr>ev_now = now, ev_ready = True, ev_farms = []\<rparr>"

definition ex_look :: "real \<Rightarrow> nat \<Rightarrow> system \<Rightarrow> system" where
  "ex_look now t st =
     (case dict_get (sy_runs st) t of
        None \<Rightarrow> st
      | Some r \<Rightarrow> (case look (ex_env now) t r st of None \<Rightarrow> st | Some st' \<Rightarrow> st'))"

definition ex_start :: "nat \<Rightarrow> system \<Rightarrow> system" where
  "ex_start t st = start_run t 10 1 5 False st"

definition ex_queued :: system where
  "ex_queued = ex_start 2 (ex_look 0 1 (ex_start 1 (fresh_system 1 1 False 60)))"

definition ex_failed :: system where
  "ex_failed = finish_call 3 2 NoResult (ex_look 1 2 ex_queued)"

definition ex_requeued :: system where
  "ex_requeued = ex_look 5 2 (release 1 (finish_call 4 1 (Returned [5]) (release 2 ex_failed)))"

definition is_waiting :: "nat \<Rightarrow> system \<Rightarrow> bool" where
  "is_waiting t st = (case dict_get (sy_runs st) t of None \<Rightarrow> False | Some r \<Rightarrow> gr_stage r = Waiting)"

lemma ex_start_step: "\<not> dict_has (sy_runs st) t \<Longrightarrow> step (Some st) (Some (ex_start t st))"
  unfolding ex_start_def by (rule step_start)

lemma ex_look_step:
  assumes "is_waiting t st" "hs_waiters (sy_sched st) \<noteq> []"
  shows "step (Some st) (Some (ex_look now t st))"
proof -
  obtain r where r: "dict_get (sy_runs st) t = Some r" "gr_stage r = Waiting"
    using assms(1) by (auto simp: is_waiting_def split: option.splits)
  have "look (ex_env now) t r st \<noteq> None" using assms(2) by (auto simp: look_def Let_def split: list.splits prod.splits option.splits)
  then have "Some (ex_look now t st) = look (ex_env now) t r st" using r(1) by (auto simp: ex_look_def)
  with step_look [OF r] show ?thesis by metis
qed

lemma ex_queued_reachable: "step\<^sup>*\<^sup>* (Some (fresh_system 1 1 False 60)) (Some ex_queued)"
proof -
  let ?a = "ex_start 1 (fresh_system 1 1 False 60)"
  have "step\<^sup>*\<^sup>* (Some (fresh_system 1 1 False 60)) (Some ?a)" by (rule r_into_rtranclp, rule ex_start_step) code_simp
  also have "step\<^sup>*\<^sup>* (Some ?a) (Some (ex_look 0 1 ?a))" by (rule r_into_rtranclp, rule ex_look_step) code_simp+
  also have "step\<^sup>*\<^sup>* (Some (ex_look 0 1 ?a)) (Some ex_queued)" unfolding ex_queued_def by (rule r_into_rtranclp, rule ex_start_step) code_simp
  finally show ?thesis by simp
qed

lemma ex_failed_reachable: "step\<^sup>*\<^sup>* (Some (fresh_system 1 1 False 60)) (Some ex_failed)"
proof -
  have "step (Some ex_queued) (Some (ex_look 1 2 ex_queued))" by (rule ex_look_step) code_simp+
  moreover have "step (Some (ex_look 1 2 ex_queued)) (Some ex_failed)" unfolding ex_failed_def by (rule step_finish)
  ultimately show ?thesis using ex_queued_reachable by (meson rtranclp.rtrancl_into_rtrancl)
qed

lemma ex_requeued_reachable: "step\<^sup>*\<^sup>* (Some (release 2 ex_failed)) (Some ex_requeued)"
proof -
  let ?b = "finish_call 4 1 (Returned [5]) (release 2 ex_failed)"
  have "step\<^sup>*\<^sup>* (Some (release 2 ex_failed)) (Some ?b)" by (rule r_into_rtranclp, rule step_finish)
  also have "step\<^sup>*\<^sup>* (Some ?b) (Some (release 1 ?b))" by (rule r_into_rtranclp, rule step_release)
  also have "step\<^sup>*\<^sup>* (Some (release 1 ?b)) (Some ex_requeued)" unfolding ex_requeued_def by (rule r_into_rtranclp, rule ex_look_step) code_simp+
  finally show ?thesis by simp
qed

theorem groups_hold_one_slot_witness:
  "mset (in_slots (sy_sched ex_failed)) = mset (held (sy_runs ex_failed)) \<and> length (held (sy_runs ex_failed)) = 2"
proof -
  have "length (held (sy_runs ex_failed)) = 2" by code_simp
  with groups_hold_one_slot [OF ex_failed_reachable] show ?thesis by simp
qed

text \<open>The second group, just before it is sent away.\<close>

definition ex_group :: group_run where
  "ex_group = \<lparr>gr_prompt = 10, gr_n = 1, gr_work = 15, gr_force_local = False, gr_retries = 0, gr_stage = Waiting\<rparr>"

definition ex_job :: job where
  "ex_job = \<lparr>jb_id = 1, jb_start = 1, jb_work = 15\<rparr>"

lemma ex_group_sent:
  "dict_get (sy_runs ex_queued) 2 = Some ex_group" "gr_stage ex_group = Waiting"
  "dict_get (sy_runs (ex_look 1 2 ex_queued)) 2 = Some (ex_group\<lparr>gr_stage := Calling RemotePool ''remote'' ex_job 1\<rparr>)"
  by code_simp+

theorem remote_only_when_no_slower_witness:
  "seconds (sy_sched ex_queued) ''remote'' 15 \<le> busy_finish 1 (sy_sched ex_queued) 15 \<lparr>jb_id = 0, jb_start = 0, jb_work = 15\<rparr>"
proof -
  have l: "look (ex_env 1) 2 ex_group ex_queued = Some (ex_look 1 2 ex_queued)"
    using ex_group_sent(1) by (simp add: ex_look_def) code_simp
  have "Some \<lparr>jb_id = 0, jb_start = 0, jb_work = 15\<rparr> \<in> set (hs_local (sy_sched ex_queued))" by code_simp
  with remote_only_when_no_slower [OF ex_queued_reachable ex_group_sent(1,2) l ex_group_sent(3)] show ?thesis
    by (fastforce simp: ex_group_def ex_env_def)
qed

theorem head_of_queue_served_witness:
  "case look (ex_env 0) 1 ex_group (ex_start 1 (fresh_system 1 1 False 60)) of
     None \<Rightarrow> False | Some st \<Rightarrow> hs_waiters (sy_sched st) = []"
proof -
  have "step\<^sup>*\<^sup>* (Some (fresh_system 1 1 False 60)) (Some (ex_start 1 (fresh_system 1 1 False 60)))"
    by (rule r_into_rtranclp, rule ex_start_step) code_simp
  moreover have "dict_get (sy_runs (ex_start 1 (fresh_system 1 1 False 60))) 1 = Some ex_group"
    "hs_waiters (sy_sched (ex_start 1 (fresh_system 1 1 False 60))) = [1]"
    "hs_local (sy_sched (ex_start 1 (fresh_system 1 1 False 60))) ! 0 = None" by code_simp+
  ultimately show ?thesis
    using head_of_queue_served [of 1 1 False 60 "ex_start 1 (fresh_system 1 1 False 60)" 1 ex_group "[]" "ex_env 0"]
    by (auto split: option.splits)
qed

theorem failed_group_stays_local_witness:
  "case dict_get (sy_runs ex_requeued) 2 of
     None \<Rightarrow> False | Some r \<Rightarrow> (case gr_stage r of Calling p k j u \<Rightarrow> p = LocalPool | _ \<Rightarrow> False)"
proof -
  obtain r where r: "dict_get (sy_runs ex_failed) 2 = Some r" "gr_stage r = Releasing RemotePool ''remote'' ex_job NoResult"
  proof
    show "dict_get (sy_runs ex_failed) 2 = Some (ex_group\<lparr>gr_stage := Releasing RemotePool ''remote'' ex_job NoResult\<rparr>)" by code_simp
  qed simp
  obtain r' p j u where r': "dict_get (sy_runs ex_requeued) 2 = Some r'" "gr_stage r' = Calling p ''local'' j u"
  proof
    show "dict_get (sy_runs ex_requeued) 2 = Some (ex_group\<lparr>gr_force_local := True,
        gr_stage := Calling LocalPool ''local'' \<lparr>jb_id = 2, jb_start = 5, jb_work = 15\<rparr> 5\<rparr>)" by code_simp
  qed simp
  from failed_group_stays_local [OF ex_failed_reachable _ r ex_requeued_reachable r'] r' show ?thesis by simp
qed

end
