(* ===== verification/Rate_Limiter.thy ===== *)
theory Rate_Limiter
  imports Prelude
begin

text \<open>
  The rate and concurrency limiter of trajectory submission, \<^verbatim>\<open>skyrl/train/utils/rate_limiter.py\<close>: a
  token bucket in front of a semaphore.  The clock is an argument of every operation that reads it.  The
  body of the loop of \<open>_acquire_rate_token\<close> runs under the rate lock, so one look at the bucket is one
  step; the permits are those of the semaphore of the standard library.
\<close>

section \<open>Configuration\<close>

record limiter_config =
  lc_enabled :: bool
  lc_rate :: "real option"
  lc_max_concurrency :: "int option"

definition validate_limits :: "real option \<Rightarrow> int option \<Rightarrow> (string, unit) result" where
  "validate_limits rate conc =
     (if (case rate of None \<Rightarrow> False | Some r \<Rightarrow> r < 1) then Inl ''rate must be >= 1.0''
      else if (case conc of None \<Rightarrow> False | Some c \<Rightarrow> c < 1) then Inl ''max_concurrency must be >= 1''
      else Inr ())"

text \<open>A configuration given as a mapping; missing keys have the defaults of the data class.\<close>

record limiter_mapping =
  lm_enabled :: "bool option"
  lm_rate :: "real option"
  lm_max_concurrency :: "int option"

datatype limiter_source = NoConfig | FromMapping limiter_mapping | FromConfig limiter_config

definition config_of_mapping :: "limiter_mapping \<Rightarrow> (string, limiter_config) result" where
  "config_of_mapping m =
     (case validate_limits (lm_rate m) (lm_max_concurrency m) of
        Inl e \<Rightarrow> Inl e
      | Inr _ \<Rightarrow> Inr \<lparr>lc_enabled = (case lm_enabled m of None \<Rightarrow> False | Some b \<Rightarrow> b),
                      lc_rate = lm_rate m, lc_max_concurrency = lm_max_concurrency m\<rparr>)"

section \<open>The limiter\<close>

record bucket =
  bk_rate :: real
  bk_max :: real
  bk_tokens :: real
  bk_last :: real

record limiter =
  li_bucket :: "bucket option"
  li_max_concurrency :: "int option"
  li_permits :: int

definition new_limiter :: "real option \<Rightarrow> int option \<Rightarrow> real \<Rightarrow> (string, limiter) result" where
  "new_limiter rate conc now =
     (case validate_limits rate conc of
        Inl e \<Rightarrow> Inl e
      | Inr _ \<Rightarrow> Inr \<lparr>li_bucket = map_option (\<lambda>r. \<lparr>bk_rate = r, bk_max = r, bk_tokens = r, bk_last = now\<rparr>) rate,
                      li_max_concurrency = conc, li_permits = (case conc of None \<Rightarrow> 0 | Some c \<Rightarrow> c)\<rparr>)"

definition no_op :: limiter where
  "no_op = \<lparr>li_bucket = None, li_max_concurrency = None, li_permits = 0\<rparr>"

text \<open>\<open>create_rate_limiter\<close>; the limiter without limits behaves as the \<open>NoOpRateLimiter\<close>.\<close>

definition limiter_of_config :: "limiter_config \<Rightarrow> real \<Rightarrow> (string, limiter) result" where
  "limiter_of_config cfg now =
     (if \<not> lc_enabled cfg then Inr no_op
      else if lc_rate cfg = None \<and> lc_max_concurrency cfg = None then Inr no_op
      else new_limiter (lc_rate cfg) (lc_max_concurrency cfg) now)"

definition create_rate_limiter :: "limiter_source \<Rightarrow> real \<Rightarrow> (string, limiter) result" where
  "create_rate_limiter src now =
     (case src of
        NoConfig \<Rightarrow> Inr no_op
      | FromMapping m \<Rightarrow> (case config_of_mapping m of Inl e \<Rightarrow> Inl e | Inr cfg \<Rightarrow> limiter_of_config cfg now)
      | FromConfig cfg \<Rightarrow> limiter_of_config cfg now)"

definition refill :: "real \<Rightarrow> bucket \<Rightarrow> bucket" where
  "refill now b = b\<lparr>bk_tokens := min (bk_max b) (bk_tokens b + (now - bk_last b) * bk_rate b), bk_last := now\<rparr>"

text \<open>One look at the bucket: a token, or how long to sleep.\<close>

definition take_token :: "real \<Rightarrow> bucket \<Rightarrow> real option \<times> bucket" where
  "take_token now b =
     (let b' = refill now b
      in if bk_tokens b' \<ge> 1 then (None, b'\<lparr>bk_tokens := bk_tokens b' - 1\<rparr>)
         else (Some ((1 - bk_tokens b') / bk_rate b'), b'))"

definition sem_release :: "limiter \<Rightarrow> limiter" where
  "sem_release l = (if li_max_concurrency l = None then l else l\<lparr>li_permits := li_permits l + 1\<rparr>)"

definition sem_acquire :: "limiter \<Rightarrow> limiter option" where
  "sem_acquire l =
     (if li_max_concurrency l = None then Some l
      else if li_permits l > 0 then Some (l\<lparr>li_permits := li_permits l - 1\<rparr>) else None)"

text \<open>A sequence of looks, by whichever callers: which of them got a token.\<close>

fun looks :: "real list \<Rightarrow> bucket \<Rightarrow> bool list \<times> bucket" where
  "looks [] b = ([], b)"
| "looks (t # ts) b =
     (case take_token t b of (w, b') \<Rightarrow> (case looks ts b' of (rs, b'') \<Rightarrow> ((w = None) # rs, b'')))"

section \<open>Callers\<close>

text \<open>The life of an \<open>async with\<close>: before and in the rate loop, asleep until a time, with a token and at the
  semaphore, in the body, out.\<close>

datatype caller = Arriving | Asleep real | AtSemaphore | Inside | Gone

record gate =
  ga_limiter :: limiter
  ga_callers :: "caller list"
  ga_now :: real

definition set_caller :: "nat \<Rightarrow> caller \<Rightarrow> gate \<Rightarrow> gate" where
  "set_caller i c g = g\<lparr>ga_callers := (ga_callers g)[i := c]\<rparr>"

definition look_at_bucket :: "nat \<Rightarrow> gate \<Rightarrow> gate" where
  "look_at_bucket i g =
     (case li_bucket (ga_limiter g) of
        None \<Rightarrow> set_caller i AtSemaphore g
      | Some b \<Rightarrow>
          (case take_token (ga_now g) b of
             (w, b') \<Rightarrow>
               set_caller i (case w of None \<Rightarrow> AtSemaphore | Some d \<Rightarrow> Asleep (ga_now g + d))
                 (g\<lparr>ga_limiter := (ga_limiter g)\<lparr>li_bucket := Some b'\<rparr>\<rparr>)))"

inductive gate_step :: "gate \<Rightarrow> gate \<Rightarrow> bool" where
  gate_time: "ga_now g \<le> now \<Longrightarrow> gate_step g (g\<lparr>ga_now := now\<rparr>)"
| gate_arrive: "gate_step g (g\<lparr>ga_callers := ga_callers g @ [Arriving]\<rparr>)"
| gate_look: "i < length (ga_callers g) \<Longrightarrow>
    ga_callers g ! i = Arriving \<or> (\<exists>d. ga_callers g ! i = Asleep d \<and> d \<le> ga_now g) \<Longrightarrow> gate_step g (look_at_bucket i g)"
| gate_enter: "i < length (ga_callers g) \<Longrightarrow> ga_callers g ! i = AtSemaphore \<Longrightarrow> sem_acquire (ga_limiter g) = Some l \<Longrightarrow>
    gate_step g (set_caller i Inside (g\<lparr>ga_limiter := l\<rparr>))"
| gate_leave: "i < length (ga_callers g) \<Longrightarrow> ga_callers g ! i = Inside \<Longrightarrow>
    gate_step g (set_caller i Gone (g\<lparr>ga_limiter := sem_release (ga_limiter g)\<rparr>))"

inductive_cases gate_stepE: "gate_step g g'"

definition fresh_gate :: "limiter \<Rightarrow> real \<Rightarrow> gate" where
  "fresh_gate l now = \<lparr>ga_limiter = l, ga_callers = [], ga_now = now\<rparr>"

definition inside :: "gate \<Rightarrow> nat" where
  "inside g = count_list (ga_callers g) Inside"

section \<open>The bucket\<close>

definition bucket_ok :: "bucket \<Rightarrow> bool" where
  "bucket_ok b = (bk_rate b \<ge> 1 \<and> bk_max b = bk_rate b \<and> 0 \<le> bk_tokens b \<and> bk_tokens b \<le> bk_max b)"

lemma take_token_bucket:
  assumes "bucket_ok b" "bk_last b \<le> now"
  shows "bucket_ok (snd (take_token now b))" "bk_last (snd (take_token now b)) = now"
    "bk_rate (snd (take_token now b)) = bk_rate b"
    "bk_tokens (snd (take_token now b)) + of_bool (fst (take_token now b) = None)
       = min (bk_rate b) (bk_tokens b + (now - bk_last b) * bk_rate b)"
proof -
  have "0 \<le> (now - bk_last b) * bk_rate b" using assms by (simp add: bucket_ok_def)
  then have "0 \<le> min (bk_rate b) (bk_tokens b + (now - bk_last b) * bk_rate b)" using assms by (simp add: bucket_ok_def)
  with assms show "bucket_ok (snd (take_token now b))" "bk_last (snd (take_token now b)) = now"
    "bk_rate (snd (take_token now b)) = bk_rate b"
    "bk_tokens (snd (take_token now b)) + of_bool (fst (take_token now b) = None)
       = min (bk_rate b) (bk_tokens b + (now - bk_last b) * bk_rate b)"
    by (auto simp: take_token_def refill_def bucket_ok_def Let_def min_def)
qed

lemma looks_Cons:
  "looks (t # ts) b = ((fst (take_token t b) = None) # fst (looks ts (snd (take_token t b))), snd (looks ts (snd (take_token t b))))"
  by (simp split: prod.split)

declare looks.simps(2) [simp del]

text \<open>The tokens taken in a window, against what was there and what flowed in.\<close>

lemma looks_budget:
  assumes "bucket_ok b" "sorted (bk_last b # ts)"
  shows "real (count_list (fst (looks ts b)) True) + bk_tokens (snd (looks ts b))
           \<le> bk_tokens b + (last (bk_last b # ts) - bk_last b) * bk_rate b
    \<and> bucket_ok (snd (looks ts b)) \<and> bk_last (snd (looks ts b)) = last (bk_last b # ts) \<and> bk_rate (snd (looks ts b)) = bk_rate b"
  using assms
proof (induction ts arbitrary: b)
  case (Cons t ts)
  let ?b = "snd (take_token t b)"
  have t: "bk_last b \<le> t" using Cons.prems(2) by simp
  note tk = take_token_bucket [OF Cons.prems(1) t]
  have IH: "real (count_list (fst (looks ts ?b)) True) + bk_tokens (snd (looks ts ?b))
      \<le> bk_tokens ?b + (last (t # ts) - t) * bk_rate b
    \<and> bucket_ok (snd (looks ts ?b)) \<and> bk_last (snd (looks ts ?b)) = last (t # ts) \<and> bk_rate (snd (looks ts ?b)) = bk_rate b"
    using Cons.IH [OF tk(1)] Cons.prems(2) by (simp add: tk)
  have "bk_tokens ?b + of_bool (fst (take_token t b) = None) \<le> bk_tokens b + (t - bk_last b) * bk_rate b"
    using tk(4) by simp
  moreover have "(last (t # ts) - t) * bk_rate b + (t - bk_last b) * bk_rate b = (last (bk_last b # t # ts) - bk_last b) * bk_rate b"
    by (simp add: algebra_simps)
  ultimately show ?case using IH by (auto simp: looks_Cons)
qed simp

text \<open>Without a success the bucket just fills.\<close>

lemma looks_refused:
  assumes "bucket_ok b" "sorted (bk_last b # ts)" "True \<notin> set (fst (looks ts b))"
  shows "bk_tokens (snd (looks ts b)) = min (bk_rate b) (bk_tokens b + (last (bk_last b # ts) - bk_last b) * bk_rate b)
    \<and> (ts \<noteq> [] \<longrightarrow> bk_tokens (snd (looks ts b)) < 1)"
  using assms
proof (induction ts arbitrary: b)
  case Nil
  then show ?case by (simp add: bucket_ok_def)
next
  case (Cons t ts)
  let ?b = "snd (take_token t b)"
  have t: "bk_last b \<le> t" using Cons.prems(2) by simp
  note tk = take_token_bucket [OF Cons.prems(1) t]
  note l = looks_Cons [of t ts b]
  then have r: "fst (take_token t b) \<noteq> None" "True \<notin> set (fst (looks ts ?b))" using Cons.prems(3) by auto
  have IH: "bk_tokens (snd (looks ts ?b)) = min (bk_rate b) (bk_tokens ?b + (last (t # ts) - t) * bk_rate b)
    \<and> (ts \<noteq> [] \<longrightarrow> bk_tokens (snd (looks ts ?b)) < 1)"
  proof -
    have "sorted (bk_last ?b # ts)" using Cons.prems(2) by (simp add: tk(2))
    from Cons.IH [OF tk(1) this r(2)] show ?thesis unfolding tk(2,3) .
  qed
  have lt: "bk_tokens ?b < 1" using r(1) by (auto simp: take_token_def Let_def split: if_splits)
  have tok: "bk_tokens ?b = min (bk_rate b) (bk_tokens b + (t - bk_last b) * bk_rate b)" using tk(4) r(1) by simp
  then have "bk_tokens ?b = bk_tokens b + (t - bk_last b) * bk_rate b"
    using lt Cons.prems(1) by (simp add: bucket_ok_def min_def split: if_splits)
  moreover have "(t - bk_last b) * bk_rate b + (last (t # ts) - t) * bk_rate b = (last (bk_last b # t # ts) - bk_last b) * bk_rate b"
    by (simp add: algebra_simps)
  ultimately have "bk_tokens ?b + (last (t # ts) - t) * bk_rate b = bk_tokens b + (last (bk_last b # t # ts) - bk_last b) * bk_rate b"
    by simp
  with IH have "bk_tokens (snd (looks ts ?b)) = min (bk_rate b) (bk_tokens b + (last (bk_last b # t # ts) - bk_last b) * bk_rate b)"
    by simp
  moreover have "bk_tokens (snd (looks ts ?b)) < 1"
  proof (cases "ts = []")
    case True
    with lt show ?thesis by simp
  next
    case False
    then show ?thesis using IH by blast
  qed
  ultimately show ?case by (simp add: l)
qed

lemma looks_append:
  "fst (looks (ts @ us) b) = fst (looks ts b) @ fst (looks us (snd (looks ts b)))"
  by (induction ts arbitrary: b) (simp_all add: looks_Cons)

lemma looks_length: "length (fst (looks ts b)) = length ts"
  by (induction ts arbitrary: b) (simp_all add: looks_Cons)

lemma new_limiter_bucket:
  assumes "new_limiter (Some r) conc now = Inr l" "li_bucket l = Some b"
  shows "bucket_ok b" "bk_rate b = r" "bk_last b = now" "bk_tokens b = r"
  using assms by (auto simp: new_limiter_def validate_limits_def bucket_ok_def split: if_splits sum.splits)

section \<open>Properties\<close>

text \<open>In any window of time, whatever happened before it and however many callers look at the bucket
  whenever they wake up, at most the rate times the length of the window, plus one full bucket, get
  through.\<close>

theorem rate_respected_in_every_window:
  assumes "new_limiter (Some r) conc now = Inr l" "li_bucket l = Some b" "sorted (now # before @ t # window)"
  shows "real (count_list (drop (length before) (fst (looks (before @ t # window) b))) True) \<le> r * (last (t # window) - t) + r"
proof -
  note nb = new_limiter_bucket [OF assms(1,2)]
  let ?c = "snd (looks before b)"
  have c: "bucket_ok ?c" "bk_last ?c = last (now # before)" "bk_rate ?c = r"
    using looks_budget [OF nb(1), of before] assms(3) nb(2,3) by (simp_all add: sorted_append)
  have le: "bk_last ?c \<le> t" using assms(3) c(2) by (auto simp: sorted_append)
  let ?d = "snd (take_token t ?c)"
  note tk = take_token_bucket [OF c(1) le]
  define e where "e = last (t # window)"
  have "real (count_list (fst (looks window ?d)) True) + bk_tokens (snd (looks window ?d)) \<le> bk_tokens ?d + (e - t) * r"
    "0 \<le> bk_tokens (snd (looks window ?d))"
    using looks_budget [OF tk(1), of window] assms(3) tk(2,3) c(3)
    by (simp_all add: sorted_append bucket_ok_def e_def)
  moreover have "bk_tokens ?d + of_bool (fst (take_token t ?c) = None) \<le> r" using tk(4) c(3) by simp
  moreover have "drop (length before) (fst (looks (before @ t # window) b)) = (fst (take_token t ?c) = None) # fst (looks window ?d)"
    by (simp add: looks_append looks_Cons looks_length)
  ultimately show ?thesis
    unfolding e_def [symmetric] by (cases "fst (take_token t ?c) = None") (simp_all add: mult.commute)
qed

text \<open>Nobody waits for nothing.  A caller without a token sleeps for at most the time one token takes,
  and when it looks again it gets one, unless another caller got one in between.\<close>

theorem sleeping_caller_progress:
  assumes "new_limiter (Some r) conc start = Inr l" "li_bucket l = Some b0" "sorted (start # before @ [now])"
    and "take_token now (snd (looks before b0)) = (Some d, b)" "sorted (now # ts)" "ts \<noteq> []" "now + d \<le> last ts"
  shows "0 < d \<and> d \<le> 1 / r \<and> True \<in> set (fst (looks ts b))"
proof -
  note nb = new_limiter_bucket [OF assms(1,2)]
  let ?c = "snd (looks before b0)"
  have c: "bucket_ok ?c" "bk_last ?c = last (start # before)" "bk_rate ?c = r"
    using looks_budget [OF nb(1), of before] assms(3) nb(2,3) by (simp_all add: sorted_append)
  have le: "bk_last ?c \<le> now" using assms(3) c(2) by (auto simp: sorted_append)
  have b: "bucket_ok b" "bk_last b = now" "bk_rate b = r" using take_token_bucket [OF c(1) le] assms(4) c(3) by simp_all
  have r: "1 \<le> r" using b(1,3) by (simp add: bucket_ok_def)
  have d: "d = (1 - bk_tokens b) / r" "bk_tokens b < 1"
    using assms(4) c(3) by (auto simp: take_token_def refill_def Let_def split: if_splits)
  have "0 \<le> bk_tokens b" using b(1) by (simp add: bucket_ok_def)
  then have "0 < d \<and> d \<le> 1 / r" using d r by (simp add: divide_right_mono)
  moreover have "True \<in> set (fst (looks ts b))"
  proof (rule ccontr)
    assume "True \<notin> set (fst (looks ts b))"
    then have lr: "bk_tokens (snd (looks ts b)) = min r (bk_tokens b + (last ts - now) * r)" "bk_tokens (snd (looks ts b)) < 1"
      using looks_refused [OF b(1), of ts] assms(5,6) b(2,3) by simp_all
    have "d * r \<le> (last ts - now) * r" using assms(7) r by (intro mult_right_mono) simp_all
    moreover have "d * r = 1 - bk_tokens b" using d(1) r by simp
    ultimately show False using lr r by simp
  qed
  ultimately show ?thesis by simp
qed

section \<open>The gate\<close>

definition passed :: "gate \<Rightarrow> nat" where
  "passed g = count_list (ga_callers g) AtSemaphore + count_list (ga_callers g) Inside + count_list (ga_callers g) Gone"

definition gate_ok :: "real option \<Rightarrow> int option \<Rightarrow> real \<Rightarrow> gate \<Rightarrow> bool" where
  "gate_ok rate conc start g =
     (start \<le> ga_now g \<and> li_max_concurrency (ga_limiter g) = conc
      \<and> (case conc of None \<Rightarrow> True | Some c \<Rightarrow> li_permits (ga_limiter g) = c - int (inside g) \<and> 0 \<le> li_permits (ga_limiter g))
      \<and> (case (rate, li_bucket (ga_limiter g)) of
           (None, None) \<Rightarrow> True
         | (Some r, Some b) \<Rightarrow> bucket_ok b \<and> bk_rate b = r \<and> bk_last b \<le> ga_now g
             \<and> real (passed g) + bk_tokens b \<le> r + r * (bk_last b - start)
         | _ \<Rightarrow> False))"

lemma count_list_update:
  "i < length xs \<Longrightarrow> count_list (xs[i := y]) x + of_bool (xs ! i = x) = count_list xs x + of_bool (y = x)"
proof (induction xs arbitrary: i)
  case (Cons a xs)
  show ?case
  proof (cases i)
    case (Suc j)
    with Cons.prems have "j < length xs" by simp
    from Cons.IH [OF this] show ?thesis by (simp add: Suc)
  qed simp
qed simp

text \<open>Moving one caller from one place to another.\<close>

lemma counts_move:
  assumes "i < length cs" "cs ! i = a" "a \<noteq> c"
  shows "count_list (cs[i := c]) x = (if x = a then count_list cs x - 1 else if x = c then count_list cs x + 1 else count_list cs x)"
    and "1 \<le> count_list cs a"
proof -
  have "1 \<le> count_list cs a" using assms by (metis count_list_0_iff less_one linorder_not_le nth_mem)
  then show "count_list (cs[i := c]) x = (if x = a then count_list cs x - 1 else if x = c then count_list cs x + 1 else count_list cs x)"
    "1 \<le> count_list cs a"
    using count_list_update [OF assms(1), of c x] assms(2,3) by (auto split: if_splits)
qed

lemmas gate_simps = gate_ok_def set_caller_def inside_def passed_def

lemma gate_ok_look:
  assumes ok: "gate_ok rate conc start g" and i: "i < length (ga_callers g)"
    and c: "ga_callers g ! i = Arriving \<or> (\<exists>d. ga_callers g ! i = Asleep d \<and> d \<le> ga_now g)"
  shows "gate_ok rate conc start (look_at_bucket i g)"
proof -
  let ?a = "ga_callers g ! i"
  have a: "?a \<noteq> AtSemaphore" "?a \<noteq> Inside" "?a \<noteq> Gone" using c by auto
  show ?thesis
  proof (cases "li_bucket (ga_limiter g)")
    case None
    then show ?thesis using ok a counts_move [OF i refl, of AtSemaphore]
      by (auto simp: look_at_bucket_def gate_simps split: option.splits)
  next
    case (Some b)
    with ok obtain r where r: "rate = Some r" "bucket_ok b" "bk_rate b = r" "bk_last b \<le> ga_now g"
        "real (passed g) + bk_tokens b \<le> r + r * (bk_last b - start)"
      by (auto simp: gate_ok_def split: option.splits)
    obtain w b' where w: "take_token (ga_now g) b = (w, b')" by force
    note tk = take_token_bucket [OF r(2,4), unfolded w, simplified]
    have "bk_tokens b' + of_bool (w = None) \<le> bk_tokens b + (ga_now g - bk_last b) * r" using tk(4) r(3) by simp
    then have sum: "real (passed g) + of_bool (w = None) + bk_tokens b' \<le> r + r * (ga_now g - start)"
      using r(5) by (simp add: algebra_simps)
    show ?thesis
    proof (cases w)
      case None
      then show ?thesis using ok Some w sum tk r a counts_move [OF i refl, of AtSemaphore]
        by (auto simp: look_at_bucket_def gate_simps split: option.splits)
    next
      case (Some d)
      show ?thesis
      proof (cases "?a = Asleep (ga_now g + d)")
        case True
        then have "(ga_callers g)[i := Asleep (ga_now g + d)] = ga_callers g" by (metis list_update_id)
        then show ?thesis using ok Some w sum tk r \<open>li_bucket (ga_limiter g) = Some b\<close>
          by (auto simp: look_at_bucket_def gate_simps split: option.splits)
      next
        case False
        then show ?thesis using ok Some w sum tk r a counts_move [OF i refl, of "Asleep (ga_now g + d)"] \<open>li_bucket (ga_limiter g) = Some b\<close>
          by (auto simp: look_at_bucket_def gate_simps split: option.splits)
      qed
    qed
  qed
qed

lemma gate_ok_step:
  assumes "gate_step g g'" "gate_ok rate conc start g"
  shows "gate_ok rate conc start g'"
  using assms(1)
proof (cases rule: gate_step.cases)
  case (gate_time now)
  then show ?thesis using assms(2) by (auto simp: gate_simps split: option.splits)
next
  case gate_arrive
  then show ?thesis using assms(2) by (auto simp: gate_simps count_list_append split: option.splits)
next
  case (gate_look i)
  then show ?thesis using gate_ok_look assms(2) by blast
next
  case (gate_enter i l)
  then show ?thesis using assms(2) counts_move [of i "ga_callers g" AtSemaphore Inside]
    by (auto simp: gate_simps sem_acquire_def split: option.splits if_splits)
next
  case (gate_leave i)
  then show ?thesis using assms(2) counts_move [of i "ga_callers g" Inside Gone]
    by (auto simp: gate_simps sem_release_def split: option.splits if_splits)
qed

text \<open>A limiter built from an enabled configuration keeps both limits over every run of any number of
  callers: the callers let through by time \<open>t\<close> are at most one bucket plus the rate times the time since
  the start, never more than the maximum are inside, and the semaphore admits a caller exactly when fewer
  than the maximum are inside.\<close>

theorem limits_respected:
  assumes "limiter_of_config cfg start = Inr l" "lc_enabled cfg" "gate_step\<^sup>*\<^sup>* (fresh_gate l start) g"
  shows "(case lc_rate cfg of None \<Rightarrow> True | Some r \<Rightarrow> real (passed g) \<le> r + r * (ga_now g - start))
    \<and> (case lc_max_concurrency cfg of
         None \<Rightarrow> sem_acquire (ga_limiter g) \<noteq> None
       | Some c \<Rightarrow> int (inside g) \<le> c \<and> (sem_acquire (ga_limiter g) \<noteq> None \<longleftrightarrow> int (inside g) < c))"
proof -
  have base: "gate_ok (lc_rate cfg) (lc_max_concurrency cfg) start (fresh_gate l start)"
    using assms(1,2)
    by (auto simp: limiter_of_config_def no_op_def new_limiter_def validate_limits_def fresh_gate_def gate_simps bucket_ok_def
        split: if_splits option.splits sum.splits)
  have ok: "gate_ok (lc_rate cfg) (lc_max_concurrency cfg) start g"
    using assms(3) base by (induction rule: rtranclp_induct) (auto intro: gate_ok_step)
  have "real (passed g) \<le> r + r * (ga_now g - start)" if rate: "lc_rate cfg = Some r" for r
  proof -
    obtain b where b: "bucket_ok b" "bk_rate b = r" "bk_last b \<le> ga_now g" "real (passed g) + bk_tokens b \<le> r + r * (bk_last b - start)"
      using ok rate by (auto simp: gate_ok_def split: option.splits)
    have "r * (bk_last b - start) \<le> r * (ga_now g - start)" using b(1-3) by (intro mult_left_mono) (auto simp: bucket_ok_def)
    with b(1,4) show ?thesis by (simp add: bucket_ok_def)
  qed
  then show ?thesis using ok by (auto simp: gate_ok_def sem_acquire_def split: option.splits if_splits)
qed

section \<open>Examples\<close>

definition ex_limits :: limiter_config where
  "ex_limits = \<lparr>lc_enabled = True, lc_rate = Some 2, lc_max_concurrency = Some 1\<rparr>"

definition ex_limiter :: limiter where
  "ex_limiter = \<lparr>li_bucket = Some \<lparr>bk_rate = 2, bk_max = 2, bk_tokens = 2, bk_last = 0\<rparr>, li_max_concurrency = Some 1, li_permits = 1\<rparr>"

definition ex_bucket :: bucket where
  "ex_bucket = \<lparr>bk_rate = 2, bk_max = 2, bk_tokens = 2, bk_last = 0\<rparr>"

lemma ex_new: "new_limiter (Some 2) (Some 1) 0 = Inr ex_limiter" "li_bucket ex_limiter = Some ex_bucket"
    "limiter_of_config ex_limits 0 = Inr ex_limiter" "lc_enabled ex_limits"
  by (simp_all add: new_limiter_def validate_limits_def ex_limiter_def ex_bucket_def limiter_of_config_def ex_limits_def)

theorem rate_respected_in_every_window_witness:
  "real (count_list (drop 1 (fst (looks [0, 0, 1/4, 1] ex_bucket))) True) \<le> 4 \<and> fst (looks [0, 0, 1/4, 1] ex_bucket) = [True, True, False, True]"
proof -
  have "fst (looks [0, 0, 1/4, 1] ex_bucket) = [True, True, False, True]" by code_simp
  with rate_respected_in_every_window [OF ex_new(1,2), of "[0]" 0 "[1/4, 1]"] show ?thesis by simp
qed

theorem sleeping_caller_progress_witness:
  "True \<in> set (fst (looks [1/3, 1/2] \<lparr>bk_rate = 2, bk_max = 2, bk_tokens = 0, bk_last = 0\<rparr>))"
proof -
  have t: "take_token 0 (snd (looks [0, 0] ex_bucket)) = (Some (1/2), \<lparr>bk_rate = 2, bk_max = 2, bk_tokens = 0, bk_last = 0\<rparr>)" by code_simp
  show ?thesis using sleeping_caller_progress [OF ex_new(1,2) _ t, of "[1/3, 1/2]"] by simp
qed

definition ex_gate :: gate where
  "ex_gate = \<lparr>ga_limiter = ex_limiter\<lparr>li_bucket := Some (ex_bucket\<lparr>bk_tokens := 1\<rparr>), li_permits := 0\<rparr>, ga_callers = [Inside], ga_now = 0\<rparr>"

lemma ex_gate_reachable: "gate_step\<^sup>*\<^sup>* (fresh_gate ex_limiter 0) ex_gate"
proof -
  let ?a = "(fresh_gate ex_limiter 0)\<lparr>ga_callers := ga_callers (fresh_gate ex_limiter 0) @ [Arriving]\<rparr>"
  let ?b = "look_at_bucket 0 ?a"
  have "gate_step\<^sup>*\<^sup>* (fresh_gate ex_limiter 0) ?a" by (rule r_into_rtranclp, rule gate_arrive)
  also have "gate_step\<^sup>*\<^sup>* ?a ?b" by (rule r_into_rtranclp, rule gate_look) (simp_all add: fresh_gate_def)
  also have "gate_step\<^sup>*\<^sup>* ?b (set_caller 0 Inside (?b\<lparr>ga_limiter := (ga_limiter ?b)\<lparr>li_permits := li_permits (ga_limiter ?b) - 1\<rparr>\<rparr>))"
    by (rule r_into_rtranclp, rule gate_enter)
      (simp_all add: fresh_gate_def look_at_bucket_def set_caller_def sem_acquire_def ex_limiter_def take_token_def refill_def)
  also have "set_caller 0 Inside (?b\<lparr>ga_limiter := (ga_limiter ?b)\<lparr>li_permits := li_permits (ga_limiter ?b) - 1\<rparr>\<rparr>) = ex_gate"
    by (simp add: fresh_gate_def look_at_bucket_def set_caller_def ex_limiter_def ex_bucket_def ex_gate_def take_token_def refill_def)
  finally show ?thesis .
qed

theorem limits_respected_witness:
  "real (passed ex_gate) \<le> 2 \<and> int (inside ex_gate) \<le> 1 \<and> inside ex_gate = 1 \<and> sem_acquire (ga_limiter ex_gate) = None"
  using limits_respected [OF ex_new(3,4) ex_gate_reachable]
  by (simp add: ex_limits_def ex_gate_def inside_def)

end
