(* ===== verification/Borrowing.thy ===== *)
theory Borrowing
  imports Prelude
begin

text \<open>
  Exclusive borrowing of inference farms, the class \<open>Borrower\<close> of
  \<^verbatim>\<open>tpu/swarm/ray_train/borrowing.py\<close>.  A lease object is a record named by a number, since a call keeps
  using its lease when the borrower has moved on.  Every stretch of code between two awaits is a
  function; what holds the lock (\<open>begin\<close> or \<open>end\<close>) is the stage of the borrower.  Times are those of the
  monotonic clock, an infinite deadline is \<open>None\<close>.  Farms answer anything; events are telemetry and left
  out.
\<close>

section \<open>State\<close>

datatype policy = Fence | Probe

record settings =
  bs_lease_seconds :: real
  bs_health_grace :: real
  bs_rpc_timeout :: real
  bs_engines :: int
  bs_max_requests :: nat
  bs_max_n :: int
  bs_updates :: bool
  bs_policy :: policy
  bs_model :: string
  bs_owner :: string

datatype heartbeat_stage = Waiting | Sent real | Stopped

record lease =
  ls_url :: string
  ls_id :: string
  ls_adapter :: string
  ls_digest :: "string option"
  ls_valid_until :: real
  ls_ready :: bool
  ls_attested :: bool
  ls_draining :: bool
  ls_health :: "real option"
  ls_engines :: int
  ls_max_requests :: nat
  ls_max_n :: int
  ls_active :: nat
  ls_lost :: bool
  ls_probe :: bool
  ls_heartbeat :: heartbeat_stage

text \<open>Who holds the lock: nobody, or \<open>begin\<close> at one of its awaits, or a release (then \<open>begin\<close> or \<open>end\<close>
  goes on).\<close>

datatype lock_stage =
    Free
  | Reconciling int "string option"
  | Hashing "string option"
  | Probing "string list" "string option"
  | Acquiring string "string list" "string option" real
  | Uploading nat
  | Loading nat
  | StatusSent nat
  | Draining nat bool

record call =
  cl_lease :: nat
  cl_n :: int

record borrower =
  bo_urls :: "string list"
  bo_phase :: "string option"
  bo_model :: "string option"
  bo_leases :: "lease list"
  bo_lease :: "nat option"
  bo_uncertain_until :: "real option"
  bo_pending_acquire :: "string option"
  bo_next_url :: nat
  bo_phase_deadline :: real
  bo_stage :: lock_stage
  bo_calls :: "(nat, call) dict"

definition new_borrower :: "string list \<Rightarrow> borrower" where
  "new_borrower urls =
     \<lparr>bo_urls = urls, bo_phase = None, bo_model = None, bo_leases = [], bo_lease = None, bo_uncertain_until = Some 0,
      bo_pending_acquire = None, bo_next_url = 0, bo_phase_deadline = 0, bo_stage = Free, bo_calls = []\<rparr>"

text \<open>The JSON a farm sends about a lease; a missing key, or a value of another type, is \<open>None\<close>.\<close>

record farm_body =
  fb_lease_id :: "string option"
  fb_owner_run :: "string option"
  fb_expires_at :: "real option"
  fb_expected_engines :: "int option"
  fb_adapter_sha256 :: "string option"
  fb_adapter_name :: "string option"
  fb_state :: "string option"
  fb_ready_engines :: "int option"

text \<open>What a request ends with: a body, a body that is not an object, an error status, a transport error.\<close>

datatype 'a reply = Body 'a | Garbage | Status nat | Unreachable

section \<open>Deadlines and checks\<close>

definition bounded :: "real option \<Rightarrow> real \<Rightarrow> real" where
  "bounded h x = (case h of None \<Rightarrow> x | Some y \<Rightarrow> min x y)"

definition deadline :: "borrower \<Rightarrow> lease \<Rightarrow> real" where
  "deadline b l = min (bounded (ls_health l) (ls_valid_until l)) (bo_phase_deadline b)"

definition eligible :: "real \<Rightarrow> borrower \<Rightarrow> lease \<Rightarrow> bool" where
  "eligible now b l = (ls_ready l \<and> \<not> ls_draining l \<and> \<not> ls_lost l \<and> now < deadline b l)"

definition expiry :: "settings \<Rightarrow> farm_body \<Rightarrow> real \<Rightarrow> (string, real) result" where
  "expiry s body sent =
     (case fb_expires_at body of
        None \<Rightarrow> Inl ''invalid lease expiration acknowledgement''
      | Some e \<Rightarrow> if e > 0 then Inr (sent + bs_lease_seconds s - 1) else Inl ''invalid lease expiration acknowledgement'')"

definition identity_ok :: "settings \<Rightarrow> lease \<Rightarrow> farm_body \<Rightarrow> bool" where
  "identity_ok s l body = (fb_lease_id body = Some (ls_id l) \<and> fb_owner_run body = Some (bs_owner s))"

definition accept_engines :: "settings \<Rightarrow> farm_body \<Rightarrow> (string, int) result" where
  "accept_engines s body =
     (case bs_policy s of
        Fence \<Rightarrow> Inr (bs_engines s)
      | Probe \<Rightarrow> (case fb_expected_engines body of
                   None \<Rightarrow> Inl ''farm did not advertise its engine count''
                 | Some c \<Rightarrow> if 1 \<le> c \<and> c \<le> 64 then Inr c else Inl ''farm did not advertise its engine count''))"

definition farm_engines :: "settings \<Rightarrow> lease \<Rightarrow> int" where
  "farm_engines s l = (if ls_engines l = 0 then bs_engines s else ls_engines l)"

definition attestation :: "settings \<Rightarrow> lease \<Rightarrow> farm_body \<Rightarrow> (string, bool) result" where
  "attestation s l body =
     (let engines = farm_engines s l
      in if \<not> identity_ok s l body then Inl ''lease identity mismatch''
         else if fb_expected_engines body \<noteq> Some engines then Inl ''unexpected farm size''
         else (case ls_digest l of
                 None \<Rightarrow> if fb_state body \<noteq> Some ''awaiting_adapter'' then Inl ''base bootstrap lease is not available'' else Inr True
               | Some d \<Rightarrow>
                   if fb_adapter_sha256 body \<noteq> Some d \<or> fb_adapter_name body \<noteq> Some (ls_adapter l)
                   then Inl ''adapter identity mismatch''
                   else if fb_state body \<notin> {Some ''ready'', Some ''degraded''} then Inl ''adapter no longer serving under this lease''
                   else (case fb_ready_engines body of
                           None \<Rightarrow> Inl ''invalid engine readiness count''
                         | Some c \<Rightarrow> if 0 \<le> c \<and> c \<le> engines then Inr (fb_state body = Some ''ready'' \<and> c = engines)
                                     else Inl ''invalid engine readiness count'')))"

definition verify :: "settings \<Rightarrow> farm_body \<Rightarrow> lease \<Rightarrow> (string, lease) result" where
  "verify s body l =
     (case attestation s l body of
        Inl e \<Rightarrow> Inl e
      | Inr ok \<Rightarrow>
          if \<not> ok then Inl ''adapter not verified on every engine''
          else Inr (l\<lparr>ls_engines := farm_engines s l, ls_max_requests := bs_max_requests s, ls_max_n := bs_max_n s\<rparr>))"

definition pause :: "settings \<Rightarrow> real \<Rightarrow> lease \<Rightarrow> lease" where
  "pause s now l =
     l\<lparr>ls_ready := False, ls_health := (case ls_health l of None \<Rightarrow> Some (now + bs_health_grace s) | Some h \<Rightarrow> Some h)\<rparr>"

definition resume :: "lease \<Rightarrow> lease" where
  "resume l = l\<lparr>ls_health := None, ls_ready := \<not> ls_draining l\<rparr>"

definition lose :: "lease \<Rightarrow> lease" where
  "lose l = l\<lparr>ls_ready := False, ls_lost := True\<rparr>"

definition on_lease :: "nat \<Rightarrow> (lease \<Rightarrow> lease) \<Rightarrow> borrower \<Rightarrow> borrower" where
  "on_lease i f b = (if i < length (bo_leases b) then b\<lparr>bo_leases := (bo_leases b)[i := f (bo_leases b ! i)]\<rparr> else b)"

section \<open>Phases\<close>

definition update_urls :: "settings \<Rightarrow> (string list \<Rightarrow> bool) \<Rightarrow> string \<Rightarrow> string list \<Rightarrow> borrower \<Rightarrow> (string, borrower) result" where
  "update_urls s valid model urls b =
     (if \<not> bs_updates s then Inl ''service list updates are disabled''
      else if model \<noteq> bs_model s then Inl ''service list model mismatch''
      else if \<not> valid urls then Inl ''invalid configuration''
      else Inr (b\<lparr>bo_urls := urls\<rparr>))"

definition touch :: "settings \<Rightarrow> real \<Rightarrow> string \<Rightarrow> borrower \<Rightarrow> bool \<times> borrower" where
  "touch s now phase b =
     (if Some phase \<noteq> bo_phase b then (False, b) else (True, b\<lparr>bo_phase_deadline := now + bs_lease_seconds s\<rparr>))"

text \<open>\<open>begin\<close> up to \<open>_reconcile_acquire\<close>; \<open>None\<close> when it has to wait for the lock.\<close>

definition begin_phase ::
  "settings \<Rightarrow> real \<Rightarrow> string \<Rightarrow> string \<Rightarrow> string option \<Rightarrow> int \<Rightarrow> borrower \<Rightarrow> (string, borrower) result option" where
  "begin_phase s now phase model digest expected_n b =
     (if bo_stage b \<noteq> Free then None
      else case bo_phase b of
        Some p \<Rightarrow> Some (if p \<noteq> phase then Inl ''another sampling phase is active'' else Inr b)
      | None \<Rightarrow>
          Some (Inr (snd (touch s now phase (b\<lparr>bo_phase := Some phase, bo_model := Some model\<rparr>))
                       \<lparr>bo_stage := Reconciling expected_n digest\<rparr>)))"

text \<open>After reconciliation: nothing to borrow, not yet safe to borrow, or the archive is hashed.\<close>

definition start_acquire :: "settings \<Rightarrow> real \<Rightarrow> int \<Rightarrow> string option \<Rightarrow> borrower \<Rightarrow> borrower" where
  "start_acquire s now expected_n digest b =
     (if bo_urls b = [] \<or> (case bo_uncertain_until b of None \<Rightarrow> True | Some u \<Rightarrow> now < u) \<or> expected_n > bs_max_n s
      then b\<lparr>bo_stage := Free\<rparr> else b\<lparr>bo_stage := Hashing digest\<rparr>)"

text \<open>\<open>_acquire\<close> pins the candidates for this attempt, rotated by one from the last one.\<close>

definition pin_candidates :: "borrower \<Rightarrow> borrower" where
  "pin_candidates b =
     (case bo_stage b of
        Hashing digest \<Rightarrow>
          (let count = length (bo_urls b)
           in if count = 0 then b\<lparr>bo_stage := Free\<rparr>
              else b\<lparr>bo_stage := Probing (map (\<lambda>i. bo_urls b ! ((bo_next_url b + i) mod count)) [0..<count]) digest,
                     bo_next_url := (bo_next_url b + 1) mod count\<rparr>)
      | _ \<Rightarrow> b)"

text \<open>\<open>cancelled\<close>: the farm acknowledged that the pending acquire is cancelled.\<close>

definition reconcile :: "settings \<Rightarrow> real \<Rightarrow> bool \<Rightarrow> borrower \<Rightarrow> borrower" where
  "reconcile s now cancelled b =
     (case bo_stage b of
        Reconciling expected_n digest \<Rightarrow>
          start_acquire s now expected_n digest
            (if bo_pending_acquire b \<noteq> None \<and> cancelled
             then b\<lparr>bo_pending_acquire := None, bo_uncertain_until := Some 0\<rparr> else b)
      | _ \<Rightarrow> b)"

text \<open>A failure of the preparation releases the lease if there is one.\<close>

definition start_release :: "bool \<Rightarrow> nat \<Rightarrow> borrower \<Rightarrow> borrower" where
  "start_release ends i b = (on_lease i (\<lambda>l. l\<lparr>ls_draining := True, ls_ready := False\<rparr>) b)\<lparr>bo_stage := Draining i ends\<rparr>"

definition fail_begin :: "borrower \<Rightarrow> borrower" where
  "fail_begin b = (case bo_lease b of None \<Rightarrow> b\<lparr>bo_stage := Free\<rparr> | Some i \<Rightarrow> start_release False i b)"

text \<open>One candidate: not usable, or the acquire is sent, with its identity when the farm speaks the
  protocol of cancellations.\<close>

definition probe_farm :: "real \<Rightarrow> bool \<Rightarrow> bool \<Rightarrow> borrower \<Rightarrow> borrower" where
  "probe_farm now usable has_protocol b =
     (case bo_stage b of
        Probing [] digest \<Rightarrow> b\<lparr>bo_stage := Free\<rparr>
      | Probing (url # rest) digest \<Rightarrow>
          if \<not> usable then b\<lparr>bo_stage := Probing rest digest\<rparr>
          else b\<lparr>bo_uncertain_until := None,
                 bo_pending_acquire := (if has_protocol then Some url else bo_pending_acquire b),
                 bo_stage := Acquiring url rest digest now\<rparr>
      | _ \<Rightarrow> b)"

definition lease_char :: "char \<Rightarrow> bool" where
  "lease_char c \<longleftrightarrow> c \<in> set ''abcdefghijklmnopqrstuvwxyzABCDEFGHIJKLMNOPQRSTUVWXYZ0123456789-_''"

definition lease_id_ok :: "string \<Rightarrow> bool" where
  "lease_id_ok x = (x \<noteq> [] \<and> length x \<le> 128 \<and> list_all lease_char x)"

definition fresh_lease :: "string \<Rightarrow> string \<Rightarrow> string option \<Rightarrow> lease" where
  "fresh_lease url lease_id digest =
     \<lparr>ls_url = url, ls_id = lease_id, ls_adapter = [], ls_digest = digest, ls_valid_until = 0, ls_ready = False,
      ls_attested = False, ls_draining = False, ls_health = None, ls_engines = 0, ls_max_requests = 0, ls_max_n = 0,
      ls_active = 0, ls_lost = False, ls_probe = False, ls_heartbeat = Stopped\<rparr>"

text \<open>The acknowledgement of an acquire, down to the start of the heartbeat.\<close>

definition acquire_acked :: "settings \<Rightarrow> string \<Rightarrow> string option \<Rightarrow> real \<Rightarrow> farm_body \<Rightarrow> borrower \<Rightarrow> borrower" where
  "acquire_acked s url digest sent body b =
     (case fb_lease_id body of
        None \<Rightarrow> fail_begin b
      | Some lid \<Rightarrow>
          if \<not> lease_id_ok lid then fail_begin b
          else
            let l = fresh_lease url lid digest; i = length (bo_leases b);
                b1 = b\<lparr>bo_leases := bo_leases b @ [l], bo_lease := Some i\<rparr>
            in if \<not> identity_ok s l body then fail_begin b1
               else (case accept_engines s body of
                       Inl e \<Rightarrow> fail_begin b1
                     | Inr engines \<Rightarrow>
                         (case expiry s body sent of
                            Inl e \<Rightarrow> fail_begin (on_lease i (\<lambda>l. l\<lparr>ls_engines := engines\<rparr>) b1)
                          | Inr until \<Rightarrow>
                              (on_lease i (\<lambda>l. l\<lparr>ls_engines := engines, ls_valid_until := until,
                                  ls_adapter := (if digest \<noteq> None then ''borrow-'' @ lid else bs_model s),
                                  ls_heartbeat := Waiting\<rparr>) b1)
                              \<lparr>bo_uncertain_until := Some 0, bo_pending_acquire := None,
                               bo_stage := (if digest \<noteq> None then Uploading i else Loading i)\<rparr>)))"

definition acquire_reply :: "settings \<Rightarrow> farm_body reply \<Rightarrow> borrower \<Rightarrow> borrower" where
  "acquire_reply s r b =
     (case bo_stage b of
        Acquiring url rest digest sent \<Rightarrow>
          (case r of
             Status c \<Rightarrow>
               if c \<in> {409, 423, 404, 410}
               then b\<lparr>bo_uncertain_until := Some 0, bo_pending_acquire := None, bo_stage := Probing rest digest\<rparr>
               else fail_begin b
           | Body body \<Rightarrow> acquire_acked s url digest sent body b
           | _ \<Rightarrow> fail_begin b)
      | _ \<Rightarrow> b)"

record receipt =
  rc_sha256 :: "string option"
  rc_name :: "string option"
  rc_loaded :: "string list"

definition upload_reply :: "settings \<Rightarrow> receipt reply \<Rightarrow> borrower \<Rightarrow> borrower" where
  "upload_reply s r b =
     (case bo_stage b of
        Uploading i \<Rightarrow>
          (let l = bo_leases b ! i
           in case r of
                Body rc \<Rightarrow>
                  if rc_sha256 rc \<noteq> ls_digest l \<or> rc_name rc \<noteq> Some (ls_adapter l)
                     \<or> int (card (set (rc_loaded rc))) \<noteq> farm_engines s l
                  then fail_begin b else b\<lparr>bo_stage := Loading i\<rparr>
              | _ \<Rightarrow> fail_begin b)
      | _ \<Rightarrow> b)"

text \<open>The polling of the status until the adapter is on every engine.\<close>

definition poll_status :: "real \<Rightarrow> borrower \<Rightarrow> borrower" where
  "poll_status now b =
     (case bo_stage b of
        Loading i \<Rightarrow> if now < ls_valid_until (bo_leases b ! i) then b\<lparr>bo_stage := StatusSent i\<rparr> else fail_begin b
      | _ \<Rightarrow> b)"

definition status_reply :: "settings \<Rightarrow> real \<Rightarrow> farm_body reply \<Rightarrow> borrower \<Rightarrow> borrower" where
  "status_reply s now r b =
     (case bo_stage b of
        StatusSent i \<Rightarrow>
          (let l = bo_leases b ! i
           in case r of
                Body body \<Rightarrow>
                  if \<not> identity_ok s l body \<or> ls_lost l then fail_begin b
                  else if fb_state body \<in> {Some ''updating'', Some ''transitioning''} then b\<lparr>bo_stage := Loading i\<rparr>
                  else (case verify s body l of
                          Inl e \<Rightarrow> fail_begin b
                        | Inr l' \<Rightarrow>
                            if now \<ge> deadline b l' then fail_begin (on_lease i (\<lambda>_. l') b)
                            else (on_lease i (\<lambda>_. resume (l'\<lparr>ls_attested := True\<rparr>)) b)\<lparr>bo_stage := Free\<rparr>)
              | _ \<Rightarrow> fail_begin b)
      | _ \<Rightarrow> b)"

text \<open>The time limit of the preparation, or a cancellation of \<open>begin\<close>.\<close>

definition abort_prepare :: "borrower \<Rightarrow> borrower" where
  "abort_prepare b =
     (case bo_stage b of
        Reconciling _ _ \<Rightarrow> b\<lparr>bo_stage := Free\<rparr> | Hashing _ \<Rightarrow> fail_begin b | Probing _ _ \<Rightarrow> fail_begin b | Acquiring _ _ _ _ \<Rightarrow> fail_begin b | Uploading _ \<Rightarrow> fail_begin b
      | Loading _ \<Rightarrow> fail_begin b | StatusSent _ \<Rightarrow> fail_begin b | _ \<Rightarrow> b)"

section \<open>Release and end\<close>

definition later :: "real option \<Rightarrow> real \<Rightarrow> real option" where
  "later u x = map_option (\<lambda>y. max y x) u"

text \<open>The release is over, acknowledged or not; only an acknowledgement requires that no call was left.\<close>

definition settle_release :: "settings \<Rightarrow> real \<Rightarrow> bool \<Rightarrow> nat \<Rightarrow> borrower \<Rightarrow> borrower" where
  "settle_release s now acknowledged i b =
     (on_lease i (\<lambda>l. l\<lparr>ls_heartbeat := Stopped\<rparr>) b)
       \<lparr>bo_uncertain_until := (if acknowledged then bo_uncertain_until b
          else later (bo_uncertain_until b) (now + bs_lease_seconds s + bs_rpc_timeout s)),
        bo_stage := Free\<rparr>"

definition finish_release :: "settings \<Rightarrow> real \<Rightarrow> bool \<Rightarrow> borrower \<Rightarrow> borrower" where
  "finish_release s now acknowledged b =
     (case bo_stage b of
        Draining i ends \<Rightarrow>
          if acknowledged \<and> ls_active (bo_leases b ! i) > 0 then b
          else let b1 = (settle_release s now acknowledged i b)\<lparr>bo_lease := None\<rparr>
               in (if ends then b1\<lparr>bo_phase := None, bo_model := None\<rparr> else b1)
      | _ \<Rightarrow> b)"

text \<open>A cancellation during the release passes its \<open>finally\<close> only: the lease stays for the next \<open>end\<close>.\<close>

definition cancel_release :: "settings \<Rightarrow> real \<Rightarrow> bool \<Rightarrow> borrower \<Rightarrow> borrower" where
  "cancel_release s now acknowledged b =
     (case bo_stage b of
        Draining i ends \<Rightarrow>
          if acknowledged \<and> ls_active (bo_leases b ! i) > 0 then b else settle_release s now acknowledged i b
      | _ \<Rightarrow> b)"

definition end_phase :: "string option \<Rightarrow> borrower \<Rightarrow> (bool \<times> borrower) option" where
  "end_phase phase b =
     (if bo_stage b \<noteq> Free then None
      else if phase \<noteq> None \<and> bo_phase b \<noteq> phase then Some (False, b)
      else case bo_lease b of
             None \<Rightarrow> Some (True, b\<lparr>bo_phase := None, bo_model := None\<rparr>)
           | Some i \<Rightarrow> Some (True, start_release True i b))"

text \<open>The watchdog of the phase: past the deadline the lease is lost (then it calls \<open>end\<close>).\<close>

definition watch_phase :: "real \<Rightarrow> borrower \<Rightarrow> borrower" where
  "watch_phase now b =
     (if bo_phase b \<noteq> None \<and> now \<ge> bo_phase_deadline b
      then (case bo_lease b of None \<Rightarrow> b | Some i \<Rightarrow> on_lease i lose b) else b)"

section \<open>Heartbeat\<close>

definition heartbeat_woken :: "real \<Rightarrow> borrower \<Rightarrow> lease \<Rightarrow> lease" where
  "heartbeat_woken now b l0 =
     (let l = l0\<lparr>ls_probe := False\<rparr>
      in if ls_lost l then l\<lparr>ls_heartbeat := Stopped\<rparr>
         else if now \<ge> deadline b l then (lose l)\<lparr>ls_heartbeat := Stopped\<rparr> else l\<lparr>ls_heartbeat := Sent now\<rparr>)"

definition heartbeat_wake :: "real \<Rightarrow> nat \<Rightarrow> borrower \<Rightarrow> borrower" where
  "heartbeat_wake now i b = on_lease i (heartbeat_woken now b) b"

definition stop_lost :: "lease \<Rightarrow> lease" where
  "stop_lost l = (lose l)\<lparr>ls_heartbeat := Stopped\<rparr>"

definition renewal_acked :: "settings \<Rightarrow> real \<Rightarrow> borrower \<Rightarrow> real \<Rightarrow> farm_body \<Rightarrow> lease \<Rightarrow> lease" where
  "renewal_acked s now b sent body l =
     (if \<not> identity_ok s l body then stop_lost l
      else case (if ls_attested l then attestation s l body else Inr True) of
        Inl e \<Rightarrow> stop_lost l
      | Inr healthy \<Rightarrow>
          (case expiry s body sent of
             Inl e \<Rightarrow> stop_lost l
           | Inr until \<Rightarrow>
               if ls_lost l \<or> now \<ge> min (deadline b l) until then stop_lost l
               else let l1 = l\<lparr>ls_valid_until := until, ls_heartbeat := Waiting\<rparr>
                    in if \<not> healthy then pause s now l1 else if ls_attested l then resume l1 else l1))"

definition heartbeat_answered :: "settings \<Rightarrow> real \<Rightarrow> borrower \<Rightarrow> farm_body reply \<Rightarrow> lease \<Rightarrow> lease" where
  "heartbeat_answered s now b r l =
     (case ls_heartbeat l of
        Sent sent \<Rightarrow>
          (case r of
             Unreachable \<Rightarrow> (pause s now l)\<lparr>ls_heartbeat := Waiting\<rparr>
           | Status c \<Rightarrow> if c \<in> {408, 429} \<or> c \<ge> 500 then (pause s now l)\<lparr>ls_heartbeat := Waiting\<rparr> else stop_lost l
           | Garbage \<Rightarrow> stop_lost l
           | Body body \<Rightarrow> renewal_acked s now b sent body l)
      | _ \<Rightarrow> l)"

definition heartbeat_reply :: "settings \<Rightarrow> real \<Rightarrow> nat \<Rightarrow> farm_body reply \<Rightarrow> borrower \<Rightarrow> borrower" where
  "heartbeat_reply s now i r b = on_lease i (heartbeat_answered s now b r) b"

section \<open>Generation\<close>

text \<open>\<open>payload.get('n', 1)\<close> is \<open>None\<close> when it is not an integer.\<close>

record payload =
  py_model :: "string option"
  py_n :: "int option"

definition admit ::
  "real \<Rightarrow> payload \<Rightarrow> nat \<Rightarrow> nat \<Rightarrow> bool \<Rightarrow> nat \<Rightarrow> borrower \<Rightarrow> borrower option" where
  "admit now p local_active local_engines prefer_remote c b =
     (case bo_lease b of
        None \<Rightarrow> None
      | Some i \<Rightarrow>
          (let l = bo_leases b ! i
           in if \<not> eligible now b l \<or> py_model p \<noteq> bo_model b then None
              else case py_n p of
                     None \<Rightarrow> None
                   | Some n \<Rightarrow>
                       if n < 1 \<or> n > ls_max_n l \<or> ls_active l \<ge> ls_max_requests l
                          \<or> (\<not> prefer_remote \<and> real (ls_active l) / real_of_int (ls_engines l)
                                > real local_active / real (max 1 local_engines))
                       then None
                       else Some ((on_lease i (\<lambda>l. l\<lparr>ls_active := ls_active l + 1\<rparr>) b)
                              \<lparr>bo_calls := dict_put c \<lparr>cl_lease = i, cl_n = n\<rparr> (bo_calls b)\<rparr>)))"

text \<open>The end of a request: its answer (the choices, with whether each was aborted), or the watcher of the
  lease came first, or the caller was cancelled.\<close>

datatype 'a ending = Answered "'a list reply" | LeaseGone | Cancelled

text \<open>What the caller of \<open>generate\<close> gets: a completion, \<open>None\<close>, a rejection of this request, the
  cancellation.\<close>

datatype 'a generated = Completion "'a list" | NoCompletion | Rejected nat | WasCancelled

definition request_failed :: "settings \<Rightarrow> real \<Rightarrow> nat option \<Rightarrow> borrower \<Rightarrow> lease \<Rightarrow> lease" where
  "request_failed s now status b l =
     (if ls_lost l \<or> now \<ge> deadline b l then lose l
      else if status \<in> {Some 409, Some 410} then lose l
      else if status \<in> {Some 400, Some 404, Some 413, Some 422} then l
      else (pause s now l)\<lparr>ls_probe := True\<rparr>)"

definition rejection :: "settings \<Rightarrow> real \<Rightarrow> nat option \<Rightarrow> borrower \<Rightarrow> lease \<Rightarrow> 'a generated" where
  "rejection s now status b l =
     (case status of
        Some c \<Rightarrow> if \<not> ls_lost l \<and> now < deadline b l \<and> c \<in> {400, 404, 413, 422} then Rejected c else NoCompletion
      | None \<Rightarrow> NoCompletion)"

definition completion :: "real \<Rightarrow> ('a \<Rightarrow> bool) \<Rightarrow> int \<Rightarrow> 'a ending \<Rightarrow> borrower \<Rightarrow> lease \<Rightarrow> 'a list option" where
  "completion now aborted n e b l =
     (if ls_lost l \<or> now \<ge> deadline b l then None
      else case e of
             Answered (Body choices) \<Rightarrow>
               if int (length choices) \<noteq> n \<or> (\<exists>x\<in>set choices. aborted x) then None else Some choices
           | _ \<Rightarrow> None)"

definition status_of :: "real \<Rightarrow> 'a ending \<Rightarrow> borrower \<Rightarrow> lease \<Rightarrow> nat option" where
  "status_of now e b l =
     (if ls_lost l \<or> now \<ge> deadline b l then None
      else case e of Answered (Status c) \<Rightarrow> Some c | _ \<Rightarrow> None)"

definition finish_request ::
  "settings \<Rightarrow> real \<Rightarrow> ('a \<Rightarrow> bool) \<Rightarrow> nat \<Rightarrow> 'a ending \<Rightarrow> borrower \<Rightarrow> 'a generated \<times> borrower" where
  "finish_request s now aborted c e b =
     (case dict_get (bo_calls b) c of
        None \<Rightarrow> (NoCompletion, b)
      | Some cl \<Rightarrow>
          (let i = cl_lease cl; l = bo_leases b ! i; status = status_of now e b l;
               b1 = b\<lparr>bo_calls := dict_del c (bo_calls b)\<rparr>;
               leave = (\<lambda>f. on_lease i (\<lambda>l. (f l)\<lparr>ls_active := ls_active (f l) - 1\<rparr>) b1)
           in case e of
                Cancelled \<Rightarrow> (WasCancelled, leave (if bs_policy s = Fence then lose else id))
              | _ \<Rightarrow>
                  (case completion now aborted (cl_n cl) e b l of
                     Some choices \<Rightarrow> (Completion choices, leave id)
                   | None \<Rightarrow>
                       (case bs_policy s of
                          Fence \<Rightarrow> (NoCompletion, leave lose)
                        | Probe \<Rightarrow> (rejection s now status b l, leave (request_failed s now status b))))))"

text \<open>The watcher of a running call notices the deadline.\<close>

definition watch_lease :: "real \<Rightarrow> nat \<Rightarrow> borrower \<Rightarrow> borrower" where
  "watch_lease now i b = on_lease i (\<lambda>l. if now \<ge> deadline b l then lose l else l) b"

section \<open>The borrower as a step relation\<close>

text \<open>Everything that can happen to a borrower, with what the farms, the clients or the event loop decide.\<close>

datatype 'a event =
    Begin string string "string option" int
  | Reconciled bool
  | Hashed
  | Candidate bool bool
  | AcquireReply "farm_body reply"
  | UploadReply "receipt reply"
  | PollStatus
  | StatusReply "farm_body reply"
  | AbortPrepare
  | ReleaseDone bool
  | ReleaseCancelled bool
  | EndPhase "string option"
  | Touch string
  | WatchPhase
  | Wake nat
  | RenewalReply nat "farm_body reply"
  | Admit payload nat nat bool nat
  | Finish nat "'a ending"
  | WatchLease nat
  | UpdateUrls string "string list"

record 'a world =
  wo_valid_urls :: "string list \<Rightarrow> bool"
  wo_aborted :: "'a \<Rightarrow> bool"

text \<open>The state after an event; an operation that waits for the lock, refuses or raises leaves it.\<close>

definition react :: "settings \<Rightarrow> 'a world \<Rightarrow> real \<Rightarrow> 'a event \<Rightarrow> borrower \<Rightarrow> borrower" where
  "react s w t e b =
     (case e of
        Begin phase model digest n \<Rightarrow>
          (case begin_phase s t phase model digest n b of Some (Inr b') \<Rightarrow> b' | _ \<Rightarrow> b)
      | Reconciled cancelled \<Rightarrow> reconcile s t cancelled b
      | Hashed \<Rightarrow> pin_candidates b
      | Candidate usable has_protocol \<Rightarrow> probe_farm t usable has_protocol b
      | AcquireReply r \<Rightarrow> acquire_reply s r b
      | UploadReply r \<Rightarrow> upload_reply s r b
      | PollStatus \<Rightarrow> poll_status t b
      | StatusReply r \<Rightarrow> status_reply s t r b
      | AbortPrepare \<Rightarrow> abort_prepare b
      | ReleaseDone acknowledged \<Rightarrow> finish_release s t acknowledged b
      | ReleaseCancelled acknowledged \<Rightarrow> cancel_release s t acknowledged b
      | EndPhase phase \<Rightarrow> (case end_phase phase b of Some (_, b') \<Rightarrow> b' | None \<Rightarrow> b)
      | Touch phase \<Rightarrow> snd (touch s t phase b)
      | WatchPhase \<Rightarrow> watch_phase t b
      | Wake i \<Rightarrow> (if i < length (bo_leases b) \<and> ls_heartbeat (bo_leases b ! i) = Waiting
                  then heartbeat_wake t i b else b)
      | RenewalReply i r \<Rightarrow> heartbeat_reply s t i r b
      | Admit p local_active local_engines prefer c \<Rightarrow>
          (if dict_has (bo_calls b) c then b
           else case admit t p local_active local_engines prefer c b of None \<Rightarrow> b | Some b' \<Rightarrow> b')
      | Finish c ending \<Rightarrow> snd (finish_request s t (wo_aborted w) c ending b)
      | WatchLease i \<Rightarrow> watch_lease t i b
      | UpdateUrls model urls \<Rightarrow>
          (case update_urls s (wo_valid_urls w) model urls b of Inr b' \<Rightarrow> b' | Inl _ \<Rightarrow> b))"

text \<open>
  The state of the whole: the clock, the borrower, and of every acquire sent until when its farm may hold a
  lease for this run (\<open>None\<close>: no bound known).  A farm that takes a renewal does so within the timeout
  of the request, and holds a lease for at most its time to live after taking the request; the bound ends
  with a refusal, with an acknowledged cancellation and with an acknowledged release.
\<close>

record borrow_system =
  sy_now :: real
  sy_borrower :: borrower
  sy_claims :: "real option list"
  sy_claim_of :: "nat list"

definition claims_after :: "settings \<Rightarrow> real \<Rightarrow> 'a event \<Rightarrow> borrow_system \<Rightarrow> borrower \<Rightarrow> real option list" where
  "claims_after s t e y b' =
     (let b = sy_borrower y; claims = sy_claims y; newest = length claims - 1
      in case e of
           Reconciled cancelled \<Rightarrow>
             if bo_pending_acquire b \<noteq> None \<and> bo_pending_acquire b' = None then claims[newest := Some t] else claims
         | Candidate _ _ \<Rightarrow>
             (case (bo_stage b, bo_stage b') of
                (Probing _ _, Acquiring _ _ _ _) \<Rightarrow> claims @ [None] | _ \<Rightarrow> claims)
         | AcquireReply r \<Rightarrow>
             (case (bo_stage b, bo_stage b') of
                (Acquiring _ _ _ _, Probing _ _) \<Rightarrow> claims[newest := Some t]
              | (Acquiring _ _ _ _, Uploading _) \<Rightarrow> claims[newest := Some (t + bs_lease_seconds s)]
              | (Acquiring _ _ _ _, Loading _) \<Rightarrow> claims[newest := Some (t + bs_lease_seconds s)]
              | _ \<Rightarrow> claims)
         | ReleaseDone True \<Rightarrow>
             (case bo_stage b of
                Draining i _ \<Rightarrow> if bo_stage b' = Free then claims[sy_claim_of y ! i := Some t] else claims
              | _ \<Rightarrow> claims)
         | ReleaseCancelled True \<Rightarrow>
             (case bo_stage b of
                Draining i _ \<Rightarrow> if bo_stage b' = Free then claims[sy_claim_of y ! i := Some t] else claims
              | _ \<Rightarrow> claims)
         | Wake i \<Rightarrow>
             if i < length (bo_leases b) \<and> ls_heartbeat (bo_leases b ! i) = Waiting
                \<and> ls_heartbeat (bo_leases b' ! i) = Sent t
             then claims[sy_claim_of y ! i :=
                    later (claims ! (sy_claim_of y ! i)) (t + bs_rpc_timeout s + bs_lease_seconds s)]
             else claims
         | _ \<Rightarrow> claims)"

definition advance :: "settings \<Rightarrow> 'a world \<Rightarrow> real \<Rightarrow> 'a event \<Rightarrow> borrow_system \<Rightarrow> borrow_system" where
  "advance s w t e y =
     (let b = sy_borrower y; b' = react s w t e b
      in \<lparr>sy_now = t, sy_borrower = b', sy_claims = claims_after s t e y b',
          sy_claim_of = sy_claim_of y
            @ replicate (length (bo_leases b') - length (bo_leases b)) (length (sy_claims y) - 1)\<rparr>)"

inductive borrow_step :: "settings \<Rightarrow> 'a world \<Rightarrow> borrow_system \<Rightarrow> borrow_system \<Rightarrow> bool" for s w where
  event: "sy_now y \<le> t \<Longrightarrow> borrow_step s w y (advance s w t e y)"

inductive_cases borrow_stepE: "borrow_step s w y y'"

definition start_of :: "string list \<Rightarrow> borrow_system" where
  "start_of urls = \<lparr>sy_now = 0, sy_borrower = new_borrower urls, sy_claims = [], sy_claim_of = []\<rparr>"

end
