(* ===== verification/Borrowing_Safety.thy ===== *)
theory Borrowing_Safety
  imports Borrowing
begin

text \<open>
  What the borrower promises: a lost lease is over for good, every call is accounted for, at most one farm is
  held at a time, and a doubtful acquire blocks every later one until its farm has confirmed the
  cancellation.  The proofs share one case analysis of the step relation: every step changes the leases
  that exist by a sequence of \<open>lease_op\<close>s.
\<close>

section \<open>Leases\<close>

definition cut_off :: "real \<Rightarrow> lease \<Rightarrow> bool" where
  "cut_off t l = (ls_lost l \<or> t \<ge> bounded (ls_health l) (ls_valid_until l))"

lemma deadline_bounded: "deadline b l \<le> bounded (ls_health l) (ls_valid_until l)"
  by (simp add: deadline_def)

lemma cut_off_not_eligible: "cut_off t l \<Longrightarrow> t \<le> t' \<Longrightarrow> \<not> eligible t' b l"
  using deadline_bounded [of b l] by (auto simp: cut_off_def eligible_def)

lemma cut_off_later: "cut_off t l \<Longrightarrow> t \<le> t' \<Longrightarrow> cut_off t' l"
  by (auto simp: cut_off_def)

lemma cut_off_cong:
  "ls_lost l' = ls_lost l \<Longrightarrow> ls_health l' = ls_health l \<Longrightarrow> ls_valid_until l' = ls_valid_until l
    \<Longrightarrow> cut_off t l' = cut_off t l"
  by (simp add: cut_off_def)

lemma cut_off_updates [simp]:
  "cut_off t (l\<lparr>ls_draining := d, ls_ready := r\<rparr>) = cut_off t l"
  "cut_off t (l\<lparr>ls_heartbeat := h\<rparr>) = cut_off t l"
  "cut_off t (l\<lparr>ls_active := a\<rparr>) = cut_off t l"
  "cut_off t (l\<lparr>ls_probe := p\<rparr>) = cut_off t l"
  by (simp_all add: cut_off_def)

lemma cut_off_lose [simp]: "cut_off t (lose l)"
  by (simp add: cut_off_def lose_def)

lemma cut_off_stop_lost [simp]: "cut_off t (stop_lost l)"
  by (simp add: stop_lost_def)

lemma cut_off_pause: "cut_off t l \<Longrightarrow> cut_off t (pause s now l)"
  by (auto simp: cut_off_def pause_def bounded_def split: option.splits)

lemma cut_off_passed: "ls_lost l \<or> t \<ge> deadline b l \<Longrightarrow> cut_off t l \<or> t \<ge> bo_phase_deadline b"
  by (auto simp: cut_off_def deadline_def)

lemma verify_keeps:
  "verify s body l = Inr l' \<Longrightarrow>
    ls_lost l' = ls_lost l \<and> ls_health l' = ls_health l \<and> ls_valid_until l' = ls_valid_until l
    \<and> ls_active l' = ls_active l \<and> ls_heartbeat l' = ls_heartbeat l \<and> ls_draining l' = ls_draining l
    \<and> ls_engines l' = farm_engines s l \<and> ls_max_requests l' = bs_max_requests s \<and> ls_max_n l' = bs_max_n s"
  by (auto simp: verify_def split: sum.splits if_splits)

lemma cut_off_renewal:
  assumes "cut_off t l"
  shows "cut_off t (renewal_acked s t b sent body l)"
proof -
  have "ls_lost l \<or> t \<ge> deadline b l"
    using assms deadline_bounded [of b l] by (auto simp: cut_off_def)
  then show ?thesis
    by (auto simp: renewal_acked_def Let_def split: sum.splits)
qed

text \<open>Everything a step does to a lease that exists is a sequence of these changes.\<close>

inductive lease_op :: "bool \<Rightarrow> settings \<Rightarrow> real \<Rightarrow> borrower \<Rightarrow> lease \<Rightarrow> lease \<Rightarrow> bool" for m s t b where
  drain: "lease_op m s t b l (l\<lparr>ls_draining := True, ls_ready := False\<rparr>)"
| stop: "lease_op m s t b l (l\<lparr>ls_heartbeat := Stopped\<rparr>)"
| lost: "lease_op m s t b l (lose l)"
| verified: "verify s body l = Inr l' \<Longrightarrow> lease_op m s t b l l'"
| serving: "verify s body l = Inr l' \<Longrightarrow> \<not> ls_lost l \<Longrightarrow> t < deadline b l'
    \<Longrightarrow> lease_op m s t b l (resume (l'\<lparr>ls_attested := True\<rparr>))"
| woken: "ls_heartbeat l = Waiting \<Longrightarrow> lease_op m s t b l (heartbeat_woken t b l)"
| answered: "lease_op m s t b l (heartbeat_answered s t b r l)"
| enters: "m \<Longrightarrow> eligible t b l \<Longrightarrow> ls_active l < ls_max_requests l \<Longrightarrow> lease_op m s t b l (l\<lparr>ls_active := ls_active l + 1\<rparr>)"
| leaves: "m \<Longrightarrow> lease_op m s t b l (l\<lparr>ls_active := ls_active l - 1\<rparr>)"
| paused: "lease_op m s t b l ((pause s t l)\<lparr>ls_probe := True\<rparr>)"

lemmas lease_ops =
  r_into_rtranclp [of "lease_op m s t b" for m s t b, OF lease_op.lost]
  r_into_rtranclp [of "lease_op m s t b" for m s t b, OF lease_op.paused]
  r_into_rtranclp [of "lease_op m s t b" for m s t b, OF lease_op.answered]

definition kept :: "bool \<Rightarrow> settings \<Rightarrow> real \<Rightarrow> borrower \<Rightarrow> borrower \<Rightarrow> bool" where
  "kept m s t b b' =
     (length (bo_leases b) \<le> length (bo_leases b')
      \<and> (\<forall>i<length (bo_leases b). (lease_op m s t b)\<^sup>*\<^sup>* (bo_leases b ! i) (bo_leases b' ! i)))"

lemma kept_same [simp]: "bo_leases b' = bo_leases b \<Longrightarrow> kept m s t b b'"
  by (simp add: kept_def)

lemma kept_updates [simp]:
  "kept m s t b (b'\<lparr>bo_stage := st\<rparr>) = kept m s t b b'"
  "kept m s t b (b'\<lparr>bo_lease := le\<rparr>) = kept m s t b b'"
  "kept m s t b (b'\<lparr>bo_phase := p\<rparr>) = kept m s t b b'"
  "kept m s t b (b'\<lparr>bo_model := md\<rparr>) = kept m s t b b'"
  "kept m s t b (b'\<lparr>bo_calls := cs\<rparr>) = kept m s t b b'"
  "kept m s t b (b'\<lparr>bo_uncertain_until := u\<rparr>) = kept m s t b b'"
  by (simp_all add: kept_def)

lemma kept_on:
  assumes "kept m s t b b1" "\<And>l. (lease_op m s t b)\<^sup>*\<^sup>* l (f l)"
  shows "kept m s t b (on_lease i f b1)"
  using assms by (auto simp: kept_def on_lease_def nth_list_update intro: rtranclp_trans)

lemma kept_on_at:
  assumes "i < length (bo_leases b) \<Longrightarrow> (lease_op m s t b)\<^sup>*\<^sup>* (bo_leases b ! i) (f (bo_leases b ! i))"
  shows "kept m s t b (on_lease i f b)"
  using assms by (auto simp: kept_def on_lease_def nth_list_update)

lemma kept_cong: "kept m s t b b1 \<Longrightarrow> bo_leases b2 = bo_leases b1 \<Longrightarrow> kept m s t b b2"
  by (simp add: kept_def)

lemma bo_leases_fail_begin:
  "bo_leases (fail_begin b) =
     (case bo_lease b of None \<Rightarrow> bo_leases b
      | Some i \<Rightarrow> bo_leases (on_lease i (\<lambda>l. l\<lparr>ls_draining := True, ls_ready := False\<rparr>) b))"
  by (simp add: fail_begin_def start_release_def split: option.splits)

lemma kept_fail_begin: "kept m s t b b1 \<Longrightarrow> kept m s t b (fail_begin b1)"
  using kept_on [of m s t b b1 "\<lambda>l. l\<lparr>ls_draining := True, ls_ready := False\<rparr>"] lease_op.drain [of m s t b]
  by (cases "bo_lease b1") (auto simp: kept_def bo_leases_fail_begin)

lemma kept_on_new:
  "kept m s t b b1 \<Longrightarrow> i \<ge> length (bo_leases b) \<Longrightarrow> kept m s t b (on_lease i f b1)"
  by (auto simp: kept_def on_lease_def nth_list_update)

lemma bo_leases_on_lease:
  "bo_leases (on_lease i f b) = (if i < length (bo_leases b) then (bo_leases b)[i := f (bo_leases b ! i)] else bo_leases b)"
  by (simp add: on_lease_def)

lemma on_lease_simps [simp]:
  "bo_urls (on_lease i f b) = bo_urls b" "bo_phase (on_lease i f b) = bo_phase b"
  "bo_model (on_lease i f b) = bo_model b" "bo_lease (on_lease i f b) = bo_lease b"
  "bo_uncertain_until (on_lease i f b) = bo_uncertain_until b"
  "bo_pending_acquire (on_lease i f b) = bo_pending_acquire b"
  "bo_phase_deadline (on_lease i f b) = bo_phase_deadline b" "bo_stage (on_lease i f b) = bo_stage b"
  "bo_calls (on_lease i f b) = bo_calls b" "length (bo_leases (on_lease i f b)) = length (bo_leases b)"
  by (simp_all add: on_lease_def)

lemma kept_acquire_acked: "kept m s t b (acquire_acked s url digest sent body b)"
proof -
  have new: "kept m s t b (b\<lparr>bo_leases := bo_leases b @ [l], bo_lease := x\<rparr>)" for l x
    by (auto simp: kept_def nth_append)
  then have "kept m s t b (on_lease (length (bo_leases b)) f (b\<lparr>bo_leases := bo_leases b @ [l], bo_lease := x\<rparr>))" for f l x
    by (rule kept_on_new) simp
  then show ?thesis
    using new
    by (auto simp: acquire_acked_def Let_def split: option.splits sum.splits intro!: kept_fail_begin)
      (auto simp: kept_def)
qed

lemma kept_acquire_reply: "kept m s t b (acquire_reply s r b)"
  by (auto simp: acquire_reply_def split: lock_stage.splits reply.splits
      intro!: kept_fail_begin kept_acquire_acked)

lemma kept_upload_reply: "kept m s t b (upload_reply s r b)"
  by (auto simp: upload_reply_def Let_def split: lock_stage.splits reply.splits intro!: kept_fail_begin)

lemma kept_status_reply:
  "kept m s t b (status_reply s t r b)"
proof (cases "bo_stage b")
  case (StatusSent i)
  let ?l = "bo_leases b ! i"
  show ?thesis
  proof (cases r)
    case (Body body)
    show ?thesis
    proof (cases "verify s body ?l")
      case (Inr l')
      have a: "kept m s t b (on_lease i (\<lambda>_. l') b)"
        using lease_op.verified [OF Inr] by (intro kept_on_at) auto
      have "kept m s t b (on_lease i (\<lambda>_. resume (l'\<lparr>ls_attested := True\<rparr>)) b)" if "\<not> ls_lost ?l" "t < deadline b l'"
        using lease_op.serving [OF Inr that] by (intro kept_on_at) auto
      then show ?thesis
        using a by (auto simp: status_reply_def StatusSent Body Inr Let_def intro!: kept_fail_begin)
    qed (auto simp: status_reply_def StatusSent Body Let_def intro!: kept_fail_begin)
  qed (auto simp: status_reply_def StatusSent Let_def intro!: kept_fail_begin)
qed (simp_all add: status_reply_def)

lemma kept_settle: "kept m s t b (settle_release s t a i b)"
  using kept_on_at [of i b m s t "\<lambda>l. l\<lparr>ls_heartbeat := Stopped\<rparr>"] lease_op.stop [of m s t b]
  by (auto simp: settle_release_def)

lemma kept_releases: "kept m s t b (finish_release s t a b)" "kept m s t b (cancel_release s t a b)"
  using kept_settle [of m s t b a]
  by (auto simp: finish_release_def cancel_release_def Let_def split: lock_stage.splits)

lemma kept_start_release: "kept m s t b (start_release x i b)"
  using kept_on_at [of i b m s t "\<lambda>l. l\<lparr>ls_draining := True, ls_ready := False\<rparr>"] lease_op.drain [of m s t b]
  by (auto simp: start_release_def)

lemma kept_end: "end_phase phase b = Some (x, b') \<Longrightarrow> kept m s t b b'"
  by (auto simp: end_phase_def kept_start_release split: if_splits option.splits)

lemma kept_admit: "admit t p la le pr c b = Some b' \<Longrightarrow> kept True s t b b'"
proof (cases "bo_lease b")
  case (Some i)
  let ?l = "bo_leases b ! i"
  assume ok: "admit t p la le pr c b = Some b'"
  then have "eligible t b ?l" "ls_active ?l < ls_max_requests ?l"
    by (auto simp: admit_def Some Let_def split: if_splits option.splits)
  then have "kept True s t b (on_lease i (\<lambda>l. l\<lparr>ls_active := ls_active l + 1\<rparr>) b)"
    using lease_op.enters by (intro kept_on_at) auto
  then show ?thesis
    using ok by (auto simp: admit_def Some Let_def split: if_splits option.splits)
qed (simp add: admit_def)

lemma kept_leave:
  assumes "\<And>l. (lease_op True s t b)\<^sup>*\<^sup>* l (f l)"
  shows "kept True s t b (on_lease i (\<lambda>l. (f l)\<lparr>ls_active := ls_active (f l) - 1\<rparr>) b)"
  using assms lease_op.leaves [of True s t b] by (intro kept_on) (auto intro: rtranclp.rtrancl_into_rtrancl)

lemma lease_op_failed: "(lease_op True s t b)\<^sup>*\<^sup>* l (request_failed s t status b l)"
  by (auto simp: request_failed_def intro: lease_ops)

lemma on_lease_calls:
  "on_lease i f (b\<lparr>bo_calls := cs\<rparr>) = (on_lease i f b)\<lparr>bo_calls := cs\<rparr>"
  by (simp add: on_lease_def)

lemma kept_finish: "kept True s t b (snd (finish_request s t ab c e b))"
  by (auto simp: finish_request_def Let_def on_lease_calls split: option.splits ending.splits policy.splits
      simp del: One_nat_def intro!: kept_leave kept_leave [where f = "\<lambda>l. l"] intro: lease_ops lease_op_failed)

definition moves_calls :: "'a event \<Rightarrow> bool" where
  "moves_calls e = (case e of Admit _ _ _ _ _ \<Rightarrow> True | Finish _ _ \<Rightarrow> True | _ \<Rightarrow> False)"

lemma kept_react: "kept (moves_calls e) s t b (react s w t e b)"
proof (cases e)
  case (Begin x1 x2 x3 x4)
  then show ?thesis
    by (auto simp: react_def begin_phase_def touch_def split: option.splits sum.splits if_splits)
next
  case (Reconciled x)
  then show ?thesis
    by (auto simp: react_def reconcile_def start_acquire_def Let_def kept_def split: lock_stage.splits)
next
  case Hashed
  then show ?thesis by (auto simp: react_def pin_candidates_def Let_def kept_def split: lock_stage.splits)
next
  case (Candidate x y)
  then show ?thesis
    by (auto simp: react_def probe_farm_def kept_def split: lock_stage.splits list.splits)
next
  case (AcquireReply r)
  then show ?thesis by (simp add: react_def kept_acquire_reply)
next
  case (UploadReply r)
  then show ?thesis by (simp add: react_def kept_upload_reply)
next
  case PollStatus
  then show ?thesis by (auto simp: react_def poll_status_def split: lock_stage.splits intro!: kept_fail_begin)
next
  case (StatusReply r)
  then show ?thesis by (simp add: react_def kept_status_reply)
next
  case AbortPrepare
  then show ?thesis by (auto simp: react_def abort_prepare_def split: lock_stage.splits intro!: kept_fail_begin)
next
  case (ReleaseDone a)
  then show ?thesis by (simp add: react_def kept_releases)
next
  case (ReleaseCancelled a)
  then show ?thesis by (simp add: react_def kept_releases)
next
  case (EndPhase p)
  then show ?thesis by (auto simp: react_def split: option.splits intro: kept_end)
next
  case (Touch p)
  then show ?thesis by (auto simp: react_def touch_def kept_def)
next
  case WatchPhase
  then show ?thesis
    by (auto simp: react_def watch_phase_def split: option.splits intro!: kept_on intro: lease_ops)
next
  case (Wake i)
  then show ?thesis
    by (auto simp: react_def heartbeat_wake_def intro!: kept_on_at intro: lease_op.woken)
next
  case (RenewalReply i r)
  then show ?thesis
    by (auto simp: react_def heartbeat_reply_def intro!: kept_on intro: lease_ops)
next
  case (Admit p la le pr c)
  then show ?thesis by (auto simp: react_def moves_calls_def split: option.splits intro: kept_admit)
next
  case (Finish c x)
  then show ?thesis by (simp add: react_def kept_finish moves_calls_def)
next
  case (WatchLease i)
  then show ?thesis
    by (auto simp: react_def watch_lease_def intro!: kept_on intro: lease_ops)
next
  case (UpdateUrls m us)
  then show ?thesis by (auto simp: react_def update_urls_def kept_def split: sum.splits if_splits)
qed

lemma kept_induct:
  assumes "kept m s t b b'" "i < length (bo_leases b)" "P (bo_leases b ! i)"
    "\<And>l l'. lease_op m s t b l l' \<Longrightarrow> P l \<Longrightarrow> P l'"
  shows "P (bo_leases b' ! i)"
proof -
  have "(lease_op m s t b)\<^sup>*\<^sup>* (bo_leases b ! i) (bo_leases b' ! i)"
    using assms(1,2) by (simp add: kept_def)
  then show ?thesis
    by (induction rule: rtranclp_induct) (use assms(3,4) in auto)
qed

section \<open>A lost lease stays lost\<close>

lemma cut_off_op:
  assumes "lease_op m s t b l l'" "cut_off t l"
  shows "cut_off t l'"
  using assms
proof (cases rule: lease_op.cases)
  case (verified body)
  from verify_keeps [OF this] show ?thesis using assms(2) by (simp add: cut_off_def)
next
  case (serving body m)
  from verify_keeps [OF serving(2)] serving assms(2) deadline_bounded [of b m] show ?thesis
    by (auto simp: cut_off_def)
next
  case woken
  then show ?thesis using assms(2) by (simp add: heartbeat_woken_def Let_def)
next
  case (answered r)
  then show ?thesis
    using assms(2) by (auto simp: heartbeat_answered_def cut_off_renewal cut_off_pause split: heartbeat_stage.splits reply.splits)
qed (use assms(2) in \<open>auto simp: cut_off_pause\<close>)

lemma cut_off_react:
  "i < length (bo_leases b) \<Longrightarrow> cut_off t (bo_leases b ! i) \<Longrightarrow> cut_off t (bo_leases (react s w t e b) ! i)"
  by (rule kept_induct [OF kept_react]) (auto intro: cut_off_op)

lemma react_leases_grow: "length (bo_leases b) \<le> length (bo_leases (react s w t e b))"
  using kept_react [of e s t b w] by (simp add: kept_def)

abbreviation lease_at :: "borrow_system \<Rightarrow> nat \<Rightarrow> lease" where
  "lease_at y i \<equiv> bo_leases (sy_borrower y) ! i"

abbreviation leases_of :: "borrow_system \<Rightarrow> nat" where
  "leases_of y \<equiv> length (bo_leases (sy_borrower y))"

lemma cut_off_step:
  assumes "borrow_step s w y y'" "i < leases_of y" "cut_off (sy_now y) (lease_at y i)"
  shows "i < leases_of y' \<and> cut_off (sy_now y') (lease_at y' i) \<and> sy_now y \<le> sy_now y'"
proof -
  obtain t e where 1: "y' = advance s w t e y" "sy_now y \<le> t"
    using assms(1) by (auto elim: borrow_stepE)
  then have "cut_off t (lease_at y i)" using assms(3) cut_off_later by blast
  then show ?thesis
    using 1 assms(2) cut_off_react [of i "sy_borrower y" t s w e] react_leases_grow [of "sy_borrower y" s w t e]
    by (auto simp: advance_def Let_def)
qed

lemma cut_off_run:
  assumes "(borrow_step s w)\<^sup>*\<^sup>* y y'" "i < leases_of y" "cut_off (sy_now y) (lease_at y i)"
  shows "i < leases_of y' \<and> cut_off (sy_now y') (lease_at y' i)"
  using assms by (induction rule: rtranclp_induct) (auto dest: cut_off_step)

text \<open>C23: A borrowed lease that has once been lost, or whose acknowledged time or health grace has run out, is
  over for good: whatever the farm still answers, in whatever order renewals, status replies, failures,
  releases and watchdogs come, and even if no watcher noticed, it never admits a request again and no
  request running on it returns a completion.\<close>

theorem lost_lease_never_revives:
  assumes "(borrow_step s w)\<^sup>*\<^sup>* y y'" "i < leases_of y"
    and "ls_lost (lease_at y i) \<or> sy_now y \<ge> bounded (ls_health (lease_at y i)) (ls_valid_until (lease_at y i))"
    and "sy_now y' \<le> t"
  shows "\<not> eligible t (sy_borrower y') (lease_at y' i)
    \<and> (bo_lease (sy_borrower y') = Some i \<longrightarrow> admit t p local_active local_engines prefer c (sy_borrower y') = None)
    \<and> (dict_get (bo_calls (sy_borrower y')) c = Some \<lparr>cl_lease = i, cl_n = n\<rparr>
        \<longrightarrow> fst (finish_request s t (wo_aborted w) c e (sy_borrower y')) \<noteq> Completion choices)"
proof -
  have "cut_off (sy_now y') (lease_at y' i)"
    using cut_off_run [OF assms(1,2)] assms(3) by (auto simp: cut_off_def)
  then have ct: "cut_off t (lease_at y' i)" using assms(4) cut_off_later by blast
  then have no: "\<not> eligible t (sy_borrower y') (lease_at y' i)" by (rule cut_off_not_eligible) simp
  have "completion t (wo_aborted w) n e (sy_borrower y') (lease_at y' i) = None"
    using ct deadline_bounded [of "sy_borrower y'" "lease_at y' i"] by (auto simp: completion_def cut_off_def)
  then show ?thesis
    using no by (auto simp: admit_def finish_request_def Let_def rejection_def split: ending.splits policy.splits option.splits)
qed

section \<open>Calls are accounted for\<close>

definition lease_ok :: "settings \<Rightarrow> lease \<Rightarrow> bool" where
  "lease_ok s l = (0 \<le> ls_engines l \<and> (ls_ready l \<longrightarrow> ls_attested l)
     \<and> (ls_attested l \<longrightarrow> 1 \<le> ls_engines l \<and> ls_max_requests l = bs_max_requests s \<and> ls_max_n l = bs_max_n s))"

definition calls_on :: "nat \<Rightarrow> borrower \<Rightarrow> nat" where
  "calls_on i b = length (filter (\<lambda>x. cl_lease (snd x) = i) (bo_calls b))"

definition accounted :: "settings \<Rightarrow> borrower \<Rightarrow> bool" where
  "accounted s b =
     (dict_wf (bo_calls b)
      \<and> (\<forall>x\<in>set (bo_calls b). cl_lease (snd x) < length (bo_leases b) \<and> 1 \<le> cl_n (snd x) \<and> cl_n (snd x) \<le> bs_max_n s)
      \<and> (\<forall>i<length (bo_leases b). lease_ok s (bo_leases b ! i)
           \<and> ls_active (bo_leases b ! i) = calls_on i b \<and> calls_on i b \<le> bs_max_requests s)
      \<and> (\<forall>i. bo_lease b = Some i \<longrightarrow> i < length (bo_leases b)))"

lemma lease_ok_updates [simp]:
  "lease_ok s (l\<lparr>ls_draining := d, ls_ready := False\<rparr>) \<longleftrightarrow> lease_ok s (l\<lparr>ls_ready := False\<rparr>)"
  "lease_ok s (l\<lparr>ls_heartbeat := h\<rparr>) = lease_ok s l" "lease_ok s (l\<lparr>ls_active := a\<rparr>) = lease_ok s l"
  "lease_ok s (l\<lparr>ls_probe := p\<rparr>) = lease_ok s l" "lease_ok s (l\<lparr>ls_valid_until := v\<rparr>) = lease_ok s l"
  by (simp_all add: lease_ok_def)

lemma lease_ok_unready: "lease_ok s l \<Longrightarrow> lease_ok s (l\<lparr>ls_ready := False\<rparr>)"
  by (simp add: lease_ok_def)

lemma lease_ok_pause: "lease_ok s l \<Longrightarrow> lease_ok s (pause s' t l)"
  by (simp add: lease_ok_def pause_def)

lemma lease_ok_lose: "lease_ok s l \<Longrightarrow> lease_ok s (lose l)"
  by (simp add: lease_ok_def lose_def)

lemma lease_ok_resume: "lease_ok s l \<Longrightarrow> ls_attested l \<Longrightarrow> lease_ok s (resume l)"
  by (simp add: lease_ok_def resume_def)

lemma lease_ok_verify:
  assumes "verify s body l = Inr l'" "lease_ok s l" "1 \<le> bs_engines s"
  shows "lease_ok s l'" "lease_ok s (l'\<lparr>ls_attested := True\<rparr>)"
  using assms by (auto simp: verify_def lease_ok_def farm_engines_def split: sum.splits if_splits)

lemma active_simps [simp]:
  "ls_active (pause s t l) = ls_active l" "ls_active (lose l) = ls_active l" "ls_active (resume l) = ls_active l"
  "ls_active (stop_lost l) = ls_active l" "ls_attested (pause s t l) = ls_attested l"
  by (simp_all add: pause_def lose_def resume_def stop_lost_def)

lemma active_answered [simp]: "ls_active (heartbeat_answered s t b r l) = ls_active l"
  by (auto simp: heartbeat_answered_def renewal_acked_def Let_def split: heartbeat_stage.splits reply.splits sum.splits)

lemma active_op: "lease_op False s t b l l' \<Longrightarrow> ls_active l' = ls_active l"
  by (induction rule: lease_op.induct) (auto simp: heartbeat_woken_def Let_def dest: verify_keeps)

lemma lease_ok_renewal: "lease_ok s l \<Longrightarrow> lease_ok s (renewal_acked s' t b sent body l)"
  by (auto simp: renewal_acked_def stop_lost_def Let_def intro: lease_ok_lose lease_ok_pause lease_ok_resume split: sum.splits)

lemma lease_ok_op:
  assumes "lease_op m s t b l l'" "lease_ok s l" "1 \<le> bs_engines s"
  shows "lease_ok s l'"
  using assms
proof (induction rule: lease_op.induct)
  case (serving body l l')
  then show ?case by (simp add: lease_ok_resume lease_ok_verify)
next
  case (woken l)
  then show ?case by (simp add: heartbeat_woken_def Let_def lease_ok_lose)
next
  case (answered l r)
  then show ?case
    by (auto simp: heartbeat_answered_def stop_lost_def lease_ok_renewal lease_ok_lose lease_ok_pause
        split: heartbeat_stage.splits reply.splits)
qed (simp_all add: lease_ok_unready lease_ok_lose lease_ok_verify lease_ok_pause)

lemma length_fail_begin [simp]: "length (bo_leases (fail_begin b)) = length (bo_leases b)"
  by (simp add: bo_leases_fail_begin split: option.splits)

lemma fail_begin_simps [simp]:
  "bo_lease (fail_begin b) = bo_lease b" "bo_calls (fail_begin b) = bo_calls b" "bo_phase (fail_begin b) = bo_phase b"
  "bo_uncertain_until (fail_begin b) = bo_uncertain_until b" "bo_pending_acquire (fail_begin b) = bo_pending_acquire b"
  by (simp_all add: fail_begin_def start_release_def split: option.splits)

lemma leases_react_length:
  "\<not> (\<exists>r. e = AcquireReply r) \<Longrightarrow> length (bo_leases (react s w t e b)) = length (bo_leases b)"
  by (cases e)
    (auto simp: react_def begin_phase_def touch_def reconcile_def start_acquire_def pin_candidates_def Let_def probe_farm_def
       upload_reply_def poll_status_def status_reply_def abort_prepare_def finish_release_def cancel_release_def
       settle_release_def end_phase_def start_release_def watch_phase_def heartbeat_wake_def heartbeat_reply_def
       admit_def finish_request_def on_lease_calls watch_lease_def update_urls_def
     split: option.splits sum.splits lock_stage.splits list.splits reply.splits ending.splits policy.splits if_splits)

lemma calls_react: "\<not> moves_calls e \<Longrightarrow> bo_calls (react s w t e b) = bo_calls b"
  by (cases e)
    (auto simp: moves_calls_def react_def begin_phase_def touch_def reconcile_def start_acquire_def pin_candidates_def Let_def probe_farm_def
       acquire_reply_def acquire_acked_def upload_reply_def poll_status_def status_reply_def abort_prepare_def
       finish_release_def cancel_release_def settle_release_def end_phase_def start_release_def watch_phase_def
       heartbeat_wake_def heartbeat_reply_def watch_lease_def update_urls_def
     split: option.splits sum.splits lock_stage.splits list.splits reply.splits if_splits)

lemma lease_react:
  "\<not> (\<exists>r. e = AcquireReply r) \<Longrightarrow> bo_lease (react s w t e b) = None \<or> bo_lease (react s w t e b) = bo_lease b"
  by (cases e)
    (auto simp: react_def begin_phase_def touch_def reconcile_def start_acquire_def pin_candidates_def Let_def probe_farm_def
       upload_reply_def poll_status_def status_reply_def abort_prepare_def finish_release_def cancel_release_def
       settle_release_def end_phase_def start_release_def watch_phase_def heartbeat_wake_def heartbeat_reply_def
       admit_def finish_request_def on_lease_calls watch_lease_def update_urls_def
     split: option.splits sum.splits lock_stage.splits list.splits reply.splits ending.splits policy.splits if_splits)

lemma lease_acquired:
  "bo_leases (acquire_reply s r b) = bo_leases b \<and> bo_lease (acquire_reply s r b) = bo_lease b
    \<or> length (bo_leases (acquire_reply s r b)) = Suc (length (bo_leases b)) \<and>
      (\<exists>l. bo_leases (acquire_reply s r b) ! length (bo_leases b) = l \<and> ls_active l = 0 \<and> lease_ok s l)
      \<and> bo_lease (acquire_reply s r b) = Some (length (bo_leases b))"
  if "1 \<le> bs_engines s" "\<forall>i. bo_lease b = Some i \<longrightarrow> i < length (bo_leases b)" "bo_lease b = None" for s b
  using that
  by (auto simp: acquire_reply_def acquire_acked_def Let_def bo_leases_fail_begin bo_leases_on_lease fresh_lease_def
      accept_engines_def lease_ok_def nth_append
      split: lock_stage.splits reply.splits option.splits sum.splits if_splits policy.splits)

lemma bo_stage_fail_begin:
  "bo_stage (fail_begin b) = (case bo_lease b of None \<Rightarrow> Free | Some i \<Rightarrow> Draining i False)"
  by (simp add: fail_begin_def start_release_def split: option.splits)

definition stage_ok :: "lock_stage \<Rightarrow> nat option \<Rightarrow> bool" where
  "stage_ok st le =
     (case st of
        Free \<Rightarrow> True | Reconciling _ _ \<Rightarrow> le = None | Hashing _ \<Rightarrow> le = None | Probing _ _ \<Rightarrow> le = None | Acquiring _ _ _ _ \<Rightarrow> le = None
      | Uploading i \<Rightarrow> le = Some i | Loading i \<Rightarrow> le = Some i | StatusSent i \<Rightarrow> le = Some i | Draining i _ \<Rightarrow> le = Some i)"

definition staged :: "borrower \<Rightarrow> bool" where
  "staged b = (stage_ok (bo_stage b) (bo_lease b) \<and> (bo_phase b = None \<longrightarrow> bo_lease b = None \<and> bo_stage b = Free))"

lemma staged_simps [simp]:
  "staged (on_lease i f b) = staged b" "staged (b\<lparr>bo_urls := u\<rparr>) = staged b"
  by (simp_all add: staged_def)

lemma staged_fail_begin: "bo_phase b \<noteq> None \<Longrightarrow> staged (fail_begin b)"
  by (auto simp: staged_def stage_ok_def bo_stage_fail_begin split: option.splits)

lemma staged_phase: "staged b \<Longrightarrow> bo_stage b \<noteq> Free \<Longrightarrow> bo_phase b \<noteq> None"
  by (auto simp: staged_def)

lemma staged_lease: "staged b \<Longrightarrow> stage_ok (bo_stage b) (bo_lease b)"
  by (simp add: staged_def)

lemma staged_acquire_reply:
  assumes "staged b"
  shows "staged (acquire_reply s r b)"
proof (cases "bo_stage b")
  case (Acquiring url rest digest sent)
  then have ph: "bo_phase b \<noteq> None" and le: "bo_lease b = None"
    using assms by (auto simp: staged_def stage_ok_def)
  then have acked: "staged (acquire_acked s url digest sent body b)" for body
    by (auto simp: acquire_acked_def Let_def split: option.splits sum.splits intro!: staged_fail_begin)
      (auto simp: staged_def stage_ok_def)
  show ?thesis
    using ph le by (auto simp: acquire_reply_def Acquiring acked split: reply.splits intro!: staged_fail_begin)
      (auto simp: staged_def stage_ok_def)
qed (use assms in \<open>simp_all add: acquire_reply_def\<close>)

lemma staged_upload_reply:
  assumes "staged b"
  shows "staged (upload_reply s r b)"
proof (cases "bo_stage b")
  case (Uploading i)
  then have ph: "bo_phase b \<noteq> None" and le: "bo_lease b = Some i"
    using assms by (auto simp: staged_def stage_ok_def)
  then show ?thesis
    by (auto simp: upload_reply_def Uploading Let_def split: reply.splits intro!: staged_fail_begin)
      (auto simp: staged_def stage_ok_def)
qed (use assms in \<open>simp_all add: upload_reply_def\<close>)

lemma staged_status_reply:
  assumes "staged b"
  shows "staged (status_reply s t r b)"
proof (cases "bo_stage b")
  case (StatusSent i)
  then have ph: "bo_phase b \<noteq> None" and le: "bo_lease b = Some i"
    using assms by (auto simp: staged_def stage_ok_def)
  then have there: "staged (b\<lparr>bo_stage := Loading i\<rparr>)" "staged ((on_lease i f b)\<lparr>bo_stage := Free\<rparr>)" for f
    by (auto simp: staged_def stage_ok_def)
  show ?thesis
    using ph there by (auto simp: status_reply_def StatusSent Let_def split: reply.splits sum.splits intro!: staged_fail_begin)
qed (use assms in \<open>simp_all add: status_reply_def\<close>)

lemma staged_releases:
  assumes "staged b"
  shows "staged (finish_release s t a b)" "staged (cancel_release s t a b)"
  using assms
  by (auto simp: finish_release_def cancel_release_def settle_release_def staged_def stage_ok_def Let_def
      split: lock_stage.splits)

lemma staged_react:
  assumes "staged b"
  shows "staged (react s w t e b)"
proof (cases e)
  case (Begin x1 x2 x3 x4)
  then show ?thesis
    using assms by (auto simp: react_def begin_phase_def touch_def staged_def stage_ok_def split: option.splits sum.splits if_splits)
next
  case (Reconciled x)
  then show ?thesis
    using assms by (auto simp: react_def reconcile_def start_acquire_def Let_def staged_def stage_ok_def split: lock_stage.splits)
next
  case Hashed
  then show ?thesis
    using assms by (auto simp: react_def pin_candidates_def Let_def staged_def stage_ok_def split: lock_stage.splits)
next
  case (Candidate x y)
  then show ?thesis
    using assms by (auto simp: react_def probe_farm_def staged_def stage_ok_def split: lock_stage.splits list.splits)
next
  case (AcquireReply r)
  then show ?thesis using assms by (simp add: react_def staged_acquire_reply)
next
  case (UploadReply r)
  then show ?thesis using assms by (simp add: react_def staged_upload_reply)
next
  case PollStatus
  then show ?thesis
    using assms by (auto simp: react_def poll_status_def split: lock_stage.splits intro!: staged_fail_begin)
      (auto simp: staged_def stage_ok_def)
next
  case (StatusReply r)
  then show ?thesis using assms by (simp add: react_def staged_status_reply)
next
  case AbortPrepare
  then show ?thesis
    using assms by (auto simp: react_def abort_prepare_def split: lock_stage.splits intro!: staged_fail_begin)
      (auto simp: staged_def stage_ok_def)
next
  case (ReleaseDone a)
  then show ?thesis using assms by (simp add: react_def staged_releases)
next
  case (ReleaseCancelled a)
  then show ?thesis using assms by (simp add: react_def staged_releases)
next
  case (EndPhase p)
  then show ?thesis
    using assms by (auto simp: react_def end_phase_def start_release_def staged_def stage_ok_def split: option.splits if_splits)
next
  case (Touch p)
  then show ?thesis using assms by (auto simp: react_def touch_def staged_def)
next
  case WatchPhase
  then show ?thesis
    using assms by (auto simp: react_def watch_phase_def split: option.splits)
next
  case (Admit p la le pr c)
  then show ?thesis
    using assms by (auto simp: react_def admit_def Let_def staged_def split: option.splits if_splits)
next
  case (Finish c x)
  then show ?thesis
    using assms by (auto simp: react_def finish_request_def on_lease_calls Let_def staged_def
        split: option.splits ending.splits policy.splits)
qed (use assms in \<open>auto simp: react_def heartbeat_wake_def heartbeat_reply_def watch_lease_def
       update_urls_def split: sum.splits if_splits\<close>)

lemma filter_dict_del:
  "dict_wf d \<Longrightarrow> dict_get d c = Some x \<Longrightarrow>
    length (filter P d) = length (filter P (dict_del c d)) + (if P (c, x) then 1 else 0)"
proof (induction d)
  case (Cons a d)
  obtain k v where a: "a = (k, v)" by force
  show ?case
  proof (cases "k = c")
    case True
    then have "dict_del c d = d" using Cons.prems(1) by (auto simp: a dict_wf_def)
    then show ?thesis using Cons.prems True by (auto simp: a)
  next
    case False
    then show ?thesis using Cons by (auto simp: a dict_wf_def)
  qed
qed simp

lemma accounted_quiet:
  assumes "accounted s b" "1 \<le> bs_engines s" "\<not> moves_calls e" "\<not> (\<exists>r. e = AcquireReply r)"
  shows "accounted s (react s w t e b)"
proof -
  let ?b = "react s w t e b"
  have calls: "bo_calls ?b = bo_calls b" using assms(3) by (rule calls_react)
  have len: "length (bo_leases ?b) = length (bo_leases b)" using assms(4) by (rule leases_react_length)
  have "lease_ok s (bo_leases ?b ! i) \<and> ls_active (bo_leases ?b ! i) = calls_on i b" if i: "i < length (bo_leases b)" for i
  proof (rule kept_induct [where P = "\<lambda>l. lease_ok s l \<and> ls_active l = calls_on i b"])
    show "kept (moves_calls e) s t b ?b" by (rule kept_react)
  qed (use assms i in \<open>auto simp: accounted_def active_op intro: lease_ok_op\<close>)
  then show ?thesis
    using assms(1) lease_react [OF assms(4), of s w t b] len calls by (auto simp: accounted_def calls_on_def)
qed

lemma accounted_acquire:
  assumes "accounted s b" "1 \<le> bs_engines s" "staged b"
  shows "accounted s (acquire_reply s r b)"
proof (cases "bo_stage b")
  case (Acquiring url rest digest sent)
  then have none: "bo_lease b = None" using assms(3) by (auto simp: staged_def stage_ok_def)
  let ?b = "acquire_reply s r b"
  have calls: "bo_calls ?b = bo_calls b"
    using calls_react [of "AcquireReply r" s undefined 0 b] by (simp add: moves_calls_def react_def)
  have old: "lease_ok s (bo_leases ?b ! i) \<and> ls_active (bo_leases ?b ! i) = calls_on i b"
    if i: "i < length (bo_leases b)" for i
  proof (rule kept_induct [where P = "\<lambda>l. lease_ok s l \<and> ls_active l = calls_on i b"])
    show "kept False s 0 b ?b" by (rule kept_acquire_reply)
  qed (use assms i in \<open>auto simp: accounted_def active_op intro: lease_ok_op\<close>)
  have fresh: "calls_on (length (bo_leases b)) b = 0"
    using assms(1) by (auto simp: accounted_def calls_on_def filter_empty_conv)
  have bound: "\<forall>i. bo_lease b = Some i \<longrightarrow> i < length (bo_leases b)" by (simp add: none)
  from lease_acquired [OF assms(2) bound none, of r] show ?thesis
  proof (elim disjE conjE exE)
    assume "bo_leases ?b = bo_leases b" "bo_lease ?b = bo_lease b"
    then show ?thesis using assms(1) calls by (simp add: accounted_def calls_on_def)
  next
    fix l assume new: "length (bo_leases ?b) = Suc (length (bo_leases b))" "bo_leases ?b ! length (bo_leases b) = l"
      "ls_active l = 0" "lease_ok s l" "bo_lease ?b = Some (length (bo_leases b))"
    have "calls_on i ?b = calls_on i b" for i by (simp add: calls_on_def calls)
    then show ?thesis
      using assms(1) new old fresh unfolding accounted_def
      by (auto simp: calls less_Suc_eq)
  qed
qed (use assms(1) in \<open>simp_all add: acquire_reply_def\<close>)

lemma accounted_admit:
  assumes "accounted s b" "\<not> dict_has (bo_calls b) c" "admit t p la le pr c b = Some b'"
  shows "accounted s b'"
proof -
  obtain i where i: "bo_lease b = Some i" using assms(3) by (cases "bo_lease b") (auto simp: admit_def)
  obtain n where py: "py_n p = Some n"
    using assms(3) i by (cases "py_n p") (auto simp: admit_def Let_def split: if_splits)
  have n: "1 \<le> n" "n \<le> ls_max_n (bo_leases b ! i)"
    and el: "eligible t b (bo_leases b ! i)" "ls_active (bo_leases b ! i) < ls_max_requests (bo_leases b ! i)"
    and b': "b' = (on_lease i (\<lambda>l. l\<lparr>ls_active := ls_active l + 1\<rparr>) b)
       \<lparr>bo_calls := dict_put c \<lparr>cl_lease = i, cl_n = n\<rparr> (bo_calls b)\<rparr>"
    using assms(3) by (auto simp: admit_def Let_def i py split: if_splits)
  have lt: "i < length (bo_leases b)" using assms(1) i by (simp add: accounted_def)
  have ok: "lease_ok s (bo_leases b ! i)" using assms(1) lt by (simp add: accounted_def)
  have lim: "ls_max_n (bo_leases b ! i) = bs_max_n s" "ls_max_requests (bo_leases b ! i) = bs_max_requests s"
    using ok el(1) by (auto simp: lease_ok_def eligible_def)
  have put: "dict_put c x (bo_calls b) = bo_calls b @ [(c, x)]" for x
    using assms(2) by (intro dict_put_fresh) (simp add: dict_has_iff)
  have wf: "dict_wf (bo_calls b')" using assms(1) by (simp add: b' accounted_def)
  have on: "calls_on j b' = calls_on j b + (if j = i then 1 else 0)" for j by (simp add: calls_on_def b' put)
  show ?thesis
    using assms(1) wf on lt n lim el(2)
    by (auto simp: accounted_def b' put bo_leases_on_lease nth_list_update)
qed

lemma accounted_leave:
  assumes "accounted s b" "dict_get (bo_calls b) c = Some cl" "\<And>l. ls_active (f l) = ls_active l"
    "\<And>l. lease_ok s l \<Longrightarrow> lease_ok s (f l)"
  shows "accounted s ((on_lease (cl_lease cl) (\<lambda>l. (f l)\<lparr>ls_active := ls_active (f l) - 1\<rparr>) b)\<lparr>bo_calls := dict_del c (bo_calls b)\<rparr>)"
    (is "accounted s ?b")
proof -
  have wf: "dict_wf (bo_calls b)" using assms(1) by (simp add: accounted_def)
  have on: "calls_on j b = calls_on j ?b + (if j = cl_lease cl then 1 else 0)" for j
    using filter_dict_del [OF wf assms(2)] by (auto simp: calls_on_def)
  have sub: "set (dict_del c (bo_calls b)) \<subseteq> set (bo_calls b)" by (auto simp: AList.delete_eq)
  have lt: "cl_lease cl < length (bo_leases b)"
    using assms(1) map_of_SomeD [OF assms(2)] by (force simp: accounted_def)
  have le: "calls_on j ?b \<le> bs_max_requests s" if "j < length (bo_leases b)" for j
    using assms(1) on [of j] that by (auto simp: accounted_def split: if_splits)
  show ?thesis
    using assms(1,3,4) wf on sub lt le by (auto simp: accounted_def bo_leases_on_lease nth_list_update subset_iff)
qed

lemma accounted_finish:
  assumes "accounted s b"
  shows "accounted s (snd (finish_request s t ab c e b))"
proof (cases "dict_get (bo_calls b) c")
  case (Some cl)
  have failed: "ls_active (request_failed s t st b l) = ls_active l"
    "lease_ok s l \<Longrightarrow> lease_ok s (request_failed s t st b l)" for st l
    by (auto simp: request_failed_def lease_ok_lose lease_ok_pause)
  show ?thesis
    using accounted_leave [OF assms Some, where f = lose] accounted_leave [OF assms Some, where f = "\<lambda>l. l"]
      accounted_leave [OF assms Some, where f = "request_failed s t st b" for st] failed
    by (auto simp: finish_request_def Some Let_def on_lease_calls lease_ok_lose id_def simp del: One_nat_def
        split: ending.splits policy.splits option.splits)
qed (use assms in \<open>simp add: finish_request_def\<close>)

lemma accounted_react:
  assumes "accounted s b" "1 \<le> bs_engines s" "staged b"
  shows "accounted s (react s w t e b)"
proof (cases e)
  case (AcquireReply r)
  then show ?thesis using accounted_acquire [OF assms] by (simp add: react_def)
next
  case (Admit p la le pr c)
  then show ?thesis using assms(1) by (auto simp: react_def intro: accounted_admit split: option.splits)
next
  case (Finish c x)
  then show ?thesis using accounted_finish [OF assms(1)] by (simp add: react_def)
qed (intro accounted_quiet [OF assms(1,2)]; simp add: moves_calls_def)+

lemma accounted_start: "accounted s (new_borrower urls)" "staged (new_borrower urls)"
  by (simp_all add: new_borrower_def accounted_def staged_def stage_ok_def)

lemma accounted_run:
  assumes "(borrow_step s w)\<^sup>*\<^sup>* (start_of urls) y" "1 \<le> bs_engines s"
  shows "accounted s (sy_borrower y) \<and> staged (sy_borrower y)"
  using assms(1)
proof (induction rule: rtranclp_induct)
  case base
  then show ?case by (simp add: start_of_def accounted_start)
next
  case (step y y')
  obtain t e where "y' = advance s w t e y" using step.hyps(2) by (auto elim: borrow_stepE)
  then show ?case
    using step.IH accounted_react [OF _ assms(2)] staged_react by (auto simp: advance_def Let_def)
qed

text \<open>Over every run, the counter of active requests of every lease, the current and the earlier ones, is
  exactly the number of its requests in flight, also after cancellations, timeouts and losses; it never
  exceeds the configured limit, every admitted request asks for between one and the allowed number of
  completions, and a lease that admits has been attested on at least one engine, so that the load per
  engine is defined.\<close>

theorem active_requests_accounted:
  assumes "(borrow_step s w)\<^sup>*\<^sup>* (start_of urls) y" "1 \<le> bs_engines s" "i < leases_of y"
  shows "ls_active (lease_at y i) = length (filter (\<lambda>x. cl_lease (snd x) = i) (bo_calls (sy_borrower y)))
    \<and> ls_active (lease_at y i) \<le> bs_max_requests s
    \<and> (\<forall>x\<in>set (bo_calls (sy_borrower y)). cl_lease (snd x) < leases_of y \<and> 1 \<le> cl_n (snd x) \<and> cl_n (snd x) \<le> bs_max_n s)
    \<and> (eligible t (sy_borrower y) (lease_at y i) \<longrightarrow> ls_attested (lease_at y i) \<and> 1 \<le> ls_engines (lease_at y i))"
  using accounted_run [OF assms(1,2)] assms(3)
  by (auto simp: accounted_def calls_on_def lease_ok_def eligible_def)

section \<open>One farm at a time\<close>

definition over :: "real \<Rightarrow> real option \<Rightarrow> bool" where
  "over t c = (case c of None \<Rightarrow> False | Some x \<Rightarrow> x \<le> t)"

definition fence :: "settings \<Rightarrow> real \<Rightarrow> borrower \<Rightarrow> real option list \<Rightarrow> nat list \<Rightarrow> bool" where
  "fence s now b cl co =
     (0 \<le> now \<and> length co = length (bo_leases b) \<and> list_all (over now) (butlast cl)
      \<and> (\<forall>i. bo_lease b = Some i \<longrightarrow> i < length (bo_leases b) \<and> cl \<noteq> [] \<and> co ! i = length cl - 1)
      \<and> (\<forall>i<length (bo_leases b). bo_lease b \<noteq> Some i \<longrightarrow> ls_heartbeat (bo_leases b ! i) = Stopped)
      \<and> (bo_pending_acquire b \<noteq> None \<longrightarrow> bo_uncertain_until b = None)
      \<and> (bo_uncertain_until b = None \<longrightarrow> cl \<noteq> [])
      \<and> (\<forall>u. bo_uncertain_until b = Some u \<longrightarrow>
           (if bo_lease b = None then list_all (over (max now u)) cl
            else over (now + bs_lease_seconds s + bs_rpc_timeout s) (last cl))))"

definition stage_fenced :: "real \<Rightarrow> borrower \<Rightarrow> bool" where
  "stage_fenced now b =
     (case bo_stage b of
        Hashing _ \<Rightarrow> bo_pending_acquire b = None \<and> (\<exists>u. bo_uncertain_until b = Some u \<and> u \<le> now)
      | Probing _ _ \<Rightarrow> bo_pending_acquire b = None \<and> (\<exists>u. bo_uncertain_until b = Some u \<and> u \<le> now)
      | Acquiring _ _ _ _ \<Rightarrow> bo_uncertain_until b = None
      | _ \<Rightarrow> True)"

lemma over_later: "over t c \<Longrightarrow> t \<le> t' \<Longrightarrow> over t' c"
  by (auto simp: over_def split: option.splits)

lemma over_all_later: "list_all (over t) cl \<Longrightarrow> t \<le> t' \<Longrightarrow> list_all (over t') cl"
  by (auto simp: list_all_iff intro: over_later)

text \<open>A change that leaves the protocol alone.\<close>

lemma fenceD:
  assumes "fence s now b cl co"
  shows "0 \<le> now" "length co = length (bo_leases b)" "list_all (over now) (butlast cl)"
    "bo_lease b = Some i \<Longrightarrow> i < length (bo_leases b) \<and> cl \<noteq> [] \<and> co ! i = length cl - 1"
    "i < length (bo_leases b) \<Longrightarrow> bo_lease b \<noteq> Some i \<Longrightarrow> ls_heartbeat (bo_leases b ! i) = Stopped"
    "bo_pending_acquire b = Some x \<Longrightarrow> bo_uncertain_until b = None"
    "bo_uncertain_until b = None \<Longrightarrow> cl \<noteq> []"
    "bo_uncertain_until b = Some u \<Longrightarrow> bo_lease b = None \<Longrightarrow> list_all (over (max now u)) cl"
    "bo_uncertain_until b = Some u \<Longrightarrow> bo_lease b = Some i \<Longrightarrow> over (now + bs_lease_seconds s + bs_rpc_timeout s) (last cl)"
  using assms unfolding fence_def by simp_all

lemma fenceI:
  assumes "0 \<le> now" "length co = length (bo_leases b)" "list_all (over now) (butlast cl)"
    "\<And>i. bo_lease b = Some i \<Longrightarrow> i < length (bo_leases b) \<and> cl \<noteq> [] \<and> co ! i = length cl - 1"
    "\<And>i. i < length (bo_leases b) \<Longrightarrow> bo_lease b \<noteq> Some i \<Longrightarrow> ls_heartbeat (bo_leases b ! i) = Stopped"
    "\<And>x. bo_pending_acquire b = Some x \<Longrightarrow> bo_uncertain_until b = None"
    "bo_uncertain_until b = None \<Longrightarrow> cl \<noteq> []"
    "\<And>u. bo_uncertain_until b = Some u \<Longrightarrow> bo_lease b = None \<Longrightarrow> list_all (over (max now u)) cl"
    "\<And>u i. bo_uncertain_until b = Some u \<Longrightarrow> bo_lease b = Some i \<Longrightarrow> over (now + bs_lease_seconds s + bs_rpc_timeout s) (last cl)"
  shows "fence s now b cl co"
  unfolding fence_def using assms by (cases "bo_lease b"; cases "bo_pending_acquire b") auto

lemma fence_frame:
  assumes f: "fence s now b cl co" and t: "now \<le> t"
    and un: "bo_uncertain_until b' = bo_uncertain_until b" and pe: "bo_pending_acquire b' = bo_pending_acquire b"
    and le: "bo_lease b' = bo_lease b" and len: "length (bo_leases b') = length (bo_leases b)"
    and hb: "\<And>i. i < length (bo_leases b) \<Longrightarrow> ls_heartbeat (bo_leases b ! i) = Stopped \<Longrightarrow> ls_heartbeat (bo_leases b' ! i) = Stopped"
  shows "fence s t b' cl co"
proof (rule fenceI)
  show "list_all (over t) (butlast cl)" using fenceD(3) [OF f] t by (rule over_all_later)
next
  fix i assume "i < length (bo_leases b')" "bo_lease b' \<noteq> Some i"
  then show "ls_heartbeat (bo_leases b' ! i) = Stopped" using fenceD(5) [OF f, of i] hb [of i] len le by simp
next
  fix u assume "bo_uncertain_until b' = Some u" "bo_lease b' = None"
  then have "list_all (over (max now u)) cl" using fenceD(8) [OF f] un le by simp
  then show "list_all (over (max t u)) cl" using t by (auto elim: over_all_later)
next
  fix u i assume "bo_uncertain_until b' = Some u" "bo_lease b' = Some i"
  then have "over (now + bs_lease_seconds s + bs_rpc_timeout s) (last cl)" using fenceD(9) [OF f] un le by simp
  then show "over (t + bs_lease_seconds s + bs_rpc_timeout s) (last cl)" using t by (auto elim: over_later)
qed (use fenceD(1,2,4,6,7) [OF f] t un pe le len in auto)

lemma heartbeat_op:
  assumes "lease_op m s t b l l'" "ls_heartbeat l = Stopped"
  shows "ls_heartbeat l' = Stopped"
  using assms
  by (induction rule: lease_op.induct)
    (auto simp: lose_def pause_def resume_def heartbeat_answered_def dest: verify_keeps)

lemma heartbeat_react:
  "i < length (bo_leases b) \<Longrightarrow> ls_heartbeat (bo_leases b ! i) = Stopped
    \<Longrightarrow> ls_heartbeat (bo_leases (react s w t e b) ! i) = Stopped"
  by (rule kept_induct [OF kept_react]) (auto intro: heartbeat_op)

text \<open>The events that leave the protocol of claims alone.\<close>

definition neutral :: "'a event \<Rightarrow> bool" where
  "neutral e = (case e of
     Reconciled _ \<Rightarrow> False | Hashed \<Rightarrow> False | Candidate _ _ \<Rightarrow> False | AcquireReply _ \<Rightarrow> False | ReleaseDone _ \<Rightarrow> False
   | ReleaseCancelled _ \<Rightarrow> False | Wake _ \<Rightarrow> False | _ \<Rightarrow> True)"

definition claiming :: "lock_stage \<Rightarrow> bool" where
  "claiming st = (case st of Hashing _ \<Rightarrow> True | Probing _ _ \<Rightarrow> True | Acquiring _ _ _ _ \<Rightarrow> True | _ \<Rightarrow> False)"

lemma claiming_fail_begin [simp]: "\<not> claiming (bo_stage (fail_begin b))"
  by (simp add: bo_stage_fail_begin claiming_def split: option.splits)

lemma claiming_simps [simp]:
  "\<not> claiming Free" "\<not> claiming (Reconciling n d)" "\<not> claiming (Uploading i)" "\<not> claiming (Loading i)"
  "\<not> claiming (StatusSent i)" "\<not> claiming (Draining i x)"
  by (simp_all add: claiming_def)

lemma neutral_status: "bo_stage (status_reply s t r b) = bo_stage b \<or> \<not> claiming (bo_stage (status_reply s t r b))"
  by (cases "bo_stage b") (auto simp: status_reply_def Let_def split: reply.splits sum.splits)

lemma neutral_stage:
  assumes "neutral e"
  shows "bo_stage (react s w t e b) = bo_stage b \<or> \<not> claiming (bo_stage (react s w t e b))"
proof (cases e)
  case (StatusReply r)
  then show ?thesis using neutral_status by (simp add: react_def)
next
  case (Finish c x)
  then show ?thesis
    by (auto simp: react_def finish_request_def on_lease_calls Let_def split: option.splits ending.splits policy.splits)
next
  case (Admit p la le pr c)
  then show ?thesis by (auto simp: react_def admit_def Let_def split: option.splits)
next
  case (UploadReply r)
  then show ?thesis by (auto simp: react_def upload_reply_def Let_def split: lock_stage.splits reply.splits)
qed (use assms in \<open>auto simp: neutral_def react_def begin_phase_def touch_def poll_status_def abort_prepare_def
       end_phase_def start_release_def watch_phase_def heartbeat_reply_def watch_lease_def update_urls_def
     split: option.splits sum.splits lock_stage.splits if_splits\<close>)

lemma neutral_fields:
  assumes "neutral e"
  shows "bo_uncertain_until (react s w t e b) = bo_uncertain_until b
    \<and> bo_pending_acquire (react s w t e b) = bo_pending_acquire b \<and> bo_lease (react s w t e b) = bo_lease b"
proof (cases e)
  case (StatusReply r)
  then show ?thesis
    by (auto simp: react_def status_reply_def Let_def split: lock_stage.splits reply.splits sum.splits)
next
  case (Finish c x)
  then show ?thesis
    by (auto simp: react_def finish_request_def on_lease_calls Let_def split: option.splits ending.splits policy.splits)
next
  case (Admit p la le pr c)
  then show ?thesis by (auto simp: react_def admit_def Let_def split: option.splits)
next
  case (UploadReply r)
  then show ?thesis by (auto simp: react_def upload_reply_def Let_def split: lock_stage.splits reply.splits)
qed (use assms in \<open>auto simp: neutral_def react_def begin_phase_def touch_def poll_status_def abort_prepare_def
       end_phase_def start_release_def watch_phase_def heartbeat_reply_def watch_lease_def update_urls_def
     split: option.splits sum.splits lock_stage.splits if_splits\<close>)

lemma stage_fenced_frame:
  assumes "stage_fenced now b" "now \<le> t" "bo_uncertain_until b' = bo_uncertain_until b"
    "bo_pending_acquire b' = bo_pending_acquire b" "bo_stage b' = bo_stage b \<or> \<not> claiming (bo_stage b')"
  shows "stage_fenced t b'"
  using assms by (auto simp: stage_fenced_def claiming_def split: lock_stage.splits)

lemma fence_neutral:
  assumes "neutral e" "fence s now b cl co" "stage_fenced now b" "now \<le> t"
  shows "fence s t (react s w t e b) cl co \<and> stage_fenced t (react s w t e b)"
proof
  have "\<not> (\<exists>r. e = AcquireReply r)" using assms(1) by (auto simp: neutral_def)
  then show "fence s t (react s w t e b) cl co"
    using assms neutral_fields [OF assms(1)] by (intro fence_frame [OF assms(2,4)] leases_react_length heartbeat_react) auto
  show "stage_fenced t (react s w t e b)"
    using neutral_fields [OF assms(1), of s w t b] neutral_stage [OF assms(1), of s w t b]
    by (intro stage_fenced_frame [OF assms(3,4)]) auto
qed

lemma over_Some [simp]: "over t (Some x) = (x \<le> t)" "\<not> over t None"
  by (simp_all add: over_def)

lemma over_closed_last:
  assumes "list_all (over t) (butlast cl)" "x \<le> t"
  shows "list_all (over t) (cl[length cl - 1 := Some x])"
proof (cases cl rule: rev_cases)
  case (snoc ys y)
  then show ?thesis using assms by (simp add: list_update_append)
qed simp

lemma update_last:
  assumes "cl \<noteq> []"
  shows "cl[length cl - Suc 0 := x] = butlast cl @ [x]"
  using assms by (cases cl rule: rev_cases) (simp_all add: list_update_append)

lemma butlast_update_last [simp]: "butlast (cl[length cl - Suc 0 := x]) = butlast cl"
  by (cases "cl = []") (simp_all add: update_last)

lemma last_update_last: "cl \<noteq> [] \<Longrightarrow> last (cl[length cl - Suc 0 := x]) = x"
  by (simp add: update_last)

lemma fence_same:
  assumes "fence s now b cl co" "now \<le> t"
    "bo_uncertain_until b' = bo_uncertain_until b" "bo_pending_acquire b' = bo_pending_acquire b" "bo_lease b' = bo_lease b"
    "bo_leases b' = bo_leases b"
  shows "fence s t b' cl co"
  using assms by (intro fence_frame [OF assms(1,2)]) auto

text \<open>Without a lease: what is certain to be over.\<close>

lemma fence_free:
  assumes f: "fence s now b cl co" and t: "now \<le> t" and le: "bo_lease b = None" "bo_lease b' = None"
    and ls: "bo_leases b' = bo_leases b" and all: "list_all (over t) cl'" and len: "length cl' = length cl"
    and un: "bo_uncertain_until b' = Some 0" and pe: "bo_pending_acquire b' = None"
  shows "fence s t b' cl' co"
proof (rule fenceI)
  show "list_all (over t) (butlast cl')" using all by (auto simp: list_all_iff dest: in_set_butlastD)
  show "list_all (over (max t u)) cl'" for u using all by (rule over_all_later) simp
qed (use fenceD(1,2,5) [OF f] t le ls un pe in auto)

lemma fence_reconciled:
  assumes f: "fence s now b cl co" and sf: "stage_fenced now b" and t: "now \<le> t" and st: "staged b"
    and cl': "cl' = (if bo_pending_acquire b \<noteq> None \<and> bo_pending_acquire (reconcile s t x b) = None
                     then cl[length cl - 1 := Some t] else cl)"
  shows "fence s t (reconcile s t x b) cl' co \<and> stage_fenced t (reconcile s t x b)"
proof (cases "bo_stage b")
  case (Reconciling n d)
  have le: "bo_lease b = None" using st by (simp add: staged_def stage_ok_def Reconciling)
  have go: "fence s t (start_acquire s t n d b1) cl1 co \<and> stage_fenced t (start_acquire s t n d b1)"
    if "fence s t b1 cl1 co" for b1 cl1
  proof -
    have "fence s t (start_acquire s t n d b1) cl1 co"
      by (rule fence_same [OF that]) (auto simp: start_acquire_def Let_def)
    moreover have "bo_pending_acquire b1 = None" if "bo_uncertain_until b1 \<noteq> None"
      using fenceD(6) [OF \<open>fence s t b1 cl1 co\<close>] that by (cases "bo_pending_acquire b1") auto
    ultimately show ?thesis
      by (auto simp: start_acquire_def stage_fenced_def Let_def split: option.splits)
  qed
  have all: "list_all (over t) (cl[length cl - 1 := Some t])"
    using fenceD(3) [OF f] t by (intro over_closed_last) (auto elim: over_all_later)
  have pend: "bo_pending_acquire (start_acquire s t n d b1) = bo_pending_acquire b1" for b1
    by (simp add: start_acquire_def Let_def)
  show ?thesis
  proof (cases "bo_pending_acquire b \<noteq> None \<and> x")
    case True
    have "fence s t (b\<lparr>bo_pending_acquire := None, bo_uncertain_until := Some 0\<rparr>) (cl[length cl - 1 := Some t]) co"
      by (rule fence_free [OF f t le]) (use all le in auto)
    then show ?thesis using True go cl' by (auto simp: reconcile_def Reconciling pend)
  next
    case False
    have "fence s t b cl co" using f t by (rule fence_same) auto
    then show ?thesis using False go cl' by (auto simp: reconcile_def Reconciling pend)
  qed
next
  case Free
  then show ?thesis using fence_same [OF f t, of b] stage_fenced_frame [OF sf t, of b] cl' by (auto simp: reconcile_def)
qed (use fence_same [OF f t, of b] stage_fenced_frame [OF sf t, of b] cl' in \<open>auto simp: reconcile_def\<close>)

lemma fence_pinned:
  assumes f: "fence s now b cl co" and sf: "stage_fenced now b" and t: "now \<le> t"
  shows "fence s t (pin_candidates b) cl co \<and> stage_fenced t (pin_candidates b)"
proof
  show "fence s t (pin_candidates b) cl co"
    by (rule fence_same [OF f t]) (auto simp: pin_candidates_def Let_def split: lock_stage.splits)
  show "stage_fenced t (pin_candidates b)"
    using sf t by (auto simp: pin_candidates_def stage_fenced_def Let_def split: lock_stage.splits)
qed

lemma fence_candidate:
  assumes f: "fence s now b cl co" and sf: "stage_fenced now b" and t: "now \<le> t" and st: "staged b"
    and cl': "cl' = (case (bo_stage b, bo_stage (probe_farm t x y b)) of
                       (Probing _ _, Acquiring _ _ _ _) \<Rightarrow> cl @ [None] | _ \<Rightarrow> cl)"
  shows "fence s t (probe_farm t x y b) cl' co \<and> stage_fenced t (probe_farm t x y b)"
proof (cases "bo_stage b")
  case (Probing us d)
  have le: "bo_lease b = None" using st by (simp add: staged_def stage_ok_def Probing)
  obtain u where u: "bo_uncertain_until b = Some u" "u \<le> now" and pe: "bo_pending_acquire b = None"
    using sf by (auto simp: stage_fenced_def Probing)
  have all: "list_all (over t) cl"
    using fenceD(8) [OF f u(1) le] u(2) t by (auto elim: over_all_later)
  have sent: "fence s t b' (cl @ [None]) co"
    if "bo_uncertain_until b' = None" "bo_lease b' = None" "bo_leases b' = bo_leases b" for b'
    by (rule fenceI) (use that fenceD(1,2,5) [OF f] t all le in auto)
  show ?thesis
  proof (cases us)
    case Nil
    then show ?thesis
      using fence_same [OF f t, of "b\<lparr>bo_stage := Free\<rparr>"] cl' by (simp add: probe_farm_def Probing stage_fenced_def)
  next
    case (Cons a rest)
    then show ?thesis
      using fence_same [OF f t, of "b\<lparr>bo_stage := Probing rest d\<rparr>"] sent le u pe t cl'
      by (auto simp: probe_farm_def Probing stage_fenced_def)
  qed
qed (use fence_same [OF f t, of b] stage_fenced_frame [OF sf t, of b] cl' in \<open>auto simp: probe_farm_def\<close>)

text \<open>A lease has been made: still doubtful, or acknowledged.\<close>

lemma fence_new:
  assumes f: "fence s now b cl co" and t: "now \<le> t" and le: "bo_lease b = None" and un: "bo_uncertain_until b = None"
    and le': "bo_lease b' = Some (length (bo_leases b))" and len: "length (bo_leases b') = Suc (length (bo_leases b))"
    and old: "\<And>i. i < length (bo_leases b) \<Longrightarrow> bo_leases b' ! i = bo_leases b ! i"
    and un': "bo_uncertain_until b' = None \<and> cl' = cl
       \<or> bo_uncertain_until b' = Some 0 \<and> bo_pending_acquire b' = None \<and> cl' = cl[length cl - 1 := Some (t + bs_lease_seconds s)]"
    and pos: "0 \<le> bs_rpc_timeout s"
  shows "fence s t b' cl' (co @ [length cl - 1])"
proof (rule fenceI)
  show "list_all (over t) (butlast cl')"
    using un' over_all_later [OF fenceD(3) [OF f] t] by auto
  fix i assume "i < length (bo_leases b')" "bo_lease b' \<noteq> Some i"
  then show "ls_heartbeat (bo_leases b' ! i) = Stopped"
    using fenceD(5) [OF f, of i] old [of i] len le le' by (auto simp: less_Suc_eq)
qed (use fenceD(1,2) [OF f] fenceD(7) [OF f un] t le' len un' pos in \<open>auto simp: nth_append last_update_last\<close>)

definition reserved :: "borrower \<Rightarrow> borrower \<Rightarrow> bool" where
  "reserved b b' =
     (bo_lease b' = Some (length (bo_leases b)) \<and> length (bo_leases b') = Suc (length (bo_leases b))
      \<and> (\<forall>i<length (bo_leases b). bo_leases b' ! i = bo_leases b ! i))"

lemma acquire_outcomes:
  fixes s :: settings and b :: borrower and r :: "farm_body reply"
  assumes "bo_stage b = Acquiring url rest d sent" "bo_lease b = None" "bo_uncertain_until b = None"
  defines "b' \<equiv> acquire_reply s r b"
  shows "bo_stage b' = Probing rest d \<and> bo_lease b' = None \<and> bo_leases b' = bo_leases b
      \<and> bo_uncertain_until b' = Some 0 \<and> bo_pending_acquire b' = None
    \<or> bo_stage b' = Free \<and> bo_lease b' = None \<and> bo_leases b' = bo_leases b
      \<and> bo_uncertain_until b' = None \<and> bo_pending_acquire b' = bo_pending_acquire b
    \<or> bo_stage b' = Draining (length (bo_leases b)) False \<and> reserved b b' \<and> bo_uncertain_until b' = None
      \<and> bo_pending_acquire b' = bo_pending_acquire b
    \<or> (bo_stage b' = Uploading (length (bo_leases b)) \<or> bo_stage b' = Loading (length (bo_leases b)))
      \<and> reserved b b' \<and> bo_uncertain_until b' = Some 0 \<and> bo_pending_acquire b' = None"
  using assms
  by (auto simp: acquire_reply_def acquire_acked_def reserved_def Let_def bo_stage_fail_begin bo_leases_fail_begin bo_leases_on_lease
      nth_append split: reply.splits option.splits sum.splits)

lemma fence_acquire:
  assumes f: "fence s now b cl co" and sf: "stage_fenced now b" and t: "now \<le> t" and st: "staged b"
    and pos: "0 \<le> bs_rpc_timeout s"
    and cl': "cl' = (case (bo_stage b, bo_stage (acquire_reply s r b)) of
                (Acquiring _ _ _ _, Probing _ _) \<Rightarrow> cl[length cl - 1 := Some t]
              | (Acquiring _ _ _ _, Uploading _) \<Rightarrow> cl[length cl - 1 := Some (t + bs_lease_seconds s)]
              | (Acquiring _ _ _ _, Loading _) \<Rightarrow> cl[length cl - 1 := Some (t + bs_lease_seconds s)]
              | _ \<Rightarrow> cl)"
    and co': "co' = co @ replicate (length (bo_leases (acquire_reply s r b)) - length (bo_leases b)) (length cl - 1)"
  shows "fence s t (acquire_reply s r b) cl' co' \<and> stage_fenced t (acquire_reply s r b)"
proof (cases "bo_stage b")
  case (Acquiring url rest d sent)
  have le: "bo_lease b = None" using st by (simp add: staged_def stage_ok_def Acquiring)
  have un: "bo_uncertain_until b = None" using sf by (simp add: stage_fenced_def Acquiring)
  have all: "list_all (over t) (cl[length cl - 1 := Some t])"
    using fenceD(3) [OF f] t by (intro over_closed_last) (auto elim: over_all_later)
  let ?b = "acquire_reply s r b"
  from acquire_outcomes [OF Acquiring le un, of s r] show ?thesis
  proof (elim disjE)
    assume o: "bo_stage ?b = Probing rest d \<and> bo_lease ?b = None \<and> bo_leases ?b = bo_leases b
      \<and> bo_uncertain_until ?b = Some 0 \<and> bo_pending_acquire ?b = None"
    have "fence s t ?b (cl[length cl - 1 := Some t]) co"
      by (rule fence_free [OF f t le]) (use o all in auto)
    then show ?thesis using o fenceD(1) [OF f] t cl' co' by (simp add: Acquiring stage_fenced_def)
  next
    assume o: "bo_stage ?b = Free \<and> bo_lease ?b = None \<and> bo_leases ?b = bo_leases b
      \<and> bo_uncertain_until ?b = None \<and> bo_pending_acquire ?b = bo_pending_acquire b"
    then have "fence s t ?b cl co" using le un by (intro fence_same [OF f t]) auto
    then show ?thesis using o cl' co' by (simp add: Acquiring stage_fenced_def)
  next
    assume o: "bo_stage ?b = Draining (length (bo_leases b)) False \<and> reserved b ?b \<and> bo_uncertain_until ?b = None
      \<and> bo_pending_acquire ?b = bo_pending_acquire b"
    then have "fence s t ?b cl (co @ [length cl - 1])"
      using pos by (intro fence_new [OF f t le un]) (auto simp: reserved_def)
    then show ?thesis using o cl' co' by (simp add: Acquiring stage_fenced_def reserved_def)
  next
    assume o: "(bo_stage ?b = Uploading (length (bo_leases b)) \<or> bo_stage ?b = Loading (length (bo_leases b)))
      \<and> reserved b ?b \<and> bo_uncertain_until ?b = Some 0 \<and> bo_pending_acquire ?b = None"
    then have "fence s t ?b (cl[length cl - 1 := Some (t + bs_lease_seconds s)]) (co @ [length cl - 1])"
      using pos by (intro fence_new [OF f t le un]) (auto simp: reserved_def)
    then show ?thesis using o cl' co' by (auto simp add: Acquiring stage_fenced_def reserved_def)
  qed
qed (use fence_same [OF f t, of b] stage_fenced_frame [OF sf t, of b] cl' co' in \<open>auto simp: acquire_reply_def\<close>)

text \<open>The release is over.\<close>

lemma fence_settle:
  assumes f: "fence s now b cl co" and t: "now \<le> t" and le: "bo_lease b = Some i"
    and le': "bo_lease b' = None \<or> bo_lease b' = Some i" and ls: "bo_leases b' = bo_leases (settle_release s t a i b)"
    and un: "bo_uncertain_until b' = bo_uncertain_until (settle_release s t a i b)"
    and pe: "bo_pending_acquire b' = bo_pending_acquire b"
    and cl': "cl' = (if a then cl[co ! i := Some t] else cl)"
    and pos: "0 \<le> bs_rpc_timeout s" "0 \<le> bs_lease_seconds s"
  shows "fence s t b' cl' co"
proof (rule fenceI)
  have i: "i < length (bo_leases b)" "cl \<noteq> []" "co ! i = length cl - 1" using fenceD(4) [OF f le] by auto
  have but: "list_all (over t) (butlast cl)" using fenceD(3) [OF f] t by (rule over_all_later)
  show "list_all (over t) (butlast cl')" using cl' i but by auto
  fix j assume "j < length (bo_leases b')" "bo_lease b' \<noteq> Some j"
  then show "ls_heartbeat (bo_leases b' ! j) = Stopped"
    using fenceD(5) [OF f, of j] le i ls by (cases "j = i") (auto simp: settle_release_def bo_leases_on_lease)
next
  have i: "i < length (bo_leases b)" "cl \<noteq> []" "co ! i = length cl - 1" using fenceD(4) [OF f le] by auto
  have but: "list_all (over t) (butlast cl)" using fenceD(3) [OF f] t by (rule over_all_later)
  have whole: "list_all (over x) cl" if "over x (last cl)" "t \<le> x" for x
    using that i(2) over_all_later [OF but that(2)] by (cases cl rule: rev_cases) auto
  have held: "over (t + bs_lease_seconds s + bs_rpc_timeout s) (last cl)" if "bo_uncertain_until b = Some u" for u
    using fenceD(9) [OF f that le] t by (auto elim: over_later)
  fix u assume u: "bo_uncertain_until b' = Some u"
  show "list_all (over (max t u)) cl'"
  proof (cases a)
    case True
    have "list_all (over t) cl'" using over_closed_last [OF but, of t] cl' True i(3) by simp
    then show ?thesis by (rule over_all_later) simp
  next
    case False
    then obtain v where v: "bo_uncertain_until b = Some v" "u = max v (t + bs_lease_seconds s + bs_rpc_timeout s)"
      using u un by (auto simp: settle_release_def later_def)
    show ?thesis
      using held [OF v(1)] v(2) cl' False by (auto intro!: whole elim: over_later)
  qed
next
  have i: "i < length (bo_leases b)" "cl \<noteq> []" "co ! i = length cl - 1" using fenceD(4) [OF f le] by auto
  fix u j assume u: "bo_uncertain_until b' = Some u"
  then obtain v where "bo_uncertain_until b = Some v"
    using un by (auto simp: settle_release_def later_def split: if_splits)
  then have "over (t + bs_lease_seconds s + bs_rpc_timeout s) (last cl)"
    using fenceD(9) [OF f _ le] t by (auto elim: over_later)
  then show "over (t + bs_lease_seconds s + bs_rpc_timeout s) (last cl')"
    using cl' i pos by (auto simp: last_update_last)
qed (use fenceD(1,2,6,7) [OF f] fenceD(4) [OF f le] t le' ls un pe cl' in
      \<open>auto simp: settle_release_def later_def split: if_splits\<close>)

lemma fence_releases:
  assumes f: "fence s now b cl co" and sf: "stage_fenced now b" and t: "now \<le> t" and st: "staged b"
    and pos: "0 \<le> bs_rpc_timeout s" "0 \<le> bs_lease_seconds s"
    and b': "b' = finish_release s t a b \<or> b' = cancel_release s t a b"
    and cl': "cl' = (if a then (case bo_stage b of
                Draining i _ \<Rightarrow> if bo_stage b' = Free then cl[co ! i := Some t] else cl | _ \<Rightarrow> cl) else cl)"
  shows "fence s t b' cl' co \<and> stage_fenced t b'"
proof (cases "bo_stage b")
  case (Draining i x)
  have le: "bo_lease b = Some i" using st by (simp add: staged_def stage_ok_def Draining)
  show ?thesis
  proof (cases "a \<and> ls_active (bo_leases b ! i) > 0")
    case True
    then have "b' = b" using b' by (auto simp: finish_release_def cancel_release_def Draining)
    then show ?thesis
      using fence_same [OF f t, of b] stage_fenced_frame [OF sf t, of b] cl' by (auto simp: Draining)
  next
    case False
    have d: "bo_lease b' = None \<or> bo_lease b' = Some i" "bo_leases b' = bo_leases (settle_release s t a i b)"
      "bo_uncertain_until b' = bo_uncertain_until (settle_release s t a i b)"
      "bo_pending_acquire b' = bo_pending_acquire b" "bo_stage b' = Free"
      using b' False le
      by (auto simp: finish_release_def cancel_release_def Draining Let_def settle_release_def)
    have "fence s t b' cl' co"
      by (rule fence_settle [OF f t le d(1-4) _ pos]) (simp add: cl' d(5) Draining)
    then show ?thesis using d(5) by (simp add: stage_fenced_def)
  qed
qed (use b' fence_same [OF f t, of b] stage_fenced_frame [OF sf t, of b] cl' in
      \<open>auto simp: finish_release_def cancel_release_def\<close>)

lemma fence_wake:
  assumes f: "fence s now b cl co" and sf: "stage_fenced now b" and t: "now \<le> t"
    and i: "i < length (bo_leases b)" "ls_heartbeat (bo_leases b ! i) = Waiting"
    and pos: "0 \<le> bs_rpc_timeout s" "0 \<le> bs_lease_seconds s"
    and cl': "cl' = cl \<or> cl' = cl[co ! i := later (cl ! (co ! i)) (t + bs_rpc_timeout s + bs_lease_seconds s)]"
  shows "fence s t (heartbeat_wake t i b) cl' co \<and> stage_fenced t (heartbeat_wake t i b)"
proof -
  have le: "bo_lease b = Some i" using fenceD(5) [OF f i(1)] i(2) by (cases "bo_lease b = Some i") auto
  have j: "cl \<noteq> []" "co ! i = length cl - 1" using fenceD(4) [OF f le] by auto
  have same: "fence s t (heartbeat_wake t i b) cl co"
    using heartbeat_react [of _ b s undefined t "Wake i"] i
    by (intro fence_frame [OF f t]) (auto simp: heartbeat_wake_def react_def)
  have sf': "stage_fenced t (heartbeat_wake t i b)"
    by (rule stage_fenced_frame [OF sf t]) (auto simp: heartbeat_wake_def)
  show ?thesis
  proof (cases "cl' = cl")
    case False
    then have c: "cl' = cl[length cl - 1 := later (last cl) (t + bs_rpc_timeout s + bs_lease_seconds s)]"
      using cl' j by (simp add: last_conv_nth)
    let ?b = "heartbeat_wake t i b"
    have keep: "bo_lease ?b = Some i" "bo_uncertain_until ?b = bo_uncertain_until b" by (simp_all add: heartbeat_wake_def le)
    have "fence s t ?b cl' co"
    proof (rule fenceI)
      fix u k assume u: "bo_uncertain_until ?b = Some u"
      then have "over (now + bs_lease_seconds s + bs_rpc_timeout s) (last cl)"
        using fenceD(9) [OF f _ le] keep(2) by simp
      then show "over (t + bs_lease_seconds s + bs_rpc_timeout s) (last cl')"
        using t by (cases "last cl") (auto simp: c last_update_last [OF j(1)] later_def)
    next
      fix k assume "k < length (bo_leases ?b)" "bo_lease ?b \<noteq> Some k"
      then show "ls_heartbeat (bo_leases ?b ! k) = Stopped" by (rule fenceD(5) [OF same])
    qed (use fenceD(1,2,3,4,6) [OF same] j keep c in auto)
    then show ?thesis using sf' by simp
  qed (use same sf' in auto)
qed

definition guarded :: "settings \<Rightarrow> borrow_system \<Rightarrow> bool" where
  "guarded s y = (staged (sy_borrower y) \<and> stage_fenced (sy_now y) (sy_borrower y)
     \<and> fence s (sy_now y) (sy_borrower y) (sy_claims y) (sy_claim_of y))"

lemma guarded_start: "guarded s (start_of urls)"
  unfolding guarded_def start_of_def
  by (simp add: accounted_start) (simp add: fence_def stage_fenced_def new_borrower_def)

lemma guarded_advance:
  assumes "guarded s y" "sy_now y \<le> t" "0 \<le> bs_rpc_timeout s" "0 \<le> bs_lease_seconds s"
  shows "guarded s (advance s w t e y)"
proof -
  obtain now b cl co where y: "y = \<lparr>sy_now = now, sy_borrower = b, sy_claims = cl, sy_claim_of = co\<rparr>" by (cases y)
  have st: "staged b" and sf: "stage_fenced now b" and f: "fence s now b cl co" and t: "now \<le> t"
    using assms(1,2) by (simp_all add: guarded_def y)
  let ?b = "react s w t e b"
  have len: "length (bo_leases ?b) = length (bo_leases b)" if "\<not> (\<exists>r. e = AcquireReply r)"
    using that by (rule leases_react_length)
  have "fence s t ?b (claims_after s t e y ?b) (co @ replicate (length (bo_leases ?b) - length (bo_leases b)) (length cl - 1))
      \<and> stage_fenced t ?b"
  proof (cases e)
    case (Reconciled x)
    show ?thesis
      using fence_reconciled [OF f sf t st refl, of x] len
      by (auto simp: Reconciled react_def claims_after_def y split: if_splits)
  next
    case Hashed
    show ?thesis
      using fence_pinned [OF f sf t] len by (simp add: Hashed react_def claims_after_def y)
  next
    case (Candidate u p)
    show ?thesis
      using fence_candidate [OF f sf t st refl, of u p] len by (simp add: Candidate react_def claims_after_def y)
  next
    case (AcquireReply r)
    show ?thesis
      using fence_acquire [OF f sf t st assms(3) refl refl, of r] by (simp add: AcquireReply react_def claims_after_def y Let_def del: One_nat_def)
  next
    case (ReleaseDone a)
    show ?thesis
      using fence_releases [OF f sf t st assms(3,4) _ refl, of "finish_release s t True b" True]
        fence_releases [OF f sf t st assms(3,4) _ refl, of "finish_release s t False b" False] len
      by (cases a) (simp_all add: ReleaseDone react_def claims_after_def y cong: lock_stage.case_cong if_cong)
  next
    case (ReleaseCancelled a)
    show ?thesis
      using fence_releases [OF f sf t st assms(3,4) _ refl, of "cancel_release s t True b" True]
        fence_releases [OF f sf t st assms(3,4) _ refl, of "cancel_release s t False b" False] len
      by (cases a) (simp_all add: ReleaseCancelled react_def claims_after_def y cong: lock_stage.case_cong if_cong)
  next
    case (Wake i)
    show ?thesis
      using fence_wake [OF f sf t _ _ assms(3,4), of i] fence_same [OF f t, of b] stage_fenced_frame [OF sf t, of b] len
      by (auto simp: Wake react_def claims_after_def y)
  qed (use fence_neutral [of e s now b cl co t w] f sf t len in \<open>auto simp: neutral_def claims_after_def y\<close>)
  then show ?thesis using staged_react [OF st] by (simp add: guarded_def advance_def y Let_def)
qed

lemma guarded_run:
  assumes "(borrow_step s w)\<^sup>*\<^sup>* (start_of urls) y" "0 \<le> bs_rpc_timeout s" "0 \<le> bs_lease_seconds s"
  shows "guarded s y"
  using assms(1)
proof (induction rule: rtranclp_induct)
  case (step y y')
  then show ?case using guarded_advance assms(2,3) by (auto elim!: borrow_stepE)
qed (rule guarded_start)

lemma acquiring_only_by_candidate:
  assumes "bo_stage (react s w t e b) = Acquiring url rest d sent" "bo_stage b \<noteq> Acquiring url rest d sent"
  shows "\<exists>u p ds. e = Candidate u p \<and> bo_stage b = Probing (url # rest) ds"
proof (cases "neutral e")
  case True
  from neutral_stage [OF this, of s w t b] show ?thesis using assms by (auto simp: claiming_def)
next
  case False
  then show ?thesis
    using assms
    by (cases e)
      (auto simp: neutral_def react_def reconcile_def start_acquire_def pin_candidates_def probe_farm_def acquire_reply_def acquire_acked_def
         bo_stage_fail_begin finish_release_def cancel_release_def settle_release_def heartbeat_wake_def Let_def
       split: lock_stage.splits list.splits reply.splits option.splits sum.splits if_splits)
qed

lemma over_iff: "over t c \<longleftrightarrow> (\<exists>x. c = Some x \<and> x \<le> t)"
  by (cases c) simp_all

text \<open>C6: A training run never holds two farms: at every moment of every run all its claims but the newest are
  over at their farms (refused, cancelled or released with an acknowledgement, or expired on the farm's
  side even if its last renewal arrived as late as it may), and when a new acquire is sent every
  earlier claim is over, whatever requests failed, timed out or were cancelled before.\<close>

theorem one_farm_at_a_time:
  assumes "(borrow_step s w)\<^sup>*\<^sup>* (start_of urls) y" "0 \<le> bs_rpc_timeout s" "0 \<le> bs_lease_seconds s" "sy_now y \<le> t"
  shows "(\<forall>c\<in>set (butlast (sy_claims y)). \<exists>x. c = Some x \<and> x \<le> sy_now y)
    \<and> (bo_stage (react s w t e (sy_borrower y)) = Acquiring url rest d sent
        \<and> bo_stage (sy_borrower y) \<noteq> Acquiring url rest d sent
        \<longrightarrow> (\<forall>c\<in>set (sy_claims y). \<exists>x. c = Some x \<and> x \<le> t)
          \<and> sy_claims (advance s w t e y) = sy_claims y @ [None] \<and> bo_lease (sy_borrower y) = None)"
proof (intro conjI impI)
  have g: "guarded s y" using guarded_run [OF assms(1-3)] .
  then have f: "fence s (sy_now y) (sy_borrower y) (sy_claims y) (sy_claim_of y)"
    and sf: "stage_fenced (sy_now y) (sy_borrower y)" and st: "staged (sy_borrower y)" by (simp_all add: guarded_def)
  show "\<forall>c\<in>set (butlast (sy_claims y)). \<exists>x. c = Some x \<and> x \<le> sy_now y"
    using fenceD(3) [OF f] by (simp add: list_all_iff over_iff)
  assume "bo_stage (react s w t e (sy_borrower y)) = Acquiring url rest d sent
        \<and> bo_stage (sy_borrower y) \<noteq> Acquiring url rest d sent"
  then obtain us p ds where e: "e = Candidate us p" and b: "bo_stage (sy_borrower y) = Probing (url # rest) ds"
    and acq: "bo_stage (react s w t e (sy_borrower y)) = Acquiring url rest d sent"
    using acquiring_only_by_candidate by blast
  show le: "bo_lease (sy_borrower y) = None" using st by (simp add: staged_def stage_ok_def b)
  obtain u where u: "bo_uncertain_until (sy_borrower y) = Some u" "u \<le> sy_now y"
    using sf by (auto simp: stage_fenced_def b)
  have "list_all (over t) (sy_claims y)"
    using fenceD(8) [OF f u(1) le] u(2) assms(4) by (auto elim: over_all_later)
  then show "\<forall>c\<in>set (sy_claims y). \<exists>x. c = Some x \<and> x \<le> t" by (simp add: list_all_iff over_iff)
  show "sy_claims (advance s w t e y) = sy_claims y @ [None]"
    using acq by (simp add: advance_def Let_def claims_after_def e b)
qed

section \<open>Doubtful acquires\<close>

definition blocked :: "borrower \<Rightarrow> bool" where
  "blocked b = (bo_uncertain_until b = None \<and> bo_pending_acquire b = None \<and> \<not> claiming (bo_stage b))"

lemma blocked_react: "blocked b \<Longrightarrow> blocked (react s w t e b)"
proof (cases "neutral e")
  case True
  assume "blocked b"
  then show ?thesis
    using neutral_fields [OF True, of s w t b] neutral_stage [OF True, of s w t b] by (auto simp: blocked_def)
next
  case False
  assume "blocked b"
  then show ?thesis
    using False
    by (cases e)
      (auto simp: blocked_def neutral_def react_def reconcile_def start_acquire_def pin_candidates_def probe_farm_def acquire_reply_def
         finish_release_def cancel_release_def settle_release_def heartbeat_wake_def Let_def later_def claiming_def
       split: lock_stage.splits list.splits reply.splits option.splits sum.splits if_splits)
qed

lemma claims_after_length:
  assumes "\<not> claiming (bo_stage b')"
  shows "length (claims_after s t e y b') = length (sy_claims y)"
proof (cases e)
  case (Candidate u p)
  then show ?thesis using assms by (auto simp: claims_after_def Let_def claiming_def split: lock_stage.splits)
next
  case (AcquireReply r)
  then show ?thesis by (simp add: claims_after_def Let_def split: lock_stage.splits)
qed (auto simp: claims_after_def Let_def split: lock_stage.splits bool.splits)

text \<open>One acquire left without a clear answer at a farm that does not speak the protocol of
  cancellations keeps the run from ever claiming a farm again: no time limit, no new phase and no change of
  the service list lifts the block.\<close>

theorem doubtful_acquire_blocks_for_good:
  assumes "(borrow_step s w)\<^sup>*\<^sup>* y y'" "bo_uncertain_until (sy_borrower y) = None"
    "bo_pending_acquire (sy_borrower y) = None" "bo_stage (sy_borrower y) = Free" "sy_now y' \<le> t"
  shows "\<not> (\<exists>url rest d sent. bo_stage (react s w t e (sy_borrower y')) = Acquiring url rest d sent)
    \<and> length (sy_claims (advance s w t e y')) = length (sy_claims y)"
proof -
  have same: "length (sy_claims (advance s w t' e' z)) = length (sy_claims z)" if "blocked (sy_borrower z)" for t' e' z
    using blocked_react [OF that, of s w t' e'] claims_after_length
    by (auto simp: advance_def Let_def blocked_def)
  have "blocked (sy_borrower y') \<and> length (sy_claims y') = length (sy_claims y)"
    using assms(1)
  proof (induction rule: rtranclp_induct)
    case base
    then show ?case using assms(2-4) by (simp add: blocked_def)
  next
    case (step z z')
    then obtain t' e' where z': "z' = advance s w t' e' z" by (auto elim: borrow_stepE)
    then have "blocked (sy_borrower z')" using step.IH blocked_react by (auto simp: advance_def Let_def)
    then show ?case using step.IH z' same by simp
  qed
  then show ?thesis using same blocked_react [of "sy_borrower y'" s w t e] by (auto simp: blocked_def claiming_def)
qed

section \<open>Example runs\<close>

fun play :: "settings \<Rightarrow> 'a world \<Rightarrow> (real \<times> 'a event) list \<Rightarrow> borrow_system \<Rightarrow> borrow_system option" where
  "play s w [] y = Some y"
| "play s w ((t, e) # es) y = (if sy_now y \<le> t then play s w es (advance s w t e y) else None)"

lemma play_reach: "play s w es y = Some y' \<Longrightarrow> (borrow_step s w)\<^sup>*\<^sup>* y y'"
proof (induction es arbitrary: y)
  case (Cons x es)
  obtain t e where x: "x = (t, e)" by force
  then have le: "sy_now y \<le> t" and rest: "play s w es (advance s w t e y) = Some y'"
    using Cons.prems by (auto split: if_splits)
  from borrow_step.event [OF le] Cons.IH [OF rest] show ?case by (rule converse_rtranclp_into_rtranclp)
qed simp

definition ex_settings :: settings where
  "ex_settings = \<lparr>bs_lease_seconds = 300, bs_health_grace = 90, bs_rpc_timeout = 10, bs_engines = 4, bs_max_requests = 2,
     bs_max_n = 8, bs_updates = False, bs_policy = Probe, bs_model = ''m'', bs_owner = ''run:1''\<rparr>"

definition ex_world :: "nat world" where
  "ex_world = \<lparr>wo_valid_urls = (\<lambda>_. True), wo_aborted = (\<lambda>x. x = 0)\<rparr>"

definition ex_body :: "string \<Rightarrow> string \<Rightarrow> farm_body" where
  "ex_body lid st = \<lparr>fb_lease_id = Some lid, fb_owner_run = Some ''run:1'', fb_expires_at = Some 1, fb_expected_engines = Some 4,
     fb_adapter_sha256 = None, fb_adapter_name = None, fb_state = Some st, fb_ready_engines = Some 4\<rparr>"

text \<open>A phase that borrows, serves a request, and gives up the lease after an unanswered renewal.\<close>

definition ex_events :: "(real \<times> nat event) list" where
  "ex_events =
     [(0, Begin ''p'' ''m'' None 1), (0, Reconciled False), (1, Hashed), (1, Candidate True False),
      (2, AcquireReply (Body (ex_body ''L1'' ''awaiting_adapter''))), (2, PollStatus),
      (3, StatusReply (Body (ex_body ''L1'' ''awaiting_adapter''))),
      (4, Admit \<lparr>py_model = Some ''m'', py_n = Some 2\<rparr> 0 4 False 7), (30, Wake 0), (40, RenewalReply 0 Unreachable)]"

text \<open>Afterwards the farm answers again.\<close>

definition ex_after :: "(real \<times> nat event) list" where
  "ex_after = [(251, Finish 7 (Answered (Body [1, 1]))), (252, Touch ''p''), (255, Wake 0),
     (256, RenewalReply 0 (Body (ex_body ''L1'' ''awaiting_adapter'')))]"

text \<open>An acquire without an answer at a farm without the protocol of cancellations.\<close>

definition ex_doubt :: "(real \<times> nat event) list" where
  "ex_doubt = [(0, Begin ''p'' ''m'' None 1), (0, Reconciled False), (1, Hashed), (1, Candidate True False), (11, AcquireReply Unreachable)]"

definition ex_later :: "(real \<times> nat event) list" where
  "ex_later = [(20, EndPhase None), (4000, Begin ''q'' ''m'' None 1), (4001, Reconciled True), (4002, Hashed)]"

text \<open>A release without an answer, and the next phase.\<close>

definition ex_second :: "(real \<times> nat event) list" where
  "ex_second = ex_events @ [(60, Finish 7 (Answered (Body [1, 1]))), (60, EndPhase (Some ''p'')), (80, ReleaseDone False),
     (600, Begin ''q'' ''m'' None 1), (600, Reconciled False), (600, Hashed)]"

definition played :: "(real \<times> nat event) list \<Rightarrow> borrow_system \<Rightarrow> borrow_system" where
  "played es y = fold (\<lambda>(t, e). advance ex_settings ex_world t e) es y"

lemma play_played:
  assumes "play ex_settings ex_world es y \<noteq> None"
  shows "(borrow_step ex_settings ex_world)\<^sup>*\<^sup>* y (played es y)"
proof -
  have same: "play ex_settings ex_world es y = Some y' \<Longrightarrow> y' = played es y" for y y'
  proof (induction es arbitrary: y)
    case (Cons x es)
    obtain t e where x: "x = (t, e)" by force
    show ?case using Cons.prems Cons.IH [of "advance ex_settings ex_world t e y"]
      by (simp add: x played_def split: if_splits)
  qed (simp add: played_def)
  obtain y' where "play ex_settings ex_world es y = Some y'" using assms by auto
  then show ?thesis using play_reach same by metis
qed

lemma ex_reaches:
  "(borrow_step ex_settings ex_world)\<^sup>*\<^sup>* (start_of [''a'', ''b'']) (played ex_events (start_of [''a'', ''b'']))"
  "(borrow_step ex_settings ex_world)\<^sup>*\<^sup>* (played [(250, WatchLease 0)] (played ex_events (start_of [''a'', ''b''])))
     (played ex_after (played [(250, WatchLease 0)] (played ex_events (start_of [''a'', ''b'']))))"
  "(borrow_step ex_settings ex_world)\<^sup>*\<^sup>* (start_of [''a'', ''b'']) (played ex_doubt (start_of [''a'', ''b'']))"
  "(borrow_step ex_settings ex_world)\<^sup>*\<^sup>* (played ex_doubt (start_of [''a'', ''b'']))
     (played ex_later (played ex_doubt (start_of [''a'', ''b''])))"
  "(borrow_step ex_settings ex_world)\<^sup>*\<^sup>* (start_of [''a'', ''b'']) (played ex_second (start_of [''a'', ''b'']))"
  by (rule play_played, code_simp)+

theorem lost_lease_never_revives_witness:
  "\<not> eligible 260 (sy_borrower (played ex_after (played [(250, WatchLease 0)] (played ex_events (start_of [''a'', ''b''])))))
      (lease_at (played ex_after (played [(250, WatchLease 0)] (played ex_events (start_of [''a'', ''b''])))) 0)"
  by (rule lost_lease_never_revives [OF ex_reaches(2), where i = 0 and t = 260, THEN conjunct1]; code_simp)

theorem active_requests_accounted_witness:
  "ls_active (lease_at (played ex_events (start_of [''a'', ''b''])) 0) = 1"
proof -
  have e: "1 \<le> bs_engines ex_settings" "0 < leases_of (played ex_events (start_of [''a'', ''b'']))"
    "length (filter (\<lambda>x. cl_lease (snd x) = 0) (bo_calls (sy_borrower (played ex_events (start_of [''a'', ''b'']))))) = 1"
    by code_simp+
  show ?thesis using active_requests_accounted [OF ex_reaches(1) e(1,2), THEN conjunct1] e(3) by simp
qed

theorem one_farm_at_a_time_witness:
  "list_all (\<lambda>c. \<exists>x. c = Some x \<and> x \<le> 601) (sy_claims (played ex_second (start_of [''a'', ''b''])))"
proof -
  have e: "0 \<le> bs_rpc_timeout ex_settings" "0 \<le> bs_lease_seconds ex_settings"
    "sy_now (played ex_second (start_of [''a'', ''b''])) \<le> 601"
    "bo_stage (react ex_settings ex_world 601 (Candidate True True) (sy_borrower (played ex_second (start_of [''a'', ''b'']))))
       = Acquiring ''b'' [''a''] None 601"
    "bo_stage (sy_borrower (played ex_second (start_of [''a'', ''b'']))) \<noteq> Acquiring ''b'' [''a''] None 601"
    by code_simp+
  from one_farm_at_a_time [OF ex_reaches(5) e(1-3), THEN conjunct2] e(4,5) show ?thesis unfolding list_all_iff by blast
qed

theorem doubtful_acquire_blocks_for_good_witness:
  "length (sy_claims (advance ex_settings ex_world 5000 (Candidate True True)
     (played ex_later (played ex_doubt (start_of [''a'', ''b'']))))) = 1"
proof -
  have e: "bo_uncertain_until (sy_borrower (played ex_doubt (start_of [''a'', ''b'']))) = None"
    "bo_pending_acquire (sy_borrower (played ex_doubt (start_of [''a'', ''b'']))) = None"
    "bo_stage (sy_borrower (played ex_doubt (start_of [''a'', ''b'']))) = Free"
    "sy_now (played ex_later (played ex_doubt (start_of [''a'', ''b'']))) \<le> 5000"
    "length (sy_claims (played ex_doubt (start_of [''a'', ''b'']))) = 1"
    by code_simp+
  show ?thesis using doubtful_acquire_blocks_for_good [OF ex_reaches(4) e(1-4), THEN conjunct2] e(5) by simp
qed

end
