(* ===== verification/Tensors.thy ===== *)
theory Tensors
  imports Prelude
begin

text \<open>
  Tensors of two dimensions as lists of rows over the reals, with the operations the trainers use, and the
  facts about sums over rows and over groups of rows that the proofs share.
\<close>

type_synonym tensor = "real list list"

named_theorems tensor_simps "length and element of the elementwise operations"

definition ew :: "(real \<Rightarrow> real \<Rightarrow> real) \<Rightarrow> tensor \<Rightarrow> tensor \<Rightarrow> tensor" where
  "ew f = map2 (map2 f)"

definition tmap :: "(real \<Rightarrow> real) \<Rightarrow> tensor \<Rightarrow> tensor" where
  "tmap f = map (map f)"

definition row_sums :: "tensor \<Rightarrow> real list" where
  "row_sums = map sum_list"

definition tsum :: "tensor \<Rightarrow> real" where
  "tsum T = sum_list (row_sums T)"

definition entries :: "tensor \<Rightarrow> nat" where
  "entries T = sum_list (map length T)"

definition same_shape :: "tensor \<Rightarrow> tensor \<Rightarrow> bool" where
  "same_shape A B = (map length A = map length B)"

definition clamp :: "real \<Rightarrow> real \<Rightarrow> real \<Rightarrow> real" where
  "clamp lo hi x = min hi (max lo x)"

definition scale_rows :: "real list \<Rightarrow> tensor \<Rightarrow> tensor" where
  "scale_rows cs T = map2 (\<lambda>c. map (\<lambda>x. c * x)) cs T"

definition ones_like :: "tensor \<Rightarrow> tensor" where
  "ones_like = tmap (\<lambda>_. 1)"

definition zeros_like :: "tensor \<Rightarrow> tensor" where
  "zeros_like = tmap (\<lambda>_. 0)"

text \<open>Masks hold zeros and ones only.\<close>

definition binary :: "tensor \<Rightarrow> bool" where
  "binary m = (\<forall>r\<in>set m. \<forall>x\<in>set r. x = 0 \<or> x = 1)"

lemma binary_nth:
  assumes "binary m" "i < length m" "t < length (m ! i)"
  shows "m ! i ! t = 0 \<or> m ! i ! t = 1"
proof -
  have "m ! i \<in> set m" "m ! i ! t \<in> set (m ! i)" using assms by simp_all
  then show ?thesis using assms(1) unfolding binary_def by blast
qed

section \<open>Elements\<close>

lemma ew_simps [tensor_simps, simp]:
  "length (ew f A B) = min (length A) (length B)"
  "i < length A \<Longrightarrow> i < length B \<Longrightarrow> ew f A B ! i = map2 f (A ! i) (B ! i)"
  by (simp_all add: ew_def)

lemma tmap_simps [tensor_simps, simp]:
  "length (tmap f A) = length A" "i < length A \<Longrightarrow> tmap f A ! i = map f (A ! i)"
  by (simp_all add: tmap_def)

lemma scale_rows_simps [tensor_simps, simp]:
  "length (scale_rows cs T) = min (length cs) (length T)"
  "i < length cs \<Longrightarrow> i < length T \<Longrightarrow> scale_rows cs T ! i = map (\<lambda>x. cs ! i * x) (T ! i)"
  by (simp_all add: scale_rows_def)

lemma row_sums_simps [tensor_simps, simp]:
  "length (row_sums T) = length T" "i < length T \<Longrightarrow> row_sums T ! i = sum_list (T ! i)"
  by (simp_all add: row_sums_def)

lemma same_shapeD:
  "same_shape A B \<Longrightarrow> length A = length B"
  "same_shape A B \<Longrightarrow> i < length A \<Longrightarrow> length (A ! i) = length (B ! i)"
  unfolding same_shape_def by (metis length_map, metis length_map nth_map)

lemma same_shapeI:
  "length A = length B \<Longrightarrow> (\<And>i. i < length A \<Longrightarrow> length (A ! i) = length (B ! i)) \<Longrightarrow> same_shape A B"
  by (simp add: same_shape_def list_eq_iff_nth_eq)

lemma same_shape_sym: "same_shape A B \<Longrightarrow> same_shape B A"
  by (simp add: same_shape_def)

lemma same_shape_trans: "same_shape A B \<Longrightarrow> same_shape B C \<Longrightarrow> same_shape A C"
  by (simp add: same_shape_def)

lemma same_shape_refl [simp]: "same_shape A A"
  by (simp add: same_shape_def)

lemma same_shape_ew: "same_shape A B \<Longrightarrow> same_shape (ew f A B) A"
  by (intro same_shapeI) (auto dest: same_shapeD)

lemma same_shape_tmap [simp]: "same_shape (tmap f A) A"
  by (intro same_shapeI) auto

lemma same_shape_scale: "length cs = length A \<Longrightarrow> same_shape (scale_rows cs A) A"
  by (intro same_shapeI) auto

section \<open>Sums\<close>

lemma sum_list_nth: "sum_list xs = (\<Sum>i<length xs. xs ! i)" for xs :: "real list"
  by (simp add: sum_list_sum_nth atLeast0LessThan)

lemma tsum_rows: "tsum T = (\<Sum>i<length T. sum_list (T ! i))"
  unfolding tsum_def sum_list_nth [of "row_sums T"] by (simp add: row_sums_def)

lemma sum_list_scale: "sum_list (map (\<lambda>x. c * x) xs) = c * sum_list xs" for c :: real
  by (simp add: sum_list_const_mult)

lemma tsum_scale_rows:
  "length cs = length T \<Longrightarrow> tsum (scale_rows cs T) = (\<Sum>i<length T. cs ! i * sum_list (T ! i))"
  by (simp add: tsum_rows sum_list_scale)

lemma sum_map2:
  "length xs = length ys \<Longrightarrow> sum_list (map2 f xs ys) = (\<Sum>t<length xs. f (xs ! t) (ys ! t))" for f :: "real \<Rightarrow> real \<Rightarrow> real"
  by (simp add: sum_list_nth)

lemma map2_map_left: "map2 f (map g xs) ys = map2 (\<lambda>x y. f (g x) y) xs ys"
  by (induction xs ys rule: list_induct2') auto

lemma ew_scale_rows:
  assumes "length cs = length A" "length A = length M"
  shows "ew (*) (scale_rows cs A) M = scale_rows cs (ew (*) A M)"
  using assms by (intro nth_equalityI) (auto simp: map2_map_left mult.assoc intro!: nth_equalityI)

lemma sum_nonneg_binary:
  "binary m \<Longrightarrow> i < length m \<Longrightarrow> 0 \<le> sum_list (m ! i)"
  by (intro sum_list_nonneg) (force simp: binary_def)

lemma tsum_nonneg_binary: "binary m \<Longrightarrow> 0 \<le> tsum m"
  unfolding tsum_rows by (intro sum_nonneg) (simp add: sum_nonneg_binary)

section \<open>Groups of rows\<close>

text \<open>The indices of the rows with a key.\<close>

definition peers :: "'k list \<Rightarrow> 'k \<Rightarrow> nat set" where
  "peers index k = {j. j < length index \<and> index ! j = k}"

lemma finite_peers [simp]: "finite (peers index k)"
  by (simp add: peers_def)

lemma peers_self: "i < length index \<Longrightarrow> i \<in> peers index (index ! i)"
  by (simp add: peers_def)

lemma values_of_peers:
  assumes "length index = length scores"
  shows "values_of k (zip index scores) = map ((!) scores) (filter (\<lambda>j. index ! j = k) [0..<length index])"
proof -
  have "zip index scores = map (\<lambda>j. (index ! j, scores ! j)) [0..<length index]"
    using assms by (intro nth_equalityI) auto
  then show ?thesis by (simp add: values_of_def filter_map o_def)
qed

lemma sum_values_of:
  fixes f :: "real \<Rightarrow> real"
  assumes "length index = length scores"
  shows "sum_list (map f (values_of k (zip index scores))) = (\<Sum>j\<in>peers index k. f (scores ! j))"
proof -
  let ?js = "filter (\<lambda>j. index ! j = k) [0..<length index]"
  have "sum_list (map f (values_of k (zip index scores))) = sum_list (map (\<lambda>j. f (scores ! j)) ?js)"
    by (simp add: values_of_peers [OF assms] o_def)
  also have "\<dots> = (\<Sum>j\<in>set ?js. f (scores ! j))"
    by (rule sum_list_distinct_conv_sum_set) simp
  also have "set ?js = peers index k" by (auto simp: peers_def)
  finally show ?thesis .
qed

lemma length_values_of:
  "length index = length scores \<Longrightarrow> length (values_of k (zip index scores)) = card (peers index k)"
  for scores :: "real list"
proof -
  assume "length index = length scores"
  then have "length (values_of k (zip index scores)) = length (filter (\<lambda>j. index ! j = k) [0..<length index])"
    by (simp add: values_of_peers)
  also have "\<dots> = card (set (filter (\<lambda>j. index ! j = k) [0..<length index]))"
    by (rule distinct_card [symmetric]) simp
  also have "set (filter (\<lambda>j. index ! j = k) [0..<length index]) = peers index k" by (auto simp: peers_def)
  finally show ?thesis .
qed

lemma id2score_get:
  assumes "length index = length scores" "i < length index"
  shows "dict_get (group_values (zip index scores)) (index ! i) = Some (values_of (index ! i) (zip index scores))"
proof -
  have "index ! i \<in> fst ` set (zip index scores)"
    using assms by (force simp: set_zip)
  then show ?thesis by (simp add: group_values_get)
qed

lemma sum_centred:
  fixes f :: "'i \<Rightarrow> real"
  assumes "finite A" "A \<noteq> {}"
  shows "(\<Sum>j\<in>A. f j - (\<Sum>j\<in>A. f j) / real (card A)) = 0"
proof -
  have "real (card A) \<noteq> 0" using assms by simp
  then show ?thesis by (simp add: sum_subtractf)
qed

lemma square_of_sum:
  fixes g :: "'i \<Rightarrow> real"
  assumes "finite B"
  shows "(\<Sum>j\<in>B. g j)\<^sup>2 \<le> real (card B) * (\<Sum>j\<in>B. (g j)\<^sup>2)"
proof (cases "B = {}")
  case False
  let ?n = "real (card B)" and ?s = "\<Sum>j\<in>B. g j" and ?q = "\<Sum>j\<in>B. (g j)\<^sup>2"
  have n: "0 < ?n" using assms False by (simp add: card_gt_0_iff)
  have "0 \<le> (\<Sum>j\<in>B. (?n * g j - ?s)\<^sup>2)" by (intro sum_nonneg) simp
  also have "\<dots> = (\<Sum>j\<in>B. ?n\<^sup>2 * (g j)\<^sup>2 - 2 * ?n * ?s * g j + ?s\<^sup>2)"
    by (intro sum.cong) (simp_all add: power2_eq_square algebra_simps)
  also have "\<dots> = ?n\<^sup>2 * ?q - 2 * ?n * ?s * ?s + ?n * ?s\<^sup>2"
    by (simp add: sum.distrib sum_subtractf sum_distrib_left)
  also have "\<dots> = ?n * (?n * ?q - ?s\<^sup>2)" by (simp add: power2_eq_square algebra_simps)
  finally show ?thesis using n by (simp add: zero_le_mult_iff)
qed simp

text \<open>One deviation from the mean against all of them.\<close>

lemma deviation_bound:
  fixes f :: "'i \<Rightarrow> real"
  assumes A: "finite A" "i \<in> A" "2 \<le> card A"
  defines "m \<equiv> (\<Sum>j\<in>A. f j) / real (card A)"
  shows "(f i - m)\<^sup>2 * real (card A) \<le> (real (card A) - 1) * (\<Sum>j\<in>A. (f j - m)\<^sup>2)"
proof -
  let ?B = "A - {i}"
  have cB: "real (card ?B) = real (card A) - 1" using A by (simp add: of_nat_diff)
  have "(\<Sum>j\<in>A. f j - m) = 0" unfolding m_def by (rule sum_centred) (use A in auto)
  then have "(\<Sum>j\<in>?B. f j - m) = - (f i - m)" using A by (simp add: sum.remove [of A i])
  then have "(f i - m)\<^sup>2 = (\<Sum>j\<in>?B. f j - m)\<^sup>2" by (simp add: power2_commute)
  also have "\<dots> \<le> real (card ?B) * (\<Sum>j\<in>?B. (f j - m)\<^sup>2)" by (rule square_of_sum) (simp add: A)
  finally have cs: "(f i - m)\<^sup>2 \<le> (\<Sum>j\<in>?B. (f j - m)\<^sup>2) * (real (card A) - 1)" by (simp only: cB mult.commute)
  have split: "(\<Sum>j\<in>A. (f j - m)\<^sup>2) = (f i - m)\<^sup>2 + (\<Sum>j\<in>?B. (f j - m)\<^sup>2)"
    using A by (simp add: sum.remove [of A i])
  have "(real (card A) - 1) * (\<Sum>j\<in>A. (f j - m)\<^sup>2)
      = (real (card A) - 1) * (f i - m)\<^sup>2 + (\<Sum>j\<in>?B. (f j - m)\<^sup>2) * (real (card A) - 1)"
    unfolding split by (simp add: algebra_simps)
  also have "\<dots> \<ge> (real (card A) - 1) * (f i - m)\<^sup>2 + (f i - m)\<^sup>2" using cs by simp
  finally show ?thesis by (simp add: algebra_simps)
qed

end
