(* ===== verification/Advantages.thy ===== *)
theory Advantages
  imports Tensors
begin

text \<open>
  Advantage estimators, KL penalty and loss reductions of
  \<^verbatim>\<open>backends/skyrl_train/utils/ppo_utils.py\<close>, with the trainer's methods around them
  (\<^verbatim>\<open>compute_advantages_and_returns\<close>, \<^verbatim>\<open>_normalize_advantages\<close> in \<^verbatim>\<open>train/trainer.py\<close>).  Tensors are lists of rows;
  loops over the columns of a batch run on each row by itself.
\<close>

section \<open>Masked statistics\<close>

definition masked_mean :: "tensor \<Rightarrow> tensor option \<Rightarrow> real" where
  "masked_mean v m =
     (case m of None \<Rightarrow> tsum v / real (entries v) | Some m \<Rightarrow> tsum (ew (*) v m) / max 1 (tsum m))"

definition masked_mean_rows :: "tensor \<Rightarrow> tensor option \<Rightarrow> real list" where
  "masked_mean_rows v m =
     (case m of
        None \<Rightarrow> map (\<lambda>r. sum_list r / real (length r)) v
      | Some m \<Rightarrow> map2 (\<lambda>r k. sum_list (map2 (*) r k) / max 1 (sum_list k)) v m)"

definition masked_var :: "tensor \<Rightarrow> tensor \<Rightarrow> (string, real) result" where
  "masked_var v m =
     (let mean = masked_mean v (Some m);
          variance = masked_mean (tmap (\<lambda>x. (x - mean)\<^sup>2) v) (Some m);
          mask_sum = tsum m
      in if mask_sum = 0 then Inl ''At least one element in the mask has to be 1.''
         else if mask_sum = 1 then Inl ''The sum of the mask is one, which can cause a division by zero.''
         else Inr (variance * (mask_sum / (mask_sum - 1))))"

definition masked_whiten :: "tensor \<Rightarrow> tensor \<Rightarrow> bool \<Rightarrow> (string, tensor) result" where
  "masked_whiten v m shift_mean =
     (let mean = masked_mean v (Some m)
      in case masked_var v m of
           Inl e \<Rightarrow> Inl e
         | Inr var \<Rightarrow>
             Inr (tmap (\<lambda>x. (x - mean) * (1 / sqrt (var + 1 / 10 ^ 8)) + (if shift_mean then 0 else mean)) v))"

section \<open>Estimators\<close>

type_synonym estimate = "(string, tensor \<times> tensor) result"

definition list_mean :: "real list \<Rightarrow> real" where
  "list_mean xs = sum_list xs / real (length xs)"

text \<open>\<open>torch.std\<close>: with Bessel's correction.\<close>

definition list_std :: "real list \<Rightarrow> real" where
  "list_std xs = sqrt (sum_list (map (\<lambda>x. (x - list_mean xs)\<^sup>2) xs) / (real (length xs) - 1))"

definition id2score :: "'k list \<Rightarrow> real list \<Rightarrow> ('k, real list) dict" where
  "id2score index scores = group_values (zip index scores)"

definition group_of :: "'k list \<Rightarrow> real list \<Rightarrow> 'k \<Rightarrow> real list" where
  "group_of index scores k = (case dict_get (id2score index scores) k of Some g \<Rightarrow> g | None \<Rightarrow> [])"

definition id2mean :: "real list \<Rightarrow> real" where
  "id2mean g = (if length g = 1 then 0 else list_mean g)"

definition id2std :: "real list \<Rightarrow> real" where
  "id2std g = (if length g = 1 then 1 else list_std g)"

text \<open>A score per row at every position of the mask.\<close>

definition spread :: "real list \<Rightarrow> tensor \<Rightarrow> tensor" where
  "spread scores m = scale_rows scores m"

definition rloo_scores :: "'k list \<Rightarrow> real list \<Rightarrow> real list" where
  "rloo_scores index scores =
     map2 (\<lambda>k s. let g = group_of index scores k; n = real (length g)
                 in if length g > 1 then (s - id2mean g) * (n / (n - 1)) else 0) index scores"

definition compute_rloo_outcome_advantage :: "tensor \<Rightarrow> tensor \<Rightarrow> 'k list \<Rightarrow> tensor \<times> tensor" where
  "compute_rloo_outcome_advantage rewards m index =
     (let a = spread (rloo_scores index (row_sums rewards)) m in (a, a))"

definition grpo_scores :: "'k list \<Rightarrow> real \<Rightarrow> bool \<Rightarrow> real list \<Rightarrow> real list" where
  "grpo_scores index eps norm_by_std scores =
     map2 (\<lambda>k s. let g = group_of index scores k
                 in if norm_by_std then (s - id2mean g) / (id2std g + eps) else s - id2mean g) index scores"

definition compute_grpo_outcome_advantage :: "tensor \<Rightarrow> tensor \<Rightarrow> 'k list \<Rightarrow> real \<Rightarrow> bool \<Rightarrow> tensor \<times> tensor" where
  "compute_grpo_outcome_advantage rewards m index eps norm_by_std =
     (let a = spread (grpo_scores index eps norm_by_std (row_sums rewards)) m in (a, a))"

definition maxrl_scores :: "'k list \<Rightarrow> real \<Rightarrow> real list \<Rightarrow> real list" where
  "maxrl_scores index eps scores =
     map2 (\<lambda>k s. let g = group_of index scores k
                 in if length g > 1 then (s - id2mean g) / (id2mean g + eps) else s - id2mean g) index scores"

definition compute_maxrl_advantage :: "tensor \<Rightarrow> tensor \<Rightarrow> 'k list \<Rightarrow> real \<Rightarrow> tensor \<times> tensor" where
  "compute_maxrl_advantage rewards m index eps =
     (let a = spread (maxrl_scores index eps (row_sums rewards)) m in (a, a))"

text \<open>The return after each token, from the last one on; what follows an end-of-sequence is dropped.\<close>

definition reinforce_returns :: "real \<Rightarrow> real list \<Rightarrow> real list \<Rightarrow> real list" where
  "reinforce_returns gamma rs ms =
     snd (foldr (\<lambda>(r, k) (running, acc). let ret = r + gamma * running in (ret * k, ret # acc)) (zip rs ms) (0, []))"

definition compute_reinforce_plus_plus_outcome_advantage :: "tensor \<Rightarrow> tensor \<Rightarrow> real \<Rightarrow> estimate" where
  "compute_reinforce_plus_plus_outcome_advantage rewards m gamma =
     (let returns = map2 (reinforce_returns gamma) rewards m
      in case masked_whiten returns m True of Inl e \<Rightarrow> Inl e | Inr a \<Rightarrow> Inr (ew (*) a m, returns))"

text \<open>The state of the loop: the value of the next token, the last advantage, the advantages so far.\<close>

definition gae_step :: "real \<Rightarrow> real \<Rightarrow> real \<times> real \<Rightarrow> real \<times> real \<times> real list \<Rightarrow> real \<times> real \<times> real list" where
  "gae_step gamma lambd rv st =
     (case rv of (r, v) \<Rightarrow> case st of (next_value, lastgaelam, acc) \<Rightarrow>
        let delta = r + gamma * next_value - v; a = delta + gamma * lambd * lastgaelam in (v, a, a # acc))"

definition gae_row :: "real \<Rightarrow> real \<Rightarrow> real list \<Rightarrow> real list \<Rightarrow> real list" where
  "gae_row gamma lambd rs vs = snd (snd (foldr (gae_step gamma lambd) (zip rs vs) (0, 0, [])))"

definition compute_gae_advantage_return :: "tensor \<Rightarrow> tensor \<Rightarrow> tensor \<Rightarrow> real \<Rightarrow> real \<Rightarrow> estimate" where
  "compute_gae_advantage_return rewards vals m gamma lambd =
     (let advantages = map2 (gae_row gamma lambd) rewards vals; returns = ew (+) advantages vals
      in if rewards \<noteq> [] \<and> rewards ! 0 = [] then Inl ''stack expects a non-empty TensorList''
         else case masked_whiten advantages m True of Inl e \<Rightarrow> Inl e | Inr a \<Rightarrow> Inr (a, returns))"

datatype estimator = Gae | Grpo | Rloo | Reinforce_pp | Maxrl

text \<open>The dispatch; the estimators take \<open>epsilon = 1e-6\<close> by default, GAE needs values.\<close>

definition compute_advantages_and_returns ::
  "estimator \<Rightarrow> tensor \<Rightarrow> tensor \<Rightarrow> 'k list \<Rightarrow> tensor option \<Rightarrow> bool \<Rightarrow> real \<Rightarrow> real \<Rightarrow> estimate" where
  "compute_advantages_and_returns est rewards m index vals norm_by_std gamma lambd =
     (case est of
        Grpo \<Rightarrow> Inr (compute_grpo_outcome_advantage rewards m index (1 / 10 ^ 6) norm_by_std)
      | Rloo \<Rightarrow> Inr (compute_rloo_outcome_advantage rewards m index)
      | Maxrl \<Rightarrow> Inr (compute_maxrl_advantage rewards m index (1 / 10 ^ 6))
      | Reinforce_pp \<Rightarrow> compute_reinforce_plus_plus_outcome_advantage rewards m gamma
      | Gae \<Rightarrow> (case vals of
                  None \<Rightarrow> Inl ''NoneType object is not subscriptable''
                | Some v \<Rightarrow> compute_gae_advantage_return rewards v m gamma lambd))"

section \<open>Step-wise trajectories\<close>

text \<open>The trajectory of each step: the cumulative sum of the shifted \<open>is_last_step\<close>.\<close>

definition traj_ids :: "bool list \<Rightarrow> nat list" where
  "traj_ids is_last =
     map (\<lambda>i. length (filter id (take (Suc i) (False # butlast is_last)))) [0..<length is_last]"

definition select_last :: "bool list \<Rightarrow> 'a list \<Rightarrow> 'a list" where
  "select_last is_last xs = map snd (filter fst (zip is_last xs))"

definition step_wise_advantages ::
  "estimator \<Rightarrow> tensor \<Rightarrow> tensor \<Rightarrow> 'k list \<Rightarrow> tensor option \<Rightarrow> bool list \<Rightarrow> bool \<Rightarrow> real \<Rightarrow> real \<Rightarrow> estimate" where
  "step_wise_advantages est rewards m index vals is_last norm_by_std gamma lambd =
     (case compute_advantages_and_returns est (select_last is_last rewards) (ones_like (select_last is_last m))
             (select_last is_last index) (map_option (select_last is_last) vals) norm_by_std gamma lambd of
        Inl e \<Rightarrow> Inl e
      | Inr (a, r) \<Rightarrow>
          (let ids = traj_ids is_last
           in if ids = [] then Inl ''index -1 is out of bounds''
              else if last ids + 1 \<noteq> length a then Inl ''The is_last_step tensor is likely malformed''
              else Inr (ew (*) (map ((!) a) ids) m, ew (*) (map ((!) r) ids) m)))"

section \<open>Loss reductions\<close>

datatype reduction = Token_mean | Token_mean_legacy | Sequence_mean | Seq_mean_token_sum_norm | Prompt_mean

definition clamp_min1 :: "real \<Rightarrow> real" where
  "clamp_min1 x = max 1 x"

definition divide_all :: "real \<Rightarrow> tensor \<Rightarrow> tensor" where
  "divide_all c = tmap (\<lambda>x. x / c)"

definition slice :: "nat \<Rightarrow> nat \<Rightarrow> 'a list \<Rightarrow> 'a list" where
  "slice a b xs = take (b - a) (drop a xs)"

definition put_slice :: "nat \<Rightarrow> 'a list \<Rightarrow> 'a list \<Rightarrow> 'a list" where
  "put_slice a ys xs = take a xs @ ys @ drop (a + length ys) xs"

definition apply_loss_reduction_to_advantages_minibatch ::
  "tensor \<Rightarrow> tensor \<Rightarrow> reduction \<Rightarrow> nat \<Rightarrow> real \<Rightarrow> (nat \<times> nat) list option \<Rightarrow> (string, tensor) result" where
  "apply_loss_reduction_to_advantages_minibatch advantages m reduction micro_batch_size max_seq_len prompt_boundaries =
     (let batch_size = real (length advantages)
      in case reduction of
           Token_mean \<Rightarrow> Inr (divide_all (clamp_min1 (tsum m)) advantages)
         | Token_mean_legacy \<Rightarrow>
             (let num_micro_batches = length advantages div micro_batch_size
              in if micro_batch_size = 0 then Inl ''integer division or modulo by zero''
                 else Inr (fold (\<lambda>i acc.
                     let a = i * micro_batch_size; b = (i + 1) * micro_batch_size
                     in put_slice a (divide_all (real num_micro_batches)
                          (divide_all (clamp_min1 (tsum (slice a b m))) (slice a b advantages))) acc)
                   [0..<num_micro_batches] (zeros_like advantages)))
         | Sequence_mean \<Rightarrow> Inr (map2 (\<lambda>row k. map (\<lambda>x. x / (batch_size * clamp_min1 (sum_list k))) row) advantages m)
         | Seq_mean_token_sum_norm \<Rightarrow> Inr (divide_all (batch_size * max_seq_len) advantages)
         | Prompt_mean \<Rightarrow>
             (case prompt_boundaries of
                None \<Rightarrow> Inl ''prompt_mean loss reduction requires prompt_boundaries''
              | Some bs \<Rightarrow>
                  Inr (fold (\<lambda>(a, b) acc.
                     put_slice a (divide_all (real (length bs) * clamp_min1 (tsum (slice a b m))) (slice a b advantages)) acc)
                   bs (zeros_like advantages))))"

text \<open>The z-score over the batch: the mean is taken over every position, the deviation over the responses.\<close>

definition batch_normalize :: "tensor \<Rightarrow> tensor \<Rightarrow> tensor" where
  "batch_normalize advantages m =
     (let mean = tsum advantages / real (entries advantages);
          std = tsum (ew (*) (tmap (\<lambda>x. (x - mean)\<^sup>2) advantages) m);
          rstd = 1 / sqrt (max (1 / 10 ^ 8) (std / tsum m))
      in tmap (\<lambda>x. (x - mean) * rstd) advantages)"

definition rebase :: "nat \<Rightarrow> nat \<Rightarrow> (nat \<times> nat) list \<Rightarrow> (nat \<times> nat) list" where
  "rebase a b bs = map (\<lambda>(p, q). (p - a, q - a)) (filter (\<lambda>(p, q). a \<le> p \<and> p < b) bs)"

definition normalize_advantages ::
  "bool \<Rightarrow> reduction \<Rightarrow> nat \<Rightarrow> real \<Rightarrow> tensor \<Rightarrow> tensor \<Rightarrow> tensor \<Rightarrow> (nat \<times> nat) list \<Rightarrow> (nat \<times> nat) list option
     \<Rightarrow> (string, tensor) result" where
  "normalize_advantages batch_norm reduction micro max_seq_len advantages response_mask loss_mask mini_batches prompts =
     (let adv = (if batch_norm then batch_normalize advantages response_mask else advantages)
      in fold (\<lambda>(a, b) acc. case acc of Inl e \<Rightarrow> Inl e | Inr T \<Rightarrow>
             (case apply_loss_reduction_to_advantages_minibatch (slice a b adv) (slice a b loss_mask) reduction micro max_seq_len
                     (map_option (rebase a b) prompts) of
                Inl e \<Rightarrow> Inl e
              | Inr mb \<Rightarrow> Inr (put_slice a mb T)))
           mini_batches (Inr (zeros_like advantages)))"

section \<open>KL\<close>

datatype kl_estimator = K1 | Abs | K2 | K3

definition approx_kl :: "kl_estimator \<Rightarrow> real \<Rightarrow> real \<Rightarrow> real" where
  "approx_kl est lp base =
     (case est of
        K1 \<Rightarrow> lp - base | Abs \<Rightarrow> \<bar>lp - base\<bar> | K2 \<Rightarrow> 1 / 2 * (lp - base)\<^sup>2
      | K3 \<Rightarrow> (let kl = clamp (- 20) 20 (base - lp) in clamp (- 10) 10 (exp kl - kl - 1)))"

definition compute_approx_kl :: "tensor \<Rightarrow> tensor \<Rightarrow> tensor option \<Rightarrow> kl_estimator \<Rightarrow> tensor" where
  "compute_approx_kl lp base m est =
     (let kld = ew (approx_kl est) lp base
      in case m of None \<Rightarrow> kld | Some m \<Rightarrow> ew (\<lambda>x k. if k \<noteq> 0 then x * k else 0) kld m)"

record kl_controller =
  kc_value :: real
  kc_target :: real
  kc_horizon :: real
  kc_adaptive :: bool

datatype kl_config = Kl_config string real real real

definition get_kl_controller :: "kl_config \<Rightarrow> (string, kl_controller) result" where
  "get_kl_controller cfg =
     (case cfg of Kl_config kind coef target horizon \<Rightarrow>
        if kind = ''fixed'' then Inr \<lparr>kc_value = coef, kc_target = target, kc_horizon = horizon, kc_adaptive = False\<rparr>
        else if kind = ''adaptive'' then
          (if horizon \<le> 0 then Inl ''horizon must be larger than 0''
           else Inr \<lparr>kc_value = coef, kc_target = target, kc_horizon = horizon, kc_adaptive = True\<rparr>)
        else Inl ''Invalid KL controller type'')"

definition kl_update :: "real \<Rightarrow> real \<Rightarrow> kl_controller \<Rightarrow> kl_controller" where
  "kl_update current n_steps c =
     (if kc_adaptive c
      then c\<lparr>kc_value := kc_value c * (1 + clamp (- 0.2) 0.2 (current / kc_target c - 1) * n_steps / kc_horizon c)\<rparr>
      else c)"

text \<open>The KL penalty on the rewards: nothing for a negative coefficient; the controller sees the mean.\<close>

definition apply_reward_kl_penalty ::
  "tensor \<Rightarrow> tensor \<Rightarrow> tensor \<Rightarrow> tensor \<Rightarrow> kl_estimator \<Rightarrow> real \<Rightarrow> kl_controller option \<Rightarrow> tensor \<times> kl_controller option" where
  "apply_reward_kl_penalty rewards lp base m est kl_loss_coef c =
     (let kl = compute_approx_kl lp base (Some m) est;
          kl_mean = masked_mean_rows kl (Some m);
          coef = (case c of Some c \<Rightarrow> kc_value c | None \<Rightarrow> kl_loss_coef)
      in (ew (\<lambda>r k. r - k * max 0 coef) rewards kl,
          map_option (kl_update (list_mean kl_mean) (real (length kl))) c))"

end
