(* ===== verification/Policy_Losses.thy ===== *)
theory Policy_Losses
  imports Advantages
begin

text \<open>
  Policy losses of \<^verbatim>\<open>backends/skyrl_train/utils/ppo_utils.py\<close> with the off-policy correction of
  \<^verbatim>\<open>off_policy_correction_utils.py\<close>.  A loss is a tensor of token losses and a mask, then their masked sum.
  Statistics that are only logged are left out.
\<close>

definition ew3 :: "(real \<Rightarrow> real \<Rightarrow> real \<Rightarrow> real) \<Rightarrow> tensor \<Rightarrow> tensor \<Rightarrow> tensor \<Rightarrow> tensor" where
  "ew3 f A B C = map2 (\<lambda>(a, b) c. map2 (\<lambda>(x, y) z. f x y z) (zip a b) c) (zip A B) C"

text \<open>One number per row, at every position of the row.\<close>

definition broadcast :: "real list \<Rightarrow> tensor \<Rightarrow> tensor" where
  "broadcast cs T = map2 (\<lambda>c. map (\<lambda>_. c)) cs T"

definition safe_exp_delta :: "real \<Rightarrow> real" where
  "safe_exp_delta d = exp (clamp (- 20) 20 d)"

definition reduce_loss :: "tensor \<Rightarrow> tensor option \<Rightarrow> real" where
  "reduce_loss loss m = (case m of Some m \<Rightarrow> tsum (ew (*) loss m) | None \<Rightarrow> tsum loss)"

definition of_bool_real :: "bool \<Rightarrow> real" where
  "of_bool_real b = (if b then 1 else 0)"

section \<open>Off-policy correction\<close>

record off_policy =
  op_tis_ratio_type :: "string option"
  op_token_tis_clip_high :: real
  op_sequence_tis_clip_high :: real
  op_outlier_low :: "real option"
  op_outlier_high :: "real option"
  op_token_low :: "real option"
  op_token_high :: "real option"
  op_sequence_mask_metric :: "string option"
  op_geo_low :: real
  op_geo_high :: real
  op_product_low :: real
  op_product_high :: real

definition apply_outlier :: "off_policy \<Rightarrow> bool" where
  "apply_outlier c = (op_outlier_low c \<noteq> None \<or> op_outlier_high c \<noteq> None)"

definition apply_token_mask :: "off_policy \<Rightarrow> bool" where
  "apply_token_mask c = (op_token_low c \<noteq> None \<and> op_token_high c \<noteq> None)"

definition off_policy_correction_enabled :: "off_policy \<Rightarrow> bool" where
  "off_policy_correction_enabled c =
     (op_tis_ratio_type c \<noteq> None \<or> op_sequence_mask_metric c \<noteq> None \<or> apply_outlier c \<or> apply_token_mask c)"

definition token_ratio :: "tensor \<Rightarrow> tensor \<Rightarrow> tensor" where
  "token_ratio old ro = ew (\<lambda>x y. safe_exp_delta (x - y)) old ro"

definition seq_log_ratio :: "tensor \<Rightarrow> tensor \<Rightarrow> tensor \<Rightarrow> real list" where
  "seq_log_ratio old ro m = row_sums (ew (*) (ew (-) old ro) m)"

definition compute_tis_ratio :: "tensor \<Rightarrow> tensor \<Rightarrow> tensor \<Rightarrow> string \<Rightarrow> off_policy \<Rightarrow> (string, tensor) result" where
  "compute_tis_ratio old ro m kind c =
     (if kind = ''token'' then Inr (tmap (min (op_token_tis_clip_high c)) (token_ratio old ro))
      else if kind = ''sequence''
      then Inr (broadcast (map (\<lambda>x. min (op_sequence_tis_clip_high c) (safe_exp_delta x)) (seq_log_ratio old ro m)) m)
      else Inl ''Unknown tis_ratio_type'')"

definition token_in_bounds :: "off_policy \<Rightarrow> real \<Rightarrow> real \<Rightarrow> bool" where
  "token_in_bounds c r k =
     (\<not> (case op_outlier_high c of Some h \<Rightarrow> r > h \<and> k > 0 | None \<Rightarrow> False)
      \<and> \<not> (case op_outlier_low c of Some l \<Rightarrow> r < l \<and> k > 0 | None \<Rightarrow> False))"

definition compute_outlier_token_mask :: "tensor \<Rightarrow> tensor \<Rightarrow> tensor \<Rightarrow> off_policy \<Rightarrow> tensor" where
  "compute_outlier_token_mask old ro m c =
     broadcast (map2 (\<lambda>rs ks. of_bool_real (list_all2 (\<lambda>r k. token_in_bounds c r k \<or> k = 0) rs ks)) (token_ratio old ro) m) m"

definition compute_token_mask :: "tensor \<Rightarrow> tensor \<Rightarrow> tensor \<Rightarrow> real \<Rightarrow> real \<Rightarrow> tensor" where
  "compute_token_mask old ro m low high =
     ew (\<lambda>r k. of_bool_real (low \<le> r \<and> r \<le> high \<or> k = 0)) (token_ratio old ro) m"

definition compute_sequence_mask :: "tensor \<Rightarrow> tensor \<Rightarrow> tensor \<Rightarrow> string \<Rightarrow> off_policy \<Rightarrow> (string, tensor) result" where
  "compute_sequence_mask old ro m metric c =
     (if metric = ''geometric''
      then Inr (broadcast (map2 (\<lambda>x ks. let r = safe_exp_delta (x / max 1 (sum_list ks))
                 in of_bool_real (\<not> r > op_geo_high c \<and> \<not> r < op_geo_low c)) (seq_log_ratio old ro m) m) m)
      else if metric = ''product''
      then Inr (broadcast (map (\<lambda>x. let r = safe_exp_delta x
                 in of_bool_real (\<not> r > op_product_high c \<and> \<not> r < op_product_low c)) (seq_log_ratio old ro m)) m)
      else Inl ''Unknown sequence_mask_metric'')"

text \<open>The masks are applied one after the other, the ratio is taken after the first two.\<close>

definition after_outliers :: "tensor \<Rightarrow> tensor \<Rightarrow> tensor \<Rightarrow> off_policy \<Rightarrow> tensor" where
  "after_outliers old ro m c = (if apply_outlier c then ew (*) m (compute_outlier_token_mask old ro m c) else m)"

definition pretis_mask :: "tensor \<Rightarrow> tensor \<Rightarrow> tensor \<Rightarrow> off_policy \<Rightarrow> tensor" where
  "pretis_mask old ro m c =
     (case (op_token_low c, op_token_high c) of
        (Some low, Some high) \<Rightarrow>
          ew (*) (after_outliers old ro m c) (compute_token_mask old ro (after_outliers old ro m c) low high)
      | _ \<Rightarrow> after_outliers old ro m c)"

definition compute_off_policy_correction ::
  "tensor \<Rightarrow> tensor \<Rightarrow> tensor \<Rightarrow> off_policy \<Rightarrow> (string, tensor option \<times> tensor) result" where
  "compute_off_policy_correction old ro m c =
     (if \<not> off_policy_correction_enabled c then Inr (None, m)
      else
        let m2 = pretis_mask old ro m c;
            tis = (case op_tis_ratio_type c of
                     None \<Rightarrow> Inr None
                   | Some k \<Rightarrow> (case compute_tis_ratio old ro m2 k c of Inl e \<Rightarrow> Inl e | Inr t \<Rightarrow> Inr (Some t)))
        in case tis of
             Inl e \<Rightarrow> Inl e
           | Inr t \<Rightarrow>
               (case op_sequence_mask_metric c of
                  None \<Rightarrow> Inr (t, m2)
                | Some metric \<Rightarrow>
                    (case compute_sequence_mask old ro m2 metric c of
                       Inl e \<Rightarrow> Inl e | Inr sm \<Rightarrow> Inr (t, ew (*) m2 sm))))"

definition apply_off_policy_correction ::
  "tensor \<Rightarrow> tensor \<Rightarrow> tensor option \<Rightarrow> tensor option \<Rightarrow> off_policy \<Rightarrow> (string, tensor \<times> tensor option) result" where
  "apply_off_policy_correction loss old ro m c =
     (case ro of
        None \<Rightarrow> Inr (loss, m)
      | Some ro \<Rightarrow>
          (case m of
             None \<Rightarrow> if off_policy_correction_enabled c then Inl ''unsupported operand type: NoneType'' else Inr (loss, None)
           | Some m \<Rightarrow>
               (case compute_off_policy_correction old ro m c of
                  Inl e \<Rightarrow> Inl e
                | Inr (tis, m') \<Rightarrow> Inr (case tis of None \<Rightarrow> loss | Some t \<Rightarrow> ew (*) loss t, Some m'))))"

section \<open>Token losses\<close>

datatype policy_loss_type =
    Regular | Dual_clip | Gspo | Cispo | Rollout_is | Clip_cov | Kl_cov | Sapo | Cross_entropy
  | Importance_sampling | Dppo

record loss_config =
  lc_eps_low :: real
  lc_eps_high :: real
  lc_clip_ratio_c :: real
  lc_tau_pos :: real
  lc_tau_neg :: real
  lc_cispo_low :: real
  lc_cispo_high :: real
  lc_dppo_type :: string
  lc_delta_low :: real
  lc_delta_high :: real
  lc_clip_cov_ratio :: real
  lc_clip_cov_lb :: real
  lc_clip_cov_ub :: real
  lc_kl_cov_frac :: real
  lc_ppo_kl_coef :: real
  lc_off_policy :: off_policy

definition clipped :: "loss_config \<Rightarrow> real \<Rightarrow> real \<Rightarrow> real" where
  "clipped c ratio a = - min (ratio * a) (clamp (1 - lc_eps_low c) (1 + lc_eps_high c) ratio * a)"

definition ppo_token :: "loss_config \<Rightarrow> bool \<Rightarrow> real \<Rightarrow> real \<Rightarrow> real \<Rightarrow> real" where
  "ppo_token c dual lp old a =
     (let loss = clipped c (safe_exp_delta (lp - old)) a
      in if dual then (if a < 0 then min (- a * lc_clip_ratio_c c) loss else loss) else loss)"

definition sigmoid :: "real \<Rightarrow> real" where
  "sigmoid x = 1 / (1 + exp (- x))"

definition gate_function :: "real \<Rightarrow> real \<Rightarrow> real" where
  "gate_function x tau = sigmoid (tau * (x - 1)) * (4 / tau)"

definition sapo_token :: "loss_config \<Rightarrow> real \<Rightarrow> real \<Rightarrow> real \<Rightarrow> real" where
  "sapo_token c lp old a =
     (let ratio = exp (clamp (- 20) 20 (lp - old))
      in - gate_function ratio (if a > 0 then lc_tau_pos c else lc_tau_neg c) * a)"

text \<open>The importance weight of a sequence is the geometric mean over its tokens.\<close>

definition gspo_ratio :: "tensor \<Rightarrow> tensor \<Rightarrow> tensor option \<Rightarrow> real list" where
  "gspo_ratio lp old m = map (\<lambda>w. exp (min 10 w)) (masked_mean_rows (ew (-) lp old) m)"

definition gspo_token :: "loss_config \<Rightarrow> real \<Rightarrow> real \<Rightarrow> real \<Rightarrow> real" where
  "gspo_token c ratio lp a = clipped c ratio a"

definition cispo_token :: "loss_config \<Rightarrow> real \<Rightarrow> real \<Rightarrow> real \<Rightarrow> real" where
  "cispo_token c lp old a =
     - a * clamp (1 - lc_cispo_low c) (1 + lc_cispo_high c) (safe_exp_delta (lp - old)) * lp"

definition rollout_is_token :: "loss_config \<Rightarrow> real \<Rightarrow> real \<Rightarrow> real \<Rightarrow> real" where
  "rollout_is_token c lp ro a =
     (let ratio = safe_exp_delta (lp - ro)
      in - ((if ratio > 1 - lc_eps_low c \<and> ratio < 1 + lc_eps_high c then ratio else 0) * a * lp))"

definition binary_kl :: "real \<Rightarrow> real \<Rightarrow> real" where
  "binary_kl mu lp =
     exp mu * (mu - lp) + (1 - exp mu) * ln ((1 - exp mu + 1 / 10 ^ 8) / (1 - exp lp + 1 / 10 ^ 8))"

definition dppo_mask :: "loss_config \<Rightarrow> bool \<Rightarrow> real \<Rightarrow> real \<Rightarrow> real \<Rightarrow> real" where
  "dppo_mask c tv lp mu a =
     (let diff = exp lp - exp mu
      in if tv
         then (if a > 0 \<and> diff > lc_delta_high c \<or> a < 0 \<and> - diff > lc_delta_low c then 0 else 1)
         else (if a > 0 \<and> diff > 0 \<and> binary_kl mu lp > lc_delta_high c
                  \<or> a < 0 \<and> diff < 0 \<and> binary_kl mu lp > lc_delta_low c then 0 else 1))"

definition dppo_token :: "loss_config \<Rightarrow> bool \<Rightarrow> real \<Rightarrow> real \<Rightarrow> real \<Rightarrow> real" where
  "dppo_token c tv lp mu a = - (safe_exp_delta (lp - mu) * a * dppo_mask c tv lp mu a)"

definition importance_token :: "real \<Rightarrow> real \<Rightarrow> real \<Rightarrow> real" where
  "importance_token lp old a = - (exp (lp - old) * a)"

section \<open>Losses by covariance\<close>

definition positions :: "tensor \<Rightarrow> (nat \<times> nat) list" where
  "positions T = concat (map (\<lambda>i. map (\<lambda>t. (i, t)) [0..<length (T ! i)]) [0..<length T])"

text \<open>\<open>clip_by_origin\<close> and masked positions have covariance minus infinity, \<open>None\<close>.\<close>

definition clip_cov_value :: "loss_config \<Rightarrow> tensor \<Rightarrow> tensor \<Rightarrow> tensor \<Rightarrow> tensor \<Rightarrow> nat \<Rightarrow> nat \<Rightarrow> real option" where
  "clip_cov_value c lp old adv m i t =
     (let a = adv ! i ! t; ratio = exp (lp ! i ! t - old ! i ! t); k = m ! i ! t;
          by_origin = (- a * clamp (1 - lc_eps_low c) (1 + lc_eps_high c) ratio > - a * ratio \<and> k > 0)
      in if k = 0 \<or> by_origin then None
         else Some ((a - masked_mean adv (Some m)) * (lp ! i ! t - masked_mean lp (Some m))))"

definition clip_cov_candidates :: "loss_config \<Rightarrow> tensor \<Rightarrow> tensor \<Rightarrow> tensor \<Rightarrow> tensor \<Rightarrow> (nat \<times> nat) list" where
  "clip_cov_candidates c lp old adv m =
     filter (\<lambda>(i, t). case clip_cov_value c lp old adv m i t of
               None \<Rightarrow> False | Some v \<Rightarrow> v < lc_clip_cov_ub c \<and> v > lc_clip_cov_lb c \<and> m ! i ! t > 0)
       (positions adv)"

text \<open>\<open>perm\<close> is the random permutation of the candidates.\<close>

definition clip_cov_chosen ::
  "loss_config \<Rightarrow> ((nat \<times> nat) list \<Rightarrow> (nat \<times> nat) list) \<Rightarrow> tensor \<Rightarrow> tensor \<Rightarrow> tensor \<Rightarrow> tensor \<Rightarrow> (nat \<times> nat) list" where
  "clip_cov_chosen c perm lp old adv m =
     take (nat (max \<lfloor>lc_clip_cov_ratio c * tsum m\<rfloor> 1)) (perm (clip_cov_candidates c lp old adv m))"

definition by_position :: "(nat \<Rightarrow> nat \<Rightarrow> real) \<Rightarrow> tensor \<Rightarrow> tensor" where
  "by_position f T = map (\<lambda>i. map (f i) [0..<length (T ! i)]) [0..<length T]"

definition clip_cov_losses ::
  "loss_config \<Rightarrow> ((nat \<times> nat) list \<Rightarrow> (nat \<times> nat) list) \<Rightarrow> tensor \<Rightarrow> tensor \<Rightarrow> tensor \<Rightarrow> tensor \<Rightarrow> tensor" where
  "clip_cov_losses c perm lp old adv m =
     by_position (\<lambda>i t. let a = adv ! i ! t; ratio = exp (lp ! i ! t - old ! i ! t)
        in max (- a * ratio) (- a * clamp (1 - lc_eps_low c) (1 + lc_eps_high c) ratio)
           * (if (i, t) \<in> set (clip_cov_chosen c perm lp old adv m) then 0 else 1)) adv"

text \<open>\<open>topk k xs\<close> are the indices \<open>torch.topk\<close> returns.\<close>

definition kl_cov_chosen ::
  "loss_config \<Rightarrow> (nat \<Rightarrow> real list \<Rightarrow> nat list) \<Rightarrow> tensor \<Rightarrow> tensor \<Rightarrow> tensor \<Rightarrow> (nat \<times> nat) list" where
  "kl_cov_chosen c topk lp adv m =
     (let valid = filter (\<lambda>(i, t). m ! i ! t > 0) (positions m);
          va = map (\<lambda>(i, t). adv ! i ! t) valid; vl = map (\<lambda>(i, t). lp ! i ! t) valid;
          cov = map2 (\<lambda>a l. (a - list_mean va) * (l - list_mean vl)) va vl;
          k = nat (max 1 \<lfloor>real (length cov) * lc_kl_cov_frac c\<rfloor>)
      in if valid = [] then [] else map ((!) valid) (topk (min k (length cov)) cov))"

definition kl_cov_losses ::
  "loss_config \<Rightarrow> (nat \<Rightarrow> real list \<Rightarrow> nat list) \<Rightarrow> tensor \<Rightarrow> tensor \<Rightarrow> tensor \<Rightarrow> tensor \<Rightarrow> tensor" where
  "kl_cov_losses c topk lp old adv m =
     by_position (\<lambda>i t. let d = lp ! i ! t - old ! i ! t; pg = - (adv ! i ! t) * exp d
        in if (i, t) \<in> set (kl_cov_chosen c topk lp adv m) then pg + lc_ppo_kl_coef c * \<bar>d\<bar> else pg) adv"

section \<open>Policy losses\<close>

record random_choices =
  rn_perm :: "(nat \<times> nat) list \<Rightarrow> (nat \<times> nat) list"
  rn_top :: "nat \<Rightarrow> real list \<Rightarrow> nat list"

text \<open>The token losses with the mask their sum is taken over; \<open>ro\<close> are the log-probabilities of the rollout.\<close>

definition token_losses ::
  "policy_loss_type \<Rightarrow> loss_config \<Rightarrow> random_choices \<Rightarrow> tensor \<Rightarrow> tensor \<Rightarrow> tensor \<Rightarrow> tensor option \<Rightarrow> tensor option
     \<Rightarrow> (string, tensor \<times> tensor option) result" where
  "token_losses ty c rn lp old adv m ro =
     (let correct = (\<lambda>loss. apply_off_policy_correction loss old ro m (lc_off_policy c))
      in case ty of
           Regular \<Rightarrow> correct (ew3 (ppo_token c False) lp old adv)
         | Dual_clip \<Rightarrow> correct (ew3 (ppo_token c True) lp old adv)
         | Sapo \<Rightarrow> correct (ew3 (sapo_token c) lp old adv)
         | Gspo \<Rightarrow> correct (ew3 (gspo_token c) (broadcast (gspo_ratio lp old m) lp) lp adv)
         | Cispo \<Rightarrow> correct (ew3 (cispo_token c) lp old adv)
         | Rollout_is \<Rightarrow>
             (case ro of
                None \<Rightarrow> Inl ''rollout_logprobs are required for rollout_is''
              | Some r \<Rightarrow> correct (ew3 (rollout_is_token c) lp r adv))
         | Dppo \<Rightarrow>
             (let mu = (case ro of Some r \<Rightarrow> r | None \<Rightarrow> old)
              in if lc_dppo_type c = ''binary_tv'' then correct (ew3 (dppo_token c True) lp mu adv)
                 else if lc_dppo_type c = ''binary_kl'' then correct (ew3 (dppo_token c False) lp mu adv)
                 else Inl ''Unknown DPPO type'')
         | Cross_entropy \<Rightarrow> Inr (tmap (\<lambda>x. - x) lp, m)
         | Importance_sampling \<Rightarrow> Inr (ew3 importance_token lp old adv, m)
         | Clip_cov \<Rightarrow>
             (case m of None \<Rightarrow> Inl ''unsupported operand type: NoneType''
              | Some k \<Rightarrow> Inr (clip_cov_losses c (rn_perm rn) lp old adv k, m))
         | Kl_cov \<Rightarrow>
             (case m of None \<Rightarrow> Inl ''unsupported operand type: NoneType''
              | Some k \<Rightarrow> Inr (kl_cov_losses c (rn_top rn) lp old adv k, m)))"

definition policy_loss ::
  "policy_loss_type \<Rightarrow> loss_config \<Rightarrow> random_choices \<Rightarrow> tensor \<Rightarrow> tensor \<Rightarrow> tensor \<Rightarrow> tensor option \<Rightarrow> tensor option
     \<Rightarrow> (string, real) result" where
  "policy_loss ty c rn lp old adv m ro =
     (case token_losses ty c rn lp old adv m ro of Inl e \<Rightarrow> Inl e | Inr (loss, m') \<Rightarrow> Inr (reduce_loss loss m'))"

definition ppo_critic_loss :: "real option \<Rightarrow> tensor \<Rightarrow> tensor \<Rightarrow> tensor \<Rightarrow> tensor option \<Rightarrow> real" where
  "ppo_critic_loss value_clip vals old_vals returns m =
     (let loss = (case value_clip of
            Some c \<Rightarrow> ew max (ew (\<lambda>v r. (v - r)\<^sup>2) (ew (\<lambda>v o'. o' + clamp (- c) c (v - o')) vals old_vals) returns)
                            (ew (\<lambda>v r. (v - r)\<^sup>2) vals returns)
          | None \<Rightarrow> ew (\<lambda>v r. (v - r)\<^sup>2) vals returns)
      in 1 / 2 * list_mean (masked_mean_rows loss m))"

end
