(* ===== verification/Advantage_Properties.thy ===== *)
theory Advantage_Properties
  imports Advantages
begin

text \<open>
  What the estimators of the trainers compute, in closed form over the rows of a batch.
\<close>

section \<open>Groups\<close>

lemma group_of_eq:
  assumes "length index = length scores" "i < length index"
  shows "group_of index scores (index ! i) = values_of (index ! i) (zip index scores)"
  using id2score_get [OF assms] by (simp add: group_of_def id2score_def)

lemma group_size:
  assumes "length index = length scores" "i < length index"
  shows "length (group_of index scores (index ! i)) = card (peers index (index ! i))"
  using assms by (simp add: group_of_eq length_values_of)

lemma group_mean:
  assumes "length index = length scores" "i < length index"
  shows "list_mean (group_of index scores (index ! i))
    = (\<Sum>j\<in>peers index (index ! i). scores ! j) / real (card (peers index (index ! i)))"
  using sum_values_of [OF assms(1), of "\<lambda>x. x" "index ! i"] assms group_size [OF assms]
  by (simp add: list_mean_def group_of_eq)

lemma group_std:
  fixes scores :: "real list"
  assumes "length index = length scores" "i < length index"
  defines "A \<equiv> peers index (index ! i)"
  defines "m \<equiv> (\<Sum>j\<in>A. scores ! j) / real (card A)"
  shows "list_std (group_of index scores (index ! i)) = sqrt ((\<Sum>j\<in>A. (scores ! j - m)\<^sup>2) / (real (card A) - 1))"
  using sum_values_of [OF assms(1), of "\<lambda>x. (x - m)\<^sup>2" "index ! i"] group_mean [OF assms(1,2)] group_size [OF assms(1,2)]
  by (simp add: list_std_def group_of_eq [OF assms(1,2)] A_def m_def)

lemma card_peers_pos: "i < length index \<Longrightarrow> 0 < card (peers index (index ! i))"
  using peers_self by (fastforce simp: card_gt_0_iff)

lemma spread_nth:
  assumes "length scores = length m" "i < length m" "t < length (m ! i)"
  shows "spread scores m ! i ! t = scores ! i * m ! i ! t"
  using assms by (simp add: spread_def)

section \<open>RLOO\<close>

lemma rloo_scores_nth:
  fixes scores :: "real list"
  assumes "length index = length scores" "i < length index"
  defines "A \<equiv> peers index (index ! i)"
  shows "rloo_scores index scores ! i =
    (if card A > 1 then (scores ! i - (\<Sum>j\<in>A. scores ! j) / real (card A)) * (real (card A) / (real (card A) - 1)) else 0)"
  using assms group_size [OF assms(1,2)] group_mean [OF assms(1,2)]
  by (simp add: rloo_scores_def id2mean_def Let_def)

lemma leave_one_out:
  fixes f :: "nat \<Rightarrow> real"
  assumes "finite A" "i \<in> A" "card A > 1"
  shows "(f i - (\<Sum>j\<in>A. f j) / real (card A)) * (real (card A) / (real (card A) - 1))
    = f i - (\<Sum>j\<in>A - {i}. f j) / real (card (A - {i}))"
proof -
  let ?n = "real (card A)"
  have n: "?n - 1 > 0" "?n > 0" and c: "real (card (A - {i})) = ?n - 1" using assms by (simp_all add: of_nat_diff)
  have s: "(\<Sum>j\<in>A. f j) = f i + (\<Sum>j\<in>A - {i}. f j)" using assms by (simp add: sum.remove [of A i])
  show ?thesis using n by (simp add: c s field_simps)
qed

text \<open>C28: The RLOO advantage of a response is its score minus the mean score of the other responses to the same
  prompt, at every unmasked position, and zero for a prompt with a single response; so over the responses
  of a prompt the advantages cancel.\<close>

theorem rloo_leave_one_out:
  fixes rewards m :: tensor
  assumes "length index = length rewards" "length m = length rewards" "i < length rewards" "t < length (m ! i)"
  defines "others \<equiv> peers index (index ! i) - {i}"
  shows "fst (compute_rloo_outcome_advantage rewards m index) ! i ! t =
      (if others = {} then 0
       else sum_list (rewards ! i) - (\<Sum>j\<in>others. sum_list (rewards ! j)) / real (card others)) * m ! i ! t
    \<and> (\<Sum>j\<in>peers index (index ! i). rloo_scores index (row_sums rewards) ! j) = 0"
proof
  let ?A = "peers index (index ! i)" and ?s = "row_sums rewards"
  have len: "length index = length ?s" using assms(1) by simp
  have i: "i < length index" "i \<in> ?A" using assms(1,3) by (simp_all add: peers_def)
  have val: "?s ! j = sum_list (rewards ! j)" if "j \<in> ?A" for j using that assms(1) by (simp add: peers_def)
  have card: "card others = card ?A - 1" using i by (simp add: others_def)
  then have some: "card ?A > 1 \<longleftrightarrow> others \<noteq> {}" 
    using card_gt_0_iff [of others] finite_peers [of index "index ! i"] by (auto simp: others_def simp del: Diff_eq_empty_iff)
  have score: "rloo_scores index ?s ! i =
      (if others = {} then 0 else sum_list (rewards ! i) - (\<Sum>j\<in>others. sum_list (rewards ! j)) / real (card others))"
  proof (cases "card ?A > 1")
    case True
    have "rloo_scores index ?s ! i = ?s ! i - (\<Sum>j\<in>others. ?s ! j) / real (card others)"
      using rloo_scores_nth [OF len i(1)] leave_one_out [OF finite_peers i(2) True, of "(!) ?s"] True
      by (simp add: others_def)
    also have "(\<Sum>j\<in>others. ?s ! j) = (\<Sum>j\<in>others. sum_list (rewards ! j))"
      by (intro sum.cong) (auto simp: others_def val)
    finally show ?thesis using True some val [OF i(2)] by simp
  next
    case False
    then show ?thesis using rloo_scores_nth [OF len i(1)] some by simp
  qed
  have "length (rloo_scores index ?s) = length m" using assms(1,2) by (simp add: rloo_scores_def)
  then show "fst (compute_rloo_outcome_advantage rewards m index) ! i ! t =
      (if others = {} then 0
       else sum_list (rewards ! i) - (\<Sum>j\<in>others. sum_list (rewards ! j)) / real (card others)) * m ! i ! t"
    using spread_nth [of "rloo_scores index ?s" m i t] assms(2-4) score
    by (simp add: compute_rloo_outcome_advantage_def Let_def)
  show "(\<Sum>j\<in>?A. rloo_scores index ?s ! j) = 0"
  proof (cases "card ?A > 1")
    case True
    have same: "index ! j = index ! i" "j < length index" if "j \<in> ?A" for j using that by (simp_all add: peers_def)
    have "(\<Sum>j\<in>?A. rloo_scores index ?s ! j)
        = (\<Sum>j\<in>?A. (?s ! j - (\<Sum>j\<in>?A. ?s ! j) / real (card ?A)) * (real (card ?A) / (real (card ?A) - 1)))"
      using True by (intro sum.cong refl) (simp add: rloo_scores_nth [OF len same(2)] same(1))
    also have "\<dots> = (\<Sum>j\<in>?A. ?s ! j - (\<Sum>j\<in>?A. ?s ! j) / real (card ?A)) * (real (card ?A) / (real (card ?A) - 1))"
      by (rule sum_distrib_right [symmetric])
    also have "(\<Sum>j\<in>?A. ?s ! j - (\<Sum>j\<in>?A. ?s ! j) / real (card ?A)) = 0"
      using i(2) by (intro sum_centred) auto
    finally show ?thesis by simp
  next
    case False
    have "rloo_scores index ?s ! j = 0" if "j \<in> ?A" for j
      using that False rloo_scores_nth [OF len, of j] by (simp add: peers_def)
    then show ?thesis by simp
  qed
qed

theorem rloo_leave_one_out_witness:
  "fst (compute_rloo_outcome_advantage [[0, 1], [3], [0, 0]] [[1, 1], [1], [0, 1]] [7::nat, 7, 7]) ! 1 ! 0 = 5 / 2"
proof -
  have p: "peers [7::nat, 7, 7] 7 - {Suc 0} = {0, 2}" by (auto simp: peers_def less_Suc_eq numeral_eq_Suc nth_Cons')
  show ?thesis
    using rloo_leave_one_out [of "[7::nat, 7, 7]" "[[0, 1], [3], [0, 0]]" "[[1, 1], [1], [0, 1]]" 1 0, THEN conjunct1]
    by (simp add: p del: Diff_eq_empty_iff)
qed

section \<open>GRPO\<close>

lemma grpo_scores_nth:
  fixes scores :: "real list"
  assumes "length index = length scores" "i < length index"
  defines "A \<equiv> peers index (index ! i)"
  defines "mean \<equiv> (\<Sum>j\<in>A. scores ! j) / real (card A)"
  shows "grpo_scores index eps b scores ! i =
    (if card A = 1 then scores ! i / (if b then 1 + eps else 1)
     else (scores ! i - mean) / (if b then sqrt ((\<Sum>j\<in>A. (scores ! j - mean)\<^sup>2) / (real (card A) - 1)) + eps else 1))"
  using assms(1,2) group_size [OF assms(1,2)] group_mean [OF assms(1,2)] group_std [OF assms(1,2)]
  by (simp add: grpo_scores_def id2mean_def id2std_def Let_def A_def mean_def)

text \<open>The advantage in units of the deviation of the group.\<close>

lemma standardised_bound:
  fixes f :: "'i \<Rightarrow> real"
  assumes A: "finite A" "i \<in> A" "2 \<le> card A" and eps: "0 < eps"
  defines "m \<equiv> (\<Sum>j\<in>A. f j) / real (card A)"
  shows "\<bar>(f i - m) / (sqrt ((\<Sum>j\<in>A. (f j - m)\<^sup>2) / (real (card A) - 1)) + eps)\<bar>
    \<le> (real (card A) - 1) / sqrt (real (card A))"
proof -
  let ?n = "real (card A)" and ?q = "\<Sum>j\<in>A. (f j - m)\<^sup>2"
  let ?sd = "sqrt (?q / (?n - 1))"
  have n: "0 < ?n" "0 < ?n - 1" using A(3) by simp_all
  have q: "0 \<le> ?q" by (intro sum_nonneg) simp
  then have sd: "0 \<le> ?sd" using n by simp
  have "(f i - m)\<^sup>2 * ?n \<le> (?n - 1) * ?q" unfolding m_def by (rule deviation_bound [OF A])
  also have "\<dots> = ((?n - 1) * ?sd)\<^sup>2" 
  proof -
    have "?sd\<^sup>2 = ?q / (?n - 1)" using n q by simp
    then show ?thesis using n by (simp add: power_mult_distrib power2_eq_square [of "?n - 1"])
  qed
  finally have "sqrt ((f i - m)\<^sup>2 * ?n) \<le> (?n - 1) * ?sd" by (rule real_le_lsqrt [rotated]) (use n sd in auto)
  then have "\<bar>f i - m\<bar> * sqrt ?n \<le> (?n - 1) * ?sd" by (simp add: real_sqrt_mult)
  then have "\<bar>f i - m\<bar> \<le> (?n - 1) / sqrt ?n * ?sd" using n by (simp add: field_simps)
  also have "\<dots> \<le> (?n - 1) / sqrt ?n * (?sd + eps)" using n eps by (intro mult_left_mono) auto
  finally have "\<bar>f i - m\<bar> \<le> (?n - 1) / sqrt ?n * (?sd + eps)" .
  moreover have "0 < ?sd + eps" using sd eps by (rule add_nonneg_pos)
  ultimately show ?thesis by (simp only: abs_divide abs_of_pos pos_divide_le_eq)
qed

text \<open>GRPO centres the scores of the responses to a prompt: over a prompt with several responses the
  advantages cancel, they are zero when all scores agree, and whatever the rewards their size stays below
  (n - 1) / sqrt n for n responses, so that no reward scale can blow up an update.\<close>

theorem grpo_centred_and_bounded:
  fixes rewards m :: tensor and norm_by_std :: bool
  assumes "length index = length rewards" "length m = length rewards" "i < length rewards" "0 < eps"
    and "2 \<le> card (peers index (index ! i))"
  defines "A \<equiv> peers index (index ! i)" and "scores \<equiv> grpo_scores index eps norm_by_std (row_sums rewards)"
  shows "(\<Sum>j\<in>A. scores ! j) = 0
    \<and> ((\<forall>j\<in>A. sum_list (rewards ! j) = sum_list (rewards ! i)) \<longrightarrow> scores ! i = 0)
    \<and> (norm_by_std \<longrightarrow> t < length (m ! i) \<longrightarrow> \<bar>m ! i ! t\<bar> \<le> 1 \<longrightarrow>
      \<bar>fst (compute_grpo_outcome_advantage rewards m index eps norm_by_std) ! i ! t\<bar> \<le> (real (card A) - 1) / sqrt (real (card A)))"
proof (intro conjI impI)
  let ?s = "row_sums rewards"
  define mean where "mean = (\<Sum>j\<in>A. ?s ! j) / real (card A)"
  define sd where "sd = (if norm_by_std then sqrt ((\<Sum>j\<in>A. (?s ! j - mean)\<^sup>2) / (real (card A) - 1)) + eps else 1)"
  have len: "length index = length ?s" using assms(1) by simp
  have iA: "i \<in> A" using assms(1,3) by (simp add: A_def peers_def)
  have val: "?s ! j = sum_list (rewards ! j)" if "j \<in> A" for j using that assms(1) by (simp add: A_def peers_def)
  have score: "scores ! j = (?s ! j - mean) / sd" if "j \<in> A" for j
  proof -
    have j: "j < length index" "peers index (index ! j) = A" using that by (simp_all add: A_def peers_def)
    show ?thesis
      using grpo_scores_nth [OF len j(1), of eps norm_by_std] assms(5) j(2) by (simp add: scores_def mean_def sd_def A_def)
  qed
  have "(\<Sum>j\<in>A. scores ! j) = (\<Sum>j\<in>A. ?s ! j - mean) / sd"
    by (simp add: score sum_divide_distrib)
  then show "(\<Sum>j\<in>A. scores ! j) = 0"
    using sum_centred [of A "(!) ?s"] iA by (auto simp: mean_def A_def)
  show "scores ! i = 0" if same: "\<forall>j\<in>A. sum_list (rewards ! j) = sum_list (rewards ! i)"
  proof -
    have "(\<Sum>j\<in>A. ?s ! j) = (\<Sum>j\<in>A. sum_list (rewards ! i))" by (intro sum.cong) (auto simp: val same)
    moreover have "card A \<noteq> 0" using assms(5) unfolding A_def by linarith
    ultimately have "mean = sum_list (rewards ! i)" by (simp add: mean_def del: card_eq_0_iff)
    then show ?thesis using score [OF iA] val [OF iA] by simp
  qed
  assume b: norm_by_std and t: "t < length (m ! i)" "\<bar>m ! i ! t\<bar> \<le> 1"
  have le: "\<bar>scores ! i\<bar> \<le> (real (card A) - 1) / sqrt (real (card A))"
    using standardised_bound [of A i eps "(!) ?s"] iA assms(4,5) b score [OF iA]
    by (simp add: A_def mean_def sd_def)
  have "length scores = length m" using assms(1,2) by (simp add: scores_def grpo_scores_def)
  then have "fst (compute_grpo_outcome_advantage rewards m index eps norm_by_std) ! i ! t = scores ! i * m ! i ! t"
    using spread_nth [of scores m i t] assms(2,3) t(1) by (simp add: compute_grpo_outcome_advantage_def scores_def Let_def)
  then have "\<bar>fst (compute_grpo_outcome_advantage rewards m index eps norm_by_std) ! i ! t\<bar> = \<bar>scores ! i\<bar> * \<bar>m ! i ! t\<bar>"
    by (simp add: abs_mult)
  also have "\<dots> \<le> \<bar>scores ! i\<bar>" using mult_left_mono [OF t(2), of "\<bar>scores ! i\<bar>"] by simp
  finally show "\<bar>fst (compute_grpo_outcome_advantage rewards m index eps norm_by_std) ! i ! t\<bar>
      \<le> (real (card A) - 1) / sqrt (real (card A))" using le by simp
qed

theorem grpo_centred_and_bounded_witness:
  "\<bar>fst (compute_grpo_outcome_advantage [[0, 1], [300]] [[1, 1], [1]] [7::nat, 7] (1 / 10) True) ! 1 ! 0\<bar> \<le> 1 / sqrt 2"
proof -
  have p: "peers [7::nat, 7] 7 = {0, Suc 0}" by (auto simp: peers_def less_Suc_eq numeral_eq_Suc nth_Cons')
  show ?thesis
    using grpo_centred_and_bounded [of "[7::nat, 7]" "[[0, 1], [300]]" "[[1, 1], [1]]" 1 "1 / 10" True 0] by (simp add: p)
qed

section \<open>GAE\<close>

definition delta :: "real \<Rightarrow> real list \<Rightarrow> real list \<Rightarrow> nat \<Rightarrow> real" where
  "delta gamma rs vs t = rs ! t + gamma * (if t + 1 < length vs then vs ! (t + 1) else 0) - vs ! t"

lemma gae_state:
  fixes gamma lambd :: real
  assumes "length rs = length vs"
  defines "st \<equiv> foldr (gae_step gamma lambd) (zip rs vs) (0, 0, [])"
  shows "length (snd (snd st)) = length rs \<and> fst st = (if vs = [] then 0 else hd vs)
    \<and> fst (snd st) = (if vs = [] then 0 else hd (snd (snd st)))
    \<and> (\<forall>t<length rs. snd (snd st) ! t = (\<Sum>k<length rs - t. (gamma * lambd) ^ k * delta gamma rs vs (t + k)))"
  unfolding st_def using assms(1)
proof (induction rs vs rule: list_induct2)
  case (Cons r rs v vs)
  obtain nv la acc where st: "foldr (gae_step gamma lambd) (zip rs vs) (0, 0, []) = (nv, la, acc)"
    by (metis prod_cases3)
  have acc: "length acc = length rs" "nv = (if vs = [] then 0 else hd vs)" "la = (if vs = [] then 0 else hd acc)"
    and el: "\<And>t. t < length rs \<Longrightarrow> acc ! t = (\<Sum>k<length rs - t. (gamma * lambd) ^ k * delta gamma rs vs (t + k))"
    using Cons.IH [unfolded st fst_conv snd_conv] by blast+
  let ?d = "delta gamma (r # rs) (v # vs)"
  have shift: "?d (Suc t) = delta gamma rs vs t" for t by (simp add: delta_def)
  have d0: "?d 0 = r + gamma * nv - v" using acc(2) by (cases vs) (simp_all add: delta_def)
  have la: "la = (\<Sum>k<length rs. (gamma * lambd) ^ k * delta gamma rs vs k)"
    
  proof (cases "vs = []")
    case False
    then have "acc \<noteq> []" "0 < length rs" using acc(1) Cons.hyps by auto
    then show ?thesis using acc(3) el [of 0] False by (simp add: hd_conv_nth)
  qed (use acc(3) Cons.hyps in simp)
  have first: "?d 0 + gamma * lambd * la = (\<Sum>k<Suc (length rs). (gamma * lambd) ^ k * ?d k)"
    unfolding la sum.lessThan_Suc_shift by (simp add: shift sum_distrib_left mult.assoc)
  define a where "a = ?d 0 + gamma * lambd * la"
  have state: "foldr (gae_step gamma lambd) (zip (r # rs) (v # vs)) (0, 0, []) = (v, a, a # acc)"
    by (simp add: st gae_step_def Let_def d0 a_def)
  have el': "(a # acc) ! t = (\<Sum>k<length (r # rs) - t. (gamma * lambd) ^ k * ?d (t + k))" if "t < length (r # rs)" for t
  proof (cases t)
    case 0
    then show ?thesis using first by (simp add: a_def)
  next
    case (Suc u)
    then show ?thesis using el [of u] that by (simp add: shift)
  qed
  show ?case unfolding state using acc(1) el' by simp
qed simp

lemma length_gae_row: "length rs = length vs \<Longrightarrow> length (gae_row gamma lambd rs vs) = length rs"
  using gae_state [of rs vs gamma lambd] by (simp add: gae_row_def)

lemma gae_row_nth:
  "length rs = length vs \<Longrightarrow> t < length rs \<Longrightarrow>
    gae_row gamma lambd rs vs ! t = (\<Sum>k<length rs - t. (gamma * lambd) ^ k * delta gamma rs vs (t + k))"
  using gae_state [of rs vs gamma lambd] by (simp add: gae_row_def)

text \<open>With \<open>lambd = 1\<close> the values telescope.\<close>

lemma delta_telescope:
  assumes "length rs = length vs" "t + n \<le> length rs"
  shows "(\<Sum>k<n. gamma ^ k * delta gamma rs vs (t + k)) =
    (\<Sum>k<n. gamma ^ k * rs ! (t + k)) + gamma ^ n * (if t + n < length vs then vs ! (t + n) else 0)
      - (if n = 0 \<and> t = length vs then 0 else vs ! t)"
  using assms(2)
proof (induction n)
  case (Suc n)
  then have "(\<Sum>k<n. gamma ^ k * delta gamma rs vs (t + k)) =
    (\<Sum>k<n. gamma ^ k * rs ! (t + k)) + gamma ^ n * vs ! (t + n) - vs ! t"
    using assms(1) by auto
  moreover have "gamma ^ n * delta gamma rs vs (t + n) = gamma ^ n * rs ! (t + n)
      + gamma ^ Suc n * (if t + Suc n < length vs then vs ! (t + Suc n) else 0) - gamma ^ n * vs ! (t + n)"
    by (simp add: delta_def algebra_simps)
  ultimately show ?case by simp
qed (use assms in auto)

lemma gae_monte_carlo:
  assumes "length rs = length vs" "t < length rs"
  shows "gae_row gamma 1 rs vs ! t + vs ! t = (\<Sum>k<length rs - t. gamma ^ k * rs ! (t + k))"
  using gae_row_nth [OF assms, of gamma 1] delta_telescope [OF assms(1), of t "length rs - t" gamma] assms
  by simp

section \<open>Whitening\<close>

lemma whiten_some:
  assumes "masked_whiten v m sm = Inr w"
  obtains var where "masked_var v m = Inr var"
    "w = tmap (\<lambda>x. (x - masked_mean v (Some m)) * (1 / sqrt (var + 1 / 10 ^ 8)) + (if sm then 0 else masked_mean v (Some m))) v"
  using assms by (auto simp: masked_whiten_def Let_def split: sum.splits)

lemma sum_list_0_if: "\<forall>x\<in>set xs. x = 0 \<Longrightarrow> sum_list xs = 0" for xs :: "real list"
  by (induction xs) auto

lemma binary_whole:
  assumes "binary m"
  shows "tsum m = 0 \<or> 1 \<le> tsum m"
proof (cases "\<exists>i<length m. \<exists>x\<in>set (m ! i). x = 1")
  case True
  then obtain i where i: "i < length m" "1 \<in> set (m ! i)" by auto
  have "1 \<le> sum_list (m ! i)"
    using i assms member_le_sum_list [of 1 "m ! i"] by (force simp: binary_def)
  also have "\<dots> \<le> tsum m"
    unfolding tsum_rows using i(1) assms by (intro member_le_sum) (auto simp: sum_nonneg_binary)
  finally show ?thesis by simp
next
  case False
  then have "\<forall>x\<in>set (m ! i). x = 0" if "i < length m" for i
    using that assms by (fastforce simp: binary_def)
  then have "sum_list (m ! i) = 0" if "i < length m" for i
    using that sum_list_0_if by blast
  then show ?thesis by (simp add: tsum_rows)
qed

lemma masked_var_nonneg:
  assumes "masked_var v m = Inr var" "binary m"
  shows "0 \<le> var"
proof -
  let ?c = "tmap (\<lambda>x. (x - masked_mean v (Some m))\<^sup>2) v"
  have var: "var = tsum (ew (*) ?c m) / max 1 (tsum m) * (tsum m / (tsum m - 1))" "tsum m \<noteq> 0" "tsum m \<noteq> 1"
    using assms(1) by (auto simp: masked_var_def Let_def masked_mean_def split: if_splits)
  have whole: "tsum m = 0 \<or> 1 \<le> tsum m" using assms(2) by (rule binary_whole)
  have "0 \<le> tsum (ew (*) ?c m)"
    unfolding tsum_rows
  proof (intro sum_nonneg sum_list_nonneg)
    fix i x assume i: "i \<in> {..<length (ew (*) ?c m)}" "x \<in> set (ew (*) ?c m ! i)"
    then obtain a b where "x = a\<^sup>2 * b" "b \<in> set (m ! i)" by (auto simp: set_zip)
    moreover have "b = 0 \<or> b = 1" using \<open>b \<in> set (m ! i)\<close> i(1) assms(2) by (auto simp: binary_def)
    ultimately show "0 \<le> x" by auto
  qed
  then show ?thesis using var whole by (auto intro!: mult_nonneg_nonneg divide_nonneg_nonneg)
qed

lemma tsum_ew_shift:
  assumes "same_shape v m"
  shows "tsum (ew (*) (tmap (\<lambda>x. (x - c) * k) v) m) = k * (tsum (ew (*) v m) - c * tsum m)"
proof -
  have row: "sum_list (map2 (*) (map (\<lambda>x. (x - c) * k) r) q) = k * (sum_list (map2 (*) r q) - c * sum_list q)"
    if "length r = length q" for r q :: "real list"
    using that by (induction r q rule: list_induct2) (simp_all add: algebra_simps)
  have "tsum (ew (*) (tmap (\<lambda>x. (x - c) * k) v) m)
      = (\<Sum>i<length v. k * (sum_list (map2 (*) (v ! i) (m ! i)) - c * sum_list (m ! i)))"
    using same_shapeD [OF assms] unfolding tsum_rows by (intro sum.cong) (auto simp: row)
  also have "\<dots> = k * (tsum (ew (*) v m) - c * tsum m)"
    using same_shapeD(1) [OF assms] by (simp add: tsum_rows sum_distrib_left sum_subtractf right_diff_distrib)
  finally show ?thesis .
qed

lemma whiten_centred:
  assumes "masked_whiten v m True = Inr w" "same_shape v m" "1 \<le> tsum m"
  shows "tsum (ew (*) w m) = 0"
proof -
  obtain var where w: "w = tmap (\<lambda>x. (x - masked_mean v (Some m)) * (1 / sqrt (var + 1 / 10 ^ 8))) v"
    using whiten_some [OF assms(1)] by auto
  have "masked_mean v (Some m) * tsum m = tsum (ew (*) v m)"
    using assms(3) by (simp add: masked_mean_def)
  then show ?thesis unfolding w tsum_ew_shift [OF assms(2)] by simp
qed

text \<open>The return of GAE at a token is the value there plus the sum of the later temporal differences, each
  discounted by \<open>gamma * lambd\<close>; with \<open>lambd = 1\<close> it is the discounted reward to come, whatever the critic
  says, and the whitened advantages sum to zero over the response tokens of the batch.\<close>

theorem gae_returns:
  assumes "compute_gae_advantage_return rewards vals m gamma lambd = Inr (adv, ret)"
    and "same_shape rewards vals" "same_shape rewards m" "binary m" "i < length rewards" "t < length (rewards ! i)"
  shows "ret ! i ! t = vals ! i ! t + (\<Sum>k<length (rewards ! i) - t. (gamma * lambd) ^ k *
           (rewards ! i ! (t + k) + gamma * (if t + k + 1 < length (vals ! i) then vals ! i ! (t + k + 1) else 0)
              - vals ! i ! (t + k)))
    \<and> (lambd = 1 \<longrightarrow> ret ! i ! t = (\<Sum>k<length (rewards ! i) - t. gamma ^ k * rewards ! i ! (t + k)))
    \<and> tsum (ew (*) adv m) = 0"
proof -
  let ?raw = "map2 (gae_row gamma lambd) rewards vals"
  have w: "masked_whiten ?raw m True = Inr adv" and ret: "ret = ew (+) ?raw vals"
    using assms(1) by (auto simp: compute_gae_advantage_return_def Let_def split: if_splits sum.splits)
  have len: "length vals = length rewards" "length (vals ! i) = length (rewards ! i)"
    using same_shapeD [OF assms(2)] assms(5) by auto
  have raw: "ret ! i ! t = gae_row gamma lambd (rewards ! i) (vals ! i) ! t + vals ! i ! t"
    using assms(5,6) len length_gae_row [of "rewards ! i" "vals ! i" gamma lambd] by (simp add: ret)
  have "same_shape ?raw rewards"
    using same_shapeD [OF assms(2)] by (intro same_shapeI) (auto simp: length_gae_row)
  then have shape: "same_shape ?raw m" using assms(3) same_shape_trans by blast
  obtain var where "masked_var ?raw m = Inr var" using whiten_some [OF w] by auto
  then have "tsum m \<noteq> 0" by (auto simp: masked_var_def Let_def split: if_splits)
  then have "1 \<le> tsum m" using binary_whole [OF assms(4)] by simp
  from whiten_centred [OF w shape this] show ?thesis
    using raw gae_row_nth [of "rewards ! i" "vals ! i" t gamma lambd] gae_monte_carlo [of "rewards ! i" "vals ! i" t gamma]
      assms(6) len by (auto simp: delta_def)
qed

theorem gae_returns_witness:
  "\<exists>adv. compute_gae_advantage_return [[1, 0, 2]] [[5, 7, 9]] [[1, 1, 1]] (1 / 2) 1 = Inr (adv, [[3 / 2, 1, 2]])
    \<and> tsum (ew (*) adv [[1, 1, 1]]) = 0"
proof -
  have "\<exists>adv. compute_gae_advantage_return [[1, 0, 2]] [[5, 7, 9]] [[1, 1, 1]] (1 / 2) 1 = Inr (adv, [[3 / 2, 1, 2]])"
    by (simp add: compute_gae_advantage_return_def gae_row_def gae_step_def masked_whiten_def masked_var_def Let_def
        tsum_def row_sums_def ew_def)
  then obtain adv where adv: "compute_gae_advantage_return [[1, 0, 2]] [[5, 7, 9]] [[1, 1, 1]] (1 / 2) 1 = Inr (adv, [[3 / 2, 1, 2]])"
    by blast
  from gae_returns [OF adv, of 0 0] adv show ?thesis by (simp add: same_shape_def binary_def)
qed

section \<open>Step-wise trajectories\<close>

definition ended :: "bool list \<Rightarrow> nat \<Rightarrow> nat" where
  "ended is_last i = length (filter id (take i is_last))"

lemma ended_Suc: "i < length is_last \<Longrightarrow> ended is_last (Suc i) = ended is_last i + (if is_last ! i then 1 else 0)"
  by (simp add: ended_def take_Suc_conv_app_nth)

lemma ended_same: "i \<le> j \<Longrightarrow> j \<le> length is_last \<Longrightarrow> \<forall>l\<in>{i..<j}. \<not> is_last ! l \<Longrightarrow> ended is_last j = ended is_last i"
proof (induction j rule: dec_induct)
  case (step n)
  then show ?case using ended_Suc [of n is_last] by simp
qed simp

lemma ended_mono: "i \<le> j \<Longrightarrow> ended is_last i \<le> ended is_last j"
proof -
  assume "i \<le> j"
  then have "take j is_last = take i is_last @ take (j - i) (drop i is_last)" by (metis le_add_diff_inverse take_add)
  then show ?thesis by (simp add: ended_def)
qed

lemma traj_ids_nth:
  assumes "i < length is_last"
  shows "traj_ids is_last ! i = ended is_last i"
proof -
  have "take i (butlast is_last) = take i is_last" using assms by (simp add: take_butlast)
  then show ?thesis using assms by (simp add: traj_ids_def ended_def)
qed

lemma length_select_last: "length xs = length is_last \<Longrightarrow> length (select_last is_last xs) = ended is_last (length is_last)"
proof -
  have "length xs = length is_last \<Longrightarrow> length (filter fst (zip is_last xs)) = length (filter id is_last)"
    by (induction is_last xs rule: list_induct2') auto
  then show "length xs = length is_last \<Longrightarrow> ?thesis" by (simp add: select_last_def ended_def)
qed

lemma select_last_nth:
  assumes "length xs = length is_last" "j < length is_last" "is_last ! j"
  shows "select_last is_last xs ! ended is_last j = xs ! j"
  using assms
proof (induction is_last xs arbitrary: j rule: list_induct2')
  case (4 b is_last x xs)
  then show ?case by (cases j) (auto simp: select_last_def ended_def)
qed auto

lemma select_last_all: "P (select_last is_last xs ! k)"
  if "k < length (select_last is_last xs)" "\<forall>x\<in>set xs. P x"
proof -
  have "select_last is_last xs ! k \<in> set (select_last is_last xs)" using that(1) by (rule nth_mem)
  then have "select_last is_last xs ! k \<in> set xs" by (auto simp: select_last_def dest: set_zip_rightD)
  then show ?thesis using that(2) by blast
qed

definition outcome_scores :: "estimator \<Rightarrow> bool \<Rightarrow> 'k list \<Rightarrow> real list \<Rightarrow> real list" where
  "outcome_scores est norm_by_std index scores =
     (case est of
        Grpo \<Rightarrow> grpo_scores index (1 / 10 ^ 6) norm_by_std scores
      | Rloo \<Rightarrow> rloo_scores index scores
      | _ \<Rightarrow> maxrl_scores index (1 / 10 ^ 6) scores)"

lemma outcome_estimate:
  assumes "est \<in> {Grpo, Rloo, Maxrl}"
  shows "compute_advantages_and_returns est rewards m index vals norm_by_std gamma lambd =
    (let a = spread (outcome_scores est norm_by_std index (row_sums rewards)) m in Inr (a, a))"
  using assms by (auto simp: compute_advantages_and_returns_def outcome_scores_def compute_grpo_outcome_advantage_def
      compute_rloo_outcome_advantage_def compute_maxrl_advantage_def Let_def)

lemma length_outcome_scores [simp]: "length (outcome_scores est b index scores) = min (length index) (length scores)"
  by (cases est) (simp_all add: outcome_scores_def grpo_scores_def rloo_scores_def maxrl_scores_def)

text \<open>In step-wise training every step of a trajectory gets the advantage that the estimator gives to the last
  step of the same trajectory, computed among the last steps only and masked by the step's own response
  mask; the rewards of earlier steps have no influence.\<close>

theorem step_wise_broadcast:
  assumes "est \<in> {Grpo, Rloo, Maxrl}"
    and "step_wise_advantages est rewards m index vals is_last norm_by_std gamma lambd = Inr (adv, ret)"
    and "length rewards = length is_last" "length m = length is_last" "length index = length is_last"
    and "\<forall>r\<in>set m. length r = T" "i < length is_last" "t < T"
  shows "\<exists>j k. i \<le> j \<and> j < length is_last \<and> is_last ! j \<and> (\<forall>l\<in>{i..<j}. \<not> is_last ! l)
    \<and> k < length (select_last is_last rewards) \<and> select_last is_last rewards ! k = rewards ! j \<and> select_last is_last index ! k = index ! j
    \<and> adv ! i ! t = outcome_scores est norm_by_std (select_last is_last index) (row_sums (select_last is_last rewards)) ! k * m ! i ! t
    \<and> ret = adv"
proof -
  let ?n = "length is_last" and ?s = "outcome_scores est norm_by_std (select_last is_last index) (row_sums (select_last is_last rewards))"
  let ?a = "spread ?s (ones_like (select_last is_last m))"
  have nonempty: "0 < ?n" using assms(7) by linarith
  have sel: "length (select_last is_last xs) = ended is_last ?n" if "length xs = ?n" for xs :: "'c list"
    using that by (rule length_select_last)
  have lens: "length ?s = ended is_last ?n" "length ?a = ended is_last ?n" "length (select_last is_last m) = ended is_last ?n"
    using assms(3-5) by (simp_all add: sel spread_def ones_like_def length_select_last)
  have eq: "adv = ew (*) (map ((!) ?a) (traj_ids is_last)) m" "ret = adv"
    and ok: "last (traj_ids is_last) + 1 = length ?a"
    using assms(2) outcome_estimate [OF assms(1), of "select_last is_last rewards" _ "select_last is_last index"]
    by (auto simp: step_wise_advantages_def Let_def split: if_splits)
  have ids: "length (traj_ids is_last) = ?n" by (simp add: traj_ids_def)
  have "last (traj_ids is_last) = ended is_last (?n - 1)"
    using nonempty ids traj_ids_nth [of "?n - 1" is_last] by (metis One_nat_def Suc_pred diff_less last_conv_nth length_greater_0_conv zero_less_one)
  then have "ended is_last ?n = Suc (ended is_last (?n - 1))" using ok lens(2) by simp
  moreover have "Suc (?n - 1) = ?n" using nonempty by simp
  ultimately have final: "is_last ! (?n - 1)"
    using ended_Suc [of "?n - 1" is_last] nonempty by (cases "is_last ! (?n - 1)") simp_all
  define j where "j = (LEAST j. i \<le> j \<and> is_last ! j)"
  have ex: "i \<le> ?n - 1 \<and> is_last ! (?n - 1)" using assms(7) final by simp
  have j: "i \<le> j" "is_last ! j" using LeastI [of "\<lambda>j. i \<le> j \<and> is_last ! j", OF ex] by (auto simp: j_def)
  have "j \<le> ?n - 1" unfolding j_def by (rule Least_le [of "\<lambda>j. i \<le> j \<and> is_last ! j", OF ex])
  then have jn: "j < ?n" using nonempty by linarith
  have none: "\<forall>l\<in>{i..<j}. \<not> is_last ! l"
  proof
    fix l assume l: "l \<in> {i..<j}"
    then have "\<not> (i \<le> l \<and> is_last ! l)" using not_less_Least [of l "\<lambda>j. i \<le> j \<and> is_last ! j"] unfolding j_def by simp
    then show "\<not> is_last ! l" using l by simp
  qed
  define k where "k = ended is_last j"
  have ki: "k = ended is_last i" unfolding k_def by (rule ended_same [OF j(1)]) (use jn none in auto)
  have k: "k < ended is_last ?n" using ended_Suc [OF jn] j(2) ended_mono [of "Suc j" ?n is_last] jn by (simp add: k_def)
  have row: "length (select_last is_last m ! k) = T"
    using select_last_all [of k is_last m "\<lambda>r. length r = T"] k lens(3) assms(6) by simp
  have mi: "length (m ! i) = T" using assms(4,6,7) by simp
  have val: "?a ! k = map (\<lambda>x. ?s ! k * 1) (select_last is_last m ! k)"
    using k lens by (simp add: spread_def ones_like_def o_def)
  have "adv ! i ! t = ?a ! k ! t * m ! i ! t"
    using assms(4,7,8) ids mi row traj_ids_nth [OF assms(7)] by (simp add: eq(1) ki val [unfolded ki])
  also have "?a ! k ! t = ?s ! k" using val row assms(8) by simp
  finally show ?thesis
    using j jn none eq(2) select_last_nth [OF assms(3) jn j(2)] select_last_nth [OF assms(5) jn j(2)] k sel [OF assms(3)]
    by (intro exI [of _ j] exI [of _ k]) (simp add: k_def)
qed

theorem step_wise_broadcast_witness:
  "\<exists>adv. step_wise_advantages Rloo [[9], [1], [3]] [[1], [1], [0]] [''a'', ''a'', ''a''] None [False, True, True] True 1 1 = Inr (adv, adv)
    \<and> adv ! 0 ! 0 = outcome_scores Rloo True [''a'', ''a''] [1, 3] ! 0 * 1"
proof -
  let ?st = "step_wise_advantages Rloo [[9], [1], [3]] [[1], [1], [0]] [''a'', ''a'', ''a''] None [False, True, True] True 1 1"
  have "\<exists>adv ret. ?st = Inr (adv, ret)"
    by (simp add: step_wise_advantages_def compute_advantages_and_returns_def compute_rloo_outcome_advantage_def
        spread_def scale_rows_def ones_like_def tmap_def select_last_def traj_ids_def rloo_scores_def row_sums_def Let_def)
  then obtain adv ret where st: "?st = Inr (adv, ret)" by blast
  have sel: "select_last [False, True, True] [''a'', ''a'', ''a''] = [''a'', ''a'']"
    "row_sums [[1], [3]] = [1, 3 :: real]" "select_last [False, True, True] [[9], [1], [3]] = [[1], [3 :: real]]"
    by (simp_all add: select_last_def row_sums_def)
  from step_wise_broadcast [OF _ st, of 1 0 0] obtain j k where
    jk: "j < Suc (Suc (Suc 0))" "[False, True, True] ! j" "\<forall>l\<in>{0..<j}. \<not> [False, True, True] ! l"
    and r: "k < Suc (Suc 0)" "[[1], [3]] ! k = [[9], [1], [3 :: real]] ! j"
    and a: "adv ! 0 ! 0 = outcome_scores Rloo True [''a'', ''a''] [1, 3] ! k * 1" "ret = adv"
    by (simp add: sel) blast
  have "j = 1"
  proof -
    have "j = 0 \<or> j = 1 \<or> j = 2" using jk(1) by linarith
    moreover have "j \<noteq> 2" using bspec [OF jk(3), of 1] by auto
    ultimately show ?thesis using jk(2) by auto
  qed
  moreover have "k = 0 \<or> k = 1" using r(1) by linarith
  ultimately have "k = 0" using r(2) by auto
  then show ?thesis using st a by simp
qed

end
