(* ===== verification/Loss_Properties.thy ===== *)
theory Loss_Properties
  imports Policy_Losses Advantage_Properties
begin

text \<open>
  The advantages are scaled so that the plain sum of the token losses is the wanted mean.  That works for a loss
  that is homogeneous in the advantage (locale \<open>token_loss\<close>, interpreted by seven of the losses) whatever the
  off-policy correction does; the losses that select tokens by covariance are not.
\<close>

section \<open>Scaling rows\<close>

lemma ew3_simps [tensor_simps, simp]:
  "length (ew3 f A B C) = min (min (length A) (length B)) (length C)"
  "i < length A \<Longrightarrow> i < length B \<Longrightarrow> i < length C \<Longrightarrow>
    ew3 f A B C ! i = map2 (\<lambda>(x, y) z. f x y z) (zip (A ! i) (B ! i)) (C ! i)"
  by (simp_all add: ew3_def)

lemma broadcast_simps [tensor_simps, simp]:
  "length (broadcast cs T) = min (length cs) (length T)"
  "i < length cs \<Longrightarrow> i < length T \<Longrightarrow> broadcast cs T ! i = map (\<lambda>_. cs ! i) (T ! i)"
  by (simp_all add: broadcast_def)

lemma same_shape_ew3: "same_shape A B \<Longrightarrow> same_shape A C \<Longrightarrow> same_shape (ew3 f A B C) A"
  using same_shapeD [of A B] same_shapeD [of A C] by (intro same_shapeI) auto

locale token_loss =
  fixes loss :: "real \<Rightarrow> real \<Rightarrow> real \<Rightarrow> real"
  assumes homogeneous: "0 \<le> c \<Longrightarrow> loss x y (c * a) = c * loss x y a"
begin

lemma loss_row:
  "0 \<le> c \<Longrightarrow> map2 (\<lambda>(x, y) z. loss x y z) ps (map (\<lambda>x. c * x) zs) = map (\<lambda>x. c * x) (map2 (\<lambda>(x, y) z. loss x y z) ps zs)"
  by (induction ps zs rule: list_induct2') (auto simp: homogeneous)

lemma scaled:
  assumes "length cs = length adv" "length lp = length adv" "length old = length adv" "\<forall>c\<in>set cs. 0 \<le> c"
  shows "ew3 loss lp old (scale_rows cs adv) = scale_rows cs (ew3 loss lp old adv)"
  using assms by (intro nth_equalityI) (auto simp: loss_row)

end

lemma clipped_homogeneous: "0 \<le> k \<Longrightarrow> clipped c ratio (k * a) = k * clipped c ratio a"
  unfolding clipped_def by (simp add: min_mult_distrib_left algebra_simps)

interpretation ppo: token_loss "ppo_token c dual" for c dual
proof
  fix k lp old a :: real assume k: "0 \<le> k"
  show "ppo_token c dual lp old (k * a) = k * ppo_token c dual lp old a"
  proof (cases "k = 0")
    case True
    then show ?thesis using clipped_homogeneous [of 0 c _ a] by (simp add: ppo_token_def Let_def)
  next
    case False
    then have "0 < k" using k by simp
    moreover have "min (- (k * a) * lc_clip_ratio_c c) (k * l) = k * min (- a * lc_clip_ratio_c c) l" for l
      using k by (simp add: min_mult_distrib_left algebra_simps)
    ultimately show ?thesis
      by (simp add: ppo_token_def Let_def clipped_homogeneous mult_less_0_iff)
  qed
qed

interpretation sapo: token_loss "sapo_token c" for c
proof
  fix k lp old a :: real assume "0 \<le> k"
  then show "sapo_token c lp old (k * a) = k * sapo_token c lp old a"
    by (cases "k = 0") (simp_all add: sapo_token_def Let_def zero_less_mult_iff)
qed

interpretation gspo: token_loss "gspo_token c" for c
  by unfold_locales (simp add: gspo_token_def clipped_homogeneous)

interpretation cispo: token_loss "cispo_token c" for c
  by unfold_locales (simp add: cispo_token_def)

interpretation rollout_is: token_loss "rollout_is_token c" for c
  by unfold_locales (simp add: rollout_is_token_def Let_def)

interpretation importance: token_loss importance_token
  by unfold_locales (simp add: importance_token_def)

lemma dppo_mask_scale: "0 < k \<Longrightarrow> dppo_mask c tv lp mu (k * a) = dppo_mask c tv lp mu a"
  by (simp add: dppo_mask_def Let_def zero_less_mult_iff mult_less_0_iff)

interpretation dppo: token_loss "dppo_token c tv" for c tv
proof
  fix k lp mu a :: real assume "0 \<le> k"
  then show "dppo_token c tv lp mu (k * a) = k * dppo_token c tv lp mu a"
    by (cases "k = 0") (simp_all add: dppo_token_def dppo_mask_scale)
qed

text \<open>The correction multiplies and masks, so it commutes with scaling.\<close>

lemma ew_scale_left: "length cs = length A \<Longrightarrow> ew (*) (scale_rows cs A) T = scale_rows cs (ew (*) A T)"
proof -
  have "map2 (*) (map (\<lambda>x. c * x) r) k = map (\<lambda>x. c * x) (map2 (*) r k)" for c :: real and r k
    by (induction r k rule: list_induct2') auto
  then show "length cs = length A \<Longrightarrow> ?thesis" by (intro nth_equalityI) auto
qed

lemma pretis_length:
  "length old = n \<Longrightarrow> length ro = n \<Longrightarrow> length m = n \<Longrightarrow> length (pretis_mask old ro m c) = n"
  by (auto simp: pretis_mask_def after_outliers_def compute_outlier_token_mask_def compute_token_mask_def token_ratio_def Let_def
      split: option.splits)

lemma correction_parts:
  assumes "compute_off_policy_correction old ro m c = Inr (t, m')"
  defines "m2 \<equiv> pretis_mask old ro m c"
  shows "(t = None \<or> (\<exists>T k. t = Some T \<and> op_tis_ratio_type c = Some k \<and> compute_tis_ratio old ro m2 k c = Inr T))
    \<and> (m' = m \<or> m' = m2 \<or> (\<exists>sm k. compute_sequence_mask old ro m2 k c = Inr sm \<and> m' = ew (*) m2 sm))"
  using assms(1) unfolding m2_def
  by (auto simp: compute_off_policy_correction_def Let_def split: if_splits option.splits sum.splits)

lemma tis_length:
  assumes "compute_tis_ratio old ro m k c = Inr T" "length old = n" "length ro = n" "length m = n"
  shows "length T = n"
  using assms by (auto simp: compute_tis_ratio_def token_ratio_def seq_log_ratio_def split: if_splits)

lemma sequence_mask_length:
  assumes "compute_sequence_mask old ro m k c = Inr T" "length old = n" "length ro = n" "length m = n"
  shows "length T = n"
  using assms by (auto simp: compute_sequence_mask_def seq_log_ratio_def split: if_splits)

lemma correction_lengths:
  assumes "compute_off_policy_correction old ro m c = Inr (t, m')" "length old = n" "length ro = n" "length m = n"
  shows "length m' = n \<and> (\<forall>T. t = Some T \<longrightarrow> length T = n)"
proof -
  have m2: "length (pretis_mask old ro m c) = n" using assms(2-4) by (rule pretis_length)
  show ?thesis
    using correction_parts [OF assms(1)] tis_length [OF _ assms(2,3) m2] sequence_mask_length [OF _ assms(2,3) m2] m2 assms(4)
    by auto
qed

definition fits :: "nat \<Rightarrow> tensor option \<Rightarrow> bool" where
  "fits n T = (case T of None \<Rightarrow> True | Some T \<Rightarrow> length T = n)"

lemma correction_scaled:
  assumes ok: "apply_off_policy_correction loss old ro m c = Inr (loss', m')"
    and len: "length loss = n" "length cs = n" "length old = n" "fits n ro" "fits n m"
  shows "apply_off_policy_correction (scale_rows cs loss) old ro m c = Inr (scale_rows cs loss', m')
    \<and> length loss' = n \<and> fits n m'"
proof (cases "ro = None \<or> m = None")
  case True
  then show ?thesis
    using ok len by (cases ro; cases m) (auto simp: apply_off_policy_correction_def fits_def split: if_splits)
next
  case False
  then obtain r k where r: "ro = Some r" "m = Some k" by auto
  then obtain t k' where t: "compute_off_policy_correction old r k c = Inr (t, k')"
    using ok by (auto simp: apply_off_policy_correction_def split: sum.splits)
  have k': "length k' = n \<and> (\<forall>T. t = Some T \<longrightarrow> length T = n)"
    using correction_lengths [OF t len(3)] len(4,5) by (simp add: r fits_def)
  have m': "m' = Some k'" and l': "loss' = (case t of None \<Rightarrow> loss | Some t \<Rightarrow> ew (*) loss t)"
    using ok by (simp_all add: apply_off_policy_correction_def r t)
  show ?thesis
    using k' len(1,2) by (cases t) (simp_all add: apply_off_policy_correction_def r t m' l' fits_def ew_scale_left)
qed

definition homogeneous_losses :: "policy_loss_type set" where
  "homogeneous_losses = {Regular, Dual_clip, Gspo, Cispo, Rollout_is, Sapo, Importance_sampling, Dppo}"

lemma gspo_ratio_length:
  "length lp = n \<Longrightarrow> length old = n \<Longrightarrow> fits n m \<Longrightarrow> length (gspo_ratio lp old m) = n"
  by (auto simp: gspo_ratio_def masked_mean_rows_def fits_def split: option.splits)

lemma token_losses_scaled:
  assumes ty: "ty \<in> homogeneous_losses" and ok: "token_losses ty c rn lp old adv m ro = Inr (L, m')"
    and len: "length lp = length adv" "length old = length adv" "fits (length adv) ro" "fits (length adv) m"
    and cs: "length cs = length adv" "\<forall>c\<in>set cs. 0 \<le> c"
  shows "token_losses ty c rn lp old (scale_rows cs adv) m ro = Inr (scale_rows cs L, m')
    \<and> length L = length adv \<and> fits (length adv) m'"
proof -
  have corr: "apply_off_policy_correction (scale_rows cs l) old ro m (lc_off_policy c) = Inr (scale_rows cs L, m')
      \<and> length L = length adv \<and> fits (length adv) m'"
    if "apply_off_policy_correction l old ro m (lc_off_policy c) = Inr (L, m')" "length l = length adv" for l
    using correction_scaled [OF that cs(1) len(2-4)] by simp
  have mu: "length (case ro of Some r \<Rightarrow> r | None \<Rightarrow> old) = length adv"
    using len(2,3) by (simp add: fits_def split: option.splits)
  have g: "length (broadcast (gspo_ratio lp old m) lp) = length adv"
    using len gspo_ratio_length [of lp "length adv" old m] by simp
  show ?thesis
  proof (cases ty)
    case Rollout_is
    then obtain r where r: "ro = Some r" "length r = length adv"
      using ok len(3) by (auto simp: token_losses_def fits_def split: option.splits)
    then show ?thesis
      using ok len cs corr [of "ew3 (rollout_is_token c) lp r adv"] by (simp add: token_losses_def Rollout_is rollout_is.scaled)
  next
    case Dppo
    then show ?thesis
      using ok len(1) cs mu by (auto simp: token_losses_def dppo.scaled corr Let_def split: if_splits)
  next
    case Gspo
    then show ?thesis using ok len cs g by (simp add: token_losses_def gspo.scaled corr)
  next
    case Importance_sampling
    then show ?thesis using ok len cs by (auto simp: token_losses_def importance.scaled)
  qed (use ty ok len cs in \<open>simp_all add: homogeneous_losses_def token_losses_def ppo.scaled sapo.scaled cispo.scaled corr\<close>)
qed

lemma policy_loss_scaled:
  assumes "ty \<in> homogeneous_losses" "token_losses ty c rn lp old adv (Some m) ro = Inr (L, m')"
    and "length lp = length adv" "length old = length adv" "fits (length adv) ro" "length m = length adv"
    and "length cs = length adv" "\<forall>c\<in>set cs. 0 \<le> c"
  shows "\<exists>X. (case m' of Some k \<Rightarrow> X = ew (*) L k | None \<Rightarrow> X = L) \<and> length X = length adv
    \<and> policy_loss ty c rn lp old (scale_rows cs adv) (Some m) ro = Inr (tsum (scale_rows cs X))"
proof -
  have f: "fits (length adv) (Some m)" using assms(6) by (simp add: fits_def)
  note sc = token_losses_scaled [OF assms(1-5) f assms(7,8)]
  show ?thesis
    using sc assms(7) by (auto simp: policy_loss_def reduce_loss_def fits_def ew_scale_left split: option.splits)
qed

section \<open>Blocks of rows\<close>

text \<open>Consecutive blocks from row \<open>p\<close> to row \<open>n\<close>.\<close>

fun chain :: "nat \<Rightarrow> (nat \<times> nat) list \<Rightarrow> nat \<Rightarrow> bool" where
  "chain p [] n = (p = n)"
| "chain p ((a, b) # bs) n = (a = p \<and> a \<le> b \<and> chain b bs n)"

lemma chain_le: "chain p bs n \<Longrightarrow> p \<le> n"
  by (induction p bs n rule: chain.induct) auto

lemma length_slice [simp]: "b \<le> length xs \<Longrightarrow> length (slice a b xs) = b - a"
  by (simp add: slice_def)

lemma fold_blocks:
  assumes "chain p bs n" "length xs = p" "length zs = n - p" "\<forall>(a, b)\<in>set bs. length (g a b) = b - a"
  shows "fold (\<lambda>(a, b) acc. put_slice a (g a b) acc) bs (xs @ zs) = xs @ concat (map (\<lambda>(a, b). g a b) bs)"
  using assms
proof (induction p bs n arbitrary: xs zs rule: chain.induct)
  case (2 p a b bs n)
  then have ab: "a = p" "a \<le> b" "chain b bs n" "length (g a b) = b - a" by auto
  have bn: "b \<le> n" using ab(3) by (rule chain_le)
  have "put_slice a (g a b) (xs @ zs) = (xs @ g a b) @ drop (b - a) zs"
    using "2.prems" ab by (simp add: put_slice_def)
  moreover have "fold (\<lambda>(a, b) acc. put_slice a (g a b) acc) bs ((xs @ g a b) @ drop (b - a) zs)
      = (xs @ g a b) @ concat (map (\<lambda>(a, b). g a b) bs)"
    by (rule "2.IH") (use "2.prems" ab bn in auto)
  ultimately show ?case by simp
qed simp

definition block_factors :: "(nat \<Rightarrow> nat \<Rightarrow> real) \<Rightarrow> (nat \<times> nat) list \<Rightarrow> real list" where
  "block_factors f bs = concat (map (\<lambda>(a, b). replicate (b - a) (f a b)) bs)"

lemma block_factors_Cons [simp]: "block_factors f ((a, b) # bs) = replicate (b - a) (f a b) @ block_factors f bs"
  by (simp add: block_factors_def)

lemma block_factors_Nil [simp]: "block_factors f [] = []"
  by (simp add: block_factors_def)

lemma length_block_factors: "chain p bs n \<Longrightarrow> length (block_factors f bs) = n - p"
proof (induction p bs n rule: chain.induct)
  case (2 p a b bs n)
  then show ?case using chain_le [of b bs n] by auto
qed simp

lemma scale_rows_append: "length cs = length A \<Longrightarrow> scale_rows (cs @ ds) (A @ B) = scale_rows cs A @ scale_rows ds B"
  by (simp add: scale_rows_def)

lemma drop_slice: "a \<le> b \<Longrightarrow> b \<le> length xs \<Longrightarrow> drop a xs = slice a b xs @ drop b xs"
  by (metis append_take_drop_id drop_drop le_add_diff_inverse2 slice_def)

lemma blocks_scale:
  assumes "chain p bs n" "length T = n"
  shows "concat (map (\<lambda>(a, b). scale_rows (replicate (b - a) (f a b)) (slice a b T)) bs) = scale_rows (block_factors f bs) (drop p T)"
  using assms
proof (induction p bs n rule: chain.induct)
  case (2 p a b bs n)
  then have ab: "a = p" "a \<le> b" "chain b bs n" by auto
  have bn: "b \<le> n" using ab(3) by (rule chain_le)
  have len: "length (replicate (b - p) (f p b)) = length (slice p b T)" using bn "2.prems"(2) by simp
  have "drop p T = slice a b T @ drop b T" using drop_slice [of a b T] ab bn "2.prems"(2) by simp
  then show ?case using "2.IH" ab "2.prems"(2) by (simp add: scale_rows_append [OF len])
qed (simp add: scale_rows_def)

lemma tsum_append: "tsum (A @ B) = tsum A + tsum B"
  by (simp add: tsum_def row_sums_def)

lemma tsum_scale_replicate: "length T = k \<Longrightarrow> tsum (scale_rows (replicate k c) T) = c * tsum T"
  by (simp add: tsum_scale_rows tsum_rows sum_list_scale sum_distrib_left)

lemma blocks_sum:
  assumes "chain p bs n" "length X = n"
  shows "tsum (scale_rows (block_factors f bs) (drop p X)) = (\<Sum>(a, b)\<leftarrow>bs. f a b * tsum (slice a b X))"
  using assms
proof (induction p bs n rule: chain.induct)
  case (2 p a b bs n)
  then have ab: "a = p" "a \<le> b" "chain b bs n" by auto
  have bn: "b \<le> n" using ab(3) by (rule chain_le)
  have len: "length (replicate (b - p) (f p b)) = length (slice p b X)" using bn "2.prems"(2) by simp
  have "drop p X = slice a b X @ drop b X" using drop_slice [of a b X] ab bn "2.prems"(2) by simp
  then show ?case
    using "2.IH" ab "2.prems"(2) bn by (simp add: scale_rows_append [OF len] tsum_append tsum_scale_replicate)
qed (simp add: tsum_def row_sums_def scale_rows_def)

lemma divide_all_scale: "divide_all c T = scale_rows (replicate (length T) (1 / c)) T"
  by (intro nth_equalityI) (auto simp: divide_all_def)

lemma chunk_chain: "chain 0 (map (\<lambda>i. (i * k, (i + 1) * k)) [0..<q]) (q * k)"
proof -
  have snoc: "chain p bs n \<Longrightarrow> n \<le> l \<Longrightarrow> chain p (bs @ [(n, l)]) l" for p bs n l
    by (induction p bs n rule: chain.induct) auto
  show ?thesis by (induction q) (auto intro!: snoc)
qed

section \<open>Loss reductions\<close>

definition legacy_blocks :: "nat \<Rightarrow> nat \<Rightarrow> (nat \<times> nat) list" where
  "legacy_blocks n micro = map (\<lambda>i. (i * micro, (i + 1) * micro)) [0..<n div micro]"

text \<open>What each reduction means, for masked token losses \<open>X\<close> and the mask \<open>m\<close>.\<close>

definition reduced :: "reduction \<Rightarrow> tensor \<Rightarrow> nat \<Rightarrow> real \<Rightarrow> (nat \<times> nat) list \<Rightarrow> tensor \<Rightarrow> real" where
  "reduced red m micro max_len bs X =
     (case red of
        Token_mean \<Rightarrow> tsum X / max 1 (tsum m)
      | Token_mean_legacy \<Rightarrow>
          list_mean (map (\<lambda>(a, b). tsum (slice a b X) / max 1 (tsum (slice a b m))) (legacy_blocks (length X) micro))
      | Sequence_mean \<Rightarrow> list_mean (map2 (\<lambda>r k. sum_list r / max 1 (sum_list k)) X m)
      | Seq_mean_token_sum_norm \<Rightarrow> list_mean (map (\<lambda>r. sum_list r / max_len) X)
      | Prompt_mean \<Rightarrow> list_mean (map (\<lambda>(a, b). tsum (slice a b X) / max 1 (tsum (slice a b m))) bs))"

definition row_factors :: "reduction \<Rightarrow> tensor \<Rightarrow> nat \<Rightarrow> nat \<Rightarrow> real \<Rightarrow> (nat \<times> nat) list \<Rightarrow> real list" where
  "row_factors red m n micro max_len bs =
     (let block = (\<lambda>bs a b. 1 / (real (length bs) * max 1 (tsum (slice a b m))))
      in case red of
           Token_mean \<Rightarrow> replicate n (1 / max 1 (tsum m))
         | Token_mean_legacy \<Rightarrow> block_factors (block (legacy_blocks n micro)) (legacy_blocks n micro)
         | Sequence_mean \<Rightarrow> map (\<lambda>k. 1 / (real n * max 1 (sum_list k))) m
         | Seq_mean_token_sum_norm \<Rightarrow> replicate n (1 / (real n * max_len))
         | Prompt_mean \<Rightarrow> block_factors (block bs) bs)"

lemma divide_blocks:
  "b \<le> length T \<Longrightarrow> divide_all c (slice a b T) = scale_rows (replicate (b - a) (1 / c)) (slice a b T)"
  by (simp add: divide_all_scale)

lemma fold_divided:
  assumes "chain 0 bs n" "length T = n"
  shows "fold (\<lambda>(a, b) acc. put_slice a (divide_all (k a b) (slice a b T)) acc) bs (zeros_like T)
    = scale_rows (block_factors (\<lambda>a b. 1 / k a b) bs) T"
proof -
  have bound: "b \<le> n" if "(a, b) \<in> set bs" for a b
  proof -
    have "chain p bs n \<Longrightarrow> (a, b) \<in> set bs \<Longrightarrow> b \<le> n" for p
      by (induction p bs n rule: chain.induct) (auto dest: chain_le)
    then show ?thesis using assms(1) that by blast
  qed
  have pieces: "map (\<lambda>(a, b). divide_all (k a b) (slice a b T)) bs
      = map (\<lambda>(a, b). scale_rows (replicate (b - a) (1 / k a b)) (slice a b T)) bs"
    using bound assms(2) by (intro map_cong refl) (auto simp: divide_blocks)
  have "fold (\<lambda>(a, b) acc. put_slice a (divide_all (k a b) (slice a b T)) acc) bs ([] @ zeros_like T)
      = [] @ concat (map (\<lambda>(a, b). divide_all (k a b) (slice a b T)) bs)"
    by (rule fold_blocks [OF assms(1)]) (use bound assms(2) in \<open>auto simp: zeros_like_def divide_all_def\<close>)
  then show ?thesis using blocks_scale [OF assms, of "\<lambda>a b. 1 / k a b"] by (simp add: pieces)
qed

lemma reduction_scales:
  assumes "apply_loss_reduction_to_advantages_minibatch adv m red micro max_len (Some bs) = Inr scaled"
    and "length m = length adv" "red = Prompt_mean \<Longrightarrow> chain 0 bs (length adv)"
    and "red = Token_mean_legacy \<Longrightarrow> micro dvd length adv"
  shows "scaled = scale_rows (row_factors red m (length adv) micro max_len bs) adv
    \<and> length (row_factors red m (length adv) micro max_len bs) = length adv"
proof (cases red)
  case Token_mean
  then show ?thesis
    using assms(1) by (auto simp: apply_loss_reduction_to_advantages_minibatch_def row_factors_def divide_all_scale clamp_min1_def)
next
  case Token_mean_legacy
  let ?n = "length adv"
  have chain: "chain 0 (legacy_blocks ?n micro) ?n"
    using chunk_chain [of micro "?n div micro"] assms(4) Token_mean_legacy by (simp add: legacy_blocks_def)
  have two: "divide_all c (divide_all d T) = divide_all (c * d) T" for c d T
    by (simp add: divide_all_def tmap_def o_def mult.commute)
  have "scaled = fold (\<lambda>(a, b) acc. put_slice a (divide_all (real (?n div micro) * max 1 (tsum (slice a b m))) (slice a b adv)) acc)
      (legacy_blocks ?n micro) (zeros_like adv)"
    using assms(1) Token_mean_legacy
    by (auto simp: apply_loss_reduction_to_advantages_minibatch_def legacy_blocks_def fold_map o_def Let_def two clamp_min1_def
        split: if_splits)
  also have "\<dots> = scale_rows (block_factors (\<lambda>a b. 1 / (real (?n div micro) * max 1 (tsum (slice a b m)))) (legacy_blocks ?n micro)) adv"
    by (rule fold_divided [OF chain refl])
  finally show ?thesis
    using length_block_factors [OF chain] by (simp add: row_factors_def Token_mean_legacy legacy_blocks_def Let_def)
next
  case Sequence_mean
  have "scaled = map2 (\<lambda>row k. map (\<lambda>x. x / (real (length adv) * max 1 (sum_list k))) row) adv m"
    using assms(1) by (simp add: apply_loss_reduction_to_advantages_minibatch_def Sequence_mean clamp_min1_def)
  also have "\<dots> = scale_rows (map (\<lambda>k. 1 / (real (length adv) * max 1 (sum_list k))) m) adv"
    using assms(2) by (intro nth_equalityI) auto
  finally show ?thesis using assms(2) by (simp add: row_factors_def Sequence_mean)
next
  case Seq_mean_token_sum_norm
  then show ?thesis
    using assms(1) by (auto simp: apply_loss_reduction_to_advantages_minibatch_def row_factors_def divide_all_scale)
next
  case Prompt_mean
  have chain: "chain 0 bs (length adv)" using assms(3) Prompt_mean by simp
  have "scaled = fold (\<lambda>(a, b) acc. put_slice a (divide_all (real (length bs) * max 1 (tsum (slice a b m))) (slice a b adv)) acc)
      bs (zeros_like adv)"
    using assms(1) by (simp add: apply_loss_reduction_to_advantages_minibatch_def Prompt_mean clamp_min1_def)
  also have "\<dots> = scale_rows (block_factors (\<lambda>a b. 1 / (real (length bs) * max 1 (tsum (slice a b m)))) bs) adv"
    by (rule fold_divided [OF chain refl])
  finally show ?thesis using length_block_factors [OF chain] by (simp add: row_factors_def Prompt_mean Let_def)
qed

lemma factors_nonneg:
  assumes "0 \<le> max_len"
  shows "\<forall>c\<in>set (row_factors red m n micro max_len bs). 0 \<le> c"
  using assms by (cases red) (auto simp: row_factors_def block_factors_def Let_def)

lemma block_mean:
  "(\<Sum>(a, b)\<leftarrow>bs. 1 / (real (length bs) * k a b) * x a b) = list_mean (map (\<lambda>(a, b). x a b / k a b) bs)"
proof -
  have "(\<Sum>(a, b)\<leftarrow>cs. 1 / (d * k a b) * x a b) = sum_list (map (\<lambda>(a, b). x a b / k a b) cs) / d" for cs d
    by (induction cs) (auto simp: add_divide_distrib)
  then show ?thesis by (simp add: list_mean_def)
qed

lemma factors_reduce:
  assumes "length X = n" "length m = n" "red = Prompt_mean \<Longrightarrow> chain 0 bs n" "red = Token_mean_legacy \<Longrightarrow> micro dvd n"
  shows "tsum (scale_rows (row_factors red m n micro max_len bs) X) = reduced red m micro max_len bs X"
proof (cases red)
  case Token_mean
  then show ?thesis using assms(1) by (simp add: row_factors_def reduced_def tsum_scale_replicate)
next
  case Token_mean_legacy
  have chain: "chain 0 (legacy_blocks n micro) n"
    using chunk_chain [of micro "n div micro"] assms(4) Token_mean_legacy by (simp add: legacy_blocks_def)
  show ?thesis
    using blocks_sum [OF chain assms(1)] assms(1)
      block_mean [of "legacy_blocks n micro" "\<lambda>a b. max 1 (tsum (slice a b m))" "\<lambda>a b. tsum (slice a b X)"]
    by (simp add: row_factors_def reduced_def Token_mean_legacy Let_def)
next
  case Prompt_mean
  then have chain: "chain 0 bs n" using assms(3) by simp
  show ?thesis
    using blocks_sum [OF chain assms(1)] block_mean [of bs "\<lambda>a b. max 1 (tsum (slice a b m))" "\<lambda>a b. tsum (slice a b X)"]
    by (simp add: row_factors_def reduced_def Prompt_mean Let_def)
next
  case Sequence_mean
  then show ?thesis
    using assms(1,2) by (simp add: row_factors_def reduced_def list_mean_def tsum_scale_rows sum_list_nth sum_divide_distrib mult.commute)
next
  case Seq_mean_token_sum_norm
  then show ?thesis
    using assms(1,2) by (simp add: row_factors_def reduced_def list_mean_def tsum_scale_replicate tsum_rows sum_list_nth
        sum_divide_distrib mult.commute)
qed


definition ex_off :: off_policy where
  "ex_off = \<lparr>op_tis_ratio_type = Some ''token'', op_token_tis_clip_high = 2, op_sequence_tis_clip_high = 2, op_outlier_low = None,
     op_outlier_high = None, op_token_low = None, op_token_high = None, op_sequence_mask_metric = None, op_geo_low = 0,
     op_geo_high = 2, op_product_low = 0, op_product_high = 2\<rparr>"

definition ex_loss :: loss_config where
  "ex_loss = \<lparr>lc_eps_low = 1 / 5, lc_eps_high = 1 / 5, lc_clip_ratio_c = 3, lc_tau_pos = 1, lc_tau_neg = 1, lc_cispo_low = 1,
     lc_cispo_high = 1, lc_dppo_type = ''binary_tv'', lc_delta_low = 1, lc_delta_high = 1, lc_clip_cov_ratio = 1,
     lc_clip_cov_lb = 1, lc_clip_cov_ub = 5, lc_kl_cov_frac = 1, lc_ppo_kl_coef = 1, lc_off_policy = ex_off\<rparr>"

definition ex_choices :: random_choices where
  "ex_choices = \<lparr>rn_perm = id, rn_top = (\<lambda>k xs. [0..<k])\<rparr>"


section \<open>Off-policy correction\<close>

definition outlier_free :: "off_policy \<Rightarrow> real \<Rightarrow> bool" where
  "outlier_free c r =
     ((case op_outlier_high c of Some h \<Rightarrow> r \<le> h | None \<Rightarrow> True) \<and> (case op_outlier_low c of Some l \<Rightarrow> l \<le> r | None \<Rightarrow> True))"

definition ratio_at :: "tensor \<Rightarrow> tensor \<Rightarrow> nat \<Rightarrow> nat \<Rightarrow> real" where
  "ratio_at old ro i t = safe_exp_delta (old ! i ! t - ro ! i ! t)"

lemma token_ratio_nth:
  assumes "same_shape old ro" "i < length old" "t < length (old ! i)"
  shows "token_ratio old ro ! i ! t = ratio_at old ro i t"
  using assms same_shapeD [OF assms(1)] by (simp add: token_ratio_def ratio_at_def)

lemma same_shape_ratio: "same_shape old ro \<Longrightarrow> same_shape (token_ratio old ro) old"
  by (simp add: token_ratio_def same_shape_ew)

lemma ew_nth:
  assumes "same_shape A B" "i < length A" "t < length (A ! i)"
  shows "ew f A B ! i ! t = f (A ! i ! t) (B ! i ! t)"
  using assms same_shapeD [OF assms(1)] by simp

lemma outlier_mask_row:
  assumes "same_shape old ro" "same_shape m old" "i < length m" "t < length (m ! i)"
  shows "compute_outlier_token_mask old ro m c ! i ! t =
    of_bool_real (\<forall>u<length (m ! i). m ! i ! u = 0 \<or> token_in_bounds c (ratio_at old ro i u) (m ! i ! u))"
proof -
  have len: "length m = length old" "length ro = length old" "length (m ! i) = length (old ! i)" "i < length old"
    using same_shapeD [OF assms(1)] same_shapeD [OF assms(2)] assms(3) by auto
  have r: "length (token_ratio old ro) = length old" "length (token_ratio old ro ! i) = length (old ! i)"
    using same_shapeD [OF same_shape_ratio [OF assms(1)]] len(4) by auto
  have "list_all2 (\<lambda>r k. token_in_bounds c r k \<or> k = 0) (token_ratio old ro ! i) (m ! i)
      \<longleftrightarrow> (\<forall>u<length (m ! i). m ! i ! u = 0 \<or> token_in_bounds c (ratio_at old ro i u) (m ! i ! u))"
    using r len token_ratio_nth [OF assms(1) len(4)] by (auto simp: list_all2_conv_all_nth)
  then show ?thesis using assms(3,4) r len by (simp add: compute_outlier_token_mask_def)
qed

lemma same_shape_outlier:
  assumes "same_shape old ro" "same_shape m old"
  shows "same_shape m (compute_outlier_token_mask old ro m c)"
  using same_shapeD [OF same_shape_ratio [OF assms(1)]] same_shapeD [OF assms(2)]
  by (intro same_shapeI) (auto simp: compute_outlier_token_mask_def)

lemma same_shape_token_mask:
  assumes "same_shape old ro" "same_shape m old"
  shows "same_shape m (compute_token_mask old ro m low high)"
  using same_shapeD [OF same_shape_ratio [OF assms(1)]] same_shapeD [OF assms(2)]
  by (intro same_shapeI) (auto simp: compute_token_mask_def)

lemma token_mask_nth:
  assumes "same_shape old ro" "same_shape m old" "i < length m" "t < length (m ! i)"
  shows "compute_token_mask old ro m low high ! i ! t
    = of_bool_real (low \<le> ratio_at old ro i t \<and> ratio_at old ro i t \<le> high \<or> m ! i ! t = 0)"
proof -
  have len: "i < length old" "t < length (old ! i)" using same_shapeD [OF assms(2)] assms(3,4) by auto
  have "same_shape (token_ratio old ro) m"
    using same_shape_ratio [OF assms(1)] same_shape_sym [OF assms(2)] same_shape_trans by blast
  from ew_nth [OF this, of i t] show ?thesis
    using len token_ratio_nth [OF assms(1) len] same_shapeD [OF same_shape_ratio [OF assms(1)]]
    by (simp add: compute_token_mask_def)
qed

definition kept_by_tokens :: "off_policy \<Rightarrow> real \<Rightarrow> bool" where
  "kept_by_tokens c r = (case (op_token_low c, op_token_high c) of (Some l, Some h) \<Rightarrow> l \<le> r \<and> r \<le> h | _ \<Rightarrow> True)"

text \<open>The mask before the sequence mask, element by element.\<close>

lemma in_bounds_binary:
  "k = 0 \<or> k = 1 \<Longrightarrow> (k = 0 \<or> token_in_bounds c r k) = (k = 1 \<longrightarrow> outlier_free c r)"
  by (auto simp: token_in_bounds_def outlier_free_def not_less split: option.splits)

lemma after_outliers_shape:
  "same_shape old ro \<Longrightarrow> same_shape m old \<Longrightarrow> same_shape (after_outliers old ro m c) m"
  using same_shape_ew [OF same_shape_outlier] by (simp add: after_outliers_def)

lemma pretis_shape:
  assumes "same_shape old ro" "same_shape m old"
  shows "same_shape (pretis_mask old ro m c) m"
proof -
  have s1: "same_shape (after_outliers old ro m c) m" using assms by (rule after_outliers_shape)
  have s2: "same_shape (after_outliers old ro m c) old" using s1 assms(2) by (rule same_shape_trans)
  have "same_shape (ew (*) (after_outliers old ro m c) (compute_token_mask old ro (after_outliers old ro m c) l h)) m" for l h
    using same_shape_ew [OF same_shape_token_mask [OF assms(1) s2]] s1 by (rule same_shape_trans)
  then show ?thesis using s1 by (simp add: pretis_mask_def split: option.splits)
qed

lemma after_outliers_nth:
  assumes sh: "same_shape old ro" "same_shape m old" and it: "i < length m" "t < length (m ! i)" and bin: "binary m"
  shows "after_outliers old ro m c ! i ! t = m ! i ! t * of_bool_real (apply_outlier c \<longrightarrow>
      (\<forall>u<length (m ! i). m ! i ! u = 1 \<longrightarrow> outlier_free c (ratio_at old ro i u)))"
proof -
  have "(\<forall>u<length (m ! i). m ! i ! u = 0 \<or> token_in_bounds c (ratio_at old ro i u) (m ! i ! u))
      \<longleftrightarrow> (\<forall>u<length (m ! i). m ! i ! u = 1 \<longrightarrow> outlier_free c (ratio_at old ro i u))"
    using in_bounds_binary binary_nth [OF bin it(1)] by meson
  then have "compute_outlier_token_mask old ro m c ! i ! t
      = of_bool_real (\<forall>u<length (m ! i). m ! i ! u = 1 \<longrightarrow> outlier_free c (ratio_at old ro i u))"
    using outlier_mask_row [OF sh it] by simp
  then show ?thesis
    using ew_nth [OF same_shape_outlier [OF sh] it, of "(*)"]
    by (cases "apply_outlier c") (simp_all only: after_outliers_def if_True if_False simp_thms of_bool_real_def mult_1_right)
qed

lemma pretis_nth:
  assumes sh: "same_shape old ro" "same_shape m old" and it: "i < length m" "t < length (m ! i)" and bin: "binary m"
  shows "pretis_mask old ro m c ! i ! t =
    m ! i ! t * of_bool_real (m ! i ! t = 0 \<or>
      (apply_outlier c \<longrightarrow> (\<forall>u<length (m ! i). m ! i ! u = 1 \<longrightarrow> outlier_free c (ratio_at old ro i u)))
      \<and> kept_by_tokens c (ratio_at old ro i t))"
proof (cases "op_token_low c = None \<or> op_token_high c = None")
  case True
  then have "pretis_mask old ro m c = after_outliers old ro m c" by (auto simp: pretis_mask_def split: option.splits)
  moreover have "kept_by_tokens c (ratio_at old ro i t)" using True by (auto simp: kept_by_tokens_def split: option.splits)
  ultimately show ?thesis
    by (simp only: after_outliers_nth [OF assms]) (auto simp: of_bool_real_def)
next
  case False
  then obtain l h where lh: "op_token_low c = Some l" "op_token_high c = Some h" by auto
  let ?m1 = "after_outliers old ro m c"
  have s1: "same_shape ?m1 m" using sh by (rule after_outliers_shape)
  have s1o: "same_shape ?m1 old" using s1 sh(2) by (rule same_shape_trans)
  have it1: "i < length ?m1" "t < length (?m1 ! i)" using same_shapeD [OF s1] it by auto
  have "pretis_mask old ro m c ! i ! t = ?m1 ! i ! t * compute_token_mask old ro ?m1 l h ! i ! t"
    using ew_nth [OF same_shape_token_mask [OF sh(1) s1o] it1] by (simp add: pretis_mask_def lh)
  then show ?thesis
    unfolding token_mask_nth [OF sh(1) s1o it1] after_outliers_nth [OF assms]
    by (auto simp: kept_by_tokens_def of_bool_real_def lh)
qed

lemma tensor_eqI:
  assumes "same_shape A B" "\<And>i t. i < length A \<Longrightarrow> t < length (A ! i) \<Longrightarrow> A ! i ! t = B ! i ! t"
  shows "A = B"
  using same_shapeD [OF assms(1)] assms(2) by (intro nth_equalityI) auto

lemma broadcast_row:
  assumes "length cs = length T" "i < length T" "t < length (T ! i)"
  shows "broadcast cs T ! i ! t = cs ! i"
  using assms by simp

lemma same_shape_broadcast: "length cs = length T \<Longrightarrow> same_shape T (broadcast cs T)"
  by (intro same_shapeI) auto

lemma sequence_mask_nth:
  assumes "compute_sequence_mask old ro m k c = Inr sm" "length old = length m" "length ro = length m"
  shows "same_shape m sm"
    and "i < length m \<Longrightarrow> t < length (m ! i) \<Longrightarrow> sm ! i ! t = 0 \<or> sm ! i ! t = 1"
  using assms by (auto simp: compute_sequence_mask_def seq_log_ratio_def Let_def of_bool_real_def broadcast_row
      intro!: same_shape_broadcast split: if_splits)

text \<open>After the off-policy correction a token counts only if it counted before, its importance ratio is
  within the token thresholds and, with outlier masking, every counting token of its sequence is within the
  outlier thresholds; the token weight of truncated importance sampling is the ratio cut at the cap.\<close>

theorem off_policy_keeps_in_bounds:
  assumes "compute_off_policy_correction old ro m c = Inr (tis, m')" "off_policy_correction_enabled c"
    and "same_shape old ro" "same_shape m old" "binary m" "i < length m" "t < length (m ! i)"
  shows "(m' ! i ! t = 0 \<or> m' ! i ! t = 1)
    \<and> (m' ! i ! t = 1 \<longrightarrow> m ! i ! t = 1 \<and> kept_by_tokens c (ratio_at old ro i t)
        \<and> (apply_outlier c \<longrightarrow> (\<forall>u<length (m ! i). m ! i ! u = 1 \<longrightarrow> outlier_free c (ratio_at old ro i u))))
    \<and> (op_tis_ratio_type c = Some ''token'' \<longrightarrow>
        (\<exists>T. tis = Some T \<and> T ! i ! t = min (op_token_tis_clip_high c) (ratio_at old ro i t)))"
proof -
  let ?m2 = "pretis_mask old ro m c"
  have len: "length old = length m" "length ro = length m" "i < length old" "t < length (old ! i)"
    using same_shapeD [OF assms(3)] same_shapeD [OF assms(4)] assms(6,7) by auto
  note m2 = pretis_nth [OF assms(3,4,6,7,5), of c]
  have b: "m ! i ! t = 0 \<or> m ! i ! t = 1" using assms(5-7) by (rule binary_nth)
  have low: "m' ! i ! t = 0 \<or> m' ! i ! t = ?m2 ! i ! t"
    using assms(1)
  proof (cases "op_sequence_mask_metric c")
    case None
    then show ?thesis
      using assms(1,2) by (auto simp: compute_off_policy_correction_def Let_def split: option.splits sum.splits)
  next
    case (Some k)
    then obtain sm where sm: "compute_sequence_mask old ro ?m2 k c = Inr sm" "m' = ew (*) ?m2 sm"
      using assms(1,2) by (auto simp: compute_off_policy_correction_def Let_def split: option.splits sum.splits)
    have l2: "length old = length ?m2" "length ro = length ?m2" "i < length ?m2" "t < length (?m2 ! i)"
      using same_shapeD [OF pretis_shape [OF assms(3,4), of c]] len assms(6,7) by auto
    have "m' ! i ! t = ?m2 ! i ! t * sm ! i ! t"
      unfolding sm(2) by (rule ew_nth [OF sequence_mask_nth(1) [OF sm(1) l2(1,2)] l2(3,4)])
    then show ?thesis using sequence_mask_nth(2) [OF sm(1) l2(1,2) l2(3,4)] by auto
  qed
  have tis: "\<exists>T. tis = Some T \<and> T ! i ! t = min (op_token_tis_clip_high c) (ratio_at old ro i t)"
    if "op_tis_ratio_type c = Some ''token''"
  proof -
    have "tis = Some (tmap (min (op_token_tis_clip_high c)) (token_ratio old ro))"
      using assms(1,2) that
      by (auto simp: compute_off_policy_correction_def compute_tis_ratio_def Let_def split: option.splits sum.splits)
    then show ?thesis
      using same_shapeD [OF same_shape_ratio [OF assms(3)]] token_ratio_nth [OF assms(3) len(3,4)] len(3,4) by simp
  qed
  show ?thesis
    using low m2 b tis by (auto simp: of_bool_real_def split: if_splits)
qed

theorem off_policy_keeps_in_bounds_witness:
  "\<exists>T. Some [[1, 1], [1, 1]] = Some T \<and> T ! 0 ! 0 = min 2 (ratio_at [[0, 0], [0, 0]] [[0, 0], [0, 0]] 0 0)"
proof -
  have one: "safe_exp_delta 0 = 1" by (simp add: safe_exp_delta_def clamp_def)
  have ratio: "token_ratio [[0, 0], [0, 0]] [[0, 0], [0, 0]] = [[1, 1], [1, 1]]"
    by (simp add: token_ratio_def ew_def one)
  have corr: "compute_off_policy_correction [[0, 0], [0, 0]] [[0, 0], [0, 0]] [[1, 1], [1, 0]] ex_off
      = Inr (Some [[1, 1], [1, 1]], [[1, 1], [1, 0]])"
    by (simp add: compute_off_policy_correction_def off_policy_correction_enabled_def pretis_mask_def after_outliers_def apply_outlier_def
        compute_tis_ratio_def ratio tmap_def ex_off_def)
  have c: "off_policy_correction_enabled ex_off" "op_token_tis_clip_high ex_off = 2" "op_tis_ratio_type ex_off = Some ''token''"
    by (simp_all add: off_policy_correction_enabled_def ex_off_def)
  from off_policy_keeps_in_bounds [OF corr c(1), of 0 0] show ?thesis by (simp add: c same_shape_def binary_def)
qed

text \<open>On policy the correction does nothing.\<close>

definition around_one :: "off_policy \<Rightarrow> bool" where
  "around_one c = (1 \<le> op_token_tis_clip_high c \<and> 1 \<le> op_sequence_tis_clip_high c \<and> outlier_free c 1 \<and> kept_by_tokens c 1
     \<and> op_geo_low c \<le> 1 \<and> 1 \<le> op_geo_high c \<and> op_product_low c \<le> 1 \<and> 1 \<le> op_product_high c)"

lemma ratio_same: "ratio_at old old i t = 1"
  by (simp add: ratio_at_def safe_exp_delta_def clamp_def)

lemma seq_log_same: "same_shape m old \<Longrightarrow> seq_log_ratio old old m = replicate (length m) 0"
proof -
  assume sh: "same_shape m old"
  have "ew (*) (ew (-) old old) m = zeros_like m"
    using same_shapeD [OF sh] by (intro tensor_eqI same_shapeI) (auto simp: zeros_like_def)
  then show ?thesis by (intro nth_equalityI) (auto simp: seq_log_ratio_def zeros_like_def)
qed

lemma ones_of_row: "same_shape loss m \<Longrightarrow> ew (*) loss (broadcast (replicate (length m) 1) m) = loss"
  using same_shapeD [of loss m] by (intro tensor_eqI same_shapeI) auto

lemma safe_exp_0: "safe_exp_delta 0 = 1"
  by (simp add: safe_exp_delta_def clamp_def)

lemma on_policy_tis:
  assumes "compute_tis_ratio old old m k c = Inr T" "same_shape loss m" "same_shape m old" "around_one c"
  shows "ew (*) loss T = loss"
proof (cases "k = ''token''")
  case True
  then have T: "T = tmap (min (op_token_tis_clip_high c)) (token_ratio old old)" using assms(1) by (simp add: compute_tis_ratio_def)
  have "token_ratio old old = ones_like old"
    by (intro tensor_eqI same_shapeI) (auto simp: token_ratio_def ones_like_def safe_exp_0)
  then show ?thesis
    using same_shapeD [OF assms(2)] same_shapeD [OF assms(3)] assms(4)
    by (intro tensor_eqI same_shapeI) (auto simp: T ones_like_def around_one_def)
next
  case False
  then have "T = broadcast (replicate (length m) 1) m"
    using assms(1,4) seq_log_same [OF assms(3)]
    by (auto simp: compute_tis_ratio_def safe_exp_0 around_one_def min_def split: if_splits)
  then show ?thesis using ones_of_row [OF assms(2)] by simp
qed

lemma on_policy_sequence:
  assumes "compute_sequence_mask old old m k c = Inr sm" "same_shape m old" "around_one c"
  shows "ew (*) m sm = m"
proof -
  have "sm = broadcast (replicate (length m) 1) m"
  proof (cases "k = ''geometric''")
    case True
    have "map2 (\<lambda>x ks. let r = safe_exp_delta (x / max 1 (sum_list ks))
        in of_bool_real (\<not> r > op_geo_high c \<and> \<not> r < op_geo_low c)) (replicate (length m) 0) m = replicate (length m) 1"
      using assms(3) by (intro nth_equalityI) (auto simp: safe_exp_0 around_one_def of_bool_real_def)
    then show ?thesis using assms(1) True seq_log_same [OF assms(2)] by (simp add: compute_sequence_mask_def)
  next
    case False
    then show ?thesis
      using assms(1,3) seq_log_same [OF assms(2)]
      by (auto simp: compute_sequence_mask_def safe_exp_0 around_one_def of_bool_real_def split: if_splits)
  qed
  then show ?thesis using ones_of_row [of m m] by simp
qed

text \<open>When the rollout used the very policy that is trained and the thresholds enclose one, every
  off-policy correction, whatever combination is switched on, leaves the loss and the mask as they are.\<close>

theorem on_policy_correction_neutral:
  assumes "apply_off_policy_correction loss old (Some old) (Some m) c = Inr (loss', m')"
    and "same_shape loss m" "same_shape m old" "binary m" "around_one c"
  shows "loss' = loss \<and> m' = Some m"
proof -
  obtain tis k where t: "compute_off_policy_correction old old m c = Inr (tis, k)"
    and l: "loss' = (case tis of None \<Rightarrow> loss | Some t \<Rightarrow> ew (*) loss t)" "m' = Some k"
    using assms(1) by (auto simp: apply_off_policy_correction_def split: sum.splits)
  have ok: "outlier_free c 1" "kept_by_tokens c 1" using assms(5) by (simp_all add: around_one_def)
  have m2: "pretis_mask old old m c = m"
  proof (rule tensor_eqI)
    show sh: "same_shape (pretis_mask old old m c) m" using assms(3) by (intro pretis_shape) auto
    fix i t assume "i < length (pretis_mask old old m c)" "t < length (pretis_mask old old m c ! i)"
    then have it: "i < length m" "t < length (m ! i)" using same_shapeD [OF sh] by auto
    show "pretis_mask old old m c ! i ! t = m ! i ! t"
      unfolding pretis_nth [OF same_shape_refl assms(3) it assms(4)] using ok by (simp add: ratio_same of_bool_real_def)
  qed
  show ?thesis
    using correction_parts [OF t] on_policy_tis [OF _ assms(2,3,5)] on_policy_sequence [OF _ assms(3,5)] l
    by (auto simp: m2)
qed

theorem on_policy_correction_neutral_witness:
  "apply_off_policy_correction [[3, 4]] [[0, - 1]] (Some [[0, - 1]]) (Some [[1, 0]]) ex_off = Inr ([[3, 4]], Some [[1, 0]])"
proof -
  have one: "safe_exp_delta 0 = 1" by (rule safe_exp_0)
  have ratio: "token_ratio [[0, - 1]] [[0, - 1]] = [[1, 1]]" by (simp add: token_ratio_def ew_def one)
  obtain l k where lk: "apply_off_policy_correction [[3, 4]] [[0, - 1]] (Some [[0, - 1]]) (Some [[1, 0]]) ex_off = Inr (l, k)"
    by (auto simp: apply_off_policy_correction_def compute_off_policy_correction_def off_policy_correction_enabled_def
        compute_tis_ratio_def ex_off_def)
  have "around_one ex_off" by (simp add: around_one_def outlier_free_def kept_by_tokens_def ex_off_def)
  from on_policy_correction_neutral [OF lk _ _ _ this] lk show ?thesis by (simp add: same_shape_def binary_def)
qed

end
