(* ===== verification/Loss_Bounds.thy ===== *)
theory Loss_Bounds
  imports Loss_Properties
begin

text \<open>
  Bounds of the losses and of the KL penalty, and two places where a normalisation does not do what its
  neighbours rely on: the KL term of KL-Cov under the loss reduction, and the z-score of padded batches.
\<close>

section \<open>The clipped losses\<close>

lemma clamp_bounds: "lo \<le> hi \<Longrightarrow> lo \<le> clamp lo hi x \<and> clamp lo hi x \<le> hi"
  by (auto simp: clamp_def)

lemma clipped_positive:
  assumes "0 \<le> r" "0 \<le> a" "lc_eps_low c \<le> 1" "0 \<le> lc_eps_low c + lc_eps_high c"
  shows "- ((1 + lc_eps_high c) * a) \<le> clipped c r a" "clipped c r a \<le> 0"
proof -
  let ?k = "clamp (1 - lc_eps_low c) (1 + lc_eps_high c) r"
  have k: "0 \<le> ?k" "?k \<le> 1 + lc_eps_high c" using clamp_bounds [of "1 - lc_eps_low c" "1 + lc_eps_high c" r] assms(3,4) by auto
  then have "?k * a \<le> (1 + lc_eps_high c) * a" "0 \<le> ?k * a" "0 \<le> r * a" using assms by (auto intro: mult_right_mono)
  then show "- ((1 + lc_eps_high c) * a) \<le> clipped c r a" "clipped c r a \<le> 0" by (auto simp: clipped_def min_def)
qed

lemma clipped_negative: "0 \<le> r \<Longrightarrow> a \<le> 0 \<Longrightarrow> 0 \<le> clipped c r a"
  using mult_nonneg_nonpos [of r a] by (simp add: clipped_def min_def)

text \<open>The dual-clipped loss of a token is bounded by its advantage whatever the ratio of the two policies is:
  a good token contributes between minus one plus the upper threshold times its advantage and zero, a bad one
  between zero and the dual clip constant times its size.\<close>

theorem dual_clip_bounded:
  assumes "0 \<le> lc_eps_low c" "lc_eps_low c \<le> 1" "0 \<le> lc_eps_high c" "0 \<le> lc_clip_ratio_c c"
  shows "(0 \<le> a \<longrightarrow> - ((1 + lc_eps_high c) * a) \<le> ppo_token c True lp old a \<and> ppo_token c True lp old a \<le> 0)
    \<and> (a < 0 \<longrightarrow> 0 \<le> ppo_token c True lp old a \<and> ppo_token c True lp old a \<le> lc_clip_ratio_c c * \<bar>a\<bar>)"
proof -
  have r: "0 \<le> safe_exp_delta (lp - old)" by (simp add: safe_exp_delta_def)
  have pos: "0 \<le> a \<Longrightarrow> ppo_token c True lp old a = clipped c (safe_exp_delta (lp - old)) a" by (simp add: ppo_token_def Let_def)
  have neg: "a < 0 \<Longrightarrow> ppo_token c True lp old a = min (\<bar>a\<bar> * lc_clip_ratio_c c) (clipped c (safe_exp_delta (lp - old)) a)"
    by (simp add: ppo_token_def Let_def)
  have "0 \<le> \<bar>a\<bar> * lc_clip_ratio_c c" using assms(4) by (intro mult_nonneg_nonneg) auto
  then show ?thesis
    using clipped_positive [OF r _ assms(2), of a] clipped_negative [OF r, of a c] assms(1,3) pos neg
    by (auto simp: min_def mult.commute)
qed

theorem dual_clip_bounded_witness: "ppo_token ex_loss True 7 2 (- 2) \<le> 6"
  using dual_clip_bounded [of ex_loss "- 2" 7 2] by (simp add: ex_loss_def)

section \<open>The KL penalty\<close>

lemma approx_kl_nonneg: "est \<noteq> K1 \<Longrightarrow> 0 \<le> approx_kl est lp base"
proof (cases est)
  case K3
  have "0 \<le> exp k - k - 1" for k :: real using exp_ge_add_one_self [of k] by linarith
  then show ?thesis unfolding K3 approx_kl_def by (simp add: Let_def clamp_def le_max_iff_disj)
qed (simp_all add: approx_kl_def)

lemma approx_kl_self [simp]: "approx_kl est x x = 0"
  by (cases est) (simp_all add: approx_kl_def clamp_def)

lemma kl_nth:
  assumes "same_shape lp base" "same_shape m lp" "i < length m" "t < length (m ! i)"
  shows "compute_approx_kl lp base (Some m) est ! i ! t
    = (if m ! i ! t \<noteq> 0 then approx_kl est (lp ! i ! t) (base ! i ! t) * m ! i ! t else 0)"
proof -
  have len: "length lp = length m" "length base = length m" "length (lp ! i) = length (m ! i)" "length (base ! i) = length (m ! i)"
    using same_shapeD [OF assms(1)] same_shapeD [OF assms(2)] assms(3) by auto
  then show ?thesis using assms(3,4) by (simp add: compute_approx_kl_def)
qed

lemma compute_approx_kl_shape:
  assumes "same_shape lp base" "same_shape m lp"
  shows "same_shape (compute_approx_kl lp base (Some m) est) m"
  using same_shapeD [OF assms(1)] same_shapeD [OF assms(2)] by (intro same_shapeI) (auto simp: compute_approx_kl_def)

text \<open>The KL penalty never raises a reward when the estimator is one of the non-negative ones, leaves the
  rewards alone where the mask is zero or the policies agree, and does nothing for a negative coefficient.\<close>

theorem kl_penalty_only_lowers:
  assumes "apply_reward_kl_penalty rewards lp base m est coef ctrl = (rewards', ctrl')"
    and "same_shape lp base" "same_shape m lp" "same_shape rewards m" "binary m" "i < length m" "t < length (m ! i)"
  shows "(est \<noteq> K1 \<longrightarrow> rewards' ! i ! t \<le> rewards ! i ! t)
    \<and> (m ! i ! t = 0 \<or> lp ! i ! t = base ! i ! t \<or> (case ctrl of Some k \<Rightarrow> kc_value k \<le> 0 | None \<Rightarrow> coef \<le> 0) \<longrightarrow>
        rewards' ! i ! t = rewards ! i ! t)"
proof -
  let ?kl = "compute_approx_kl lp base (Some m) est" and ?c = "max 0 (case ctrl of Some k \<Rightarrow> kc_value k | None \<Rightarrow> coef)"
  have sh: "same_shape ?kl m" using assms(2,3) by (rule compute_approx_kl_shape)
  have r: "rewards' ! i ! t = rewards ! i ! t - ?kl ! i ! t * ?c"
    using assms(1,6,7) same_shapeD [OF sh] same_shapeD [OF assms(4)]
    by (auto simp: apply_reward_kl_penalty_def Let_def split: option.splits)
  have m: "m ! i ! t = 0 \<or> m ! i ! t = 1" using assms(5-7) by (rule binary_nth)
  have kl: "?kl ! i ! t = (if m ! i ! t \<noteq> 0 then approx_kl est (lp ! i ! t) (base ! i ! t) * m ! i ! t else 0)"
    using assms(2,3,6,7) by (rule kl_nth)
  have "est \<noteq> K1 \<Longrightarrow> 0 \<le> ?kl ! i ! t" using m approx_kl_nonneg [of est "lp ! i ! t" "base ! i ! t"] by (auto simp: kl)
  then have "est \<noteq> K1 \<Longrightarrow> 0 \<le> ?kl ! i ! t * ?c" by simp
  moreover have "?kl ! i ! t * ?c = 0"
    if "m ! i ! t = 0 \<or> lp ! i ! t = base ! i ! t \<or> (case ctrl of Some k \<Rightarrow> kc_value k \<le> 0 | None \<Rightarrow> coef \<le> 0)"
  proof -
    have "m ! i ! t = 0 \<or> lp ! i ! t = base ! i ! t \<or> ?c = 0" using that by (auto split: option.splits)
    then show ?thesis by (auto simp: kl)
  qed
  ultimately show ?thesis unfolding r by auto
qed

theorem kl_penalty_only_lowers_witness:
  "fst (apply_reward_kl_penalty [[3]] [[2]] [[1]] [[1]] Abs 1 None) ! 0 ! 0 \<le> 3"
proof -
  obtain r k where rk: "apply_reward_kl_penalty [[3]] [[2]] [[1]] [[1]] Abs 1 None = (r, k)" by fastforce
  from kl_penalty_only_lowers [OF rk, of 0 0] show ?thesis by (simp add: rk same_shape_def binary_def)
qed

text \<open>The adaptive controller moves the coefficient towards its target: up when the measured divergence is above
  the target, down when it is below, by at most a fifth of the coefficient per horizon, and never below zero when an
  update covers at most five horizons.\<close>

theorem adaptive_kl_steers:
  assumes "kc_adaptive k" "0 < kc_target k" "0 < kc_horizon k" "0 \<le> kc_value k" "0 \<le> n"
  shows "\<bar>kc_value (kl_update current n k) - kc_value k\<bar> \<le> kc_value k * (n / (5 * kc_horizon k))
    \<and> (kc_target k \<le> current \<longrightarrow> kc_value k \<le> kc_value (kl_update current n k))
    \<and> (current \<le> kc_target k \<longrightarrow> kc_value (kl_update current n k) \<le> kc_value k)
    \<and> (n \<le> 5 * kc_horizon k \<longrightarrow> 0 \<le> kc_value (kl_update current n k))"
proof -
  let ?e = "clamp (- 0.2) 0.2 (current / kc_target k - 1)" and ?s = "n / kc_horizon k"
  have s: "0 \<le> ?s" using assms(3,5) by simp
  have e: "- 0.2 \<le> ?e" "?e \<le> 0.2" using clamp_bounds [of "- 0.2" "0.2" "current / kc_target k - 1"] by auto
  have new: "kc_value (kl_update current n k) - kc_value k = kc_value k * (?e * ?s)"
    using assms(1) by (simp add: kl_update_def algebra_simps)
  have "\<bar>?e\<bar> \<le> 0.2" using e by linarith
  then have "\<bar>?e * ?s\<bar> \<le> 0.2 * ?s" unfolding abs_mult using s by (simp only: abs_of_nonneg mult_right_mono)
  then have "kc_value k * \<bar>?e * ?s\<bar> \<le> kc_value k * (0.2 * ?s)" using assms(4) by (rule mult_left_mono)
  then have bound: "\<bar>kc_value k * (?e * ?s)\<bar> \<le> kc_value k * (n / (5 * kc_horizon k))" using assms(4) by (simp add: abs_mult)
  have up: "kc_target k \<le> current \<Longrightarrow> 0 \<le> ?e" and down: "current \<le> kc_target k \<Longrightarrow> ?e \<le> 0"
    using assms(2) by (auto simp: clamp_def max_def min_def field_simps)
  have nonneg: "0 \<le> kc_value (kl_update current n k)" if "n \<le> 5 * kc_horizon k"
  proof -
    have "n / (5 * kc_horizon k) \<le> 1" using that assms(3) by simp
    then have "kc_value k * (n / (5 * kc_horizon k)) \<le> kc_value k * 1" using assms(4) by (rule mult_left_mono)
    then show ?thesis using bound new by linarith
  qed
  show ?thesis
    using bound new up down s nonneg assms(4) mult_nonneg_nonneg [of ?e ?s] mult_nonpos_nonneg [of ?e ?s]
      mult_nonneg_nonneg [of "kc_value k" "?e * ?s"] mult_nonneg_nonpos [of "kc_value k" "?e * ?s"]
    by (intro conjI impI) auto
qed

theorem adaptive_kl_steers_witness:
  "kc_value (kl_update 3 10 \<lparr>kc_value = 1, kc_target = 1, kc_horizon = 100, kc_adaptive = True\<rparr>) \<le> 51 / 50"
proof -
  let ?k = "\<lparr>kc_value = 1, kc_target = 1, kc_horizon = 100, kc_adaptive = True\<rparr>"
  have "\<bar>kc_value (kl_update 3 10 ?k) - kc_value ?k\<bar> \<le> kc_value ?k * (10 / (5 * kc_horizon ?k))"
    by (rule conjunct1 [OF adaptive_kl_steers]) simp_all
  then have "kc_value (kl_update 3 10 ?k) - kc_value ?k \<le> kc_value ?k * (10 / (5 * kc_horizon ?k))" by (rule abs_le_D1)
  then show ?thesis by simp
qed

section \<open>Two normalisations\<close>

lemma masked_entry: "same_shape A m \<Longrightarrow> i < length m \<Longrightarrow> t < length (m ! i) \<Longrightarrow> ew (*) A m ! i ! t = A ! i ! t * m ! i ! t"
  using same_shapeD [of A m] by simp

lemma row_product:
  assumes "same_shape A m" "i < length m"
  shows "sum_list (ew (*) A m ! i) = (\<Sum>t<length (m ! i). A ! i ! t * m ! i ! t)"
  using same_shapeD [OF assms(1)] assms(2) by (simp add: sum_map2)

lemma tsum_product: "same_shape A m \<Longrightarrow> tsum (ew (*) A m) = (\<Sum>i<length m. \<Sum>t<length (m ! i). A ! i ! t * m ! i ! t)"
  using same_shapeD(1) [of A m] by (simp add: tsum_rows row_product del: ew_simps(2))

lemma tsum_entries: "tsum A = (\<Sum>i<length A. \<Sum>t<length (A ! i). A ! i ! t)"
  by (simp add: tsum_rows sum_list_nth)

text \<open>The z-score of the advantages takes its mean over every position of the padded batch.  The advantages are
  zero outside the responses, so the responses come out centred only when there is no padding or their
  advantages cancel: the masked sum is a positive multiple of the unnormalised sum times the share of padding.\<close>

theorem batch_norm_off_centre:
  assumes "same_shape adv m" "\<forall>i<length m. \<forall>t<length (m ! i). m ! i ! t = 0 \<longrightarrow> adv ! i ! t = 0" "binary m"
  shows "\<exists>r>0. tsum (ew (*) (batch_normalize adv m) m) = r * (tsum adv * (1 - tsum m / real (entries adv)))"
proof -
  define mean where "mean = tsum adv / real (entries adv)"
  define r where "r = 1 / sqrt (max (1 / 10 ^ 8) (tsum (ew (*) (tmap (\<lambda>x. (x - mean)\<^sup>2) adv) m) / tsum m))"
  have "0 < max (1 / 10 ^ 8) x" for x :: real by (simp add: less_max_iff_disj)
  then have r: "0 < r" unfolding r_def by (simp only: zero_less_divide_1_iff real_sqrt_gt_0_iff)
  have norm: "batch_normalize adv m = tmap (\<lambda>x. (x - mean) * r) adv"
    by (simp add: batch_normalize_def Let_def mean_def r_def)
  have "adv ! i ! t * m ! i ! t = adv ! i ! t" if "i < length m" "t < length (m ! i)" for i t
    using binary_nth [OF assms(3) that] assms(2) that by auto
  then have "tsum (ew (*) adv m) = (\<Sum>i<length m. \<Sum>t<length (m ! i). adv ! i ! t)"
    unfolding tsum_product [OF assms(1)] by (intro sum.cong refl) simp
  also have "\<dots> = tsum adv"
    unfolding tsum_entries using same_shapeD [OF assms(1)] by (intro sum.cong) auto
  finally have "tsum (ew (*) (batch_normalize adv m) m) = r * (tsum adv * (1 - tsum m / real (entries adv)))"
    unfolding norm tsum_ew_shift [OF assms(1)] by (simp add: mean_def algebra_simps)
  then show ?thesis using r by blast
qed

theorem batch_norm_off_centre_witness:
  "0 < tsum (ew (*) (batch_normalize [[1, 0], [1, 0]] [[1, 0], [1, 0]]) [[1, 0], [1, 0]])"
proof -
  have "(\<forall>i<length [[1, 0], [1, 0]]. \<forall>t<length ([[1, 0], [1, 0 :: real]] ! i). [[1, 0], [1, 0 :: real]] ! i ! t = 0
      \<longrightarrow> [[1, 0], [1, 0 :: real]] ! i ! t = 0)" by blast
  from batch_norm_off_centre [OF same_shape_refl this] show ?thesis
    by (auto simp: binary_def tsum_def row_sums_def entries_def)
qed

lemma by_position_nth [simp]:
  "length (by_position f T) = length T"
  "i < length T \<Longrightarrow> by_position f T ! i = map (f i) [0..<length (T ! i)]"
  by (simp_all add: by_position_def)

text \<open>In the KL-Cov loss the loss reduction scales the policy term and not the KL term: with advantages divided
  by the token count, as the token mean does, the loss is the mean of the policy term plus the sum, not the
  mean, of the KL of the selected tokens.\<close>

theorem kl_cov_term_unreduced:
  assumes "same_shape lp adv" "same_shape old adv" "same_shape adv m"
  shows "policy_loss Kl_cov c rn lp old (divide_all N adv) (Some m) ro
    = Inr (tsum (ew (*) (ew3 (\<lambda>l o' a. - a * exp (l - o')) lp old adv) m) / N
        + lc_ppo_kl_coef c * tsum (ew (*) (by_position (\<lambda>i t.
            if (i, t) \<in> set (kl_cov_chosen c (rn_top rn) lp (divide_all N adv) m) then \<bar>lp ! i ! t - old ! i ! t\<bar> else 0) adv) m))"
proof -
  let ?C = "set (kl_cov_chosen c (rn_top rn) lp (divide_all N adv) m)"
  let ?L = "kl_cov_losses c (rn_top rn) lp old (divide_all N adv) m"
  let ?P = "ew3 (\<lambda>l o' a. - a * exp (l - o')) lp old adv"
  let ?K = "by_position (\<lambda>i t. if (i, t) \<in> ?C then \<bar>lp ! i ! t - old ! i ! t\<bar> else 0) adv"
  note len = same_shapeD [OF assms(1)] same_shapeD [OF assms(2)] same_shapeD [OF assms(3)]
  have sL: "same_shape ?L m" using len by (intro same_shapeI) (auto simp: kl_cov_losses_def divide_all_def)
  have sP: "same_shape ?P m" using len by (intro same_shapeI) auto
  have sK: "same_shape ?K m" using len by (intro same_shapeI) auto
  have entry: "?L ! i ! t = ?P ! i ! t / N + lc_ppo_kl_coef c * ?K ! i ! t" if "i < length m" "t < length (m ! i)" for i t
    using that len by (auto simp: kl_cov_losses_def divide_all_def Let_def)
  have "tsum (ew (*) ?L m) = (\<Sum>i<length m. \<Sum>t<length (m ! i).
      (?P ! i ! t * m ! i ! t) / N + lc_ppo_kl_coef c * (?K ! i ! t * m ! i ! t))"
    unfolding tsum_product [OF sL] using entry by (intro sum.cong refl) (simp add: algebra_simps)
  also have "\<dots> = tsum (ew (*) ?P m) / N + lc_ppo_kl_coef c * tsum (ew (*) ?K m)"
    unfolding tsum_product [OF sP] tsum_product [OF sK] by (simp add: sum.distrib sum_distrib_left sum_divide_distrib)
  finally show ?thesis by (simp add: policy_loss_def token_losses_def reduce_loss_def)
qed

theorem kl_cov_term_unreduced_witness:
  "policy_loss Kl_cov ex_loss ex_choices [[0, 0]] [[1, 1]] (divide_all 2 [[0, 0]]) (Some [[1, 1]]) None = Inr 2"
proof -
  have "kl_cov_chosen ex_loss (rn_top ex_choices) [[0, 0]] (divide_all 2 [[0, 0]]) [[1, 1]] = [(0, 0), (0, 1)]"
    by (simp add: kl_cov_chosen_def ex_loss_def ex_choices_def positions_def divide_all_def tmap_def upt_rec list_mean_def)
  with kl_cov_term_unreduced [of "[[0, 0]]" "[[0, 0]]" "[[1, 1]]" "[[1, 1]]" ex_loss ex_choices 2 None] show ?thesis
    by (simp add: same_shape_def ew_def ew3_def tsum_def row_sums_def by_position_def ex_loss_def upt_rec)
qed

end
