(* ===== verification/Tensor_Batch.thy ===== *)
theory Tensor_Batch
  imports Tensors
begin

text \<open>
  Batches of \<^verbatim>\<open>backends/skyrl_train/training_batch.py\<close>: a dictionary of columns with one row per sample and
  metadata.  A tensor is its trailing shape and its rows, flattened; the rows of a \<^verbatim>\<open>TensorList\<close> may differ in
  length.  Devices, element types and pickling are left out.
\<close>

section \<open>Columns\<close>

datatype column = Tensor "nat list" tensor | TensorList tensor

fun col_rows :: "column \<Rightarrow> tensor" where
  "col_rows (Tensor _ rs) = rs"
| "col_rows (TensorList rs) = rs"

definition new_TensorList :: "tensor \<Rightarrow> (string, column) result" where
  "new_TensorList rs = (if rs = [] then Inl ''Cannot create a TensorList with no tensors.'' else Inr (TensorList rs))"

definition subseq :: "nat \<Rightarrow> nat \<Rightarrow> 'a list \<Rightarrow> 'a list" where
  "subseq a b xs = take (b - a) (drop a xs)"

definition slice_column :: "nat \<Rightarrow> nat \<Rightarrow> column \<Rightarrow> (string, column) result" where
  "slice_column a b v =
     (case v of Tensor sh rs \<Rightarrow> Inr (Tensor sh (subseq a b rs)) | TensorList rs \<Rightarrow> new_TensorList (subseq a b rs))"

text \<open>Indexing by a list of row numbers.\<close>

definition select_rows :: "nat list \<Rightarrow> tensor \<Rightarrow> (string, tensor) result" where
  "select_rows is rs = (if \<forall>i\<in>set is. i < length rs then Inr (map ((!) rs) is) else Inl ''index out of range'')"

definition index_column :: "nat list \<Rightarrow> column \<Rightarrow> (string, column) result" where
  "index_column is v =
     (case select_rows is (col_rows v) of
        Inl e \<Rightarrow> Inl e
      | Inr rs \<Rightarrow> (case v of Tensor sh _ \<Rightarrow> Inr (Tensor sh rs) | TensorList _ \<Rightarrow> new_TensorList rs))"

text \<open>\<open>torch.repeat\<close> with one argument needs a one-dimensional tensor; \<open>torch.repeat_interleave\<close> without a
  dimension flattens its input.\<close>

definition tile :: "nat \<Rightarrow> 'a list \<Rightarrow> 'a list" where
  "tile n xs = concat (replicate n xs)"

definition each_times :: "nat \<Rightarrow> 'a list \<Rightarrow> 'a list" where
  "each_times n xs = concat (map (replicate n) xs)"

definition repeat_column :: "nat \<Rightarrow> column \<Rightarrow> (string, column) result" where
  "repeat_column n v =
     (case v of
        TensorList rs \<Rightarrow> new_TensorList (tile n rs)
      | Tensor sh rs \<Rightarrow>
          (if sh = [] then Inr (Tensor [] (tile n rs))
           else Inl ''Number of dimensions of repeat dims can not be smaller than number of dimensions of tensor''))"

definition repeat_interleave_column :: "nat \<Rightarrow> column \<Rightarrow> (string, column) result" where
  "repeat_interleave_column n v =
     (case v of
        TensorList rs \<Rightarrow> new_TensorList (each_times n rs)
      | Tensor sh rs \<Rightarrow> Inr (Tensor [] (map (\<lambda>x. [x]) (each_times n (concat rs)))))"

text \<open>A loop that collects results and stops at the first error.\<close>

fun for_each :: "('a \<Rightarrow> ('e, 'b) result) \<Rightarrow> 'a list \<Rightarrow> ('e, 'b list) result" where
  "for_each f [] = Inr []"
| "for_each f (x # xs) =
     (case f x of Inl e \<Rightarrow> Inl e | Inr y \<Rightarrow> (case for_each f xs of Inl e \<Rightarrow> Inl e | Inr ys \<Rightarrow> Inr (y # ys)))"

section \<open>Batches\<close>

type_synonym columns = "(string, column option) dict"

datatype meta = Strings "string list" | Flags "bool list" | Number int | Text string | Switch bool

type_synonym metadata = "(string, meta) dict"

record batch =
  columns :: columns
  batch_size :: "nat option"
  meta :: "metadata option"

text \<open>The first column gives the batch size; it may not be absent.\<close>

definition check_consistency :: "columns \<Rightarrow> (string, nat option) result" where
  "check_consistency cs =
     (case cs of
        [] \<Rightarrow> Inr None
      | (k, None) # _ \<Rightarrow> Inl ''object of type NoneType has no len()''
      | (k, Some v) # _ \<Rightarrow>
          (if list_all (\<lambda>(_, w). case w of None \<Rightarrow> True | Some w \<Rightarrow> length (col_rows w) = length (col_rows v)) cs
           then Inr (Some (length (col_rows v))) else Inl ''Batch size mismatch''))"

definition new_batch :: "columns \<Rightarrow> metadata option \<Rightarrow> (string, batch) result" where
  "new_batch cs md =
     (case check_consistency cs of Inl e \<Rightarrow> Inl e | Inr n \<Rightarrow> Inr \<lparr>columns = cs, batch_size = n, meta = md\<rparr>)"

text \<open>The columns of a new batch, each made from one of the old; absent columns stay absent.\<close>

definition on_columns :: "(string \<Rightarrow> column \<Rightarrow> (string, column) result) \<Rightarrow> columns \<Rightarrow> (string, columns) result" where
  "on_columns f = for_each (\<lambda>(k, v). case v of
      None \<Rightarrow> Inr (k, None) | Some v \<Rightarrow> (case f k v of Inl e \<Rightarrow> Inl e | Inr w \<Rightarrow> Inr (k, Some w)))"

definition rebuild :: "(string \<Rightarrow> column \<Rightarrow> (string, column) result) \<Rightarrow> batch \<Rightarrow> (string, batch) result" where
  "rebuild f b = (case on_columns f (columns b) of Inl e \<Rightarrow> Inl e | Inr cs \<Rightarrow> new_batch cs (meta b))"

definition slice_batch :: "nat \<Rightarrow> nat \<Rightarrow> batch \<Rightarrow> (string, batch) result" where
  "slice_batch a b = rebuild (\<lambda>_. slice_column a b)"

definition get_sample :: "nat \<Rightarrow> batch \<Rightarrow> (string, batch) result" where
  "get_sample i = slice_batch i (i + 1)"

definition get_column :: "string \<Rightarrow> batch \<Rightarrow> (string, column option) result" where
  "get_column k b = (case dict_get (columns b) k of None \<Rightarrow> Inl ''KeyError'' | Some v \<Rightarrow> Inr v)"

definition set_column :: "string \<Rightarrow> column option \<Rightarrow> batch \<Rightarrow> (string, batch) result" where
  "set_column k v b =
     (case v of
        None \<Rightarrow> Inr (b\<lparr>columns := dict_put k None (columns b)\<rparr>)
      | Some w \<Rightarrow>
          (case batch_size b of
             Some n \<Rightarrow> if length (col_rows w) \<noteq> n then Inl ''Batch size mismatch'' else Inr (b\<lparr>columns := dict_put k v (columns b)\<rparr>)
           | None \<Rightarrow> Inr (b\<lparr>columns := dict_put k v (columns b), batch_size := Some (length (col_rows w))\<rparr>)))"

definition select_keys :: "string list \<Rightarrow> string list option \<Rightarrow> batch \<Rightarrow> (string, batch) result" where
  "select_keys ks mks b =
     (case for_each (\<lambda>k. case get_column k b of Inl e \<Rightarrow> Inl e | Inr v \<Rightarrow> Inr (k, v)) ks of
        Inl e \<Rightarrow> Inl e
      | Inr cs \<Rightarrow>
          (case mks of
             None \<Rightarrow> new_batch (dict_of_pairs cs) (meta b)
           | Some mks \<Rightarrow>
               (case for_each (\<lambda>k. case meta b of
                    None \<Rightarrow> Inl ''NoneType object is not subscriptable''
                  | Some md \<Rightarrow> (case dict_get md k of None \<Rightarrow> Inl ''KeyError'' | Some v \<Rightarrow> Inr (k, v))) mks of
                  Inl e \<Rightarrow> Inl e
                | Inr md \<Rightarrow> new_batch (dict_of_pairs cs) (Some (dict_of_pairs md)))))"

definition repeat_batch :: "nat \<Rightarrow> batch \<Rightarrow> (string, batch) result" where
  "repeat_batch n = rebuild (\<lambda>_. repeat_column n)"

definition repeat_interleave_batch :: "nat \<Rightarrow> batch \<Rightarrow> (string, batch) result" where
  "repeat_interleave_batch n = rebuild (\<lambda>_. repeat_interleave_column n)"

text \<open>\<open>range(0, n, k)\<close> for a positive step.\<close>

definition range_step :: "nat \<Rightarrow> nat \<Rightarrow> nat list" where
  "range_step n k = map (\<lambda>i. i * k) [0..<(n + k - 1) div k]"

definition chunk :: "nat \<Rightarrow> batch \<Rightarrow> (string, batch list) result" where
  "chunk k b =
     (case batch_size b of
        None \<Rightarrow> Inl ''NoneType object cannot be interpreted as an integer''
      | Some n \<Rightarrow>
          (if k = 0 then Inl ''range() arg 3 must not be zero''
           else for_each (\<lambda>i. slice_batch i (i + k) b) (range_step n k)))"

text \<open>The columns of the first shard decide.\<close>

definition shard_column :: "string \<Rightarrow> batch \<Rightarrow> (string, column) result" where
  "shard_column k s = (case get_column k s of
      Inl e \<Rightarrow> Inl e | Inr None \<Rightarrow> Inl ''expected Tensor, got NoneType'' | Inr (Some v) \<Rightarrow> Inr v)"

definition cat_column :: "column \<Rightarrow> column list \<Rightarrow> (string, column) result" where
  "cat_column v vs =
     (case v of
        TensorList _ \<Rightarrow>
          (if list_all (\<lambda>w. case w of TensorList _ \<Rightarrow> True | _ \<Rightarrow> False) vs then new_TensorList (concat (map col_rows vs))
           else Inl ''Tensor object has no attribute tensors'')
      | Tensor sh _ \<Rightarrow>
          (if list_all (\<lambda>w. case w of Tensor sh' _ \<Rightarrow> sh' = sh | _ \<Rightarrow> False) vs then Inr (Tensor sh (concat (map col_rows vs)))
           else Inl ''Sizes of tensors must match''))"

definition cat_batches :: "batch list \<Rightarrow> (string, batch) result" where
  "cat_batches shards =
     (case shards of
        [] \<Rightarrow> Inl ''Cannot cat an empty list of shards''
      | s # _ \<Rightarrow>
          rebuild (\<lambda>k v. case for_each (shard_column k) shards of Inl e \<Rightarrow> Inl e | Inr vs \<Rightarrow> cat_column v vs) s)"

section \<open>Padding\<close>

definition pad_column :: "nat \<Rightarrow> string \<Rightarrow> column \<Rightarrow> (string, column) result" where
  "pad_column n k v =
     (case v of
        TensorList rs \<Rightarrow> (if rs = [] then Inl ''Cannot pad empty TensorList field'' else Inr (TensorList (rs @ replicate n (rs ! 0))))
      | Tensor sh rs \<Rightarrow>
          (if k = ''loss_mask'' then Inr (Tensor sh (rs @ replicate n (replicate (prod_list sh) 0)))
           else if rs = [] then Inl ''Cannot pad empty tensor field''
           else Inr (Tensor sh (rs @ replicate n (rs ! 0)))))"

definition pad_meta :: "nat \<Rightarrow> string \<Rightarrow> meta \<Rightarrow> (string, meta) result" where
  "pad_meta n k v =
     (if k = ''uids'' then
        (case v of Strings us \<Rightarrow> Inr (Strings (us @ map (\<lambda>i. ''pad'' @ str_of_nat i) [0..<n])) | _ \<Rightarrow> Inl ''can only concatenate list'')
      else if k = ''is_last_step'' then
        (case v of Flags fs \<Rightarrow> Inr (Flags (fs @ replicate n True)) | _ \<Rightarrow> Inl ''can only concatenate list'')
      else Inr v)"

definition pad_metadata :: "nat \<Rightarrow> metadata \<Rightarrow> (string, metadata) result" where
  "pad_metadata n md =
     (case for_each (\<lambda>(k, v). case pad_meta n k v of Inl e \<Rightarrow> Inl e | Inr w \<Rightarrow> Inr (k, w)) md of
        Inl e \<Rightarrow> Inl e | Inr md \<Rightarrow> Inr (dict_put ''pad_size'' (Number (int n)) md))"

definition known_meta :: "batch \<Rightarrow> metadata" where
  "known_meta b = (case meta b of None \<Rightarrow> [] | Some md \<Rightarrow> md)"

definition pad_training_input_batch :: "nat \<Rightarrow> batch \<Rightarrow> (string, batch) result" where
  "pad_training_input_batch n b =
     (if n = 0 then Inr (b\<lparr>meta := Some (dict_put ''pad_size'' (Number 0) (known_meta b))\<rparr>)
      else case on_columns (pad_column n) (columns b) of
             Inl e \<Rightarrow> Inl e
           | Inr cs \<Rightarrow>
               (case pad_metadata n (known_meta b) of Inl e \<Rightarrow> Inl e | Inr md \<Rightarrow> new_batch cs (Some md)))"

end
