(* ===== verification/Batch_Properties.thy ===== *)
theory Batch_Properties
  imports Tensor_Batch
begin

text \<open>
  Well-formed batches, what slicing, chunking, concatenation and padding do to their rows, and the round
  trip of chunking.
\<close>

section \<open>Lists\<close>

lemma length_subseq [simp]: "length (subseq a b xs) = min (b - a) (length xs - a)"
  by (simp add: subseq_def min.commute)

lemma nth_subseq [simp]: "i < b - a \<Longrightarrow> a + i < length xs \<Longrightarrow> subseq a b xs ! i = xs ! (a + i)"
  by (simp add: subseq_def)

lemma subseq_map: "subseq a b (map f xs) = map f (subseq a b xs)"
  by (simp add: subseq_def take_map drop_map)

lemma subseq_join: "a \<le> b \<Longrightarrow> b \<le> c \<Longrightarrow> subseq a b xs @ subseq b c xs = subseq a c xs"
proof -
  assume "a \<le> b" "b \<le> c"
  then obtain d e where "b = a + d" "c = a + d + e" by (metis le_add_diff_inverse)
  then show ?thesis by (simp add: subseq_def take_add add.commute)
qed

lemma subseq_blocks: "concat (map (\<lambda>i. subseq (i * k) (i * k + k) xs) [0..<q]) = subseq 0 (q * k) xs"
proof (induction q)
  case 0
  show ?case by (simp add: subseq_def)
next
  case (Suc q)
  then show ?case using subseq_join [of 0 "q * k" "q * k + k" xs] by (simp add: add.commute)
qed

lemma ceil_div: "0 < k \<Longrightarrow> n \<le> ((n + k - 1) div k) * k" for n k :: nat
proof -
  assume k: "0 < k"
  have "(n + k - 1) div k * k + (n + k - 1) mod k = n + k - 1" by (rule div_mult_mod_eq)
  moreover have "(n + k - 1) mod k < k" using k by simp
  ultimately show ?thesis using k by linarith
qed

lemma range_step_below: "0 < k \<Longrightarrow> i \<in> set (range_step n k) \<Longrightarrow> i < n"
proof -
  assume k: "0 < k" and "i \<in> set (range_step n k)"
  then obtain q where q: "i = q * k" "q < (n + k - 1) div k" by (auto simp: range_step_def)
  have "Suc q * k \<le> (n + k - 1) div k * k" using q(2) by (intro mult_le_mono1) simp
  also have "\<dots> \<le> n + k - 1" by simp
  finally show ?thesis using q(1) k by simp
qed

lemma concat_range_step:
  assumes "0 < k" "length xs = n"
  shows "concat (map (\<lambda>i. subseq i (i + k) xs) (range_step n k)) = xs"
proof -
  have "concat (map (\<lambda>i. subseq i (i + k) xs) (range_step n k)) = subseq 0 ((n + k - 1) div k * k) xs"
    unfolding range_step_def map_map comp_def by (rule subseq_blocks)
  also have "\<dots> = xs" using ceil_div [OF assms(1), of n] assms(2) by (simp add: subseq_def)
  finally show ?thesis .
qed

lemma range_step_Nil: "0 < k \<Longrightarrow> 0 < n \<Longrightarrow> \<exists>is. range_step n k = 0 # is"
proof -
  assume k: "0 < k" "0 < n"
  then have "0 < (n + k - 1) div k" by (simp add: div_greater_zero_iff)
  then show ?thesis by (simp add: range_step_def upt_conv_Cons)
qed

lemma traverse_total: "(\<And>x. x \<in> set xs \<Longrightarrow> f x = Inr (g x)) \<Longrightarrow> for_each f xs = Inr (map g xs)"
  by (induction xs) auto

lemma traverse_ok: "for_each f xs = Inr ys \<Longrightarrow> length ys = length xs \<and> (\<forall>i<length xs. f (xs ! i) = Inr (ys ! i))"
proof (induction xs arbitrary: ys)
  case (Cons x xs)
  then obtain y zs where "f x = Inr y" "for_each f xs = Inr zs" "ys = y # zs" by (auto split: sum.splits)
  with Cons.IH [of zs] show ?case by (auto simp: nth_Cons split: nat.splits)
qed simp

section \<open>Well-formed batches\<close>

fun wf_column :: "column \<Rightarrow> bool" where
  "wf_column (Tensor sh rs) = (\<forall>r\<in>set rs. length r = prod_list sh)"
| "wf_column (TensorList rs) = (rs \<noteq> [])"

definition wf_columns :: "nat \<Rightarrow> columns \<Rightarrow> bool" where
  "wf_columns n cs = (dict_wf cs \<and> (\<exists>k v rest. cs = (k, Some v) # rest) \<and>
     (\<forall>(k, v)\<in>set cs. \<forall>w. v = Some w \<longrightarrow> wf_column w \<and> length (col_rows w) = n))"

definition wf_batch :: "batch \<Rightarrow> bool" where
  "wf_batch b = (\<exists>n. batch_size b = Some n \<and> wf_columns n (columns b))"

definition size_of :: "batch \<Rightarrow> nat" where
  "size_of b = (case batch_size b of Some n \<Rightarrow> n | None \<Rightarrow> 0)"

definition nth_sample :: "nat \<Rightarrow> batch \<Rightarrow> (string, real list option) dict" where
  "nth_sample i b = map (\<lambda>(k, v). (k, map_option (\<lambda>w. col_rows w ! i) v)) (columns b)"

definition rows_of :: "batch \<Rightarrow> (string, real list option) dict list" where
  "rows_of b = map (\<lambda>i. nth_sample i b) [0..<size_of b]"

lemma wf_batchD: "wf_batch b \<Longrightarrow> batch_size b = Some (size_of b) \<and> wf_columns (size_of b) (columns b)"
  by (auto simp: wf_batch_def size_of_def)

lemma wf_columnsD:
  assumes "wf_columns n cs" "(k, Some v) \<in> set cs"
  shows "wf_column v" "length (col_rows v) = n"
  using assms unfolding wf_columns_def by fast+

definition map_columns :: "(string \<Rightarrow> column \<Rightarrow> column) \<Rightarrow> columns \<Rightarrow> columns" where
  "map_columns g cs = map (\<lambda>(k, v). (k, map_option (g k) v)) cs"

lemma map_columns_keys [simp]: "map fst (map_columns g cs) = map fst cs"
  by (auto simp: map_columns_def)

lemma map_columns_mem: "(k, v) \<in> set (map_columns g cs) \<longleftrightarrow> (\<exists>u. (k, u) \<in> set cs \<and> v = map_option (g k) u)"
  by (auto simp: map_columns_def)

lemma map_columns_get: "dict_get (map_columns g cs) k = map_option (map_option (g k)) (dict_get cs k)"
  by (induction cs) (auto simp: map_columns_def)

lemma on_columns_total:
  assumes "\<And>k v. (k, Some v) \<in> set cs \<Longrightarrow> f k v = Inr (g k v)"
  shows "on_columns f cs = Inr (map_columns g cs)"
  unfolding on_columns_def map_columns_def using assms
  by (intro traverse_total) (auto split: option.splits prod.splits)

lemma wf_map_columns:
  assumes "wf_columns n cs" "\<And>k v. (k, Some v) \<in> set cs \<Longrightarrow> wf_column (g k v) \<and> length (col_rows (g k v)) = m"
  shows "wf_columns m (map_columns g cs)"
proof -
  have "dict_wf (map_columns g cs)" using assms(1) by (simp add: wf_columns_def dict_wf_def)
  moreover have "\<exists>k v rest. map_columns g cs = (k, Some v) # rest" using assms(1) by (auto simp: wf_columns_def map_columns_def)
  moreover have "wf_column w \<and> length (col_rows w) = m" if "(k, Some w) \<in> set (map_columns g cs)" for k w
  proof -
    from that obtain u where "(k, u) \<in> set cs" "Some w = map_option (g k) u" by (auto simp: map_columns_mem)
    then obtain x where "(k, Some x) \<in> set cs" "w = g k x" by (cases u) auto
    then show ?thesis using assms(2) by blast
  qed
  ultimately show ?thesis by (fastforce simp: wf_columns_def)
qed

lemma new_batch_wf:
  assumes "wf_columns n cs"
  shows "new_batch cs md = Inr \<lparr>columns = cs, batch_size = Some n, meta = md\<rparr>"
proof -
  obtain k v rest where cs: "cs = (k, Some v) # rest" using assms by (auto simp: wf_columns_def)
  have len: "length (col_rows w) = n" if "(l, Some w) \<in> set cs" for l w using wf_columnsD(2) [OF assms that] .
  then have "length (col_rows v) = n" by (auto simp: cs)
  moreover have "list_all (\<lambda>(_, w). case w of None \<Rightarrow> True | Some w \<Rightarrow> length (col_rows w) = n) cs"
    using len by (auto simp: list_all_iff split: option.splits)
  ultimately have "check_consistency cs = Inr (Some n)" by (simp add: check_consistency_def cs)
  then show ?thesis by (simp add: new_batch_def)
qed

text \<open>Whatever makes well-formed columns of one length rebuilds a batch.\<close>

lemma rebuild_wf:
  assumes "wf_batch b"
    and "\<And>k v. (k, Some v) \<in> set (columns b) \<Longrightarrow> f k v = Inr (g k v) \<and> wf_column (g k v) \<and> length (col_rows (g k v)) = m"
  shows "rebuild f b = Inr \<lparr>columns = map_columns g (columns b), batch_size = Some m, meta = meta b\<rparr>"
    and "wf_batch \<lparr>columns = map_columns g (columns b), batch_size = Some m, meta = meta b\<rparr>"
proof -
  have wf: "wf_columns m (map_columns g (columns b))"
    using wf_batchD [OF assms(1)] assms(2) by (blast intro: wf_map_columns)
  have "on_columns f (columns b) = Inr (map_columns g (columns b))" using assms(2) by (intro on_columns_total) blast
  then show "rebuild f b = Inr \<lparr>columns = map_columns g (columns b), batch_size = Some m, meta = meta b\<rparr>"
    using new_batch_wf [OF wf] by (simp add: rebuild_def)
  show "wf_batch \<lparr>columns = map_columns g (columns b), batch_size = Some m, meta = meta b\<rparr>"
    using wf by (simp add: wf_batch_def)
qed

section \<open>Slices and chunks\<close>

definition cut_column :: "nat \<Rightarrow> nat \<Rightarrow> column \<Rightarrow> column" where
  "cut_column a b v = (case v of Tensor sh rs \<Rightarrow> Tensor sh (subseq a b rs) | TensorList rs \<Rightarrow> TensorList (subseq a b rs))"

lemma rows_cut [simp]: "col_rows (cut_column a b v) = subseq a b (col_rows v)"
  by (cases v) (simp_all add: cut_column_def)

definition part :: "nat \<Rightarrow> nat \<Rightarrow> batch \<Rightarrow> batch" where
  "part a c b = \<lparr>columns = map_columns (\<lambda>_. cut_column a c) (columns b), batch_size = Some (min (c - a) (size_of b - a)), meta = meta b\<rparr>"

lemma set_subseq: "set (subseq a b xs) \<subseteq> set xs"
  unfolding subseq_def by (meson dual_order.trans set_drop_subset set_take_subset)

lemma slice_cut:
  assumes "wf_column v" "a < c" "a < length (col_rows v)"
  shows "slice_column a c v = Inr (cut_column a c v) \<and> wf_column (cut_column a c v)"
proof (cases v)
  case (Tensor sh rs)
  then have "\<forall>r\<in>set (subseq a c rs). length r = prod_list sh" using assms(1) set_subseq [of a c rs] by auto
  then show ?thesis by (simp add: Tensor slice_column_def cut_column_def)
next
  case (TensorList rs)
  then have "0 < min (c - a) (length rs - a)" using assms(2,3) by simp
  then have "subseq a c rs \<noteq> []" unfolding length_subseq [symmetric] length_greater_0_conv .
  then show ?thesis by (auto simp: TensorList slice_column_def cut_column_def new_TensorList_def)
qed

lemma slice_batch_wf:
  assumes "wf_batch b" "a < c" "a < size_of b"
  shows "slice_batch a c b = Inr (part a c b)" "wf_batch (part a c b)"
proof -
  have col: "slice_column a c v = Inr (cut_column a c v) \<and> wf_column (cut_column a c v) \<and> length (col_rows (cut_column a c v)) = min (c - a) (size_of b - a)"
    if "(k, Some v) \<in> set (columns b)" for k v
    using slice_cut [of v a c] assms(2,3) wf_columnsD [OF conjunct2 [OF wf_batchD [OF assms(1)]] that] by simp
  show "slice_batch a c b = Inr (part a c b)"
    unfolding slice_batch_def part_def using assms(1) col by (intro rebuild_wf(1)) blast+
  show "wf_batch (part a c b)" unfolding part_def
    by (rule rebuild_wf(2) [OF assms(1), where f = "\<lambda>_. slice_column a c"]) (use col in blast)
qed

lemma size_part [simp]: "size_of (part a c b) = min (c - a) (size_of b - a)"
  by (simp add: part_def size_of_def)

lemma row_at_part:
  assumes "wf_batch b" "i < c - a" "a + i < size_of b"
  shows "nth_sample i (part a c b) = nth_sample (a + i) b"
proof -
  have "col_rows (cut_column a c v) ! i = col_rows v ! (a + i)" if "(k, Some v) \<in> set (columns b)" for k v
    using wf_columnsD(2) [OF conjunct2 [OF wf_batchD [OF assms(1)]] that] assms(2,3) by simp
  then have "map_option (\<lambda>w. col_rows w ! i) (map_option (cut_column a c) v) = map_option (\<lambda>w. col_rows w ! (a + i)) v"
    if "(k, v) \<in> set (columns b)" for k v
    using that by (cases v) auto
  then show ?thesis by (auto simp: nth_sample_def part_def map_columns_def)
qed

lemma rows_of_part: "wf_batch b \<Longrightarrow> rows_of (part a c b) = subseq a c (rows_of b)"
  by (intro nth_equalityI) (auto simp: rows_of_def row_at_part)

lemma chunk_wf:
  assumes "wf_batch b" "0 < k"
  shows "chunk k b = Inr (map (\<lambda>i. part i (i + k) b) (range_step (size_of b) k))"
proof -
  have "for_each (\<lambda>i. slice_batch i (i + k) b) (range_step (size_of b) k)
      = Inr (map (\<lambda>i. part i (i + k) b) (range_step (size_of b) k))"
    using assms range_step_below [OF assms(2)] by (intro traverse_total slice_batch_wf(1)) auto
  then show ?thesis using assms(2) wf_batchD [OF assms(1)] by (simp add: chunk_def)
qed

lemma chunk_parts:
  assumes "wf_batch b" "0 < k" "chunk k b = Inr cs" "c \<in> set cs"
  shows "wf_batch c" "\<exists>i<size_of b. c = part i (i + k) b"
proof -
  from assms obtain i where "i \<in> set (range_step (size_of b) k)" "c = part i (i + k) b" by (auto simp: chunk_wf)
  moreover from this range_step_below [OF assms(2)] have "i < size_of b" by blast
  ultimately show "\<exists>i<size_of b. c = part i (i + k) b" "wf_batch c"
    using slice_batch_wf(2) [OF assms(1), of i "i + k"] assms(2) by auto
qed

lemma rows_of_chunks:
  assumes "wf_batch b" "0 < k" "chunk k b = Inr cs"
  shows "concat (map rows_of cs) = rows_of b"
proof -
  have "concat (map rows_of cs) = concat (map (\<lambda>i. subseq i (i + k) (rows_of b)) (range_step (size_of b) k))"
    using assms by (auto simp: chunk_wf comp_def rows_of_part)
  also have "\<dots> = rows_of b" using assms(2) by (intro concat_range_step) (simp_all add: rows_of_def)
  finally show ?thesis .
qed

text \<open>Operations on rows keep the columns, the shapes of tensors and the metadata that describe the layout.\<close>

definition keeps_tensors :: "(string \<Rightarrow> column \<Rightarrow> column) \<Rightarrow> bool" where
  "keeps_tensors g = (\<forall>k sh rs. \<exists>rs'. g k (Tensor sh rs) = Tensor sh rs')"

definition same_layout :: "batch \<Rightarrow> batch \<Rightarrow> bool" where
  "same_layout b b' = (\<forall>k. k \<notin> {''uids'', ''is_last_step'', ''pad_size''} \<longrightarrow> dict_get (known_meta b') k = dict_get (known_meta b) k)"

definition same_schema :: "batch \<Rightarrow> batch \<Rightarrow> bool" where
  "same_schema b b' = ((\<exists>g. columns b' = map_columns g (columns b) \<and> keeps_tensors g) \<and> same_layout b b')"

lemma keeps_tensorsD: "keeps_tensors g \<Longrightarrow> \<exists>rs'. g k (Tensor sh rs) = Tensor sh rs'"
  unfolding keeps_tensors_def by blast

lemma same_layout_meta: "meta b' = meta b \<Longrightarrow> same_layout b b'"
  by (simp add: same_layout_def known_meta_def)

lemma map_columns_id: "map_columns (\<lambda>_ v. v) cs = cs"
  by (induction cs) (auto simp: map_columns_def option.map_ident)

lemma map_columns_comp: "map_columns h (map_columns g cs) = map_columns (\<lambda>k v. h k (g k v)) cs"
  by (auto simp: map_columns_def option.map_comp comp_def)

lemma same_schemaI: "columns b' = map_columns g (columns b) \<Longrightarrow> keeps_tensors g \<Longrightarrow> same_layout b b' \<Longrightarrow> same_schema b b'"
  unfolding same_schema_def by blast

lemma same_schema_refl: "same_schema b b"
  by (rule same_schemaI [of _ "\<lambda>_ v. v"]) (simp_all add: map_columns_id keeps_tensors_def same_layout_meta)

lemma same_schema_trans:
  assumes "same_schema a b" "same_schema b c"
  shows "same_schema a c"
proof -
  obtain g h where g: "columns b = map_columns g (columns a)" "keeps_tensors g"
    and h: "columns c = map_columns h (columns b)" "keeps_tensors h"
    using assms unfolding same_schema_def by blast
  have "columns c = map_columns (\<lambda>k v. h k (g k v)) (columns a)" by (simp add: g(1) h(1) map_columns_comp)
  moreover have "keeps_tensors (\<lambda>k v. h k (g k v))" unfolding keeps_tensors_def
    using keeps_tensorsD [OF g(2)] keeps_tensorsD [OF h(2)] by metis
  moreover have "same_layout a c" using assms by (simp add: same_schema_def same_layout_def)
  ultimately show ?thesis by (rule same_schemaI)
qed

lemma same_schema_get:
  assumes "same_schema b b'" "dict_get (columns b) k = Some (Some (Tensor sh rs))"
  shows "\<exists>rs'. dict_get (columns b') k = Some (Some (Tensor sh rs'))"
proof -
  obtain g where g: "columns b' = map_columns g (columns b)" "keeps_tensors g" using assms(1) unfolding same_schema_def by blast
  obtain rs' where "g k (Tensor sh rs) = Tensor sh rs'" using keeps_tensorsD [OF g(2)] by blast
  then show ?thesis using assms(2) by (simp add: g(1) map_columns_get)
qed

lemma same_schema_absent:
  assumes "same_schema b b'" "dict_get (columns b) k = None \<or> dict_get (columns b) k = Some None"
  shows "dict_get (columns b') k = None \<or> dict_get (columns b') k = Some None"
proof -
  obtain g where "columns b' = map_columns g (columns b)" using assms(1) unfolding same_schema_def by blast
  then show ?thesis using assms(2) by (auto simp: map_columns_get)
qed

lemma same_schema_meta:
  "same_schema b b' \<Longrightarrow> k \<notin> {''uids'', ''is_last_step'', ''pad_size''} \<Longrightarrow> dict_get (known_meta b') k = dict_get (known_meta b) k"
  by (simp add: same_schema_def same_layout_def)

lemma same_schema_part: "same_schema b (part a c b)"
  by (rule same_schemaI [of _ "\<lambda>_. cut_column a c"]) (simp_all add: part_def keeps_tensors_def cut_column_def same_layout_meta)

text \<open>Cutting a batch into chunks and concatenating them gives the batch back, absent columns, variable-length
  columns and metadata included, whatever the chunk size is.\<close>

theorem chunk_cat_roundtrip:
  assumes "wf_batch b" "0 < size_of b" "0 < k"
  shows "\<exists>cs. chunk k b = Inr cs \<and> cat_batches cs = Inr b"
proof -
  let ?is = "range_step (size_of b) k"
  let ?cs = "map (\<lambda>i. part i (i + k) b) ?is"
  have wf: "batch_size b = Some (size_of b)" "wf_columns (size_of b) (columns b)" using wf_batchD [OF assms(1)] by auto
  obtain js where js: "?is = 0 # js" using range_step_Nil [OF assms(3,2)] by blast
  have first: "wf_batch (part 0 k b)" using slice_batch_wf(2) [OF assms(1) assms(3,2)] .
  have joined: "cat_column (cut_column 0 k v) (map (\<lambda>i. cut_column i (i + k) v) ?is) = Inr v" if "(l, Some v) \<in> set (columns b)" for l v
  proof -
    have n: "wf_column v" "length (col_rows v) = size_of b" using wf_columnsD [OF wf(2) that] by auto
    have r: "concat (map col_rows (map (\<lambda>i. cut_column i (i + k) v) ?is)) = col_rows v"
      unfolding map_map comp_def rows_cut by (rule concat_range_step [OF assms(3) n(2)])
    show ?thesis
    proof (cases v)
      case (Tensor sh rs)
      have "list_all (\<lambda>w. case w of Tensor sh' _ \<Rightarrow> sh' = sh | _ \<Rightarrow> False) (map (\<lambda>i. cut_column i (i + k) v) ?is)"
        by (auto simp: Tensor cut_column_def list_all_iff)
      then show ?thesis using r by (simp add: cat_column_def Tensor cut_column_def)
    next
      case (TensorList rs)
      have "list_all (\<lambda>w. case w of TensorList _ \<Rightarrow> True | _ \<Rightarrow> False) (map (\<lambda>i. cut_column i (i + k) v) ?is)"
        by (auto simp: TensorList cut_column_def list_all_iff)
      then show ?thesis using r n(1) by (simp add: cat_column_def TensorList cut_column_def new_TensorList_def)
    qed
  qed
  have shards: "for_each (shard_column l) ?cs = Inr (map (\<lambda>i. cut_column i (i + k) v) ?is)" if "(l, Some v) \<in> set (columns b)" for l v
  proof -
    have "dict_get (columns b) l = Some (Some v)" using that wf(2) by (simp add: wf_columns_def dict_get_in)
    then have "shard_column l (part i (i + k) b) = Inr (cut_column i (i + k) v)" for i
      by (simp add: shard_column_def get_column_def part_def map_columns_get)
    then have "for_each (\<lambda>i. shard_column l (part i (i + k) b)) ?is = Inr (map (\<lambda>i. cut_column i (i + k) v) ?is)"
      by (intro traverse_total) simp
    moreover have "for_each (shard_column l) (map h is) = for_each (\<lambda>i. shard_column l (h i)) is" for h :: "nat \<Rightarrow> batch" and "is"
      by (induction "is") (auto split: sum.splits)
    ultimately show ?thesis by simp
  qed
  define f where "f = (\<lambda>l v. case for_each (shard_column l) ?cs of Inl e \<Rightarrow> Inl e | Inr vs \<Rightarrow> cat_column v vs)"
  have col: "f l (cut_column 0 k v) = Inr v" if "(l, Some v) \<in> set (columns b)" for l v
    using joined [OF that] shards [OF that] by (simp add: f_def)
  have "on_columns f (map_columns (\<lambda>_. cut_column 0 k) cs) = Inr cs" if "set cs \<subseteq> set (columns b)" for cs
    using that
  proof (induction cs)
    case (Cons c cs)
    then show ?case using col by (cases c; cases "snd c") (auto simp: on_columns_def map_columns_def)
  qed (simp add: on_columns_def map_columns_def)
  then have "rebuild f (part 0 k b) = new_batch (columns b) (meta b)" by (simp add: rebuild_def part_def)
  also have "\<dots> = Inr b" using new_batch_wf [OF wf(2)] wf(1) by simp
  finally have "cat_batches ?cs = Inr b" by (simp add: cat_batches_def js f_def)
  then show ?thesis using chunk_wf [OF assms(1,3)] by blast
qed

definition ex_ragged :: batch where
  "ex_ragged = \<lparr>columns = [(''tokens'', Some (Tensor [2] [[1, 2], [3, 4], [5, 6]])), (''values'', None),
      (''sub_seq_lengths'', Some (TensorList [[2], [1, 1], []]))], batch_size = Some 3, meta = None\<rparr>"

theorem chunk_cat_roundtrip_witness: "\<exists>cs. chunk 2 ex_ragged = Inr cs \<and> cat_batches cs = Inr ex_ragged"
proof -
  have "wf_batch ex_ragged" "0 < size_of ex_ragged"
    by (auto simp: ex_ragged_def wf_batch_def wf_columns_def dict_wf_def size_of_def)
  then show ?thesis by (rule chunk_cat_roundtrip) simp
qed

end
