(* ===== verification/Mesh_Dispatch.thy ===== *)
theory Mesh_Dispatch
  imports Batch_Properties
begin

text \<open>
  Data-parallel dispatch (\<^verbatim>\<open>backends/skyrl_train/distributed/dispatch.py\<close>): a batch is cut into one chunk per
  data-parallel rank, every actor gets the chunk of its rank, and the outputs of the collection ranks are
  concatenated in rank order.  Object references are the chunks themselves.
\<close>

record mesh_rank =
  dp :: nat
  sp :: nat
  tp :: nat
  pp :: nat
  dp_size :: nat
  pp_size :: nat

definition is_collection_dp_rank :: "mesh_rank \<Rightarrow> bool" where
  "is_collection_dp_rank r = (tp r = 0 \<and> pp r + 1 = pp_size r \<and> sp r = 0)"

definition send_chunks :: "mesh_rank list \<Rightarrow> 'c list \<Rightarrow> (string, 'c list) result" where
  "send_chunks actors refs =
     for_each (\<lambda>r. if dp r < length refs then Inr (refs ! dp r) else Inl ''list index out of range'') actors"

definition mesh_dispatch :: "mesh_rank list \<Rightarrow> batch \<Rightarrow> (string, batch list) result" where
  "mesh_dispatch actors data =
     (case actors of
        [] \<Rightarrow> Inl ''actor_infos must be a non-empty list''
      | r # _ \<Rightarrow>
          (case batch_size data of
             None \<Rightarrow> Inl ''NoneType object cannot be interpreted as an integer''
           | Some n \<Rightarrow>
               (if dp_size r = 0 then Inl ''integer modulo by zero''
                else if n mod dp_size r \<noteq> 0 then Inl ''data batch size must be divisible by dp_size''
                else case chunk (n div dp_size r) data of Inl e \<Rightarrow> Inl e | Inr cs \<Rightarrow> send_chunks actors cs)))"

text \<open>Each mini-batch by itself is padded to a multiple of the number of ranks.\<close>

definition stage_mini_batch :: "nat \<Rightarrow> batch \<Rightarrow> nat \<times> nat \<Rightarrow> (string, batch list) result" where
  "stage_mini_batch D data bounds =
     (case bounds of (a, c) \<Rightarrow>
        case slice_batch a c data of
          Inl e \<Rightarrow> Inl e
        | Inr mb \<Rightarrow>
            (if D = 0 then Inl ''integer modulo by zero''
             else
               let pad = nat ((int a - int c) mod int D)
               in case (if pad > 0 then pad_training_input_batch pad mb else Inr mb) of
                    Inl e \<Rightarrow> Inl e
                  | Inr mb \<Rightarrow>
                      (case batch_size mb of
                         None \<Rightarrow> Inl ''NoneType object cannot be interpreted as an integer''
                       | Some n \<Rightarrow> if n mod D \<noteq> 0 then Inl ''mini_batch_size % dp_size != 0'' else chunk (n div D) mb)))"

definition stage_chunks :: "nat \<Rightarrow> batch \<Rightarrow> (nat \<times> nat) list \<Rightarrow> (string, batch list list) result" where
  "stage_chunks D data = for_each (stage_mini_batch D data)"

definition dispatch_from_staged :: "mesh_rank list \<Rightarrow> 'c list \<Rightarrow> (string, 'c list) result" where
  "dispatch_from_staged actors refs =
     (if actors = [] then Inl ''actor_infos must be a non-empty list'' else send_chunks actors refs)"

section \<open>Collecting\<close>

definition dp_rank_to_shard :: "mesh_rank list \<Rightarrow> 'a list \<Rightarrow> (nat, 'a) dict" where
  "dp_rank_to_shard actors shards =
     fold (\<lambda>(r, x) d. if is_collection_dp_rank r then dict_put (dp r) x d else d) (zip actors shards) []"

definition in_rank_order :: "mesh_rank list \<Rightarrow> 'a list \<Rightarrow> (string, 'a list) result" where
  "in_rank_order actors shards =
     (case actors of
        [] \<Rightarrow> Inl ''list index out of range''
      | r # _ \<Rightarrow> for_each (\<lambda>i. case dict_get (dp_rank_to_shard actors shards) i of
            None \<Rightarrow> Inl ''KeyError'' | Some x \<Rightarrow> Inr x) [0..<dp_size r])"

definition concatenate_outputs_after_mesh_dispatch :: "mesh_rank list \<Rightarrow> batch list \<Rightarrow> (string, batch) result" where
  "concatenate_outputs_after_mesh_dispatch actors shards =
     (if length actors \<noteq> length shards then Inl ''actor_infos and data_batches must have the same length''
      else case in_rank_order actors shards of Inl e \<Rightarrow> Inl e | Inr xs \<Rightarrow> cat_batches xs)"

record 'a worker_output =
  loss_fn_output_type :: string
  loss_fn_outputs :: "'a list"
  metrics :: "(string, real) dict"

definition WorkerOutput_cat :: "mesh_rank list \<Rightarrow> 'a worker_output list \<Rightarrow> (string, 'a worker_output) result" where
  "WorkerOutput_cat actors shards =
     (if length actors \<noteq> length shards then Inl ''actor_infos and shards must have the same length''
      else if dp_rank_to_shard actors shards = []
      then Inr \<lparr>loss_fn_output_type = ''scalar'', loss_fn_outputs = [], metrics = []\<rparr>
      else case in_rank_order actors shards of
             Inl e \<Rightarrow> Inl e
           | Inr xs \<Rightarrow>
               (case xs of
                  [] \<Rightarrow> Inl ''list index out of range''
                | x # _ \<Rightarrow>
                    Inr \<lparr>loss_fn_output_type = loss_fn_output_type x, loss_fn_outputs = concat (map loss_fn_outputs xs),
                         metrics = metrics x\<rparr>))"

section \<open>Chunks and ranks\<close>

definition valid_mesh :: "mesh_rank list \<Rightarrow> nat \<Rightarrow> bool" where
  "valid_mesh actors D =
     (actors \<noteq> [] \<and> 0 < D \<and> (\<forall>r\<in>set actors. dp r < D \<and> dp_size r = D) \<and>
      (\<forall>d<D. \<exists>r\<in>set actors. dp r = d \<and> is_collection_dp_rank r))"

lemma range_step_mult: "0 < k \<Longrightarrow> length (range_step (D * k) k) = D"
proof -
  assume k: "0 < k"
  have "(D * k + k - 1) div k = D + (k - 1) div k" using k div_mult_self1 [of k "k - 1" D] by (simp add: add.commute)
  then show ?thesis using k by (simp add: range_step_def)
qed

lemma even_chunks:
  assumes "wf_batch b" "0 < size_of b" "0 < D" "D dvd size_of b"
  obtains cs where "chunk (size_of b div D) b = Inr cs" "length cs = D" "\<forall>c\<in>set cs. wf_batch c \<and> size_of c = size_of b div D"
    "concat (map rows_of cs) = rows_of b"
proof -
  obtain k where k: "size_of b = D * k" using assms(4) by blast
  then have pos: "0 < k" "size_of b div D = k" using assms(2,3) by auto
  let ?cs = "map (\<lambda>i. part i (i + k) b) (range_step (size_of b) k)"
  have cs: "chunk k b = Inr ?cs" using chunk_wf [OF assms(1) pos(1)] .
  have "size_of (part i (i + k) b) = k \<and> wf_batch (part i (i + k) b)" if mem: "i \<in> set (range_step (size_of b) k)" for i
  proof -
    have "i < size_of b" using range_step_below [OF pos(1) mem] .
    moreover obtain q where q: "i = q * k" using mem by (auto simp: range_step_def)
    ultimately have "q < D" using k pos(1) by simp
    then have "Suc q * k \<le> D * k" by (intro mult_le_mono1) simp
    then have "i + k \<le> size_of b" using q k by simp
    then show ?thesis using slice_batch_wf(2) [OF assms(1), of i "i + k"] \<open>i < size_of b\<close> pos(1) by simp
  qed
  then have "\<forall>c\<in>set ?cs. wf_batch c \<and> size_of c = size_of b div D" unfolding pos(2) set_map by blast
  moreover have "length ?cs = D" using range_step_mult [OF pos(1), of D] k by simp
  ultimately show ?thesis using that [of ?cs] cs rows_of_chunks [OF assms(1) pos(1) cs] unfolding pos(2) by blast
qed

lemma send_chunks_valid:
  assumes "\<forall>r\<in>set actors. dp r < length cs"
  shows "send_chunks actors cs = Inr (map (\<lambda>r. cs ! dp r) actors)"
  unfolding send_chunks_def using assms by (intro traverse_total) simp

lemma shard_of_rank:
  "dict_get (dp_rank_to_shard actors (map (\<lambda>r. h (dp r)) actors)) d
    = (if \<exists>r\<in>set actors. dp r = d \<and> is_collection_dp_rank r then Some (h d) else None)"
proof -
  let ?step = "\<lambda>(r, x) acc. if is_collection_dp_rank r then dict_put (dp r) x acc else acc"
  have "dict_get (fold ?step (zip xs (map (\<lambda>r. h (dp r)) xs)) acc) d
      = (if \<exists>r\<in>set xs. dp r = d \<and> is_collection_dp_rank r then Some (h d) else dict_get acc d)" for xs acc
    by (induction xs arbitrary: acc) (auto simp: dict_simps)
  then show ?thesis by (simp add: dp_rank_to_shard_def)
qed

lemma collected_in_order:
  assumes "valid_mesh actors D"
  shows "in_rank_order actors (map (\<lambda>r. h (dp r)) actors) = Inr (map h [0..<D])"
proof -
  obtain r rest where a: "actors = r # rest" using assms by (cases actors) (auto simp: valid_mesh_def)
  have "dp_size r = D" using assms by (simp add: a valid_mesh_def)
  moreover have "for_each (\<lambda>i. case dict_get (dp_rank_to_shard actors (map (\<lambda>r. h (dp r)) actors)) i of
      None \<Rightarrow> Inl ''KeyError'' | Some x \<Rightarrow> Inr x) [0..<D] = Inr (map h [0..<D])"
  proof (rule traverse_total)
    fix i assume "i \<in> set [0..<D]"
    then have "\<exists>r\<in>set actors. dp r = i \<and> is_collection_dp_rank r" using assms by (simp add: valid_mesh_def)
    then show "(case dict_get (dp_rank_to_shard actors (map (\<lambda>r. h (dp r)) actors)) i of
      None \<Rightarrow> Inl ''KeyError'' | Some x \<Rightarrow> Inr x) = Inr (h i)"
      by (simp only: shard_of_rank if_True option.case)
  qed
  ultimately show ?thesis by (simp add: in_rank_order_def a)
qed

lemma cat_in_order:
  assumes "valid_mesh actors D" "length cs = D"
  shows "WorkerOutput_cat actors (map (\<lambda>r. h (cs ! dp r)) actors)
    = Inr \<lparr>loss_fn_output_type = loss_fn_output_type (h (cs ! 0)), loss_fn_outputs = concat (map (loss_fn_outputs \<circ> h) cs),
           metrics = metrics (h (cs ! 0))\<rparr>"
proof -
  have D: "0 < D" using assms(1) by (simp add: valid_mesh_def)
  let ?xs = "map (\<lambda>r. h (cs ! dp r)) actors"
  have order: "in_rank_order actors ?xs = Inr (map (\<lambda>d. h (cs ! d)) [0..<D])"
    by (rule collected_in_order [OF assms(1), of "\<lambda>d. h (cs ! d)"])
  have "dict_get (dp_rank_to_shard actors ?xs) 0 = Some (h (cs ! 0))"
  proof -
    have "\<exists>r\<in>set actors. dp r = 0 \<and> is_collection_dp_rank r" using assms(1) D by (simp add: valid_mesh_def)
    then show ?thesis unfolding shard_of_rank [of actors "\<lambda>d. h (cs ! d)" 0] by (simp only: if_True)
  qed
  then have "dp_rank_to_shard actors ?xs \<noteq> []" by auto
  moreover have "map (\<lambda>d. h (cs ! d)) [0..<D] = map h cs" using assms(2) by (intro nth_equalityI) simp_all
  moreover obtain c rest where "cs = c # rest" using D assms(2) by (cases cs) auto
  ultimately show ?thesis using order by (simp add: WorkerOutput_cat_def comp_def)
qed

text \<open>C26: Dispatch over a mesh keeps the samples in order: when every worker answers sample by sample, the collected
  outputs are the answers to the samples of the whole batch in their order, whatever tensor, sequence and
  pipeline ranks share the chunks and in whatever order the actors are listed.\<close>

theorem mesh_dispatch_in_order:
  assumes "valid_mesh actors D" "wf_batch data" "0 < size_of data" "D dvd size_of data"
  shows "\<exists>cs out. mesh_dispatch actors data = Inr cs
    \<and> WorkerOutput_cat actors (map (\<lambda>c. \<lparr>loss_fn_output_type = ty, loss_fn_outputs = map f (rows_of c), metrics = m c\<rparr>) cs) = Inr out
    \<and> loss_fn_outputs out = map f (rows_of data)"
proof -
  have D: "0 < D" using assms(1) by (simp add: valid_mesh_def)
  obtain chunks where ch: "chunk (size_of data div D) data = Inr chunks" "length chunks = D"
    "concat (map rows_of chunks) = rows_of data"
    using even_chunks [OF assms(2,3) D assms(4)] by blast
  obtain r rest where a: "actors = r # rest" using assms(1) by (cases actors) (auto simp: valid_mesh_def)
  have ranks: "\<forall>r\<in>set actors. dp r < length chunks" "dp_size r = D" using assms(1) ch(2) by (auto simp: valid_mesh_def a)
  have "mesh_dispatch actors data = Inr (map (\<lambda>r. chunks ! dp r) actors)"
    using send_chunks_valid [OF ranks(1)] ch(1) wf_batchD [OF assms(2)] D assms(4) ranks(2)
    by (simp add: mesh_dispatch_def a)
  moreover let ?h = "\<lambda>c. \<lparr>loss_fn_output_type = ty, loss_fn_outputs = map f (rows_of c), metrics = m c\<rparr>"
  have "concat (map (loss_fn_outputs \<circ> ?h) chunks) = map f (rows_of data)"
    unfolding ch(3) [symmetric] map_concat by (simp add: comp_def)
  ultimately show ?thesis using cat_in_order [OF assms(1) ch(2), of ?h] by (auto simp: comp_def)
qed

definition ex_rank :: "nat \<Rightarrow> nat \<Rightarrow> mesh_rank" where
  "ex_rank d t = \<lparr>dp = d, sp = 0, tp = t, pp = 0, dp_size = 2, pp_size = 1\<rparr>"

definition ex_staged :: batch where
  "ex_staged = \<lparr>columns = [(''sequences'', Some (Tensor [2] [[1, 2], [3, 4]])), (''values'', None), (''loss_mask'', Some (Tensor [1] [[1], [1]]))],
     batch_size = Some 2, meta = Some [(''uids'', Strings [''a'', ''b''])]\<rparr>"

lemma ex_batch_wf: "wf_batch ex_staged" "size_of ex_staged = 2"
  by (simp_all add: ex_staged_def wf_batch_def wf_columns_def dict_wf_def size_of_def)

theorem mesh_dispatch_in_order_witness:
  "\<exists>cs out. mesh_dispatch [ex_rank 1 0, ex_rank 0 1, ex_rank 0 0, ex_rank 1 1] ex_staged = Inr cs
    \<and> WorkerOutput_cat [ex_rank 1 0, ex_rank 0 1, ex_rank 0 0, ex_rank 1 1]
        (map (\<lambda>c. \<lparr>loss_fn_output_type = ''scalar'', loss_fn_outputs = map id (rows_of c), metrics = []\<rparr>) cs) = Inr out
    \<and> loss_fn_outputs out = map id (rows_of ex_staged)"
proof -
  have "valid_mesh [ex_rank 1 0, ex_rank 0 1, ex_rank 0 0, ex_rank 1 1] 2"
    by (auto simp: valid_mesh_def ex_rank_def is_collection_dp_rank_def less_2_cases_iff)
  then show ?thesis by (rule mesh_dispatch_in_order) (simp_all add: ex_batch_wf)
qed

section \<open>Padding\<close>

definition padding :: "string \<Rightarrow> column \<Rightarrow> real list" where
  "padding k v = (case v of
      TensorList rs \<Rightarrow> rs ! 0
    | Tensor sh rs \<Rightarrow> if k = ''loss_mask'' then replicate (prod_list sh) 0 else rs ! 0)"

definition padded :: "nat \<Rightarrow> string \<Rightarrow> column \<Rightarrow> column" where
  "padded n k v = (case v of
      TensorList rs \<Rightarrow> TensorList (rs @ replicate n (padding k v))
    | Tensor sh rs \<Rightarrow> Tensor sh (rs @ replicate n (padding k v)))"

lemma rows_padded [simp]: "col_rows (padded n k v) = col_rows v @ replicate n (padding k v)"
  by (cases v) (simp_all add: padded_def)

lemma pad_column_padded:
  assumes "wf_column v" "col_rows v \<noteq> []"
  shows "pad_column n k v = Inr (padded n k v) \<and> wf_column (padded n k v)"
proof (cases v)
  case (Tensor sh rs)
  then have "rs ! 0 \<in> set rs" using assms(2) by simp
  then have "length (padding k v) = prod_list sh" using assms(1) by (simp add: Tensor padding_def)
  then have "wf_column (padded n k v)" using assms(1) by (auto simp: Tensor padded_def)
  then show ?thesis using assms(2) by (simp add: Tensor pad_column_def padded_def padding_def)
next
  case (TensorList rs)
  then show ?thesis using assms(2) by (simp add: pad_column_def padded_def padding_def)
qed

definition padding_row :: "batch \<Rightarrow> (string, real list option) dict" where
  "padding_row b = map (\<lambda>(k, v). (k, map_option (padding k) v)) (columns b)"

definition paddable :: "batch \<Rightarrow> bool" where
  "paddable b = (\<forall>n. is_ok (pad_metadata n (known_meta b)))"

lemma pad_metadata_get:
  assumes "pad_metadata n md = Inr md'" "k \<notin> {''uids'', ''is_last_step'', ''pad_size''}"
  shows "dict_get md' k = dict_get md k"
proof -
  let ?f = "\<lambda>(k, v). case pad_meta n k v of Inl e \<Rightarrow> Inl e | Inr w \<Rightarrow> Inr (k, w)"
  have "dict_get ys k = dict_get xs k" if "for_each ?f xs = Inr ys" for xs ys
    using that
  proof (induction xs arbitrary: ys)
    case (Cons x xs)
    obtain l v where x: "x = (l, v)" by force
    obtain w zs where w: "pad_meta n l v = Inr w" "for_each ?f xs = Inr zs" "ys = (l, w) # zs"
      using Cons.prems by (auto simp: x split: sum.splits)
    moreover have "l = k \<Longrightarrow> w = v" using w(1) assms(2) by (simp add: pad_meta_def)
    ultimately show ?case using Cons.IH [OF w(2)] by (auto simp: x)
  qed simp
  then show ?thesis using assms by (auto simp: pad_metadata_def dict_simps split: sum.splits)
qed

lemma pad_batch_wf:
  assumes "wf_batch b" "0 < size_of b" "paddable b" "0 < n"
  obtains b' where "pad_training_input_batch n b = Inr b'" "wf_batch b'" "size_of b' = size_of b + n"
    "rows_of b' = rows_of b @ replicate n (padding_row b)" "same_schema b b'"
proof -
  have wf: "wf_columns (size_of b) (columns b)" using wf_batchD [OF assms(1)] by simp
  have col: "pad_column n k v = Inr (padded n k v) \<and> wf_column (padded n k v) \<and> length (col_rows (padded n k v)) = size_of b + n"
    if "(k, Some v) \<in> set (columns b)" for k v
  proof -
    have "wf_column v" "length (col_rows v) = size_of b" using wf_columnsD [OF wf that] by auto
    moreover from this assms(2) have "col_rows v \<noteq> []" by auto
    ultimately show ?thesis using pad_column_padded [of v n k] by simp
  qed
  obtain md where md: "pad_metadata n (known_meta b) = Inr md" using assms(3) by (auto simp: paddable_def is_ok_iff)
  let ?cs = "map_columns (padded n) (columns b)"
  have wf': "wf_columns (size_of b + n) ?cs" using wf col by (intro wf_map_columns) auto
  have "on_columns (pad_column n) (columns b) = Inr ?cs" using col by (intro on_columns_total) auto
  then have pad: "pad_training_input_batch n b = Inr \<lparr>columns = ?cs, batch_size = Some (size_of b + n), meta = Some md\<rparr>"
    using assms(4) md new_batch_wf [OF wf'] by (simp add: pad_training_input_batch_def)
  let ?b = "\<lparr>columns = ?cs, batch_size = Some (size_of b + n), meta = Some md\<rparr>"
  have at: "nth_sample i ?b = (if i < size_of b then nth_sample i b else padding_row b)" if "i < size_of b + n" for i
  proof -
    have len: "length (col_rows v) = size_of b" if "(k, Some v) \<in> set (columns b)" for k v using wf_columnsD(2) [OF wf that] .
    have "map_option (\<lambda>w. col_rows w ! i) (map_option (padded n k) v)
        = (if i < size_of b then map_option (\<lambda>w. col_rows w ! i) v else map_option (padding k) v)"
      if "(k, v) \<in> set (columns b)" for k v
      using that len \<open>i < size_of b + n\<close> by (cases v) (auto simp: nth_append)
    then show ?thesis by (auto simp: nth_sample_def padding_row_def map_columns_def)
  qed
  have "size_of ?b = size_of b + n" by (simp add: size_of_def)
  moreover from this have "rows_of ?b = rows_of b @ replicate n (padding_row b)"
    by (intro nth_equalityI) (auto simp: rows_of_def nth_append at)
  moreover have "same_schema b ?b"
  proof (rule same_schemaI [of _ "padded n"])
    show "same_layout b ?b" using pad_metadata_get [OF md] by (simp add: same_layout_def known_meta_def)
  qed (simp_all add: keeps_tensors_def padded_def)
  ultimately show ?thesis using that [of ?b] pad wf' by (simp add: wf_batch_def)
qed

lemma padding_row_mask:
  assumes "wf_batch b" "dict_get (columns b) ''loss_mask'' = Some (Some (Tensor sh rs))"
  shows "dict_get (padding_row b) ''loss_mask'' = Some (Some (replicate (prod_list sh) 0))"
proof -
  have "dict_get (map (\<lambda>(k, v). (k, map_option (padding k) v)) cs) l = map_option (map_option (padding l)) (dict_get cs l)"
    for cs :: columns and l
    by (induction cs) auto
  then show ?thesis using assms(2) by (simp add: padding_row_def padding_def)
qed

lemma pad_amount:
  assumes "a < c" "0 < D"
  defines "p \<equiv> nat ((int a - int c) mod int D)"
  shows "p < D" "D dvd (c - a + p)"
proof -
  have b: "0 \<le> (int a - int c) mod int D" "(int a - int c) mod int D < int D" using assms(2) by auto
  then show "p < D" by (simp add: p_def)
  have "(int c - int a + (int a - int c) mod int D) mod int D = 0" by (simp add: mod_add_right_eq)
  moreover have "int (c - a + p) = int c - int a + (int a - int c) mod int D" using b(1) assms(1) by (simp add: p_def)
  ultimately have "int D dvd int (c - a + p)" by (simp only: mod_eq_0_iff_dvd)
  then show "D dvd (c - a + p)" by (simp only: int_dvd_int_iff)
qed

lemma stage_padded:
  assumes "wf_batch data" "a < c" "c \<le> size_of data" "0 < D" "paddable data"
  obtains b cs p where "stage_mini_batch D data (a, c) = Inr cs" "chunk (size_of b div D) b = Inr cs" "length cs = D"
    "\<forall>x\<in>set cs. wf_batch x \<and> size_of x = size_of b div D" "concat (map rows_of cs) = rows_of b"
    "wf_batch b" "size_of b = c - a + p" "rows_of b = subseq a c (rows_of data) @ replicate p (padding_row (part a c data))"
    "same_schema data b" "p < D" "D dvd size_of b"
proof -
  define p where "p = nat ((int a - int c) mod int D)"
  note p = pad_amount [OF assms(2,4), folded p_def]
  let ?mb = "part a c data"
  have s: "slice_batch a c data = Inr ?mb" "wf_batch ?mb" using slice_batch_wf [OF assms(1,2)] assms(2,3) by auto
  have size: "size_of ?mb = c - a" using assms(2,3) by simp
  have meta: "paddable ?mb" using assms(5) by (simp add: paddable_def part_def known_meta_def)
  obtain b where b: "(if p > 0 then pad_training_input_batch p ?mb else Inr ?mb) = Inr b" "wf_batch b" "size_of b = c - a + p"
    "rows_of b = rows_of ?mb @ replicate p (padding_row ?mb)" "same_schema ?mb b"
  proof (cases "p = 0")
    case True
    then show ?thesis using that [of ?mb] s(2) size same_schema_refl by simp
  next
    case False
    moreover have "0 < size_of ?mb" unfolding size using assms(2) by simp
    ultimately obtain b where "pad_training_input_batch p ?mb = Inr b" "wf_batch b" "size_of b = size_of ?mb + p"
      "rows_of b = rows_of ?mb @ replicate p (padding_row ?mb)" "same_schema ?mb b"
      using pad_batch_wf [OF s(2) _ meta, of p] by blast
    then show ?thesis using False that [of b] unfolding size by simp
  qed
  have pos: "0 < size_of b" "D dvd size_of b" using b(3) p(2) assms(2) by simp_all
  obtain cs where cs: "chunk (size_of b div D) b = Inr cs" "length cs = D" "\<forall>x\<in>set cs. wf_batch x \<and> size_of x = size_of b div D"
    "concat (map rows_of cs) = rows_of b"
    using even_chunks [OF b(2) pos(1) assms(4) pos(2)] by blast
  have "stage_mini_batch D data (a, c) = Inr cs"
    using s(1) assms(4) b(1) wf_batchD [OF b(2)] pos(2) cs(1)
    by (simp add: stage_mini_batch_def Let_def p_def [symmetric])
  moreover have "same_schema data b" using same_schema_part b(5) by (rule same_schema_trans)
  ultimately show ?thesis using that [of cs b p] cs b(2-4) rows_of_part [OF assms(1)] p(1) pos(2) by simp
qed

text \<open>Staging a mini-batch always succeeds and gives every data-parallel rank equally many samples: the samples
  of the mini-batch in order, then fewer padding samples than there are ranks, whose loss mask is zero.\<close>

theorem staged_mini_batch:
  assumes "wf_batch data" "a < c" "c \<le> size_of data" "0 < D" "paddable data"
    and "dict_get (columns data) ''loss_mask'' = Some (Some (Tensor sh rs))"
  shows "\<exists>cs pads. stage_mini_batch D data (a, c) = Inr cs \<and> length cs = D \<and> (\<forall>x\<in>set cs. size_of x = (c - a + length pads) div D)
    \<and> concat (map rows_of cs) = subseq a c (rows_of data) @ pads \<and> length pads < D
    \<and> (\<forall>r\<in>set pads. dict_get r ''loss_mask'' = Some (Some (replicate (prod_list sh) 0)))"
proof -
  obtain b cs p where st: "stage_mini_batch D data (a, c) = Inr cs" "length cs = D"
    "\<forall>x\<in>set cs. wf_batch x \<and> size_of x = size_of b div D" "concat (map rows_of cs) = rows_of b" "size_of b = c - a + p"
    "rows_of b = subseq a c (rows_of data) @ replicate p (padding_row (part a c data))" "p < D"
    by (rule stage_padded [OF assms(1-5)])
  have "wf_batch (part a c data)" using slice_batch_wf(2) [OF assms(1,2)] assms(2,3) by simp
  moreover have "dict_get (columns (part a c data)) ''loss_mask'' = Some (Some (Tensor sh (subseq a c rs)))"
    using assms(6) by (simp add: part_def map_columns_get cut_column_def)
  ultimately have "dict_get (padding_row (part a c data)) ''loss_mask'' = Some (Some (replicate (prod_list sh) 0))"
    by (rule padding_row_mask)
  then show ?thesis using st by (intro exI [of _ cs] exI [of _ "replicate p (padding_row (part a c data))"]) simp
qed

theorem staged_mini_batch_witness:
  "\<exists>cs pads. stage_mini_batch 2 ex_staged (0, 1) = Inr cs \<and> length cs = 2
    \<and> concat (map rows_of cs) = subseq 0 1 (rows_of ex_staged) @ pads"
proof -
  have "paddable ex_staged"
    by (simp add: paddable_def ex_staged_def known_meta_def pad_metadata_def pad_meta_def)
  moreover have "dict_get (columns ex_staged) ''loss_mask'' = Some (Some (Tensor [1] [[1], [1]]))" by (simp add: ex_staged_def)
  ultimately show ?thesis using staged_mini_batch [OF ex_batch_wf(1), of 0 1 2 "[1]" "[[1], [1]]"] ex_batch_wf(2) by auto
qed

end
