(* ===== verification/Microbatches.thy ===== *)
theory Microbatches
  imports Mesh_Dispatch Bin_Packing
begin

text \<open>
  Micro-batch iterators and metric reductions of \<^verbatim>\<open>workers/worker_utils.py\<close>: fixed-size chunks, or samples
  packed by token count with padding micro-batches so that every data-parallel rank runs equally many.
\<close>

record token_iterator =
  it_data :: batch
  it_token_counts :: "int list"
  it_microbatches :: "nat list list"
  it_num_padding :: nat

definition tensor_of :: "string \<Rightarrow> batch \<Rightarrow> (string, nat list \<times> tensor) result" where
  "tensor_of k b =
     (case get_column k b of
        Inl e \<Rightarrow> Inl e
      | Inr (Some (Tensor sh rs)) \<Rightarrow> Inr (sh, rs)
      | Inr _ \<Rightarrow> Inl ''AttributeError'')"

definition token_counts :: "tensor \<Rightarrow> int list" where
  "token_counts attention_mask = map (\<lambda>r. \<lfloor>sum_list r\<rfloor>) attention_mask"

text \<open>\<open>others\<close> is the largest number of micro-batches on another rank, zero without a process group.\<close>

definition new_token_iterator :: "nat \<Rightarrow> int \<Rightarrow> batch \<Rightarrow> (string, token_iterator) result" where
  "new_token_iterator others max_tokens data =
     (case tensor_of ''attention_mask'' data of
        Inl e \<Rightarrow> Inl e
      | Inr (_, am) \<Rightarrow>
          (case make_seq_packer ''balanced'' max_tokens None None of
             Inl _ \<Rightarrow> Inl ''ValueError''
           | Inr (alg, p) \<Rightarrow>
               (case pack alg p (token_counts am) of
                  Inl _ \<Rightarrow> Inl ''ValueError''
                | Inr bs \<Rightarrow>
                    Inr \<lparr>it_data = data, it_token_counts = token_counts am, it_microbatches = bs,
                         it_num_padding = max (length bs) others - length bs\<rparr>)))"

definition create_microbatch_from_indices :: "batch \<Rightarrow> nat list \<Rightarrow> (string, batch) result" where
  "create_microbatch_from_indices data is = rebuild (\<lambda>_. index_column is) data"

definition constant_row :: "real \<Rightarrow> nat \<Rightarrow> column option" where
  "constant_row x n = Some (Tensor [n] [replicate n x])"

text \<open>\<open>noise\<close> are the random token ids.\<close>

definition create_padding_microbatch :: "(nat \<Rightarrow> real list) \<Rightarrow> batch \<Rightarrow> (string, batch) result" where
  "create_padding_microbatch noise data =
     (case tensor_of ''sequences'' data of
        Inl e \<Rightarrow> Inl e
      | Inr (sh, _) \<Rightarrow>
          (case meta data of
             None \<Rightarrow> Inl ''NoneType object is not subscriptable''
           | Some md \<Rightarrow>
               (case dict_get md ''response_length'' of
                  Some (Number k) \<Rightarrow>
                    (let n = nat k; seq_len = hd sh;
                         rollout = (case dict_get (columns data) ''rollout_logprobs'' of
                                    Some (Some (Tensor _ _)) \<Rightarrow> [(''rollout_logprobs'', constant_row 0 n)] | _ \<Rightarrow> []);
                         experts = (case dict_get (columns data) ''rollout_expert_indices'' of
                                    Some (Some (Tensor sh' _)) \<Rightarrow>
                                      [(''rollout_expert_indices'', Some (Tensor sh' [replicate (prod_list sh') 0]))] | _ \<Rightarrow> [])
                     in if sh = [] then Inl ''tuple index out of range''
                        else if seq_len = 0 then Inl ''index 0 is out of bounds for dimension 1 with size 0''
                        else new_batch
                          ([(''sequences'', Some (Tensor [seq_len] [noise seq_len])),
                            (''attention_mask'', Some (Tensor [seq_len] [1 # replicate (seq_len - 1) 0])),
                            (''action_log_probs'', constant_row (4 / 10) n), (''base_action_log_probs'', constant_row (3 / 10) n),
                            (''values'', constant_row (5 / 10) n), (''returns'', constant_row (5 / 10) n),
                            (''advantages'', constant_row (6 / 10) n), (''loss_mask'', constant_row 0 n),
                            (''response_mask'', constant_row 1 n)] @ rollout @ experts)
                          (Some (dict_put ''is_padding_batch'' (Switch True) md)))
                | Some _ \<Rightarrow> Inl ''TypeError''
                | None \<Rightarrow> Inl ''KeyError'')))"

definition iter_token_batches :: "(nat \<Rightarrow> real list) \<Rightarrow> token_iterator \<Rightarrow> (string, batch list) result" where
  "iter_token_batches noise it =
     (case for_each (create_microbatch_from_indices (it_data it)) (it_microbatches it) of
        Inl e \<Rightarrow> Inl e
      | Inr bs \<Rightarrow>
          (case for_each (\<lambda>_. create_padding_microbatch noise (it_data it)) [0..<it_num_padding it] of
             Inl e \<Rightarrow> Inl e | Inr ps \<Rightarrow> Inr (bs @ ps)))"

definition len_token_batches :: "token_iterator \<Rightarrow> nat" where
  "len_token_batches it = length (it_microbatches it) + it_num_padding it"

definition original_idx_to_microbatch_idx :: "nat list list \<Rightarrow> (nat, nat \<times> nat) dict" where
  "original_idx_to_microbatch_idx mbs =
     fold (\<lambda>(is, m) d. fold (\<lambda>(i, s) d. dict_put i (m, s) d) (indexed is) d) (indexed mbs) []"

definition source_row :: "batch list \<Rightarrow> string \<Rightarrow> nat \<times> nat \<Rightarrow> (string, real list) result" where
  "source_row bs k ms =
     (if fst ms < length bs then
        (case tensor_of k (bs ! fst ms) of
           Inl e \<Rightarrow> Inl e
         | Inr (_, rs) \<Rightarrow> if snd ms < length rs then Inr (rs ! snd ms) else Inl ''index out of range'')
      else Inl ''list index out of range'')"

definition reorder_and_combine_batches :: "token_iterator \<Rightarrow> batch list \<Rightarrow> (string, batch) result" where
  "reorder_and_combine_batches it batches =
     (let bs = take (length batches - it_num_padding it) batches;
          d = original_idx_to_microbatch_idx (it_microbatches it)
      in case bs of
           [] \<Rightarrow> Inl ''Cannot reorder an empty list of microbatches.''
         | ref # _ \<Rightarrow>
             rebuild (\<lambda>k v. case v of
                 TensorList _ \<Rightarrow> Inl ''TensorList object has no attribute shape''
               | Tensor sh _ \<Rightarrow>
                   (case for_each (\<lambda>i. case dict_get d i of None \<Rightarrow> Inl ''KeyError'' | Some ms \<Rightarrow> source_row bs k ms)
                           [0..<length (it_token_counts it)] of
                      Inl e \<Rightarrow> Inl e | Inr rs \<Rightarrow> Inr (Tensor sh rs))) ref)"

section \<open>The iterators\<close>

datatype microbatch_iterator = Sample_based batch nat | Token_based token_iterator

definition get_microbatch_iterator :: "nat \<Rightarrow> batch \<Rightarrow> nat \<Rightarrow> int \<Rightarrow> (string, microbatch_iterator) result" where
  "get_microbatch_iterator others data micro_batch_size max_tokens =
     (if max_tokens > 0 then
        (case new_token_iterator others max_tokens data of Inl e \<Rightarrow> Inl e | Inr it \<Rightarrow> Inr (Token_based it))
      else if micro_batch_size = 0 then Inl ''division by zero''
      else Inr (Sample_based data micro_batch_size))"

definition iterate :: "(nat \<Rightarrow> real list) \<Rightarrow> microbatch_iterator \<Rightarrow> (string, batch list) result" where
  "iterate noise it = (case it of Sample_based b k \<Rightarrow> chunk k b | Token_based it \<Rightarrow> iter_token_batches noise it)"

definition len_iterator :: "microbatch_iterator \<Rightarrow> nat" where
  "len_iterator it = (case it of
      Sample_based b k \<Rightarrow> (case batch_size b of Some n \<Rightarrow> (n + k - 1) div k | None \<Rightarrow> 0)
    | Token_based it \<Rightarrow> len_token_batches it)"

definition combine :: "microbatch_iterator \<Rightarrow> batch list \<Rightarrow> (string, batch) result" where
  "combine it bs = (case it of Sample_based _ _ \<Rightarrow> cat_batches bs | Token_based it \<Rightarrow> reorder_and_combine_batches it bs)"

section \<open>Metrics\<close>

definition ends_with :: "string \<Rightarrow> string \<Rightarrow> bool" where
  "ends_with s k = (drop (length k - length s) k = s)"

definition values_max :: "real list \<Rightarrow> real" where
  "values_max xs = fold max (tl xs) (hd xs)"

definition values_min :: "real list \<Rightarrow> real" where
  "values_min xs = fold min (tl xs) (hd xs)"

definition reduce_metrics :: "bool \<Rightarrow> (string, real list) dict \<Rightarrow> (string, (string, real) dict) result" where
  "reduce_metrics sum_loss ms =
     for_each (\<lambda>(k, v).
       if v = [] then Inl ''No metrics for key''
       else Inr (k, if ends_with ''_max'' k then values_max v
                    else if ends_with ''_min'' k then values_min v
                    else if sum_loss \<and> ends_with ''_loss'' k then sum_list v
                    else sum_list v / real (length v))) ms"

text \<open>The reduction across ranks of one metric; \<open>vs\<close> are its values on the ranks.\<close>

definition all_reduce_metric :: "bool \<Rightarrow> string \<Rightarrow> real list \<Rightarrow> real" where
  "all_reduce_metric sum_loss k vs =
     (if sum_loss \<and> ends_with ''_loss'' k then sum_list vs
      else if ends_with ''_max'' k then values_max vs
      else if ends_with ''_min'' k then values_min vs
      else sum_list (map (\<lambda>v. v / real (length vs)) vs))"

end
