(* ===== verification/Train_Step.thy ===== *)
theory Train_Step
  imports Microbatches Policy_Losses
begin

text \<open>
  A training step of the policy workers (\<^verbatim>\<open>workers/worker.py\<close>): every rank splits its chunk into micro-batches and
  accumulates their losses, gradients are averaged over the data-parallel ranks.  Gradients are linear in the
  loss, so the step is described by the scalar whose gradient the optimiser sees, its objective.  The network
  is a pair of functions of the row of a sample.
\<close>

type_synonym sample_row = "(string, real list option) dict"

record policy_model =
  pm_log_probs :: "sample_row \<Rightarrow> real list"
  pm_entropy :: "sample_row \<Rightarrow> real list"

record policy_config =
  pc_loss_type :: policy_loss_type
  pc_loss :: loss_config
  pc_use_kl_loss :: bool
  pc_kl_estimator :: kl_estimator
  pc_kl_loss_coef :: real
  pc_use_entropy_loss :: bool
  pc_entropy_loss_coef :: real
  pc_micro_batch_size :: nat
  pc_max_tokens :: int

text \<open>\<open>batch.get(key)\<close> for the tensors of an experience.\<close>

definition get_rows :: "string \<Rightarrow> batch \<Rightarrow> tensor option" where
  "get_rows k b = (case dict_get (columns b) k of Some (Some (Tensor _ rs)) \<Rightarrow> Some rs | _ \<Rightarrow> None)"

definition row_cell :: "string \<Rightarrow> sample_row \<Rightarrow> real list" where
  "row_cell k r = (case dict_get r k of Some (Some xs) \<Rightarrow> xs | _ \<Rightarrow> [])"

text \<open>Which losses read the log-probabilities of the old policy and the advantages.\<close>

definition reads_old :: "policy_loss_type \<Rightarrow> loss_config \<Rightarrow> bool \<Rightarrow> bool" where
  "reads_old ty c has_rollout =
     (case ty of
        Cross_entropy \<Rightarrow> False
      | Rollout_is \<Rightarrow> off_policy_correction_enabled (lc_off_policy c)
      | Dppo \<Rightarrow> \<not> has_rollout \<or> off_policy_correction_enabled (lc_off_policy c)
      | _ \<Rightarrow> True)"

definition experience_loss ::
  "policy_model \<Rightarrow> policy_config \<Rightarrow> random_choices \<Rightarrow> batch \<Rightarrow> (string, real) result" where
  "experience_loss m cfg rn b =
     (let lp = map (pm_log_probs m) (rows_of b); ro = get_rows ''rollout_logprobs'' b;
          old = get_rows ''action_log_probs'' b; adv = get_rows ''advantages'' b
      in if old = None \<and> reads_old (pc_loss_type cfg) (pc_loss cfg) (ro \<noteq> None) \<or> adv = None \<and> pc_loss_type cfg \<noteq> Cross_entropy
         then Inl ''unsupported operand type: NoneType''
         else policy_loss (pc_loss_type cfg) (pc_loss cfg) rn lp (case old of Some t \<Rightarrow> t | None \<Rightarrow> [])
                (case adv of Some t \<Rightarrow> t | None \<Rightarrow> []) (get_rows ''loss_mask'' b) ro)"

text \<open>The last \<open>n\<close> values, none for \<open>n = 0\<close>.\<close>

definition last_values :: "nat \<Rightarrow> 'a list \<Rightarrow> 'a list" where
  "last_values n xs = (if n > 0 then drop (length xs - n) xs else [])"

definition valid_lens :: "batch \<Rightarrow> tensor \<Rightarrow> nat list" where
  "valid_lens b lp =
     (case get_rows ''response_mask'' b of
        Some am \<Rightarrow> map (\<lambda>r. nat \<lfloor>sum_list r\<rfloor>) am
      | None \<Rightarrow>
          (case get_rows ''loss_mask'' b of
             Some lm \<Rightarrow> map (\<lambda>r. nat \<lfloor>sum_list r\<rfloor>) lm
           | None \<Rightarrow> map length lp))"

type_synonym sample_output = "(string, real list) dict"

definition rl_outputs :: "batch \<Rightarrow> tensor \<Rightarrow> sample_output list" where
  "rl_outputs b lp = map2 (\<lambda>n xs. [(''logprobs'', last_values n xs)]) (valid_lens b lp) lp"

definition sft_outputs :: "batch \<Rightarrow> tensor \<Rightarrow> sample_output list" where
  "sft_outputs b lp =
     (let nll = tmap (\<lambda>x. - x) lp; el = (case get_rows ''loss_mask'' b of Some m \<Rightarrow> ew (*) nll m | None \<Rightarrow> nll)
      in map2 (\<lambda>n (xs, es). [(''logprobs'', last_values n xs), (''elementwise_loss'', last_values n es)])
           (valid_lens b lp) (zip lp el))"

record micro_output =
  mo_loss :: real
  mo_outputs :: "sample_output list"
  mo_metrics :: "(string, real) dict"

definition kl_loss_of :: "policy_config \<Rightarrow> batch \<Rightarrow> tensor \<Rightarrow> (string, real) result" where
  "kl_loss_of cfg b lp =
     (if pc_use_kl_loss cfg then
        (case get_rows ''base_action_log_probs'' b of
           None \<Rightarrow> Inl ''unsupported operand type: NoneType''
         | Some base \<Rightarrow>
             Inr (list_mean (masked_mean_rows (compute_approx_kl lp base (get_rows ''loss_mask'' b) (pc_kl_estimator cfg))
                     (get_rows ''loss_mask'' b))))
      else Inr 0)"

text \<open>\<open>batch_to_experience\<close> needs the sequences and the response length.\<close>

definition has_experience :: "batch \<Rightarrow> bool" where
  "has_experience b =
     (dict_get (columns b) ''sequences'' \<noteq> None \<and>
      (case meta b of None \<Rightarrow> False | Some md \<Rightarrow> dict_get md ''response_length'' \<noteq> None))"

text \<open>The loss backward is called on, with its micro-batch weight; \<open>D\<close> is the number of data-parallel ranks.\<close>

definition forward_backward_micro ::
  "policy_model \<Rightarrow> policy_config \<Rightarrow> random_choices \<Rightarrow> nat \<Rightarrow> batch \<Rightarrow> real \<Rightarrow> (string, micro_output) result" where
  "forward_backward_micro m cfg rn D b weight =
     (let lp = map (pm_log_probs m) (rows_of b)
      in if \<not> has_experience b then Inl ''KeyError''
         else case experience_loss m cfg rn b of
           Inl e \<Rightarrow> Inl e
         | Inr policy \<Rightarrow>
             (if pc_loss_type cfg = Cross_entropy then
                Inr \<lparr>mo_loss = policy * weight, mo_outputs = sft_outputs b lp, mo_metrics = [(''loss'', policy * weight)]\<rparr>
              else
                case kl_loss_of cfg b lp of
                  Inl e \<Rightarrow> Inl e
                | Inr kl \<Rightarrow>
                    (let entropy = masked_mean (map (pm_entropy m) (rows_of b)) (get_rows ''loss_mask'' b);
                         entropy_term = (if pc_use_entropy_loss cfg then entropy * pc_entropy_loss_coef cfg else 0);
                         loss = policy * real D + (kl * pc_kl_loss_coef cfg - entropy_term) * weight
                     in Inr \<lparr>mo_loss = loss, mo_outputs = rl_outputs b lp,
                             mo_metrics = [(''final_loss'', loss / real D), (''policy_loss'', policy), (''policy_entropy'', entropy)]
                               @ (if pc_use_kl_loss cfg then [(''policy_kl'', kl)] else [])\<rparr>)))"

record rank_output =
  ro_loss :: real
  ro_outputs :: "sample_output list"
  ro_metrics :: "(string, real) dict"

text \<open>One rank: the losses of its micro-batches accumulate, their outputs are appended as they come.\<close>

definition rank_forward_backward ::
  "policy_model \<Rightarrow> policy_config \<Rightarrow> random_choices \<Rightarrow> (nat \<Rightarrow> real list) \<Rightarrow> nat \<Rightarrow> nat \<Rightarrow> batch \<Rightarrow> (string, rank_output) result" where
  "rank_forward_backward m cfg rn noise D others data =
     (case get_microbatch_iterator others data (pc_micro_batch_size cfg) (pc_max_tokens cfg) of
        Inl e \<Rightarrow> Inl e
      | Inr it \<Rightarrow>
          (case iterate noise it of
             Inl e \<Rightarrow> Inl e
           | Inr bs \<Rightarrow>
               (case for_each (\<lambda>b. case (batch_size b, batch_size data) of
                    (Some k, Some n) \<Rightarrow> forward_backward_micro m cfg rn D b (real k / real n)
                  | _ \<Rightarrow> Inl ''TypeError'') bs of
                  Inl e \<Rightarrow> Inl e
                | Inr os \<Rightarrow>
                    (case reduce_metrics (pc_loss_type cfg \<noteq> Cross_entropy) (group_values (concat (map mo_metrics os))) of
                       Inl e \<Rightarrow> Inl e
                     | Inr ms \<Rightarrow> Inr \<lparr>ro_loss = sum_list (map mo_loss os), ro_outputs = concat (map mo_outputs os), ro_metrics = ms\<rparr>))))"

text \<open>The number of micro-batches every rank is brought to.\<close>

definition local_num_microbatches :: "int \<Rightarrow> batch \<Rightarrow> nat" where
  "local_num_microbatches max_tokens b =
     (case new_token_iterator 0 max_tokens b of Inr it \<Rightarrow> length (it_microbatches it) | Inl _ \<Rightarrow> 0)"

definition max_num_microbatches :: "int \<Rightarrow> batch list \<Rightarrow> nat" where
  "max_num_microbatches max_tokens cs = fold max (map (local_num_microbatches max_tokens) cs) 0"

text \<open>A step over the chunks of the ranks: the averaged objective and the outputs of every rank.\<close>

definition train_step ::
  "policy_model \<Rightarrow> policy_config \<Rightarrow> random_choices \<Rightarrow> (nat \<Rightarrow> real list) \<Rightarrow> batch list \<Rightarrow> (string, real \<times> rank_output list) result" where
  "train_step m cfg rn noise cs =
     (let others = (if pc_max_tokens cfg > 0 then max_num_microbatches (pc_max_tokens cfg) cs else 0)
      in case for_each (rank_forward_backward m cfg rn noise (length cs) others) cs of
           Inl e \<Rightarrow> Inl e
         | Inr os \<Rightarrow> Inr (sum_list (map ro_loss os) / real (length cs), os))"

end
