(* ===== verification/Row_Losses.thy ===== *)
theory Row_Losses
  imports Loss_Properties
begin

text \<open>
  Except for the losses by covariance, a policy loss is a sum over the rows of the batch: row by row it is the loss of
  the batch that holds this row alone.
\<close>

definition row_local :: "policy_loss_type \<Rightarrow> bool" where
  "row_local ty = (ty \<noteq> Clip_cov \<and> ty \<noteq> Kl_cov)"

text \<open>Configurations that raise nothing.\<close>

definition correction_ok :: "off_policy \<Rightarrow> bool" where
  "correction_ok c = ((case op_tis_ratio_type c of None \<Rightarrow> True | Some k \<Rightarrow> k = ''token'' \<or> k = ''sequence'')
     \<and> (case op_sequence_mask_metric c of None \<Rightarrow> True | Some k \<Rightarrow> k = ''geometric'' \<or> k = ''product''))"

definition loss_ok :: "policy_loss_type \<Rightarrow> loss_config \<Rightarrow> bool \<Rightarrow> bool" where
  "loss_ok ty c has_rollout =
     ((has_rollout \<longrightarrow> correction_ok (lc_off_policy c)) \<and> (ty = Rollout_is \<longrightarrow> has_rollout)
      \<and> (ty = Dppo \<longrightarrow> lc_dppo_type c = ''binary_tv'' \<or> lc_dppo_type c = ''binary_kl''))"

text \<open>Tensors as wide as others, row number by row number.\<close>

definition only_row :: "nat \<Rightarrow> tensor \<Rightarrow> tensor" where
  "only_row i T = [T ! i]"

lemma ew_one: "i < length A \<Longrightarrow> i < length B \<Longrightarrow> ew f (only_row i A) (only_row i B) = only_row i (ew f A B)"
  by (simp add: ew_def only_row_def)

lemma tmap_one: "i < length A \<Longrightarrow> tmap f (only_row i A) = only_row i (tmap f A)"
  by (simp add: tmap_def only_row_def)

lemma ew3_one: "i < length A \<Longrightarrow> i < length B \<Longrightarrow> i < length C \<Longrightarrow> ew3 f (only_row i A) (only_row i B) (only_row i C) = only_row i (ew3 f A B C)"
  by (simp add: ew3_def only_row_def)

lemma broadcast_one: "i < length cs \<Longrightarrow> i < length T \<Longrightarrow> broadcast [cs ! i] (only_row i T) = only_row i (broadcast cs T)"
  by (simp add: broadcast_def only_row_def)

lemma length_ratio [simp]: "length (token_ratio old ro) = min (length old) (length ro)"
  by (simp add: token_ratio_def)

lemma length_seq_log [simp]: "length (seq_log_ratio old ro m) = min (min (length old) (length ro)) (length m)"
  by (simp add: seq_log_ratio_def)

lemma token_ratio_one: "i < length old \<Longrightarrow> i < length ro \<Longrightarrow> token_ratio (only_row i old) (only_row i ro) = only_row i (token_ratio old ro)"
  by (simp add: token_ratio_def ew_one)

lemma seq_log_one:
  "i < length old \<Longrightarrow> i < length ro \<Longrightarrow> i < length m \<Longrightarrow>
    seq_log_ratio (only_row i old) (only_row i ro) (only_row i m) = [seq_log_ratio old ro m ! i]"
  by (simp add: seq_log_ratio_def row_sums_def ew_def only_row_def)

section \<open>The correction\<close>

lemma outlier_one:
  assumes "length old = length m" "length ro = length m" "i < length m"
  shows "compute_outlier_token_mask (only_row i old) (only_row i ro) (only_row i m) c = only_row i (compute_outlier_token_mask old ro m c)"
proof -
  let ?f = "\<lambda>rs ks. of_bool_real (list_all2 (\<lambda>r k. token_in_bounds c r k \<or> k = 0) rs ks)"
  have "map2 ?f (only_row i (token_ratio old ro)) (only_row i m) = [map2 ?f (token_ratio old ro) m ! i]" using assms by (simp add: only_row_def)
  then show ?thesis
    using assms by (simp add: compute_outlier_token_mask_def token_ratio_one broadcast_one del: nth_map)
qed

lemma length_broadcast [simp]: "length (broadcast cs T) = min (length cs) (length T)"
  by (simp add: broadcast_def)

lemma length_outlier [simp]: "length (compute_outlier_token_mask old ro m c) = min (min (length old) (length ro)) (length m)"
  by (simp add: compute_outlier_token_mask_def)

lemma length_token_mask [simp]: "length (compute_token_mask old ro m l h) = min (min (length old) (length ro)) (length m)"
  by (simp add: compute_token_mask_def)

lemma after_outliers_one:
  assumes "length old = length m" "length ro = length m" "i < length m"
  shows "after_outliers (only_row i old) (only_row i ro) (only_row i m) c = only_row i (after_outliers old ro m c)"
  using assms by (simp add: after_outliers_def outlier_one ew_one)

lemma length_after_outliers [simp]:
  "length old = length m \<Longrightarrow> length ro = length m \<Longrightarrow> length (after_outliers old ro m c) = length m"
  by (simp add: after_outliers_def)

lemma token_mask_one:
  assumes "length old = length m" "length ro = length m" "i < length m"
  shows "compute_token_mask (only_row i old) (only_row i ro) (only_row i m) l h = only_row i (compute_token_mask old ro m l h)"
  using assms by (simp add: compute_token_mask_def token_ratio_one ew_one)

lemma pretis_one:
  assumes "length old = length m" "length ro = length m" "i < length m"
  shows "pretis_mask (only_row i old) (only_row i ro) (only_row i m) c = only_row i (pretis_mask old ro m c)"
  using assms by (simp add: pretis_mask_def after_outliers_one token_mask_one ew_one split: option.splits)

lemma length_pretis [simp]:
  "length old = length m \<Longrightarrow> length ro = length m \<Longrightarrow> length (pretis_mask old ro m c) = length m"
  by (simp add: pretis_mask_def split: option.splits)

lemma tis_one:
  assumes "length old = length m" "length ro = length m" "i < length m"
  shows "compute_tis_ratio (only_row i old) (only_row i ro) (only_row i m) k c = map_sum id (only_row i) (compute_tis_ratio old ro m k c)"
proof -
  let ?f = "\<lambda>x. min (op_sequence_tis_clip_high c) (safe_exp_delta x)"
  have "map ?f (seq_log_ratio (only_row i old) (only_row i ro) (only_row i m)) = [map ?f (seq_log_ratio old ro m) ! i]"
    using assms by (simp add: seq_log_one)
  then have "broadcast (map ?f (seq_log_ratio (only_row i old) (only_row i ro) (only_row i m))) (only_row i m)
      = only_row i (broadcast (map ?f (seq_log_ratio old ro m)) m)"
    using assms by (simp add: broadcast_one del: nth_map)
  then show ?thesis using assms by (simp add: compute_tis_ratio_def token_ratio_one tmap_one)
qed

lemma sequence_mask_one:
  assumes "length old = length m" "length ro = length m" "i < length m"
  shows "compute_sequence_mask (only_row i old) (only_row i ro) (only_row i m) k c = map_sum id (only_row i) (compute_sequence_mask old ro m k c)"
proof -
  let ?g = "\<lambda>x ks. let r = safe_exp_delta (x / max 1 (sum_list ks)) in of_bool_real (\<not> r > op_geo_high c \<and> \<not> r < op_geo_low c)"
  let ?p = "\<lambda>x. let r = safe_exp_delta x in of_bool_real (\<not> r > op_product_high c \<and> \<not> r < op_product_low c)"
  have s: "seq_log_ratio (only_row i old) (only_row i ro) (only_row i m) = [seq_log_ratio old ro m ! i]" using assms by (simp add: seq_log_one)
  have "map2 ?g [seq_log_ratio old ro m ! i] (only_row i m) = [map2 ?g (seq_log_ratio old ro m) m ! i]"
    using assms by (simp add: only_row_def)
  then have g: "broadcast (map2 ?g [seq_log_ratio old ro m ! i] (only_row i m)) (only_row i m) = only_row i (broadcast (map2 ?g (seq_log_ratio old ro m) m) m)"
    using assms by (simp add: broadcast_one del: nth_map)
  have "map ?p [seq_log_ratio old ro m ! i] = [map ?p (seq_log_ratio old ro m) ! i]" using assms by simp
  then have p: "broadcast (map ?p [seq_log_ratio old ro m ! i]) (only_row i m) = only_row i (broadcast (map ?p (seq_log_ratio old ro m)) m)"
    using assms by (simp add: broadcast_one del: nth_map list.map)
  show ?thesis unfolding compute_sequence_mask_def s g p by simp
qed

definition one_result :: "nat \<Rightarrow> tensor option \<times> tensor \<Rightarrow> tensor option \<times> tensor" where
  "one_result i = map_prod (map_option (only_row i)) (only_row i)"

lemma correction_one:
  assumes "length old = length m" "length ro = length m" "i < length m"
  shows "compute_off_policy_correction (only_row i old) (only_row i ro) (only_row i m) c
    = map_sum id (one_result i) (compute_off_policy_correction old ro m c)"
proof -
  let ?m2 = "pretis_mask old ro m c"
  have l2: "length old = length ?m2" "length ro = length ?m2" "i < length ?m2" using assms by simp_all
  have mult: "ew (*) (only_row i ?m2) (only_row i s) = only_row i (ew (*) ?m2 s)" if "compute_sequence_mask old ro ?m2 k c = Inr s" for k s
    using sequence_mask_length [OF that l2(1,2) refl] l2(3) by (simp add: ew_one)
  show ?thesis
    unfolding compute_off_policy_correction_def pretis_one [OF assms] tis_one [OF l2] sequence_mask_one [OF l2] Let_def
    using mult by (auto simp: one_result_def split: option.splits sum.splits)
qed

lemma correction_exists:
  "correction_ok c \<Longrightarrow> \<exists>t m'. compute_off_policy_correction old ro m c = Inr (t, m')"
  by (auto simp: correction_ok_def compute_off_policy_correction_def compute_tis_ratio_def compute_sequence_mask_def Let_def
      split: option.splits sum.splits if_splits)

text \<open>A masked row stays masked.\<close>

lemma zero_product: "set r \<subseteq> {0} \<Longrightarrow> set (map2 (*) r q) \<subseteq> {0}" for r q :: "real list"
  by (auto dest!: set_zip_leftD)

lemma zero_row_ew: "set (A ! i) \<subseteq> {0} \<Longrightarrow> i < length A \<Longrightarrow> i < length B \<Longrightarrow> set (ew (*) A B ! i) \<subseteq> {0}"
  using zero_product [of "A ! i" "B ! i"] by simp

lemma zero_row_correction:
  assumes "compute_off_policy_correction old ro m c = Inr (t, m')" "length old = length m" "length ro = length m"
    and "i < length m" "set (m ! i) \<subseteq> {0}"
  shows "set (m' ! i) \<subseteq> {0}"
proof -
  have "set (after_outliers old ro m c ! i) \<subseteq> {0}"
    using zero_row_ew [of m i "compute_outlier_token_mask old ro m c"] assms by (simp add: after_outliers_def del: ew_simps(2))
  then have p: "set (pretis_mask old ro m c ! i) \<subseteq> {0}"
    using zero_row_ew [of "after_outliers old ro m c" i] assms by (simp add: pretis_mask_def del: ew_simps(2) split: option.splits)
  from conjunct2 [OF correction_parts [OF assms(1)]] show ?thesis
  proof (elim disjE exE conjE)
    fix sm k assume sm: "compute_sequence_mask old ro (pretis_mask old ro m c) k c = Inr sm" "m' = ew (*) (pretis_mask old ro m c) sm"
    have "length sm = length m" using sequence_mask_length [OF sm(1) assms(2,3)] assms(2,3) by simp
    then show ?thesis unfolding sm(2) using assms(2-4) by (intro zero_row_ew [OF p]) simp_all
  qed (use p assms(5) in simp_all)
qed

section \<open>The losses\<close>

lemma apply_correction_one:
  assumes "length old = length m" "fits (length m) ro" "length loss = length m" "i < length m"
  shows "apply_off_policy_correction (only_row i loss) (only_row i old) (map_option (only_row i) ro) (Some (only_row i m)) c
    = map_sum id (map_prod (only_row i) (map_option (only_row i))) (apply_off_policy_correction loss old ro (Some m) c)"
proof (cases ro)
  case None
  then show ?thesis by (simp add: apply_off_policy_correction_def)
next
  case (Some r)
  then have r: "length r = length m" using assms(2) by (simp add: fits_def)
  have "\<And>t m'. compute_off_policy_correction old r m c = Inr (Some t, m') \<Longrightarrow> length t = length m"
    using correction_lengths [OF _ assms(1) r refl] by auto
  then show ?thesis
    unfolding apply_off_policy_correction_def Some option.map option.case correction_one [OF assms(1) r assms(4)]
    using assms(3,4) by (auto simp: one_result_def ew_one split: sum.splits option.splits)
qed

lemma masked_mean_rows_one:
  "i < length v \<Longrightarrow> i < length m \<Longrightarrow> masked_mean_rows (only_row i v) (Some (only_row i m)) = [masked_mean_rows v (Some m) ! i]"
  by (simp add: masked_mean_rows_def only_row_def)

lemma gspo_one:
  assumes "length lp = length m" "length old = length m" "i < length m"
  shows "broadcast (gspo_ratio (only_row i lp) (only_row i old) (Some (only_row i m))) (only_row i lp) = only_row i (broadcast (gspo_ratio lp old (Some m)) lp)"
proof -
  have "gspo_ratio (only_row i lp) (only_row i old) (Some (only_row i m)) = [gspo_ratio lp old (Some m) ! i]"
    using assms by (simp add: gspo_ratio_def ew_one masked_mean_rows_one) (simp add: masked_mean_rows_def)
  moreover have "length (gspo_ratio lp old (Some m)) = length m" using assms by (simp add: gspo_ratio_def masked_mean_rows_def)
  ultimately show ?thesis using assms by (simp add: broadcast_one)
qed

lemma token_losses_one:
  assumes "row_local ty" "length lp = length m" "length old = length m" "length adv = length m" "fits (length m) ro" "i < length m"
  shows "token_losses ty c rn (only_row i lp) (only_row i old) (only_row i adv) (Some (only_row i m)) (map_option (only_row i) ro)
    = map_sum id (map_prod (only_row i) (map_option (only_row i))) (token_losses ty c rn lp old adv (Some m) ro)"
proof -
  note corr = apply_correction_one [OF assms(3,5) _ assms(6)]
  have l3: "ew3 f (only_row i lp) (only_row i old) (only_row i adv) = only_row i (ew3 f lp old adv)" "length (ew3 f lp old adv) = length m" for f
    using assms by (simp_all add: ew3_one)
  show ?thesis
  proof (cases ty)
    case Gspo
    have "length (broadcast (gspo_ratio lp old (Some m)) lp) = length m"
      using assms by (simp add: gspo_ratio_def masked_mean_rows_def)
    then show ?thesis
      using assms corr [of "ew3 (gspo_token c) (broadcast (gspo_ratio lp old (Some m)) lp) lp adv"]
      by (simp add: Gspo token_losses_def Let_def gspo_one ew3_one)
  next
    case Rollout_is
    show ?thesis
    proof (cases ro)
      case (Some r)
      then have "length r = length m" using assms(5) by (simp add: fits_def)
      then show ?thesis
        using assms corr [of "ew3 (rollout_is_token c) lp r adv"] by (simp add: Rollout_is token_losses_def Let_def Some ew3_one)
    qed (simp add: Rollout_is token_losses_def Let_def)
  next
    case Dppo
    define mu where "mu = (case ro of Some r \<Rightarrow> r | None \<Rightarrow> old)"
    have "length mu = length m" using assms(3,5) by (simp add: mu_def fits_def split: option.splits)
    moreover have "(case map_option (only_row i) ro of Some r \<Rightarrow> r | None \<Rightarrow> only_row i old) = only_row i mu" by (simp add: mu_def split: option.splits)
    ultimately show ?thesis
      using assms corr [of "ew3 (dppo_token c True) lp mu adv"] corr [of "ew3 (dppo_token c False) lp mu adv"]
      by (simp add: Dppo token_losses_def Let_def ew3_one mu_def [symmetric])
  qed (use assms l3 corr in \<open>simp_all add: row_local_def token_losses_def Let_def tmap_one\<close>)
qed

lemma token_losses_shape:
  assumes "row_local ty" "length lp = length m" "length old = length m" "length adv = length m" "fits (length m) ro"
    and "token_losses ty c rn lp old adv (Some m) ro = Inr (L, m')"
  shows "\<exists>k. m' = Some k \<and> length L = length m \<and> length k = length m
    \<and> (\<forall>i<length m. set (m ! i) \<subseteq> {0} \<longrightarrow> set (k ! i) \<subseteq> {0})"
proof -
  have corr: "\<exists>k. m' = Some k \<and> length L = length m \<and> length k = length m \<and> (\<forall>i<length m. set (m ! i) \<subseteq> {0} \<longrightarrow> set (k ! i) \<subseteq> {0})"
    if a: "apply_off_policy_correction loss old ro (Some m) (lc_off_policy c) = Inr (L, m')" and n: "length loss = length m" for loss
  proof (cases ro)
    case None
    then show ?thesis using a n by (auto simp: apply_off_policy_correction_def)
  next
    case (Some r)
    then have r: "length r = length m" using assms(5) by (simp add: fits_def)
    obtain t k where t: "compute_off_policy_correction old r m (lc_off_policy c) = Inr (t, k)" "m' = Some k"
      "L = (case t of None \<Rightarrow> loss | Some t \<Rightarrow> ew (*) loss t)"
      using a by (auto simp: apply_off_policy_correction_def Some split: sum.splits)
    then show ?thesis
      using correction_lengths [OF t(1) assms(3) r refl] zero_row_correction [OF t(1) assms(3) r] n by (auto split: option.splits)
  qed
  show ?thesis
    using assms corr
    by (cases ty) (auto simp: row_local_def token_losses_def Let_def fits_def gspo_ratio_length split: option.splits if_splits)
qed

lemma token_losses_exist:
  assumes "loss_ok ty c (ro \<noteq> None)" "row_local ty"
  shows "\<exists>L m'. token_losses ty c rn lp old adv (Some m) ro = Inr (L, m')"
proof -
  have "\<exists>L m'. apply_off_policy_correction loss old ro (Some m) (lc_off_policy c) = Inr (L, m')" for loss
  proof (cases ro)
    case (Some r)
    then have "correction_ok (lc_off_policy c)" using assms(1) by (simp add: loss_ok_def)
    then obtain t k where "compute_off_policy_correction old r m (lc_off_policy c) = Inr (t, k)" using correction_exists by blast
    then show ?thesis by (simp add: apply_off_policy_correction_def Some)
  qed (simp add: apply_off_policy_correction_def)
  then show ?thesis using assms by (cases ty) (auto simp: token_losses_def Let_def row_local_def loss_ok_def split: option.splits)
qed

text \<open>The loss of the batch that holds one row.\<close>

definition row_loss ::
  "policy_loss_type \<Rightarrow> loss_config \<Rightarrow> random_choices \<Rightarrow> real list \<Rightarrow> real list \<Rightarrow> real list \<Rightarrow> real list \<Rightarrow> real list option \<Rightarrow> real" where
  "row_loss ty c rn lp old adv m ro =
     (case policy_loss ty c rn [lp] [old] [adv] (Some [m]) (map_option (\<lambda>r. [r]) ro) of Inr x \<Rightarrow> x | Inl _ \<Rightarrow> 0)"

lemma policy_loss_rows:
  assumes "row_local ty" "loss_ok ty c (ro \<noteq> None)" "length lp = length m" "length old = length m" "length adv = length m"
    and "fits (length m) ro"
  shows "policy_loss ty c rn lp old adv (Some m) ro
    = Inr (\<Sum>i<length m. row_loss ty c rn (lp ! i) (old ! i) (adv ! i) (m ! i) (map_option (\<lambda>r. r ! i) ro))"
proof -
  obtain L k where t: "token_losses ty c rn lp old adv (Some m) ro = Inr (L, Some k)" and sh: "length L = length m" "length k = length m"
    using token_losses_exist [OF assms(2,1)] token_losses_shape [OF assms(1,3-6)] by metis
  have row: "row_loss ty c rn (lp ! i) (old ! i) (adv ! i) (m ! i) (map_option (\<lambda>r. r ! i) ro) = sum_list (ew (*) L k ! i)"
    if "i < length m" for i
  proof -
    have "token_losses ty c rn [lp ! i] [old ! i] [adv ! i] (Some [m ! i]) (map_option (\<lambda>r. [r]) (map_option (\<lambda>r. r ! i) ro))
        = Inr ([L ! i], Some [k ! i])"
      using token_losses_one [OF assms(1,3-6) that, of c rn] t by (simp add: only_row_def [abs_def] option.map_comp comp_def)
    then show ?thesis
      using that sh by (simp add: row_loss_def policy_loss_def reduce_loss_def tsum_def row_sums_def ew_def)
  qed
  have "policy_loss ty c rn lp old adv (Some m) ro = Inr (tsum (ew (*) L k))" by (simp add: policy_loss_def reduce_loss_def t)
  also have "tsum (ew (*) L k) = (\<Sum>i<length m. row_loss ty c rn (lp ! i) (old ! i) (adv ! i) (m ! i) (map_option (\<lambda>r. r ! i) ro))"
    unfolding tsum_rows using sh row by (intro sum.cong) auto
  finally show ?thesis .
qed

lemma row_loss_masked:
  assumes "row_local ty" "loss_ok ty c (ro \<noteq> None)" "set m \<subseteq> {0}"
  shows "row_loss ty c rn lp old adv m ro = 0"
proof -
  let ?ro = "map_option (\<lambda>r. [r]) ro"
  have f: "fits (length [m]) ?ro" by (simp add: fits_def split: option.splits)
  have "loss_ok ty c (?ro \<noteq> None)" using assms(2) by simp
  then obtain L k' where t0: "token_losses ty c rn [lp] [old] [adv] (Some [m]) ?ro = Inr (L, k')"
    using token_losses_exist [OF _ assms(1)] by blast
  have len: "length [lp] = length [m]" "length [old] = length [m]" "length [adv] = length [m]" by simp_all
  obtain k where k: "k' = Some k" "length L = length [m]" "length k = length [m]"
    "\<forall>i<length [m]. set ([m] ! i) \<subseteq> {0} \<longrightarrow> set (k ! i) \<subseteq> {0}"
    using token_losses_shape [OF assms(1) len f t0] by blast
  then have t: "token_losses ty c rn [lp] [old] [adv] (Some [m]) ?ro = Inr (L, Some k)" "length L = 1" "length k = 1"
    "set (k ! 0) \<subseteq> {0}"
    using t0 assms(3) by simp_all
  obtain x y where xy: "L = [x]" "k = [y]" using t(2,3) by (auto simp: length_Suc_conv)
  have "set (map2 (*) x y) \<subseteq> {0}" using t(4) by (auto simp: xy dest!: set_zip_rightD)
  then have "sum_list (map2 (*) x y) = 0" by (intro sum_list_0_if) blast
  then show ?thesis by (simp add: row_loss_def policy_loss_def reduce_loss_def t(1) xy tsum_def row_sums_def ew_def)
qed

end
