(* ===== verification/Microbatch_Properties.thy ===== *)
theory Microbatch_Properties
  imports Microbatches
begin

text \<open>
  Splitting into micro-batches loses no sample: whatever is computed sample by sample on the micro-batches and
  recombined is what would have been computed on the whole batch.
\<close>

section \<open>Picking rows\<close>

definition pick_column :: "nat list \<Rightarrow> column \<Rightarrow> column" where
  "pick_column is v = (case v of Tensor sh rs \<Rightarrow> Tensor sh (map ((!) rs) is) | TensorList rs \<Rightarrow> TensorList (map ((!) rs) is))"

definition pick :: "nat list \<Rightarrow> batch \<Rightarrow> batch" where
  "pick is b = \<lparr>columns = map_columns (\<lambda>_. pick_column is) (columns b), batch_size = Some (length is), meta = meta b\<rparr>"

lemma rows_pick [simp]: "col_rows (pick_column is v) = map ((!) (col_rows v)) is"
  by (cases v) (simp_all add: pick_column_def)

lemma index_column_pick:
  assumes "wf_column v" "is \<noteq> []" "\<forall>i\<in>set is. i < length (col_rows v)"
  shows "index_column is v = Inr (pick_column is v) \<and> wf_column (pick_column is v)"
  using assms by (cases v) (auto simp: index_column_def select_rows_def pick_column_def new_TensorList_def)

lemma pick_wf:
  assumes "wf_batch b" "is \<noteq> []" "\<forall>i\<in>set is. i < size_of b"
  shows "create_microbatch_from_indices b is = Inr (pick is b)" "wf_batch (pick is b)"
proof -
  have col: "index_column is v = Inr (pick_column is v) \<and> wf_column (pick_column is v) \<and> length (col_rows (pick_column is v)) = length is"
    if "(k, Some v) \<in> set (columns b)" for k v
    using index_column_pick [of v "is"] assms(2,3) wf_columnsD [OF conjunct2 [OF wf_batchD [OF assms(1)]] that] by simp
  show "create_microbatch_from_indices b is = Inr (pick is b)"
    unfolding create_microbatch_from_indices_def pick_def using assms(1) col by (intro rebuild_wf(1)) blast+
  show "wf_batch (pick is b)" unfolding pick_def
    by (rule rebuild_wf(2) [OF assms(1), where f = "\<lambda>_. index_column is"]) (use col in blast)
qed

lemma size_pick [simp]: "size_of (pick is b) = length is"
  by (simp add: pick_def size_of_def)

lemma rows_of_pick:
  assumes "\<forall>i\<in>set is. i < size_of b"
  shows "rows_of (pick is b) = map ((!) (rows_of b)) is"
proof -
  have "nth_sample s (pick is b) = nth_sample (is ! s) b" if "s < length is" for s
  proof -
    have "map_option (\<lambda>w. col_rows w ! s) (map_option (pick_column is) v) = map_option (\<lambda>w. col_rows w ! (is ! s)) v" for v
      using that by (cases v) simp_all
    then show ?thesis by (auto simp: nth_sample_def pick_def map_columns_def)
  qed
  then show ?thesis using assms by (intro nth_equalityI) (simp_all add: rows_of_def)
qed

lemma same_schema_pick: "same_schema b (pick is b)"
  by (rule same_schemaI [of _ "\<lambda>_. pick_column is"]) (simp_all add: pick_def keeps_tensors_def pick_column_def same_layout_meta)

lemma nth_rows_of [simp]: "i < size_of b \<Longrightarrow> rows_of b ! i = nth_sample i b"
  by (simp add: rows_of_def)

lemma length_rows_of [simp]: "length (rows_of b) = size_of b"
  by (simp add: rows_of_def)

section \<open>The position of each sample\<close>

definition placed :: "nat list list \<Rightarrow> nat \<Rightarrow> nat \<times> nat \<Rightarrow> bool" where
  "placed mbs i ms = (fst ms < length mbs \<and> snd ms < length (mbs ! fst ms) \<and> mbs ! fst ms ! snd ms = i)"

lemma inner_positions:
  "dict_get (fold (\<lambda>(i, s) d. dict_put i (m, s) d) (zip is [k..<k + length is]) d) j
    = (if j \<in> set is then Some (m, k + (LEAST s. s < length is \<and> is ! s = j)) else dict_get d j)"
  if "distinct is"
  using that
proof (induction "is" arbitrary: k d)
  case (Cons i "is")
  have upt: "[k..<k + length (i # is)] = k # [Suc k..<Suc k + length is]"
    using upt_conv_Cons [of k "k + length (i # is)"] by simp
  show ?case
  proof (cases "j \<in> set is")
    case True
    then have "j \<noteq> i" using Cons.prems by auto
    have L: "(LEAST s. s < length (i # is) \<and> (i # is) ! s = j) = Suc (LEAST s. s < length is \<and> is ! s = j)"
    proof -
      obtain s where s: "s < length is" "is ! s = j" using True by (auto simp: in_set_conv_nth)
      have "(LEAST s. s < length (i # is) \<and> (i # is) ! s = j) = Suc (LEAST s. Suc s < length (i # is) \<and> (i # is) ! Suc s = j)"
        by (rule Least_Suc [of _ "Suc s"]) (use s \<open>j \<noteq> i\<close> in simp_all)
      then show ?thesis by simp
    qed
    then show ?thesis using Cons.IH [of "Suc k"] Cons.prems True unfolding upt by (simp add: L)
  next
    case False
    have "(LEAST s. s < length (i # is) \<and> (i # is) ! s = i) = 0" by (rule Least_equality) auto
    then show ?thesis using Cons.IH [of "Suc k"] Cons.prems False unfolding upt by (auto simp: dict_simps)
  qed
qed simp

lemma positions_found:
  assumes "distinct (concat mbs)"
  shows "i \<in> set (concat mbs) \<Longrightarrow> \<exists>ms. dict_get (original_idx_to_microbatch_idx mbs) i = Some ms \<and> placed mbs i ms"
  using assms
proof (induction mbs rule: rev_induct)
  case (snoc mb mbs)
  let ?d = "original_idx_to_microbatch_idx mbs"
  have "original_idx_to_microbatch_idx (mbs @ [mb]) = fold (\<lambda>(i, s) d. dict_put i (length mbs, s) d) (zip mb [0..<0 + length mb]) ?d"
    by (simp add: original_idx_to_microbatch_idx_def indexed_def)
  then have get: "dict_get (original_idx_to_microbatch_idx (mbs @ [mb])) i
      = (if i \<in> set mb then Some (length mbs, 0 + (LEAST s. s < length mb \<and> mb ! s = i)) else dict_get ?d i)"
    using snoc.prems(2) inner_positions [of mb "length mbs" 0 ?d i] by simp
  show ?case
  proof (cases "i \<in> set mb")
    case True
    then obtain s where "s < length mb \<and> mb ! s = i" by (auto simp: in_set_conv_nth)
    then have "(LEAST s. s < length mb \<and> mb ! s = i) < length mb \<and> mb ! (LEAST s. s < length mb \<and> mb ! s = i) = i"
      by (rule LeastI)
    then show ?thesis using True by (simp add: get placed_def)
  next
    case False
    then obtain ms where "dict_get ?d i = Some ms" "placed mbs i ms" using snoc by auto
    then show ?thesis using False by (simp add: get placed_def nth_append)
  qed
qed simp

section \<open>Packed micro-batches\<close>

definition attention_of :: "batch \<Rightarrow> tensor" where
  "attention_of b = (case dict_get (columns b) ''attention_mask'' of Some (Some v) \<Rightarrow> col_rows v | _ \<Rightarrow> [])"

definition trainable :: "batch \<Rightarrow> bool" where
  "trainable b = (wf_batch b \<and> 0 < size_of b \<and> (\<exists>sh rs. dict_get (columns b) ''attention_mask'' = Some (Some (Tensor sh rs)))
     \<and> (\<exists>n sh rs. dict_get (columns b) ''sequences'' = Some (Some (Tensor (Suc n # sh) rs)))
     \<and> (\<exists>md k. meta b = Some md \<and> dict_get md ''response_length'' = Some (Number (int k))))"

lemma column_length: "wf_batch b \<Longrightarrow> dict_get (columns b) k = Some (Some v) \<Longrightarrow> length (col_rows v) = size_of b"
  using wf_columnsD(2) [of "size_of b" "columns b" k v] wf_batchD [of b] map_of_SomeD [of "columns b" k "Some v"] by blast

lemma length_bins: "[] \<notin> set bs \<Longrightarrow> length bs \<le> length (concat bs)"
proof (induction bs)
  case (Cons b bs)
  then show ?case by (cases b) auto
qed simp

lemma balanced_factory:
  "make_seq_packer ''balanced'' cap None None = Inr (BALANCED, \<lparr>bin_capacity = cap, min_bin_count = None, bin_count_multiple = None\<rparr>)"
proof -
  have "strategy_of_name ''balanced'' = Some BALANCED" by code_simp
  then show ?thesis by (simp add: make_seq_packer_def SeqPacker_init_def)
qed

lemma balanced_packs:
  "\<exists>bs. pack BALANCED \<lparr>bin_capacity = cap, min_bin_count = None, bin_count_multiple = None\<rparr> ls = Inr bs
    \<and> mset (concat bs) = mset [0..<length ls] \<and> [] \<notin> set bs"
proof -
  let ?p = "\<lparr>bin_capacity = cap, min_bin_count = None, bin_count_multiple = None\<rparr>"
  obtain bs where bs: "balanced_pack cap ls = Inr bs" by (simp add: balanced_pack_def)
  have "length bs \<le> length (concat bs)" using balanced_pack_result(2) [OF bs] by (rule length_bins)
  also have "length (concat bs) = length ls" using balanced_pack_result(1) [OF bs] by (metis diff_zero length_upt size_mset)
  finally have "target_bin_count ?p (int (length bs)) \<le> int (length ls)" by (simp add: target_bin_count_def)
  moreover have "packer_wf ?p" by (simp add: packer_wf_def)
  ultimately show ?thesis using pack_result [of ?p BALANCED ls bs] bs by (auto simp: pack_implementation_def)
qed

lemma new_token_iterator_ok:
  assumes "trainable b"
  obtains it where "new_token_iterator others max_tokens b = Inr it" "it_data it = b" "length (it_token_counts it) = size_of b"
    "mset (concat (it_microbatches it)) = mset [0..<size_of b]" "[] \<notin> set (it_microbatches it)"
    "length (it_microbatches it) + it_num_padding it = max (length (it_microbatches it)) others"
proof -
  obtain sh am where am: "dict_get (columns b) ''attention_mask'' = Some (Some (Tensor sh am))" and wf: "wf_batch b"
    using assms by (auto simp: trainable_def)
  have len: "length (token_counts am) = size_of b" using column_length [OF wf am] by (simp add: token_counts_def)
  obtain bs where bs: "pack BALANCED \<lparr>bin_capacity = max_tokens, min_bin_count = None, bin_count_multiple = None\<rparr> (token_counts am) = Inr bs"
    "mset (concat bs) = mset [0..<size_of b]" "[] \<notin> set bs"
    using balanced_packs [of max_tokens "token_counts am"] len by auto
  have "tensor_of ''attention_mask'' b = Inr (sh, am)" using am by (simp add: tensor_of_def get_column_def)
  then have "new_token_iterator others max_tokens b = Inr \<lparr>it_data = b, it_token_counts = token_counts am, it_microbatches = bs,
      it_num_padding = max (length bs) others - length bs\<rparr>"
    using bs(1) by (simp add: new_token_iterator_def balanced_factory)
  then show ?thesis using that bs(2,3) len by simp
qed

lemma bins_rows:
  assumes "mset (concat bs) = mset [0..<n]"
  shows "distinct (concat bs)" "set (concat bs) = {..<n}" "\<forall>is\<in>set bs. \<forall>i\<in>set is. i < n"
proof -
  show "distinct (concat bs)" using assms by (metis distinct_upt mset_eq_imp_distinct_iff)
  show s: "set (concat bs) = {..<n}" using assms by (metis atLeast_upt mset_eq_setD)
  show "\<forall>is\<in>set bs. \<forall>i\<in>set is. i < n" using s by auto
qed

text \<open>A padding micro-batch has one row; its loss mask is zero and it has rollout log-probabilities when the data have.\<close>

lemma padding_microbatch_ok:
  assumes "trainable b"
  obtains p k where "create_padding_microbatch noise b = Inr p" "batch_size p = Some 1"
    "dict_get (columns p) ''loss_mask'' = Some (constant_row 0 k)"
    "dict_get (columns p) ''advantages'' = Some (constant_row (6 / 10) k)"
    "dict_get (columns p) ''action_log_probs'' = Some (constant_row (4 / 10) k)"
    "dict_get (columns p) ''response_mask'' = Some (constant_row 1 k)"
    "dict_get (columns p) ''rollout_logprobs'' = (case dict_get (columns b) ''rollout_logprobs'' of
       Some (Some (Tensor _ _)) \<Rightarrow> Some (constant_row 0 k) | _ \<Rightarrow> None)"
    "dict_get (columns p) ''sequences'' \<noteq> None" "\<exists>md. meta p = Some md \<and> dict_get md ''response_length'' \<noteq> None"
proof -
  obtain n sh rs md k where d: "dict_get (columns b) ''sequences'' = Some (Some (Tensor (Suc n # sh) rs))" "meta b = Some md"
    "dict_get md ''response_length'' = Some (Number (int k))"
    using assms by (auto simp: trainable_def)
  define rollout where "rollout = (case dict_get (columns b) ''rollout_logprobs'' of
      Some (Some (Tensor _ _)) \<Rightarrow> [(''rollout_logprobs'', constant_row 0 k)] | _ \<Rightarrow> [])"
  define experts where "experts = (case dict_get (columns b) ''rollout_expert_indices'' of
      Some (Some (Tensor sh' _)) \<Rightarrow> [(''rollout_expert_indices'', Some (Tensor sh' [replicate (prod_list sh') 0]))] | _ \<Rightarrow> [])"
  define cs where "cs = [(''sequences'', Some (Tensor [Suc n] [noise (Suc n)])), (''attention_mask'', Some (Tensor [Suc n] [1 # replicate n 0])),
    (''action_log_probs'', constant_row (4 / 10) k), (''base_action_log_probs'', constant_row (3 / 10) k),
    (''values'', constant_row (5 / 10) k), (''returns'', constant_row (5 / 10) k), (''advantages'', constant_row (6 / 10) k),
    (''loss_mask'', constant_row 0 k), (''response_mask'', constant_row 1 k)] @ rollout @ experts"
  let ?md = "Some (dict_put ''is_padding_batch'' (Switch True) md)"
  let ?p = "\<lparr>columns = cs, batch_size = Some 1, meta = ?md\<rparr>"
  have ex: "list_all (\<lambda>(_, w). case w of None \<Rightarrow> True | Some w \<Rightarrow> length (col_rows w) = Suc 0) (rollout @ experts)"
    by (simp add: rollout_def experts_def constant_row_def split: option.splits column.splits)
  have "create_padding_microbatch noise b = new_batch cs ?md"
    using d by (simp add: create_padding_microbatch_def tensor_of_def get_column_def rollout_def experts_def cs_def Let_def)
  moreover have "check_consistency cs = Inr (Some 1)" using ex by (simp add: check_consistency_def constant_row_def cs_def)
  ultimately have "create_padding_microbatch noise b = Inr ?p" by (simp add: new_batch_def)
  moreover have "dict_get cs ''loss_mask'' = Some (constant_row 0 k)" "dict_get cs ''advantages'' = Some (constant_row (6 / 10) k)"
    "dict_get cs ''action_log_probs'' = Some (constant_row (4 / 10) k)" "dict_get cs ''response_mask'' = Some (constant_row 1 k)"
    by (simp_all add: cs_def)
  moreover have "dict_get experts ''rollout_logprobs'' = None"
    by (simp add: experts_def split: option.splits column.splits)
  then have "dict_get cs ''rollout_logprobs'' = dict_get rollout ''rollout_logprobs''"
    by (simp add: cs_def map_add_def split: option.splits)
  then have "dict_get cs ''rollout_logprobs'' = (case dict_get (columns b) ''rollout_logprobs'' of
       Some (Some (Tensor _ _)) \<Rightarrow> Some (constant_row 0 k) | _ \<Rightarrow> None)"
    by (simp add: rollout_def split: option.splits column.splits)
  moreover have "dict_get cs ''sequences'' \<noteq> None" by (simp add: cs_def)
  moreover have "dict_get (dict_put ''is_padding_batch'' (Switch True) md) ''response_length'' \<noteq> None"
    using d(3) by (simp add: dict_simps)
  ultimately show ?thesis by (intro that [of ?p k]) simp_all
qed

lemma iter_token_batches_ok:
  assumes "trainable b" "it_data it = b" "mset (concat (it_microbatches it)) = mset [0..<size_of b]" "[] \<notin> set (it_microbatches it)"
  obtains p where "iter_token_batches noise it
      = Inr (map (\<lambda>is. pick is b) (it_microbatches it) @ replicate (it_num_padding it) p)"
    "create_padding_microbatch noise b = Inr p"
proof -
  have wf: "wf_batch b" using assms(1) by (simp add: trainable_def)
  have "create_microbatch_from_indices b is = Inr (pick is b)" if "is \<in> set (it_microbatches it)" for "is"
    using pick_wf(1) [OF wf, of "is"] bins_rows(3) [OF assms(3)] assms(4) that by auto
  then have real: "for_each (create_microbatch_from_indices b) (it_microbatches it) = Inr (map (\<lambda>is. pick is b) (it_microbatches it))"
    by (rule traverse_total)
  obtain p where p: "create_padding_microbatch noise b = Inr p" using padding_microbatch_ok [OF assms(1)] by blast
  have "for_each (\<lambda>_. create_padding_microbatch noise b) [0..<it_num_padding it] = Inr (map (\<lambda>_. p) [0..<it_num_padding it])"
    using p by (intro traverse_total) simp
  then show ?thesis using that [of p] real p assms(2) by (simp add: iter_token_batches_def map_replicate_const)
qed

section \<open>The round trip\<close>

text \<open>The output batch of an inference pass that answers row by row.\<close>

definition answer_batch :: "nat list \<Rightarrow> ((string, real list option) dict \<Rightarrow> real list) \<Rightarrow> batch \<Rightarrow> batch" where
  "answer_batch sh f b = \<lparr>columns = [(''output'', Some (Tensor sh (map f (rows_of b))))], batch_size = Some (size_of b), meta = meta b\<rparr>"

lemma reorder_answers:
  assumes "trainable b" "it_data it = b" "length (it_token_counts it) = size_of b"
    "mset (concat (it_microbatches it)) = mset [0..<size_of b]" "[] \<notin> set (it_microbatches it)" "length pads = it_num_padding it"
  shows "reorder_and_combine_batches it (map (\<lambda>is. answer_batch sh f (pick is b)) (it_microbatches it) @ pads)
    = Inr \<lparr>columns = [(''output'', Some (Tensor sh (map f (rows_of b))))], batch_size = Some (size_of b), meta = meta b\<rparr>"
proof -
  let ?mbs = "it_microbatches it" and ?d = "original_idx_to_microbatch_idx (it_microbatches it)"
  let ?bs = "map (\<lambda>is. answer_batch sh f (pick is b)) ?mbs"
  note br = bins_rows [OF assms(4)]
  have "?mbs \<noteq> []" using br(2) assms(1) by (auto simp: trainable_def)
  then obtain mb rest where mbs: "?mbs = mb # rest" by (cases ?mbs) auto
  have row: "(case dict_get ?d i of None \<Rightarrow> Inl ''KeyError'' | Some ms \<Rightarrow> source_row ?bs ''output'' ms) = Inr (f (nth_sample i b))"
    if i: "i < size_of b" for i
  proof -
    obtain ms where ms: "dict_get ?d i = Some ms" "placed ?mbs i ms"
    proof -
      have "i \<in> set (concat ?mbs)" using br(2) i by simp
      then show ?thesis using positions_found [OF br(1)] that by blast
    qed
    then have p: "fst ms < length ?mbs" "snd ms < length (?mbs ! fst ms)" "?mbs ! fst ms ! snd ms = i" by (simp_all add: placed_def)
    have "\<forall>j\<in>set (?mbs ! fst ms). j < size_of b" using br(3) nth_mem [OF p(1)] by blast
    then have "rows_of (pick (?mbs ! fst ms) b) ! snd ms = nth_sample i b" using p(2,3) i by (simp add: rows_of_pick)
    then have "map f (rows_of (pick (?mbs ! fst ms) b)) ! snd ms = f (nth_sample i b)" using p(2) by simp
    then have "source_row ?bs ''output'' ms = Inr (f (nth_sample i b))"
      using p(1,2) by (simp add: source_row_def tensor_of_def get_column_def answer_batch_def)
    then show ?thesis using ms(1) by simp
  qed
  have "for_each (\<lambda>i. case dict_get ?d i of None \<Rightarrow> Inl ''KeyError'' | Some ms \<Rightarrow> source_row ?bs ''output'' ms) [0..<size_of b]
      = Inr (map (\<lambda>i. f (nth_sample i b)) [0..<size_of b])"
    using row by (intro traverse_total) simp
  moreover have "map (\<lambda>i. f (nth_sample i b)) [0..<size_of b] = map f (rows_of b)" by (simp add: rows_of_def)
  ultimately have t: "for_each (\<lambda>i. case dict_get ?d i of None \<Rightarrow> Inl ''KeyError'' | Some ms \<Rightarrow> source_row ?bs ''output'' ms)
      [0..<length (it_token_counts it)] = Inr (map f (rows_of b))"
    unfolding assms(3) by simp
  have take: "take (length (?bs @ pads) - it_num_padding it) (?bs @ pads) = ?bs" using assms(6) by simp
  have bs: "?bs = answer_batch sh f (pick mb b) # map (\<lambda>is. answer_batch sh f (pick is b)) rest" by (simp add: mbs)
  show ?thesis
    unfolding reorder_and_combine_batches_def Let_def take
    unfolding bs list.case using t [unfolded bs]
    by (simp add: rebuild_def on_columns_def answer_batch_def new_batch_def check_consistency_def pick_def)
qed

lemma cat_answers:
  assumes "cs = c # rest"
  shows "cat_batches (map (answer_batch sh f) cs)
    = Inr \<lparr>columns = [(''output'', Some (Tensor sh (map f (concat (map rows_of cs)))))],
           batch_size = Some (length (concat (map rows_of cs))), meta = meta c\<rparr>"
proof -
  define g where "g = (\<lambda>k v. case for_each (shard_column k) (map (answer_batch sh f) cs) of Inl e \<Rightarrow> Inl e | Inr vs \<Rightarrow> cat_column v vs)"
  have "for_each (shard_column ''output'') (map (answer_batch sh f) cs) = Inr (map (\<lambda>c. Tensor sh (map f (rows_of c))) cs)" for cs
    by (induction cs) (simp_all add: shard_column_def get_column_def answer_batch_def)
  then have "g ''output'' (Tensor sh (map f (rows_of c))) = Inr (Tensor sh (map f (concat (map rows_of cs))))"
    by (simp add: g_def cat_column_def list_all_iff map_concat comp_def)
  moreover have "cat_batches (map (answer_batch sh f) cs) = rebuild g (answer_batch sh f c)" by (simp add: cat_batches_def g_def assms)
  ultimately show ?thesis
    by (simp add: rebuild_def on_columns_def answer_batch_def [of sh f c] new_batch_def check_consistency_def)
qed

text \<open>C25: Splitting a batch into micro-batches and recombining the outputs keeps every sample at its place: for an
  inference pass that answers sample by sample the combined output is the answers to the whole batch in its order,
  whether micro-batches have a fixed size or are packed by token count, which reorders the samples and appends
  padding micro-batches; with packing every rank runs at least as many micro-batches as the others.\<close>

theorem microbatches_recombine:
  assumes "trainable b" "0 < k"
  shows "\<exists>it bs out. get_microbatch_iterator others b k max_tokens = Inr it \<and> iterate noise it = Inr bs
    \<and> combine it (map (answer_batch sh f) bs) = Inr out
    \<and> columns out = [(''output'', Some (Tensor sh (map f (rows_of b))))]
    \<and> (0 < max_tokens \<longrightarrow> others \<le> length bs)"
proof (cases "0 < max_tokens")
  case True
  obtain it where it: "new_token_iterator others max_tokens b = Inr it" "it_data it = b" "length (it_token_counts it) = size_of b"
    "mset (concat (it_microbatches it)) = mset [0..<size_of b]" "[] \<notin> set (it_microbatches it)"
    "length (it_microbatches it) + it_num_padding it = max (length (it_microbatches it)) others"
    by (rule new_token_iterator_ok [OF assms(1)])
  obtain p where p: "iter_token_batches noise it = Inr (map (\<lambda>is. pick is b) (it_microbatches it) @ replicate (it_num_padding it) p)"
    by (rule iter_token_batches_ok [OF assms(1) it(2,4,5)])
  let ?bs = "map (\<lambda>is. pick is b) (it_microbatches it) @ replicate (it_num_padding it) p"
  have "combine (Token_based it) (map (answer_batch sh f) ?bs)
      = Inr \<lparr>columns = [(''output'', Some (Tensor sh (map f (rows_of b))))], batch_size = Some (size_of b), meta = meta b\<rparr>"
    using reorder_answers [OF assms(1) it(2-5), of "replicate (it_num_padding it) (answer_batch sh f p)" sh f]
    by (simp add: combine_def comp_def)
  moreover have "get_microbatch_iterator others b k max_tokens = Inr (Token_based it)"
    using True it(1) by (simp add: get_microbatch_iterator_def)
  ultimately show ?thesis using p it(6) by (intro exI [of _ "Token_based it"] exI [of _ ?bs]) (auto simp: iterate_def)
next
  case False
  have wf: "wf_batch b" "0 < size_of b" using assms(1) by (simp_all add: trainable_def)
  let ?cs = "map (\<lambda>i. part i (i + k) b) (range_step (size_of b) k)"
  have cs: "chunk k b = Inr ?cs" using chunk_wf [OF wf(1) assms(2)] .
  obtain js where "range_step (size_of b) k = 0 # js" using range_step_Nil [OF assms(2) wf(2)] by blast
  then have c: "?cs = part 0 k b # map (\<lambda>i. part i (i + k) b) js" by simp
  have "combine (Sample_based b k) (map (answer_batch sh f) ?cs)
      = Inr \<lparr>columns = [(''output'', Some (Tensor sh (map f (rows_of b))))], batch_size = Some (size_of b), meta = meta (part 0 k b)\<rparr>"
    using cat_answers [OF c, of sh f] rows_of_chunks [OF wf(1) assms(2) cs] by (simp add: combine_def)
  then show ?thesis
    using False assms(2) cs
    by (intro exI [of _ "Sample_based b k"] exI [of _ ?cs]) (auto simp: get_microbatch_iterator_def iterate_def)
qed

definition ex_rows :: batch where
  "ex_rows = \<lparr>columns = [(''sequences'', Some (Tensor [2] [[5, 6], [7, 8], [9, 9]])),
      (''attention_mask'', Some (Tensor [2] [[0, 1], [1, 1], [0, 1]])), (''action_log_probs'', Some (Tensor [1] [[0], [0], [0]])),
      (''advantages'', Some (Tensor [1] [[1], [2], [3]])), (''loss_mask'', Some (Tensor [1] [[1], [1], [1]]))],
     batch_size = Some 3, meta = Some [(''response_length'', Number 1)]\<rparr>"

lemma ex_rows_trainable: "trainable ex_rows"
proof -
  have "meta ex_rows = Some [(''response_length'', Number (int 1))]" by (simp add: ex_rows_def)
  moreover have "wf_batch ex_rows" "0 < size_of ex_rows"
    by (auto simp: ex_rows_def wf_batch_def wf_columns_def dict_wf_def size_of_def)
  moreover have "dict_get (columns ex_rows) ''attention_mask'' = Some (Some (Tensor [2] [[0, 1], [1, 1], [0, 1]]))"
    "dict_get (columns ex_rows) ''sequences'' = Some (Some (Tensor (Suc 1 # []) [[5, 6], [7, 8], [9, 9]]))"
    by (simp_all add: ex_rows_def)
  ultimately show ?thesis unfolding trainable_def by fastforce
qed

theorem microbatches_recombine_witness:
  "\<exists>it bs out. get_microbatch_iterator 4 ex_rows 1 2 = Inr it \<and> iterate (\<lambda>n. replicate n 0) it = Inr bs
    \<and> combine it (map (answer_batch [] (\<lambda>r. [real (length r)])) bs) = Inr out
    \<and> columns out = [(''output'', Some (Tensor [] [[5], [5], [5]]))] \<and> 4 \<le> length bs"
proof -
  have "map (\<lambda>r. [real (length r)]) (rows_of ex_rows) = [[5], [5], [5]]"
    by (simp add: rows_of_def nth_sample_def ex_rows_def size_of_def upt_rec)
  then show ?thesis
    using microbatches_recombine [OF ex_rows_trainable, of 1 4 2 "\<lambda>n. replicate n 0" "[]" "\<lambda>r. [real (length r)]"] by simp
qed

end
