(* ===== verification/Train_Properties.thy ===== *)
theory Train_Properties
  imports Train_Step Row_Losses Microbatch_Properties
begin

text \<open>
  The objective of a training step: neither data parallelism nor micro-batching nor packing nor padding can be
  observed in what the optimiser sees.
\<close>

section \<open>Batches ready for training\<close>

definition has_tensor :: "string \<Rightarrow> batch \<Rightarrow> bool" where
  "has_tensor k b = (\<exists>sh rs. dict_get (columns b) k = Some (Some (Tensor sh rs)) \<and> length rs = size_of b)"

definition absent :: "string \<Rightarrow> batch \<Rightarrow> bool" where
  "absent k b = (dict_get (columns b) k = None \<or> dict_get (columns b) k = Some None)"

text \<open>What the loss needs; \<open>rl\<close> tells whether it reads advantages and old log-probabilities, \<open>rollout\<close> whether
  rollout log-probabilities are there.\<close>

definition loss_ready :: "bool \<Rightarrow> bool \<Rightarrow> batch \<Rightarrow> bool" where
  "loss_ready rl rollout b =
     (batch_size b = Some (size_of b) \<and> has_experience b \<and> has_tensor ''loss_mask'' b
      \<and> (rl \<longrightarrow> has_tensor ''advantages'' b \<and> has_tensor ''action_log_probs'' b) \<and> (if rollout then has_tensor ''rollout_logprobs'' b else absent ''rollout_logprobs'' b))"

definition train_ready :: "bool \<Rightarrow> bool \<Rightarrow> batch \<Rightarrow> bool" where
  "train_ready rl rollout b = (trainable b \<and> loss_ready rl rollout b)"

lemma has_tensor_schema: "has_tensor k b \<Longrightarrow> same_schema b b' \<Longrightarrow> wf_batch b' \<Longrightarrow> has_tensor k b'"
  unfolding has_tensor_def using same_schema_get column_length by (metis col_rows.simps(1))

lemma train_ready_schema:
  assumes "train_ready rl rollout b" "same_schema b b'" "wf_batch b'" "0 < size_of b'"
  shows "train_ready rl rollout b'"
proof -
  obtain md k where md: "meta b = Some md" "dict_get md ''response_length'' = Some (Number (int k))"
    using assms(1) by (auto simp: train_ready_def trainable_def)
  have "dict_get (known_meta b') ''response_length'' = Some (Number (int k))"
    using same_schema_meta [OF assms(2), of "''response_length''"] md by (simp add: known_meta_def)
  then have meta': "\<exists>md. meta b' = Some md \<and> dict_get md ''response_length'' = Some (Number (int k))"
    by (cases "meta b'") (simp_all add: known_meta_def)
  obtain n sh rs where seq: "dict_get (columns b) ''sequences'' = Some (Some (Tensor (Suc n # sh) rs))"
    using assms(1) by (auto simp: train_ready_def trainable_def)
  obtain sh' am where "dict_get (columns b) ''attention_mask'' = Some (Some (Tensor sh' am))"
    using assms(1) by (auto simp: train_ready_def trainable_def)
  then have "trainable b'"
    using meta' assms(3,4) same_schema_get [OF assms(2) seq] same_schema_get [OF assms(2), of "''attention_mask''"]
    unfolding trainable_def by blast
  moreover have "has_experience b'" using meta' same_schema_get [OF assms(2) seq] by (auto simp: has_experience_def)
  moreover have "batch_size b' = Some (size_of b')" using wf_batchD [OF assms(3)] by simp
  moreover have "absent ''rollout_logprobs'' b \<Longrightarrow> absent ''rollout_logprobs'' b'"
    using same_schema_absent [OF assms(2)] by (simp add: absent_def)
  ultimately show ?thesis
    using assms(1) has_tensor_schema [OF _ assms(2,3)] by (auto simp: train_ready_def loss_ready_def)
qed

lemma row_at_get: "dict_get (nth_sample i b) k = map_option (map_option (\<lambda>v. col_rows v ! i)) (dict_get (columns b) k)"
proof -
  have "dict_get (map (\<lambda>(k, v). (k, map_option (\<lambda>w. col_rows w ! i) v)) cs) k = map_option (map_option (\<lambda>v. col_rows v ! i)) (dict_get cs k)"
    for cs :: columns
    by (induction cs) auto
  then show ?thesis by (simp add: nth_sample_def)
qed

lemma tensor_cells: "has_tensor k b \<Longrightarrow> get_rows k b = Some (map (row_cell k) (rows_of b))"
proof -
  assume "has_tensor k b"
  then obtain sh rs where t: "dict_get (columns b) k = Some (Some (Tensor sh rs))" "length rs = size_of b"
    by (auto simp: has_tensor_def)
  have "rs = map (row_cell k) (rows_of b)"
    using t by (intro nth_equalityI) (simp_all add: row_cell_def row_at_get)
  then show ?thesis using t(1) by (simp add: get_rows_def)
qed

section \<open>Losses of samples\<close>

definition sample_loss :: "policy_model \<Rightarrow> policy_config \<Rightarrow> random_choices \<Rightarrow> bool \<Rightarrow> sample_row \<Rightarrow> real" where
  "sample_loss m cfg rn rollout r =
     row_loss (pc_loss_type cfg) (pc_loss cfg) rn (pm_log_probs m r) (row_cell ''action_log_probs'' r) (row_cell ''advantages'' r)
       (row_cell ''loss_mask'' r) (if rollout then Some (row_cell ''rollout_logprobs'' r) else None)"

definition total_loss :: "policy_model \<Rightarrow> policy_config \<Rightarrow> random_choices \<Rightarrow> bool \<Rightarrow> sample_row list \<Rightarrow> real" where
  "total_loss m cfg rn rollout rs = sum_list (map (sample_loss m cfg rn rollout) rs)"

lemma total_loss_simps [simp]:
  "total_loss m cfg rn rollout [] = 0"
  "total_loss m cfg rn rollout (rs @ ss) = total_loss m cfg rn rollout rs + total_loss m cfg rn rollout ss"
  by (simp_all add: total_loss_def)

lemma total_loss_concat: "total_loss m cfg rn rollout (concat rss) = (\<Sum>rs\<leftarrow>rss. total_loss m cfg rn rollout rs)"
  by (induction rss) simp_all

lemma total_loss_perm: "mset rs = mset ss \<Longrightarrow> total_loss m cfg rn rollout rs = total_loss m cfg rn rollout ss"
  unfolding total_loss_def by (metis mset_map sum_mset_sum_list)

definition row_local_config :: "policy_config \<Rightarrow> bool \<Rightarrow> bool" where
  "row_local_config cfg rollout = (row_local (pc_loss_type cfg) \<and> loss_ok (pc_loss_type cfg) (pc_loss cfg) rollout)"

text \<open>The loss of any batch of rows, as the loss function computes it.\<close>

definition batch_loss :: "policy_model \<Rightarrow> policy_config \<Rightarrow> random_choices \<Rightarrow> bool \<Rightarrow> sample_row list \<Rightarrow> (string, real) result" where
  "batch_loss m cfg rn rollout rs =
     policy_loss (pc_loss_type cfg) (pc_loss cfg) rn (map (pm_log_probs m) rs) (map (row_cell ''action_log_probs'') rs)
       (map (row_cell ''advantages'') rs) (Some (map (row_cell ''loss_mask'') rs))
       (if rollout then Some (map (row_cell ''rollout_logprobs'') rs) else None)"

lemma batch_loss_total:
  assumes "row_local_config cfg rollout"
  shows "batch_loss m cfg rn rollout rs = Inr (total_loss m cfg rn rollout rs)"
proof -
  let ?ro = "if rollout then Some (map (row_cell ''rollout_logprobs'') rs) else None"
  have "loss_ok (pc_loss_type cfg) (pc_loss cfg) (?ro \<noteq> None)" "row_local (pc_loss_type cfg)"
    using assms by (cases rollout; simp add: row_local_config_def)+
  moreover have "fits (length (map (row_cell ''loss_mask'') rs)) ?ro" by (simp add: fits_def)
  ultimately have "batch_loss m cfg rn rollout rs = Inr (\<Sum>i<length rs. sample_loss m cfg rn rollout (rs ! i))"
    unfolding batch_loss_def by (subst policy_loss_rows) (auto simp: sample_loss_def)
  then show ?thesis by (simp add: total_loss_def sum_list_nth)
qed

definition rl_loss :: "policy_config \<Rightarrow> bool" where
  "rl_loss cfg = (pc_loss_type cfg \<noteq> Cross_entropy)"

lemma cross_entropy_ignores: "policy_loss Cross_entropy c rn lp old adv m ro = Inr (reduce_loss (tmap (\<lambda>x. - x) lp) m)"
  by (simp add: policy_loss_def token_losses_def Let_def)

lemma experience_loss_total:
  assumes "loss_ready (rl_loss cfg) rollout b" "row_local_config cfg rollout"
  shows "experience_loss m cfg rn b = Inr (total_loss m cfg rn rollout (rows_of b))"
proof -
  have m: "get_rows ''loss_mask'' b = Some (map (row_cell ''loss_mask'') (rows_of b))"
    using assms(1) by (simp add: loss_ready_def tensor_cells)
  have ro: "get_rows ''rollout_logprobs'' b = (if rollout then Some (map (row_cell ''rollout_logprobs'') (rows_of b)) else None)"
    using assms(1) tensor_cells [of "''rollout_logprobs''" b]
    by (auto simp: loss_ready_def get_rows_def absent_def split: if_splits)
  show ?thesis
  proof (cases "pc_loss_type cfg = Cross_entropy")
    case True
    then have "experience_loss m cfg rn b = batch_loss m cfg rn rollout (rows_of b)"
      by (simp add: experience_loss_def batch_loss_def Let_def reads_old_def m cross_entropy_ignores)
    then show ?thesis using batch_loss_total [OF assms(2)] by simp
  next
    case False
    then have "get_rows ''advantages'' b = Some (map (row_cell ''advantages'') (rows_of b))"
      "get_rows ''action_log_probs'' b = Some (map (row_cell ''action_log_probs'') (rows_of b))"
      using assms(1) by (simp_all add: loss_ready_def tensor_cells rl_loss_def)
    then show ?thesis using batch_loss_total [OF assms(2), of m rn "rows_of b"] m ro False
      by (simp add: experience_loss_def batch_loss_def Let_def)
  qed
qed

text \<open>Without the KL and entropy terms.\<close>

definition plain :: "policy_config \<Rightarrow> bool" where
  "plain cfg = (\<not> pc_use_kl_loss cfg \<and> \<not> pc_use_entropy_loss cfg)"

lemma micro_loss:
  assumes "loss_ready (rl_loss cfg) rollout b" "row_local_config cfg rollout" "plain cfg"
  shows "\<exists>mo. forward_backward_micro m cfg rn D b w = Inr mo \<and>
    mo_loss mo = total_loss m cfg rn rollout (rows_of b) * (if pc_loss_type cfg = Cross_entropy then w else real D)"
  using assms experience_loss_total [OF assms(1,2), of m rn]
  by (simp add: forward_backward_micro_def Let_def loss_ready_def plain_def kl_loss_of_def)

lemma masked_sample:
  assumes "row_local_config cfg rollout" "set (row_cell ''loss_mask'' r) \<subseteq> {0}"
  shows "sample_loss m cfg rn rollout r = 0"
  unfolding sample_loss_def using assms by (intro row_loss_masked) (auto simp: row_local_config_def)

section \<open>One rank\<close>

lemma group_values_nonempty: "(k, vs) \<in> set (group_values ps) \<Longrightarrow> vs \<noteq> []"
  by (auto simp: group_values_in values_of_def filter_empty_conv)

lemma reduce_metrics_grouped: "\<exists>ms. reduce_metrics s (group_values ps) = Inr ms"
proof -
  define h where "h = (\<lambda>(k, v). (k, if ends_with ''_max'' k then values_max v else if ends_with ''_min'' k then values_min v
      else if s \<and> ends_with ''_loss'' k then sum_list v else sum_list v / real (length v)))"
  have "reduce_metrics s (group_values ps) = Inr (map h (group_values ps))"
    unfolding reduce_metrics_def
    by (intro traverse_total) (auto simp: h_def dest: group_values_nonempty)
  then show ?thesis by blast
qed

lemma rank_loss:
  assumes "get_microbatch_iterator others data (pc_micro_batch_size cfg) (pc_max_tokens cfg) = Inr it" "iterate noise it = Inr bs"
    and "batch_size data = Some n" "\<And>b. b \<in> set bs \<Longrightarrow> loss_ready (rl_loss cfg) rollout b" "row_local_config cfg rollout" "plain cfg"
  shows "\<exists>o'. rank_forward_backward m cfg rn noise D others data = Inr o' \<and>
    ro_loss o' = (\<Sum>b\<leftarrow>bs. total_loss m cfg rn rollout (rows_of b) *
      (if pc_loss_type cfg = Cross_entropy then real (size_of b) / real n else real D))"
proof -
  let ?f = "\<lambda>b. case (batch_size b, batch_size data) of
      (Some k, Some n) \<Rightarrow> forward_backward_micro m cfg rn D b (real k / real n) | _ \<Rightarrow> Inl ''TypeError''"
  let ?l = "\<lambda>b. total_loss m cfg rn rollout (rows_of b) * (if pc_loss_type cfg = Cross_entropy then real (size_of b) / real n else real D)"
  have "\<exists>os. for_each ?f bs = Inr os \<and> map mo_loss os = map ?l bs"
    using assms(4)
  proof (induction bs)
    case (Cons b bs)
    have "batch_size b = Some (size_of b)" using Cons.prems by (simp add: loss_ready_def)
    moreover obtain mo where "forward_backward_micro m cfg rn D b (real (size_of b) / real n) = Inr mo" "mo_loss mo = ?l b"
      using micro_loss [OF _ assms(5,6), of b m rn D "real (size_of b) / real n"] Cons.prems by (meson list.set_intros(1))
    ultimately show ?case using Cons assms(3) by auto
  qed simp
  then obtain os where os: "for_each ?f bs = Inr os" "map mo_loss os = map ?l bs" by blast
  obtain ms where "reduce_metrics (pc_loss_type cfg \<noteq> Cross_entropy) (group_values (concat (map mo_metrics os))) = Inr ms"
    using reduce_metrics_grouped by blast
  then show ?thesis using assms(1,2) os by (simp add: rank_forward_backward_def)
qed

lemma padding_row_loss:
  assumes "create_padding_microbatch noise b = Inr p" "train_ready (rl_loss cfg) rollout b" "row_local_config cfg rollout"
  shows "loss_ready (rl_loss cfg) rollout p \<and> total_loss m cfg rn rollout (rows_of p) = 0"
proof -
  obtain p' k where p': "create_padding_microbatch noise b = Inr p'" "batch_size p' = Some 1"
    "dict_get (columns p') ''loss_mask'' = Some (constant_row 0 k)" "dict_get (columns p') ''advantages'' = Some (constant_row (6 / 10) k)"
    "dict_get (columns p') ''action_log_probs'' = Some (constant_row (4 / 10) k)"
    "dict_get (columns p') ''rollout_logprobs'' = (case dict_get (columns b) ''rollout_logprobs'' of
       Some (Some (Tensor _ _)) \<Rightarrow> Some (constant_row 0 k) | _ \<Rightarrow> None)"
    "dict_get (columns p') ''sequences'' \<noteq> None" "\<exists>md. meta p' = Some md \<and> dict_get md ''response_length'' \<noteq> None"
    by (rule padding_microbatch_ok [OF conjunct1 [OF assms(2) [unfolded train_ready_def]], of noise])
  have pp: "p' = p" using p'(1) assms(1) by simp
  note p = p' [unfolded pp]
  have size: "size_of p = 1" using p(2) by (simp add: size_of_def)
  have "has_experience p" using p(7,8) by (auto simp: has_experience_def)
  moreover have "has_tensor ''loss_mask'' p" "has_tensor ''advantages'' p" "has_tensor ''action_log_probs'' p"
    using p(3-5) size by (simp_all add: has_tensor_def constant_row_def)
  moreover have "if rollout then has_tensor ''rollout_logprobs'' p else absent ''rollout_logprobs'' p"
  proof (cases rollout)
    case True
    then obtain sh rs where "dict_get (columns b) ''rollout_logprobs'' = Some (Some (Tensor sh rs))"
      using assms(2) by (auto simp: train_ready_def loss_ready_def has_tensor_def)
    then show ?thesis using True p(6) size by (simp add: has_tensor_def constant_row_def)
  next
    case False
    then have "absent ''rollout_logprobs'' b" using assms(2) by (simp add: train_ready_def loss_ready_def)
    then show ?thesis using False p(6) by (auto simp: absent_def)
  qed
  ultimately have "loss_ready (rl_loss cfg) rollout p" using p(2) size by (simp add: loss_ready_def)
  moreover have "row_cell ''loss_mask'' (nth_sample 0 p) = replicate k 0" using p(3) by (simp add: row_cell_def row_at_get constant_row_def)
  then have "total_loss m cfg rn rollout (rows_of p) = 0"
    using masked_sample [OF assms(3), of "nth_sample 0 p" m rn] size
    by (simp add: total_loss_def rows_of_def set_replicate_conv_if split: if_splits)
  ultimately show ?thesis by blast
qed

text \<open>The accumulated loss of a rank is the number of ranks times the loss of its samples.\<close>

lemma rank_objective:
  assumes "train_ready (rl_loss cfg) rollout data" "row_local_config cfg rollout" "plain cfg" "pc_loss_type cfg \<noteq> Cross_entropy"
    and "0 < pc_micro_batch_size cfg"
  shows "\<exists>o'. rank_forward_backward m cfg rn noise D others data = Inr o' \<and>
    ro_loss o' = real D * total_loss m cfg rn rollout (rows_of data)"
proof -
  have tr: "trainable data" "wf_batch data" "0 < size_of data" using assms(1) by (auto simp: train_ready_def trainable_def)
  have n: "batch_size data = Some (size_of data)" using wf_batchD [OF tr(2)] by simp
  obtain it bs where it: "get_microbatch_iterator others data (pc_micro_batch_size cfg) (pc_max_tokens cfg) = Inr it" "iterate noise it = Inr bs"
    and ready: "\<And>b. b \<in> set bs \<Longrightarrow> loss_ready (rl_loss cfg) rollout b"
    and sum: "(\<Sum>b\<leftarrow>bs. total_loss m cfg rn rollout (rows_of b)) = total_loss m cfg rn rollout (rows_of data)"
  proof (cases "0 < pc_max_tokens cfg")
    case True
    obtain it where it: "new_token_iterator others (pc_max_tokens cfg) data = Inr it" "it_data it = data"
      "mset (concat (it_microbatches it)) = mset [0..<size_of data]" "[] \<notin> set (it_microbatches it)"
      using new_token_iterator_ok [OF tr(1)] by metis
    obtain p where p: "iter_token_batches noise it = Inr (map (\<lambda>is. pick is data) (it_microbatches it) @ replicate (it_num_padding it) p)"
      "create_padding_microbatch noise data = Inr p"
      by (rule iter_token_batches_ok [OF tr(1) it(2-4)])
    let ?bs = "map (\<lambda>is. pick is data) (it_microbatches it) @ replicate (it_num_padding it) p"
    note pad = padding_row_loss [OF p(2) assms(1,2), of m rn]
    note br = bins_rows [OF it(3)]
    have "train_ready (rl_loss cfg) rollout (pick is data)" if "is \<in> set (it_microbatches it)" for "is"
    proof -
      have "is \<noteq> []" "\<forall>i\<in>set is. i < size_of data" using that it(4) br(3) by auto
      then show ?thesis
        using train_ready_schema [OF assms(1) same_schema_pick pick_wf(2) [OF tr(2)]] by simp
    qed
    then have ready: "loss_ready (rl_loss cfg) rollout b" if "b \<in> set ?bs" for b using that pad by (auto simp: train_ready_def)
    have "(\<Sum>b\<leftarrow>?bs. total_loss m cfg rn rollout (rows_of b))
        = (\<Sum>is\<leftarrow>it_microbatches it. total_loss m cfg rn rollout (map ((!) (rows_of data)) is))"
    proof -
      have "map (\<lambda>is. total_loss m cfg rn rollout (rows_of (pick is data))) (it_microbatches it)
          = map (\<lambda>is. total_loss m cfg rn rollout (map ((!) (rows_of data)) is)) (it_microbatches it)"
        using br(3) by (intro map_cong refl) (simp add: rows_of_pick)
      moreover have "(\<Sum>b\<leftarrow>?bs. total_loss m cfg rn rollout (rows_of b))
          = (\<Sum>is\<leftarrow>it_microbatches it. total_loss m cfg rn rollout (rows_of (pick is data)))"
        using pad by (simp add: comp_def sum_list_replicate)
      ultimately show ?thesis by (simp only:)
    qed
    also have "\<dots> = total_loss m cfg rn rollout (map ((!) (rows_of data)) (concat (it_microbatches it)))"
      by (simp add: map_concat total_loss_concat comp_def)
    also have "\<dots> = total_loss m cfg rn rollout (map ((!) (rows_of data)) [0..<size_of data])"
      using it(3) by (intro total_loss_perm) (metis mset_map)
    also have "map ((!) (rows_of data)) [0..<size_of data] = rows_of data" using map_nth [of "rows_of data"] by simp
    finally show ?thesis
      using that [of "Token_based it" ?bs] True it(1) p(1) ready by (simp add: get_microbatch_iterator_def iterate_def)
  next
    case False
    let ?k = "pc_micro_batch_size cfg"
    let ?cs = "map (\<lambda>i. part i (i + ?k) data) (range_step (size_of data) ?k)"
    have cs: "chunk ?k data = Inr ?cs" using chunk_wf [OF tr(2) assms(5)] .
    have "train_ready (rl_loss cfg) rollout (part i (i + ?k) data)" if "i < size_of data" for i
      using train_ready_schema [OF assms(1) same_schema_part slice_batch_wf(2) [OF tr(2)], of i "i + ?k"] that assms(5) by simp
    then have ready: "loss_ready (rl_loss cfg) rollout b" if "b \<in> set ?cs" for b
      using that range_step_below [OF assms(5)] by (auto simp: train_ready_def)
    have "(\<Sum>b\<leftarrow>?cs. total_loss m cfg rn rollout (rows_of b)) = total_loss m cfg rn rollout (concat (map rows_of ?cs))"
      unfolding total_loss_concat map_map comp_def ..
    then have "(\<Sum>b\<leftarrow>?cs. total_loss m cfg rn rollout (rows_of b)) = total_loss m cfg rn rollout (rows_of data)"
      unfolding rows_of_chunks [OF tr(2) assms(5) cs] .
    then show ?thesis
      using that [of "Sample_based data ?k" ?cs] False assms(5) cs ready by (simp add: get_microbatch_iterator_def iterate_def)
  qed
  show ?thesis
    using rank_loss [OF it n ready assms(2,3), of m rn D] assms(4) sum
    by (auto simp: sum_list_const_mult mult.commute [of _ "real D"])
qed

section \<open>The step\<close>

lemma dvd_quotient_pos: "a dvd b \<Longrightarrow> 0 < b \<Longrightarrow> 0 < b div a" for a b :: nat
  by (auto elim!: dvdE)

lemma chunk_ready:
  assumes "train_ready rl rollout b" "wf_batch b" "chunk k b = Inr cs" "0 < k" "x \<in> set cs"
  shows "train_ready rl rollout x"
proof -
  obtain i where i: "i < size_of b" "x = part i (i + k) b" using chunk_parts(2) [OF assms(2,4,3,5)] by blast
  show ?thesis
    using train_ready_schema [OF assms(1) same_schema_part slice_batch_wf(2) [OF assms(2) _ i(1)], of "i + k"] assms(4) i by simp
qed

lemma traverse_sum:
  fixes g :: "'b \<Rightarrow> real"
  assumes "\<And>c. c \<in> set cs \<Longrightarrow> \<exists>o'. f c = Inr o' \<and> g o' = h c"
  shows "\<exists>os. for_each f cs = Inr os \<and> sum_list (map g os) = (\<Sum>c\<leftarrow>cs. h c)"
proof -
  have "\<exists>os. for_each f cs = Inr os \<and> map g os = map h cs" using assms
  proof (induction cs)
    case (Cons c cs)
    obtain o' where "f c = Inr o'" "g o' = h c" using Cons.prems by fastforce
    moreover obtain os where "for_each f cs = Inr os" "map g os = map h cs" using Cons by fastforce
    ultimately show ?case by simp
  qed simp
  then show ?thesis by (metis map_map)
qed

lemma step_objective:
  assumes "\<forall>c\<in>set cs. train_ready (rl_loss cfg) rollout c" "row_local_config cfg rollout" "plain cfg"
    and "pc_loss_type cfg \<noteq> Cross_entropy" "0 < pc_micro_batch_size cfg" "cs \<noteq> []"
  shows "\<exists>os. train_step m cfg rn noise cs = Inr (total_loss m cfg rn rollout (concat (map rows_of cs)), os)"
proof -
  let ?others = "if pc_max_tokens cfg > 0 then max_num_microbatches (pc_max_tokens cfg) cs else 0"
  obtain os where os: "for_each (rank_forward_backward m cfg rn noise (length cs) ?others) cs = Inr os"
    "sum_list (map ro_loss os) = (\<Sum>c\<leftarrow>cs. real (length cs) * total_loss m cfg rn rollout (rows_of c))"
    using traverse_sum [of cs "rank_forward_backward m cfg rn noise (length cs) ?others" ro_loss
        "\<lambda>c. real (length cs) * total_loss m cfg rn rollout (rows_of c)"] rank_objective [OF _ assms(2-5)] assms(1) by blast
  have "sum_list (map ro_loss os) / real (length cs) = total_loss m cfg rn rollout (concat (map rows_of cs))"
    using assms(6) by (simp add: os(2) sum_list_const_mult total_loss_concat comp_def)
  then show ?thesis using os(1) by (simp add: train_step_def Let_def)
qed

lemma padding_rows_loss:
  assumes "row_local_config cfg rollout" "wf_batch b" "has_tensor ''loss_mask'' b"
  shows "total_loss m cfg rn rollout (replicate p (padding_row b)) = 0"
proof -
  obtain sh rs where "dict_get (columns b) ''loss_mask'' = Some (Some (Tensor sh rs))" using assms(3) by (auto simp: has_tensor_def)
  then have "set (row_cell ''loss_mask'' (padding_row b)) \<subseteq> {0}"
    using padding_row_mask [OF assms(2)] by (simp add: row_cell_def set_replicate_conv_if)
  then show ?thesis using masked_sample [OF assms(1)] by (simp add: total_loss_def sum_list_replicate)
qed


text \<open>With the cross-entropy loss every micro-batch is weighted by its share of the rank's samples.\<close>

lemma sft_rank:
  assumes "train_ready False rollout data" "row_local_config cfg rollout" "plain cfg" "pc_loss_type cfg = Cross_entropy"
    and "pc_max_tokens cfg \<le> 0" "pc_micro_batch_size cfg = k" "0 < k" "size_of data = n" "k dvd n"
  shows "\<exists>o'. rank_forward_backward m cfg rn noise D others data = Inr o' \<and>
    ro_loss o' = real k / real n * total_loss m cfg rn rollout (rows_of data)"
proof -
  have tr: "wf_batch data" "0 < n" using assms(1,8) by (auto simp: train_ready_def trainable_def)
  have n: "batch_size data = Some n" using wf_batchD [OF tr(1)] assms(8) by simp
  obtain q where q: "n = k * q" using assms(9) by blast
  then have "0 < q" "size_of data div q = k" "q dvd size_of data" using tr(2) assms(8) by simp_all
  then obtain cs where cs: "chunk k data = Inr cs" "\<forall>c\<in>set cs. wf_batch c \<and> size_of c = k" "concat (map rows_of cs) = rows_of data"
    using even_chunks [OF tr(1), of q] tr(2) assms(8) by (metis (full_types))
  have it: "get_microbatch_iterator others data (pc_micro_batch_size cfg) (pc_max_tokens cfg) = Inr (Sample_based data k)"
    using assms(5-7) by (simp add: get_microbatch_iterator_def)
  have bs: "iterate noise (Sample_based data k) = Inr cs" using cs(1) by (simp add: iterate_def)
  have ready: "loss_ready (rl_loss cfg) rollout b" if "b \<in> set cs" for b
    using that chunk_ready [OF assms(1) tr(1) cs(1) assms(7)] assms(4) by (simp add: rl_loss_def train_ready_def)
  obtain o' where o': "rank_forward_backward m cfg rn noise D others data = Inr o'"
    "ro_loss o' = (\<Sum>b\<leftarrow>cs. total_loss m cfg rn rollout (rows_of b) * (real (size_of b) / real n))"
    using rank_loss [OF it bs n ready assms(2,3), of m rn D] assms(4) by auto
  have "map (\<lambda>b. total_loss m cfg rn rollout (rows_of b) * (real (size_of b) / real n)) cs
      = map (\<lambda>b. real k / real n * total_loss m cfg rn rollout (rows_of b)) cs"
    using cs(2) by (intro map_cong refl) simp
  then have "ro_loss o' = real k / real n * (\<Sum>b\<leftarrow>cs. total_loss m cfg rn rollout (rows_of b))"
    unfolding o'(2) by (simp only: sum_list_const_mult)
  also have "(\<Sum>b\<leftarrow>cs. total_loss m cfg rn rollout (rows_of b)) = total_loss m cfg rn rollout (rows_of data)"
    unfolding cs(3) [symmetric] total_loss_concat by (simp add: comp_def)
  finally show ?thesis using o'(1) by blast
qed

lemma cross_entropy_step:
  assumes "train_ready False rollout data" "row_local_config cfg rollout" "plain cfg" "pc_loss_type cfg = Cross_entropy"
    and "pc_max_tokens cfg \<le> 0" "pc_micro_batch_size cfg = k" "0 < k" "0 < D" "D dvd size_of data" "k dvd size_of data div D"
  shows "\<exists>cs os. chunk (size_of data div D) data = Inr cs \<and> length cs = D \<and> train_step m cfg rn noise cs
    = Inr (real k / real (size_of data) * total_loss m cfg rn rollout (rows_of data), os)"
proof -
  have tr: "wf_batch data" "0 < size_of data" using assms(1) by (auto simp: train_ready_def trainable_def)
  obtain cs where cs: "chunk (size_of data div D) data = Inr cs" "length cs = D"
    "\<forall>c\<in>set cs. wf_batch c \<and> size_of c = size_of data div D" "concat (map rows_of cs) = rows_of data"
    by (rule even_chunks [OF tr assms(8,9)])
  have pos: "0 < size_of data div D" using tr(2) assms(8,9) by (simp add: dvd_quotient_pos)
  have "\<exists>o'. rank_forward_backward m cfg rn noise D others c = Inr o' \<and>
      ro_loss o' = real k / real (size_of data div D) * total_loss m cfg rn rollout (rows_of c)" if "c \<in> set cs" for c others
    using that cs(3) sft_rank [OF chunk_ready [OF assms(1) tr(1) cs(1) pos that] assms(2-7) _ assms(10)] by simp
  then obtain os where os: "for_each (rank_forward_backward m cfg rn noise D 0) cs = Inr os"
    "sum_list (map ro_loss os) = (\<Sum>c\<leftarrow>cs. real k / real (size_of data div D) * total_loss m cfg rn rollout (rows_of c))"
    using traverse_sum [of cs "rank_forward_backward m cfg rn noise D 0" ro_loss
        "\<lambda>c. real k / real (size_of data div D) * total_loss m cfg rn rollout (rows_of c)"] by blast
  have "(\<Sum>c\<leftarrow>cs. total_loss m cfg rn rollout (rows_of c)) = total_loss m cfg rn rollout (rows_of data)"
    unfolding cs(4) [symmetric] total_loss_concat by (simp add: comp_def)
  then have "sum_list (map ro_loss os) = real k / real (size_of data div D) * total_loss m cfg rn rollout (rows_of data)"
    unfolding os(2) sum_list_const_mult by simp
  moreover have "real (size_of data div D) = real (size_of data) / real D" using assms(9) by (rule real_of_nat_div)
  ultimately have "sum_list (map ro_loss os) / real D = real k / real (size_of data) * total_loss m cfg rn rollout (rows_of data)"
    using assms(8) by simp
  then show ?thesis using cs(1,2) os(1) assms(5) by (simp add: train_step_def Let_def)
qed

text \<open>With the cross-entropy loss the objective is the summed loss times the micro-batch size over the batch size,
  so it is no plain sum over the tokens: it depends on the size of the micro-batches, which the collator of
  the supervised trainer undoes by its scaling of the loss mask and other callers do not.\<close>

theorem cross_entropy_scaled_by_micro_batch:
  assumes "train_ready False rollout data" "row_local_config cfg rollout" "plain cfg" "pc_loss_type cfg = Cross_entropy"
    and "pc_max_tokens cfg \<le> 0" "pc_micro_batch_size cfg = k" "0 < k" "0 < D" "D dvd size_of data" "k dvd size_of data div D"
  shows "\<exists>cs os. chunk (size_of data div D) data = Inr cs \<and> length cs = D \<and> train_step m cfg rn noise cs
    = Inr (real k / real (size_of data) * total_loss m cfg rn rollout (rows_of data), os)"
  by (rule cross_entropy_step [OF assms])

lemma ex_rows_ready: "train_ready rl False ex_rows" "paddable ex_rows"
proof -
  have "size_of ex_rows = 3" by (simp add: ex_rows_def size_of_def)
  then show "train_ready rl False ex_rows"
    using ex_rows_trainable
    by (auto simp: train_ready_def loss_ready_def has_experience_def has_tensor_def absent_def) (simp_all add: ex_rows_def)
  show "paddable ex_rows" by (simp add: paddable_def ex_rows_def known_meta_def pad_metadata_def pad_meta_def)
qed

definition ex_policy :: "policy_loss_type \<Rightarrow> policy_config" where
  "ex_policy ty = \<lparr>pc_loss_type = ty, pc_loss = ex_loss, pc_use_kl_loss = False, pc_kl_estimator = K1, pc_kl_loss_coef = 0,
     pc_use_entropy_loss = False, pc_entropy_loss_coef = 0, pc_micro_batch_size = 1, pc_max_tokens = 2\<rparr>"

lemma ex_policy_ok: "row_local_config (ex_policy Regular) False" "row_local_config (ex_policy Cross_entropy) False" "plain (ex_policy ty)"
  by (simp_all add: row_local_config_def row_local_def loss_ok_def ex_policy_def plain_def)

definition ex_model :: policy_model where
  "ex_model = \<lparr>pm_log_probs = row_cell ''action_log_probs'', pm_entropy = row_cell ''action_log_probs''\<rparr>"


theorem cross_entropy_scaled_by_micro_batch_witness:
  "\<exists>cs os. chunk 1 ex_rows = Inr cs \<and> length cs = 3
    \<and> train_step ex_model (ex_policy Cross_entropy\<lparr>pc_max_tokens := 0\<rparr>) ex_choices (\<lambda>n. replicate n 0) cs
    = Inr (1 / 3 * total_loss ex_model (ex_policy Cross_entropy\<lparr>pc_max_tokens := 0\<rparr>) ex_choices False (rows_of ex_rows), os)"
proof -
  let ?cfg = "ex_policy Cross_entropy\<lparr>pc_max_tokens := 0\<rparr>"
  have "row_local_config ?cfg False" "plain ?cfg" "pc_loss_type ?cfg = Cross_entropy" "pc_max_tokens ?cfg \<le> 0" "pc_micro_batch_size ?cfg = 1"
    using ex_policy_ok by (simp_all add: row_local_config_def ex_policy_def plain_def)
  moreover have "size_of ex_rows = 3" by (simp add: ex_rows_def size_of_def)
  ultimately show ?thesis
    using cross_entropy_scaled_by_micro_batch [OF ex_rows_ready(1), of ?cfg 1 3 ex_model ex_choices "\<lambda>n. replicate n 0"] by simp
qed

section \<open>The order of outputs\<close>

lemma sft_micro:
  assumes "pc_loss_type cfg = Cross_entropy" "has_experience b"
  shows "\<exists>mo. forward_backward_micro m cfg rn D b w = Inr mo \<and> mo_outputs mo = sft_outputs b (map (pm_log_probs m) (rows_of b))"
proof -
  have "experience_loss m cfg rn b = Inr (reduce_loss (tmap (\<lambda>x. - x) (map (pm_log_probs m) (rows_of b))) (get_rows ''loss_mask'' b))"
    using assms(1) by (simp add: experience_loss_def Let_def reads_old_def cross_entropy_ignores)
  then show ?thesis using assms by (simp add: forward_backward_micro_def Let_def)
qed

lemma sft_rank_outputs:
  assumes "pc_loss_type cfg = Cross_entropy" "batch_size data = Some n"
    and "get_microbatch_iterator others data (pc_micro_batch_size cfg) (pc_max_tokens cfg) = Inr it" "iterate noise it = Inr bs"
    and "\<forall>b\<in>set bs. has_experience b \<and> batch_size b \<noteq> None"
  shows "\<exists>o'. rank_forward_backward m cfg rn noise D others data = Inr o'
    \<and> ro_outputs o' = concat (map (\<lambda>b. sft_outputs b (map (pm_log_probs m) (rows_of b))) bs)"
proof -
  let ?f = "\<lambda>b. case (batch_size b, batch_size data) of
      (Some k, Some n) \<Rightarrow> forward_backward_micro m cfg rn D b (real k / real n) | _ \<Rightarrow> Inl ''TypeError''"
  have "\<exists>os. for_each ?f bs = Inr os \<and> map mo_outputs os = map (\<lambda>b. sft_outputs b (map (pm_log_probs m) (rows_of b))) bs"
    using assms(5)
  proof (induction bs)
    case (Cons b bs)
    obtain k where "batch_size b = Some k" using Cons.prems by auto
    moreover obtain mo where "forward_backward_micro m cfg rn D b (real k / real n) = Inr mo"
      "mo_outputs mo = sft_outputs b (map (pm_log_probs m) (rows_of b))"
      using sft_micro [OF assms(1)] Cons.prems by (meson list.set_intros(1))
    ultimately show ?case using Cons assms(2) by auto
  qed simp
  then obtain os where os: "for_each ?f bs = Inr os" "map mo_outputs os = map (\<lambda>b. sft_outputs b (map (pm_log_probs m) (rows_of b))) bs" by blast
  obtain ms where "reduce_metrics (pc_loss_type cfg \<noteq> Cross_entropy) (group_values (concat (map mo_metrics os))) = Inr ms"
    using reduce_metrics_grouped by blast
  then show ?thesis using assms(3,4) os by (simp add: rank_forward_backward_def)
qed

text \<open>When micro-batches are packed by token count the outputs of a rank are in packing order, not in the order of its
  samples: here the second sample, being the longest, comes first.\<close>

theorem outputs_leave_sample_order:
  "\<exists>m data o'. rank_forward_backward m (ex_policy Cross_entropy) ex_choices (\<lambda>n. replicate n 0) 1 0 data = Inr o'
    \<and> map (pm_log_probs m) (rows_of data) = [[1], [2], [3]]
    \<and> map (\<lambda>d. dict_get d ''logprobs'') (ro_outputs o') = [Some [2], Some [1], Some [3]]"
proof -
  let ?m = "\<lparr>pm_log_probs = row_cell ''advantages'', pm_entropy = row_cell ''advantages''\<rparr>"
  have "case get_microbatch_iterator 0 ex_rows 1 2 of Inl e \<Rightarrow> False
      | Inr it \<Rightarrow> iterate (\<lambda>n. replicate n 0) it = Inr [pick [1] ex_rows, pick [0, 2] ex_rows]"
    by code_simp
  then obtain it where it: "get_microbatch_iterator 0 ex_rows 1 2 = Inr it"
    "iterate (\<lambda>n. replicate n 0) it = Inr [pick [1] ex_rows, pick [0, 2] ex_rows]"
    by (auto split: sum.splits)
  have "list_all (\<lambda>b. has_experience b \<and> batch_size b \<noteq> None) [pick [1] ex_rows, pick [0, 2] ex_rows]" by code_simp
  then have ok: "\<forall>b\<in>set [pick [1] ex_rows, pick [0, 2] ex_rows]. has_experience b \<and> batch_size b \<noteq> None" by (simp only: list_all_iff)
  have cfg: "pc_loss_type (ex_policy Cross_entropy) = Cross_entropy" "pc_micro_batch_size (ex_policy Cross_entropy) = 1"
    "pc_max_tokens (ex_policy Cross_entropy) = 2" "batch_size ex_rows = Some 3"
    by (simp_all add: ex_policy_def ex_rows_def)
  obtain o' where o': "rank_forward_backward ?m (ex_policy Cross_entropy) ex_choices (\<lambda>n. replicate n 0) 1 0 ex_rows = Inr o'"
    "ro_outputs o' = concat (map (\<lambda>b. sft_outputs b (map (pm_log_probs ?m) (rows_of b))) [pick [1] ex_rows, pick [0, 2] ex_rows])"
    using sft_rank_outputs [OF cfg(1,4), unfolded cfg(2,3), OF it ok] by blast
  have "map (\<lambda>d. dict_get d ''logprobs'') (concat (map (\<lambda>b. sft_outputs b (map (row_cell ''advantages'') (rows_of b)))
      [pick [1] ex_rows, pick [0, 2] ex_rows])) = [Some [2], Some [1], Some [3]]"
    by code_simp
  moreover have "map (row_cell ''advantages'') (rows_of ex_rows) = [[1], [2], [3]]" by code_simp
  ultimately show ?thesis using o' by (intro exI [of _ ?m] exI [of _ ex_rows] exI [of _ o']) simp
qed

end
