(* ===== verification/Sft_Collate.thy ===== *)
theory Sft_Collate
  imports Tensor_Batch Bin_Packing
begin

text \<open>
  Collation of tokenized examples for supervised fine-tuning (\<^verbatim>\<open>collate_sft_batch\<close> of \<^verbatim>\<open>train/sft_trainer.py\<close>
  and the collators of \<^verbatim>\<open>train/dataset/collators.py\<close>).
\<close>

record sft_example =
  ex_input_ids :: "int list"
  ex_attention_mask :: "nat list"
  ex_loss_mask :: "nat list"
  ex_num_actions :: nat
  ex_pixel_values :: "real list option"
  ex_image_grid_thw :: "real list option"

section \<open>Left-padded batches\<close>

text \<open>\<open>torch.tensor\<close> of a list of rows, which must be equally long.\<close>

definition torch_matrix :: "real list list \<Rightarrow> (string, column) result" where
  "torch_matrix rs =
     (case rs of
        [] \<Rightarrow> Inr (Tensor [] [])
      | r # _ \<Rightarrow> (if list_all (\<lambda>s. length s = length r) rs then Inr (Tensor [length r] rs)
                 else Inl ''expected sequence of another length''))"

definition left_pad :: "nat \<Rightarrow> real \<Rightarrow> real list \<Rightarrow> real list" where
  "left_pad n x xs = replicate (n - length xs) x @ xs"

definition list_maximum :: "nat list \<Rightarrow> (string, nat) result" where
  "list_maximum ns = (case ns of [] \<Rightarrow> Inl ''max() arg is an empty sequence'' | n # ns \<Rightarrow> Inr (fold max ns n))"

definition image_columns :: "sft_example list \<Rightarrow> (string, column option \<times> column option) result" where
  "image_columns es =
     (let k = length (filter (\<lambda>e. ex_pixel_values e \<noteq> None) es)
      in if k \<noteq> 0 \<and> k \<noteq> length es then Inl ''Mixed text+image batches are not supported''
         else if k = 0 then Inr (None, None)
         else if list_all (\<lambda>e. ex_image_grid_thw e \<noteq> None) es
         then Inr (Some (TensorList (map (the \<circ> ex_pixel_values) es)), Some (TensorList (map (the \<circ> ex_image_grid_thw) es)))
         else Inl ''KeyError'')"

definition collate_sft_batch :: "int \<Rightarrow> sft_example list \<Rightarrow> (string, batch) result" where
  "collate_sft_batch pad es =
     (case (list_maximum (map (length \<circ> ex_input_ids) es), list_maximum (map ex_num_actions es)) of
        (Inr max_len, Inr max_actions) \<Rightarrow>
          (case image_columns es of
             Inl e \<Rightarrow> Inl e
           | Inr (pixels, grids) \<Rightarrow>
               (case (torch_matrix (map (\<lambda>e. left_pad max_len (real_of_int pad) (map real_of_int (ex_input_ids e))) es),
                      torch_matrix (map (\<lambda>e. replicate (max_len - length (ex_input_ids e)) 0 @ map real (ex_attention_mask e)) es),
                      torch_matrix (map (\<lambda>e. replicate (max_actions - ex_num_actions e) 0 @ map real (ex_loss_mask e)) es)) of
                  (Inr ids, Inr attention, Inr weights) \<Rightarrow>
                    new_batch [(''sequences'', Some ids), (''attention_mask'', Some attention), (''loss_mask'', Some weights),
                        (''pixel_values'', pixels), (''image_grid_thw'', grids)]
                      (Some [(''response_length'', Number (int max_actions))])
                | (Inl e, _, _) \<Rightarrow> Inl e
                | (_, Inl e, _) \<Rightarrow> Inl e
                | (_, _, Inl e) \<Rightarrow> Inl e))
      | (Inl e, _) \<Rightarrow> Inl e
      | (_, Inl e) \<Rightarrow> Inl e)"

definition mask_total :: "tensor \<Rightarrow> real" where
  "mask_total rs = max (sum_list (map sum_list rs)) 1"

definition default_collate :: "int \<Rightarrow> nat \<Rightarrow> sft_example list \<Rightarrow> nat \<Rightarrow> (string, batch) result" where
  "default_collate pad micro es n =
     (case collate_sft_batch pad es of
        Inl e \<Rightarrow> Inl e
      | Inr b \<Rightarrow>
          (case get_column ''loss_mask'' b of
             Inr (Some (Tensor sh rs)) \<Rightarrow>
               (if micro = 0 then Inl ''division by zero''
                else set_column ''loss_mask'' (Some (Tensor sh
                  (map (map (\<lambda>x. x * (real n / (real micro * mask_total rs)))) rs))) b)
           | Inr _ \<Rightarrow> Inl ''AttributeError''
           | Inl e \<Rightarrow> Inl e))"

section \<open>Packed batches\<close>

record pack_settings =
  ps_max_tokens :: int
  ps_tp :: nat
  ps_pp :: nat
  ps_cp :: nat
  ps_dp :: nat
  ps_batch_size :: nat
  ps_micro :: nat
  ps_pad :: int

definition align_size :: "pack_settings \<Rightarrow> nat" where
  "align_size c = (if ps_cp c > 1 then ps_tp c * ps_cp c * 2 else ps_tp c)"

definition round_up_to :: "nat \<Rightarrow> nat \<Rightarrow> nat" where
  "round_up_to x m = ((x + m - 1) div m) * m"

definition full_loss_mask :: "sft_example \<Rightarrow> (string, nat list) result" where
  "full_loss_mask e =
     (let m = replicate (length (ex_input_ids e) - ex_num_actions e) 0 @ ex_loss_mask e
      in if length m = length (ex_input_ids e) then Inr m else Inl ''Reconstructed full loss_mask length'')"

text \<open>Bins go to the shards in turn; the rows are laid out shard by shard.\<close>

definition shard_major :: "nat \<Rightarrow> 'a list \<Rightarrow> 'a list" where
  "shard_major n bs = concat (map (\<lambda>s. map ((!) bs) (filter (\<lambda>i. i mod n = s) [0..<length bs])) [0..<n])"

definition put_range :: "nat \<Rightarrow> 'a list \<Rightarrow> 'a list \<Rightarrow> 'a list" where
  "put_range off ys xs = take off xs @ ys @ drop (off + length ys) xs"

text \<open>The loop over the positions of one sub-sequence: a weight sits at the position that predicts its token.\<close>

definition write_mask :: "nat \<Rightarrow> nat list \<Rightarrow> real list \<Rightarrow> real list" where
  "write_mask off m row =
     fold (\<lambda>p row. if off + p < length row then row[off + p := real (m ! Suc p)] else row) [0..<length m - 1] row"

type_synonym packed_row = "real list \<times> real list \<times> real list \<times> nat"

definition write_example :: "nat \<Rightarrow> sft_example list \<Rightarrow> nat list list \<Rightarrow> nat \<Rightarrow> packed_row \<Rightarrow> packed_row" where
  "write_example align es masks i = (\<lambda>(ids, att, weights, off).
     (put_range off (map real_of_int (ex_input_ids (es ! i))) ids,
      put_range off (replicate (length (ex_input_ids (es ! i))) 1) att,
      write_mask off (masks ! i) weights,
      off + round_up_to (length (ex_input_ids (es ! i))) align))"

definition write_row :: "nat \<Rightarrow> int \<Rightarrow> nat \<Rightarrow> sft_example list \<Rightarrow> nat list list \<Rightarrow> nat list \<Rightarrow> packed_row" where
  "write_row align pad width es masks is =
     fold (write_example align es masks) is (replicate width (real_of_int pad), replicate width 0, replicate (width - 1) 0, 0)"

definition packed_length :: "nat \<Rightarrow> sft_example list \<Rightarrow> nat list \<Rightarrow> nat" where
  "packed_length align es is = sum_list (map (\<lambda>i. round_up_to (length (ex_input_ids (es ! i))) align) is)"

definition packed_width :: "pack_settings \<Rightarrow> sft_example list \<Rightarrow> nat list list \<Rightarrow> nat" where
  "packed_width c es bs =
     (let w = fold max (map (packed_length (align_size c) es) bs) 0
      in if ps_pp c > 1 then round_up_to w (align_size c) else w)"

definition packed_collate :: "pack_settings \<Rightarrow> sft_example list \<Rightarrow> nat \<Rightarrow> (string, batch) result" where
  "packed_collate c es n =
     (if n \<noteq> ps_batch_size c then default_collate (ps_pad c) (ps_micro c) es n
      else
        case for_each full_loss_mask es of
          Inl e \<Rightarrow> Inl e
        | Inr masks \<Rightarrow>
            (case make_seq_packer ''first_fit_decreasing'' (ps_max_tokens c) (Some (int (ps_dp c))) (Some (int (ps_dp c))) of
               Inl _ \<Rightarrow> Inl ''ValueError''
             | Inr (alg, p) \<Rightarrow>
                 (case pack alg p (map (int \<circ> length \<circ> ex_input_ids) es) of
                    Inl _ \<Rightarrow> Inl ''ValueError''
                  | Inr bins \<Rightarrow>
                      (let bs = shard_major (ps_dp c) bins; width = packed_width c es bs;
                           rows = map (write_row (align_size c) (ps_pad c) width es masks) bs;
                           scale = real (length bs) / mask_total (map (fst \<circ> snd \<circ> snd) rows)
                       in if ps_tp c = 0 then Inl ''integer division or modulo by zero''
                          else if [] \<in> set bs then Inl ''FFD produced an empty bin''
                          else if width = 0 then Inl ''Trying to create tensor with negative dimension''
                          else if bs = [] then Inl ''Cannot create a TensorList with no tensors.''
                          else new_batch
                            [(''sequences'', Some (Tensor [width] (map fst rows))),
                             (''attention_mask'', Some (Tensor [width] (map (fst \<circ> snd) rows))),
                             (''loss_mask'', Some (Tensor [width - 1] (map (map (\<lambda>x. x * scale) \<circ> fst \<circ> snd \<circ> snd) rows))),
                             (''sub_seq_lengths'', Some (TensorList (map (map (\<lambda>i. real (length (ex_input_ids (es ! i))))) bs)))]
                            (Some [(''response_length'', Number (int width - 1))])))))"

section \<open>Examples\<close>

definition ex_chat :: "int list \<Rightarrow> nat list \<Rightarrow> sft_example" where
  "ex_chat ids m = \<lparr>ex_input_ids = ids, ex_attention_mask = replicate (length ids) 1, ex_loss_mask = m, ex_num_actions = length m,
     ex_pixel_values = None, ex_image_grid_thw = None\<rparr>"

lemma ex_chat_simps [simp]:
  "ex_input_ids (ex_chat ids m) = ids" "ex_loss_mask (ex_chat ids m) = m" "ex_num_actions (ex_chat ids m) = length m"
  "length (ex_attention_mask (ex_chat ids m)) = length ids" "ex_pixel_values (ex_chat ids m) = None"
  by (simp_all add: ex_chat_def)

end
