(* ===== verification/Sft_Packing.thy ===== *)
theory Sft_Packing
  imports Sft_Collate Batch_Properties
begin

text \<open>
  The packed collator loses nothing: rows written in place equal rows built by concatenation, and every example
  sits in exactly one row.
\<close>

section \<open>Lists written in place\<close>

lemma put_range_append:
  "length xs = off \<Longrightarrow> length ys \<le> n \<Longrightarrow> put_range off ys (xs @ replicate n x) = xs @ ys @ replicate (n - length ys) x"
  by (simp add: put_range_def)

lemma round_up_to_ge: "0 < m \<Longrightarrow> x \<le> round_up_to x m"
proof -
  assume m: "0 < m"
  have "x + m - 1 = (x + m - 1) div m * m + (x + m - 1) mod m" by simp
  moreover have "(x + m - 1) mod m < m" using m by simp
  ultimately show ?thesis unfolding round_up_to_def by linarith
qed

lemma round_up_to_dvd: "m dvd round_up_to x m"
  by (simp add: round_up_to_def)

lemma fold_update:
  assumes "n \<le> length ys"
  shows "fold (\<lambda>p row. if off + p < length row then row[off + p := ys ! p] else row) [0..<n] row
    = take off row @ take (length row - off) (take n ys) @ drop (off + n) row"
  using assms
proof (induction n)
  case (Suc n)
  let ?r = "take off row @ take (length row - off) (take n ys) @ drop (off + n) row"
  have len: "length ?r = length row" using Suc.prems by (auto simp: min_def)
  have "fold (\<lambda>p row. if off + p < length row then row[off + p := ys ! p] else row) [0..<n] row = ?r" using Suc by simp
  then have IH: "fold (\<lambda>p row. if off + p < length row then row[off + p := ys ! p] else row) [0..<Suc n] row
      = (if off + n < length ?r then ?r[off + n := ys ! n] else ?r)"
    by (simp only: upt_Suc_append fold_append fold_simps o_apply zero_le)
  show ?case
  proof (cases "off + n < length row")
    case True
    then have "\<not> length row - off \<le> n" by linarith
    have "?r[off + n := ys ! n] = take off row @ take n ys @ (drop (off + n) row)[0 := ys ! n]"
      using True Suc.prems \<open>\<not> length row - off \<le> n\<close> by (simp add: list_update_append min_def)
    also have "(drop (off + n) row)[0 := ys ! n] = ys ! n # drop (off + Suc n) row"
      using True by (simp add: Cons_nth_drop_Suc [symmetric])
    also have "take off row @ take n ys @ ys ! n # drop (off + Suc n) row
        = take off row @ take (length row - off) (take (Suc n) ys) @ drop (off + Suc n) row"
      using Suc.prems \<open>\<not> length row - off \<le> n\<close> by (simp add: take_Suc_conv_app_nth min_def)
    moreover have "off + n < length ?r" unfolding len using True .
    ultimately show ?thesis using IH by (simp only: if_True)
  next
    case False
    then have "length row - off \<le> n" by linarith
    then have "take (length row - off) (take (Suc n) ys) = take (length row - off) (take n ys)" by (simp add: min_def)
    moreover have "\<not> off + n < length ?r" unfolding len using False .
    moreover have "drop (off + Suc n) row = drop (off + n) row" using False by simp
    ultimately show ?thesis using IH by (simp only: if_False)
  qed
qed simp

section \<open>Reference rows\<close>

text \<open>The weights of the positions of an example: each is that of the next token, none at the end.\<close>

definition predicts :: "nat list \<Rightarrow> real list" where
  "predicts m = map real (tl m) @ [0]"

definition block :: "nat \<Rightarrow> 'a \<Rightarrow> 'a list \<Rightarrow> 'a list" where
  "block align x xs = xs @ replicate (round_up_to (length xs) align - length xs) x"

definition reference_row :: "nat \<Rightarrow> nat \<Rightarrow> 'a \<Rightarrow> 'a list list \<Rightarrow> 'a list" where
  "reference_row align width x xss =
     (let row = concat (map (block align x) xss) in row @ replicate (width - length row) x)"

lemma length_block: "0 < align \<Longrightarrow> length (block align x xs) = round_up_to (length xs) align"
  using round_up_to_ge [of align "length xs"] by (simp add: block_def)

lemma length_predicts: "m \<noteq> [] \<Longrightarrow> length (predicts m) = length m"
  by (cases m) (simp_all add: predicts_def)

lemma write_mask_predicts:
  assumes "m \<noteq> []"
  shows "write_mask off m row = take off row @ take (length row - off) (map real (tl m)) @ drop (off + (length m - 1)) row"
proof -
  have "write_mask off m row
      = fold (\<lambda>p row. if off + p < length row then row[off + p := map real (tl m) ! p] else row) [0..<length m - 1] row"
    unfolding write_mask_def
    by (intro fold_cong) (auto simp: nth_tl)
  then show ?thesis using assms fold_update [of "length m - 1" "map real (tl m)" off row] by simp
qed

lemma write_mask_take: "write_mask off m (take k row) = take k (write_mask off m row)"
  unfolding write_mask_def
proof (rule fold_commute_apply [symmetric, of _ "take k"])
  show "take k \<circ> (\<lambda>row. if off + p < length row then row[off + p := real (m ! Suc p)] else row)
      = (\<lambda>row. if off + p < length row then row[off + p := real (m ! Suc p)] else row) \<circ> take k" for p
    by (rule ext) (simp add: take_update_swap list_update_beyond)
qed

text \<open>The rows after some examples: the blocks written, then fill; the weights lack the last position of the row.\<close>

definition partial_row :: "nat \<Rightarrow> nat \<Rightarrow> int \<Rightarrow> sft_example list \<Rightarrow> nat list list \<Rightarrow> nat list \<Rightarrow> packed_row" where
  "partial_row align width pad es masks is =
     (reference_row align width (real_of_int pad) (map (\<lambda>i. map real_of_int (ex_input_ids (es ! i))) is),
      reference_row align width 0 (map (\<lambda>i. replicate (length (ex_input_ids (es ! i))) 1) is),
      take (width - 1) (reference_row align width 0 (map (\<lambda>i. predicts (masks ! i)) is)),
      packed_length align es is)"

lemma length_blocks: "0 < align \<Longrightarrow> length (concat (map (block align x) xss)) = sum_list (map (\<lambda>xs. round_up_to (length xs) align) xss)"
  by (simp add: length_concat comp_def length_block)

lemma reference_row_snoc:
  assumes "0 < align" "length (concat (map (block align x) (xss @ [ys]))) \<le> width"
  shows "put_range (length (concat (map (block align x) xss))) ys (reference_row align width x xss) = reference_row align width x (xss @ [ys])"
proof -
  let ?c = "concat (map (block align x) xss)"
  have le: "length ?c + round_up_to (length ys) align \<le> width" using assms by (simp add: length_block)
  have ru: "length ys \<le> round_up_to (length ys) align" using assms(1) by (rule round_up_to_ge)
  have "put_range (length ?c) ys (?c @ replicate (width - length ?c) x) = ?c @ ys @ replicate (width - length ?c - length ys) x"
    using le ru by (intro put_range_append) simp_all
  also have "replicate (width - length ?c - length ys) x
      = replicate (round_up_to (length ys) align - length ys) x @ replicate (width - length ?c - round_up_to (length ys) align) x"
    unfolding replicate_add [symmetric] using le ru by simp
  finally show ?thesis using assms(1) ru by (simp add: reference_row_def block_def [of align x ys] Let_def length_block)
qed

lemma reference_weights_snoc:
  assumes "0 < align" "length (concat (map (block align 0) (xss @ [predicts m]))) \<le> width" "m \<noteq> []"
  shows "write_mask (length (concat (map (block align 0) xss))) m (reference_row align width 0 xss) = reference_row align width 0 (xss @ [predicts m])"
proof -
  let ?c = "concat (map (block align 0) xss)"
  have le: "length ?c + round_up_to (length m) align \<le> width" using assms by (simp add: length_block length_predicts)
  have ru: "length m \<le> round_up_to (length m) align" using assms(1) by (rule round_up_to_ge)
  have "0 < length m" using assms(3) by simp
  then have "width - (length ?c + (length m - Suc 0)) = Suc (width - (length ?c + length m))" using le ru by linarith
  then have m: "replicate (width - (length ?c + (length m - Suc 0))) (0::real) = 0 # replicate (width - (length ?c + length m)) 0"
    by (simp only: replicate_Suc)
  have "write_mask (length ?c) m (reference_row align width 0 xss) = put_range (length ?c) (predicts m) (reference_row align width 0 xss)"
    unfolding write_mask_predicts [OF assms(3)] reference_row_def Let_def put_range_def
    using assms(3) m le ru by (simp add: predicts_def)
  then show ?thesis using reference_row_snoc [OF assms(1,2)] by simp
qed

lemma packed_length_blocks:
  assumes "0 < align" "\<forall>i\<in>set is. length (g i) = length (ex_input_ids (es ! i))"
  shows "length (concat (map (block align x) (map g is))) = packed_length align es is"
  using assms(2) by (induction "is") (simp_all add: packed_length_def length_block [OF assms(1)])

lemma write_row_reference:
  assumes "0 < align" "\<forall>i\<in>set is. length (masks ! i) = length (ex_input_ids (es ! i)) \<and> masks ! i \<noteq> []" "packed_length align es is \<le> width"
  shows "write_row align pad width es masks is = partial_row align width pad es masks is"
  using assms(2,3)
proof (induction "is" rule: rev_induct)
  case Nil
  show ?case by (simp add: write_row_def partial_row_def reference_row_def packed_length_def)
next
  case (snoc i "is")
  have m: "length (masks ! i) = length (ex_input_ids (es ! i))" "masks ! i \<noteq> []" using snoc.prems by auto
  have le: "packed_length align es is + round_up_to (length (ex_input_ids (es ! i))) align \<le> width"
    using snoc.prems(2) by (simp add: packed_length_def)
  have IH: "write_row align pad width es masks is = partial_row align width pad es masks is"
    using snoc le by simp
  have off: "packed_length align es is = length (concat (map (block align (real_of_int pad)) (map (\<lambda>i. map real_of_int (ex_input_ids (es ! i))) is)))"
    "packed_length align es is = length (concat (map (block align 0) (map (\<lambda>i. replicate (length (ex_input_ids (es ! i))) (1::real)) is)))"
    "packed_length align es is = length (concat (map (block align 0) (map (\<lambda>i. predicts (masks ! i)) is)))"
    using snoc.prems(1) by (intro packed_length_blocks [OF assms(1), symmetric] ballI; simp add: length_predicts)+
  have ids: "put_range (packed_length align es is) (map real_of_int (ex_input_ids (es ! i)))
      (reference_row align width (real_of_int pad) (map (\<lambda>i. map real_of_int (ex_input_ids (es ! i))) is))
    = reference_row align width (real_of_int pad) (map (\<lambda>i. map real_of_int (ex_input_ids (es ! i))) is @ [map real_of_int (ex_input_ids (es ! i))])"
    using le unfolding off(1) by (intro reference_row_snoc [OF assms(1)]) (simp add: length_block [OF assms(1)])
  have att: "put_range (packed_length align es is) (replicate (length (ex_input_ids (es ! i))) 1)
      (reference_row align width 0 (map (\<lambda>i. replicate (length (ex_input_ids (es ! i))) (1::real)) is))
    = reference_row align width 0 (map (\<lambda>i. replicate (length (ex_input_ids (es ! i))) 1) is @ [replicate (length (ex_input_ids (es ! i))) 1])"
    using le unfolding off(2) by (intro reference_row_snoc [OF assms(1)]) (simp add: length_block [OF assms(1)])
  have wts: "write_mask (packed_length align es is) (masks ! i) (reference_row align width 0 (map (\<lambda>i. predicts (masks ! i)) is))
    = reference_row align width 0 (map (\<lambda>i. predicts (masks ! i)) is @ [predicts (masks ! i)])"
    using le m unfolding off(3) by (intro reference_weights_snoc [OF assms(1)]) (simp_all add: length_block [OF assms(1)] length_predicts)
  have "write_row align pad width es masks (is @ [i]) = write_example align es masks i (partial_row align width pad es masks is)"
    using IH by (simp add: write_row_def)
  also have "\<dots> = partial_row align width pad es masks (is @ [i])"
    using ids att wts m by (simp add: write_example_def partial_row_def write_mask_take packed_length_def)
  finally show ?case .
qed

section \<open>The layout of the bins\<close>

lemma partition_by_class:
  assumes "\<forall>x\<in>set xs. f x < n"
  shows "mset (concat (map (\<lambda>s. filter (\<lambda>x. f x = s) xs) [0..<n])) = mset xs"
proof (rule multiset_eqI)
  fix x
  have "count (mset (concat (map (\<lambda>s. filter (\<lambda>x. f x = s) xs) [0..<k]))) x = (if f x < k then count (mset xs) x else 0)" for k
    by (induction k) (auto simp: less_Suc_eq)
  moreover have "count (mset xs) x = 0" if "\<not> f x < n" using that assms by (auto simp: count_eq_zero_iff)
  ultimately show "count (mset (concat (map (\<lambda>s. filter (\<lambda>x. f x = s) xs) [0..<n]))) x = count (mset xs) x" by simp
qed

lemma shard_major_mset: "0 < n \<Longrightarrow> mset (shard_major n bs) = mset bs"
proof -
  assume "0 < n"
  then have "mset (concat (map (\<lambda>s. filter (\<lambda>i. i mod n = s) [0..<length bs]) [0..<n])) = mset [0..<length bs]"
    by (intro partition_by_class) simp
  moreover have "shard_major n bs = map ((!) bs) (concat (map (\<lambda>s. filter (\<lambda>i. i mod n = s) [0..<length bs]) [0..<n]))"
    by (simp add: shard_major_def map_concat comp_def)
  ultimately show ?thesis by (metis map_nth mset_map)
qed

lemma packed_width_ge:
  assumes "b \<in> set bs" "0 < align_size c"
  shows "packed_length (align_size c) es b \<le> packed_width c es bs"
proof -
  have "packed_length (align_size c) es b \<le> fold max (map (packed_length (align_size c) es) bs) 0"
    using assms(1) by (metis List.finite_set Max_ge image_eqI list.set_map list.simps(15) Max.set_eq_fold insertCI)
  also have "\<dots> \<le> packed_width c es bs" using round_up_to_ge [OF assms(2)] by (simp add: packed_width_def Let_def)
  finally show ?thesis .
qed

lemma full_loss_mask_ok:
  "full_loss_mask e = Inr m \<Longrightarrow> m = replicate (length (ex_input_ids e) - ex_num_actions e) 0 @ ex_loss_mask e \<and> length m = length (ex_input_ids e)"
  unfolding full_loss_mask_def Let_def by (metis Inl_Inr_False Inr_inject)

text \<open>C27: The packed collator loses nothing and mixes nothing: it gives a multiple of the data-parallel size of rows,
  every example sits in exactly one row as a contiguous aligned block of its tokens, attended there and nowhere
  else, and the weight at a position is that of the token it predicts, none at the end of an example.\<close>

theorem packed_rows_reference:
  assumes "packed_collate c es (ps_batch_size c) = Inr b" "list_all (\<lambda>e. ex_input_ids e \<noteq> []) es" "0 < ps_cp c"
  shows "\<exists>bs width scale. mset (concat bs) = mset [0..<length es] \<and> [] \<notin> set bs \<and> ps_dp c dvd length bs
    \<and> dict_get (columns b) ''sequences'' = Some (Some (Tensor [width]
        (map (\<lambda>is. reference_row (align_size c) width (real_of_int (ps_pad c)) (map (\<lambda>i. map real_of_int (ex_input_ids (es ! i))) is)) bs)))
    \<and> dict_get (columns b) ''attention_mask'' = Some (Some (Tensor [width]
        (map (\<lambda>is. reference_row (align_size c) width 0 (map (\<lambda>i. replicate (length (ex_input_ids (es ! i))) 1) is)) bs)))
    \<and> dict_get (columns b) ''loss_mask'' = Some (Some (Tensor [width - 1]
        (map (\<lambda>is. map (\<lambda>x. x * scale) (take (width - 1) (reference_row (align_size c) width 0
          (map (\<lambda>i. predicts (replicate (length (ex_input_ids (es ! i)) - ex_num_actions (es ! i)) 0 @ ex_loss_mask (es ! i))) is)))) bs)))"
proof -
  let ?full = "\<lambda>e. replicate (length (ex_input_ids e) - ex_num_actions e) 0 @ ex_loss_mask e"
  let ?A = "align_size c"
  obtain masks alg p bins where m: "for_each full_loss_mask es = Inr masks"
    "make_seq_packer ''first_fit_decreasing'' (ps_max_tokens c) (Some (int (ps_dp c))) (Some (int (ps_dp c))) = Inr (alg, p)"
    "pack alg p (map (int \<circ> length \<circ> ex_input_ids) es) = Inr bins"
    using assms(1) by (auto simp: packed_collate_def split: sum.splits)
  define bs where "bs = shard_major (ps_dp c) bins"
  define width where "width = packed_width c es bs"
  define rows where "rows = map (write_row ?A (ps_pad c) width es masks) bs"
  define scale where "scale = real (length bs) / mask_total (map (fst \<circ> snd \<circ> snd) rows)"
  have tp: "ps_tp c \<noteq> 0" and b: "new_batch
      [(''sequences'', Some (Tensor [width] (map fst rows))), (''attention_mask'', Some (Tensor [width] (map (fst \<circ> snd) rows))),
       (''loss_mask'', Some (Tensor [width - 1] (map (map (\<lambda>x. x * scale) \<circ> fst \<circ> snd \<circ> snd) rows))),
       (''sub_seq_lengths'', Some (TensorList (map (map (\<lambda>i. real (length (ex_input_ids (es ! i))))) bs)))]
      (Some [(''response_length'', Number (int width - 1))]) = Inr b"
    using assms(1) m unfolding packed_collate_def
    by (simp_all add: Let_def bs_def [symmetric] width_def [symmetric] rows_def [symmetric] scale_def [symmetric] split: if_splits)
  have A: "0 < ?A" using tp assms(3) by (simp add: align_size_def)
  have masks: "length masks = length es" "\<forall>i<length es. masks ! i = ?full (es ! i) \<and> length (masks ! i) = length (ex_input_ids (es ! i))"
    using traverse_ok [OF m(1)] full_loss_mask_ok by auto
  have dp: "0 < ps_dp c" using m(2) by (auto simp: make_seq_packer_def SeqPacker_init_def split: option.splits sum.splits if_splits)
  have bins: "mset (concat bins) = mset [0..<length es]" "[] \<notin> set bins" "ps_dp c dvd length bins"
    using packed_bins [OF m(2,3)] by simp_all
  have perm: "mset bs = mset bins" unfolding bs_def using dp by (rule shard_major_mset)
  then have "mset (concat bs) = mset (concat bins)" by (metis mset_concat mset_map sum_mset_sum_list)
  then have bs: "mset (concat bs) = mset [0..<length es]" "[] \<notin> set bs" "ps_dp c dvd length bs"
    using bins mset_eq_setD [OF perm] mset_eq_length [OF perm] by simp_all
  then have below: "i < length es" if "is \<in> set bs" "i \<in> set is" for "is" i
    using that mset_eq_setD [OF bs(1)] by auto
  have "write_row ?A (ps_pad c) width es masks is = partial_row ?A width (ps_pad c) es masks is" if "is \<in> set bs" for "is"
  proof (rule write_row_reference [OF A])
    show "\<forall>i\<in>set is. length (masks ! i) = length (ex_input_ids (es ! i)) \<and> masks ! i \<noteq> []"
    proof (intro ballI conjI)
      fix i
      assume "i \<in> set is"
      then have i: "i < length es" using below that by blast
      then show "length (masks ! i) = length (ex_input_ids (es ! i))" using masks(2) by blast
      moreover have "ex_input_ids (es ! i) \<noteq> []" using assms(2) i by (simp add: list_all_length)
      ultimately show "masks ! i \<noteq> []" by (metis length_0_conv)
    qed
    show "packed_length ?A es is \<le> width" unfolding width_def using that A by (rule packed_width_ge)
  qed
  then have rows: "rows = map (partial_row ?A width (ps_pad c) es masks) bs" by (simp add: rows_def)
  have full: "map (\<lambda>i. predicts (masks ! i)) is = map (\<lambda>i. predicts (?full (es ! i))) is" if "is \<in> set bs" for "is"
    by (intro map_cong refl arg_cong [of _ _ predicts]) (use masks(2) below [OF that] in blast)
  have weights: "map (map (\<lambda>x. x * scale) \<circ> fst \<circ> snd \<circ> snd) rows
    = map (\<lambda>is. map (\<lambda>x. x * scale) (take (width - 1) (reference_row ?A width 0 (map (\<lambda>i. predicts (?full (es ! i))) is)))) bs"
    unfolding rows map_map by (intro map_cong refl) (simp only: partial_row_def comp_apply fst_conv snd_conv full)
  have "columns b = [(''sequences'', Some (Tensor [width] (map fst rows))), (''attention_mask'', Some (Tensor [width] (map (fst \<circ> snd) rows))),
       (''loss_mask'', Some (Tensor [width - 1] (map (map (\<lambda>x. x * scale) \<circ> fst \<circ> snd \<circ> snd) rows))),
       (''sub_seq_lengths'', Some (TensorList (map (map (\<lambda>i. real (length (ex_input_ids (es ! i))))) bs)))]"
    using b by (auto simp: new_batch_def split: sum.splits)
  then have "dict_get (columns b) ''sequences'' = Some (Some (Tensor [width] (map fst rows)))"
    "dict_get (columns b) ''attention_mask'' = Some (Some (Tensor [width] (map (fst \<circ> snd) rows)))"
    "dict_get (columns b) ''loss_mask'' = Some (Some (Tensor [width - 1] (map (map (\<lambda>x. x * scale) \<circ> fst \<circ> snd \<circ> snd) rows)))"
    by simp_all
  then show ?thesis unfolding weights
    using bs by (intro exI [of _ bs] exI [of _ width] exI [of _ scale]) (simp add: rows partial_row_def comp_def)
qed

definition ex_packing :: pack_settings where
  "ex_packing = \<lparr>ps_max_tokens = 4, ps_tp = 2, ps_pp = 1, ps_cp = 1, ps_dp = 1, ps_batch_size = 3, ps_micro = 1, ps_pad = 0\<rparr>"

theorem packed_rows_reference_witness:
  "\<exists>b bs. packed_collate ex_packing [ex_chat [5] [], ex_chat [6] [], ex_chat [7, 8] [1]] 3 = Inr b
    \<and> mset (concat bs) = mset [0..<3] \<and> [] \<notin> set bs \<and> ps_dp ex_packing dvd length bs"
proof -
  have n: "ps_batch_size ex_packing = 3" "0 < ps_cp ex_packing" by (simp_all add: ex_packing_def)
  have "is_ok (packed_collate ex_packing [ex_chat [5] [], ex_chat [6] [], ex_chat [7, 8] [1]] 3)" by code_simp
  then obtain b where b: "packed_collate ex_packing [ex_chat [5] [], ex_chat [6] [], ex_chat [7, 8] [1]] (ps_batch_size ex_packing) = Inr b"
    unfolding n(1) by (auto simp: is_ok_iff)
  have es: "length [ex_chat [5] [], ex_chat [6] [], ex_chat [7, 8] [1]] = 3"
    "list_all (\<lambda>e. ex_input_ids e \<noteq> []) [ex_chat [5] [], ex_chat [6] [], ex_chat [7, 8] [1]]" by simp_all
  obtain bs where "mset (concat bs) = mset [0..<3]" "[] \<notin> set bs" "ps_dp ex_packing dvd length bs"
    using packed_rows_reference [OF b es(2) n(2), unfolded es(1)] by blast
  then show ?thesis using b unfolding n(1) by blast
qed

text \<open>The packer checks the token budget against the lengths of the examples, but the row holds them rounded up to
  the alignment, so a row can be longer than the budget although every example fits: here twice as long.\<close>

theorem packed_rows_exceed_budget:
  "\<exists>c es b width rs. packed_collate c es (ps_batch_size c) = Inr b \<and> list_all (\<lambda>e. int (length (ex_input_ids e)) \<le> ps_max_tokens c) es
    \<and> dict_get (columns b) ''sequences'' = Some (Some (Tensor [width] rs)) \<and> int width = 2 * ps_max_tokens c"
proof -
  let ?c = "ex_packing\<lparr>ps_tp := 4\<rparr>" and ?es = "[ex_chat [5, 6] [1], ex_chat [7, 8] [1], ex_chat [9, 9] [1]]"
  have c: "ps_batch_size ?c = 3" "ps_max_tokens ?c = 4" by (simp_all add: ex_packing_def)
  have "case packed_collate ?c ?es 3 of Inl _ \<Rightarrow> False
      | Inr b \<Rightarrow> (case dict_get (columns b) ''sequences'' of Some (Some (Tensor sh _)) \<Rightarrow> sh = [8] | _ \<Rightarrow> False)"
    by code_simp
  then obtain b rs where "packed_collate ?c ?es 3 = Inr b" "dict_get (columns b) ''sequences'' = Some (Some (Tensor [8] rs))"
    by (auto split: sum.splits option.splits column.splits)
  moreover have "list_all (\<lambda>e. int (length (ex_input_ids e)) \<le> 4) ?es" by simp
  ultimately show ?thesis using c by (intro exI [of _ ?c] exI [of _ ?es] exI [of _ b] exI [of _ 8] exI [of _ rs]) simp
qed

end
