(* ===== verification/Sft_Objective.thy ===== *)
theory Sft_Objective
  imports Sft_Collate Train_Properties
begin

text \<open>
  What supervised fine-tuning optimises and what its evaluation reports: the collator's scaling of the loss mask
  composed with the training step of the workers, and \<^verbatim>\<open>run_eval\<close> of \<^verbatim>\<open>train/sft_trainer.py\<close> composed with their
  forward pass.
\<close>

section \<open>The forward pass with a loss\<close>

definition forward_micro_with_loss :: "policy_model \<Rightarrow> policy_config \<Rightarrow> random_choices \<Rightarrow> batch \<Rightarrow> (string, micro_output) result" where
  "forward_micro_with_loss m cfg rn b =
     (if \<not> has_experience b then Inl ''KeyError''
      else case experience_loss m cfg rn b of
        Inl e \<Rightarrow> Inl e
      | Inr loss \<Rightarrow>
          Inr \<lparr>mo_loss = loss, mo_outputs = sft_outputs b (map (pm_log_probs m) (rows_of b)), mo_metrics = [(''loss'', loss)]\<rparr>)"

definition rank_forward_with_loss ::
  "policy_model \<Rightarrow> policy_config \<Rightarrow> random_choices \<Rightarrow> nat \<Rightarrow> batch \<Rightarrow> (string, (string, real) dict) result" where
  "rank_forward_with_loss m cfg rn micro_forward data =
     (if micro_forward = 0 then Inl ''division by zero''
      else case chunk micro_forward data of
        Inl e \<Rightarrow> Inl e
      | Inr bs \<Rightarrow>
          (case for_each (forward_micro_with_loss m cfg rn) bs of
             Inl e \<Rightarrow> Inl e
           | Inr os \<Rightarrow> reduce_metrics (pc_loss_type cfg \<noteq> Cross_entropy) (group_values (concat (map mo_metrics os)))))"

text \<open>The loss metric over \<open>D\<close> data-parallel ranks.\<close>

definition dispatch_forward_loss ::
  "policy_model \<Rightarrow> policy_config \<Rightarrow> random_choices \<Rightarrow> nat \<Rightarrow> nat \<Rightarrow> batch \<Rightarrow> (string, real) result" where
  "dispatch_forward_loss m cfg rn micro_forward D data =
     (case batch_size data of
        None \<Rightarrow> Inl ''NoneType object cannot be interpreted as an integer''
      | Some n \<Rightarrow>
          (if n mod D \<noteq> 0 then Inl ''data batch size must be divisible by dp_size''
           else case chunk (n div D) data of
             Inl e \<Rightarrow> Inl e
           | Inr cs \<Rightarrow>
               (case for_each (\<lambda>c. case rank_forward_with_loss m cfg rn micro_forward c of
                    Inl e \<Rightarrow> Inl e
                  | Inr ms \<Rightarrow> (case dict_get ms ''loss'' of None \<Rightarrow> Inl ''nan'' | Some x \<Rightarrow> Inr x)) cs of
                  Inl e \<Rightarrow> Inl e
                | Inr xs \<Rightarrow> Inr (all_reduce_metric (pc_loss_type cfg \<noteq> Cross_entropy) ''loss'' xs))))"

section \<open>Evaluation\<close>

definition eval_batch ::
  "policy_model \<Rightarrow> policy_config \<Rightarrow> random_choices \<Rightarrow> nat \<Rightarrow> nat \<Rightarrow> int \<Rightarrow> sft_example list \<Rightarrow> (string, real \<times> nat) result" where
  "eval_batch m cfg rn micro_forward D pad es =
     (let size = pc_micro_batch_size cfg * D; missing = size - length es
      in case default_collate pad (pc_micro_batch_size cfg) es size of
           Inl e \<Rightarrow> Inl e
         | Inr b \<Rightarrow>
             (case (if missing > 0 then pad_training_input_batch missing b else Inr b) of
                Inl e \<Rightarrow> Inl e
              | Inr b \<Rightarrow>
                  (case (tensor_of ''loss_mask'' b, dispatch_forward_loss m cfg rn micro_forward D b) of
                     (Inr (_, rs), Inr loss) \<Rightarrow> Inr (loss, length (filter (\<lambda>x. 0 < x) (concat rs)))
                   | (Inl e, _) \<Rightarrow> Inl e
                   | (_, Inl e) \<Rightarrow> Inl e)))"

definition run_eval ::
  "policy_model \<Rightarrow> policy_config \<Rightarrow> random_choices \<Rightarrow> nat \<Rightarrow> nat \<Rightarrow> int \<Rightarrow> sft_example list \<Rightarrow> (string, real \<times> nat) result" where
  "run_eval m cfg rn micro_forward D pad es =
     (let size = pc_micro_batch_size cfg * D
      in if es = [] then Inl ''Eval dataset is empty.''
         else if size = 0 then Inl ''division by zero''
         else case for_each (\<lambda>i. eval_batch m cfg rn micro_forward D pad (subseq i (i + size) es)) (range_step (length es) size) of
           Inl e \<Rightarrow> Inl e
         | Inr ps \<Rightarrow>
             Inr (sum_list (map (\<lambda>(loss, k). loss * real k) ps) / max (real (sum_list (map snd ps))) 1, length ps))"

section \<open>Collated batches\<close>

definition sft_ok :: "sft_example \<Rightarrow> bool" where
  "sft_ok e = (ex_input_ids e \<noteq> [] \<and> length (ex_attention_mask e) = length (ex_input_ids e)
     \<and> length (ex_loss_mask e) = ex_num_actions e \<and> set (ex_loss_mask e) \<subseteq> {0, 1} \<and> ex_pixel_values e = None)"

text \<open>The loss masks of a batch before scaling.\<close>

definition action_masks :: "sft_example list \<Rightarrow> tensor" where
  "action_masks es = (let k = Max (set (map ex_num_actions es))
     in map (\<lambda>e. replicate (k - ex_num_actions e) 0 @ map real (ex_loss_mask e)) es)"

definition response_tokens :: "sft_example list \<Rightarrow> nat" where
  "response_tokens es = sum_list (map (\<lambda>e. sum_list (ex_loss_mask e)) es)"

text \<open>The negative log-likelihood of the response tokens.\<close>

definition nll :: "policy_model \<Rightarrow> batch \<Rightarrow> tensor \<Rightarrow> real" where
  "nll m b masks = (\<Sum>(r, w)\<leftarrow>zip (rows_of b) masks. sum_list (map2 (\<lambda>x w. - x * w) (pm_log_probs m r) w))"

lemma fold_max_Max: "fold max ns n = Max (insert n (set ns))" for n :: nat
  by (metis List.finite_set Max.set_eq_fold list.simps(15))

lemma list_maximum_Max: "ns \<noteq> [] \<Longrightarrow> list_maximum ns = Inr (Max (set ns))"
  by (cases ns) (simp_all add: list_maximum_def fold_max_Max)

lemma torch_matrix_ok: "rs \<noteq> [] \<Longrightarrow> \<forall>r\<in>set rs. length r = n \<Longrightarrow> torch_matrix rs = Inr (Tensor [n] rs)"
  by (cases rs) (auto simp: torch_matrix_def list_all_iff)

lemma default_collate_ok:
  assumes "es \<noteq> []" "list_all sft_ok es" "0 < k"
  obtains b where "default_collate pad k es n = Inr b" "size_of b = length es" "train_ready False False b" "paddable b"
    "dict_get (columns b) ''loss_mask'' = Some (Some (Tensor [Max (set (map ex_num_actions es))]
       (map (map (\<lambda>x. x * (real n / (real k * mask_total (action_masks es))))) (action_masks es))))"
proof -
  define L where "L = Max (set (map (length \<circ> ex_input_ids) es))"
  define A where "A = Max (set (map ex_num_actions es))"
  have L: "length (ex_input_ids e) \<le> L" and A: "ex_num_actions e \<le> A" if "e \<in> set es" for e
    using that by (auto simp: L_def A_def)
  have ok: "sft_ok e" if "e \<in> set es" for e using that assms(2) by (simp add: list_all_iff)
  have masks: "map (\<lambda>e. replicate (A - ex_num_actions e) 0 @ map real (ex_loss_mask e)) es = action_masks es"
    by (simp add: action_masks_def A_def Let_def)
  let ?ids = "map (\<lambda>e. left_pad L (real_of_int pad) (map real_of_int (ex_input_ids e))) es"
  let ?att = "map (\<lambda>e. replicate (L - length (ex_input_ids e)) 0 @ map real (ex_attention_mask e)) es"
  have t: "torch_matrix ?ids = Inr (Tensor [L] ?ids)" "torch_matrix ?att = Inr (Tensor [L] ?att)"
    "torch_matrix (action_masks es) = Inr (Tensor [A] (action_masks es))"
    using assms(1) L A ok
    by (intro torch_matrix_ok; auto simp: left_pad_def sft_ok_def masks [symmetric])+
  have none: "filter (\<lambda>e. ex_pixel_values e \<noteq> None) es = []" using ok by (auto simp: filter_empty_conv sft_ok_def)
  have image_columns: "image_columns es = Inr (None, None)" using none by (simp add: image_columns_def Let_def)
  have maxima: "list_maximum (map (length \<circ> ex_input_ids) es) = Inr L" "list_maximum (map ex_num_actions es) = Inr A"
    unfolding L_def A_def using assms(1) by (intro list_maximum_Max; simp)+
  obtain e where e: "e \<in> set es" using assms(1) by (cases es) auto
  then have "0 < length (ex_input_ids e)" using ok by (simp add: sft_ok_def)
  then have Lpos: "0 < L" using L [OF e] by linarith
  let ?cs = "\<lambda>w. [(''sequences'', Some (Tensor [L] ?ids)), (''attention_mask'', Some (Tensor [L] ?att)),
      (''loss_mask'', Some (Tensor [A] w)), (''pixel_values'', None), (''image_grid_thw'', None)]"
  let ?md = "Some [(''response_length'', Number (int A))]"
  define scale where "scale = real n / (real k * mask_total (action_masks es))"
  let ?w = "map (map (\<lambda>x. x * scale)) (action_masks es)"
  let ?b = "\<lparr>columns = ?cs ?w, batch_size = Some (length es), meta = ?md\<rparr>"
  have len: "length (action_masks es) = length es" by (simp add: action_masks_def Let_def)
  have "collate_sft_batch pad es = Inr \<lparr>columns = ?cs (action_masks es), batch_size = Some (length es), meta = ?md\<rparr>"
    using t len by (simp add: collate_sft_batch_def maxima image_columns masks new_batch_def check_consistency_def)
  then have b: "default_collate pad k es n = Inr ?b"
    using assms(3) len by (simp add: default_collate_def get_column_def set_column_def scale_def)
  have size: "size_of ?b = length es" by (simp add: size_of_def)
  have rows: "\<forall>r\<in>set (action_masks es). length r = A" using A ok by (auto simp: masks [symmetric] sft_ok_def)
  have wf: "wf_batch ?b"
    using L ok rows len
    by (simp add: wf_batch_def wf_columns_def dict_wf_def left_pad_def sft_ok_def)
  obtain l where l: "L = Suc l" using Lpos gr0_implies_Suc by blast
  have pos: "0 < size_of ?b" unfolding size using assms(1) by simp
  have "trainable ?b" unfolding trainable_def using wf pos l by simp
  moreover have "loss_ready False False ?b"
    using len by (simp add: loss_ready_def has_experience_def has_tensor_def absent_def size_of_def)
  ultimately have "train_ready False False ?b" by (simp add: train_ready_def)
  moreover have "paddable ?b" by (simp add: paddable_def known_meta_def pad_metadata_def pad_meta_def)
  ultimately show ?thesis using that [OF b size] by (simp add: A_def scale_def)
qed

lemma action_masks_total:
  assumes "list_all sft_ok es"
  shows "sum_list (map sum_list (action_masks es)) = real (response_tokens es)"
    "length (filter (\<lambda>x. 0 < x) (concat (action_masks es))) = response_tokens es"
    "length (action_masks es) = length es"
proof -
  have real: "sum_list (map real ns) = real (sum_list ns)" for ns by (induction ns) simp_all
  show "sum_list (map sum_list (action_masks es)) = real (response_tokens es)"
    by (simp add: action_masks_def response_tokens_def Let_def comp_def sum_list_replicate real)
      (induction es; simp add: real)
  have ones: "set ns \<subseteq> {0, Suc 0} \<Longrightarrow> length (filter ((<) 0 \<circ> real) ns) = sum_list ns" for ns :: "nat list"
    by (induction ns) auto
  show "length (filter (\<lambda>x. 0 < x) (concat (action_masks es))) = response_tokens es"
  proof -
    have "length (filter (\<lambda>x. 0 < x) (concat (map (\<lambda>e. replicate (k - ex_num_actions e) 0 @ map real (ex_loss_mask e)) es)))
        = response_tokens es" for k
      using assms by (induction es) (simp_all add: response_tokens_def sft_ok_def ones del: filter_map)
    then show ?thesis by (simp add: action_masks_def Let_def)
  qed
  show "length (action_masks es) = length es" by (simp add: action_masks_def Let_def)
qed

lemma cross_entropy_sample:
  assumes "pc_loss_type cfg = Cross_entropy"
  shows "sample_loss m cfg rn rollout r = sum_list (map2 (\<lambda>x w. - x * w) (pm_log_probs m r) (row_cell ''loss_mask'' r))"
proof -
  have "sum_list (map2 (*) (map uminus xs) ws) = sum_list (map2 (\<lambda>x w. - x * w) xs ws)" for xs ws :: "real list"
    by (induction xs ws rule: list_induct2') simp_all
  then show ?thesis
    using assms by (simp add: sample_loss_def row_loss_def cross_entropy_ignores reduce_loss_def tsum_def ew_def tmap_def row_sums_def)
qed

lemma scaled_nll:
  assumes "pc_loss_type cfg = Cross_entropy" "dict_get (columns b) ''loss_mask'' = Some (Some (Tensor sh (map (map (\<lambda>x. x * s)) masks)))"
    and "length masks = size_of b"
  shows "total_loss m cfg rn rollout (rows_of b) = s * nll m b masks"
proof -
  have scale: "sum_list (map2 (\<lambda>x w. - x * w) xs (map (\<lambda>x. x * s) ws)) = s * sum_list (map2 (\<lambda>x w. - x * w) xs ws)" for xs ws :: "real list"
    by (induction xs ws rule: list_induct2') (simp_all add: algebra_simps)
  have "sample_loss m cfg rn rollout (nth_sample i b) = s * sum_list (map2 (\<lambda>x w. - x * w) (pm_log_probs m (nth_sample i b)) (masks ! i))"
    if "i < size_of b" for i
  proof -
    have "row_cell ''loss_mask'' (nth_sample i b) = map (\<lambda>x. x * s) (masks ! i)"
      using assms(2,3) that by (simp add: row_cell_def row_at_get)
    then show ?thesis by (simp only: cross_entropy_sample [OF assms(1)] scale)
  qed
  then have "total_loss m cfg rn rollout (rows_of b)
      = (\<Sum>i\<leftarrow>[0..<size_of b]. s * sum_list (map2 (\<lambda>x w. - x * w) (pm_log_probs m (nth_sample i b)) (masks ! i)))"
    unfolding total_loss_def rows_of_def map_map by (intro arg_cong [of _ _ sum_list] map_cong refl) simp
  also have "\<dots> = s * (\<Sum>i\<leftarrow>[0..<size_of b]. sum_list (map2 (\<lambda>x w. - x * w) (pm_log_probs m (nth_sample i b)) (masks ! i)))"
    by (simp add: sum_list_const_mult)
  also have "zip (rows_of b) masks = map (\<lambda>i. (nth_sample i b, masks ! i)) [0..<size_of b]"
    using assms(3) by (intro nth_equalityI) (simp_all add: rows_of_def)
  then have "(\<Sum>i\<leftarrow>[0..<size_of b]. sum_list (map2 (\<lambda>x w. - x * w) (pm_log_probs m (nth_sample i b)) (masks ! i))) = nll m b masks"
    by (simp add: nll_def comp_def)
  finally show ?thesis .
qed

lemma cross_entropy_config: "pc_loss_type cfg = Cross_entropy \<Longrightarrow> row_local_config cfg False"
  by (simp add: row_local_config_def row_local_def loss_ok_def)

section \<open>The step\<close>

text \<open>C17: A supervised step optimises the mean negative log-likelihood over the response tokens of the whole batch: the
  collator's scaling of the loss mask undoes the weighting by micro-batches and the averaging over data-parallel
  ranks, whatever their sizes.\<close>

theorem sft_step_is_token_mean:
  assumes "list_all sft_ok es" "es \<noteq> []" "pc_loss_type cfg = Cross_entropy" "plain cfg" "pc_max_tokens cfg \<le> 0"
    and "pc_micro_batch_size cfg = k" "0 < k" "0 < D" "D dvd length es" "k dvd length es div D"
  shows "\<exists>b cs os. default_collate pad k es (length es) = Inr b \<and> chunk (length es div D) b = Inr cs \<and> length cs = D
    \<and> train_step m cfg rn noise cs = Inr (nll m b (action_masks es) / max (real (response_tokens es)) 1, os)"
proof -
  obtain b where b: "default_collate pad k es (length es) = Inr b" "size_of b = length es" "train_ready False False b"
    "dict_get (columns b) ''loss_mask'' = Some (Some (Tensor [Max (set (map ex_num_actions es))]
       (map (map (\<lambda>x. x * (real (length es) / (real k * mask_total (action_masks es))))) (action_masks es))))"
    using default_collate_ok [OF assms(2,1,7)] by blast
  note cfg = cross_entropy_config [OF assms(3)]
  let ?T = "max (real (response_tokens es)) 1"
  have T: "mask_total (action_masks es) = ?T" by (simp add: mask_total_def action_masks_total [OF assms(1)])
  have "total_loss m cfg rn False (rows_of b) = real (length es) / (real k * ?T) * nll m b (action_masks es)"
    using scaled_nll [OF assms(3) b(4)] action_masks_total(3) [OF assms(1)] b(2) by (simp only: T)
  then have "real k / real (length es) * total_loss m cfg rn False (rows_of b) = nll m b (action_masks es) / ?T"
    using assms(2,7) by (simp add: field_simps)
  then show ?thesis
    using cross_entropy_step [OF b(3) cfg assms(4,3,5-8), unfolded b(2), OF assms(9,10)] b(1) by metis
qed

section \<open>The evaluation loss\<close>

lemma group_values_single: "xs \<noteq> [] \<Longrightarrow> group_values (map (Pair k) xs) = [(k, xs)]"
proof (induction xs rule: rev_induct)
  case (snoc x xs)
  then show ?case by (cases "xs = []") (simp_all add: group_values_def)
qed simp

lemma concat_singletons: "concat (map (\<lambda>x. [f x]) xs) = map f xs"
  by (induction xs) simp_all

lemma length_range_step: "length (range_step n k) = (n + k - 1) div k"
  by (simp add: range_step_def)

lemma rank_forward_loss:
  assumes "train_ready False False c" "pc_loss_type cfg = Cross_entropy" "0 < f"
  shows "\<exists>ms. rank_forward_with_loss m cfg rn f c = Inr ms
    \<and> dict_get ms ''loss'' = Some (total_loss m cfg rn False (rows_of c) / real ((size_of c + f - 1) div f))"
proof -
  have wf: "wf_batch c" "0 < size_of c" using assms(1) by (auto simp: train_ready_def trainable_def)
  let ?bs = "map (\<lambda>i. part i (i + f) c) (range_step (size_of c) f)"
  let ?l = "\<lambda>b. total_loss m cfg rn False (rows_of b)"
  have bs: "chunk f c = Inr ?bs" by (rule chunk_wf [OF wf(1) assms(3)])
  have rl: "rl_loss cfg = False" using assms(2) by (simp add: rl_loss_def)
  have ready: "train_ready False False b" if "b \<in> set ?bs" for b by (rule chunk_ready [OF assms(1) wf(1) bs assms(3) that])
  have "\<exists>mo. forward_micro_with_loss m cfg rn b = Inr mo \<and> mo_metrics mo = [(''loss'', ?l b)]" if "b \<in> set ?bs" for b
  proof -
    have "loss_ready (rl_loss cfg) False b" "has_experience b" using ready [OF that] by (auto simp: rl train_ready_def loss_ready_def)
    then show ?thesis
      using experience_loss_total [OF _ cross_entropy_config [OF assms(2)]] by (simp add: forward_micro_with_loss_def)
  qed
  then have "\<exists>os. for_each (forward_micro_with_loss m cfg rn) bs = Inr os \<and> map mo_metrics os = map (\<lambda>b. [(''loss'', ?l b)]) bs"
    if "set bs \<subseteq> set ?bs" for bs
    using that
  proof (induction bs)
    case (Cons b bs)
    then show ?case by fastforce
  qed simp
  then obtain os where os: "for_each (forward_micro_with_loss m cfg rn) ?bs = Inr os" "map mo_metrics os = map (\<lambda>b. [(''loss'', ?l b)]) ?bs"
    by blast
  have pairs: "concat (map mo_metrics os) = map (Pair ''loss'') (map ?l ?bs)" unfolding os(2) map_map comp_def by (rule concat_singletons)
  have "?bs \<noteq> []" using range_step_Nil [OF assms(3) wf(2)] by auto
  then have ne: "map ?l ?bs \<noteq> []" by simp
  have gv: "group_values (concat (map mo_metrics os)) = [(''loss'', map ?l ?bs)]" unfolding pairs by (rule group_values_single [OF ne])
  have "sum_list (map ?l ?bs) = total_loss m cfg rn False (concat (map rows_of ?bs))"
    unfolding total_loss_concat map_map comp_def ..
  then have sum: "sum_list (map ?l ?bs) = ?l c" unfolding rows_of_chunks [OF wf(1) assms(3) bs] .
  have len: "length (map ?l ?bs) = (size_of c + f - 1) div f" by (simp add: length_range_step)
  have red: "reduce_metrics (pc_loss_type cfg \<noteq> Cross_entropy) [(''loss'', xs)] = Inr [(''loss'', sum_list xs / real (length xs))]"
    if "xs \<noteq> []" for xs
    using that assms(2) by (simp add: reduce_metrics_def ends_with_def)
  have "rank_forward_with_loss m cfg rn f c = reduce_metrics (pc_loss_type cfg \<noteq> Cross_entropy) [(''loss'', map ?l ?bs)]"
    unfolding rank_forward_with_loss_def bs os(1) sum.case gv using assms(3) by (metis less_not_refl)
  then have "rank_forward_with_loss m cfg rn f c = Inr [(''loss'', ?l c / real ((size_of c + f - 1) div f))]"
    unfolding red [OF ne] sum len .
  then show ?thesis by simp
qed

lemma dispatch_loss:
  assumes "train_ready False False b" "pc_loss_type cfg = Cross_entropy" "0 < f" "0 < D" "size_of b = k * D"
  shows "dispatch_forward_loss m cfg rn f D b
    = Inr (total_loss m cfg rn False (rows_of b) / (real D * real ((k + f - 1) div f)))"
proof -
  have wf: "wf_batch b" "0 < size_of b" using assms(1) by (auto simp: train_ready_def trainable_def)
  have n: "batch_size b = Some (size_of b)" using wf_batchD [OF wf(1)] by simp
  have k: "size_of b div D = k" "D dvd size_of b" "0 < k" using assms(4,5) wf(2) by simp_all
  obtain cs where cs: "chunk k b = Inr cs" "length cs = D" "\<forall>c\<in>set cs. wf_batch c \<and> size_of c = k" "concat (map rows_of cs) = rows_of b"
    using even_chunks [OF wf assms(4) k(2)] unfolding k(1) by blast
  let ?q = "real ((k + f - 1) div f)"
  let ?l = "\<lambda>c. total_loss m cfg rn False (rows_of c)"
  have "for_each (\<lambda>c. case rank_forward_with_loss m cfg rn f c of
      Inl e \<Rightarrow> Inl e | Inr ms \<Rightarrow> (case dict_get ms ''loss'' of None \<Rightarrow> Inl ''nan'' | Some x \<Rightarrow> Inr x)) cs = Inr (map (\<lambda>c. ?l c / ?q) cs)"
  proof (rule traverse_total)
    fix c
    assume c: "c \<in> set cs"
    then show "(case rank_forward_with_loss m cfg rn f c of
        Inl e \<Rightarrow> Inl e | Inr ms \<Rightarrow> (case dict_get ms ''loss'' of None \<Rightarrow> Inl ''nan'' | Some x \<Rightarrow> Inr x)) = Inr (?l c / ?q)"
      using rank_forward_loss [OF chunk_ready [OF assms(1) wf(1) cs(1) k(3) c] assms(2,3), of m rn] cs(3) by auto
  qed
  moreover have "all_reduce_metric (pc_loss_type cfg \<noteq> Cross_entropy) ''loss'' (map (\<lambda>c. ?l c / ?q) cs) = ?l b / (real D * ?q)"
  proof -
    have "all_reduce_metric (pc_loss_type cfg \<noteq> Cross_entropy) ''loss'' (map (\<lambda>c. ?l c / ?q) cs)
        = (\<Sum>c\<leftarrow>cs. 1 / (real D * ?q) * ?l c)"
      using assms(2) cs(2) by (simp add: all_reduce_metric_def ends_with_def comp_def mult.commute)
    also have "\<dots> = 1 / (real D * ?q) * (\<Sum>c\<leftarrow>cs. ?l c)" by (rule sum_list_const_mult)
    also have "(\<Sum>c\<leftarrow>cs. ?l c) = ?l b" unfolding cs(4) [symmetric] total_loss_concat by (simp add: comp_def)
    finally show ?thesis by simp
  qed
  ultimately show ?thesis using n k assms(4,5) cs(1) by (simp add: dispatch_forward_loss_def)
qed

lemma positive_entries:
  fixes s :: real
  assumes "0 < s"
  shows "length (filter (\<lambda>x. 0 < x) (concat (map (map (\<lambda>x. x * s)) ms))) = length (filter (\<lambda>x. 0 < x) (concat ms))"
proof -
  have "filter (\<lambda>x. 0 < x) (map (\<lambda>x. x * s) xs) = map (\<lambda>x. x * s) (filter (\<lambda>x. 0 < x) xs)" for xs
    using assms by (induction xs) (simp_all add: zero_less_mult_iff)
  then show ?thesis by (induction ms) simp_all
qed

text \<open>The reported loss of a batch of at most one micro-batch per rank; missing rows are padding.\<close>

lemma eval_batch_ok:
  assumes "list_all sft_ok es" "es \<noteq> []" "pc_loss_type cfg = Cross_entropy" "0 < f" "0 < D" "0 < pc_micro_batch_size cfg"
    and "length es \<le> pc_micro_batch_size cfg * D" "default_collate pad (pc_micro_batch_size cfg) es (pc_micro_batch_size cfg * D) = Inr b"
  shows "eval_batch m cfg rn f D pad es = Inr (nll m b (action_masks es)
      / (max (real (response_tokens es)) 1 * real ((pc_micro_batch_size cfg + f - 1) div f)), response_tokens es)"
proof -
  let ?k = "pc_micro_batch_size cfg" and ?T = "max (real (response_tokens es)) 1"
  define p where "p = ?k * D - length es"
  define s where "s = real (?k * D) / (real ?k * ?T)"
  define sh where "sh = [Max (set (map ex_num_actions es))]"
  have T: "mask_total (action_masks es) = ?T" by (simp add: mask_total_def action_masks_total [OF assms(1)])
  have b: "size_of b = length es" "train_ready False False b" "paddable b"
    and lm: "dict_get (columns b) ''loss_mask'' = Some (Some (Tensor sh (map (map (\<lambda>x. x * s)) (action_masks es))))"
    using default_collate_ok [OF assms(2,1,6), of pad "?k * D"] assms(8) unfolding T s_def sh_def by (metis Inr_inject)+
  have wf: "wf_batch b" "0 < size_of b" using b(2) by (auto simp: train_ready_def trainable_def)
  obtain b' where b': "(if p > 0 then pad_training_input_batch p b else Inr b) = Inr b'" "size_of b' = length es + p"
    "rows_of b' = rows_of b @ replicate p (padding_row b)" "same_schema b b'" "wf_batch b'"
  proof (cases "p > 0")
    case True
    then show ?thesis using that pad_batch_wf [OF wf b(3) True] b(1) by (metis)
  next
    case False
    then show ?thesis using that [of b] b(1) wf(1) same_schema_refl by simp
  qed
  have size: "size_of b' = ?k * D" using b'(2) assms(7) by (simp add: p_def)
  have ready: "train_ready False False b'"
    using train_ready_schema [OF b(2) b'(4,5)] size assms(5,6) by simp
  have cfg: "row_local_config cfg False" by (rule cross_entropy_config [OF assms(3)])
  have "has_tensor ''loss_mask'' b" using b(2) by (simp add: train_ready_def loss_ready_def)
  then have "total_loss m cfg rn False (replicate p (padding_row b)) = 0" by (rule padding_rows_loss [OF cfg wf(1)])
  then have total: "total_loss m cfg rn False (rows_of b') = s * nll m b (action_masks es)"
    using scaled_nll [OF assms(3) lm] action_masks_total(3) [OF assms(1)] b(1) unfolding b'(3) by simp
  have "dispatch_forward_loss m cfg rn f D b' = Inr (s * nll m b (action_masks es) / (real D * real ((?k + f - 1) div f)))"
    using dispatch_loss [OF ready assms(3,4,5) size, of m rn] unfolding total .
  moreover have "s * nll m b (action_masks es) / (real D * real ((?k + f - 1) div f)) = nll m b (action_masks es) / (?T * real ((?k + f - 1) div f))"
    using assms(5,6) by (simp add: s_def field_simps)
  moreover obtain sh' rs where rs: "dict_get (columns b') ''loss_mask'' = Some (Some (Tensor sh' rs))"
    "has_tensor ''loss_mask'' b'"
    using ready by (auto simp: train_ready_def loss_ready_def has_tensor_def)
  moreover have "length (filter (\<lambda>x. 0 < x) (concat rs)) = response_tokens es"
  proof -
    have "get_rows ''loss_mask'' b = Some (map (row_cell ''loss_mask'') (rows_of b))" using \<open>has_tensor ''loss_mask'' b\<close> by (rule tensor_cells)
    then have cells: "map (row_cell ''loss_mask'') (rows_of b) = map (map (\<lambda>x. x * s)) (action_masks es)" using lm by (simp add: get_rows_def)
    have "get_rows ''loss_mask'' b' = Some (map (row_cell ''loss_mask'') (rows_of b'))" using rs(2) by (rule tensor_cells)
    then have "rs = map (row_cell ''loss_mask'') (rows_of b')" using rs(1) by (simp add: get_rows_def)
    also have "\<dots> = map (map (\<lambda>x. x * s)) (action_masks es) @ replicate p (replicate (prod_list sh) 0)"
      unfolding b'(3) map_append cells by (simp add: row_cell_def padding_row_mask [OF wf(1) lm])
    finally have "rs = map (map (\<lambda>x. x * s)) (action_masks es) @ replicate p (replicate (prod_list sh) 0)" .
    moreover have "0 < s" using assms(5,6) by (simp add: s_def)
    moreover have "filter (\<lambda>x. 0 < x) (concat (replicate p (replicate (prod_list sh) (0::real)))) = []"
      by (auto simp: filter_empty_conv set_replicate_conv_if split: if_splits)
    ultimately show ?thesis using positive_entries action_masks_total(2) [OF assms(1)] by simp
  qed
  moreover have "tensor_of ''loss_mask'' b' = Inr (sh', rs)" using rs(1) by (simp add: tensor_of_def get_column_def)
  ultimately show ?thesis
    by (simp only: eval_batch_def Let_def assms(8) p_def [symmetric] b'(1) sum.case prod.case)
qed

text \<open>The negative log-likelihood of one batch of the evaluation, in the batch the collator makes of it.\<close>

definition collated_nll :: "policy_model \<Rightarrow> nat \<Rightarrow> nat \<Rightarrow> int \<Rightarrow> sft_example list \<Rightarrow> real" where
  "collated_nll m k c pad es = (case default_collate pad k es c of Inr b \<Rightarrow> nll m b (action_masks es) | Inl _ \<Rightarrow> 0)"

lemma nll_no_tokens:
  assumes "list_all sft_ok es" "response_tokens es = 0" "size_of b = length es"
  shows "nll m b (action_masks es) = 0"
proof -
  have "sum_list (ex_loss_mask e) = 0" if "e \<in> set es" for e
    using assms(2) that by (auto simp: response_tokens_def)
  then have zero: "set w \<subseteq> {0}" if "w \<in> set (action_masks es)" for w
    using that by (auto simp: action_masks_def Let_def)
  have "sum_list (map2 (\<lambda>x w. - x * w) xs w) = 0" if "set w \<subseteq> {0}" for xs w :: "real list"
    using that by (induction xs w rule: list_induct2') auto
  then have "\<forall>p\<in>set (zip (rows_of b) (action_masks es)). (case p of (r, w) \<Rightarrow> sum_list (map2 (\<lambda>x w. - x * w) (pm_log_probs m r) w)) = 0"
    using zero by (auto dest: set_zip_rightD)
  then have "map (\<lambda>(r, w). sum_list (map2 (\<lambda>x w. - x * w) (pm_log_probs m r) w)) (zip (rows_of b) (action_masks es))
      = map (\<lambda>_. 0) (zip (rows_of b) (action_masks es))"
    by (intro map_cong refl) blast
  then show ?thesis unfolding nll_def by (simp only: sum_list_0)
qed

lemma response_tokens_concat: "response_tokens (concat ess) = sum_list (map response_tokens ess)"
  by (induction ess) (simp_all add: response_tokens_def)

text \<open>The evaluation loss is the mean negative log-likelihood over the response tokens of the whole evaluation set
  divided by the number of forward micro-batches a training micro-batch splits into, so it is the mean it is
  documented to be only if the forward micro-batches are as large.\<close>

theorem eval_loss_divided:
  assumes "list_all sft_ok es" "es \<noteq> []" "pc_loss_type cfg = Cross_entropy" "pc_micro_batch_size cfg = k" "0 < k" "0 < f" "0 < D"
  shows "run_eval m cfg rn f D pad es
    = Inr ((\<Sum>i\<leftarrow>range_step (length es) (k * D). collated_nll m k (k * D) pad (subseq i (i + k * D) es))
        / max (real (response_tokens es)) 1 / real ((k + f - 1) div f), (length es + k * D - 1) div (k * D))"
proof -
  let ?c = "k * D" and ?q = "real ((k + f - 1) div f)"
  let ?part = "\<lambda>i. subseq i (i + ?c) es"
  let ?is = "range_step (length es) ?c"
  have c: "0 < ?c" using assms(5,7) by simp
  let ?n = "\<lambda>i. collated_nll m k ?c pad (?part i)" and ?t = "\<lambda>i. response_tokens (?part i)"
  let ?r = "\<lambda>i. (?n i / (max (real (?t i)) 1 * ?q), ?t i)"
  have part: "list_all sft_ok (?part i)" "?part i \<noteq> []" "length (?part i) \<le> ?c" if "i \<in> set ?is" for i
  proof -
    have "i < length es" using range_step_below [OF c that] .
    then show "?part i \<noteq> []" using c by (simp add: subseq_def)
    show "length (?part i) \<le> ?c" by (simp add: subseq_def)
    show "list_all sft_ok (?part i)" using assms(1) by (auto simp: list_all_iff subseq_def dest: in_set_takeD in_set_dropD)
  qed
  have each: "eval_batch m cfg rn f D pad (?part i) = Inr (?r i) \<and> ?n i / (max (real (?t i)) 1 * ?q) * real (?t i) = ?n i / ?q"
    if i: "i \<in> set ?is" for i
  proof -
    obtain b where b: "default_collate pad k (?part i) ?c = Inr b" "size_of b = length (?part i)"
      by (rule default_collate_ok [OF part(2,1) [OF i] assms(5)])
    have n: "?n i = nll m b (action_masks (?part i))" using b(1) by (simp add: collated_nll_def)
    have "eval_batch m cfg rn f D pad (?part i) = Inr (?r i)"
      using eval_batch_ok [OF part(1,2) [OF i] assms(3,6,7), of pad b m rn] part(3) [OF i] assms(4,5) b(1) unfolding n by simp
    moreover have "?n i / (max (real (?t i)) 1 * ?q) * real (?t i) = ?n i / ?q"
      using nll_no_tokens [OF part(1) [OF i] _ b(2), of m] n by (cases "?t i = 0") (simp_all add: max_def)
    ultimately show ?thesis by blast
  qed
  have "for_each (\<lambda>i. eval_batch m cfg rn f D pad (?part i)) ?is = Inr (map ?r ?is)"
    using each by (intro traverse_total) blast
  moreover have "sum_list (map (\<lambda>(loss, k). loss * real k) (map ?r ?is)) = (\<Sum>i\<leftarrow>?is. ?n i) / ?q"
  proof -
    have "sum_list (map (\<lambda>(loss, k). loss * real k) (map ?r ?is)) = (\<Sum>i\<leftarrow>?is. 1 / ?q * ?n i)"
      unfolding map_map by (intro arg_cong [of _ _ sum_list] map_cong refl) (use each in \<open>simp\<close>)
    also have "\<dots> = 1 / ?q * (\<Sum>i\<leftarrow>?is. ?n i)" by (rule sum_list_const_mult)
    finally show ?thesis by simp
  qed
  moreover have "sum_list (map snd (map ?r ?is)) = response_tokens es"
    using response_tokens_concat [of "map ?part ?is"] concat_range_step [OF c refl, of es] by (simp add: comp_def)
  ultimately show ?thesis
    using assms(2,4) c by (simp add: run_eval_def Let_def length_range_step field_simps)
qed

definition ex_chats :: "sft_example list" where
  "ex_chats = [ex_chat [5, 6, 7] [1, 1], ex_chat [8, 9] [1]]"

definition ex_sft :: "nat \<Rightarrow> policy_config" where
  "ex_sft k = ex_policy Cross_entropy\<lparr>pc_max_tokens := 0, pc_micro_batch_size := k\<rparr>"

lemma ex_sft_simps [simp]:
  "pc_loss_type (ex_sft k) = Cross_entropy" "plain (ex_sft k)" "pc_max_tokens (ex_sft k) = 0" "pc_micro_batch_size (ex_sft k) = k"
  by (simp_all add: ex_sft_def ex_policy_def plain_def)

lemma ex_chats_ok: "list_all sft_ok ex_chats" "ex_chats \<noteq> []" "length ex_chats = 2" "response_tokens ex_chats = 3"
  by (simp_all add: ex_chats_def sft_ok_def response_tokens_def)

theorem sft_step_is_token_mean_witness:
  "\<exists>b cs os. default_collate 0 1 ex_chats 2 = Inr b \<and> chunk 1 b = Inr cs \<and> length cs = 2
    \<and> train_step ex_model (ex_sft 1) ex_choices (\<lambda>n. replicate n 0) cs = Inr (nll ex_model b (action_masks ex_chats) / 3, os)"
  using sft_step_is_token_mean [OF ex_chats_ok(1,2), of "ex_sft 1" 1 2 0 ex_model ex_choices "\<lambda>n. replicate n 0"]
  by (simp add: ex_chats_ok)

theorem eval_loss_divided_witness:
  "run_eval ex_model (ex_sft 2) ex_choices 1 1 0 ex_chats
    = Inr (collated_nll ex_model 2 2 0 ex_chats / 3 / 2, 1)"
  using eval_loss_divided [OF ex_chats_ok(1,2), of "ex_sft 2" 2 1 1 ex_model ex_choices 0]
  by (simp add: ex_chats_ok range_step_def subseq_def)

end
