(* ===== verification/Sft_Trainer.thy ===== *)
theory Sft_Trainer
  imports Sft_Collate
begin

text \<open>
  The training loop of \<^verbatim>\<open>train/sft_trainer.py\<close>: data order, resumption, and when it saves, evaluates and fires
  its callbacks.  The generator's \<open>i\<close>-th shuffle is an argument, so are the callbacks' requests.
\<close>

record sft_config =
  sc_batch_size :: nat
  sc_num_steps :: "nat option"
  sc_num_epochs :: nat
  sc_max_training_steps :: "nat option"
  sc_ckpt_path :: bool
  sc_ckpt_interval :: int
  sc_hf_save_interval :: int
  sc_eval_interval :: int
  sc_eval_before_train :: bool

datatype 'e sft_event = Fire string | Trained nat "'e list" | Saved nat | Saved_hf nat | Evaluated nat

record 'e sft_loop =
  lo_data :: "'e list"
  lo_shuffles :: nat
  lo_epoch :: nat
  lo_did_save :: bool
  lo_in_epoch :: bool
  lo_events :: "'e sft_event list"

text \<open>Callbacks answer a step with requests to save and to evaluate.\<close>

type_synonym callbacks = "nat \<Rightarrow> bool \<times> bool"

definition resolve_num_steps :: "nat option \<Rightarrow> nat \<Rightarrow> nat \<Rightarrow> nat option \<Rightarrow> nat" where
  "resolve_num_steps num_steps epochs steps_per_epoch max_steps =
     (let resolved = (case num_steps of Some n \<Rightarrow> n | None \<Rightarrow> epochs * steps_per_epoch)
      in case max_steps of Some k \<Rightarrow> min resolved k | None \<Rightarrow> resolved)"

definition at_interval :: "int \<Rightarrow> nat \<Rightarrow> bool" where
  "at_interval k g = (0 < k \<and> int g mod k = 0)"

text \<open>The batch of a step, wrapping around the end of the data.\<close>

definition batch_examples :: "nat \<Rightarrow> 'e list \<Rightarrow> nat \<Rightarrow> 'e list" where
  "batch_examples b xs g =
     (let i = (g * b) mod length xs; j = i + b
      in if j > length xs then drop i xs @ take (j - length xs) xs else take (j - i) (drop i xs))"

text \<open>Some shuffles in a row, counted over the run.\<close>

definition shuffle_times :: "(nat \<Rightarrow> 'e list \<Rightarrow> 'e list) \<Rightarrow> nat \<Rightarrow> nat \<Rightarrow> 'e list \<Rightarrow> 'e list" where
  "shuffle_times sh first n xs = fold sh [first..<first + n] xs"

definition evaluation :: "nat \<Rightarrow> 'e sft_event list" where
  "evaluation g = [Fire ''on_eval_start'', Evaluated g, Fire ''on_eval_end'']"

definition sft_loop_body ::
  "sft_config \<Rightarrow> (nat \<Rightarrow> 'e list \<Rightarrow> 'e list) \<Rightarrow> callbacks \<Rightarrow> bool \<Rightarrow> nat \<Rightarrow> nat \<Rightarrow> 'e sft_loop \<Rightarrow> 'e sft_loop" where
  "sft_loop_body c sh cb has_eval num_steps g lo =
     (let b = sc_batch_size c; xs = lo_data lo; (force_save, force_eval) = cb g;
          save = force_save \<or> at_interval (sc_ckpt_interval c) g;
          epoch = (g * b) div length xs; ends = epoch > lo_epoch lo; more = (g + 1 \<le> num_steps)
      in \<lparr>lo_data = (if ends then shuffle_times sh (lo_shuffles lo) (epoch - lo_epoch lo) xs else xs),
          lo_shuffles = (if ends then lo_shuffles lo + (epoch - lo_epoch lo) else lo_shuffles lo),
          lo_epoch = (if ends then epoch else lo_epoch lo),
          lo_did_save = save,
          lo_in_epoch = (if ends then more else lo_in_epoch lo),
          lo_events = lo_events lo @ [Fire ''on_step_start'', Trained g (batch_examples b xs g), Fire ''on_step_end'']
            @ (if save then [Saved g, Fire ''on_save''] else [])
            @ (if at_interval (sc_hf_save_interval c) g then [Saved_hf g] else [])
            @ (if has_eval \<and> (force_eval \<or> at_interval (sc_eval_interval c) g) then evaluation g else [])
            @ [Fire ''on_log'']
            @ (if ends then [Fire ''on_epoch_end''] @ (if more then [Fire ''on_epoch_start''] else []) else [])\<rparr>)"

definition sft_start :: "sft_config \<Rightarrow> (nat \<Rightarrow> 'e list \<Rightarrow> 'e list) \<Rightarrow> bool \<Rightarrow> nat \<Rightarrow> 'e list \<Rightarrow> 'e sft_loop" where
  "sft_start c sh has_eval start_step xs =
     (let ys = sh 0 xs; start_epoch = (start_step * sc_batch_size c) div length ys
      in \<lparr>lo_data = shuffle_times sh 1 start_epoch ys, lo_shuffles = 1 + start_epoch, lo_epoch = start_epoch,
          lo_did_save = False, lo_in_epoch = True,
          lo_events = [Fire ''on_train_start'']
            @ (if sc_eval_before_train c \<and> has_eval then evaluation start_step @ [Fire ''on_log''] else [])
            @ [Fire ''on_epoch_start'']\<rparr>)"

definition sft_finish :: "sft_config \<Rightarrow> bool \<Rightarrow> nat \<Rightarrow> nat \<Rightarrow> 'e sft_loop \<Rightarrow> 'e sft_event list" where
  "sft_finish c has_eval num_steps global_step lo =
     lo_events lo
     @ (if lo_in_epoch lo then [Fire ''on_epoch_end''] else [])
     @ (if sc_ckpt_path c \<and> \<not> lo_did_save lo then [Saved global_step, Fire ''on_save''] else [])
     @ (if 0 < sc_hf_save_interval c \<and> int num_steps mod sc_hf_save_interval c \<noteq> 0 then [Saved_hf num_steps] else [])
     @ (if has_eval \<and> \<not> at_interval (sc_eval_interval c) num_steps
        then evaluation num_steps @ [Fire ''on_log''] else [])
     @ [Fire ''on_train_end'']"

text \<open>\<open>start_step\<close> is the step of the checkpoint that was loaded, 0 without one.\<close>

definition total_steps :: "sft_config \<Rightarrow> 'e list \<Rightarrow> nat" where
  "total_steps c xs =
     (let b = sc_batch_size c; steps_per_epoch = max 1 ((length xs + b - 1) div b)
      in resolve_num_steps (sc_num_steps c) (sc_num_epochs c) steps_per_epoch (sc_max_training_steps c))"

section \<open>Validation\<close>

record sft_placement =
  sp_gpus :: nat
  sp_megatron :: bool
  sp_packing :: bool
  sp_tp :: nat
  sp_pp :: nat
  sp_cp :: nat
  sp_micro :: nat

definition sft_dp_size :: "sft_placement \<Rightarrow> nat" where
  "sft_dp_size p = sp_gpus p div (sp_tp p * sp_pp p * sp_cp p)"

definition validate_batch_parallelism :: "sft_placement \<Rightarrow> nat \<Rightarrow> (string, unit) result" where
  "validate_batch_parallelism p n =
     (if sp_packing p then
        (if sp_tp p * sp_pp p * sp_cp p = 0 then Inl ''integer division or modulo by zero''
         else if n < sft_dp_size p then Inl ''batch_size must be >= dp_size'' else Inr ())
      else
        let d = (if sp_megatron p then sp_gpus p div (sp_tp p * sp_pp p) else sp_gpus p)
        in if sp_megatron p \<and> sp_tp p * sp_pp p = 0 \<or> d = 0 then Inl ''integer division or modulo by zero''
           else if n mod d \<noteq> 0 then Inl ''batch_size must be divisible by data-parallel size''
           else if sp_micro p = 0 then Inl ''integer division or modulo by zero''
           else if (n div d) mod sp_micro p \<noteq> 0
           then Inl ''batch_size / dp_size must be divisible by micro_train_batch_size_per_gpu''
           else Inr ())"

section \<open>The run\<close>

definition sft_train ::
  "sft_config \<Rightarrow> sft_placement \<Rightarrow> (nat \<Rightarrow> 'e list \<Rightarrow> 'e list) \<Rightarrow> callbacks \<Rightarrow> bool \<Rightarrow> nat \<Rightarrow> 'e list
    \<Rightarrow> (string, 'e sft_event list) result" where
  "sft_train c p sh cb has_eval start_step xs =
     (if sc_batch_size c = 0 then Inl ''division by zero''
      else if length xs < sc_batch_size c then Inl ''Dataset has too few examples after tokenization''
      else
        case validate_batch_parallelism p (sc_batch_size c) of
          Inl e \<Rightarrow> Inl e
        | Inr _ \<Rightarrow>
            (let n = total_steps c xs; first = (if start_step > 0 then start_step + 1 else 1);
                 lo = fold (sft_loop_body c sh cb has_eval n) [first..<n + 1] (sft_start c sh has_eval start_step xs)
             in Inr (sft_finish c has_eval n (min (max first (n + 1)) n) lo)))"

section \<open>Lemmas\<close>

text \<open>The training steps of a run, with their examples, and its epoch callbacks.\<close>

definition trained :: "'e sft_event list \<Rightarrow> (nat \<times> 'e list) list" where
  "trained evs = concat (map (\<lambda>e. case e of Trained g ys \<Rightarrow> [(g, ys)] | _ \<Rightarrow> []) evs)"

definition saved :: "'e sft_event list \<Rightarrow> nat list" where
  "saved evs = concat (map (\<lambda>e. case e of Saved g \<Rightarrow> [g] | _ \<Rightarrow> []) evs)"

definition epoch_calls :: "'e sft_event list \<Rightarrow> string list" where
  "epoch_calls evs = concat (map (\<lambda>e. case e of
     Fire f \<Rightarrow> if f = ''on_epoch_start'' \<or> f = ''on_epoch_end'' then [f] else [] | _ \<Rightarrow> []) evs)"

lemma event_views [simp]:
  "trained [] = []" "saved [] = []" "epoch_calls [] = []"
  "trained (evs @ evs') = trained evs @ trained evs'" "saved (evs @ evs') = saved evs @ saved evs'"
  "epoch_calls (evs @ evs') = epoch_calls evs @ epoch_calls evs'"
  "trained (Fire f # evs) = trained evs" "trained (Trained g ys # evs) = (g, ys) # trained evs"
  "trained (Saved g # evs) = trained evs" "trained (Saved_hf g # evs) = trained evs" "trained (Evaluated g # evs) = trained evs"
  "saved (Fire f # evs) = saved evs" "saved (Trained g ys # evs) = saved evs"
  "saved (Saved g # evs) = g # saved evs" "saved (Saved_hf g # evs) = saved evs" "saved (Evaluated g # evs) = saved evs"
  "epoch_calls (Trained g ys # evs) = epoch_calls evs" "epoch_calls (Saved g # evs) = epoch_calls evs"
  "epoch_calls (Saved_hf g # evs) = epoch_calls evs" "epoch_calls (Evaluated g # evs) = epoch_calls evs"
  "epoch_calls (Fire f # evs) = (if f = ''on_epoch_start'' \<or> f = ''on_epoch_end'' then [f] else []) @ epoch_calls evs"
  by (simp_all add: trained_def saved_def epoch_calls_def)

lemma evaluation_views [simp]: "trained (evaluation g) = []" "saved (evaluation g) = []" "epoch_calls (evaluation g) = []"
  by (simp_all add: evaluation_def)

text \<open>The order of the data while step \<open>g + 1\<close> runs: one shuffle before the run and one for every epoch completed.\<close>

definition data_after :: "(nat \<Rightarrow> 'e list \<Rightarrow> 'e list) \<Rightarrow> nat \<Rightarrow> 'e list \<Rightarrow> nat \<Rightarrow> 'e list" where
  "data_after sh b xs g = shuffle_times sh 0 (Suc ((g * b) div length xs)) xs"

definition step_batch :: "(nat \<Rightarrow> 'e list \<Rightarrow> 'e list) \<Rightarrow> nat \<Rightarrow> 'e list \<Rightarrow> nat \<Rightarrow> 'e list" where
  "step_batch sh b xs g = batch_examples b (data_after sh b xs (g - 1)) g"

lemma shuffle_times_append:
  assumes "m \<le> n"
  shows "shuffle_times sh m (n - m) (shuffle_times sh 0 m xs) = shuffle_times sh 0 n xs"
proof -
  have "[0..<n] = [0..<m] @ [m..<n]" using assms by (metis le_add_diff_inverse upt_add_eq_append zero_le)
  then show ?thesis using assms by (simp add: shuffle_times_def)
qed

lemma shuffle_times_mset:
  "(\<And>i ys. mset (sh i ys) = mset ys) \<Longrightarrow> mset (shuffle_times sh m n xs) = mset xs"
proof (induction n arbitrary: xs)
  case (Suc n)
  then show ?case by (simp add: shuffle_times_def)
qed (simp add: shuffle_times_def)

lemma data_after_mset: "(\<And>i ys. mset (sh i ys) = mset ys) \<Longrightarrow> mset (data_after sh b xs g) = mset xs"
  by (simp add: data_after_def shuffle_times_mset)

lemma data_after_length: "(\<And>i ys. mset (sh i ys) = mset ys) \<Longrightarrow> length (data_after sh b xs g) = length xs"
  by (metis data_after_mset size_mset)

text \<open>What the loop has done after the steps up to \<open>g\<close> of a run that began after step \<open>s\<close>.\<close>

definition loop_inv ::
  "sft_config \<Rightarrow> (nat \<Rightarrow> 'e list \<Rightarrow> 'e list) \<Rightarrow> callbacks \<Rightarrow> nat \<Rightarrow> nat \<Rightarrow> 'e list \<Rightarrow> nat \<Rightarrow> 'e sft_loop \<Rightarrow> bool" where
  "loop_inv c sh cb n s xs g lo =
     (lo_data lo = data_after sh (sc_batch_size c) xs g
      \<and> lo_epoch lo = (g * sc_batch_size c) div length xs
      \<and> lo_shuffles lo = Suc (lo_epoch lo)
      \<and> trained (lo_events lo) = map (\<lambda>i. (i, step_batch sh (sc_batch_size c) xs i)) [Suc s..<Suc g]
      \<and> saved (lo_events lo) = filter (\<lambda>i. fst (cb i) \<or> at_interval (sc_ckpt_interval c) i) [Suc s..<Suc g]
      \<and> lo_did_save lo = (s < g \<and> (fst (cb g) \<or> at_interval (sc_ckpt_interval c) g))
      \<and> (lo_in_epoch lo \<or> n \<le> g)
      \<and> (\<exists>k. epoch_calls (lo_events lo)
             = concat (replicate k [''on_epoch_start'', ''on_epoch_end'']) @ (if lo_in_epoch lo then [''on_epoch_start''] else [])))"

lemma loop_inv_start:
  assumes "\<And>i ys. mset (sh i ys) = mset ys"
  shows "loop_inv c sh cb n s xs s (sft_start c sh has_eval s xs)"
proof -
  have len: "length (sh 0 xs) = length xs" by (metis assms size_mset)
  have d: "shuffle_times sh (Suc 0) k (sh 0 xs) = shuffle_times sh 0 (Suc k) xs" for k
    using shuffle_times_append [of 1 "Suc k" sh xs] by (simp add: shuffle_times_def)
  show ?thesis
    unfolding loop_inv_def
    by (intro conjI exI [of _ 0]) (simp_all add: sft_start_def Let_def len d data_after_def)
qed

lemma concat_replicate_end: "concat (replicate k ys) @ ys = concat (replicate (Suc k) ys)"
  by (induction k) simp_all

lemma loop_inv_step:
  assumes inv: "loop_inv c sh cb n s xs g lo" and sh: "\<And>i ys. mset (sh i ys) = mset ys" and g: "s \<le> g" "Suc g \<le> n"
  shows "loop_inv c sh cb n s xs (Suc g) (sft_loop_body c sh cb has_eval n (Suc g) lo)"
proof -
  let ?b = "sc_batch_size c"
  note i = inv [unfolded loop_inv_def]
  let ?lo = "sft_loop_body c sh cb has_eval n (Suc g) lo" and ?e = "(g * ?b) div length xs" and ?e' = "(Suc g * ?b) div length xs"
  let ?save = "fst (cb (Suc g)) \<or> at_interval (sc_ckpt_interval c) (Suc g)"
  have len: "length (lo_data lo) = length xs" using i data_after_length [OF sh] by simp
  have in_epoch: "lo_in_epoch lo" using i g by simp
  have epoch: "lo_epoch lo = ?e" and le: "?e \<le> ?e'" using i by (simp_all add: div_le_mono)
  obtain k where k: "epoch_calls (lo_events lo) = concat (replicate k [''on_epoch_start'', ''on_epoch_end'']) @ [''on_epoch_start'']"
    using i in_epoch by auto
  obtain fs fe where cb: "cb (Suc g) = (fs, fe)" by (cases "cb (Suc g)") simp
  have shuffles_eq: "lo_shuffles lo = Suc ?e" using i by simp
  have data: "lo_data ?lo = (if ?e' > ?e then shuffle_times sh (Suc ?e) (?e' - ?e) (lo_data lo) else lo_data lo)"
    and shuffles: "lo_shuffles ?lo = (if ?e' > ?e then Suc ?e + (?e' - ?e) else Suc ?e)"
    and epoch': "lo_epoch ?lo = (if ?e' > ?e then ?e' else ?e)"
    and did: "lo_did_save ?lo = ?save"
    and ep: "lo_in_epoch ?lo = (if ?e' > ?e then Suc (Suc g) \<le> n else True)"
    and tr: "trained (lo_events ?lo) = trained (lo_events lo) @ [(Suc g, batch_examples ?b (lo_data lo) (Suc g))]"
    and sv: "saved (lo_events ?lo) = saved (lo_events lo) @ (if ?save then [Suc g] else [])"
    and ec: "epoch_calls (lo_events ?lo) = epoch_calls (lo_events lo)
      @ (if ?e' > ?e then [''on_epoch_end''] @ (if Suc (Suc g) \<le> n then [''on_epoch_start''] else []) else [])"
    unfolding sft_loop_body_def Let_def len epoch shuffles_eq cb prod.case by (simp_all add: in_epoch cb)
  have "?e' > ?e \<or> ?e' = ?e" using le by linarith
  then have "lo_data ?lo = data_after sh ?b xs (Suc g)"
    using i shuffle_times_append [of "Suc ?e" "Suc ?e'" sh xs] by (auto simp: data data_after_def)
  moreover have "lo_epoch ?lo = ?e'" "lo_shuffles ?lo = Suc (lo_epoch ?lo)" using le by (auto simp: epoch' shuffles)
  moreover have "trained (lo_events ?lo) = map (\<lambda>i. (i, step_batch sh ?b xs i)) [Suc s..<Suc (Suc g)]"
    using i g by (simp add: tr step_batch_def)
  moreover have "saved (lo_events ?lo) = filter (\<lambda>i. fst (cb i) \<or> at_interval (sc_ckpt_interval c) i) [Suc s..<Suc (Suc g)]"
    using i g by (simp add: sv)
  moreover have "lo_did_save ?lo = (s < Suc g \<and> ?save)" using g by (simp add: did)
  moreover have "lo_in_epoch ?lo \<or> n \<le> Suc g" by (auto simp: ep)
  moreover have "\<exists>k. epoch_calls (lo_events ?lo)
      = concat (replicate k [''on_epoch_start'', ''on_epoch_end'']) @ (if lo_in_epoch ?lo then [''on_epoch_start''] else [])"
  proof (cases "?e' > ?e")
    case True
    then show ?thesis
      unfolding ec ep k by (intro exI [of _ "Suc k"]) (simp only: if_True concat_replicate_end [symmetric] append.assoc append.simps)
  next
    case False
    then show ?thesis unfolding ec ep k by (intro exI [of _ k]) simp
  qed
  ultimately show ?thesis unfolding loop_inv_def by blast
qed

lemma loop_inv_run:
  assumes "\<And>i ys. mset (sh i ys) = mset ys" "s \<le> g" "g \<le> n"
  shows "loop_inv c sh cb n s xs g (fold (sft_loop_body c sh cb has_eval n) [Suc s..<Suc g] (sft_start c sh has_eval s xs))"
  using assms(2,3)
proof (induction g rule: dec_induct)
  case base
  then show ?case using loop_inv_start [OF assms(1)] by simp
next
  case (step g)
  then show ?case using loop_inv_step [OF step.IH assms(1), of has_eval] by simp
qed

text \<open>A run, seen from outside: the steps after \<open>start\<close> in order, each on its own batch; the requested and periodic
  checkpoints, and one of the last step if none was written there; alternating epoch callbacks.\<close>

lemma sft_train_run:
  assumes run: "sft_train c p sh cb has_eval s xs = Inr evs" and sh: "\<And>i ys. mset (sh i ys) = mset ys"
    and n: "n = total_steps c xs" and due: "due = (\<lambda>i. fst (cb i) \<or> at_interval (sc_ckpt_interval c) i)"
  shows "trained evs = map (\<lambda>i. (i, step_batch sh (sc_batch_size c) xs i)) [Suc s..<Suc n]
    \<and> saved evs = filter due [Suc s..<Suc n] @ (if sc_ckpt_path c \<and> \<not> (s < n \<and> due n) then [n] else [])
    \<and> (\<exists>k. epoch_calls evs = concat (replicate k [''on_epoch_start'', ''on_epoch_end'']))"
proof -
  define lo where "lo = fold (sft_loop_body c sh cb has_eval n) [Suc s..<Suc n] (sft_start c sh has_eval s xs)"
  have evs: "evs = sft_finish c has_eval n n lo"
    using run by (auto simp: sft_train_def Let_def lo_def simp flip: n split: if_splits sum.splits)
  obtain g where g: "loop_inv c sh cb n s xs g lo" "[Suc s..<Suc g] = [Suc s..<Suc n]" "s < g \<and> due g \<longleftrightarrow> s < n \<and> due n"
  proof (cases "s < n")
    case True
    then show ?thesis using loop_inv_run [of sh s n n c cb xs has_eval, OF sh] that [of n] by (simp add: lo_def)
  next
    case False
    then show ?thesis using loop_inv_start [of sh c cb n s xs has_eval, OF sh] that [of s] by (simp add: lo_def)
  qed
  note i = g(1) [unfolded loop_inv_def g(2) due [symmetric]]
  obtain k where k: "epoch_calls (lo_events lo)
      = concat (replicate k [''on_epoch_start'', ''on_epoch_end'']) @ (if lo_in_epoch lo then [''on_epoch_start''] else [])"
    using i by blast
  have did: "lo_did_save lo \<longleftrightarrow> s < n \<and> due n" using i g(3) by (simp add: due)
  have "trained evs = trained (lo_events lo)"
    and "saved evs = saved (lo_events lo) @ (if sc_ckpt_path c \<and> \<not> lo_did_save lo then [n] else [])"
    and ec: "epoch_calls evs = epoch_calls (lo_events lo) @ (if lo_in_epoch lo then [''on_epoch_end''] else [])"
    by (simp_all add: evs sft_finish_def)
  moreover have "\<exists>k. epoch_calls evs = concat (replicate k [''on_epoch_start'', ''on_epoch_end''])"
  proof (cases "lo_in_epoch lo")
    case True
    then show ?thesis unfolding ec k by (intro exI [of _ "Suc k"]) (simp only: if_True concat_replicate_end [symmetric] append.assoc append.simps)
  next
    case False
    then show ?thesis unfolding ec k by (intro exI [of _ k]) simp
  qed
  ultimately show ?thesis using i did by simp
qed

lemma filter_upt_after: "filter (\<lambda>g. s < g) [Suc 0..<Suc n] = [Suc s..<Suc n]"
  by (induction n) auto

lemma filter_upt_between: "t \<le> n \<Longrightarrow> filter (\<lambda>g. s < g \<and> g \<le> t) [Suc 0..<Suc n] = [Suc s..<Suc t]"
proof (induction n)
  case (Suc n)
  show ?case
  proof (cases "t = Suc n")
    case True
    have "filter (\<lambda>g. s < g \<and> g \<le> t) [Suc 0..<Suc t] = filter (\<lambda>g. s < g) [Suc 0..<Suc t]" by (rule filter_cong) auto
    then show ?thesis using filter_upt_after True by metis
  next
    case False
    then show ?thesis using Suc by simp
  qed
qed simp

section \<open>Properties\<close>

text \<open>C34: A resumed run trains exactly the steps the uninterrupted run would have gone on with, each on the same
  examples in the same order, whatever the callbacks ask of either: replaying the shuffles of the finished epochs restores
  the order of the data.\<close>

theorem resumed_steps_are_the_missing_ones:
  assumes full: "sft_train c p sh cb has_eval 0 xs = Inr evs" and resumed: "sft_train c p sh cb' has_eval' s xs = Inr evs'"
    and sh: "\<And>i ys. mset (sh i ys) = mset ys"
  shows "trained evs' = filter (\<lambda>(g, _). s < g) (trained evs)"
proof -
  have "filter (\<lambda>g. s < g) [Suc 0..<Suc (total_steps c xs)] = [Suc s..<Suc (total_steps c xs)]"
    by (rule filter_upt_after)
  then show ?thesis
    using sft_train_run [OF full sh refl refl] sft_train_run [OF resumed sh refl refl]
    by (simp add: filter_map comp_def del: upt_Suc)
qed

definition ex_schedule :: sft_config where
  "ex_schedule = \<lparr>sc_batch_size = 2, sc_num_steps = None, sc_num_epochs = 2, sc_max_training_steps = None, sc_ckpt_path = True,
     sc_ckpt_interval = 3, sc_hf_save_interval = 0, sc_eval_interval = 0, sc_eval_before_train = False\<rparr>"

definition ex_placement :: sft_placement where
  "ex_placement = \<lparr>sp_gpus = 1, sp_megatron = False, sp_packing = False, sp_tp = 1, sp_pp = 1, sp_cp = 1, sp_micro = 2\<rparr>"

abbreviation ex_cb :: callbacks where
  "ex_cb \<equiv> \<lambda>_. (False, False)"

lemma ex_run: "\<exists>evs. sft_train ex_schedule ex_placement (\<lambda>_. rev) ex_cb False s [1, 2, 3, 4::nat] = Inr evs"
  by (simp add: sft_train_def ex_schedule_def ex_placement_def validate_batch_parallelism_def Let_def)

theorem resumed_steps_are_the_missing_ones_witness:
  "\<exists>evs evs'. sft_train ex_schedule ex_placement (\<lambda>_. rev) ex_cb False 0 [1, 2, 3, 4::nat] = Inr evs
    \<and> sft_train ex_schedule ex_placement (\<lambda>_. rev) ex_cb False 3 [1, 2, 3, 4::nat] = Inr evs'
    \<and> trained evs' = filter (\<lambda>(g, _). 3 < g) (trained evs)"
proof -
  obtain evs evs' where e: "sft_train ex_schedule ex_placement (\<lambda>_. rev) ex_cb False 0 [1, 2, 3, 4::nat] = Inr evs"
    "sft_train ex_schedule ex_placement (\<lambda>_. rev) ex_cb False 3 [1, 2, 3, 4::nat] = Inr evs'"
    using ex_run by blast
  then show ?thesis using resumed_steps_are_the_missing_ones [OF e] by simp
qed

lemma concat_blocks: "concat (map (\<lambda>r. take b (drop (r * b) ys)) [0..<q]) = take (q * b) ys"
proof (induction q)
  case (Suc q)
  have "take (Suc q * b) ys = take (q * b) ys @ take b (drop (q * b) ys)" by (simp add: take_add [symmetric] add.commute)
  then show ?case using Suc by simp
qed simp

lemma mset_concat_rotated: "mset (concat (map (\<lambda>r. f (Suc r mod q)) [0..<q])) = mset (concat (map f [0..<q]))"
proof (cases q)
  case (Suc p)
  have "map (\<lambda>r. f (Suc r mod q)) [0..<p] = map (\<lambda>r. f (Suc r)) [0..<p]" by (rule map_cong) (simp_all add: Suc)
  then have l: "map (\<lambda>r. f (Suc r mod q)) [0..<q] = map (\<lambda>r. f (Suc r)) [0..<p] @ [f 0]" by (simp add: Suc)
  have r: "map f [0..<q] = f 0 # map (\<lambda>r. f (Suc r)) [0..<p]"
    by (simp add: Suc upt_conv_Cons map_Suc_upt [symmetric] comp_def del: upt_Suc)
  show ?thesis unfolding l r by simp
qed simp

text \<open>With a batch size that divides the data, the steps of an epoch use consecutive blocks, starting at the second.\<close>

lemma epoch_batches:
  assumes sh: "\<And>i ys. mset (sh i ys) = mset ys" and n: "length xs = q * b" and b: "0 < b" "0 < q" and r: "r < q"
  shows "step_batch sh b xs (Suc (k * q + r)) = take b (drop ((Suc r mod q) * b) (data_after sh b xs (k * q)))"
proof -
  let ?ys = "data_after sh b xs (k * q)"
  have lt: "r * b < q * b" using r b by simp
  have eq: "(k * q + r) * b = r * b + k * (q * b)" by (simp add: add_mult_distrib)
  have "(k * q + r) * b div length xs = k"
    unfolding n eq using lt div_mult_self1 [of "q * b" "r * b" k] by (metis add.right_neutral div_less not_less_zero)
  moreover have "(k * q) * b div length xs = k" using b by (simp add: n mult.assoc)
  ultimately have d: "data_after sh b xs (k * q + r) = ?ys" by (simp add: data_after_def)
  have len: "length ?ys = q * b" using data_after_length [of sh b xs "k * q", OF sh] n by simp
  have "(Suc (k * q + r) * b) mod (q * b) = (Suc (k * q + r) mod q) * b" by (rule mult_mod_left [symmetric])
  moreover have "Suc (k * q + r) mod q = Suc r mod q" by (metis add_Suc_right mod_mult_self3)
  ultimately have i: "(Suc (k * q + r) * b) mod length ?ys = (Suc r mod q) * b" by (simp add: len)
  have "(Suc r mod q) * b + b \<le> length ?ys"
    using mult_le_mono1 [of "Suc (Suc r mod q)" q b] b mod_less_divisor [of q "Suc r"] by (simp only: len Suc_le_eq mult_Suc add.commute)
  then show ?thesis unfolding step_batch_def diff_Suc_1 d batch_examples_def Let_def i by simp
qed

text \<open>C38: When the batch size divides the number of examples, the batches of every epoch together hold each example
  exactly once, in whatever order the shuffles put them.\<close>

theorem epochs_cover_the_data:
  assumes run: "sft_train c p sh cb has_eval 0 xs = Inr evs" and sh: "\<And>i ys. mset (sh i ys) = mset ys"
    and b: "0 < sc_batch_size c" and q: "length xs = q * sc_batch_size c" "0 < q" and k: "k * q + q \<le> total_steps c xs"
  shows "mset (concat (map snd (filter (\<lambda>(g, _). k * q < g \<and> g \<le> k * q + q) (trained evs)))) = mset xs"
proof -
  let ?b = "sc_batch_size c" and ?ys = "data_after sh (sc_batch_size c) xs (k * q)"
  have steps: "filter (\<lambda>g. k * q < g \<and> g \<le> k * q + q) [Suc 0..<Suc (total_steps c xs)] = map (\<lambda>r. Suc (k * q + r)) [0..<q]"
    unfolding filter_upt_between [OF k] using map_add_upt [of "Suc (k * q)" q] by (simp add: add.commute del: upt_Suc)
  have "concat (map snd (filter (\<lambda>(g, _). k * q < g \<and> g \<le> k * q + q) (trained evs)))
      = concat (map (\<lambda>r. step_batch sh ?b xs (Suc (k * q + r))) [0..<q])"
    using sft_train_run [OF run sh refl refl] by (simp add: filter_map comp_def steps del: upt_Suc)
  also have "\<dots> = concat (map (\<lambda>r. take ?b (drop ((Suc r mod q) * ?b) ?ys)) [0..<q])"
    by (intro arg_cong [where f = concat] map_cong refl) (simp add: epoch_batches [OF sh q(1) b q(2)])
  also have "mset \<dots> = mset (concat (map (\<lambda>r. take ?b (drop (r * ?b) ?ys)) [0..<q]))"
    by (rule mset_concat_rotated)
  also have "\<dots> = mset xs"
    using data_after_mset [OF sh] data_after_length [of sh ?b xs "k * q", OF sh] by (simp add: concat_blocks q)
  finally show ?thesis .
qed

theorem epochs_cover_the_data_witness:
  "\<exists>evs. sft_train ex_schedule ex_placement (\<lambda>_. rev) ex_cb False 0 [1, 2, 3, 4::nat] = Inr evs
    \<and> mset (concat (map snd (filter (\<lambda>(g, _). 2 < g \<and> g \<le> 4) (trained evs)))) = mset [1, 2, 3, 4]"
proof -
  obtain evs where e: "sft_train ex_schedule ex_placement (\<lambda>_. rev) ex_cb False 0 [1, 2, 3, 4::nat] = Inr evs"
    using ex_run by blast
  have "total_steps ex_schedule [1, 2, 3, 4::nat] = 4" by (simp add: total_steps_def ex_schedule_def resolve_num_steps_def)
  then show ?thesis using e epochs_cover_the_data [OF e, of 2 1] by (simp add: ex_schedule_def)
qed

text \<open>A run that trains at least one step and has a checkpoint path ends with the checkpoint of its last step, and writes
  no checkpoint twice.\<close>

theorem run_ends_saved:
  assumes run: "sft_train c p sh cb has_eval s xs = Inr evs" and sh: "\<And>i ys. mset (sh i ys) = mset ys"
    and path: "sc_ckpt_path c" and steps: "s < total_steps c xs"
  shows "distinct (saved evs) \<and> (\<exists>earlier. saved evs = earlier @ [total_steps c xs])"
proof -
  define n due where "n = total_steps c xs" and "due = (\<lambda>i. fst (cb i) \<or> at_interval (sc_ckpt_interval c) i)"
  have saved: "saved evs = filter due [Suc s..<Suc n] @ (if due n then [] else [n])"
    using sft_train_run [OF run sh n_def due_def] path steps by (simp add: n_def del: upt_Suc)
  then have "saved evs = filter due [Suc s..<n] @ [n]" using steps by (simp add: n_def)
  then show ?thesis unfolding n_def by simp
qed

theorem run_ends_saved_witness:
  "\<exists>evs. sft_train ex_schedule ex_placement (\<lambda>_. rev) ex_cb False 0 [1, 2, 3, 4::nat] = Inr evs
    \<and> distinct (saved evs) \<and> (\<exists>earlier. saved evs = earlier @ [4])"
proof -
  obtain evs where e: "sft_train ex_schedule ex_placement (\<lambda>_. rev) ex_cb False 0 [1, 2, 3, 4::nat] = Inr evs"
    using ex_run by blast
  have n: "total_steps ex_schedule [1, 2, 3, 4::nat] = 4" and "sc_ckpt_path ex_schedule"
    by (simp_all add: total_steps_def ex_schedule_def resolve_num_steps_def)
  then show ?thesis using e run_ends_saved [OF e, unfolded n] by simp
qed

text \<open>The epoch callbacks alternate, starting with a start and ending with an end, whatever step the run begins at and
  wherever it stops.\<close>

theorem epoch_callbacks_alternate:
  assumes "sft_train c p sh cb has_eval s xs = Inr evs" and "\<And>i ys. mset (sh i ys) = mset ys"
  shows "\<exists>k. epoch_calls evs = concat (replicate k [''on_epoch_start'', ''on_epoch_end''])"
  using sft_train_run [OF assms refl refl] by blast

theorem epoch_callbacks_alternate_witness:
  "\<exists>evs k. sft_train ex_schedule ex_placement (\<lambda>_. rev) ex_cb False 3 [1, 2, 3, 4::nat] = Inr evs
    \<and> epoch_calls evs = concat (replicate k [''on_epoch_start'', ''on_epoch_end''])"
proof -
  obtain evs where e: "sft_train ex_schedule ex_placement (\<lambda>_. rev) ex_cb False 3 [1, 2, 3, 4::nat] = Inr evs"
    using ex_run by blast
  then show ?thesis using epoch_callbacks_alternate [OF e] by auto
qed

text \<open>A run resumed from a checkpoint beyond its last step trains nothing, yet writes the loaded weights as the
  checkpoint of that earlier last step.\<close>

theorem resume_past_the_end_relabels:
  "\<exists>c p evs. sft_train c p (\<lambda>_. rev) ex_cb False 9 [1, 2, 3, 4::nat] = Inr evs \<and> trained evs = [] \<and> saved evs = [4]
    \<and> total_steps c [1, 2, 3, 4::nat] = 4"
proof -
  obtain evs where e: "sft_train ex_schedule ex_placement (\<lambda>_. rev) ex_cb False 9 [1, 2, 3, 4::nat] = Inr evs"
    using ex_run by blast
  have n: "total_steps ex_schedule [1, 2, 3, 4::nat] = 4" and "sc_ckpt_path ex_schedule"
    by (simp_all add: total_steps_def ex_schedule_def resolve_num_steps_def)
  then show ?thesis using e n sft_train_run [OF e _ refl refl] by (intro exI [of _ ex_schedule] exI [of _ ex_placement] exI [of _ evs]) simp
qed

text \<open>The validation of a packed run accepts batches the packer then refuses: with two shards, three examples that
  fill a bin each make three bins, and no example is left to bring their number to a multiple of two.\<close>

theorem validated_batch_fails_to_pack:
  "\<exists>p c es. validate_batch_parallelism p (ps_batch_size c) = Inr () \<and> sp_packing p \<and> sft_dp_size p = ps_dp c
    \<and> length es = ps_batch_size c \<and> list_all (\<lambda>e. int (length (ex_input_ids e)) \<le> ps_max_tokens c) es
    \<and> packed_collate c es (ps_batch_size c) = Inl ''ValueError''"
proof -
  let ?p = "ex_placement\<lparr>sp_gpus := 2, sp_packing := True\<rparr>" and ?es = "[ex_chat [5, 6, 7] [1], ex_chat [7, 8, 9] [1], ex_chat [9, 9, 9] [1]]"
  let ?c = "\<lparr>ps_max_tokens = 4, ps_tp = 1, ps_pp = 1, ps_cp = 1, ps_dp = 2, ps_batch_size = 3, ps_micro = 1, ps_pad = 0\<rparr>"
  have "validate_batch_parallelism ?p 3 = Inr ()" "sp_packing ?p" "sft_dp_size ?p = 2" "packed_collate ?c ?es 3 = Inl ''ValueError''"
    by code_simp+
  then show ?thesis by (intro exI [of _ ?p] exI [of _ ?c] exI [of _ ?es]) simp
qed

end
