(* ===== verification/Checkpoints.thy ===== *)
theory Checkpoints
  imports Prelude
begin

text \<open>
  Checkpoints of the trainers: \<^verbatim>\<open>save_checkpoints\<close> and \<^verbatim>\<open>load_checkpoints\<close> of \<^verbatim>\<open>train/trainer.py\<close> and
  \<^verbatim>\<open>fully_async_trainer.py\<close>, \<^verbatim>\<open>save_checkpoint\<close> of \<^verbatim>\<open>sft_trainer.py\<close>, the clean-up and the consistency check of
  \<^verbatim>\<open>utils/trainer_utils.py\<close>.  Saving is a list of writes to a store, so that a crash leaves a prefix of them.
\<close>

section \<open>The store\<close>

text \<open>A folder per global step, with the parts written so far; the value of a part is the step whose state it holds.\<close>

type_synonym ckpt_folder = "(string, nat) dict"

record ckpt_store =
  ckpt_folders :: "(nat, ckpt_folder) dict"
  ckpt_latest :: "nat option"

datatype ckpt_write = Make_dir nat | Write_part nat string nat | Write_latest nat | Remove_dir nat

definition apply_write :: "ckpt_write \<Rightarrow> ckpt_store \<Rightarrow> ckpt_store" where
  "apply_write w st =
     (case w of
        Make_dir s \<Rightarrow> (if dict_has (ckpt_folders st) s then st else st\<lparr>ckpt_folders := dict_put s [] (ckpt_folders st)\<rparr>)
      | Write_part s k v \<Rightarrow>
          st\<lparr>ckpt_folders := dict_put s (dict_put k v (case dict_get (ckpt_folders st) s of Some f \<Rightarrow> f | None \<Rightarrow> [])) (ckpt_folders st)\<rparr>
      | Write_latest s \<Rightarrow> st\<lparr>ckpt_latest := Some s\<rparr>
      | Remove_dir s \<Rightarrow> st\<lparr>ckpt_folders := dict_del s (ckpt_folders st)\<rparr>)"

definition apply_writes :: "ckpt_write list \<Rightarrow> ckpt_store \<Rightarrow> ckpt_store" where
  "apply_writes = fold apply_write"

section \<open>Saving\<close>

record ckpt_config =
  cc_critic :: bool
  cc_data :: bool
  cc_async :: bool
  cc_keep :: int
  cc_interval :: int

text \<open>The folders \<open>cleanup_old_checkpoints\<close> removes, lowest step first.\<close>

definition old_checkpoints :: "int \<Rightarrow> ckpt_store \<Rightarrow> nat list" where
  "old_checkpoints keep st =
     (let ds = sort (map fst (ckpt_folders st))
      in if keep < 0 \<or> int (length ds) \<le> keep then [] else take (length ds - nat keep) ds)"

text \<open>Everything up to the marker; the dataloader state may be missing.\<close>

definition base_writes :: "ckpt_config \<Rightarrow> nat \<Rightarrow> ckpt_write list" where
  "base_writes c s =
     [Make_dir s, Write_part s ''policy'' s] @ (if cc_critic c then [Write_part s ''critic'' s] else [])
     @ (if cc_data c then [Write_part s ''data.pt'' s] else []) @ [Write_part s ''trainer_state.pt'' s, Write_latest s]"

text \<open>A removal that fails is only logged.\<close>

definition cleanup_writes :: "ckpt_config \<Rightarrow> (nat \<Rightarrow> bool) \<Rightarrow> ckpt_store \<Rightarrow> ckpt_write list" where
  "cleanup_writes c removable st = map Remove_dir (filter removable (old_checkpoints (cc_keep c) st))"

definition save_writes :: "ckpt_config \<Rightarrow> (nat \<Rightarrow> bool) \<Rightarrow> nat \<Rightarrow> ckpt_store \<Rightarrow> ckpt_write list" where
  "save_writes c removable s st =
     base_writes c s @ cleanup_writes c removable (apply_writes (base_writes c s) st)
     @ (if cc_async c then [Write_part s ''fully_async_state.pt'' s] else [])"

section \<open>Loading\<close>

definition validate_consistency_for_latest_checkpoint :: "ckpt_store \<Rightarrow> nat \<Rightarrow> int \<Rightarrow> bool" where
  "validate_consistency_for_latest_checkpoint st s interval =
     (case map fst (ckpt_folders st) of [] \<Rightarrow> True | d # ds \<Rightarrow> int (fold max ds d) - int s \<le> interval)"

text \<open>Resumption from the latest checkpoint: the step and the states that were loaded.\<close>

definition load_latest :: "ckpt_config \<Rightarrow> ckpt_store \<Rightarrow> (string, nat \<times> nat list) result" where
  "load_latest c st =
     (case ckpt_latest st of
        None \<Rightarrow> Inr (0, [])
      | Some s \<Rightarrow>
          if \<not> validate_consistency_for_latest_checkpoint st s (cc_interval c) then Inl ''Inconsistent checkpoint folder.''
          else case dict_get (ckpt_folders st) s of
            None \<Rightarrow> Inl ''Checkpoint path not found''
          | Some f \<Rightarrow>
              (case (dict_get f ''trainer_state.pt'', dict_get f ''policy'', dict_get f ''critic'') of
                 (None, _, _) \<Rightarrow> Inl ''Trainer state file not found''
               | (_, None, _) \<Rightarrow> Inl ''policy checkpoint not found''
               | (Some t, Some p, q) \<Rightarrow>
                   if cc_critic c \<and> q = None then Inl ''critic checkpoint not found''
                   else if cc_async c \<and> s \<noteq> 0 \<and> dict_get f ''fully_async_state.pt'' = None then Inl ''Fully-async state file not found''
                   else Inr (s, [p] @ (if cc_critic c then [the q] else []) @ [t])))"

section \<open>Runs\<close>

text \<open>
  A trainer that saves every \<open>k\<close> steps: it completes the next save, or crashes after some of its writes and
  resumes from the latest checkpoint.  The state is the store and the step training continues from.
\<close>

type_synonym ckpt_run = "ckpt_store \<times> nat"

inductive ckpt_step :: "ckpt_config \<Rightarrow> nat \<Rightarrow> ckpt_run \<Rightarrow> ckpt_run \<Rightarrow> bool" for c k where
  saved: "ckpt_step c k (st, g) (apply_writes (save_writes c removable (g + k) st) st, g + k)"
| crashed: "load_latest c (apply_writes (take n (save_writes c removable (g + k) st)) st) = Inr (s, vs) \<Longrightarrow>
    ckpt_step c k (st, g) (apply_writes (take n (save_writes c removable (g + k) st)) st, s)"

definition fresh_store :: ckpt_store where
  "fresh_store = \<lparr>ckpt_folders = [], ckpt_latest = None\<rparr>"

section \<open>What a crash leaves\<close>

text \<open>A folder that can be loaded: all parts are there and belong to its step.\<close>

definition complete_folder :: "ckpt_config \<Rightarrow> nat \<Rightarrow> ckpt_folder \<Rightarrow> bool" where
  "complete_folder c s f = (dict_get f ''policy'' = Some s \<and> dict_get f ''trainer_state.pt'' = Some s
     \<and> (cc_critic c \<longrightarrow> dict_get f ''critic'' = Some s))"

definition latest_loadable :: "ckpt_config \<Rightarrow> ckpt_store \<Rightarrow> bool" where
  "latest_loadable c st = (case ckpt_latest st of
      None \<Rightarrow> True | Some s \<Rightarrow> (\<exists>f. dict_get (ckpt_folders st) s = Some f \<and> complete_folder c s f))"

definition parts_of_step :: "nat \<Rightarrow> ckpt_write \<Rightarrow> bool" where
  "parts_of_step s w = (case w of Make_dir t \<Rightarrow> t = s | Write_part t k v \<Rightarrow> t = s \<and> v = s | _ \<Rightarrow> False)"

lemma apply_writes_simps [simp]:
  "apply_writes [] st = st" "apply_writes (w # ws) st = apply_writes ws (apply_write w st)"
  "apply_writes (ws @ vs) st = apply_writes vs (apply_writes ws st)"
  by (simp_all add: apply_writes_def)

lemma complete_put: "complete_folder c s f \<Longrightarrow> complete_folder c s (dict_put k s f)"
  by (auto simp: complete_folder_def dict_simps)

lemma parts_keep_loadable:
  assumes "latest_loadable c st" "list_all (parts_of_step s) ws"
  shows "latest_loadable c (apply_writes ws st) \<and> ckpt_latest (apply_writes ws st) = ckpt_latest st"
  using assms
proof (induction ws arbitrary: st)
  case (Cons w ws)
  have "latest_loadable c (apply_write w st) \<and> ckpt_latest (apply_write w st) = ckpt_latest st"
  proof (cases "ckpt_latest st")
    case None
    then show ?thesis using Cons.prems by (auto simp: apply_write_def latest_loadable_def parts_of_step_def split: ckpt_write.splits)
  next
    case (Some t)
    then obtain f where f: "dict_get (ckpt_folders st) t = Some f" "complete_folder c t f"
      using Cons.prems(1) by (auto simp: latest_loadable_def)
    show ?thesis
      using Cons.prems(2) Some f complete_put [OF f(2)]
      by (cases w; cases "t = s") (auto simp: apply_write_def latest_loadable_def parts_of_step_def dict_simps dict_has_def)
  qed
  then show ?case using Cons by simp
qed simp

definition part_writes :: "ckpt_config \<Rightarrow> nat \<Rightarrow> ckpt_write list" where
  "part_writes c s = butlast (base_writes c s)"

lemma base_writes_parts: "base_writes c s = part_writes c s @ [Write_latest s]" "list_all (parts_of_step s) (part_writes c s)"
  by (simp_all add: part_writes_def base_writes_def parts_of_step_def butlast_append)

definition folder_of :: "nat \<Rightarrow> ckpt_store \<Rightarrow> ckpt_folder" where
  "folder_of s st = (case dict_get (ckpt_folders st) s of Some f \<Rightarrow> f | None \<Rightarrow> [])"

lemma written_part:
  "folder_of s (apply_write (Write_part s k v) st) = dict_put k v (folder_of s st)"
  "dict_get (ckpt_folders (apply_write (Write_part s k v) st)) s = Some (dict_put k v (folder_of s st))"
  by (simp_all add: folder_of_def apply_write_def dict_simps)

lemma part_writes_complete: "\<exists>f. dict_get (ckpt_folders (apply_writes (part_writes c s) st)) s = Some f \<and> complete_folder c s f"
  by (cases "cc_critic c"; cases "cc_data c")
    (simp_all add: part_writes_def base_writes_def butlast_append written_part complete_folder_def dict_simps)

lemma newest_kept:
  fixes s :: nat
  assumes "sorted ds" "distinct ds" "s \<in> set ds" "\<forall>d\<in>set ds. d \<le> s" "0 < k"
  shows "s \<notin> set (take (length ds - k) ds)"
proof
  assume "s \<in> set (take (length ds - k) ds)"
  then obtain i where i: "i < length ds - k" "ds ! i = s" by (auto simp: in_set_conv_nth)
  have "ds ! i \<le> ds ! (length ds - 1)" using assms(1) i(1) by (intro sorted_nth_mono) auto
  moreover have "ds ! (length ds - 1) \<le> s" using assms(4) i(1) by simp
  ultimately have "ds ! i = ds ! (length ds - 1)" using i(2) by simp
  moreover have "i < length ds" "length ds - 1 < length ds" "i \<noteq> length ds - 1" using i(1) assms(5) by linarith+
  ultimately show False using nth_eq_iff_index_eq [OF assms(2)] by blast
qed

definition steps_upto :: "nat \<Rightarrow> ckpt_store \<Rightarrow> bool" where
  "steps_upto s st = (dict_wf (ckpt_folders st) \<and> (\<forall>d. dict_get (ckpt_folders st) d \<noteq> None \<longrightarrow> d \<le> s))"

lemma steps_upto_write:
  assumes "steps_upto s st" "case w of Make_dir t \<Rightarrow> t \<le> s | Write_part t _ _ \<Rightarrow> t \<le> s | _ \<Rightarrow> True"
  shows "steps_upto s (apply_write w st)"
  using assms
  by (cases w) (auto simp: steps_upto_def apply_write_def dict_simps)

lemma steps_upto_writes:
  assumes "steps_upto s st" "\<forall>w\<in>set ws. case w of Make_dir t \<Rightarrow> t \<le> s | Write_part t _ _ \<Rightarrow> t \<le> s | _ \<Rightarrow> True"
  shows "steps_upto s (apply_writes ws st)"
  using assms by (induction ws arbitrary: st) (simp_all add: steps_upto_write)

lemma newest_not_old:
  assumes "steps_upto s st" "keep \<noteq> 0" "dict_get (ckpt_folders st) s = Some f"
  shows "s \<notin> set (old_checkpoints keep st)"
proof (cases "keep < 0 \<or> int (length (ckpt_folders st)) \<le> keep")
  case False
  let ?ds = "sort (map fst (ckpt_folders st))"
  have "s \<in> set ?ds" using map_of_SomeD [OF assms(3)] by force
  then have "s \<notin> set (take (length ?ds - nat keep) ?ds)"
    using assms(1,2) False dict_has_iff [of "ckpt_folders st"]
    by (intro newest_kept) (auto simp: steps_upto_def dict_wf_def dict_has_def)
  then show ?thesis using False by (simp add: old_checkpoints_def Let_def)
qed (simp add: old_checkpoints_def)

lemma remove_keeps_loadable:
  assumes "latest_loadable c st" "ckpt_latest st = Some s" "s \<notin> set ds"
  shows "latest_loadable c (apply_writes (map Remove_dir ds) st) \<and> ckpt_latest (apply_writes (map Remove_dir ds) st) = Some s"
  using assms
proof (induction ds arbitrary: st)
  case (Cons d ds)
  have "latest_loadable c (apply_write (Remove_dir d) st) \<and> ckpt_latest (apply_write (Remove_dir d) st) = Some s"
    using Cons.prems by (auto simp: apply_write_def latest_loadable_def dict_simps)
  then show ?case using Cons by simp
qed simp

lemma take_append_cases:
  obtains (first) "n \<le> length xs" "take n (xs @ ys) = take n xs" | (second) k where "take n (xs @ ys) = xs @ take k ys"
  by (cases "n \<le> length xs") auto

text \<open>Whatever prefix of a save is written, the marker points to a complete checkpoint, the old or the new one.\<close>

lemma save_prefix_loadable:
  assumes "latest_loadable c st" "steps_upto s st" "cc_keep c \<noteq> 0" "\<not> cc_async c"
  shows "latest_loadable c (apply_writes (take n (save_writes c removable s st)) st)
    \<and> ckpt_latest (apply_writes (take n (save_writes c removable s st)) st) \<in> {ckpt_latest st, Some s}
    \<and> steps_upto s (apply_writes (take n (save_writes c removable s st)) st)"
proof -
  let ?p = "part_writes c s" and ?st1 = "apply_writes (base_writes c s) st"
  let ?rm = "cleanup_writes c removable ?st1"
  have ws: "save_writes c removable s st = ?p @ Write_latest s # ?rm"
    using assms(4) by (simp add: save_writes_def base_writes_parts(1))
  have bound: "\<forall>w\<in>set (?p @ Write_latest s # ?rm). case w of Make_dir t \<Rightarrow> t \<le> s | Write_part t _ _ \<Rightarrow> t \<le> s | _ \<Rightarrow> True"
    using base_writes_parts(2) [of s c]
    by (auto simp: list_all_iff parts_of_step_def cleanup_writes_def split: ckpt_write.splits)
  have upto: "steps_upto s (apply_writes (take n (?p @ Write_latest s # ?rm)) st)"
    using bound by (intro steps_upto_writes [OF assms(2)]) (meson in_set_takeD)
  have st1: "?st1 = apply_write (Write_latest s) (apply_writes ?p st)" by (simp add: base_writes_parts(1))
  obtain f where f: "dict_get (ckpt_folders ?st1) s = Some f" "complete_folder c s f"
    using part_writes_complete [of c s st] unfolding st1 by (auto simp: apply_write_def)
  have latest1: "ckpt_latest ?st1 = Some s" unfolding st1 by (simp add: apply_write_def)
  have load1: "latest_loadable c ?st1" using f latest1 by (simp add: latest_loadable_def)
  have "steps_upto s ?st1" using bound by (intro steps_upto_writes [OF assms(2)]) (auto simp: base_writes_parts(1))
  then have keep: "s \<notin> set (old_checkpoints (cc_keep c) ?st1)" using newest_not_old [OF _ assms(3) f(1)] by blast
  have "latest_loadable c (apply_writes (take n (?p @ Write_latest s # ?rm)) st)
      \<and> ckpt_latest (apply_writes (take n (?p @ Write_latest s # ?rm)) st) \<in> {ckpt_latest st, Some s}"
  proof (cases rule: take_append_cases [of n ?p "Write_latest s # ?rm"])
    case first
    have "list_all (parts_of_step s) (take n ?p)" using base_writes_parts(2) [of s c] by (auto simp: list_all_iff dest: in_set_takeD)
    then show ?thesis using parts_keep_loadable [OF assms(1)] first(2) by simp
  next
    case (second k)
    show ?thesis
    proof (cases k)
      case 0
      then show ?thesis using parts_keep_loadable [OF assms(1) base_writes_parts(2)] second by simp
    next
      case (Suc j)
      let ?ds = "take j (filter removable (old_checkpoints (cc_keep c) ?st1))"
      have "s \<notin> set ?ds" using keep by (auto dest: in_set_takeD)
      then have "latest_loadable c (apply_writes (map Remove_dir ?ds) ?st1) \<and> ckpt_latest (apply_writes (map Remove_dir ?ds) ?st1) = Some s"
        by (rule remove_keeps_loadable [OF load1 latest1])
      moreover have "apply_writes (take n (?p @ Write_latest s # ?rm)) st = apply_writes (map Remove_dir ?ds) ?st1"
        unfolding second Suc by (simp add: st1 cleanup_writes_def take_map)
      ultimately show ?thesis by simp
    qed
  qed
  then show ?thesis using upto unfolding ws by simp
qed

lemma save_complete_latest: "ckpt_latest (apply_writes (save_writes c removable s st) st) = Some s" if "\<not> cc_async c"
proof -
  have "ckpt_latest (apply_writes (map Remove_dir ds) st) = ckpt_latest st" for ds st
    by (induction ds arbitrary: st) (simp_all add: apply_write_def)
  then show ?thesis using that by (simp add: save_writes_def cleanup_writes_def base_writes_parts(1) apply_write_def)
qed

lemma load_latest_ok:
  assumes "latest_loadable c st" "steps_upto (g + k) st" "ckpt_latest st = Some g \<or> ckpt_latest st = None \<and> g = 0"
    and "cc_interval c = int k" "\<not> cc_async c"
  shows "\<exists>vs. load_latest c st = Inr (g, vs) \<and> set vs \<subseteq> {g}"
proof (cases "ckpt_latest st")
  case None
  then show ?thesis using assms(3) by (simp add: load_latest_def)
next
  case (Some s)
  then have s: "s = g" using assms(3) by simp
  obtain f where f: "dict_get (ckpt_folders st) g = Some f" "complete_folder c g f"
    using assms(1) Some s by (auto simp: latest_loadable_def)
  have le: "d \<le> g + k" if "d \<in> set (map fst (ckpt_folders st))" for d
    using that assms(2) dict_has_iff [of "ckpt_folders st" d] by (auto simp: steps_upto_def dict_has_def)
  have mem: "fold max ds d \<in> set (d # ds)" for d and ds :: "nat list"
    by (induction ds arbitrary: d) (auto simp: max_def)
  have "validate_consistency_for_latest_checkpoint st g (cc_interval c)"
  proof (cases "map fst (ckpt_folders st)")
    case (Cons d ds)
    then have "fold max ds d \<le> g + k" using le mem by metis
    then show ?thesis by (simp add: validate_consistency_for_latest_checkpoint_def Cons assms(4))
  qed (simp add: validate_consistency_for_latest_checkpoint_def)
  then show ?thesis
    using Some s f assms(5) by (auto simp: load_latest_def complete_folder_def)
qed

section \<open>Runs that crash\<close>

definition run_inv :: "ckpt_config \<Rightarrow> nat \<Rightarrow> ckpt_run \<Rightarrow> bool" where
  "run_inv c k = (\<lambda>(st, g). latest_loadable c st \<and> steps_upto (g + k) st
     \<and> (ckpt_latest st = Some g \<or> ckpt_latest st = None \<and> g = 0))"

definition crash_safe :: "ckpt_config \<Rightarrow> nat \<Rightarrow> bool" where
  "crash_safe c k = (cc_keep c \<noteq> 0 \<and> \<not> cc_async c \<and> cc_interval c = int k)"

lemma steps_upto_mono: "steps_upto s st \<Longrightarrow> s \<le> t \<Longrightarrow> steps_upto t st"
  by (meson order_trans steps_upto_def)

lemma crash_recovers:
  assumes "run_inv c k (st, g)" "crash_safe c k" "st' = apply_writes (take n (save_writes c removable (g + k) st)) st"
  shows "\<exists>s vs. load_latest c st' = Inr (s, vs) \<and> (s = g \<or> s = g + k) \<and> set vs \<subseteq> {s} \<and> run_inv c k (st', s)"
proof -
  have c: "cc_keep c \<noteq> 0" "\<not> cc_async c" "cc_interval c = int k" using assms(2) by (auto simp: crash_safe_def)
  have inv: "latest_loadable c st" "steps_upto (g + k) st" "ckpt_latest st = Some g \<or> ckpt_latest st = None \<and> g = 0"
    using assms(1) by (auto simp: run_inv_def)
  have st': "latest_loadable c st'" "ckpt_latest st' \<in> {ckpt_latest st, Some (g + k)}" "steps_upto (g + k) st'"
    using save_prefix_loadable [OF inv(1,2) c(1,2), of n removable] unfolding assms(3) by blast+
  show ?thesis
  proof (cases "ckpt_latest st' = Some (g + k)")
    case True
    have upto: "steps_upto (g + k + k) st'" using st'(3) by (rule steps_upto_mono) simp
    then show ?thesis using load_latest_ok [OF st'(1) upto _ c(3,2)] True st'(1) by (auto simp: run_inv_def)
  next
    case False
    then have "ckpt_latest st' = Some g \<or> ckpt_latest st' = None \<and> g = 0" using st'(2) inv(3) by auto
    then show ?thesis using load_latest_ok [OF st'(1,3) _ c(3,2)] st'(1,3) by (auto simp: run_inv_def)
  qed
qed

lemma run_inv_step:
  assumes "run_inv c k x" "ckpt_step c k x y" "crash_safe c k"
  shows "run_inv c k y"
  using assms(2,1)
proof cases
  case (saved st g removable)
  have c: "cc_keep c \<noteq> 0" "\<not> cc_async c" using assms(3) by (auto simp: crash_safe_def)
  have "latest_loadable c st" "steps_upto (g + k) st" using assms(1) saved(1) by (auto simp: run_inv_def)
  from save_prefix_loadable [OF this c, of "length (save_writes c removable (g + k) st)" removable]
  show ?thesis using saved(2) save_complete_latest [OF c(2)] steps_upto_mono by (auto simp: run_inv_def)
next
  case (crashed n removable g st s vs)
  obtain s' vs' where "load_latest c (apply_writes (take n (save_writes c removable (g + k) st)) st) = Inr (s', vs')"
    "run_inv c k (apply_writes (take n (save_writes c removable (g + k) st)) st, s')"
    using crash_recovers [OF _ assms(3) refl] assms(1) crashed(1) by metis
  then show ?thesis using crashed by simp
qed

lemma run_inv_reachable:
  assumes "(ckpt_step c k)\<^sup>*\<^sup>* (fresh_store, 0) x" "crash_safe c k"
  shows "run_inv c k x"
  using assms(1)
proof induction
  case base
  show ?case by (simp add: run_inv_def fresh_store_def latest_loadable_def steps_upto_def)
next
  case (step y z)
  then show ?case using run_inv_step [OF _ _ assms(2)] by blast
qed


definition ex_ckpt :: "bool \<Rightarrow> ckpt_config" where
  "ex_ckpt async = \<lparr>cc_critic = True, cc_data = True, cc_async = async, cc_keep = 1, cc_interval = 10\<rparr>"

definition ex_saved :: "bool \<Rightarrow> nat \<Rightarrow> ckpt_store \<Rightarrow> ckpt_store" where
  "ex_saved async s st = apply_writes (save_writes (ex_ckpt async) (\<lambda>_. True) s st) st"


text \<open>The fully asynchronous trainer writes its own state after the marker and after the clean-up, so a crash in
  between leaves a marker to a checkpoint that cannot be loaded, while the previous one is already gone.\<close>

theorem async_crash_unloadable:
  "\<exists>n. let st = ex_saved True 10 fresh_store; st' = apply_writes (take n (save_writes (ex_ckpt True) (\<lambda>_. True) 20 st)) st
    in is_ok (load_latest (ex_ckpt True) st) \<and> load_latest (ex_ckpt True) st' = Inl ''Fully-async state file not found''
      \<and> dict_keys (ckpt_folders st') = [20]"
  by (rule exI [of _ 7]) code_simp

text \<open>The clean-up keeps the folders with the highest steps, not the newest: when a save crashed at a higher step, or
  the folder holds an older run, it removes the checkpoint just written and leaves the incomplete one.\<close>

theorem cleanup_removes_newest:
  "let st = ex_saved False 10 fresh_store; crashed = apply_writes (take 2 (save_writes (ex_ckpt False) (\<lambda>_. True) 20 st)) st;
       st' = ex_saved False 15 crashed
    in load_latest (ex_ckpt False) crashed = Inr (10, [10, 10, 10]) \<and> ckpt_latest st' = Some 15
      \<and> load_latest (ex_ckpt False) st' = Inl ''Checkpoint path not found'' \<and> dict_keys (ckpt_folders st') = [20]"
  by code_simp

end
