(* ===== verification/Gpu_Residency.thy ===== *)
theory Gpu_Residency
  imports Prelude
begin

text \<open>
  Placement of colocated models by the worker dispatch (\<^verbatim>\<open>workers/worker_dispatch.py\<close>): before a call the model it needs is
  loaded onto the GPU and the models it shares the GPU with are moved off.
\<close>

section \<open>State\<close>

record gpu_state =
  model_on_gpu :: bool
  optimizer_on_gpu :: bool

definition off_gpu :: gpu_state where
  "off_gpu = \<lparr>model_on_gpu = False, optimizer_on_gpu = False\<rparr>"

text \<open>What the dispatch believes about every model it knows, and where the workers really hold them.\<close>

record worker_dispatch =
  wd_colocate_all :: bool
  wd_colocate_policy_ref :: bool
  wd_groups :: "string list"
  wd_state :: "string \<Rightarrow> gpu_state"
  wd_actual :: "string \<Rightarrow> gpu_state"
  wd_has_client :: bool

definition offload_to_cpu :: "bool \<Rightarrow> bool \<Rightarrow> gpu_state \<Rightarrow> gpu_state" where
  "offload_to_cpu optimizer model g =
     \<lparr>model_on_gpu = model_on_gpu g \<and> \<not> model, optimizer_on_gpu = optimizer_on_gpu g \<and> \<not> optimizer\<rparr>"

definition backload_to_gpu :: "bool \<Rightarrow> bool \<Rightarrow> gpu_state \<Rightarrow> gpu_state" where
  "backload_to_gpu optimizer model g =
     \<lparr>model_on_gpu = model_on_gpu g \<or> model, optimizer_on_gpu = optimizer_on_gpu g \<or> optimizer\<rparr>"

section \<open>Moving models\<close>

definition should_manage_offload :: "string \<Rightarrow> worker_dispatch \<Rightarrow> bool" where
  "should_manage_offload m d = (wd_colocate_all d \<or> wd_colocate_policy_ref d \<and> m \<in> {''policy'', ''ref''})"

definition get_colocation_group :: "string \<Rightarrow> worker_dispatch \<Rightarrow> string list" where
  "get_colocation_group m d =
     (if wd_colocate_all d then wd_groups d
      else if wd_colocate_policy_ref d \<and> m \<in> {''policy'', ''ref''} then filter (\<lambda>m. m \<in> set (wd_groups d)) [''policy'', ''ref'']
      else [m])"

definition move_off :: "string \<Rightarrow> string \<Rightarrow> worker_dispatch \<Rightarrow> worker_dispatch" where
  "move_off m other d =
     (if other \<noteq> m \<and> other \<in> set (wd_groups d) \<and> (model_on_gpu (wd_state d other) \<or> optimizer_on_gpu (wd_state d other))
      then d\<lparr>wd_actual := (wd_actual d)(other := offload_to_cpu True True (wd_actual d other)), wd_state := (wd_state d)(other := off_gpu)\<rparr>
      else d)"

definition offload_others :: "string \<Rightarrow> worker_dispatch \<Rightarrow> worker_dispatch" where
  "offload_others m d = fold (move_off m) (get_colocation_group m d) d"

definition ensure_on_gpu :: "bool \<Rightarrow> bool \<Rightarrow> string \<Rightarrow> worker_dispatch \<Rightarrow> worker_dispatch" where
  "ensure_on_gpu need_optimizer need_model m d =
     (if \<not> should_manage_offload m d \<or> m \<notin> set (wd_groups d) then d
      else
        let d = offload_others m d; g = wd_state d m
        in if need_model \<and> \<not> model_on_gpu g \<or> need_optimizer \<and> \<not> optimizer_on_gpu g
           then d\<lparr>wd_actual := (wd_actual d)(m := backload_to_gpu need_optimizer need_model (wd_actual d m)),
                  wd_state := (wd_state d)(m := backload_to_gpu need_optimizer need_model g)\<rparr>
           else d)"

definition offload :: "bool \<Rightarrow> bool \<Rightarrow> string \<Rightarrow> worker_dispatch \<Rightarrow> worker_dispatch" where
  "offload optimizer model m d =
     (if \<not> should_manage_offload m d \<or> m \<notin> set (wd_groups d) then d
      else d\<lparr>wd_actual := (wd_actual d)(m := offload_to_cpu optimizer model (wd_actual d m)),
             wd_state := (wd_state d)(m := offload_to_cpu optimizer model (wd_state d m))\<rparr>)"

definition mark_as_offloaded :: "string \<Rightarrow> worker_dispatch \<Rightarrow> worker_dispatch" where
  "mark_as_offloaded m d = (if m \<in> set (wd_groups d) then d\<lparr>wd_state := (wd_state d)(m := off_gpu)\<rparr> else d)"

definition mark_all_offloaded :: "worker_dispatch \<Rightarrow> worker_dispatch" where
  "mark_all_offloaded d = fold mark_as_offloaded (wd_groups d) d"

definition register_actor_group :: "string \<Rightarrow> worker_dispatch \<Rightarrow> worker_dispatch" where
  "register_actor_group m d =
     d\<lparr>wd_groups := (if m \<in> set (wd_groups d) then wd_groups d else wd_groups d @ [m]), wd_state := (wd_state d)(m := off_gpu)\<rparr>"

definition prepare_for_weight_sync :: "worker_dispatch \<Rightarrow> worker_dispatch" where
  "prepare_for_weight_sync d =
     (if \<not> wd_colocate_all d then d
      else let d = ensure_on_gpu False True ''policy'' d
           in if optimizer_on_gpu (wd_state d ''policy'') then offload True False ''policy'' d else d)"

definition finish_weight_sync :: "worker_dispatch \<Rightarrow> worker_dispatch" where
  "finish_weight_sync d = (if \<not> wd_colocate_all d then d else offload True True ''policy'' d)"

section \<open>Calls\<close>

text \<open>What the workers run, on which model, and where that model is at the time.  \<open>tenant\<close> says whether the call names an adapter.\<close>

type_synonym worker_run = "string \<times> string \<times> gpu_state"

definition run_on :: "string \<Rightarrow> string \<Rightarrow> worker_dispatch \<Rightarrow> worker_run" where
  "run_on method m d = (method, m, wd_actual d m)"

definition ensure_active_adapter :: "bool \<Rightarrow> string \<Rightarrow> worker_dispatch \<Rightarrow> worker_run list" where
  "ensure_active_adapter tenant m d = (if \<not> tenant \<or> m \<notin> set (wd_groups d) then [] else [run_on ''swap_to_adapter'' m d])"

definition worker_call ::
  "bool \<Rightarrow> bool \<Rightarrow> bool \<Rightarrow> string \<Rightarrow> string \<Rightarrow> worker_dispatch \<Rightarrow> (string, worker_dispatch \<times> worker_run list) result" where
  "worker_call need_optimizer need_model tenant method m d =
     (let d = ensure_on_gpu need_optimizer need_model m d
      in if m \<notin> set (wd_groups d) then Inl ''KeyError''
         else Inr (d, ensure_active_adapter tenant m d @ [run_on method m d]))"

datatype dispatch_call =
    Call_forward string bool
  | Call_forward_backward string bool
  | Call_optim_step string bool
  | Call_set_lr string bool
  | Call_set_algorithm_config string
  | Call_save_checkpoint string bool
  | Call_load_checkpoint string bool bool
  | Call_save_hf_model string
  | Call_init_model string
  | Call_save_weights_for_sampler bool

definition optim_step_call :: "string \<Rightarrow> bool \<Rightarrow> worker_dispatch \<Rightarrow> (string, worker_dispatch \<times> worker_run list) result" where
  "optim_step_call m tenant d =
     (if m \<notin> set (wd_groups d) then Inl ''KeyError'' else Inr (d, ensure_active_adapter tenant m d @ [run_on ''optim_step'' m d]))"

definition init_model_call :: "string \<Rightarrow> worker_dispatch \<Rightarrow> (string, worker_dispatch \<times> worker_run list) result" where
  "init_model_call m d =
     (let d = (if should_manage_offload m d then offload_others m d else d)
      in if m \<notin> set (wd_groups d) then Inl ''KeyError''
         else Inr (d\<lparr>wd_actual := (wd_actual d)(m := \<lparr>model_on_gpu = True, optimizer_on_gpu = m \<noteq> ''ref''\<rparr>),
                     wd_state := (wd_state d)(m := \<lparr>model_on_gpu = True, optimizer_on_gpu = m \<noteq> ''ref''\<rparr>)\<rparr>, []))"

definition sync_weights_for_sampler :: "bool \<Rightarrow> worker_dispatch \<Rightarrow> (string, worker_dispatch \<times> worker_run list) result" where
  "sync_weights_for_sampler tenant d =
     (if \<not> wd_has_client d then Inl ''no inference_engine_client configured''
      else
        let d = prepare_for_weight_sync d; swap = ensure_active_adapter tenant ''policy'' d
        in if ''policy'' \<notin> set (wd_groups d) then Inl ''KeyError''
           else Inr (finish_weight_sync d, swap @ [run_on ''broadcast_to_inference_engines'' ''policy'' d]))"

definition dispatch_call_step :: "dispatch_call \<Rightarrow> worker_dispatch \<Rightarrow> (string, worker_dispatch \<times> worker_run list) result" where
  "dispatch_call_step c d =
     (case c of
        Call_forward m t \<Rightarrow> worker_call False True t ''forward'' m d
      | Call_forward_backward m t \<Rightarrow> worker_call True True t ''forward_backward'' m d
      | Call_optim_step m t \<Rightarrow> optim_step_call m t d
      | Call_set_lr m t \<Rightarrow> worker_call True False t ''set_lr'' m d
      | Call_set_algorithm_config m \<Rightarrow> worker_call False False False ''set_algorithm_config'' m d
      | Call_save_checkpoint m t \<Rightarrow> worker_call True True t ''save_checkpoint'' m d
      | Call_load_checkpoint m opt t \<Rightarrow> worker_call opt True t ''load_checkpoint'' m d
      | Call_save_hf_model m \<Rightarrow> worker_call False True False ''save_hf_model'' m d
      | Call_init_model m \<Rightarrow> init_model_call m d
      | Call_save_weights_for_sampler t \<Rightarrow> sync_weights_for_sampler t d)"

fun dispatch_calls :: "dispatch_call list \<Rightarrow> worker_dispatch \<Rightarrow> (string, worker_dispatch \<times> worker_run list) result" where
  "dispatch_calls [] d = Inr (d, [])"
| "dispatch_calls (c # cs) d =
     (case dispatch_call_step c d of
        Inl e \<Rightarrow> Inl e
      | Inr (d, rs) \<Rightarrow> (case dispatch_calls cs d of Inl e \<Rightarrow> Inl e | Inr (d, rs') \<Rightarrow> Inr (d, rs @ rs')))"

section \<open>Invariant\<close>

definition on_gpu :: "gpu_state \<Rightarrow> bool" where
  "on_gpu g = (model_on_gpu g \<or> optimizer_on_gpu g)"

text \<open>The dispatch knows where the models it manages are, and no two of them are on the GPU together.\<close>

definition tracked :: "worker_dispatch \<Rightarrow> bool" where
  "tracked d = (\<forall>m \<in> set (wd_groups d). should_manage_offload m d \<longrightarrow> wd_state d m = wd_actual d m)"

definition exclusive :: "worker_dispatch \<Rightarrow> bool" where
  "exclusive d = (\<forall>m \<in> set (wd_groups d). \<forall>m' \<in> set (wd_groups d). should_manage_offload m d \<longrightarrow> should_manage_offload m' d \<longrightarrow>
     on_gpu (wd_actual d m) \<longrightarrow> on_gpu (wd_actual d m') \<longrightarrow> m = m')"

text \<open>Models that do not share their GPU never leave it; the reference model has no optimizer.\<close>

definition rest_resident :: "worker_dispatch \<Rightarrow> bool" where
  "rest_resident d = (\<forall>m \<in> set (wd_groups d). \<not> should_manage_offload m d \<longrightarrow>
     model_on_gpu (wd_actual d m) \<and> (m \<noteq> ''ref'' \<longrightarrow> optimizer_on_gpu (wd_actual d m)))"

definition residency_inv :: "worker_dispatch \<Rightarrow> bool" where
  "residency_inv d = (tracked d \<and> exclusive d \<and> rest_resident d)"

definition same_colocation :: "worker_dispatch \<Rightarrow> worker_dispatch \<Rightarrow> bool" where
  "same_colocation d d' = (wd_groups d' = wd_groups d \<and> wd_colocate_all d' = wd_colocate_all d \<and> wd_colocate_policy_ref d' = wd_colocate_policy_ref d)"

lemma same_colocation_manage: "same_colocation d d' \<Longrightarrow> should_manage_offload m d' = should_manage_offload m d"
  by (simp add: same_colocation_def should_manage_offload_def)

lemma gpu_state_eq: "\<not> on_gpu g \<longleftrightarrow> g = off_gpu"
  by (cases g) (auto simp: on_gpu_def off_gpu_def)

lemma gpu_state_simps [simp]:
  "\<not> on_gpu off_gpu" "offload_to_cpu True True g = off_gpu"
  "model_on_gpu (backload_to_gpu opt model g) = (model_on_gpu g \<or> model)"
  "optimizer_on_gpu (backload_to_gpu opt model g) = (optimizer_on_gpu g \<or> opt)"
  by (simp_all add: on_gpu_def off_gpu_def offload_to_cpu_def backload_to_gpu_def)

lemma move_off_fold:
  "same_colocation d (fold (move_off m) gs d) \<and>
   wd_state (fold (move_off m) gs d) = (\<lambda>x. if x \<in> set gs \<and> x \<noteq> m \<and> x \<in> set (wd_groups d) then off_gpu else wd_state d x) \<and>
   wd_actual (fold (move_off m) gs d)
     = (\<lambda>x. if x \<in> set gs \<and> x \<noteq> m \<and> x \<in> set (wd_groups d) \<and> on_gpu (wd_state d x) then off_gpu else wd_actual d x)"
proof (induction gs arbitrary: d)
  case (Cons y gs)
  have step: "same_colocation d (move_off m y d)"
    "wd_state (move_off m y d) = (\<lambda>x. if x = y \<and> x \<noteq> m \<and> x \<in> set (wd_groups d) then off_gpu else wd_state d x)"
    "wd_actual (move_off m y d) = (\<lambda>x. if x = y \<and> x \<noteq> m \<and> x \<in> set (wd_groups d) \<and> on_gpu (wd_state d x) then off_gpu else wd_actual d x)"
    by (auto simp: move_off_def same_colocation_def on_gpu_def [symmetric] gpu_state_eq fun_eq_iff)
  have "wd_groups (move_off m y d) = wd_groups d" using step(1) by (simp add: same_colocation_def)
  then show ?case
    unfolding fold.simps comp_def Cons.IH [of "move_off m y d", THEN conjunct2, THEN conjunct1]
      Cons.IH [of "move_off m y d", THEN conjunct2, THEN conjunct2]
    using Cons.IH [of "move_off m y d", THEN conjunct1] step by (auto simp: same_colocation_def)
qed (simp add: same_colocation_def)

text \<open>Once the others are off, any placement of the model itself is exclusive.\<close>

lemma offload_others_alone:
  assumes "tracked d" "m \<in> set (wd_groups d)" "should_manage_offload m d"
  shows "same_colocation d (offload_others m d)" "tracked (offload_others m d)"
    and "\<not> should_manage_offload x d \<Longrightarrow> wd_actual (offload_others m d) x = wd_actual d x"
    and "x \<in> set (wd_groups d) \<Longrightarrow> should_manage_offload x d \<Longrightarrow> x \<noteq> m \<Longrightarrow> wd_actual (offload_others m d) x = off_gpu"
proof -
  let ?d = "offload_others m d"
  note f = move_off_fold [of d m "get_colocation_group m d"]
  have l: "same_colocation d ?d" using f by (simp add: offload_others_def)
  have group: "x \<in> set (get_colocation_group m d)" if "x \<in> set (wd_groups d)" "should_manage_offload x d" for x
    using that assms(3) by (auto simp: get_colocation_group_def should_manage_offload_def)
  have managed: "should_manage_offload x d" if "x \<in> set (get_colocation_group m d)" for x
    using that assms(3) by (auto simp: get_colocation_group_def should_manage_offload_def split: if_splits)
  have st: "wd_state ?d = (\<lambda>x. if x \<in> set (get_colocation_group m d) \<and> x \<noteq> m \<and> x \<in> set (wd_groups d) then off_gpu else wd_state d x)"
    and act: "wd_actual ?d = (\<lambda>x. if x \<in> set (get_colocation_group m d) \<and> x \<noteq> m \<and> x \<in> set (wd_groups d) \<and> on_gpu (wd_state d x)
      then off_gpu else wd_actual d x)"
    using f by (simp_all add: offload_others_def)
  have off: "wd_actual ?d x = off_gpu" if x: "x \<in> set (wd_groups d)" "should_manage_offload x d" "x \<noteq> m" for x
    using assms(1) x group [OF x(1,2)] by (auto simp: act tracked_def gpu_state_eq)
  have "tracked ?d"
    unfolding tracked_def same_colocation_manage [OF l]
    using assms(1) off l group by (auto simp: st act tracked_def same_colocation_def gpu_state_eq)
  moreover have "wd_actual ?d x = wd_actual d x" if "\<not> should_manage_offload x d" for x
    using managed that by (auto simp: act)
  ultimately show "same_colocation d ?d" "tracked ?d" "\<not> should_manage_offload x d \<Longrightarrow> wd_actual ?d x = wd_actual d x"
    "x \<in> set (wd_groups d) \<Longrightarrow> should_manage_offload x d \<Longrightarrow> x \<noteq> m \<Longrightarrow> wd_actual ?d x = off_gpu"
    using l off by blast+
qed

lemma alone_exclusive:
  "\<forall>x \<in> set (wd_groups d). should_manage_offload x d \<longrightarrow> x \<noteq> m \<longrightarrow> wd_actual d x = off_gpu \<Longrightarrow> exclusive d"
  unfolding exclusive_def by (metis gpu_state_simps(1))

lemma ensure_on_gpu_inv:
  assumes "residency_inv d"
  shows "residency_inv (ensure_on_gpu opt model m d) \<and> same_colocation d (ensure_on_gpu opt model m d)
    \<and> (m \<in> set (wd_groups d) \<longrightarrow> (model \<longrightarrow> model_on_gpu (wd_actual (ensure_on_gpu opt model m d) m))
      \<and> (opt \<and> m \<noteq> ''ref'' \<longrightarrow> optimizer_on_gpu (wd_actual (ensure_on_gpu opt model m d) m)))"
proof (cases "should_manage_offload m d \<and> m \<in> set (wd_groups d)")
  case False
  then have "ensure_on_gpu opt model m d = d" by (auto simp: ensure_on_gpu_def)
  then show ?thesis using assms False by (auto simp: residency_inv_def rest_resident_def same_colocation_def)
next
  case True
  let ?o = "offload_others m d" and ?d = "ensure_on_gpu opt model m d"
  have inv: "tracked d" "rest_resident d" using assms by (simp_all add: residency_inv_def)
  note o = offload_others_alone [OF inv(1) conjunct2 [OF True] conjunct1 [OF True]]
  have tr: "wd_state ?o x = wd_actual ?o x" if "x \<in> set (wd_groups d)" "should_manage_offload x d" for x
    using o(1,2) that unfolding tracked_def same_colocation_manage [OF o(1)] by (simp add: same_colocation_def)
  have eq: "wd_state ?o m = wd_actual ?o m" using tr True by blast
  obtain g where d: "?d = ?o\<lparr>wd_actual := (wd_actual ?o)(m := g), wd_state := (wd_state ?o)(m := g)\<rparr>"
    "(model \<longrightarrow> model_on_gpu g) \<and> (opt \<longrightarrow> optimizer_on_gpu g)"
  proof (cases "model \<and> \<not> model_on_gpu (wd_state ?o m) \<or> opt \<and> \<not> optimizer_on_gpu (wd_state ?o m)")
    case b: True
    then show ?thesis
      using that [of "backload_to_gpu opt model (wd_actual ?o m)"] True eq by (simp add: ensure_on_gpu_def Let_def)
  next
    case b: False
    have "?o = ?o\<lparr>wd_actual := (wd_actual ?o)(m := wd_actual ?o m), wd_state := (wd_state ?o)(m := wd_actual ?o m)\<rparr>"
      using eq fun_upd_idem [of "wd_state ?o" m "wd_actual ?o m"] by simp
    moreover have "?d = ?o" unfolding ensure_on_gpu_def Let_def if_not_P [OF b] using True by simp
    ultimately have "?d = ?o\<lparr>wd_actual := (wd_actual ?o)(m := wd_actual ?o m), wd_state := (wd_state ?o)(m := wd_actual ?o m)\<rparr>" by (simp only:)
    moreover have "(model \<longrightarrow> model_on_gpu (wd_actual ?o m)) \<and> (opt \<longrightarrow> optimizer_on_gpu (wd_actual ?o m))" using b unfolding eq by blast
    ultimately show ?thesis by (rule that)
  qed
  have l: "same_colocation d ?d" using o(1) by (simp add: same_colocation_def d(1))
  have "tracked ?d"
    unfolding tracked_def same_colocation_manage [OF l] using tr l by (auto simp: d(1) same_colocation_def)
  moreover have "exclusive ?d"
    by (rule alone_exclusive [of _ m]) (use o(4) l in \<open>simp only: same_colocation_manage [OF l]\<close>, simp add: d(1) same_colocation_def)
  moreover have "rest_resident ?d"
    unfolding rest_resident_def same_colocation_manage [OF l] using inv(2) o(3) True l
    by (auto simp: d(1) same_colocation_def rest_resident_def)
  moreover have "(model \<longrightarrow> model_on_gpu (wd_actual ?d m)) \<and> (opt \<longrightarrow> optimizer_on_gpu (wd_actual ?d m))"
    unfolding d(1) using d(2) by simp
  ultimately show ?thesis using l by (simp add: residency_inv_def)
qed

text \<open>A call runs where it should: the model of all but configuration calls is on the GPU, and so is the optimizer of the calls
  that train or save it.\<close>

definition run_resident :: "worker_run \<Rightarrow> bool" where
  "run_resident = (\<lambda>(method, m, g).
     (method \<notin> {''swap_to_adapter'', ''set_lr'', ''set_algorithm_config''} \<longrightarrow> model_on_gpu g)
     \<and> (method \<in> {''forward_backward'', ''optim_step'', ''set_lr'', ''save_checkpoint''} \<and> m \<noteq> ''ref'' \<longrightarrow> optimizer_on_gpu g))"

text \<open>Every optimizer step directly follows a training pass of its model.\<close>

fun paced :: "string option \<Rightarrow> dispatch_call list \<Rightarrow> bool" where
  "paced prev [] = True"
| "paced prev (Call_optim_step m t # cs) = (prev = Some m \<and> paced prev cs)"
| "paced prev (Call_forward_backward m t # cs) = paced (Some m) cs"
| "paced prev (c # cs) = paced None cs"

definition fully_on_gpu :: "string \<Rightarrow> worker_dispatch \<Rightarrow> bool" where
  "fully_on_gpu m d = (model_on_gpu (wd_actual d m) \<and> (m \<noteq> ''ref'' \<longrightarrow> optimizer_on_gpu (wd_actual d m)))"

lemma offload_inv:
  assumes "residency_inv d"
  shows "residency_inv (offload opt model m d) \<and> same_colocation d (offload opt model m d)"
proof (cases "should_manage_offload m d \<and> m \<in> set (wd_groups d)")
  case False
  then have "offload opt model m d = d" by (auto simp: offload_def)
  then show ?thesis using assms by (simp add: same_colocation_def)
next
  case True
  let ?d = "offload opt model m d"
  have d: "?d = d\<lparr>wd_actual := (wd_actual d)(m := offload_to_cpu opt model (wd_actual d m)),
      wd_state := (wd_state d)(m := offload_to_cpu opt model (wd_state d m))\<rparr>" using True by (simp add: offload_def)
  have l: "same_colocation d ?d" by (simp add: d same_colocation_def)
  have on: "on_gpu (wd_actual ?d x) \<Longrightarrow> on_gpu (wd_actual d x)" for x
    by (auto simp: d on_gpu_def offload_to_cpu_def split: if_splits)
  have g: "wd_groups ?d = wd_groups d" by (simp add: d)
  have inv: "tracked d" "exclusive d" "rest_resident d" using assms by (simp_all add: residency_inv_def)
  have "tracked ?d" unfolding tracked_def same_colocation_manage [OF l] g using inv(1) by (auto simp: d tracked_def)
  moreover have "exclusive ?d" unfolding exclusive_def same_colocation_manage [OF l] g using inv(2) on unfolding exclusive_def by blast
  moreover have "rest_resident ?d" unfolding rest_resident_def same_colocation_manage [OF l] g using inv(3) True by (auto simp: d rest_resident_def)
  ultimately show ?thesis using l by (simp add: residency_inv_def)
qed

lemma prepare_inv:
  assumes "residency_inv d" "wd_colocate_all d \<or> \<not> wd_colocate_policy_ref d" "''policy'' \<in> set (wd_groups d)"
  shows "residency_inv (prepare_for_weight_sync d) \<and> same_colocation d (prepare_for_weight_sync d)
    \<and> model_on_gpu (wd_actual (prepare_for_weight_sync d) ''policy'')"
proof (cases "wd_colocate_all d")
  case False
  then have "\<not> should_manage_offload ''policy'' d" using assms(2) by (simp add: should_manage_offload_def)
  then show ?thesis using assms False by (auto simp: prepare_for_weight_sync_def same_colocation_def residency_inv_def rest_resident_def)
next
  case True
  let ?e = "ensure_on_gpu False True ''policy'' d"
  have e: "residency_inv ?e" "same_colocation d ?e" "model_on_gpu (wd_actual ?e ''policy'')"
    using ensure_on_gpu_inv [OF assms(1), of False True "''policy''"] assms(3) by simp_all
  have "model_on_gpu (wd_actual (offload True False ''policy'' ?e) ''policy'')"
    using e(3) by (simp add: offload_def offload_to_cpu_def)
  then show ?thesis
    using True e offload_inv [OF e(1), of True False "''policy''"] by (simp add: prepare_for_weight_sync_def Let_def same_colocation_def)
qed

lemma init_model_inv:
  assumes "residency_inv d" "init_model_call m d = Inr (d', rs)"
  shows "residency_inv d' \<and> same_colocation d d' \<and> rs = []"
proof -
  let ?o = "if should_manage_offload m d then offload_others m d else d" and ?g = "\<lparr>model_on_gpu = True, optimizer_on_gpu = m \<noteq> ''ref''\<rparr>"
  have d': "d' = ?o\<lparr>wd_actual := (wd_actual ?o)(m := ?g), wd_state := (wd_state ?o)(m := ?g)\<rparr>" "rs = []" "m \<in> set (wd_groups ?o)"
    using assms(2) by (auto simp: init_model_call_def Let_def split: if_splits)
  have inv: "tracked d" "exclusive d" "rest_resident d" using assms by (simp_all add: residency_inv_def)
  have gs: "wd_groups (offload_others m d) = wd_groups d"
    using move_off_fold [of d m "get_colocation_group m d"] by (simp add: offload_others_def same_colocation_def)
  then have m: "m \<in> set (wd_groups d)" using d'(3) by (simp split: if_splits)
  have lo: "same_colocation d ?o" using move_off_fold [of d m "get_colocation_group m d"] by (simp add: offload_others_def same_colocation_def)
  then have l: "same_colocation d d'" by (simp add: d'(1) same_colocation_def)
  have g: "wd_groups d' = wd_groups d" using l by (simp add: same_colocation_def)
  have tro: "tracked ?o" using offload_others_alone(2) [OF inv(1) m] inv(1) by simp
  have "tracked d'" unfolding tracked_def same_colocation_manage [OF l] g
    using tro [unfolded tracked_def same_colocation_manage [OF lo]] lo by (simp add: d'(1) same_colocation_def)
  moreover have "exclusive d'"
  proof (cases "should_manage_offload m d")
    case True
    show ?thesis
      by (rule alone_exclusive [of _ m], unfold same_colocation_manage [OF l] g)
        (use offload_others_alone(4) [OF inv(1) m True] True in \<open>simp add: d'(1)\<close>)
  next
    case False
    then show ?thesis using inv(2) unfolding exclusive_def same_colocation_manage [OF l] g by (auto simp: d'(1))
  qed
  moreover have "rest_resident d'"
    unfolding rest_resident_def same_colocation_manage [OF l] g
    using inv(3) offload_others_alone(3) [OF inv(1) m] by (auto simp: d'(1) rest_resident_def)
  ultimately show ?thesis using l d'(2) by (simp add: residency_inv_def)
qed

lemma worker_call_inv:
  assumes "residency_inv d" "worker_call opt model t method m d = Inr (d', rs)"
    and "method \<notin> {''swap_to_adapter'', ''set_lr'', ''set_algorithm_config''} \<longrightarrow> model"
    and "method \<in> {''forward_backward'', ''optim_step'', ''set_lr'', ''save_checkpoint''} \<longrightarrow> opt"
  shows "residency_inv d' \<and> same_colocation d d' \<and> list_all run_resident rs
    \<and> (model \<and> opt \<longrightarrow> m \<in> set (wd_groups d') \<and> fully_on_gpu m d')"
proof -
  have d': "d' = ensure_on_gpu opt model m d" "m \<in> set (wd_groups d')" "rs = ensure_active_adapter t m d' @ [run_on method m d']"
    using assms(2) by (auto simp: worker_call_def Let_def split: if_splits)
  have e: "residency_inv d'" "same_colocation d d'" using ensure_on_gpu_inv [OF assms(1)] by (simp_all add: d'(1))
  then have "m \<in> set (wd_groups d)" using d'(2) by (simp add: same_colocation_def)
  then have g: "model \<longrightarrow> model_on_gpu (wd_actual d' m)" "opt \<and> m \<noteq> ''ref'' \<longrightarrow> optimizer_on_gpu (wd_actual d' m)"
    using ensure_on_gpu_inv [OF assms(1), of opt model m] by (simp_all add: d'(1))
  then have "list_all run_resident rs"
    using assms(3,4) by (auto simp: d'(3) ensure_active_adapter_def run_on_def run_resident_def)
  then show ?thesis using e g d'(2) by (simp add: fully_on_gpu_def)
qed

lemma save_weights_inv:
  assumes "residency_inv d" "wd_colocate_all d \<or> \<not> wd_colocate_policy_ref d" "sync_weights_for_sampler t d = Inr (d', rs)"
  shows "residency_inv d' \<and> same_colocation d d' \<and> list_all run_resident rs"
proof -
  let ?p = "prepare_for_weight_sync d"
  have lp: "same_colocation d ?p"
    using assms(1) ensure_on_gpu_inv [OF assms(1), of False True "''policy''"] offload_inv
    by (auto simp: prepare_for_weight_sync_def Let_def same_colocation_def)
  have r: "d' = finish_weight_sync ?p" "rs = ensure_active_adapter t ''policy'' ?p @ [run_on ''broadcast_to_inference_engines'' ''policy'' ?p]"
    "''policy'' \<in> set (wd_groups ?p)"
    using assms(3) by (auto simp: sync_weights_for_sampler_def Let_def split: if_splits)
  have "''policy'' \<in> set (wd_groups d)" using r(3) lp by (simp add: same_colocation_def)
  note p = prepare_inv [OF assms(1,2) this]
  have "residency_inv d' \<and> same_colocation ?p d'"
    using offload_inv [of ?p True True "''policy''"] p by (simp add: r(1) finish_weight_sync_def same_colocation_def)
  moreover have "list_all run_resident rs"
    using p by (auto simp: r(2) ensure_active_adapter_def run_on_def run_resident_def)
  ultimately show ?thesis using lp by (simp add: same_colocation_def)
qed

lemma optim_step_inv:
  assumes "residency_inv d" "fully_on_gpu m d" "optim_step_call m t d = Inr (d', rs)"
  shows "d' = d \<and> list_all run_resident rs"
  using assms by (auto simp: optim_step_call_def ensure_active_adapter_def run_on_def run_resident_def fully_on_gpu_def split: if_splits)

lemma dispatch_calls_resident:
  assumes "residency_inv d" "wd_colocate_all d \<or> \<not> wd_colocate_policy_ref d" "dispatch_calls cs d = Inr (d', rs)"
    and "paced prev cs" "\<And>m. prev = Some m \<Longrightarrow> fully_on_gpu m d"
  shows "residency_inv d' \<and> list_all run_resident rs"
  using assms
proof (induction cs arbitrary: prev d rs)
  case (Cons c cs)
  obtain d1 rs1 rs2 where s: "dispatch_call_step c d = Inr (d1, rs1)" "dispatch_calls cs d1 = Inr (d', rs2)" "rs = rs1 @ rs2"
    using Cons.prems(3) by (auto split: sum.splits prod.splits)
  have step: "residency_inv d1 \<and> same_colocation d d1 \<and> list_all run_resident rs1
    \<and> (\<exists>prev'. paced prev' cs \<and> (\<forall>m. prev' = Some m \<longrightarrow> fully_on_gpu m d1))"
  proof (cases c)
    case (Call_forward_backward m t)
    then show ?thesis
      using worker_call_inv [OF Cons.prems(1), of True True t "''forward_backward''" m] s(1) Cons.prems(4)
      by (auto simp: dispatch_call_step_def)
  next
    case (Call_optim_step m t)
    then have f: "prev = Some m" "paced prev cs" "fully_on_gpu m d" using Cons.prems(4,5) by auto
    then show ?thesis
      using optim_step_inv [OF Cons.prems(1) f(3)] s(1) Call_optim_step Cons.prems(1,5)
      by (auto simp: dispatch_call_step_def same_colocation_def)
  next
    case (Call_save_weights_for_sampler t)
    then show ?thesis
      using save_weights_inv [OF Cons.prems(1,2)] s(1) Cons.prems(4) by (auto simp: dispatch_call_step_def)
  next
    case (Call_init_model m)
    then show ?thesis
      using init_model_inv [OF Cons.prems(1), of m d1 rs1] s(1) Cons.prems(4) by (auto simp: dispatch_call_step_def)
  next
    case (Call_forward m t)
    then show ?thesis
      using worker_call_inv [OF Cons.prems(1), of False True t "''forward''" m] s(1) Cons.prems(4) by (auto simp: dispatch_call_step_def)
  next
    case (Call_set_lr m t)
    then show ?thesis
      using worker_call_inv [OF Cons.prems(1), of True False t "''set_lr''" m] s(1) Cons.prems(4) by (auto simp: dispatch_call_step_def)
  next
    case (Call_set_algorithm_config m)
    then show ?thesis
      using worker_call_inv [OF Cons.prems(1), of False False False "''set_algorithm_config''" m] s(1) Cons.prems(4)
      by (auto simp: dispatch_call_step_def)
  next
    case (Call_save_checkpoint m t)
    then show ?thesis
      using worker_call_inv [OF Cons.prems(1), of True True t "''save_checkpoint''" m] s(1) Cons.prems(4) by (auto simp: dispatch_call_step_def)
  next
    case (Call_load_checkpoint m opt t)
    then show ?thesis
      using worker_call_inv [OF Cons.prems(1), of opt True t "''load_checkpoint''" m] s(1) Cons.prems(4) by (auto simp: dispatch_call_step_def)
  next
    case (Call_save_hf_model m)
    then show ?thesis
      using worker_call_inv [OF Cons.prems(1), of False True False "''save_hf_model''" m] s(1) Cons.prems(4) by (auto simp: dispatch_call_step_def)
  qed
  then obtain prev' where p: "paced prev' cs" "\<And>m. prev' = Some m \<Longrightarrow> fully_on_gpu m d1" by blast
  have "wd_colocate_all d1 \<or> \<not> wd_colocate_policy_ref d1" using step Cons.prems(2) by (simp add: same_colocation_def)
  from Cons.IH [OF _ this s(2) p] step show ?case by (simp add: s(3))
qed simp

section \<open>Properties\<close>


definition ex_dispatch :: "bool \<Rightarrow> worker_dispatch" where
  "ex_dispatch all = \<lparr>wd_colocate_all = all, wd_colocate_policy_ref = \<not> all, wd_groups = [''policy'', ''critic'', ''ref''], wd_state = (\<lambda>_. off_gpu),
     wd_actual = (\<lambda>_. off_gpu), wd_has_client = True\<rparr>"


text \<open>In the order of the Tinker service, weights synchronised for sampling between a training pass and the optimizer
  step, the step runs while the model is off the GPU: setting the learning rate loads the optimizer only, and swaps
  the adapter in that state too.\<close>

theorem optim_step_off_gpu:
  "case dispatch_calls [Call_forward_backward ''policy'' True, Call_save_weights_for_sampler True, Call_set_lr ''policy'' True,
      Call_optim_step ''policy'' True] (ex_dispatch True) of
     Inl _ \<Rightarrow> False
   | Inr (_, rs) \<Rightarrow> map (\<lambda>(method, _, g). (method, model_on_gpu g)) (drop 4 rs)
       = [(''swap_to_adapter'', False), (''set_lr'', False), (''swap_to_adapter'', False), (''optim_step'', False)]"
  by code_simp

text \<open>When only policy and reference model share their GPUs, the trainer leaves both there after initialisation but the
  dispatch starts believing both are off, so the first call leaves both on the GPU.\<close>

theorem untracked_start_not_exclusive:
  "case dispatch_calls [Call_forward ''policy'' False]
      ((ex_dispatch False)\<lparr>wd_actual := \<lambda>m. \<lparr>model_on_gpu = True, optimizer_on_gpu = m \<noteq> ''ref''\<rparr>\<rparr>) of
     Inl _ \<Rightarrow> False
   | Inr (d, _) \<Rightarrow> model_on_gpu (wd_actual d ''policy'') \<and> model_on_gpu (wd_actual d ''ref'') \<and> \<not> model_on_gpu (wd_state d ''ref'')"
  by code_simp

end
