(* ===== verification/Adapter_Store.thy ===== *)
theory Adapter_Store
  imports Prelude
begin

text \<open>
  The store of LoRA adapters of a Megatron worker (\<^verbatim>\<open>megatron/adapter_store.py\<close>): one adapter is live in the model and
  its optimizer, the others are snapshots.  Nested lists over model chunks and parameter groups are kept flat, in the
  order the code visits them.  The training step is an argument.
\<close>

section \<open>Live state and slots\<close>

text \<open>Entries of \<open>optimizer.state[p]\<close>, and of \<open>optimizer.param_groups[g]\<close>: a one-element tensor there is an object that
  is shared by reference, so it is an address.\<close>

datatype state_entry = Moment "real list" | Scalar real

datatype group_entry = Number real | Cell nat | Opaque

record opt_live =
  op_main :: "real list list"
  op_state :: "(string, state_entry) dict option list"
  op_groups :: "(string, group_entry) dict list"

record lora_live =
  lv_buffers :: "(real list \<times> real list) list"
  lv_opts :: "opt_live list"

record adapter_slot =
  sl_params :: "real list list"
  sl_grads :: "real list list"
  sl_main :: "real list list list"
  sl_state :: "(string, state_entry) dict list list"
  sl_groups :: "(string, group_entry) dict list list"

record lora_signature =
  ls_rank :: int
  ls_alpha :: int
  ls_target_modules :: "string list"
  ls_lora_type :: string
  ls_tp :: nat
  ls_pp :: nat
  ls_ep :: nat

text \<open>A worker: what is live, the one-element tensors by address, and the store.\<close>

record lora_worker =
  wk_live :: lora_live
  wk_cells :: "real list"
  wk_slots :: "(string, adapter_slot) dict"
  wk_pristine :: "adapter_slot option"
  wk_current :: "string option"
  wk_signature :: "lora_signature option"

section \<open>Snapshot and restore\<close>

definition is_scalar_state :: "group_entry \<Rightarrow> bool" where
  "is_scalar_state v = (case v of Opaque \<Rightarrow> False | _ \<Rightarrow> True)"

text \<open>A new tensor of the same shape holds whatever was in memory.\<close>

definition empty_like :: "(nat \<Rightarrow> real) \<Rightarrow> real list \<Rightarrow> real list" where
  "empty_like junk xs = map junk [0..<length xs]"

definition empty_entry :: "(nat \<Rightarrow> real) \<Rightarrow> state_entry \<Rightarrow> state_entry" where
  "empty_entry junk v = (case v of Moment xs \<Rightarrow> Moment (empty_like junk xs) | Scalar x \<Rightarrow> Scalar x)"

definition items_of :: "(string, state_entry) dict option \<Rightarrow> (string, state_entry) dict" where
  "items_of d = (case d of Some d \<Rightarrow> d | None \<Rightarrow> [])"

definition scalar_items :: "(string, group_entry) dict \<Rightarrow> (string, group_entry) dict" where
  "scalar_items d = filter (is_scalar_state \<circ> snd) d"

definition allocate_empty_slot :: "(nat \<Rightarrow> real) \<Rightarrow> lora_live \<Rightarrow> adapter_slot" where
  "allocate_empty_slot junk lv =
     \<lparr>sl_params = map (empty_like junk \<circ> fst) (lv_buffers lv),
      sl_grads = map (empty_like junk \<circ> snd) (lv_buffers lv),
      sl_main = map (map (empty_like junk) \<circ> op_main) (lv_opts lv),
      sl_state = map (map (map (\<lambda>(k, v). (k, empty_entry junk v)) \<circ> items_of) \<circ> op_state) (lv_opts lv),
      sl_groups = map (map scalar_items \<circ> op_groups) (lv_opts lv)\<rparr>"

text \<open>Tensors are copied only into tensors of the same key; scalars are stored by value.\<close>

definition copy_entry :: "string \<times> state_entry \<Rightarrow> (string, state_entry) dict \<Rightarrow> (string, state_entry) dict" where
  "copy_entry = (\<lambda>(k, v) d. case v of
     Moment xs \<Rightarrow> (case dict_get d k of Some (Moment _) \<Rightarrow> dict_put k v d | _ \<Rightarrow> d)
   | Scalar _ \<Rightarrow> dict_put k v d)"

definition copy_entries :: "(string, state_entry) dict \<Rightarrow> (string, state_entry) dict \<Rightarrow> (string, state_entry) dict" where
  "copy_entries src dst = fold copy_entry src dst"

text \<open>A copy between tensors of different shapes raises; so does an index out of range.\<close>

definition slot_fits :: "adapter_slot \<Rightarrow> lora_live \<Rightarrow> bool" where
  "slot_fits s lv =
     (map length (sl_params s) = map (length \<circ> fst) (lv_buffers lv)
      \<and> map length (sl_grads s) = map (length \<circ> snd) (lv_buffers lv)
      \<and> map (map length) (sl_main s) = map (map length \<circ> op_main) (lv_opts lv)
      \<and> map length (sl_state s) = map (length \<circ> op_state) (lv_opts lv)
      \<and> map length (sl_groups s) = map (length \<circ> op_groups) (lv_opts lv))"

definition snapshot :: "lora_live \<Rightarrow> adapter_slot \<Rightarrow> (string, adapter_slot) result" where
  "snapshot lv s =
     (if \<not> slot_fits s lv then Inl ''RuntimeError''
      else Inr \<lparr>sl_params = map fst (lv_buffers lv), sl_grads = map snd (lv_buffers lv), sl_main = map op_main (lv_opts lv),
        sl_state = map2 (\<lambda>opt. map2 (\<lambda>live. copy_entries (items_of live)) (op_state opt)) (lv_opts lv) (sl_state s),
        sl_groups = map2 (\<lambda>opt. map2 (\<lambda>pg d. dict_update d (scalar_items pg)) (op_groups opt)) (lv_opts lv) (sl_groups s)\<rparr>)"

text \<open>Restoring a one-element tensor copies it into the live one, or clones it.\<close>

definition restore_entry :: "string \<times> group_entry \<Rightarrow> (string, group_entry) dict \<times> real list \<Rightarrow> (string, group_entry) dict \<times> real list" where
  "restore_entry = (\<lambda>(k, v) (pg, cells). case v of
     Cell a \<Rightarrow> (case dict_get pg k of
         Some (Cell b) \<Rightarrow> (pg, cells[b := cells ! a])
       | _ \<Rightarrow> (dict_put k (Cell (length cells)) pg, cells @ [cells ! a]))
   | _ \<Rightarrow> (dict_put k v pg, cells))"

fun restore_groups ::
  "(string, group_entry) dict list \<Rightarrow> (string, group_entry) dict list \<Rightarrow> real list \<Rightarrow> (string, group_entry) dict list \<times> real list" where
  "restore_groups (d # ds) (pg # pgs) cells =
     (let (pg', cells) = fold restore_entry d (pg, cells); (pgs', cells) = restore_groups ds pgs cells in (pg' # pgs', cells))"
| "restore_groups _ pgs cells = (pgs, cells)"

fun restore_opts ::
  "real list list list \<Rightarrow> (string, state_entry) dict list list \<Rightarrow> (string, group_entry) dict list list \<Rightarrow> opt_live list
    \<Rightarrow> real list \<Rightarrow> opt_live list \<times> real list" where
  "restore_opts (m # ms) (sd # sds) (g # gs) (opt # opts) cells =
     (let (pgs, cells) = restore_groups g (op_groups opt) cells; (opts', cells) = restore_opts ms sds gs opts cells
      in (\<lparr>op_main = m, op_state = map2 (\<lambda>d live. map_option (copy_entries d) live) sd (op_state opt), op_groups = pgs\<rparr> # opts', cells))"
| "restore_opts _ _ _ opts cells = (opts, cells)"

definition restore :: "adapter_slot \<Rightarrow> lora_worker \<Rightarrow> (string, lora_worker) result" where
  "restore s w =
     (if \<not> slot_fits s (wk_live w) then Inl ''RuntimeError''
      else let (opts, cells) = restore_opts (sl_main s) (sl_state s) (sl_groups s) (lv_opts (wk_live w)) (wk_cells w)
           in Inr (w\<lparr>wk_live := \<lparr>lv_buffers = zip (sl_params s) (sl_grads s), lv_opts = opts\<rparr>, wk_cells := cells\<rparr>))"

section \<open>The store\<close>

definition clone_entry :: "string \<times> group_entry \<Rightarrow> (string, group_entry) dict \<times> real list \<Rightarrow> (string, group_entry) dict \<times> real list" where
  "clone_entry = (\<lambda>(k, v) (d, cells). case v of
     Cell a \<Rightarrow> (dict_put k (Cell (length cells)) d, cells @ [cells ! a]) | _ \<Rightarrow> (dict_put k v d, cells))"

fun clone_groups ::
  "(string, group_entry) dict list \<Rightarrow> (string, group_entry) dict list \<Rightarrow> real list \<Rightarrow> (string, group_entry) dict list \<times> real list" where
  "clone_groups (d # ds) (e # es) cells =
     (let (e', cells) = fold clone_entry d (e, cells); (es', cells) = clone_groups ds es cells in (e' # es', cells))"
| "clone_groups _ es cells = (es, cells)"

fun clone_all ::
  "(string, group_entry) dict list list \<Rightarrow> (string, group_entry) dict list list \<Rightarrow> real list
    \<Rightarrow> (string, group_entry) dict list list \<times> real list" where
  "clone_all (d # ds) (e # es) cells =
     (let (e', cells) = clone_groups d e cells; (es', cells) = clone_all ds es cells in (e' # es', cells))"
| "clone_all _ es cells = (es, cells)"

definition copy_slot :: "adapter_slot \<Rightarrow> adapter_slot \<Rightarrow> real list \<Rightarrow> adapter_slot \<times> real list" where
  "copy_slot src dst cells =
     (let (groups, cells) = clone_all (sl_groups src) (sl_groups dst) cells
      in (\<lparr>sl_params = sl_params src, sl_grads = sl_grads src, sl_main = sl_main src,
           sl_state = map2 (map2 copy_entries) (sl_state src) (sl_state dst), sl_groups = groups\<rparr>, cells))"

definition register_pristine :: "(nat \<Rightarrow> real) \<Rightarrow> lora_signature \<Rightarrow> lora_worker \<Rightarrow> (string, lora_worker) result" where
  "register_pristine junk sig w =
     (if wk_pristine w \<noteq> None then Inl ''AdapterStore.register_pristine called twice''
      else case snapshot (wk_live w) (allocate_empty_slot junk (wk_live w)) of
        Inl e \<Rightarrow> Inl e
      | Inr s \<Rightarrow> Inr (w\<lparr>wk_signature := Some sig, wk_pristine := Some s\<rparr>))"

definition create_slot :: "(nat \<Rightarrow> real) \<Rightarrow> string \<Rightarrow> lora_signature \<Rightarrow> lora_worker \<Rightarrow> (string, lora_worker) result" where
  "create_slot junk i sig w =
     (case (wk_signature w, wk_pristine w) of
        (None, _) \<Rightarrow> Inl ''AdapterStore.create called before register_pristine''
      | (Some s, p) \<Rightarrow>
          if sig \<noteq> s then Inl ''lora signature mismatch''
          else if dict_has (wk_slots w) i then Inl ''adapter already registered''
          else let new = allocate_empty_slot junk (wk_live w)
               in case (wk_current w, p) of
                    (None, _) \<Rightarrow> Inr (w\<lparr>wk_current := Some i, wk_slots := dict_put i new (wk_slots w)\<rparr>)
                  | (Some _, None) \<Rightarrow> Inl ''AttributeError''
                  | (Some _, Some p) \<Rightarrow>
                      let (new, cells) = copy_slot p new (wk_cells w)
                      in Inr (w\<lparr>wk_slots := dict_put i new (wk_slots w), wk_cells := cells\<rparr>))"

definition delete_slot :: "string \<Rightarrow> lora_worker \<Rightarrow> (string, lora_worker) result" where
  "delete_slot i w =
     (if \<not> dict_has (wk_slots w) i then Inl ''unknown adapter''
      else Inr (w\<lparr>wk_slots := dict_del i (wk_slots w), wk_current := (if wk_current w = Some i then None else wk_current w)\<rparr>))"

definition swap_to :: "string \<Rightarrow> lora_worker \<Rightarrow> (string, lora_worker) result" where
  "swap_to i w =
     (case dict_get (wk_slots w) i of
        None \<Rightarrow> Inl ''unknown adapter''
      | Some _ \<Rightarrow>
          if wk_current w = Some i then Inr w
          else case (case wk_current w of
                 None \<Rightarrow> Inr w
               | Some c \<Rightarrow>
                   (case dict_get (wk_slots w) c of
                      None \<Rightarrow> Inl ''KeyError''
                    | Some s \<Rightarrow>
                        (case snapshot (wk_live w) s of Inl e \<Rightarrow> Inl e | Inr s \<Rightarrow> Inr (w\<lparr>wk_slots := dict_put c s (wk_slots w)\<rparr>)))) of
              Inl e \<Rightarrow> Inl e
            | Inr w \<Rightarrow>
                (case dict_get (wk_slots w) i of
                   None \<Rightarrow> Inl ''KeyError''
                 | Some s \<Rightarrow> (case restore s w of Inl e \<Rightarrow> Inl e | Inr w \<Rightarrow> Inr (w\<lparr>wk_current := Some i\<rparr>))))"

text \<open>The calls of the worker: an adapter is registered with the signature the store already has; a training call swaps first.\<close>

definition register_adapter :: "(nat \<Rightarrow> real) \<Rightarrow> string \<Rightarrow> lora_worker \<Rightarrow> (string, lora_worker) result" where
  "register_adapter junk i w =
     (case wk_signature w of
        None \<Rightarrow> Inl ''register_adapter called before register_pristine_adapter'' | Some sig \<Rightarrow> create_slot junk i sig w)"

definition with_adapter :: "(lora_live \<Rightarrow> lora_live) \<Rightarrow> string \<Rightarrow> lora_worker \<Rightarrow> (string, lora_worker) result" where
  "with_adapter f i w = (case swap_to i w of Inl e \<Rightarrow> Inl e | Inr w \<Rightarrow> Inr (w\<lparr>wk_live := f (wk_live w)\<rparr>))"

datatype adapter_op = Register string | Drop string | Train string nat

definition adapter_step ::
  "(nat \<Rightarrow> real) \<Rightarrow> (nat \<Rightarrow> lora_live \<Rightarrow> lora_live) \<Rightarrow> adapter_op \<Rightarrow> lora_worker \<Rightarrow> (string, lora_worker) result" where
  "adapter_step junk f a w =
     (case a of Register i \<Rightarrow> register_adapter junk i w | Drop i \<Rightarrow> delete_slot i w | Train i k \<Rightarrow> with_adapter (f k) i w)"

fun adapter_run ::
  "(nat \<Rightarrow> real) \<Rightarrow> (nat \<Rightarrow> lora_live \<Rightarrow> lora_live) \<Rightarrow> adapter_op list \<Rightarrow> lora_worker \<Rightarrow> (string, lora_worker) result" where
  "adapter_run junk f [] w = Inr w"
| "adapter_run junk f (a # as) w = (case adapter_step junk f a w of Inl e \<Rightarrow> Inl e | Inr w \<Rightarrow> adapter_run junk f as w)"

section \<open>What a slot holds\<close>

text \<open>The adapter in the live state, and what slots of one worker have in common.\<close>

definition image :: "lora_live \<Rightarrow> adapter_slot" where
  "image lv = \<lparr>sl_params = map fst (lv_buffers lv), sl_grads = map snd (lv_buffers lv), sl_main = map op_main (lv_opts lv),
     sl_state = map (map items_of \<circ> op_state) (lv_opts lv), sl_groups = map (map scalar_items \<circ> op_groups) (lv_opts lv)\<rparr>"

definition entry_kind :: "string \<times> state_entry \<Rightarrow> string \<times> state_entry" where
  "entry_kind = (\<lambda>(k, v). (k, case v of Moment _ \<Rightarrow> Moment [] | Scalar _ \<Rightarrow> Scalar 0))"

definition shape ::
  "adapter_slot \<Rightarrow> nat list \<times> nat list \<times> nat list list \<times> (string \<times> state_entry) list list list \<times> string list list list" where
  "shape s = (map length (sl_params s), map length (sl_grads s), map (map length) (sl_main s),
     map (map (map entry_kind)) (sl_state s), map (map (map fst)) (sl_groups s))"

definition number_entry :: "string \<times> group_entry \<Rightarrow> bool" where
  "number_entry = (\<lambda>(_, v). case v of Number _ \<Rightarrow> True | _ \<Rightarrow> False)"

definition tidy :: "adapter_slot \<Rightarrow> bool" where
  "tidy s = (list_all (list_all dict_wf) (sl_state s) \<and> list_all (list_all (\<lambda>d. dict_wf d \<and> list_all number_entry d)) (sl_groups s))"

text \<open>No parameter group holds a one-element tensor.\<close>

definition live_ok :: "lora_live \<Rightarrow> bool" where
  "live_ok lv = (tidy (image lv) \<and> list_all (\<lambda>opt. list_all dict_wf (op_groups opt)) (lv_opts lv))"

section \<open>Copies are exact\<close>

lemma map_eq_rel: "map f xs = map g ys \<longleftrightarrow> list_all2 (\<lambda>x y. f x = g y) xs ys"
  by (auto simp: list_all2_conv_all_nth list_eq_iff_nth_eq)

lemma map2_rel: "list_all2 P xs ys \<Longrightarrow> (\<And>x y. x \<in> set xs \<Longrightarrow> P x y \<Longrightarrow> f x y = g x) \<Longrightarrow> map2 f xs ys = map g xs"
  by (induction xs ys rule: list_all2_induct) auto

lemma map2_rel2: "list_all2 P xs ys \<Longrightarrow> (\<And>x y. y \<in> set ys \<Longrightarrow> P x y \<Longrightarrow> f x y = g y) \<Longrightarrow> map2 f xs ys = map g ys"
  by (induction xs ys rule: list_all2_induct) auto

lemma dict_update_Cons: "k \<notin> fst ` set e \<Longrightarrow> dict_update ((k, v) # d) e = (k, v) # dict_update d e"
  unfolding dict_update_def by (induction e arbitrary: d) (auto split: prod.splits)

lemma copy_entries_Cons: "k \<notin> fst ` set e \<Longrightarrow> copy_entries e ((k, v) # d) = (k, v) # copy_entries e d"
  unfolding copy_entries_def
proof (induction e arbitrary: d)
  case (Cons x e)
  have "copy_entry x ((k, v) # d) = (k, v) # copy_entry x d"
    using Cons.prems by (auto simp: copy_entry_def split: state_entry.splits option.splits prod.splits)
  then show ?case using Cons by simp
qed simp

lemma copy_entries_exact: "map entry_kind src = map entry_kind dst \<Longrightarrow> dict_wf src \<Longrightarrow> copy_entries src dst = src"
proof (induction src dst rule: list_induct2')
  case (4 x src y dst)
  obtain k v where x: "x = (k, v)" by force
  obtain w where y: "y = (k, w)" using 4(2) by (cases y) (auto simp: x entry_kind_def)
  have fresh: "k \<notin> fst ` set src" using 4(3) by (simp add: x dict_wf_def)
  have "copy_entry x (y # dst) = (k, v) # dst"
    using 4(2) by (auto simp: x y copy_entry_def entry_kind_def split: state_entry.splits)
  then have "copy_entries (x # src) (y # dst) = (k, v) # copy_entries src dst"
    using copy_entries_Cons [OF fresh, of v dst] by (simp add: copy_entries_def)
  then show ?case using 4 by (simp add: x dict_wf_def)
qed (simp_all add: copy_entries_def)

lemma dict_update_same_keys: "map fst d = map fst e \<Longrightarrow> dict_wf e \<Longrightarrow> dict_update d e = e"
proof (induction d e rule: list_induct2')
  case (4 x d y e)
  obtain k v w where xy: "x = (k, w)" "y = (k, v)" using 4(2) by (cases x, cases y) simp
  have "k \<notin> fst ` set e" using 4(3) by (simp add: xy dict_wf_def)
  then have "dict_update (x # d) (y # e) = (k, v) # dict_update d e"
    using dict_update_Cons [of k e v d] by (simp add: xy dict_update_def)
  then show ?case using 4 by (simp add: xy dict_wf_def)
qed (simp_all add: dict_update_def)

lemma scalar_keys: "map fst src = map fst (scalar_items d) \<Longrightarrow> fst ` set src \<subseteq> fst ` set d"
  by (drule arg_cong [of _ _ set]) (auto simp: scalar_items_def)

lemma update_scalars_exact:
  assumes "map fst src = map fst (scalar_items d)" "dict_wf d" "list_all (is_scalar_state \<circ> snd) src"
  shows "scalar_items (dict_update d src) = src \<and> map fst (dict_update d src) = map fst d"
  using assms
proof (induction d arbitrary: src)
  case Nil
  then show ?case by (simp add: scalar_items_def dict_update_def)
next
  case (Cons x d)
  obtain k v where x: "x = (k, v)" by force
  have d: "dict_wf d" "k \<notin> fst ` set d" using Cons.prems(2) by (auto simp: x dict_wf_def)
  show ?case
  proof (cases "is_scalar_state v")
    case False
    then have keys: "map fst src = map fst (scalar_items d)" using Cons.prems(1) by (simp add: x scalar_items_def)
    moreover have "k \<notin> fst ` set src" using d(2) scalar_keys [OF keys] by blast
    ultimately show ?thesis using Cons.IH [OF _ d(1) Cons.prems(3)] False by (simp add: x dict_update_Cons scalar_items_def)
  next
    case True
    then obtain w rest where src: "src = (k, w) # rest" "map fst rest = map fst (scalar_items d)"
      using Cons.prems(1) by (cases src) (auto simp: x scalar_items_def)
    have "k \<notin> fst ` set rest" using d(2) scalar_keys [OF src(2)] by blast
    then have "dict_update (x # d) src = (k, w) # dict_update d rest" using dict_update_Cons [of k rest w d] by (simp add: src(1) x dict_update_def)
    then show ?thesis using Cons.IH [OF src(2) d(1)] Cons.prems(3) by (simp add: src(1) x scalar_items_def)
  qed
qed

text \<open>A snapshot is the adapter that is live, and a restored slot is the adapter that is live.\<close>

lemma shape_eqD:
  assumes "shape s = shape (image lv)"
  shows "slot_fits s lv"
    and "list_all2 (\<lambda>opt sd. list_all2 (\<lambda>live d. map entry_kind (items_of live) = map entry_kind d) (op_state opt) sd) (lv_opts lv) (sl_state s)"
    and "list_all2 (\<lambda>opt ds. list_all2 (\<lambda>pg d. map fst (scalar_items pg) = map fst d) (op_groups opt) ds) (lv_opts lv) (sl_groups s)"
proof -
  have s: "map length (sl_params s) = map length (map fst (lv_buffers lv))" "map length (sl_grads s) = map length (map snd (lv_buffers lv))"
    "map (map length) (sl_main s) = map (map length) (map op_main (lv_opts lv))"
    "map (map (map entry_kind)) (map (map items_of \<circ> op_state) (lv_opts lv)) = map (map (map entry_kind)) (sl_state s)"
    "map (map (map fst)) (map (map scalar_items \<circ> op_groups) (lv_opts lv)) = map (map (map fst)) (sl_groups s)"
    using assms by (simp_all add: shape_def image_def)
  show state: "list_all2 (\<lambda>opt sd. list_all2 (\<lambda>live d. map entry_kind (items_of live) = map entry_kind d) (op_state opt) sd) (lv_opts lv) (sl_state s)"
    using s(4) unfolding map_eq_rel list_all2_map1 comp_def by (simp only: map_map map_eq_rel [where f = "map entry_kind \<circ> items_of"] comp_def)
  show groups: "list_all2 (\<lambda>opt ds. list_all2 (\<lambda>pg d. map fst (scalar_items pg) = map fst d) (op_groups opt) ds) (lv_opts lv) (sl_groups s)"
    using s(5) unfolding map_eq_rel list_all2_map1 comp_def
    by (simp only: map_map map_eq_rel [where f = "map fst \<circ> scalar_items"] comp_def)
  have "map length (sl_state s) = map (length \<circ> op_state) (lv_opts lv)" "map length (sl_groups s) = map (length \<circ> op_groups) (lv_opts lv)"
    using state groups by (auto simp: list_all2_conv_all_nth list_eq_iff_nth_eq)
  then show "slot_fits s lv" using s(1-3) by (simp add: slot_fits_def comp_def)
qed

lemma snapshot_exact:
  assumes sh: "shape s = shape (image lv)" and ok: "live_ok lv"
  shows "snapshot lv s = Inr (image lv)"
proof -
  have "map2 (\<lambda>opt. map2 (\<lambda>live. copy_entries (items_of live)) (op_state opt)) (lv_opts lv) (sl_state s)
      = map (map items_of \<circ> op_state) (lv_opts lv)"
  proof (rule map2_rel [OF shape_eqD(2) [OF sh]])
    fix opt sd assume o: "opt \<in> set (lv_opts lv)" "list_all2 (\<lambda>live d. map entry_kind (items_of live) = map entry_kind d) (op_state opt) sd"
    have "dict_wf (items_of live)" if "live \<in> set (op_state opt)" for live
      using ok o(1) that by (auto simp: live_ok_def tidy_def image_def list_all_iff)
    then show "map2 (\<lambda>live. copy_entries (items_of live)) (op_state opt) sd = (map items_of \<circ> op_state) opt"
      unfolding comp_def by (intro map2_rel [OF o(2)] copy_entries_exact) simp_all
  qed
  moreover have "map2 (\<lambda>opt. map2 (\<lambda>pg d. dict_update d (scalar_items pg)) (op_groups opt)) (lv_opts lv) (sl_groups s)
      = map (map scalar_items \<circ> op_groups) (lv_opts lv)"
  proof (rule map2_rel [OF shape_eqD(3) [OF sh]])
    fix opt and ds :: "(string, group_entry) dict list" assume o: "opt \<in> set (lv_opts lv)" "list_all2 (\<lambda>pg d. map fst (scalar_items pg) = map fst d) (op_groups opt) ds"
    have "dict_wf (scalar_items pg)" if "pg \<in> set (op_groups opt)" for pg
      using ok o(1) that by (auto simp: live_ok_def tidy_def image_def list_all_iff)
    then show "map2 (\<lambda>pg d. dict_update d (scalar_items pg)) (op_groups opt) ds = (map scalar_items \<circ> op_groups) opt"
      unfolding comp_def by (intro map2_rel [OF o(2)] dict_update_same_keys) auto
  qed
  ultimately show ?thesis using shape_eqD(1) [OF sh] by (simp add: snapshot_def image_def)
qed

lemma restore_entries_numbers: "list_all number_entry d \<Longrightarrow> fold restore_entry d (pg, cells) = (dict_update pg d, cells)"
  unfolding dict_update_def
  by (induction d arbitrary: pg) (auto simp: number_entry_def restore_entry_def split: group_entry.splits prod.splits)

lemma restore_groups_numbers:
  "list_all (list_all number_entry) ds \<Longrightarrow> length ds = length pgs \<Longrightarrow> restore_groups ds pgs cells = (map2 (\<lambda>d pg. dict_update pg d) ds pgs, cells)"
  by (induction ds pgs cells rule: restore_groups.induct) (auto simp: restore_entries_numbers)

lemma restored_groups:
  assumes "list_all2 (\<lambda>pg d. map fst (scalar_items pg) = map fst d) pgs ds" "list_all (\<lambda>d. dict_wf d \<and> list_all number_entry d) ds" "list_all dict_wf pgs"
  shows "map scalar_items (map2 (\<lambda>d pg. dict_update pg d) ds pgs) = ds \<and> list_all dict_wf (map2 (\<lambda>d pg. dict_update pg d) ds pgs)"
  using assms
proof (induction pgs ds rule: list_all2_induct)
  case (Cons pg pgs d ds)
  have "list_all (is_scalar_state \<circ> snd) d"
    using Cons.prems(1) by (auto simp: list_all_iff number_entry_def is_scalar_state_def split: group_entry.splits)
  then have "scalar_items (dict_update pg d) = d" using update_scalars_exact [of d pg] Cons by simp
  then show ?case using Cons by simp
qed simp

lemma restored_state:
  assumes "list_all2 (\<lambda>live d. map entry_kind (items_of live) = map entry_kind d) st ds" "list_all dict_wf ds"
  shows "map items_of (map2 (\<lambda>d live. map_option (copy_entries d) live) ds st) = ds"
  using assms
proof (induction st ds rule: list_all2_induct)
  case (Cons live st d ds)
  have "items_of (map_option (copy_entries d) live) = d"
    using Cons.hyps(1) Cons.prems copy_entries_exact [of d "items_of live"] by (cases live) (simp_all add: items_of_def)
  then show ?case using Cons by simp
qed simp

lemma restore_opts_exact:
  assumes "list_all2 (\<lambda>opt sd. list_all2 (\<lambda>live d. map entry_kind (items_of live) = map entry_kind d) (op_state opt) sd) opts sds"
    and "list_all2 (\<lambda>opt ds. list_all2 (\<lambda>pg d. map fst (scalar_items pg) = map fst d) (op_groups opt) ds) opts gs"
    and "length ms = length opts" "list_all (list_all dict_wf) sds" "list_all (list_all (\<lambda>d. dict_wf d \<and> list_all number_entry d)) gs"
    and "list_all (\<lambda>opt. list_all dict_wf (op_groups opt)) opts"
  shows "\<exists>opts'. restore_opts ms sds gs opts cells = (opts', cells) \<and> map op_main opts' = ms \<and> map (map items_of \<circ> op_state) opts' = sds
    \<and> map (map scalar_items \<circ> op_groups) opts' = gs \<and> list_all (\<lambda>opt. list_all dict_wf (op_groups opt)) opts'"
  using assms
proof (induction opts arbitrary: ms sds gs)
  case (Cons opt opts)
  obtain m ms' sd sds' g gs' where e: "ms = m # ms'" "sds = sd # sds'" "gs = g # gs'"
    using Cons.prems(1-3) by (cases ms; cases sds; cases gs) simp_all
  obtain opts' where opts': "restore_opts ms' sds' gs' opts cells = (opts', cells)" "map op_main opts' = ms'"
    "map (map items_of \<circ> op_state) opts' = sds'" "map (map scalar_items \<circ> op_groups) opts' = gs'"
    "list_all (\<lambda>opt. list_all dict_wf (op_groups opt)) opts'"
    using Cons.IH [of sds' gs' ms'] Cons.prems by (auto simp: e)
  have "list_all (list_all number_entry) g" "length g = length (op_groups opt)"
    using Cons.prems(2,5) by (auto simp: e list_all_iff list_all2_lengthD)
  then show ?case
    using restored_groups [of "op_groups opt" g] restored_state [of "op_state opt" sd] Cons.prems opts'
    by (simp add: e restore_groups_numbers comp_def)
qed simp

lemma restore_exact:
  assumes sh: "shape s = shape (image (wk_live w))" and ok: "live_ok (wk_live w)" and s: "tidy s"
  shows "\<exists>lv. restore s w = Inr (w\<lparr>wk_live := lv\<rparr>) \<and> image lv = s \<and> live_ok lv"
proof -
  let ?lv = "wk_live w"
  have slot_fits: "slot_fits s ?lv" by (rule shape_eqD(1) [OF sh])
  have "length (sl_main s) = length (lv_opts ?lv)" using slot_fits by (metis slot_fits_def length_map)
  then obtain opts where opts: "restore_opts (sl_main s) (sl_state s) (sl_groups s) (lv_opts ?lv) (wk_cells w) = (opts, wk_cells w)"
    "map op_main opts = sl_main s" "map (map items_of \<circ> op_state) opts = sl_state s" "map (map scalar_items \<circ> op_groups) opts = sl_groups s"
    "list_all (\<lambda>opt. list_all dict_wf (op_groups opt)) opts"
    using restore_opts_exact [OF shape_eqD(2,3) [OF sh], of "sl_main s"] s ok by (auto simp: tidy_def live_ok_def)
  let ?new = "\<lparr>lv_buffers = zip (sl_params s) (sl_grads s), lv_opts = opts\<rparr>"
  have "length (sl_params s) = length (sl_grads s)" using slot_fits by (metis slot_fits_def length_map)
  then have "image ?new = s" using opts by (simp add: image_def)
  moreover have "restore s w = Inr (w\<lparr>wk_live := ?new\<rparr>)" using slot_fits opts(1) by (simp add: restore_def)
  ultimately show ?thesis using s opts(5) by (auto simp: live_ok_def)
qed

lemma allocate_shape: "shape (allocate_empty_slot junk lv) = shape (image lv)"
proof -
  have [simp]: "length (empty_like junk xs) = length xs" for xs by (simp add: empty_like_def)
  have [simp]: "entry_kind (k, empty_entry junk v) = entry_kind (k, v)" for k v
    by (simp add: entry_kind_def empty_entry_def split: state_entry.splits)
  have "map entry_kind (map (\<lambda>(k, v). (k, empty_entry junk v)) d) = map entry_kind d" for d
    by (induction d) auto
  then show ?thesis by (simp add: shape_def allocate_empty_slot_def image_def comp_def)
qed

lemma allocate_tidy: "live_ok lv \<Longrightarrow> tidy (allocate_empty_slot junk lv)"
proof -
  have "dict_wf (map (\<lambda>(k, v). (k, empty_entry junk v)) d) = dict_wf d" for d
    by (simp add: dict_wf_def comp_def case_prod_unfold)
  then show "live_ok lv \<Longrightarrow> ?thesis"
    by (auto simp: live_ok_def tidy_def allocate_empty_slot_def image_def list_all_iff comp_def)
qed

lemma clone_numbers: "list_all number_entry d \<Longrightarrow> fold clone_entry d (e, cells) = (dict_update e d, cells)"
  unfolding dict_update_def
  by (induction d arbitrary: e) (auto simp: number_entry_def clone_entry_def split: group_entry.splits prod.splits)

lemma clone_groups_exact:
  assumes "list_all (\<lambda>d. dict_wf d \<and> list_all number_entry d) ds" "map (map fst) ds = map (map fst) es"
  shows "clone_groups ds es cells = (ds, cells)"
  using assms
proof (induction ds es cells rule: clone_groups.induct)
  case (1 d ds e es cells)
  then show ?case using dict_update_same_keys [of e d] by (simp add: clone_numbers)
qed auto

lemma clone_all_exact:
  assumes "list_all (list_all (\<lambda>d. dict_wf d \<and> list_all number_entry d)) ds" "map (map (map fst)) ds = map (map (map fst)) es"
  shows "clone_all ds es cells = (ds, cells)"
  using assms by (induction ds es cells rule: clone_all.induct) (auto simp: clone_groups_exact)

lemma copy_slot_exact:
  assumes "shape s = shape d" "tidy s"
  shows "copy_slot s d cells = (s, cells)"
proof -
  have "map2 (map2 copy_entries) (sl_state s) (sl_state d) = map (\<lambda>x. x) (sl_state s)"
  proof (rule map2_rel)
    show "list_all2 (\<lambda>x y. map (map entry_kind) x = map (map entry_kind) y) (sl_state s) (sl_state d)"
      using assms(1) by (simp add: shape_def map_eq_rel)
  next
    fix x y assume x: "x \<in> set (sl_state s)" "map (map entry_kind) x = map (map entry_kind) y"
    have "map2 copy_entries x y = map (\<lambda>x. x) x"
    proof (rule map2_rel)
      show "list_all2 (\<lambda>x y. map entry_kind x = map entry_kind y) x y" using x(2) by (simp add: map_eq_rel)
      show "copy_entries a b = a" if "a \<in> set x" "map entry_kind a = map entry_kind b" for a b
        using copy_entries_exact [OF that(2)] assms(2) x(1) that(1) by (auto simp: tidy_def list_all_iff)
    qed
    then show "map2 copy_entries x y = x" by simp
  qed
  moreover have "clone_all (sl_groups s) (sl_groups d) cells = (sl_groups s, cells)"
    using assms by (intro clone_all_exact) (simp_all add: tidy_def shape_def)
  ultimately show ?thesis by (simp add: copy_slot_def)
qed

section \<open>Refinement\<close>

text \<open>What the clients want: a map from adapters to their states.\<close>

type_synonym adapter_map = "string \<Rightarrow> adapter_slot option"

definition spec_step :: "(nat \<Rightarrow> adapter_slot \<Rightarrow> adapter_slot) \<Rightarrow> adapter_slot \<Rightarrow> adapter_op \<Rightarrow> adapter_map \<Rightarrow> (string, adapter_map) result" where
  "spec_step g p a m =
     (case a of
        Register i \<Rightarrow> (if m i \<noteq> None then Inl ''adapter already registered'' else Inr (m(i := Some p)))
      | Drop i \<Rightarrow> (if m i = None then Inl ''unknown adapter'' else Inr (m(i := None)))
      | Train i k \<Rightarrow> (case m i of None \<Rightarrow> Inl ''unknown adapter'' | Some s \<Rightarrow> Inr (m(i := Some (g k s)))))"

fun spec_run ::
  "(nat \<Rightarrow> adapter_slot \<Rightarrow> adapter_slot) \<Rightarrow> adapter_slot \<Rightarrow> adapter_op list \<Rightarrow> adapter_map \<Rightarrow> (string, adapter_map) result" where
  "spec_run g p [] m = Inr m"
| "spec_run g p (a # as) m = (case spec_step g p a m of Inl e \<Rightarrow> Inl e | Inr m \<Rightarrow> spec_run g p as m)"

definition adapter_of :: "lora_worker \<Rightarrow> adapter_map" where
  "adapter_of w i = (if \<not> dict_has (wk_slots w) i then None
     else if wk_current w = Some i then Some (image (wk_live w)) else dict_get (wk_slots w) i)"

text \<open>An adapter registered while none is live takes over the live state, which must then be the initial one.\<close>

definition live_is_fresh :: "lora_worker \<Rightarrow> bool" where
  "live_is_fresh w = (wk_current w \<noteq> None \<or> wk_pristine w = Some (image (wk_live w)))"

fun registers_fresh :: "(nat \<Rightarrow> real) \<Rightarrow> (nat \<Rightarrow> lora_live \<Rightarrow> lora_live) \<Rightarrow> adapter_op list \<Rightarrow> lora_worker \<Rightarrow> bool" where
  "registers_fresh junk f [] w = True"
| "registers_fresh junk f (a # as) w =
     ((case a of Register i \<Rightarrow> live_is_fresh w | _ \<Rightarrow> True)
      \<and> (case adapter_step junk f a w of Inl _ \<Rightarrow> True | Inr w \<Rightarrow> registers_fresh junk f as w))"

text \<open>A training step acts on the adapter alone and keeps its shape.\<close>

definition acts_on_adapter :: "(nat \<Rightarrow> lora_live \<Rightarrow> lora_live) \<Rightarrow> (nat \<Rightarrow> adapter_slot \<Rightarrow> adapter_slot) \<Rightarrow> bool" where
  "acts_on_adapter f g = (\<forall>k lv. live_ok lv \<longrightarrow>
     live_ok (f k lv) \<and> image (f k lv) = g k (image lv) \<and> shape (image (f k lv)) = shape (image lv))"

definition store_inv :: "adapter_slot \<Rightarrow> lora_worker \<Rightarrow> bool" where
  "store_inv p w =
     (live_ok (wk_live w) \<and> wk_pristine w = Some p \<and> wk_signature w \<noteq> None \<and> tidy p \<and> shape p = shape (image (wk_live w))
      \<and> (\<forall>i s. dict_get (wk_slots w) i = Some s \<longrightarrow> tidy s \<and> shape s = shape (image (wk_live w)))
      \<and> (\<forall>c. wk_current w = Some c \<longrightarrow> dict_has (wk_slots w) c))"

lemma dict_has_get: "dict_has d k \<Longrightarrow> \<exists>v. dict_get d k = Some v"
  by (auto simp: dict_has_def)

lemma dict_has_put [simp]: "dict_has (dict_put k v d) i \<longleftrightarrow> i = k \<or> dict_has d i"
  by (simp add: dict_has_def dict_simps)

lemma dict_has_del [simp]: "dict_has (dict_del k d) i \<longleftrightarrow> i \<noteq> k \<and> dict_has d i"
  by (simp add: dict_has_def dict_simps)

text \<open>Swapping changes which adapter is live and no adapter's state.\<close>

lemma swap_to_exact:
  assumes inv: "store_inv p w" and i: "dict_has (wk_slots w) i"
  shows "\<exists>w'. swap_to i w = Inr w' \<and> store_inv p w' \<and> wk_current w' = Some i \<and> adapter_of w' = adapter_of w
    \<and> (\<forall>j. dict_has (wk_slots w') j = dict_has (wk_slots w) j)"
proof (cases "wk_current w = Some i")
  case True
  then show ?thesis using dict_has_get [OF i] inv by (auto simp: swap_to_def)
next
  case False
  have slots0: "tidy s" "shape s = shape (image (wk_live w))" if "dict_get (wk_slots w) j = Some s" for j s
    using inv that unfolding store_inv_def by blast+
  have cur0: "dict_has (wk_slots w) c" if "wk_current w = Some c" for c using inv that unfolding store_inv_def by blast
  have w0: "live_ok (wk_live w)" "wk_pristine w = Some p" "wk_signature w \<noteq> None" "tidy p" "shape p = shape (image (wk_live w))"
    using inv unfolding store_inv_def by blast+
  define w1 where "w1 = (case wk_current w of None \<Rightarrow> w | Some c \<Rightarrow> w\<lparr>wk_slots := dict_put c (image (wk_live w)) (wk_slots w)\<rparr>)"
  have w1: "wk_live w1 = wk_live w" "wk_pristine w1 = wk_pristine w" "wk_signature w1 = wk_signature w" "wk_current w1 = wk_current w"
    by (simp_all add: w1_def split: option.splits)
  have saved: "(case wk_current w of None \<Rightarrow> Inr w
       | Some c \<Rightarrow> (case dict_get (wk_slots w) c of None \<Rightarrow> Inl ''KeyError''
         | Some s \<Rightarrow> (case snapshot (wk_live w) s of Inl e \<Rightarrow> Inl e | Inr s \<Rightarrow> Inr (w\<lparr>wk_slots := dict_put c s (wk_slots w)\<rparr>)))) = Inr w1"
  proof (cases "wk_current w")
    case (Some c)
    obtain s where s: "dict_get (wk_slots w) c = Some s" using dict_has_get [OF cur0 [OF Some]] by blast
    have "snapshot (wk_live w) s = Inr (image (wk_live w))" by (rule snapshot_exact [OF slots0(2) [OF s] w0(1)])
    then show ?thesis using Some s by (simp add: w1_def)
  qed (simp add: w1_def)
  have tidy1: "tidy (image (wk_live w))" using w0(1) by (simp add: live_ok_def)
  have slots1: "tidy s \<and> shape s = shape (image (wk_live w))" if "dict_get (wk_slots w1) j = Some s" for j s
    using that slots0 tidy1 by (cases "wk_current w") (auto simp: w1_def dict_simps split: if_splits)
  have has1: "dict_has (wk_slots w1) j = dict_has (wk_slots w) j" for j
    using cur0 by (cases "wk_current w") (auto simp: w1_def)
  have ad1: "adapter_of w j = dict_get (wk_slots w1) j" for j
  proof (cases "wk_current w")
    case (Some c)
    show ?thesis using cur0 [OF Some] Some by (auto simp: w1_def adapter_of_def dict_simps dict_has_def)
  qed (simp add: w1_def adapter_of_def dict_has_def)
  obtain s where s: "dict_get (wk_slots w1) i = Some s" using dict_has_get [of "wk_slots w1" i] has1 i by blast
  obtain lv where lv: "restore s w1 = Inr (w1\<lparr>wk_live := lv\<rparr>)" "image lv = s" "live_ok lv"
    using restore_exact [of s w1] slots1 [OF s] w0(1) unfolding w1 by blast
  let ?w = "w1\<lparr>wk_live := lv, wk_current := Some i\<rparr>"
  have "swap_to i w = Inr ?w"
    using dict_has_get [OF i] False saved s lv(1) by (auto simp: swap_to_def)
  moreover have "store_inv p ?w"
    using w0 lv slots1 [OF s] slots1 has1 i by (simp add: store_inv_def w1)
  moreover have "adapter_of ?w = adapter_of w"
    using s lv(2) by (intro ext) (auto simp: ad1 adapter_of_def [of ?w] dict_has_def)
  ultimately show ?thesis using has1 by (intro exI [of _ ?w]) simp
qed

lemma adapter_of_None: "adapter_of w i = None \<longleftrightarrow> \<not> dict_has (wk_slots w) i"
  by (simp add: adapter_of_def dict_has_def)

lemma adapter_step_refines:
  assumes inv: "store_inv p w" and f: "acts_on_adapter f g" and fresh: "case a of Register i \<Rightarrow> live_is_fresh w | _ \<Rightarrow> True"
  shows "case adapter_step junk f a w of
      Inl e \<Rightarrow> spec_step g p a (adapter_of w) = Inl e
    | Inr w' \<Rightarrow> store_inv p w' \<and> spec_step g p a (adapter_of w) = Inr (adapter_of w')"
proof -
  have slots0: "tidy s" "shape s = shape (image (wk_live w))" if "dict_get (wk_slots w) j = Some s" for j s
    using inv that unfolding store_inv_def by blast+
  have w0: "live_ok (wk_live w)" "wk_pristine w = Some p" "tidy p" "shape p = shape (image (wk_live w))"
    using inv unfolding store_inv_def by blast+
  obtain sig where sig: "wk_signature w = Some sig" using inv unfolding store_inv_def by blast
  have cur0: "dict_has (wk_slots w) c" if "wk_current w = Some c" for c using inv that unfolding store_inv_def by blast
  show ?thesis
  proof (cases a)
    case (Register i)
    let ?new = "allocate_empty_slot junk (wk_live w)"
    show ?thesis
    proof (cases "dict_has (wk_slots w) i")
      case True
      then show ?thesis by (simp add: Register adapter_step_def register_adapter_def sig create_slot_def spec_step_def adapter_of_None)
    next
      case False
      have new: "tidy ?new" "shape ?new = shape (image (wk_live w))" using allocate_tidy [OF w0(1)] allocate_shape by blast+
      obtain c s where w': "adapter_step junk f a w = Inr (w\<lparr>wk_slots := dict_put i s (wk_slots w), wk_current := c\<rparr>)"
        "c = (case wk_current w of None \<Rightarrow> Some i | c \<Rightarrow> c)" "s = ?new \<and> wk_current w = None \<or> s = p \<and> wk_current w \<noteq> None"
      proof (cases "wk_current w")
        case None
        then show ?thesis
          using that [of "Some i" ?new] False by (simp add: Register adapter_step_def register_adapter_def sig create_slot_def)
      next
        case (Some c)
        have copy: "copy_slot p ?new (wk_cells w) = (p, wk_cells w)"
          by (rule copy_slot_exact [OF _ w0(3)]) (simp only: w0(4) new(2))
        have "w\<lparr>wk_slots := dict_put i p (wk_slots w), wk_cells := wk_cells w\<rparr>
            = w\<lparr>wk_slots := dict_put i p (wk_slots w), wk_current := Some c\<rparr>"
          using Some by (cases w) simp
        moreover have "adapter_step junk f a w = Inr (w\<lparr>wk_slots := dict_put i p (wk_slots w), wk_cells := wk_cells w\<rparr>)"
          by (simp add: Register adapter_step_def register_adapter_def sig create_slot_def False w0(2) Some Let_def copy)
        ultimately have step: "adapter_step junk f a w = Inr (w\<lparr>wk_slots := dict_put i p (wk_slots w), wk_current := Some c\<rparr>)"
          by (simp only:)
        show ?thesis by (rule that [OF step]) (simp_all add: Some)
      qed
      let ?w = "w\<lparr>wk_slots := dict_put i s (wk_slots w), wk_current := c\<rparr>"
      have "tidy s" "shape s = shape (image (wk_live w))" using w'(3) new w0 by auto
      then have "store_inv p ?w"
        using w0 sig slots0 cur0 w'(2) by (auto simp: store_inv_def dict_simps split: if_splits option.splits)
      moreover have "adapter_of ?w = (adapter_of w)(i := Some p)"
      proof (cases "wk_current w")
        case None
        then have "image (wk_live w) = p" using fresh w0(2) by (simp add: Register live_is_fresh_def)
        then show ?thesis using None w'(2) by (intro ext) (auto simp: adapter_of_def dict_simps)
      next
        case (Some c')
        then have "c' \<noteq> i" using cur0 False by blast
        then show ?thesis using Some w'(2,3) by (intro ext) (auto simp: adapter_of_def dict_simps)
      qed
      ultimately show ?thesis using False by (simp add: w'(1)) (simp add: Register spec_step_def adapter_of_None)
    qed
  next
    case (Drop i)
    show ?thesis
    proof (cases "dict_has (wk_slots w) i")
      case True
      let ?w = "w\<lparr>wk_slots := dict_del i (wk_slots w), wk_current := (if wk_current w = Some i then None else wk_current w)\<rparr>"
      have "store_inv p ?w" using w0 sig slots0 cur0 by (auto simp: store_inv_def dict_simps split: if_splits)
      moreover have "adapter_of ?w = (adapter_of w)(i := None)" by (intro ext) (auto simp: adapter_of_def dict_simps)
      ultimately show ?thesis
        using True by (simp add: Drop adapter_step_def delete_slot_def spec_step_def adapter_of_None)
    qed (simp add: Drop adapter_step_def delete_slot_def spec_step_def adapter_of_None)
  next
    case (Train i k)
    show ?thesis
    proof (cases "dict_has (wk_slots w) i")
      case True
      obtain w1 where w1: "swap_to i w = Inr w1" "store_inv p w1" "wk_current w1 = Some i" "adapter_of w1 = adapter_of w"
        "dict_has (wk_slots w1) i"
        using swap_to_exact [OF inv True] True by blast
      let ?w = "w1\<lparr>wk_live := f k (wk_live w1)\<rparr>"
      have act: "live_ok (f k (wk_live w1))" "image (f k (wk_live w1)) = g k (image (wk_live w1))"
        "shape (image (f k (wk_live w1))) = shape (image (wk_live w1))"
        using f w1(2) unfolding acts_on_adapter_def store_inv_def by blast+
      have i: "adapter_of w1 i = Some (image (wk_live w1))" using w1(3,5) by (simp add: adapter_of_def)
      have "store_inv p ?w" using w1(2) act by (auto simp: store_inv_def)
      moreover have "adapter_of ?w = (adapter_of w1)(i := Some (g k (image (wk_live w1))))"
        using w1(3,5) act(2) by (intro ext) (auto simp: adapter_of_def)
      ultimately show ?thesis
        using i by (simp add: Train adapter_step_def with_adapter_def w1(1) spec_step_def flip: w1(4))
    next
      case False
      then have "dict_get (wk_slots w) i = None" "adapter_of w i = None" by (simp_all add: dict_has_def adapter_of_None)
      then show ?thesis by (simp add: Train adapter_step_def with_adapter_def swap_to_def spec_step_def)
    qed
  qed
qed

lemma adapter_run_refines:
  assumes "store_inv p w" "acts_on_adapter f g" "registers_fresh junk f as w"
  shows "(case adapter_run junk f as w of Inl e \<Rightarrow> Inl e | Inr w' \<Rightarrow> Inr (adapter_of w')) = spec_run g p as (adapter_of w)"
  using assms(1,3)
proof (induction "as" arbitrary: w)
  case (Cons a "as")
  have fresh: "case a of Register i \<Rightarrow> live_is_fresh w | _ \<Rightarrow> True" using Cons.prems(2) by simp
  show ?case
  proof (cases "adapter_step junk f a w")
    case (Inl e)
    then show ?thesis using adapter_step_refines [OF Cons.prems(1) assms(2) fresh, of junk] by simp
  next
    case (Inr w')
    then show ?thesis using adapter_step_refines [OF Cons.prems(1) assms(2) fresh, of junk] Cons.IH [of w'] Cons.prems(2) by simp
  qed
qed simp


section \<open>Examples\<close>

text \<open>One parameter with its gradient, an optimizer with one moment, a learning rate and a step counter; a call that sets
  the parameter and counts a step.\<close>

definition ex_adapter :: "group_entry \<Rightarrow> lora_live" where
  "ex_adapter step = \<lparr>lv_buffers = [([5], [0])],
     lv_opts = [\<lparr>op_main = [[5]], op_state = [Some [(''exp_avg'', Moment [0])]],
       op_groups = [[(''params'', Opaque), (''lr'', Number 1), (''step'', step)]]\<rparr>]\<rparr>"

definition ex_pristine :: "group_entry \<Rightarrow> real list \<Rightarrow> lora_worker" where
  "ex_pristine step cells = \<lparr>wk_live = ex_adapter step, wk_cells = cells, wk_slots = [], wk_pristine = Some (image (ex_adapter step)), wk_current = None,
     wk_signature = Some \<lparr>ls_rank = 8, ls_alpha = 16, ls_target_modules = [''all-linear''], ls_lora_type = ''lora'', ls_tp = 1, ls_pp = 1, ls_ep = 1\<rparr>\<rparr>"

definition ex_set :: "nat \<Rightarrow> lora_live \<Rightarrow> lora_live" where
  "ex_set k lv = lv\<lparr>lv_buffers := map (\<lambda>(xs, gs). (map (\<lambda>_. real k) xs, gs)) (lv_buffers lv)\<rparr>"

definition ex_set_slot :: "nat \<Rightarrow> adapter_slot \<Rightarrow> adapter_slot" where
  "ex_set_slot k s = s\<lparr>sl_params := map (map (\<lambda>_. real k)) (sl_params s)\<rparr>"

lemma ex_set_acts: "acts_on_adapter ex_set ex_set_slot"
  unfolding acts_on_adapter_def
  by (intro allI impI conjI) (simp_all add: ex_set_def ex_set_slot_def image_def live_ok_def tidy_def shape_def comp_def case_prod_unfold)

definition ex_calls :: "adapter_op list" where
  "ex_calls = [Register ''a'', Register ''b'', Train ''a'' 1, Train ''b'' 2, Drop ''a'', Train ''b'' 3, Register ''c'']"


text \<open>An adapter registered after the live one was deleted takes over the state of the deleted one, although the
  registration is documented to start from the initial state: here the parameter of \<open>a\<close> after its call.\<close>

theorem deleted_adapter_leaks:
  "\<exists>w. adapter_run (\<lambda>_. 9) ex_set [Register ''a'', Register ''b'', Train ''a'' 1, Drop ''a'', Register ''c''] (ex_pristine (Number 0) []) = Inr w
    \<and> map_option sl_params (adapter_of w ''c'') = Some [[1]] \<and> map_option sl_params (wk_pristine w) = Some [[5]]"
proof -
  have "case adapter_run (\<lambda>_. 9) ex_set [Register ''a'', Register ''b'', Train ''a'' 1, Drop ''a'', Register ''c''] (ex_pristine (Number 0) []) of
      Inl _ \<Rightarrow> False
    | Inr w \<Rightarrow> map_option sl_params (adapter_of w ''c'') = Some [[1]] \<and> map_option sl_params (wk_pristine w) = Some [[5]]"
    by code_simp
  then show ?thesis by (auto split: sum.splits)
qed

text \<open>When the optimizer keeps its step counter as a one-element tensor, snapshots hold a reference to the live counter:
  swapping to the other adapter and back leaves the counter of the first at the value of the second.\<close>

theorem tensor_counter_leaks:
  "case adapter_run (\<lambda>_. 9) ex_set [Register ''a'', Register ''b'', Train ''a'' 1] (ex_pristine (Cell 0) [0]) of
     Inl _ \<Rightarrow> False
   | Inr w \<Rightarrow>
       (case adapter_run (\<lambda>_. 9) ex_set [Train ''b'' 1, Train ''a'' 1] (w\<lparr>wk_cells := (wk_cells w)[0 := 7]\<rparr>) of
          Inl _ \<Rightarrow> False
        | Inr w' \<Rightarrow> wk_current w = Some ''a'' \<and> wk_current w' = Some ''a'' \<and> op_groups (hd (lv_opts (wk_live w'))) = op_groups (hd (lv_opts (wk_live w)))
            \<and> dict_get (hd (op_groups (hd (lv_opts (wk_live w'))))) ''step'' = Some (Cell 0) \<and> wk_cells w' ! 0 = 0)"
  by code_simp

end
