(* ===== verification/Skyrl_Models.thy ===== *)
theory Skyrl_Models
  imports Adapter_Store Tinker_Types
begin

text \<open>
  The table of models of the SkyRL-train backend (\<^verbatim>\<open>backends/skyrl_train_backend.py\<close>) and the adapters its Megatron workers
  hold for them.  A freshly built policy worker, its optimizer state primed, is an argument.
\<close>

section \<open>State\<close>

record skyrl_models =
  km_roles :: "(string, string) dict"
  km_metadata :: "(string, lora_config) dict"
  km_signature :: "(int \<times> int) option"
  km_worker :: "lora_worker option"
  km_strategy :: string

text \<open>Python's \<open>int()\<close> of a float.\<close>

definition truncate :: "real \<Rightarrow> int" where
  "truncate x = (if 0 \<le> x then \<lfloor>x\<rfloor> else \<lceil>x\<rceil>)"

definition lora_signature_from :: "lora_config \<Rightarrow> int \<times> int" where
  "lora_signature_from c = (lora_rank c, truncate (lora_alpha c))"

definition has_model :: "string \<Rightarrow> skyrl_models \<Rightarrow> bool" where
  "has_model i st = dict_has (km_roles st) i"

definition get_role :: "string \<Rightarrow> skyrl_models \<Rightarrow> (string, string) result" where
  "get_role i st = (case dict_get (km_roles st) i of None \<Rightarrow> Inl ''ValueError: model not found'' | Some r \<Rightarrow> Inr r)"

section \<open>Creation\<close>

text \<open>Only Megatron workers have a store of adapters.\<close>

definition on_adapters :: "skyrl_models \<Rightarrow> (lora_worker \<Rightarrow> (string, lora_worker) result) \<Rightarrow> (string, skyrl_models) result" where
  "on_adapters st f =
     (if km_strategy st \<noteq> ''megatron'' then Inl ''NotImplementedError''
      else case km_worker st of
        None \<Rightarrow> Inl ''AttributeError''
      | Some w \<Rightarrow> (case f w of Inl e \<Rightarrow> Inl e | Inr w \<Rightarrow> Inr (st\<lparr>km_worker := Some w\<rparr>)))"

definition add_model :: "string \<Rightarrow> string \<Rightarrow> lora_config \<Rightarrow> skyrl_models \<Rightarrow> skyrl_models" where
  "add_model i role c st = st\<lparr>km_roles := dict_put i role (km_roles st), km_metadata := dict_put i c (km_metadata st)\<rparr>"

definition build_policy ::
  "(nat \<Rightarrow> real) \<Rightarrow> lora_signature \<Rightarrow> lora_worker \<Rightarrow> bool \<Rightarrow> string \<Rightarrow> skyrl_models \<Rightarrow> (string, skyrl_models) result" where
  "build_policy junk sig built is_lora i st =
     (if km_strategy st \<notin> {''fsdp'', ''megatron''} then Inl ''ValueError: unknown strategy type''
      else if is_lora \<and> km_strategy st = ''megatron'' then
        (case register_pristine junk sig built of
           Inl e \<Rightarrow> Inl e
         | Inr w \<Rightarrow> (case register_adapter junk i w of Inl e \<Rightarrow> Inl e | Inr w \<Rightarrow> Inr (st\<lparr>km_worker := Some w\<rparr>)))
      else Inr (st\<lparr>km_worker := Some built\<rparr>))"

definition create_backend_model ::
  "(nat \<Rightarrow> real) \<Rightarrow> lora_signature \<Rightarrow> lora_worker \<Rightarrow> string \<Rightarrow> lora_config \<Rightarrow> string \<Rightarrow> skyrl_models \<Rightarrow> (string, skyrl_models) result" where
  "create_backend_model junk sig built i c role st =
     (let is_lora = lora_rank c > 0; first_policy = ''policy'' \<notin> snd ` set (km_roles st)
      in if has_model i st then Inl ''ValueError: model already exists''
         else if role = ''policy'' \<and> \<not> first_policy then
           (if \<not> is_lora then Inl ''ValueError: multi-tenant training is only supported for LoRA''
            else if km_signature st = None then Inl ''ValueError: the first policy model was created without LoRA''
            else if Some (lora_signature_from c) \<noteq> km_signature st then Inl ''ValueError: LoRA signature mismatch''
            else case on_adapters st (register_adapter junk i) of
              Inl e \<Rightarrow> Inl e | Inr st \<Rightarrow> Inr (add_model i role c st))
         else if role = ''policy'' then
           (case build_policy junk sig built is_lora i st of
              Inl e \<Rightarrow> Inl e
            | Inr st \<Rightarrow> Inr (add_model i role c (if is_lora then st\<lparr>km_signature := Some (lora_signature_from c)\<rparr> else st)))
         else if role = ''critic'' then
           (if ''critic'' \<in> snd ` set (km_roles st) then Inl ''ValueError: already has a critic model''
            else if first_policy then Inl ''ValueError: create a policy model before creating a critic model''
            else if km_strategy st = ''fsdp'' then Inr (add_model i role c st)
            else if km_strategy st = ''megatron'' then Inl ''NotImplementedError''
            else Inl ''ValueError: unknown strategy type'')
         else Inl ''ValueError: unknown model_role'')"

section \<open>Deletion\<close>

definition delete_model :: "string \<Rightarrow> skyrl_models \<Rightarrow> (string, skyrl_models) result" where
  "delete_model i st =
     (case get_role i st of
        Inl e \<Rightarrow> Inl e
      | Inr role \<Rightarrow>
          (if length (km_roles st) > 1 \<and> role = ''policy'' \<and> km_signature st \<noteq> None then
             (case on_adapters st (delete_slot i) of
                Inl e \<Rightarrow> Inl e
              | Inr st \<Rightarrow> Inr (st\<lparr>km_roles := dict_del i (km_roles st), km_metadata := dict_del i (km_metadata st)\<rparr>))
           else Inr (st\<lparr>km_roles := [], km_metadata := [], km_signature := None, km_worker := None\<rparr>)))"

text \<open>A training call on a model swaps its adapter in first.\<close>

definition train_model :: "(lora_live \<Rightarrow> lora_live) \<Rightarrow> string \<Rightarrow> skyrl_models \<Rightarrow> (string, skyrl_models) result" where
  "train_model f i st = (case get_role i st of Inl e \<Rightarrow> Inl e | Inr _ \<Rightarrow> on_adapters st (with_adapter f i))"

datatype model_call = Create string lora_config string | Delete string | Train_call string nat

definition model_call_step ::
  "(nat \<Rightarrow> real) \<Rightarrow> lora_signature \<Rightarrow> lora_worker \<Rightarrow> (nat \<Rightarrow> lora_live \<Rightarrow> lora_live) \<Rightarrow> model_call \<Rightarrow> skyrl_models \<Rightarrow> (string, skyrl_models) result" where
  "model_call_step junk sig built f a st =
     (case a of
        Create i c role \<Rightarrow> create_backend_model junk sig built i c role st
      | Delete i \<Rightarrow> delete_model i st
      | Train_call i k \<Rightarrow> train_model (f k) i st)"

text \<open>A call that raises leaves the table as it was.\<close>

fun model_calls ::
  "(nat \<Rightarrow> real) \<Rightarrow> lora_signature \<Rightarrow> lora_worker \<Rightarrow> (nat \<Rightarrow> lora_live \<Rightarrow> lora_live) \<Rightarrow> model_call list \<Rightarrow> skyrl_models \<Rightarrow> skyrl_models" where
  "model_calls junk sig built f [] st = st"
| "model_calls junk sig built f (a # as) st =
     model_calls junk sig built f as (case model_call_step junk sig built f a st of Inl _ \<Rightarrow> st | Inr st \<Rightarrow> st)"

definition no_models :: "string \<Rightarrow> skyrl_models" where
  "no_models strategy = \<lparr>km_roles = [], km_metadata = [], km_signature = None, km_worker = None, km_strategy = strategy\<rparr>"

section \<open>Invariant\<close>

definition policies :: "skyrl_models \<Rightarrow> string list" where
  "policies st = map fst (filter (\<lambda>(_, r). r = ''policy'') (km_roles st))"

definition critics :: "skyrl_models \<Rightarrow> string list" where
  "critics st = map fst (filter (\<lambda>(_, r). r = ''critic'') (km_roles st))"

text \<open>The table and the workers agree: one critic at most, and only beside a policy; several policies only as adapters of
  one signature, each with exactly its own slot.\<close>

definition models_inv :: "skyrl_models \<Rightarrow> bool" where
  "models_inv st =
     (dict_wf (km_roles st) \<and> map fst (km_metadata st) = map fst (km_roles st)
      \<and> list_all (\<lambda>(_, r). r = ''policy'' \<or> r = ''critic'') (km_roles st)
      \<and> length (critics st) \<le> 1 \<and> (km_roles st \<noteq> [] \<longrightarrow> policies st \<noteq> [])
      \<and> (km_strategy st = ''megatron'' \<longrightarrow> critics st = []) \<and> (km_roles st = [] \<longrightarrow> km_signature st = None)
      \<and> (length (policies st) > 1 \<longrightarrow> km_strategy st = ''megatron'' \<and> km_signature st \<noteq> None)
      \<and> (\<forall>s. km_signature st = Some s \<longrightarrow> (\<forall>i \<in> set (policies st). \<exists>c. dict_get (km_metadata st) i = Some c \<and> lora_signature_from c = s))
      \<and> (km_strategy st = ''megatron'' \<and> km_signature st \<noteq> None \<longrightarrow>
          (\<exists>w. km_worker st = Some w \<and> dict_wf (wk_slots w) \<and> set (map fst (wk_slots w)) = set (policies st))))"

lemma dict_put_fresh_keys: "\<not> dict_has d k \<Longrightarrow> dict_put k v d = d @ [(k, v)]"
  by (rule dict_put_fresh) (simp add: dict_has_iff)

lemma register_adapter_slots:
  assumes "register_adapter junk i w = Inr w'" "dict_wf (wk_slots w)"
  shows "dict_wf (wk_slots w') \<and> set (map fst (wk_slots w')) = insert i (set (map fst (wk_slots w)))"
proof -
  have "\<not> dict_has (wk_slots w) i \<and> (\<exists>s. wk_slots w' = dict_put i s (wk_slots w))"
    using assms(1) by (auto simp: register_adapter_def create_slot_def Let_def split: option.splits if_splits prod.splits)
  then obtain s where "wk_slots w' = wk_slots w @ [(i, s)]" "\<not> dict_has (wk_slots w) i" using dict_put_fresh_keys by metis
  then show ?thesis using assms(2) by (auto simp: dict_wf_def dict_has_iff)
qed

lemma swap_to_slots:
  assumes "swap_to i w = Inr w'" "dict_wf (wk_slots w)"
  shows "dict_wf (wk_slots w') \<and> map fst (wk_slots w') = map fst (wk_slots w)"
proof -
  have r: "wk_slots w2 = wk_slots w1" if "restore s w1 = Inr w2" for s w1 w2
    using that by (auto simp: restore_def split: if_splits prod.splits)
  have k: "map fst (dict_put c s (wk_slots w)) = map fst (wk_slots w)" if "dict_get (wk_slots w) c = Some x" for c s x
    using that by (intro dict_keys_put_present) (metis domI dom_map_of_conv_image_fst)
  show ?thesis
    using assms by (auto simp: swap_to_def k dest!: r split: option.splits if_splits sum.splits)
qed

lemma add_model_views:
  assumes "\<not> dict_has (km_roles st) i" "map fst (km_metadata st) = map fst (km_roles st)"
  shows "km_roles (add_model i role c st) = km_roles st @ [(i, role)]" "km_metadata (add_model i role c st) = km_metadata st @ [(i, c)]"
    and "policies (add_model i role c st) = policies st @ (if role = ''policy'' then [i] else [])"
    and "critics (add_model i role c st) = critics st @ (if role = ''critic'' then [i] else [])"
proof -
  have "\<not> dict_has (km_metadata st) i" using assms by (simp add: dict_has_iff flip: set_map)
  then show "km_roles (add_model i role c st) = km_roles st @ [(i, role)]" "km_metadata (add_model i role c st) = km_metadata st @ [(i, c)]"
    using assms(1) by (simp_all add: add_model_def dict_put_fresh_keys)
  then show "policies (add_model i role c st) = policies st @ (if role = ''policy'' then [i] else [])"
    "critics (add_model i role c st) = critics st @ (if role = ''critic'' then [i] else [])"
    by (simp_all add: policies_def critics_def)
qed

lemma on_adapters_ok:
  assumes "on_adapters st f = Inr st'"
  shows "\<exists>w w'. km_strategy st = ''megatron'' \<and> km_worker st = Some w \<and> f w = Inr w' \<and> st' = st\<lparr>km_worker := Some w'\<rparr>"
  using assms by (auto simp: on_adapters_def split: if_splits option.splits sum.splits)

lemma models_invD:
  assumes "models_inv st"
  shows "dict_wf (km_roles st)" "map fst (km_metadata st) = map fst (km_roles st)"
    "list_all (\<lambda>(_, r). r = ''policy'' \<or> r = ''critic'') (km_roles st)" "length (critics st) \<le> 1"
    "km_roles st \<noteq> [] \<Longrightarrow> policies st \<noteq> []" "km_strategy st = ''megatron'' \<Longrightarrow> critics st = []" "km_roles st = [] \<Longrightarrow> km_signature st = None"
    "length (policies st) > 1 \<Longrightarrow> km_strategy st = ''megatron'' \<and> km_signature st \<noteq> None"
    "km_signature st = Some s \<Longrightarrow> i \<in> set (policies st) \<Longrightarrow> \<exists>c. dict_get (km_metadata st) i = Some c \<and> lora_signature_from c = s"
    "km_strategy st = ''megatron'' \<Longrightarrow> km_signature st \<noteq> None \<Longrightarrow>
      \<exists>w. km_worker st = Some w \<and> dict_wf (wk_slots w) \<and> set (map fst (wk_slots w)) = set (policies st)"
  using assms unfolding models_inv_def by blast+

lemma models_inv_train:
  assumes inv: "models_inv st" and train: "train_model f i st = Inr st'"
  shows "models_inv st'"
proof -
  have "on_adapters st (with_adapter f i) = Inr st'" using train by (simp add: train_model_def split: sum.splits)
  then obtain w w' where w: "km_worker st = Some w" "with_adapter f i w = Inr w'" "st' = st\<lparr>km_worker := Some w'\<rparr>"
    using on_adapters_ok by blast
  have slots: "dict_wf (wk_slots w') \<and> map fst (wk_slots w') = map fst (wk_slots w)" if "dict_wf (wk_slots w)"
    using w(2) that swap_to_slots [of i w] by (auto simp: with_adapter_def split: sum.splits)
  have "policies st' = policies st" "critics st' = critics st" by (simp_all add: w(3) policies_def critics_def)
  moreover have "\<exists>w. km_worker st' = Some w \<and> dict_wf (wk_slots w) \<and> set (map fst (wk_slots w)) = set (policies st)"
    if "km_strategy st = ''megatron''" "km_signature st \<noteq> None"
    using models_invD(10) [OF inv that] slots w(1) by (auto simp: w(3) simp del: set_map)
  ultimately show ?thesis using models_invD [OF inv] unfolding models_inv_def w(3) by simp
qed

lemma models_inv_delete:
  assumes inv: "models_inv st" and del: "delete_model i st = Inr st'"
  shows "models_inv st'"
proof (cases "length (km_roles st) > 1 \<and> dict_get (km_roles st) i = Some ''policy'' \<and> km_signature st \<noteq> None")
  case False
  then have "st' = st\<lparr>km_roles := [], km_metadata := [], km_signature := None, km_worker := None\<rparr>"
    using del by (auto simp: delete_model_def get_role_def split: sum.splits option.splits if_splits)
  then show ?thesis by (simp add: models_inv_def policies_def critics_def)
next
  case True
  then obtain st1 where st1: "on_adapters st (delete_slot i) = Inr st1"
    "st' = st1\<lparr>km_roles := dict_del i (km_roles st1), km_metadata := dict_del i (km_metadata st1)\<rparr>"
    using del by (auto simp: delete_model_def get_role_def split: sum.splits)
  then obtain w w' where w: "km_strategy st = ''megatron''" "km_worker st = Some w" "delete_slot i w = Inr w'" "st1 = st\<lparr>km_worker := Some w'\<rparr>"
    using on_adapters_ok by blast
  have st': "st' = st\<lparr>km_worker := Some w', km_roles := dict_del i (km_roles st), km_metadata := dict_del i (km_metadata st)\<rparr>"
    using st1(2) w(4) by simp
  note I = models_invD [OF inv]
  have pol: "policies st' = filter (\<lambda>j. j \<noteq> i) (policies st)" and crit: "critics st' = []"
    using I(6) [OF w(1)] by (auto simp: st' policies_def critics_def AList.delete_eq filter_map comp_def case_prod_unfold filter_empty_conv
      intro!: arg_cong [of _ _ "map fst"] filter_cong)
  have keys: "map fst (dict_del i d) = filter (\<lambda>j. j \<noteq> i) (map fst d)" for d :: "(string, 'a) dict"
    unfolding AList.delete_keys removeAll_filter_not_eq by (rule filter_cong) auto
  have some: "dict_del i (km_roles st) \<noteq> []"
  proof
    assume "dict_del i (km_roles st) = []"
    then have "filter (\<lambda>j. j \<noteq> i) (map fst (km_roles st)) = []" using keys [of "km_roles st"] by simp
    then have "set (map fst (km_roles st)) \<subseteq> {i}" by (auto simp only: filter_empty_conv insert_iff)
    moreover have "card (set (map fst (km_roles st))) = length (km_roles st)" using I(1) distinct_card by (fastforce simp: dict_wf_def)
    ultimately show False using True card_mono [of "{i}" "set (map fst (km_roles st))"] by simp
  qed
  have slots: "dict_wf (wk_slots w') \<and> set (map fst (wk_slots w')) = set (policies st')"
  proof -
    have slots: "dict_wf (wk_slots w)" "set (map fst (wk_slots w)) = set (policies st)" using I(10) [OF w(1)] True w(2) by auto
    have "wk_slots w' = dict_del i (wk_slots w)" using w(3) by (auto simp: delete_slot_def split: if_splits)
    then show ?thesis using slots(1) slots(2) unfolding pol by (simp only: keys set_filter dict_wf_del)
  qed
  have all: "list_all (\<lambda>(_, r). r = ''policy'' \<or> r = ''critic'') (dict_del i (km_roles st))"
    using I(3) by (auto simp: list_all_iff AList.delete_eq)
  have "policies st' \<noteq> []"
  proof -
    obtain j r where j: "(j, r) \<in> set (dict_del i (km_roles st))" using some by (cases "dict_del i (km_roles st)") auto
    moreover have "r \<noteq> ''critic''" using j crit by (auto simp: st' critics_def filter_empty_conv)
    ultimately have "(j, ''policy'') \<in> set (dict_del i (km_roles st))" using all by (auto simp: list_all_iff)
    then show ?thesis by (auto simp: st' policies_def filter_empty_conv)
  qed
  moreover have "\<exists>c. dict_get (km_metadata st') j = Some c \<and> lora_signature_from c = s" if "km_signature st' = Some s" "j \<in> set (policies st')" for j s
    using I(9) [of s j] that by (auto simp: st' pol [unfolded st'] dict_simps)
  ultimately show ?thesis
    unfolding models_inv_def using I(1,2) slots all crit some True w(1) by (simp add: st' keys dict_wf_del)
qed

lemma models_inv_add:
  assumes inv: "models_inv st" and new: "\<not> dict_has (km_roles st) i" and role: "role = ''policy'' \<or> role = ''critic'' \<and> critics st = [] \<and> policies st \<noteq> [] \<and> km_strategy st \<noteq> ''megatron''"
    and several: "role = ''policy'' \<Longrightarrow> policies st \<noteq> [] \<Longrightarrow> km_strategy st = ''megatron'' \<and> sig \<noteq> None"
    and sig: "role = ''policy'' \<Longrightarrow> sig \<noteq> None \<Longrightarrow> sig = Some (lora_signature_from c)" "policies st \<noteq> [] \<Longrightarrow> sig = km_signature st"
    and slots: "km_strategy st = ''megatron'' \<Longrightarrow> sig \<noteq> None \<Longrightarrow>
      \<exists>w. worker = Some w \<and> dict_wf (wk_slots w) \<and> set (map fst (wk_slots w)) = insert i (set (policies st))"
  shows "models_inv (add_model i role c (st\<lparr>km_worker := worker, km_signature := sig\<rparr>))"
proof -
  let ?st = "st\<lparr>km_worker := worker, km_signature := sig\<rparr>" and ?new = "add_model i role c (st\<lparr>km_worker := worker, km_signature := sig\<rparr>)"
  note I = models_invD [OF inv]
  have v: "km_roles ?new = km_roles st @ [(i, role)]" "km_metadata ?new = km_metadata st @ [(i, c)]"
    "policies ?new = policies st @ (if role = ''policy'' then [i] else [])" "critics ?new = critics st @ (if role = ''critic'' then [i] else [])"
    using add_model_views [of ?st i role c] new I(2) by (simp_all add: policies_def critics_def)
  have more: "km_strategy ?new = km_strategy st" "km_signature ?new = sig" "km_worker ?new = worker" by (simp_all add: add_model_def)
  have "i \<notin> set (map fst (km_metadata st))" using new unfolding I(2) by (simp add: dict_has_iff)
  then have get: "dict_get (km_metadata ?new) j = (if j = i then Some c else dict_get (km_metadata st) j)" for j
    using map_of_eq_None_iff [of "km_metadata st" i] by (simp add: v(2) map_add_def split: option.splits)
  have pol: "policies st = [] \<Longrightarrow> role = ''policy''" using role by blast
  have "\<exists>c'. dict_get (km_metadata ?new) j = Some c' \<and> lora_signature_from c' = s" if "sig = Some s" "j \<in> set (policies ?new)" for j s
  proof (cases "j = i")
    case True
    moreover have "i \<notin> set (policies st)" using new by (auto simp: policies_def dict_has_iff)
    ultimately have "role = ''policy''" using that(2) by (auto simp: v(3) split: if_splits)
    then have "s = lora_signature_from c" using that(1) sig(1) by simp
    then show ?thesis unfolding get using True by simp
  next
    case False
    then have "j \<in> set (policies st)" using that(2) by (auto simp: v(3) split: if_splits)
    moreover from this have "sig = km_signature st" by (intro sig(2)) auto
    ultimately show ?thesis unfolding get using I(9) [of s j] that(1) False by simp
  qed
  moreover have "km_strategy st = ''megatron'' \<and> sig \<noteq> None" if len: "length (policies ?new) > 1"
  proof (cases "role = ''policy''")
    case True
    then have "policies st \<noteq> []" using len unfolding v(3) by auto
    then show ?thesis by (rule several [OF True])
  next
    case False
    then have "length (policies st) > 1" using len unfolding v(3) by simp
    then show ?thesis using I(8) sig(2) by (metis length_0_conv not_one_less_zero)
  qed
  moreover have "\<exists>w. worker = Some w \<and> dict_wf (wk_slots w) \<and> set (map fst (wk_slots w)) = set (policies ?new)"
    if "km_strategy st = ''megatron''" "sig \<noteq> None"
    unfolding v(3) using slots [OF that] role that(1) by auto
  moreover have "dict_wf (km_roles st @ [(i, role)])" using I(1) new by (simp add: dict_wf_def dict_has_iff)
  moreover have "length (critics ?new) \<le> 1" "km_strategy st = ''megatron'' \<Longrightarrow> critics ?new = []" unfolding v(4) using I(4,6) role by auto
  moreover have "policies ?new \<noteq> []" unfolding v(3) using pol by auto
  ultimately show ?thesis unfolding models_inv_def more v(1,2) using I(2,3) role by auto
qed

lemma models_inv_create:
  assumes inv: "models_inv st" and new: "create_backend_model junk sig built i c role st = Inr st'" and built: "wk_slots built = []"
  shows "models_inv st'"
proof -
  note I = models_invD [OF inv]
  have fresh: "\<not> dict_has (km_roles st) i" using new by (auto simp: create_backend_model_def has_model_def Let_def split: if_splits)
  have first: "''policy'' \<notin> snd ` set (km_roles st) \<longleftrightarrow> policies st = []" by (auto simp: policies_def filter_empty_conv image_iff)
  have no_critic: "''critic'' \<notin> snd ` set (km_roles st) \<longleftrightarrow> critics st = []" by (auto simp: critics_def filter_empty_conv image_iff)
  have role: "role = ''policy'' \<or> role = ''critic''" using new by (auto simp: create_backend_model_def Let_def split: if_splits)
  show ?thesis
  proof (cases "role = ''policy''")
    case False
    then have "st' = add_model i role c st" "critics st = []" "policies st \<noteq> []" "km_strategy st = ''fsdp''"
      using new role first no_critic by (auto simp: create_backend_model_def Let_def split: if_splits)
    then show ?thesis
      using models_inv_add [OF inv fresh, of role "km_signature st" c "km_worker st"] role False by simp
  next
    case policy: True
    show ?thesis
    proof (cases "policies st = []")
      case False
      then have c: "km_signature st = Some (lora_signature_from c)"
        and "\<exists>st1. on_adapters st (register_adapter junk i) = Inr st1 \<and> st' = add_model i role c st1"
        using new policy first by (auto simp: create_backend_model_def Let_def split: if_splits sum.splits)
      then obtain w w' where w: "km_strategy st = ''megatron''" "km_worker st = Some w" "register_adapter junk i w = Inr w'"
        "st' = add_model i role c (st\<lparr>km_worker := Some w'\<rparr>)"
        using on_adapters_ok by blast
      have "dict_wf (wk_slots w)" "set (map fst (wk_slots w)) = set (policies st)" using I(10) [OF w(1)] c w(2) by auto
      then have "dict_wf (wk_slots w') \<and> set (map fst (wk_slots w')) = insert i (set (policies st))"
        using register_adapter_slots [OF w(3)] by simp
      moreover have same: "st' = add_model i role c (st\<lparr>km_worker := Some w', km_signature := km_signature st\<rparr>)"
        unfolding w(4) by (cases st) simp
      ultimately show ?thesis
        using models_inv_add [OF inv fresh, of role "km_signature st" c "Some w'"] policy c w(1) False unfolding same [symmetric] by blast
    next
      case True
      then have none: "km_signature st = None" "km_roles st = []" using I(5,7) by blast+
      obtain st1 where st1: "build_policy junk sig built (lora_rank c > 0) i st = Inr st1"
        "st' = add_model i role c (if lora_rank c > 0 then st1\<lparr>km_signature := Some (lora_signature_from c)\<rparr> else st1)"
        using new policy first True by (auto simp: create_backend_model_def Let_def split: if_splits sum.splits)
      obtain w where w: "st1 = st\<lparr>km_worker := Some w\<rparr>"
        "km_strategy st = ''megatron'' \<Longrightarrow> lora_rank c > 0 \<Longrightarrow> dict_wf (wk_slots w) \<and> set (map fst (wk_slots w)) = {i}"
      proof (cases "lora_rank c > 0 \<and> km_strategy st = ''megatron''")
        case True
        then obtain w0 w1 where w: "register_pristine junk sig built = Inr w0" "register_adapter junk i w0 = Inr w1" "st1 = st\<lparr>km_worker := Some w1\<rparr>"
          using st1(1) by (auto simp: build_policy_def split: sum.splits)
        have "wk_slots w0 = []" using w(1) built by (auto simp: register_pristine_def split: if_splits sum.splits)
        then show ?thesis using that [OF w(3)] register_adapter_slots [OF w(2)] by simp
      next
        case False
        then have "st1 = st\<lparr>km_worker := Some built\<rparr>" using st1(1) by (auto simp: build_policy_def split: if_splits)
        then show ?thesis using that False by blast
      qed
      let ?sig = "if lora_rank c > 0 then Some (lora_signature_from c) else None"
      have "st' = add_model i role c (st\<lparr>km_worker := Some w, km_signature := ?sig\<rparr>)"
        using none(1) by (cases st) (simp add: st1(2) w(1))
      then show ?thesis
        using models_inv_add [OF inv fresh, of role ?sig c "Some w"] policy True w(2) by (simp split: if_splits)
    qed
  qed
qed

section \<open>Properties\<close>

text \<open>C13: Whatever models are created, trained and deleted, the table and the workers agree: there is a critic only beside a
  policy and one at most, several policies exist only as LoRA adapters of one rank and scaling, and then the workers hold
  exactly one adapter for each.\<close>

theorem models_match_adapters:
  assumes "wk_slots built = []"
  shows "models_inv (model_calls junk sig built f calls (no_models strategy))"
proof -
  have "models_inv (model_calls junk sig built f calls st)" if "models_inv st" for st
    using that
  proof (induction calls arbitrary: st)
    case (Cons a calls)
    have "models_inv st'" if "model_call_step junk sig built f a st = Inr st'" for st'
      using that models_inv_create [OF Cons.prems] models_inv_delete [OF Cons.prems] models_inv_train [OF Cons.prems] assms
      by (auto simp: model_call_step_def split: model_call.splits)
    then show ?case using Cons by (cases "model_call_step junk sig built f a st") simp_all
  qed simp
  moreover have "models_inv (no_models strategy)" by (simp add: models_inv_def no_models_def policies_def critics_def)
  ultimately show ?thesis by blast
qed

definition ex_built :: lora_worker where
  "ex_built = (ex_pristine (Number 0) [])\<lparr>wk_pristine := None, wk_signature := None\<rparr>"

definition ex_lora_config :: lora_config where
  "ex_lora_config = \<lparr>lora_rank = 8, lora_alpha = 16, lora_seed = 0, train_attn = True, train_mlp = True, train_unembed = True\<rparr>"

definition ex_model_calls :: "model_call list" where
  "ex_model_calls = [Create ''a'' ex_lora_config ''policy'', Create ''b'' ex_lora_config ''policy'', Train_call ''a'' 1, Delete ''a'',
     Create ''c'' ex_lora_config ''policy'']"

abbreviation ex_models :: skyrl_models where
  "ex_models \<equiv> model_calls (\<lambda>_. 9) (the (wk_signature (ex_pristine (Number 0) []))) ex_built ex_set ex_model_calls (no_models ''megatron'')"

theorem models_match_adapters_witness: "models_inv ex_models"
  by (rule models_match_adapters) (simp add: ex_built_def ex_pristine_def)

text \<open>A model created after the adapter live on the workers was deleted starts with the deleted model's weights instead
  of new ones: here the parameter is 1, as the deleted model's training left it, and not the initial 5.\<close>

theorem new_model_inherits_deleted_weights:
  "map_option (\<lambda>w. map_option sl_params (adapter_of w ''c'')) (km_worker ex_models) = Some (Some [[1]])
    \<and> map_option (\<lambda>w. map_option sl_params (wk_pristine w)) (km_worker ex_models) = Some (Some [[5]])"
  by code_simp

text \<open>Deleting the critic discards the policy with it.\<close>

theorem deleting_critic_drops_policy:
  "let st = model_calls (\<lambda>_. 9) (the (wk_signature (ex_pristine (Number 0) []))) ex_built ex_set
       [Create ''p'' ex_lora_config ''policy'', Create ''v'' ex_lora_config ''critic''] (no_models ''fsdp'')
   in has_model ''p'' st \<and> (case delete_model ''v'' st of Inl _ \<Rightarrow> False | Inr st' \<Rightarrow> \<not> has_model ''p'' st')
     \<and> delete_model ''p'' st = Inl ''NotImplementedError''"
  by code_simp

end
