(* ===== verification/Skyrl_Passes.thy ===== *)
theory Skyrl_Passes
  imports Skyrl_Models Tinker_Batch Sft_Collate Train_Step
begin

text \<open>
  Model passes of the SkyRL-train backend (\<^verbatim>\<open>backends/skyrl_train_backend.py\<close>): a prepared batch is split by model, converted
  to a padded training batch, run by the worker dispatch, and its outputs are cut back into the results of the
  requests.  The renderer and the dispatch are arguments.
\<close>

section \<open>Splitting by model\<close>

definition empty_pass :: prepared_model_pass_batch where
  "empty_pass = \<lparr>mp_model_inputs = [], mp_targets = [], mp_token_weights = [], mp_sampling_logprobs = [], mp_advantages = [],
     mp_values = [], mp_returns = [], mp_model_ids = [], mp_loss_fns = [], mp_loss_fn_configs = [], mp_slices = []\<rparr>"

type_synonym request_slice = "nat \<times> string option \<times> nat \<times> nat"

definition extend_sub_batch :: "prepared_model_pass_batch \<Rightarrow> request_slice \<Rightarrow> prepared_model_pass_batch \<Rightarrow> prepared_model_pass_batch" where
  "extend_sub_batch pb = (\<lambda>(rid, mid, s, e) sub.
     let start = length (mp_model_inputs sub); inputs = mp_model_inputs sub @ subseq s e (mp_model_inputs pb)
     in \<lparr>mp_model_inputs = inputs,
         mp_targets = mp_targets sub @ subseq s e (mp_targets pb),
         mp_token_weights = mp_token_weights sub @ subseq s e (mp_token_weights pb),
         mp_sampling_logprobs = mp_sampling_logprobs sub @ subseq s e (mp_sampling_logprobs pb),
         mp_advantages = mp_advantages sub @ subseq s e (mp_advantages pb),
         mp_values = mp_values sub @ subseq s e (mp_values pb),
         mp_returns = mp_returns sub @ subseq s e (mp_returns pb),
         mp_model_ids = mp_model_ids sub @ subseq s e (mp_model_ids pb),
         mp_loss_fns = mp_loss_fns sub @ subseq s e (mp_loss_fns pb),
         mp_loss_fn_configs = mp_loss_fn_configs sub @ subseq s e (mp_loss_fn_configs pb),
         mp_slices = mp_slices sub @ [(rid, mid, start, length inputs)]\<rparr>)"

text \<open>Looking up the role of the model a request names, if it names one.\<close>

definition role_of :: "skyrl_models \<Rightarrow> string option \<Rightarrow> (string, string) result" where
  "role_of st mid = (case mid of None \<Rightarrow> Inl ''ValueError: model not found'' | Some i \<Rightarrow> get_role i st)"

definition distinct_ids :: "string option list \<Rightarrow> string option list" where
  "distinct_ids mids = map fst (dict_of_pairs (map (\<lambda>m. (m, ())) mids))"

definition slices_by_model :: "request_slice list \<Rightarrow> (string option, request_slice list) dict" where
  "slices_by_model ss = group_values (map (\<lambda>s. (fst (snd s), s)) ss)"

definition split_by_model :: "skyrl_models \<Rightarrow> prepared_model_pass_batch \<Rightarrow> (string, prepared_model_pass_batch list) result" where
  "split_by_model st pb =
     (if length (distinct_ids (mp_model_ids pb)) \<le> 1 then Inr [pb]
      else case for_each (\<lambda>s. role_of st (fst (snd s))) (mp_slices pb) of
        Inl e \<Rightarrow> Inl e
      | Inr _ \<Rightarrow> Inr (map (\<lambda>(_, ss). fold (extend_sub_batch pb) ss empty_pass) (slices_by_model (mp_slices pb))))"

definition get_batch_role :: "skyrl_models \<Rightarrow> string option list \<Rightarrow> (string, string) result" where
  "get_batch_role st mids =
     (case distinct_ids mids of
        [] \<Rightarrow> Inr ''policy'' | [m] \<Rightarrow> role_of st m | _ \<Rightarrow> Inl ''ValueError: mixed model_ids in one batch'')"

section \<open>The training batch\<close>

record rendered_input =
  ri_prompt_ids :: "int list"
  ri_multi_modal :: "(string, real list) dict option"

definition full_sequence :: "int list \<Rightarrow> int list \<Rightarrow> int list" where
  "full_sequence ids targets = ids @ (if targets = [] then [] else [last targets])"

definition action_row :: "nat \<Rightarrow> real list \<Rightarrow> real list \<Rightarrow> real list" where
  "action_row n weights xs = replicate (n - length weights) 0 @ xs"

definition matrix_columns :: "(string \<times> tensor) list \<Rightarrow> (string, columns) result" where
  "matrix_columns = for_each (\<lambda>(k, rs). case torch_matrix rs of Inl e \<Rightarrow> Inl e | Inr v \<Rightarrow> Inr (k, Some v))"

text \<open>A sample without images gets an empty placeholder when another sample has some.\<close>

definition image_column :: "rendered_input list \<Rightarrow> string \<Rightarrow> columns" where
  "image_column rs k =
     (let vs = map (\<lambda>r. case ri_multi_modal r of None \<Rightarrow> None | Some d \<Rightarrow> dict_get d k) rs
      in if list_all (\<lambda>v. v = None) vs then []
         else [(k, Some (TensorList (map (\<lambda>v. case v of None \<Rightarrow> [] | Some x \<Rightarrow> x) vs)))])"

definition critic_columns :: "prepared_model_pass_batch \<Rightarrow> tensor \<Rightarrow> tensor \<Rightarrow> (string, (string \<times> tensor) list) result" where
  "critic_columns pb values returns =
     (let has_values = list_ex (\<lambda>v. v \<noteq> []) (mp_values pb); has_returns = list_ex (\<lambda>r. r \<noteq> []) (mp_returns pb)
      in if has_values \<noteq> has_returns then Inl ''ValueError: critic batches must provide both values and returns, or neither''
         else if has_values \<and> list_ex (\<lambda>(v, r, w). length v \<noteq> length w \<or> length r \<noteq> length w)
             (zip (mp_values pb) (zip (mp_returns pb) (mp_token_weights pb)))
         then Inl ''ValueError: critic batches with values/returns must align with response-token lengths''
         else Inr (if has_values then [(''values'', values), (''returns'', returns)] else []))"

definition to_training_batch ::
  "(model_input \<Rightarrow> rendered_input) \<Rightarrow> int \<Rightarrow> prepared_model_pass_batch \<Rightarrow> string \<Rightarrow> (string, batch) result" where
  "to_training_batch render pad pb role =
     (if mp_model_inputs pb = [] then new_batch [] None
      else
        let rendered = map render (mp_model_inputs pb);
            seqs = map2 (\<lambda>r. full_sequence (ri_prompt_ids r)) rendered (mp_targets pb)
        in case (list_maximum (map length seqs), list_maximum (map length (mp_token_weights pb))) of
             (Inr max_len, Inr n) \<Rightarrow>
               (let rows = zip seqs (zip (mp_token_weights pb) (zip (mp_sampling_logprobs pb)
                      (zip (mp_advantages pb) (zip (mp_values pb) (mp_returns pb)))));
                    base = [(''sequences'', map (\<lambda>(q, _). left_pad max_len (real_of_int pad) (map real_of_int q)) rows),
                      (''attention_mask'', map (\<lambda>(q, _). left_pad max_len 0 (replicate (length q) 1)) rows),
                      (''loss_mask'', map (\<lambda>(_, w, _). action_row n w w) rows),
                      (''response_mask'', map (\<lambda>(_, w, _). action_row n w (replicate (length w) 1)) rows)];
                    logprobs = map (\<lambda>(_, w, lp, _). action_row n w lp) rows; advantages = map (\<lambda>(_, w, _, a, _). action_row n w a) rows;
                    values = map (\<lambda>(_, w, _, _, v, _). action_row n w v) rows; returns = map (\<lambda>(_, w, _, _, _, r). action_row n w r) rows
                in case matrix_columns (base
                       @ (if list_ex (\<lambda>lp. lp \<noteq> []) (mp_sampling_logprobs pb) then [(''action_log_probs'', logprobs)] else [])
                       @ (if list_ex (\<lambda>a. a \<noteq> []) (mp_advantages pb) then [(''advantages'', advantages)] else [])) of
                     Inl e \<Rightarrow> Inl e
                   | Inr cs \<Rightarrow>
                       (case (if role = ''critic'' then critic_columns pb values returns else Inr []) of
                          Inl e \<Rightarrow> Inl e
                        | Inr ms \<Rightarrow>
                            (case matrix_columns ms of
                               Inl e \<Rightarrow> Inl e
                             | Inr cs' \<Rightarrow>
                                 new_batch (cs @ cs' @ image_column rendered ''pixel_values'' @ image_column rendered ''image_grid_thw'')
                                   (Some [(''response_length'', Number (int n))]))))
           | (Inl e, _) \<Rightarrow> Inl e
           | (_, Inl e) \<Rightarrow> Inl e)"

definition pad_backend_batch :: "nat \<Rightarrow> nat option \<Rightarrow> batch \<Rightarrow> (string, batch \<times> nat) result" where
  "pad_backend_batch ranks micro b =
     (let alignment = (case micro of Some k \<Rightarrow> if k \<noteq> 0 then ranks * k else ranks | None \<Rightarrow> ranks)
      in case batch_size b of
           None \<Rightarrow> Inl ''TypeError''
         | Some n \<Rightarrow>
             (if alignment = 0 then Inl ''integer division or modulo by zero''
              else
                let missing = (alignment - n mod alignment) mod alignment
                in case pad_training_input_batch missing b of Inl e \<Rightarrow> Inl e | Inr b \<Rightarrow> Inr (b, missing)))"

section \<open>Passes\<close>

text \<open>The loss of a policy pass by name and settings; of a critic pass its value clip.\<close>

datatype pass_loss = Policy_loss string "(string, real) dict option" | Value_loss real

record pass_output =
  po_type :: string
  po_outputs :: "(string, real list) dict list"
  po_metrics :: "(string, real) dict"

record backend_env =
  be_render :: "model_input \<Rightarrow> rendered_input"
  be_pad_token :: int
  be_dp :: nat
  be_megatron :: bool
  be_micro_train :: nat
  be_micro_forward :: nat
  be_value_clip :: real
  be_forward :: "string \<Rightarrow> string option \<Rightarrow> batch \<Rightarrow> (string, pass_output) result"
  be_forward_backward :: "string \<Rightarrow> string option \<Rightarrow> pass_loss \<Rightarrow> batch \<Rightarrow> (string, pass_output) result"

definition trim_padding :: "nat \<Rightarrow> 'a list \<Rightarrow> 'a list" where
  "trim_padding n os = (if 0 < n \<and> os \<noteq> [] then take (length os - n) os else os)"

definition tail_of :: "nat \<Rightarrow> 'a list \<Rightarrow> 'a list" where
  "tail_of k xs = drop (length xs - k) xs"

definition values_of_output :: "string \<Rightarrow> (string, real list) dict \<Rightarrow> real list" where
  "values_of_output k d = (case dict_get d k of None \<Rightarrow> [] | Some xs \<Rightarrow> xs)"

definition element_at :: "'a list \<Rightarrow> nat \<Rightarrow> (string, 'a) result" where
  "element_at xs i = (if i < length xs then Inr (xs ! i) else Inl ''IndexError'')"

definition output_key :: "string \<Rightarrow> string" where
  "output_key role = (if role = ''critic'' then ''values'' else ''logprobs'')"

definition forward_sample ::
  "prepared_model_pass_batch \<Rightarrow> string \<Rightarrow> (string, real list) dict list \<Rightarrow> nat \<Rightarrow> (string, (string, real list) dict) result" where
  "forward_sample pb key os i =
     (case element_at (mp_token_weights pb) i of
        Inl e \<Rightarrow> Inl e
      | Inr w \<Rightarrow>
          (case (if os = [] then Inr [] else element_at os i) of
             Inl e \<Rightarrow> Inl e
           | Inr d \<Rightarrow> Inr [(key, tail_of (length w) (values_of_output key d))]))"

definition first_id :: "string option list \<Rightarrow> string option" where
  "first_id mids = (case mids of [] \<Rightarrow> None | m # _ \<Rightarrow> m)"

definition forward_single :: "skyrl_models \<Rightarrow> backend_env \<Rightarrow> prepared_model_pass_batch \<Rightarrow> (string, (nat, result_data) dict) result" where
  "forward_single st env pb =
     (case get_batch_role st (mp_model_ids pb) of
        Inl e \<Rightarrow> Inl e
      | Inr role \<Rightarrow>
          (case to_training_batch (be_render env) (be_pad_token env) pb role of
             Inl e \<Rightarrow> Inl e
           | Inr b \<Rightarrow>
               (case pad_backend_batch (be_dp env) (if be_megatron env then Some (be_micro_forward env) else None) b of
                  Inl e \<Rightarrow> Inl e
                | Inr (b, missing) \<Rightarrow>
                    (case be_forward env role (first_id (mp_model_ids pb)) b of
                       Inl e \<Rightarrow> Inl e
                     | Inr out \<Rightarrow>
                         (case for_each (\<lambda>(rid, _, s, e).
                             case for_each (forward_sample pb (output_key role) (trim_padding missing (po_outputs out))) [s..<e] of
                               Inl e \<Rightarrow> Inl e
                             | Inr os \<Rightarrow> Inr (rid, ForwardBackwardOutput (po_type out) os [])) (mp_slices pb) of
                            Inl e \<Rightarrow> Inl e
                          | Inr rs \<Rightarrow> Inr (dict_of_pairs rs))))))"

text \<open>The results of the sub-batches, later ones overwriting.\<close>

fun merge_passes :: "(prepared_model_pass_batch \<Rightarrow> (string, (nat, result_data) dict) result) \<Rightarrow> prepared_model_pass_batch list
    \<Rightarrow> (nat, result_data) dict \<Rightarrow> (string, (nat, result_data) dict) result" where
  "merge_passes f [] acc = Inr acc"
| "merge_passes f (b # bs) acc = (case f b of Inl e \<Rightarrow> Inl e | Inr d \<Rightarrow> merge_passes f bs (dict_update acc d))"

definition backend_forward :: "skyrl_models \<Rightarrow> backend_env \<Rightarrow> prepared_model_pass_batch \<Rightarrow> (string, (nat, result_data) dict) result" where
  "backend_forward st env pb =
     (if mp_model_inputs pb = [] then Inr []
      else case split_by_model st pb of Inl e \<Rightarrow> Inl e | Inr bs \<Rightarrow> merge_passes (forward_single st env) bs [])"

section \<open>Training passes\<close>

definition validate_batch_role_and_loss :: "string \<Rightarrow> string \<Rightarrow> (string, unit) result" where
  "validate_batch_role_and_loss role loss_fn =
     (if role = ''critic'' \<and> loss_fn \<notin> {''ppo'', ''ppo_critic''} then Inl ''ValueError: critic batches must use ppo or ppo_critic''
      else if role \<noteq> ''critic'' \<and> loss_fn = ''ppo_critic'' then Inl ''ValueError: ppo_critic is only valid for critic models''
      else Inr ())"

definition normalize_policy_loss_request ::
  "string \<Rightarrow> string \<Rightarrow> (string, real) dict option \<Rightarrow> string \<times> (string, real) dict option" where
  "normalize_policy_loss_request role loss_fn config =
     (if role = ''critic'' \<or> loss_fn \<noteq> ''ppo'' then (loss_fn, config)
      else
        let given = (case config of None \<Rightarrow> [] | Some c \<Rightarrow> c);
            c = dict_del ''clip_high_threshold'' (dict_del ''clip_low_threshold'' given);
            c = (case dict_get given ''clip_low_threshold'' of None \<Rightarrow> c | Some x \<Rightarrow> dict_put ''eps_clip_low'' (1 - x) c);
            c = (case dict_get given ''clip_high_threshold'' of None \<Rightarrow> c | Some x \<Rightarrow> dict_put ''eps_clip_high'' (x - 1) c)
        in (''regular'', if c = [] then None else Some c))"

definition metric_names :: "(string \<times> string) list" where
  "metric_names = [(''policy_loss'', ''pg_loss:sum''), (''policy_entropy'', ''entropy_loss:sum''), (''critic_loss'', ''critic_loss:sum''),
     (''values_mean'', ''values_mean:mean''), (''values_clipfrac'', ''values_clipfrac:mean''), (''response_length'', ''num_tokens:sum''),
     (''policy_lr'', ''policy_lr:last''), (''critic_lr'', ''critic_lr:last'')]"

definition extract_metrics :: "(string, real) dict \<Rightarrow> (string, real) dict" where
  "extract_metrics d =
     (case (dict_get d ''loss'', dict_get d ''final_loss'') of
        (Some x, _) \<Rightarrow> [(''total_loss:sum'', x)] | (None, Some x) \<Rightarrow> [(''total_loss:sum'', x)] | (None, None) \<Rightarrow> [])
     @ concat (map (\<lambda>(k, n). case dict_get d k of None \<Rightarrow> [] | Some x \<Rightarrow> [(n, x)]) metric_names)"

definition format_output :: "(string, real list) dict \<Rightarrow> (string, real list) dict" where
  "format_output d = concat (map (\<lambda>k. case dict_get d k of None \<Rightarrow> [] | Some xs \<Rightarrow> [(k, xs)]) [''elementwise_loss'', ''logprobs'', ''values''])"

definition pass_results ::
  "prepared_model_pass_batch \<Rightarrow> pass_output \<Rightarrow> (string, real list) dict list \<Rightarrow> (string, (nat, result_data) dict) result" where
  "pass_results pb out os =
     (case for_each (\<lambda>(rid, _, s, e).
         case (if os = [] then Inr (replicate (e - s) []) else for_each (\<lambda>i. case element_at os i of Inl e \<Rightarrow> Inl e | Inr d \<Rightarrow> Inr (format_output d)) [s..<e]) of
           Inl e \<Rightarrow> Inl e
         | Inr ds \<Rightarrow> Inr (rid, ForwardBackwardOutput (po_type out) ds (extract_metrics (po_metrics out)))) (mp_slices pb) of
        Inl e \<Rightarrow> Inl e
      | Inr rs \<Rightarrow> Inr (dict_of_pairs rs))"

text \<open>The first request of the batch decides the loss of all.\<close>

definition requested_loss :: "backend_env \<Rightarrow> string \<Rightarrow> prepared_model_pass_batch \<Rightarrow> pass_loss" where
  "requested_loss env role pb =
     (let config = (case filter (\<lambda>c. c \<noteq> None) (mp_loss_fn_configs pb) of [] \<Rightarrow> None | c # _ \<Rightarrow> c);
          (loss, config) = normalize_policy_loss_request role (hd (mp_loss_fns pb)) config
      in if role = ''critic''
         then Value_loss (case dict_get (case config of None \<Rightarrow> [] | Some c \<Rightarrow> c) ''value_clip'' of None \<Rightarrow> be_value_clip env | Some x \<Rightarrow> x)
         else Policy_loss loss config)"

definition forward_backward_single ::
  "skyrl_models \<Rightarrow> backend_env \<Rightarrow> prepared_model_pass_batch \<Rightarrow> (string, (nat, result_data) dict) result" where
  "forward_backward_single st env pb =
     (case get_batch_role st (mp_model_ids pb) of
        Inl e \<Rightarrow> Inl e
      | Inr role \<Rightarrow>
          (case element_at (mp_loss_fns pb) 0 of
             Inl e \<Rightarrow> Inl e
           | Inr loss_fn \<Rightarrow>
               (case validate_batch_role_and_loss role loss_fn of
                  Inl e \<Rightarrow> Inl e
                | Inr _ \<Rightarrow>
                    if role = ''critic'' \<and> list_ex (\<lambda>(v, r, w). length v \<noteq> length w \<or> length r \<noteq> length w)
                        (zip (mp_values pb) (zip (mp_returns pb) (mp_token_weights pb)))
                    then Inl ''ValueError: critic forward_backward requires values and returns for every response token''
                    else case to_training_batch (be_render env) (be_pad_token env) pb role of
                      Inl e \<Rightarrow> Inl e
                    | Inr b \<Rightarrow>
                        (case pad_backend_batch (be_dp env) (if be_megatron env then Some (be_micro_train env) else None) b of
                           Inl e \<Rightarrow> Inl e
                         | Inr (b, missing) \<Rightarrow>
                             (case be_forward_backward env role (first_id (mp_model_ids pb)) (requested_loss env role pb) b of
                                Inl e \<Rightarrow> Inl e
                              | Inr out \<Rightarrow> pass_results pb out (trim_padding missing (po_outputs out)))))))"

definition backend_forward_backward ::
  "skyrl_models \<Rightarrow> backend_env \<Rightarrow> prepared_model_pass_batch \<Rightarrow> (string, (nat, result_data) dict) result" where
  "backend_forward_backward st env pb =
     (if mp_model_inputs pb = [] then Inr []
      else case split_by_model st pb of Inl e \<Rightarrow> Inl e | Inr bs \<Rightarrow> merge_passes (forward_backward_single st env) bs [])"

section \<open>Splitting is preparing apart\<close>

definition see :: "'a \<Rightarrow> 'a list \<Rightarrow> 'a list" where
  "see m acc = (if m \<in> set acc then acc else acc @ [m])"

lemma keys_put: "map fst (dict_put k v d) = see k (map fst d)"
  by (simp add: see_def update_keys)

lemma distinct_ids_fold: "distinct_ids ms = fold see ms []"
proof -
  have "map fst (fold (\<lambda>(k, v) acc. dict_put k v acc) (map (\<lambda>m. (m, ())) ms) d) = fold see ms (map fst d)" for d
    by (induction ms arbitrary: d) (simp_all add: keys_put)
  from this [of "[]"] show ?thesis by (simp add: distinct_ids_def dict_of_pairs_def dict_update_def)
qed

lemma group_values_ids: "map fst (group_values ps) = fold see (map fst ps) []"
proof -
  have "map fst (fold (\<lambda>(k, v) d. dict_put k ((case dict_get d k of None \<Rightarrow> [] | Some vs \<Rightarrow> vs) @ [v]) d) ps d) = fold see (map fst ps) (map fst d)" for d
    by (induction ps arbitrary: d) (auto simp: keys_put)
  from this [of "[]"] show ?thesis by (simp add: group_values_def)
qed

lemma see_repeated: "0 < n \<Longrightarrow> fold see (replicate n m) acc = see m acc"
proof (induction n arbitrary: acc)
  case (Suc n)
  have "see m (see m acc) = see m acc" by (simp add: see_def)
  then show ?case using Suc by (cases n) (simp_all del: fold_replicate)
qed simp

lemma distinct_ids_blocks:
  "\<forall>q\<in>set qs. 0 < n q \<Longrightarrow> distinct_ids (concat (map (\<lambda>q. replicate (n q) (k q)) qs)) = fold see (map k qs) []"
proof -
  assume "\<forall>q\<in>set qs. 0 < n q"
  then have "fold see (concat (map (\<lambda>q. replicate (n q) (k q)) qs)) acc = fold see (map k qs) acc" for acc
    by (induction qs arbitrary: acc) (simp_all add: see_repeated del: fold_replicate)
  then show ?thesis by (simp add: distinct_ids_fold)
qed

lemma fold_see_set: "set (fold see ms acc) = set acc \<union> set ms"
  by (induction ms arbitrary: acc) (auto simp: see_def)

lemma fold_see_distinct: "distinct acc \<Longrightarrow> distinct (fold see ms acc)"
  by (induction ms arbitrary: acc) (auto simp: see_def)

lemma group_values_closed: "group_values ps = map (\<lambda>k. (k, values_of k ps)) (map fst (group_values ps))"
proof -
  have "map (\<lambda>p. p) (group_values ps) = map (\<lambda>p. (fst p, values_of (fst p) ps)) (group_values ps)"
    by (intro map_cong refl) (auto simp: group_values_in)
  then show ?thesis by (simp add: comp_def)
qed

type_synonym pass_request = "nat \<times> string option \<times> forward_backward_input"

definition with_bounds :: "pass_request list \<Rightarrow> (pass_request \<times> nat \<times> nat) list" where
  "with_bounds reqs = zip reqs (bounds_from 0 (map (\<lambda>q. length (req_items q)) reqs))"

definition slice_of :: "pass_request \<times> nat \<times> nat \<Rightarrow> request_slice" where
  "slice_of = (\<lambda>(q, s, e). (fst q, fst (snd q), s, e))"

lemma cut_own:
  assumes "(q, s, e) \<in> set (with_bounds reqs)" "\<And>q. length (f q) = length (req_items q)"
  shows "subseq s e (concat (map f reqs)) = f q"
proof -
  have "map (\<lambda>se. cut se (concat (map f reqs))) (bounds_from 0 (map (\<lambda>q. length (req_items q)) reqs)) = map f reqs"
    using assms(2) by (intro cut_map_concat) simp
  moreover obtain i where "i < length reqs" "reqs ! i = q" "bounds_from 0 (map (\<lambda>q. length (req_items q)) reqs) ! i = (s, e)"
    using assms(1) by (auto simp: with_bounds_def in_set_zip)
  ultimately have "cut (s, e) (concat (map f reqs)) = f q" by (metis (no_types, lifting) length_bounds_from length_map nth_map)
  then show ?thesis by (simp add: cut_def subseq_def)
qed

lemma extend_own:
  assumes "(q, s, e) \<in> set (with_bounds reqs)"
  shows "extend_sub_batch (model_pass_spec reqs) (slice_of (q, s, e)) (model_pass_spec acc) = model_pass_spec (acc @ [q])"
proof -
  note c = cut_own [OF assms]
  have items: "fb_data (snd (snd q)) = req_items q" by (simp add: req_items_def)
  have "extend_sub_batch (model_pass_spec reqs) (slice_of (q, s, e)) (model_pass_spec acc) = model_pass_step q (model_pass_spec acc)"
    using items
    by (cases q) (simp add: extend_sub_batch_def slice_of_def model_pass_step_def Let_def model_pass_spec_def c del: length_subseq)
  then show ?thesis by (simp only: model_pass_spec_step)
qed

lemma extend_all:
  "set bs \<subseteq> set (with_bounds reqs) \<Longrightarrow>
   fold (extend_sub_batch (model_pass_spec reqs)) (map slice_of bs) (model_pass_spec acc) = model_pass_spec (acc @ map fst bs)"
proof (induction bs arbitrary: acc)
  case (Cons b bs)
  obtain q s e where "b = (q, s, e)" by (cases b) auto
  then show ?case using Cons extend_own [of q s e reqs acc] by simp
qed simp

lemma filter_zip_fst: "length xs = length ys \<Longrightarrow> map fst (filter (\<lambda>p. P (fst p)) (zip xs ys)) = filter P xs"
  by (induction xs ys rule: list_induct2) auto

text \<open>The requests of one model.\<close>

definition of_model :: "string option \<Rightarrow> pass_request list \<Rightarrow> pass_request list" where
  "of_model m reqs = filter (\<lambda>q. fst (snd q) = m) reqs"

lemma split_prepared:
  assumes "\<forall>q\<in>set reqs. req_items q \<noteq> []" "\<forall>q\<in>set reqs. is_ok (role_of st (fst (snd q)))" "reqs \<noteq> []"
  shows "split_by_model st (model_pass_spec reqs) = Inr (map (\<lambda>m. model_pass_spec (of_model m reqs)) (fold see (map (fst \<circ> snd) reqs) []))"
proof -
  let ?pb = "model_pass_spec reqs" and ?ms = "fold see (map (fst \<circ> snd) reqs) []"
  have ids: "distinct_ids (mp_model_ids ?pb) = ?ms"
    using distinct_ids_blocks [of reqs "\<lambda>q. length (req_items q)" "fst \<circ> snd"] assms(1) by (simp add: model_pass_spec_def comp_def)
  show ?thesis
  proof (cases "length ?ms \<le> 1")
    case True
    have "fst (snd (hd reqs)) \<in> set ?ms" using assms(3) by (simp add: fold_see_set)
    then obtain m where m: "?ms = [m]" using True by (cases ?ms) auto
    then have "\<forall>q\<in>set reqs. fst (snd q) = m" using fold_see_set [of "map (fst \<circ> snd) reqs" "[]"] by auto
    then have "of_model m reqs = reqs" by (simp add: of_model_def filter_id_conv)
    then show ?thesis using True m by (simp add: split_by_model_def ids)
  next
    case False
    let ?bs = "with_bounds reqs"
    have slices: "mp_slices ?pb = map slice_of ?bs" by (simp add: model_pass_spec_def slice_of_def with_bounds_def)
    have mids: "map (fst \<circ> (snd \<circ> slice_of)) ?bs = map (fst \<circ> snd) reqs"
      by (simp add: with_bounds_def slice_of_def comp_def case_prod_unfold flip: map_map [of "\<lambda>q. fst (snd q)" fst, unfolded comp_def])
    have "is_ok (role_of st (fst (snd s)))" if "s \<in> set (mp_slices ?pb)" for s
    proof -
      from that obtain q se where "(q, se) \<in> set ?bs" "s = slice_of (q, se)" by (auto simp: slices)
      moreover from this have "q \<in> set reqs" by (simp add: with_bounds_def set_zip_leftD)
      ultimately show ?thesis using assms(2) by (cases se) (auto simp: slice_of_def)
    qed
    then have "for_each (\<lambda>s. role_of st (fst (snd s))) (mp_slices ?pb) = Inr (map (\<lambda>s. projr (role_of st (fst (snd s)))) (mp_slices ?pb))"
      by (intro traverse_total) (metis is_ok_iff sum.sel(2))
    moreover have "slices_by_model (mp_slices ?pb) = map (\<lambda>m. (m, map slice_of (filter (\<lambda>b. fst (snd (fst b)) = m) ?bs))) ?ms"
    proof -
      have "values_of m (map (\<lambda>s. (fst (snd s), s)) (map slice_of ?bs)) = map slice_of (filter (\<lambda>b. fst (snd (fst b)) = m) ?bs)" for m
        by (auto simp: values_of_def filter_map comp_def slice_of_def case_prod_unfold intro: arg_cong [of _ _ "map slice_of"])
      then show ?thesis
        using mids unfolding slices_by_model_def slices
        by (subst group_values_closed) (simp add: group_values_ids comp_def)
    qed
    moreover have "fold (extend_sub_batch ?pb) (map slice_of (filter (\<lambda>b. fst (snd (fst b)) = m) ?bs)) empty_pass = model_pass_spec (of_model m reqs)" for m
    proof -
      have "empty_pass = model_pass_spec []" by (simp add: empty_pass_def model_pass_spec_def)
      then show ?thesis
        using extend_all [of "filter (\<lambda>b. fst (snd (fst b)) = m) ?bs" reqs "[]"]
          filter_zip_fst [of reqs "bounds_from 0 (map (\<lambda>q. length (req_items q)) reqs)" "\<lambda>q. fst (snd q) = m"]
        by (simp add: of_model_def with_bounds_def)
    qed
    ultimately show ?thesis using False by (auto simp: split_by_model_def ids comp_def)
  qed
qed

end
