(* ===== verification/Skyrl_Answers.thy ===== *)
theory Skyrl_Answers
  imports Skyrl_Passes Sft_Objective
begin

text \<open>
  What the requests of a batch get from the forward pass of \<^verbatim>\<open>backends/skyrl_train_backend.py\<close>: each the answer it would
  get alone, whatever model, length or images the other requests have.
\<close>

section \<open>What a worker sees of a sample\<close>

type_synonym sample_view = "real list \<times> real list \<times> real list"

definition cell :: "(string, real list option) dict \<Rightarrow> string \<Rightarrow> real list" where
  "cell row k = (case dict_get row k of Some (Some x) \<Rightarrow> x | _ \<Rightarrow> [])"

definition real_tokens :: "(string, real list option) dict \<Rightarrow> real list" where
  "real_tokens row = map fst (filter (\<lambda>(_, a). a \<noteq> 0) (zip (cell row ''sequences'') (cell row ''attention_mask'')))"

definition view_of_row :: "(string, real list option) dict \<Rightarrow> sample_view" where
  "view_of_row row = (real_tokens row, cell row ''pixel_values'', cell row ''image_grid_thw'')"

definition response_tokens_of :: "batch \<Rightarrow> int" where
  "response_tokens_of b = (case dict_get (known_meta b) ''response_length'' of Some (Number n) \<Rightarrow> n | _ \<Rightarrow> 0)"

text \<open>The documented contract of the worker's forward pass: one output per row, whose last response tokens the model
  computes from the row's unmasked tokens and its images.\<close>

definition runs_model :: "backend_env \<Rightarrow> string \<Rightarrow> string option \<Rightarrow> string \<Rightarrow> (sample_view \<Rightarrow> real list) \<Rightarrow> bool" where
  "runs_model env role mid t F = (\<forall>b. wf_batch b \<longrightarrow>
     (\<exists>out. be_forward env role mid b = Inr out \<and> po_type out = t \<and> length (po_outputs out) = size_of b \<and>
       (\<forall>i<size_of b. \<forall>k. int k \<le> response_tokens_of b \<and> k \<le> length (real_tokens (rows_of b ! i)) \<longrightarrow>
          tail_of k (values_of_output (output_key role) (po_outputs out ! i)) = tail_of k (F (view_of_row (rows_of b ! i))))))"

section \<open>What a datum asks for\<close>

definition weights_of :: "datum \<Rightarrow> real list" where
  "weights_of d = li_weights (d_loss_fn_inputs d)"

definition image_of :: "rendered_input \<Rightarrow> string \<Rightarrow> real list" where
  "image_of r k = (case ri_multi_modal r of None \<Rightarrow> [] | Some m \<Rightarrow> (case dict_get m k of None \<Rightarrow> [] | Some x \<Rightarrow> x))"

definition sequence_of :: "backend_env \<Rightarrow> datum \<Rightarrow> int list" where
  "sequence_of env d = full_sequence (ri_prompt_ids (be_render env (d_model_input d))) (target_tokens (d_loss_fn_inputs d))"

definition view_of_datum :: "backend_env \<Rightarrow> datum \<Rightarrow> sample_view" where
  "view_of_datum env d = (let r = be_render env (d_model_input d)
     in (map real_of_int (sequence_of env d), image_of r ''pixel_values'', image_of r ''image_grid_thw''))"

definition answer_to :: "backend_env \<Rightarrow> string \<Rightarrow> string \<Rightarrow> (sample_view \<Rightarrow> real list) \<Rightarrow> pass_request \<Rightarrow> result_data" where
  "answer_to env role t F q = ForwardBackwardOutput t
     (map (\<lambda>d. [(output_key role, tail_of (length (weights_of d)) (F (view_of_datum env d)))]) (req_items q)) []"

definition fields_match :: "(loss_fn_inputs \<Rightarrow> real list) \<Rightarrow> datum list \<Rightarrow> bool" where
  "fields_match f ds = (list_all (\<lambda>d. f (d_loss_fn_inputs d) = []) ds \<or> list_all (\<lambda>d. length (f (d_loss_fn_inputs d)) = length (weights_of d)) ds)"

text \<open>The data one model is given in a batch: every optional field is absent or has an entry per response token.\<close>

definition data_match :: "backend_env \<Rightarrow> string \<Rightarrow> datum list \<Rightarrow> bool" where
  "data_match env role ds = (list_all (\<lambda>d. length (weights_of d) \<le> length (sequence_of env d)) ds \<and>
     fields_match li_logprobs ds \<and> fields_match li_advantages ds \<and>
     (role = ''critic'' \<longrightarrow> list_all (\<lambda>d. li_values (d_loss_fn_inputs d) = [] \<and> li_returns (d_loss_fn_inputs d) = []) ds \<or>
       list_all (\<lambda>d. length (li_values (d_loss_fn_inputs d)) = length (weights_of d) \<and>
         length (li_returns (d_loss_fn_inputs d)) = length (weights_of d)) ds))"

section \<open>The training batch of a model\<close>

lemma zip_maps: "zip (map f xs) (map g xs) = map (\<lambda>x. (f x, g x)) xs"
  by (induction xs) auto

definition rectangular :: "tensor \<Rightarrow> bool" where
  "rectangular rs = (rs \<noteq> [] \<and> (\<forall>r\<in>set rs. length r = length (hd rs)))"

lemma rectangularI: "xs \<noteq> [] \<Longrightarrow> (\<And>x. x \<in> set xs \<Longrightarrow> length (f x) = n) \<Longrightarrow> rectangular (map f xs)"
  by (auto simp: rectangular_def hd_map)

definition matrix_of :: "tensor \<Rightarrow> column" where
  "matrix_of rs = Tensor [length (hd rs)] rs"

lemma matrix_of_wf: "rectangular rs \<Longrightarrow> wf_column (matrix_of rs)"
proof -
  assume r: "rectangular rs"
  have "length x = prod_list [length (hd rs)]" if "x \<in> set rs" for x
    using r that unfolding rectangular_def by (metis mult.right_neutral prod_list.Cons prod_list.Nil)
  then show ?thesis unfolding matrix_of_def wf_column.simps by blast
qed

lemma rows_matrix [simp]: "col_rows (matrix_of rs) = rs"
  by (simp add: matrix_of_def)

lemma matrix_columns_ok:
  assumes "\<forall>(k, rs)\<in>set cs. rectangular rs"
  shows "matrix_columns cs = Inr (map (\<lambda>(k, rs). (k, Some (matrix_of rs))) cs)"
  unfolding matrix_columns_def
proof (intro traverse_total)
  fix x assume "x \<in> set cs"
  then have "rectangular (snd x)" using assms by auto
  then have "torch_matrix (snd x) = Inr (matrix_of (snd x))"
    using torch_matrix_ok [of "snd x" "length (hd (snd x))"] unfolding rectangular_def matrix_of_def by blast
  then show "(\<lambda>(k, rs). case torch_matrix rs of Inl e \<Rightarrow> Inl e | Inr v \<Rightarrow> Inr (k, Some v)) x = Inr ((\<lambda>(k, rs). (k, Some (matrix_of rs))) x)"
    by (cases x) simp
qed

lemma model_pass_fields:
  defines "items reqs \<equiv> concat (map req_items reqs)"
  shows "mp_model_inputs (model_pass_spec reqs) = map d_model_input (items reqs)"
    "mp_targets (model_pass_spec reqs) = map (target_tokens \<circ> d_loss_fn_inputs) (items reqs)"
    "mp_token_weights (model_pass_spec reqs) = map weights_of (items reqs)"
    "mp_sampling_logprobs (model_pass_spec reqs) = map (li_logprobs \<circ> d_loss_fn_inputs) (items reqs)"
    "mp_advantages (model_pass_spec reqs) = map (li_advantages \<circ> d_loss_fn_inputs) (items reqs)"
    "mp_values (model_pass_spec reqs) = map (li_values \<circ> d_loss_fn_inputs) (items reqs)"
    "mp_returns (model_pass_spec reqs) = map (li_returns \<circ> d_loss_fn_inputs) (items reqs)"
  by (simp_all add: model_pass_spec_def items_def map_concat comp_def weights_of_def [abs_def])

definition action_width :: "datum list \<Rightarrow> nat" where
  "action_width ds = Max (set (map (length \<circ> weights_of) ds))"

definition sequence_width :: "backend_env \<Rightarrow> datum list \<Rightarrow> nat" where
  "sequence_width env ds = Max (set (map (length \<circ> sequence_of env) ds))"

lemma width_bounds:
  assumes "d \<in> set ds"
  shows "length (weights_of d) \<le> action_width ds" "length (sequence_of env d) \<le> sequence_width env ds"
  using assms unfolding action_width_def sequence_width_def by (auto intro: Max_ge)

definition aligned_row :: "datum list \<Rightarrow> (loss_fn_inputs \<Rightarrow> real list) \<Rightarrow> datum \<Rightarrow> real list" where
  "aligned_row ds f d = action_row (action_width ds) (weights_of d) (f (d_loss_fn_inputs d))"

definition present :: "(loss_fn_inputs \<Rightarrow> real list) \<Rightarrow> datum list \<Rightarrow> bool" where
  "present f ds = list_ex (\<lambda>d. f (d_loss_fn_inputs d) \<noteq> []) ds"

lemma aligned_rectangular:
  assumes "fields_match f ds" "present f ds" "ds \<noteq> []"
  shows "rectangular (map (aligned_row ds f) ds)"
proof (rule rectangularI [OF assms(3)])
  fix d assume d: "d \<in> set ds"
  have "length (f (d_loss_fn_inputs d)) = length (weights_of d)"
    using assms(1,2) d unfolding fields_match_def present_def list_all_iff list_ex_iff by blast
  then show "length (aligned_row ds f d) = action_width ds"
    using width_bounds(1) [OF d] by (simp add: aligned_row_def action_row_def)
qed

definition base_columns :: "backend_env \<Rightarrow> datum list \<Rightarrow> (string \<times> tensor) list" where
  "base_columns env ds =
     [(''sequences'', map (\<lambda>d. left_pad (sequence_width env ds) (real_of_int (be_pad_token env)) (map real_of_int (sequence_of env d))) ds),
      (''attention_mask'', map (\<lambda>d. left_pad (sequence_width env ds) 0 (replicate (length (sequence_of env d)) 1)) ds),
      (''loss_mask'', map (aligned_row ds li_weights) ds),
      (''response_mask'', map (\<lambda>d. action_row (action_width ds) (weights_of d) (replicate (length (weights_of d)) 1)) ds)]"

definition field_columns :: "string \<Rightarrow> datum list \<Rightarrow> (string \<times> tensor) list" where
  "field_columns role ds =
     (if present li_logprobs ds then [(''action_log_probs'', map (aligned_row ds li_logprobs) ds)] else [])
     @ (if present li_advantages ds then [(''advantages'', map (aligned_row ds li_advantages) ds)] else [])
     @ (if role = ''critic'' \<and> present li_values ds
        then [(''values'', map (aligned_row ds li_values) ds), (''returns'', map (aligned_row ds li_returns) ds)] else [])"

lemma base_rectangular: "ds \<noteq> [] \<Longrightarrow> \<forall>(k, rs)\<in>set (base_columns env ds). rectangular rs"
  using width_bounds(1) [of _ ds] width_bounds(2) [of _ ds env]
  by (auto simp: base_columns_def aligned_row_def action_row_def left_pad_def weights_of_def intro!: rectangularI)

lemma field_rectangular:
  assumes "data_match env role ds" "ds \<noteq> []"
  shows "\<forall>(k, rs)\<in>set (field_columns role ds). rectangular rs"
proof -
  have "fields_match li_logprobs ds" "fields_match li_advantages ds" using assms(1) by (simp_all add: data_match_def)
  moreover have "fields_match li_values ds \<and> fields_match li_returns ds \<and> present li_returns ds"
    if "role = ''critic''" "present li_values ds"
  proof -
    have "list_all (\<lambda>d. length (li_values (d_loss_fn_inputs d)) = length (weights_of d) \<and>
         length (li_returns (d_loss_fn_inputs d)) = length (weights_of d)) ds"
      using assms(1) that by (auto simp: data_match_def present_def list_all_iff list_ex_iff)
    then show ?thesis using that(2)
      by (auto simp: fields_match_def present_def list_all_iff list_ex_iff) (metis length_0_conv)
  qed
  ultimately show ?thesis using assms(2) by (auto simp: field_columns_def intro: aligned_rectangular)
qed

lemma critic_columns_ok:
  assumes "data_match env role ds" "role = ''critic''"
    "map (li_values \<circ> d_loss_fn_inputs) ds = mp_values pb" "map (li_returns \<circ> d_loss_fn_inputs) ds = mp_returns pb"
    "map weights_of ds = mp_token_weights pb"
  shows "critic_columns pb vs rs = Inr (if present li_values ds then [(''values'', vs), (''returns'', rs)] else [])"
proof -
  have has: "list_ex (\<lambda>v. v \<noteq> []) (mp_values pb) = present li_values ds" "list_ex (\<lambda>v. v \<noteq> []) (mp_returns pb) = present li_returns ds"
    by (simp_all add: present_def list_ex_iff flip: assms(3-5))
  have all: "zip (mp_values pb) (zip (mp_returns pb) (mp_token_weights pb))
      = map (\<lambda>d. (li_values (d_loss_fn_inputs d), li_returns (d_loss_fn_inputs d), weights_of d)) ds"
    by (simp add: zip_maps flip: assms(3-5))
  consider "\<not> present li_values ds" "\<not> present li_returns ds"
    | "list_all (\<lambda>d. length (li_values (d_loss_fn_inputs d)) = length (weights_of d) \<and>
         length (li_returns (d_loss_fn_inputs d)) = length (weights_of d)) ds"
    using assms(1,2) unfolding data_match_def present_def list_all_iff list_ex_iff by blast
  then show ?thesis
  proof cases
    case 1
    then show ?thesis unfolding critic_columns_def has Let_def by simp
  next
    case 2
    then have "present li_values ds = present li_returns ds"
      unfolding present_def list_all_iff list_ex_iff by (metis length_0_conv)
    moreover have "\<not> list_ex (\<lambda>(v, r, w). length v \<noteq> length w \<or> length r \<noteq> length w)
        (map (\<lambda>d. (li_values (d_loss_fn_inputs d), li_returns (d_loss_fn_inputs d), weights_of d)) ds)"
      using 2 by (auto simp: list_all_iff list_ex_iff)
    ultimately show ?thesis unfolding critic_columns_def has all Let_def by simp
  qed
qed

definition image_columns_of :: "backend_env \<Rightarrow> datum list \<Rightarrow> columns" where
  "image_columns_of env ds = (let rs = map (be_render env \<circ> d_model_input) ds
     in image_column rs ''pixel_values'' @ image_column rs ''image_grid_thw'')"

definition model_columns :: "backend_env \<Rightarrow> string \<Rightarrow> datum list \<Rightarrow> columns" where
  "model_columns env role ds =
     map (\<lambda>(k, rs). (k, Some (matrix_of rs))) (base_columns env ds @ field_columns role ds) @ image_columns_of env ds"

lemma model_columns_wf:
  assumes "data_match env role ds" "ds \<noteq> []"
  shows "wf_columns (length ds) (model_columns env role ds)"
proof -
  have rect: "\<forall>(k, rs)\<in>set (base_columns env ds @ field_columns role ds). rectangular rs"
    using base_rectangular [OF assms(2), of env] field_rectangular [OF assms] by (simp add: ball_Un)
  have len: "\<forall>(k, rs)\<in>set (base_columns env ds @ field_columns role ds). length rs = length ds"
    by (auto simp: base_columns_def field_columns_def)
  have "wf_column (matrix_of rs) \<and> length (col_rows (matrix_of rs)) = length ds"
    if "(k, rs) \<in> set (base_columns env ds @ field_columns role ds)" for k rs
    using bspec [OF rect that] bspec [OF len that] matrix_of_wf [of rs] by simp
  moreover have "wf_column v \<and> length (col_rows v) = length ds" if "(k, Some v) \<in> set (image_columns_of env ds)" for k v
    using that assms(2) by (auto simp: image_columns_of_def image_column_def Let_def split: if_splits)
  moreover have "dict_wf (model_columns env role ds)"
    by (auto simp: dict_wf_def model_columns_def base_columns_def field_columns_def image_columns_of_def image_column_def Let_def)
  ultimately show ?thesis
    unfolding wf_columns_def by (intro conjI) (fastforce simp: model_columns_def base_columns_def)+
qed

lemma to_training_batch_ok:
  assumes "data_match env role (concat (map req_items reqs))" "concat (map req_items reqs) \<noteq> []"
  shows "to_training_batch (be_render env) (be_pad_token env) (model_pass_spec reqs) role
    = Inr \<lparr>columns = model_columns env role (concat (map req_items reqs)), batch_size = Some (length (concat (map req_items reqs))),
        meta = Some [(''response_length'', Number (int (action_width (concat (map req_items reqs)))))]\<rparr>"
proof -
  define ds where "ds = concat (map req_items reqs)"
  let ?pb = "model_pass_spec reqs"
  note fields = model_pass_fields [of reqs, folded ds_def]
  have ds: "data_match env role ds" "ds \<noteq> []" using assms unfolding ds_def by blast+
  have seqs: "map2 (\<lambda>r. full_sequence (ri_prompt_ids r)) (map (be_render env) (mp_model_inputs ?pb)) (mp_targets ?pb) = map (sequence_of env) ds"
    by (simp add: fields zip_maps sequence_of_def comp_def)
  have rows: "zip (map (sequence_of env) ds) (zip (mp_token_weights ?pb) (zip (mp_sampling_logprobs ?pb)
        (zip (mp_advantages ?pb) (zip (mp_values ?pb) (mp_returns ?pb)))))
      = map (\<lambda>d. let x = d_loss_fn_inputs d in (sequence_of env d, weights_of d, li_logprobs x, li_advantages x, li_values x, li_returns x)) ds"
    by (simp add: fields zip_maps Let_def)
  have widths: "list_maximum (map length (map (sequence_of env) ds)) = Inr (sequence_width env ds)"
    "list_maximum (map length (mp_token_weights ?pb)) = Inr (action_width ds)"
    using ds(2) by (simp_all add: fields list_maximum_Max sequence_width_def action_width_def comp_def)
  have has: "list_ex (\<lambda>v. v \<noteq> []) (mp_sampling_logprobs ?pb) = present li_logprobs ds"
    "list_ex (\<lambda>v. v \<noteq> []) (mp_advantages ?pb) = present li_advantages ds"
    by (simp_all add: fields present_def list_ex_iff)
  have rect: "\<forall>(k, rs)\<in>set (base_columns env ds @ field_columns role ds). rectangular rs"
    using base_rectangular [OF ds(2), of env] field_rectangular [OF ds] by (simp add: ball_Un)
  define fs where "fs = (if present li_logprobs ds then [(''action_log_probs'', map (aligned_row ds li_logprobs) ds)] else [])
     @ (if present li_advantages ds then [(''advantages'', map (aligned_row ds li_advantages) ds)] else [])"
  define vs where "vs = (if role = ''critic'' \<and> present li_values ds
     then [(''values'', map (aligned_row ds li_values) ds), (''returns'', map (aligned_row ds li_returns) ds)] else [])"
  have fv: "field_columns role ds = fs @ vs" by (simp add: field_columns_def fs_def vs_def)
  have "\<forall>(k, rs)\<in>set (base_columns env ds @ fs). rectangular rs" "\<forall>(k, rs)\<in>set vs. rectangular rs"
    using rect by (simp_all add: fv ball_Un)
  note cols = this [THEN matrix_columns_ok]
  have critic: "(if role = ''critic'' then critic_columns ?pb (map (aligned_row ds li_values) ds) (map (aligned_row ds li_returns) ds) else Inr []) = Inr vs"
    using critic_columns_ok [OF ds(1), of ?pb] by (simp add: fields vs_def)
  have "mp_model_inputs ?pb \<noteq> []" using ds(2) by (simp add: fields)
  have base: "base_columns env ds @ (if list_ex (\<lambda>v. v \<noteq> []) (mp_sampling_logprobs ?pb) then [(''action_log_probs'', map (aligned_row ds li_logprobs) ds)] else [])
        @ (if list_ex (\<lambda>v. v \<noteq> []) (mp_advantages ?pb) then [(''advantages'', map (aligned_row ds li_advantages) ds)] else [])
      = base_columns env ds @ fs"
    by (simp add: has fs_def)
  have "new_batch (map (\<lambda>(k, rs). (k, Some (matrix_of rs))) (base_columns env ds @ fs) @ map (\<lambda>(k, rs). (k, Some (matrix_of rs))) vs @ image_columns_of env ds) md
      = Inr \<lparr>columns = model_columns env role ds, batch_size = Some (length ds), meta = md\<rparr>" for md
    using new_batch_wf [OF model_columns_wf [OF ds]] by (simp add: model_columns_def fv)
  note batch = this
  define R where "R = map (\<lambda>d. (sequence_of env d, weights_of d, li_logprobs (d_loss_fn_inputs d), li_advantages (d_loss_fn_inputs d),
    li_values (d_loss_fn_inputs d), li_returns (d_loss_fn_inputs d))) ds"
  have cells: "map (\<lambda>(q, _). left_pad (sequence_width env ds) (real_of_int (be_pad_token env)) (map real_of_int q)) R
        = map (\<lambda>d. left_pad (sequence_width env ds) (real_of_int (be_pad_token env)) (map real_of_int (sequence_of env d))) ds"
    "map (\<lambda>(q, _). left_pad (sequence_width env ds) 0 (replicate (length q) (1 :: real))) R
        = map (\<lambda>d. left_pad (sequence_width env ds) 0 (replicate (length (sequence_of env d)) 1)) ds"
    "map (\<lambda>(_, w, _). action_row (action_width ds) w w) R = map (aligned_row ds li_weights) ds"
    "map (\<lambda>(_, w, _). action_row (action_width ds) w (replicate (length w) (1 :: real))) R
        = map (\<lambda>d. action_row (action_width ds) (weights_of d) (replicate (length (weights_of d)) 1)) ds"
    "map (\<lambda>(_, w, lp, _). action_row (action_width ds) w lp) R = map (aligned_row ds li_logprobs) ds"
    "map (\<lambda>(_, w, _, a, _). action_row (action_width ds) w a) R = map (aligned_row ds li_advantages) ds"
    "map (\<lambda>(_, w, _, _, v, _). action_row (action_width ds) w v) R = map (aligned_row ds li_values) ds"
    "map (\<lambda>(_, w, _, _, _, r). action_row (action_width ds) w r) R = map (aligned_row ds li_returns) ds"
    by (simp_all add: R_def aligned_row_def [abs_def] weights_of_def)
  have images: "image_column (map (be_render env) (mp_model_inputs ?pb)) ''pixel_values'' @ image_column (map (be_render env) (mp_model_inputs ?pb)) ''image_grid_thw''
      = image_columns_of env ds"
    by (simp add: image_columns_of_def Let_def fields)
  show ?thesis
    unfolding to_training_batch_def Let_def
    by (simp only: seqs widths rows [unfolded Let_def] prod.case sum.case if_False \<open>mp_model_inputs ?pb \<noteq> []\<close> images cells critic
        base [unfolded base_columns_def] cols [unfolded base_columns_def] batch [unfolded base_columns_def] flip: ds_def R_def)
qed

section \<open>Its rows\<close>

lemma dict_get_append: "dict_get (xs @ ys) k = (case dict_get xs k of None \<Rightarrow> dict_get ys k | Some v \<Rightarrow> Some v)"
  by (induction xs) auto

lemma nth_sample_cell: "dict_get (nth_sample i b) k = map_option (map_option (\<lambda>w. col_rows w ! i)) (dict_get (columns b) k)"
proof -
  have "dict_get (map (\<lambda>(k, v). (k, map_option (\<lambda>w. col_rows w ! i) v)) cs) k = map_option (map_option (\<lambda>w. col_rows w ! i)) (dict_get cs k)"
    for cs :: columns
    by (induction cs) auto
  then show ?thesis by (simp add: nth_sample_def)
qed

lemma unmask: "map fst (filter (\<lambda>(_, a). a \<noteq> 0) (zip (left_pad n p xs) (left_pad n 0 (replicate (length xs) 1)))) = xs"
proof -
  have "filter (\<lambda>(_, a). a \<noteq> 0) (zip (replicate k p) (replicate k (0::real))) = []" for k by (induction k) auto
  moreover have "filter (\<lambda>(_, a). a \<noteq> 0) (zip xs (replicate (length xs) (1::real))) = zip xs (replicate (length xs) 1)"
    by (auto simp: filter_id_conv set_zip)
  ultimately show ?thesis by (simp add: left_pad_def)
qed

lemma image_cell:
  assumes "i < length rs" "cs = image_column rs k"
  shows "(case map_option (map_option (\<lambda>w. col_rows w ! i)) (dict_get cs k) of Some (Some x) \<Rightarrow> x | _ \<Rightarrow> []) = image_of (rs ! i) k"
proof (cases "list_all (\<lambda>v. v = None) (map (\<lambda>r. case ri_multi_modal r of None \<Rightarrow> None | Some d \<Rightarrow> dict_get d k) rs)")
  case True
  then have "(case ri_multi_modal (rs ! i) of None \<Rightarrow> None | Some d \<Rightarrow> dict_get d k) = None"
    using assms(1) by (auto simp: list_all_length)
  then show ?thesis using True by (auto simp: assms(2) image_column_def image_of_def split: option.splits)
next
  case False
  then show ?thesis using assms(1) by (auto simp: assms(2) image_column_def image_of_def split: option.splits)
qed

lemma view_of_nth:
  assumes "i < length ds" "columns b = model_columns env role ds"
  shows "view_of_row (nth_sample i b) = view_of_datum env (ds ! i)"
proof -
  let ?r = "nth_sample i b" and ?rs = "map (be_render env \<circ> d_model_input) ds"
  have "cell ?r ''sequences'' = left_pad (sequence_width env ds) (real_of_int (be_pad_token env)) (map real_of_int (sequence_of env (ds ! i)))"
    "cell ?r ''attention_mask'' = left_pad (sequence_width env ds) 0 (replicate (length (map real_of_int (sequence_of env (ds ! i)))) 1)"
    using assms by (simp_all add: cell_def nth_sample_cell model_columns_def base_columns_def)
  then have tokens: "real_tokens ?r = map real_of_int (sequence_of env (ds ! i))" by (simp only: real_tokens_def unmask)
  have none: "dict_get (map (\<lambda>(k, rs). (k, Some (matrix_of rs))) (base_columns env ds @ field_columns role ds)) k = None"
    if "k = ''pixel_values'' \<or> k = ''image_grid_thw''" for k
  proof -
    have base: "fst ` set (base_columns env ds) = {''sequences'', ''attention_mask'', ''loss_mask'', ''response_mask''}"
      by (simp add: base_columns_def insert_commute)
    have field: "fst ` set (field_columns role ds) \<subseteq> {''action_log_probs'', ''advantages'', ''values'', ''returns''}"
      by (auto simp: field_columns_def)
    have "k \<notin> fst ` set (base_columns env ds)" using that unfolding base by (elim disjE; simp)
    moreover have "k \<notin> fst ` set (field_columns role ds)"
      by (rule contra_subsetD [OF field]) (use that in \<open>elim disjE; simp\<close>)
    ultimately have "k \<notin> fst ` set (map (\<lambda>(k, rs). (k, Some (matrix_of rs))) (base_columns env ds @ field_columns role ds))"
      by (simp only: list.set_map image_image case_prod_unfold fst_conv set_append image_Un Un_iff simp_thms)
    then show ?thesis by (simp only: map_of_eq_None_iff simp_thms)
  qed
  have other: "dict_get (image_column ?rs k) l = None" if "k \<noteq> l" for k l
    using that by (simp add: image_column_def Let_def)
  have img: "dict_get (columns b) k = dict_get (image_column ?rs k) k" if "k = ''pixel_values'' \<or> k = ''image_grid_thw''" for k
  proof -
    have "dict_get (columns b) k = dict_get (image_columns_of env ds) k"
      unfolding assms(2) model_columns_def dict_get_append none [OF that] by simp
    also have "\<dots> = dict_get (image_column ?rs k) k"
      using that other [of "''pixel_values''" "''image_grid_thw''"] other [of "''image_grid_thw''" "''pixel_values''"]
      unfolding image_columns_of_def Let_def dict_get_append
      by (cases "dict_get (image_column ?rs ''pixel_values'') ''pixel_values''") auto
    finally show ?thesis .
  qed
  have "cell ?r k = image_of (?rs ! i) k" if "k = ''pixel_values'' \<or> k = ''image_grid_thw''" for k
    using image_cell [of i ?rs _ k] assms(1) img [OF that] by (simp add: cell_def nth_sample_cell)
  then show ?thesis using tokens assms(1) by (simp add: view_of_row_def view_of_datum_def Let_def)
qed

section \<open>Padding\<close>

lemma pad_backend_batch_ok:
  assumes "wf_batch b" "0 < size_of b" "paddable b" "0 < ranks"
  obtains b' missing where "pad_backend_batch ranks micro b = Inr (b', missing)" "wf_batch b'" "size_of b' = size_of b + missing"
    "\<And>i. i < size_of b \<Longrightarrow> rows_of b' ! i = nth_sample i b" "response_tokens_of b' = response_tokens_of b"
proof -
  define a where "a = (case micro of Some k \<Rightarrow> if k \<noteq> 0 then ranks * k else ranks | None \<Rightarrow> ranks)"
  have a: "a \<noteq> 0" using assms(4) by (auto simp: a_def split: option.splits)
  define n where "n = (a - size_of b mod a) mod a"
  have rows: "rows_of b ! i = nth_sample i b" if "i < size_of b" for i using that by (simp add: rows_of_def)
  have n: "batch_size b = Some (size_of b)" using wf_batchD [OF assms(1)] by simp
  have run: "pad_backend_batch ranks micro b = (case pad_training_input_batch n b of Inl e \<Rightarrow> Inl e | Inr b \<Rightarrow> Inr (b, n))"
    unfolding pad_backend_batch_def n_def a_def [symmetric] Let_def n option.case using a by simp
  show ?thesis
  proof (cases "n = 0")
    case True
    let ?b = "b\<lparr>meta := Some (dict_put ''pad_size'' (Number 0) (known_meta b))\<rparr>"
    have same: "size_of ?b = size_of b" "nth_sample i ?b = nth_sample i b" for i by (simp_all add: size_of_def nth_sample_def)
    have "wf_batch ?b" using assms(1) by (simp add: wf_batch_def)
    moreover have "rows_of ?b ! i = nth_sample i b" if "i < size_of b" for i using that by (simp add: rows_of_def same)
    moreover have "response_tokens_of ?b = response_tokens_of b" by (simp add: response_tokens_of_def known_meta_def dict_simps)
    ultimately show ?thesis using that [of ?b 0] run True by (simp add: pad_training_input_batch_def same)
  next
    case False
    obtain b' where b': "pad_training_input_batch n b = Inr b'" "wf_batch b'" "size_of b' = size_of b + n"
      "rows_of b' = rows_of b @ replicate n (padding_row b)" "same_schema b b'"
      using pad_batch_wf [OF assms(1-3)] False by blast
    have "response_tokens_of b' = response_tokens_of b"
      using b'(5) by (simp add: response_tokens_of_def same_schema_def same_layout_def)
    moreover have "rows_of b' ! i = nth_sample i b" if "i < size_of b" for i
      using that b'(4) rows by (simp add: nth_append rows_of_def)
    ultimately show ?thesis using that [of b' n] run b' by simp
  qed
qed

section \<open>The answers\<close>

lemma samples_of_run:
  assumes "runs_model env role mid t F" "data_match env role ds" "wf_batch b" "length ds \<le> size_of b"
    "response_tokens_of b = int (action_width ds)" "\<And>i. i < length ds \<Longrightarrow> view_of_row (rows_of b ! i) = view_of_datum env (ds ! i)"
  obtains out where "be_forward env role mid b = Inr out" "po_type out = t" "length (po_outputs out) = size_of b"
    "\<And>i. i < length ds \<Longrightarrow> tail_of (length (weights_of (ds ! i))) (values_of_output (output_key role) (po_outputs out ! i))
       = tail_of (length (weights_of (ds ! i))) (F (view_of_datum env (ds ! i)))"
proof -
  obtain out where out: "be_forward env role mid b = Inr out" "po_type out = t" "length (po_outputs out) = size_of b"
    "\<And>i k. i < size_of b \<Longrightarrow> int k \<le> response_tokens_of b \<Longrightarrow> k \<le> length (real_tokens (rows_of b ! i)) \<Longrightarrow>
       tail_of k (values_of_output (output_key role) (po_outputs out ! i)) = tail_of k (F (view_of_row (rows_of b ! i)))"
    using assms(1,3) unfolding runs_model_def by blast
  have "tail_of (length (weights_of (ds ! i))) (values_of_output (output_key role) (po_outputs out ! i))
       = tail_of (length (weights_of (ds ! i))) (F (view_of_datum env (ds ! i)))" if "i < length ds" for i
  proof -
    have d: "ds ! i \<in> set ds" using that by simp
    have "real_tokens (rows_of b ! i) = map real_of_int (sequence_of env (ds ! i))"
      using assms(6) [OF that] by (simp add: view_of_row_def view_of_datum_def Let_def)
    moreover have "length (weights_of (ds ! i)) \<le> length (sequence_of env (ds ! i))"
      using assms(2) d by (simp add: data_match_def list_all_iff)
    ultimately show ?thesis
      using out(4) [of i "length (weights_of (ds ! i))"] width_bounds(1) [OF d] assms(4,5) that assms(6) [OF that] by simp
  qed
  then show ?thesis using that out by blast
qed

lemma bounds_from_in: "(s, e) \<in> set (bounds_from a ns) \<Longrightarrow> s \<le> e \<and> e \<le> a + sum_list ns"
  by (induction a ns rule: bounds_from.induct) fastforce+

lemma cut_items:
  assumes "(q, s, e) \<in> set (with_bounds reqs)"
  shows "map (\<lambda>i. h (concat (map req_items reqs) ! i)) [s..<e] = map h (req_items q)" "e \<le> length (concat (map req_items reqs))"
proof -
  let ?ds = "concat (map req_items reqs)"
  have "(s, e) \<in> set (bounds_from 0 (map (\<lambda>q. length (req_items q)) reqs))" using assms by (auto simp: with_bounds_def dest: set_zip_rightD)
  from bounds_from_in [OF this] have b: "s \<le> e" "e \<le> length ?ds" by (simp_all add: length_concat comp_def)
  have "req_items q = subseq s e ?ds" by (rule cut_own [OF assms, symmetric]) simp
  then show "map (\<lambda>i. h (?ds ! i)) [s..<e] = map h (req_items q)" "e \<le> length ?ds"
    using b by (auto intro: nth_equalityI)
qed

lemma for_each_map: "(\<And>x. x \<in> set xs \<Longrightarrow> f (g x) = Inr (h x)) \<Longrightarrow> for_each f (map g xs) = Inr (map h xs)"
  by (induction xs) auto

lemma forward_single_ok:
  fixes reqs :: "pass_request list"
  defines "ds \<equiv> concat (map req_items reqs)"
  assumes "runs_model env role mid t F" "data_match env role ds" "ds \<noteq> []" "0 < be_dp env" "role_of st mid = Inr role"
    "\<forall>q\<in>set reqs. fst (snd q) = mid"
  shows "forward_single st env (model_pass_spec reqs) = Inr (dict_of_pairs (map (\<lambda>q. (fst q, answer_to env role t F q)) reqs))"
proof -
  let ?pb = "model_pass_spec reqs"
  have mids: "mp_model_ids ?pb = replicate (length ds) mid"
  proof (rule replicate_eqI)
    show "length (mp_model_ids ?pb) = length ds" by (simp add: model_pass_spec_def ds_def length_concat comp_def)
  qed (use assms(7) in \<open>auto simp: model_pass_spec_def\<close>)
  have "distinct_ids (mp_model_ids ?pb) = [mid]"
    using assms(4) unfolding mids distinct_ids_fold by (simp add: see_repeated see_def del: fold_replicate)
  then have role: "get_batch_role st (mp_model_ids ?pb) = Inr role" "first_id (mp_model_ids ?pb) = mid"
    using assms(4,6) by (simp_all add: get_batch_role_def mids first_id_def split: list.split) (cases ds; simp)
  define b where "b = \<lparr>columns = model_columns env role ds, batch_size = Some (length ds),
     meta = Some [(''response_length'', Number (int (action_width ds)))]\<rparr>"
  have b: "to_training_batch (be_render env) (be_pad_token env) ?pb role = Inr b"
    using to_training_batch_ok [of env role reqs] assms(3,4) unfolding ds_def b_def by blast
  have wf: "wf_batch b" using model_columns_wf [OF assms(3,4)] by (simp add: wf_batch_def b_def)
  have size: "size_of b = length ds" and cols: "columns b = model_columns env role ds" by (simp_all add: size_of_def b_def)
  have "paddable b" by (simp add: paddable_def pad_metadata_def pad_meta_def known_meta_def b_def is_ok_iff)
  then obtain b' missing where b': "pad_backend_batch (be_dp env) (if be_megatron env then Some (be_micro_forward env) else None) b = Inr (b', missing)"
    "wf_batch b'" "size_of b' = size_of b + missing" "\<And>i. i < size_of b \<Longrightarrow> rows_of b' ! i = nth_sample i b"
    "response_tokens_of b' = response_tokens_of b"
    using pad_backend_batch_ok [OF wf _ _ assms(5)] assms(4) size by (metis length_greater_0_conv)
  have "view_of_row (rows_of b' ! i) = view_of_datum env (ds ! i)" if "i < length ds" for i
    using view_of_nth [OF that cols] b'(4) [of i] that size by simp
  moreover have "response_tokens_of b' = int (action_width ds)"
    by (simp add: b'(5)) (simp add: response_tokens_of_def known_meta_def b_def)
  ultimately obtain out where out: "be_forward env role mid b' = Inr out" "po_type out = t" "length (po_outputs out) = size_of b'"
    "\<And>i. i < length ds \<Longrightarrow> tail_of (length (weights_of (ds ! i))) (values_of_output (output_key role) (po_outputs out ! i))
       = tail_of (length (weights_of (ds ! i))) (F (view_of_datum env (ds ! i)))"
    using samples_of_run [OF assms(2,3) b'(2), of thesis] b'(3) size by simp
  define os where "os = trim_padding missing (po_outputs out)"
  have os: "os = take (length ds) (po_outputs out)" "length os = length ds"
    using out(3) b'(3) size assms(4) by (auto simp: os_def trim_padding_def)
  let ?h = "\<lambda>d. [(output_key role, tail_of (length (weights_of d)) (F (view_of_datum env d)))]"
  have sample: "forward_sample ?pb (output_key role) os i = Inr (?h (ds ! i))" if "i < length ds" for i
  proof -
    have "element_at (mp_token_weights ?pb) i = Inr (weights_of (ds ! i))"
      using that by (simp add: model_pass_fields flip: ds_def) (simp add: element_at_def)
    moreover have "os \<noteq> []" "element_at os i = Inr (po_outputs out ! i)" using that os by (auto simp: element_at_def)
    ultimately show ?thesis using out(4) [OF that] by (simp add: forward_sample_def)
  qed
  have "for_each (forward_sample ?pb (output_key role) os) [s..<e] = Inr (map ?h (req_items q))" if "(q, s, e) \<in> set (with_bounds reqs)" for q s e
  proof -
    have "for_each (forward_sample ?pb (output_key role) os) [s..<e] = Inr (map (\<lambda>i. ?h (ds ! i)) [s..<e])"
      using cut_items(2) [OF that] sample by (intro traverse_total) (auto simp: ds_def)
    then show ?thesis using cut_items(1) [OF that, of ?h] by (simp add: ds_def)
  qed
  then have "for_each (\<lambda>(rid, _, s, e). case for_each (forward_sample ?pb (output_key role) os) [s..<e] of
       Inl x \<Rightarrow> Inl x | Inr os \<Rightarrow> Inr (rid, ForwardBackwardOutput (po_type out) os [])) (map slice_of (with_bounds reqs))
     = Inr (map (\<lambda>b. (fst (fst b), answer_to env role t F (fst b))) (with_bounds reqs))"
    by (intro for_each_map) (auto simp: slice_of_def answer_to_def out(2) split: prod.splits)
  moreover have "map (\<lambda>b. (fst (fst b), answer_to env role t F (fst b))) (with_bounds reqs) = map (\<lambda>q. (fst q, answer_to env role t F q)) reqs"
    by (simp add: with_bounds_def map_fst_zip flip: map_map [of "\<lambda>q. (fst q, answer_to env role t F q)" fst, unfolded comp_def])
  moreover have "mp_slices ?pb = map slice_of (with_bounds reqs)" by (simp add: model_pass_spec_def slice_of_def with_bounds_def)
  ultimately show ?thesis by (simp add: forward_single_def role b b' out(1) flip: os_def)
qed

lemma merge_passes_ok:
  "(\<And>m. m \<in> set ms \<Longrightarrow> f (g m) = Inr (d m)) \<Longrightarrow> merge_passes f (map g ms) acc = Inr (fold (\<lambda>m acc. dict_update acc (d m)) ms acc)"
  by (induction ms arbitrary: acc) auto

lemma merged_get:
  assumes "\<And>m v. m \<in> set ms \<Longrightarrow> (k, v) \<in> set (d m) \<Longrightarrow> v = x" "\<And>v. dict_get acc k = Some v \<Longrightarrow> v = x"
    "dict_get acc k \<noteq> None \<or> (\<exists>m\<in>set ms. k \<in> fst ` set (d m))"
  shows "dict_get (fold (\<lambda>m acc. dict_update acc (d m)) ms acc) k = Some x"
  using assms
proof (induction ms arbitrary: acc)
  case (Cons m ms)
  have new: "dict_get (dict_update acc (d m)) k = (case dict_get (rev (d m)) k of Some v \<Rightarrow> Some v | None \<Rightarrow> dict_get acc k)"
    by (simp add: dict_get_update)
  have "v = x" if "dict_get (rev (d m)) k = Some v" for v
    using map_of_SomeD [OF that] Cons.prems(1) [of m v] by simp
  then have old: "v = x" if "dict_get (dict_update acc (d m)) k = Some v" for v
    using that Cons.prems(2) [of v] unfolding new by (auto split: option.splits)
  have key: "dict_get (dict_update acc (d m)) k \<noteq> None \<or> (\<exists>m\<in>set ms. k \<in> fst ` set (d m))"
    using Cons.prems(3) map_of_eq_None_iff [of "rev (d m)" k] unfolding new by (auto split: option.splits)
  have "v = x" if "m' \<in> set ms" "(k, v) \<in> set (d m')" for m' v using Cons.prems(1) [of m' v] that by simp
  from Cons.IH [OF this old key] show ?case by simp
qed auto

section \<open>Properties\<close>

text \<open>C29: Splitting the batch of several models is the same as preparing the requests of each model apart: the sub-batches
  are exactly the batches the engine would have prepared for one model after the other.\<close>

theorem splitting_is_preparing_apart:
  assumes "prepare_model_pass_batch reqs = Inr pb" "reqs \<noteq> []" "\<forall>q\<in>set reqs. req_items q \<noteq> []" "\<forall>q\<in>set reqs. is_ok (role_of st (fst (snd q)))"
  shows "split_by_model st pb = for_each (\<lambda>m. prepare_model_pass_batch (of_model m reqs)) (distinct_ids (map (fst \<circ> snd) reqs))"
proof -
  have known: "filter (\<lambda>q. fb_loss_fn (snd (snd q)) \<notin> set SUPPORTED_LOSS_FNS) reqs = []" and pb: "pb = model_pass_spec reqs"
    using assms(1) by (simp_all add: prepare_model_pass_batch_spec split: list.splits)
  have "prepare_model_pass_batch (of_model m reqs) = Inr (model_pass_spec (of_model m reqs))" for m
  proof -
    have "filter (\<lambda>q. fb_loss_fn (snd (snd q)) \<notin> set SUPPORTED_LOSS_FNS) (of_model m reqs) = []"
      using known by (simp add: of_model_def filter_empty_conv)
    then show ?thesis by (simp add: prepare_model_pass_batch_spec)
  qed
  then show ?thesis
    using split_prepared [OF assms(3,4,2)] by (simp add: pb distinct_ids_fold traverse_total [where g = "\<lambda>m. model_pass_spec (of_model m reqs)"])
qed


section \<open>Examples\<close>

text \<open>Text is rendered as it is; the model returns the tokens themselves, and the training pass adds nothing to them.\<close>

definition text_render :: "model_input \<Rightarrow> rendered_input" where
  "text_render chunks = \<lparr>ri_prompt_ids = concat (map (\<lambda>c. case c of EncodedTextChunk ts \<Rightarrow> ts | _ \<Rightarrow> []) chunks), ri_multi_modal = None\<rparr>"

definition echo_output :: "string \<Rightarrow> batch \<Rightarrow> pass_output" where
  "echo_output role b = \<lparr>po_type = ''scalar'', po_outputs = map (\<lambda>r. [(output_key role, real_tokens r)]) (rows_of b), po_metrics = []\<rparr>"

definition echo_env :: backend_env where
  "echo_env = \<lparr>be_render = text_render, be_pad_token = 0, be_dp = 2, be_megatron = False, be_micro_train = 1, be_micro_forward = 1,
     be_value_clip = 1 / 5, be_forward = (\<lambda>role _ b. Inr (echo_output role b)), be_forward_backward = (\<lambda>role _ _ b. Inr (echo_output role b))\<rparr>"

definition pass_datum :: "int list \<Rightarrow> int \<Rightarrow> real list \<Rightarrow> real list \<Rightarrow> datum" where
  "pass_datum ids target weights advantages =
     \<lparr>d_loss_fn_inputs = \<lparr>target_tokens = [target], li_weights = weights, li_advantages = advantages, li_logprobs = advantages,
        li_values = [], li_returns = []\<rparr>, d_model_input = [EncodedTextChunk ids]\<rparr>"

definition pass_of :: "string \<Rightarrow> nat \<Rightarrow> string \<Rightarrow> datum list \<Rightarrow> pass_request" where
  "pass_of loss rid m ds = (rid, Some m, \<lparr>fb_data = ds, fb_loss_fn = loss, fb_loss_fn_config = None\<rparr>)"

definition two_models :: skyrl_models where
  "two_models = (no_models ''megatron'')\<lparr>km_roles := [(''a'', ''policy''), (''b'', ''policy'')]\<rparr>"

definition mixed_requests :: "pass_request list" where
  "mixed_requests = [pass_of ''importance_sampling'' 1 ''a'' [pass_datum [1, 2, 3] 4 [1, 1] []],
     pass_of ''importance_sampling'' 2 ''b'' [pass_datum [5] 6 [1] [2]],
     pass_of ''importance_sampling'' 3 ''a'' [pass_datum [7] 8 [1] [], pass_datum [1, 2, 3, 4] 9 [1, 1, 1] []]]"

lemma ex_runs: "runs_model echo_env role m ''scalar'' fst"
proof -
  have "length (rows_of b) = size_of b" for b by (simp add: rows_of_def)
  then show ?thesis by (simp add: runs_model_def echo_env_def echo_output_def values_of_output_def view_of_row_def)
qed


theorem splitting_is_preparing_apart_witness:
  "\<exists>pb. prepare_model_pass_batch mixed_requests = Inr pb
     \<and> split_by_model two_models pb = for_each (\<lambda>m. prepare_model_pass_batch (of_model m mixed_requests)) [Some ''a'', Some ''b'']"
proof -
  have prep: "prepare_model_pass_batch mixed_requests = Inr (model_pass_spec mixed_requests)"
    by (simp add: prepare_model_pass_batch_spec mixed_requests_def pass_of_def SUPPORTED_LOSS_FNS_def)
  have "distinct_ids (map (fst \<circ> snd) mixed_requests) = [Some ''a'', Some ''b'']" by code_simp
  moreover have "mixed_requests \<noteq> []" "\<forall>q\<in>set mixed_requests. req_items q \<noteq> []" "\<forall>q\<in>set mixed_requests. is_ok (role_of two_models (fst (snd q)))"
    by (simp_all add: mixed_requests_def pass_of_def req_items_def role_of_def get_role_def two_models_def is_ok_iff)
  ultimately show ?thesis using splitting_is_preparing_apart [OF prep, of two_models] prep by auto
qed

text \<open>Two training requests of one model that succeed alone fail together when only one of them carries advantages: the rows
  of the batch are then of different lengths.\<close>

theorem mixed_training_batch_fails:
  "let run = (\<lambda>reqs. case prepare_model_pass_batch reqs of Inl e \<Rightarrow> Inl e | Inr pb \<Rightarrow> backend_forward_backward two_models echo_env pb);
       supervised = pass_of ''cross_entropy'' 1 ''a'' [pass_datum [1, 2] 3 [1, 1] []]; policy = pass_of ''importance_sampling'' 2 ''a'' [pass_datum [4, 5] 6 [1, 1] [2, 2]]
   in is_ok (run [supervised]) \<and> is_ok (run [policy]) \<and> run [supervised, policy] = Inl ''expected sequence of another length''"
  by code_simp

end
